(* ===== verification/Prelude.thy ===== *)
theory Prelude imports Main "HOL-Library.Word" "HOL-Library.While_Combinator" begin

text \<open>
  Shared vocabulary of the development: the error classes of \<^verbatim>\<open>src/mls-error.ts\<close>,
  results that may be a thrown error, the JavaScript number operators the sources use, and
  the generic lemmas about lists and results the components share.

  A JavaScript \<open>number\<close> that the sources use as an integer is an \<^typ>\<open>int\<close>, a \<open>bigint\<close> is an
  \<^typ>\<open>int\<close>, a byte is an \<^typ>\<open>8 word\<close>, a \<open>Uint8Array\<close> is a list of bytes.  The bit operators of
  JavaScript coerce their operands to signed 32-bit integers and take their shift count
  modulo 32; both are written out below.
\<close>

unbundle bit_operations_syntax

named_theorems res_simps \<open>evaluation of result chains\<close>

section \<open>Errors and results\<close>

text \<open>
  One constructor per class of \<^verbatim>\<open>src/mls-error.ts\<close>, and \<open>AttachmentError\<close> of
  \<^verbatim>\<open>src/attachment/error.ts\<close>; the message text is left out.
  \<open>TypeError\<close> and \<open>RangeError\<close> are the native errors of the language.  \<open>NeverReturns\<close> is no error of
  the sources: it is the value of a call that loops for ever, and no handler catches it.
\<close>

datatype mls_error =
    ValidationError
  | CodecError
  | UsageError
  | DependencyError
  | CryptoVerificationError
  | CryptoError
  | InternalError
  | AttachmentError
  | TypeError
  | RangeError
  | NeverReturns

type_synonym 'a result = "mls_error + 'a"
type_synonym byte = "8 word"
type_synonym bytes = "byte list"

definition res_bind :: "'e + 'a \<Rightarrow> ('a \<Rightarrow> 'e + 'b) \<Rightarrow> 'e + 'b" where
  "res_bind m f = (case m of Inl e \<Rightarrow> Inl e | Inr x \<Rightarrow> f x)"

lemma res_bind_Inl [simp, res_simps]: "res_bind (Inl e) f = Inl e"
  by (simp add: res_bind_def)

lemma res_bind_Inr [simp, res_simps]: "res_bind (Inr x) f = f x"
  by (simp add: res_bind_def)

lemma res_bind_eq_Inr: "res_bind m f = Inr y \<longleftrightarrow> (\<exists>x. m = Inr x \<and> f x = Inr y)"
  by (cases m) auto

lemma res_bind_eq_Inl: "res_bind m f = Inl e \<longleftrightarrow> m = Inl e \<or> (\<exists>x. m = Inr x \<and> f x = Inl e)"
  by (cases m) auto

lemma res_bindE:
  assumes "res_bind m f = Inr y"
  obtains x where "m = Inr x" "f x = Inr y"
  using assms by (auto simp: res_bind_eq_Inr)

lemma res_bind_cong [fundef_cong]:
  "m = m' \<Longrightarrow> (\<And>x. m' = Inr x \<Longrightarrow> f x = f' x) \<Longrightarrow> res_bind m f = res_bind m' f'"
  by (cases m') auto

lemma res_bind_assoc: "res_bind (res_bind m f) g = res_bind m (\<lambda>x. res_bind (f x) g)"
  by (cases m) auto

lemma res_bind_Inr_right: "res_bind m Inr = m"
  by (cases m) auto

definition res_map :: "('a \<Rightarrow> 'b) \<Rightarrow> 'e + 'a \<Rightarrow> 'e + 'b" where
  "res_map f m = res_bind m (\<lambda>x. Inr (f x))"

lemma res_map_simps [simp, res_simps]: "res_map f (Inl e) = Inl e" "res_map f (Inr x) = Inr (f x)"
  by (simp_all add: res_map_def)

lemma res_map_eq_Inr: "res_map f m = Inr y \<longleftrightarrow> (\<exists>x. m = Inr x \<and> y = f x)"
  by (cases m) auto

text \<open>Running a fallible function over a list, left to right, stopping at the first error.\<close>

fun res_mapM :: "('a \<Rightarrow> 'e + 'b) \<Rightarrow> 'a list \<Rightarrow> 'e + 'b list" where
  "res_mapM f [] = Inr []"
| "res_mapM f (x # xs) = res_bind (f x) (\<lambda>y. res_bind (res_mapM f xs) (\<lambda>ys. Inr (y # ys)))"

lemma res_mapM_length: "res_mapM f xs = Inr ys \<Longrightarrow> length ys = length xs"
  by (induction xs arbitrary: ys) (auto simp: res_bind_eq_Inr)

lemma res_mapM_append:
  "res_mapM f (xs @ ys) = res_bind (res_mapM f xs) (\<lambda>us. res_bind (res_mapM f ys) (\<lambda>vs. Inr (us @ vs)))"
  by (induction xs) (simp_all add: res_bind_assoc res_bind_Inr_right)

lemma res_mapM_Inr: "(\<And>x. x \<in> set xs \<Longrightarrow> f x = Inr (g x)) \<Longrightarrow> res_mapM f xs = Inr (map g xs)"
  by (induction xs) auto

lemma res_mapM_eq_InrD:
  "res_mapM f xs = Inr ys \<Longrightarrow> list_all2 (\<lambda>x y. f x = Inr y) xs ys"
  by (induction xs arbitrary: ys) (auto simp: res_bind_eq_Inr)

lemma res_mapM_iff: "res_mapM f xs = Inr ys \<longleftrightarrow> list_all2 (\<lambda>x y. f x = Inr y) xs ys"
proof
  show "list_all2 (\<lambda>x y. f x = Inr y) xs ys \<Longrightarrow> res_mapM f xs = Inr ys"
    by (induction rule: list_all2_induct) auto
qed (rule res_mapM_eq_InrD)

text \<open>A loop that threads a state and may throw.\<close>

fun res_foldM :: "('s \<Rightarrow> 'a \<Rightarrow> 'e + 's) \<Rightarrow> 's \<Rightarrow> 'a list \<Rightarrow> 'e + 's" where
  "res_foldM f s [] = Inr s"
| "res_foldM f s (x # xs) = res_bind (f s x) (\<lambda>s'. res_foldM f s' xs)"

lemma res_foldM_invariant:
  assumes "res_foldM f s xs = Inr s'" and "P s"
    and "\<And>s x t. P s \<Longrightarrow> x \<in> set xs \<Longrightarrow> f s x = Inr t \<Longrightarrow> P t"
  shows "P s'"
  using assms
proof (induction xs arbitrary: s)
  case Nil
  then show ?case by simp
next
  case (Cons x xs)
  from Cons.prems(1) obtain t where t: "f s x = Inr t" and rest: "res_foldM f t xs = Inr s'"
    by (auto simp: res_bind_eq_Inr)
  have "P t" by (rule Cons.prems(3) [OF Cons.prems(2) _ t]) simp
  from rest this show ?case by (rule Cons.IH) (rule Cons.prems(3), simp_all)
qed

section \<open>Calls that return\<close>

text \<open>A loop that is a partial function has the value \<open>None\<close> where it does not end.\<close>

definition returned :: "'a result option \<Rightarrow> 'a result" where
  "returned r = (case r of None \<Rightarrow> Inl NeverReturns | Some x \<Rightarrow> x)"

lemma returned_Some [simp, res_simps]: "returned (Some x) = x"
  by (simp add: returned_def)

definition returns :: "'a result \<Rightarrow> bool" where
  "returns r \<longleftrightarrow> r \<noteq> Inl NeverReturns"

named_theorems returns_intros \<open>calls that return\<close>

lemma returns_Inr [simp, returns_intros]: "returns (Inr x)"
  by (simp add: returns_def)

lemma returns_Inl [simp]: "returns (Inl e) \<longleftrightarrow> e \<noteq> NeverReturns"
  by (simp add: returns_def)

lemma returns_bind [returns_intros]:
  "returns m \<Longrightarrow> (\<And>x. m = Inr x \<Longrightarrow> returns (f x)) \<Longrightarrow> returns (res_bind m f)"
  by (cases m) simp_all

lemma returns_map [simp]: "returns (res_map f m) \<longleftrightarrow> returns m"
  by (cases m) simp_all

lemma returns_mapM [returns_intros]: "(\<And>x. returns (f x)) \<Longrightarrow> returns (res_mapM f xs)"
  by (induction xs) (auto intro!: returns_bind)

section \<open>Calls with a state on the side\<close>

text \<open>
  A computation with a state on the side tracks one without: the same value or the same error,
  and a state that keeps \<open>I\<close>.
\<close>

definition tracks :: "('s \<Rightarrow> bool) \<Rightarrow> 'e + ('a \<times> 's) \<Rightarrow> 'e + 'a \<Rightarrow> bool" where
  "tracks I r s \<longleftrightarrow> (case r of Inl e \<Rightarrow> s = Inl e | Inr (v, st) \<Rightarrow> s = Inr v \<and> I st)"

lemma tracks_Inl [simp]: "tracks I (Inl e) s \<longleftrightarrow> s = Inl e"
  by (simp add: tracks_def)

lemma tracks_Inr [simp]: "tracks I (Inr (v, st)) s \<longleftrightarrow> s = Inr v \<and> I st"
  by (simp add: tracks_def)

lemma tracks_bind:
  assumes "tracks I m s" "\<And>v st. I st \<Longrightarrow> s = Inr v \<Longrightarrow> tracks J (f (v, st)) (g v)"
  shows "tracks J (res_bind m f) (res_bind s g)"
proof (cases m)
  case (Inr z)
  then show ?thesis using assms by (cases z) simp
qed (use assms in simp)

lemma tracks_same:
  "(\<And>v. m = Inr v \<Longrightarrow> tracks J (f v) (g v)) \<Longrightarrow> tracks J (res_bind m f) (res_bind m g)"
  by (cases m) simp_all

lemma tracks_map:
  assumes "tracks I m s" "\<And>v st. I st \<Longrightarrow> s = Inr v \<Longrightarrow> fst (f (v, st)) = g v \<and> J (snd (f (v, st)))"
  shows "tracks J (res_map f m) (res_map g s)"
proof (cases m)
  case (Inr z)
  then obtain v st where z: "m = Inr (v, st)" by (cases z) simp
  then show ?thesis using assms(1) assms(2) [of st v] by (cases "f (v, st)") simp
qed (use assms in simp)

section \<open>JavaScript integer operators\<close>

definition to_int32 :: "int \<Rightarrow> int" where
  "to_int32 x = signed_take_bit 31 x"

definition js_shl :: "int \<Rightarrow> int \<Rightarrow> int" where
  "js_shl x k = to_int32 (push_bit (nat (k mod 32)) (to_int32 x))"

definition js_shr :: "int \<Rightarrow> int \<Rightarrow> int" where
  "js_shr x k = drop_bit (nat (k mod 32)) (to_int32 x)"

definition js_and :: "int \<Rightarrow> int \<Rightarrow> int" where
  "js_and x y = to_int32 x AND to_int32 y"

definition js_or :: "int \<Rightarrow> int \<Rightarrow> int" where
  "js_or x y = to_int32 x OR to_int32 y"

definition js_xor :: "int \<Rightarrow> int \<Rightarrow> int" where
  "js_xor x y = to_int32 x XOR to_int32 y"

lemma to_int32_id [simp]: "0 \<le> x \<Longrightarrow> x < 2147483648 \<Longrightarrow> to_int32 x = x"
  by (simp add: to_int32_def signed_take_bit_int_eq_self)

lemma to_int32_less: "to_int32 x < 2147483648"
  using signed_take_bit_int_less_exp [of 31 x] by (simp add: to_int32_def)

lemma js_shr_div: "0 \<le> x \<Longrightarrow> x < 2147483648 \<Longrightarrow> 0 \<le> k \<Longrightarrow> k < 32 \<Longrightarrow> js_shr x k = x div 2 ^ nat k"
  by (simp add: js_shr_def drop_bit_eq_div)

lemma js_shl_mult:
  assumes "0 \<le> x" "0 \<le> k" "k < 32" "x * 2 ^ nat k < 2147483648"
  shows "js_shl x k = x * 2 ^ nat k"
proof -
  have "x * 1 \<le> x * 2 ^ nat k"
    using assms(1) by (intro mult_left_mono) auto
  then have "x < 2147483648" using assms(4) by simp
  then show ?thesis
    using assms by (simp add: js_shl_def push_bit_eq_mult)
qed

lemma js_and_mask:
  assumes "0 \<le> x" "x < 2147483648" "n \<le> 31"
  shows "js_and x (2 ^ n - 1) = x mod 2 ^ n"
proof -
  have "(2 :: int) ^ n \<le> 2 ^ 31" using assms(3) by (intro power_increasing) auto
  then have "to_int32 (2 ^ n - 1) = 2 ^ n - 1" by simp
  then show ?thesis
    using assms by (simp add: js_and_def flip: mask_eq_exp_minus_1 take_bit_eq_mask take_bit_eq_mod)
qed

lemma int_or_add:
  fixes x y :: int
  assumes "0 \<le> x" "x < 2 ^ n" "2 ^ n dvd y"
  shows "x OR y = x + y"
proof -
  from assms(3) obtain m where y: "y = push_bit n m" by (auto simp: push_bit_eq_mult)
  have x: "take_bit n x = x" using assms(1,2) by (simp add: take_bit_int_eq_self_iff)
  have "x AND y = 0"
    unfolding y by (subst x [symmetric]) (auto intro!: bit_eqI simp: bit_simps)
  then show ?thesis by (simp add: disjunctive_add_eq_or)
qed

lemma js_or_add:
  assumes "0 \<le> x" "x < 2 ^ n" "2 ^ n dvd y" "0 \<le> y" "x + y < 2147483648"
  shows "js_or x y = x + y"
  using assms int_or_add [OF assms(1-3)] by (simp add: js_or_def)

section \<open>Lists\<close>

text \<open>A JavaScript array read: out of range gives \<open>undefined\<close>.\<close>

definition arr_get :: "'a list \<Rightarrow> int \<Rightarrow> 'a option" where
  "arr_get xs i = (if 0 \<le> i \<and> i < int (length xs) then Some (xs ! nat i) else None)"

text \<open>The same on an array whose entries may be \<open>undefined\<close> themselves.\<close>

definition sparse_get :: "'a option list \<Rightarrow> int \<Rightarrow> 'a option" where
  "sparse_get xs i = (if 0 \<le> i \<and> i < int (length xs) then xs ! nat i else None)"

lemma arr_get_of_nat [simp]: "i < length xs \<Longrightarrow> arr_get xs (int i) = Some (xs ! i)"
  by (simp add: arr_get_def)

lemma take_drop_append_split:
  "a + b \<le> length xs - i \<Longrightarrow> take (a + b) (drop i xs) = take a (drop i xs) @ take b (drop (i + a) xs)"
  by (simp add: take_add add.commute)

lemma drop_append_exact [simp]: "drop (length p) (p @ q) = q"
  by simp

end
