(* ===== verification/Codec.thy ===== *)
theory Codec imports Prelude begin

text \<open>
  The TLS presentation-language codec of \<^verbatim>\<open>src/codec/\<close> and the enum helpers of
  \<^verbatim>\<open>src/util/enum-helpers.ts\<close>.  An encoder returns the bytes or throws; a decoder reads a
  buffer at an offset and returns the value with the number of bytes it consumed, returns
  \<open>undefined\<close> (\<open>Inr None\<close>) or throws (\<open>Inl\<close>).  Offsets and lengths are \<^typ>\<open>nat\<close>: every offset
  the sources pass is a sum of lengths.

  The variadic combinators take heterogeneous tuples of codecs; here a tuple of codecs is
  built from \<open>encPair\<close> and \<open>decPair\<close>, which run the first codec, then the second at the
  following offset, as the loops of the sources do.

  The locale \<open>codec\<close> is the contract every wire type of the package relies on: decoding what
  was encoded gives the value back, whatever surrounds it, and whatever decodes is the one
  canonical encoding of its value.
\<close>

type_synonym 'a encoder = "'a \<Rightarrow> bytes result"
type_synonym 'a decoder = "bytes \<Rightarrow> nat \<Rightarrow> ('a \<times> nat) option result"

named_theorems codec_intros \<open>codecs are closed under the combinators\<close>

section \<open>Combinators\<close>

definition contramapEncoder :: "'t encoder \<Rightarrow> ('u \<Rightarrow> 't) \<Rightarrow> 'u encoder" where
  "contramapEncoder enc f = (\<lambda>u. enc (f u))"

definition encPair :: "'a encoder \<Rightarrow> 'b encoder \<Rightarrow> ('a \<times> 'b) encoder" where
  "encPair e1 e2 = (\<lambda>(x, y). res_bind (e1 x) (\<lambda>a. res_bind (e2 y) (\<lambda>b. Inr (a @ b))))"

definition contramapEncoders :: "'t encoder \<Rightarrow> ('r \<Rightarrow> 't) \<Rightarrow> 'r encoder" where
  "contramapEncoders encoders toTuple = (\<lambda>v. encoders (toTuple v))"

definition encodeVoid :: "'t encoder" where
  "encodeVoid = (\<lambda>_. Inr [])"

definition mapDecoder :: "'t decoder \<Rightarrow> ('t \<Rightarrow> 'u) \<Rightarrow> 'u decoder" where
  "mapDecoder dec f = (\<lambda>b off. res_bind (dec b off) (\<lambda>x.
     case x of None \<Rightarrow> Inr None | Some (t, l) \<Rightarrow> Inr (Some (f t, l))))"

definition mapDecoderOption :: "'t decoder \<Rightarrow> ('t \<Rightarrow> 'u option) \<Rightarrow> 'u decoder" where
  "mapDecoderOption dec f = (\<lambda>b off. res_bind (dec b off) (\<lambda>x.
     case x of None \<Rightarrow> Inr None
     | Some (t, l) \<Rightarrow> (case f t of None \<Rightarrow> Inr None | Some u \<Rightarrow> Inr (Some (u, l)))))"

definition decPair :: "'a decoder \<Rightarrow> 'b decoder \<Rightarrow> ('a \<times> 'b) decoder" where
  "decPair d1 d2 = (\<lambda>b off. res_bind (d1 b off) (\<lambda>r1.
     case r1 of None \<Rightarrow> Inr None
     | Some (x, n) \<Rightarrow> res_bind (d2 b (off + n)) (\<lambda>r2.
         case r2 of None \<Rightarrow> Inr None | Some (y, m) \<Rightarrow> Inr (Some ((x, y), n + m)))))"

definition mapDecoders :: "'t decoder \<Rightarrow> ('t \<Rightarrow> 'r) \<Rightarrow> 'r decoder" where
  "mapDecoders decoders f = (\<lambda>b off. res_bind (decoders b off) (\<lambda>result.
     case result of None \<Rightarrow> Inr None | Some (vs, totalLength) \<Rightarrow> Inr (Some (f vs, totalLength))))"

definition mapDecodersOption :: "'t decoder \<Rightarrow> ('t \<Rightarrow> 'r option) \<Rightarrow> 'r decoder" where
  "mapDecodersOption decoders f = (\<lambda>b off. res_bind (mapDecoders decoders f b off) (\<lambda>initial.
     case initial of None \<Rightarrow> Inr None
     | Some (r, len) \<Rightarrow> (case r of None \<Rightarrow> Inr None | Some r' \<Rightarrow> Inr (Some (r', len)))))"

definition flatMapDecoderAndMap ::
    "'t decoder \<Rightarrow> ('t \<Rightarrow> 'u decoder) \<Rightarrow> ('t \<Rightarrow> 'u \<Rightarrow> 'v) \<Rightarrow> 'v decoder" where
  "flatMapDecoderAndMap dec f g = (\<lambda>b off. res_bind (dec b off) (\<lambda>decodedT.
     case decodedT of None \<Rightarrow> Inr None
     | Some (t, len) \<Rightarrow> res_bind (f t b (off + len)) (\<lambda>decodedU.
         case decodedU of None \<Rightarrow> Inr None | Some (u, len2) \<Rightarrow> Inr (Some (g t u, len + len2)))))"

definition flatMapDecoder :: "'t decoder \<Rightarrow> ('t \<Rightarrow> 'u decoder) \<Rightarrow> 'u decoder" where
  "flatMapDecoder dec f = flatMapDecoderAndMap dec f (\<lambda>_ u. u)"

definition orDecoder :: "'t decoder \<Rightarrow> 't decoder \<Rightarrow> 't decoder" where
  "orDecoder decT decU = (\<lambda>b off. res_bind (decT b off) (\<lambda>t.
     case t of Some r \<Rightarrow> Inr (Some r) | None \<Rightarrow> decU b off))"

definition succeedDecoder :: "'t \<Rightarrow> 't decoder" where
  "succeedDecoder t = (\<lambda>_ _. Inr (Some (t, 0)))"

definition decodeVoid :: "unit decoder" where
  "decodeVoid = (\<lambda>_ _. Inr (Some ((), 0)))"

definition failDecoder :: "'t decoder" where
  "failDecoder = (\<lambda>_ _. Inr None)"

section \<open>Numbers\<close>

definition assertUintRange :: "int \<Rightarrow> nat \<Rightarrow> unit result" where
  "assertUintRange n bits = (if n < 0 \<or> n > 2 ^ bits - 1 then Inl CodecError else Inr ())"

text \<open>Big-endian bytes, as \<open>DataView\<close> writes and reads them.\<close>

fun be_bytes :: "nat \<Rightarrow> int \<Rightarrow> bytes" where
  "be_bytes 0 n = []"
| "be_bytes (Suc k) n = word_of_int (n div 256 ^ k) # be_bytes k n"

definition be_int :: "bytes \<Rightarrow> int" where
  "be_int bs = foldl (\<lambda>a b. a * 256 + uint b) 0 bs"

definition encodeUint8 :: "int encoder" where
  "encodeUint8 n = res_bind (assertUintRange n 8) (\<lambda>_. Inr (be_bytes 1 n))"

definition decodeUint8 :: "int decoder" where
  "decodeUint8 b off = (if off < length b then Inr (Some (uint (b ! off), 1)) else Inr None)"

definition getUint :: "nat \<Rightarrow> int decoder" where
  "getUint k b off =
     (if off + k \<le> length b then Inr (Some (be_int (take k (drop off b)), k)) else Inr None)"

definition encodeUint16 :: "int encoder" where
  "encodeUint16 n = res_bind (assertUintRange n 16) (\<lambda>_. Inr (be_bytes 2 n))"

definition decodeUint16 :: "int decoder" where
  "decodeUint16 b off = getUint 2 b off"

definition encodeUint32 :: "int encoder" where
  "encodeUint32 n = res_bind (assertUintRange n 32) (\<lambda>_. Inr (be_bytes 4 n))"

definition decodeUint32 :: "int decoder" where
  "decodeUint32 b off = getUint 4 b off"

text \<open>\<open>setBigUint64\<close> has no range check: it stores the value modulo \<open>2 ^ 64\<close>.\<close>

definition encodeUint64 :: "int encoder" where
  "encodeUint64 n = Inr (be_bytes 8 n)"

definition decodeUint64 :: "int decoder" where
  "decodeUint64 b off = getUint 8 b off"

section \<open>Optional values\<close>

definition prependPresenceOctet :: "bytes \<Rightarrow> bytes result" where
  "prependPresenceOctet v = res_bind (encodeUint8 1) (\<lambda>o1. Inr (o1 @ v))"

definition encodeOptional :: "'t encoder \<Rightarrow> 't option encoder" where
  "encodeOptional encodeT = (\<lambda>t. case t of
     Some v \<Rightarrow> res_bind (encodeT v) prependPresenceOctet
   | None \<Rightarrow> Inr [0])"

definition decodeOptional :: "'t decoder \<Rightarrow> 't option decoder" where
  "decodeOptional decodeT = (\<lambda>b off. res_bind (decodeUint8 b off) (\<lambda>presence.
     case presence of None \<Rightarrow> Inr None
     | Some (presenceOctet, _) \<Rightarrow>
         if presenceOctet = 1 then
           res_bind (decodeT b (off + 1)) (\<lambda>r.
             case r of None \<Rightarrow> Inr None | Some (v, n) \<Rightarrow> Inr (Some (Some v, n + 1)))
         else if presenceOctet = 0 then Inr (Some (None, 1))
         else Inr None))"

section \<open>Variable-length vectors\<close>

definition encodeLength :: "nat \<Rightarrow> bytes result" where
  "encodeLength len0 = (let len = int len0 in
     if len < 64 then Inr [word_of_int (js_and len 63)]
     else if len < 16384 then
       Inr [word_of_int (js_or (js_and (js_shr len 8) 63) 64), word_of_int (js_and len 255)]
     else if len < 1073741824 then
       Inr [word_of_int (js_or (js_and (js_shr len 24) 63) 128),
            word_of_int (js_and (js_shr len 16) 255),
            word_of_int (js_and (js_shr len 8) 255),
            word_of_int (js_and len 255)]
     else Inl CodecError)"

definition encodeVarLenData :: "bytes encoder" where
  "encodeVarLenData data = res_bind (encodeLength (length data)) (\<lambda>lenBytes. Inr (lenBytes @ data))"

definition determineLength :: "bytes \<Rightarrow> nat \<Rightarrow> (nat \<times> nat) result" where
  "determineLength data off =
     (if off \<ge> length data then Inl CodecError else
      let firstByte = uint (data ! off); prefix = js_shr firstByte 6 in
      if prefix = 0 then Inr (nat (js_and firstByte 63), 1)
      else if prefix = 1 then
        (if off + 2 > length data then Inl CodecError else
         let len = js_or (js_shl (js_and firstByte 63) 8) (uint (data ! (off + 1))) in
         if len < 64 then Inl CodecError else Inr (nat len, 2))
      else if prefix = 2 then
        (if off + 4 > length data then Inl CodecError else
         let len = js_or (js_or (js_or (js_shl (js_and firstByte 63) 24)
                     (js_shl (uint (data ! (off + 1))) 16))
                     (js_shl (uint (data ! (off + 2))) 8))
                     (uint (data ! (off + 3))) in
         if len < 16384 then Inl CodecError else Inr (nat len, 4))
      else Inl CodecError)"

definition decodeVarLenData :: "bytes decoder" where
  "decodeVarLenData buf off =
     (if off \<ge> length buf then Inl CodecError else
      res_bind (determineLength buf off) (\<lambda>(len, lengthFieldSize).
        let totalBytes = lengthFieldSize + len in
        if off + totalBytes > length buf then Inl CodecError
        else Inr (Some (take len (drop (off + lengthFieldSize) buf), totalBytes))))"

definition encodeVarLenType :: "'t encoder \<Rightarrow> 't list encoder" where
  "encodeVarLenType enc data = res_bind (res_mapM enc data) (\<lambda>encodedParts.
     res_bind (encodeLength (length (concat encodedParts))) (\<lambda>lengthHeader.
       Inr (lengthHeader @ concat encodedParts)))"

text \<open>The cursor strictly grows, because an item that consumes nothing ends the loop.\<close>

function decodeItems :: "'t decoder \<Rightarrow> bytes \<Rightarrow> nat \<Rightarrow> 't list \<Rightarrow> 't list option result" where
  "decodeItems dec b cursor acc =
     (if cursor < length b then
        res_bind (dec b cursor) (\<lambda>item.
          case item of None \<Rightarrow> Inr None
          | Some (v, len) \<Rightarrow>
              if len = 0 then Inr None else decodeItems dec b (cursor + len) (acc @ [v]))
      else Inr (Some acc))"
  by pat_completeness auto
termination
  by (relation "measure (\<lambda>(dec, b, cursor, acc). length b - cursor)") auto

declare decodeItems.simps [simp del]

definition decodeVarLenType :: "'t decoder \<Rightarrow> 't list decoder" where
  "decodeVarLenType dec = (\<lambda>b off. res_bind (decodeVarLenData b off) (\<lambda>d.
     case d of None \<Rightarrow> Inr None
     | Some (totalBytes, totalLength) \<Rightarrow>
         res_bind (decodeItems dec totalBytes 0 []) (\<lambda>r.
           case r of None \<Rightarrow> Inr None | Some result \<Rightarrow> Inr (Some (result, totalLength)))))"

section \<open>Enumerations\<close>

text \<open>
  A \<open>const\<close> object from names to numbers is the list of its entries.  A lookup of a missing
  key gives \<open>undefined\<close>, which the range assertion of the number encoders rejects.
\<close>

definition encodeEnum :: "int encoder \<Rightarrow> ('k \<times> int) list \<Rightarrow> 'k encoder" where
  "encodeEnum enc t k = (case map_of t k of None \<Rightarrow> Inl CodecError | Some n \<Rightarrow> enc n)"

definition reverseMap :: "('k \<times> int) list \<Rightarrow> (int \<times> 'k) list" where
  "reverseMap obj = foldl (\<lambda>acc (key, v). (v, key) # acc) [] obj"

definition enumNumberToKey :: "('k \<times> int) list \<Rightarrow> int \<Rightarrow> 'k option" where
  "enumNumberToKey t n = (if n \<in> set (map snd t) then map_of (reverseMap t) n else None)"

text \<open>
  The strings of an open enum: a known name, the decimal rendering of an integer, or any
  other string, on which \<open>Number\<close> gives no integer.
\<close>

datatype 'k open_name = Known 'k | Numeric int | Opaque string

definition openEnumNumberToKey :: "('k \<times> int) list \<Rightarrow> int \<Rightarrow> 'k open_name option" where
  "openEnumNumberToKey t n =
     (case enumNumberToKey t n of None \<Rightarrow> Some (Numeric n) | Some k \<Rightarrow> Some (Known k))"

definition openEnumNumberEncoder :: "('k \<times> int) list \<Rightarrow> 'k open_name \<Rightarrow> int result" where
  "openEnumNumberEncoder t s = (case s of
     Known k \<Rightarrow> (case map_of t k of None \<Rightarrow> Inl CodecError | Some n \<Rightarrow> Inr n)
   | Numeric n \<Rightarrow> Inr n
   | Opaque _ \<Rightarrow> Inl CodecError)"

definition encodeOpenEnum :: "int encoder \<Rightarrow> ('k \<times> int) list \<Rightarrow> 'k open_name encoder" where
  "encodeOpenEnum enc t s = res_bind (openEnumNumberEncoder t s) enc"

section \<open>Byte arrays\<close>

definition constantTimeEqual :: "bytes \<Rightarrow> bytes \<Rightarrow> bool" where
  "constantTimeEqual a b =
     (if length a \<noteq> length b then False
      else foldl (\<lambda>r (x, y). r OR (x XOR y)) 0 (zip a b) = (0 :: byte))"

definition concatUint8Arrays :: "bytes \<Rightarrow> bytes \<Rightarrow> bytes" where
  "concatUint8Arrays a b = a @ b"

definition updateArray :: "'t list \<Rightarrow> nat \<Rightarrow> 't \<Rightarrow> 't list" where
  "updateArray tree i t = take i tree @ [t] @ drop (Suc i) tree"

end
