(* ===== verification/CodecLaws.thy ===== *)
theory CodecLaws imports Codec begin

text \<open>
  The contract of a wire codec as a locale, and the proof that every combinator of
  \<^verbatim>\<open>src/codec/\<close> keeps it.  The theories of the wire types interpret the locale on their own
  encoder and decoder with these rules.
\<close>

section \<open>The contract\<close>

text \<open>
  \<open>ok\<close> singles out the values whose encoding decodes to themselves; encoders that reject a
  value (a number out of range, say) need no clause of \<open>ok\<close> for it.
\<close>

locale codec =
  fixes ok :: "'a \<Rightarrow> bool" and enc :: "'a encoder" and dec :: "'a decoder"
  assumes roundtrip:
      "ok x \<Longrightarrow> enc x = Inr bs \<Longrightarrow> dec (p @ bs @ q) (length p) = Inr (Some (x, length bs))"
    and canonical:
      "off \<le> length b \<Longrightarrow> dec b off = Inr (Some (x, n)) \<Longrightarrow>
       ok x \<and> off + n \<le> length b \<and> enc x = Inr (take n (drop off b))"
begin

lemma decode_encode: "ok x \<Longrightarrow> enc x = Inr bs \<Longrightarrow> dec bs 0 = Inr (Some (x, length bs))"
  using roundtrip [of x bs "[]" "[]"] by simp

lemma decode_encode_prefix:
  "ok x \<Longrightarrow> enc x = Inr bs \<Longrightarrow> dec (bs @ q) 0 = Inr (Some (x, length bs))"
  using roundtrip [of x bs "[]" q] by simp

lemma prefix_free:
  assumes "ok x" "ok y" "enc x = Inr a" "enc y = Inr b" "a @ r = b @ s"
  shows "x = y \<and> r = s"
  using decode_encode_prefix [OF assms(1,3), of r] decode_encode_prefix [OF assms(2,4), of s] assms(3-5)
  by auto

lemma encode_inj: "ok x \<Longrightarrow> ok y \<Longrightarrow> enc x = Inr a \<Longrightarrow> enc y = Inr a \<Longrightarrow> x = y"
  using prefix_free [of x y a a "[]" "[]"] by simp

lemma decoded_wf: "off \<le> length b \<Longrightarrow> dec b off = Inr (Some (x, n)) \<Longrightarrow> ok x"
  using canonical by blast

lemma decoded_bound: "off \<le> length b \<Longrightarrow> dec b off = Inr (Some (x, n)) \<Longrightarrow> off + n \<le> length b"
  using canonical by blast

lemma decoded_canonical:
  "off \<le> length b \<Longrightarrow> dec b off = Inr (Some (x, n)) \<Longrightarrow> enc x = Inr (take n (drop off b))"
  using canonical by blast

text \<open>Two byte strings that decode completely to the same value are the same string.\<close>

lemma decode_inj:
  assumes "dec a 0 = Inr (Some (x, length a))" "dec b 0 = Inr (Some (x, length b))"
  shows "a = b"
  using decoded_canonical [of 0 a x] decoded_canonical [of 0 b x] assms by simp

end

text \<open>Codecs of items of vectors must produce at least one byte.\<close>

locale item_codec = codec +
  assumes nonempty: "ok x \<Longrightarrow> enc x = Inr bs \<Longrightarrow> bs \<noteq> []"
begin

lemma decoded_pos: "off \<le> length b \<Longrightarrow> dec b off = Inr (Some (x, n)) \<Longrightarrow> 0 < n"
  using canonical [of off b x n] nonempty [of x "take n (drop off b)"] by (cases n) auto

end

lemma item_codecI:
  "codec ok enc dec \<Longrightarrow> (\<And>x bs. ok x \<Longrightarrow> enc x = Inr bs \<Longrightarrow> bs \<noteq> []) \<Longrightarrow> item_codec ok enc dec"
  by (simp add: item_codec_def item_codec_axioms_def)

lemma item_codecD: "item_codec ok enc dec \<Longrightarrow> codec ok enc dec"
  by (simp add: item_codec_def)

section \<open>Numbers\<close>

lemma be_bytes_length [simp]: "length (be_bytes k n) = k"
  by (induction k) auto

lemma foldl_be: "foldl (\<lambda>a b. a * 256 + uint b) a bs = a * 256 ^ length bs + be_int bs"
proof (induction bs arbitrary: a)
  case Nil
  then show ?case by (simp add: be_int_def)
next
  case (Cons b bs)
  have "foldl (\<lambda>a b. a * 256 + uint b) a (b # bs) = (a * 256 + uint b) * 256 ^ length bs + be_int bs"
    by (simp add: Cons.IH)
  moreover have "be_int (b # bs) = uint b * 256 ^ length bs + be_int bs"
    unfolding be_int_def [of "b # bs"] by (simp add: Cons.IH)
  ultimately show ?case by (simp add: algebra_simps)
qed

lemma be_int_Nil [simp]: "be_int [] = 0"
  by (simp add: be_int_def)

lemma be_int_Cons [simp]: "be_int (b # bs) = uint b * 256 ^ length bs + be_int bs"
  using foldl_be [of "uint b" bs] by (simp add: be_int_def)

lemma be_int_bounds: "0 \<le> be_int bs \<and> be_int bs < 256 ^ length bs"
proof (induction bs)
  case Nil
  show ?case by simp
next
  case (Cons b bs)
  have "uint b \<le> 255" using uint_bounded [of b] by simp
  then have "uint b * 256 ^ length bs \<le> 255 * 256 ^ length bs" by (intro mult_right_mono) auto
  moreover have "0 \<le> uint b * 256 ^ length bs" by simp
  ultimately have "0 \<le> uint b * 256 ^ length bs + be_int bs"
    and "uint b * 256 ^ length bs + be_int bs < 256 * 256 ^ length bs"
    using Cons by linarith+
  then show ?case by simp
qed

lemma uint_word8: "uint (word_of_int n :: byte) = n mod 256"
  by (simp add: uint_word_of_int)

lemma uint_byte_of_nat: "uint (word_of_nat n :: byte) = int n mod 256"
  using uint_word8 [of "int n"] by simp

lemma unat_byte_of_nat: "unat (word_of_nat n :: byte) = n mod 256"
  by (simp add: unat_eq_nat_uint uint_byte_of_nat nat_mod_as_int)

lemma be_int_be_bytes: "be_int (be_bytes k n) = n mod 256 ^ k"
proof (induction k)
  case 0
  show ?case by simp
next
  case (Suc k)
  have "n mod (256 ^ k * 256) = 256 ^ k * (n div 256 ^ k mod 256) + n mod 256 ^ k"
    by (rule zmod_zmult2_eq) simp
  with Suc show ?case by (simp add: uint_word8 mult.commute)
qed

lemma be_bytes_be_int: "be_bytes (length bs) (be_int bs + 256 ^ length bs * m) = bs"
proof (induction bs arbitrary: m)
  case Nil
  show ?case by simp
next
  case (Cons b bs)
  let ?p = "(256 :: int) ^ length bs"
  have e: "be_int (b # bs) + 256 ^ length (b # bs) * m = be_int bs + ?p * (uint b + 256 * m)"
    by (simp add: algebra_simps)
  have "(be_int bs + ?p * (uint b + 256 * m)) div ?p = uint b + 256 * m"
    using be_int_bounds [of bs] by (simp add: div_add1_eq)
  moreover have "(word_of_int (uint b + 256 * m) :: byte) = b"
  proof -
    have "uint b mod 256 = uint b" using uint_bounded [of b] by simp
    then have "(uint b + 256 * m) mod 256 = uint b" by simp
    then have "uint (word_of_int (uint b + 256 * m) :: byte) = uint b"
      by (simp only: uint_word8)
    then show ?thesis by (simp only: word_uint_eq_iff)
  qed
  ultimately show ?case
    unfolding e using Cons.IH [of "uint b + 256 * m"] by simp
qed

lemma be_bytes_be_int0: "length bs = k \<Longrightarrow> be_bytes k (be_int bs) = bs"
  using be_bytes_be_int [of bs 0] by auto

lemma getUint_roundtrip:
  "length bs = k \<Longrightarrow> getUint k (p @ bs @ q) (length p) = Inr (Some (be_int bs, k))"
  by (simp add: getUint_def)

lemma getUint_canonical:
  assumes "getUint k b off = Inr (Some (x, n))"
  shows "n = k \<and> off + k \<le> length b \<and> 0 \<le> x \<and> x < 256 ^ k
         \<and> be_bytes k x = take k (drop off b)"
proof -
  from assms have n: "n = k" and le: "off + k \<le> length b" and x: "x = be_int (take k (drop off b))"
    by (auto simp: getUint_def split: if_splits)
  have "length (take k (drop off b)) = k" using le by simp
  then show ?thesis
    using n le x be_int_bounds [of "take k (drop off b)"] be_bytes_be_int0 [of "take k (drop off b)" k]
    by simp
qed

lemma assertUintRange_Inr: "assertUintRange n bits = Inr u \<longleftrightarrow> 0 \<le> n \<and> n < 2 ^ bits"
  by (auto simp: assertUintRange_def)

text \<open>The three range-checked widths share one proof.\<close>

lemma uint_item_codec:
  assumes enc: "\<And>n. enc n = res_bind (assertUintRange n (8 * k)) (\<lambda>_. Inr (be_bytes k n))"
    and dec: "\<And>b off. dec b off = getUint k b off" and k: "0 < k"
  shows "item_codec (\<lambda>_. True) enc dec"
proof (intro item_codecI codec.intro)
  fix x bs and p q :: bytes
  assume "enc x = Inr bs"
  then have x: "0 \<le> x" "x < 256 ^ k" and bs: "bs = be_bytes k x"
    by (auto simp: enc res_bind_eq_Inr assertUintRange_Inr power_mult)
  then show "dec (p @ bs @ q) (length p) = Inr (Some (x, length bs))"
    unfolding dec by (subst getUint_roundtrip [of _ k]) (simp_all add: be_int_be_bytes)
next
  fix off b x n
  assume "dec b off = Inr (Some (x, n))"
  from getUint_canonical [OF this [unfolded dec]]
  show "True \<and> off + n \<le> length b \<and> enc x = Inr (take n (drop off b))"
    by (simp add: enc res_bind_eq_Inr assertUintRange_Inr power_mult)
next
  fix x bs
  assume "enc x = Inr bs"
  then have "length bs = k" by (auto simp: enc res_bind_eq_Inr)
  with k show "bs \<noteq> []" by auto
qed

lemma decodeUint8_getUint: "decodeUint8 b off = getUint 1 b off"
proof (cases "off < length b")
  case True
  then have "take 1 (drop off b) = [b ! off]"
    by (metis Cons_nth_drop_Suc One_nat_def take0 take_Suc_Cons)
  then show ?thesis using True by (simp add: decodeUint8_def getUint_def)
qed (simp add: decodeUint8_def getUint_def)

interpretation uint8: item_codec "\<lambda>_. True" encodeUint8 decodeUint8
  by (rule uint_item_codec [where k = 1]) (simp_all add: encodeUint8_def decodeUint8_getUint)

interpretation uint16: item_codec "\<lambda>_. True" encodeUint16 decodeUint16
  by (rule uint_item_codec [where k = 2]) (simp_all add: encodeUint16_def decodeUint16_def)

interpretation uint32: item_codec "\<lambda>_. True" encodeUint32 decodeUint32
  by (rule uint_item_codec [where k = 4]) (simp_all add: encodeUint32_def decodeUint32_def)

definition wf_uint64 :: "int \<Rightarrow> bool" where
  "wf_uint64 n \<longleftrightarrow> 0 \<le> n \<and> n < 18446744073709551616"

interpretation uint64: item_codec wf_uint64 encodeUint64 decodeUint64
proof (intro item_codecI codec.intro)
  fix x bs and p q :: bytes
  assume "wf_uint64 x" "encodeUint64 x = Inr bs"
  then show "decodeUint64 (p @ bs @ q) (length p) = Inr (Some (x, length bs))"
    unfolding decodeUint64_def
    by (subst getUint_roundtrip [of _ 8]) (auto simp: encodeUint64_def be_int_be_bytes wf_uint64_def)
next
  fix off b x n
  assume "decodeUint64 b off = Inr (Some (x, n))"
  from getUint_canonical [OF this [unfolded decodeUint64_def]]
  show "wf_uint64 x \<and> off + n \<le> length b \<and> encodeUint64 x = Inr (take n (drop off b))"
    by (simp add: encodeUint64_def wf_uint64_def)
next
  fix x bs
  assume "encodeUint64 x = Inr bs"
  then have "length bs = 8" by (auto simp: encodeUint64_def simp del: be_bytes.simps)
  then show "bs \<noteq> []" by auto
qed

lemmas number_codecs [codec_intros] =
  uint8.item_codec_axioms uint16.item_codec_axioms uint32.item_codec_axioms uint64.item_codec_axioms

section \<open>Lengths and opaque vectors\<close>

text \<open>The bit patterns of the length header as arithmetic.\<close>

lemma encodeLength_arith:
  "encodeLength n = (let l = int n in
     if l < 64 then Inr [word_of_int l]
     else if l < 16384 then Inr [word_of_int (64 + l div 256), word_of_int (l mod 256)]
     else if l < 1073741824 then
       Inr [word_of_int (128 + l div 16777216), word_of_int (l div 65536 mod 256),
            word_of_int (l div 256 mod 256), word_of_int (l mod 256)]
     else Inl CodecError)"
proof -
  have m: "js_and l 63 = l mod 64" "js_and l 255 = l mod 256" if "0 \<le> l" "l < 1073741824" for l
    using js_and_mask [of l 6] js_and_mask [of l 8] that by simp_all
  have o1: "js_or l 64 = l + 64" "js_or l 128 = l + 128" if "0 \<le> l" "l < 64" for l
    using that by (auto intro!: js_or_add [where n = 6])
  have s: "js_shr l 8 = l div 256" "js_shr l 16 = l div 65536" "js_shr l 24 = l div 16777216"
    if "0 \<le> l" "l < 1073741824" for l
    using js_shr_div [of l] that by simp_all
  have b: "0 \<le> l div 256" "l div 256 < 1073741824" "0 \<le> l div 65536" "l div 65536 < 1073741824"
      "0 \<le> l div 16777216" "l div 16777216 < 64" if "0 \<le> l" "l < 1073741824" for l :: int
    using that by auto
  have c: "l div 256 mod 64 = l div 256" if "0 \<le> l" "l < 16384" for l :: int using that by simp
  show ?thesis
    by (simp add: encodeLength_def Let_def m s b c o1 add.commute)
qed

lemma uint_byte_bounds: "0 \<le> uint (b :: byte)" "uint (b :: byte) < 256"
  using uint_bounded [of b] by simp_all

lemma determineLength_arith:
  "determineLength data off =
     (if off \<ge> length data then Inl CodecError else
      let f = uint (data ! off) in
      if f < 64 then Inr (nat f, 1)
      else if f < 128 then
        (if off + 2 > length data then Inl CodecError else
         let l = (f - 64) * 256 + uint (data ! (off + 1)) in
         if l < 64 then Inl CodecError else Inr (nat l, 2))
      else if f < 192 then
        (if off + 4 > length data then Inl CodecError else
         let l = (f - 128) * 16777216 + uint (data ! (off + 1)) * 65536
                 + uint (data ! (off + 2)) * 256 + uint (data ! (off + 3)) in
         if l < 16384 then Inl CodecError else Inr (nat l, 4))
      else Inl CodecError)"
proof -
  define f where "f = uint (data ! off)"
  have f: "0 \<le> f" "f < 256" unfolding f_def by (fact uint_byte_bounds)+
  have p: "js_shr f 6 = f div 64" and m: "js_and f 63 = f mod 64"
    using f js_shr_div [of f 6] js_and_mask [of f 6] by simp_all
  have s8: "js_shl x 8 = x * 256" if "0 \<le> x" "x < 256" for x using js_shl_mult [of x 8] that by simp
  have s16: "js_shl x 16 = x * 65536" if "0 \<le> x" "x < 256" for x using js_shl_mult [of x 16] that by simp
  have s24: "js_shl x 24 = x * 16777216" if "0 \<le> x" "x < 64" for x using js_shl_mult [of x 24] that by simp
  have two: "js_or (js_shl g 8) y = g * 256 + y" if "0 \<le> g" "g < 64" "0 \<le> y" "y < 256" for g y
    using js_or_add [of y 8 "g * 256"] that by (simp add: s8 js_or_def or.commute add.commute)
  have four: "js_or (js_or (js_or (js_shl g 24) (js_shl x 16)) (js_shl y 8)) z
      = g * 16777216 + x * 65536 + y * 256 + z"
    if b: "0 \<le> g" "g < 64" "0 \<le> x" "x < 256" "0 \<le> y" "y < 256" "0 \<le> z" "z < 256" for g x y z
  proof -
    have 1: "js_or (g * 16777216) (x * 65536) = g * 16777216 + x * 65536"
      using js_or_add [of "x * 65536" 24 "g * 16777216"] b
      by (simp add: js_or_def or.commute add.commute)
    have "2 ^ 16 dvd g * 16777216 + x * (65536 :: int)" by (intro dvd_add) auto
    then have 2: "js_or (g * 16777216 + x * 65536) (y * 256) = g * 16777216 + x * 65536 + y * 256"
      using js_or_add [of "y * 256" 16 "g * 16777216 + x * 65536"] b
      by (simp add: js_or_def or.commute add.commute)
    have "2 ^ 8 dvd g * 16777216 + x * 65536 + y * (256 :: int)" by (intro dvd_add) auto
    then have 3: "js_or (g * 16777216 + x * 65536 + y * 256) z = g * 16777216 + x * 65536 + y * 256 + z"
      using js_or_add [of z 8 "g * 16777216 + x * 65536 + y * 256"] b
      by (simp add: js_or_def or.commute add.commute)
    show ?thesis using b by (simp add: s8 s16 s24 1 2 3)
  qed
  have d: "f div 64 = 0 \<longleftrightarrow> f < 64" "f div 64 = 1 \<longleftrightarrow> 64 \<le> f \<and> f < 128" "f div 64 = 2 \<longleftrightarrow> 128 \<le> f \<and> f < 192"
    using f by presburger+
  have r: "f < 64 \<Longrightarrow> f mod 64 = f" "64 \<le> f \<Longrightarrow> f < 128 \<Longrightarrow> f mod 64 = f - 64"
    "128 \<le> f \<Longrightarrow> f < 192 \<Longrightarrow> f mod 64 = f - 128"
    using f by presburger+
  note u = determineLength_def f_def [symmetric] Let_def p m d
  consider (a) "f < 64" | (b) "64 \<le> f" "f < 128" | (c) "128 \<le> f" "f < 192" | (d) "192 \<le> f"
    by linarith
  then show ?thesis
  proof cases
    case a
    then show ?thesis unfolding u by (simp add: r)
  next
    case b
    then show ?thesis unfolding u by (simp add: r two uint_byte_bounds)
  next
    case c
    then show ?thesis unfolding u by (simp add: r four uint_byte_bounds)
  next
    case d
    then show ?thesis unfolding u by simp
  qed
qed

lemma encodeLength_Inr: "n < 1073741824 \<Longrightarrow> \<exists>h. encodeLength n = Inr h"
  by (auto simp: encodeLength_arith Let_def)

lemma encodeLength_bound: "encodeLength n = Inr h \<Longrightarrow> n < 1073741824"
  by (auto simp: encodeLength_arith Let_def split: if_splits)

lemma byte_div_mod:
  fixes x d :: int
  assumes "0 \<le> d" "d < 256"
  shows "(x * 256 + d) div 256 = x" "(x * 256 + d) mod 256 = d"
  using assms by simp_all

lemma be4_parts:
  fixes f x y z :: int
  assumes "0 \<le> x" "x < 256" "0 \<le> y" "y < 256" "0 \<le> z" "z < 256"
  defines "l \<equiv> f * 16777216 + x * 65536 + y * 256 + z"
  shows "l div 16777216 = f" "l div 65536 mod 256 = x" "l div 256 mod 256 = y" "l mod 256 = z"
proof -
  have l: "l = ((f * 256 + x) * 256 + y) * 256 + z" by (simp add: l_def)
  have 1: "l div 256 = (f * 256 + x) * 256 + y" "l mod 256 = z"
    unfolding l using assms(5,6) by (rule byte_div_mod)+
  have "l div (256 * 256) = l div 256 div 256" by (rule zdiv_zmult2_eq) simp
  then have 2: "l div 65536 = f * 256 + x" using byte_div_mod(1) [OF assms(3,4)] by (simp only: 1) simp
  have "l div (65536 * 256) = l div 65536 div 256" by (rule zdiv_zmult2_eq) simp
  then have 3: "l div 16777216 = f" using byte_div_mod(1) [OF assms(1,2)] by (simp only: 2) simp
  show "l div 16777216 = f" "l div 65536 mod 256 = x" "l div 256 mod 256 = y" "l mod 256 = z"
    using byte_div_mod(2) [OF assms(1,2)] byte_div_mod(2) [OF assms(3,4)] by (simp_all only: 1 2 3)
qed

lemma be4_join:
  fixes n :: int
  shows "n div 16777216 * 16777216 + n div 65536 mod 256 * 65536 + n div 256 mod 256 * 256 + n mod 256 = n"
proof -
  define q r s where "q = n div 256" and "r = q div 256" and "s = r div 256"
  have d: "n div 65536 = r" "n div 16777216 = s"
    using zdiv_zmult2_eq [of 256 n 256] zdiv_zmult2_eq [of 256 n 65536] zdiv_zmult2_eq [of 256 "n div 256" 256]
    by (simp_all add: q_def r_def s_def)
  have e: "q * 256 + n mod 256 = n" "r * 256 + q mod 256 = q" "s * 256 + r mod 256 = r"
    unfolding q_def r_def s_def by (rule div_mult_mod_eq)+
  define n0 q0 r0 where "n0 = n mod 256" and "q0 = q mod 256" and "r0 = r mod 256"
  have "s * 16777216 + r0 * 65536 + q0 * 256 + n0 = n"
    using e unfolding n0_def [symmetric] q0_def [symmetric] r0_def [symmetric] by linarith
  then show ?thesis unfolding d q_def [symmetric] n0_def q0_def r0_def .
qed

lemma be2_bound: "f < 128 \<Longrightarrow> y < 256 \<Longrightarrow> (f - 64) * 256 + y < (16384 :: int)"
  by presburger

lemma be4_bound:
  "f < 192 \<Longrightarrow> x < 256 \<Longrightarrow> y < 256 \<Longrightarrow> z < 256 \<Longrightarrow>
   (f - 128) * 16777216 + x * 65536 + y * 256 + z < (1073741824 :: int)"
proof -
  assume a: "f < 192" "x < 256" "y < 256" "z < 256"
  then have "(f - 128) * 16777216 \<le> 1056964608" "x * 65536 \<le> 16711680" "y * 256 \<le> 65280" "z \<le> 255"
    by simp_all
  then show ?thesis by linarith
qed

lemma encodeLength_4:
  "16384 \<le> l \<Longrightarrow> l < 1073741824 \<Longrightarrow> encodeLength (nat l) =
     Inr [word_of_int (128 + l div 16777216), word_of_int (l div 65536 mod 256),
          word_of_int (l div 256 mod 256), word_of_int (l mod 256)]"
  by (simp add: encodeLength_arith)

lemma determineLength_4:
  assumes "128 \<le> uint x" "uint x < 192" "16384 \<le> n"
    and "(uint x - 128) * 16777216 + uint y * 65536 + uint z * 256 + uint w = int n"
  shows "determineLength (p @ [x, y, z, w] @ q) (length p) = Inr (n, 4)"
proof -
  let ?b = "p @ [x, y, z, w] @ q" and ?o = "length p"
  have e: "?b ! ?o = x" "?b ! (?o + 1) = y" "?b ! (?o + 2) = z" "?b ! (?o + 3) = w"
    by (simp_all add: nth_append)
  have "\<not> length ?b \<le> ?o" "\<not> ?o + 4 > length ?b" by simp_all
  then show ?thesis
    unfolding determineLength_arith Let_def e assms(4) using assms(1-3) by simp
qed

lemma determineLength_encodeLength:
  assumes "encodeLength n = Inr h"
  shows "determineLength (p @ h @ q) (length p) = Inr (n, length h) \<and> h \<noteq> []"
proof -
  have n: "n < 1073741824" using assms by (rule encodeLength_bound)
  consider (a) "int n < 64" | (b) "64 \<le> int n" "int n < 16384" | (c) "16384 \<le> int n" by linarith
  then show ?thesis
  proof cases
    case a
    then have "h = [word_of_int (int n)]" using assms by (simp add: encodeLength_arith)
    then show ?thesis using a
      by (simp add: determineLength_arith uint_byte_of_nat unat_byte_of_nat Let_def nth_append)
  next
    case b
    then have h: "h = [word_of_int (64 + int n div 256), word_of_int (int n mod 256)]"
      using assms by (simp add: encodeLength_arith Let_def)
    have "uint (word_of_int (64 + int n div 256) :: byte) = 64 + int n div 256"
    proof -
      have "int n div 256 < 64" using b by simp
      then have "(64 + int n div 256) mod 256 = 64 + int n div 256" by simp
      then show ?thesis by (simp only: uint_word8)
    qed
    moreover have "uint (word_of_int (int n mod 256) :: byte) = int n mod 256"
      by (simp only: uint_word8) simp
    ultimately obtain x y where "h = [x, y]" "uint x = 64 + int n div 256" "uint y = int n mod 256"
      using h by metis
    moreover have "int n div 256 < 64" using b by simp
    ultimately show ?thesis using b by (simp add: determineLength_arith Let_def nth_append)
  next
    case c
    then have h: "h = [word_of_int (128 + int n div 16777216), word_of_int (int n div 65536 mod 256),
            word_of_int (int n div 256 mod 256), word_of_int (int n mod 256)]"
      using assms n by (simp add: encodeLength_arith Let_def)
    have n64: "int n div 16777216 < 64" using n by simp
    have "uint (word_of_int (128 + int n div 16777216) :: byte) = 128 + int n div 16777216"
      using n64 by (simp only: uint_word8) simp
    moreover have "uint (word_of_int (m mod 256) :: byte) = m mod 256" for m
      by (simp only: uint_word8) simp
    ultimately obtain x y z w where h: "h = [x, y, z, w]" and x: "uint x = 128 + int n div 16777216"
      and yzw: "uint y = int n div 65536 mod 256" "uint z = int n div 256 mod 256" "uint w = int n mod 256"
      using h by metis
    have "determineLength (p @ [x, y, z, w] @ q) (length p) = Inr (n, 4)"
    proof (rule determineLength_4)
      show "128 \<le> uint x" "uint x < 192" unfolding x using n64 by simp_all
      show "16384 \<le> n" using c by simp
      show "(uint x - 128) * 16777216 + uint y * 65536 + uint z * 256 + uint w = int n"
        unfolding x yzw using be4_join [of "int n"] by simp
    qed
    then show ?thesis by (simp add: h)
  qed
qed

lemma take_drop_2: "off + 2 \<le> length b \<Longrightarrow> take 2 (drop off b) = [b ! off, b ! (off + 1)]"
  by (simp add: numeral_2_eq_2 Cons_nth_drop_Suc [symmetric])

lemma take_drop_4:
  "off + 4 \<le> length b \<Longrightarrow>
   take 4 (drop off b) = [b ! off, b ! (off + 1), b ! (off + 2), b ! (off + 3)]"
  by (simp add: numeral_eq_Suc Cons_nth_drop_Suc [symmetric])

lemma take_drop_1: "off < length b \<Longrightarrow> take (Suc 0) (drop off b) = [b ! off]"
  by (simp add: Cons_nth_drop_Suc [symmetric])

lemma encodeLength_determineLength:
  assumes "determineLength b off = Inr (len, k)"
  shows "encodeLength len = Inr (take k (drop off b)) \<and> off + k \<le> length b \<and> 0 < k"
proof -
  let ?f = "uint (b ! off)"
  have off: "off < length b" using assms by (auto simp: determineLength_arith split: if_splits)
  have w: "word_of_int (uint x) = x" for x :: byte by simp
  note bd = uint_byte_bounds [of "b ! off"] uint_byte_bounds [of "b ! (off + 1)"]
    uint_byte_bounds [of "b ! (off + 2)"] uint_byte_bounds [of "b ! (off + 3)"]
  consider (a) "?f < 64" | (b) "64 \<le> ?f" "?f < 128" | (c) "128 \<le> ?f" "?f < 192" | (d) "192 \<le> ?f"
    by linarith
  then show ?thesis
  proof cases
    case a
    then have "len = nat ?f" "k = 1" using assms off by (auto simp: determineLength_arith Let_def)
    then show ?thesis using a off bd by (simp add: encodeLength_arith take_drop_1)
  next
    case b
    let ?l = "(?f - 64) * 256 + uint (b ! (off + 1))"
    have l: "len = nat ?l" "k = 2" "64 \<le> ?l" "off + 2 \<le> length b"
      using assms off b by (auto simp: determineLength_arith Let_def split: if_splits)
    have "?l div 256 = ?f - 64" "?l mod 256 = uint (b ! (off + 1))"
      using bd(3,4) by (rule byte_div_mod)+
    moreover have "?l < 16384" using b(2) bd(4) by (rule be2_bound)
    ultimately have "encodeLength (nat ?l) = Inr [b ! off, b ! (off + 1)]"
      using l(3) by (simp only: encodeLength_arith Let_def) simp
    then show ?thesis using l by (simp add: take_drop_2)
  next
    case c
    let ?l = "(?f - 128) * 16777216 + uint (b ! (off + 1)) * 65536
                 + uint (b ! (off + 2)) * 256 + uint (b ! (off + 3))"
    have l: "len = nat ?l" "k = 4" "16384 \<le> ?l" "off + 4 \<le> length b"
      using assms off c by (auto simp: determineLength_arith Let_def split: if_splits)
    have "128 + ?l div 16777216 = ?f" "?l div 65536 mod 256 = uint (b ! (off + 1))"
      "?l div 256 mod 256 = uint (b ! (off + 2))" "?l mod 256 = uint (b ! (off + 3))"
      using bd by (simp_all only: be4_parts)
    moreover have "?l < 1073741824" using c(2) bd(4,6,8) by (rule be4_bound)
    ultimately have "encodeLength (nat ?l) = Inr [b ! off, b ! (off + 1), b ! (off + 2), b ! (off + 3)]"
      using encodeLength_4 [OF l(3)] by (simp only: w)
    then show ?thesis using l by (simp add: take_drop_4)
  next
    case d
    then show ?thesis using assms off by (auto simp: determineLength_arith Let_def)
  qed
qed

lemma encodeVarLenData_eq_Inr:
  "encodeVarLenData data = Inr bs \<longleftrightarrow> (\<exists>h. encodeLength (length data) = Inr h \<and> bs = h @ data)"
  by (auto simp: encodeVarLenData_def res_bind_eq_Inr)

lemma decodeVarLenData_at:
  assumes "encodeLength (length data) = Inr h"
  shows "decodeVarLenData (p @ h @ data @ q) (length p) = Inr (Some (data, length h + length data))"
proof -
  have "determineLength (p @ h @ data @ q) (length p) = Inr (length data, length h)" and "h \<noteq> []"
    using determineLength_encodeLength [OF assms, of p "data @ q"] by simp_all
  then show ?thesis by (simp add: decodeVarLenData_def Let_def)
qed

lemma decodeVarLenData_SomeD:
  assumes "decodeVarLenData b off = Inr (Some (x, n))"
  shows "off + n \<le> length b \<and> encodeVarLenData x = Inr (take n (drop off b)) \<and> 0 < n"
proof -
  from assms obtain k where k: "determineLength b off = Inr (length x, k)" "n = k + length x"
      "off + n \<le> length b" "x = take (length x) (drop (off + k) b)"
    by (auto simp: decodeVarLenData_def res_bind_eq_Inr Let_def split: if_splits)
  from encodeLength_determineLength [OF k(1)]
  have "encodeLength (length x) = Inr (take k (drop off b))" "0 < k" by auto
  moreover have "take n (drop off b) = take k (drop off b) @ x"
    using k by (metis take_add drop_drop add.commute)
  ultimately show ?thesis using k by (auto simp: encodeVarLenData_eq_Inr)
qed

interpretation varLenData: item_codec "\<lambda>_. True" encodeVarLenData decodeVarLenData
proof (intro item_codecI codec.intro)
  fix x bs and p q :: bytes
  assume "encodeVarLenData x = Inr bs"
  then show "decodeVarLenData (p @ bs @ q) (length p) = Inr (Some (x, length bs))"
    using decodeVarLenData_at by (auto simp: encodeVarLenData_eq_Inr)
next
  fix off b x n
  assume "decodeVarLenData b off = Inr (Some (x, n))"
  from decodeVarLenData_SomeD [OF this]
  show "True \<and> off + n \<le> length b \<and> encodeVarLenData x = Inr (take n (drop off b))" by simp
next
  fix x bs
  assume "encodeVarLenData x = Inr bs"
  then show "bs \<noteq> []" using determineLength_encodeLength by (fastforce simp: encodeVarLenData_eq_Inr)
qed

declare varLenData.item_codec_axioms [codec_intros]

section \<open>Closure under the combinators\<close>

lemma encPair_eq_Inr:
  "encPair e1 e2 z = Inr bs \<longleftrightarrow> (\<exists>a b. e1 (fst z) = Inr a \<and> e2 (snd z) = Inr b \<and> bs = a @ b)"
  by (cases z) (auto simp: encPair_def res_bind_eq_Inr)

lemma decPair_eq_Some:
  "decPair d1 d2 b off = Inr (Some (z, n)) \<longleftrightarrow>
   (\<exists>k m. d1 b off = Inr (Some (fst z, k)) \<and> d2 b (off + k) = Inr (Some (snd z, m)) \<and> n = k + m)"
  by (cases z) (auto simp: decPair_def res_bind_eq_Inr split: option.splits)

lemma take_drop_join:
  "off + n \<le> length b \<Longrightarrow> take (n + m) (drop off b) = take n (drop off b) @ take m (drop (off + n) b)"
  by (simp only: take_add drop_drop add.commute [of n off])

lemma codec_pair [codec_intros]:
  assumes "codec ok1 e1 d1" "codec ok2 e2 d2"
  shows "codec (\<lambda>z. ok1 (fst z) \<and> ok2 (snd z)) (encPair e1 e2) (decPair d1 d2)"
proof (rule codec.intro)
  fix z bs and p q :: bytes
  assume ok: "ok1 (fst z) \<and> ok2 (snd z)" and "encPair e1 e2 z = Inr bs"
  then obtain a b where ab: "e1 (fst z) = Inr a" "e2 (snd z) = Inr b" "bs = a @ b"
    by (auto simp: encPair_eq_Inr)
  have "d1 (p @ a @ b @ q) (length p) = Inr (Some (fst z, length a))"
    using codec.roundtrip [OF assms(1) _ ab(1)] ok by simp
  moreover have "d2 ((p @ a) @ b @ q) (length (p @ a)) = Inr (Some (snd z, length b))"
    by (rule codec.roundtrip [OF assms(2) _ ab(2)]) (use ok in simp)
  ultimately show "decPair d1 d2 (p @ bs @ q) (length p) = Inr (Some (z, length bs))"
    by (simp add: decPair_eq_Some ab(3))
next
  fix off b z n
  assume off: "off \<le> length b" and "decPair d1 d2 b off = Inr (Some (z, n))"
  then obtain k m where km: "d1 b off = Inr (Some (fst z, k))"
      "d2 b (off + k) = Inr (Some (snd z, m))" "n = k + m"
    by (auto simp: decPair_eq_Some)
  note c1 = codec.canonical [OF assms(1) off km(1)]
  then have "off + k \<le> length b" by simp
  note c2 = codec.canonical [OF assms(2) this km(2)]
  show "(ok1 (fst z) \<and> ok2 (snd z)) \<and> off + n \<le> length b \<and> encPair e1 e2 z = Inr (take n (drop off b))"
    using c1 c2 by (auto simp: encPair_eq_Inr km(3) take_drop_join)
qed

lemma item_pair [codec_intros]:
  assumes "item_codec ok1 e1 d1" "codec ok2 e2 d2"
  shows "item_codec (\<lambda>z. ok1 (fst z) \<and> ok2 (snd z)) (encPair e1 e2) (decPair d1 d2)"
  using codec_pair [OF item_codecD [OF assms(1)] assms(2)] item_codec.nonempty [OF assms(1)]
  by (intro item_codecI) (auto simp: encPair_eq_Inr)

lemma mapDecoder_eq_Some:
  "mapDecoder d f b off = Inr (Some (u, n)) \<longleftrightarrow> (\<exists>t. d b off = Inr (Some (t, n)) \<and> u = f t)"
  by (auto simp: mapDecoder_def res_bind_eq_Inr split: option.splits)

lemma mapDecoders_eq_mapDecoder: "mapDecoders d f = mapDecoder d f"
  by (simp add: mapDecoders_def mapDecoder_def)

lemma contramapEncoders_eq_contramapEncoder: "contramapEncoders e f = contramapEncoder e f"
  by (simp add: contramapEncoders_def contramapEncoder_def)

text \<open>
  A record codec from a tuple codec: \<open>f\<close> takes the record apart, \<open>g\<close> builds it.
\<close>

lemma codec_map:
  assumes c: "codec ok e d"
    and fg: "\<And>u. okU u \<Longrightarrow> ok (f u) \<and> g (f u) = u" "\<And>t. ok t \<Longrightarrow> okU (g t) \<and> f (g t) = t"
  shows "codec okU (contramapEncoder e f) (mapDecoder d g)"
proof (rule codec.intro)
  fix u bs and p q :: bytes
  assume "okU u" "contramapEncoder e f u = Inr bs"
  then have "d (p @ bs @ q) (length p) = Inr (Some (f u, length bs))"
    using codec.roundtrip [OF c] fg(1) by (simp add: contramapEncoder_def)
  then show "mapDecoder d g (p @ bs @ q) (length p) = Inr (Some (u, length bs))"
    using fg(1) \<open>okU u\<close> by (auto simp: mapDecoder_eq_Some)
next
  fix off b u n
  assume off: "off \<le> length b" and "mapDecoder d g b off = Inr (Some (u, n))"
  then obtain t where t: "d b off = Inr (Some (t, n))" "u = g t" by (auto simp: mapDecoder_eq_Some)
  from codec.canonical [OF c off t(1)] fg(2) [of t] t(2)
  show "okU u \<and> off + n \<le> length b \<and> contramapEncoder e f u = Inr (take n (drop off b))"
    by (simp add: contramapEncoder_def)
qed

lemma item_map:
  assumes c: "item_codec ok e d"
    and fg: "\<And>u. okU u \<Longrightarrow> ok (f u) \<and> g (f u) = u" "\<And>t. ok t \<Longrightarrow> okU (g t) \<and> f (g t) = t"
  shows "item_codec okU (contramapEncoder e f) (mapDecoder d g)"
  using codec_map [OF item_codecD [OF c] fg] item_codec.nonempty [OF c] fg(1)
  by (intro item_codecI) (auto simp: contramapEncoder_def)

text \<open>The same for the tuple combinators, the form the record types use.\<close>

lemma codec_record:
  assumes "codec ok e d"
    and "\<And>u. okU u \<Longrightarrow> ok (f u) \<and> g (f u) = u" "\<And>t. ok t \<Longrightarrow> okU (g t) \<and> f (g t) = t"
  shows "codec okU (contramapEncoders e f) (mapDecoders d g)"
  unfolding contramapEncoders_eq_contramapEncoder mapDecoders_eq_mapDecoder
  by (rule codec_map) (fact assms)+

lemma item_record:
  assumes "item_codec ok e d"
    and "\<And>u. okU u \<Longrightarrow> ok (f u) \<and> g (f u) = u" "\<And>t. ok t \<Longrightarrow> okU (g t) \<and> f (g t) = t"
  shows "item_codec okU (contramapEncoders e f) (mapDecoders d g)"
  unfolding contramapEncoders_eq_contramapEncoder mapDecoders_eq_mapDecoder
  by (rule item_map) (fact assms)+

lemma mapDecoderOption_eq_Some:
  "mapDecoderOption d f b off = Inr (Some (u, n)) \<longleftrightarrow> (\<exists>t. d b off = Inr (Some (t, n)) \<and> f t = Some u)"
  by (cases "d b off") (auto simp: mapDecoderOption_def split: option.splits)

text \<open>A decoder that accepts only some of the values another decoder yields.\<close>

lemma codec_partial_map:
  assumes c: "codec ok e d"
    and fg: "\<And>u. okU u \<Longrightarrow> ok (f u) \<and> g (f u) = Some u" "\<And>t u. ok t \<Longrightarrow> g t = Some u \<Longrightarrow> okU u \<and> f u = t"
  shows "codec okU (contramapEncoder e f) (mapDecoderOption d g)"
proof (rule codec.intro)
  fix u bs and p q :: bytes
  assume "okU u" "contramapEncoder e f u = Inr bs"
  then have "d (p @ bs @ q) (length p) = Inr (Some (f u, length bs))"
    using codec.roundtrip [OF c] fg(1) by (simp add: contramapEncoder_def)
  then show "mapDecoderOption d g (p @ bs @ q) (length p) = Inr (Some (u, length bs))"
    using fg(1) \<open>okU u\<close> by (auto simp: mapDecoderOption_eq_Some)
next
  fix off b u n
  assume off: "off \<le> length b" and "mapDecoderOption d g b off = Inr (Some (u, n))"
  then obtain t where t: "d b off = Inr (Some (t, n))" "g t = Some u"
    by (auto simp: mapDecoderOption_eq_Some)
  from codec.canonical [OF c off t(1)] fg(2) [of t u] t(2)
  show "okU u \<and> off + n \<le> length b \<and> contramapEncoder e f u = Inr (take n (drop off b))"
    by (simp add: contramapEncoder_def)
qed

lemma flatMapDecoder_eq_Some:
  "flatMapDecoder d f b off = Inr (Some (u, n)) \<longleftrightarrow>
   (\<exists>t k m. d b off = Inr (Some (t, k)) \<and> f t b (off + k) = Inr (Some (u, m)) \<and> n = k + m)"
  by (auto simp: flatMapDecoder_def flatMapDecoderAndMap_def res_bind_eq_Inr split: option.splits)

text \<open>
  A tagged union: the tag is encoded, then the body of that tag; the decoder reads the tag
  and picks the body's decoder by it.
\<close>

definition encTagged :: "'t encoder \<Rightarrow> ('u \<Rightarrow> 't) \<Rightarrow> ('t \<Rightarrow> 'u encoder) \<Rightarrow> 'u encoder" where
  "encTagged et tag eb = (\<lambda>u. res_bind (et (tag u)) (\<lambda>a. res_bind (eb (tag u) u) (\<lambda>b. Inr (a @ b))))"

lemma codec_tagged:
  assumes ct: "codec okt et dt"
    and cb: "\<And>t. okt t \<Longrightarrow> codec (okb t) (eb t) (db t)"
    and tag: "\<And>t u. okt t \<Longrightarrow> okb t u \<Longrightarrow> tag u = t"
  shows "codec (\<lambda>u. okt (tag u) \<and> okb (tag u) u) (encTagged et tag eb) (flatMapDecoder dt db)"
proof (rule codec.intro)
  fix u bs and p q :: bytes
  assume ok: "okt (tag u) \<and> okb (tag u) u" and "encTagged et tag eb u = Inr bs"
  then obtain a b where ab: "et (tag u) = Inr a" "eb (tag u) u = Inr b" "bs = a @ b"
    by (auto simp: encTagged_def res_bind_eq_Inr)
  have "dt (p @ a @ b @ q) (length p) = Inr (Some (tag u, length a))"
    using codec.roundtrip [OF ct _ ab(1)] ok by simp
  moreover have "db (tag u) ((p @ a) @ b @ q) (length (p @ a)) = Inr (Some (u, length b))"
    by (rule codec.roundtrip [OF cb _ ab(2)]) (use ok in simp_all)
  ultimately show "flatMapDecoder dt db (p @ bs @ q) (length p) = Inr (Some (u, length bs))"
    by (auto simp: flatMapDecoder_eq_Some ab(3))
next
  fix off b u n
  assume off: "off \<le> length b" and "flatMapDecoder dt db b off = Inr (Some (u, n))"
  then obtain t k m where km: "dt b off = Inr (Some (t, k))"
      "db t b (off + k) = Inr (Some (u, m))" "n = k + m"
    by (auto simp: flatMapDecoder_eq_Some)
  note c1 = codec.canonical [OF ct off km(1)]
  then have "okt t" "off + k \<le> length b" by simp_all
  note c2 = codec.canonical [OF cb [OF this(1)] this(2) km(2)]
  have "tag u = t" using c1 c2 tag by blast
  then show "(okt (tag u) \<and> okb (tag u) u) \<and> off + n \<le> length b \<and>
      encTagged et tag eb u = Inr (take n (drop off b))"
    using c1 c2 by (simp add: encTagged_def km(3) take_drop_join)
qed

lemma item_tagged:
  assumes ct: "item_codec okt et dt"
    and cb: "\<And>t. okt t \<Longrightarrow> codec (okb t) (eb t) (db t)"
    and tag: "\<And>t u. okt t \<Longrightarrow> okb t u \<Longrightarrow> tag u = t"
  shows "item_codec (\<lambda>u. okt (tag u) \<and> okb (tag u) u) (encTagged et tag eb) (flatMapDecoder dt db)"
  using codec_tagged [OF item_codecD [OF ct] cb tag] item_codec.nonempty [OF ct]
  by (intro item_codecI) (auto simp: encTagged_def res_bind_eq_Inr)

lemma codec_cong:
  "codec ok enc dec \<Longrightarrow> (\<And>x. ok' x \<longleftrightarrow> ok x) \<Longrightarrow> (\<And>x. ok x \<Longrightarrow> enc' x = enc x) \<Longrightarrow> dec' = dec \<Longrightarrow>
   codec ok' enc' dec'"
  unfolding codec_def by simp

lemma item_cong:
  "item_codec ok enc dec \<Longrightarrow> (\<And>x. ok' x \<longleftrightarrow> ok x) \<Longrightarrow> (\<And>x. ok x \<Longrightarrow> enc' x = enc x) \<Longrightarrow> dec' = dec \<Longrightarrow>
   item_codec ok' enc' dec'"
proof (rule item_codecI)
  assume c: "item_codec ok enc dec" and e: "\<And>x. ok' x \<longleftrightarrow> ok x" "\<And>x. ok x \<Longrightarrow> enc' x = enc x" "dec' = dec"
  show "codec ok' enc' dec'" by (rule codec_cong [OF item_codecD [OF c] e])
  show "bs \<noteq> []" if "ok' x" "enc' x = Inr bs" for x bs
    using item_codec.nonempty [OF c, of x bs] that e by simp
qed

lemma codec_void [codec_intros]: "codec (\<lambda>x. x = t) encodeVoid (succeedDecoder t)"
  by (rule codec.intro) (auto simp: encodeVoid_def succeedDecoder_def)

lemma codec_fail [codec_intros]: "codec (\<lambda>_. False) e failDecoder"
  by (rule codec.intro) (auto simp: failDecoder_def)

lemma item_optional [codec_intros]:
  assumes c: "codec ok e d"
  shows "item_codec (\<lambda>x. \<forall>v\<in>set_option x. ok v) (encodeOptional e) (decodeOptional d)"
proof -
  have enc: "encodeOptional e = (\<lambda>x. case x of None \<Rightarrow> Inr [0]
      | Some v \<Rightarrow> res_bind (e v) (\<lambda>b. Inr (1 # b)))"
    by (rule ext) (auto simp: encodeOptional_def prependPresenceOctet_def encodeUint8_def
        assertUintRange_def res_bind_def split: option.splits sum.splits)
  show ?thesis
  proof (intro item_codecI codec.intro)
    fix x bs and p q :: bytes
    assume ok: "\<forall>v\<in>set_option x. ok v" and "encodeOptional e x = Inr bs"
    then show "decodeOptional d (p @ bs @ q) (length p) = Inr (Some (x, length bs))"
    proof (cases x)
      case None
      then have "bs = [0]" using \<open>encodeOptional e x = Inr bs\<close> by (simp add: enc)
      then show ?thesis using None by (simp add: decodeOptional_def decodeUint8_def)
    next
      case (Some v)
      then obtain b where b: "e v = Inr b" "bs = 1 # b"
        using \<open>encodeOptional e x = Inr bs\<close> by (auto simp: enc res_bind_eq_Inr)
      have "d ((p @ [1]) @ b @ q) (length (p @ [1])) = Inr (Some (v, length b))"
        by (rule codec.roundtrip [OF c _ b(1)]) (use ok Some in simp)
      then show ?thesis using Some b by (simp add: decodeOptional_def decodeUint8_def)
    qed
  next
    fix off b x n
    assume off: "off \<le> length b" and dec: "decodeOptional d b off = Inr (Some (x, n))"
    have lt: "off < length b" using dec by (auto simp: decodeOptional_def decodeUint8_def split: if_splits)
    have cons: "take (Suc m) (drop off b) = b ! off # take m (drop (Suc off) b)" for m
      using lt by (simp add: Cons_nth_drop_Suc [symmetric])
    show "(\<forall>v\<in>set_option x. ok v) \<and> off + n \<le> length b \<and>
        encodeOptional e x = Inr (take n (drop off b))"
    proof (cases "uint (b ! off) = 1")
      case True
      then have one: "b ! off = 1" by (simp add: word_uint_eq_iff)
      from dec True lt obtain v m where vm: "d b (off + 1) = Inr (Some (v, m))" "x = Some v" "n = m + 1"
        by (auto simp: decodeOptional_def decodeUint8_def res_bind_eq_Inr split: option.splits)
      have "off + 1 \<le> length b" using lt by simp
      from codec.canonical [OF c this vm(1)] show ?thesis
        using vm by (simp add: enc cons one)
    next
      case False
      then have "uint (b ! off) = 0" "x = None" "n = 1"
        using dec lt by (auto simp: decodeOptional_def decodeUint8_def split: if_splits)
      moreover from this(1) have "b ! off = 0" by (simp add: word_uint_eq_iff)
      ultimately show ?thesis using lt cons [of 0] by (simp add: enc)
    qed
  next
    fix x bs
    assume "encodeOptional e x = Inr bs"
    then show "bs \<noteq> []" by (auto simp: enc res_bind_eq_Inr split: option.splits)
  qed
qed

section \<open>Vectors of items\<close>

lemma decodeItems_roundtrip:
  assumes c: "item_codec ok e d"
  shows "list_all ok xs \<Longrightarrow> res_mapM e xs = Inr ps \<Longrightarrow>
    decodeItems d (p @ concat ps) (length p) acc = Inr (Some (acc @ xs))"
proof (induction xs arbitrary: p ps acc)
  case Nil
  then show ?case by (simp add: decodeItems.simps)
next
  case (Cons x xs)
  then obtain a qs where a: "e x = Inr a" "res_mapM e xs = Inr qs" "ps = a # qs" and ok: "ok x" "list_all ok xs"
    by (auto simp: res_bind_eq_Inr)
  have ne: "a \<noteq> []" using item_codec.nonempty [OF c ok(1) a(1)] .
  have "d (p @ a @ concat qs) (length p) = Inr (Some (x, length a))"
    by (rule codec.roundtrip [OF item_codecD [OF c] ok(1) a(1)])
  moreover have "decodeItems d ((p @ a) @ concat qs) (length (p @ a)) (acc @ [x]) = Inr (Some ((acc @ [x]) @ xs))"
    by (rule Cons.IH [OF ok(2) a(2)])
  ultimately show ?case using ne a(3) by (subst decodeItems.simps) simp
qed

lemma decodeItems_canonical:
  "item_codec ok e d \<Longrightarrow> decodeItems d b cur acc = Inr (Some r) \<Longrightarrow> cur \<le> length b \<Longrightarrow>
    \<exists>xs ps. r = acc @ xs \<and> list_all ok xs \<and> res_mapM e xs = Inr ps \<and> concat ps = drop cur b"
proof (induction d b cur acc rule: decodeItems.induct)
  case (1 d b cur acc)
  note c = "1.prems"(1) and run = "1.prems"(2) and le = "1.prems"(3)
  show ?case
  proof (cases "cur < length b")
    case False
    then show ?thesis using run le by (simp add: decodeItems.simps)
  next
    case True
    with run obtain x n where x: "d b cur = Inr (Some (x, n))" "n \<noteq> 0"
        "decodeItems d b (cur + n) (acc @ [x]) = Inr (Some r)"
      by (subst (asm) decodeItems.simps) (auto simp: res_bind_eq_Inr split: option.splits if_splits)
    note can = codec.canonical [OF item_codecD [OF c] le x(1)]
    have bd: "cur + n \<le> length b" and okx: "ok x" and ex: "e x = Inr (take n (drop cur b))"
      using can by simp_all
    obtain xs ps where r: "r = (acc @ [x]) @ xs" "list_all ok xs" "res_mapM e xs = Inr ps"
        "concat ps = drop (cur + n) b"
      using "1.IH" [OF True x(1) refl refl x(2) c x(3) bd] by blast
    have "take n (drop cur b) @ drop (cur + n) b = drop cur b"
      by (metis append_take_drop_id drop_drop add.commute)
    then show ?thesis using r okx ex
      by (intro exI [of _ "x # xs"] exI [of _ "take n (drop cur b) # ps"]) simp
  qed
qed

lemma item_varLenType [codec_intros]:
  assumes c: "item_codec ok e d"
  shows "item_codec (list_all ok) (encodeVarLenType e) (decodeVarLenType d)"
proof (intro item_codecI codec.intro)
  have enc: "encodeVarLenType e xs = Inr bs \<longleftrightarrow>
      (\<exists>ps. res_mapM e xs = Inr ps \<and> encodeVarLenData (concat ps) = Inr bs)" for xs bs
    by (auto simp: encodeVarLenType_def encodeVarLenData_def res_bind_eq_Inr)
  {
    fix xs bs and p q :: bytes
    assume ok: "list_all ok xs" and "encodeVarLenType e xs = Inr bs"
    then obtain ps where ps: "res_mapM e xs = Inr ps" "encodeVarLenData (concat ps) = Inr bs"
      by (auto simp: enc)
    have "decodeItems d (concat ps) 0 [] = Inr (Some xs)"
      using decodeItems_roundtrip [OF c ok ps(1), of "[]" "[]"] by simp
    then show "decodeVarLenType d (p @ bs @ q) (length p) = Inr (Some (xs, length bs))"
      using varLenData.roundtrip [OF _ ps(2), of p q] by (simp add: decodeVarLenType_def)
  next
    fix off b xs n
    assume off: "off \<le> length b" and "decodeVarLenType d b off = Inr (Some (xs, n))"
    then obtain t where t: "decodeVarLenData b off = Inr (Some (t, n))"
        "decodeItems d t 0 [] = Inr (Some xs)"
      by (auto simp: decodeVarLenType_def res_bind_eq_Inr split: option.splits)
    obtain ps where "list_all ok xs" "res_mapM e xs = Inr ps" "concat ps = t"
      using decodeItems_canonical [OF c t(2)] by auto
    then show "list_all ok xs \<and> off + n \<le> length b \<and> encodeVarLenType e xs = Inr (take n (drop off b))"
      using varLenData.canonical [OF off t(1)] by (auto simp: enc)
  next
    fix xs bs
    assume "encodeVarLenType e xs = Inr bs"
    then show "bs \<noteq> []" using varLenData.nonempty by (auto simp: enc)
  }
qed

section \<open>Enumerations\<close>

lemma reverseMap_eq: "reverseMap t = rev (map (\<lambda>(k, v). (v, k)) t)"
proof -
  have "foldl (\<lambda>acc (key, v). (v, key) # acc) acc t = rev (map (\<lambda>(k, v). (v, k)) t) @ acc" for acc
    by (induction t arbitrary: acc) auto
  then show ?thesis by (simp add: reverseMap_def)
qed

lemma enumNumberToKey_iff:
  assumes "distinct (map fst t)" "distinct (map snd t)"
  shows "enumNumberToKey t n = Some k \<longleftrightarrow> map_of t k = Some n"
proof -
  have d: "distinct (map fst (rev (map (\<lambda>(k, v). (v, k)) t)))"
    using assms(2) by (simp add: rev_map [symmetric] comp_def case_prod_beta)
  have "map_of (reverseMap t) n = Some k \<longleftrightarrow> (k, n) \<in> set t"
    unfolding reverseMap_eq map_of_eq_Some_iff [OF d] by auto
  moreover have "map_of t k = Some n \<longleftrightarrow> (k, n) \<in> set t"
    using assms(1) by (rule map_of_eq_Some_iff)
  ultimately show ?thesis by (force simp: enumNumberToKey_def)
qed

lemma enumNumberToKey_None:
  assumes "distinct (map fst t)" "distinct (map snd t)"
  shows "enumNumberToKey t n = None \<longleftrightarrow> n \<notin> set (map snd t)"
proof -
  have "(\<exists>k. enumNumberToKey t n = Some k) \<longleftrightarrow> n \<in> set (map snd t)"
    unfolding enumNumberToKey_iff [OF assms] using assms(1)
    by (force simp: map_of_eq_Some_iff)
  then show ?thesis by auto
qed

lemma item_enum:
  assumes c: "item_codec (\<lambda>_. True) e d" and t: "distinct (map fst t)" "distinct (map snd t)"
  shows "item_codec (\<lambda>k. k \<in> set (map fst t)) (encodeEnum e t) (mapDecoderOption d (enumNumberToKey t))"
proof (intro item_codecI)
  let ?f = "\<lambda>k. case map_of t k of Some n \<Rightarrow> n | None \<Rightarrow> 0"
  have m: "k \<in> set (map fst t) \<longleftrightarrow> (\<exists>n. map_of t k = Some n)" for k
    by (metis map_of_eq_None_iff option.exhaust option.distinct(1) set_map)
  have "codec (\<lambda>k. k \<in> set (map fst t)) (contramapEncoder e ?f) (mapDecoderOption d (enumNumberToKey t))"
    by (rule codec_partial_map [OF item_codecD [OF c]])
      (auto simp: m enumNumberToKey_iff [OF t] simp del: set_map)
  then show "codec (\<lambda>k. k \<in> set (map fst t)) (encodeEnum e t) (mapDecoderOption d (enumNumberToKey t))"
    by (rule codec_cong) (auto simp: m encodeEnum_def contramapEncoder_def simp del: set_map)
  show "bs \<noteq> []" if "encodeEnum e t x = Inr bs" for x bs
    using that item_codec.nonempty [OF c] by (auto simp: encodeEnum_def split: option.splits)
qed

text \<open>An open enum round-trips on the names it decodes to: a listed number has its name.\<close>

definition ok_open :: "('k \<times> int) list \<Rightarrow> 'k open_name \<Rightarrow> bool" where
  "ok_open t s = (case s of Known k \<Rightarrow> k \<in> set (map fst t)
     | Numeric n \<Rightarrow> n \<notin> set (map snd t) | Opaque _ \<Rightarrow> False)"

lemma item_open_enum:
  assumes c: "item_codec (\<lambda>_. True) e d" and t: "distinct (map fst t)" "distinct (map snd t)"
  shows "item_codec (ok_open t) (encodeOpenEnum e t) (mapDecoderOption d (openEnumNumberToKey t))"
proof (intro item_codecI)
  let ?f = "\<lambda>s. case openEnumNumberEncoder t s of Inr n \<Rightarrow> n | Inl _ \<Rightarrow> 0"
  have m: "k \<in> set (map fst t) \<longleftrightarrow> (\<exists>n. map_of t k = Some n)" for k
    by (metis map_of_eq_None_iff option.exhaust option.distinct(1) set_map)
  have k: "map_of t x = Some n \<Longrightarrow> enumNumberToKey t n = Some x" for x n
    by (simp add: enumNumberToKey_iff [OF t])
  have "codec (ok_open t) (contramapEncoder e ?f) (mapDecoderOption d (openEnumNumberToKey t))"
  proof (rule codec_partial_map [OF item_codecD [OF c]])
    fix u assume "ok_open t u"
    then show "True \<and> openEnumNumberToKey t (?f u) = Some u"
      by (auto simp: ok_open_def m openEnumNumberToKey_def openEnumNumberEncoder_def k
          enumNumberToKey_None [OF t] simp del: set_map split: open_name.splits)
        (auto simp: enumNumberToKey_def)
  next
    fix n u assume "openEnumNumberToKey t n = Some u"
    then show "ok_open t u \<and> ?f u = n"
      by (auto simp: openEnumNumberToKey_def ok_open_def openEnumNumberEncoder_def m enumNumberToKey_iff [OF t]
          enumNumberToKey_None [OF t] simp del: set_map split: option.splits)
  qed
  then show "codec (ok_open t) (encodeOpenEnum e t) (mapDecoderOption d (openEnumNumberToKey t))"
    by (rule codec_cong) (auto simp: ok_open_def m encodeOpenEnum_def openEnumNumberEncoder_def
        contramapEncoder_def simp del: set_map split: open_name.splits)
  show "bs \<noteq> []" if "encodeOpenEnum e t x = Inr bs" for x bs
    using that item_codec.nonempty [OF c] by (auto simp: encodeOpenEnum_def res_bind_eq_Inr)
qed

section \<open>Byte comparison\<close>

lemma constantTimeEqual_iff: "constantTimeEqual a b \<longleftrightarrow> a = b"
proof -
  have acc: "foldl (\<lambda>r (x, y). r OR (x XOR y)) r zs = (0 :: byte) \<longleftrightarrow>
      r = 0 \<and> (\<forall>(x, y) \<in> set zs. x = y)" for r zs
  proof (induction zs arbitrary: r)
    case Nil
    then show ?case by simp
  next
    case (Cons z zs)
    have "x = y" if "x XOR y = 0" for x y :: byte
    proof -
      have "(x XOR y) XOR y = y" unfolding that by simp
      then show ?thesis unfolding xor.assoc by simp
    qed
    then have "x XOR y = 0 \<longleftrightarrow> x = y" for x y :: byte by auto
    then have e: "r OR (x XOR y) = 0 \<longleftrightarrow> r = 0 \<and> x = y" for r x y :: byte
      by (simp only: or_eq_0_iff)
    show ?case by (cases z) (simp only: foldl_Cons prod.case Cons.IH e, simp)
  qed
  show ?thesis
    unfolding constantTimeEqual_def acc
    by (auto simp: list_eq_iff_nth_eq set_zip)
qed

section \<open>Rules for the wire types\<close>

named_theorems ok_defs \<open>definitions of the predicates of well-formed wire values\<close>

lemma item_closed_enum:
  assumes "item_codec (\<lambda>_. True) e d" "distinct (map fst t)" "distinct (map snd t)"
    and "\<And>k. k \<in> set (map fst t)"
  shows "item_codec (\<lambda>_. True) (encodeEnum e t) (mapDecoderOption d (enumNumberToKey t))"
  using item_enum [OF assms(1-3)] assms(4) by simp

text \<open>The body of a tagged union: one constructor around a value, or a constant.\<close>

lemma codec_ctor:
  assumes c: "codec ok e d" and eb: "\<And>t. eb (C t) = e t" and inj: "\<And>t t'. C t = C t' \<Longrightarrow> t = t'"
  shows "codec (\<lambda>u. \<exists>t. u = C t \<and> ok t) eb (mapDecoder d C)"
proof (rule codec.intro)
  fix u bs and p q :: bytes
  assume "\<exists>t. u = C t \<and> ok t" "eb u = Inr bs"
  then show "mapDecoder d C (p @ bs @ q) (length p) = Inr (Some (u, length bs))"
    using codec.roundtrip [OF c] by (auto simp: mapDecoder_eq_Some eb)
next
  fix off b u n
  assume off: "off \<le> length b" and "mapDecoder d C b off = Inr (Some (u, n))"
  then obtain t where t: "d b off = Inr (Some (t, n))" "u = C t" by (auto simp: mapDecoder_eq_Some)
  from codec.canonical [OF c off t(1)] t(2)
  show "(\<exists>t. u = C t \<and> ok t) \<and> off + n \<le> length b \<and> eb u = Inr (take n (drop off b))"
    by (auto simp: eb)
qed

lemma codec_ctor_cong:
  "codec ok e d \<Longrightarrow> (\<And>t. eb (C t) = e t) \<Longrightarrow> (\<And>t t'. C t = C t' \<Longrightarrow> t = t') \<Longrightarrow>
   (\<And>u. ok' u \<longleftrightarrow> (\<exists>t. u = C t \<and> ok t)) \<Longrightarrow> codec ok' eb (mapDecoder d C)"
  by (rule codec_cong [OF codec_ctor [of ok e d eb C]]) auto

lemma codec_const: "eb c = Inr [] \<Longrightarrow> codec (\<lambda>u. u = c) eb (succeedDecoder c)"
  by (rule codec.intro) (auto simp: succeedDecoder_def)

lemma codec_const_cong:
  "eb c = Inr [] \<Longrightarrow> (\<And>u. ok' u \<longleftrightarrow> u = c) \<Longrightarrow> codec ok' eb (succeedDecoder c)"
  by (rule codec_cong [OF codec_const [of eb c]]) auto

lemma item_partial_map:
  assumes c: "item_codec ok e d"
    and fg: "\<And>u. okU u \<Longrightarrow> ok (f u) \<and> g (f u) = Some u" "\<And>t u. ok t \<Longrightarrow> g t = Some u \<Longrightarrow> okU u \<and> f u = t"
  shows "item_codec okU (contramapEncoder e f) (mapDecoderOption d g)"
proof (rule item_codecI)
  show "codec okU (contramapEncoder e f) (mapDecoderOption d g)"
    by (rule codec_partial_map [OF item_codecD [OF c] fg])
  show "bs \<noteq> []" if "okU x" "contramapEncoder e f x = Inr bs" for x bs
    using item_codec.nonempty [OF c, of "f x" bs] fg(1) [OF that(1)] that(2)
    by (simp add: contramapEncoder_def)
qed

lemma item_id_partial:
  assumes c: "item_codec ok e d" and g: "\<And>t. g t = (if P t then Some t else None)"
  shows "item_codec (\<lambda>t. ok t \<and> P t) e (mapDecoderOption d g)"
proof -
  have "item_codec (\<lambda>t. ok t \<and> P t) (contramapEncoder e (\<lambda>t. t)) (mapDecoderOption d g)"
    by (rule item_partial_map [OF c]) (auto simp: g split: if_splits)
  then show ?thesis by (simp add: contramapEncoder_def)
qed

text \<open>A value followed by a body whose codec depends on it.\<close>

definition encDep :: "'t encoder \<Rightarrow> ('t \<Rightarrow> 'u encoder) \<Rightarrow> ('t \<times> 'u) encoder" where
  "encDep et eb = (\<lambda>(t, u). res_bind (et t) (\<lambda>a. res_bind (eb t u) (\<lambda>b. Inr (a @ b))))"

lemma item_dep:
  assumes ct: "item_codec okt et dt" and cb: "\<And>t. okt t \<Longrightarrow> codec (okb t) (eb t) (db t)"
  shows "item_codec (\<lambda>z. okt (fst z) \<and> okb (fst z) (snd z)) (encDep et eb)
    (flatMapDecoder dt (\<lambda>t. mapDecoder (db t) (Pair t)))"
proof -
  have "item_codec (\<lambda>z. okt (fst z) \<and> (fst z = fst z \<and> okb (fst z) (snd z)))
    (encTagged et fst (\<lambda>t z. eb t (snd z))) (flatMapDecoder dt (\<lambda>t. mapDecoder (db t) (Pair t)))"
  proof (rule item_tagged [OF ct, where okb = "\<lambda>t z. fst z = t \<and> okb t (snd z)" and eb = "\<lambda>t z. eb t (snd z)"])
    fix t assume "okt t"
    from cb [OF this]
    show "codec (\<lambda>z. fst z = t \<and> okb t (snd z)) (\<lambda>z. eb t (snd z)) (mapDecoder (db t) (Pair t))"
      by (rule codec_ctor_cong) auto
  qed auto
  then show ?thesis by (rule item_cong) (auto simp: encTagged_def encDep_def)
qed

lemmas number_codecs' [codec_intros] =
  number_codecs [THEN item_codecD] varLenData.codec_axioms

lemma codec_varLenType [codec_intros]:
  "item_codec ok e d \<Longrightarrow> codec (list_all ok) (encodeVarLenType e) (decodeVarLenType d)"
  by (rule item_codecD [OF item_varLenType])

lemma codec_optional [codec_intros]:
  "codec ok e d \<Longrightarrow> codec (\<lambda>x. \<forall>v\<in>set_option x. ok v) (encodeOptional e) (decodeOptional d)"
  by (rule item_codecD [OF item_optional])

end
