(* ===== verification/LeafNode.thy ===== *)
theory LeafNode imports CodecLaws begin

text \<open>
  The leaf node and everything inside it: the enumerations and record types of
  \<^verbatim>\<open>src/protocol-version.ts\<close>, \<^verbatim>\<open>src/crypto/ciphersuite.ts\<close>, \<^verbatim>\<open>src/credential*.ts\<close>,
  \<^verbatim>\<open>src/capabilities.ts\<close>, \<^verbatim>\<open>src/lifetime.ts\<close>, \<^verbatim>\<open>src/extension.ts\<close>, \<^verbatim>\<open>src/leaf-node*.ts\<close>,
  \<^verbatim>\<open>src/node-type.ts\<close> and \<^verbatim>\<open>src/parent-node.ts\<close>, each with its encoder and decoder and
  the proof that they form a codec.
\<close>

section \<open>Enumerations\<close>

datatype nodeTypeName = NT_leaf | NT_parent

definition nodeTypes :: "(nodeTypeName \<times> int) list" where
  "nodeTypes = [(NT_leaf, 1), (NT_parent, 2)]"

definition encodeNodeType :: "nodeTypeName encoder" where
  "encodeNodeType = encodeEnum encodeUint8 nodeTypes"

definition decodeNodeType :: "nodeTypeName decoder" where
  "decodeNodeType = mapDecoderOption decodeUint8 (enumNumberToKey nodeTypes)"

interpretation nodeType: item_codec "\<lambda>_. True" encodeNodeType decodeNodeType
  unfolding encodeNodeType_def decodeNodeType_def
  by (rule item_closed_enum [OF uint8.item_codec_axioms])
    (auto simp: nodeTypes_def intro: nodeTypeName.exhaust)

datatype defaultExtensionTypeName =
  ET_application_id | ET_ratchet_tree | ET_required_capabilities | ET_external_pub | ET_external_senders

definition defaultExtensionTypes :: "(defaultExtensionTypeName \<times> int) list" where
  "defaultExtensionTypes =
     [(ET_application_id, 1), (ET_ratchet_tree, 2), (ET_required_capabilities, 3),
      (ET_external_pub, 4), (ET_external_senders, 5)]"

definition encodeDefaultExtensionType :: "defaultExtensionTypeName encoder" where
  "encodeDefaultExtensionType = encodeEnum encodeUint16 defaultExtensionTypes"

definition decodeDefaultExtensionType :: "defaultExtensionTypeName decoder" where
  "decodeDefaultExtensionType = mapDecoderOption decodeUint16 (enumNumberToKey defaultExtensionTypes)"

interpretation defaultExtensionType:
  item_codec "\<lambda>_. True" encodeDefaultExtensionType decodeDefaultExtensionType
  unfolding encodeDefaultExtensionType_def decodeDefaultExtensionType_def
  by (rule item_closed_enum [OF uint16.item_codec_axioms])
    (auto simp: defaultExtensionTypes_def intro: defaultExtensionTypeName.exhaust)

datatype credentialTypeKey = CT_basic | CT_x509

type_synonym credentialTypeName = "credentialTypeKey open_name"

definition credentialTypes :: "(credentialTypeKey \<times> int) list" where
  "credentialTypes = [(CT_basic, 1), (CT_x509, 2)]"

definition encodeCredentialType :: "credentialTypeName encoder" where
  "encodeCredentialType = encodeOpenEnum encodeUint16 credentialTypes"

definition decodeCredentialType :: "credentialTypeName decoder" where
  "decodeCredentialType = mapDecoderOption decodeUint16 (openEnumNumberToKey credentialTypes)"

interpretation credentialType: item_codec "ok_open credentialTypes" encodeCredentialType decodeCredentialType
  unfolding encodeCredentialType_def decodeCredentialType_def
  by (rule item_open_enum [OF uint16.item_codec_axioms]) (simp_all add: credentialTypes_def)

datatype protocolVersionName = PV_mls10

type_synonym capabilityProtocolVersion = "protocolVersionName open_name"

definition protocolVersions :: "(protocolVersionName \<times> int) list" where
  "protocolVersions = [(PV_mls10, 1)]"

definition encodeProtocolVersion :: "protocolVersionName encoder" where
  "encodeProtocolVersion = encodeEnum encodeUint16 protocolVersions"

definition decodeProtocolVersion :: "protocolVersionName decoder" where
  "decodeProtocolVersion = mapDecoderOption decodeUint16 (enumNumberToKey protocolVersions)"

definition encodeCapabilityProtocolVersion :: "capabilityProtocolVersion encoder" where
  "encodeCapabilityProtocolVersion = encodeOpenEnum encodeUint16 protocolVersions"

definition decodeCapabilityProtocolVersion :: "capabilityProtocolVersion decoder" where
  "decodeCapabilityProtocolVersion = mapDecoderOption decodeUint16 (openEnumNumberToKey protocolVersions)"

interpretation protocolVersion: item_codec "\<lambda>_. True" encodeProtocolVersion decodeProtocolVersion
  unfolding encodeProtocolVersion_def decodeProtocolVersion_def
  by (rule item_closed_enum [OF uint16.item_codec_axioms])
    (auto simp: protocolVersions_def intro: protocolVersionName.exhaust)

interpretation capabilityProtocolVersion:
  item_codec "ok_open protocolVersions" encodeCapabilityProtocolVersion decodeCapabilityProtocolVersion
  unfolding encodeCapabilityProtocolVersion_def decodeCapabilityProtocolVersion_def
  by (rule item_open_enum [OF uint16.item_codec_axioms]) (simp_all add: protocolVersions_def)

datatype ciphersuiteKey =
    MLS_128_DHKEMX25519_AES128GCM_SHA256_Ed25519
  | MLS_128_DHKEMP256_AES128GCM_SHA256_P256
  | MLS_128_DHKEMX25519_CHACHA20POLY1305_SHA256_Ed25519
  | MLS_256_DHKEMX448_AES256GCM_SHA512_Ed448
  | MLS_256_DHKEMP521_AES256GCM_SHA512_P521
  | MLS_256_DHKEMX448_CHACHA20POLY1305_SHA512_Ed448
  | MLS_256_DHKEMP384_AES256GCM_SHA384_P384
  | MLS_128_MLKEM512_AES128GCM_SHA256_Ed25519
  | MLS_128_MLKEM512_CHACHA20POLY1305_SHA256_Ed25519
  | MLS_256_MLKEM768_AES256GCM_SHA384_Ed25519
  | MLS_256_MLKEM768_CHACHA20POLY1305_SHA384_Ed25519
  | MLS_256_MLKEM1024_AES256GCM_SHA512_Ed25519
  | MLS_256_MLKEM1024_CHACHA20POLY1305_SHA512_Ed25519
  | MLS_256_XWING_AES256GCM_SHA512_Ed25519
  | MLS_256_XWING_CHACHA20POLY1305_SHA512_Ed25519
  | MLS_256_MLKEM1024_AES256GCM_SHA512_MLDSA87
  | MLS_256_MLKEM1024_CHACHA20POLY1305_SHA512_MLDSA87
  | MLS_256_XWING_AES256GCM_SHA512_MLDSA87
  | MLS_256_XWING_CHACHA20POLY1305_SHA512_MLDSA87

type_synonym ciphersuiteName = "ciphersuiteKey open_name"

definition ciphersuites :: "(ciphersuiteKey \<times> int) list" where
  "ciphersuites =
    [(MLS_128_DHKEMX25519_AES128GCM_SHA256_Ed25519, 1),
     (MLS_128_DHKEMP256_AES128GCM_SHA256_P256, 2),
     (MLS_128_DHKEMX25519_CHACHA20POLY1305_SHA256_Ed25519, 3),
     (MLS_256_DHKEMX448_AES256GCM_SHA512_Ed448, 4),
     (MLS_256_DHKEMP521_AES256GCM_SHA512_P521, 5),
     (MLS_256_DHKEMX448_CHACHA20POLY1305_SHA512_Ed448, 6),
     (MLS_256_DHKEMP384_AES256GCM_SHA384_P384, 7),
     (MLS_128_MLKEM512_AES128GCM_SHA256_Ed25519, 0xf007),
     (MLS_128_MLKEM512_CHACHA20POLY1305_SHA256_Ed25519, 0xf008),
     (MLS_256_MLKEM768_AES256GCM_SHA384_Ed25519, 0xf009),
     (MLS_256_MLKEM768_CHACHA20POLY1305_SHA384_Ed25519, 0xf00a),
     (MLS_256_MLKEM1024_AES256GCM_SHA512_Ed25519, 0xf00b),
     (MLS_256_MLKEM1024_CHACHA20POLY1305_SHA512_Ed25519, 0xf00c),
     (MLS_256_XWING_AES256GCM_SHA512_Ed25519, 0xf00d),
     (MLS_256_XWING_CHACHA20POLY1305_SHA512_Ed25519, 0xf00e),
     (MLS_256_MLKEM1024_AES256GCM_SHA512_MLDSA87, 0xf00f),
     (MLS_256_MLKEM1024_CHACHA20POLY1305_SHA512_MLDSA87, 0xf010),
     (MLS_256_XWING_AES256GCM_SHA512_MLDSA87, 0xf011),
     (MLS_256_XWING_CHACHA20POLY1305_SHA512_MLDSA87, 0xf012)]"

definition encodeCiphersuite :: "ciphersuiteName encoder" where
  "encodeCiphersuite = encodeOpenEnum encodeUint16 ciphersuites"

definition decodeCiphersuite :: "ciphersuiteName decoder" where
  "decodeCiphersuite = mapDecoderOption decodeUint16 (openEnumNumberToKey ciphersuites)"

interpretation ciphersuite: item_codec "ok_open ciphersuites" encodeCiphersuite decodeCiphersuite
  unfolding encodeCiphersuite_def decodeCiphersuite_def
  by (rule item_open_enum [OF uint16.item_codec_axioms]) (simp_all add: ciphersuites_def)

datatype leafNodeSourceName = LNS_key_package | LNS_update | LNS_commit

definition leafNodeSources :: "(leafNodeSourceName \<times> int) list" where
  "leafNodeSources = [(LNS_key_package, 1), (LNS_update, 2), (LNS_commit, 3)]"

definition encodeLeafNodeSource :: "leafNodeSourceName encoder" where
  "encodeLeafNodeSource = encodeEnum encodeUint8 leafNodeSources"

definition decodeLeafNodeSource :: "leafNodeSourceName decoder" where
  "decodeLeafNodeSource = mapDecoderOption decodeUint8 (enumNumberToKey leafNodeSources)"

interpretation leafNodeSource: item_codec "\<lambda>_. True" encodeLeafNodeSource decodeLeafNodeSource
  unfolding encodeLeafNodeSource_def decodeLeafNodeSource_def
  by (rule item_closed_enum [OF uint8.item_codec_axioms])
    (auto simp: leafNodeSources_def intro: leafNodeSourceName.exhaust)

lemmas enum_codecs [codec_intros] =
  nodeType.item_codec_axioms nodeType.codec_axioms
  defaultExtensionType.item_codec_axioms defaultExtensionType.codec_axioms
  credentialType.item_codec_axioms credentialType.codec_axioms
  protocolVersion.item_codec_axioms protocolVersion.codec_axioms
  capabilityProtocolVersion.item_codec_axioms capabilityProtocolVersion.codec_axioms
  ciphersuite.item_codec_axioms ciphersuite.codec_axioms
  leafNodeSource.item_codec_axioms leafNodeSource.codec_axioms

section \<open>Extensions\<close>

datatype extensionType = ExtDefault defaultExtensionTypeName | ExtNumber int

definition encodeExtensionType :: "extensionType encoder" where
  "encodeExtensionType t = (case t of
     ExtNumber n \<Rightarrow> encodeUint16 n | ExtDefault d \<Rightarrow> encodeDefaultExtensionType d)"

definition decodeExtensionType :: "extensionType decoder" where
  "decodeExtensionType =
     orDecoder (mapDecoder decodeDefaultExtensionType ExtDefault) (mapDecoder decodeUint16 ExtNumber)"

text \<open>A number that has a name decodes to the name, so a well-formed number has none.\<close>

definition okExtensionType :: "extensionType \<Rightarrow> bool" where
  "okExtensionType t = (case t of
     ExtNumber n \<Rightarrow> n \<notin> set (map snd defaultExtensionTypes) | ExtDefault _ \<Rightarrow> True)"

definition extNum :: "int \<Rightarrow> extensionType" where
  "extNum n = (case enumNumberToKey defaultExtensionTypes n of
     None \<Rightarrow> ExtNumber n | Some d \<Rightarrow> ExtDefault d)"

lemma decodeExtensionType_map: "decodeExtensionType = mapDecoder decodeUint16 extNum"
  by (intro ext) (auto simp: decodeExtensionType_def orDecoder_def mapDecoder_def mapDecoderOption_def
      decodeDefaultExtensionType_def extNum_def res_bind_def split: sum.splits option.splits)

definition extensionTypeToNumber :: "extensionType \<Rightarrow> int" where
  "extensionTypeToNumber t = (case t of ExtNumber n \<Rightarrow> n
     | ExtDefault d \<Rightarrow> (case map_of defaultExtensionTypes d of Some n \<Rightarrow> n | None \<Rightarrow> 0))"

lemma defaultExtensionTypes_distinct:
  "distinct (map fst defaultExtensionTypes)" "distinct (map snd defaultExtensionTypes)"
  by (simp_all add: defaultExtensionTypes_def)

lemma extNum_iff: "okExtensionType u \<and> extensionTypeToNumber u = n \<longleftrightarrow> extNum n = u"
proof (cases u)
  case (ExtDefault d)
  then show ?thesis
    by (cases d) (auto simp: okExtensionType_def extNum_def extensionTypeToNumber_def
        defaultExtensionTypes_def enumNumberToKey_def reverseMap_def)
next
  case (ExtNumber m)
  then show ?thesis
    by (auto simp: okExtensionType_def extNum_def extensionTypeToNumber_def
        enumNumberToKey_None [OF defaultExtensionTypes_distinct, symmetric] simp del: set_map
        split: option.splits)
qed

lemma encodeDefaultExtensionType_number:
  "encodeDefaultExtensionType d = encodeUint16 (extensionTypeToNumber (ExtDefault d))"
  by (cases d) (simp_all add: extensionTypeToNumber_def encodeDefaultExtensionType_def encodeEnum_def
      defaultExtensionTypes_def)

interpretation extensionType: item_codec okExtensionType encodeExtensionType decodeExtensionType
proof -
  have "item_codec okExtensionType (contramapEncoder encodeUint16 extensionTypeToNumber)
      (mapDecoder decodeUint16 extNum)"
    by (rule item_map [OF uint16.item_codec_axioms]) (use extNum_iff in auto)
  then show "item_codec okExtensionType encodeExtensionType decodeExtensionType"
    by (rule item_cong) (auto simp: decodeExtensionType_map encodeExtensionType_def contramapEncoder_def
        encodeDefaultExtensionType_number extensionTypeToNumber_def split: extensionType.splits)
qed

record extension =
  extensionType :: extensionType
  extensionData :: bytes

definition encodeExtension :: "extension encoder" where
  "encodeExtension = contramapEncoders (encPair encodeExtensionType encodeVarLenData)
     (\<lambda>e. (extensionType e, extensionData e))"

definition decodeExtension :: "extension decoder" where
  "decodeExtension = mapDecoders (decPair decodeExtensionType decodeVarLenData)
     (\<lambda>(t, d). \<lparr>extensionType = t, extensionData = d\<rparr>)"

definition okExtension :: "extension \<Rightarrow> bool" where
  [ok_defs]: "okExtension e = okExtensionType (extensionType e)"

interpretation extension: item_codec okExtension encodeExtension decodeExtension
  unfolding encodeExtension_def decodeExtension_def
  by (rule item_record, rule item_pair, rule extensionType.item_codec_axioms, rule codec_intros)
    (auto simp: ok_defs)

definition extensionEqual :: "extension \<Rightarrow> extension \<Rightarrow> bool" where
  "extensionEqual a b \<longleftrightarrow> extensionType a = extensionType b \<and>
     constantTimeEqual (extensionData a) (extensionData b)"

definition extensionsEqual :: "extension list \<Rightarrow> extension list \<Rightarrow> bool" where
  "extensionsEqual a b =
     (if length a \<noteq> length b then False else list_all (\<lambda>(x, y). extensionEqual x y) (zip a b))"

definition isDefaultExtension :: "extensionType \<Rightarrow> bool" where
  "isDefaultExtension t = (case t of ExtNumber _ \<Rightarrow> False | ExtDefault _ \<Rightarrow> True)"

definition extensionsSupportedByCapabilities :: "extension list \<Rightarrow> int list \<Rightarrow> bool" where
  "extensionsSupportedByCapabilities requiredExtensions capExtensions =
     list_all (\<lambda>ex. extensionTypeToNumber (extensionType ex) \<in> set capExtensions)
       (filter (\<lambda>ex. \<not> isDefaultExtension (extensionType ex)) requiredExtensions)"

lemma extensionEqual_iff: "extensionEqual a b \<longleftrightarrow> a = b"
  by (cases a; cases b) (auto simp: extensionEqual_def constantTimeEqual_iff)

lemma extensionsEqual_iff: "extensionsEqual a b \<longleftrightarrow> a = b"
  unfolding extensionsEqual_def
  by (auto simp: extensionEqual_iff list_all_iff list_eq_iff_nth_eq set_zip)

section \<open>Credentials\<close>

text \<open>A custom credential carries the type name it was made with.\<close>

datatype credential =
    CredentialBasic bytes
  | CredentialX509 "bytes list"
  | CredentialCustom credentialTypeName bytes

definition encodeCredentialBasic :: "bytes encoder" where
  "encodeCredentialBasic = contramapEncoders (encPair encodeCredentialType encodeVarLenData)
     (\<lambda>identity. (Known CT_basic, identity))"

definition encodeCredentialX509 :: "bytes list encoder" where
  "encodeCredentialX509 = contramapEncoders (encPair encodeCredentialType (encodeVarLenType encodeVarLenData))
     (\<lambda>certificates. (Known CT_x509, certificates))"

definition encodeCredentialCustom :: "(credentialTypeName \<times> bytes) encoder" where
  "encodeCredentialCustom = contramapEncoders (encPair encodeCredentialType encodeVarLenData) (\<lambda>c. c)"

definition encodeCredential :: "credential encoder" where
  "encodeCredential c = (case c of
     CredentialBasic identity \<Rightarrow> encodeCredentialBasic identity
   | CredentialX509 certificates \<Rightarrow> encodeCredentialX509 certificates
   | CredentialCustom t d \<Rightarrow> encodeCredentialCustom (t, d))"

definition decodeCredentialBasic :: "credential decoder" where
  "decodeCredentialBasic = mapDecoder decodeVarLenData CredentialBasic"

definition decodeCredentialX509 :: "credential decoder" where
  "decodeCredentialX509 = mapDecoder (decodeVarLenType decodeVarLenData) CredentialX509"

definition decodeCredential :: "credential decoder" where
  "decodeCredential = flatMapDecoder decodeCredentialType (\<lambda>t. case t of
     Known CT_basic \<Rightarrow> decodeCredentialBasic
   | Known CT_x509 \<Rightarrow> decodeCredentialX509
   | _ \<Rightarrow> failDecoder)"

definition credentialTypeOf :: "credential \<Rightarrow> credentialTypeName" where
  "credentialTypeOf c = (case c of CredentialBasic _ \<Rightarrow> Known CT_basic
     | CredentialX509 _ \<Rightarrow> Known CT_x509 | CredentialCustom t _ \<Rightarrow> t)"

text \<open>No custom credential decodes, so only the two standard ones are well formed.\<close>

definition okCredential :: "credential \<Rightarrow> bool" where
  "okCredential c = (case c of CredentialCustom _ _ \<Rightarrow> False | _ \<Rightarrow> True)"

interpretation credential: item_codec okCredential encodeCredential decodeCredential
proof -
  let ?eb = "\<lambda>c. case c of CredentialBasic i \<Rightarrow> encodeVarLenData i
     | CredentialX509 cs \<Rightarrow> encodeVarLenType encodeVarLenData cs | _ \<Rightarrow> Inl CodecError"
  let ?ok = "\<lambda>t c. (t = Known CT_basic \<and> (\<exists>i. c = CredentialBasic i)) \<or>
      (t = Known CT_x509 \<and> (\<exists>cs. c = CredentialX509 cs \<and> list_all (\<lambda>_. True) cs))"
  have "item_codec (\<lambda>c. ok_open credentialTypes (credentialTypeOf c) \<and> ?ok (credentialTypeOf c) c)
      (encTagged encodeCredentialType credentialTypeOf (\<lambda>_. ?eb)) decodeCredential"
    unfolding decodeCredential_def
  proof (rule item_tagged [OF credentialType.item_codec_axioms])
    fix t
    have b: "codec (\<lambda>u. \<exists>i. u = CredentialBasic i \<and> True) ?eb decodeCredentialBasic"
      unfolding decodeCredentialBasic_def by (rule codec_ctor) (auto intro: codec_intros)
    have x: "codec (\<lambda>u. \<exists>cs. u = CredentialX509 cs \<and> list_all (\<lambda>_. True) cs) ?eb decodeCredentialX509"
      unfolding decodeCredentialX509_def by (rule codec_ctor) (auto intro: codec_intros)
    show "codec (?ok t) ?eb (case t of Known CT_basic \<Rightarrow> decodeCredentialBasic
       | Known CT_x509 \<Rightarrow> decodeCredentialX509 | _ \<Rightarrow> failDecoder)"
      using b x codec_fail by (auto split: open_name.splits credentialTypeKey.splits)
  qed (auto simp: credentialTypeOf_def)
  then show "item_codec okCredential encodeCredential decodeCredential"
    by (rule item_cong)
      (auto simp: okCredential_def credentialTypeOf_def ok_open_def credentialTypes_def encTagged_def
        encodeCredential_def encodeCredentialBasic_def encodeCredentialX509_def contramapEncoders_def
        encPair_def list_all_iff split: credential.splits)
qed

definition RESERVED_CREDENTIAL_TYPES :: "int list" where
  "RESERVED_CREDENTIAL_TYPES = [1, 2]"

definition createCustomCredentialType :: "int \<Rightarrow> credentialTypeName" where
  "createCustomCredentialType credentialId = Numeric credentialId"

definition createCustomCredential :: "int \<Rightarrow> bytes \<Rightarrow> credential result" where
  "createCustomCredential credentialId d =
     (if credentialId \<in> set RESERVED_CREDENTIAL_TYPES then Inl UsageError
      else Inr (CredentialCustom (createCustomCredentialType credentialId) d))"

lemmas extension_codecs [codec_intros] =
  extensionType.item_codec_axioms extensionType.codec_axioms
  extension.item_codec_axioms extension.codec_axioms
  credential.item_codec_axioms credential.codec_axioms

section \<open>Capabilities and lifetimes\<close>

record capabilities =
  cap_versions :: "capabilityProtocolVersion list"
  cap_ciphersuites :: "ciphersuiteName list"
  cap_extensions :: "int list"
  cap_proposals :: "int list"
  cap_credentials :: "credentialTypeName list"

definition encodeCapabilities :: "capabilities encoder" where
  "encodeCapabilities = contramapEncoders
     (encPair (encodeVarLenType encodeCapabilityProtocolVersion)
     (encPair (encodeVarLenType encodeCiphersuite)
     (encPair (encodeVarLenType encodeUint16)
     (encPair (encodeVarLenType encodeUint16)
       (encodeVarLenType encodeCredentialType)))))
     (\<lambda>cap. (cap_versions cap, cap_ciphersuites cap, cap_extensions cap, cap_proposals cap, cap_credentials cap))"

definition decodeCapabilities :: "capabilities decoder" where
  "decodeCapabilities = mapDecoders
     (decPair (decodeVarLenType decodeCapabilityProtocolVersion)
     (decPair (decodeVarLenType decodeCiphersuite)
     (decPair (decodeVarLenType decodeUint16)
     (decPair (decodeVarLenType decodeUint16)
       (decodeVarLenType decodeCredentialType)))))
     (\<lambda>(versions, ciphersuites, extensions, proposals, credentials).
       \<lparr>cap_versions = versions, cap_ciphersuites = ciphersuites, cap_extensions = extensions,
        cap_proposals = proposals, cap_credentials = credentials\<rparr>)"

definition okCapabilities :: "capabilities \<Rightarrow> bool" where
  [ok_defs]: "okCapabilities c \<longleftrightarrow> list_all (ok_open protocolVersions) (cap_versions c) \<and>
     list_all (ok_open ciphersuites) (cap_ciphersuites c) \<and>
     list_all (ok_open credentialTypes) (cap_credentials c)"

lemma list_all_True [simp]: "list_all (\<lambda>_. True) xs"
  by (simp add: list_all_iff)

interpretation capabilities: item_codec okCapabilities encodeCapabilities decodeCapabilities
  unfolding encodeCapabilities_def decodeCapabilities_def
  by (rule item_record, (rule codec_intros)+) (auto simp: ok_defs)

record lifetime =
  notBefore :: int
  notAfter :: int

definition encodeLifetime :: "lifetime encoder" where
  "encodeLifetime = contramapEncoders (encPair encodeUint64 encodeUint64) (\<lambda>lt. (notBefore lt, notAfter lt))"

definition decodeLifetime :: "lifetime decoder" where
  "decodeLifetime = mapDecoders (decPair decodeUint64 decodeUint64)
     (\<lambda>(nb, na). \<lparr>notBefore = nb, notAfter = na\<rparr>)"

definition okLifetime :: "lifetime \<Rightarrow> bool" where
  [ok_defs]: "okLifetime l \<longleftrightarrow> wf_uint64 (notBefore l) \<and> wf_uint64 (notAfter l)"

interpretation lifetime: item_codec okLifetime encodeLifetime decodeLifetime
  unfolding encodeLifetime_def decodeLifetime_def
  by (rule item_record, (rule codec_intros)+) (auto simp: ok_defs)

text \<open>\<open>now\<close> is the clock, in seconds.\<close>

definition defaultLifetime :: "int \<Rightarrow> lifetime" where
  "defaultLifetime now = \<lparr>notBefore = now - 3600, notAfter = now + 2592000\<rparr>"

lemmas capability_codecs [codec_intros] =
  capabilities.item_codec_axioms capabilities.codec_axioms
  lifetime.item_codec_axioms lifetime.codec_axioms

section \<open>Leaf nodes\<close>

record leafNodeData =
  ln_hpkePublicKey :: bytes
  ln_signaturePublicKey :: bytes
  ln_credential :: credential
  ln_capabilities :: capabilities

definition encodeLeafNodeData :: "leafNodeData encoder" where
  "encodeLeafNodeData = contramapEncoders
     (encPair encodeVarLenData (encPair encodeVarLenData (encPair encodeCredential encodeCapabilities)))
     (\<lambda>d. (ln_hpkePublicKey d, ln_signaturePublicKey d, ln_credential d, ln_capabilities d))"

definition decodeLeafNodeData :: "leafNodeData decoder" where
  "decodeLeafNodeData = mapDecoders
     (decPair decodeVarLenData (decPair decodeVarLenData (decPair decodeCredential decodeCapabilities)))
     (\<lambda>(hpk, spk, cred, caps). \<lparr>ln_hpkePublicKey = hpk, ln_signaturePublicKey = spk,
        ln_credential = cred, ln_capabilities = caps\<rparr>)"

definition okLeafNodeData :: "leafNodeData \<Rightarrow> bool" where
  [ok_defs]: "okLeafNodeData d \<longleftrightarrow> okCredential (ln_credential d) \<and> okCapabilities (ln_capabilities d)"

interpretation leafNodeData: item_codec okLeafNodeData encodeLeafNodeData decodeLeafNodeData
  unfolding encodeLeafNodeData_def decodeLeafNodeData_def
  by (rule item_record, (rule codec_intros)+) (auto simp: okLeafNodeData_def)

datatype leafNodeInfo = InfoKeyPackage lifetime | InfoUpdate | InfoCommit bytes

definition leafNodeSource :: "leafNodeInfo \<Rightarrow> leafNodeSourceName" where
  "leafNodeSource i = (case i of InfoKeyPackage _ \<Rightarrow> LNS_key_package | InfoUpdate \<Rightarrow> LNS_update
     | InfoCommit _ \<Rightarrow> LNS_commit)"

definition encodeLeafNodeInfoLifetime :: "lifetime encoder" where
  "encodeLeafNodeInfoLifetime = contramapEncoders (encPair encodeLeafNodeSource encodeLifetime)
     (\<lambda>l. (LNS_key_package, l))"

definition encodeLeafNodeInfoUpdate :: "leafNodeInfo encoder" where
  "encodeLeafNodeInfoUpdate = contramapEncoder encodeLeafNodeSource leafNodeSource"

definition encodeLeafNodeInfoCommit :: "bytes encoder" where
  "encodeLeafNodeInfoCommit = contramapEncoders (encPair encodeLeafNodeSource encodeVarLenData)
     (\<lambda>h. (LNS_commit, h))"

definition encodeLeafNodeInfo :: "leafNodeInfo encoder" where
  "encodeLeafNodeInfo info = (case info of
     InfoKeyPackage l \<Rightarrow> encodeLeafNodeInfoLifetime l
   | InfoUpdate \<Rightarrow> encodeLeafNodeInfoUpdate info
   | InfoCommit h \<Rightarrow> encodeLeafNodeInfoCommit h)"

definition decodeLeafNodeInfoLifetime :: "leafNodeInfo decoder" where
  "decodeLeafNodeInfoLifetime = mapDecoder decodeLifetime InfoKeyPackage"

definition decodeLeafNodeInfoCommit :: "leafNodeInfo decoder" where
  "decodeLeafNodeInfoCommit = mapDecoders decodeVarLenData InfoCommit"

definition decodeLeafNodeInfo :: "leafNodeInfo decoder" where
  "decodeLeafNodeInfo = flatMapDecoder decodeLeafNodeSource (\<lambda>s. case s of
     LNS_key_package \<Rightarrow> decodeLeafNodeInfoLifetime
   | LNS_update \<Rightarrow> succeedDecoder InfoUpdate
   | LNS_commit \<Rightarrow> decodeLeafNodeInfoCommit)"

definition okLeafNodeInfo :: "leafNodeInfo \<Rightarrow> bool" where
  [ok_defs]: "okLeafNodeInfo i = (case i of InfoKeyPackage l \<Rightarrow> okLifetime l | _ \<Rightarrow> True)"

interpretation leafNodeInfo: item_codec okLeafNodeInfo encodeLeafNodeInfo decodeLeafNodeInfo
proof -
  let ?eb = "\<lambda>i. case i of InfoKeyPackage l \<Rightarrow> encodeLifetime l | InfoUpdate \<Rightarrow> Inr []
     | InfoCommit h \<Rightarrow> encodeVarLenData h"
  let ?ok = "\<lambda>s. case s of LNS_key_package \<Rightarrow> (\<lambda>i. \<exists>l. i = InfoKeyPackage l \<and> okLifetime l)
     | LNS_update \<Rightarrow> (\<lambda>i. i = InfoUpdate) | LNS_commit \<Rightarrow> (\<lambda>i. \<exists>h. i = InfoCommit h \<and> True)"
  have "item_codec (\<lambda>i. True \<and> ?ok (leafNodeSource i) i)
      (encTagged encodeLeafNodeSource leafNodeSource (\<lambda>_. ?eb)) decodeLeafNodeInfo"
    unfolding decodeLeafNodeInfo_def
  proof (rule item_tagged [OF leafNodeSource.item_codec_axioms])
    fix s
    have k: "codec (?ok LNS_key_package) ?eb decodeLeafNodeInfoLifetime"
      unfolding decodeLeafNodeInfoLifetime_def leafNodeSourceName.case
      by (rule codec_ctor) (auto intro: codec_intros)
    have c: "codec (?ok LNS_commit) ?eb decodeLeafNodeInfoCommit"
      unfolding decodeLeafNodeInfoCommit_def mapDecoders_eq_mapDecoder leafNodeSourceName.case
      by (rule codec_ctor) (auto intro: codec_intros)
    show "codec (?ok s) ?eb (case s of LNS_key_package \<Rightarrow> decodeLeafNodeInfoLifetime
       | LNS_update \<Rightarrow> succeedDecoder InfoUpdate | LNS_commit \<Rightarrow> decodeLeafNodeInfoCommit)"
      using k c codec_const [of ?eb InfoUpdate] by (cases s) auto
  qed (auto simp: leafNodeSource_def split: leafNodeSourceName.splits)
  then show "item_codec okLeafNodeInfo encodeLeafNodeInfo decodeLeafNodeInfo"
    by (rule item_cong)
      (auto simp: okLeafNodeInfo_def leafNodeSource_def encTagged_def encodeLeafNodeInfo_def
        encodeLeafNodeInfoLifetime_def encodeLeafNodeInfoCommit_def encodeLeafNodeInfoUpdate_def
        contramapEncoders_def contramapEncoder_def encPair_def res_bind_Inr_right
        split: leafNodeInfo.splits)
qed

definition encodeLeafNodeExtensions :: "extension list encoder" where
  "encodeLeafNodeExtensions = contramapEncoder (encodeVarLenType encodeExtension) (\<lambda>ext. ext)"

definition decodeLeafNodeExtensions :: "extension list decoder" where
  "decodeLeafNodeExtensions = mapDecoder (decodeVarLenType decodeExtension) (\<lambda>ext. ext)"

interpretation leafNodeExtensions: item_codec "list_all okExtension" encodeLeafNodeExtensions decodeLeafNodeExtensions
  unfolding encodeLeafNodeExtensions_def decodeLeafNodeExtensions_def
  by (rule item_map, (rule codec_intros)+) auto

lemmas leaf_part_codecs [codec_intros] =
  leafNodeData.item_codec_axioms leafNodeData.codec_axioms
  leafNodeInfo.item_codec_axioms leafNodeInfo.codec_axioms
  leafNodeExtensions.item_codec_axioms leafNodeExtensions.codec_axioms

record leafNode = leafNodeData +
  ln_info :: leafNodeInfo
  ln_extensions :: "extension list"
  ln_signature :: bytes

definition encodeLeafNode :: "leafNode encoder" where
  "encodeLeafNode = contramapEncoders
     (encPair encodeLeafNodeData (encPair encodeLeafNodeInfo (encPair encodeLeafNodeExtensions encodeVarLenData)))
     (\<lambda>l. (leafNodeData.truncate l, ln_info l, ln_extensions l, ln_signature l))"

definition decodeLeafNode :: "leafNode decoder" where
  "decodeLeafNode = mapDecoders
     (decPair decodeLeafNodeData (decPair decodeLeafNodeInfo (decPair decodeLeafNodeExtensions decodeVarLenData)))
     (\<lambda>(d, info, exts, sig). leafNodeData.extend d
        (leafNode.fields info exts sig))"

definition okLeafNode :: "leafNode \<Rightarrow> bool" where
  [ok_defs]: "okLeafNode l \<longleftrightarrow> okLeafNodeData (leafNodeData.truncate l) \<and> okLeafNodeInfo (ln_info l) \<and>
     list_all okExtension (ln_extensions l)"

lemmas leafNode_record_defs = leafNodeData.truncate_def leafNodeData.extend_def leafNode.fields_def

interpretation leafNode: item_codec okLeafNode encodeLeafNode decodeLeafNode
  unfolding encodeLeafNode_def decodeLeafNode_def
  by (rule item_record, (rule codec_intros)+) (auto simp: okLeafNode_def okLeafNodeData_def leafNode_record_defs)

definition decodeLeafNodeKeyPackage :: "leafNode decoder" where
  "decodeLeafNodeKeyPackage = mapDecoderOption decodeLeafNode
     (\<lambda>ln. if leafNodeSource (ln_info ln) = LNS_key_package then Some ln else None)"

definition decodeLeafNodeCommit :: "leafNode decoder" where
  "decodeLeafNodeCommit = mapDecoderOption decodeLeafNode
     (\<lambda>ln. if leafNodeSource (ln_info ln) = LNS_commit then Some ln else None)"

definition decodeLeafNodeUpdate :: "leafNode decoder" where
  "decodeLeafNodeUpdate = mapDecoderOption decodeLeafNode
     (\<lambda>ln. if leafNodeSource (ln_info ln) = LNS_update then Some ln else None)"

definition okLeafNodeFrom :: "leafNodeSourceName \<Rightarrow> leafNode \<Rightarrow> bool" where
  [ok_defs]: "okLeafNodeFrom s l \<longleftrightarrow> okLeafNode l \<and> leafNodeSource (ln_info l) = s"

interpretation leafNodeKeyPackage: item_codec "okLeafNodeFrom LNS_key_package" encodeLeafNode decodeLeafNodeKeyPackage
  unfolding decodeLeafNodeKeyPackage_def okLeafNodeFrom_def
  by (rule item_id_partial [OF leafNode.item_codec_axioms]) simp

interpretation leafNodeCommit: item_codec "okLeafNodeFrom LNS_commit" encodeLeafNode decodeLeafNodeCommit
  unfolding decodeLeafNodeCommit_def okLeafNodeFrom_def
  by (rule item_id_partial [OF leafNode.item_codec_axioms]) simp

interpretation leafNodeUpdate: item_codec "okLeafNodeFrom LNS_update" encodeLeafNode decodeLeafNodeUpdate
  unfolding decodeLeafNodeUpdate_def okLeafNodeFrom_def
  by (rule item_id_partial [OF leafNode.item_codec_axioms]) simp

lemmas leafNode_codecs [codec_intros] =
  leafNode.item_codec_axioms leafNode.codec_axioms
  leafNodeKeyPackage.item_codec_axioms leafNodeKeyPackage.codec_axioms
  leafNodeCommit.item_codec_axioms leafNodeCommit.codec_axioms
  leafNodeUpdate.item_codec_axioms leafNodeUpdate.codec_axioms

text \<open>
  What a leaf signature covers.  The group id and the leaf index are bound for update and
  commit leaves; a key package leaf binds neither.
\<close>

datatype leafNodeGroupInfo = GroupInfoKeyPackage | GroupIdLeafIndex bytes int

definition encodeGroupIdLeafIndex :: "(bytes \<times> int) encoder" where
  "encodeGroupIdLeafIndex = contramapEncoders (encPair encodeVarLenData encodeUint32) (\<lambda>g. g)"

definition encodeLeafNodeGroupInfo :: "leafNodeGroupInfo encoder" where
  "encodeLeafNodeGroupInfo info = (case info of
     GroupInfoKeyPackage \<Rightarrow> Inr [] | GroupIdLeafIndex g i \<Rightarrow> encodeGroupIdLeafIndex (g, i))"

record leafNodeTBS = leafNodeData +
  tbs_info :: leafNodeInfo
  tbs_extensions :: "extension list"
  tbs_groupInfo :: leafNodeGroupInfo

definition encodeLeafNodeTBS :: "leafNodeTBS encoder" where
  "encodeLeafNodeTBS = contramapEncoders
     (encPair encodeLeafNodeData (encPair encodeLeafNodeInfo (encPair encodeLeafNodeExtensions encodeLeafNodeGroupInfo)))
     (\<lambda>t. (leafNodeData.truncate t, tbs_info t, tbs_extensions t, tbs_groupInfo t))"

text \<open>
  \<open>toTbs\<close> tags the group part with the leaf's own source, so a leaf from a key package
  encodes an empty group part whatever group and index are given.
\<close>

definition toTbs :: "leafNode \<Rightarrow> bytes \<Rightarrow> int \<Rightarrow> leafNodeTBS" where
  "toTbs l groupId leafIndex = leafNodeData.extend (leafNodeData.truncate l)
     (leafNodeTBS.fields (ln_info l) (ln_extensions l)
       (case leafNodeSource (ln_info l) of
          LNS_key_package \<Rightarrow> GroupInfoKeyPackage | _ \<Rightarrow> GroupIdLeafIndex groupId leafIndex))"

section \<open>Parent nodes\<close>

record parentNode =
  pn_hpkePublicKey :: bytes
  pn_parentHash :: bytes
  pn_unmergedLeaves :: "int list"

definition encodeParentNode :: "parentNode encoder" where
  "encodeParentNode = contramapEncoders
     (encPair encodeVarLenData (encPair encodeVarLenData (encodeVarLenType encodeUint32)))
     (\<lambda>n. (pn_hpkePublicKey n, pn_parentHash n, pn_unmergedLeaves n))"

definition decodeParentNode :: "parentNode decoder" where
  "decodeParentNode = mapDecoders
     (decPair decodeVarLenData (decPair decodeVarLenData (decodeVarLenType decodeUint32)))
     (\<lambda>(hpk, ph, ul). \<lparr>pn_hpkePublicKey = hpk, pn_parentHash = ph, pn_unmergedLeaves = ul\<rparr>)"

interpretation parentNode: item_codec "\<lambda>_. True" encodeParentNode decodeParentNode
  unfolding encodeParentNode_def decodeParentNode_def
  by (rule item_record, (rule codec_intros)+) auto

lemmas parentNode_codecs [codec_intros] = parentNode.item_codec_axioms parentNode.codec_axioms

end
