(* ===== verification/Treemath.thy ===== *)
theory Treemath imports Prelude begin

text \<open>
  The array representation of complete binary trees, \<^verbatim>\<open>src/treemath.ts\<close>.  Node and leaf
  indices are integers, as the branded numbers of the sources; every bit operation is the
  32-bit one of JavaScript.  The two loops over shift counts are \<open>log2_loop\<close>, which always
  stops, and \<open>level_loop\<close>, which does not stop on an index whose 32-bit form is \<open>-1\<close> (the
  range assertion in front of it excludes those).

  The lemmas read an index as \<open>nodeAt k m\<close>: the \<open>m\<close>-th node of level \<open>k\<close>.  On such indices
  the bit tricks are arithmetic: the parent of \<open>nodeAt k m\<close> is \<open>nodeAt (k + 1) (m div 2)\<close>, its
  children are \<open>nodeAt (k - 1) (2 * m)\<close> and \<open>nodeAt (k - 1) (2 * m + 1)\<close>.
\<close>

section \<open>Definitions\<close>

function log2_loop :: "int \<Rightarrow> nat \<Rightarrow> nat" where
  "log2_loop x k = (if js_shr x (int k) > 0 then log2_loop x (k + 1) else k)"
  by pat_completeness auto

lemma js_shr_31: "k mod 32 = 31 \<Longrightarrow> \<not> js_shr x k > 0"
proof -
  assume k: "k mod 32 = 31"
  have "to_int32 x div 2147483648 \<le> 0"
    using to_int32_less [of x] by simp
  then show ?thesis using k by (simp add: js_shr_def drop_bit_eq_div)
qed

termination log2_loop
proof (relation "measure (\<lambda>(x, k). 31 - k mod 32)")
  fix x k
  assume pos: "js_shr x (int k) > 0"
  have "k mod 32 \<noteq> 31"
  proof
    assume "k mod 32 = 31"
    then have "int k mod 32 = 31" using zmod_int [of k 32] by simp
    with pos js_shr_31 show False by blast
  qed
  then show "((x, k + 1), (x, k)) \<in> measure (\<lambda>(x, k). 31 - k mod 32)"
    by (simp add: mod_Suc)
qed simp

declare log2_loop.simps [simp del]

definition log2 :: "int \<Rightarrow> int" where
  "log2 x = (if x = 0 then 0 else int (log2_loop x 0) - 1)"

definition assertValidNodeIndex :: "int \<Rightarrow> unit result" where
  "assertValidNodeIndex nodeIndex =
     (if nodeIndex < 0 \<or> nodeIndex \<ge> 2147483648 then Inl ValidationError else Inr ())"

partial_function (option) level_loop :: "int \<Rightarrow> nat \<Rightarrow> nat option" where
  "level_loop nodeIndex k =
     (if js_and (js_shr nodeIndex (int k)) 1 = 1 then level_loop nodeIndex (k + 1) else Some k)"

declare level_loop.simps [code]

definition level :: "int \<Rightarrow> int result" where
  "level nodeIndex = res_bind (assertValidNodeIndex nodeIndex) (\<lambda>_.
     if js_and nodeIndex 1 = 0 then Inr 0
     else case level_loop nodeIndex 0 of None \<Rightarrow> Inl NeverReturns | Some k \<Rightarrow> Inr (int k))"

definition isLeaf :: "int \<Rightarrow> bool" where
  "isLeaf nodeIndex \<longleftrightarrow> nodeIndex mod 2 = 0"

definition leafToNodeIndex :: "int \<Rightarrow> int" where
  "leafToNodeIndex leafIndex = leafIndex * 2"

definition nodeToLeafIndex :: "int \<Rightarrow> int result" where
  "nodeToLeafIndex nodeIndex =
     (if \<not> isLeaf nodeIndex then Inl ValidationError else Inr (nodeIndex div 2))"

text \<open>A tree of \<open>n\<close> leaves has \<open>2 * n - 1\<close> nodes; the argument of \<open>leafWidth\<close> is such a number.\<close>

definition leafWidth :: "int \<Rightarrow> int" where
  "leafWidth nw = (if nw = 0 then 0 else (nw - 1) div 2 + 1)"

definition nodeWidth :: "int \<Rightarrow> int" where
  "nodeWidth lw = (if lw = 0 then 0 else 2 * (lw - 1) + 1)"

definition rootFromNodeWidth :: "int \<Rightarrow> int" where
  "rootFromNodeWidth nw = js_shl 1 (log2 nw) - 1"

definition root :: "int \<Rightarrow> int" where
  "root lw = (let w = nodeWidth lw in rootFromNodeWidth w)"

definition left :: "int \<Rightarrow> int result" where
  "left nodeIndex = res_bind (level nodeIndex) (\<lambda>k.
     if k = 0 then Inl InternalError else Inr (js_xor nodeIndex (js_shl 1 (k - 1))))"

definition right :: "int \<Rightarrow> int result" where
  "right nodeIndex = res_bind (level nodeIndex) (\<lambda>k.
     if k = 0 then Inl InternalError else Inr (js_xor nodeIndex (js_shl 3 (k - 1))))"

definition parent :: "int \<Rightarrow> int \<Rightarrow> int result" where
  "parent nodeIndex lw =
     (let w = nodeWidth lw in
      if nodeIndex < 0 \<or> nodeIndex \<ge> w then Inl ValidationError
      else if nodeIndex = root lw then Inl InternalError
      else res_bind (level nodeIndex) (\<lambda>k.
        let b = js_and (js_shr nodeIndex (k + 1)) 1 in
        Inr (js_xor (js_or nodeIndex (js_shl 1 k)) (js_shl b (k + 1)))))"

definition sibling :: "int \<Rightarrow> int \<Rightarrow> int result" where
  "sibling x lw = res_bind (parent x lw) (\<lambda>p. if x < p then right p else left p)"

section \<open>Indices by level\<close>

definition nodeAt :: "nat \<Rightarrow> int \<Rightarrow> int" where
  "nodeAt k m = 2 ^ (k + 1) * m + 2 ^ k - 1"

lemma nodeAt_0 [simp]: "nodeAt 0 m = 2 * m"
  by (simp add: nodeAt_def)

lemma nodeAt_Suc: "nodeAt (Suc k) m = 2 * nodeAt k m + 1"
  by (simp add: nodeAt_def algebra_simps)

lemma nodeAt_exists: "0 \<le> x \<Longrightarrow> \<exists>k m. 0 \<le> m \<and> x = nodeAt k m"
proof (induction "nat x" arbitrary: x rule: less_induct)
  case less
  show ?case
  proof (cases "x mod 2 = 0")
    case True
    then have "x = nodeAt 0 (x div 2)" by simp presburger
    with less.prems show ?thesis by (intro exI [of _ 0] exI [of _ "x div 2"]) simp
  next
    case False
    with less.prems have x: "x = 2 * (x div 2) + 1" "0 \<le> x div 2" "x div 2 < x"
      by presburger+
    then have "nat (x div 2) < nat x" by simp
    with x(2)
    obtain k m where "0 \<le> m" "x div 2 = nodeAt k m" using less.hyps [of "x div 2"] by auto
    with x(1) show ?thesis by (intro exI [of _ "Suc k"] exI [of _ m]) (simp add: nodeAt_Suc)
  qed
qed

lemma nodeAt_nonneg [simp]: "0 \<le> m \<Longrightarrow> 0 \<le> nodeAt k m"
  by (induction k) (auto simp: nodeAt_Suc)

lemma nodeAt_mod_2: "nodeAt k m mod 2 = (if k = 0 then 0 else 1)"
  by (cases k) (simp_all add: nodeAt_Suc mod_mult_self2_is_0)

lemma nodeAt_div: "j \<le> k \<Longrightarrow> nodeAt k m div 2 ^ j = nodeAt (k - j) m"
proof (induction j)
  case (Suc j)
  have "nodeAt (k - j) m div 2 = nodeAt (k - Suc j) m"
    using Suc.prems nodeAt_Suc [of "k - Suc j" m] by (simp add: Suc_diff_Suc)
  moreover have "nodeAt k m div 2 ^ Suc j = nodeAt k m div 2 ^ j div 2"
    by (simp only: power_Suc2 zdiv_zmult2_eq)
  ultimately show ?case using Suc by simp
qed simp

lemma nodeAt_lower:
  assumes "0 \<le> m"
  shows "2 ^ k - 1 \<le> nodeAt k m"
proof -
  have "0 \<le> 2 ^ (k + 1) * m" using assms by (intro mult_nonneg_nonneg) auto
  then show ?thesis unfolding nodeAt_def by linarith
qed

lemma div_pow_le: "0 \<le> x \<Longrightarrow> x div 2 ^ j \<le> (x :: int)"
  using zdiv_mono2 [of x 1 "2 ^ j"] by simp

lemma nodeAt_level_bound:
  assumes "0 \<le> m" "nodeAt k m < 2147483648"
  shows "k \<le> 31"
proof (rule ccontr)
  assume "\<not> k \<le> 31"
  then have "(2 :: int) ^ 32 \<le> 2 ^ k" by (intro power_increasing) auto
  with nodeAt_lower [OF assms(1), of k] assms(2) show False by simp
qed

lemma level_loop_nodeAt:
  assumes "0 \<le> m" "nodeAt k m < 2147483648"
  shows "j \<le> k \<Longrightarrow> level_loop (nodeAt k m) j = Some k"
proof (induction "k - j" arbitrary: j)
  case (0 j)
  note k = nodeAt_level_bound [OF assms]
  have "js_shr (nodeAt k m) (int k) = nodeAt 0 m"
    using assms k by (simp add: js_shr_div nodeAt_div del: nodeAt_0)
  moreover have "js_and (nodeAt 0 m) 1 = 0"
  proof -
    have "nodeAt 0 m = nodeAt k m div 2 ^ k" by (simp add: nodeAt_div)
    also have "\<dots> \<le> nodeAt k m" using assms by (intro div_pow_le) auto
    finally have "nodeAt 0 m < 2147483648" using assms by simp
    then show ?thesis using js_and_mask [of "nodeAt 0 m" 1] assms nodeAt_mod_2 [of 0 m] by simp
  qed
  ultimately show ?case using 0 by (subst level_loop.simps) simp
next
  case (Suc d j)
  note k = nodeAt_level_bound [OF assms]
  have j: "js_shr (nodeAt k m) (int j) = nodeAt (k - j) m"
    using assms k Suc by (simp add: js_shr_div nodeAt_div)
  have "nodeAt (k - j) m = nodeAt k m div 2 ^ j" using Suc by (simp add: nodeAt_div)
  also have "\<dots> \<le> nodeAt k m" using assms by (intro div_pow_le) auto
  finally have "js_and (nodeAt (k - j) m) 1 = 1"
    using js_and_mask [of "nodeAt (k - j) m" 1] assms nodeAt_mod_2 [of "k - j" m] Suc(2) by simp
  then show ?case using Suc j by (subst level_loop.simps) simp
qed

lemma level_nodeAt:
  assumes "0 \<le> m" "nodeAt k m < 2147483648"
  shows "level (nodeAt k m) = Inr (int k)"
proof -
  have "js_and (nodeAt k m) 1 = nodeAt k m mod 2"
    using js_and_mask [of "nodeAt k m" 1] assms by simp
  then show ?thesis
    using level_loop_nodeAt [OF assms, of 0] assms
    by (auto simp: level_def assertValidNodeIndex_def nodeAt_mod_2 dest: nodeAt_nonneg [of m k, THEN leD])
qed

lemma level_eq_Inr:
  "level x = Inr l \<longleftrightarrow> 0 \<le> x \<and> x < 2147483648 \<and> (\<exists>k m. 0 \<le> m \<and> x = nodeAt k m \<and> l = int k)"
proof
  assume l: "level x = Inr l"
  then have x: "0 \<le> x" "x < 2147483648"
    by (auto simp: level_def assertValidNodeIndex_def split: if_splits)
  then obtain k m where "0 \<le> m" "x = nodeAt k m" using nodeAt_exists by blast
  then show "0 \<le> x \<and> x < 2147483648 \<and> (\<exists>k m. 0 \<le> m \<and> x = nodeAt k m \<and> l = int k)"
    using x l level_nodeAt [of m k] by auto
qed (auto simp: level_nodeAt)

lemma isLeaf_nodeAt [simp]: "isLeaf (nodeAt k m) \<longleftrightarrow> k = 0"
  by (simp add: isLeaf_def nodeAt_mod_2)

text \<open>The xor of the sources clears or sets one bit.\<close>

lemma flip_clear:
  fixes x :: int
  assumes "bit x n"
  shows "x XOR 2 ^ n = x - 2 ^ n"
proof -
  have "x XOR 2 ^ n = unset_bit n x"
    using assms by (intro bit_eqI) (auto simp: bit_simps)
  then show ?thesis using assms by (simp add: unset_bit_eq)
qed

lemma flip_set:
  fixes x :: int
  assumes "\<not> bit x n"
  shows "x XOR 2 ^ n = x + 2 ^ n"
proof -
  have "x XOR 2 ^ n = set_bit n x"
    using assms by (intro bit_eqI) (auto simp: bit_simps)
  then show ?thesis using assms by (simp add: set_bit_eq)
qed

lemma or_set:
  fixes x :: int
  assumes "\<not> bit x n"
  shows "x OR 2 ^ n = x + 2 ^ n"
proof -
  have "x OR 2 ^ n = set_bit n x"
    by (intro bit_eqI) (auto simp: bit_simps)
  then show ?thesis using assms by (simp add: set_bit_eq)
qed

lemma bit_nodeAt_low: "j < k \<Longrightarrow> bit (nodeAt k m) j"
  by (simp add: bit_iff_odd nodeAt_div odd_iff_mod_2_eq_one nodeAt_mod_2)

lemma bit_nodeAt_level: "\<not> bit (nodeAt k m) k"
  by (simp add: bit_iff_odd nodeAt_div)

lemma nodeAt_div_Suc: "nodeAt k m div 2 ^ Suc k = m"
proof -
  have "nodeAt k m div 2 ^ Suc k = nodeAt k m div 2 ^ k div 2"
    by (simp only: power_Suc2 zdiv_zmult2_eq)
  then show ?thesis by (simp add: nodeAt_div)
qed

lemma bit_nodeAt_Suc: "bit (nodeAt k m) (Suc k) \<longleftrightarrow> odd m"
  using nodeAt_div_Suc [of k m] by (simp add: bit_iff_odd)

lemma pow2_31:
  assumes "j \<le> 30"
  shows "(2 :: int) ^ j \<le> 1073741824"
  using power_increasing [of j 30 "2 :: int"] assms by simp

lemma js_shl_1: "0 \<le> k \<Longrightarrow> k \<le> 30 \<Longrightarrow> js_shl 1 k = 2 ^ nat k"
  using pow2_31 [of "nat k"] by (subst js_shl_mult) (simp_all add: nat_le_iff)

lemma left_nodeAt:
  assumes "0 \<le> m" "nodeAt (Suc k) m < 2147483648"
  shows "left (nodeAt (Suc k) m) = Inr (nodeAt k (2 * m))"
proof -
  have k: "k \<le> 30" using nodeAt_level_bound [OF assms] by simp
  have "to_int32 (2 ^ k) = 2 ^ k" using pow2_31 [OF k] by simp
  then have "js_xor (nodeAt (Suc k) m) (2 ^ k) = nodeAt (Suc k) m - 2 ^ k"
    using assms by (simp add: js_xor_def flip_clear bit_nodeAt_low)
  also have "\<dots> = nodeAt k (2 * m)" by (simp add: nodeAt_def algebra_simps)
  finally show ?thesis using k by (simp add: left_def level_nodeAt assms js_shl_1)
qed

lemma right_nodeAt:
  assumes "0 \<le> m" "nodeAt (Suc k) m < 2147483648" "k \<le> 29"
  shows "right (nodeAt (Suc k) m) = Inr (nodeAt k (2 * m + 1))"
proof -
  let ?x = "nodeAt (Suc k) m"
  have p: "(2 :: int) ^ k \<le> 536870912" using power_increasing [of k 29 "2 :: int"] assms(3) by simp
  have three: "3 * 2 ^ k = (2 ^ k XOR 2 ^ Suc k :: int)"
    by (subst flip_set) (auto simp: bit_simps)
  have "bit ?x k" by (simp add: bit_nodeAt_low)
  have "?x XOR 3 * 2 ^ k = (?x XOR 2 ^ k) XOR 2 ^ Suc k"
    by (simp only: three xor.assoc)
  also have "\<dots> = (?x - 2 ^ k) + 2 ^ Suc k"
  proof -
    have "\<not> bit (?x XOR 2 ^ k) (Suc k)"
      using bit_nodeAt_level [of "Suc k" m] by (simp add: bit_simps)
    then show ?thesis using flip_set [of "?x XOR 2 ^ k" "Suc k"] flip_clear [OF \<open>bit ?x k\<close>] by simp
  qed
  also have "\<dots> = nodeAt k (2 * m + 1)" by (simp add: nodeAt_def algebra_simps)
  finally have "js_xor ?x (3 * 2 ^ k) = nodeAt k (2 * m + 1)"
    using assms p by (simp add: js_xor_def)
  moreover have "js_shl 3 (int k) = 3 * 2 ^ k"
    using p assms(3) by (subst js_shl_mult) auto
  ultimately show ?thesis by (simp add: right_def level_nodeAt assms)
qed

lemma parent_bits:
  assumes m: "0 \<le> m" and x: "nodeAt k m < 2147483648" and k: "k \<le> 30"
  shows "js_xor (js_or (nodeAt k m) (js_shl 1 (int k)))
      (js_shl (js_and (js_shr (nodeAt k m) (int k + 1)) 1) (int k + 1)) = nodeAt (Suc k) (m div 2)"
proof -
  let ?x = "nodeAt k m" and ?y = "nodeAt k m OR 2 ^ k"
  note pos = nodeAt_nonneg [OF m, of k]
  have pk: "(2 :: int) ^ k \<le> 1073741824" by (rule pow2_31 [OF k])
  have y: "?y = ?x + 2 ^ k" by (rule or_set [OF bit_nodeAt_level])
  have y31: "?y < 2147483648"
    using OR_upper [of ?x 31 "2 ^ k"] pos x pk by simp
  have or: "js_or ?x (js_shl 1 (int k)) = ?y"
    using pos x pk k by (simp add: js_or_def js_shl_1)
  have shr: "js_shr ?x (int k + 1) = m"
    using pos x k nodeAt_div_Suc [of k m] by (subst js_shr_div) (simp_all add: nat_add_distrib)
  have "m \<le> ?x" using div_pow_le [OF pos, of "Suc k"] unfolding nodeAt_div_Suc .
  then have b: "js_and m 1 = m mod 2" using js_and_mask [of m 1] m x by simp
  show ?thesis
  proof (cases "even m")
    case True
    have "js_xor ?y (js_shl 0 (int k + 1)) = ?y"
      using y31 y pos by (simp add: js_xor_def js_shl_def)
    also have "?y = nodeAt (Suc k) (m div 2)"
      using True unfolding y by (auto simp: nodeAt_def algebra_simps elim!: evenE)
    finally show ?thesis using True by (simp add: or shr b)
  next
    case False
    have "2 ^ Suc k \<le> ?x"
    proof -
      have "1 \<le> m" using False m by presburger
      then have "2 ^ Suc k * 1 \<le> 2 ^ Suc k * m" by (intro mult_left_mono) auto
      then show ?thesis by (simp add: nodeAt_def)
    qed
    then have pS: "(2 :: int) ^ Suc k < 2147483648" using x by linarith
    have "k \<noteq> 30" using pS by auto
    then have shl: "js_shl 1 (int k + 1) = 2 ^ Suc k"
      using k js_shl_1 [of "int k + 1"] by (simp add: nat_add_distrib)
    have "bit ?y (Suc k)" using False bit_nodeAt_Suc [of k m] by (simp add: bit_simps)
    then have "?y XOR 2 ^ Suc k = ?y - 2 ^ Suc k" by (rule flip_clear)
    also have "\<dots> = nodeAt (Suc k) (m div 2)"
      using False unfolding y by (auto simp: nodeAt_def algebra_simps elim!: oddE)
    finally have "js_xor ?y (2 ^ Suc k) = nodeAt (Suc k) (m div 2)"
      using y31 y pos pS by (simp add: js_xor_def)
    moreover have "m mod 2 = 1" using False by presburger
    ultimately show ?thesis by (simp only: or shr b shl)
  qed
qed

section \<open>Paths to the root\<close>

text \<open>
  Every step of a path climbs one level, and from level 31 it leaves the indices the sources
  accept: the loops over \<open>parent\<close> stop whatever the width is.
\<close>

lemma parent_at_31:
  "js_xor (js_or 2147483647 (js_shl 1 31)) (js_shl (js_and (js_shr 2147483647 32) 1) 32) = - 2"
  by code_simp

lemma nodeAt_31: "0 \<le> m \<Longrightarrow> nodeAt 31 m < 2147483648 \<Longrightarrow> nodeAt 31 m = 2147483647"
  by (simp add: nodeAt_def)

lemma parent_Inr:
  assumes "parent x w = Inr p"
  obtains k m where "0 \<le> m" "x = nodeAt k m" "x < 2147483648" "k \<le> 31"
    "k \<le> 30 \<longrightarrow> p = nodeAt (Suc k) (m div 2)" "k = 31 \<longrightarrow> p = - 2"
proof -
  from assms obtain l where l: "level x = Inr l"
    and p: "p = js_xor (js_or x (js_shl 1 l)) (js_shl (js_and (js_shr x (l + 1)) 1) (l + 1))"
    by (auto simp: parent_def Let_def res_bind_eq_Inr split: if_splits)
  from l obtain k m where km: "0 \<le> m" "x = nodeAt k m" "x < 2147483648" "l = int k"
    unfolding level_eq_Inr by auto
  have k: "k \<le> 31" using nodeAt_level_bound km by simp
  have "k \<le> 30 \<Longrightarrow> p = nodeAt (Suc k) (m div 2)"
    using parent_bits [of m k] km p by simp
  moreover have "p = - 2" if "k = 31"
    using nodeAt_31 [of m] km parent_at_31 p that by simp
  ultimately show ?thesis using that km k by blast
qed

definition stepsLeft :: "int \<Rightarrow> nat" where
  "stepsLeft x = (case level x of Inl _ \<Rightarrow> 0 | Inr l \<Rightarrow> nat (32 - l))"

lemma parent_stepsLeft: "parent x w = Inr p \<Longrightarrow> stepsLeft p < stepsLeft x"
proof (erule parent_Inr)
  fix k m
  assume m: "0 \<le> m" "x = nodeAt k m" "x < 2147483648" "k \<le> 31"
    and p: "k \<le> 30 \<longrightarrow> p = nodeAt (Suc k) (m div 2)" "k = 31 \<longrightarrow> p = - 2"
  have x: "stepsLeft x = 32 - k"
    using level_nodeAt [OF m(1)] m by (simp add: stepsLeft_def nat_diff_distrib)
  show "stepsLeft p < stepsLeft x"
  proof (cases "level p")
    case (Inl e)
    then show ?thesis using x m(4) by (simp add: stepsLeft_def)
  next
    case (Inr l)
    then have "0 \<le> p" "p < 2147483648" unfolding level_eq_Inr by simp_all
    moreover from this p have "k \<noteq> 31" by auto
    ultimately have "p = nodeAt (Suc k) (m div 2)" "l = int (Suc k)"
      using p m(1,4) level_nodeAt [of "m div 2" "Suc k"] Inr by auto
    then show ?thesis using x Inr m(4) by (simp add: stepsLeft_def)
  qed
qed

function directPath_loop :: "int \<Rightarrow> int \<Rightarrow> int \<Rightarrow> int list \<Rightarrow> int list result" where
  "directPath_loop nodeIndex r lw d =
     (if nodeIndex \<noteq> r then res_bind (parent nodeIndex lw) (\<lambda>p. directPath_loop p r lw (d @ [p]))
      else Inr d)"
  by pat_completeness auto
termination
  by (relation "measure (\<lambda>(nodeIndex, r, lw, d). stepsLeft nodeIndex)") (auto intro: parent_stepsLeft)

declare directPath_loop.simps [simp del]

definition directPath :: "int \<Rightarrow> int \<Rightarrow> int list result" where
  "directPath nodeIndex lw =
     (let w = nodeWidth lw in
      if nodeIndex < 0 \<or> nodeIndex \<ge> w then Inl ValidationError
      else let r = root lw in
        if nodeIndex = r then Inr [] else directPath_loop nodeIndex r lw [])"

definition copath :: "int \<Rightarrow> int \<Rightarrow> int list result" where
  "copath nodeIndex lw =
     (if nodeIndex = root lw then Inr []
      else res_bind (directPath nodeIndex lw) (\<lambda>d.
        res_mapM (\<lambda>y. sibling y lw) (butlast (nodeIndex # d))))"

definition isAncestor :: "int \<Rightarrow> int \<Rightarrow> int \<Rightarrow> bool result" where
  "isAncestor childNodeIndex ancestor nw =
     res_map (\<lambda>d. ancestor \<in> set d) (directPath childNodeIndex (leafWidth nw))"

text \<open>The two descents of \<open>leafRange\<close>.  A descent lowers the level.\<close>

definition levelOf :: "int \<Rightarrow> nat" where
  "levelOf x = (case level x of Inl _ \<Rightarrow> 0 | Inr l \<Rightarrow> nat l)"

lemma level_drop_31:
  "js_xor 2147483647 (js_shl 3 30) = - 1073741825" "js_xor 2147483647 (js_shl 1 30) = 1073741823"
  by code_simp+

lemma right_at_31: "right 2147483647 = Inr (- 1073741825)"
proof -
  have "(2147483647 :: int) = nodeAt 31 0" by (simp add: nodeAt_def)
  then have "level 2147483647 = Inr 31" using level_nodeAt [of 0 31] by (simp add: nodeAt_def)
  then show ?thesis using level_drop_31(1) by (simp add: right_def)
qed

lemma child_levelOf:
  assumes "left x = Inr c \<or> right x = Inr c"
  shows "levelOf c < levelOf x"
proof -
  from assms obtain l where "level x = Inr l" "l \<noteq> 0"
    by (auto simp: left_def right_def res_bind_eq_Inr split: if_splits)
  then obtain k' m where km: "0 \<le> m" "x = nodeAt k' m" "x < 2147483648" "k' \<noteq> 0"
    unfolding level_eq_Inr by auto
  then obtain k where m: "0 \<le> m" "x = nodeAt (Suc k) m" "x < 2147483648"
    by (cases k') auto
  then have k: "k \<le> 30" using nodeAt_level_bound [of m "Suc k"] by simp
  have x: "levelOf x = Suc k" using level_nodeAt [OF m(1), of "Suc k"] m by (simp add: levelOf_def)
  have low: "levelOf (nodeAt k q) \<le> k" if "0 \<le> q" for q
    using level_nodeAt [OF that, of k] nodeAt_nonneg [OF that, of k]
    by (auto simp: levelOf_def level_def assertValidNodeIndex_def split: sum.splits)
  show ?thesis
  proof (cases "left x = Inr c")
    case True
    then have "c = nodeAt k (2 * m)" using left_nodeAt m by simp
    then show ?thesis using low [of "2 * m"] m(1) x by simp
  next
    case False
    then have r: "right x = Inr c" using assms by simp
    show ?thesis
    proof (cases "k = 30")
      case True
      then have "x = 2147483647" using m nodeAt_31 [of m] by simp
      then have "c = - 1073741825" using r right_at_31 by simp
      then show ?thesis using x by (simp add: levelOf_def level_def assertValidNodeIndex_def)
    next
      case False
      then have "c = nodeAt k (2 * m + 1)" using right_nodeAt m r k by simp
      then show ?thesis using low [of "2 * m + 1"] m(1) x by simp
    qed
  qed
qed

function leafRange_lo :: "int \<Rightarrow> int result" where
  "leafRange_lo lo = (if \<not> isLeaf lo then res_bind (left lo) leafRange_lo else Inr lo)"
  by pat_completeness auto
termination
  by (relation "measure levelOf") (auto intro: child_levelOf)

function leafRange_hi :: "int \<Rightarrow> int result" where
  "leafRange_hi hi = (if \<not> isLeaf hi then res_bind (right hi) leafRange_hi else Inr hi)"
  by pat_completeness auto
termination
  by (relation "measure levelOf") (auto intro: child_levelOf)

declare leafRange_lo.simps [simp del] leafRange_hi.simps [simp del]

definition leafRange :: "int \<Rightarrow> (int \<times> int) result" where
  "leafRange nodeIndex =
     res_bind (leafRange_lo nodeIndex) (\<lambda>lo. res_bind (leafRange_hi nodeIndex) (\<lambda>hi.
       res_bind (nodeToLeafIndex lo) (\<lambda>l. res_bind (nodeToLeafIndex hi) (\<lambda>h. Inr (l, h)))))"

section \<open>Full trees\<close>

text \<open>
  The trees of the package have \<open>2 ^ d\<close> leaves.  Up to depth 30 every index fits the signed
  32-bit operators.
\<close>

lemma log2_loop_bounds:
  assumes "2 ^ k \<le> x" "x < 2 ^ Suc k" "k \<le> 30"
  shows "j \<le> Suc k \<Longrightarrow> log2_loop x j = Suc k"
proof (induction "Suc k - j" arbitrary: j)
  case (0 j)
  then have j: "j = Suc k" by simp
  have "(2 :: int) ^ Suc k \<le> 2 ^ 31" using assms(3) by (intro power_increasing) auto
  then have x: "x < 2147483648" using assms(2) by simp
  have "0 \<le> x" using assms(1) by (meson order_trans zero_le_numeral zero_le_power)
  then have "js_shr x (int (Suc k)) = x div 2 ^ Suc k"
    using x assms(3) by (subst js_shr_div) (simp_all del: power_Suc add: nat_add_distrib)
  then have "js_shr x (int (Suc k)) = 0" using assms(2) \<open>0 \<le> x\<close> by simp
  then show ?case unfolding j by (subst log2_loop.simps) simp
next
  case (Suc i j)
  have "(2 :: int) ^ Suc k \<le> 2 ^ 31" using assms(3) by (intro power_increasing) auto
  then have x: "x < 2147483648" using assms(2) by simp
  have pos: "0 \<le> x" using assms(1) by (meson order_trans zero_le_numeral zero_le_power)
  have j: "j \<le> k" using Suc(2) by simp
  have "(2 :: int) ^ j \<le> 2 ^ k" using j by (intro power_increasing) auto
  then have "2 ^ j \<le> x" using assms(1) by (rule order_trans)
  then have "2 ^ j div 2 ^ j \<le> x div 2 ^ j" by (intro zdiv_mono1) auto
  then have "js_shr x (int j) > 0"
    using x pos j assms(3) by (subst js_shr_div) simp_all
  then show ?case using Suc j by (subst log2_loop.simps) simp
qed

lemma nodeWidth_pow2: "nodeWidth (2 ^ d) = 2 ^ Suc d - 1"
  by (simp add: nodeWidth_def)

lemma root_pow2:
  assumes "d \<le> 30"
  shows "root (2 ^ d) = nodeAt d 0"
proof -
  have "(2 :: int) ^ d \<ge> 1" by simp
  then have "log2_loop (2 ^ Suc d - 1) 0 = Suc d"
    using assms by (intro log2_loop_bounds) simp_all
  moreover have "(2 :: int) ^ Suc d - 1 \<noteq> 0" using \<open>1 \<le> 2 ^ d\<close> by (simp, linarith)
  ultimately have "log2 (2 ^ Suc d - 1) = int d" by (simp add: log2_def)
  then show ?thesis
    using assms by (simp add: root_def rootFromNodeWidth_def nodeWidth_pow2 js_shl_1 nodeAt_def del: power_Suc)
qed

text \<open>The nodes of the tree, by level.\<close>

definition inTree :: "nat \<Rightarrow> nat \<Rightarrow> int \<Rightarrow> bool" where
  "inTree d k m \<longleftrightarrow> k \<le> d \<and> 0 \<le> m \<and> m < 2 ^ (d - k)"

lemma pow2_split: "k \<le> d \<Longrightarrow> (2 :: int) ^ k * 2 ^ (d - k) = 2 ^ d"
  by (simp flip: power_add)

lemma inTree_bound:
  assumes "inTree d k m"
  shows "nodeAt k m < 2 ^ Suc d - 1"
proof -
  have "2 ^ k * (2 * (m + 1)) \<le> 2 ^ k * (2 * 2 ^ (d - k))"
    using assms by (intro mult_left_mono) (auto simp: inTree_def)
  also have "\<dots> = 2 ^ Suc d" using pow2_split [of k d] assms by (simp add: inTree_def)
  finally have "2 ^ k * (2 * (m + 1)) \<le> 2 ^ Suc d" .
  moreover have "nodeAt k m = 2 ^ k * (2 * (m + 1)) - 2 ^ k - 1"
    by (simp add: nodeAt_def algebra_simps)
  moreover have "(1 :: int) \<le> 2 ^ k" by simp
  ultimately show ?thesis by linarith
qed

lemma inTree_small:
  assumes "inTree d k m" "d \<le> 30"
  shows "nodeAt k m < 2147483647"
proof -
  have "(2 :: int) ^ Suc d \<le> 2 ^ 31" using assms(2) by (intro power_increasing) auto
  then show ?thesis using inTree_bound [OF assms(1)] by simp
qed

lemma inTree_exists:
  assumes "0 \<le> x" "x < 2 ^ Suc d - 1"
  obtains k m where "inTree d k m" "x = nodeAt k m"
proof -
  obtain k m where km: "0 \<le> m" "x = nodeAt k m" using nodeAt_exists [OF assms(1)] by blast
  have "k \<le> d"
  proof (rule ccontr)
    assume "\<not> k \<le> d"
    then have "(2 :: int) ^ Suc d \<le> 2 ^ k" by (intro power_increasing) auto
    with nodeAt_lower [OF km(1), of k] km(2) assms(2) show False by linarith
  qed
  moreover have "m < 2 ^ (d - k)"
  proof (rule ccontr)
    assume "\<not> m < 2 ^ (d - k)"
    then have "2 ^ k * (2 * 2 ^ (d - k)) \<le> 2 ^ k * (2 * m)" by (intro mult_left_mono) auto
    moreover have "2 ^ k * (2 * 2 ^ (d - k)) = (2 :: int) ^ Suc d"
      using pow2_split [OF \<open>k \<le> d\<close>] by simp
    moreover have "nodeAt k m = 2 ^ k * (2 * m) + 2 ^ k - 1" by (simp add: nodeAt_def)
    moreover have "(1 :: int) \<le> 2 ^ k" by simp
    ultimately show False using assms(2) km(2) by linarith
  qed
  ultimately show ?thesis using that km by (simp add: inTree_def)
qed

lemma inTree_parent:
  assumes "inTree d k m" "k < d"
  shows "inTree d (Suc k) (m div 2)"
proof -
  have "(2 :: int) ^ (d - k) = 2 * 2 ^ (d - Suc k)"
    using assms(2) by (simp flip: power_Suc add: Suc_diff_Suc)
  then show ?thesis using assms by (auto simp: inTree_def)
qed

lemma inTree_children:
  assumes "inTree d (Suc k) m"
  shows "inTree d k (2 * m)" "inTree d k (2 * m + 1)"
proof -
  have "(2 :: int) ^ (d - k) = 2 * 2 ^ (d - Suc k)"
    using assms by (simp flip: power_Suc add: Suc_diff_Suc inTree_def)
  then show "inTree d k (2 * m)" "inTree d k (2 * m + 1)" using assms by (auto simp: inTree_def)
qed

lemma inTree_top: "inTree d d m \<longleftrightarrow> m = 0"
  by (auto simp: inTree_def)

lemma nodeAt_inj:
  assumes "nodeAt k m = nodeAt j n" "0 \<le> m" "0 \<le> n"
  shows "k = j \<and> m = n"
proof -
  have "k = j"
    using assms
  proof (induction k arbitrary: j)
    case 0
    then have "nodeAt j n mod 2 = 0" by (metis nodeAt_mod_2)
    then show ?case by (simp add: nodeAt_mod_2 split: if_splits)
  next
    case (Suc k)
    then have "nodeAt j n mod 2 = 1" by (metis nodeAt_mod_2 nat.distinct(1))
    then obtain i where "j = Suc i" by (cases j) (auto simp: nodeAt_mod_2)
    then show ?case using Suc by (simp add: nodeAt_Suc)
  qed
  then show ?thesis using assms(1) nodeAt_div_Suc [of k m] nodeAt_div_Suc [of k n] by simp
qed

lemma nodeAt_root_iff: "inTree d k m \<Longrightarrow> nodeAt k m = nodeAt d 0 \<longleftrightarrow> k = d"
  using nodeAt_inj [of k m d 0] by (cases "m = 0") (auto simp: inTree_def)

lemma parent_nodeAt:
  assumes "inTree d k m" "k < d" "d \<le> 30"
  shows "parent (nodeAt k m) (2 ^ d) = Inr (nodeAt (Suc k) (m div 2))"
proof -
  have m: "0 \<le> m" using assms by (simp add: inTree_def)
  have "nodeAt k m \<noteq> nodeAt d 0" using nodeAt_root_iff assms by auto
  then show ?thesis
    using inTree_bound [OF assms(1)] inTree_small [OF assms(1,3)] m assms parent_bits [of m k]
    by (simp add: parent_def Let_def nodeWidth_pow2 root_pow2 level_nodeAt not_less [symmetric] del: power_Suc
        nodeAt_nonneg) (simp add: not_less)
qed

lemma sibling_nodeAt:
  assumes "inTree d k m" "k < d" "d \<le> 30"
  shows "sibling (nodeAt k m) (2 ^ d) = Inr (nodeAt k (if even m then m + 1 else m - 1))"
proof -
  let ?p = "nodeAt (Suc k) (m div 2)"
  note p = inTree_parent [OF assms(1,2)]
  have pb: "0 \<le> m div 2" "?p < 2147483648" "k \<le> 29"
    using p inTree_small [OF p assms(3)] assms by (auto simp: inTree_def)
  have pos: "(1 :: int) \<le> 2 ^ k" by simp
  show ?thesis
  proof (cases "even m")
    case True
    then have "nodeAt k m < ?p"
      using pos by (auto simp: nodeAt_def algebra_simps elim!: evenE)
    then show ?thesis using True right_nodeAt [OF pb] parent_nodeAt [OF assms]
      by (simp add: sibling_def)
  next
    case False
    then have "\<not> nodeAt k m < ?p"
      using pos by (auto simp: nodeAt_def algebra_simps elim!: oddE)
    moreover have "2 * (m div 2) = m - 1" using False by presburger
    ultimately show ?thesis using False left_nodeAt [OF pb(1,2)] parent_nodeAt [OF assms]
      by (simp add: sibling_def)
  qed
qed

text \<open>What the loop of \<open>level\<close> returns has its bit clear; an index that reads as \<open>-1\<close> has none.\<close>

lemma level_loop_bit:
  assumes "level_loop x k = Some y"
  shows "js_and (js_shr x (int y)) 1 \<noteq> 1"
proof (rule level_loop.raw_induct [where P = "\<lambda>x k y. js_and (js_shr x (int y)) 1 \<noteq> 1", OF _ assms])
  fix f and nodeIndex :: int and k y :: nat
  assume ih: "\<And>nodeIndex k y. f nodeIndex k = Some y \<Longrightarrow> js_and (js_shr nodeIndex (int y)) 1 \<noteq> 1"
    and run: "(if js_and (js_shr nodeIndex (int k)) 1 = 1 then f nodeIndex (k + 1) else Some k) = Some y"
  show "js_and (js_shr nodeIndex (int y)) 1 \<noteq> 1"
    using run by (cases "js_and (js_shr nodeIndex (int k)) 1 = 1") (auto dest: ih)
qed

lemma js_shr_minus_1: "to_int32 x = - 1 \<Longrightarrow> js_and (js_shr x k) 1 = 1"
  by (simp add: js_shr_def js_and_def to_int32_def signed_take_bit_minus drop_bit_minus_one)

lemma level_loop_diverges: "to_int32 x = - 1 \<Longrightarrow> level_loop x 0 = None"
  using level_loop_bit [of x 0] js_shr_minus_1 [of x] by (cases "level_loop x 0") auto

text \<open>The direct path, level by level.\<close>

definition ancestorAt :: "int \<Rightarrow> nat \<Rightarrow> nat \<Rightarrow> int" where
  "ancestorAt m k j = nodeAt j (m div 2 ^ (j - k))"

lemma ancestorAt_self [simp]: "ancestorAt m k k = nodeAt k m"
  by (simp add: ancestorAt_def)

lemma ancestorAt_parent:
  assumes "k < j"
  shows "ancestorAt (m div 2) (Suc k) j = ancestorAt m k j"
proof -
  have "j - k = Suc (j - Suc k)" using assms by simp
  then show ?thesis by (simp add: ancestorAt_def zdiv_zmult2_eq)
qed

lemma div_less_mult:
  fixes m c q :: int
  assumes "m < c * q" "0 < q"
  shows "m div q < c"
proof (rule ccontr)
  assume "\<not> m div q < c"
  then have "c * q \<le> m div q * q" using assms(2) by simp
  also have "\<dots> \<le> m" using pos_mod_sign [OF assms(2), of m] div_mult_mod_eq [of m q] by linarith
  finally show False using assms(1) by simp
qed

lemma inTree_ancestor:
  assumes "inTree d k m" "k \<le> j" "j \<le> d"
  shows "inTree d j (m div 2 ^ (j - k))"
proof -
  have "m < 2 ^ (d - j) * 2 ^ (j - k)"
    using assms by (simp add: inTree_def flip: power_add)
  then have "m div 2 ^ (j - k) < 2 ^ (d - j)"
    by (intro div_less_mult) simp_all
  moreover have "0 \<le> m div 2 ^ (j - k)"
    using assms(1) by (simp add: inTree_def pos_imp_zdiv_nonneg_iff)
  ultimately show ?thesis using assms by (simp add: inTree_def)
qed

lemma directPath_loop_nodeAt:
  assumes "d \<le> 30"
  shows "inTree d k m \<Longrightarrow> directPath_loop (nodeAt k m) (nodeAt d 0) (2 ^ d) acc
    = Inr (acc @ map (ancestorAt m k) [Suc k..<Suc d])"
proof (induction "d - k" arbitrary: k m acc)
  case (0 k m)
  then have "k = d" "m = 0" by (auto simp: inTree_def)
  then show ?case by (simp add: directPath_loop.simps)
next
  case (Suc i k m)
  then have k: "k < d" by simp
  have ne: "nodeAt k m \<noteq> nodeAt d 0" using nodeAt_root_iff Suc.prems k by auto
  have "[Suc k..<Suc d] = Suc k # [Suc (Suc k)..<Suc d]" using k by (simp add: upt_conv_Cons)
  moreover have "map (ancestorAt (m div 2) (Suc k)) [Suc (Suc k)..<Suc d] = map (ancestorAt m k) [Suc (Suc k)..<Suc d]"
    by (rule map_cong) (auto simp: ancestorAt_parent)
  moreover have "nodeAt (Suc k) (m div 2) = ancestorAt m k (Suc k)" by (simp add: ancestorAt_def)
  moreover have "i = d - Suc k" using Suc(2) by simp
  ultimately show ?case
    using Suc(1) [OF _ inTree_parent [OF Suc.prems k]] ne parent_nodeAt [OF Suc.prems k assms]
    by (subst directPath_loop.simps) (simp del: upt_Suc)
qed

lemma directPath_nodeAt:
  assumes "inTree d k m" "d \<le> 30"
  shows "directPath (nodeAt k m) (2 ^ d) = Inr (map (ancestorAt m k) [Suc k..<Suc d])"
proof -
  have "0 \<le> nodeAt k m" using assms by (simp add: inTree_def)
  then show ?thesis
    using inTree_bound [OF assms(1)] directPath_loop_nodeAt [OF assms(2,1), of "[]"] nodeAt_root_iff [OF assms(1)]
    by (simp add: directPath_def Let_def nodeWidth_pow2 root_pow2 [OF assms(2)] not_less [symmetric] del: power_Suc upt_Suc)
qed

definition flip :: "int \<Rightarrow> int" where
  "flip m = (if even m then m + 1 else m - 1)"

definition copathAt :: "int \<Rightarrow> nat \<Rightarrow> nat \<Rightarrow> int" where
  "copathAt m k j = nodeAt j (flip (m div 2 ^ (j - k)))"

lemma copath_nodeAt:
  assumes "inTree d k m" "d \<le> 30"
  shows "copath (nodeAt k m) (2 ^ d) = Inr (map (copathAt m k) [k..<d])"
proof (cases "k = d")
  case True
  then show ?thesis using assms by (simp add: copath_def root_pow2 inTree_top)
next
  case False
  then have k: "k < d" using assms by (simp add: inTree_def)
  have ne: "nodeAt k m \<noteq> nodeAt d 0" using nodeAt_root_iff [OF assms(1)] False by simp
  have "nodeAt k m # map (ancestorAt m k) [Suc k..<Suc d] = map (ancestorAt m k) [k..<Suc d]"
    using k by (simp add: upt_conv_Cons del: upt_Suc)
  then have "butlast (nodeAt k m # map (ancestorAt m k) [Suc k..<Suc d]) = map (ancestorAt m k) [k..<d]"
    using k by (simp add: map_butlast [symmetric])
  moreover have "res_mapM (\<lambda>y. sibling y (2 ^ d)) (map (ancestorAt m k) [k..<d]) = Inr (map (copathAt m k) [k..<d])"
  proof -
    have s: "sibling (ancestorAt m k j) (2 ^ d) = Inr (copathAt m k j)" if "j \<in> set [k..<d]" for j
      using sibling_nodeAt [OF inTree_ancestor [OF assms(1)] _ assms(2), of j] that
      by (simp add: ancestorAt_def copathAt_def flip_def)
    have "res_mapM (\<lambda>y. sibling y (2 ^ d)) (map (ancestorAt m k) js) = Inr (map (copathAt m k) js)"
      if "set js \<subseteq> set [k..<d]" for js
      using that by (induction js) (use s in auto)
    then show ?thesis by blast
  qed
  ultimately show ?thesis
    using ne directPath_nodeAt [OF assms] by (simp add: copath_def root_pow2 assms(2) del: upt_Suc)
qed

text \<open>The leaves under a node.\<close>

lemma leafRange_lo_nodeAt:
  assumes "d \<le> 30"
  shows "inTree d k m \<Longrightarrow> leafRange_lo (nodeAt k m) = Inr (2 * (m * 2 ^ k))"
proof (induction k arbitrary: m)
  case 0
  then show ?case by (subst leafRange_lo.simps) (simp add: isLeaf_def)
next
  case (Suc k)
  have "0 \<le> m" "nodeAt (Suc k) m < 2147483648"
    using Suc.prems inTree_small [OF Suc.prems assms] by (auto simp: inTree_def)
  then show ?case using Suc.IH [OF inTree_children(1) [OF Suc.prems]]
    by (subst leafRange_lo.simps) (simp add: left_nodeAt)
qed

lemma leafRange_hi_nodeAt:
  assumes "d \<le> 30"
  shows "inTree d k m \<Longrightarrow> leafRange_hi (nodeAt k m) = Inr (2 * (m * 2 ^ k + 2 ^ k - 1))"
proof (induction k arbitrary: m)
  case 0
  then show ?case by (subst leafRange_hi.simps) (simp add: isLeaf_def)
next
  case (Suc k)
  have "0 \<le> m" "nodeAt (Suc k) m < 2147483648" "k \<le> 29"
    using Suc.prems inTree_small [OF Suc.prems assms] assms by (auto simp: inTree_def)
  then show ?case using Suc.IH [OF inTree_children(2) [OF Suc.prems]]
    by (subst leafRange_hi.simps) (simp add: right_nodeAt algebra_simps)
qed

lemma leafRange_nodeAt:
  "inTree d k m \<Longrightarrow> d \<le> 30 \<Longrightarrow> leafRange (nodeAt k m) = Inr (m * 2 ^ k, m * 2 ^ k + 2 ^ k - 1)"
  by (simp add: leafRange_def leafRange_lo_nodeAt leafRange_hi_nodeAt nodeToLeafIndex_def isLeaf_def)

lemma leafWidth_pow2: "leafWidth (2 ^ Suc d - 1) = 2 ^ d"
proof -
  have "(2 :: int) ^ Suc d - 1 \<noteq> 0" using zero_less_power [of "2 :: int" d] by simp presburger
  moreover have "((2 :: int) ^ Suc d - 1 - 1) div 2 = 2 ^ d - 1" by simp
  ultimately show ?thesis by (simp add: leafWidth_def)
qed


section \<open>When the level loop returns\<close>

lemma to_int32_all_ones:
  assumes "\<forall>k < 32. bit (to_int32 x) k"
  shows "to_int32 x = - 1"
proof (rule bit_eqI)
  fix n
  have "bit (to_int32 x) n \<longleftrightarrow> bit (to_int32 x) (min 31 n)"
    by (simp add: to_int32_def bit_signed_take_bit_iff)
  then show "bit (to_int32 x) n \<longleftrightarrow> bit (- 1 :: int) n" using assms by simp
qed

lemma even_to_int32: "even (to_int32 x) \<longleftrightarrow> even x"
  using bit_signed_take_bit_iff [of 31 x 0] by (simp add: to_int32_def bit_0)

lemma js_shr_bit: "js_and (js_shr x (int k)) 1 = 1 \<longleftrightarrow> bit (to_int32 x) (k mod 32)"
proof -
  have "nat (int k mod 32) = k mod 32" by (simp add: nat_mod_as_int)
  then show ?thesis
    by (simp add: js_and_def js_shr_def to_int32_id and_one_eq bit_iff_odd drop_bit_eq_div mod_2_eq_odd even_to_int32)
qed

lemma level_loop_returns: "\<not> bit (to_int32 x) k \<Longrightarrow> k < 32 \<Longrightarrow> j \<le> k \<Longrightarrow> level_loop x j \<noteq> None"
proof (induction "k - j" arbitrary: j)
  case 0
  then have "\<not> js_and (js_shr x (int j)) 1 = 1" unfolding js_shr_bit by simp
  then show ?case by (subst level_loop.simps) simp
next
  case (Suc n)
  show ?case
  proof (cases "js_and (js_shr x (int j)) 1 = 1")
    case True
    then show ?thesis using Suc.hyps(1) [of "j + 1"] Suc.hyps(2) Suc.prems by (subst level_loop.simps) simp
  next
    case False
    then show ?thesis by (subst level_loop.simps) simp
  qed
qed

lemma level_loop_None_iff: "level_loop x 0 = None \<longleftrightarrow> to_int32 x = - 1"
  using level_loop_diverges level_loop_returns [where j = 0] to_int32_all_ones by blast

section \<open>The copath splits the other leaves\<close>

lemma flip_neq: "flip m \<noteq> m" and flip_div_2: "flip m div 2 = m div 2"
  by (auto simp: flip_def) presburger+

lemma flip_iff: "a = flip b \<longleftrightarrow> a \<noteq> b \<and> a div 2 = b div 2" for a b :: int
  unfolding flip_def by presburger

lemma div_pow_Suc: "(x :: int) div 2 ^ Suc j = x div 2 ^ j div 2"
  by (simp add: zdiv_zmult2_eq mult.commute [of 2])

lemma copath_unique:
  assumes "0 \<le> l" "l < 2 ^ d" "0 \<le> l'" "l' < 2 ^ d" "l' \<noteq> l"
  shows "\<exists>!j. j < d \<and> l' div 2 ^ j = flip (l div 2 ^ j)"
proof (rule ex_ex1I)
  have top: "l' div 2 ^ d = l div 2 ^ d" using assms by simp
  have "\<exists>j<d. (l' div 2 ^ j \<noteq> l div 2 ^ j) \<and> l' div 2 ^ Suc j = l div 2 ^ Suc j"
  proof (rule ccontr)
    assume none: "\<not> ?thesis"
    have "j \<le> d \<Longrightarrow> l' div 2 ^ (d - j) = l div 2 ^ (d - j)" for j
    proof (induction j)
      case (Suc j)
      then have "Suc (d - Suc j) = d - j" "d - Suc j < d" by auto
      then show ?case using none Suc by (metis Suc_leD)
    qed (use top in simp)
    from this [of d] show False using assms(5) by simp
  qed
  then show "\<exists>j. j < d \<and> l' div 2 ^ j = flip (l div 2 ^ j)"
    unfolding flip_iff div_pow_Suc by blast
next
  fix i j
  assume i: "i < d \<and> l' div 2 ^ i = flip (l div 2 ^ i)" and j: "j < d \<and> l' div 2 ^ j = flip (l div 2 ^ j)"
  have no: False if "l' div 2 ^ a = flip (l div 2 ^ a)" "l' div 2 ^ b = flip (l div 2 ^ b)" "a < b" for a b
  proof -
    have up: "l' div 2 ^ (Suc a + c) = l div 2 ^ (Suc a + c)" for c
    proof (induction c)
      case 0
      then show ?case using that(1) by (simp only: div_pow_Suc add_0_right flip_div_2)
    next
      case (Suc c)
      then show ?case by (simp only: add_Suc_right div_pow_Suc)
    qed
    from up [of "b - Suc a"] show False using that flip_neq [of "l div 2 ^ b"] by simp
  qed
  show "i = j" using no [of i j] no [of j i] i j by (metis linorder_neqE_nat)
qed

end
