(* ===== verification/RatchetTree.thy ===== *)
theory RatchetTree imports LeafNode Treemath begin

text \<open>
  The ratchet tree of a group, \<^verbatim>\<open>src/ratchet-tree.ts\<close>: the array of its nodes, a blank node
  being \<open>None\<close>; its wire form, which leaves out the trailing blanks; adding, updating and
  removing leaves; resolutions and filtered direct paths.  The writes to the hash cache that
  some operations make are modelled in the theory of the tree hash.
\<close>

section \<open>Nodes\<close>

datatype ratchetNode = NodeParent parentNode | NodeLeaf leafNode

type_synonym ratchetTree = "ratchetNode option list"

definition ratchetNodeType :: "ratchetNode \<Rightarrow> nodeTypeName" where
  "ratchetNodeType n = (case n of NodeParent _ \<Rightarrow> NT_parent | NodeLeaf _ \<Rightarrow> NT_leaf)"

definition encodeNode :: "ratchetNode encoder" where
  "encodeNode node = (case node of
     NodeParent p \<Rightarrow> contramapEncoders (encPair encodeNodeType encodeParentNode) (\<lambda>n. (NT_parent, n)) p
   | NodeLeaf l \<Rightarrow> contramapEncoders (encPair encodeNodeType encodeLeafNode) (\<lambda>n. (NT_leaf, n)) l)"

definition decodeNode :: "ratchetNode decoder" where
  "decodeNode = flatMapDecoder decodeNodeType (\<lambda>nodeType. case nodeType of
     NT_parent \<Rightarrow> mapDecoder decodeParentNode NodeParent
   | NT_leaf \<Rightarrow> mapDecoder decodeLeafNode NodeLeaf)"

definition okNode :: "ratchetNode \<Rightarrow> bool" where
  [ok_defs]: "okNode n = (case n of NodeParent _ \<Rightarrow> True | NodeLeaf l \<Rightarrow> okLeafNode l)"

interpretation node: item_codec okNode encodeNode decodeNode
proof -
  let ?eb = "\<lambda>n. case n of NodeParent p \<Rightarrow> encodeParentNode p | NodeLeaf l \<Rightarrow> encodeLeafNode l"
  let ?ok = "\<lambda>t n. ratchetNodeType n = t \<and> okNode n"
  have "item_codec (\<lambda>n. True \<and> ?ok (ratchetNodeType n) n)
      (encTagged encodeNodeType ratchetNodeType (\<lambda>_. ?eb)) decodeNode"
    unfolding decodeNode_def
  proof (rule item_tagged [OF nodeType.item_codec_axioms, where okb = ?ok and eb = "\<lambda>_. ?eb"])
    fix t
    show "codec (?ok t) ?eb (case t of NT_parent \<Rightarrow> mapDecoder decodeParentNode NodeParent
       | NT_leaf \<Rightarrow> mapDecoder decodeLeafNode NodeLeaf)"
      by (cases t; (simp only: nodeTypeName.case, rule codec_ctor_cong, (rule codec_intros)+, simp, simp,
          (case_tac u; auto simp: okNode_def ratchetNodeType_def)))
  qed auto
  then show "item_codec okNode encodeNode decodeNode"
    by (rule item_cong)
      (auto simp: encTagged_def encodeNode_def ratchetNodeType_def contramapEncoders_def encPair_def
        split: ratchetNode.splits)
qed

lemmas node_codecs [codec_intros] = node.item_codec_axioms node.codec_axioms

definition getHpkePublicKey :: "ratchetNode \<Rightarrow> bytes" where
  "getHpkePublicKey n = (case n of NodeParent p \<Rightarrow> pn_hpkePublicKey p | NodeLeaf l \<Rightarrow> ln_hpkePublicKey l)"

section \<open>Full and stripped trees\<close>

text \<open>
  The shift of the loop wraps at 32 bits and its values never reach \<open>2 ^ 30\<close>: below that many nodes the
  loop stops, from there on it never does, and the call has no value but \<open>NeverReturns\<close>.
\<close>

partial_function (option) nextFullBinaryTreeSize_loop :: "int \<Rightarrow> nat \<Rightarrow> nat option" where
  "nextFullBinaryTreeSize_loop n d =
     (if js_shl 1 (int d + 1) - 1 < n then nextFullBinaryTreeSize_loop n (d + 1) else Some d)"

declare nextFullBinaryTreeSize_loop.simps [code]

definition nextFullBinaryTreeSize :: "int \<Rightarrow> int result" where
  "nextFullBinaryTreeSize n = (case nextFullBinaryTreeSize_loop n 0 of
     None \<Rightarrow> Inl NeverReturns
   | Some d \<Rightarrow> Inr (js_shl 1 (int d + 1) - 1))"

definition extendRatchetTree :: "ratchetTree \<Rightarrow> ratchetTree result" where
  "extendRatchetTree tree =
     (if sparse_get tree (int (length tree) - 1) = None then Inl InternalError
      else res_bind (nextFullBinaryTreeSize (int (length tree))) (\<lambda>neededSize.
        Inr (tree @ replicate (nat neededSize - length tree) None)))"

function stripBlankNodes_loop :: "ratchetTree \<Rightarrow> int \<Rightarrow> int" where
  "stripBlankNodes_loop tree lastNonBlank =
     (if lastNonBlank \<ge> 0 \<and> sparse_get tree lastNonBlank = None
      then stripBlankNodes_loop tree (lastNonBlank - 1) else lastNonBlank)"
  by pat_completeness auto
termination
  by (relation "measure (\<lambda>(tree, n). nat (n + 1))") auto

declare stripBlankNodes_loop.simps [simp del]

definition stripBlankNodes :: "ratchetTree \<Rightarrow> ratchetTree" where
  "stripBlankNodes tree = take (nat (stripBlankNodes_loop tree (int (length tree) - 1) + 1)) tree"

definition encodeRatchetTree :: "ratchetTree encoder" where
  "encodeRatchetTree = contramapEncoder (encodeVarLenType (encodeOptional encodeNode)) stripBlankNodes"

definition unmergedLeavesInRange :: "ratchetTree \<Rightarrow> bool" where
  "unmergedLeavesInRange tree = (let width = leafWidth (int (length tree)) in
     list_all (\<lambda>node. case node of Some (NodeParent p) \<Rightarrow>
         list_all (\<lambda>leafIndex. leafIndex \<ge> 0 \<and> leafIndex < width) (pn_unmergedLeaves p) | _ \<Rightarrow> True) tree)"

text \<open>\<open>mapDecoderOption\<close> with a callback that may throw.\<close>

definition decodeRatchetTree :: "ratchetTree decoder" where
  "decodeRatchetTree = (\<lambda>b off. res_bind (decodeVarLenType (decodeOptional decodeNode) b off) (\<lambda>r. case r of
     None \<Rightarrow> Inr None
   | Some (nodes, l) \<Rightarrow>
       if sparse_get nodes (int (length nodes) - 1) = None then Inr None
       else res_bind (extendRatchetTree nodes) (\<lambda>tree.
         if unmergedLeavesInRange tree then Inr (Some (tree, l)) else Inr None)))"

section \<open>Adding, updating and removing leaves\<close>

text \<open>A write at an index in range; the sources only write there.\<close>

definition setNode :: "ratchetTree \<Rightarrow> int \<Rightarrow> ratchetNode option \<Rightarrow> ratchetTree" where
  "setNode tree i n = tree[nat i := n]"

function findBlank_from :: "ratchetTree \<Rightarrow> nat \<Rightarrow> int option" where
  "findBlank_from tree i = (if i < length tree
     then if tree ! i = None \<and> isLeaf (int i) then Some (int i) else findBlank_from tree (i + 1)
     else None)"
  by pat_completeness auto
termination
  by (relation "measure (\<lambda>(tree, i). length tree - i)") auto

declare findBlank_from.simps [simp del]

definition findBlankLeafNodeIndex :: "ratchetTree \<Rightarrow> int option" where
  "findBlankLeafNodeIndex tree = findBlank_from tree 0"

definition findBlankLeafNodeIndexOrExtend :: "ratchetTree \<Rightarrow> int" where
  "findBlankLeafNodeIndexOrExtend tree =
     (case findBlankLeafNodeIndex tree of None \<Rightarrow> int (length tree) + 1 | Some i \<Rightarrow> i)"

text \<open>An array of negative length cannot be made: an empty tree has no extension.\<close>

definition extendTree :: "ratchetTree \<Rightarrow> leafNode \<Rightarrow> (ratchetTree \<times> int) result" where
  "extendTree tree leafNode =
     (if length tree = 0 then Inl RangeError
      else Inr (tree @ [None, Some (NodeLeaf leafNode)] @ replicate (length tree - 1) None,
                int (length tree) + 1))"

text \<open>The cast \<open>node as NodeParent\<close>: spreading the \<open>parent\<close> of a leaf node throws.\<close>

definition addUnmerged :: "int \<Rightarrow> ratchetTree \<Rightarrow> ratchetTree \<Rightarrow> int \<Rightarrow> ratchetTree result" where
  "addUnmerged insertedLeafIndex tree copy nodeIndex = (case sparse_get tree nodeIndex of
     None \<Rightarrow> Inr copy
   | Some (NodeParent p) \<Rightarrow> Inr (setNode copy nodeIndex
       (Some (NodeParent (p\<lparr>pn_unmergedLeaves := pn_unmergedLeaves p @ [insertedLeafIndex]\<rparr>))))
   | Some (NodeLeaf _) \<Rightarrow> Inl TypeError)"

definition addLeafNode :: "ratchetTree \<Rightarrow> leafNode \<Rightarrow> (ratchetTree \<times> int) result" where
  "addLeafNode tree leafNode = (case findBlankLeafNodeIndex tree of
     None \<Rightarrow> extendTree tree leafNode
   | Some blankLeaf \<Rightarrow>
       res_bind (nodeToLeafIndex blankLeaf) (\<lambda>insertedLeafIndex.
       res_bind (directPath blankLeaf (leafWidth (int (length tree)))) (\<lambda>dp.
       res_bind (res_foldM (addUnmerged insertedLeafIndex tree) tree dp) (\<lambda>copy.
         Inr (setNode copy blankLeaf (Some (NodeLeaf leafNode)), blankLeaf)))))"

definition blankPath :: "ratchetTree \<Rightarrow> int list \<Rightarrow> ratchetTree" where
  "blankPath tree path = foldl (\<lambda>copy nodeIndex.
     if sparse_get tree nodeIndex \<noteq> None then setNode copy nodeIndex None else copy) tree path"

definition updateLeafNode :: "ratchetTree \<Rightarrow> leafNode \<Rightarrow> int \<Rightarrow> ratchetTree result" where
  "updateLeafNode tree leafNode leafIndex =
     (let leafNodeIndex = leafToNodeIndex leafIndex in
      res_bind (directPath leafNodeIndex (leafWidth (int (length tree)))) (\<lambda>pathToBlank.
        Inr (setNode (blankPath tree pathToBlank) leafNodeIndex (Some (NodeLeaf leafNode)))))"

definition condenseRatchetTreeAfterRemove :: "ratchetTree \<Rightarrow> ratchetTree result" where
  "condenseRatchetTreeAfterRemove tree = (let stripped = stripBlankNodes tree in
     if length stripped = 0 then Inl ValidationError else extendRatchetTree stripped)"

definition removeLeafNode :: "ratchetTree \<Rightarrow> int \<Rightarrow> ratchetTree result" where
  "removeLeafNode tree removedLeafIndex =
     (let leafNodeIndex = leafToNodeIndex removedLeafIndex in
      res_bind (directPath leafNodeIndex (leafWidth (int (length tree)))) (\<lambda>pathToBlank.
        condenseRatchetTreeAfterRemove (setNode (blankPath tree pathToBlank) leafNodeIndex None)))"

definition removeLeaves :: "ratchetTree \<Rightarrow> int list \<Rightarrow> ratchetTree result" where
  "removeLeaves tree leafIndices = condenseRatchetTreeAfterRemove
     (map (\<lambda>(i, n). case n of
         None \<Rightarrow> None
       | Some nd \<Rightarrow>
           if isLeaf (int i) \<and> int i div 2 \<in> set leafIndices then None
           else (case nd of
               NodeParent p \<Rightarrow> Some (NodeParent (p\<lparr>pn_unmergedLeaves :=
                 filter (\<lambda>l. l \<notin> set leafIndices) (pn_unmergedLeaves p)\<rparr>))
             | NodeLeaf _ \<Rightarrow> n))
       (enumerate 0 tree))"

section \<open>Resolutions and paths\<close>

function resolution :: "ratchetTree \<Rightarrow> int \<Rightarrow> int list result" where
  "resolution tree nodeIndex = (case sparse_get tree nodeIndex of
     None \<Rightarrow>
       if isLeaf nodeIndex then Inr []
       else res_bind (left nodeIndex) (\<lambda>l. res_bind (right nodeIndex) (\<lambda>r.
         res_bind (resolution tree l) (\<lambda>leftRes. res_bind (resolution tree r) (\<lambda>rightRes.
           Inr (leftRes @ rightRes)))))
   | Some node \<Rightarrow>
       if isLeaf nodeIndex then Inr [nodeIndex]
       else Inr (nodeIndex # map leafToNodeIndex
         (case node of NodeParent p \<Rightarrow> pn_unmergedLeaves p | NodeLeaf _ \<Rightarrow> [])))"
  by pat_completeness auto
termination
  by (relation "measure (\<lambda>(tree, i). levelOf i)") (auto intro: child_levelOf)

declare resolution.simps [simp del]

definition filteredDirectPath :: "int \<Rightarrow> ratchetTree \<Rightarrow> int list result" where
  "filteredDirectPath leafIndex tree =
     (let leafNodeIndex = leafToNodeIndex leafIndex; lWidth = leafWidth (int (length tree)) in
      res_bind (copath leafNodeIndex lWidth) (\<lambda>cp. res_bind (directPath leafNodeIndex lWidth) (\<lambda>dp.
        res_foldM (\<lambda>acc (nodeIndex, c). res_bind (resolution tree c) (\<lambda>r.
          Inr (if length r \<noteq> 0 then acc @ [nodeIndex] else acc))) [] (zip dp cp))))"

definition filteredDirectPathAndCopathResolution ::
    "int \<Rightarrow> ratchetTree \<Rightarrow> (int \<times> int list) list result" where
  "filteredDirectPathAndCopathResolution leafIndex tree =
     (let leafNodeIndex = leafToNodeIndex leafIndex; lWidth = leafWidth (int (length tree)) in
      res_bind (copath leafNodeIndex lWidth) (\<lambda>cp. res_bind (directPath leafNodeIndex lWidth) (\<lambda>dp.
        res_foldM (\<lambda>acc (cur, c). res_bind (resolution tree c) (\<lambda>r.
          Inr (if length r = 0 then acc else acc @ [(cur, r)]))) [] (zip dp cp))))"

function traverse_loop ::
    "ratchetTree \<Rightarrow> int \<Rightarrow> (int \<Rightarrow> parentNode \<Rightarrow> 't option result) \<Rightarrow> int \<Rightarrow> ('t \<times> int) option result" where
  "traverse_loop tree rootIndex f currentIndex =
     (if currentIndex \<noteq> rootIndex then
        res_bind (parent currentIndex (leafWidth (int (length tree)))) (\<lambda>p.
          case sparse_get tree p of
            None \<Rightarrow> traverse_loop tree rootIndex f p
          | Some (NodeLeaf _) \<Rightarrow> Inl InternalError
          | Some (NodeParent n) \<Rightarrow> res_bind (f p n) (\<lambda>result. case result of
              Some t \<Rightarrow> Inr (Some (t, p))
            | None \<Rightarrow> traverse_loop tree rootIndex f p))
      else Inr None)"
  by pat_completeness auto
termination
  by (relation "measure (\<lambda>(tree, r, f, i). stepsLeft i)") (auto intro: parent_stepsLeft)

declare traverse_loop.simps [simp del]

definition traverseToRoot ::
    "ratchetTree \<Rightarrow> int \<Rightarrow> (int \<Rightarrow> parentNode \<Rightarrow> 't option result) \<Rightarrow> ('t \<times> int) option result" where
  "traverseToRoot tree startIndex f =
     traverse_loop tree (root (leafWidth (int (length tree)))) f startIndex"

definition findFirstNonBlankAncestor :: "ratchetTree \<Rightarrow> int \<Rightarrow> int result" where
  "findFirstNonBlankAncestor tree nodeIndex =
     res_bind (traverseToRoot tree nodeIndex (\<lambda>nodeIndex _. Inr (Some nodeIndex))) (\<lambda>r.
       Inr (case r of Some (i, _) \<Rightarrow> i | None \<Rightarrow> root (leafWidth (int (length tree)))))"

function findLeaf_from :: "ratchetTree \<Rightarrow> leafNode \<Rightarrow> nat \<Rightarrow> int option result" where
  "findLeaf_from tree leaf i = (if i < length tree then
     (case tree ! i of
        Some n \<Rightarrow> if isLeaf (int i) then (case n of
            NodeParent _ \<Rightarrow> Inl InternalError
          | NodeLeaf l \<Rightarrow> res_bind (encodeLeafNode l) (\<lambda>a. res_bind (encodeLeafNode leaf) (\<lambda>b.
              if constantTimeEqual a b then Inr (Some (int i)) else findLeaf_from tree leaf (i + 1))))
          else findLeaf_from tree leaf (i + 1)
      | None \<Rightarrow> findLeaf_from tree leaf (i + 1))
     else Inr None)"
  by pat_completeness auto
termination
  by (relation "measure (\<lambda>(tree, leaf, i). length tree - i)") auto

declare findLeaf_from.simps [simp del]

definition findLeafIndex :: "ratchetTree \<Rightarrow> leafNode \<Rightarrow> int option result" where
  "findLeafIndex tree leaf = res_bind (findLeaf_from tree leaf 0) (\<lambda>r. case r of
     None \<Rightarrow> Inr None | Some i \<Rightarrow> res_map Some (nodeToLeafIndex i))"

definition getCredentialFromLeafIndex :: "ratchetTree \<Rightarrow> int \<Rightarrow> credential result" where
  "getCredentialFromLeafIndex tree leafIndex = (case sparse_get tree (leafToNodeIndex leafIndex) of
     Some (NodeLeaf l) \<Rightarrow> Inr (ln_credential l) | _ \<Rightarrow> Inl ValidationError)"

definition getSignaturePublicKeyFromLeafIndex :: "ratchetTree \<Rightarrow> int \<Rightarrow> bytes result" where
  "getSignaturePublicKeyFromLeafIndex tree leafIndex = (case sparse_get tree (leafToNodeIndex leafIndex) of
     Some (NodeLeaf l) \<Rightarrow> Inr (ln_signaturePublicKey l) | _ \<Rightarrow> Inl ValidationError)"

end
