(* ===== verification/RatchetTreeLaws.thy ===== *)
theory RatchetTreeLaws imports RatchetTree begin

text \<open>
  Laws of the ratchet tree: its wire form round-trips, the operations on leaves keep the tree
  well-formed and change exactly the leaf and its direct path, and resolutions are what
  RFC 9420 asks of them.
\<close>

section \<open>Reading and writing nodes\<close>

lemma sparse_get_setNode:
  assumes "0 \<le> i" "i < int (length t)"
  shows "sparse_get (setNode t i n) j = (if j = i then n else sparse_get t j)"
  using assms by (auto simp: sparse_get_def setNode_def nth_list_update nat_eq_iff)

lemma length_setNode [simp]: "length (setNode t i n) = length t"
  by (simp add: setNode_def)

lemma sparse_get_nth: "i < length t \<Longrightarrow> sparse_get t (int i) = t ! i"
  by (simp add: sparse_get_def)

lemma sparse_get_Nil [simp]: "sparse_get [] i = None"
  by (auto simp add: sparse_get_def)

lemma sparse_get_eq_SomeD: "sparse_get t i = Some n \<Longrightarrow> 0 \<le> i \<and> i < int (length t) \<and> t ! nat i = Some n"
  by (auto simp: sparse_get_def split: if_splits)

lemma sparse_get_append_None: "sparse_get (t @ replicate k None) i = sparse_get t i"
  by (auto simp: sparse_get_def nth_append)

lemma tree_eqI:
  assumes "length s = length t" "\<And>i. 0 \<le> i \<Longrightarrow> i < int (length t) \<Longrightarrow> sparse_get s i = sparse_get t i"
  shows "s = t"
proof (rule nth_equalityI [OF assms(1)])
  fix i assume "i < length s"
  then show "s ! i = t ! i" using assms(1) assms(2) [of "int i"] by (simp add: sparse_get_def)
qed

section \<open>Stripping and extending\<close>

lemma stripBlankNodes_loop:
  assumes "- 1 \<le> n" "n < int (length t)"
  shows "- 1 \<le> stripBlankNodes_loop t n \<and> stripBlankNodes_loop t n \<le> n \<and>
    (0 \<le> stripBlankNodes_loop t n \<longrightarrow> sparse_get t (stripBlankNodes_loop t n) \<noteq> None) \<and>
    (\<forall>i. stripBlankNodes_loop t n < i \<and> i \<le> n \<longrightarrow> sparse_get t i = None)"
  using assms
proof (induction t n rule: stripBlankNodes_loop.induct)
  case (1 t n)
  show ?case
  proof (cases "n \<ge> 0 \<and> sparse_get t n = None")
    case True
    then have IH: "- 1 \<le> stripBlankNodes_loop t (n - 1) \<and> stripBlankNodes_loop t (n - 1) \<le> n - 1 \<and>
      (0 \<le> stripBlankNodes_loop t (n - 1) \<longrightarrow> sparse_get t (stripBlankNodes_loop t (n - 1)) \<noteq> None) \<and>
      (\<forall>i. stripBlankNodes_loop t (n - 1) < i \<and> i \<le> n - 1 \<longrightarrow> sparse_get t i = None)"
      using 1 by simp
    have "sparse_get t i = None" if "stripBlankNodes_loop t (n - 1) < i" "i \<le> n" for i
      using IH True that by (cases "i = n") auto
    then show ?thesis using IH True by (subst (1 2 3 4 5) stripBlankNodes_loop.simps) auto
  next
    case False
    then have "stripBlankNodes_loop t n = n" by (subst stripBlankNodes_loop.simps) auto
    then show ?thesis using False 1(2) by auto
  qed
qed

lemma stripBlankNodes_split:
  obtains k where "t = stripBlankNodes t @ replicate k None"
    "stripBlankNodes t = [] \<or> sparse_get (stripBlankNodes t) (int (length (stripBlankNodes t)) - 1) \<noteq> None"
proof -
  let ?n = "stripBlankNodes_loop t (int (length t) - 1)"
  let ?m = "nat (?n + 1)"
  have n: "- 1 \<le> ?n" "?n \<le> int (length t) - 1" "0 \<le> ?n \<Longrightarrow> sparse_get t ?n \<noteq> None"
    "\<And>i. ?n < i \<Longrightarrow> i \<le> int (length t) - 1 \<Longrightarrow> sparse_get t i = None"
    using stripBlankNodes_loop [of "int (length t) - 1" t] by auto
  have m: "?m \<le> length t" using n by linarith
  have "drop ?m t = replicate (length t - ?m) None"
  proof (rule nth_equalityI)
    fix i assume "i < length (drop ?m t)"
    then have i: "?m + i < length t" using m by simp
    then have "sparse_get t (int (?m + i)) = None" using n(1) by (intro n(4)) auto
    then show "drop ?m t ! i = replicate (length t - ?m) None ! i"
      using i by (simp only: sparse_get_nth) simp
  qed (use m in simp)
  then have "t = stripBlankNodes t @ replicate (length t - ?m) None"
    unfolding stripBlankNodes_def by (metis append_take_drop_id)
  moreover have "stripBlankNodes t = [] \<or>
      sparse_get (stripBlankNodes t) (int (length (stripBlankNodes t)) - 1) \<noteq> None"
  proof (cases "0 \<le> ?n")
    case True
    then have "length (stripBlankNodes t) = ?m" "?m > 0" using m by (auto simp: stripBlankNodes_def)
    then show ?thesis using n(3) True n(2) by (auto simp: stripBlankNodes_def sparse_get_def nat_diff_distrib)
  next
    case False
    then have "?m = 0" by linarith
    then show ?thesis by (simp add: stripBlankNodes_def)
  qed
  ultimately show ?thesis using that by blast
qed

text \<open>Stripping is determined by its two properties.\<close>

lemma stripBlankNodes_eqI:
  assumes "t = s @ replicate k None" "s = [] \<or> sparse_get s (int (length s) - 1) \<noteq> None"
  shows "stripBlankNodes t = s"
proof -
  obtain j where j: "t = stripBlankNodes t @ replicate j None"
    "stripBlankNodes t = [] \<or> sparse_get (stripBlankNodes t) (int (length (stripBlankNodes t)) - 1) \<noteq> None"
    by (rule stripBlankNodes_split)
  have len: "length u \<le> length v"
    if "u @ replicate a None = v @ replicate b (None :: ratchetNode option)"
      "u = [] \<or> sparse_get u (int (length u) - 1) \<noteq> None" for u v :: ratchetTree and a b
  proof (rule ccontr)
    assume n: "\<not> length u \<le> length v"
    then have "sparse_get (u @ replicate a None) (int (length u) - 1) \<noteq> None"
      using that(2) by (auto simp: sparse_get_append_None)
    moreover have "sparse_get (v @ replicate b None) (int (length u) - 1) = None"
      using n unfolding sparse_get_append_None by (simp add: sparse_get_def)
    ultimately show False using that(1) by simp
  qed
  have "length (stripBlankNodes t) = length s"
    using len [of "stripBlankNodes t" j s k] len [of s k "stripBlankNodes t" j] assms j
    by (metis le_antisym)
  then show ?thesis using assms(1) j(1) by (metis append_eq_append_conv)
qed

lemma nextFullBinaryTreeSize_loop:
  assumes "n \<le> 2 ^ Suc d - 1" "2 ^ d - 1 < n" "d \<le> 29"
  shows "j \<le> d \<Longrightarrow> nextFullBinaryTreeSize_loop n j = Some d"
proof (induction "d - j" arbitrary: j)
  case (0 j)
  then have "j = d" by simp
  then show ?case using assms(1,3)
    by (subst nextFullBinaryTreeSize_loop.simps) (simp add: js_shl_1 nat_add_distrib)
next
  case (Suc i j)
  have "(2 :: int) ^ Suc j \<le> 2 ^ d" using Suc(2) by (intro power_increasing) auto
  then have "2 ^ Suc j - 1 < n" using assms(2) by linarith
  then show ?case using Suc assms(3)
    by (subst nextFullBinaryTreeSize_loop.simps) (simp add: js_shl_1 nat_add_distrib)
qed

lemma nextFullBinaryTreeSize:
  "n \<le> 2 ^ Suc d - 1 \<Longrightarrow> 2 ^ d - 1 < n \<Longrightarrow> d \<le> 29 \<Longrightarrow> nextFullBinaryTreeSize n = Inr (2 ^ Suc d - 1)"
  by (simp add: nextFullBinaryTreeSize_def nextFullBinaryTreeSize_loop js_shl_1 nat_add_distrib)

text \<open>No shift of 1 exceeds \<open>2 ^ 30\<close>, so from that many nodes on the loop never leaves.\<close>

lemma js_shl_1_le: "js_shl 1 k \<le> 2 ^ 30"
proof -
  define m where "m = nat (k mod 32)"
  have shl: "js_shl 1 k = to_int32 (2 ^ m)" by (simp add: js_shl_def m_def push_bit_eq_mult)
  have "m < 32" by (simp add: m_def nat_less_iff)
  then consider "m \<le> 30" | "m = 31" by linarith
  then show ?thesis
  proof cases
    case 1
    then have "(2 :: int) ^ m \<le> 2 ^ 30" by (intro power_increasing) auto
    then show ?thesis by (simp add: shl)
  next
    case 2
    then show ?thesis by (simp add: shl to_int32_def)
  qed
qed

lemma nextFullBinaryTreeSize_exit:
  assumes "nextFullBinaryTreeSize_loop n j = Some d"
  shows "n \<le> js_shl 1 (int d + 1) - 1"
  by (rule nextFullBinaryTreeSize_loop.raw_induct [OF _ assms]) (auto split: if_splits)

lemma nextFullBinaryTreeSize_diverges: "n \<ge> 2 ^ 30 \<Longrightarrow> nextFullBinaryTreeSize n = Inl NeverReturns"
proof (cases "nextFullBinaryTreeSize_loop n 0")
  case (Some d)
  moreover assume "n \<ge> 2 ^ 30"
  ultimately show ?thesis using nextFullBinaryTreeSize_exit [OF Some] js_shl_1_le [of "int d + 1"] by linarith
qed (simp add: nextFullBinaryTreeSize_def)

text \<open>Every node count up to \<open>2 ^ 30 - 1\<close> has its depth.\<close>

lemma depth_exists:
  assumes "0 < n" "n < 2 ^ 30"
  obtains d where "d \<le> 29" "2 ^ d - 1 < n" "n \<le> 2 ^ Suc d - (1 :: nat)"
proof -
  have "\<exists>d \<le> e. 2 ^ d - 1 < n \<and> n \<le> 2 ^ Suc d - 1" if "n < 2 ^ Suc e" for e :: nat
    using that
  proof (induction e)
    case 0
    then show ?case using assms(1) by (intro exI [of _ 0]) simp
  next
    case (Suc e)
    show ?case
    proof (cases "n < 2 ^ Suc e")
      case True
      then show ?thesis using Suc.IH by (meson le_SucI)
    next
      case False
      then show ?thesis using Suc.prems by (intro exI [of _ "Suc e"]) auto
    qed
  qed
  from this [of 29] assms(2) show ?thesis using that by auto
qed

definition full :: "nat \<Rightarrow> ratchetTree \<Rightarrow> bool" where
  "full d t \<longleftrightarrow> d \<le> 29 \<and> length t = 2 ^ Suc d - 1"

lemma full_length: "full d t \<Longrightarrow> int (length t) = 2 ^ Suc d - 1"
  by (simp add: full_def of_nat_diff)

lemma full_leafWidth: "full d t \<Longrightarrow> leafWidth (int (length t)) = 2 ^ d"
  using leafWidth_pow2 by (simp add: full_length)

lemma extendRatchetTree_full:
  assumes "sparse_get t (int (length t) - 1) \<noteq> None" "d \<le> 29" "2 ^ d - 1 < length t" "length t \<le> 2 ^ Suc d - 1"
  shows "extendRatchetTree t = Inr (t @ replicate (2 ^ Suc d - 1 - length t) None)"
proof -
  have "int (length t) \<le> int (2 ^ Suc d - 1)" "int (2 ^ d - 1) < int (length t)"
    using assms(3,4) by (simp_all only: of_nat_less_iff of_nat_le_iff)
  then have "nextFullBinaryTreeSize (int (length t)) = Inr (2 ^ Suc d - 1)"
    using assms(2) by (intro nextFullBinaryTreeSize) (simp_all add: of_nat_diff)
  moreover have "int (2 ^ Suc d - 1) = 2 ^ Suc d - 1" by (simp add: of_nat_diff)
  then have "nat (2 ^ Suc d - 1) = 2 ^ Suc d - 1" by (metis nat_int)
  ultimately show ?thesis using assms(1) by (simp add: extendRatchetTree_def del: power_Suc)
qed

section \<open>The wire form\<close>

text \<open>
  The trees that a receiver rebuilds: full, no deeper than their last non-blank node needs,
  with the unmerged leaves in range.
\<close>

definition compactTree :: "nat \<Rightarrow> ratchetTree \<Rightarrow> bool" where
  "compactTree d t \<longleftrightarrow> full d t \<and> 2 ^ d - 1 < length (stripBlankNodes t)"

definition okRatchetTree :: "ratchetTree \<Rightarrow> bool" where
  "okRatchetTree t \<longleftrightarrow> (\<exists>d. compactTree d t) \<and> list_all (\<lambda>x. \<forall>v\<in>set_option x. okNode v) t \<and>
     unmergedLeavesInRange t"

lemma rawTree: "item_codec (list_all (\<lambda>x. \<forall>v\<in>set_option x. okNode v))
    (encodeVarLenType (encodeOptional encodeNode)) (decodeVarLenType (decodeOptional decodeNode))"
  by (intro codec_intros)

lemma res_mapM_concat_length:
  assumes "item_codec ok e d"
  shows "list_all ok xs \<Longrightarrow> res_mapM e xs = Inr ps \<Longrightarrow> length xs \<le> length (concat ps)"
proof (induction xs arbitrary: ps)
  case (Cons x xs)
  then obtain a qs where a: "e x = Inr a" "res_mapM e xs = Inr qs" "ps = a # qs" "ok x" "list_all ok xs"
    by (auto simp: res_bind_eq_Inr)
  have "a \<noteq> []" using item_codec.nonempty [OF assms a(4,1)] .
  then have "1 \<le> length a" by (cases a) auto
  then show ?case using Cons.IH [OF a(5,2)] a(3) by simp
qed simp

text \<open>A vector has fewer than \<open>2 ^ 30\<close> bytes, so fewer items.\<close>

lemma encodeVarLenType_items:
  assumes "item_codec ok e d" "list_all ok xs" "encodeVarLenType e xs = Inr bs"
  shows "length xs < 2 ^ 30"
proof -
  obtain ps h where "res_mapM e xs = Inr ps" "encodeLength (length (concat ps)) = Inr h"
    using assms(3) by (auto simp: encodeVarLenType_def res_bind_eq_Inr)
  then show ?thesis
    using res_mapM_concat_length [OF assms(1,2)] encodeLength_bound [of "length (concat ps)" h] by simp
qed

lemma extend_strip:
  assumes "compactTree d t"
  shows "sparse_get (stripBlankNodes t) (int (length (stripBlankNodes t)) - 1) \<noteq> None"
    "extendRatchetTree (stripBlankNodes t) = Inr t"
proof -
  obtain k where k: "t = stripBlankNodes t @ replicate k None"
    "stripBlankNodes t = [] \<or> sparse_get (stripBlankNodes t) (int (length (stripBlankNodes t)) - 1) \<noteq> None"
    by (rule stripBlankNodes_split)
  have len: "length t = length (stripBlankNodes t) + k"
    using arg_cong [OF k(1), of length] by simp
  show ne: "sparse_get (stripBlankNodes t) (int (length (stripBlankNodes t)) - 1) \<noteq> None"
    using k(2) assms by (auto simp: compactTree_def)
  show "extendRatchetTree (stripBlankNodes t) = Inr t"
  proof -
    have f: "d \<le> 29" "length t = 2 ^ Suc d - 1" "2 ^ d - 1 < length (stripBlankNodes t)"
      using assms by (simp_all add: compactTree_def full_def)
    then have "extendRatchetTree (stripBlankNodes t) = Inr (stripBlankNodes t @ replicate k None)"
      using extendRatchetTree_full [OF ne f(1,3)] len by simp
    then show ?thesis unfolding k(1) [symmetric] .
  qed
qed

lemma strip_extended:
  assumes "sparse_get s (int (length s) - 1) \<noteq> None"
  shows "stripBlankNodes (s @ replicate k None) = s"
  using stripBlankNodes_eqI assms by blast

lemma decodeRatchetTree_eq_Some:
  "decodeRatchetTree b off = Inr (Some (t, n)) \<longleftrightarrow>
   (\<exists>s. decodeVarLenType (decodeOptional decodeNode) b off = Inr (Some (s, n)) \<and>
     sparse_get s (int (length s) - 1) \<noteq> None \<and> extendRatchetTree s = Inr t \<and> unmergedLeavesInRange t)"
proof (cases "decodeVarLenType (decodeOptional decodeNode) b off")
  case (Inr r)
  then show ?thesis
  proof (cases r)
    case (Some z)
    then show ?thesis using Inr
      by (cases z) (auto simp: decodeRatchetTree_def res_bind_eq_Inr)
  qed (simp add: decodeRatchetTree_def)
qed (simp add: decodeRatchetTree_def)

interpretation ratchetTree: item_codec okRatchetTree encodeRatchetTree decodeRatchetTree
proof (intro item_codecI codec.intro)
  fix t bs and p q :: bytes
  assume ok: "okRatchetTree t" and enc: "encodeRatchetTree t = Inr bs"
  then obtain d where d: "compactTree d t" by (auto simp: okRatchetTree_def)
  have "set (stripBlankNodes t) \<subseteq> set t" by (simp add: stripBlankNodes_def set_take_subset)
  then have "list_all (\<lambda>x. \<forall>v\<in>set_option x. okNode v) (stripBlankNodes t)"
    using ok by (auto simp: okRatchetTree_def list_all_iff)
  then have "decodeVarLenType (decodeOptional decodeNode) (p @ bs @ q) (length p) =
      Inr (Some (stripBlankNodes t, length bs))"
    using codec.roundtrip [OF item_codecD [OF rawTree]] enc
    by (simp add: encodeRatchetTree_def contramapEncoder_def)
  then show "decodeRatchetTree (p @ bs @ q) (length p) = Inr (Some (t, length bs))"
    using extend_strip [OF d] ok by (simp add: decodeRatchetTree_def okRatchetTree_def)
next
  fix off b t n
  assume off: "off \<le> length b" and "decodeRatchetTree b off = Inr (Some (t, n))"
  then obtain s where s: "decodeVarLenType (decodeOptional decodeNode) b off = Inr (Some (s, n))"
    "sparse_get s (int (length s) - 1) \<noteq> None" "extendRatchetTree s = Inr t" "unmergedLeavesInRange t"
    unfolding decodeRatchetTree_eq_Some by blast
  have can: "list_all (\<lambda>x. \<forall>v\<in>set_option x. okNode v) s" "off + n \<le> length b"
    "encodeVarLenType (encodeOptional encodeNode) s = Inr (take n (drop off b))"
    using codec.canonical [OF item_codecD [OF rawTree] off s(1)] by simp_all
  have "0 < length s" using s(2) by (auto simp: sparse_get_def split: if_splits)
  moreover have "length s < 2 ^ 30" by (rule encodeVarLenType_items [OF item_optional [OF node.codec_axioms] can(1,3)])
  ultimately obtain d where d: "d \<le> 29" "2 ^ d - 1 < length s" "length s \<le> 2 ^ Suc d - 1"
    by (rule depth_exists)
  then have t: "t = s @ replicate (2 ^ Suc d - 1 - length s) None"
    using extendRatchetTree_full [OF s(2)] s(3) by simp
  then have strip: "stripBlankNodes t = s" using strip_extended [OF s(2)] by simp
  have "full d t" using d t by (simp add: full_def)
  then have "compactTree d t" using strip d(2) by (simp add: compactTree_def)
  moreover have "list_all (\<lambda>x. \<forall>v\<in>set_option x. okNode v) t" using can(1) t by (auto simp: list_all_iff)
  ultimately show "okRatchetTree t \<and> off + n \<le> length b \<and> encodeRatchetTree t = Inr (take n (drop off b))"
    using can s(4) strip by (auto simp: okRatchetTree_def encodeRatchetTree_def contramapEncoder_def)
next
  fix t bs
  assume "okRatchetTree t" "encodeRatchetTree t = Inr bs"
  then show "bs \<noteq> []"
    using item_codec.nonempty [OF rawTree, of "stripBlankNodes t" bs] set_take_subset
    by (fastforce simp: encodeRatchetTree_def contramapEncoder_def okRatchetTree_def list_all_iff stripBlankNodes_def
        dest: in_set_takeD)
qed

section \<open>Well-formed trees\<close>

text \<open>
  Leaves sit at level 0 and parents above, and the unmerged leaves of a parent are distinct
  non-blank leaves below it.
\<close>

definition okAt :: "ratchetTree \<Rightarrow> nat \<Rightarrow> int \<Rightarrow> ratchetNode \<Rightarrow> bool" where
  "okAt t k m n = (case n of
     NodeLeaf _ \<Rightarrow> k = 0
   | NodeParent p \<Rightarrow> k > 0 \<and> distinct (pn_unmergedLeaves p) \<and>
       (\<forall>l\<in>set (pn_unmergedLeaves p). l div 2 ^ k = m \<and> sparse_get t (2 * l) \<noteq> None))"

definition wfTree :: "nat \<Rightarrow> ratchetTree \<Rightarrow> bool" where
  "wfTree d t \<longleftrightarrow> full d t \<and>
     (\<forall>k m n. inTree d k m \<longrightarrow> sparse_get t (nodeAt k m) = Some n \<longrightarrow> okAt t k m n)"

lemma wfTree_full: "wfTree d t \<Longrightarrow> full d t"
  by (simp add: wfTree_def)

lemma wfTree_at: "wfTree d t \<Longrightarrow> inTree d k m \<Longrightarrow> sparse_get t (nodeAt k m) = Some n \<Longrightarrow> okAt t k m n"
  by (simp add: wfTree_def)

lemma full_index:
  assumes "full d t" "0 \<le> i" "i < int (length t)"
  obtains k m where "inTree d k m" "i = nodeAt k m"
  using inTree_exists [of i d] assms full_length [OF assms(1)] by metis

lemma inTree_index: "full d t \<Longrightarrow> inTree d k m \<Longrightarrow> 0 \<le> nodeAt k m \<and> nodeAt k m < int (length t)"
  using inTree_bound [of d k m] by (simp add: full_length inTree_def)

lemma leaf_inTree: "inTree d 0 l \<longleftrightarrow> 0 \<le> l \<and> l < 2 ^ d"
  by (simp add: inTree_def)

lemma full_leaf_path:
  assumes "full d t" "0 \<le> l" "l < 2 ^ d"
  shows "directPath (leafToNodeIndex l) (leafWidth (int (length t))) = Inr (map (ancestorAt l 0) [1..<Suc d])"
proof -
  have "d \<le> 30" using assms(1) by (simp add: full_def)
  then have "directPath (nodeAt 0 l) (2 ^ d) = Inr (map (ancestorAt l 0) [Suc 0..<Suc d])"
    using assms by (intro directPath_nodeAt) (simp_all add: leaf_inTree)
  then show ?thesis using full_leafWidth [OF assms(1)] by (simp add: leafToNodeIndex_def mult.commute del: upt_Suc)
qed

lemma ancestor_iff:
  assumes "inTree d k m" and l: "0 \<le> l"
  shows "nodeAt k m \<in> set (map (ancestorAt l 0) [1..<Suc d]) \<longleftrightarrow> 0 < k \<and> l div 2 ^ k = m"
proof
  assume "nodeAt k m \<in> set (map (ancestorAt l 0) [1..<Suc d])"
  then obtain j where j: "1 \<le> j" "nodeAt k m = nodeAt j (l div 2 ^ j)" by (auto simp: ancestorAt_def)
  have "0 \<le> l div 2 ^ j" using l by (simp add: pos_imp_zdiv_nonneg_iff)
  then have "k = j \<and> m = l div 2 ^ j" using nodeAt_inj [OF j(2)] assms by (simp add: inTree_def)
  then show "0 < k \<and> l div 2 ^ k = m" using j(1) by auto
next
  assume "0 < k \<and> l div 2 ^ k = m"
  then have "nodeAt k m = ancestorAt l 0 k" "1 \<le> k" "k < Suc d"
    using assms by (auto simp: ancestorAt_def inTree_def)
  then show "nodeAt k m \<in> set (map (ancestorAt l 0) [1..<Suc d])" by (auto simp del: upt_Suc)
qed

lemma ancestor_range:
  assumes "full d t" "0 \<le> l" "l < 2 ^ d" "i \<in> set (map (ancestorAt l 0) [1..<Suc d])"
  shows "0 \<le> i \<and> i < int (length t)"
proof -
  obtain j where j: "1 \<le> j" "j < Suc d" "i = nodeAt j (l div 2 ^ j)"
    using assms(4) by (auto simp: ancestorAt_def)
  have "inTree d j (l div 2 ^ (j - 0))" using inTree_ancestor [of d 0 l j] assms j by (simp add: leaf_inTree)
  then show ?thesis using inTree_index [OF assms(1)] j(3) by simp
qed

text \<open>Blanking a path, and the bookkeeping of unmerged leaves, node by node.\<close>

lemma blankPath_get:
  assumes "\<forall>i\<in>set path. 0 \<le> i \<and> i < int (length t)"
  shows "length (blankPath t path) = length t \<and>
    sparse_get (blankPath t path) j = (if j \<in> set path then None else sparse_get t j)"
proof -
  let ?f = "\<lambda>copy nodeIndex. if sparse_get t nodeIndex \<noteq> None then setNode copy nodeIndex None else copy"
  have "length (foldl ?f c path) = length c \<and> sparse_get (foldl ?f c path) j =
      (if j \<in> set path \<and> sparse_get t j \<noteq> None then None else sparse_get c j)"
    if "length c = length t" for c
    using assms that
  proof (induction path arbitrary: c)
    case (Cons i path)
    have c: "length (?f c i) = length t" using Cons.prems(2) by simp
    have "sparse_get (?f c i) j = (if j = i \<and> sparse_get t i \<noteq> None then None else sparse_get c j)"
      using Cons.prems by (auto simp: sparse_get_setNode)
    then show ?case using Cons.IH [OF _ c] Cons.prems by auto
  qed simp
  from this [of t] show ?thesis unfolding blankPath_def by auto
qed

definition appendUnmerged :: "int \<Rightarrow> ratchetNode option \<Rightarrow> ratchetNode option" where
  "appendUnmerged l n = (case n of Some (NodeParent p) \<Rightarrow>
     Some (NodeParent (p\<lparr>pn_unmergedLeaves := pn_unmergedLeaves p @ [l]\<rparr>)) | _ \<Rightarrow> n)"

lemma addUnmerged_get:
  assumes "\<forall>i\<in>set path. 0 \<le> i \<and> i < int (length t) \<and> (\<forall>lf. sparse_get t i \<noteq> Some (NodeLeaf lf))"
  shows "\<exists>c. res_foldM (addUnmerged l t) t path = Inr c \<and> length c = length t \<and>
    (\<forall>j. sparse_get c j = (if j \<in> set path then appendUnmerged l (sparse_get t j) else sparse_get t j))"
proof -
  have "\<exists>c'. res_foldM (addUnmerged l t) c path = Inr c' \<and> length c' = length t \<and>
      (\<forall>j. sparse_get c' j = (if j \<in> set path \<and> sparse_get t j \<noteq> None
         then appendUnmerged l (sparse_get t j) else sparse_get c j))"
    if "length c = length t" for c
    using assms that
  proof (induction path arbitrary: c)
    case (Cons i path)
    have i: "0 \<le> i" "i < int (length c)" using Cons.prems by auto
    obtain c1 where c1: "addUnmerged l t c i = Inr c1" "length c1 = length t"
      "\<And>j. sparse_get c1 j = (if j = i \<and> sparse_get t i \<noteq> None then appendUnmerged l (sparse_get t i) else sparse_get c j)"
    proof (cases "sparse_get t i")
      case None
      then show ?thesis using that [of c] Cons.prems by (simp add: addUnmerged_def)
    next
      case (Some n)
      then obtain p where "n = NodeParent p" using Cons.prems(1) by (cases n) auto
      then show ?thesis using that Some Cons.prems i
        by (simp add: addUnmerged_def appendUnmerged_def sparse_get_setNode)
    qed
    then show ?case using Cons.IH [OF _ c1(2)] Cons.prems by auto
  qed simp
  from this [of t] show ?thesis by (auto simp: appendUnmerged_def)
qed

section \<open>Adding a leaf\<close>

lemma findBlank_from:
  "case findBlank_from t i of
     None \<Rightarrow> \<forall>j. i \<le> j \<and> j < length t \<longrightarrow> t ! j \<noteq> None \<or> \<not> isLeaf (int j)
   | Some b \<Rightarrow> int i \<le> b \<and> b < int (length t) \<and> sparse_get t b = None \<and> isLeaf b \<and>
       (\<forall>j. i \<le> j \<and> int j < b \<longrightarrow> t ! j \<noteq> None \<or> \<not> isLeaf (int j))"
proof (induction t i rule: findBlank_from.induct)
  case (1 t i)
  show ?case
  proof (cases "i < length t \<and> \<not> (t ! i = None \<and> isLeaf (int i))")
    case True
    then have step: "findBlank_from t i = findBlank_from t (i + 1)" by (subst findBlank_from.simps) auto
    have IH: "case findBlank_from t (i + 1) of
        None \<Rightarrow> \<forall>j. i + 1 \<le> j \<and> j < length t \<longrightarrow> t ! j \<noteq> None \<or> \<not> isLeaf (int j)
      | Some b \<Rightarrow> int (i + 1) \<le> b \<and> b < int (length t) \<and> sparse_get t b = None \<and> isLeaf b \<and>
          (\<forall>j. i + 1 \<le> j \<and> int j < b \<longrightarrow> t ! j \<noteq> None \<or> \<not> isLeaf (int j))"
      using 1 True by blast
    have here: "t ! j \<noteq> None \<or> \<not> isLeaf (int j)" if "i \<le> j" "\<not> i + 1 \<le> j" for j
      using True that by (metis Suc_eq_plus1 le_antisym not_less_eq_eq)
    show ?thesis
      unfolding step using IH here by (auto split: option.splits)
  next
    case False
    then show ?thesis by (subst findBlank_from.simps) (auto simp: sparse_get_def)
  qed
qed

lemma isLeaf_iff: "isLeaf i \<longleftrightarrow> (\<exists>l. i = 2 * l)"
  by (auto simp: isLeaf_def)

lemma findBlank_Some:
  assumes "findBlankLeafNodeIndex t = Some b"
  obtains l where "b = 2 * l" "0 \<le> l" "b < int (length t)" "sparse_get t (2 * l) = None"
    "\<And>i. 0 \<le> i \<Longrightarrow> i < l \<Longrightarrow> sparse_get t (2 * i) \<noteq> None"
proof -
  from findBlank_from [where t = t and i = 0] assms
  have b: "0 \<le> b" "b < int (length t)" "sparse_get t b = None" "isLeaf b"
    "\<And>j. int j < b \<Longrightarrow> t ! j \<noteq> None \<or> \<not> isLeaf (int j)"
    by (auto simp: findBlankLeafNodeIndex_def)
  then obtain l where l: "b = 2 * l" by (auto simp: isLeaf_iff)
  have "sparse_get t (2 * i) \<noteq> None" if "0 \<le> i" "i < l" for i
    using b(5) [of "nat (2 * i)"] that b(2) l by (auto simp: sparse_get_def isLeaf_iff)
  then show ?thesis using that l b by simp
qed

lemma findBlank_None:
  assumes "findBlankLeafNodeIndex t = None" "0 \<le> l" "2 * l < int (length t)"
  shows "sparse_get t (2 * l) \<noteq> None"
  using findBlank_from [where t = t and i = 0] assms
  by (auto simp: findBlankLeafNodeIndex_def sparse_get_def isLeaf_iff dest!: spec [of _ "nat (2 * l)"])

text \<open>What an addition does to a well-formed tree that has a blank leaf.\<close>

definition addedAt :: "nat \<Rightarrow> ratchetTree \<Rightarrow> int \<Rightarrow> leafNode \<Rightarrow> ratchetTree \<Rightarrow> bool" where
  "addedAt d t l lf t' \<longleftrightarrow> length t' = length t \<and> sparse_get t' (2 * l) = Some (NodeLeaf lf) \<and>
     (\<forall>k m. inTree d k m \<longrightarrow> nodeAt k m \<noteq> 2 * l \<longrightarrow> sparse_get t' (nodeAt k m) =
       (if 0 < k \<and> l div 2 ^ k = m then appendUnmerged l (sparse_get t (nodeAt k m))
        else sparse_get t (nodeAt k m)))"

lemma addLeafNode_blank:
  assumes wf: "wfTree d t" and blank: "findBlankLeafNodeIndex t = Some (2 * l)"
  shows "\<exists>t'. addLeafNode t lf = Inr (t', 2 * l) \<and> addedAt d t l lf t'"
proof -
  obtain l' where "2 * l = 2 * l'" "0 \<le> l'" "2 * l < int (length t)" using findBlank_Some [OF blank] by metis
  then have l: "0 \<le> l" "2 * l < int (length t)" by auto
  note f = wfTree_full [OF wf]
  have l2: "l < 2 ^ d" using l full_length [OF f] by simp
  let ?path = "map (ancestorAt l 0) [1..<Suc d]"
  have path: "directPath (2 * l) (leafWidth (int (length t))) = Inr ?path"
    using full_leaf_path [OF f l(1) l2] by (simp add: leafToNodeIndex_def mult.commute)
  have "\<forall>i\<in>set ?path. 0 \<le> i \<and> i < int (length t) \<and> (\<forall>lf. sparse_get t i \<noteq> Some (NodeLeaf lf))"
  proof
    fix i assume i: "i \<in> set ?path"
    then have r: "0 \<le> i \<and> i < int (length t)" by (rule ancestor_range [OF f l(1) l2])
    then obtain k m where km: "inTree d k m" "i = nodeAt k m" by (meson full_index [OF f])
    then have "0 < k" using i ancestor_iff [OF km(1) l(1)] by simp
    then show "0 \<le> i \<and> i < int (length t) \<and> (\<forall>lf. sparse_get t i \<noteq> Some (NodeLeaf lf))"
      using r wfTree_at [OF wf km(1)] km(2) by (auto simp: okAt_def)
  qed
  from addUnmerged_get [OF this, of l] obtain c where
    c: "res_foldM (addUnmerged l t) t ?path = Inr c" "length c = length t"
    "\<And>j. sparse_get c j = (if j \<in> set ?path then appendUnmerged l (sparse_get t j) else sparse_get t j)"
    by blast
  let ?t' = "setNode c (2 * l) (Some (NodeLeaf lf))"
  have "addLeafNode t lf = Inr (?t', 2 * l)"
    using blank path c(1) by (simp add: addLeafNode_def nodeToLeafIndex_def isLeaf_iff)
  moreover have "addedAt d t l lf ?t'"
    unfolding addedAt_def
  proof (intro conjI allI impI)
    fix k m assume km: "inTree d k m" and "nodeAt k m \<noteq> 2 * l"
    then show "sparse_get ?t' (nodeAt k m) = (if 0 < k \<and> l div 2 ^ k = m
        then appendUnmerged l (sparse_get t (nodeAt k m)) else sparse_get t (nodeAt k m))"
      using l c(2) ancestor_iff [OF km l(1)] by (simp only: sparse_get_setNode c(3) if_False)
  qed (use l c(2) in \<open>simp_all add: sparse_get_setNode\<close>)
  ultimately show ?thesis by blast
qed

lemma nodeAt_even: "inTree d k m \<Longrightarrow> nodeAt k m = 2 * l \<Longrightarrow> k = 0 \<and> m = l"
  using nodeAt_mod_2 [of k m] by (cases "k = 0") auto

lemma wfTree_add:
  assumes wf: "wfTree d t" and l: "0 \<le> l" "sparse_get t (2 * l) = None" and a: "addedAt d t l lf t'"
  shows "wfTree d t'"
proof -
  have len: "length t' = length t" and leaf: "sparse_get t' (2 * l) = Some (NodeLeaf lf)"
    and get: "\<And>k m. inTree d k m \<Longrightarrow> nodeAt k m \<noteq> 2 * l \<Longrightarrow> sparse_get t' (nodeAt k m) =
      (if 0 < k \<and> l div 2 ^ k = m then appendUnmerged l (sparse_get t (nodeAt k m))
       else sparse_get t (nodeAt k m))"
    using a by (auto simp: addedAt_def)
  note f = wfTree_full [OF wf]
  have keep: "sparse_get t' (2 * i) \<noteq> None" if "sparse_get t (2 * i) \<noteq> None" for i
  proof (cases "i = l")
    case False
    have "0 \<le> 2 * i" "2 * i < int (length t)" using that by (auto dest: sparse_get_eq_SomeD)
    then have "inTree d 0 i" using full_length [OF f] by (simp add: leaf_inTree)
    then show ?thesis using get [of 0 i] False that by simp
  qed (use leaf in simp)
  have "okAt t' k m n" if km: "inTree d k m" and n: "sparse_get t' (nodeAt k m) = Some n" for k m n
  proof (cases "nodeAt k m = 2 * l")
    case True
    then show ?thesis using nodeAt_even [OF km] n leaf by (auto simp: okAt_def)
  next
    case False
    show ?thesis
    proof (cases "0 < k \<and> l div 2 ^ k = m")
      case True
      then obtain n0 where n0: "sparse_get t (nodeAt k m) = Some n0" "appendUnmerged l (Some n0) = Some n"
        using get [OF km False] n by (cases "sparse_get t (nodeAt k m)") (auto simp: appendUnmerged_def)
      note ok = wfTree_at [OF wf km n0(1)]
      then obtain p where p: "n0 = NodeParent p" using True by (cases n0) (auto simp: okAt_def)
      have "l \<notin> set (pn_unmergedLeaves p)" using ok l(2) p by (auto simp: okAt_def)
      then show ?thesis using ok n0(2) p True leaf keep by (auto simp: okAt_def appendUnmerged_def)
    next
      case F: False
      then have "sparse_get t (nodeAt k m) = Some n" using get [OF km False] n by auto
      then have "okAt t k m n" by (rule wfTree_at [OF wf km])
      then show ?thesis using keep by (auto simp: okAt_def split: ratchetNode.splits)
    qed
  qed
  then show ?thesis using f len by (simp add: wfTree_def full_def)
qed

text \<open>Without a blank leaf the tree doubles, and the new leaf is the first of the right half.\<close>

lemma inTree_Suc_left: "inTree d k m \<Longrightarrow> inTree (Suc d) k m"
  by (simp add: inTree_def Suc_diff_le)

lemma wfTree_prefix:
  assumes wf: "wfTree d t" and len: "length t' = 2 ^ Suc (Suc d) - 1" "Suc d \<le> 29"
    and get: "\<And>i. i < int (length t) \<Longrightarrow> sparse_get t' i = sparse_get t i"
    and rest: "\<And>k m n. inTree (Suc d) k m \<Longrightarrow> int (length t) \<le> nodeAt k m \<Longrightarrow>
      sparse_get t' (nodeAt k m) = Some n \<Longrightarrow> okAt t' k m n"
  shows "wfTree (Suc d) t'"
proof -
  note f = wfTree_full [OF wf]
  have "okAt t' k m n" if km: "inTree (Suc d) k m" and n: "sparse_get t' (nodeAt k m) = Some n" for k m n
  proof (cases "int (length t) \<le> nodeAt k m")
    case True
    then show ?thesis by (rule rest [OF km _ n])
  next
    case False
    moreover have "0 \<le> nodeAt k m" using km by (simp add: inTree_def)
    ultimately obtain k' m' where "inTree d k' m'" "nodeAt k m = nodeAt k' m'"
      using full_index [OF f, of "nodeAt k m"] by (metis not_le)
    then have km': "inTree d k m" using nodeAt_inj [of k m k' m'] km by (auto simp: inTree_def)
    have "okAt t k m n" using wfTree_at [OF wf km'] get [of "nodeAt k m"] False n by simp
    moreover have "sparse_get t' (2 * l) \<noteq> None" if "sparse_get t (2 * l) \<noteq> None" for l
      using that get [of "2 * l"] sparse_get_eq_SomeD [of t "2 * l"] by auto
    ultimately show ?thesis by (auto simp: okAt_def split: ratchetNode.splits)
  qed
  then show ?thesis using len by (simp add: wfTree_def full_def)
qed

lemma extendTree_wf:
  assumes wf: "wfTree d t" and d: "Suc d \<le> 29"
  shows "\<exists>t'. extendTree t lf = Inr (t', 2 * 2 ^ d) \<and> wfTree (Suc d) t' \<and>
    (\<forall>i < int (length t). sparse_get t' i = sparse_get t i) \<and>
    (\<forall>i \<ge> int (length t). sparse_get t' i = (if i = 2 * 2 ^ d then Some (NodeLeaf lf) else None))"
proof -
  note f = wfTree_full [OF wf]
  have len: "length t = 2 ^ Suc d - 1" using f by (simp add: full_def)
  have pos: "(0 :: nat) < 2 ^ d" by simp
  let ?t' = "t @ [None, Some (NodeLeaf lf)] @ replicate (length t - 1) None"
  have ext: "extendTree t lf = Inr (?t', 2 * 2 ^ d)"
  proof -
    have "2 * (2 :: nat) ^ d \<noteq> 0" "int (length t) + 1 = 2 * 2 ^ d" using full_length [OF f] by simp_all
    moreover have "length t \<noteq> 0" unfolding len power_Suc using pos by arith
    ultimately show ?thesis by (simp add: extendTree_def)
  qed
  have low: "sparse_get ?t' i = sparse_get t i" if "i < int (length t)" for i
    using that by (auto simp: sparse_get_def nth_append)
  have high: "sparse_get ?t' i = (if i = 2 * 2 ^ d then Some (NodeLeaf lf) else None)" if "i \<ge> int (length t)" for i
  proof -
    define j where "j = nat (i - int (length t))"
    then have i: "i = int (length t + j)" using that by simp
    have "i = 2 * 2 ^ d \<longleftrightarrow> j = 1" using full_length [OF f] i by simp
    moreover have "sparse_get ?t' i = (if j = 1 then Some (NodeLeaf lf) else None)"
      unfolding i by (auto simp: sparse_get_def nth_append nth_Cons split: nat.splits)
    ultimately show ?thesis by simp
  qed
  have "wfTree (Suc d) ?t'"
  proof (rule wfTree_prefix [OF wf _ d low])
    have "length ?t' = length t + 2 + (length t - 1)" by simp
    then show "length ?t' = 2 ^ Suc (Suc d) - 1" using len pos unfolding power_Suc by linarith
    fix k m n
    assume "inTree (Suc d) k m" "int (length t) \<le> nodeAt k m" "sparse_get ?t' (nodeAt k m) = Some n"
    moreover from this have "nodeAt k m = 2 * 2 ^ d" "n = NodeLeaf lf" using high by (auto split: if_splits)
    ultimately show "okAt ?t' k m n" using nodeAt_even by (simp add: okAt_def)
  qed
  then show ?thesis using ext low high by blast
qed

section \<open>Updating and removing a leaf\<close>

text \<open>Both blank the direct path and write the leaf.\<close>

definition writtenAt :: "nat \<Rightarrow> ratchetTree \<Rightarrow> int \<Rightarrow> ratchetNode option \<Rightarrow> ratchetTree \<Rightarrow> bool" where
  "writtenAt d t l n t' \<longleftrightarrow> length t' = length t \<and> sparse_get t' (2 * l) = n \<and>
     (\<forall>k m. inTree d k m \<longrightarrow> nodeAt k m \<noteq> 2 * l \<longrightarrow> sparse_get t' (nodeAt k m) =
       (if 0 < k \<and> l div 2 ^ k = m then None else sparse_get t (nodeAt k m)))"

lemma writtenAt_blankPath:
  assumes f: "full d t" and l: "0 \<le> l" "l < 2 ^ d"
  shows "writtenAt d t l n (setNode (blankPath t (map (ancestorAt l 0) [1..<Suc d])) (leafToNodeIndex l) n)"
proof -
  let ?path = "map (ancestorAt l 0) [1..<Suc d]"
  have "\<forall>i\<in>set ?path. 0 \<le> i \<and> i < int (length t)"
    using ancestor_range [OF f l] by blast
  note b = blankPath_get [OF this]
  have i: "0 \<le> 2 * l" "2 * l < int (length t)" using l full_length [OF f] by simp_all
  show ?thesis
    unfolding writtenAt_def leafToNodeIndex_def mult.commute [of l 2]
  proof (intro conjI allI impI)
    fix k m assume km: "inTree d k m" "nodeAt k m \<noteq> 2 * l"
    then show "sparse_get (setNode (blankPath t ?path) (2 * l) n) (nodeAt k m) =
        (if 0 < k \<and> l div 2 ^ k = m then None else sparse_get t (nodeAt k m))"
      using i b ancestor_iff [OF km(1) l(1)] by (simp only: sparse_get_setNode if_False)
  qed (use i b in \<open>simp_all add: sparse_get_setNode\<close>)
qed

lemma wfTree_write:
  assumes wf: "wfTree d t" and w: "writtenAt d t l n t'" and n: "\<forall>p. n \<noteq> Some (NodeParent p)"
  shows "wfTree d t'"
proof -
  have len: "length t' = length t" and leaf: "sparse_get t' (2 * l) = n"
    and get: "\<And>k m. inTree d k m \<Longrightarrow> nodeAt k m \<noteq> 2 * l \<Longrightarrow> sparse_get t' (nodeAt k m) =
      (if 0 < k \<and> l div 2 ^ k = m then None else sparse_get t (nodeAt k m))"
    using w by (auto simp: writtenAt_def)
  note f = wfTree_full [OF wf]
  have "okAt t' k m nd" if km: "inTree d k m" and nd: "sparse_get t' (nodeAt k m) = Some nd" for k m nd
  proof (cases "nodeAt k m = 2 * l")
    case True
    then show ?thesis using nodeAt_even [OF km] nd leaf n by (cases nd) (auto simp: okAt_def)
  next
    case False
    then have old: "sparse_get t (nodeAt k m) = Some nd" "\<not> (0 < k \<and> l div 2 ^ k = m)"
      using get [OF km] nd by (auto split: if_splits)
    note ok = wfTree_at [OF wf km old(1)]
    show ?thesis
    proof (cases nd)
      case (NodeParent p)
      have "sparse_get t' (2 * u) \<noteq> None" if u: "u \<in> set (pn_unmergedLeaves p)" for u
      proof -
        have nb: "sparse_get t (2 * u) \<noteq> None" and "u div 2 ^ k = m" "0 < k"
          using ok NodeParent u by (auto simp: okAt_def)
        then have "u \<noteq> l" using old(2) by auto
        moreover have "0 \<le> 2 * u" "2 * u < int (length t)" using nb by (auto dest: sparse_get_eq_SomeD)
        then have "inTree d 0 u" using full_length [OF f] by (simp add: leaf_inTree)
        ultimately show ?thesis using get [of 0 u] nb by simp
      qed
      then show ?thesis using ok NodeParent by (auto simp: okAt_def)
    qed (use ok in \<open>simp add: okAt_def\<close>)
  qed
  then show ?thesis using f len by (simp add: wfTree_def full_def)
qed

lemma updateLeafNode_spec:
  assumes "full d t" "0 \<le> l" "l < 2 ^ d"
  shows "\<exists>t'. updateLeafNode t lf l = Inr t' \<and> writtenAt d t l (Some (NodeLeaf lf)) t'"
  using full_leaf_path [OF assms] writtenAt_blankPath [OF assms]
  by (auto simp: updateLeafNode_def simp del: upt_Suc)

lemma removeLeafNode_spec:
  assumes "full d t" "0 \<le> l" "l < 2 ^ d"
  shows "\<exists>t'. removeLeafNode t l = condenseRatchetTreeAfterRemove t' \<and> writtenAt d t l None t'"
  using full_leaf_path [OF assms] writtenAt_blankPath [OF assms]
  by (auto simp: removeLeafNode_def simp del: upt_Suc)

text \<open>Condensing cuts trailing blanks down to the smallest full tree, or refuses an empty one.\<close>

lemma condense_full:
  assumes f: "full d t" and ne: "\<exists>i. sparse_get t i \<noteq> None"
  shows "\<exists>e t'. condenseRatchetTreeAfterRemove t = Inr t' \<and> e \<le> d \<and> compactTree e t' \<and>
    (\<forall>i. sparse_get t' i = sparse_get t i)"
proof -
  obtain k where k: "t = stripBlankNodes t @ replicate k None"
    "stripBlankNodes t = [] \<or> sparse_get (stripBlankNodes t) (int (length (stripBlankNodes t)) - 1) \<noteq> None"
    by (rule stripBlankNodes_split)
  let ?s = "stripBlankNodes t"
  have get: "sparse_get t i = sparse_get ?s i" for i using sparse_get_append_None [of ?s k i] k(1) by simp
  have nonempty: "?s \<noteq> []"
  proof
    assume "?s = []"
    then have "sparse_get t i = None" for i using get [of i] by simp
    then show False using ne by simp
  qed
  then have last: "sparse_get ?s (int (length ?s) - 1) \<noteq> None" using k(2) by simp
  have le: "length ?s \<le> length t" using arg_cong [OF k(1), of length] by simp
  have "(2 :: nat) ^ Suc d \<le> 2 ^ 30" using f by (intro power_increasing) (auto simp: full_def)
  then have "length ?s < 2 ^ 30" using le f by (simp add: full_def)
  then obtain e where e: "e \<le> 29" "2 ^ e - 1 < length ?s" "length ?s \<le> 2 ^ Suc e - 1"
    using depth_exists [of "length ?s"] nonempty by auto
  let ?t' = "?s @ replicate (2 ^ Suc e - 1 - length ?s) None"
  have "extendRatchetTree ?s = Inr ?t'" by (rule extendRatchetTree_full [OF last e])
  then have "condenseRatchetTreeAfterRemove t = Inr ?t'"
    using nonempty by (simp add: condenseRatchetTreeAfterRemove_def Let_def)
  moreover have "compactTree e ?t'"
    using strip_extended [OF last] e by (simp add: compactTree_def full_def)
  moreover have "e \<le> d"
  proof (rule ccontr)
    assume "\<not> e \<le> d"
    then have "(2 :: nat) ^ Suc d \<le> 2 ^ e" by (intro power_increasing) auto
    then show False using e(2) le f by (simp add: full_def)
  qed
  moreover have "sparse_get ?t' i = sparse_get t i" for i by (simp only: sparse_get_append_None get)
  ultimately show ?thesis by blast
qed

lemma condense_empty:
  assumes "\<And>i. sparse_get t i = None"
  shows "condenseRatchetTreeAfterRemove t = Inl ValidationError"
proof -
  have "t ! i = None" if "i < length t" for i using assms [of "int i"] that by (simp add: sparse_get_nth)
  then have "t = replicate (length t) None" by (intro nth_equalityI) simp_all
  then have "stripBlankNodes t = []" by (intro stripBlankNodes_eqI) auto
  then show ?thesis by (simp add: condenseRatchetTreeAfterRemove_def)
qed

lemma wfTree_same_nodes:
  assumes wf: "wfTree d t" and f: "full e t'" "e \<le> d" and get: "\<And>i. sparse_get t' i = sparse_get t i"
  shows "wfTree e t'"
proof -
  have "okAt t' k m n" if km: "inTree e k m" and n: "sparse_get t' (nodeAt k m) = Some n" for k m n
  proof -
    have "(2 :: int) ^ (e - k) \<le> 2 ^ (d - k)" using f(2) by (intro power_increasing) auto
    then have "inTree d k m" using km f(2) unfolding inTree_def by linarith
    then have "okAt t k m n" using wfTree_at [OF wf] n get by simp
    then show ?thesis by (auto simp: okAt_def get split: ratchetNode.splits)
  qed
  then show ?thesis using f by (simp add: wfTree_def)
qed

section \<open>Resolutions\<close>

text \<open>
  \<open>reaches t i l\<close>: whoever sits at leaf \<open>l\<close> holds the private key of node \<open>i\<close>, as the leaf
  itself or as a merged leaf below a parent.
\<close>

definition reaches :: "ratchetTree \<Rightarrow> int \<Rightarrow> int \<Rightarrow> bool" where
  "reaches t i l \<longleftrightarrow> i = 2 * l \<or> (\<exists>j p. 0 < j \<and> i = nodeAt j (l div 2 ^ j) \<and>
     sparse_get t i = Some (NodeParent p) \<and> l \<notin> set (pn_unmergedLeaves p))"

definition under :: "nat \<Rightarrow> int \<Rightarrow> int \<Rightarrow> bool" where
  "under k m i \<longleftrightarrow> (\<exists>j q. j \<le> k \<and> 0 \<le> q \<and> i = nodeAt j q \<and> q div 2 ^ (k - j) = m)"

definition goodResolution :: "ratchetTree \<Rightarrow> nat \<Rightarrow> int \<Rightarrow> int list \<Rightarrow> bool" where
  "goodResolution t k m r \<longleftrightarrow> distinct r \<and>
     (\<forall>i\<in>set r. sparse_get t i \<noteq> None \<and> under k m i) \<and>
     (\<forall>l. l div 2 ^ k = m \<longrightarrow> sparse_get t (2 * l) \<noteq> None \<longrightarrow> (\<exists>i\<in>set r. reaches t i l))"

lemma under_self: "0 \<le> m \<Longrightarrow> under k m (nodeAt k m)"
  by (auto simp: under_def)

lemma under_leaf: "0 \<le> l \<Longrightarrow> under k (l div 2 ^ k) (2 * l)"
  unfolding under_def by (rule exI [of _ 0], rule exI [of _ l]) simp

lemma under_child:
  assumes "under k m i"
  shows "under (Suc k) (m div 2) i"
proof -
  obtain j q where j: "j \<le> k" "0 \<le> q" "i = nodeAt j q" "q div 2 ^ (k - j) = m"
    using assms by (auto simp: under_def)
  have "q div 2 ^ (Suc k - j) = q div 2 ^ (k - j) div 2"
    using j(1) by (simp only: Suc_diff_le power_Suc2 zdiv_zmult2_eq)
  then show ?thesis using j unfolding under_def by (metis le_SucI)
qed

lemma under_disjoint:
  assumes "under k m i" "under k n i"
  shows "m = n"
proof -
  obtain j q where j: "i = nodeAt j q" "0 \<le> q" "q div 2 ^ (k - j) = m" using assms(1) by (auto simp: under_def)
  obtain j' q' where j': "i = nodeAt j' q'" "0 \<le> q'" "q' div 2 ^ (k - j') = n"
    using assms(2) by (auto simp: under_def)
  have "nodeAt j q = nodeAt j' q'" using j(1) j'(1) by simp
  then have "j = j' \<and> q = q'" using j(2) j'(2) by (rule nodeAt_inj)
  then show ?thesis using j(3) j'(3) by simp
qed

lemma resolution_good:
  assumes wf: "wfTree d t"
  shows "inTree d k m \<Longrightarrow> \<exists>r. resolution t (nodeAt k m) = Inr r \<and> goodResolution t k m r"
proof (induction k arbitrary: m)
  case (0 m)
  show ?case
  proof (cases "sparse_get t (nodeAt 0 m)")
    case None
    then have "resolution t (nodeAt 0 m) = Inr []" by (subst resolution.simps) (simp add: isLeaf_iff)
    then show ?thesis using None by (simp add: goodResolution_def)
  next
    case (Some n)
    then have "resolution t (nodeAt 0 m) = Inr [nodeAt 0 m]" by (subst resolution.simps) (simp add: isLeaf_iff)
    moreover have "goodResolution t 0 m [nodeAt 0 m]"
      using Some under_self [of m 0] "0.prems" by (simp add: goodResolution_def reaches_def inTree_def)
    ultimately show ?thesis by blast
  qed
next
  case (Suc k m)
  note f = wfTree_full [OF wf]
  have d: "d \<le> 30" using f by (simp add: full_def)
  have m: "0 \<le> m" using Suc.prems by (simp add: inTree_def)
  show ?case
  proof (cases "sparse_get t (nodeAt (Suc k) m)")
    case (Some n)
    note ok = wfTree_at [OF wf Suc.prems Some]
    then obtain p where p: "n = NodeParent p" by (cases n) (auto simp: okAt_def)
    let ?r = "nodeAt (Suc k) m # map leafToNodeIndex (pn_unmergedLeaves p)"
    have "resolution t (nodeAt (Suc k) m) = Inr ?r" using Some p by (subst resolution.simps) simp
    moreover have "goodResolution t (Suc k) m ?r"
      unfolding goodResolution_def
    proof (intro conjI ballI allI impI)
      have inj: "inj leafToNodeIndex" by (rule injI) (simp add: leafToNodeIndex_def)
      have "nodeAt (Suc k) m \<noteq> leafToNodeIndex l" for l
        using nodeAt_even [OF Suc.prems, of l] by (auto simp: leafToNodeIndex_def mult.commute)
      then show "distinct ?r" using ok p inj by (auto simp: okAt_def distinct_map inj_on_def)
    next
      fix i assume "i \<in> set ?r"
      then consider "i = nodeAt (Suc k) m" | l where "l \<in> set (pn_unmergedLeaves p)" "i = 2 * l"
        by (auto simp: leafToNodeIndex_def)
      then have "sparse_get t i \<noteq> None \<and> under (Suc k) m i"
      proof cases
        case 1
        then show ?thesis using Some under_self [OF m] by simp
      next
        case (2 l)
        then have "sparse_get t (2 * l) \<noteq> None" "l div 2 ^ Suc k = m" using ok p by (auto simp: okAt_def)
        moreover from this(1) have "0 \<le> l" by (auto dest: sparse_get_eq_SomeD)
        ultimately show ?thesis using under_leaf [of l "Suc k"] 2(2) by simp
      qed
      then show "sparse_get t i \<noteq> None" "under (Suc k) m i" by simp_all
    next
      fix l assume l: "l div 2 ^ Suc k = m" "sparse_get t (2 * l) \<noteq> None"
      show "\<exists>i\<in>set ?r. reaches t i l"
      proof (cases "l \<in> set (pn_unmergedLeaves p)")
        case True
        then have "2 * l \<in> set ?r" by (auto simp: leafToNodeIndex_def image_iff)
        then show ?thesis unfolding reaches_def by blast
      next
        case False
        then have "reaches t (nodeAt (Suc k) m) l" using Some p l(1) unfolding reaches_def by auto
        then show ?thesis by simp
      qed
    qed
    ultimately show ?thesis by blast
  next
    case None
    note c = inTree_children [OF Suc.prems]
    obtain r1 r2 where r: "resolution t (nodeAt k (2 * m)) = Inr r1" "goodResolution t k (2 * m) r1"
      "resolution t (nodeAt k (2 * m + 1)) = Inr r2" "goodResolution t k (2 * m + 1) r2"
      using Suc.IH [OF c(1)] Suc.IH [OF c(2)] by blast
    have small: "nodeAt (Suc k) m < 2147483648" "k \<le> 29"
      using inTree_small [OF Suc.prems d] Suc.prems d by (auto simp: inTree_def)
    have "resolution t (nodeAt (Suc k) m) = Inr (r1 @ r2)"
      using None r left_nodeAt [OF m small(1)] right_nodeAt [OF m small] by (subst resolution.simps) simp
    moreover have "goodResolution t (Suc k) m (r1 @ r2)"
      unfolding goodResolution_def
    proof (intro conjI ballI allI impI)
      have "set r1 \<inter> set r2 = {}"
      proof (rule ccontr)
        assume "set r1 \<inter> set r2 \<noteq> {}"
        then obtain i where "i \<in> set r1" "i \<in> set r2" by blast
        then have "under k (2 * m) i" "under k (2 * m + 1) i" using r(2,4) by (auto simp: goodResolution_def)
        then have "2 * m = 2 * m + 1" by (rule under_disjoint)
        then show False by simp
      qed
      then show "distinct (r1 @ r2)" using r by (auto simp: goodResolution_def)
    next
      fix i assume "i \<in> set (r1 @ r2)"
      then have "sparse_get t i \<noteq> None \<and> (under k (2 * m) i \<or> under k (2 * m + 1) i)"
        using r(2,4) by (auto simp: goodResolution_def)
      then show "sparse_get t i \<noteq> None" "under (Suc k) m i"
        using under_child [of k "2 * m" i] under_child [of k "2 * m + 1" i] by auto
    next
      fix l assume l: "l div 2 ^ Suc k = m" "sparse_get t (2 * l) \<noteq> None"
      have "l div 2 ^ k div 2 = m" using l(1) by (simp only: power_Suc2 zdiv_zmult2_eq zero_le_numeral)
      moreover have "x = 2 * m \<or> x = 2 * m + 1" if "x div 2 = m" for x :: int using that by presburger
      ultimately have "l div 2 ^ k = 2 * m \<or> l div 2 ^ k = 2 * m + 1" by blast
      then show "\<exists>i\<in>set (r1 @ r2). reaches t i l"
        using r(2,4) l(2) by (auto simp: goodResolution_def)
    qed
    ultimately show ?thesis by blast
  qed
qed

lemma resolution_empty_iff:
  assumes "goodResolution t k m r"
  shows "r = [] \<Longrightarrow> l div 2 ^ k = m \<Longrightarrow> sparse_get t (2 * l) = None"
  using assms by (auto simp: goodResolution_def)

section \<open>Filtered direct paths\<close>

lemma filtered_agree:
  "filteredDirectPath l t = res_map (map fst) (filteredDirectPathAndCopathResolution l t)"
proof -
  let ?f = "\<lambda>acc (nodeIndex, c). res_bind (resolution t c) (\<lambda>r. Inr (if length r \<noteq> 0 then acc @ [nodeIndex] else acc))"
  let ?g = "\<lambda>acc (cur, c). res_bind (resolution t c) (\<lambda>r. Inr (if length r = 0 then acc else acc @ [(cur, r)]))"
  have "res_foldM ?f (map fst acc) zs = res_map (map fst) (res_foldM ?g acc zs)" for acc zs
  proof (induction zs arbitrary: acc)
    case (Cons z zs)
    obtain i c where z: "z = (i, c)" by (cases z)
    show ?case
    proof (cases "resolution t c")
      case (Inr r)
      then show ?thesis using Cons.IH [of acc] Cons.IH [of "acc @ [(i, r)]"] z by simp
    qed (simp add: z)
  qed simp
  from this [of "[]"] show ?thesis
    by (cases "copath (leafToNodeIndex l) (leafWidth (int (length t)))";
        cases "directPath (leafToNodeIndex l) (leafWidth (int (length t)))")
      (simp_all add: filteredDirectPath_def filteredDirectPathAndCopathResolution_def)
qed

lemma filtered_foldM:
  assumes "\<And>c. c \<in> snd ` set zs \<Longrightarrow> resolution t c = Inr (R c)"
  shows "res_foldM (\<lambda>acc (cur, c). res_bind (resolution t c) (\<lambda>r.
      Inr (if length r = 0 then acc else acc @ [(cur, r)]))) acc zs
    = Inr (acc @ filter (\<lambda>(_, r). r \<noteq> []) (map (\<lambda>(cur, c). (cur, R c)) zs))"
  using assms by (induction zs arbitrary: acc) auto

text \<open>
  On a well-formed tree both functions return: the direct path, without the nodes whose
  copath child has an empty resolution.
\<close>

definition resolutionOf :: "ratchetTree \<Rightarrow> int \<Rightarrow> int list" where
  "resolutionOf t i = (case resolution t i of Inr r \<Rightarrow> r | Inl _ \<Rightarrow> [])"

lemma inTree_flip:
  assumes "inTree d k m" "k < d"
  shows "inTree d k (flip m)"
proof -
  have e: "even ((2 :: int) ^ (d - k))" using assms(2) by simp
  have up: "m + 1 < X" if "even m" "even X" "m < X" for X :: int using that by presburger
  have down: "0 \<le> m - 1" if "odd m" "0 \<le> m" using that by presburger
  show ?thesis using assms up [OF _ e] down by (auto simp: inTree_def flip_def)
qed

lemma filtered_spec:
  assumes wf: "wfTree d t" and l: "0 \<le> l" "l < 2 ^ d"
  shows "filteredDirectPathAndCopathResolution l t = Inr (filter (\<lambda>(_, r). r \<noteq> [])
    (map (\<lambda>j. (ancestorAt l 0 (Suc j), resolutionOf t (copathAt l 0 j))) [0..<d]))"
proof -
  note f = wfTree_full [OF wf]
  have d: "d \<le> 30" using f by (simp add: full_def)
  have leaf: "inTree d 0 l" using l by (simp add: leaf_inTree)
  have dp: "directPath (leafToNodeIndex l) (leafWidth (int (length t))) = Inr (map (ancestorAt l 0) [1..<Suc d])"
    by (rule full_leaf_path [OF f l])
  have cp: "copath (leafToNodeIndex l) (leafWidth (int (length t))) = Inr (map (copathAt l 0) [0..<d])"
    using copath_nodeAt [OF leaf d] full_leafWidth [OF f] by (simp add: leafToNodeIndex_def mult.commute)
  have zip: "zip (map (ancestorAt l 0) [1..<Suc d]) (map (copathAt l 0) [0..<d]) =
      map (\<lambda>j. (ancestorAt l 0 (Suc j), copathAt l 0 j)) [0..<d]"
    by (rule nth_equalityI) (simp_all add: nth_append del: upt_Suc)
  have res: "resolution t (copathAt l 0 j) = Inr (resolutionOf t (copathAt l 0 j))" if "j < d" for j
  proof -
    have "inTree d j (flip (l div 2 ^ (j - 0)))"
      using inTree_flip [OF inTree_ancestor [OF leaf, of j]] that by simp
    then obtain r where "resolution t (nodeAt j (flip (l div 2 ^ (j - 0)))) = Inr r"
      using resolution_good [OF wf] by blast
    then show ?thesis by (simp add: copathAt_def resolutionOf_def)
  qed
  show ?thesis
    unfolding filteredDirectPathAndCopathResolution_def Let_def cp dp res_bind_Inr zip
    by (subst filtered_foldM [where R = "resolutionOf t"]) (use res in \<open>auto simp: comp_def\<close>)
qed

section \<open>Trees reachable by operations on leaves\<close>

lemma updateLeafNode_range:
  assumes "full d t" "updateLeafNode t lf l = Inr t' \<or> removeLeafNode t l = Inr t'"
  shows "0 \<le> l \<and> l < 2 ^ d"
proof -
  have "directPath (leafToNodeIndex l) (2 ^ d) \<noteq> Inl ValidationError"
    using assms(2) full_leafWidth [OF assms(1)] by (auto simp: updateLeafNode_def removeLeafNode_def Let_def)
  then have "\<not> (l * 2 < 0 \<or> l * 2 \<ge> 2 ^ Suc d - 1)"
    by (auto simp: directPath_def leafToNodeIndex_def nodeWidth_pow2 Let_def)
  then show ?thesis by auto
qed

inductive reachableTree :: "ratchetTree \<Rightarrow> bool" where
  founded: "reachableTree [Some (NodeLeaf lf)]"
| added: "reachableTree t \<Longrightarrow> addLeafNode t lf = Inr (t', i) \<Longrightarrow> length t' < 2 ^ 30 \<Longrightarrow> reachableTree t'"
| updated: "reachableTree t \<Longrightarrow> updateLeafNode t lf l = Inr t' \<Longrightarrow> reachableTree t'"
| removed: "reachableTree t \<Longrightarrow> removeLeafNode t l = Inr t' \<Longrightarrow> reachableTree t'"

lemma wfTree_single: "wfTree 0 [Some (NodeLeaf lf)]"
  by (auto simp: wfTree_def full_def okAt_def inTree_def sparse_get_def)

lemma addLeafNode_wf:
  assumes wf: "wfTree d t" and add: "addLeafNode t lf = Inr (t', i)" and small: "length t' < 2 ^ 30"
  shows "\<exists>e. wfTree e t'"
proof (cases "findBlankLeafNodeIndex t")
  case (Some b)
  then obtain l where l: "b = 2 * l" "0 \<le> l" "sparse_get t (2 * l) = None" by (rule findBlank_Some)
  then show ?thesis using addLeafNode_blank [OF wf, of l lf] wfTree_add [OF wf l(2,3)] Some add by auto
next
  case None
  then have ext: "extendTree t lf = Inr (t', i)" using add by (simp add: addLeafNode_def)
  have "length t \<noteq> 0 \<and> length t' = length t + 2 + (length t - 1)"
    using ext by (auto simp: extendTree_def split: if_splits)
  then have "length t' = 2 * length t + 1" by arith
  moreover have "length t = 2 ^ Suc d - 1" "(1 :: nat) \<le> 2 ^ d"
    using wfTree_full [OF wf] by (simp_all add: full_def)
  ultimately have len: "length t' = 2 ^ Suc (Suc d) - 1" unfolding power_Suc by linarith
  have "Suc d \<le> 29"
  proof (rule ccontr)
    assume "\<not> Suc d \<le> 29"
    then have "(2 :: nat) ^ 31 \<le> 2 ^ Suc (Suc d)" by (intro power_increasing) auto
    with small len show False by simp
  qed
  then show ?thesis using extendTree_wf [OF wf, of lf] ext by auto
qed

lemma removeLeafNode_wf:
  assumes wf: "wfTree d t" and rm: "removeLeafNode t l = Inr t'"
  shows "\<exists>e \<le> d. wfTree e t' \<and> compactTree e t'"
proof -
  note f = wfTree_full [OF wf]
  have l: "0 \<le> l" "l < 2 ^ d" using updateLeafNode_range [OF f] rm by blast+
  obtain c where c: "removeLeafNode t l = condenseRatchetTreeAfterRemove c" "writtenAt d t l None c"
    using removeLeafNode_spec [OF f l] by blast
  have wfc: "wfTree d c" by (rule wfTree_write [OF wf c(2)]) simp
  have "\<exists>i. sparse_get c i \<noteq> None" using condense_empty [of c] c(1) rm by (cases "\<exists>i. sparse_get c i \<noteq> None") auto
  from condense_full [OF wfTree_full [OF wfc] this]
  obtain e where e: "e \<le> d" "compactTree e t'" "\<And>i. sparse_get t' i = sparse_get c i" using c(1) rm by auto
  have "wfTree e t'" by (rule wfTree_same_nodes [OF wfc _ e(1,3)]) (use e(2) in \<open>simp add: compactTree_def\<close>)
  then show ?thesis using e by blast
qed

lemma reachableTree_wf: "reachableTree t \<Longrightarrow> \<exists>d. wfTree d t"
proof (induction rule: reachableTree.induct)
  case (founded lf)
  then show ?case using wfTree_single by blast
next
  case (added t lf t' i)
  then show ?case using addLeafNode_wf by blast
next
  case (updated t lf l t')
  then obtain d where wf: "wfTree d t" by blast
  have l: "0 \<le> l" "l < 2 ^ d" using updateLeafNode_range [OF wfTree_full [OF wf]] updated by blast+
  then show ?case
    using updateLeafNode_spec [OF wfTree_full [OF wf] l, of lf] wfTree_write [OF wf] updated(2) by auto
next
  case (removed t l t')
  then show ?case using removeLeafNode_wf by blast
qed

end
