(* ===== verification/TreeHash.thy ===== *)
theory TreeHash imports RatchetTreeLaws begin

text \<open>
  Tree hashes and their cache, \<^verbatim>\<open>src/tree-hash.ts\<close>.  The sources keep the subtree hashes of
  every tree array they have hashed in a \<open>WeakMap\<close>, with the hash function that computed
  them.  Here the entry of a tree is passed and returned explicitly: \<open>None\<close> for a tree that
  was never hashed, otherwise the hash function and its hashes by node index.  The hash
  functions are values of a type \<open>'h\<close>, compared by identity in the sources; \<open>digest\<close> gives the
  function each stands for.

  \<open>treeHashSpec\<close> is the hash of RFC 9420 without a cache; \<open>validEntry\<close> says that an entry
  holds only those hashes.  Computing a hash and carrying an entry over to a changed tree
  keep entries valid, so the cache is never observable.
\<close>

section \<open>Hash inputs\<close>

record leafNodeHashInput =
  lh_leafIndex :: int
  lh_leafNode :: "leafNode option"

record parentNodeHashInput =
  ph_parentNode :: "parentNode option"
  ph_leftHash :: bytes
  ph_rightHash :: bytes

datatype treeHashInput = LeafHashInput leafNodeHashInput | ParentHashInput parentNodeHashInput

definition encodeLeafNodeHashInput :: "leafNodeHashInput encoder" where
  "encodeLeafNodeHashInput = contramapEncoders
     (encPair encodeNodeType (encPair encodeUint32 (encodeOptional encodeLeafNode)))
     (\<lambda>i. (NT_leaf, lh_leafIndex i, lh_leafNode i))"

definition decodeLeafNodeHashInput :: "leafNodeHashInput decoder" where
  "decodeLeafNodeHashInput = mapDecoders (decPair decodeUint32 (decodeOptional decodeLeafNode))
     (\<lambda>(leafIndex, leafNode). \<lparr>lh_leafIndex = leafIndex, lh_leafNode = leafNode\<rparr>)"

definition encodeParentNodeHashInput :: "parentNodeHashInput encoder" where
  "encodeParentNodeHashInput = contramapEncoders
     (encPair encodeNodeType (encPair (encodeOptional encodeParentNode) (encPair encodeVarLenData encodeVarLenData)))
     (\<lambda>i. (NT_parent, ph_parentNode i, ph_leftHash i, ph_rightHash i))"

definition decodeParentNodeHashInput :: "parentNodeHashInput decoder" where
  "decodeParentNodeHashInput = mapDecoders
     (decPair (decodeOptional decodeParentNode) (decPair decodeVarLenData decodeVarLenData))
     (\<lambda>(parentNode, leftHash, rightHash).
       \<lparr>ph_parentNode = parentNode, ph_leftHash = leftHash, ph_rightHash = rightHash\<rparr>)"

definition encodeTreeHashInput :: "treeHashInput encoder" where
  "encodeTreeHashInput input = (case input of
     LeafHashInput i \<Rightarrow> encodeLeafNodeHashInput i | ParentHashInput i \<Rightarrow> encodeParentNodeHashInput i)"

definition decodeTreeHashInput :: "treeHashInput decoder" where
  "decodeTreeHashInput = flatMapDecoder decodeNodeType (\<lambda>nodeType. case nodeType of
     NT_leaf \<Rightarrow> mapDecoder decodeLeafNodeHashInput LeafHashInput
   | NT_parent \<Rightarrow> mapDecoder decodeParentNodeHashInput ParentHashInput)"

definition treeHashInputType :: "treeHashInput \<Rightarrow> nodeTypeName" where
  "treeHashInputType i = (case i of LeafHashInput _ \<Rightarrow> NT_leaf | ParentHashInput _ \<Rightarrow> NT_parent)"

definition okTreeHashInput :: "treeHashInput \<Rightarrow> bool" where
  "okTreeHashInput i = (case i of LeafHashInput l \<Rightarrow> (\<forall>n\<in>set_option (lh_leafNode l). okLeafNode n)
   | ParentHashInput _ \<Rightarrow> True)"

interpretation treeHashInput: item_codec okTreeHashInput encodeTreeHashInput decodeTreeHashInput
proof -
  let ?le = "contramapEncoders (encPair encodeUint32 (encodeOptional encodeLeafNode))
    (\<lambda>i. (lh_leafIndex i, lh_leafNode i))"
  let ?pe = "contramapEncoders (encPair (encodeOptional encodeParentNode) (encPair encodeVarLenData encodeVarLenData))
    (\<lambda>i. (ph_parentNode i, ph_leftHash i, ph_rightHash i))"
  let ?eb = "\<lambda>i. case i of LeafHashInput l \<Rightarrow> ?le l | ParentHashInput p \<Rightarrow> ?pe p"
  let ?ok = "\<lambda>t i. treeHashInputType i = t \<and> okTreeHashInput i"
  have le: "codec (\<lambda>l. \<forall>n\<in>set_option (lh_leafNode l). okLeafNode n) ?le decodeLeafNodeHashInput"
    unfolding decodeLeafNodeHashInput_def by (rule codec_record, (rule codec_intros)+) auto
  have pe: "codec (\<lambda>_. True) ?pe decodeParentNodeHashInput"
    unfolding decodeParentNodeHashInput_def by (rule codec_record, (rule codec_intros)+) auto
  have "item_codec (\<lambda>i. True \<and> ?ok (treeHashInputType i) i)
      (encTagged encodeNodeType treeHashInputType (\<lambda>_. ?eb)) decodeTreeHashInput"
    unfolding decodeTreeHashInput_def
  proof (rule item_tagged [OF nodeType.item_codec_axioms, where okb = ?ok and eb = "\<lambda>_. ?eb"])
    fix t
    show "codec (?ok t) ?eb (case t of NT_leaf \<Rightarrow> mapDecoder decodeLeafNodeHashInput LeafHashInput
       | NT_parent \<Rightarrow> mapDecoder decodeParentNodeHashInput ParentHashInput)"
      by (cases t; (simp only: nodeTypeName.case, rule codec_ctor_cong, (rule le pe), simp, simp,
          (case_tac u; auto simp: okTreeHashInput_def treeHashInputType_def)))
  qed auto
  then show "item_codec okTreeHashInput encodeTreeHashInput decodeTreeHashInput"
    by (rule item_cong)
      (auto simp: encTagged_def encodeTreeHashInput_def treeHashInputType_def encodeLeafNodeHashInput_def
        encodeParentNodeHashInput_def contramapEncoders_def encPair_def split: treeHashInput.splits)
qed

section \<open>The cache\<close>

type_synonym hashCache = "int \<Rightarrow> bytes option"
type_synonym 'h hashEntry = "'h \<times> hashCache"

definition hashesOf :: "'h hashEntry option \<Rightarrow> 'h \<Rightarrow> hashCache" where
  "hashesOf entry h = (case entry of Some (eh, hashes) \<Rightarrow> if eh = h then hashes else (\<lambda>_. None)
   | None \<Rightarrow> (\<lambda>_. None))"

function subtreeHash :: "(bytes \<Rightarrow> bytes) \<Rightarrow> ratchetTree \<Rightarrow> int \<Rightarrow> hashCache \<Rightarrow> (bytes \<times> hashCache) result" where
  "subtreeHash digest tree subtreeIndex cache = (case cache subtreeIndex of
     Some cached \<Rightarrow> Inr (cached, cache)
   | None \<Rightarrow>
       if isLeaf subtreeIndex then
         (case sparse_get tree subtreeIndex of
            Some (NodeParent _) \<Rightarrow> Inl InternalError
          | leafNode \<Rightarrow> res_bind (nodeToLeafIndex subtreeIndex) (\<lambda>leafIndex.
              res_bind (encodeLeafNodeHashInput \<lparr>lh_leafIndex = leafIndex,
                  lh_leafNode = (case leafNode of Some (NodeLeaf l) \<Rightarrow> Some l | _ \<Rightarrow> None)\<rparr>) (\<lambda>input.
                let hash = digest input in Inr (hash, cache(subtreeIndex \<mapsto> hash)))))
       else
         (case sparse_get tree subtreeIndex of
            Some (NodeLeaf _) \<Rightarrow> Inl InternalError
          | parentNode \<Rightarrow>
              res_bind (left subtreeIndex) (\<lambda>l.
              res_bind (subtreeHash digest tree l cache) (\<lambda>(leftHash, cache1).
              res_bind (right subtreeIndex) (\<lambda>r.
              res_bind (subtreeHash digest tree r cache1) (\<lambda>(rightHash, cache2).
              res_bind (encodeParentNodeHashInput
                  \<lparr>ph_parentNode = (case parentNode of Some (NodeParent p) \<Rightarrow> Some p | _ \<Rightarrow> None),
                   ph_leftHash = leftHash, ph_rightHash = rightHash\<rparr>) (\<lambda>input.
                let hash = digest input in Inr (hash, cache2(subtreeIndex \<mapsto> hash)))))))))"
  by pat_completeness auto
termination
  by (relation "measure (\<lambda>(digest, tree, i, cache). levelOf i)") (auto intro: child_levelOf)

declare subtreeHash.simps [simp del]

definition treeHash :: "('h \<Rightarrow> bytes \<Rightarrow> bytes) \<Rightarrow> ratchetTree \<Rightarrow> int \<Rightarrow> 'h \<Rightarrow> 'h hashEntry option \<Rightarrow>
    (bytes \<times> 'h hashEntry option) result" where
  "treeHash digest tree subtreeIndex h entry =
     res_map (\<lambda>(hash, cache). (hash, Some (h, cache)))
       (subtreeHash (digest h) tree subtreeIndex (hashesOf entry h))"

definition treeHashRoot :: "('h \<Rightarrow> bytes \<Rightarrow> bytes) \<Rightarrow> ratchetTree \<Rightarrow> 'h \<Rightarrow> 'h hashEntry option \<Rightarrow>
    (bytes \<times> 'h hashEntry option) result" where
  "treeHashRoot digest tree h entry = treeHash digest tree (rootFromNodeWidth (int (length tree))) h entry"

definition dropHashes :: "hashCache \<Rightarrow> int list \<Rightarrow> hashCache" where
  "dropHashes hashes path = foldl (\<lambda>hs i. hs(i := None)) hashes path"

text \<open>The entry of the new tree; \<open>None\<close> where the sources write none.\<close>

definition carryTreeHashes ::
    "'h hashEntry option \<Rightarrow> ratchetTree \<Rightarrow> ratchetTree \<Rightarrow> int list \<Rightarrow> 'h hashEntry option result" where
  "carryTreeHashes entry oldTree newTree changedLeaves = (case entry of
     None \<Rightarrow> Inr None
   | Some (h, hashes) \<Rightarrow>
       if length oldTree \<noteq> length newTree then Inr None
       else let width = leafWidth (int (length newTree)) in
         res_map (\<lambda>hashes'. Some (h, hashes'))
           (res_foldM (\<lambda>hashes leaf. let leafNode = leafToNodeIndex leaf in
              res_bind (directPath leafNode width) (\<lambda>path.
                Inr (dropHashes (hashes(leafNode := None)) path)))
            hashes changedLeaves))"

section \<open>The cache is not observable\<close>

function treeHashSpec :: "(bytes \<Rightarrow> bytes) \<Rightarrow> ratchetTree \<Rightarrow> int \<Rightarrow> bytes result" where
  "treeHashSpec digest tree i =
     (if isLeaf i then
        (case sparse_get tree i of
           Some (NodeParent _) \<Rightarrow> Inl InternalError
         | n \<Rightarrow> res_bind (nodeToLeafIndex i) (\<lambda>leafIndex.
             res_map digest (encodeLeafNodeHashInput \<lparr>lh_leafIndex = leafIndex,
               lh_leafNode = (case n of Some (NodeLeaf l) \<Rightarrow> Some l | _ \<Rightarrow> None)\<rparr>)))
      else
        (case sparse_get tree i of
           Some (NodeLeaf _) \<Rightarrow> Inl InternalError
         | n \<Rightarrow> res_bind (left i) (\<lambda>l. res_bind (treeHashSpec digest tree l) (\<lambda>leftHash.
             res_bind (right i) (\<lambda>r. res_bind (treeHashSpec digest tree r) (\<lambda>rightHash.
               res_map digest (encodeParentNodeHashInput
                 \<lparr>ph_parentNode = (case n of Some (NodeParent p) \<Rightarrow> Some p | _ \<Rightarrow> None),
                  ph_leftHash = leftHash, ph_rightHash = rightHash\<rparr>)))))))"
  by pat_completeness auto
termination
  by (relation "measure (\<lambda>(digest, tree, i). levelOf i)") (auto intro: child_levelOf)

declare treeHashSpec.simps [simp del]

definition validCache :: "(bytes \<Rightarrow> bytes) \<Rightarrow> ratchetTree \<Rightarrow> hashCache \<Rightarrow> bool" where
  "validCache digest tree c \<longleftrightarrow> (\<forall>i v. c i = Some v \<longrightarrow>
     0 \<le> i \<and> i < int (length tree) \<and> treeHashSpec digest tree i = Inr v)"

definition validEntry :: "('h \<Rightarrow> bytes \<Rightarrow> bytes) \<Rightarrow> ratchetTree \<Rightarrow> 'h hashEntry option \<Rightarrow> bool" where
  "validEntry digest tree entry = (case entry of None \<Rightarrow> True | Some (h, c) \<Rightarrow> validCache (digest h) tree c)"

lemma validCache_empty [simp]: "validCache digest tree (\<lambda>_. None)"
  by (simp add: validCache_def)

lemma validCache_upd:
  "validCache digest tree c \<Longrightarrow> 0 \<le> i \<Longrightarrow> i < int (length tree) \<Longrightarrow> treeHashSpec digest tree i = Inr v \<Longrightarrow>
   validCache digest tree (c(i \<mapsto> v))"
  by (auto simp: validCache_def)

definition cacheAgrees :: "(bytes \<Rightarrow> bytes) \<Rightarrow> ratchetTree \<Rightarrow> int \<Rightarrow> (bytes \<times> hashCache) result \<Rightarrow> bool" where
  "cacheAgrees digest tree i r = (case r of
     Inl e \<Rightarrow> treeHashSpec digest tree i = Inl e
   | Inr (v, c) \<Rightarrow> treeHashSpec digest tree i = Inr v \<and> validCache digest tree c)"

lemma subtreeHash_agrees:
  assumes f: "full d t"
  shows "inTree d k m \<Longrightarrow> validCache digest t c \<Longrightarrow>
    cacheAgrees digest t (nodeAt k m) (subtreeHash digest t (nodeAt k m) c)"
proof (induction k arbitrary: m c)
  case (0 m c)
  note i = inTree_index [OF f "0.prems"(1)]
  show ?case
  proof (cases "c (nodeAt 0 m)")
    case (Some v)
    then show ?thesis using "0.prems"(2)
      by (subst subtreeHash.simps) (simp add: cacheAgrees_def validCache_def)
  next
    case None
    have leaf: "isLeaf (nodeAt 0 m)" by (simp add: isLeaf_def)
    let ?n = "sparse_get t (nodeAt 0 m)"
    let ?in = "\<lparr>lh_leafIndex = nodeAt 0 m div 2, lh_leafNode = (case ?n of Some (NodeLeaf l) \<Rightarrow> Some l | _ \<Rightarrow> None)\<rparr>"
    show ?thesis
    proof (cases "\<exists>p. ?n = Some (NodeParent p)")
      case True
      then show ?thesis using None leaf
        by (subst subtreeHash.simps) (auto simp: cacheAgrees_def treeHashSpec.simps)
    next
      case False
      have sub: "subtreeHash digest t (nodeAt 0 m) c = res_bind (encodeLeafNodeHashInput ?in)
          (\<lambda>input. Inr (digest input, c(nodeAt 0 m \<mapsto> digest input)))"
        using None leaf False
        by (subst subtreeHash.simps) (auto simp: nodeToLeafIndex_def Let_def split: option.splits ratchetNode.splits)
      have spec: "treeHashSpec digest t (nodeAt 0 m) = res_map digest (encodeLeafNodeHashInput ?in)"
        using leaf False
        by (subst treeHashSpec.simps) (auto simp: nodeToLeafIndex_def split: option.splits ratchetNode.splits)
      show ?thesis unfolding sub using spec i "0.prems"(2)
        by (cases "encodeLeafNodeHashInput ?in") (auto simp: cacheAgrees_def intro!: validCache_upd)
    qed
  qed
next
  case (Suc k m c)
  note i = inTree_index [OF f Suc.prems(1)]
  have d: "d \<le> 30" using f by (simp add: full_def)
  have m: "0 \<le> m" "nodeAt (Suc k) m < 2147483648" "k \<le> 29"
    using Suc.prems(1) inTree_small [OF Suc.prems(1) d] d by (auto simp: inTree_def)
  note l = left_nodeAt [OF m(1,2)] and r = right_nodeAt [OF m]
  note ch = inTree_children [OF Suc.prems(1)]
  let ?i = "nodeAt (Suc k) m"
  show ?case
  proof (cases "c ?i")
    case (Some v)
    then show ?thesis using Suc.prems(2)
      by (subst subtreeHash.simps) (simp add: cacheAgrees_def validCache_def)
  next
    case None
    have parent: "\<not> isLeaf ?i" by simp
    let ?n = "sparse_get t ?i"
    let ?p = "case ?n of Some (NodeParent p) \<Rightarrow> Some p | _ \<Rightarrow> None"
    let ?in = "\<lambda>a b. \<lparr>ph_parentNode = ?p, ph_leftHash = a, ph_rightHash = b\<rparr>"
    show ?thesis
    proof (cases "\<exists>lf. ?n = Some (NodeLeaf lf)")
      case True
      then show ?thesis using None parent
        by (subst subtreeHash.simps) (auto simp: cacheAgrees_def treeHashSpec.simps)
    next
      case False
      have sub: "subtreeHash digest t ?i c =
          res_bind (subtreeHash digest t (nodeAt k (2 * m)) c) (\<lambda>(a, c1).
          res_bind (subtreeHash digest t (nodeAt k (2 * m + 1)) c1) (\<lambda>(b, c2).
          res_bind (encodeParentNodeHashInput (?in a b)) (\<lambda>input. Inr (digest input, c2(?i \<mapsto> digest input)))))"
        using None parent False l r
        by (subst subtreeHash.simps) (auto simp: Let_def split: option.splits ratchetNode.splits)
      have spec: "treeHashSpec digest t ?i =
          res_bind (treeHashSpec digest t (nodeAt k (2 * m))) (\<lambda>a.
          res_bind (treeHashSpec digest t (nodeAt k (2 * m + 1))) (\<lambda>b.
            res_map digest (encodeParentNodeHashInput (?in a b))))"
        using parent False l r
        by (subst treeHashSpec.simps) (auto split: option.splits ratchetNode.splits)
      note A = Suc.IH [OF ch(1) Suc.prems(2)]
      show ?thesis
      proof (cases "subtreeHash digest t (nodeAt k (2 * m)) c")
        case (Inl e)
        then show ?thesis using A sub spec by (simp add: cacheAgrees_def)
      next
        case (Inr z)
        then obtain a c1 where z: "subtreeHash digest t (nodeAt k (2 * m)) c = Inr (a, c1)" by (cases z) simp
        then have A': "treeHashSpec digest t (nodeAt k (2 * m)) = Inr a" "validCache digest t c1"
          using A by (simp_all add: cacheAgrees_def)
        note B = Suc.IH [OF ch(2) A'(2)]
        show ?thesis
        proof (cases "subtreeHash digest t (nodeAt k (2 * m + 1)) c1")
          case (Inl e)
          then show ?thesis using A' B z sub spec by (simp add: cacheAgrees_def)
        next
          case (Inr y)
          then obtain b c2 where y: "subtreeHash digest t (nodeAt k (2 * m + 1)) c1 = Inr (b, c2)" by (cases y) simp
          then have B': "treeHashSpec digest t (nodeAt k (2 * m + 1)) = Inr b" "validCache digest t c2"
            using B by (simp_all add: cacheAgrees_def)
          have "subtreeHash digest t ?i c = res_bind (encodeParentNodeHashInput (?in a b))
              (\<lambda>input. Inr (digest input, c2(?i \<mapsto> digest input)))"
            using sub z y by simp
          then show ?thesis using spec A' B' i
            by (cases "encodeParentNodeHashInput (?in a b)")
              (auto simp: cacheAgrees_def intro!: validCache_upd)
        qed
      qed
    qed
  qed
qed

lemma hashesOf_valid: "validEntry digest t entry \<Longrightarrow> validCache (digest h) t (hashesOf entry h)"
  by (auto simp: validEntry_def hashesOf_def split: option.splits)

lemma treeHash_agrees:
  assumes "full d t" "inTree d k m" "validEntry digest t entry"
  shows "case treeHash digest t (nodeAt k m) h entry of
      Inl e \<Rightarrow> treeHashSpec (digest h) t (nodeAt k m) = Inl e
    | Inr (v, entry') \<Rightarrow> treeHashSpec (digest h) t (nodeAt k m) = Inr v \<and> validEntry digest t entry'"
  using subtreeHash_agrees [OF assms(1,2) hashesOf_valid [OF assms(3)], of h]
  by (auto simp: treeHash_def cacheAgrees_def validEntry_def split: sum.splits)
text \<open>A subtree hash depends on the nodes of the subtree only.\<close>

lemma full_depth: "full d t \<Longrightarrow> d \<le> 30"
  by (simp add: full_def)

lemma treeHashSpec_local:
  assumes d: "d \<le> 30"
  shows "inTree d k m \<Longrightarrow> (\<And>i. under k m i \<Longrightarrow> sparse_get s i = sparse_get t i) \<Longrightarrow>
    treeHashSpec digest s (nodeAt k m) = treeHashSpec digest t (nodeAt k m)"
proof (induction k arbitrary: m)
  case (0 m)
  then have "sparse_get s (nodeAt 0 m) = sparse_get t (nodeAt 0 m)"
    using under_self [of m 0] by (simp add: inTree_def)
  then show ?case by (subst (1 2) treeHashSpec.simps) (simp add: isLeaf_def)
next
  case (Suc k m)
  have m: "0 \<le> m" "nodeAt (Suc k) m < 2147483648" "k \<le> 29"
    using Suc.prems(1) inTree_small [OF Suc.prems(1) d] d by (auto simp: inTree_def)
  note ch = inTree_children [OF Suc.prems(1)]
  have here: "sparse_get s (nodeAt (Suc k) m) = sparse_get t (nodeAt (Suc k) m)"
    using Suc.prems(2) under_self [OF m(1)] by blast
  have "under (Suc k) m i" if "under k (2 * m) i \<or> under k (2 * m + 1) i" for i
    using that under_child [of k "2 * m" i] under_child [of k "2 * m + 1" i] by auto
  then have "treeHashSpec digest s (nodeAt k (2 * m)) = treeHashSpec digest t (nodeAt k (2 * m))"
    "treeHashSpec digest s (nodeAt k (2 * m + 1)) = treeHashSpec digest t (nodeAt k (2 * m + 1))"
    using Suc.IH ch Suc.prems(2) by blast+
  then show ?case using here left_nodeAt [OF m(1,2)] right_nodeAt [OF m]
    by (subst (1 2) treeHashSpec.simps) (simp split: option.splits ratchetNode.splits)
qed

text \<open>A tree changed at some leaves and their direct paths only.\<close>

definition touched :: "nat \<Rightarrow> int list \<Rightarrow> int \<Rightarrow> bool" where
  "touched d ls i \<longleftrightarrow> (\<exists>l\<in>set ls. i = 2 * l \<or> i \<in> set (map (ancestorAt l 0) [1..<Suc d]))"

lemma touched_above:
  assumes km: "inTree d k m" and u: "under k m i" and t: "touched d ls i" and ls: "\<forall>l\<in>set ls. 0 \<le> l"
  shows "touched d ls (nodeAt k m)"
proof -
  obtain l where l: "l \<in> set ls" "i = 2 * l \<or> i \<in> set (map (ancestorAt l 0) [1..<Suc d])" "0 \<le> l"
    using t ls unfolding touched_def by blast
  obtain a b where ab: "a \<le> k" "0 \<le> b" "i = nodeAt a b" "b div 2 ^ (k - a) = m"
    using u by (auto simp: under_def)
  have "b = l div 2 ^ a"
    using l(2)
  proof
    assume "i = 2 * l"
    then have "nodeAt a b = nodeAt 0 l" using ab(3) by simp
    from nodeAt_inj [OF this ab(2) l(3)] show ?thesis by simp
  next
    assume "i \<in> set (map (ancestorAt l 0) [1..<Suc d])"
    then obtain j where j: "i = nodeAt j (l div 2 ^ j)" by (auto simp: ancestorAt_def)
    have "0 \<le> l div 2 ^ j" using l(3) by (simp add: pos_imp_zdiv_nonneg_iff)
    then show ?thesis using nodeAt_inj [of a b j "l div 2 ^ j"] ab(2,3) j by simp
  qed
  then have "m = l div (2 ^ a * 2 ^ (k - a))" using ab(4) by (simp add: zdiv_zmult2_eq)
  then have m: "m = l div 2 ^ k" using ab(1) by (simp flip: power_add)
  show ?thesis
  proof (cases "k = 0")
    case True
    then show ?thesis using m l(1) unfolding touched_def by auto
  next
    case False
    then have "nodeAt k m \<in> set (map (ancestorAt l 0) [1..<Suc d])" using ancestor_iff [OF km l(3)] m by simp
    then show ?thesis using l(1) unfolding touched_def by blast
  qed
qed

lemma dropHashes_get: "dropHashes h path i = (if i \<in> set path then None else h i)"
proof -
  have "foldl (\<lambda>hs i. hs(i := None)) h path i = (if i \<in> set path then None else h i)" for h :: hashCache
    by (induction path arbitrary: h) auto
  then show ?thesis by (simp add: dropHashes_def)
qed

lemma carry_drops:
  assumes f: "full d t"
  shows "\<forall>l\<in>set ls. 0 \<le> l \<and> l < 2 ^ d \<Longrightarrow>
    res_foldM (\<lambda>hashes leaf. let leafNode = leafToNodeIndex leaf in
        res_bind (directPath leafNode (leafWidth (int (length t)))) (\<lambda>path.
          Inr (dropHashes (hashes(leafNode := None)) path))) c ls
    = Inr (\<lambda>i. if touched d ls i then None else c i)"
proof (induction ls arbitrary: c)
  case (Cons l ls)
  let ?f = "\<lambda>hashes leaf. let leafNode = leafToNodeIndex leaf in
    res_bind (directPath leafNode (leafWidth (int (length t)))) (\<lambda>path.
      Inr (dropHashes (hashes(leafNode := None)) path))"
  let ?path = "map (ancestorAt l 0) [1..<Suc d]"
  have "directPath (leafToNodeIndex l) (leafWidth (int (length t))) = Inr ?path"
    using Cons.prems by (intro full_leaf_path [OF f]) auto
  then have "?f c l = Inr (dropHashes (c(leafToNodeIndex l := None)) ?path)"
    by (simp only: Let_def res_bind_Inr)
  also have "dropHashes (c(leafToNodeIndex l := None)) ?path = (\<lambda>i. if touched d [l] i then None else c i)"
    by (rule ext) (simp add: dropHashes_get touched_def leafToNodeIndex_def mult.commute del: upt_Suc set_map set_upt)
  finally have step: "?f c l = Inr (\<lambda>i. if touched d [l] i then None else c i)" .
  have "res_foldM ?f c (l # ls) = Inr (\<lambda>i. if touched d ls i then None else if touched d [l] i then None else c i)"
    unfolding res_foldM.simps step res_bind_Inr using Cons.prems by (intro Cons.IH) auto
  also have "(\<lambda>i. if touched d ls i then None else if touched d [l] i then None else c i) =
      (\<lambda>i. if touched d (l # ls) i then None else c i)"
    by (rule ext) (simp add: touched_def del: upt_Suc set_map set_upt)
  finally show ?case .
qed (simp add: touched_def)

lemma carryTreeHashes_valid:
  assumes f: "full d t" and len: "length t' = length t" and v: "validEntry digest t entry"
    and ls: "\<forall>l\<in>set ls. 0 \<le> l \<and> l < 2 ^ d"
    and same: "\<And>k m. inTree d k m \<Longrightarrow> \<not> touched d ls (nodeAt k m) \<Longrightarrow>
      sparse_get t' (nodeAt k m) = sparse_get t (nodeAt k m)"
  shows "\<exists>entry'. carryTreeHashes entry t t' ls = Inr entry' \<and> validEntry digest t' entry'"
proof (cases entry)
  case None
  then show ?thesis by (simp add: carryTreeHashes_def validEntry_def)
next
  case (Some z)
  then obtain h c where z: "entry = Some (h, c)" by (cases z) simp
  have f': "full d t'" using f len by (simp add: full_def)
  let ?c = "\<lambda>i. if touched d ls i then None else c i"
  have "carryTreeHashes entry t t' ls = Inr (Some (h, ?c))"
    using carry_drops [OF f' ls, of c] len by (simp add: carryTreeHashes_def z)
  moreover have "validCache (digest h) t' ?c"
    unfolding validCache_def
  proof (intro allI impI)
    fix i w assume "?c i = Some w"
    then have i: "c i = Some w" "\<not> touched d ls i" by (auto split: if_splits)
    then have old: "0 \<le> i" "i < int (length t)" "treeHashSpec (digest h) t i = Inr w"
      using v z by (auto simp: validEntry_def validCache_def)
    then obtain k m where km: "inTree d k m" "i = nodeAt k m" by (meson full_index [OF f])
    have "sparse_get t' j = sparse_get t j" if u: "under k m j" for j
    proof -
      obtain a b where ab: "a \<le> k" "0 \<le> b" "j = nodeAt a b" "b div 2 ^ (k - a) = m"
        using u by (auto simp: under_def)
      have nt: "\<not> touched d ls j" using touched_above [OF km(1) u] i(2) km(2) ls by blast
      show ?thesis
      proof (cases "j < int (length t)")
        case True
        then have "inTree d a b"
          using full_index [OF f, of j] ab(2,3) nodeAt_inj by (metis inTree_def nodeAt_nonneg)
        then show ?thesis using same ab(3) nt by simp
      next
        case False
        then show ?thesis using len by (simp add: sparse_get_def)
      qed
    qed
    then have "treeHashSpec (digest h) t' i = treeHashSpec (digest h) t i"
      using treeHashSpec_local [OF full_depth [OF f] km(1), of t'] km(2) by blast
    then show "0 \<le> i \<and> i < int (length t') \<and> treeHashSpec (digest h) t' i = Inr w"
      using old len by simp
  qed
  ultimately show ?thesis by (simp add: validEntry_def)
qed

text \<open>The three operations on leaves make changes of that kind.\<close>

lemma addedAt_same:
  assumes "addedAt d t l lf t'" "0 \<le> l" "inTree d k m" "\<not> touched d [l] (nodeAt k m)"
  shows "sparse_get t' (nodeAt k m) = sparse_get t (nodeAt k m)"
  using assms ancestor_iff [OF assms(3,2)] by (auto simp: addedAt_def touched_def simp del: upt_Suc set_map set_upt)

lemma writtenAt_same:
  assumes "writtenAt d t l n t'" "0 \<le> l" "inTree d k m" "\<not> touched d [l] (nodeAt k m)"
  shows "sparse_get t' (nodeAt k m) = sparse_get t (nodeAt k m)"
  using assms ancestor_iff [OF assms(3,2)] by (auto simp: writtenAt_def touched_def simp del: upt_Suc set_map set_upt)

end
