(* ===== verification/ParentHash.thy ===== *)
theory ParentHash imports TreeHash begin

text \<open>
  Parent hashes, \<^verbatim>\<open>src/parent-hash.ts\<close>: the hash a node carries about its parent, and the
  check that every parent of a received tree is covered by exactly one chain of such hashes.
  The memo of \<open>parentHashCoverage\<close> and the tree-hash entry of the tree are passed
  explicitly; \<open>chainSpec\<close> is the same walk with neither.  The loop of the sources is a partial
  function, and that it ends is part of the agreement with the specification.
\<close>

section \<open>Definitions\<close>

record parentHashInput =
  phi_encryptionKey :: bytes
  phi_parentHash :: bytes
  phi_originalSiblingTreeHash :: bytes

definition encodeParentHashInput :: "parentHashInput encoder" where
  "encodeParentHashInput = contramapEncoders
     (encPair encodeVarLenData (encPair encodeVarLenData encodeVarLenData))
     (\<lambda>i. (phi_encryptionKey i, phi_parentHash i, phi_originalSiblingTreeHash i))"

definition decodeParentHashInput :: "parentHashInput decoder" where
  "decodeParentHashInput = mapDecoders (decPair decodeVarLenData (decPair decodeVarLenData decodeVarLenData))
     (\<lambda>(encryptionKey, parentHash, originalSiblingTreeHash).
       \<lparr>phi_encryptionKey = encryptionKey, phi_parentHash = parentHash,
        phi_originalSiblingTreeHash = originalSiblingTreeHash\<rparr>)"

interpretation parentHashInput: codec "\<lambda>_. True" encodeParentHashInput decodeParentHashInput
  unfolding encodeParentHashInput_def decodeParentHashInput_def
  by (rule codec_record, (rule codec_intros)+) auto

definition sameNodeIndexSet :: "int list \<Rightarrow> int list \<Rightarrow> bool" where
  "sameNodeIndexSet a b \<longleftrightarrow> length a = length b \<and> list_all (\<lambda>n. n \<in> set a) b"

definition satisfiesResolutionCriterion :: "ratchetTree \<Rightarrow> int \<Rightarrow> int \<Rightarrow> int \<Rightarrow> bool result" where
  "satisfiesResolutionCriterion tree d p c = (case sparse_get tree p of
     Some (NodeParent parentNode) \<Rightarrow>
       res_bind (resolution tree c) (\<lambda>resolutionOfC.
         if d \<notin> set resolutionOfC then Inr False
         else res_bind (leafRange c) (\<lambda>(lo, hi).
           let unmergedUnderC = map leafToNodeIndex
                 (filter (\<lambda>leafIndex. leafIndex \<ge> lo \<and> leafIndex \<le> hi) (pn_unmergedLeaves parentNode));
               resolutionOfCWithoutD = filter (\<lambda>n. n \<noteq> d) resolutionOfC
           in Inr (sameNodeIndexSet unmergedUnderC resolutionOfCWithoutD)))
   | _ \<Rightarrow> Inr False)"

definition getParentHash :: "ratchetNode \<Rightarrow> bytes option" where
  "getParentHash node = (case node of
     NodeParent p \<Rightarrow> Some (pn_parentHash p)
   | NodeLeaf l \<Rightarrow> (case ln_info l of InfoCommit parentHash \<Rightarrow> Some parentHash | _ \<Rightarrow> None))"

text \<open>
  The hash, the node it is about, and the tree-hash entry of \<open>tree\<close> afterwards; a tree made by
  \<open>removeLeaves\<close> is new and has no entry.
\<close>

definition calculateParentHash :: "('h \<Rightarrow> bytes \<Rightarrow> bytes) \<Rightarrow> ratchetTree \<Rightarrow> int \<Rightarrow> 'h \<Rightarrow> 'h hashEntry option \<Rightarrow>
    ((bytes \<times> int option) \<times> 'h hashEntry option) result" where
  "calculateParentHash digest tree nodeIndex h entry =
     (let rootIndex = root (leafWidth (int (length tree))) in
      if nodeIndex = rootIndex then Inr (([], None), entry)
      else res_bind (findFirstNonBlankAncestor tree nodeIndex) (\<lambda>parentNodeIndex.
        let parentNode = sparse_get tree parentNodeIndex in
        if parentNodeIndex = rootIndex \<and> parentNode = None then Inr (([], Some parentNodeIndex), entry)
        else res_bind (if nodeIndex < parentNodeIndex then right parentNodeIndex else left parentNodeIndex)
          (\<lambda>siblingIndex. case parentNode of
             Some (NodeParent p) \<Rightarrow>
               let unmerged = pn_unmergedLeaves p in
               res_bind (if length unmerged = 0 then treeHash digest tree siblingIndex h entry
                   else res_bind (removeLeaves tree unmerged) (\<lambda>original.
                     res_map (\<lambda>(hash, _). (hash, entry)) (treeHash digest original siblingIndex h None)))
                 (\<lambda>(originalSiblingTreeHash, entry').
                 res_bind (encodeParentHashInput \<lparr>phi_encryptionKey = pn_hpkePublicKey p,
                     phi_parentHash = pn_parentHash p,
                     phi_originalSiblingTreeHash = originalSiblingTreeHash\<rparr>) (\<lambda>input.
                   Inr ((digest h input, Some parentNodeIndex), entry')))
           | _ \<Rightarrow> Inl InternalError)))"

text \<open>
  The state of \<open>parentHashCoverage\<close>: the coverage counts, the memo of \<open>calculateParentHash\<close> and
  the tree-hash entry of the tree.
\<close>

type_synonym parentHashMemo = "int \<Rightarrow> (bytes \<times> int option) option"
type_synonym coverage = "int \<Rightarrow> nat option"
type_synonym 'h coverageState = "coverage \<times> parentHashMemo \<times> 'h hashEntry option"

definition memoizedParentHash :: "('h \<Rightarrow> bytes \<Rightarrow> bytes) \<Rightarrow> ratchetTree \<Rightarrow> 'h \<Rightarrow> int \<Rightarrow> parentHashMemo \<Rightarrow>
    'h hashEntry option \<Rightarrow> ((bytes \<times> int option) \<times> parentHashMemo \<times> 'h hashEntry option) result" where
  "memoizedParentHash digest tree h nodeIndex memo entry = (case memo nodeIndex of
     Some r \<Rightarrow> Inr (r, memo, entry)
   | None \<Rightarrow> res_map (\<lambda>(r, entry'). (r, memo(nodeIndex \<mapsto> r), entry'))
       (calculateParentHash digest tree nodeIndex h entry))"

definition bump :: "coverage \<Rightarrow> int \<Rightarrow> coverage" where
  "bump cov i = cov(i \<mapsto> (case cov i of None \<Rightarrow> 0 | Some n \<Rightarrow> n) + 1)"

text \<open>Whether \<open>currentIndex\<close>, with its node, is a valid link to \<open>p\<close>.\<close>

definition coversParent :: "ratchetTree \<Rightarrow> int \<Rightarrow> ratchetNode \<Rightarrow> bytes \<Rightarrow> int \<Rightarrow> bool result" where
  "coversParent tree currentIndex currentNode parentHash p =
     res_bind (if currentIndex < p then left p else right p) (\<lambda>cIndex.
       case getParentHash currentNode of
         None \<Rightarrow> Inr False
       | Some expectedParentHash \<Rightarrow>
           if constantTimeEqual parentHash expectedParentHash
           then satisfiesResolutionCriterion tree currentIndex p cIndex else Inr False)"

partial_function (option) coverChain :: "('h \<Rightarrow> bytes \<Rightarrow> bytes) \<Rightarrow> ratchetTree \<Rightarrow> 'h \<Rightarrow> int \<Rightarrow> int \<Rightarrow>
    'h coverageState \<Rightarrow> 'h coverageState result option" where
  "coverChain digest tree h rootIndex currentIndex st =
     (if currentIndex = rootIndex then Some (Inr st)
      else case sparse_get tree currentIndex of
        None \<Rightarrow> (case findFirstNonBlankAncestor tree currentIndex of
            Inl e \<Rightarrow> Some (Inl e)
          | Inr i \<Rightarrow> coverChain digest tree h rootIndex i st)
      | Some currentNode \<Rightarrow>
          (case memoizedParentHash digest tree h currentIndex (fst (snd st)) (snd (snd st)) of
             Inl e \<Rightarrow> Some (Inl e)
           | Inr r \<Rightarrow> (case snd (fst r) of
               None \<Rightarrow> Some (Inl InternalError)
             | Some p \<Rightarrow> (case coversParent tree currentIndex currentNode (fst (fst r)) p of
                 Inl e \<Rightarrow> Some (Inl e)
               | Inr covers \<Rightarrow>
                   if covers then coverChain digest tree h rootIndex p (bump (fst st) p, snd r)
                   else Some (Inr (fst st, snd r))))))"

declare coverChain.simps [code]

fun coverLeaves :: "('h \<Rightarrow> bytes \<Rightarrow> bytes) \<Rightarrow> ratchetTree \<Rightarrow> 'h \<Rightarrow> int \<Rightarrow> nat list \<Rightarrow>
    'h coverageState \<Rightarrow> 'h coverageState result option" where
  "coverLeaves digest tree h rootIndex [] st = Some (Inr st)"
| "coverLeaves digest tree h rootIndex (i # is) st =
     (if sparse_get tree (int i) = None \<or> \<not> isLeaf (int i) then coverLeaves digest tree h rootIndex is st
      else case coverChain digest tree h rootIndex (int i) st of
        None \<Rightarrow> None
      | Some (Inl e) \<Rightarrow> Some (Inl e)
      | Some (Inr st') \<Rightarrow> coverLeaves digest tree h rootIndex is st')"

definition parentHashCoverage :: "('h \<Rightarrow> bytes \<Rightarrow> bytes) \<Rightarrow> ratchetTree \<Rightarrow> 'h \<Rightarrow> 'h hashEntry option \<Rightarrow>
    'h coverageState result option" where
  "parentHashCoverage digest tree h entry =
     coverLeaves digest tree h (root (leafWidth (int (length tree)))) [0..<length tree]
       (\<lambda>_. None, \<lambda>_. None, entry)"

definition parentNodes :: "ratchetTree \<Rightarrow> int list" where
  "parentNodes tree = map int (filter (\<lambda>i. case tree ! i of Some (NodeParent _) \<Rightarrow> True | _ \<Rightarrow> False) [0..<length tree])"

text \<open>The answer, and the tree-hash entry of \<open>tree\<close> afterwards.\<close>

definition verifyParentHashes :: "('h \<Rightarrow> bytes \<Rightarrow> bytes) \<Rightarrow> ratchetTree \<Rightarrow> 'h \<Rightarrow> 'h hashEntry option \<Rightarrow>
    (bool \<times> 'h hashEntry option) result option" where
  "verifyParentHashes digest tree h entry =
     (if parentNodes tree = [] then Some (Inr (True, entry))
      else case parentHashCoverage digest tree h entry of
        None \<Rightarrow> None
      | Some (Inl e) \<Rightarrow> Some (Inl e)
      | Some (Inr (coverage, _, entry')) \<Rightarrow>
          Some (Inr (list_all (\<lambda>index. coverage index = Some 1) (parentNodes tree), entry')))"

section \<open>The specification of a chain\<close>

lemma findFirst_stepsLeft:
  assumes "i \<noteq> root (leafWidth (int (length tree)))" "findFirstNonBlankAncestor tree i = Inr j"
  shows "stepsLeft j < stepsLeft i"
proof -
  let ?r = "root (leafWidth (int (length tree)))"
  let ?f = "\<lambda>nodeIndex (_ :: parentNode). Inr (Some nodeIndex) :: int option result"
  have walk: "traverse_loop tree ?r ?f x = Inr z \<Longrightarrow>
    (case z of Some (a, p) \<Rightarrow> a = p \<and> x \<noteq> ?r \<and> stepsLeft p < stepsLeft x
     | None \<Rightarrow> x = ?r \<or> stepsLeft ?r < stepsLeft x)" for x z
  proof (induction "stepsLeft x" arbitrary: x rule: less_induct)
    case less
    show ?case
    proof (cases "x = ?r")
      case True
      then show ?thesis using less.prems by (subst (asm) traverse_loop.simps) auto
    next
      case False
      then obtain p where p: "parent x (leafWidth (int (length tree))) = Inr p"
        using less.prems by (subst (asm) traverse_loop.simps) (auto simp: res_bind_eq_Inr)
      note s = parent_stepsLeft [OF p]
      show ?thesis
      proof (cases "sparse_get tree p")
        case None
        then have "traverse_loop tree ?r ?f p = Inr z"
          using less.prems False p by (subst (asm) traverse_loop.simps) simp
        from less.hyps [OF s this] s False show ?thesis
          by (auto split: option.splits prod.splits)
      next
        case (Some n)
        then show ?thesis using less.prems False p s
          by (subst (asm) traverse_loop.simps) (auto split: ratchetNode.splits)
      qed
    qed
  qed
  from assms(2) obtain z where z: "traverse_loop tree ?r ?f i = Inr z"
    and j: "j = (case z of Some (a, _) \<Rightarrow> a | None \<Rightarrow> ?r)"
    by (auto simp: findFirstNonBlankAncestor_def traverseToRoot_def res_bind_eq_Inr)
  show ?thesis using walk [OF z] j assms(1) by (cases z) auto
qed


definition parentHashOf :: "(bytes \<Rightarrow> bytes) \<Rightarrow> ratchetTree \<Rightarrow> int \<Rightarrow> (bytes \<times> int option) result" where
  "parentHashOf digest tree i =
     (if i = root (leafWidth (int (length tree))) then Inr ([], None)
      else res_bind (findFirstNonBlankAncestor tree i) (\<lambda>p. case sparse_get tree p of
        None \<Rightarrow> if p = root (leafWidth (int (length tree))) then Inr ([], Some p)
          else res_bind (if i < p then right p else left p) (\<lambda>_. Inl InternalError)
      | Some (NodeLeaf _) \<Rightarrow> res_bind (if i < p then right p else left p) (\<lambda>_. Inl InternalError)
      | Some (NodeParent n) \<Rightarrow> res_bind (if i < p then right p else left p) (\<lambda>s.
          res_bind (res_bind (if pn_unmergedLeaves n = [] then Inr tree else removeLeaves tree (pn_unmergedLeaves n))
              (\<lambda>t. treeHashSpec digest t s)) (\<lambda>v.
          res_map (\<lambda>x. (digest x, Some p)) (encodeParentHashInput \<lparr>phi_encryptionKey = pn_hpkePublicKey n,
            phi_parentHash = pn_parentHash n, phi_originalSiblingTreeHash = v\<rparr>)))))"

lemma parentHashOf_next:
  assumes "parentHashOf digest tree i = Inr (x, Some p)"
  shows "i \<noteq> root (leafWidth (int (length tree)))" "findFirstNonBlankAncestor tree i = Inr p"
  using assms by (auto simp: parentHashOf_def res_bind_eq_Inr res_map_eq_Inr
      split: if_splits option.splits ratchetNode.splits)

function chainSpec :: "(bytes \<Rightarrow> bytes) \<Rightarrow> ratchetTree \<Rightarrow> int \<Rightarrow> int list result" where
  "chainSpec digest tree i =
     (if i = root (leafWidth (int (length tree))) then Inr []
      else case sparse_get tree i of
        None \<Rightarrow> res_bind (findFirstNonBlankAncestor tree i) (chainSpec digest tree)
      | Some n \<Rightarrow> (case parentHashOf digest tree i of
          Inl e \<Rightarrow> Inl e
        | Inr (x, None) \<Rightarrow> Inl InternalError
        | Inr (x, Some p) \<Rightarrow> res_bind (coversParent tree i n x p) (\<lambda>covers.
            if covers then res_map ((#) p) (chainSpec digest tree p) else Inr [])))"
  by pat_completeness auto
termination
  by (relation "measure (\<lambda>(digest, tree, i). stepsLeft i)")
    (auto intro: findFirst_stepsLeft dest: parentHashOf_next)

declare chainSpec.simps [simp del]

section \<open>Agreement with the specification\<close>

definition soundCache :: "(bytes \<Rightarrow> bytes) \<Rightarrow> ratchetTree \<Rightarrow> hashCache \<Rightarrow> bool" where
  "soundCache digest tree c \<longleftrightarrow> (\<forall>i v. c i = Some v \<longrightarrow> treeHashSpec digest tree i = Inr v)"

definition soundEntry :: "('h \<Rightarrow> bytes \<Rightarrow> bytes) \<Rightarrow> ratchetTree \<Rightarrow> 'h hashEntry option \<Rightarrow> bool" where
  "soundEntry digest tree entry = (case entry of None \<Rightarrow> True | Some (h, c) \<Rightarrow> soundCache (digest h) tree c)"

lemma soundCache_upd: "soundCache digest tree c \<Longrightarrow> treeHashSpec digest tree i = Inr v \<Longrightarrow> soundCache digest tree (c(i \<mapsto> v))"
  by (auto simp: soundCache_def)

lemma validEntry_sound: "validEntry digest tree entry \<Longrightarrow> soundEntry digest tree entry"
  by (auto simp: validEntry_def soundEntry_def validCache_def soundCache_def split: option.splits)

lemma soundEntry_None [simp]: "soundEntry digest tree None"
  by (simp add: soundEntry_def)

lemma subtreeHash_sound:
  "soundCache digest tree c \<Longrightarrow>
   tracks (soundCache digest tree) (subtreeHash digest tree i c) (treeHashSpec digest tree i)"
proof (induction "levelOf i" arbitrary: i c rule: less_induct)
  case less
  show ?case
  proof (cases "c i")
    case (Some v)
    then show ?thesis using less.prems by (subst subtreeHash.simps) (simp add: soundCache_def)
  next
    case None
    show ?thesis
    proof (cases "isLeaf i")
      case True
      have here: "treeHashSpec digest tree i = Inr x \<Longrightarrow> soundCache digest tree (c(i \<mapsto> x))" for x
        by (rule soundCache_upd [OF less.prems])
      show ?thesis using None True here
        by (subst subtreeHash.simps, subst treeHashSpec.simps)
          (auto simp: Let_def res_map_def treeHashSpec.simps [of digest tree i] intro!: tracks_same
            split: option.splits ratchetNode.splits)
    next
      case False
      have step: "tracks (soundCache digest tree)
          (res_bind (left i) (\<lambda>l. res_bind (subtreeHash digest tree l c) (\<lambda>(leftHash, c1).
             res_bind (right i) (\<lambda>r. res_bind (subtreeHash digest tree r c1) (\<lambda>(rightHash, c2).
             res_bind (encodeParentNodeHashInput \<lparr>ph_parentNode = n, ph_leftHash = leftHash, ph_rightHash = rightHash\<rparr>)
               (\<lambda>input. let hash = digest input in Inr (hash, c2(i \<mapsto> hash))))))))
          (treeHashSpec digest tree i)"
        if n: "treeHashSpec digest tree i =
          res_bind (left i) (\<lambda>l. res_bind (treeHashSpec digest tree l) (\<lambda>leftHash.
             res_bind (right i) (\<lambda>r. res_bind (treeHashSpec digest tree r) (\<lambda>rightHash.
               res_map digest (encodeParentNodeHashInput
                 \<lparr>ph_parentNode = n, ph_leftHash = leftHash, ph_rightHash = rightHash\<rparr>)))))" for n
        unfolding n
      proof (rule tracks_same, rule tracks_bind [where I = "soundCache digest tree"], goal_cases)
        case (1 l)
        then show ?case by (intro less.hyps less.prems child_levelOf) simp
      next
        case (2 l x c1)
        note here = 2
        show ?case unfolding prod.case
        proof (rule tracks_same, rule tracks_bind [where I = "soundCache digest tree"], goal_cases)
          case (1 r)
          then show ?case using here by (intro less.hyps child_levelOf) simp_all
        next
          case (2 r y c2)
          note h = 2
          show ?case unfolding prod.case res_map_def Let_def
          proof (rule tracks_same, simp, rule soundCache_upd [OF h(2)])
            fix v
            assume "encodeParentNodeHashInput \<lparr>ph_parentNode = n, ph_leftHash = x, ph_rightHash = y\<rparr> = Inr v"
            then show "treeHashSpec digest tree i = Inr (digest v)"
              using n here h by simp
          qed
        qed
      qed
      show ?thesis using None False step
        by (subst subtreeHash.simps, subst treeHashSpec.simps)
          (simp add: treeHashSpec.simps [of digest tree i] split: option.splits ratchetNode.splits)
    qed
  qed
qed

lemma treeHash_sound:
  assumes "soundEntry digest tree entry"
  shows "tracks (soundEntry digest tree) (treeHash digest tree i h entry) (treeHashSpec (digest h) tree i)"
proof -
  have "soundCache (digest h) tree (hashesOf entry h)"
    using assms by (auto simp: soundEntry_def hashesOf_def soundCache_def split: option.splits)
  from subtreeHash_sound [OF this, of i] show ?thesis
    by (cases "subtreeHash (digest h) tree i (hashesOf entry h)")
      (auto simp: treeHash_def soundEntry_def tracks_def split: prod.splits)
qed

lemma tracks_weaken: "tracks I m s \<Longrightarrow> tracks (\<lambda>_. True) m s"
  by (auto simp: tracks_def split: sum.splits)

lemma tracks_const: "tracks I m s \<Longrightarrow> J x \<Longrightarrow> tracks J (res_map (\<lambda>(v, _). (v, x)) m) s"
  by (auto simp: tracks_def split: sum.splits)

lemma siblingHash_sound:
  assumes "soundEntry digest tree entry"
  shows "tracks (soundEntry digest tree)
    (if length unmerged = 0 then treeHash digest tree s h entry
     else res_bind (removeLeaves tree unmerged) (\<lambda>original.
       res_map (\<lambda>(hash, _). (hash, entry)) (treeHash digest original s h None)))
    (res_bind (if unmerged = [] then Inr tree else removeLeaves tree unmerged) (\<lambda>t. treeHashSpec (digest h) t s))"
proof (cases "unmerged = []")
  case False
  have "tracks (soundEntry digest t) (treeHash digest t s h None) (treeHashSpec (digest h) t s)" for t
    by (rule treeHash_sound) simp
  from tracks_const [of _ _ _ "soundEntry digest tree" entry, OF this assms]
  show ?thesis using False by (auto intro!: tracks_same)
qed (use treeHash_sound [OF assms] in simp)

lemma calculateParentHash_sound:
  assumes e: "soundEntry digest tree entry"
  shows "tracks (soundEntry digest tree) (calculateParentHash digest tree i h entry) (parentHashOf (digest h) tree i)"
proof (cases "i = root (leafWidth (int (length tree)))")
  case False
  let ?root = "root (leafWidth (int (length tree)))"
  have "tracks (soundEntry digest tree)
     (let parentNode = sparse_get tree p in
        if p = ?root \<and> parentNode = None then Inr (([], Some p), entry)
        else res_bind (if i < p then right p else left p)
          (\<lambda>siblingIndex. case parentNode of
             Some (NodeParent n) \<Rightarrow>
               let unmerged = pn_unmergedLeaves n in
               res_bind (if length unmerged = 0 then treeHash digest tree siblingIndex h entry
                   else res_bind (removeLeaves tree unmerged) (\<lambda>original.
                     res_map (\<lambda>(hash, _). (hash, entry)) (treeHash digest original siblingIndex h None)))
                 (\<lambda>(originalSiblingTreeHash, entry').
                 res_bind (encodeParentHashInput \<lparr>phi_encryptionKey = pn_hpkePublicKey n,
                     phi_parentHash = pn_parentHash n,
                     phi_originalSiblingTreeHash = originalSiblingTreeHash\<rparr>) (\<lambda>input.
                   Inr ((digest h input, Some p), entry')))
           | _ \<Rightarrow> Inl InternalError))
     (case sparse_get tree p of
        None \<Rightarrow> if p = ?root then Inr ([], Some p)
          else res_bind (if i < p then right p else left p) (\<lambda>_. Inl InternalError)
      | Some (NodeLeaf _) \<Rightarrow> res_bind (if i < p then right p else left p) (\<lambda>_. Inl InternalError)
      | Some (NodeParent n) \<Rightarrow> res_bind (if i < p then right p else left p) (\<lambda>s.
          res_bind (res_bind (if pn_unmergedLeaves n = [] then Inr tree else removeLeaves tree (pn_unmergedLeaves n))
              (\<lambda>t. treeHashSpec (digest h) t s)) (\<lambda>v.
          res_map (\<lambda>x. (digest h x, Some p)) (encodeParentHashInput \<lparr>phi_encryptionKey = pn_hpkePublicKey n,
            phi_parentHash = pn_parentHash n, phi_originalSiblingTreeHash = v\<rparr>))))" for p
  proof (cases "sparse_get tree p")
    case None
    then show ?thesis by (auto intro!: tracks_same simp: e)
  next
    case (Some n)
    show ?thesis
    proof (cases n)
      case (NodeParent q)
      show ?thesis unfolding Some NodeParent option.case ratchetNode.case Let_def
        by (simp only: option.distinct simp_thms if_False, rule tracks_same, rule tracks_bind,
            rule siblingHash_sound [OF e])
          (auto simp: res_map_def intro!: tracks_same)
    qed (use Some in \<open>auto intro!: tracks_same\<close>)
  qed
  from tracks_same [OF this] show ?thesis using False
    unfolding calculateParentHash_def parentHashOf_def Let_def by simp
qed (simp add: calculateParentHash_def parentHashOf_def e)


definition soundMemo :: "('h \<Rightarrow> bytes \<Rightarrow> bytes) \<Rightarrow> ratchetTree \<Rightarrow> 'h \<Rightarrow> parentHashMemo \<times> 'h hashEntry option \<Rightarrow> bool" where
  "soundMemo digest tree h me \<longleftrightarrow> soundEntry digest tree (snd me) \<and>
     (\<forall>i r. fst me i = Some r \<longrightarrow> parentHashOf (digest h) tree i = Inr r)"

lemma memoizedParentHash_sound:
  assumes "soundMemo digest tree h (memo, entry)"
  shows "tracks (soundMemo digest tree h) (memoizedParentHash digest tree h i memo entry) (parentHashOf (digest h) tree i)"
proof (cases "memo i")
  case None
  have "soundEntry digest tree entry" using assms by (simp add: soundMemo_def)
  note a = calculateParentHash_sound [OF this, of i h]
  show ?thesis
  proof (cases "calculateParentHash digest tree i h entry")
    case (Inr z)
    then obtain r e' where "calculateParentHash digest tree i h entry = Inr (r, e')" by (cases z) simp
    then show ?thesis using None a assms by (simp add: memoizedParentHash_def soundMemo_def)
  qed (use None a in \<open>simp add: memoizedParentHash_def\<close>)
qed (use assms in \<open>auto simp: memoizedParentHash_def soundMemo_def\<close>)

text \<open>What the loop does to the counts: one more for every node of the chain.\<close>

definition chainAgrees :: "('h \<Rightarrow> bytes \<Rightarrow> bytes) \<Rightarrow> ratchetTree \<Rightarrow> 'h \<Rightarrow> coverage \<Rightarrow> int list result \<Rightarrow>
    'h coverageState result option \<Rightarrow> bool" where
  "chainAgrees digest tree h cov spec r = (case r of
     None \<Rightarrow> False
   | Some (Inl e) \<Rightarrow> spec = Inl e
   | Some (Inr (cov', me)) \<Rightarrow> (\<exists>ps. spec = Inr ps \<and> cov' = foldl bump cov ps) \<and> soundMemo digest tree h me)"

lemma coverChain_agrees:
  assumes "soundMemo digest tree h me"
  shows "chainAgrees digest tree h cov (chainSpec (digest h) tree i)
    (coverChain digest tree h (root (leafWidth (int (length tree)))) i (cov, me))"
  using assms
proof (induction "stepsLeft i" arbitrary: i cov me rule: less_induct)
  case less
  let ?root = "root (leafWidth (int (length tree)))"
  note unf = chainSpec.simps [of "digest h" tree i] coverChain.simps [of digest tree h ?root i]
  show ?case
  proof (cases "i = ?root")
    case True
    then show ?thesis unfolding unf using less.prems by (simp add: chainAgrees_def)
  next
    case False
    show ?thesis
    proof (cases "sparse_get tree i")
      case None
      show ?thesis
      proof (cases "findFirstNonBlankAncestor tree i")
        case (Inl e)
        then show ?thesis using False None by (simp add: unf chainAgrees_def)
      next
        case (Inr j)
        then show ?thesis using less.hyps [OF findFirst_stepsLeft [OF False Inr] less.prems] False None
          by (simp add: unf)
      qed
    next
      case (Some n)
      obtain memo entry where me: "me = (memo, entry)" by (cases me)
      note a = memoizedParentHash_sound [of digest tree h memo entry i, OF less.prems [unfolded me]]
      show ?thesis
      proof (cases "memoizedParentHash digest tree h i memo entry")
        case (Inl e)
        then show ?thesis using a False Some me by (simp add: unf chainAgrees_def)
      next
        case (Inr z)
        then obtain x q me' where z: "memoizedParentHash digest tree h i memo entry = Inr ((x, q), me')"
          by (cases z) auto
        then have spec: "parentHashOf (digest h) tree i = Inr (x, q)" and good: "soundMemo digest tree h me'"
          using a by simp_all
        show ?thesis
        proof (cases q)
          case None
          then show ?thesis using z spec False Some me by (simp add: unf chainAgrees_def)
        next
          case p: (Some p)
          note next_p = parentHashOf_next [OF spec [unfolded p]]
          note ih = less.hyps [OF findFirst_stepsLeft [OF next_p] good, of "bump cov p"]
          show ?thesis
          proof (cases "coversParent tree i n x p")
            case (Inl e)
            then show ?thesis using z spec False Some me p by (simp add: unf chainAgrees_def)
          next
            case (Inr b)
            show ?thesis
            proof (cases b)
              case True
              have "chainAgrees digest tree h cov (res_map ((#) p) (chainSpec (digest h) tree p))
                  (coverChain digest tree h ?root p (bump cov p, me'))"
                using ih by (auto simp: chainAgrees_def split: option.splits sum.splits)
              then show ?thesis using z spec False Some me p Inr True by (simp add: unf)
            next
              case not: False
              then show ?thesis using z spec False Some me p Inr good by (auto simp: unf chainAgrees_def)
            qed
          qed
        qed
      qed
    qed
  qed
qed

text \<open>The chains of all leaves, in order.\<close>

definition coveredSpec :: "(bytes \<Rightarrow> bytes) \<Rightarrow> ratchetTree \<Rightarrow> nat list \<Rightarrow> int list result" where
  "coveredSpec digest tree is = res_map concat (res_mapM (\<lambda>i. chainSpec digest tree (int i))
     (filter (\<lambda>i. sparse_get tree (int i) \<noteq> None \<and> isLeaf (int i)) is))"

lemma coverLeaves_agrees:
  assumes "soundMemo digest tree h me"
  shows "chainAgrees digest tree h cov (coveredSpec (digest h) tree is)
    (coverLeaves digest tree h (root (leafWidth (int (length tree)))) is (cov, me))"
  using assms
proof (induction "is" arbitrary: cov me)
  case Nil
  then show ?case by (simp add: coveredSpec_def chainAgrees_def)
next
  case (Cons i "is")
  let ?root = "root (leafWidth (int (length tree)))"
  show ?case
  proof (cases "sparse_get tree (int i) = None \<or> \<not> isLeaf (int i)")
    case True
    then show ?thesis using Cons.IH [OF Cons.prems] by (auto simp: coveredSpec_def)
  next
    case False
    have spec: "coveredSpec (digest h) tree (i # is) = res_bind (chainSpec (digest h) tree (int i))
        (\<lambda>ps. res_map ((@) ps) (coveredSpec (digest h) tree is))"
      using False by (simp add: coveredSpec_def res_map_def res_bind_assoc)
    note a = coverChain_agrees [OF Cons.prems, of cov "int i"]
    show ?thesis
    proof (cases "coverChain digest tree h ?root (int i) (cov, me)")
      case (Some r)
      show ?thesis
      proof (cases r)
        case (Inl e)
        then show ?thesis using a Some False spec by (auto simp: chainAgrees_def)
      next
        case (Inr st)
        then obtain cov' me' where st: "r = Inr (cov', me')" by (cases st) simp
        then obtain ps where ps: "chainSpec (digest h) tree (int i) = Inr ps" "cov' = foldl bump cov ps"
          "soundMemo digest tree h me'"
          using a Some by (auto simp: chainAgrees_def)
        have "chainAgrees digest tree h cov (res_map ((@) ps) (coveredSpec (digest h) tree is))
            (coverLeaves digest tree h ?root is (cov', me'))"
          using Cons.IH [OF ps(3), of cov'] ps(2)
          by (auto simp: chainAgrees_def split: option.splits sum.splits)
        then show ?thesis using Some st False spec ps(1) by auto
      qed
    qed (use a in \<open>simp add: chainAgrees_def\<close>)
  qed
qed


section \<open>What the check establishes\<close>

lemma foldl_bump: "foldl bump cov ps p = (if p \<in> set ps then Some ((case cov p of None \<Rightarrow> 0 | Some n \<Rightarrow> n) + count_list ps p) else cov p)"
  by (induction ps arbitrary: cov) (auto simp: bump_def split: option.splits)

text \<open>\<open>d\<close> carries the parent hash of \<open>p\<close>, and \<open>p\<close> lists no unmerged leaf that hides a node.\<close>

definition linkedTo :: "(bytes \<Rightarrow> bytes) \<Rightarrow> ratchetTree \<Rightarrow> int \<Rightarrow> int \<Rightarrow> bool" where
  "linkedTo digest tree d p \<longleftrightarrow> (\<exists>n x c. sparse_get tree d = Some n \<and> getParentHash n = Some x \<and>
     parentHashOf digest tree d = Inr (x, Some p) \<and> (if d < p then left p else right p) = Inr c \<and>
     satisfiesResolutionCriterion tree d p c = Inr True)"

lemma chainSpec_linked: "chainSpec digest tree i = Inr ps \<Longrightarrow> p \<in> set ps \<Longrightarrow> \<exists>d. linkedTo digest tree d p"
proof (induction "stepsLeft i" arbitrary: i ps rule: less_induct)
  case less
  note unf = chainSpec.simps [of digest tree i]
  have nr: "i \<noteq> root (leafWidth (int (length tree)))"
    using less.prems by (auto simp: unf)
  show ?case
  proof (cases "sparse_get tree i")
    case None
    then obtain j where j: "findFirstNonBlankAncestor tree i = Inr j" "chainSpec digest tree j = Inr ps"
      using less.prems(1) nr by (auto simp: unf res_bind_eq_Inr)
    from less.hyps [OF findFirst_stepsLeft [OF nr j(1)] j(2) less.prems(2)] show ?thesis .
  next
    case (Some n)
    then obtain x q where x: "parentHashOf digest tree i = Inr (x, Some q)"
      using less.prems(1) nr by (auto simp: unf split: sum.splits prod.splits option.splits)
    then have "coversParent tree i n x q = Inr True \<and> (\<exists>qs. ps = q # qs \<and> chainSpec digest tree q = Inr qs)"
      using less.prems Some nr by (auto simp: unf res_bind_eq_Inr res_map_eq_Inr split: if_splits)
    then obtain qs where cv: "coversParent tree i n x q = Inr True" and ps: "ps = q # qs"
      and qs: "chainSpec digest tree q = Inr qs" by blast
    have "linkedTo digest tree i q"
      using cv Some x by (auto simp: coversParent_def linkedTo_def res_bind_eq_Inr constantTimeEqual_iff
          split: option.splits if_splits)
    moreover have "p \<in> set qs \<Longrightarrow> ?thesis"
      using less.hyps [OF findFirst_stepsLeft [OF parentHashOf_next [OF x]] qs] .
    ultimately show ?thesis using less.prems(2) ps by auto
  qed
qed

lemma coveredSpec_linked:
  assumes "coveredSpec digest tree is = Inr ps" "p \<in> set ps"
  shows "\<exists>d. linkedTo digest tree d p"
proof -
  let ?is = "filter (\<lambda>i. sparse_get tree (int i) \<noteq> None \<and> isLeaf (int i)) is"
  obtain pss where pss: "res_mapM (\<lambda>i. chainSpec digest tree (int i)) ?is = Inr pss" "ps = concat pss"
    using assms(1) by (auto simp: coveredSpec_def res_map_eq_Inr)
  from res_mapM_eq_InrD [OF pss(1)] have "\<forall>qs\<in>set pss. \<exists>i. chainSpec digest tree i = Inr qs"
    unfolding list_all2_conv_all_nth in_set_conv_nth Ball_def by metis
  then show ?thesis using assms(2) pss(2) chainSpec_linked by fastforce
qed

lemma verifyParentHashes_agrees:
  assumes "soundEntry digest tree entry"
  shows "\<exists>r. verifyParentHashes digest tree h entry = Some r \<and> tracks (soundEntry digest tree) r
    (if parentNodes tree = [] then Inr True
     else res_map (\<lambda>ps. list_all (\<lambda>p. count_list ps p = 1) (parentNodes tree))
       (coveredSpec (digest h) tree [0..<length tree]))"
proof (cases "parentNodes tree = []")
  case True
  then show ?thesis using assms by (simp add: verifyParentHashes_def)
next
  case False
  have "soundMemo digest tree h (\<lambda>_. None, entry)" using assms by (simp add: soundMemo_def)
  from coverLeaves_agrees [OF this, of "\<lambda>_. None" "[0..<length tree]"]
  have a: "chainAgrees digest tree h (\<lambda>_. None) (coveredSpec (digest h) tree [0..<length tree])
      (parentHashCoverage digest tree h entry)"
    by (simp add: parentHashCoverage_def)
  show ?thesis
  proof (cases "parentHashCoverage digest tree h entry")
    case (Some r)
    show ?thesis
    proof (cases r)
      case (Inl e)
      then show ?thesis using a Some False by (simp add: verifyParentHashes_def chainAgrees_def)
    next
      case (Inr st)
      then obtain cov memo e' where st: "r = Inr (cov, memo, e')" by (cases st) auto
      then obtain ps where ps: "coveredSpec (digest h) tree [0..<length tree] = Inr ps" "cov = foldl bump (\<lambda>_. None) ps"
        "soundEntry digest tree e'"
        using a Some by (auto simp: chainAgrees_def soundMemo_def)
      have "(cov p = Some 1) = (count_list ps p = 1)" for p
        unfolding ps(2) foldl_bump by (auto simp: count_list_0_iff)
      then show ?thesis using Some st False ps by (simp add: verifyParentHashes_def)
    qed
  qed (use a in \<open>simp add: chainAgrees_def\<close>)
qed

end
