(* ===== verification/ParentHashReturns.thy ===== *)
theory ParentHashReturns imports ParentHash begin

text \<open>
  Which of the loops under the parent hash check of \<^verbatim>\<open>src/parent-hash.ts\<close> come to an end.  Encoders,
  tree arithmetic, tree hashes and the walk to the root always return.  \<open>extendRatchetTree\<close> of
  \<^verbatim>\<open>src/ratchet-tree.ts\<close> returns exactly below \<open>2 ^ 30\<close> nodes, and with it the check, which rebuilds
  the tree without the unmerged leaves of a parent.
\<close>

section \<open>Encoders\<close>

named_theorems encoder_returns \<open>encoders that always return\<close>

definition encoderReturns :: "'a encoder \<Rightarrow> bool" where
  "encoderReturns enc \<longleftrightarrow> (\<forall>x. returns (enc x))"

lemma encoderReturnsI: "(\<And>x. returns (enc x)) \<Longrightarrow> encoderReturns enc"
  by (simp add: encoderReturns_def)

lemma encoderReturnsD: "encoderReturns enc \<Longrightarrow> returns (enc x)"
  by (simp add: encoderReturns_def)

lemma assertUintRange_returns [returns_intros]: "returns (assertUintRange n k)"
  by (simp add: assertUintRange_def)

lemma number_encoders_return [encoder_returns]:
  "encoderReturns encodeUint8" "encoderReturns encodeUint16" "encoderReturns encodeUint32" "encoderReturns encodeUint64"
  by (rule encoderReturnsI, simp only: encodeUint8_def encodeUint16_def encodeUint32_def encodeUint64_def,
      intro returns_intros)+

lemma encodeLength_returns [returns_intros]: "returns (encodeLength n)"
  by (simp add: encodeLength_def Let_def)

lemma encodeVarLenData_returns [encoder_returns]: "encoderReturns encodeVarLenData"
  by (rule encoderReturnsI, unfold encodeVarLenData_def, intro returns_intros)

lemma encPair_returns [encoder_returns]: "encoderReturns e \<Longrightarrow> encoderReturns d \<Longrightarrow> encoderReturns (encPair e d)"
  by (auto simp: encoderReturns_def encPair_def intro!: returns_bind)

lemma contramap_returns [encoder_returns]:
  "encoderReturns e \<Longrightarrow> encoderReturns (contramapEncoder e f)" "encoderReturns e \<Longrightarrow> encoderReturns (contramapEncoders e f)"
  by (simp_all add: encoderReturns_def contramapEncoder_def contramapEncoders_def)

lemma encodeVarLenType_returns [encoder_returns]: "encoderReturns e \<Longrightarrow> encoderReturns (encodeVarLenType e)"
  by (rule encoderReturnsI, unfold encodeVarLenType_def, intro returns_intros) (rule encoderReturnsD)

lemma encodeOptional_returns [encoder_returns]: "encoderReturns e \<Longrightarrow> encoderReturns (encodeOptional e)"
  by (auto simp: encoderReturns_def encodeOptional_def prependPresenceOctet_def encodeUint8_def assertUintRange_def
      intro!: returns_bind split: option.split)

lemma enum_encoders_return [encoder_returns]:
  "encoderReturns e \<Longrightarrow> encoderReturns (encodeEnum e t)" "encoderReturns e \<Longrightarrow> encoderReturns (encodeOpenEnum e t)"
  by (auto simp: encoderReturns_def encodeEnum_def encodeOpenEnum_def openEnumNumberEncoder_def
      intro!: returns_bind split: option.split open_name.split)

lemma named_encoders_return [encoder_returns]:
  "encoderReturns encodeNodeType" "encoderReturns encodeCredentialType" "encoderReturns encodeCapabilityProtocolVersion"
  "encoderReturns encodeCiphersuite" "encoderReturns encodeLeafNodeSource" "encoderReturns encodeDefaultExtensionType"
  unfolding encodeNodeType_def encodeCredentialType_def encodeCapabilityProtocolVersion_def encodeCiphersuite_def
    encodeLeafNodeSource_def encodeDefaultExtensionType_def
  by (intro encoder_returns)+

lemma encodeExtension_returns [encoder_returns]: "encoderReturns encodeExtension"
proof -
  have "returns (encodeExtensionType t)" for t
    by (cases t) (simp_all add: encodeExtensionType_def encoder_returns [THEN encoderReturnsD])
  then show ?thesis unfolding encodeExtension_def by (intro encoder_returns encoderReturnsI)
qed

lemma encodeCredential_returns [encoder_returns]: "encoderReturns encodeCredential"
proof (rule encoderReturnsI)
  have "encoderReturns encodeCredentialBasic" "encoderReturns encodeCredentialX509" "encoderReturns encodeCredentialCustom"
    unfolding encodeCredentialBasic_def encodeCredentialX509_def encodeCredentialCustom_def by (intro encoder_returns)+
  then show "returns (encodeCredential c)" for c
    by (cases c) (simp_all add: encodeCredential_def encoderReturns_def)
qed

lemma encodeLeafNodeInfo_returns [encoder_returns]: "encoderReturns encodeLeafNodeInfo"
proof (rule encoderReturnsI)
  have "encoderReturns encodeLeafNodeInfoLifetime" "encoderReturns encodeLeafNodeInfoUpdate" "encoderReturns encodeLeafNodeInfoCommit"
    unfolding encodeLeafNodeInfoLifetime_def encodeLeafNodeInfoUpdate_def encodeLeafNodeInfoCommit_def encodeLifetime_def
    by (intro encoder_returns)+
  then show "returns (encodeLeafNodeInfo i)" for i
    by (cases i) (simp_all add: encodeLeafNodeInfo_def encoderReturns_def)
qed

lemma node_encoders_return [encoder_returns]: "encoderReturns encodeLeafNode" "encoderReturns encodeParentNode"
  unfolding encodeLeafNode_def encodeLeafNodeData_def encodeCapabilities_def encodeLeafNodeExtensions_def encodeParentNode_def
  by (intro encoder_returns)+

lemma hash_inputs_return [returns_intros]:
  "returns (encodeLeafNodeHashInput l)" "returns (encodeParentNodeHashInput p)" "returns (encodeParentHashInput i)"
  unfolding encodeLeafNodeHashInput_def encodeParentNodeHashInput_def encodeParentHashInput_def
  by (rule encoderReturnsD, intro encoder_returns)+

section \<open>Tree arithmetic and tree hashes\<close>

lemma level_returns [returns_intros]: "returns (level x)"
proof (cases "x < 0 \<or> x \<ge> 2147483648")
  case False
  then have "to_int32 x \<noteq> - 1" by simp
  then show ?thesis using False level_loop_None_iff [of x] by (auto simp: level_def assertValidNodeIndex_def)
qed (auto simp: level_def assertValidNodeIndex_def)

lemma steps_return [returns_intros]: "returns (left x)" "returns (right x)" "returns (nodeToLeafIndex x)" "returns (parent x n)"
  by (auto simp: left_def right_def nodeToLeafIndex_def parent_def Let_def intro!: returns_intros)

lemma leafRange_lo_returns [returns_intros]: "returns (leafRange_lo x)"
  by (induction x rule: leafRange_lo.induct, subst leafRange_lo.simps) (auto intro!: returns_bind steps_return)

lemma leafRange_hi_returns [returns_intros]: "returns (leafRange_hi x)"
  by (induction x rule: leafRange_hi.induct, subst leafRange_hi.simps) (auto intro!: returns_bind steps_return)

lemma leafRange_returns [returns_intros]: "returns (leafRange x)"
  by (auto simp: leafRange_def intro!: returns_intros)

lemma resolution_returns [returns_intros]: "returns (resolution tree x)"
proof (induction tree x rule: resolution.induct)
  case (1 tree x)
  then show ?case by (subst resolution.simps) (auto intro!: returns_intros split: option.split)
qed

lemma traverse_loop_returns:
  assumes "\<And>i n. returns (f i n)"
  shows "returns (traverse_loop tree r f x)"
  using assms
proof (induction tree r f x rule: traverse_loop.induct)
  case (1 tree r f x)
  then show ?case
    by (subst traverse_loop.simps) (auto intro!: returns_intros split: option.split ratchetNode.split)
qed

lemma findFirstNonBlankAncestor_returns [returns_intros]: "returns (findFirstNonBlankAncestor tree x)"
  by (auto simp: findFirstNonBlankAncestor_def traverseToRoot_def intro!: returns_intros traverse_loop_returns)

lemma treeHashSpec_returns [returns_intros]: "returns (treeHashSpec digest tree x)"
proof (induction digest tree x rule: treeHashSpec.induct)
  case (1 digest tree x)
  then show ?case
    by (subst treeHashSpec.simps) (auto intro!: returns_intros split: option.split ratchetNode.split)
qed

section \<open>Rebuilding a tree\<close>

lemma nextFullBinaryTreeSize_returns:
  assumes "0 < n" "n < 2 ^ 30"
  shows "returns (nextFullBinaryTreeSize (int n))"
proof -
  obtain d where d: "d \<le> 29" "2 ^ d - 1 < n" "n \<le> 2 ^ Suc d - 1" using assms by (rule depth_exists)
  then have "int n \<le> int (2 ^ Suc d - 1)" "int (2 ^ d - 1) < int n" by (simp_all only: of_nat_less_iff of_nat_le_iff)
  then have "nextFullBinaryTreeSize (int n) = Inr (2 ^ Suc d - 1)"
    using d(1) by (intro nextFullBinaryTreeSize) (simp_all add: of_nat_diff)
  then show ?thesis by simp
qed

lemma sparse_get_last: "sparse_get t (int (length t) - 1) \<noteq> None \<Longrightarrow> 0 < length t"
  by (auto simp: sparse_get_def split: if_splits)

lemma extendRatchetTree_returns_iff:
  "returns (extendRatchetTree t) \<longleftrightarrow> sparse_get t (int (length t) - 1) = None \<or> length t < 2 ^ 30"
proof (cases "sparse_get t (int (length t) - 1) = None")
  case False
  then have pos: "0 < length t" by (rule sparse_get_last)
  show ?thesis
  proof (cases "length t < 2 ^ 30")
    case True
    then show ?thesis using nextFullBinaryTreeSize_returns [OF pos True] False
      by (auto simp: extendRatchetTree_def intro!: returns_bind)
  next
    case long: False
    then have "int (2 ^ 30) \<le> int (length t)" by (simp only: of_nat_le_iff not_less)
    then have "nextFullBinaryTreeSize (int (length t)) = Inl NeverReturns"
      by (intro nextFullBinaryTreeSize_diverges) simp
    then show ?thesis using False long by (simp add: extendRatchetTree_def)
  qed
qed (simp add: extendRatchetTree_def)

lemma stripBlankNodes_length: "length (stripBlankNodes t) \<le> length t"
  by (simp add: stripBlankNodes_def)

lemma removeLeaves_returns [returns_intros]:
  assumes "length tree < 2 ^ 30"
  shows "returns (removeLeaves tree ls)"
proof -
  have "length (stripBlankNodes t) < 2 ^ 30" if "length t = length tree" for t
    using that assms stripBlankNodes_length [of t] by simp
  then show ?thesis
    by (auto simp: removeLeaves_def condenseRatchetTreeAfterRemove_def Let_def extendRatchetTree_returns_iff)
qed

section \<open>Chains of parent hashes\<close>

lemma parentHashOf_returns [returns_intros]:
  assumes "length tree < 2 ^ 30"
  shows "returns (parentHashOf digest tree i)"
  unfolding parentHashOf_def
  by (auto intro!: returns_intros assms split: option.split ratchetNode.split)

lemma coversParent_returns [returns_intros]: "returns (coversParent tree i n x p)"
  by (auto simp: coversParent_def satisfiesResolutionCriterion_def Let_def
      intro!: returns_intros split: option.split ratchetNode.split)

lemma chainSpec_returns [returns_intros]:
  assumes "length tree < 2 ^ 30"
  shows "returns (chainSpec digest tree i)"
  using assms
proof (induction digest tree i rule: chainSpec.induct)
  case (1 digest tree i)
  have hash: "returns (parentHashOf digest tree i)" using 1 by (intro returns_intros)
  show ?case
    using 1 hash by (subst chainSpec.simps) (auto intro!: returns_intros split: option.split sum.split)
qed

lemma coveredSpec_returns: "length tree < 2 ^ 30 \<Longrightarrow> returns (coveredSpec digest tree is)"
  by (auto simp: coveredSpec_def intro!: returns_intros)

lemma tracks_returns: "tracks I r s \<Longrightarrow> returns s \<Longrightarrow> returns r"
  by (auto simp: tracks_def split: sum.splits)

end
