(* ===== verification/Proposals.thy ===== *)
theory Proposals imports LeafNode begin

text \<open>
  Key packages, pre-shared key identifiers, proposals, update paths and commits as wire
  types: \<^verbatim>\<open>src/key-package.ts\<close>, \<^verbatim>\<open>src/external-sender.ts\<close>,
  \<^verbatim>\<open>src/required-capabilities.ts\<close>, \<^verbatim>\<open>src/presharedkey.ts\<close>, \<^verbatim>\<open>src/proposal.ts\<close>,
  \<^verbatim>\<open>src/proposal-or-ref-type.ts\<close>, \<^verbatim>\<open>src/hpke-ciphertext.ts\<close>, the types of
  \<^verbatim>\<open>src/update-path.ts\<close> and \<^verbatim>\<open>src/commit.ts\<close>.
\<close>

section \<open>Key packages\<close>

record keyPackageTBS =
  kp_version :: protocolVersionName
  kp_cipherSuite :: ciphersuiteName
  kp_initKey :: bytes
  kp_leafNode :: leafNode
  kp_extensions :: "extension list"

definition encodeKeyPackageTBS :: "keyPackageTBS encoder" where
  "encodeKeyPackageTBS = contramapEncoders
     (encPair encodeProtocolVersion (encPair encodeCiphersuite (encPair encodeVarLenData
     (encPair encodeLeafNode (encodeVarLenType encodeExtension)))))
     (\<lambda>k. (kp_version k, kp_cipherSuite k, kp_initKey k, kp_leafNode k, kp_extensions k))"

definition decodeKeyPackageTBS :: "keyPackageTBS decoder" where
  "decodeKeyPackageTBS = mapDecoders
     (decPair decodeProtocolVersion (decPair decodeCiphersuite (decPair decodeVarLenData
     (decPair decodeLeafNodeKeyPackage (decodeVarLenType decodeExtension)))))
     (\<lambda>(version, cipherSuite, initKey, leafNode, extensions).
       \<lparr>kp_version = version, kp_cipherSuite = cipherSuite, kp_initKey = initKey,
        kp_leafNode = leafNode, kp_extensions = extensions\<rparr>)"

definition okKeyPackageTBS :: "keyPackageTBS \<Rightarrow> bool" where
  [ok_defs]: "okKeyPackageTBS k \<longleftrightarrow> ok_open ciphersuites (kp_cipherSuite k) \<and>
     okLeafNodeFrom LNS_key_package (kp_leafNode k) \<and> list_all okExtension (kp_extensions k)"

interpretation keyPackageTBS: item_codec okKeyPackageTBS encodeKeyPackageTBS decodeKeyPackageTBS
  unfolding encodeKeyPackageTBS_def decodeKeyPackageTBS_def
  by (rule item_record, (rule codec_intros)+) (auto simp: okKeyPackageTBS_def)

declare keyPackageTBS.item_codec_axioms [codec_intros]

record keyPackage = keyPackageTBS +
  kp_signature :: bytes

lemmas keyPackage_record_defs = keyPackageTBS.truncate_def keyPackageTBS.extend_def keyPackage.fields_def

definition encodeKeyPackage :: "keyPackage encoder" where
  "encodeKeyPackage = contramapEncoders (encPair encodeKeyPackageTBS encodeVarLenData)
     (\<lambda>k. (keyPackageTBS.truncate k, kp_signature k))"

definition decodeKeyPackage :: "keyPackage decoder" where
  "decodeKeyPackage = mapDecoders (decPair decodeKeyPackageTBS decodeVarLenData)
     (\<lambda>(tbs, signature). keyPackageTBS.extend tbs (keyPackage.fields signature))"

definition okKeyPackage :: "keyPackage \<Rightarrow> bool" where
  [ok_defs]: "okKeyPackage k \<longleftrightarrow> okKeyPackageTBS (keyPackageTBS.truncate k)"

interpretation keyPackage: item_codec okKeyPackage encodeKeyPackage decodeKeyPackage
  unfolding encodeKeyPackage_def decodeKeyPackage_def
  by (rule item_record, (rule codec_intros)+)
    (auto simp: okKeyPackage_def okKeyPackageTBS_def keyPackage_record_defs)

record externalSender =
  es_signaturePublicKey :: bytes
  es_credential :: credential

definition encodeExternalSender :: "externalSender encoder" where
  "encodeExternalSender = contramapEncoders (encPair encodeVarLenData encodeCredential)
     (\<lambda>e. (es_signaturePublicKey e, es_credential e))"

definition decodeExternalSender :: "externalSender decoder" where
  "decodeExternalSender = mapDecoders (decPair decodeVarLenData decodeCredential)
     (\<lambda>(k, c). \<lparr>es_signaturePublicKey = k, es_credential = c\<rparr>)"

definition okExternalSender :: "externalSender \<Rightarrow> bool" where
  [ok_defs]: "okExternalSender e \<longleftrightarrow> okCredential (es_credential e)"

interpretation externalSender: item_codec okExternalSender encodeExternalSender decodeExternalSender
  unfolding encodeExternalSender_def decodeExternalSender_def
  by (rule item_record, (rule codec_intros)+) (auto simp: okExternalSender_def)

definition encodeExternalSenders :: "externalSender list encoder" where
  "encodeExternalSenders = encodeVarLenType encodeExternalSender"

definition decodeExternalSenders :: "externalSender list decoder" where
  "decodeExternalSenders = decodeVarLenType decodeExternalSender"

interpretation externalSenders:
  item_codec "list_all okExternalSender" encodeExternalSenders decodeExternalSenders
  unfolding encodeExternalSenders_def decodeExternalSenders_def
  by (rule item_varLenType [OF externalSender.item_codec_axioms])

record requiredCapabilities =
  rc_extensionTypes :: "int list"
  rc_proposalTypes :: "int list"
  rc_credentialTypes :: "credentialTypeName list"

definition encodeRequiredCapabilities :: "requiredCapabilities encoder" where
  "encodeRequiredCapabilities = contramapEncoders
     (encPair (encodeVarLenType encodeUint16)
     (encPair (encodeVarLenType encodeUint16) (encodeVarLenType encodeCredentialType)))
     (\<lambda>rc. (rc_extensionTypes rc, rc_proposalTypes rc, rc_credentialTypes rc))"

definition decodeRequiredCapabilities :: "requiredCapabilities decoder" where
  "decodeRequiredCapabilities = mapDecoders
     (decPair (decodeVarLenType decodeUint16)
     (decPair (decodeVarLenType decodeUint16) (decodeVarLenType decodeCredentialType)))
     (\<lambda>(e, p, c). \<lparr>rc_extensionTypes = e, rc_proposalTypes = p, rc_credentialTypes = c\<rparr>)"

definition okRequiredCapabilities :: "requiredCapabilities \<Rightarrow> bool" where
  [ok_defs]: "okRequiredCapabilities rc \<longleftrightarrow> list_all (ok_open credentialTypes) (rc_credentialTypes rc)"

interpretation requiredCapabilities:
  item_codec okRequiredCapabilities encodeRequiredCapabilities decodeRequiredCapabilities
  unfolding encodeRequiredCapabilities_def decodeRequiredCapabilities_def
  by (rule item_record, (rule codec_intros)+) (auto simp: okRequiredCapabilities_def)

section \<open>Pre-shared key identifiers\<close>

datatype pskTypeName = PSK_external | PSK_resumption

definition pskTypes :: "(pskTypeName \<times> int) list" where
  "pskTypes = [(PSK_external, 1), (PSK_resumption, 2)]"

definition encodePskType :: "pskTypeName encoder" where
  "encodePskType = encodeEnum encodeUint8 pskTypes"

definition decodePskType :: "pskTypeName decoder" where
  "decodePskType = mapDecoderOption decodeUint8 (enumNumberToKey pskTypes)"

interpretation pskType: item_codec "\<lambda>_. True" encodePskType decodePskType
  unfolding encodePskType_def decodePskType_def
  by (rule item_closed_enum [OF uint8.item_codec_axioms]) (auto simp: pskTypes_def intro: pskTypeName.exhaust)

datatype resumptionPSKUsageName = RU_application | RU_reinit | RU_branch

definition resumptionPSKUsages :: "(resumptionPSKUsageName \<times> int) list" where
  "resumptionPSKUsages = [(RU_application, 1), (RU_reinit, 2), (RU_branch, 3)]"

definition encodeResumptionPSKUsage :: "resumptionPSKUsageName encoder" where
  "encodeResumptionPSKUsage = encodeEnum encodeUint8 resumptionPSKUsages"

definition decodeResumptionPSKUsage :: "resumptionPSKUsageName decoder" where
  "decodeResumptionPSKUsage = mapDecoderOption decodeUint8 (enumNumberToKey resumptionPSKUsages)"

interpretation resumptionPSKUsage: item_codec "\<lambda>_. True" encodeResumptionPSKUsage decodeResumptionPSKUsage
  unfolding encodeResumptionPSKUsage_def decodeResumptionPSKUsage_def
  by (rule item_closed_enum [OF uint8.item_codec_axioms])
    (auto simp: resumptionPSKUsages_def intro: resumptionPSKUsageName.exhaust)

lemmas keyPackage_codecs [codec_intros] =
  keyPackage.item_codec_axioms keyPackage.codec_axioms
  pskType.item_codec_axioms pskType.codec_axioms
  resumptionPSKUsage.item_codec_axioms resumptionPSKUsage.codec_axioms

datatype pskInfo =
    PskExternal bytes
  | PskResumption resumptionPSKUsageName bytes int

definition pskTypeOf :: "pskInfo \<Rightarrow> pskTypeName" where
  "pskTypeOf i = (case i of PskExternal _ \<Rightarrow> PSK_external | PskResumption _ _ _ \<Rightarrow> PSK_resumption)"

definition encodePskInfoExternal :: "bytes encoder" where
  "encodePskInfoExternal = contramapEncoders (encPair encodePskType encodeVarLenData)
     (\<lambda>pskId. (PSK_external, pskId))"

definition encodePskInfoResumption :: "(resumptionPSKUsageName \<times> bytes \<times> int) encoder" where
  "encodePskInfoResumption = contramapEncoders
     (encPair encodePskType (encPair encodeResumptionPSKUsage (encPair encodeVarLenData encodeUint64)))
     (\<lambda>(usage, pskGroupId, pskEpoch). (PSK_resumption, usage, pskGroupId, pskEpoch))"

definition decodePskInfoResumption :: "(resumptionPSKUsageName \<times> bytes \<times> int) decoder" where
  "decodePskInfoResumption = mapDecoders
     (decPair decodeResumptionPSKUsage (decPair decodeVarLenData decodeUint64)) (\<lambda>t. t)"

definition encodePskInfo :: "pskInfo encoder" where
  "encodePskInfo info = (case info of
     PskExternal pskId \<Rightarrow> encodePskInfoExternal pskId
   | PskResumption u g e \<Rightarrow> encodePskInfoResumption (u, g, e))"

definition decodePskInfo :: "pskInfo decoder" where
  "decodePskInfo = flatMapDecoder decodePskType (\<lambda>t. case t of
     PSK_external \<Rightarrow> mapDecoder decodeVarLenData PskExternal
   | PSK_resumption \<Rightarrow> mapDecoder decodePskInfoResumption (\<lambda>(u, g, e). PskResumption u g e))"

definition okPskInfo :: "pskInfo \<Rightarrow> bool" where
  [ok_defs]: "okPskInfo i = (case i of PskExternal _ \<Rightarrow> True | PskResumption _ _ e \<Rightarrow> wf_uint64 e)"

interpretation pskInfo: item_codec okPskInfo encodePskInfo decodePskInfo
proof -
  let ?er = "encPair encodeResumptionPSKUsage (encPair encodeVarLenData encodeUint64)"
  let ?eb = "\<lambda>i. case i of PskExternal p \<Rightarrow> encodeVarLenData p | PskResumption u g e \<Rightarrow> ?er (u, g, e)"
  let ?ok = "\<lambda>t. case t of PSK_external \<Rightarrow> (\<lambda>i. \<exists>p. i = PskExternal p \<and> True)
     | PSK_resumption \<Rightarrow> (\<lambda>i. \<exists>z. i = (case z of (u, g, e) \<Rightarrow> PskResumption u g e) \<and>
          (True \<and> True \<and> wf_uint64 (snd (snd z))))"
  have "item_codec (\<lambda>i. True \<and> ?ok (pskTypeOf i) i) (encTagged encodePskType pskTypeOf (\<lambda>_. ?eb)) decodePskInfo"
    unfolding decodePskInfo_def
  proof (rule item_tagged [OF pskType.item_codec_axioms])
    fix t
    have x: "codec (?ok PSK_external) ?eb (mapDecoder decodeVarLenData PskExternal)"
      unfolding pskTypeName.case by (rule codec_ctor) (auto intro: codec_intros)
    have "codec (\<lambda>z. True \<and> True \<and> wf_uint64 (snd (snd z))) ?er decodePskInfoResumption"
      unfolding decodePskInfoResumption_def mapDecoders_eq_mapDecoder
      by (rule codec_cong [OF codec_map [where f = "\<lambda>t. t" and okU = "\<lambda>z. True \<and> True \<and> wf_uint64 (snd (snd z))"]],
          (rule codec_intros)+) (auto simp: contramapEncoder_def)
    then have r: "codec (?ok PSK_resumption) ?eb
        (mapDecoder decodePskInfoResumption (\<lambda>(u, g, e). PskResumption u g e))"
      unfolding pskTypeName.case by (rule codec_ctor) (auto split: prod.splits)
    show "codec (?ok t) ?eb (case t of PSK_external \<Rightarrow> mapDecoder decodeVarLenData PskExternal
       | PSK_resumption \<Rightarrow> mapDecoder decodePskInfoResumption (\<lambda>(u, g, e). PskResumption u g e))"
      using x r by (cases t) simp_all
  qed (auto simp: pskTypeOf_def split: pskTypeName.splits)
  then show "item_codec okPskInfo encodePskInfo decodePskInfo"
    by (rule item_cong)
      (auto simp: okPskInfo_def pskTypeOf_def encTagged_def encodePskInfo_def encodePskInfoExternal_def
        encodePskInfoResumption_def contramapEncoders_def encPair_def split: pskInfo.splits)
qed

declare pskInfo.item_codec_axioms [codec_intros]

record preSharedKeyID =
  psk_info :: pskInfo
  psk_nonce :: bytes

definition encodePskId :: "preSharedKeyID encoder" where
  "encodePskId = contramapEncoders (encPair encodePskInfo encodeVarLenData)
     (\<lambda>p. (psk_info p, psk_nonce p))"

definition decodePskId :: "preSharedKeyID decoder" where
  "decodePskId = mapDecoders (decPair decodePskInfo decodeVarLenData)
     (\<lambda>(i, n). \<lparr>psk_info = i, psk_nonce = n\<rparr>)"

definition okPskId :: "preSharedKeyID \<Rightarrow> bool" where
  [ok_defs]: "okPskId p \<longleftrightarrow> okPskInfo (psk_info p)"

interpretation pskId: item_codec okPskId encodePskId decodePskId
  unfolding encodePskId_def decodePskId_def
  by (rule item_record, (rule codec_intros)+) (auto simp: okPskId_def)

lemmas pskId_codecs [codec_intros] = pskId.item_codec_axioms pskId.codec_axioms

record pskLabel =
  pl_id :: preSharedKeyID
  pl_index :: int
  pl_count :: int

definition encodePskLabel :: "pskLabel encoder" where
  "encodePskLabel = contramapEncoders (encPair encodePskId (encPair encodeUint16 encodeUint16))
     (\<lambda>l. (pl_id l, pl_index l, pl_count l))"

definition decodePskLabel :: "pskLabel decoder" where
  "decodePskLabel = mapDecoders (decPair decodePskId (decPair decodeUint16 decodeUint16))
     (\<lambda>(i, x, c). \<lparr>pl_id = i, pl_index = x, pl_count = c\<rparr>)"

interpretation pskLabel: item_codec "\<lambda>l. okPskId (pl_id l)" encodePskLabel decodePskLabel
  unfolding encodePskLabel_def decodePskLabel_def
  by (rule item_record, (rule codec_intros)+) auto

section \<open>Proposals\<close>

datatype defaultProposalTypeName = PT_add | PT_update | PT_remove | PT_psk | PT_reinit
  | PT_external_init | PT_group_context_extensions

definition defaultProposalTypes :: "(defaultProposalTypeName \<times> int) list" where
  "defaultProposalTypes = [(PT_add, 1), (PT_update, 2), (PT_remove, 3), (PT_psk, 4),
     (PT_reinit, 5), (PT_external_init, 6), (PT_group_context_extensions, 7)]"

definition encodeDefaultProposalType :: "defaultProposalTypeName encoder" where
  "encodeDefaultProposalType = encodeEnum encodeUint16 defaultProposalTypes"

definition decodeDefaultProposalType :: "defaultProposalTypeName decoder" where
  "decodeDefaultProposalType = mapDecoderOption decodeUint16 (enumNumberToKey defaultProposalTypes)"

interpretation defaultProposalType:
  item_codec "\<lambda>_. True" encodeDefaultProposalType decodeDefaultProposalType
  unfolding encodeDefaultProposalType_def decodeDefaultProposalType_def
  by (rule item_closed_enum [OF uint16.item_codec_axioms])
    (auto simp: defaultProposalTypes_def intro: defaultProposalTypeName.exhaust)

record reinit =
  ri_groupId :: bytes
  ri_version :: protocolVersionName
  ri_cipherSuite :: ciphersuiteName
  ri_extensions :: "extension list"

definition encodeReinit :: "reinit encoder" where
  "encodeReinit = contramapEncoders
     (encPair encodeVarLenData (encPair encodeProtocolVersion
     (encPair encodeCiphersuite (encodeVarLenType encodeExtension))))
     (\<lambda>r. (ri_groupId r, ri_version r, ri_cipherSuite r, ri_extensions r))"

definition decodeReinit :: "reinit decoder" where
  "decodeReinit = mapDecoders
     (decPair decodeVarLenData (decPair decodeProtocolVersion
     (decPair decodeCiphersuite (decodeVarLenType decodeExtension))))
     (\<lambda>(groupId, version, cipherSuite, extensions).
       \<lparr>ri_groupId = groupId, ri_version = version, ri_cipherSuite = cipherSuite,
        ri_extensions = extensions\<rparr>)"

definition okReinit :: "reinit \<Rightarrow> bool" where
  [ok_defs]: "okReinit r \<longleftrightarrow> ok_open ciphersuites (ri_cipherSuite r) \<and> list_all okExtension (ri_extensions r)"

interpretation reinit: item_codec okReinit encodeReinit decodeReinit
  unfolding encodeReinit_def decodeReinit_def
  by (rule item_record, (rule codec_intros)+) (auto simp: okReinit_def)

datatype proposal =
    ProposalAdd keyPackage
  | ProposalUpdate leafNode
  | ProposalRemove int
  | ProposalPSK preSharedKeyID
  | ProposalReinit reinit
  | ProposalExternalInit bytes
  | ProposalGroupContextExtensions "extension list"
  | ProposalCustom int bytes

definition encodeProposalAdd :: "keyPackage encoder" where
  "encodeProposalAdd = contramapEncoders (encPair encodeDefaultProposalType encodeKeyPackage)
     (\<lambda>p. (PT_add, p))"

definition encodeProposalUpdate :: "leafNode encoder" where
  "encodeProposalUpdate = contramapEncoders (encPair encodeDefaultProposalType encodeLeafNode)
     (\<lambda>p. (PT_update, p))"

definition encodeProposalRemove :: "int encoder" where
  "encodeProposalRemove = contramapEncoders (encPair encodeDefaultProposalType encodeUint32)
     (\<lambda>p. (PT_remove, p))"

definition encodeProposalPSK :: "preSharedKeyID encoder" where
  "encodeProposalPSK = contramapEncoders (encPair encodeDefaultProposalType encodePskId)
     (\<lambda>p. (PT_psk, p))"

definition encodeProposalReinit :: "reinit encoder" where
  "encodeProposalReinit = contramapEncoders (encPair encodeDefaultProposalType encodeReinit)
     (\<lambda>p. (PT_reinit, p))"

definition encodeProposalExternalInit :: "bytes encoder" where
  "encodeProposalExternalInit = contramapEncoders (encPair encodeDefaultProposalType encodeVarLenData)
     (\<lambda>p. (PT_external_init, p))"

definition encodeProposalGroupContextExtensions :: "extension list encoder" where
  "encodeProposalGroupContextExtensions =
     contramapEncoders (encPair encodeDefaultProposalType (encodeVarLenType encodeExtension))
     (\<lambda>p. (PT_group_context_extensions, p))"

definition encodeProposalCustom :: "(int \<times> bytes) encoder" where
  "encodeProposalCustom = contramapEncoders (encPair encodeUint16 encodeVarLenData) (\<lambda>(t, d). (t, d))"

definition encodeProposal :: "proposal encoder" where
  "encodeProposal p = (case p of
     ProposalAdd a \<Rightarrow> encodeProposalAdd a
   | ProposalUpdate u \<Rightarrow> encodeProposalUpdate u
   | ProposalRemove r \<Rightarrow> encodeProposalRemove r
   | ProposalPSK k \<Rightarrow> encodeProposalPSK k
   | ProposalReinit r \<Rightarrow> encodeProposalReinit r
   | ProposalExternalInit e \<Rightarrow> encodeProposalExternalInit e
   | ProposalGroupContextExtensions g \<Rightarrow> encodeProposalGroupContextExtensions g
   | ProposalCustom t d \<Rightarrow> encodeProposalCustom (t, d))"

definition decodeProposalCustom :: "int \<Rightarrow> proposal decoder" where
  "decodeProposalCustom proposalType = mapDecoder decodeVarLenData (ProposalCustom proposalType)"

definition decodeProposal :: "proposal decoder" where
  "decodeProposal = flatMapDecoder decodeUint16 (\<lambda>n.
     case enumNumberToKey defaultProposalTypes n of
       Some PT_add \<Rightarrow> mapDecoder decodeKeyPackage ProposalAdd
     | Some PT_update \<Rightarrow> mapDecoder decodeLeafNodeUpdate ProposalUpdate
     | Some PT_remove \<Rightarrow> mapDecoder decodeUint32 ProposalRemove
     | Some PT_psk \<Rightarrow> mapDecoder decodePskId ProposalPSK
     | Some PT_reinit \<Rightarrow> mapDecoder decodeReinit ProposalReinit
     | Some PT_external_init \<Rightarrow> mapDecoder decodeVarLenData ProposalExternalInit
     | Some PT_group_context_extensions \<Rightarrow>
         mapDecoder (decodeVarLenType decodeExtension) ProposalGroupContextExtensions
     | None \<Rightarrow> decodeProposalCustom n)"

text \<open>The number \<open>proposalType\<close> has on the wire.\<close>

definition proposalTypeNumber :: "proposal \<Rightarrow> int" where
  "proposalTypeNumber p = (case p of ProposalAdd _ \<Rightarrow> 1 | ProposalUpdate _ \<Rightarrow> 2 | ProposalRemove _ \<Rightarrow> 3
   | ProposalPSK _ \<Rightarrow> 4 | ProposalReinit _ \<Rightarrow> 5 | ProposalExternalInit _ \<Rightarrow> 6
   | ProposalGroupContextExtensions _ \<Rightarrow> 7 | ProposalCustom t _ \<Rightarrow> t)"

text \<open>A custom proposal round-trips when its number is none of the default ones.\<close>

definition okProposal :: "proposal \<Rightarrow> bool" where
  [ok_defs]: "okProposal p = (case p of
     ProposalAdd a \<Rightarrow> okKeyPackage a
   | ProposalUpdate u \<Rightarrow> okLeafNodeFrom LNS_update u
   | ProposalRemove _ \<Rightarrow> True
   | ProposalPSK k \<Rightarrow> okPskId k
   | ProposalReinit r \<Rightarrow> okReinit r
   | ProposalExternalInit _ \<Rightarrow> True
   | ProposalGroupContextExtensions g \<Rightarrow> list_all okExtension g
   | ProposalCustom t _ \<Rightarrow> t \<notin> set (map snd defaultProposalTypes))"

lemmas proposal_encoder_defs = encodeProposalAdd_def encodeProposalUpdate_def encodeProposalRemove_def
  encodeProposalPSK_def encodeProposalReinit_def encodeProposalExternalInit_def
  encodeProposalGroupContextExtensions_def encodeProposalCustom_def

lemma defaultProposalType_number:
  "enumNumberToKey defaultProposalTypes n = Some t \<longleftrightarrow> map_of defaultProposalTypes t = Some n"
  "enumNumberToKey defaultProposalTypes n = None \<longleftrightarrow> n \<notin> set (map snd defaultProposalTypes)"
  by (rule enumNumberToKey_iff enumNumberToKey_None; simp add: defaultProposalTypes_def)+

interpretation proposal: item_codec okProposal encodeProposal decodeProposal
proof -
  let ?eb = "\<lambda>p. case p of ProposalAdd a \<Rightarrow> encodeKeyPackage a | ProposalUpdate u \<Rightarrow> encodeLeafNode u
     | ProposalRemove r \<Rightarrow> encodeUint32 r | ProposalPSK k \<Rightarrow> encodePskId k | ProposalReinit r \<Rightarrow> encodeReinit r
     | ProposalExternalInit e \<Rightarrow> encodeVarLenData e
     | ProposalGroupContextExtensions g \<Rightarrow> encodeVarLenType encodeExtension g
     | ProposalCustom t d \<Rightarrow> encodeVarLenData d"
  let ?ok = "\<lambda>n p. proposalTypeNumber p = n \<and> okProposal p"
  let ?db = "\<lambda>n. case enumNumberToKey defaultProposalTypes n of
       Some PT_add \<Rightarrow> mapDecoder decodeKeyPackage ProposalAdd
     | Some PT_update \<Rightarrow> mapDecoder decodeLeafNodeUpdate ProposalUpdate
     | Some PT_remove \<Rightarrow> mapDecoder decodeUint32 ProposalRemove
     | Some PT_psk \<Rightarrow> mapDecoder decodePskId ProposalPSK
     | Some PT_reinit \<Rightarrow> mapDecoder decodeReinit ProposalReinit
     | Some PT_external_init \<Rightarrow> mapDecoder decodeVarLenData ProposalExternalInit
     | Some PT_group_context_extensions \<Rightarrow>
         mapDecoder (decodeVarLenType decodeExtension) ProposalGroupContextExtensions
     | None \<Rightarrow> decodeProposalCustom n"
  have tagged: "item_codec (\<lambda>p. True \<and> ?ok (proposalTypeNumber p) p)
      (encTagged encodeUint16 proposalTypeNumber (\<lambda>_. ?eb)) decodeProposal"
    unfolding decodeProposal_def
  proof (rule item_tagged [OF uint16.item_codec_axioms, where okb = ?ok and eb = "\<lambda>_. ?eb"])
    fix n
    show "codec (?ok n) ?eb (?db n)"
    proof (cases "enumNumberToKey defaultProposalTypes n")
      case None
      then have fresh: "n \<notin> {1, 2, 3, 4, 5, 6, 7}"
        unfolding defaultProposalType_number(2) by (simp add: defaultProposalTypes_def)
      show ?thesis unfolding None decodeProposalCustom_def option.case
        by (rule codec_ctor_cong [where C = "ProposalCustom n"], (rule codec_intros))
          (use fresh in \<open>auto simp: okProposal_def proposalTypeNumber_def defaultProposalTypes_def
            split: proposal.splits\<close>)
    next
      case (Some t)
      then have n: "map_of defaultProposalTypes t = Some n" unfolding defaultProposalType_number(1) .
      show ?thesis unfolding Some
        by (cases t; (simp only: option.case defaultProposalTypeName.case, rule codec_ctor_cong,
            (rule codec_intros reinit.codec_axioms)+, simp, simp,
            use n in \<open>case_tac u; auto simp: okProposal_def proposalTypeNumber_def defaultProposalTypes_def\<close>))
    qed
  qed auto
  then show "item_codec okProposal encodeProposal decodeProposal"
    by (rule item_cong)
      (auto simp: encTagged_def encodeProposal_def proposalTypeNumber_def proposal_encoder_defs
        contramapEncoders_def encPair_def encodeDefaultProposalType_def encodeEnum_def
        defaultProposalTypes_def split: proposal.splits)
qed

lemmas proposal_codecs [codec_intros] = proposal.item_codec_axioms proposal.codec_axioms

datatype proposalOrRefTypeName = PR_proposal | PR_reference

definition proposalOrRefTypes :: "(proposalOrRefTypeName \<times> int) list" where
  "proposalOrRefTypes = [(PR_proposal, 1), (PR_reference, 2)]"

definition encodeProposalOrRefType :: "proposalOrRefTypeName encoder" where
  "encodeProposalOrRefType = encodeEnum encodeUint8 proposalOrRefTypes"

definition decodeProposalOrRefType :: "proposalOrRefTypeName decoder" where
  "decodeProposalOrRefType = mapDecoderOption decodeUint8 (enumNumberToKey proposalOrRefTypes)"

interpretation proposalOrRefType: item_codec "\<lambda>_. True" encodeProposalOrRefType decodeProposalOrRefType
  unfolding encodeProposalOrRefType_def decodeProposalOrRefType_def
  by (rule item_closed_enum [OF uint8.item_codec_axioms])
    (auto simp: proposalOrRefTypes_def intro: proposalOrRefTypeName.exhaust)

datatype proposalOrRef = InlineProposal proposal | ReferencedProposal bytes

definition encodeProposalOrRefProposal :: "proposal encoder" where
  "encodeProposalOrRefProposal = contramapEncoders (encPair encodeProposalOrRefType encodeProposal)
     (\<lambda>p. (PR_proposal, p))"

definition encodeProposalOrRefProposalRef :: "bytes encoder" where
  "encodeProposalOrRefProposalRef = contramapEncoders (encPair encodeProposalOrRefType encodeVarLenData)
     (\<lambda>r. (PR_reference, r))"

definition encodeProposalOrRef :: "proposalOrRef encoder" where
  "encodeProposalOrRef input = (case input of
     InlineProposal p \<Rightarrow> encodeProposalOrRefProposal p
   | ReferencedProposal r \<Rightarrow> encodeProposalOrRefProposalRef r)"

definition decodeProposalOrRef :: "proposalOrRef decoder" where
  "decodeProposalOrRef = flatMapDecoder decodeProposalOrRefType (\<lambda>t. case t of
     PR_proposal \<Rightarrow> mapDecoder decodeProposal InlineProposal
   | PR_reference \<Rightarrow> mapDecoder decodeVarLenData ReferencedProposal)"

definition proposalOrRefTag :: "proposalOrRef \<Rightarrow> proposalOrRefTypeName" where
  "proposalOrRefTag r = (case r of InlineProposal _ \<Rightarrow> PR_proposal | ReferencedProposal _ \<Rightarrow> PR_reference)"

definition okProposalOrRef :: "proposalOrRef \<Rightarrow> bool" where
  [ok_defs]: "okProposalOrRef r = (case r of InlineProposal p \<Rightarrow> okProposal p | ReferencedProposal _ \<Rightarrow> True)"

interpretation proposalOrRef: item_codec okProposalOrRef encodeProposalOrRef decodeProposalOrRef
proof -
  let ?eb = "\<lambda>r. case r of InlineProposal p \<Rightarrow> encodeProposal p | ReferencedProposal b \<Rightarrow> encodeVarLenData b"
  let ?ok = "\<lambda>t r. proposalOrRefTag r = t \<and> okProposalOrRef r"
  have "item_codec (\<lambda>p. True \<and> ?ok (proposalOrRefTag p) p)
      (encTagged encodeProposalOrRefType proposalOrRefTag (\<lambda>_. ?eb)) decodeProposalOrRef"
    unfolding decodeProposalOrRef_def
  proof (rule item_tagged [OF proposalOrRefType.item_codec_axioms, where okb = ?ok and eb = "\<lambda>_. ?eb"])
    fix t
    show "codec (?ok t) ?eb (case t of PR_proposal \<Rightarrow> mapDecoder decodeProposal InlineProposal
       | PR_reference \<Rightarrow> mapDecoder decodeVarLenData ReferencedProposal)"
      by (cases t; (simp only: proposalOrRefTypeName.case, rule codec_ctor_cong,
          (rule codec_intros)+, simp, simp,
          case_tac u; auto simp: okProposalOrRef_def proposalOrRefTag_def))
  qed auto
  then show "item_codec okProposalOrRef encodeProposalOrRef decodeProposalOrRef"
    by (rule item_cong)
      (auto simp: encTagged_def encodeProposalOrRef_def proposalOrRefTag_def encodeProposalOrRefProposal_def
        encodeProposalOrRefProposalRef_def contramapEncoders_def encPair_def split: proposalOrRef.splits)
qed

lemmas proposalOrRef_codecs [codec_intros] = proposalOrRef.item_codec_axioms proposalOrRef.codec_axioms

section \<open>Update paths and commits\<close>

record hPKECiphertext =
  hc_kemOutput :: bytes
  hc_ciphertext :: bytes

definition encodeHpkeCiphertext :: "hPKECiphertext encoder" where
  "encodeHpkeCiphertext = contramapEncoders (encPair encodeVarLenData encodeVarLenData)
     (\<lambda>egs. (hc_kemOutput egs, hc_ciphertext egs))"

definition decodeHpkeCiphertext :: "hPKECiphertext decoder" where
  "decodeHpkeCiphertext = mapDecoders (decPair decodeVarLenData decodeVarLenData)
     (\<lambda>(k, c). \<lparr>hc_kemOutput = k, hc_ciphertext = c\<rparr>)"

interpretation hpkeCiphertext: item_codec "\<lambda>_. True" encodeHpkeCiphertext decodeHpkeCiphertext
  unfolding encodeHpkeCiphertext_def decodeHpkeCiphertext_def
  by (rule item_record, (rule codec_intros)+) auto

lemmas hpkeCiphertext_codecs [codec_intros] =
  hpkeCiphertext.item_codec_axioms hpkeCiphertext.codec_axioms

record updatePathNode =
  upn_hpkePublicKey :: bytes
  upn_encryptedPathSecret :: "hPKECiphertext list"

definition encodeUpdatePathNode :: "updatePathNode encoder" where
  "encodeUpdatePathNode = contramapEncoders (encPair encodeVarLenData (encodeVarLenType encodeHpkeCiphertext))
     (\<lambda>node. (upn_hpkePublicKey node, upn_encryptedPathSecret node))"

definition decodeUpdatePathNode :: "updatePathNode decoder" where
  "decodeUpdatePathNode = mapDecoders (decPair decodeVarLenData (decodeVarLenType decodeHpkeCiphertext))
     (\<lambda>(k, s). \<lparr>upn_hpkePublicKey = k, upn_encryptedPathSecret = s\<rparr>)"

interpretation updatePathNode: item_codec "\<lambda>_. True" encodeUpdatePathNode decodeUpdatePathNode
  unfolding encodeUpdatePathNode_def decodeUpdatePathNode_def
  by (rule item_record, (rule codec_intros)+) auto

declare updatePathNode.item_codec_axioms [codec_intros]

record updatePath =
  up_leafNode :: leafNode
  up_nodes :: "updatePathNode list"

definition encodeUpdatePath :: "updatePath encoder" where
  "encodeUpdatePath = contramapEncoders (encPair encodeLeafNode (encodeVarLenType encodeUpdatePathNode))
     (\<lambda>path. (up_leafNode path, up_nodes path))"

definition decodeUpdatePath :: "updatePath decoder" where
  "decodeUpdatePath = mapDecoders (decPair decodeLeafNodeCommit (decodeVarLenType decodeUpdatePathNode))
     (\<lambda>(l, ns). \<lparr>up_leafNode = l, up_nodes = ns\<rparr>)"

definition okUpdatePath :: "updatePath \<Rightarrow> bool" where
  [ok_defs]: "okUpdatePath p \<longleftrightarrow> okLeafNodeFrom LNS_commit (up_leafNode p)"

interpretation updatePath: item_codec okUpdatePath encodeUpdatePath decodeUpdatePath
  unfolding encodeUpdatePath_def decodeUpdatePath_def
  by (rule item_record, (rule codec_intros)+) (auto simp: okUpdatePath_def)

lemmas updatePath_codecs [codec_intros] = updatePath.item_codec_axioms updatePath.codec_axioms

record commit =
  cm_proposals :: "proposalOrRef list"
  cm_path :: "updatePath option"

definition encodeCommit :: "commit encoder" where
  "encodeCommit = contramapEncoders
     (encPair (encodeVarLenType encodeProposalOrRef) (encodeOptional encodeUpdatePath))
     (\<lambda>commit. (cm_proposals commit, cm_path commit))"

definition decodeCommit :: "commit decoder" where
  "decodeCommit = mapDecoders
     (decPair (decodeVarLenType decodeProposalOrRef) (decodeOptional decodeUpdatePath))
     (\<lambda>(proposals, path). \<lparr>cm_proposals = proposals, cm_path = path\<rparr>)"

definition okCommit :: "commit \<Rightarrow> bool" where
  [ok_defs]: "okCommit c \<longleftrightarrow> list_all okProposalOrRef (cm_proposals c) \<and>
     (\<forall>p\<in>set_option (cm_path c). okUpdatePath p)"

interpretation commit: item_codec okCommit encodeCommit decodeCommit
  unfolding encodeCommit_def decodeCommit_def
  by (rule item_record, (rule codec_intros)+) (auto simp: okCommit_def)

lemmas commit_codecs [codec_intros] = commit.item_codec_axioms commit.codec_axioms

end
