(* ===== verification/Messages.thy ===== *)
theory Messages imports Proposals begin

text \<open>
  Group contexts, senders, framed contents and the messages that carry them:
  \<^verbatim>\<open>src/group-context.ts\<close>, \<^verbatim>\<open>src/content-type.ts\<close>, \<^verbatim>\<open>src/wireformat.ts\<close>,
  \<^verbatim>\<open>src/sender.ts\<close>, \<^verbatim>\<open>src/framed-content.ts\<close>, \<^verbatim>\<open>src/authenticated-content.ts\<close>,
  \<^verbatim>\<open>src/transcript-hash.ts\<close>, \<^verbatim>\<open>src/private-message.ts\<close>, \<^verbatim>\<open>src/padding-config.ts\<close>,
  \<^verbatim>\<open>src/public-message.ts\<close>, \<^verbatim>\<open>src/group-info.ts\<close>, \<^verbatim>\<open>src/group-secrets.ts\<close>,
  \<^verbatim>\<open>src/welcome.ts\<close> and \<^verbatim>\<open>src/message.ts\<close>.
\<close>

section \<open>Enumerations\<close>

datatype contentTypeName = CT_application | CT_proposal | CT_commit

definition contentTypes :: "(contentTypeName \<times> int) list" where
  "contentTypes = [(CT_application, 1), (CT_proposal, 2), (CT_commit, 3)]"

definition encodeContentType :: "contentTypeName encoder" where
  "encodeContentType = encodeEnum encodeUint8 contentTypes"

definition decodeContentType :: "contentTypeName decoder" where
  "decodeContentType = mapDecoderOption decodeUint8 (enumNumberToKey contentTypes)"

interpretation contentType: item_codec "\<lambda>_. True" encodeContentType decodeContentType
  unfolding encodeContentType_def decodeContentType_def
  by (rule item_closed_enum [OF uint8.item_codec_axioms])
    (auto simp: contentTypes_def intro: contentTypeName.exhaust)

datatype wireformatName = WF_public_message | WF_private_message | WF_welcome | WF_group_info | WF_key_package

definition wireformats :: "(wireformatName \<times> int) list" where
  "wireformats = [(WF_public_message, 1), (WF_private_message, 2), (WF_welcome, 3),
     (WF_group_info, 4), (WF_key_package, 5)]"

definition encodeWireformat :: "wireformatName encoder" where
  "encodeWireformat = encodeEnum encodeUint16 wireformats"

definition decodeWireformat :: "wireformatName decoder" where
  "decodeWireformat = mapDecoderOption decodeUint16 (enumNumberToKey wireformats)"

interpretation wireformat: item_codec "\<lambda>_. True" encodeWireformat decodeWireformat
  unfolding encodeWireformat_def decodeWireformat_def
  by (rule item_closed_enum [OF uint16.item_codec_axioms])
    (auto simp: wireformats_def intro: wireformatName.exhaust)

datatype senderTypeName = ST_member | ST_external | ST_new_member_proposal | ST_new_member_commit

definition senderTypes :: "(senderTypeName \<times> int) list" where
  "senderTypes = [(ST_member, 1), (ST_external, 2), (ST_new_member_proposal, 3), (ST_new_member_commit, 4)]"

definition encodeSenderType :: "senderTypeName encoder" where
  "encodeSenderType = encodeEnum encodeUint8 senderTypes"

definition decodeSenderType :: "senderTypeName decoder" where
  "decodeSenderType = mapDecoderOption decodeUint8 (enumNumberToKey senderTypes)"

interpretation senderType: item_codec "\<lambda>_. True" encodeSenderType decodeSenderType
  unfolding encodeSenderType_def decodeSenderType_def
  by (rule item_closed_enum [OF uint8.item_codec_axioms])
    (auto simp: senderTypes_def intro: senderTypeName.exhaust)

lemmas message_enum_codecs [codec_intros] =
  contentType.item_codec_axioms contentType.codec_axioms
  wireformat.item_codec_axioms wireformat.codec_axioms
  senderType.item_codec_axioms senderType.codec_axioms

section \<open>Group context\<close>

record groupContext =
  gc_version :: protocolVersionName
  gc_cipherSuite :: ciphersuiteName
  gc_groupId :: bytes
  gc_epoch :: int
  gc_treeHash :: bytes
  gc_confirmedTranscriptHash :: bytes
  gc_extensions :: "extension list"

definition encodeGroupContext :: "groupContext encoder" where
  "encodeGroupContext = contramapEncoders
     (encPair encodeProtocolVersion (encPair encodeCiphersuite (encPair encodeVarLenData
     (encPair encodeUint64 (encPair encodeVarLenData (encPair encodeVarLenData
     (encodeVarLenType encodeExtension)))))))
     (\<lambda>gc. (gc_version gc, gc_cipherSuite gc, gc_groupId gc, gc_epoch gc, gc_treeHash gc,
            gc_confirmedTranscriptHash gc, gc_extensions gc))"

definition decodeGroupContext :: "groupContext decoder" where
  "decodeGroupContext = mapDecoders
     (decPair decodeProtocolVersion (decPair decodeCiphersuite (decPair decodeVarLenData
     (decPair decodeUint64 (decPair decodeVarLenData (decPair decodeVarLenData
     (decodeVarLenType decodeExtension)))))))
     (\<lambda>(version, cipherSuite, groupId, epoch, treeHash, confirmedTranscriptHash, extensions).
       \<lparr>gc_version = version, gc_cipherSuite = cipherSuite, gc_groupId = groupId, gc_epoch = epoch,
        gc_treeHash = treeHash, gc_confirmedTranscriptHash = confirmedTranscriptHash,
        gc_extensions = extensions\<rparr>)"

definition okGroupContext :: "groupContext \<Rightarrow> bool" where
  [ok_defs]: "okGroupContext gc \<longleftrightarrow> ok_open ciphersuites (gc_cipherSuite gc) \<and> wf_uint64 (gc_epoch gc) \<and>
     list_all okExtension (gc_extensions gc)"

interpretation groupContext: item_codec okGroupContext encodeGroupContext decodeGroupContext
  unfolding encodeGroupContext_def decodeGroupContext_def
  by (rule item_record, (rule codec_intros)+) (auto simp: okGroupContext_def)

lemmas groupContext_codecs [codec_intros] = groupContext.item_codec_axioms groupContext.codec_axioms

section \<open>Senders\<close>

datatype sender = SenderMember int | SenderExternal int | SenderNewMemberProposal | SenderNewMemberCommit

definition senderTypeOf :: "sender \<Rightarrow> senderTypeName" where
  "senderTypeOf s = (case s of SenderMember _ \<Rightarrow> ST_member | SenderExternal _ \<Rightarrow> ST_external
   | SenderNewMemberProposal \<Rightarrow> ST_new_member_proposal | SenderNewMemberCommit \<Rightarrow> ST_new_member_commit)"

definition encodeSender :: "sender encoder" where
  "encodeSender s = (case s of
     SenderMember leafIndex \<Rightarrow>
       contramapEncoders (encPair encodeSenderType encodeUint32) (\<lambda>i. (ST_member, i)) leafIndex
   | SenderExternal senderIndex \<Rightarrow>
       contramapEncoders (encPair encodeSenderType encodeUint32) (\<lambda>i. (ST_external, i)) senderIndex
   | SenderNewMemberProposal \<Rightarrow> encodeSenderType ST_new_member_proposal
   | SenderNewMemberCommit \<Rightarrow> encodeSenderType ST_new_member_commit)"

definition decodeSender :: "sender decoder" where
  "decodeSender = flatMapDecoder decodeSenderType (\<lambda>t. case t of
     ST_member \<Rightarrow> mapDecoder decodeUint32 SenderMember
   | ST_external \<Rightarrow> mapDecoder decodeUint32 SenderExternal
   | ST_new_member_proposal \<Rightarrow> mapDecoder decodeVoid (\<lambda>_. SenderNewMemberProposal)
   | ST_new_member_commit \<Rightarrow> mapDecoder decodeVoid (\<lambda>_. SenderNewMemberCommit))"

lemma mapDecoder_void: "mapDecoder decodeVoid (\<lambda>_. c) = succeedDecoder c"
  by (intro ext) (simp add: mapDecoder_def decodeVoid_def succeedDecoder_def)

interpretation sender: item_codec "\<lambda>_. True" encodeSender decodeSender
proof -
  let ?eb = "\<lambda>s. case s of SenderMember i \<Rightarrow> encodeUint32 i | SenderExternal i \<Rightarrow> encodeUint32 i | _ \<Rightarrow> Inr []"
  let ?ok = "\<lambda>t s. senderTypeOf s = t"
  have "item_codec (\<lambda>s. True \<and> ?ok (senderTypeOf s) s)
      (encTagged encodeSenderType senderTypeOf (\<lambda>_. ?eb)) decodeSender"
    unfolding decodeSender_def mapDecoder_void
  proof (rule item_tagged [OF senderType.item_codec_axioms, where okb = ?ok and eb = "\<lambda>_. ?eb"])
    fix t
    show "codec (?ok t) ?eb (case t of
       ST_member \<Rightarrow> mapDecoder decodeUint32 SenderMember
     | ST_external \<Rightarrow> mapDecoder decodeUint32 SenderExternal
     | ST_new_member_proposal \<Rightarrow> succeedDecoder SenderNewMemberProposal
     | ST_new_member_commit \<Rightarrow> succeedDecoder SenderNewMemberCommit)"
      by (cases t; (simp only: senderTypeName.case,
          ((rule codec_ctor_cong [OF uint32.codec_axioms], simp, simp,
             (case_tac u; simp add: senderTypeOf_def)) |
           (rule codec_const_cong, simp, (case_tac u; simp add: senderTypeOf_def)))))
  qed auto
  then show "item_codec (\<lambda>_. True) encodeSender decodeSender"
    by (rule item_cong)
      (auto simp: encTagged_def encodeSender_def senderTypeOf_def contramapEncoders_def encPair_def
        res_bind_Inr_right split: sender.splits)
qed

lemmas sender_codecs [codec_intros] = sender.item_codec_axioms sender.codec_axioms

definition getSenderLeafNodeIndex :: "sender \<Rightarrow> int option" where
  "getSenderLeafNodeIndex s = (case s of SenderMember i \<Rightarrow> Some i | _ \<Rightarrow> None)"

text \<open>
  The reuse guard is the raw four bytes; its decoder checks the bound itself.  The type of
  the sources brands the array with its length, here the predicate of the codec.
\<close>

record senderData =
  sd_leafIndex :: int
  sd_generation :: int
  sd_reuseGuard :: bytes

definition encodeReuseGuard :: "bytes encoder" where
  "encodeReuseGuard g = Inr g"

definition decodeReuseGuard :: "bytes decoder" where
  "decodeReuseGuard b off = (if off + 4 > length b then Inr None
     else Inr (Some (take 4 (drop off b), 4)))"

interpretation reuseGuard: codec "\<lambda>g. length g = 4" encodeReuseGuard decodeReuseGuard
  by (rule codec.intro) (auto simp: encodeReuseGuard_def decodeReuseGuard_def split: if_splits)

definition encodeSenderData :: "senderData encoder" where
  "encodeSenderData = contramapEncoders (encPair encodeUint32 (encPair encodeUint32 encodeReuseGuard))
     (\<lambda>s. (sd_leafIndex s, sd_generation s, sd_reuseGuard s))"

definition decodeSenderData :: "senderData decoder" where
  "decodeSenderData = mapDecoders (decPair decodeUint32 (decPair decodeUint32 decodeReuseGuard))
     (\<lambda>(leafIndex, generation, reuseGuard).
       \<lparr>sd_leafIndex = leafIndex, sd_generation = generation, sd_reuseGuard = reuseGuard\<rparr>)"

interpretation senderData: item_codec "\<lambda>s. length (sd_reuseGuard s) = 4" encodeSenderData decodeSenderData
  unfolding encodeSenderData_def decodeSenderData_def
  by (rule item_record, (rule codec_intros reuseGuard.codec_axioms)+) auto

record senderDataAAD =
  sda_groupId :: bytes
  sda_epoch :: int
  sda_contentType :: contentTypeName

definition encodeSenderDataAAD :: "senderDataAAD encoder" where
  "encodeSenderDataAAD = contramapEncoders (encPair encodeVarLenData (encPair encodeUint64 encodeContentType))
     (\<lambda>aad. (sda_groupId aad, sda_epoch aad, sda_contentType aad))"

definition decodeSenderDataAAD :: "senderDataAAD decoder" where
  "decodeSenderDataAAD = mapDecoders (decPair decodeVarLenData (decPair decodeUint64 decodeContentType))
     (\<lambda>(groupId, epoch, contentType).
       \<lparr>sda_groupId = groupId, sda_epoch = epoch, sda_contentType = contentType\<rparr>)"

interpretation senderDataAAD: item_codec "\<lambda>a. wf_uint64 (sda_epoch a)" encodeSenderDataAAD decodeSenderDataAAD
  unfolding encodeSenderDataAAD_def decodeSenderDataAAD_def
  by (rule item_record, (rule codec_intros)+) auto

definition sampleCiphertext :: "nat \<Rightarrow> bytes \<Rightarrow> bytes" where
  "sampleCiphertext kdfSize ciphertext =
     (if length ciphertext < kdfSize then ciphertext else take kdfSize ciphertext)"

section \<open>Framed content\<close>

datatype framedContentInfo = FC_application bytes | FC_proposal proposal | FC_commit commit

definition contentTypeOf :: "framedContentInfo \<Rightarrow> contentTypeName" where
  "contentTypeOf fc = (case fc of FC_application _ \<Rightarrow> CT_application | FC_proposal _ \<Rightarrow> CT_proposal
   | FC_commit _ \<Rightarrow> CT_commit)"

definition encodeFramedContentApplicationData :: "bytes encoder" where
  "encodeFramedContentApplicationData = contramapEncoders (encPair encodeContentType encodeVarLenData)
     (\<lambda>f. (CT_application, f))"

definition encodeFramedContentProposalData :: "proposal encoder" where
  "encodeFramedContentProposalData = contramapEncoders (encPair encodeContentType encodeProposal)
     (\<lambda>f. (CT_proposal, f))"

definition encodeFramedContentCommitData :: "commit encoder" where
  "encodeFramedContentCommitData = contramapEncoders (encPair encodeContentType encodeCommit)
     (\<lambda>f. (CT_commit, f))"

definition encodeFramedContentInfo :: "framedContentInfo encoder" where
  "encodeFramedContentInfo fc = (case fc of
     FC_application d \<Rightarrow> encodeFramedContentApplicationData d
   | FC_proposal p \<Rightarrow> encodeFramedContentProposalData p
   | FC_commit c \<Rightarrow> encodeFramedContentCommitData c)"

definition decodeFramedContentInfo :: "framedContentInfo decoder" where
  "decodeFramedContentInfo = flatMapDecoder decodeContentType (\<lambda>t. case t of
     CT_application \<Rightarrow> mapDecoder decodeVarLenData FC_application
   | CT_proposal \<Rightarrow> mapDecoder decodeProposal FC_proposal
   | CT_commit \<Rightarrow> mapDecoder decodeCommit FC_commit)"

definition okFramedContentInfo :: "framedContentInfo \<Rightarrow> bool" where
  [ok_defs]: "okFramedContentInfo fc = (case fc of FC_application _ \<Rightarrow> True | FC_proposal p \<Rightarrow> okProposal p
   | FC_commit c \<Rightarrow> okCommit c)"

interpretation framedContentInfo:
  item_codec okFramedContentInfo encodeFramedContentInfo decodeFramedContentInfo
proof -
  let ?eb = "\<lambda>f. case f of FC_application d \<Rightarrow> encodeVarLenData d | FC_proposal p \<Rightarrow> encodeProposal p
     | FC_commit c \<Rightarrow> encodeCommit c"
  let ?ok = "\<lambda>t f. contentTypeOf f = t \<and> okFramedContentInfo f"
  have "item_codec (\<lambda>f. True \<and> ?ok (contentTypeOf f) f)
      (encTagged encodeContentType contentTypeOf (\<lambda>_. ?eb)) decodeFramedContentInfo"
    unfolding decodeFramedContentInfo_def
  proof (rule item_tagged [OF contentType.item_codec_axioms, where okb = ?ok and eb = "\<lambda>_. ?eb"])
    fix t
    show "codec (?ok t) ?eb (case t of CT_application \<Rightarrow> mapDecoder decodeVarLenData FC_application
       | CT_proposal \<Rightarrow> mapDecoder decodeProposal FC_proposal
       | CT_commit \<Rightarrow> mapDecoder decodeCommit FC_commit)"
      by (cases t; (simp only: contentTypeName.case, rule codec_ctor_cong, (rule codec_intros)+, simp, simp,
          (case_tac u; auto simp: okFramedContentInfo_def contentTypeOf_def)))
  qed auto
  then show "item_codec okFramedContentInfo encodeFramedContentInfo decodeFramedContentInfo"
    by (rule item_cong)
      (auto simp: encTagged_def encodeFramedContentInfo_def contentTypeOf_def
        encodeFramedContentApplicationData_def encodeFramedContentProposalData_def
        encodeFramedContentCommitData_def contramapEncoders_def encPair_def split: framedContentInfo.splits)
qed

lemmas framedContentInfo_codecs [codec_intros] =
  framedContentInfo.item_codec_axioms framedContentInfo.codec_axioms

record framedContent =
  fc_groupId :: bytes
  fc_epoch :: int
  fc_sender :: sender
  fc_authenticatedData :: bytes
  fc_info :: framedContentInfo

definition encodeFramedContent :: "framedContent encoder" where
  "encodeFramedContent = contramapEncoders
     (encPair encodeVarLenData (encPair encodeUint64 (encPair encodeSender
     (encPair encodeVarLenData encodeFramedContentInfo))))
     (\<lambda>fc. (fc_groupId fc, fc_epoch fc, fc_sender fc, fc_authenticatedData fc, fc_info fc))"

definition decodeFramedContent :: "framedContent decoder" where
  "decodeFramedContent = mapDecoders
     (decPair decodeVarLenData (decPair decodeUint64 (decPair decodeSender
     (decPair decodeVarLenData decodeFramedContentInfo))))
     (\<lambda>(groupId, epoch, sender, authenticatedData, info).
       \<lparr>fc_groupId = groupId, fc_epoch = epoch, fc_sender = sender,
        fc_authenticatedData = authenticatedData, fc_info = info\<rparr>)"

definition okFramedContent :: "framedContent \<Rightarrow> bool" where
  [ok_defs]: "okFramedContent fc \<longleftrightarrow> wf_uint64 (fc_epoch fc) \<and> okFramedContentInfo (fc_info fc)"

interpretation framedContent: item_codec okFramedContent encodeFramedContent decodeFramedContent
  unfolding encodeFramedContent_def decodeFramedContent_def
  by (rule item_record, (rule codec_intros)+) (auto simp: okFramedContent_def)

lemmas framedContent_codecs [codec_intros] = framedContent.item_codec_axioms framedContent.codec_axioms

text \<open>
  What is signed: the framed content under its protocol version and wire format, followed by
  the group context when the sender is a member or joins by an external commit.
\<close>

datatype senderInfo = SI_member groupContext | SI_new_member_commit groupContext
  | SI_external | SI_new_member_proposal

record framedContentTBS =
  ft_protocolVersion :: protocolVersionName
  ft_wireformat :: wireformatName
  ft_content :: framedContent
  ft_senderInfo :: senderInfo

definition toTbsContent :: "framedContent \<Rightarrow> wireformatName \<Rightarrow> groupContext \<Rightarrow> framedContentTBS" where
  "toTbsContent content wireformat context =
     \<lparr>ft_protocolVersion = gc_version context, ft_wireformat = wireformat, ft_content = content,
      ft_senderInfo = (case senderTypeOf (fc_sender content) of
        ST_member \<Rightarrow> SI_member context | ST_new_member_commit \<Rightarrow> SI_new_member_commit context
      | ST_external \<Rightarrow> SI_external | ST_new_member_proposal \<Rightarrow> SI_new_member_proposal)\<rparr>"

definition encodeSenderInfo :: "senderInfo encoder" where
  "encodeSenderInfo info = (case info of
     SI_member context \<Rightarrow> encodeGroupContext context
   | SI_new_member_commit context \<Rightarrow> encodeGroupContext context
   | SI_external \<Rightarrow> Inr []
   | SI_new_member_proposal \<Rightarrow> Inr [])"

definition encodeFramedContentTBS :: "framedContentTBS encoder" where
  "encodeFramedContentTBS = contramapEncoders
     (encPair encodeProtocolVersion (encPair encodeWireformat (encPair encodeFramedContent encodeSenderInfo)))
     (\<lambda>f. (ft_protocolVersion f, ft_wireformat f, ft_content f, ft_senderInfo f))"

section \<open>Authentication data\<close>

text \<open>A confirmation tag belongs to commits only; the content type picks the decoder.\<close>

datatype authContent = AuthCommit bytes | AuthApplication | AuthProposal

record framedContentAuthData =
  fa_signature :: bytes
  fa_content :: authContent

definition authContentType :: "authContent \<Rightarrow> contentTypeName" where
  "authContentType a = (case a of AuthCommit _ \<Rightarrow> CT_commit | AuthApplication \<Rightarrow> CT_application
   | AuthProposal \<Rightarrow> CT_proposal)"

definition encodeFramedContentAuthDataContent :: "authContent encoder" where
  "encodeFramedContentAuthDataContent a = (case a of
     AuthCommit confirmationTag \<Rightarrow> encodeVarLenData confirmationTag
   | AuthApplication \<Rightarrow> Inr [] | AuthProposal \<Rightarrow> Inr [])"

definition encodeFramedContentAuthData :: "framedContentAuthData encoder" where
  "encodeFramedContentAuthData = contramapEncoders
     (encPair encodeVarLenData encodeFramedContentAuthDataContent) (\<lambda>d. (fa_signature d, fa_content d))"

definition decodeFramedContentAuthDataCommit :: "authContent decoder" where
  "decodeFramedContentAuthDataCommit = mapDecoder decodeVarLenData AuthCommit"

definition decodeFramedContentAuthData :: "contentTypeName \<Rightarrow> framedContentAuthData decoder" where
  "decodeFramedContentAuthData contentType = (case contentType of
     CT_commit \<Rightarrow> mapDecoders (decPair decodeVarLenData decodeFramedContentAuthDataCommit)
       (\<lambda>(signature, commitData). \<lparr>fa_signature = signature, fa_content = commitData\<rparr>)
   | CT_application \<Rightarrow> mapDecoder decodeVarLenData
       (\<lambda>signature. \<lparr>fa_signature = signature, fa_content = AuthApplication\<rparr>)
   | CT_proposal \<Rightarrow> mapDecoder decodeVarLenData
       (\<lambda>signature. \<lparr>fa_signature = signature, fa_content = AuthProposal\<rparr>))"

lemma authDataCommit_codec:
  "codec (\<lambda>a. authContentType a = CT_commit) encodeFramedContentAuthDataContent decodeFramedContentAuthDataCommit"
  unfolding decodeFramedContentAuthDataCommit_def
  by (rule codec_ctor_cong [OF varLenData.codec_axioms])
    (auto simp: encodeFramedContentAuthDataContent_def authContentType_def split: authContent.splits)

lemma authData_codec:
  "codec (\<lambda>d. authContentType (fa_content d) = t) encodeFramedContentAuthData (decodeFramedContentAuthData t)"
proof (cases "t = CT_commit")
  case True
  have "codec (\<lambda>d. authContentType (fa_content d) = CT_commit) encodeFramedContentAuthData
      (mapDecoders (decPair decodeVarLenData decodeFramedContentAuthDataCommit)
        (\<lambda>(signature, commitData). \<lparr>fa_signature = signature, fa_content = commitData\<rparr>))"
    unfolding encodeFramedContentAuthData_def
    by (rule codec_record, (rule codec_intros authDataCommit_codec)+) auto
  then show ?thesis by (simp add: True decodeFramedContentAuthData_def)
next
  case False
  have c: "codec (\<lambda>d. fa_content d = a) encodeFramedContentAuthData
      (mapDecoder decodeVarLenData (\<lambda>signature. \<lparr>fa_signature = signature, fa_content = a\<rparr>))"
    if "encodeFramedContentAuthDataContent a = Inr []" for a
  proof (rule codec_ctor_cong [OF varLenData.codec_axioms])
    show "fa_content u = a \<longleftrightarrow> (\<exists>t. u = \<lparr>fa_signature = t, fa_content = a\<rparr> \<and> True)" for u
      by (cases u) auto
  qed (use that in \<open>auto simp: encodeFramedContentAuthData_def contramapEncoders_def encPair_def res_bind_Inr_right\<close>)
  have e: "authContentType a = CT_application \<longleftrightarrow> a = AuthApplication"
    "authContentType a = CT_proposal \<longleftrightarrow> a = AuthProposal" for a
    by (auto simp: authContentType_def split: authContent.splits)
  show ?thesis using False c [of AuthApplication] c [of AuthProposal]
    by (cases t) (simp_all add: e decodeFramedContentAuthData_def encodeFramedContentAuthDataContent_def)
qed

section \<open>Authenticated content and the transcript hash\<close>

record authenticatedContent =
  ac_wireformat :: wireformatName
  ac_content :: framedContent
  ac_auth :: framedContentAuthData

definition encodeAuthenticatedContent :: "authenticatedContent encoder" where
  "encodeAuthenticatedContent = contramapEncoders
     (encPair encodeWireformat (encPair encodeFramedContent encodeFramedContentAuthData))
     (\<lambda>a. (ac_wireformat a, ac_content a, ac_auth a))"

definition decodeAuthenticatedContent :: "authenticatedContent decoder" where
  "decodeAuthenticatedContent = mapDecoders
     (decPair decodeWireformat (flatMapDecoder decodeFramedContent (\<lambda>content.
        mapDecoder (decodeFramedContentAuthData (contentTypeOf (fc_info content))) (\<lambda>auth. (content, auth)))))
     (\<lambda>(wireformat, content, auth).
       \<lparr>ac_wireformat = wireformat, ac_content = content, ac_auth = auth\<rparr>)"

definition authMatches :: "framedContent \<Rightarrow> framedContentAuthData \<Rightarrow> bool" where
  "authMatches c a \<longleftrightarrow> authContentType (fa_content a) = contentTypeOf (fc_info c)"

definition okAuthenticatedContent :: "authenticatedContent \<Rightarrow> bool" where
  [ok_defs]: "okAuthenticatedContent a \<longleftrightarrow> okFramedContent (ac_content a) \<and> authMatches (ac_content a) (ac_auth a)"

lemma auth_codec:
  "codec (authMatches c) encodeFramedContentAuthData (decodeFramedContentAuthData (contentTypeOf (fc_info c)))"
  by (rule codec_cong [OF authData_codec]) (auto simp: authMatches_def)

lemma content_auth_codec:
  "item_codec (\<lambda>z. okFramedContent (fst z) \<and> authMatches (fst z) (snd z))
     (encPair encodeFramedContent encodeFramedContentAuthData)
     (flatMapDecoder decodeFramedContent (\<lambda>content.
        mapDecoder (decodeFramedContentAuthData (contentTypeOf (fc_info content))) (\<lambda>auth. (content, auth))))"
  by (rule item_cong [OF item_dep [OF framedContent.item_codec_axioms, where
        okb = authMatches and eb = "\<lambda>_. encodeFramedContentAuthData"]])
    (auto simp: encDep_def encPair_def intro: auth_codec)

interpretation authenticatedContent:
  item_codec okAuthenticatedContent encodeAuthenticatedContent decodeAuthenticatedContent
  unfolding encodeAuthenticatedContent_def decodeAuthenticatedContent_def
  by (rule item_record, (rule codec_intros content_auth_codec [THEN item_codecD])+)
    (auto simp: okAuthenticatedContent_def)

record authenticatedContentTBM =
  tbm_contentTbs :: framedContentTBS
  tbm_auth :: framedContentAuthData

definition encodeAuthenticatedContentTBM :: "authenticatedContentTBM encoder" where
  "encodeAuthenticatedContentTBM = contramapEncoders
     (encPair encodeFramedContentTBS encodeFramedContentAuthData) (\<lambda>t. (tbm_contentTbs t, tbm_auth t))"

record confirmedTranscriptHashInput =
  ct_wireformat :: wireformatName
  ct_content :: framedContent
  ct_signature :: bytes

definition encodeConfirmedTranscriptHashInput :: "confirmedTranscriptHashInput encoder" where
  "encodeConfirmedTranscriptHashInput = contramapEncoders
     (encPair encodeWireformat (encPair encodeFramedContent encodeVarLenData))
     (\<lambda>i. (ct_wireformat i, ct_content i, ct_signature i))"

definition decodeConfirmedTranscriptHashInput :: "confirmedTranscriptHashInput decoder" where
  "decodeConfirmedTranscriptHashInput = mapDecodersOption
     (decPair decodeWireformat (decPair decodeFramedContent decodeVarLenData))
     (\<lambda>(wireformat, content, signature).
       case fc_info content of
         FC_commit _ \<Rightarrow> Some \<lparr>ct_wireformat = wireformat, ct_content = content, ct_signature = signature\<rparr>
       | _ \<Rightarrow> None)"

lemma mapDecodersOption_eq: "mapDecodersOption d f = mapDecoderOption d f"
proof (intro ext)
  fix b off
  show "mapDecodersOption d f b off = mapDecoderOption d f b off"
    by (cases "d b off") (auto simp: mapDecodersOption_def mapDecoderOption_def mapDecoders_def split: option.splits)
qed

definition okConfirmedTranscriptHashInput :: "confirmedTranscriptHashInput \<Rightarrow> bool" where
  "okConfirmedTranscriptHashInput i \<longleftrightarrow> okFramedContent (ct_content i) \<and>
     contentTypeOf (fc_info (ct_content i)) = CT_commit"

interpretation confirmedTranscriptHashInput: item_codec okConfirmedTranscriptHashInput
  encodeConfirmedTranscriptHashInput decodeConfirmedTranscriptHashInput
  unfolding encodeConfirmedTranscriptHashInput_def decodeConfirmedTranscriptHashInput_def
    mapDecodersOption_eq contramapEncoders_eq_contramapEncoder
  by (rule item_partial_map, (rule codec_intros)+)
    (auto simp: okConfirmedTranscriptHashInput_def contentTypeOf_def split: framedContentInfo.splits)

text \<open>The transcript hashes, over the digest of the ciphersuite.\<close>

definition createConfirmedHash ::
    "(bytes \<Rightarrow> bytes) \<Rightarrow> bytes \<Rightarrow> confirmedTranscriptHashInput \<Rightarrow> bytes result" where
  "createConfirmedHash digest interimTranscriptHash input =
     res_bind (encodeConfirmedTranscriptHashInput input) (\<lambda>b.
       Inr (digest (concatUint8Arrays interimTranscriptHash b)))"

definition createInterimHash :: "(bytes \<Rightarrow> bytes) \<Rightarrow> bytes \<Rightarrow> bytes \<Rightarrow> bytes result" where
  "createInterimHash digest confirmedHash confirmationTag =
     res_bind (encodeVarLenData confirmationTag) (\<lambda>b. Inr (digest (concatUint8Arrays confirmedHash b)))"

section \<open>Padding\<close>

datatype paddingConfig = PadUntilLength int | AlwaysPad int

definition defaultPaddingConfig :: paddingConfig where
  "defaultPaddingConfig = PadUntilLength 256"

definition byteLengthToPad :: "int \<Rightarrow> paddingConfig \<Rightarrow> int" where
  "byteLengthToPad encodedLength config = (case config of
     AlwaysPad paddingLength \<Rightarrow> paddingLength
   | PadUntilLength padUntilLength \<Rightarrow>
       if encodedLength \<ge> padUntilLength then 0 else padUntilLength - encodedLength)"

text \<open>
  A negative padding makes the new array shorter than the encoding (or of negative length),
  and \<open>set\<close> (or the constructor) throws.
\<close>

definition encoderWithPadding :: "'t encoder \<Rightarrow> paddingConfig \<Rightarrow> 't encoder" where
  "encoderWithPadding enc config = (\<lambda>t. res_bind (enc t) (\<lambda>encoded.
     let pad = byteLengthToPad (int (length encoded)) config in
     if pad < 0 then Inl RangeError else Inr (encoded @ replicate (nat pad) 0)))"

definition decoderWithPadding :: "'t decoder \<Rightarrow> 't decoder" where
  "decoderWithPadding dec = (\<lambda>b off. res_bind (dec b off) (\<lambda>result.
     case result of None \<Rightarrow> Inr None
     | Some (decoded, innerOffset) \<Rightarrow>
         let paddingBytes = drop (off + innerOffset) b in
         if foldl (\<lambda>diff x. diff OR x) 0 paddingBytes \<noteq> 0 then Inr None
         else Inr (Some (decoded, length b))))"

lemma foldl_or_zero: "foldl (\<lambda>diff x. diff OR x) z bs = (0 :: byte) \<longleftrightarrow> z = 0 \<and> (\<forall>b\<in>set bs. b = 0)"
  by (induction bs arbitrary: z) (auto simp: or_eq_0_iff)

text \<open>Padding undone: the padded encoding decodes at the start of its buffer.\<close>

lemma padding_roundtrip:
  assumes c: "codec ok enc dec" and "ok x" "encoderWithPadding enc config x = Inr bs"
  shows "decoderWithPadding dec bs 0 = Inr (Some (x, length bs))"
proof -
  obtain e n where e: "enc x = Inr e" "bs = e @ replicate n 0"
    using assms(3) by (auto simp: encoderWithPadding_def Let_def res_bind_eq_Inr split: if_splits)
  have "dec bs 0 = Inr (Some (x, length e))"
    using codec.roundtrip [OF c \<open>ok x\<close> e(1), of "[]"] e(2) by simp
  then show ?thesis by (auto simp: decoderWithPadding_def foldl_or_zero e(2))
qed

text \<open>Whatever decodes is an encoding followed by zeros: nothing else hides in the padding.\<close>

lemma padding_canonical:
  assumes c: "codec ok enc dec" and d: "decoderWithPadding dec bs 0 = Inr (Some (x, n))"
  shows "ok x \<and> n = length bs \<and> (\<exists>e k. enc x = Inr e \<and> bs = e @ replicate k 0)"
proof -
  obtain r where r: "dec bs 0 = Inr r" using d
    by (cases "dec bs 0") (simp_all add: decoderWithPadding_def)
  then obtain y m where ym: "r = Some (y, m)" using d
    by (cases r) (auto simp: decoderWithPadding_def)
  then have m: "dec bs 0 = Inr (Some (x, m))" "\<forall>b\<in>set (drop m bs). b = 0" "n = length bs"
    using d r by (simp_all add: decoderWithPadding_def foldl_or_zero Let_def split: if_splits)
  from codec.canonical [OF c _ m(1)]
  have "ok x" "enc x = Inr (take m bs)" by simp_all
  moreover have "drop m bs = replicate (length bs - m) 0"
    using m(2) by (metis length_drop replicate_eqI)
  then have "bs = take m bs @ replicate (length bs - m) 0" by (metis append_take_drop_id)
  ultimately show ?thesis using m(3) by blast
qed

section \<open>Private messages\<close>

record privateMessageContent =
  pmc_info :: framedContentInfo
  pmc_auth :: framedContentAuthData

record privateMessage =
  pm_groupId :: bytes
  pm_epoch :: int
  pm_contentType :: contentTypeName
  pm_authenticatedData :: bytes
  pm_encryptedSenderData :: bytes
  pm_ciphertext :: bytes

definition encodePrivateMessage :: "privateMessage encoder" where
  "encodePrivateMessage = contramapEncoders
     (encPair encodeVarLenData (encPair encodeUint64 (encPair encodeContentType
     (encPair encodeVarLenData (encPair encodeVarLenData encodeVarLenData)))))
     (\<lambda>msg. (pm_groupId msg, pm_epoch msg, pm_contentType msg, pm_authenticatedData msg,
             pm_encryptedSenderData msg, pm_ciphertext msg))"

definition decodePrivateMessage :: "privateMessage decoder" where
  "decodePrivateMessage = mapDecoders
     (decPair decodeVarLenData (decPair decodeUint64 (decPair decodeContentType
     (decPair decodeVarLenData (decPair decodeVarLenData decodeVarLenData)))))
     (\<lambda>(groupId, epoch, contentType, authenticatedData, encryptedSenderData, ciphertext).
       \<lparr>pm_groupId = groupId, pm_epoch = epoch, pm_contentType = contentType,
        pm_authenticatedData = authenticatedData, pm_encryptedSenderData = encryptedSenderData,
        pm_ciphertext = ciphertext\<rparr>)"

definition okPrivateMessage :: "privateMessage \<Rightarrow> bool" where
  [ok_defs]: "okPrivateMessage m \<longleftrightarrow> wf_uint64 (pm_epoch m)"

interpretation privateMessage: item_codec okPrivateMessage encodePrivateMessage decodePrivateMessage
  unfolding encodePrivateMessage_def decodePrivateMessage_def
  by (rule item_record, (rule codec_intros)+) (auto simp: okPrivateMessage_def)

record privateContentAAD =
  pca_groupId :: bytes
  pca_epoch :: int
  pca_contentType :: contentTypeName
  pca_authenticatedData :: bytes

definition encodePrivateContentAAD :: "privateContentAAD encoder" where
  "encodePrivateContentAAD = contramapEncoders
     (encPair encodeVarLenData (encPair encodeUint64 (encPair encodeContentType encodeVarLenData)))
     (\<lambda>aad. (pca_groupId aad, pca_epoch aad, pca_contentType aad, pca_authenticatedData aad))"

definition decodePrivateContentAAD :: "privateContentAAD decoder" where
  "decodePrivateContentAAD = mapDecoders
     (decPair decodeVarLenData (decPair decodeUint64 (decPair decodeContentType decodeVarLenData)))
     (\<lambda>(groupId, epoch, contentType, authenticatedData).
       \<lparr>pca_groupId = groupId, pca_epoch = epoch, pca_contentType = contentType,
        pca_authenticatedData = authenticatedData\<rparr>)"

interpretation privateContentAAD:
  item_codec "\<lambda>a. wf_uint64 (pca_epoch a)" encodePrivateContentAAD decodePrivateContentAAD
  unfolding encodePrivateContentAAD_def decodePrivateContentAAD_def
  by (rule item_record, (rule codec_intros)+) auto

definition privateContentAuth :: "contentTypeName \<Rightarrow> bytes \<Rightarrow> framedContentAuthData" where
  "privateContentAuth contentType signature = \<lparr>fa_signature = signature,
     fa_content = (case contentType of CT_proposal \<Rightarrow> AuthProposal | _ \<Rightarrow> AuthApplication)\<rparr>"

definition decodePrivateMessageContent :: "contentTypeName \<Rightarrow> privateMessageContent decoder" where
  "decodePrivateMessageContent contentType = (case contentType of
     CT_application \<Rightarrow> decoderWithPadding (mapDecoders (decPair decodeVarLenData decodeVarLenData)
       (\<lambda>(applicationData, signature). \<lparr>pmc_info = FC_application applicationData,
          pmc_auth = privateContentAuth CT_application signature\<rparr>))
   | CT_proposal \<Rightarrow> decoderWithPadding (mapDecoders (decPair decodeProposal decodeVarLenData)
       (\<lambda>(proposal, signature). \<lparr>pmc_info = FC_proposal proposal,
          pmc_auth = privateContentAuth CT_proposal signature\<rparr>))
   | CT_commit \<Rightarrow> decoderWithPadding (mapDecoders
       (decPair decodeCommit (decPair decodeVarLenData decodeFramedContentAuthDataCommit))
       (\<lambda>(commit, signature, auth). \<lparr>pmc_info = FC_commit commit,
          pmc_auth = \<lparr>fa_signature = signature, fa_content = auth\<rparr>\<rparr>)))"

definition encodePrivateMessageContent :: "paddingConfig \<Rightarrow> privateMessageContent encoder" where
  "encodePrivateMessageContent config msg = (case pmc_info msg of
     FC_application d \<Rightarrow> encoderWithPadding (contramapEncoders
       (encPair encodeVarLenData encodeFramedContentAuthData) (\<lambda>m. (d, pmc_auth m))) config msg
   | FC_proposal p \<Rightarrow> encoderWithPadding (contramapEncoders
       (encPair encodeProposal encodeFramedContentAuthData) (\<lambda>m. (p, pmc_auth m))) config msg
   | FC_commit c \<Rightarrow> encoderWithPadding (contramapEncoders
       (encPair encodeCommit encodeFramedContentAuthData) (\<lambda>m. (c, pmc_auth m))) config msg)"

text \<open>The unpadded content, as the one codec the three content types share.\<close>

definition encodePrivateContentBody :: "privateMessageContent encoder" where
  "encodePrivateContentBody msg = res_bind (case pmc_info msg of
       FC_application d \<Rightarrow> encodeVarLenData d | FC_proposal p \<Rightarrow> encodeProposal p | FC_commit c \<Rightarrow> encodeCommit c)
     (\<lambda>a. res_bind (encodeFramedContentAuthData (pmc_auth msg)) (\<lambda>b. Inr (a @ b)))"

definition okPrivateMessageContent :: "privateMessageContent \<Rightarrow> bool" where
  [ok_defs]: "okPrivateMessageContent m \<longleftrightarrow> okFramedContentInfo (pmc_info m) \<and>
     authContentType (fa_content (pmc_auth m)) = contentTypeOf (pmc_info m)"

lemma encodePrivateMessageContent_padding:
  "encodePrivateMessageContent config = encoderWithPadding encodePrivateContentBody config"
proof
  fix msg
  show "encodePrivateMessageContent config msg = encoderWithPadding encodePrivateContentBody config msg"
    by (cases "pmc_info msg") (simp_all add: encodePrivateMessageContent_def encoderWithPadding_def
        encodePrivateContentBody_def contramapEncoders_def encPair_def res_bind_assoc)
qed

definition decodePrivateContentBody :: "contentTypeName \<Rightarrow> privateMessageContent decoder" where
  "decodePrivateContentBody contentType = (case contentType of
     CT_application \<Rightarrow> mapDecoders (decPair decodeVarLenData decodeVarLenData)
       (\<lambda>(d, signature). \<lparr>pmc_info = FC_application d, pmc_auth = privateContentAuth CT_application signature\<rparr>)
   | CT_proposal \<Rightarrow> mapDecoders (decPair decodeProposal decodeVarLenData)
       (\<lambda>(p, signature). \<lparr>pmc_info = FC_proposal p, pmc_auth = privateContentAuth CT_proposal signature\<rparr>)
   | CT_commit \<Rightarrow> mapDecoders (decPair decodeCommit (decPair decodeVarLenData decodeFramedContentAuthDataCommit))
       (\<lambda>(c, signature, auth). \<lparr>pmc_info = FC_commit c,
          pmc_auth = \<lparr>fa_signature = signature, fa_content = auth\<rparr>\<rparr>))"

lemma decodePrivateMessageContent_padding:
  "decodePrivateMessageContent t = decoderWithPadding (decodePrivateContentBody t)"
  by (cases t) (simp_all add: decodePrivateMessageContent_def decodePrivateContentBody_def)

lemma authContent_of_type:
  "authContentType a = CT_application \<longleftrightarrow> a = AuthApplication"
  "authContentType a = CT_proposal \<longleftrightarrow> a = AuthProposal"
  by (auto simp: authContentType_def split: authContent.splits)

lemma contentTypeOf_simps:
  "contentTypeOf (FC_application d) = CT_application" "contentTypeOf (FC_proposal p) = CT_proposal"
  "contentTypeOf (FC_commit c) = CT_commit"
  "authContentType AuthApplication = CT_application" "authContentType AuthProposal = CT_proposal"
  "authContentType (AuthCommit b) = CT_commit"
  by (simp_all add: contentTypeOf_def authContentType_def)

lemma contentTypeOf_iff:
  "contentTypeOf i = CT_application \<longleftrightarrow> (\<exists>d. i = FC_application d)"
  "contentTypeOf i = CT_proposal \<longleftrightarrow> (\<exists>p. i = FC_proposal p)"
  "contentTypeOf i = CT_commit \<longleftrightarrow> (\<exists>c. i = FC_commit c)"
  by (auto simp: contentTypeOf_def split: framedContentInfo.splits)

lemma privateContentBody_codec:
  "codec (\<lambda>m. okPrivateMessageContent m \<and> contentTypeOf (pmc_info m) = t)
     encodePrivateContentBody (decodePrivateContentBody t)"
proof -
  let ?ok = "\<lambda>m. okPrivateMessageContent m \<and> contentTypeOf (pmc_info m) = t"
  note defs = okPrivateMessageContent_def okFramedContentInfo_def contentTypeOf_iff contentTypeOf_simps
    authContent_of_type
    privateContentAuth_def encodePrivateContentBody_def contramapEncoders_def encPair_def
    encodeFramedContentAuthData_def encodeFramedContentAuthDataContent_def res_bind_assoc res_bind_Inr_right
  show ?thesis
  proof (cases t)
    case CT_application
    have "codec ?ok (contramapEncoders (encPair encodeVarLenData encodeVarLenData)
        (\<lambda>m. (case pmc_info m of FC_application d \<Rightarrow> d | _ \<Rightarrow> [], fa_signature (pmc_auth m))))
        (decodePrivateContentBody t)"
      unfolding CT_application decodePrivateContentBody_def contentTypeName.case
      by (rule codec_record, (rule codec_intros)+)
        (auto simp: defs intro!: privateMessageContent.equality framedContentAuthData.equality)
    then show ?thesis by (rule codec_cong) (auto simp: defs CT_application)
  next
    case CT_proposal
    have "codec ?ok (contramapEncoders (encPair encodeProposal encodeVarLenData)
        (\<lambda>m. (case pmc_info m of FC_proposal p \<Rightarrow> p | _ \<Rightarrow> undefined, fa_signature (pmc_auth m))))
        (decodePrivateContentBody t)"
      unfolding CT_proposal decodePrivateContentBody_def contentTypeName.case
      by (rule codec_record, (rule codec_intros)+)
        (auto simp: defs intro!: privateMessageContent.equality framedContentAuthData.equality)
    then show ?thesis by (rule codec_cong) (auto simp: defs CT_proposal)
  next
    case CT_commit
    have "codec ?ok (contramapEncoders
        (encPair encodeCommit (encPair encodeVarLenData encodeFramedContentAuthDataContent))
        (\<lambda>m. (case pmc_info m of FC_commit c \<Rightarrow> c | _ \<Rightarrow> undefined,
           fa_signature (pmc_auth m), fa_content (pmc_auth m))))
        (decodePrivateContentBody t)"
      unfolding CT_commit decodePrivateContentBody_def contentTypeName.case
      by (rule codec_record, (rule codec_intros authDataCommit_codec)+) (auto simp: defs)
    then show ?thesis by (rule codec_cong) (auto simp: defs CT_commit)
  qed
qed

definition toAuthenticatedContent ::
    "privateMessageContent \<Rightarrow> privateMessage \<Rightarrow> int \<Rightarrow> authenticatedContent" where
  "toAuthenticatedContent content msg senderLeafIndex =
     \<lparr>ac_wireformat = WF_private_message,
      ac_content = \<lparr>fc_groupId = pm_groupId msg, fc_epoch = pm_epoch msg,
        fc_sender = SenderMember senderLeafIndex, fc_authenticatedData = pm_authenticatedData msg,
        fc_info = pmc_info content\<rparr>,
      ac_auth = pmc_auth content\<rparr>"

section \<open>Public messages\<close>

datatype publicMessageInfo = PMI_member bytes | PMI_other senderTypeName

record publicMessage =
  pub_content :: framedContent
  pub_auth :: framedContentAuthData
  pub_info :: publicMessageInfo

definition encodePublicMessageInfo :: "publicMessageInfo encoder" where
  "encodePublicMessageInfo info = (case info of
     PMI_member membershipTag \<Rightarrow> encodeVarLenData membershipTag | PMI_other _ \<Rightarrow> Inr [])"

definition decodePublicMessageInfo :: "senderTypeName \<Rightarrow> publicMessageInfo decoder" where
  "decodePublicMessageInfo senderType = (case senderType of
     ST_member \<Rightarrow> mapDecoder decodeVarLenData PMI_member
   | ST_external \<Rightarrow> succeedDecoder (PMI_other ST_external)
   | ST_new_member_proposal \<Rightarrow> succeedDecoder (PMI_other ST_new_member_proposal)
   | ST_new_member_commit \<Rightarrow> succeedDecoder (PMI_other ST_new_member_commit))"

definition infoMatches :: "framedContent \<Rightarrow> publicMessageInfo \<Rightarrow> bool" where
  "infoMatches c i = (case i of PMI_member _ \<Rightarrow> senderTypeOf (fc_sender c) = ST_member
     | PMI_other t \<Rightarrow> t = senderTypeOf (fc_sender c) \<and> t \<noteq> ST_member)"

lemma publicMessageInfo_codec:
  "codec (infoMatches c) encodePublicMessageInfo (decodePublicMessageInfo (senderTypeOf (fc_sender c)))"
proof (cases "senderTypeOf (fc_sender c) = ST_member")
  case True
  then show ?thesis unfolding decodePublicMessageInfo_def True senderTypeName.case
    by - (rule codec_ctor_cong [OF varLenData.codec_axioms],
          use True in \<open>auto simp: infoMatches_def encodePublicMessageInfo_def split: publicMessageInfo.splits\<close>)
next
  case False
  then have "decodePublicMessageInfo (senderTypeOf (fc_sender c)) =
      succeedDecoder (PMI_other (senderTypeOf (fc_sender c)))"
    by (auto simp: decodePublicMessageInfo_def split: senderTypeName.splits)
  moreover have "codec (infoMatches c) encodePublicMessageInfo
      (succeedDecoder (PMI_other (senderTypeOf (fc_sender c))))"
    by (rule codec_const_cong)
      (use False in \<open>auto simp: infoMatches_def encodePublicMessageInfo_def split: publicMessageInfo.splits\<close>)
  ultimately show ?thesis by simp
qed

definition encodePublicMessage :: "publicMessage encoder" where
  "encodePublicMessage = contramapEncoders
     (encPair encodeFramedContent (encPair encodeFramedContentAuthData encodePublicMessageInfo))
     (\<lambda>msg. (pub_content msg, pub_auth msg, pub_info msg))"

definition decodePublicMessage :: "publicMessage decoder" where
  "decodePublicMessage = flatMapDecoder decodeFramedContent (\<lambda>content.
     mapDecoders (decPair (decodeFramedContentAuthData (contentTypeOf (fc_info content)))
         (decodePublicMessageInfo (senderTypeOf (fc_sender content))))
       (\<lambda>(auth, info). \<lparr>pub_content = content, pub_auth = auth, pub_info = info\<rparr>))"

definition okPublicMessage :: "publicMessage \<Rightarrow> bool" where
  [ok_defs]: "okPublicMessage m \<longleftrightarrow> okFramedContent (pub_content m) \<and>
     authMatches (pub_content m) (pub_auth m) \<and> infoMatches (pub_content m) (pub_info m)"

interpretation publicMessage: item_codec okPublicMessage encodePublicMessage decodePublicMessage
proof -
  let ?eb = "\<lambda>m. encPair encodeFramedContentAuthData encodePublicMessageInfo (pub_auth m, pub_info m)"
  let ?ok = "\<lambda>c m. pub_content m = c \<and> authMatches c (pub_auth m) \<and> infoMatches c (pub_info m)"
  have "item_codec (\<lambda>m. okFramedContent (pub_content m) \<and> ?ok (pub_content m) m)
      (encTagged encodeFramedContent pub_content (\<lambda>_. ?eb)) decodePublicMessage"
    unfolding decodePublicMessage_def mapDecoders_eq_mapDecoder
  proof (rule item_tagged [OF framedContent.item_codec_axioms, where okb = ?ok and eb = "\<lambda>_. ?eb"])
    fix c
    show "codec (?ok c) ?eb (mapDecoder (decPair (decodeFramedContentAuthData (contentTypeOf (fc_info c)))
         (decodePublicMessageInfo (senderTypeOf (fc_sender c))))
       (\<lambda>(auth, info). \<lparr>pub_content = c, pub_auth = auth, pub_info = info\<rparr>))"
    proof (rule codec_ctor_cong [OF codec_pair [OF auth_codec publicMessageInfo_codec]])
      fix u
      show "?ok c u \<longleftrightarrow> (\<exists>t. u = (case t of (auth, info) \<Rightarrow>
          \<lparr>pub_content = c, pub_auth = auth, pub_info = info\<rparr>) \<and> authMatches c (fst t) \<and> infoMatches c (snd t))"
        by (cases u) auto
    qed (auto split: prod.splits)
  qed auto
  then show "item_codec okPublicMessage encodePublicMessage decodePublicMessage"
    by (rule item_cong) (auto simp: okPublicMessage_def encTagged_def encodePublicMessage_def
        contramapEncoders_def encPair_def)
qed

section \<open>Group information and welcomes\<close>

record groupInfoTBS =
  gi_groupContext :: groupContext
  gi_extensions :: "extension list"
  gi_confirmationTag :: bytes
  gi_signer :: int

definition encodeGroupInfoTBS :: "groupInfoTBS encoder" where
  "encodeGroupInfoTBS = contramapEncoders
     (encPair encodeGroupContext (encPair (encodeVarLenType encodeExtension)
     (encPair encodeVarLenData encodeUint32)))
     (\<lambda>g. (gi_groupContext g, gi_extensions g, gi_confirmationTag g, gi_signer g))"

definition decodeGroupInfoTBS :: "groupInfoTBS decoder" where
  "decodeGroupInfoTBS = mapDecoders
     (decPair decodeGroupContext (decPair (decodeVarLenType decodeExtension)
     (decPair decodeVarLenData decodeUint32)))
     (\<lambda>(groupContext, extensions, confirmationTag, signer).
       \<lparr>gi_groupContext = groupContext, gi_extensions = extensions,
        gi_confirmationTag = confirmationTag, gi_signer = signer\<rparr>)"

definition okGroupInfoTBS :: "groupInfoTBS \<Rightarrow> bool" where
  [ok_defs]: "okGroupInfoTBS g \<longleftrightarrow> okGroupContext (gi_groupContext g) \<and> list_all okExtension (gi_extensions g)"

interpretation groupInfoTBS: item_codec okGroupInfoTBS encodeGroupInfoTBS decodeGroupInfoTBS
  unfolding encodeGroupInfoTBS_def decodeGroupInfoTBS_def
  by (rule item_record, (rule codec_intros)+) (auto simp: okGroupInfoTBS_def)

record groupInfo = groupInfoTBS +
  gi_signature :: bytes

definition encodeGroupInfo :: "groupInfo encoder" where
  "encodeGroupInfo = contramapEncoders (encPair encodeGroupInfoTBS encodeVarLenData)
     (\<lambda>g. (groupInfoTBS.truncate g, gi_signature g))"

definition decodeGroupInfo :: "groupInfo decoder" where
  "decodeGroupInfo = mapDecoders (decPair decodeGroupInfoTBS decodeVarLenData)
     (\<lambda>(tbs, signature). groupInfoTBS.extend tbs (groupInfo.fields signature))"

definition okGroupInfo :: "groupInfo \<Rightarrow> bool" where
  [ok_defs]: "okGroupInfo g \<longleftrightarrow> okGroupInfoTBS (groupInfoTBS.truncate g)"

interpretation groupInfo: item_codec okGroupInfo encodeGroupInfo decodeGroupInfo
  unfolding encodeGroupInfo_def decodeGroupInfo_def
  by (rule item_record, (rule codec_intros groupInfoTBS.item_codec_axioms)+)
    (auto simp: okGroupInfo_def okGroupInfoTBS_def groupInfoTBS.truncate_def groupInfoTBS.extend_def
      groupInfo.fields_def)

record groupSecrets =
  gs_joinerSecret :: bytes
  gs_pathSecret :: "bytes option"
  gs_psks :: "preSharedKeyID list"

definition encodeGroupSecrets :: "groupSecrets encoder" where
  "encodeGroupSecrets = contramapEncoders
     (encPair encodeVarLenData (encPair (encodeOptional encodeVarLenData) (encodeVarLenType encodePskId)))
     (\<lambda>gs. (gs_joinerSecret gs, gs_pathSecret gs, gs_psks gs))"

definition decodeGroupSecrets :: "groupSecrets decoder" where
  "decodeGroupSecrets = mapDecoders
     (decPair decodeVarLenData (decPair (decodeOptional decodeVarLenData) (decodeVarLenType decodePskId)))
     (\<lambda>(joinerSecret, pathSecret, psks).
       \<lparr>gs_joinerSecret = joinerSecret, gs_pathSecret = pathSecret, gs_psks = psks\<rparr>)"

definition okGroupSecrets :: "groupSecrets \<Rightarrow> bool" where
  [ok_defs]: "okGroupSecrets g \<longleftrightarrow> list_all okPskId (gs_psks g)"

interpretation groupSecrets: item_codec okGroupSecrets encodeGroupSecrets decodeGroupSecrets
  unfolding encodeGroupSecrets_def decodeGroupSecrets_def
  by (rule item_record, (rule codec_intros)+) (auto simp: okGroupSecrets_def)

record encryptedGroupSecrets =
  egs_newMember :: bytes
  egs_encryptedGroupSecrets :: hPKECiphertext

definition encodeEncryptedGroupSecrets :: "encryptedGroupSecrets encoder" where
  "encodeEncryptedGroupSecrets = contramapEncoders (encPair encodeVarLenData encodeHpkeCiphertext)
     (\<lambda>egs. (egs_newMember egs, egs_encryptedGroupSecrets egs))"

definition decodeEncryptedGroupSecrets :: "encryptedGroupSecrets decoder" where
  "decodeEncryptedGroupSecrets = mapDecoders (decPair decodeVarLenData decodeHpkeCiphertext)
     (\<lambda>(newMember, secrets). \<lparr>egs_newMember = newMember, egs_encryptedGroupSecrets = secrets\<rparr>)"

interpretation encryptedGroupSecrets:
  item_codec "\<lambda>_. True" encodeEncryptedGroupSecrets decodeEncryptedGroupSecrets
  unfolding encodeEncryptedGroupSecrets_def decodeEncryptedGroupSecrets_def
  by (rule item_record, (rule codec_intros)+) auto

record welcomeMessage =
  w_cipherSuite :: ciphersuiteName
  w_secrets :: "encryptedGroupSecrets list"
  w_encryptedGroupInfo :: bytes

definition encodeWelcome :: "welcomeMessage encoder" where
  "encodeWelcome = contramapEncoders
     (encPair encodeCiphersuite (encPair (encodeVarLenType encodeEncryptedGroupSecrets) encodeVarLenData))
     (\<lambda>w. (w_cipherSuite w, w_secrets w, w_encryptedGroupInfo w))"

definition decodeWelcome :: "welcomeMessage decoder" where
  "decodeWelcome = mapDecoders
     (decPair decodeCiphersuite (decPair (decodeVarLenType decodeEncryptedGroupSecrets) decodeVarLenData))
     (\<lambda>(cipherSuite, secrets, encryptedGroupInfo).
       \<lparr>w_cipherSuite = cipherSuite, w_secrets = secrets, w_encryptedGroupInfo = encryptedGroupInfo\<rparr>)"

definition okWelcome :: "welcomeMessage \<Rightarrow> bool" where
  [ok_defs]: "okWelcome w \<longleftrightarrow> ok_open ciphersuites (w_cipherSuite w)"

interpretation welcomeMessage: item_codec okWelcome encodeWelcome decodeWelcome
  unfolding encodeWelcome_def decodeWelcome_def
  by (rule item_record, (rule codec_intros encryptedGroupSecrets.item_codec_axioms)+) (auto simp: okWelcome_def)

lemmas message_body_codecs [codec_intros] =
  privateMessage.item_codec_axioms privateMessage.codec_axioms
  publicMessage.item_codec_axioms publicMessage.codec_axioms
  groupInfo.item_codec_axioms groupInfo.codec_axioms
  welcomeMessage.item_codec_axioms welcomeMessage.codec_axioms

section \<open>The top-level message\<close>

datatype mlsMessageContent =
    MlsPublicMessage publicMessage
  | MlsWelcome welcomeMessage
  | MlsPrivateMessage privateMessage
  | MlsGroupInfo groupInfo
  | MlsKeyPackage keyPackage

record mLSMessage =
  mm_version :: protocolVersionName
  mm_content :: mlsMessageContent

definition encodeMlsPublicMessage :: "publicMessage encoder" where
  "encodeMlsPublicMessage = contramapEncoders (encPair encodeWireformat encodePublicMessage)
     (\<lambda>m. (WF_public_message, m))"

definition encodeMlsWelcome :: "welcomeMessage encoder" where
  "encodeMlsWelcome = contramapEncoders (encPair encodeWireformat encodeWelcome) (\<lambda>m. (WF_welcome, m))"

definition encodeMlsPrivateMessage :: "privateMessage encoder" where
  "encodeMlsPrivateMessage = contramapEncoders (encPair encodeWireformat encodePrivateMessage)
     (\<lambda>m. (WF_private_message, m))"

definition encodeMlsGroupInfo :: "groupInfo encoder" where
  "encodeMlsGroupInfo = contramapEncoders (encPair encodeWireformat encodeGroupInfo) (\<lambda>m. (WF_group_info, m))"

definition encodeMlsKeyPackage :: "keyPackage encoder" where
  "encodeMlsKeyPackage = contramapEncoders (encPair encodeWireformat encodeKeyPackage)
     (\<lambda>m. (WF_key_package, m))"

definition encodeMlsMessageContent :: "mlsMessageContent encoder" where
  "encodeMlsMessageContent mc = (case mc of
     MlsPublicMessage m \<Rightarrow> encodeMlsPublicMessage m
   | MlsWelcome m \<Rightarrow> encodeMlsWelcome m
   | MlsPrivateMessage m \<Rightarrow> encodeMlsPrivateMessage m
   | MlsGroupInfo m \<Rightarrow> encodeMlsGroupInfo m
   | MlsKeyPackage m \<Rightarrow> encodeMlsKeyPackage m)"

definition decodeMlsMessageContent :: "mlsMessageContent decoder" where
  "decodeMlsMessageContent = flatMapDecoder decodeWireformat (\<lambda>wireformat. case wireformat of
     WF_public_message \<Rightarrow> mapDecoder decodePublicMessage MlsPublicMessage
   | WF_welcome \<Rightarrow> mapDecoder decodeWelcome MlsWelcome
   | WF_private_message \<Rightarrow> mapDecoder decodePrivateMessage MlsPrivateMessage
   | WF_group_info \<Rightarrow> mapDecoder decodeGroupInfo MlsGroupInfo
   | WF_key_package \<Rightarrow> mapDecoder decodeKeyPackage MlsKeyPackage)"

definition wireformatOf :: "mlsMessageContent \<Rightarrow> wireformatName" where
  "wireformatOf mc = (case mc of MlsPublicMessage _ \<Rightarrow> WF_public_message | MlsWelcome _ \<Rightarrow> WF_welcome
   | MlsPrivateMessage _ \<Rightarrow> WF_private_message | MlsGroupInfo _ \<Rightarrow> WF_group_info
   | MlsKeyPackage _ \<Rightarrow> WF_key_package)"

definition okMlsMessageContent :: "mlsMessageContent \<Rightarrow> bool" where
  [ok_defs]: "okMlsMessageContent mc = (case mc of MlsPublicMessage m \<Rightarrow> okPublicMessage m
   | MlsWelcome m \<Rightarrow> okWelcome m | MlsPrivateMessage m \<Rightarrow> okPrivateMessage m
   | MlsGroupInfo m \<Rightarrow> okGroupInfo m | MlsKeyPackage m \<Rightarrow> okKeyPackage m)"

interpretation mlsMessageContent:
  item_codec okMlsMessageContent encodeMlsMessageContent decodeMlsMessageContent
proof -
  let ?eb = "\<lambda>mc. case mc of MlsPublicMessage m \<Rightarrow> encodePublicMessage m | MlsWelcome m \<Rightarrow> encodeWelcome m
     | MlsPrivateMessage m \<Rightarrow> encodePrivateMessage m | MlsGroupInfo m \<Rightarrow> encodeGroupInfo m
     | MlsKeyPackage m \<Rightarrow> encodeKeyPackage m"
  let ?ok = "\<lambda>t m. wireformatOf m = t \<and> okMlsMessageContent m"
  have "item_codec (\<lambda>m. True \<and> ?ok (wireformatOf m) m)
      (encTagged encodeWireformat wireformatOf (\<lambda>_. ?eb)) decodeMlsMessageContent"
    unfolding decodeMlsMessageContent_def
  proof (rule item_tagged [OF wireformat.item_codec_axioms, where okb = ?ok and eb = "\<lambda>_. ?eb"])
    fix t
    show "codec (?ok t) ?eb (case t of
       WF_public_message \<Rightarrow> mapDecoder decodePublicMessage MlsPublicMessage
     | WF_welcome \<Rightarrow> mapDecoder decodeWelcome MlsWelcome
     | WF_private_message \<Rightarrow> mapDecoder decodePrivateMessage MlsPrivateMessage
     | WF_group_info \<Rightarrow> mapDecoder decodeGroupInfo MlsGroupInfo
     | WF_key_package \<Rightarrow> mapDecoder decodeKeyPackage MlsKeyPackage)"
      by (cases t; (simp only: wireformatName.case, rule codec_ctor_cong, (rule codec_intros)+, simp, simp,
          (case_tac u; auto simp: okMlsMessageContent_def wireformatOf_def)))
  qed auto
  then show "item_codec okMlsMessageContent encodeMlsMessageContent decodeMlsMessageContent"
    by (rule item_cong)
      (auto simp: encTagged_def encodeMlsMessageContent_def wireformatOf_def encodeMlsPublicMessage_def
        encodeMlsWelcome_def encodeMlsPrivateMessage_def encodeMlsGroupInfo_def encodeMlsKeyPackage_def
        contramapEncoders_def encPair_def split: mlsMessageContent.splits)
qed

definition encodeMlsMessage :: "mLSMessage encoder" where
  "encodeMlsMessage = contramapEncoders (encPair encodeProtocolVersion encodeMlsMessageContent)
     (\<lambda>w. (mm_version w, mm_content w))"

definition decodeMlsMessageLoose :: "mLSMessage decoder" where
  "decodeMlsMessageLoose = mapDecoders (decPair decodeProtocolVersion decodeMlsMessageContent)
     (\<lambda>(version, mc). \<lparr>mm_version = version, mm_content = mc\<rparr>)"

definition okMlsMessage :: "mLSMessage \<Rightarrow> bool" where
  [ok_defs]: "okMlsMessage m \<longleftrightarrow> okMlsMessageContent (mm_content m)"

interpretation mlsMessage: item_codec okMlsMessage encodeMlsMessage decodeMlsMessageLoose
  unfolding encodeMlsMessage_def decodeMlsMessageLoose_def
  by (rule item_record, (rule codec_intros mlsMessageContent.codec_axioms)+) (auto simp: okMlsMessage_def)

definition MAX_MLS_MESSAGE_SIZE :: nat where
  "MAX_MLS_MESSAGE_SIZE = 64 * 1024 * 1024"

text \<open>The length of the rest of the buffer is negative where the offset is past its end.\<close>

definition decodeMlsMessage :: "mLSMessage decoder" where
  "decodeMlsMessage b off =
     (if int (length b) - int off > int MAX_MLS_MESSAGE_SIZE then Inr None
      else res_bind (decodeMlsMessageLoose b off) (\<lambda>result.
        case result of None \<Rightarrow> Inr None
        | Some (message, len) \<Rightarrow>
            if off + len \<noteq> length b then Inr None else Inr (Some (message, len))))"

lemma decodeMlsMessage_eq_Some:
  "decodeMlsMessage b off = Inr (Some (m, n)) \<longleftrightarrow>
   length b \<le> off + MAX_MLS_MESSAGE_SIZE \<and> decodeMlsMessageLoose b off = Inr (Some (m, n)) \<and> off + n = length b"
  by (cases "decodeMlsMessageLoose b off") (auto simp: decodeMlsMessage_def split: option.splits)

end
