(* ===== verification/Crypto.thy ===== *)
theory Crypto imports Messages begin

text \<open>
  The labelled uses of the cryptographic primitives: \<^verbatim>\<open>src/crypto/kdf.ts\<close>,
  \<^verbatim>\<open>src/crypto/hash.ts\<close>, \<^verbatim>\<open>src/crypto/signature.ts\<close>, \<^verbatim>\<open>src/crypto/hpke.ts\<close>, the key
  schedule (\<^verbatim>\<open>src/key-schedule.ts\<close> and the extractions of \<^verbatim>\<open>src/group-context.ts\<close> and
  \<^verbatim>\<open>src/group-info.ts\<close>) and the pre-shared keys (\<^verbatim>\<open>src/presharedkey.ts\<close>,
  \<^verbatim>\<open>src/psk-index.ts\<close>).

  The primitives themselves belong to the ciphersuite implementation and are fields of
  records the definitions take as arguments.  Labels are ASCII strings, on which the UTF-8
  encoder of the platform is \<open>ascii\<close>.
\<close>

section \<open>Primitives\<close>

record kdfImpl =
  kdf_extract :: "bytes \<Rightarrow> bytes \<Rightarrow> bytes"
  kdf_expand :: "bytes \<Rightarrow> bytes \<Rightarrow> int \<Rightarrow> bytes"
  kdf_size :: nat

record hashImpl =
  h_digest :: "bytes \<Rightarrow> bytes"
  h_mac :: "bytes \<Rightarrow> bytes \<Rightarrow> bytes"
  h_verifyMac :: "bytes \<Rightarrow> bytes \<Rightarrow> bytes \<Rightarrow> bool"

record 'sk signatureImpl =
  sig_sign :: "'sk \<Rightarrow> bytes \<Rightarrow> bytes"
  sig_verify :: "bytes \<Rightarrow> bytes \<Rightarrow> bytes \<Rightarrow> bool"

definition ascii :: "string \<Rightarrow> bytes" where
  "ascii s = map (\<lambda>c. word_of_nat (of_char c)) s"

lemma ascii_append: "ascii (s @ t) = ascii s @ ascii t"
  by (simp add: ascii_def)

lemma length_ascii [simp]: "length (ascii s) = length s"
  by (simp add: ascii_def)

lemma ascii_inj: "ascii s = ascii t \<longleftrightarrow> s = t"
proof -
  have "inj (\<lambda>c :: char. word_of_nat (of_char c) :: byte)"
  proof (rule injI)
    fix c d :: char
    assume "(word_of_nat (of_char c) :: byte) = word_of_nat (of_char d)"
    then have "(of_char c :: nat) mod 256 = of_char d mod 256"
      by (metis unat_byte_of_nat)
    then have "(of_char c :: nat) = of_char d" by simp
    then show "c = d" by simp
  qed
  then show ?thesis unfolding ascii_def by (metis inj_map_eq_map)
qed

section \<open>Labels\<close>

text \<open>What is signed, hashed or expanded under a label.\<close>

definition labelled :: "string \<Rightarrow> bytes \<Rightarrow> bytes result" where
  "labelled label content = res_bind (encodeVarLenData (ascii (''MLS 1.0 '' @ label))) (\<lambda>l.
     res_bind (encodeVarLenData content) (\<lambda>c. Inr (concatUint8Arrays l c)))"

definition encodeRefHash :: "string \<Rightarrow> bytes \<Rightarrow> bytes result" where
  "encodeRefHash label value = res_bind (encodeVarLenData (ascii label)) (\<lambda>l.
     res_bind (encodeVarLenData value) (\<lambda>v. Inr (concatUint8Arrays l v)))"

definition refhash :: "string \<Rightarrow> bytes \<Rightarrow> hashImpl \<Rightarrow> bytes result" where
  "refhash label value h = res_map (h_digest h) (encodeRefHash label value)"

definition signWithLabel :: "'sk \<Rightarrow> string \<Rightarrow> bytes \<Rightarrow> 'sk signatureImpl \<Rightarrow> bytes result" where
  "signWithLabel signKey label content s = res_map (sig_sign s signKey) (labelled label content)"

definition verifyWithLabel :: "bytes \<Rightarrow> string \<Rightarrow> bytes \<Rightarrow> bytes \<Rightarrow> 'sk signatureImpl \<Rightarrow> bool result" where
  "verifyWithLabel publicKey label content signature s =
     res_map (\<lambda>m. sig_verify s publicKey m signature) (labelled label content)"

text \<open>The \<open>info\<close> argument of the expansion.\<close>

definition kdfLabel :: "int \<Rightarrow> string \<Rightarrow> bytes \<Rightarrow> bytes result" where
  "kdfLabel len label context = res_bind (encodeUint16 len) (\<lambda>n.
     res_bind (encodeVarLenData (ascii (''MLS 1.0 '' @ label))) (\<lambda>l.
     res_bind (encodeVarLenData context) (\<lambda>c. Inr (n @ l @ c))))"

definition expandWithLabel :: "bytes \<Rightarrow> string \<Rightarrow> bytes \<Rightarrow> int \<Rightarrow> kdfImpl \<Rightarrow> bytes result" where
  "expandWithLabel secret label context len kdf =
     res_bind (kdfLabel len label context) (\<lambda>info. Inr (kdf_expand kdf secret info len))"

definition deriveSecret :: "bytes \<Rightarrow> string \<Rightarrow> kdfImpl \<Rightarrow> bytes result" where
  "deriveSecret secret label kdf = expandWithLabel secret label [] (int (kdf_size kdf)) kdf"

definition deriveTreeSecret :: "bytes \<Rightarrow> string \<Rightarrow> int \<Rightarrow> int \<Rightarrow> kdfImpl \<Rightarrow> bytes result" where
  "deriveTreeSecret secret label generation len kdf =
     res_bind (encodeUint32 generation) (\<lambda>g. expandWithLabel secret label g len kdf)"

text \<open>Labelled inputs are injective: no two uses share an input.\<close>

lemma labelled_inj:
  assumes "labelled l1 c1 = Inr b" "labelled l2 c2 = Inr b"
  shows "l1 = l2 \<and> c1 = c2"
proof -
  obtain a1 d1 where 1: "encodeVarLenData (ascii (''MLS 1.0 '' @ l1)) = Inr a1" "encodeVarLenData c1 = Inr d1" "b = a1 @ d1"
    using assms(1) by (auto simp: labelled_def res_bind_eq_Inr concatUint8Arrays_def)
  obtain a2 d2 where 2: "encodeVarLenData (ascii (''MLS 1.0 '' @ l2)) = Inr a2" "encodeVarLenData c2 = Inr d2" "b = a2 @ d2"
    using assms(2) by (auto simp: labelled_def res_bind_eq_Inr concatUint8Arrays_def)
  have "ascii (''MLS 1.0 '' @ l1) = ascii (''MLS 1.0 '' @ l2) \<and> d1 = d2"
    using varLenData.prefix_free [OF _ _ 1(1) 2(1), of d1 d2] 1(3) 2(3) by simp
  then show ?thesis using varLenData.encode_inj [OF _ _ 1(2), of c2] 1(2) 2(2) by (simp add: ascii_inj)
qed

lemma kdfLabel_inj:
  assumes "kdfLabel n1 l1 c1 = Inr b" "kdfLabel n2 l2 c2 = Inr b"
  shows "n1 = n2 \<and> l1 = l2 \<and> c1 = c2"
proof -
  obtain a1 d1 where 1: "encodeUint16 n1 = Inr a1" "labelled l1 c1 = Inr d1" "b = a1 @ d1"
    using assms(1) by (auto simp: kdfLabel_def labelled_def res_bind_eq_Inr concatUint8Arrays_def)
  obtain a2 d2 where 2: "encodeUint16 n2 = Inr a2" "labelled l2 c2 = Inr d2" "b = a2 @ d2"
    using assms(2) by (auto simp: kdfLabel_def labelled_def res_bind_eq_Inr concatUint8Arrays_def)
  have "n1 = n2 \<and> d1 = d2" using uint16.prefix_free [OF _ _ 1(1) 2(1), of d1 d2] 1(3) 2(3) by simp
  then show ?thesis using labelled_inj 1(2) 2(2) by blast
qed

section \<open>Signed content\<close>

definition signFramedContentTBS :: "'sk \<Rightarrow> framedContentTBS \<Rightarrow> 'sk signatureImpl \<Rightarrow> bytes result" where
  "signFramedContentTBS signKey tbs s =
     res_bind (encodeFramedContentTBS tbs) (\<lambda>b. signWithLabel signKey ''FramedContentTBS'' b s)"

definition verifyFramedContentSignature ::
    "bytes \<Rightarrow> wireformatName \<Rightarrow> framedContent \<Rightarrow> framedContentAuthData \<Rightarrow> groupContext \<Rightarrow>
     'sk signatureImpl \<Rightarrow> bool result" where
  "verifyFramedContentSignature signKey wireformat content auth context s =
     res_bind (encodeFramedContentTBS (toTbsContent content wireformat context)) (\<lambda>b.
       verifyWithLabel signKey ''FramedContentTBS'' b (fa_signature auth) s)"

definition createContentCommitSignature ::
    "groupContext \<Rightarrow> wireformatName \<Rightarrow> commit \<Rightarrow> sender \<Rightarrow> bytes \<Rightarrow> 'sk \<Rightarrow> 'sk signatureImpl \<Rightarrow>
     (framedContent \<times> bytes) result" where
  "createContentCommitSignature groupContext wireformat c sender authenticatedData signKey s =
     (let tbs = \<lparr>ft_protocolVersion = gc_version groupContext, ft_wireformat = wireformat,
        ft_content = \<lparr>fc_groupId = gc_groupId groupContext, fc_epoch = gc_epoch groupContext,
          fc_sender = sender, fc_authenticatedData = authenticatedData, fc_info = FC_commit c\<rparr>,
        ft_senderInfo = SI_member groupContext\<rparr>
      in res_bind (signFramedContentTBS signKey tbs s) (\<lambda>signature. Inr (ft_content tbs, signature)))"

definition createConfirmationTag :: "bytes \<Rightarrow> bytes \<Rightarrow> hashImpl \<Rightarrow> bytes" where
  "createConfirmationTag confirmationKey confirmedTranscriptHash h =
     h_mac h confirmationKey confirmedTranscriptHash"

definition verifyConfirmationTag :: "bytes \<Rightarrow> bytes \<Rightarrow> bytes \<Rightarrow> hashImpl \<Rightarrow> bool" where
  "verifyConfirmationTag confirmationKey tag confirmedTranscriptHash h =
     h_verifyMac h confirmationKey tag confirmedTranscriptHash"

definition createMembershipTag :: "bytes \<Rightarrow> authenticatedContentTBM \<Rightarrow> hashImpl \<Rightarrow> bytes result" where
  "createMembershipTag membershipKey tbm h =
     res_map (h_mac h membershipKey) (encodeAuthenticatedContentTBM tbm)"

definition verifyMembershipTag ::
    "bytes \<Rightarrow> authenticatedContentTBM \<Rightarrow> bytes \<Rightarrow> hashImpl \<Rightarrow> bool result" where
  "verifyMembershipTag membershipKey tbm tag h =
     res_map (h_verifyMac h membershipKey tag) (encodeAuthenticatedContentTBM tbm)"

definition makeProposalRef :: "authenticatedContent \<Rightarrow> hashImpl \<Rightarrow> bytes result" where
  "makeProposalRef proposal h =
     res_bind (encodeAuthenticatedContent proposal) (\<lambda>b. refhash ''MLS 1.0 Proposal Reference'' b h)"

text \<open>
  The encoding of what is signed determines the version, the wire format and the content,
  and, for a member or an external joiner, the group context.
\<close>

definition okSenderInfo :: "framedContent \<Rightarrow> senderInfo \<Rightarrow> bool" where
  "okSenderInfo c i = (case i of
     SI_member g \<Rightarrow> okGroupContext g \<and> senderTypeOf (fc_sender c) = ST_member
   | SI_new_member_commit g \<Rightarrow> okGroupContext g \<and> senderTypeOf (fc_sender c) = ST_new_member_commit
   | SI_external \<Rightarrow> senderTypeOf (fc_sender c) = ST_external
   | SI_new_member_proposal \<Rightarrow> senderTypeOf (fc_sender c) = ST_new_member_proposal)"

definition okFramedContentTBS :: "framedContentTBS \<Rightarrow> bool" where
  "okFramedContentTBS f \<longleftrightarrow> okFramedContent (ft_content f) \<and> okSenderInfo (ft_content f) (ft_senderInfo f)"

lemma encodeFramedContentTBS_eq_Inr:
  "encodeFramedContentTBS f = Inr b \<longleftrightarrow> (\<exists>v w c i. encodeProtocolVersion (ft_protocolVersion f) = Inr v \<and>
     encodeWireformat (ft_wireformat f) = Inr w \<and> encodeFramedContent (ft_content f) = Inr c \<and>
     encodeSenderInfo (ft_senderInfo f) = Inr i \<and> b = v @ w @ c @ i)"
  by (auto simp: encodeFramedContentTBS_def contramapEncoders_def encPair_eq_Inr)

lemma senderInfo_inj:
  assumes "okSenderInfo c i" "okSenderInfo c j" "encodeSenderInfo i = Inr b" "encodeSenderInfo j = Inr b"
  shows "i = j"
  using assms groupContext.encode_inj
  by (auto simp: okSenderInfo_def encodeSenderInfo_def split: senderInfo.splits)

lemma framedContentTBS_inj:
  assumes f: "okFramedContentTBS f" "encodeFramedContentTBS f = Inr b"
    and g: "okFramedContentTBS g" "encodeFramedContentTBS g = Inr b"
  shows "f = g"
proof -
  obtain v1 w1 c1 i1 where 1: "encodeProtocolVersion (ft_protocolVersion f) = Inr v1"
    "encodeWireformat (ft_wireformat f) = Inr w1" "encodeFramedContent (ft_content f) = Inr c1"
    "encodeSenderInfo (ft_senderInfo f) = Inr i1" "b = v1 @ w1 @ c1 @ i1"
    using f(2) unfolding encodeFramedContentTBS_eq_Inr by blast
  obtain v2 w2 c2 i2 where 2: "encodeProtocolVersion (ft_protocolVersion g) = Inr v2"
    "encodeWireformat (ft_wireformat g) = Inr w2" "encodeFramedContent (ft_content g) = Inr c2"
    "encodeSenderInfo (ft_senderInfo g) = Inr i2" "b = v2 @ w2 @ c2 @ i2"
    using g(2) unfolding encodeFramedContentTBS_eq_Inr by blast
  have e: "v1 @ w1 @ c1 @ i1 = v2 @ w2 @ c2 @ i2" using 1(5) 2(5) by simp
  have v: "ft_protocolVersion f = ft_protocolVersion g \<and> w1 @ c1 @ i1 = w2 @ c2 @ i2"
    by (rule protocolVersion.prefix_free [OF _ _ 1(1) 2(1) e]) simp_all
  have w: "ft_wireformat f = ft_wireformat g \<and> c1 @ i1 = c2 @ i2"
    by (rule wireformat.prefix_free [OF _ _ 1(2) 2(2)]) (use v in simp_all)
  have c: "ft_content f = ft_content g \<and> i1 = i2"
    by (rule framedContent.prefix_free [OF _ _ 1(3) 2(3)]) (use w f(1) g(1) in \<open>simp_all add: okFramedContentTBS_def\<close>)
  have "ft_senderInfo f = ft_senderInfo g"
    by (rule senderInfo_inj [OF _ _ 1(4)]) (use c f(1) g(1) 2(4) in \<open>simp_all add: okFramedContentTBS_def\<close>)
  then show ?thesis using v w c by (intro framedContentTBS.equality) simp_all
qed

section \<open>Key schedule\<close>

definition extractEpochSecret :: "groupContext \<Rightarrow> bytes \<Rightarrow> kdfImpl \<Rightarrow> bytes option \<Rightarrow> bytes result" where
  "extractEpochSecret context joinerSecret kdf pskSecret =
     (let psk = (case pskSecret of None \<Rightarrow> replicate (kdf_size kdf) 0 | Some p \<Rightarrow> p);
          extracted = kdf_extract kdf joinerSecret psk
      in res_bind (encodeGroupContext context) (\<lambda>gc.
        expandWithLabel extracted ''epoch'' gc (int (kdf_size kdf)) kdf))"

definition extractJoinerSecret :: "groupContext \<Rightarrow> bytes \<Rightarrow> bytes \<Rightarrow> kdfImpl \<Rightarrow> bytes result" where
  "extractJoinerSecret context previousInitSecret commitSecret kdf =
     (let extracted = kdf_extract kdf previousInitSecret commitSecret
      in res_bind (encodeGroupContext context) (\<lambda>gc.
        expandWithLabel extracted ''joiner'' gc (int (kdf_size kdf)) kdf))"

definition extractWelcomeSecret :: "bytes \<Rightarrow> bytes \<Rightarrow> kdfImpl \<Rightarrow> bytes result" where
  "extractWelcomeSecret joinerSecret pskSecret kdf =
     deriveSecret (kdf_extract kdf joinerSecret pskSecret) ''welcome'' kdf"

record keySchedule =
  ks_initSecret :: bytes
  ks_senderDataSecret :: bytes
  ks_exporterSecret :: bytes
  ks_externalSecret :: bytes
  ks_confirmationKey :: bytes
  ks_membershipKey :: bytes
  ks_resumptionPsk :: bytes
  ks_epochAuthenticator :: bytes
  ks_applicationExportSecret :: bytes

record derivedKeySchedule =
  dk_keySchedule :: keySchedule
  dk_encryptionSecret :: bytes

record epochSecrets = derivedKeySchedule +
  es_joinerSecret :: bytes
  es_welcomeSecret :: bytes

definition deriveEpochKeys :: "bytes \<Rightarrow> kdfImpl \<Rightarrow> derivedKeySchedule result" where
  "deriveEpochKeys epochSecret kdf =
     res_bind (deriveSecret epochSecret ''init'' kdf) (\<lambda>newInitSecret.
     res_bind (deriveSecret epochSecret ''sender data'' kdf) (\<lambda>senderDataSecret.
     res_bind (deriveSecret epochSecret ''encryption'' kdf) (\<lambda>encryptionSecret.
     res_bind (deriveSecret epochSecret ''exporter'' kdf) (\<lambda>exporterSecret.
     res_bind (deriveSecret epochSecret ''external'' kdf) (\<lambda>externalSecret.
     res_bind (deriveSecret epochSecret ''confirm'' kdf) (\<lambda>confirmationKey.
     res_bind (deriveSecret epochSecret ''membership'' kdf) (\<lambda>membershipKey.
     res_bind (deriveSecret epochSecret ''resumption'' kdf) (\<lambda>resumptionPsk.
     res_bind (deriveSecret epochSecret ''authentication'' kdf) (\<lambda>epochAuthenticator.
     res_bind (deriveSecret epochSecret ''application_export'' kdf) (\<lambda>applicationExportSecret.
       Inr \<lparr>dk_keySchedule = \<lparr>ks_initSecret = newInitSecret, ks_senderDataSecret = senderDataSecret,
              ks_exporterSecret = exporterSecret, ks_externalSecret = externalSecret,
              ks_confirmationKey = confirmationKey, ks_membershipKey = membershipKey,
              ks_resumptionPsk = resumptionPsk, ks_epochAuthenticator = epochAuthenticator,
              ks_applicationExportSecret = applicationExportSecret\<rparr>,
            dk_encryptionSecret = encryptionSecret\<rparr>))))))))))"

definition initializeKeySchedule :: "bytes \<Rightarrow> kdfImpl \<Rightarrow> keySchedule result" where
  "initializeKeySchedule epochSecret kdf = res_map dk_keySchedule (deriveEpochKeys epochSecret kdf)"

definition deriveKeySchedule ::
    "bytes \<Rightarrow> bytes \<Rightarrow> groupContext \<Rightarrow> kdfImpl \<Rightarrow> derivedKeySchedule result" where
  "deriveKeySchedule joinerSecret pskSecret groupContext kdf =
     res_bind (extractEpochSecret groupContext joinerSecret kdf (Some pskSecret)) (\<lambda>epochSecret.
       deriveEpochKeys epochSecret kdf)"

definition initializeEpoch ::
    "bytes \<Rightarrow> bytes \<Rightarrow> groupContext \<Rightarrow> bytes \<Rightarrow> kdfImpl \<Rightarrow> epochSecrets result" where
  "initializeEpoch initSecret commitSecret groupContext pskSecret kdf =
     res_bind (extractJoinerSecret groupContext initSecret commitSecret kdf) (\<lambda>joinerSecret.
     res_bind (extractWelcomeSecret joinerSecret pskSecret kdf) (\<lambda>welcomeSecret.
     res_bind (deriveKeySchedule joinerSecret pskSecret groupContext kdf) (\<lambda>derived.
       Inr (derivedKeySchedule.extend derived (epochSecrets.fields joinerSecret welcomeSecret)))))"

definition mlsExporter ::
    "bytes \<Rightarrow> string \<Rightarrow> bytes \<Rightarrow> int \<Rightarrow> kdfImpl \<Rightarrow> hashImpl \<Rightarrow> bytes result" where
  "mlsExporter exporterSecret label context len kdf h =
     res_bind (deriveSecret exporterSecret label kdf) (\<lambda>secret.
       let hash = h_digest h context in expandWithLabel secret ''exported'' hash len kdf)"

text \<open>Every epoch secret is one expansion of the epoch secret, under its own label.\<close>

definition epochLabels :: "string list" where
  "epochLabels = [''init'', ''sender data'', ''encryption'', ''exporter'', ''external'', ''confirm'',
     ''membership'', ''resumption'', ''authentication'', ''application_export'']"

definition epochOutputs :: "derivedKeySchedule \<Rightarrow> bytes list" where
  "epochOutputs d = (let k = dk_keySchedule d in [ks_initSecret k, ks_senderDataSecret k, dk_encryptionSecret d,
     ks_exporterSecret k, ks_externalSecret k, ks_confirmationKey k, ks_membershipKey k, ks_resumptionPsk k,
     ks_epochAuthenticator k, ks_applicationExportSecret k])"

lemma encodeVarLenData_small: "length d < 1073741824 \<Longrightarrow> \<exists>b. encodeVarLenData d = Inr b"
  using encodeLength_Inr [of "length d"] by (auto simp: encodeVarLenData_def)

lemma kdfLabel_Inr:
  assumes "0 \<le> n" "n < 65536" "length label < 1000" "length c < 1073741824"
  shows "\<exists>i. kdfLabel n label c = Inr i"
proof -
  obtain l where l: "encodeVarLenData (ascii (''MLS 1.0 '' @ label)) = Inr l"
    using encodeVarLenData_small [of "ascii (''MLS 1.0 '' @ label)"] assms(3) by auto
  obtain d where d: "encodeVarLenData c = Inr d" using encodeVarLenData_small assms(4) by blast
  show ?thesis using assms(1,2) l d by (simp add: kdfLabel_def encodeUint16_def assertUintRange_def)
qed

lemma deriveSecret_eq:
  assumes "kdf_size kdf < 65536" "length label < 1000"
  shows "\<exists>i. kdfLabel (int (kdf_size kdf)) label [] = Inr i \<and>
    deriveSecret s label kdf = Inr (kdf_expand kdf s i (int (kdf_size kdf)))"
  using kdfLabel_Inr [of "int (kdf_size kdf)" label "[]"] assms
  by (auto simp: deriveSecret_def expandWithLabel_def)

definition epochInfo :: "kdfImpl \<Rightarrow> string \<Rightarrow> bytes" where
  "epochInfo kdf label = (case kdfLabel (int (kdf_size kdf)) label [] of Inr i \<Rightarrow> i | Inl _ \<Rightarrow> [])"

lemma deriveSecret_epochInfo:
  assumes "kdf_size kdf < 65536" "length label < 1000"
  shows "deriveSecret s label kdf = Inr (kdf_expand kdf s (epochInfo kdf label) (int (kdf_size kdf)))"
  using deriveSecret_eq [OF assms, of s] by (auto simp: epochInfo_def)

lemma epochInfo_inj:
  assumes "kdf_size kdf < 65536" "length l1 < 1000" "length l2 < 1000" "epochInfo kdf l1 = epochInfo kdf l2"
  shows "l1 = l2"
proof -
  obtain i1 i2 where "kdfLabel (int (kdf_size kdf)) l1 [] = Inr i1" "kdfLabel (int (kdf_size kdf)) l2 [] = Inr i2"
    using deriveSecret_eq [of kdf l1] deriveSecret_eq [of kdf l2] assms by blast
  then show ?thesis using assms(4) kdfLabel_inj [of _ l1 _ i1] by (auto simp: epochInfo_def)
qed

lemma deriveEpochKeys_outputs:
  assumes "kdf_size kdf < 65536"
  shows "\<exists>d. deriveEpochKeys s kdf = Inr d \<and>
    epochOutputs d = map (\<lambda>l. kdf_expand kdf s (epochInfo kdf l) (int (kdf_size kdf))) epochLabels"
  using assms by (simp add: deriveEpochKeys_def deriveSecret_epochInfo epochOutputs_def epochLabels_def)

section \<open>Pre-shared keys\<close>

definition UINT16_MAX :: int where
  "UINT16_MAX = 65535"

definition updatePskSecret ::
    "bytes \<Rightarrow> preSharedKeyID \<Rightarrow> bytes \<Rightarrow> nat \<Rightarrow> nat \<Rightarrow> kdfImpl \<Rightarrow> bytes result" where
  "updatePskSecret secret pskId psk index count kdf =
     (if int index > UINT16_MAX \<or> int count > UINT16_MAX then Inl ValidationError
      else let zeroes = replicate (kdf_size kdf) 0 in
        res_bind (encodePskLabel \<lparr>pl_id = pskId, pl_index = int index, pl_count = int count\<rparr>) (\<lambda>l.
        res_bind (expandWithLabel (kdf_extract kdf zeroes psk) ''derived psk'' l (int (kdf_size kdf)) kdf) (\<lambda>e.
          Inr (kdf_extract kdf e secret))))"

definition computePskSecret :: "(preSharedKeyID \<times> bytes) list \<Rightarrow> kdfImpl \<Rightarrow> bytes result" where
  "computePskSecret psks kdf =
     res_foldM (\<lambda>acc (index, curId, curPsk). updatePskSecret acc curId curPsk index (length psks) kdf)
       (replicate (kdf_size kdf) 0) (enumerate 0 psks)"

definition emptyPskIndex :: "preSharedKeyID \<Rightarrow> bytes option" where
  "emptyPskIndex = (\<lambda>_. None)"

definition accumulatePskSecret ::
    "preSharedKeyID list \<Rightarrow> (preSharedKeyID \<Rightarrow> bytes option) \<Rightarrow> kdfImpl \<Rightarrow> bytes \<Rightarrow>
     (bytes \<times> preSharedKeyID list) result" where
  "accumulatePskSecret groupedPsk findPsk kdf zeroes =
     res_foldM (\<lambda>(previousSecret, ids) (index, cur).
         if length (psk_nonce cur) \<noteq> kdf_size kdf then Inl ValidationError
         else case findPsk cur of
           None \<Rightarrow> Inl ValidationError
         | Some psk \<Rightarrow> res_bind (updatePskSecret previousSecret cur psk index (length groupedPsk) kdf)
             (\<lambda>pskSecret. Inr (pskSecret, ids @ [cur])))
       (zeroes, []) (enumerate 0 groupedPsk)"

text \<open>
  The receiver's fold over the proposals and the joiner's fold over the found keys agree.
\<close>

lemma accumulate_compute:
  assumes "list_all (\<lambda>p. length (psk_nonce p) = kdf_size kdf) ps" "list_all (\<lambda>p. findPsk p = Some (key p)) ps"
  shows "accumulatePskSecret ps findPsk kdf (replicate (kdf_size kdf) 0) =
    res_map (\<lambda>s. (s, ps)) (computePskSecret (map (\<lambda>p. (p, key p)) ps) kdf)"
proof -
  let ?n = "length ps"
  let ?f = "\<lambda>(previousSecret, ids) (index, cur).
         if length (psk_nonce cur) \<noteq> kdf_size kdf then Inl ValidationError
         else case findPsk cur of
           None \<Rightarrow> Inl ValidationError
         | Some psk \<Rightarrow> res_bind (updatePskSecret previousSecret cur psk index ?n kdf)
             (\<lambda>pskSecret. Inr (pskSecret, ids @ [cur]))"
  let ?g = "\<lambda>acc (index, curId, curPsk). updatePskSecret acc curId curPsk index ?n kdf"
  have "res_foldM ?f (s, ids) (enumerate i qs) =
      res_map (\<lambda>s. (s, ids @ qs)) (res_foldM ?g s (enumerate i (map (\<lambda>p. (p, key p)) qs)))"
    if "list_all (\<lambda>p. length (psk_nonce p) = kdf_size kdf) qs" "list_all (\<lambda>p. findPsk p = Some (key p)) qs"
    for s ids i qs
    using that
  proof (induction qs arbitrary: s ids i)
    case (Cons q qs)
    then show ?case by (cases "updatePskSecret s q (key q) i ?n kdf") simp_all
  qed simp
  from this [OF assms, of "replicate (kdf_size kdf) 0" "[]" 0] show ?thesis
    by (simp add: accumulatePskSecret_def computePskSecret_def)
qed

section \<open>Signatures of leaf nodes\<close>

text \<open>A signed leaf is the signed record with its signature; the group part is not in it.\<close>

definition signedLeaf :: "leafNodeTBS \<Rightarrow> bytes \<Rightarrow> leafNode" where
  "signedLeaf tbs signature = leafNodeData.extend (leafNodeData.truncate tbs)
     (leafNode.fields (tbs_info tbs) (tbs_extensions tbs) signature)"

definition signLeafNodeCommit :: "leafNodeTBS \<Rightarrow> 'sk \<Rightarrow> 'sk signatureImpl \<Rightarrow> leafNode result" where
  "signLeafNodeCommit tbs signaturePrivateKey sig = res_bind (encodeLeafNodeTBS tbs) (\<lambda>b.
     res_map (signedLeaf tbs) (signWithLabel signaturePrivateKey ''LeafNodeTBS'' b sig))"

definition signLeafNodeUpdate :: "leafNodeTBS \<Rightarrow> 'sk \<Rightarrow> 'sk signatureImpl \<Rightarrow> leafNode result" where
  "signLeafNodeUpdate tbs signaturePrivateKey sig = res_bind (encodeLeafNodeTBS tbs) (\<lambda>b.
     res_map (signedLeaf tbs) (signWithLabel signaturePrivateKey ''LeafNodeTBS'' b sig))"

definition signLeafNodeKeyPackage :: "leafNodeTBS \<Rightarrow> 'sk \<Rightarrow> 'sk signatureImpl \<Rightarrow> leafNode result" where
  "signLeafNodeKeyPackage tbs signaturePrivateKey sig = res_bind (encodeLeafNodeTBS tbs) (\<lambda>b.
     res_map (signedLeaf tbs) (signWithLabel signaturePrivateKey ''LeafNodeTBS'' b sig))"

definition verifyLeafNodeSignature :: "leafNode \<Rightarrow> bytes \<Rightarrow> int \<Rightarrow> 'sk signatureImpl \<Rightarrow> bool result" where
  "verifyLeafNodeSignature leaf groupId leafIndex sig =
     res_bind (encodeLeafNodeTBS (toTbs leaf groupId leafIndex)) (\<lambda>b.
       verifyWithLabel (ln_signaturePublicKey leaf) ''LeafNodeTBS'' b (ln_signature leaf) sig)"

text \<open>For leaves of key packages; the group part is empty whatever the leaf says.\<close>

definition verifyLeafNodeSignatureKeyPackage :: "leafNode \<Rightarrow> 'sk signatureImpl \<Rightarrow> bool result" where
  "verifyLeafNodeSignatureKeyPackage leaf sig =
     res_bind (encodeLeafNodeTBS (leafNodeData.extend (leafNodeData.truncate leaf)
         (leafNodeTBS.fields (ln_info leaf) (ln_extensions leaf) GroupInfoKeyPackage))) (\<lambda>b.
       verifyWithLabel (ln_signaturePublicKey leaf) ''LeafNodeTBS'' b (ln_signature leaf) sig)"

section \<open>Key packages\<close>

definition signKeyPackage :: "keyPackageTBS \<Rightarrow> 'sk \<Rightarrow> 'sk signatureImpl \<Rightarrow> keyPackage result" where
  "signKeyPackage tbs signKey s = res_bind (encodeKeyPackageTBS tbs) (\<lambda>b.
     res_map (\<lambda>signature. keyPackageTBS.extend tbs (keyPackage.fields signature))
       (signWithLabel signKey ''KeyPackageTBS'' b s))"

definition verifyKeyPackage :: "keyPackage \<Rightarrow> 'sk signatureImpl \<Rightarrow> bool result" where
  "verifyKeyPackage kp s = res_bind (encodeKeyPackageTBS (keyPackageTBS.truncate kp)) (\<lambda>b.
     verifyWithLabel (ln_signaturePublicKey (kp_leafNode kp)) ''KeyPackageTBS'' b (kp_signature kp) s)"

definition makeKeyPackageRef :: "keyPackage \<Rightarrow> hashImpl \<Rightarrow> bytes result" where
  "makeKeyPackageRef value h = res_bind (encodeKeyPackage value) (\<lambda>b. refhash ''MLS 1.0 KeyPackage Reference'' b h)"

section \<open>Sender data, welcomes and group information\<close>

text \<open>Keys of the HPKE implementation are opaque; opening, decrypting and importing may throw.  Each
  operation takes the arguments in the order of the sources; the random choices of sealing and
  exporting are the implementation's.\<close>

record ('pub, 'priv) hpkeImpl =
  hpke_open :: "'priv \<Rightarrow> bytes \<Rightarrow> bytes \<Rightarrow> bytes \<Rightarrow> bytes result"
  hpke_seal :: "'pub \<Rightarrow> bytes \<Rightarrow> bytes \<Rightarrow> bytes \<Rightarrow> bytes \<times> bytes"
  hpke_encryptAead :: "bytes \<Rightarrow> bytes \<Rightarrow> bytes option \<Rightarrow> bytes \<Rightarrow> bytes"
  hpke_decryptAead :: "bytes \<Rightarrow> bytes \<Rightarrow> bytes option \<Rightarrow> bytes \<Rightarrow> bytes result"
  hpke_importPrivateKey :: "bytes \<Rightarrow> 'priv result"
  hpke_importPublicKey :: "bytes \<Rightarrow> 'pub result"
  hpke_exportPublicKey :: "'pub \<Rightarrow> bytes"
  hpke_exportPrivateKey :: "'priv \<Rightarrow> bytes"
  hpke_exportSecret :: "'pub \<Rightarrow> bytes \<Rightarrow> int \<Rightarrow> bytes \<Rightarrow> bytes \<times> bytes"
  hpke_importSecret :: "'priv \<Rightarrow> bytes \<Rightarrow> bytes \<Rightarrow> int \<Rightarrow> bytes \<Rightarrow> bytes result"
  hpke_deriveKeyPair :: "bytes \<Rightarrow> 'priv \<times> 'pub"
  hpke_keyLength :: int
  hpke_nonceLength :: int

definition encryptWithLabel ::
    "'pub \<Rightarrow> string \<Rightarrow> bytes \<Rightarrow> bytes \<Rightarrow> ('pub, 'priv) hpkeImpl \<Rightarrow> (bytes \<times> bytes) result" where
  "encryptWithLabel publicKey label context plaintext hpke =
     res_bind (labelled label context) (\<lambda>info. Inr (hpke_seal hpke publicKey plaintext info []))"

definition decryptWithLabel ::
    "'priv \<Rightarrow> string \<Rightarrow> bytes \<Rightarrow> bytes \<Rightarrow> bytes \<Rightarrow> ('pub, 'priv) hpkeImpl \<Rightarrow> bytes result" where
  "decryptWithLabel privateKey label context kemOutput ciphertext hpke =
     res_bind (labelled label context) (\<lambda>info. hpke_open hpke privateKey kemOutput ciphertext info)"

definition expandSenderDataKey ::
    "kdfImpl \<Rightarrow> ('pub, 'priv) hpkeImpl \<Rightarrow> bytes \<Rightarrow> bytes \<Rightarrow> bytes result" where
  "expandSenderDataKey kdf hpke senderDataSecret ciphertext =
     (let ciphertextSample = sampleCiphertext (kdf_size kdf) ciphertext in
      expandWithLabel senderDataSecret ''key'' ciphertextSample (hpke_keyLength hpke) kdf)"

definition expandSenderDataNonce ::
    "kdfImpl \<Rightarrow> ('pub, 'priv) hpkeImpl \<Rightarrow> bytes \<Rightarrow> bytes \<Rightarrow> bytes result" where
  "expandSenderDataNonce kdf hpke senderDataSecret ciphertext =
     (let ciphertextSample = sampleCiphertext (kdf_size kdf) ciphertext in
      expandWithLabel senderDataSecret ''nonce'' ciphertextSample (hpke_nonceLength hpke) kdf)"

definition decryptSenderData ::
    "privateMessage \<Rightarrow> bytes \<Rightarrow> kdfImpl \<Rightarrow> ('pub, 'priv) hpkeImpl \<Rightarrow> senderData option result" where
  "decryptSenderData msg senderDataSecret kdf hpke =
     res_bind (expandSenderDataKey kdf hpke senderDataSecret (pm_ciphertext msg)) (\<lambda>key.
     res_bind (expandSenderDataNonce kdf hpke senderDataSecret (pm_ciphertext msg)) (\<lambda>nonce.
     let aad = \<lparr>sda_groupId = pm_groupId msg, sda_epoch = pm_epoch msg, sda_contentType = pm_contentType msg\<rparr> in
     res_bind (encodeSenderDataAAD aad) (\<lambda>a.
     res_bind (hpke_decryptAead hpke key nonce (Some a) (pm_encryptedSenderData msg)) (\<lambda>decrypted.
       res_map (map_option fst) (decodeSenderData decrypted 0)))))"

definition encryptSenderData ::
    "bytes \<Rightarrow> senderData \<Rightarrow> senderDataAAD \<Rightarrow> bytes \<Rightarrow> kdfImpl \<Rightarrow> ('pub, 'priv) hpkeImpl \<Rightarrow> bytes result" where
  "encryptSenderData senderDataSecret senderData aad ciphertext kdf hpke =
     res_bind (expandSenderDataKey kdf hpke senderDataSecret ciphertext) (\<lambda>key.
     res_bind (expandSenderDataNonce kdf hpke senderDataSecret ciphertext) (\<lambda>nonce.
     res_bind (encodeSenderDataAAD aad) (\<lambda>a. res_bind (encodeSenderData senderData) (\<lambda>s.
       Inr (hpke_encryptAead hpke key nonce (Some a) s)))))"

definition signGroupInfo :: "groupInfoTBS \<Rightarrow> 'sk \<Rightarrow> 'sk signatureImpl \<Rightarrow> groupInfo result" where
  "signGroupInfo tbs privateKey s = res_bind (encodeGroupInfoTBS tbs) (\<lambda>b.
     res_bind (signWithLabel privateKey ''GroupInfoTBS'' b s) (\<lambda>signature.
       Inr (groupInfoTBS.extend tbs (groupInfo.fields signature))))"

definition verifyGroupInfoSignature :: "groupInfo \<Rightarrow> bytes \<Rightarrow> 'sk signatureImpl \<Rightarrow> bool result" where
  "verifyGroupInfoSignature gi publicKey s = res_bind (encodeGroupInfoTBS (groupInfoTBS.truncate gi)) (\<lambda>b.
     verifyWithLabel publicKey ''GroupInfoTBS'' b (gi_signature gi) s)"

definition verifyGroupInfoConfirmationTag ::
    "groupInfo \<Rightarrow> bytes \<Rightarrow> bytes \<Rightarrow> kdfImpl \<Rightarrow> hashImpl \<Rightarrow> bool result" where
  "verifyGroupInfoConfirmationTag gi joinerSecret pskSecret kdf h =
     res_bind (extractEpochSecret (gi_groupContext gi) joinerSecret kdf (Some pskSecret)) (\<lambda>epochSecret.
     res_bind (deriveSecret epochSecret ''confirm'' kdf) (\<lambda>key.
       Inr (h_verifyMac h key (gi_confirmationTag gi) (gc_confirmedTranscriptHash (gi_groupContext gi)))))"

definition welcomeNonce :: "bytes \<Rightarrow> kdfImpl \<Rightarrow> ('pub, 'priv) hpkeImpl \<Rightarrow> bytes result" where
  "welcomeNonce welcomeSecret kdf hpke = expandWithLabel welcomeSecret ''nonce'' [] (hpke_nonceLength hpke) kdf"

definition welcomeKey :: "bytes \<Rightarrow> kdfImpl \<Rightarrow> ('pub, 'priv) hpkeImpl \<Rightarrow> bytes result" where
  "welcomeKey welcomeSecret kdf hpke = expandWithLabel welcomeSecret ''key'' [] (hpke_keyLength hpke) kdf"

definition encryptGroupInfo :: "groupInfo \<Rightarrow> bytes \<Rightarrow> kdfImpl \<Rightarrow> ('pub, 'priv) hpkeImpl \<Rightarrow> bytes result" where
  "encryptGroupInfo groupInfo welcomeSecret kdf hpke =
     res_bind (welcomeKey welcomeSecret kdf hpke) (\<lambda>key. res_bind (welcomeNonce welcomeSecret kdf hpke) (\<lambda>nonce.
       res_bind (encodeGroupInfo groupInfo) (\<lambda>b. Inr (hpke_encryptAead hpke key nonce None b))))"

definition decryptGroupInfo ::
    "welcomeMessage \<Rightarrow> bytes \<Rightarrow> bytes \<Rightarrow> kdfImpl \<Rightarrow> ('pub, 'priv) hpkeImpl \<Rightarrow> groupInfo option result" where
  "decryptGroupInfo w joinerSecret pskSecret kdf hpke =
     res_bind (extractWelcomeSecret joinerSecret pskSecret kdf) (\<lambda>welcomeSecret.
     res_bind (welcomeKey welcomeSecret kdf hpke) (\<lambda>key. res_bind (welcomeNonce welcomeSecret kdf hpke) (\<lambda>nonce.
     res_bind (hpke_decryptAead hpke key nonce None (w_encryptedGroupInfo w)) (\<lambda>decrypted.
       res_map (map_option fst) (decodeGroupInfo decrypted 0)))))"

definition encryptGroupSecrets ::
    "'pub \<Rightarrow> bytes \<Rightarrow> groupSecrets \<Rightarrow> ('pub, 'priv) hpkeImpl \<Rightarrow> (bytes \<times> bytes) result" where
  "encryptGroupSecrets initKey encryptedGroupInfo groupSecrets hpke =
     res_bind (encodeGroupSecrets groupSecrets) (\<lambda>b.
       encryptWithLabel initKey ''Welcome'' encryptedGroupInfo b hpke)"

definition decryptGroupSecrets ::
    "'priv \<Rightarrow> bytes \<Rightarrow> welcomeMessage \<Rightarrow> ('pub, 'priv) hpkeImpl \<Rightarrow> groupSecrets option result" where
  "decryptGroupSecrets initPrivateKey keyPackageRef welcome hpke =
     (case find (\<lambda>s. constantTimeEqual (egs_newMember s) keyPackageRef) (w_secrets welcome) of
        None \<Rightarrow> Inl ValidationError
      | Some secret \<Rightarrow>
          res_bind (decryptWithLabel initPrivateKey ''Welcome'' (w_encryptedGroupInfo welcome)
            (hc_kemOutput (egs_encryptedGroupSecrets secret)) (hc_ciphertext (egs_encryptedGroupSecrets secret)) hpke)
            (\<lambda>decrypted. res_map (map_option fst) (decodeGroupSecrets decrypted 0)))"

end
