(* ===== verification/SecretTree.thy ===== *)
theory SecretTree imports Crypto Treemath "HOL-Library.AList" begin

text \<open>
  The secret tree and its ratchets, \<^verbatim>\<open>src/secret-tree.ts\<close> and
  \<^verbatim>\<open>src/key-retention-config.ts\<close>.  The record of the unused generations of a ratchet is an
  association list with the operations of \<^verbatim>\<open>HOL-Library.AList\<close>; the buffers themselves are
  values, so \<open>zeroHandshakeRatchets\<close>, which wipes them in
  place, returns the tree it leaves.
\<close>

section \<open>State\<close>

record generationKeyNonce =
  gk_key :: bytes
  gk_nonce :: bytes

record generationSecret =
  rt_secret :: bytes
  rt_generation :: int
  rt_unused :: "(int \<times> generationKeyNonce) list"

record secretTreeNode =
  sn_handshake :: generationSecret
  sn_application :: generationSecret

type_synonym secretTree = "secretTreeNode option list"

record keyRetentionConfig =
  kr_retainKeysForGenerations :: int
  kr_retainKeysForEpochs :: int
  kr_maximumForwardRatchetSteps :: int

definition defaultKeyRetentionConfig :: keyRetentionConfig where
  "defaultKeyRetentionConfig = \<lparr>kr_retainKeysForGenerations = 10, kr_retainKeysForEpochs = 4,
     kr_maximumForwardRatchetSteps = 200\<rparr>"

record consumeRatchetResult =
  cr_nonce :: bytes
  cr_reuseGuard :: bytes
  cr_key :: bytes
  cr_generation :: int
  cr_newTree :: secretTree

text \<open>The parameters of the ciphersuite a ratchet uses.\<close>

record cipherParams =
  cp_kdf :: kdfImpl
  cp_keyLength :: int
  cp_nonceLength :: int

section \<open>Building the tree\<close>

function deriveChildren :: "bytes option list \<Rightarrow> int \<Rightarrow> kdfImpl \<Rightarrow> bytes option list result" where
  "deriveChildren tree nodeIndex kdf =
     (if isLeaf nodeIndex then Inr tree
      else res_bind (left nodeIndex) (\<lambda>l. res_bind (right nodeIndex) (\<lambda>r.
        case sparse_get tree nodeIndex of
          None \<Rightarrow> Inl InternalError
        | Some parentSecret \<Rightarrow>
            res_bind (expandWithLabel parentSecret ''tree'' (ascii ''left'') (int (kdf_size kdf)) kdf) (\<lambda>leftSecret.
            res_bind (expandWithLabel parentSecret ''tree'' (ascii ''right'') (int (kdf_size kdf)) kdf) (\<lambda>rightSecret.
              res_bind (deriveChildren (tree[nat l := Some leftSecret, nat r := Some rightSecret]) l kdf) (\<lambda>tree'.
                deriveChildren tree' r kdf))))))"
  by pat_completeness auto
termination
  by (relation "measure (\<lambda>(tree, i, kdf). levelOf i)") (auto intro: child_levelOf)

declare deriveChildren.simps [simp del]

definition scaffoldSecretTree :: "int \<Rightarrow> bytes \<Rightarrow> kdfImpl \<Rightarrow> bytes option list result" where
  "scaffoldSecretTree lw encryptionSecret kdf =
     (let tree = replicate (nat (nodeWidth lw)) None; rootIndex = root lw in
      deriveChildren (tree[nat rootIndex := Some encryptionSecret]) rootIndex kdf)"

definition createRatchetRoot :: "bytes \<Rightarrow> string \<Rightarrow> kdfImpl \<Rightarrow> generationSecret result" where
  "createRatchetRoot node label kdf =
     res_bind (expandWithLabel node label [] (int (kdf_size kdf)) kdf) (\<lambda>secret.
       Inr \<lparr>rt_secret = secret, rt_generation = 0, rt_unused = []\<rparr>)"

text \<open>\<open>Array.map\<close> leaves holes alone.\<close>

definition createSecretTree :: "int \<Rightarrow> bytes \<Rightarrow> kdfImpl \<Rightarrow> secretTree result" where
  "createSecretTree lw encryptionSecret kdf =
     res_bind (scaffoldSecretTree lw encryptionSecret kdf) (\<lambda>tree.
       res_mapM (\<lambda>(index, secret). case secret of
           None \<Rightarrow> Inr None
         | Some s \<Rightarrow> if \<not> isLeaf (int index) then Inr None
             else res_bind (createRatchetRoot s ''application'' kdf) (\<lambda>application.
               res_bind (createRatchetRoot s ''handshake'' kdf) (\<lambda>handshake.
                 Inr (Some \<lparr>sn_handshake = handshake, sn_application = application\<rparr>))))
         (enumerate 0 tree))"

definition stripHandshakeRatchets :: "secretTree \<Rightarrow> secretTree" where
  "stripHandshakeRatchets tree = map (map_option (\<lambda>node. \<lparr>sn_handshake =
       \<lparr>rt_secret = [], rt_generation = rt_generation (sn_handshake node), rt_unused = []\<rparr>,
     sn_application = sn_application node\<rparr>)) tree"

text \<open>The contents of the handshake buffers after they were wiped in place.\<close>

definition wipe :: "bytes \<Rightarrow> bytes" where
  "wipe b = replicate (length b) 0"

definition zeroHandshakeRatchets :: "secretTree \<Rightarrow> secretTree" where
  "zeroHandshakeRatchets tree = map (map_option (\<lambda>node. node\<lparr>sn_handshake :=
     (sn_handshake node)\<lparr>rt_secret := wipe (rt_secret (sn_handshake node)),
       rt_unused := map (\<lambda>(g, k). (g, \<lparr>gk_key = wipe (gk_key k), gk_nonce = wipe (gk_nonce k)\<rparr>))
         (rt_unused (sn_handshake node))\<rparr>\<rparr>)) tree"

section \<open>Ratcheting\<close>

definition deriveNonce :: "bytes \<Rightarrow> int \<Rightarrow> cipherParams \<Rightarrow> bytes result" where
  "deriveNonce secret generation cs = deriveTreeSecret secret ''nonce'' generation (cp_nonceLength cs) (cp_kdf cs)"

definition deriveKey :: "bytes \<Rightarrow> int \<Rightarrow> cipherParams \<Rightarrow> bytes result" where
  "deriveKey secret generation cs = deriveTreeSecret secret ''key'' generation (cp_keyLength cs) (cp_kdf cs)"

definition removeOldGenerations ::
    "(int \<times> generationKeyNonce) list \<Rightarrow> int \<Rightarrow> (int \<times> generationKeyNonce) list" where
  "removeOldGenerations historicalReceiverData keep =
     (if keep \<le> 0 then []
      else let sortedGenerations = sort (map fst historicalReceiverData);
               kept = drop (length sortedGenerations - nat keep) sortedGenerations
        in map (\<lambda>generation. (generation, the (map_of historicalReceiverData generation))) kept)"

definition updateUnusedGenerations ::
    "generationSecret \<Rightarrow> int \<Rightarrow> cipherParams \<Rightarrow> (int \<times> generationKeyNonce) list result" where
  "updateUnusedGenerations s retainGenerationsMax cs =
     (if retainGenerationsMax \<le> 0 then Inr []
      else res_bind (deriveKey (rt_secret s) (rt_generation s) cs) (\<lambda>key.
        res_bind (deriveNonce (rt_secret s) (rt_generation s) cs) (\<lambda>nonce.
        let withNew = AList.update (rt_generation s) \<lparr>gk_key = key, gk_nonce = nonce\<rparr> (rt_unused s) in
        Inr (if int (length withNew) \<ge> retainGenerationsMax
          then removeOldGenerations withNew retainGenerationsMax else withNew))))"

fun repeatAsync :: "('t \<Rightarrow> 't result) \<Rightarrow> 't \<Rightarrow> nat \<Rightarrow> 't result" where
  "repeatAsync fn initial 0 = Inr initial"
| "repeatAsync fn initial (Suc n) = res_bind (fn initial) (\<lambda>result. repeatAsync fn result n)"

definition ratchetStep :: "keyRetentionConfig \<Rightarrow> cipherParams \<Rightarrow> generationSecret \<Rightarrow> generationSecret result" where
  "ratchetStep config cs s =
     res_bind (updateUnusedGenerations s (kr_retainKeysForGenerations config) cs) (\<lambda>unusedGenerations.
     res_bind (deriveTreeSecret (rt_secret s) ''secret'' (rt_generation s) (int (kdf_size (cp_kdf cs))) (cp_kdf cs))
       (\<lambda>nextSecret. Inr \<lparr>rt_secret = nextSecret, rt_generation = rt_generation s + 1,
          rt_unused = unusedGenerations\<rparr>))"

definition ratchetUntil ::
    "generationSecret \<Rightarrow> int \<Rightarrow> keyRetentionConfig \<Rightarrow> cipherParams \<Rightarrow> generationSecret result" where
  "ratchetUntil current desiredGen config cs =
     (let generationDifference = desiredGen - rt_generation current in
      if generationDifference > kr_maximumForwardRatchetSteps config then Inl ValidationError
      else repeatAsync (ratchetStep config cs) current (nat generationDifference))"

definition applyReuseGuard :: "bytes \<Rightarrow> bytes \<Rightarrow> bytes result" where
  "applyReuseGuard nonce reuseGuard =
     (if length nonce \<ge> 4 \<and> length reuseGuard \<ge> 4
      then Inr (map2 (\<lambda>n g. n XOR g) (take 4 nonce) (take 4 reuseGuard) @ drop 4 nonce)
      else Inl ValidationError)"

definition derivePrivateMessageNonce :: "bytes \<Rightarrow> int \<Rightarrow> bytes \<Rightarrow> cipherParams \<Rightarrow> bytes result" where
  "derivePrivateMessageNonce secret generation reuseGuard cs =
     res_bind (deriveNonce secret generation cs) (\<lambda>nonce. applyReuseGuard nonce reuseGuard)"

definition ratchetForContentType :: "secretTreeNode \<Rightarrow> contentTypeName \<Rightarrow> generationSecret" where
  "ratchetForContentType node contentType = (case contentType of
     CT_application \<Rightarrow> sn_application node | CT_proposal \<Rightarrow> sn_handshake node | CT_commit \<Rightarrow> sn_handshake node)"

definition setRatchet :: "secretTreeNode \<Rightarrow> contentTypeName \<Rightarrow> generationSecret \<Rightarrow> secretTreeNode" where
  "setRatchet node contentType r =
     (if contentType = CT_application then node\<lparr>sn_application := r\<rparr> else node\<lparr>sn_handshake := r\<rparr>)"

definition createKeyAndNonce :: "bytes \<Rightarrow> int \<Rightarrow> bytes \<Rightarrow> cipherParams \<Rightarrow> (bytes \<times> bytes) result" where
  "createKeyAndNonce secret generation reuseGuard cs =
     res_bind (deriveKey secret generation cs) (\<lambda>key.
     res_bind (derivePrivateMessageNonce secret generation reuseGuard cs) (\<lambda>nonce. Inr (nonce, key)))"

definition createRatchetResultWithSecret ::
    "secretTreeNode \<Rightarrow> int \<Rightarrow> bytes \<Rightarrow> int \<Rightarrow> bytes \<Rightarrow> secretTree \<Rightarrow> contentTypeName \<Rightarrow> cipherParams \<Rightarrow>
     generationSecret \<Rightarrow> consumeRatchetResult result" where
  "createRatchetResultWithSecret node index secret generation reuseGuard tree contentType cs ratchetState =
     res_bind (createKeyAndNonce secret generation reuseGuard cs) (\<lambda>(nonce, key).
       let newNode = setRatchet node contentType ratchetState;
           newTree = updateArray tree (nat index) (Some newNode)
       in Inr \<lparr>cr_nonce = nonce, cr_reuseGuard = reuseGuard, cr_key = key, cr_generation = generation,
               cr_newTree = newTree\<rparr>)"

definition createRatchetResult ::
    "secretTreeNode \<Rightarrow> int \<Rightarrow> generationSecret \<Rightarrow> bytes \<Rightarrow> secretTree \<Rightarrow> contentTypeName \<Rightarrow> cipherParams \<Rightarrow>
     consumeRatchetResult result" where
  "createRatchetResult node index currentSecret reuseGuard tree contentType cs =
     res_bind (deriveTreeSecret (rt_secret currentSecret) ''secret'' (rt_generation currentSecret)
         (int (kdf_size (cp_kdf cs))) (cp_kdf cs)) (\<lambda>nextSecret.
       let ratchetState = currentSecret\<lparr>rt_secret := nextSecret, rt_generation := rt_generation currentSecret + 1\<rparr> in
       createRatchetResultWithSecret node index (rt_secret currentSecret) (rt_generation currentSecret)
         reuseGuard tree contentType cs ratchetState)"

definition ratchetToGeneration ::
    "secretTree \<Rightarrow> senderData \<Rightarrow> contentTypeName \<Rightarrow> keyRetentionConfig \<Rightarrow> cipherParams \<Rightarrow>
     consumeRatchetResult result" where
  "ratchetToGeneration tree senderData contentType config cs =
     (let index = leafToNodeIndex (sd_leafIndex senderData) in
      case sparse_get tree index of
        None \<Rightarrow> Inl InternalError
      | Some node \<Rightarrow>
          let ratchet = ratchetForContentType node contentType in
          if rt_generation ratchet > sd_generation senderData then
            (case map_of (rt_unused ratchet) (sd_generation senderData) of
               Some desired \<Rightarrow>
                 let ratchetState = ratchet\<lparr>rt_unused := AList.delete (sd_generation senderData) (rt_unused ratchet)\<rparr>;
                     newNode = setRatchet node contentType ratchetState
                 in res_bind (applyReuseGuard (gk_nonce desired) (sd_reuseGuard senderData)) (\<lambda>nonce.
                   Inr \<lparr>cr_nonce = nonce, cr_reuseGuard = sd_reuseGuard senderData, cr_key = gk_key desired,
                        cr_generation = sd_generation senderData,
                        cr_newTree = updateArray tree (nat index) (Some newNode)\<rparr>)
             | None \<Rightarrow> Inl ValidationError)
          else res_bind (ratchetUntil ratchet (sd_generation senderData) config cs) (\<lambda>currentSecret.
            createRatchetResult node index currentSecret (sd_reuseGuard senderData) tree contentType cs))"

text \<open>The sender's side; \<open>reuseGuard\<close> is the random bytes drawn.\<close>

definition consumeRatchet ::
    "secretTree \<Rightarrow> int \<Rightarrow> contentTypeName \<Rightarrow> cipherParams \<Rightarrow> bytes \<Rightarrow> consumeRatchetResult result" where
  "consumeRatchet tree index contentType cs reuseGuard = (case sparse_get tree index of
     None \<Rightarrow> Inl InternalError
   | Some node \<Rightarrow>
       let currentSecret = ratchetForContentType node contentType in
       createRatchetResult node index currentSecret reuseGuard tree contentType cs)"

section \<open>One ratchet\<close>

text \<open>
  What the two entry points do to the one ratchet they work on.  The laws below are about
  these, and the tree operations reduce to them.
\<close>

definition takeKey :: "cipherParams \<Rightarrow> bytes \<Rightarrow> generationSecret \<Rightarrow> (bytes \<times> bytes \<times> generationSecret) result" where
  "takeKey cs reuseGuard r =
     res_bind (deriveTreeSecret (rt_secret r) ''secret'' (rt_generation r) (int (kdf_size (cp_kdf cs))) (cp_kdf cs))
       (\<lambda>nextSecret. res_bind (createKeyAndNonce (rt_secret r) (rt_generation r) reuseGuard cs) (\<lambda>(nonce, key).
         Inr (key, nonce, r\<lparr>rt_secret := nextSecret, rt_generation := rt_generation r + 1\<rparr>)))"

definition receiveKey :: "keyRetentionConfig \<Rightarrow> cipherParams \<Rightarrow> int \<Rightarrow> bytes \<Rightarrow> generationSecret \<Rightarrow>
    (bytes \<times> bytes \<times> generationSecret) result" where
  "receiveKey config cs g reuseGuard r =
     (if rt_generation r > g then
        (case map_of (rt_unused r) g of
           Some k \<Rightarrow> res_bind (applyReuseGuard (gk_nonce k) reuseGuard) (\<lambda>nonce.
             Inr (gk_key k, nonce, r\<lparr>rt_unused := AList.delete g (rt_unused r)\<rparr>))
         | None \<Rightarrow> Inl ValidationError)
      else res_bind (ratchetUntil r g config cs) (takeKey cs reuseGuard))"

definition packResult :: "secretTreeNode \<Rightarrow> int \<Rightarrow> secretTree \<Rightarrow> contentTypeName \<Rightarrow> bytes \<Rightarrow> int \<Rightarrow>
    (bytes \<times> bytes \<times> generationSecret) \<Rightarrow> consumeRatchetResult" where
  "packResult node index tree contentType reuseGuard g z = (case z of (key, nonce, r) \<Rightarrow>
     \<lparr>cr_nonce = nonce, cr_reuseGuard = reuseGuard, cr_key = key, cr_generation = g,
      cr_newTree = updateArray tree (nat index) (Some (setRatchet node contentType r))\<rparr>)"

lemma createRatchetResult_takeKey:
  "createRatchetResult node index r guard tree ct cs =
   res_map (packResult node index tree ct guard (rt_generation r)) (takeKey cs guard r)"
  by (cases "deriveTreeSecret (rt_secret r) ''secret'' (rt_generation r) (int (kdf_size (cp_kdf cs))) (cp_kdf cs)";
      cases "createKeyAndNonce (rt_secret r) (rt_generation r) guard cs")
    (auto simp: createRatchetResult_def createRatchetResultWithSecret_def takeKey_def packResult_def Let_def)

lemma repeat_ratchetStep_generation:
  "repeatAsync (ratchetStep config cs) r n = Inr r' \<Longrightarrow> rt_generation r' = rt_generation r + int n"
  by (induction n arbitrary: r) (auto simp: ratchetStep_def res_bind_eq_Inr)

lemma ratchetUntil_generation:
  "ratchetUntil r g config cs = Inr r' \<Longrightarrow> rt_generation r \<le> g \<Longrightarrow> rt_generation r' = g"
  using repeat_ratchetStep_generation [of config cs r "nat (g - rt_generation r)" r']
  by (auto simp: ratchetUntil_def Let_def split: if_splits)

lemma ratchetToGeneration_receiveKey:
  assumes "sparse_get tree (leafToNodeIndex (sd_leafIndex sd)) = Some node"
  shows "ratchetToGeneration tree sd ct config cs =
    res_map (packResult node (leafToNodeIndex (sd_leafIndex sd)) tree ct (sd_reuseGuard sd) (sd_generation sd))
      (receiveKey config cs (sd_generation sd) (sd_reuseGuard sd) (ratchetForContentType node ct))"
proof (cases "rt_generation (ratchetForContentType node ct) > sd_generation sd")
  case True
  then show ?thesis using assms
    by (simp add: ratchetToGeneration_def receiveKey_def Let_def packResult_def res_map_def res_bind_assoc
        split: option.splits)
next
  case False
  let ?r = "ratchetForContentType node ct"
  show ?thesis
  proof (cases "ratchetUntil ?r (sd_generation sd) config cs")
    case (Inr r')
    then have "rt_generation r' = sd_generation sd" using ratchetUntil_generation False by simp
    then show ?thesis using assms False Inr
      by (simp add: ratchetToGeneration_def receiveKey_def Let_def createRatchetResult_takeKey)
  qed (use assms False in \<open>simp add: ratchetToGeneration_def receiveKey_def Let_def\<close>)
qed

lemma consumeRatchet_takeKey:
  "sparse_get tree index = Some node \<Longrightarrow> consumeRatchet tree index ct cs guard =
   res_map (packResult node index tree ct guard (rt_generation (ratchetForContentType node ct)))
     (takeKey cs guard (ratchetForContentType node ct))"
  by (simp add: consumeRatchet_def Let_def createRatchetResult_takeKey)

end
