(* ===== verification/SecretTreeLaws.thy ===== *)
theory SecretTreeLaws imports SecretTree begin

text \<open>
  Laws of the ratchets.  \<open>keyAt\<close> is the key and nonce that the generations of a ratchet have
  by definition of the chain; a good ratchet holds the chain secret of its generation and,
  for earlier generations, only their own keys.  The locale \<open>one_time_keys\<close> is what the
  message layer needs of a ratchet: the right key, at most once.
\<close>

section \<open>The contract\<close>

fun receiveAll :: "('m \<Rightarrow> 's \<Rightarrow> ('k \<times> 's) result) \<Rightarrow> 's \<Rightarrow> 'm list \<Rightarrow> ('m \<times> 'k) list" where
  "receiveAll recv s [] = []"
| "receiveAll recv s (m # ms) = (case recv m s of
     Inl e \<Rightarrow> receiveAll recv s ms
   | Inr (k, s') \<Rightarrow> (m, k) # receiveAll recv s' ms)"

locale one_time_keys =
  fixes good :: "'s \<Rightarrow> bool" and recv :: "'m \<Rightarrow> 's \<Rightarrow> ('k \<times> 's) result" and gen :: "'m \<Rightarrow> 'g"
    and right_key :: "'m \<Rightarrow> 'k \<Rightarrow> bool" and spent :: "'s \<Rightarrow> 'g \<Rightarrow> bool"
  assumes recv_good: "good s \<Longrightarrow> recv m s = Inr (k, s') \<Longrightarrow> good s' \<and> right_key m k"
    and recv_spends: "good s \<Longrightarrow> recv m s = Inr (k, s') \<Longrightarrow> spent s' (gen m)"
    and spent_mono: "good s \<Longrightarrow> recv m s = Inr (k, s') \<Longrightarrow> spent s g \<Longrightarrow> spent s' g"
    and spent_rejected: "good s \<Longrightarrow> spent s (gen m) \<Longrightarrow> \<exists>e. recv m s = Inl e"
begin

lemma replay_rejected:
  "good s \<Longrightarrow> recv m s = Inr (k, s') \<Longrightarrow> gen m' = gen m \<Longrightarrow> \<exists>e. recv m' s' = Inl e"
  using recv_good recv_spends spent_rejected by metis

lemma receiveAll_right: "good s \<Longrightarrow> (m, k) \<in> set (receiveAll recv s ms) \<Longrightarrow> right_key m k"
  by (induction ms arbitrary: s) (auto split: sum.splits dest: recv_good)

lemma receiveAll_unspent:
  "good s \<Longrightarrow> z \<in> set (receiveAll recv s ms) \<Longrightarrow> \<not> spent s (gen (fst z))"
proof (induction ms arbitrary: s)
  case (Cons m ms)
  show ?case
  proof (cases "recv m s")
    case (Inr y)
    then obtain k s' where y: "recv m s = Inr (k, s')" by (cases y) simp
    then have "\<not> spent s (gen m)" using spent_rejected [of s m] Cons.prems(1) by auto
    moreover have "z \<in> set (receiveAll recv s' ms) \<Longrightarrow> \<not> spent s (gen (fst z))"
      using Cons.IH [of s'] recv_good [OF Cons.prems(1) y] spent_mono [OF Cons.prems(1) y] by blast
    ultimately show ?thesis using Cons.prems(2) y by auto
  qed (use Cons in auto)
qed simp

text \<open>Whatever the order of the messages, no generation is accepted twice.\<close>

lemma receiveAll_distinct: "good s \<Longrightarrow> distinct (map (gen \<circ> fst) (receiveAll recv s ms))"
proof (induction ms arbitrary: s)
  case (Cons m ms)
  show ?case
  proof (cases "recv m s")
    case (Inr y)
    then obtain k s' where y: "recv m s = Inr (k, s')" by (cases y) simp
    note g = recv_good [OF Cons.prems y]
    have "spent s' (gen m)" by (rule recv_spends [OF Cons.prems y])
    then have "gen m \<notin> (gen \<circ> fst) ` set (receiveAll recv s' ms)"
      using receiveAll_unspent [of s' _ ms] g by auto
    then show ?thesis using y Cons.IH [of s'] g by simp
  qed (use Cons in simp)
qed simp

end

section \<open>Chains\<close>

fun chain :: "cipherParams \<Rightarrow> bytes \<Rightarrow> nat \<Rightarrow> bytes result" where
  "chain cs s 0 = Inr s"
| "chain cs s (Suc n) = res_bind (chain cs s n) (\<lambda>x.
     deriveTreeSecret x ''secret'' (int n) (int (kdf_size (cp_kdf cs))) (cp_kdf cs))"

definition keyAt :: "cipherParams \<Rightarrow> bytes \<Rightarrow> nat \<Rightarrow> generationKeyNonce result" where
  "keyAt cs s n = res_bind (chain cs s n) (\<lambda>x. res_bind (deriveKey x (int n) cs) (\<lambda>k.
     res_bind (deriveNonce x (int n) cs) (\<lambda>nonce. Inr \<lparr>gk_key = k, gk_nonce = nonce\<rparr>)))"

definition goodRatchet :: "cipherParams \<Rightarrow> bytes \<Rightarrow> generationSecret \<Rightarrow> bool" where
  "goodRatchet cs s r \<longleftrightarrow> 0 \<le> rt_generation r \<and> chain cs s (nat (rt_generation r)) = Inr (rt_secret r) \<and>
     sorted_wrt (<) (map fst (rt_unused r)) \<and>
     (\<forall>(g, k)\<in>set (rt_unused r). 0 \<le> g \<and> g < rt_generation r \<and> keyAt cs s (nat g) = Inr k)"

definition lastn :: "nat \<Rightarrow> 'a list \<Rightarrow> 'a list" where
  "lastn n xs = drop (length xs - n) xs"

lemma lastn_lastn_append: "lastn n (lastn n xs @ ys) = lastn n (xs @ ys)"
  by (cases "n \<le> length xs") (simp_all add: lastn_def add.commute)

lemma set_lastn: "set (lastn n xs) \<subseteq> set xs"
  by (simp add: lastn_def set_drop_subset)

lemma length_lastn: "length (lastn n xs) = min n (length xs)"
  by (simp add: lastn_def)

lemma lastn_all: "length xs \<le> n \<Longrightarrow> lastn n xs = xs"
  by (simp add: lastn_def)

lemma update_fresh: "g \<notin> fst ` set al \<Longrightarrow> AList.update g k al = al @ [(g, k)]"
  by (induction al) auto

lemma removeOldGenerations_sorted:
  assumes s: "sorted_wrt (<) (map fst al)" and k: "0 < k"
  shows "removeOldGenerations al k = lastn (nat k) al"
proof -
  have d: "distinct (map fst al)" using s by (simp add: strict_sorted_iff)
  have "sort (map fst al) = map fst al" using s by (simp add: sorted_sort_id strict_sorted_iff)
  moreover have "map (\<lambda>g. (g, the (map_of al g))) (map fst (drop n al)) = drop n al" for n
  proof -
    have "(fst z, the (map_of al (fst z))) = z" if "z \<in> set (drop n al)" for z
    proof -
      have "z \<in> set al" using that by (rule in_set_dropD)
      then have "map_of al (fst z) = Some (snd z)" using d by (simp add: map_of_eq_Some_iff)
      then show ?thesis by simp
    qed
    then show ?thesis by (simp add: map_idI)
  qed
  ultimately show ?thesis using k by (simp add: removeOldGenerations_def lastn_def drop_map)
qed

lemma chain_step:
  assumes "goodRatchet cs s r"
    "deriveTreeSecret (rt_secret r) ''secret'' (rt_generation r) (int (kdf_size (cp_kdf cs))) (cp_kdf cs) = Inr x"
  shows "chain cs s (nat (rt_generation r + 1)) = Inr x"
proof -
  have "nat (rt_generation r + 1) = Suc (nat (rt_generation r))" "int (nat (rt_generation r)) = rt_generation r"
    using assms(1) by (simp_all add: goodRatchet_def nat_add_distrib)
  then show ?thesis using assms by (simp add: goodRatchet_def)
qed

lemma keyAt_current:
  assumes "goodRatchet cs s r" "deriveKey (rt_secret r) (rt_generation r) cs = Inr k"
    "deriveNonce (rt_secret r) (rt_generation r) cs = Inr n"
  shows "keyAt cs s (nat (rt_generation r)) = Inr \<lparr>gk_key = k, gk_nonce = n\<rparr>"
  using assms by (simp add: goodRatchet_def keyAt_def)

text \<open>One step forward: the key of the generation stepped past is the newest retained one.\<close>

lemma ratchetStep_good:
  assumes r: "goodRatchet cs s r" and step: "ratchetStep config cs r = Inr r'"
  shows "goodRatchet cs s r' \<and> rt_generation r' = rt_generation r + 1 \<and>
    (if kr_retainKeysForGenerations config \<le> 0 then rt_unused r' = []
     else \<exists>k. keyAt cs s (nat (rt_generation r)) = Inr k \<and>
       rt_unused r' = lastn (nat (kr_retainKeysForGenerations config)) (rt_unused r @ [(rt_generation r, k)]))"
proof -
  let ?keep = "kr_retainKeysForGenerations config"
  obtain u x where u: "updateUnusedGenerations r ?keep cs = Inr u"
    and x: "deriveTreeSecret (rt_secret r) ''secret'' (rt_generation r) (int (kdf_size (cp_kdf cs))) (cp_kdf cs) = Inr x"
    and r': "r' = \<lparr>rt_secret = x, rt_generation = rt_generation r + 1, rt_unused = u\<rparr>"
    using step by (auto simp: ratchetStep_def res_bind_eq_Inr)
  note ch = chain_step [OF r x]
  have pos: "0 \<le> rt_generation r" and srt: "sorted_wrt (<) (map fst (rt_unused r))"
    and old: "\<And>g k. (g, k) \<in> set (rt_unused r) \<Longrightarrow> 0 \<le> g \<and> g < rt_generation r \<and> keyAt cs s (nat g) = Inr k"
    using r by (auto simp: goodRatchet_def)
  show ?thesis
  proof (cases "?keep \<le> 0")
    case True
    then have "u = []" using u by (simp add: updateUnusedGenerations_def)
    then show ?thesis using True ch pos r' by (simp add: goodRatchet_def)
  next
    case False
    then obtain k n where kn: "deriveKey (rt_secret r) (rt_generation r) cs = Inr k"
      "deriveNonce (rt_secret r) (rt_generation r) cs = Inr n"
      using u by (auto simp: updateUnusedGenerations_def res_bind_eq_Inr)
    let ?kn = "\<lparr>gk_key = k, gk_nonce = n\<rparr>"
    let ?all = "rt_unused r @ [(rt_generation r, ?kn)]"
    note here = keyAt_current [OF r kn]
    have fresh: "rt_generation r \<notin> fst ` set (rt_unused r)" using old by force
    have sall: "sorted_wrt (<) (map fst ?all)" using srt old by (auto simp: sorted_wrt_append)
    have ul: "u = lastn (nat ?keep) ?all"
    proof (cases "int (length ?all) \<ge> ?keep")
      case True
      then show ?thesis using u False kn removeOldGenerations_sorted [OF sall]
        by (simp add: updateUnusedGenerations_def Let_def update_fresh [OF fresh])
    next
      case small: False
      then have "lastn (nat ?keep) ?all = ?all" by (intro lastn_all) linarith
      then show ?thesis using u False kn small
        by (simp add: updateUnusedGenerations_def Let_def update_fresh [OF fresh])
    qed
    have "sorted_wrt (<) (map fst u)"
      using sall unfolding ul lastn_def drop_map [symmetric] by (rule sorted_wrt_drop)
    moreover have "0 \<le> g \<and> g < rt_generation r + 1 \<and> keyAt cs s (nat g) = Inr q" if "(g, q) \<in> set u" for g q
    proof -
      have "(g, q) \<in> set ?all" using that unfolding ul by (rule subsetD [OF set_lastn])
      then consider "(g, q) \<in> set (rt_unused r)" | "g = rt_generation r" "q = ?kn" by auto
      then show ?thesis
      proof cases
        case 1
        then show ?thesis using old [OF 1] by simp
      qed (use here pos in simp)
    qed
    ultimately have "goodRatchet cs s r'" using ch pos r' by (auto simp: goodRatchet_def)
    then show ?thesis using False here ul r' by simp
  qed
qed

lemma repeat_ratchetStep_good:
  assumes "goodRatchet cs s r" "repeatAsync (ratchetStep config cs) r n = Inr r'"
  shows "goodRatchet cs s r' \<and> rt_generation r' = rt_generation r + int n \<and>
    (\<exists>ks. rt_unused r' = (if n = 0 then rt_unused r
         else lastn (nat (kr_retainKeysForGenerations config)) (rt_unused r @ ks)) \<and>
       map fst ks = map (\<lambda>j. rt_generation r + int j) [0..<n])"
  using assms
proof (induction n arbitrary: r)
  case 0
  then show ?case by simp
next
  case (Suc n)
  let ?keep = "nat (kr_retainKeysForGenerations config)"
  obtain q where q: "ratchetStep config cs r = Inr q" "repeatAsync (ratchetStep config cs) q n = Inr r'"
    using Suc.prems(2) by (auto simp: res_bind_eq_Inr)
  note step = ratchetStep_good [OF Suc.prems(1) q(1)]
  obtain k where k: "rt_unused q = lastn ?keep (rt_unused r @ [(rt_generation r, k)])"
    using step by (cases "kr_retainKeysForGenerations config \<le> 0") (auto simp: lastn_def)
  from Suc.IH [OF _ q(2)] step obtain ks where ks: "goodRatchet cs s r'" "rt_generation r' = rt_generation q + int n"
    "rt_unused r' = (if n = 0 then rt_unused q else lastn ?keep (rt_unused q @ ks))"
    "map fst ks = map (\<lambda>j. rt_generation q + int j) [0..<n]"
    by blast
  let ?ks = "(rt_generation r, k) # ks"
  have "rt_unused r' = lastn ?keep (rt_unused r @ ?ks)"
  proof (cases "n = 0")
    case True
    then have "ks = []" using ks(4) by simp
    then show ?thesis using ks(3) k True by simp
  next
    case False
    then show ?thesis using ks(3) k lastn_lastn_append [of ?keep "rt_unused r @ [(rt_generation r, k)]" ks] by simp
  qed
  moreover have "map fst ?ks = map (\<lambda>j. rt_generation r + int j) [0..<Suc n]"
  proof -
    have "map (\<lambda>j. rt_generation r + int j) [0..<Suc n] = rt_generation r # map (\<lambda>j. rt_generation r + 1 + int j) [0..<n]"
      by (simp add: upt_conv_Cons map_Suc_upt [symmetric] comp_def add.assoc del: upt_Suc)
    then show ?thesis using ks(4) step by simp
  qed
  ultimately show ?case using ks(1,2) step by (auto intro!: exI [of _ ?ks])
qed

section \<open>Receiving and sending\<close>

definition hasKey :: "cipherParams \<Rightarrow> bytes \<Rightarrow> int \<Rightarrow> bytes \<Rightarrow> bytes \<Rightarrow> bytes \<Rightarrow> bool" where
  "hasKey cs s g guard key nonce \<longleftrightarrow> 0 \<le> g \<and>
     (\<exists>k. keyAt cs s (nat g) = Inr k \<and> key = gk_key k \<and> applyReuseGuard (gk_nonce k) guard = Inr nonce)"

definition spentIn :: "generationSecret \<Rightarrow> int \<Rightarrow> bool" where
  "spentIn r g \<longleftrightarrow> g < rt_generation r \<and> g \<notin> fst ` set (rt_unused r)"

lemma takeKey_good:
  assumes r: "goodRatchet cs s r" and t: "takeKey cs guard r = Inr (key, nonce, r')"
  shows "goodRatchet cs s r' \<and> hasKey cs s (rt_generation r) guard key nonce \<and>
    rt_generation r' = rt_generation r + 1 \<and> rt_unused r' = rt_unused r"
proof -
  obtain x n where x: "deriveTreeSecret (rt_secret r) ''secret'' (rt_generation r) (int (kdf_size (cp_kdf cs))) (cp_kdf cs) = Inr x"
    and k: "deriveKey (rt_secret r) (rt_generation r) cs = Inr key"
    and n: "deriveNonce (rt_secret r) (rt_generation r) cs = Inr n" "applyReuseGuard n guard = Inr nonce"
    and r': "r' = r\<lparr>rt_secret := x, rt_generation := rt_generation r + 1\<rparr>"
    using t by (auto simp: takeKey_def createKeyAndNonce_def derivePrivateMessageNonce_def res_bind_eq_Inr)
  have "hasKey cs s (rt_generation r) guard key nonce"
    using keyAt_current [OF r k n(1)] n(2) r by (auto simp: hasKey_def goodRatchet_def)
  moreover have "goodRatchet cs s r'"
    using r chain_step [OF r x] r' by (force simp: goodRatchet_def)
  ultimately show ?thesis using r' by simp
qed

lemma ratchetUntil_good:
  assumes r: "goodRatchet cs s r" and u: "ratchetUntil r g config cs = Inr r'" and g: "rt_generation r \<le> g"
  shows "goodRatchet cs s r' \<and> rt_generation r' = g \<and> g - rt_generation r \<le> kr_maximumForwardRatchetSteps config \<and>
    (\<exists>ks. rt_unused r' = (if g = rt_generation r then rt_unused r
         else lastn (nat (kr_retainKeysForGenerations config)) (rt_unused r @ ks)) \<and>
       map fst ks = map (\<lambda>j. rt_generation r + int j) [0..<nat (g - rt_generation r)])"
proof -
  have "g - rt_generation r \<le> kr_maximumForwardRatchetSteps config"
    "repeatAsync (ratchetStep config cs) r (nat (g - rt_generation r)) = Inr r'"
    using u by (auto simp: ratchetUntil_def Let_def split: if_splits)
  with repeat_ratchetStep_good [OF r this(2)] g show ?thesis by auto
qed

lemma delete_fst: "fst ` set (AList.delete g al) = fst ` set al - {g}"
  by (force simp: AList.delete_eq)

lemma receiveKey_good:
  assumes r: "goodRatchet cs s r" and recv: "receiveKey config cs g guard r = Inr (key, nonce, r')"
  shows "goodRatchet cs s r' \<and> hasKey cs s g guard key nonce"
    and "rt_generation r' = max (rt_generation r) (g + 1)"
    and "\<exists>ks. (\<forall>j\<in>fst ` set ks. rt_generation r \<le> j \<and> j < g) \<and>
      fst ` set (rt_unused r') \<subseteq> fst ` (set (rt_unused r) \<union> set ks) - {g}"
proof -
  have "(goodRatchet cs s r' \<and> hasKey cs s g guard key nonce) \<and> rt_generation r' = max (rt_generation r) (g + 1) \<and>
    (\<exists>ks. (\<forall>j\<in>fst ` set ks. rt_generation r \<le> j \<and> j < g) \<and>
      fst ` set (rt_unused r') \<subseteq> fst ` (set (rt_unused r) \<union> set ks) - {g})"
  proof (cases "rt_generation r > g")
    case True
    then obtain k where k: "map_of (rt_unused r) g = Some k" "applyReuseGuard (gk_nonce k) guard = Inr nonce"
      "key = gk_key k" "r' = r\<lparr>rt_unused := AList.delete g (rt_unused r)\<rparr>"
      using recv by (auto simp: receiveKey_def res_bind_eq_Inr split: option.splits)
    have mem: "(g, k) \<in> set (rt_unused r)" using k(1) by (rule map_of_SomeD)
    then have "hasKey cs s g guard key nonce" using r k by (auto simp: hasKey_def goodRatchet_def)
    moreover have "sorted_wrt (<) (map fst (AList.delete g (rt_unused r)))"
      using r by (simp add: goodRatchet_def AList.delete_keys removeAll_filter_not_eq sorted_wrt_filter)
    then have "goodRatchet cs s r'" using r k(4) by (auto simp: goodRatchet_def AList.delete_eq)
    moreover have "fst ` set (rt_unused r') \<subseteq> fst ` (set (rt_unused r) \<union> set []) - {g}"
      using k(4) delete_fst [of g "rt_unused r"] by simp
    ultimately show ?thesis using True k(4) by (auto intro!: exI [of _ "[]"])
  next
    case False
    then obtain q where q: "ratchetUntil r g config cs = Inr q" "takeKey cs guard q = Inr (key, nonce, r')"
      using recv by (auto simp: receiveKey_def res_bind_eq_Inr)
    have g: "rt_generation r \<le> g" using False by simp
    from ratchetUntil_good [OF r q(1) g] obtain ks where good: "goodRatchet cs s q" "rt_generation q = g"
      and ks: "rt_unused q = (if g = rt_generation r then rt_unused r
          else lastn (nat (kr_retainKeysForGenerations config)) (rt_unused r @ ks))"
        "map fst ks = map (\<lambda>j. rt_generation r + int j) [0..<nat (g - rt_generation r)]"
      by blast
    note t = takeKey_good [OF good(1) q(2)]
    have "fst ` set ks = (\<lambda>j. rt_generation r + int j) ` {0..<nat (g - rt_generation r)}"
      using arg_cong [OF ks(2), of set] by simp
    then have range: "\<forall>j\<in>fst ` set ks. rt_generation r \<le> j \<and> j < g" by auto
    have "set (rt_unused r') \<subseteq> set (rt_unused r) \<union> set ks"
      using ks(1) t set_lastn [of "nat (kr_retainKeysForGenerations config)" "rt_unused r @ ks"] by auto
    moreover have "g \<notin> fst ` set (rt_unused r')"
      using good t by (auto simp: goodRatchet_def)
    ultimately have "fst ` set (rt_unused r') \<subseteq> fst ` (set (rt_unused r) \<union> set ks) - {g}" by blast
    then show ?thesis using t good(2) g range by auto
  qed
  then show "goodRatchet cs s r' \<and> hasKey cs s g guard key nonce" "rt_generation r' = max (rt_generation r) (g + 1)"
    "\<exists>ks. (\<forall>j\<in>fst ` set ks. rt_generation r \<le> j \<and> j < g) \<and>
      fst ` set (rt_unused r') \<subseteq> fst ` (set (rt_unused r) \<union> set ks) - {g}"
    by blast+
qed

lemma spent_receiveKey:
  assumes r: "goodRatchet cs s r" and recv: "receiveKey config cs g guard r = Inr (key, nonce, r')"
  shows "spentIn r' g" and "spentIn r h \<Longrightarrow> spentIn r' h"
proof -
  from receiveKey_good(3) [OF r recv] obtain ks where ks: "\<forall>j\<in>fst ` set ks. rt_generation r \<le> j \<and> j < g"
    "fst ` set (rt_unused r') \<subseteq> fst ` (set (rt_unused r) \<union> set ks) - {g}" by blast
  note gen = receiveKey_good(2) [OF r recv]
  show "spentIn r' g" using ks gen by (auto simp: spentIn_def)
  show "spentIn r' h" if "spentIn r h"
  proof -
    have "h \<notin> fst ` set (rt_unused r')"
    proof
      assume "h \<in> fst ` set (rt_unused r')"
      then have "h \<in> fst ` set (rt_unused r) \<or> h \<in> fst ` set ks" using ks(2) by (auto simp: image_Un)
      then show False using that ks(1) by (auto simp: spentIn_def)
    qed
    then show ?thesis using that gen by (auto simp: spentIn_def less_max_iff_disj)
  qed
qed

lemma spent_rejected_receiveKey:
  assumes "spentIn r g"
  shows "receiveKey config cs g guard r = Inl ValidationError"
  using assms by (auto simp: receiveKey_def spentIn_def map_of_eq_None_iff split: option.splits)
    (metis map_of_eq_None_iff option.distinct(1))

definition recvMessage :: "keyRetentionConfig \<Rightarrow> cipherParams \<Rightarrow> int \<times> bytes \<Rightarrow> generationSecret \<Rightarrow>
    ((bytes \<times> bytes) \<times> generationSecret) result" where
  "recvMessage config cs m r = res_map (\<lambda>(key, nonce, r'). ((key, nonce), r')) (receiveKey config cs (fst m) (snd m) r)"

lemma recvMessage_Inr:
  "recvMessage config cs m r = Inr (k, r') \<longleftrightarrow> receiveKey config cs (fst m) (snd m) r = Inr (fst k, snd k, r')"
  by (cases k) (auto simp: recvMessage_def res_map_eq_Inr)

interpretation ratchetKeys: one_time_keys "goodRatchet cs s" "recvMessage config cs" fst
  "\<lambda>m k. hasKey cs s (fst m) (snd m) (fst k) (snd k)" spentIn
  for cs s config
proof
  fix r r' :: generationSecret and m :: "int \<times> bytes" and k g
  assume r: "goodRatchet cs s r" and "recvMessage config cs m r = Inr (k, r')"
  then have recv: "receiveKey config cs (fst m) (snd m) r = Inr (fst k, snd k, r')" by (simp add: recvMessage_Inr)
  show "goodRatchet cs s r' \<and> hasKey cs s (fst m) (snd m) (fst k) (snd k)" by (rule receiveKey_good(1) [OF r recv])
  show "spentIn r' (fst m)" by (rule spent_receiveKey(1) [OF r recv])
  show "spentIn r' g" if "spentIn r g" by (rule spent_receiveKey(2) [OF r recv that])
next
  fix r :: generationSecret and m :: "int \<times> bytes"
  assume "spentIn r (fst m)"
  then show "\<exists>e. recvMessage config cs m r = Inl e"
    by (simp add: recvMessage_def spent_rejected_receiveKey)
qed

section \<open>Bounds\<close>

lemma receiveKey_retention:
  assumes r: "goodRatchet cs s r" and recv: "receiveKey config cs g guard r = Inr (key, nonce, r')"
    and keep: "kr_retainKeysForGenerations config = int n" and len: "length (rt_unused r) \<le> n"
  shows "length (rt_unused r') \<le> n"
proof (cases "rt_generation r > g")
  case True
  then have "r' = r\<lparr>rt_unused := AList.delete g (rt_unused r)\<rparr>"
    using recv by (auto simp: receiveKey_def res_bind_eq_Inr split: option.splits)
  then show ?thesis using len AList.length_delete_le [of g "rt_unused r"] by simp
next
  case False
  then obtain q where q: "ratchetUntil r g config cs = Inr q" "takeKey cs guard q = Inr (key, nonce, r')"
    using recv by (auto simp: receiveKey_def res_bind_eq_Inr)
  have g: "rt_generation r \<le> g" using False by simp
  from ratchetUntil_good [OF r q(1) g] have "goodRatchet cs s q" "length (rt_unused q) \<le> n"
    using keep len by (auto simp: length_lastn split: if_splits)
  then show ?thesis using takeKey_good q(2) by metis
qed

text \<open>Skipped generations stay deliverable as long as the retention setting says.\<close>

lemma receiveKey_keeps_skipped:
  assumes r: "goodRatchet cs s r" and recv: "receiveKey config cs g guard r = Inr (key, nonce, r')"
    and j: "rt_generation r \<le> j" "j < g" "g - kr_retainKeysForGenerations config \<le> j"
  shows "j \<in> fst ` set (rt_unused r')"
proof -
  let ?keep = "nat (kr_retainKeysForGenerations config)"
  obtain q where q: "ratchetUntil r g config cs = Inr q" "takeKey cs guard q = Inr (key, nonce, r')"
    using recv j by (auto simp: receiveKey_def res_bind_eq_Inr)
  from ratchetUntil_good [OF r q(1)] j obtain ks where good: "goodRatchet cs s q"
    and ks: "rt_unused q = lastn ?keep (rt_unused r @ ks)"
      "map fst ks = map (\<lambda>j. rt_generation r + int j) [0..<nat (g - rt_generation r)]"
    by auto
  have len: "length ks = nat (g - rt_generation r)" using arg_cong [OF ks(2), of length] by simp
  let ?i = "nat (j - rt_generation r)"
  have i: "?i < length ks" "length ks - ?keep \<le> ?i" using j len by auto
  have "fst (ks ! ?i) = map fst ks ! ?i" using i(1) by simp
  also have "\<dots> = j" unfolding ks(2) using i(1) len j by simp
  finally have fst_i: "fst (ks ! ?i) = j" .
  have "ks ! ?i = drop (length ks - ?keep) ks ! (?i - (length ks - ?keep))" using i by simp
  also have "\<dots> \<in> set (drop (length ks - ?keep) ks)" using i by (intro nth_mem) (simp, linarith)
  finally have "ks ! ?i \<in> set (lastn ?keep (rt_unused r @ ks))" by (auto simp: lastn_def)
  then have "j \<in> fst ` set (rt_unused q)" using ks(1) fst_i by force
  then show ?thesis using takeKey_good [OF good q(2)] by simp
qed

lemma receiveKey_too_far:
  assumes "rt_generation r \<le> g" "g - rt_generation r > kr_maximumForwardRatchetSteps config"
  shows "receiveKey config cs g guard r = Inl ValidationError"
  using assms by (simp add: receiveKey_def ratchetUntil_def)

section \<open>Sender and receiver\<close>

lemma takeKey_agree:
  assumes "goodRatchet cs s a" "takeKey cs guard a = Inr (k1, n1, a')" "goodRatchet cs s b"
    "receiveKey config cs (rt_generation a) guard b = Inr (k2, n2, b')"
  shows "k1 = k2 \<and> n1 = n2"
  using takeKey_good [OF assms(1,2)] receiveKey_good(1) [OF assms(3,4)] by (auto simp: hasKey_def)



section \<open>Delivery\<close>

text \<open>
  What a ciphersuite must provide for the derivations not to throw: lengths the label encoding
  can carry, and an expansion of the length asked for.
\<close>

definition paramsOk :: "cipherParams \<Rightarrow> bool" where
  "paramsOk cs \<longleftrightarrow> kdf_size (cp_kdf cs) < 65536 \<and> 0 \<le> cp_keyLength cs \<and> cp_keyLength cs < 65536 \<and>
     4 \<le> cp_nonceLength cs \<and> cp_nonceLength cs < 65536 \<and>
     (\<forall>s i n. length (kdf_expand (cp_kdf cs) s i n) = nat n)"

lemma deriveTreeSecret_Inr:
  assumes "0 \<le> g" "g < 4294967296" "0 \<le> n" "n < 65536" "length label < 1000"
  shows "\<exists>i. deriveTreeSecret s label g n kdf = Inr (kdf_expand kdf s i n)"
proof -
  have g: "encodeUint32 g = Inr (be_bytes 4 g)"
    using assms by (simp add: encodeUint32_def assertUintRange_def)
  obtain i where "kdfLabel n label (be_bytes 4 g) = Inr i"
    using kdfLabel_Inr [of n label "be_bytes 4 g"] assms by auto
  then show ?thesis using g by (auto simp: deriveTreeSecret_def expandWithLabel_def)
qed

lemma derivations_Inr:
  assumes "paramsOk cs" "0 \<le> g" "g < 4294967296"
  shows "\<exists>x. deriveTreeSecret s ''secret'' g (int (kdf_size (cp_kdf cs))) (cp_kdf cs) = Inr x"
    and "\<exists>k. deriveKey s g cs = Inr k" and "\<exists>n. deriveNonce s g cs = Inr n \<and> 4 \<le> length n"
  using deriveTreeSecret_Inr [of g "int (kdf_size (cp_kdf cs))" "''secret''" s "cp_kdf cs"]
    deriveTreeSecret_Inr [of g "cp_keyLength cs" "''key''" s "cp_kdf cs"]
    deriveTreeSecret_Inr [of g "cp_nonceLength cs" "''nonce''" s "cp_kdf cs"] assms
  by (auto simp: deriveKey_def deriveNonce_def paramsOk_def)

lemma takeKey_Inr:
  assumes "paramsOk cs" "0 \<le> rt_generation r" "rt_generation r < 4294967296" "4 \<le> length guard"
  shows "\<exists>z. takeKey cs guard r = Inr z"
  using derivations_Inr [OF assms(1-3), of "rt_secret r"] assms(4)
  by (auto simp: takeKey_def createKeyAndNonce_def derivePrivateMessageNonce_def applyReuseGuard_def)

lemma ratchetStep_Inr:
  assumes "paramsOk cs" "0 \<le> rt_generation r" "rt_generation r < 4294967296"
  shows "\<exists>q. ratchetStep config cs r = Inr q"
  using derivations_Inr [OF assms, of "rt_secret r"]
  by (auto simp: ratchetStep_def updateUnusedGenerations_def Let_def)

lemma repeat_ratchetStep_Inr:
  assumes "paramsOk cs" "0 \<le> rt_generation r" "rt_generation r + int n \<le> 4294967296"
  shows "\<exists>q. repeatAsync (ratchetStep config cs) r n = Inr q"
  using assms(2,3)
proof (induction n arbitrary: r)
  case (Suc n)
  then obtain q where q: "ratchetStep config cs r = Inr q" using ratchetStep_Inr [OF assms(1), of r config] by auto
  then have "rt_generation q = rt_generation r + 1" by (auto simp: ratchetStep_def res_bind_eq_Inr)
  then show ?case using Suc.IH [of q] Suc.prems q by auto
qed simp

text \<open>Every generation ahead of a good ratchet, within the forward limit, is delivered.\<close>

lemma receiveKey_Inr:
  assumes "paramsOk cs" "goodRatchet cs s r" "4 \<le> length guard" "rt_generation r \<le> g"
    "g - rt_generation r \<le> kr_maximumForwardRatchetSteps config" "g < 4294967296"
  shows "\<exists>z. receiveKey config cs g guard r = Inr z"
proof -
  have pos: "0 \<le> rt_generation r" using assms(2) by (simp add: goodRatchet_def)
  obtain q where q: "repeatAsync (ratchetStep config cs) r (nat (g - rt_generation r)) = Inr q"
    using repeat_ratchetStep_Inr [OF assms(1) pos, of "nat (g - rt_generation r)" config] assms(4,6) by auto
  have "rt_generation q = g" using repeat_ratchetStep_generation [OF q] assms(4) by simp
  then show ?thesis using takeKey_Inr [OF assms(1), of q guard] q assms pos
    by (simp add: receiveKey_def ratchetUntil_def)
qed

text \<open>So is a retained one.\<close>

lemma keyAt_nonce:
  assumes "paramsOk cs" "keyAt cs s n = Inr k"
  shows "4 \<le> length (gk_nonce k)"
  using assms by (auto simp: keyAt_def deriveNonce_def deriveTreeSecret_def expandWithLabel_def paramsOk_def res_bind_eq_Inr)

lemma receiveKey_retained_Inr:
  assumes "paramsOk cs" "goodRatchet cs s r" "4 \<le> length guard" "g \<in> fst ` set (rt_unused r)"
  shows "\<exists>z. receiveKey config cs g guard r = Inr z"
proof -
  obtain k where k: "map_of (rt_unused r) g = Some k"
    using assms(4) by (metis map_of_eq_None_iff not_None_eq)
  have "(g, k) \<in> set (rt_unused r)" using k by (rule map_of_SomeD)
  then have "g < rt_generation r" "keyAt cs s (nat g) = Inr k" using assms(2) by (auto simp: goodRatchet_def)
  then show ?thesis using k assms(3) keyAt_nonce [OF assms(1)] by (simp add: receiveKey_def applyReuseGuard_def)
qed

end
