(* ===== verification/MessageProtection.thy ===== *)
theory MessageProtection imports SecretTreeLaws RatchetTree begin

text \<open>
  Protecting and opening messages: \<^verbatim>\<open>src/message-protection.ts\<close>,
  \<^verbatim>\<open>src/message-protection-public.ts\<close> and the sender lookup of
  \<^verbatim>\<open>src/public-message.ts\<close>.  The random reuse guard the sources draw is an argument; the
  wiping of keys after use concerns buffers, which are values here.
\<close>

section \<open>Ciphersuites\<close>

record ('pub, 'priv, 'sk) ciphersuiteImpl =
  cs_hash :: hashImpl
  cs_hpke :: "('pub, 'priv) hpkeImpl"
  cs_signature :: "'sk signatureImpl"
  cs_kdf :: kdfImpl
  cs_name :: ciphersuiteName

definition ratchetParams :: "('pub, 'priv, 'sk) ciphersuiteImpl \<Rightarrow> cipherParams" where
  "ratchetParams cs = \<lparr>cp_kdf = cs_kdf cs, cp_keyLength = hpke_keyLength (cs_hpke cs),
     cp_nonceLength = hpke_nonceLength (cs_hpke cs)\<rparr>"

section \<open>Private messages\<close>

definition signFramedContentApplicationOrProposal ::
    "'sk \<Rightarrow> framedContentTBS \<Rightarrow> ('pub, 'priv, 'sk) ciphersuiteImpl \<Rightarrow> framedContentAuthData result" where
  "signFramedContentApplicationOrProposal signKey tbs cs =
     res_bind (signFramedContentTBS signKey tbs (cs_signature cs)) (\<lambda>signature.
       Inr \<lparr>fa_signature = signature,
         fa_content = (case fc_info (ft_content tbs) of FC_proposal _ \<Rightarrow> AuthProposal | _ \<Rightarrow> AuthApplication)\<rparr>)"

definition protect ::
    "bytes \<Rightarrow> bytes \<Rightarrow> groupContext \<Rightarrow> secretTree \<Rightarrow> privateMessageContent \<Rightarrow> int \<Rightarrow> paddingConfig \<Rightarrow>
     ('pub, 'priv, 'sk) ciphersuiteImpl \<Rightarrow> bytes \<Rightarrow> (privateMessage \<times> secretTree) result" where
  "protect senderDataSecret authenticatedData groupContext secretTree content leafIndex config cs guard =
     (let contentType = contentTypeOf (pmc_info content) in
      if sparse_get secretTree (leafToNodeIndex leafIndex) = None then Inl InternalError
      else res_bind (consumeRatchet secretTree (leafToNodeIndex leafIndex) contentType (ratchetParams cs) guard)
        (\<lambda>r.
        let aad = \<lparr>pca_groupId = gc_groupId groupContext, pca_epoch = gc_epoch groupContext,
              pca_contentType = contentType, pca_authenticatedData = authenticatedData\<rparr> in
        res_bind (encodePrivateContentAAD aad) (\<lambda>a.
        res_bind (encodePrivateMessageContent config content) (\<lambda>plain.
        let ciphertext = hpke_encryptAead (cs_hpke cs) (cr_key r) (cr_nonce r) (Some a) plain;
            senderData = \<lparr>sd_leafIndex = leafIndex, sd_generation = cr_generation r,
              sd_reuseGuard = cr_reuseGuard r\<rparr>;
            senderAad = \<lparr>sda_groupId = gc_groupId groupContext, sda_epoch = gc_epoch groupContext,
              sda_contentType = contentType\<rparr>
        in res_bind (encryptSenderData senderDataSecret senderData senderAad ciphertext (cs_kdf cs) (cs_hpke cs))
          (\<lambda>encryptedSenderData. Inr (\<lparr>pm_groupId = gc_groupId groupContext, pm_epoch = gc_epoch groupContext,
             pm_contentType = contentType, pm_authenticatedData = authenticatedData,
             pm_encryptedSenderData = encryptedSenderData, pm_ciphertext = ciphertext\<rparr>, cr_newTree r))))))"

definition memberContent :: "groupContext \<Rightarrow> int \<Rightarrow> bytes \<Rightarrow> framedContentInfo \<Rightarrow> framedContent" where
  "memberContent groupContext leafIndex authenticatedData info =
     \<lparr>fc_groupId = gc_groupId groupContext, fc_epoch = gc_epoch groupContext,
      fc_sender = SenderMember leafIndex, fc_authenticatedData = authenticatedData, fc_info = info\<rparr>"

definition protectApplicationData ::
    "'sk \<Rightarrow> bytes \<Rightarrow> bytes \<Rightarrow> bytes \<Rightarrow> groupContext \<Rightarrow> secretTree \<Rightarrow> int \<Rightarrow> paddingConfig \<Rightarrow>
     ('pub, 'priv, 'sk) ciphersuiteImpl \<Rightarrow> bytes \<Rightarrow> (privateMessage \<times> secretTree) result" where
  "protectApplicationData signKey senderDataSecret applicationData authenticatedData groupContext secretTree
       leafIndex paddingConfig cs guard =
     (let tbs = \<lparr>ft_protocolVersion = gc_version groupContext, ft_wireformat = WF_private_message,
        ft_content = memberContent groupContext leafIndex authenticatedData (FC_application applicationData),
        ft_senderInfo = SI_member groupContext\<rparr>
      in res_bind (signFramedContentApplicationOrProposal signKey tbs cs) (\<lambda>auth.
        protect senderDataSecret authenticatedData groupContext secretTree
          \<lparr>pmc_info = fc_info (ft_content tbs), pmc_auth = auth\<rparr> leafIndex paddingConfig cs guard))"

text \<open>The message, the new secret tree and the reference of the proposal.\<close>

definition protectProposal ::
    "'sk \<Rightarrow> bytes \<Rightarrow> proposal \<Rightarrow> bytes \<Rightarrow> groupContext \<Rightarrow> secretTree \<Rightarrow> int \<Rightarrow> paddingConfig \<Rightarrow>
     ('pub, 'priv, 'sk) ciphersuiteImpl \<Rightarrow> bytes \<Rightarrow> (privateMessage \<times> secretTree \<times> bytes) result" where
  "protectProposal signKey senderDataSecret p authenticatedData groupContext secretTree leafIndex paddingConfig cs guard =
     (let tbs = \<lparr>ft_protocolVersion = gc_version groupContext, ft_wireformat = WF_private_message,
        ft_content = memberContent groupContext leafIndex authenticatedData (FC_proposal p),
        ft_senderInfo = SI_member groupContext\<rparr>
      in res_bind (signFramedContentApplicationOrProposal signKey tbs cs) (\<lambda>auth.
        res_bind (protect senderDataSecret authenticatedData groupContext secretTree
          \<lparr>pmc_info = fc_info (ft_content tbs), pmc_auth = auth\<rparr> leafIndex paddingConfig cs guard)
          (\<lambda>(privateMessage, newSecretTree).
        res_bind (makeProposalRef \<lparr>ac_wireformat = WF_private_message, ac_content = ft_content tbs, ac_auth = auth\<rparr>
            (cs_hash cs)) (\<lambda>proposalRef. Inr (privateMessage, newSecretTree, proposalRef)))))"

definition validateSenderData :: "senderData \<Rightarrow> ratchetTree \<Rightarrow> mls_error option" where
  "validateSenderData senderData tree = (case sparse_get tree (leafToNodeIndex (sd_leafIndex senderData)) of
     Some (NodeLeaf _) \<Rightarrow> None | _ \<Rightarrow> Some ValidationError)"

definition throwIfDefined :: "mls_error option \<Rightarrow> unit result" where
  "throwIfDefined err = (case err of None \<Rightarrow> Inr () | Some e \<Rightarrow> Inl e)"

definition unprotectPrivateMessage ::
    "bytes \<Rightarrow> privateMessage \<Rightarrow> secretTree \<Rightarrow> ratchetTree \<Rightarrow> groupContext \<Rightarrow> keyRetentionConfig \<Rightarrow>
     ('pub, 'priv, 'sk) ciphersuiteImpl \<Rightarrow> bytes option \<Rightarrow> (authenticatedContent \<times> secretTree) result" where
  "unprotectPrivateMessage senderDataSecret msg secretTree ratchetTree groupContext config cs overrideSignatureKey =
     res_bind (decryptSenderData msg senderDataSecret (cs_kdf cs) (cs_hpke cs)) (\<lambda>decoded. case decoded of
       None \<Rightarrow> Inl CodecError
     | Some senderData \<Rightarrow>
         res_bind (throwIfDefined (validateSenderData senderData ratchetTree)) (\<lambda>_.
         res_bind (ratchetToGeneration secretTree senderData (pm_contentType msg) config (ratchetParams cs)) (\<lambda>r.
         let aad = \<lparr>pca_groupId = pm_groupId msg, pca_epoch = pm_epoch msg,
               pca_contentType = pm_contentType msg, pca_authenticatedData = pm_authenticatedData msg\<rparr> in
         res_bind (encodePrivateContentAAD aad) (\<lambda>a.
         res_bind (hpke_decryptAead (cs_hpke cs) (cr_key r) (cr_nonce r) (Some a) (pm_ciphertext msg)) (\<lambda>decrypted.
         res_bind (decodePrivateMessageContent (pm_contentType msg) decrypted 0) (\<lambda>d. case d of
           None \<Rightarrow> Inl CodecError
         | Some (pmc, _) \<Rightarrow>
             let content = toAuthenticatedContent pmc msg (sd_leafIndex senderData) in
             res_bind (case overrideSignatureKey of Some k \<Rightarrow> Inr k
                 | None \<Rightarrow> getSignaturePublicKeyFromLeafIndex ratchetTree (sd_leafIndex senderData)) (\<lambda>publicKey.
             res_bind (verifyFramedContentSignature publicKey WF_private_message (ac_content content)
                 (ac_auth content) groupContext (cs_signature cs)) (\<lambda>signatureValid.
               if \<not> signatureValid then Inl CryptoVerificationError
               else Inr (content, cr_newTree r)))))))))"


section \<open>Delivery\<close>

text \<open>
  The hypotheses on a ciphersuite: decryption inverts encryption, and the derivations have
  the lengths they are asked for.
\<close>

definition aeadCorrect :: "('pub, 'priv) hpkeImpl \<Rightarrow> bool" where
  "aeadCorrect hpke \<longleftrightarrow> (\<forall>k n a m. hpke_decryptAead hpke k n a (hpke_encryptAead hpke k n a m) = Inr m)"

lemma senderData_roundtrip:
  assumes "aeadCorrect hpke" "length (sd_reuseGuard sd) = 4"
    "encryptSenderData secret sd \<lparr>sda_groupId = gid, sda_epoch = e, sda_contentType = ct\<rparr> c kdf hpke = Inr x"
    "pm_groupId msg = gid" "pm_epoch msg = e" "pm_contentType msg = ct" "pm_ciphertext msg = c"
    "pm_encryptedSenderData msg = x"
  shows "decryptSenderData msg secret kdf hpke = Inr (Some sd)"
proof -
  obtain k n a b where k: "expandSenderDataKey kdf hpke secret c = Inr k"
    "expandSenderDataNonce kdf hpke secret c = Inr n"
    "encodeSenderDataAAD \<lparr>sda_groupId = gid, sda_epoch = e, sda_contentType = ct\<rparr> = Inr a"
    "encodeSenderData sd = Inr b" "x = hpke_encryptAead hpke k n (Some a) b"
    using assms(3) by (auto simp: encryptSenderData_def res_bind_eq_Inr)
  have "decodeSenderData b 0 = Inr (Some (sd, length b))"
    using senderData.decode_encode k(4) assms(2) by blast
  then show ?thesis using assms(1,4-) k by (simp add: decryptSenderData_def aeadCorrect_def Let_def)
qed

text \<open>The generation a message is sent in can be opened by the ratchet of a receiver.\<close>

definition canReceive :: "keyRetentionConfig \<Rightarrow> generationSecret \<Rightarrow> int \<Rightarrow> bool" where
  "canReceive config r g \<longleftrightarrow> g \<in> fst ` set (rt_unused r) \<or>
     rt_generation r \<le> g \<and> g - rt_generation r \<le> kr_maximumForwardRatchetSteps config"

lemma protect_unprotect:
  fixes cs :: "('pub, 'priv, 'sk) ciphersuiteImpl"
  assumes cs: "paramsOk (ratchetParams cs)" "aeadCorrect (cs_hpke cs)"
    and a: "sparse_get ta (leafToNodeIndex l) = Some na" "goodRatchet (ratchetParams cs) s (ratchetForContentType na ct)"
    and b: "sparse_get tb (leafToNodeIndex l) = Some nb" "goodRatchet (ratchetParams cs) s (ratchetForContentType nb ct)"
    and g: "canReceive config (ratchetForContentType nb ct) (rt_generation (ratchetForContentType na ct))"
    and guard: "length guard = 4"
    and content: "okPrivateMessageContent pmc" "ct = contentTypeOf (pmc_info pmc)"
    and leaf: "sparse_get tree (leafToNodeIndex l) = Some (NodeLeaf lf)"
    and sent: "protect secret ad gc ta pmc l padding cs guard = Inr (msg, ta')"
    and sig: "verifyFramedContentSignature (ln_signaturePublicKey lf) WF_private_message
        (memberContent gc l ad (pmc_info pmc)) (pmc_auth pmc) gc (cs_signature cs) = Inr True"
  shows "\<exists>tb'. unprotectPrivateMessage secret msg tb tree gc config cs None = Inr
      (\<lparr>ac_wireformat = WF_private_message, ac_content = memberContent gc l ad (pmc_info pmc), ac_auth = pmc_auth pmc\<rparr>, tb')"
proof -
  let ?p = "ratchetParams cs" and ?a = "ratchetForContentType na ct" and ?b = "ratchetForContentType nb ct"
  let ?i = "leafToNodeIndex l" and ?g = "rt_generation ?a"
  let ?aad = "\<lparr>pca_groupId = gc_groupId gc, pca_epoch = gc_epoch gc, pca_contentType = ct, pca_authenticatedData = ad\<rparr>"
  obtain r e plain x where r: "consumeRatchet ta ?i ct ?p guard = Inr r"
    and e: "encodePrivateContentAAD ?aad = Inr e" and plain: "encodePrivateMessageContent padding pmc = Inr plain"
    and x: "encryptSenderData secret \<lparr>sd_leafIndex = l, sd_generation = cr_generation r, sd_reuseGuard = cr_reuseGuard r\<rparr>
        \<lparr>sda_groupId = gc_groupId gc, sda_epoch = gc_epoch gc, sda_contentType = ct\<rparr>
        (hpke_encryptAead (cs_hpke cs) (cr_key r) (cr_nonce r) (Some e) plain) (cs_kdf cs) (cs_hpke cs) = Inr x"
    and msg: "msg = \<lparr>pm_groupId = gc_groupId gc, pm_epoch = gc_epoch gc, pm_contentType = ct,
        pm_authenticatedData = ad, pm_encryptedSenderData = x,
        pm_ciphertext = hpke_encryptAead (cs_hpke cs) (cr_key r) (cr_nonce r) (Some e) plain\<rparr>"
    using sent content(2) by (auto simp: protect_def Let_def res_bind_eq_Inr split: if_splits)
  obtain key nonce a' where take: "takeKey ?p guard ?a = Inr (key, nonce, a')"
    and pack: "r = packResult na ?i ta ct guard ?g (key, nonce, a')"
    using r consumeRatchet_takeKey [OF a(1), of ct ?p guard] by (auto simp: res_map_eq_Inr)
  then have rf: "cr_generation r = ?g" "cr_reuseGuard r = guard" "cr_key r = key" "cr_nonce r = nonce"
    by (simp_all add: packResult_def)
  let ?sd = "\<lparr>sd_leafIndex = l, sd_generation = ?g, sd_reuseGuard = guard\<rparr>"
  have sd: "decryptSenderData msg secret (cs_kdf cs) (cs_hpke cs) = Inr (Some ?sd)"
    by (rule senderData_roundtrip [OF cs(2) _ x [unfolded rf(1,2)]]) (simp_all add: msg guard)
  have "?g < 4294967296"
    using take by (auto simp: takeKey_def deriveTreeSecret_def encodeUint32_def assertUintRange_def res_bind_eq_Inr split: if_splits)
  then obtain z where z: "receiveKey config ?p ?g guard ?b = Inr z"
    using g guard receiveKey_Inr [OF cs(1) b(2), of guard ?g config]
      receiveKey_retained_Inr [OF cs(1) b(2), of guard ?g config] unfolding canReceive_def by auto
  obtain k2 n2 b' where z2: "z = (k2, n2, b')" by (cases z)
  have keys: "k2 = key" "n2 = nonce" using takeKey_agree [OF a(2) take b(2) z [unfolded z2]] by simp_all
  have recv: "ratchetToGeneration tb ?sd ct config ?p =
      Inr (packResult nb ?i tb ct guard ?g (key, nonce, b'))"
    using ratchetToGeneration_receiveKey [of tb ?sd nb ct config ?p] b(1) z z2 keys by simp
  have dec: "decodePrivateMessageContent ct plain 0 = Inr (Some (pmc, length plain))"
    using padding_roundtrip [OF privateContentBody_codec [of ct]] plain content
    unfolding decodePrivateMessageContent_padding encodePrivateMessageContent_padding by blast
  have auth: "toAuthenticatedContent pmc msg l = \<lparr>ac_wireformat = WF_private_message,
      ac_content = memberContent gc l ad (pmc_info pmc), ac_auth = pmc_auth pmc\<rparr>"
    by (simp add: toAuthenticatedContent_def msg memberContent_def)
  show ?thesis
    using sd recv e cs(2) dec auth sig leaf rf
    by (simp add: unprotectPrivateMessage_def validateSenderData_def throwIfDefined_def msg packResult_def
        aeadCorrect_def getSignaturePublicKeyFromLeafIndex_def Let_def)
qed


definition signatureCorrect :: "'sk signatureImpl \<Rightarrow> 'sk \<Rightarrow> bytes \<Rightarrow> bool" where
  "signatureCorrect s sk pk \<longleftrightarrow> (\<forall>m. sig_verify s pk m (sig_sign s sk m))"

lemma sign_verify:
  assumes "signatureCorrect (cs_signature cs) sk pk"
    "signFramedContentApplicationOrProposal sk \<lparr>ft_protocolVersion = gc_version gc, ft_wireformat = wire,
       ft_content = memberContent gc l ad info, ft_senderInfo = SI_member gc\<rparr> cs = Inr auth"
  shows "verifyFramedContentSignature pk wire (memberContent gc l ad info) auth gc (cs_signature cs) = Inr True"
  using assms
  by (auto simp: signFramedContentApplicationOrProposal_def signFramedContentTBS_def verifyFramedContentSignature_def
      toTbsContent_def memberContent_def senderTypeOf_def signWithLabel_def verifyWithLabel_def signatureCorrect_def
      res_bind_eq_Inr res_map_eq_Inr)

text \<open>What a member sends as application data is what every other member with the same epoch reads.\<close>

lemma application_delivery:
  fixes cs :: "('pub, 'priv, 'sk) ciphersuiteImpl"
  assumes cs: "paramsOk (ratchetParams cs)" "aeadCorrect (cs_hpke cs)"
      "signatureCorrect (cs_signature cs) sk (ln_signaturePublicKey lf)"
    and a: "sparse_get ta (leafToNodeIndex l) = Some na" "goodRatchet (ratchetParams cs) s (sn_application na)"
    and b: "sparse_get tb (leafToNodeIndex l) = Some nb" "goodRatchet (ratchetParams cs) s (sn_application nb)"
    and g: "canReceive config (sn_application nb) (rt_generation (sn_application na))" and guard: "length guard = 4"
    and leaf: "sparse_get tree (leafToNodeIndex l) = Some (NodeLeaf lf)"
    and sent: "protectApplicationData sk secret appData ad gc ta l padding cs guard = Inr (msg, ta')"
  shows "\<exists>content tb'. unprotectPrivateMessage secret msg tb tree gc config cs None = Inr (content, tb') \<and>
    fc_info (ac_content content) = FC_application appData \<and> fc_sender (ac_content content) = SenderMember l \<and>
    fc_authenticatedData (ac_content content) = ad"
proof -
  let ?tbs = "\<lparr>ft_protocolVersion = gc_version gc, ft_wireformat = WF_private_message,
     ft_content = memberContent gc l ad (FC_application appData), ft_senderInfo = SI_member gc\<rparr>"
  obtain auth where auth: "signFramedContentApplicationOrProposal sk ?tbs cs = Inr auth"
    and p: "protect secret ad gc ta \<lparr>pmc_info = FC_application appData, pmc_auth = auth\<rparr> l padding cs guard = Inr (msg, ta')"
    using sent by (auto simp: protectApplicationData_def res_bind_eq_Inr memberContent_def)
  have at: "fa_content auth = AuthApplication"
    using auth by (auto simp: signFramedContentApplicationOrProposal_def memberContent_def res_bind_eq_Inr)
  have r: "ratchetForContentType n CT_application = sn_application n" for n
    by (simp add: ratchetForContentType_def)
  have "\<exists>tb'. unprotectPrivateMessage secret msg tb tree gc config cs None = Inr
      (\<lparr>ac_wireformat = WF_private_message, ac_content = memberContent gc l ad (FC_application appData), ac_auth = auth\<rparr>, tb')"
    using protect_unprotect [where ct = CT_application and pmc = "\<lparr>pmc_info = FC_application appData, pmc_auth = auth\<rparr>",
        OF cs(1,2) a(1) _ b(1) _ _ guard _ _ leaf p] a(2) b(2) g sign_verify [OF cs(3) auth] at
    by (simp add: r okPrivateMessageContent_def okFramedContentInfo_def contentTypeOf_simps)
  then show ?thesis by (auto simp: memberContent_def)
qed

lemma proposal_delivery:
  fixes cs :: "('pub, 'priv, 'sk) ciphersuiteImpl"
  assumes cs: "paramsOk (ratchetParams cs)" "aeadCorrect (cs_hpke cs)"
      "signatureCorrect (cs_signature cs) sk (ln_signaturePublicKey lf)"
    and a: "sparse_get ta (leafToNodeIndex l) = Some na" "goodRatchet (ratchetParams cs) s (sn_handshake na)"
    and b: "sparse_get tb (leafToNodeIndex l) = Some nb" "goodRatchet (ratchetParams cs) s (sn_handshake nb)"
    and g: "canReceive config (sn_handshake nb) (rt_generation (sn_handshake na))" and guard: "length guard = 4"
    and leaf: "sparse_get tree (leafToNodeIndex l) = Some (NodeLeaf lf)" and p: "okProposal p"
    and sent: "protectProposal sk secret p ad gc ta l padding cs guard = Inr (msg, ta', ref)"
  shows "\<exists>content tb'. unprotectPrivateMessage secret msg tb tree gc config cs None = Inr (content, tb') \<and>
    fc_info (ac_content content) = FC_proposal p \<and> fc_sender (ac_content content) = SenderMember l \<and>
    makeProposalRef content (cs_hash cs) = Inr ref"
proof -
  let ?tbs = "\<lparr>ft_protocolVersion = gc_version gc, ft_wireformat = WF_private_message,
     ft_content = memberContent gc l ad (FC_proposal p), ft_senderInfo = SI_member gc\<rparr>"
  obtain auth where auth: "signFramedContentApplicationOrProposal sk ?tbs cs = Inr auth"
    and q: "protect secret ad gc ta \<lparr>pmc_info = FC_proposal p, pmc_auth = auth\<rparr> l padding cs guard = Inr (msg, ta')"
    and ref: "makeProposalRef \<lparr>ac_wireformat = WF_private_message, ac_content = memberContent gc l ad (FC_proposal p),
      ac_auth = auth\<rparr> (cs_hash cs) = Inr ref"
    using sent by (auto simp: protectProposal_def res_bind_eq_Inr memberContent_def)
  have at: "fa_content auth = AuthProposal"
    using auth by (auto simp: signFramedContentApplicationOrProposal_def memberContent_def res_bind_eq_Inr)
  have r: "ratchetForContentType n CT_proposal = sn_handshake n" for n
    by (simp add: ratchetForContentType_def)
  have "\<exists>tb'. unprotectPrivateMessage secret msg tb tree gc config cs None = Inr
      (\<lparr>ac_wireformat = WF_private_message, ac_content = memberContent gc l ad (FC_proposal p), ac_auth = auth\<rparr>, tb')"
    using protect_unprotect [where ct = CT_proposal and pmc = "\<lparr>pmc_info = FC_proposal p, pmc_auth = auth\<rparr>",
        OF cs(1,2) a(1) _ b(1) _ _ guard _ _ leaf q] a(2) b(2) g sign_verify [OF cs(3) auth] at p
    by (simp add: r okPrivateMessageContent_def okFramedContentInfo_def contentTypeOf_simps)
  then show ?thesis using ref by (auto simp: memberContent_def)
qed


section \<open>What acceptance means\<close>

lemma unprotect_accepts:
  assumes u: "unprotectPrivateMessage secret msg tb tree gc config cs None = Inr (content, tb')"
  obtains sd r pmc lf where
    "decryptSenderData msg secret (cs_kdf cs) (cs_hpke cs) = Inr (Some sd)"
    "sparse_get tree (leafToNodeIndex (sd_leafIndex sd)) = Some (NodeLeaf lf)"
    "ratchetToGeneration tb sd (pm_contentType msg) config (ratchetParams cs) = Inr r"
    "content = toAuthenticatedContent pmc msg (sd_leafIndex sd)"
    "verifyFramedContentSignature (ln_signaturePublicKey lf) WF_private_message (ac_content content)
       (ac_auth content) gc (cs_signature cs) = Inr True"
    "tb' = cr_newTree r"
proof -
  obtain sd where sd: "decryptSenderData msg secret (cs_kdf cs) (cs_hpke cs) = Inr (Some sd)"
    using u by (auto simp: unprotectPrivateMessage_def res_bind_eq_Inr split: option.splits)
  obtain lf where lf: "sparse_get tree (leafToNodeIndex (sd_leafIndex sd)) = Some (NodeLeaf lf)"
    using u sd by (auto simp: unprotectPrivateMessage_def validateSenderData_def throwIfDefined_def
        split: option.splits ratchetNode.splits)
  obtain r where r: "ratchetToGeneration tb sd (pm_contentType msg) config (ratchetParams cs) = Inr r"
    using u sd lf by (auto simp: unprotectPrivateMessage_def validateSenderData_def throwIfDefined_def res_bind_eq_Inr)
  show thesis using u sd lf r that [OF sd lf r]
    by (auto simp: unprotectPrivateMessage_def validateSenderData_def throwIfDefined_def
        getSignaturePublicKeyFromLeafIndex_def res_bind_eq_Inr Let_def split: option.splits if_splits)
qed

lemma updateArray_get:
  assumes "0 \<le> i" "i < int (length t)"
  shows "sparse_get (updateArray t (nat i) x) j = (if j = i then x else sparse_get t j)"
proof -
  have "updateArray t (nat i) x = t[nat i := x]"
    using assms by (simp add: updateArray_def upd_conv_take_nth_drop)
  then show ?thesis using assms by (auto simp: sparse_get_def nth_list_update)
qed

lemma sparse_get_range: "sparse_get t i = Some x \<Longrightarrow> 0 \<le> i \<and> i < int (length t)"
  by (simp add: sparse_get_def split: if_splits)

lemma ratchet_setRatchet:
  "ratchetForContentType (setRatchet node ct r) ct' =
   (if (ct' = CT_application) = (ct = CT_application) then r else ratchetForContentType node ct')"
  by (cases ct; cases ct') (simp_all add: setRatchet_def ratchetForContentType_def)

text \<open>
  Opening a message moves one ratchet of one leaf, the claimed sender's, past the generation
  of the message; every other ratchet stays as it was.
\<close>

lemma unprotect_effect:
  assumes u: "unprotectPrivateMessage secret msg tb tree gc config cs None = Inr (content, tb')"
    and node: "sparse_get tb (leafToNodeIndex l) = Some nb" and l: "fc_sender (ac_content content) = SenderMember l"
  obtains g guard key nonce r' where
    "receiveKey config (ratchetParams cs) g guard (ratchetForContentType nb (pm_contentType msg)) = Inr (key, nonce, r')"
    "sparse_get tb' (leafToNodeIndex l) = Some (setRatchet nb (pm_contentType msg) r')"
    "\<And>j. j \<noteq> leafToNodeIndex l \<Longrightarrow> sparse_get tb' j = sparse_get tb j"
    "decryptSenderData msg secret (cs_kdf cs) (cs_hpke cs) = Inr (Some \<lparr>sd_leafIndex = l, sd_generation = g, sd_reuseGuard = guard\<rparr>)"
proof -
  from u obtain sd r pmc lf where a:
    "decryptSenderData msg secret (cs_kdf cs) (cs_hpke cs) = Inr (Some sd)"
    "ratchetToGeneration tb sd (pm_contentType msg) config (ratchetParams cs) = Inr r"
    "content = toAuthenticatedContent pmc msg (sd_leafIndex sd)" "tb' = cr_newTree r"
    by (rule unprotect_accepts) blast
  have sl: "sd_leafIndex sd = l" using l a(3) by (simp add: toAuthenticatedContent_def)
  from a(2) obtain key nonce r' where k: "receiveKey config (ratchetParams cs) (sd_generation sd) (sd_reuseGuard sd)
      (ratchetForContentType nb (pm_contentType msg)) = Inr (key, nonce, r')"
    "r = packResult nb (leafToNodeIndex l) tb (pm_contentType msg) (sd_reuseGuard sd) (sd_generation sd) (key, nonce, r')"
    using ratchetToGeneration_receiveKey [of tb sd nb "pm_contentType msg" config "ratchetParams cs"] node sl
    by (auto simp: res_map_eq_Inr)
  have upd: "tb' = updateArray tb (nat (leafToNodeIndex l)) (Some (setRatchet nb (pm_contentType msg) r'))"
    using a(4) k(2) by (simp add: packResult_def)
  show thesis
  proof (rule that [OF k(1)])
    show "sparse_get tb' (leafToNodeIndex l) = Some (setRatchet nb (pm_contentType msg) r')"
      "\<And>j. j \<noteq> leafToNodeIndex l \<Longrightarrow> sparse_get tb' j = sparse_get tb j"
      using updateArray_get [of "leafToNodeIndex l" tb] sparse_get_range [OF node] by (simp_all add: upd)
    show "decryptSenderData msg secret (cs_kdf cs) (cs_hpke cs) =
        Inr (Some \<lparr>sd_leafIndex = l, sd_generation = sd_generation sd, sd_reuseGuard = sd_reuseGuard sd\<rparr>)"
      using a(1) sl by (cases sd) simp
  qed
qed

text \<open>The secret tree of an epoch: every ratchet is good for its own base secret.\<close>

definition goodSecretTree :: "cipherParams \<Rightarrow> (int \<Rightarrow> bool \<Rightarrow> bytes) \<Rightarrow> secretTree \<Rightarrow> bool" where
  "goodSecretTree cs base tree \<longleftrightarrow> (\<forall>i node. sparse_get tree i = Some node \<longrightarrow>
     goodRatchet cs (base i True) (sn_application node) \<and> goodRatchet cs (base i False) (sn_handshake node))"

lemma goodSecretTree_ratchet:
  "goodSecretTree cs base tree \<Longrightarrow> sparse_get tree i = Some node \<Longrightarrow>
   goodRatchet cs (base i (ct = CT_application)) (ratchetForContentType node ct)"
  by (cases ct) (auto simp: goodSecretTree_def ratchetForContentType_def)

lemma goodSecretTree_set:
  assumes "goodSecretTree cs base tree" "sparse_get tree i = Some node"
    "goodRatchet cs (base i (ct = CT_application)) r'"
    "sparse_get tree' i = Some (setRatchet node ct r')" "\<And>j. j \<noteq> i \<Longrightarrow> sparse_get tree' j = sparse_get tree j"
  shows "goodSecretTree cs base tree'"
  unfolding goodSecretTree_def
proof (intro allI impI)
  fix j n
  assume n: "sparse_get tree' j = Some n"
  show "goodRatchet cs (base j True) (sn_application n) \<and> goodRatchet cs (base j False) (sn_handshake n)"
  proof (cases "j = i")
    case True
    then show ?thesis using n assms(1-4)
      by (auto simp: goodSecretTree_def setRatchet_def split: if_splits)
  qed (use n assms(1,5) in \<open>auto simp: goodSecretTree_def\<close>)
qed

lemma unprotect_good:
  assumes t: "goodSecretTree (ratchetParams cs) base tb"
    and u: "unprotectPrivateMessage secret msg tb tree gc config cs None = Inr (content, tb')"
  shows "goodSecretTree (ratchetParams cs) base tb'"
    and "unprotectPrivateMessage secret msg tb' tree gc config cs None = Inl ValidationError"
proof -
  from u obtain sd r pmc lf where a:
    "decryptSenderData msg secret (cs_kdf cs) (cs_hpke cs) = Inr (Some sd)"
    "sparse_get tree (leafToNodeIndex (sd_leafIndex sd)) = Some (NodeLeaf lf)"
    "ratchetToGeneration tb sd (pm_contentType msg) config (ratchetParams cs) = Inr r"
    "content = toAuthenticatedContent pmc msg (sd_leafIndex sd)"
    by (rule unprotect_accepts) blast
  let ?l = "sd_leafIndex sd" and ?ct = "pm_contentType msg"
  obtain nb where nb: "sparse_get tb (leafToNodeIndex ?l) = Some nb"
    using a(3) by (auto simp: ratchetToGeneration_def Let_def split: option.splits)
  have l: "fc_sender (ac_content content) = SenderMember ?l" by (simp add: a(4) toAuthenticatedContent_def)
  from u nb l obtain g guard key nonce r' where e:
    "receiveKey config (ratchetParams cs) g guard (ratchetForContentType nb ?ct) = Inr (key, nonce, r')"
    "sparse_get tb' (leafToNodeIndex ?l) = Some (setRatchet nb ?ct r')"
    "\<And>j. j \<noteq> leafToNodeIndex ?l \<Longrightarrow> sparse_get tb' j = sparse_get tb j"
    "decryptSenderData msg secret (cs_kdf cs) (cs_hpke cs) = Inr (Some \<lparr>sd_leafIndex = ?l, sd_generation = g, sd_reuseGuard = guard\<rparr>)"
    by (rule unprotect_effect) blast
  note good = goodSecretTree_ratchet [OF t nb, of ?ct]
  show "goodSecretTree (ratchetParams cs) base tb'"
    by (rule goodSecretTree_set [OF t nb _ e(2,3)]) (use receiveKey_good(1) [OF good e(1)] in blast)
  have "spentIn r' g" by (rule spent_receiveKey(1) [OF good e(1)])
  then have "receiveKey config (ratchetParams cs) g guard r' = Inl ValidationError"
    by (rule spent_rejected_receiveKey)
  moreover have "ratchetForContentType (setRatchet nb ?ct r') ?ct = r'" by (simp add: ratchet_setRatchet)
  moreover have "sd_generation sd = g" "sd_reuseGuard sd = guard"
    using e(4) a(1) by (metis senderData.select_convs option.inject sum.inject(2))+
  ultimately have "ratchetToGeneration tb' sd ?ct config (ratchetParams cs) = Inl ValidationError"
    using ratchetToGeneration_receiveKey [of tb' sd "setRatchet nb ?ct r'" ?ct config "ratchetParams cs"] e(2)
    by simp
  then show "unprotectPrivateMessage secret msg tb' tree gc config cs None = Inl ValidationError"
    using a(1,2) by (simp add: unprotectPrivateMessage_def validateSenderData_def throwIfDefined_def)
qed


text \<open>
  The key of a message is determined by the sender's leaf, the ratchet and the generation that its
  sender data name.  In whatever order messages arrive, no such slot is used twice.
\<close>

definition keySlot :: "bytes \<Rightarrow> ('pub, 'priv, 'sk) ciphersuiteImpl \<Rightarrow> privateMessage \<Rightarrow> (int \<times> bool \<times> int) option" where
  "keySlot secret cs msg = (case decryptSenderData msg secret (cs_kdf cs) (cs_hpke cs) of
     Inr (Some sd) \<Rightarrow> Some (sd_leafIndex sd, pm_contentType msg = CT_application, sd_generation sd)
   | _ \<Rightarrow> None)"

definition slotSpent :: "secretTree \<Rightarrow> (int \<times> bool \<times> int) option \<Rightarrow> bool" where
  "slotSpent tree slot = (case slot of None \<Rightarrow> False
   | Some (l, app, g) \<Rightarrow> (case sparse_get tree (leafToNodeIndex l) of None \<Rightarrow> False
     | Some node \<Rightarrow> spentIn (if app then sn_application node else sn_handshake node) g))"

lemma ratchet_if: "ratchetForContentType node ct = (if ct = CT_application then sn_application node else sn_handshake node)"
  by (cases ct) (simp_all add: ratchetForContentType_def)

lemma unprotect_slots:
  assumes t: "goodSecretTree (ratchetParams cs) base tb"
    and u: "unprotectPrivateMessage secret msg tb tree gc config cs None = Inr (content, tb')"
  shows "slotSpent tb' (keySlot secret cs msg)"
    and "slotSpent tb slot \<Longrightarrow> slotSpent tb' slot"
    and "\<exists>l app g. keySlot secret cs msg = Some (l, app, g) \<and> fc_sender (ac_content content) = SenderMember l"
proof -
  let ?ct = "pm_contentType msg"
  from u obtain sd r pmc lf where a:
    "decryptSenderData msg secret (cs_kdf cs) (cs_hpke cs) = Inr (Some sd)"
    "ratchetToGeneration tb sd ?ct config (ratchetParams cs) = Inr r"
    "content = toAuthenticatedContent pmc msg (sd_leafIndex sd)"
    by (rule unprotect_accepts) blast
  let ?l = "sd_leafIndex sd"
  obtain nb where nb: "sparse_get tb (leafToNodeIndex ?l) = Some nb"
    using a(2) by (auto simp: ratchetToGeneration_def Let_def split: option.splits)
  have l: "fc_sender (ac_content content) = SenderMember ?l" by (simp add: a(3) toAuthenticatedContent_def)
  from u nb l obtain g guard key nonce r' where e:
    "receiveKey config (ratchetParams cs) g guard (ratchetForContentType nb ?ct) = Inr (key, nonce, r')"
    "sparse_get tb' (leafToNodeIndex ?l) = Some (setRatchet nb ?ct r')"
    "\<And>j. j \<noteq> leafToNodeIndex ?l \<Longrightarrow> sparse_get tb' j = sparse_get tb j"
    "decryptSenderData msg secret (cs_kdf cs) (cs_hpke cs) = Inr (Some \<lparr>sd_leafIndex = ?l, sd_generation = g, sd_reuseGuard = guard\<rparr>)"
    by (rule unprotect_effect) blast
  note good = goodSecretTree_ratchet [OF t nb, of ?ct]
  have slot: "keySlot secret cs msg = Some (?l, ?ct = CT_application, g)" using e(4) by (simp add: keySlot_def)
  show "slotSpent tb' (keySlot secret cs msg)"
    using spent_receiveKey(1) [OF good e(1)] e(2) by (simp add: slot slotSpent_def setRatchet_def)
  show "\<exists>l app g. keySlot secret cs msg = Some (l, app, g) \<and> fc_sender (ac_content content) = SenderMember l"
    using slot l by blast
  assume sp: "slotSpent tb slot"
  then obtain l app h n where n: "slot = Some (l, app, h)" "sparse_get tb (leafToNodeIndex l) = Some n"
    "spentIn (if app then sn_application n else sn_handshake n) h"
    by (auto simp: slotSpent_def split: option.splits prod.splits)
  show "slotSpent tb' slot"
  proof (cases "l = ?l")
    case True
    then have "n = nb" using n(2) nb by simp
    then show ?thesis using n e(2) True spent_receiveKey(2) [OF good e(1), of h]
      by (auto simp: slotSpent_def setRatchet_def ratchet_if split: if_splits)
  next
    case False
    then have "leafToNodeIndex l \<noteq> leafToNodeIndex ?l" by (simp add: leafToNodeIndex_def)
    then show ?thesis using n e(3) by (simp add: slotSpent_def)
  qed
qed

lemma spent_slot_refused:
  assumes "slotSpent tb (keySlot secret cs msg)"
  shows "\<exists>e. unprotectPrivateMessage secret msg tb tree gc config cs None = Inl e"
proof (rule ccontr)
  assume "\<not> ?thesis"
  then obtain content tb' where "unprotectPrivateMessage secret msg tb tree gc config cs None = Inr (content, tb')"
    by (metis sum.exhaust prod.exhaust)
  then obtain sd r where a: "decryptSenderData msg secret (cs_kdf cs) (cs_hpke cs) = Inr (Some sd)"
    "ratchetToGeneration tb sd (pm_contentType msg) config (ratchetParams cs) = Inr r"
    by (rule unprotect_accepts) blast
  then obtain node where "sparse_get tb (leafToNodeIndex (sd_leafIndex sd)) = Some node"
      "spentIn (ratchetForContentType node (pm_contentType msg)) (sd_generation sd)"
    using assms by (auto simp: slotSpent_def keySlot_def ratchet_if split: option.splits)
  then show False using a(2) ratchetToGeneration_receiveKey spent_rejected_receiveKey by (metis res_map_simps(1) sum.distinct(1))
qed

interpretation privateMessages: one_time_keys "goodSecretTree (ratchetParams cs) base"
  "\<lambda>msg tb. unprotectPrivateMessage secret msg tb tree gc config cs None" "keySlot secret cs"
  "\<lambda>msg content. \<exists>l app g. keySlot secret cs msg = Some (l, app, g) \<and> fc_sender (ac_content content) = SenderMember l"
  slotSpent
  for cs :: "('pub, 'priv, 'sk) ciphersuiteImpl" and base secret tree gc config
  by unfold_locales (blast intro: unprotect_good(1) unprotect_slots spent_slot_refused)+

section \<open>Public messages\<close>

definition externalSenderAllowedProposalTypes :: "defaultProposalTypeName set" where
  "externalSenderAllowedProposalTypes = {PT_add, PT_remove, PT_psk, PT_reinit, PT_group_context_extensions}"

text \<open>The name of a proposal's type; a custom proposal has only a number.\<close>

definition proposalTypeName :: "proposal \<Rightarrow> defaultProposalTypeName option" where
  "proposalTypeName p = (case p of ProposalAdd _ \<Rightarrow> Some PT_add | ProposalUpdate _ \<Rightarrow> Some PT_update
     | ProposalRemove _ \<Rightarrow> Some PT_remove | ProposalPSK _ \<Rightarrow> Some PT_psk | ProposalReinit _ \<Rightarrow> Some PT_reinit
     | ProposalExternalInit _ \<Rightarrow> Some PT_external_init
     | ProposalGroupContextExtensions _ \<Rightarrow> Some PT_group_context_extensions | ProposalCustom _ _ \<Rightarrow> None)"

definition senderFromExtension :: "extension list \<Rightarrow> int \<Rightarrow> externalSender option result" where
  "senderFromExtension extensions senderIndex =
     (case find (\<lambda>ex. extensionType ex = ExtDefault ET_external_senders) extensions of
        None \<Rightarrow> Inr None
      | Some ex \<Rightarrow> res_bind (decodeExternalSenders (extensionData ex) 0) (\<lambda>decoded. case decoded of
          None \<Rightarrow> Inl CodecError
        | Some (senders, _) \<Rightarrow> Inr (arr_get senders senderIndex)))"

definition findSignaturePublicKey :: "ratchetTree \<Rightarrow> groupContext \<Rightarrow> framedContent \<Rightarrow> bytes result" where
  "findSignaturePublicKey ratchetTree groupContext framedContent = (case fc_sender framedContent of
     SenderMember leafIndex \<Rightarrow> getSignaturePublicKeyFromLeafIndex ratchetTree leafIndex
   | SenderExternal senderIndex \<Rightarrow>
       res_bind (senderFromExtension (gc_extensions groupContext) senderIndex) (\<lambda>sender. case sender of
         None \<Rightarrow> Inl ValidationError
       | Some s \<Rightarrow> (case fc_info framedContent of
           FC_proposal p \<Rightarrow> (case proposalTypeName p of
               Some t \<Rightarrow> if t \<in> externalSenderAllowedProposalTypes then Inr (es_signaturePublicKey s)
                 else Inl ValidationError
             | None \<Rightarrow> Inl ValidationError)
         | _ \<Rightarrow> Inl ValidationError))
   | SenderNewMemberProposal \<Rightarrow> (case fc_info framedContent of
       FC_proposal (ProposalAdd k) \<Rightarrow> Inr (ln_signaturePublicKey (kp_leafNode k))
     | _ \<Rightarrow> Inl ValidationError)
   | SenderNewMemberCommit \<Rightarrow> (case fc_info framedContent of
       FC_commit c \<Rightarrow> (case cm_path c of None \<Rightarrow> Inl ValidationError
         | Some path \<Rightarrow> Inr (ln_signaturePublicKey (up_leafNode path)))
     | _ \<Rightarrow> Inl ValidationError))"

definition protectPublicMessage ::
    "bytes \<Rightarrow> groupContext \<Rightarrow> authenticatedContent \<Rightarrow> ('pub, 'priv, 'sk) ciphersuiteImpl \<Rightarrow> publicMessage result" where
  "protectPublicMessage membershipKey groupContext content cs =
     (case fc_info (ac_content content) of
        FC_application _ \<Rightarrow> Inl UsageError
      | _ \<Rightarrow>
        if senderTypeOf (fc_sender (ac_content content)) = ST_member then
          res_bind (createMembershipTag membershipKey
              \<lparr>tbm_contentTbs = toTbsContent (ac_content content) WF_public_message groupContext,
               tbm_auth = ac_auth content\<rparr> (cs_hash cs)) (\<lambda>tag.
            Inr \<lparr>pub_content = ac_content content, pub_auth = ac_auth content, pub_info = PMI_member tag\<rparr>)
        else Inr \<lparr>pub_content = ac_content content, pub_auth = ac_auth content,
               pub_info = PMI_other (senderTypeOf (fc_sender (ac_content content)))\<rparr>)"

definition protectProposalPublic ::
    "'sk \<Rightarrow> bytes \<Rightarrow> groupContext \<Rightarrow> bytes \<Rightarrow> proposal \<Rightarrow> int \<Rightarrow> ('pub, 'priv, 'sk) ciphersuiteImpl \<Rightarrow>
     publicMessage result" where
  "protectProposalPublic signKey membershipKey groupContext authenticatedData proposal leafIndex cs =
     (let framedContent = memberContent groupContext leafIndex authenticatedData (FC_proposal proposal);
          tbs = \<lparr>ft_protocolVersion = gc_version groupContext, ft_wireformat = WF_public_message,
            ft_content = framedContent, ft_senderInfo = SI_member groupContext\<rparr>
      in res_bind (signFramedContentApplicationOrProposal signKey tbs cs) (\<lambda>auth.
        protectPublicMessage membershipKey groupContext
          \<lparr>ac_wireformat = WF_public_message, ac_content = framedContent, ac_auth = auth\<rparr> cs))"

text \<open>The type of \<open>sender\<close> in the sources leaves out members.\<close>

definition protectExternalProposalPublic ::
    "'sk \<Rightarrow> groupContext \<Rightarrow> bytes \<Rightarrow> proposal \<Rightarrow> sender \<Rightarrow> ('pub, 'priv, 'sk) ciphersuiteImpl \<Rightarrow>
     publicMessage result" where
  "protectExternalProposalPublic signKey groupContext authenticatedData proposal sender cs =
     (let framedContent = \<lparr>fc_groupId = gc_groupId groupContext, fc_epoch = gc_epoch groupContext,
            fc_sender = sender, fc_authenticatedData = authenticatedData, fc_info = FC_proposal proposal\<rparr>
      in res_bind (signFramedContentApplicationOrProposal signKey
          (toTbsContent framedContent WF_public_message groupContext) cs) (\<lambda>auth.
        Inr \<lparr>pub_content = framedContent, pub_auth = auth, pub_info = PMI_other (senderTypeOf sender)\<rparr>))"

definition unprotectPublicMessage ::
    "bytes \<Rightarrow> groupContext \<Rightarrow> ratchetTree \<Rightarrow> publicMessage \<Rightarrow> ('pub, 'priv, 'sk) ciphersuiteImpl \<Rightarrow>
     bytes option \<Rightarrow> authenticatedContent result" where
  "unprotectPublicMessage membershipKey groupContext ratchetTree msg cs overrideSignatureKey =
     (case fc_info (pub_content msg) of
        FC_application _ \<Rightarrow> Inl ValidationError
      | _ \<Rightarrow>
        res_bind (case pub_info msg of
            PMI_member tag \<Rightarrow> res_bind (verifyMembershipTag membershipKey
                \<lparr>tbm_contentTbs = toTbsContent (pub_content msg) WF_public_message groupContext,
                 tbm_auth = pub_auth msg\<rparr> tag (cs_hash cs))
              (\<lambda>verified. if verified then Inr () else Inl CryptoVerificationError)
          | PMI_other _ \<Rightarrow> Inr ()) (\<lambda>_.
        res_bind (case overrideSignatureKey of Some k \<Rightarrow> Inr k
            | None \<Rightarrow> findSignaturePublicKey ratchetTree groupContext (pub_content msg)) (\<lambda>publicKey.
        res_bind (verifyFramedContentSignature publicKey WF_public_message (pub_content msg) (pub_auth msg)
            groupContext (cs_signature cs)) (\<lambda>signatureValid.
          if signatureValid then Inr \<lparr>ac_wireformat = WF_public_message, ac_content = pub_content msg,
            ac_auth = pub_auth msg\<rparr>
          else Inl CryptoVerificationError))))"

definition macCorrect :: "hashImpl \<Rightarrow> bool" where
  "macCorrect h \<longleftrightarrow> (\<forall>k m. h_verifyMac h k (h_mac h k m) m)"

lemma public_proposal_delivery:
  assumes "macCorrect (cs_hash cs)" "signatureCorrect (cs_signature cs) sk (ln_signaturePublicKey lf)"
    "sparse_get tree (leafToNodeIndex l) = Some (NodeLeaf lf)"
    "protectProposalPublic sk mk gc ad p l cs = Inr msg"
  shows "\<exists>auth. unprotectPublicMessage mk gc tree msg cs None =
    Inr \<lparr>ac_wireformat = WF_public_message, ac_content = memberContent gc l ad (FC_proposal p), ac_auth = auth\<rparr>"
proof -
  obtain auth where auth: "signFramedContentApplicationOrProposal sk \<lparr>ft_protocolVersion = gc_version gc,
      ft_wireformat = WF_public_message, ft_content = memberContent gc l ad (FC_proposal p),
      ft_senderInfo = SI_member gc\<rparr> cs = Inr auth"
    and m: "protectPublicMessage mk gc \<lparr>ac_wireformat = WF_public_message,
      ac_content = memberContent gc l ad (FC_proposal p), ac_auth = auth\<rparr> cs = Inr msg"
    using assms(4) by (auto simp: protectProposalPublic_def Let_def res_bind_eq_Inr)
  show ?thesis
    using m assms(1,3) sign_verify [OF assms(2) auth]
    by (auto simp: protectPublicMessage_def unprotectPublicMessage_def memberContent_def senderTypeOf_def
        createMembershipTag_def verifyMembershipTag_def macCorrect_def findSignaturePublicKey_def
        getSignaturePublicKeyFromLeafIndex_def res_bind_eq_Inr res_map_eq_Inr)
qed

lemma unprotectPublic_accepts:
  assumes "unprotectPublicMessage mk gc tree msg cs None = Inr content" "infoMatches (pub_content msg) (pub_info msg)"
    "fc_sender (pub_content msg) = SenderMember l"
  shows "\<exists>tag lf. pub_info msg = PMI_member tag \<and>
      verifyMembershipTag mk \<lparr>tbm_contentTbs = toTbsContent (pub_content msg) WF_public_message gc,
         tbm_auth = pub_auth msg\<rparr> tag (cs_hash cs) = Inr True \<and>
      sparse_get tree (leafToNodeIndex l) = Some (NodeLeaf lf) \<and>
      verifyFramedContentSignature (ln_signaturePublicKey lf) WF_public_message (pub_content msg) (pub_auth msg) gc
        (cs_signature cs) = Inr True \<and> (\<forall>d. fc_info (pub_content msg) \<noteq> FC_application d)"
proof (cases "pub_info msg")
  case (PMI_member tag)
  show ?thesis using assms PMI_member
    by (auto simp: unprotectPublicMessage_def findSignaturePublicKey_def getSignaturePublicKeyFromLeafIndex_def
        res_bind_eq_Inr split: framedContentInfo.splits if_splits option.splits ratchetNode.splits)
qed (use assms in \<open>auto simp: infoMatches_def senderTypeOf_def\<close>)

text \<open>An external sender gets through with the five permitted proposals and nothing else.\<close>

lemma unprotectPublic_external:
  assumes "unprotectPublicMessage mk gc tree msg cs None = Inr content" "fc_sender (pub_content msg) = SenderExternal i"
  shows "\<exists>p t s. fc_info (pub_content msg) = FC_proposal p \<and> proposalTypeName p = Some t \<and>
    t \<in> externalSenderAllowedProposalTypes \<and> senderFromExtension (gc_extensions gc) i = Inr (Some s) \<and>
    verifyFramedContentSignature (es_signaturePublicKey s) WF_public_message (pub_content msg) (pub_auth msg) gc
      (cs_signature cs) = Inr True"
proof -
  obtain k where k: "findSignaturePublicKey tree gc (pub_content msg) = Inr k"
    "verifyFramedContentSignature k WF_public_message (pub_content msg) (pub_auth msg) gc (cs_signature cs) = Inr True"
    using assms(1) by (auto simp: unprotectPublicMessage_def res_bind_eq_Inr split: framedContentInfo.splits if_splits)
  then obtain s where s: "senderFromExtension (gc_extensions gc) i = Inr (Some s)"
    using assms(2) by (auto simp: findSignaturePublicKey_def res_bind_eq_Inr split: option.splits)
  then obtain p where p: "fc_info (pub_content msg) = FC_proposal p"
    using assms(2) k(1) by (auto simp: findSignaturePublicKey_def split: framedContentInfo.splits)
  then show ?thesis using assms(2) k s
    by (auto simp: findSignaturePublicKey_def split: option.splits if_splits)
qed

end
