(* ===== verification/UpdatePath.thy ===== *)
theory UpdatePath imports MessageProtection ParentHash begin

text \<open>
  Update paths, \<^verbatim>\<open>src/update-path.ts\<close>, and the path secrets behind them,
  \<^verbatim>\<open>src/path-secrets.ts\<close>.  The committer replaces its leaf and every node of its filtered direct
  path and encrypts each new secret to the resolution of the node's copath child; a receiver
  rebuilds the same nodes from the public part.

  The array that the committer owns and writes is passed along, together with the tree-hash entry of
  that array; \<open>digest h\<close> is what the hash object \<open>h\<close> of the ciphersuite computes.  The fresh random
  path secret is an argument.
\<close>

section \<open>The committer\<close>

record pathSecret =
  ps_nodeIndex :: int
  ps_secret :: bytes
  ps_sendTo :: "int list"

record 'sk resolvedLeafNodePatch =
  lp_credential :: "credential option"
  lp_signature :: "(bytes \<times> 'sk) option"
  lp_capabilities :: "capabilities option"
  lp_extensions :: "extension list option"

definition noPatch :: "'sk resolvedLeafNodePatch" where
  "noPatch = \<lparr>lp_credential = None, lp_signature = None, lp_capabilities = None, lp_extensions = None\<rparr>"

definition filterNewLeaves :: "int list \<Rightarrow> int list \<Rightarrow> int list" where
  "filterNewLeaves res excludeNodes = filter (\<lambda>i. i \<notin> set excludeNodes) res"

definition MAX_CONCURRENT_ENCRYPTIONS :: nat where
  "MAX_CONCURRENT_ENCRYPTIONS = 512"

text \<open>The new keys, from the leaf up; the secrets come out root first, the leaf's last.\<close>

definition applyInitialTreeUpdate ::
    "(int \<times> int list) list \<Rightarrow> bytes \<Rightarrow> int \<Rightarrow> ratchetTree \<Rightarrow> ('pub, 'priv, 'sk) ciphersuiteImpl \<Rightarrow>
     (pathSecret list \<times> ratchetTree) result" where
  "applyInitialTreeUpdate fdp secret senderLeafIndex tree cs =
     res_foldM (\<lambda>(pathSecrets, tree) (nodeIndex, res).
         let lastPathSecret = hd pathSecrets in
         res_bind (deriveSecret (ps_secret lastPathSecret) ''path'' (cs_kdf cs)) (\<lambda>nextPathSecret.
         res_bind (deriveSecret nextPathSecret ''node'' (cs_kdf cs)) (\<lambda>nextNodeSecret.
         let publicKey = snd (hpke_deriveKeyPair (cs_hpke cs) nextNodeSecret);
             tree' = setNode tree nodeIndex (Some (NodeParent
               \<lparr>pn_hpkePublicKey = hpke_exportPublicKey (cs_hpke cs) publicKey, pn_parentHash = [],
                pn_unmergedLeaves = []\<rparr>))
         in Inr (\<lparr>ps_nodeIndex = nodeIndex, ps_secret = nextPathSecret, ps_sendTo = res\<rparr> # pathSecrets, tree'))))
       ([\<lparr>ps_nodeIndex = leafToNodeIndex senderLeafIndex, ps_secret = secret, ps_sendTo = []\<rparr>], tree) fdp"

definition insertParentHash :: "('h \<Rightarrow> bytes \<Rightarrow> bytes) \<Rightarrow> 'h \<Rightarrow> ratchetTree \<times> 'h hashEntry option \<Rightarrow>
    int \<times> int list \<Rightarrow> (ratchetTree \<times> 'h hashEntry option) result" where
  "insertParentHash digest h = (\<lambda>(tree, entry) (nodeIndex, _).
     res_bind (calculateParentHash digest tree nodeIndex h entry) (\<lambda>(parentHash, entry').
       case sparse_get tree nodeIndex of
         Some (NodeParent p) \<Rightarrow>
           Inr (setNode tree nodeIndex (Some (NodeParent (p\<lparr>pn_parentHash := fst parentHash\<rparr>))), entry')
       | _ \<Rightarrow> Inl InternalError))"

definition insertParentHashes :: "('h \<Rightarrow> bytes \<Rightarrow> bytes) \<Rightarrow> 'h \<Rightarrow> (int \<times> int list) list \<Rightarrow>
    ratchetTree \<times> 'h hashEntry option \<Rightarrow> (ratchetTree \<times> 'h hashEntry option) result" where
  "insertParentHashes digest h fdp st = res_foldM (insertParentHash digest h) st (rev fdp)"

text \<open>The encryptions, batch by batch.\<close>

function encryptBatches :: "('j \<Rightarrow> 'c result) \<Rightarrow> 'j list \<Rightarrow> 'c list result" where
  "encryptBatches f jobs = (if jobs = [] then Inr []
     else res_bind (res_mapM f (take MAX_CONCURRENT_ENCRYPTIONS jobs)) (\<lambda>encrypted.
       res_map ((@) encrypted) (encryptBatches f (drop MAX_CONCURRENT_ENCRYPTIONS jobs))))"
  by pat_completeness auto
termination
  by (relation "measure (\<lambda>(f, jobs). length jobs)") (auto simp: MAX_CONCURRENT_ENCRYPTIONS_def)

declare encryptBatches.simps [simp del]

text \<open>An absent node has no \<open>nodeType\<close> to read.\<close>

definition publicKeyAt :: "ratchetTree \<Rightarrow> int \<Rightarrow> bytes result" where
  "publicKeyAt tree nodeIndex = (case sparse_get tree nodeIndex of
     None \<Rightarrow> Inl TypeError | Some n \<Rightarrow> Inr (getHpkePublicKey n))"

fun collectPathNodes :: "ratchetTree \<Rightarrow> pathSecret list \<Rightarrow> hPKECiphertext list \<Rightarrow> updatePathNode list result" where
  "collectPathNodes updatedTree [] ciphertexts = Inr []"
| "collectPathNodes updatedTree (p # ps) ciphertexts =
     (let count = length (ps_sendTo p) in
      res_bind (publicKeyAt updatedTree (ps_nodeIndex p)) (\<lambda>key.
      res_map ((#) \<lparr>upn_hpkePublicKey = key, upn_encryptedPathSecret = take count ciphertexts\<rparr>)
        (collectPathNodes updatedTree ps (drop count ciphertexts))))"

definition encryptSecretsForPath ::
    "pathSecret list \<Rightarrow> ratchetTree \<Rightarrow> ratchetTree \<Rightarrow> groupContext \<Rightarrow> ('pub, 'priv, 'sk) ciphersuiteImpl \<Rightarrow>
     updatePathNode list result" where
  "encryptSecretsForPath pathSecrets originalTree updatedTree updatedGroupContext cs =
     res_bind (encodeGroupContext updatedGroupContext) (\<lambda>context.
     res_bind (res_mapM (\<lambda>(secret, nodeIndex). res_map (Pair secret) (publicKeyAt originalTree nodeIndex))
         (concat (map (\<lambda>p. map (Pair (ps_secret p)) (ps_sendTo p)) pathSecrets))) (\<lambda>jobs.
     res_bind (encryptBatches (\<lambda>(secret, recipientKey).
           res_bind (hpke_importPublicKey (cs_hpke cs) recipientKey) (\<lambda>publicKey.
           res_map (\<lambda>(ct, enc). \<lparr>hc_kemOutput = enc, hc_ciphertext = ct\<rparr>)
             (encryptWithLabel publicKey ''UpdatePathNode'' context secret (cs_hpke cs)))) jobs) (\<lambda>ciphertexts.
       collectPathNodes updatedTree pathSecrets ciphertexts)))"

record ('pub, 'priv) createdPath =
  cp_tree :: ratchetTree
  cp_updatePath :: updatePath
  cp_pathSecrets :: "pathSecret list"
  cp_privateKey :: 'priv
  cp_treeHash :: bytes

definition committerLeaf :: "leafNode \<Rightarrow> bytes \<Rightarrow> 'sk resolvedLeafNodePatch \<Rightarrow> bytes \<Rightarrow> bytes \<Rightarrow> int \<Rightarrow> leafNodeTBS" where
  "committerLeaf old publicKey patch parentHash groupId senderLeafIndex =
     \<lparr>ln_hpkePublicKey = publicKey,
      ln_signaturePublicKey = (case lp_signature patch of None \<Rightarrow> ln_signaturePublicKey old | Some (pk, _) \<Rightarrow> pk),
      ln_credential = (case lp_credential patch of None \<Rightarrow> ln_credential old | Some c \<Rightarrow> c),
      ln_capabilities = (case lp_capabilities patch of None \<Rightarrow> ln_capabilities old | Some c \<Rightarrow> c),
      tbs_info = InfoCommit parentHash,
      tbs_extensions = (case lp_extensions patch of None \<Rightarrow> ln_extensions old | Some e \<Rightarrow> e),
      tbs_groupInfo = GroupIdLeafIndex groupId senderLeafIndex\<rparr>"

definition createUpdatePath ::
    "('h \<Rightarrow> bytes \<Rightarrow> bytes) \<Rightarrow> 'h \<Rightarrow> ratchetTree \<Rightarrow> 'h hashEntry option \<Rightarrow> int \<Rightarrow> groupContext \<Rightarrow> 'sk \<Rightarrow>
     ('pub, 'priv, 'sk) ciphersuiteImpl \<Rightarrow> int list \<Rightarrow> 'sk resolvedLeafNodePatch \<Rightarrow> bytes \<Rightarrow>
     (('pub, 'priv) createdPath \<times> 'h hashEntry option) result" where
  "createUpdatePath digest h originalTree originalEntry senderLeafIndex groupContext signaturePrivateKey cs
      excludeNodes patch secret =
     (let senderNodeIndex = leafToNodeIndex senderLeafIndex in
      case sparse_get originalTree senderNodeIndex of
        Some (NodeLeaf old) \<Rightarrow>
          res_bind (deriveSecret secret ''node'' (cs_kdf cs)) (\<lambda>leafNodeSecret.
          let leafKeypair = hpke_deriveKeyPair (cs_hpke cs) leafNodeSecret in
          res_bind (filteredDirectPathAndCopathResolution senderLeafIndex originalTree) (\<lambda>path.
          let fdp = map (\<lambda>(nodeIndex, res). (nodeIndex, filterNewLeaves res excludeNodes)) path in
          res_bind (carryTreeHashes originalEntry originalTree originalTree [senderLeafIndex]) (\<lambda>entry.
          res_bind (applyInitialTreeUpdate fdp secret senderLeafIndex originalTree cs) (\<lambda>(ps, tree1).
          res_bind (insertParentHashes digest h fdp (tree1, entry)) (\<lambda>(tree2, entry2).
          res_bind (calculateParentHash digest tree2 senderNodeIndex h entry2) (\<lambda>(leafParentHash, entry3).
          let tbs = committerLeaf old (hpke_exportPublicKey (cs_hpke cs) (snd leafKeypair)) patch (fst leafParentHash)
                (gc_groupId groupContext) senderLeafIndex;
              signKey = (case lp_signature patch of None \<Rightarrow> signaturePrivateKey | Some (_, sk) \<Rightarrow> sk)
          in res_bind (signLeafNodeCommit tbs signKey (cs_signature cs)) (\<lambda>updatedLeafNode.
          let tree = setNode tree2 senderNodeIndex (Some (NodeLeaf updatedLeafNode)) in
          res_bind (treeHashRoot digest tree h entry3) (\<lambda>(updatedTreeHash, entry4).
          let updatedGroupContext = groupContext\<lparr>gc_treeHash := updatedTreeHash, gc_epoch := gc_epoch groupContext + 1\<rparr>;
              pathSecretsToDistribute = rev (take (length ps - 1) ps)
          in res_bind (encryptSecretsForPath pathSecretsToDistribute originalTree tree updatedGroupContext cs)
            (\<lambda>updatePathNodes.
            Inr (\<lparr>cp_tree = tree,
                  cp_updatePath = \<lparr>up_leafNode = updatedLeafNode, up_nodes = updatePathNodes\<rparr>,
                  cp_pathSecrets = (if length pathSecretsToDistribute > 0 then pathSecretsToDistribute else [hd ps]),
                  cp_privateKey = fst leafKeypair, cp_treeHash = updatedTreeHash\<rparr>, entry4))))))))))
      | _ \<Rightarrow> Inl InternalError)"

section \<open>The receivers\<close>

definition keyInTree :: "ratchetTree \<Rightarrow> bytes \<Rightarrow> bool" where
  "keyInTree tree key = list_ex (\<lambda>n. case n of None \<Rightarrow> False
     | Some node \<Rightarrow> constantTimeEqual (getHpkePublicKey node) key) tree"

text \<open>Some two nodes at different positions have the same key.\<close>

definition hasDuplicateKey :: "updatePathNode list \<Rightarrow> bool" where
  "hasDuplicateKey nodes = list_ex (\<lambda>i. list_ex (\<lambda>j. i \<noteq> j \<and>
     constantTimeEqual (upn_hpkePublicKey (nodes ! i)) (upn_hpkePublicKey (nodes ! j))) [0..<length nodes]) [0..<length nodes]"

fun writePath :: "('h \<Rightarrow> bytes \<Rightarrow> bytes) \<Rightarrow> 'h \<Rightarrow> (int \<times> updatePathNode) list \<Rightarrow>
    ratchetTree \<times> 'h hashEntry option \<Rightarrow> (ratchetTree \<times> 'h hashEntry option) result" where
  "writePath digest h [] st = Inr st"
| "writePath digest h ((nodeIndex, node) # rest) (copy, entry) =
     res_bind (calculateParentHash digest copy nodeIndex h entry) (\<lambda>(parentHash, entry').
       writePath digest h rest (setNode copy nodeIndex (Some (NodeParent
         \<lparr>pn_hpkePublicKey = upn_hpkePublicKey node, pn_parentHash = fst parentHash, pn_unmergedLeaves = []\<rparr>)), entry'))"

definition applyUpdatePath ::
    "('h \<Rightarrow> bytes \<Rightarrow> bytes) \<Rightarrow> 'h \<Rightarrow> ratchetTree \<Rightarrow> 'h hashEntry option \<Rightarrow> int \<Rightarrow> updatePath \<Rightarrow> bool \<Rightarrow>
     (ratchetTree \<times> 'h hashEntry option) result" where
  "applyUpdatePath digest h tree treeEntry senderLeafIndex path isExternal =
     res_bind (if isExternal then Inr ()
         else case sparse_get tree (leafToNodeIndex senderLeafIndex) of
           Some (NodeLeaf leafToUpdate) \<Rightarrow>
             if constantTimeEqual (ln_hpkePublicKey leafToUpdate) (ln_hpkePublicKey (up_leafNode path))
             then Inl ValidationError else Inr ()
         | _ \<Rightarrow> Inl InternalError) (\<lambda>_.
     if list_ex (\<lambda>node. keyInTree tree (upn_hpkePublicKey node)) (up_nodes path) then Inl ValidationError
     else if hasDuplicateKey (up_nodes path) then Inl ValidationError
     else if list_ex (\<lambda>node. constantTimeEqual (upn_hpkePublicKey node) (ln_hpkePublicKey (up_leafNode path))) (up_nodes path)
     then Inl ValidationError
     else res_bind (carryTreeHashes treeEntry tree tree [senderLeafIndex]) (\<lambda>entry.
       let copy = setNode tree (leafToNodeIndex senderLeafIndex) (Some (NodeLeaf (up_leafNode path))) in
       res_bind (filteredDirectPath senderLeafIndex tree) (\<lambda>fdp.
       let reverseFilteredDirectPath = rev fdp; reverseUpdatePath = rev (up_nodes path) in
       if length reverseUpdatePath \<noteq> length reverseFilteredDirectPath then Inl ValidationError
       else res_bind (writePath digest h (zip reverseFilteredDirectPath reverseUpdatePath) (copy, entry)) (\<lambda>(copy', entry').
       res_bind (calculateParentHash digest copy' (leafToNodeIndex senderLeafIndex) h entry') (\<lambda>(leafParentHash, entry'').
         case ln_info (up_leafNode path) of
           InfoCommit expected \<Rightarrow>
             if constantTimeEqual (fst leafParentHash) expected then Inr (copy', entry'') else Inl ValidationError
         | _ \<Rightarrow> Inl TypeError)))))"

fun commonAncestor_loop :: "ratchetTree \<Rightarrow> int \<Rightarrow> (int \<times> int list) list \<Rightarrow> nat \<Rightarrow> (int \<times> int list \<times> nat) result" where
  "commonAncestor_loop tree leafIndex [] n = Inl ValidationError"
| "commonAncestor_loop tree leafIndex ((nodeIndex, res) # rest) n =
     res_bind (isAncestor (leafToNodeIndex leafIndex) nodeIndex (int (length tree))) (\<lambda>a.
       if a then Inr (nodeIndex, res, n) else commonAncestor_loop tree leafIndex rest (Suc n))"

definition firstCommonAncestor :: "ratchetTree \<Rightarrow> int \<Rightarrow> int \<Rightarrow> int result" where
  "firstCommonAncestor tree leafIndex senderLeafIndex =
     res_bind (filteredDirectPathAndCopathResolution senderLeafIndex tree) (\<lambda>fdp.
       res_map fst (commonAncestor_loop tree leafIndex fdp 0))"

definition firstMatchAncestor ::
    "ratchetTree \<Rightarrow> int \<Rightarrow> int \<Rightarrow> updatePath \<Rightarrow> (int \<times> int list \<times> updatePathNode option) result" where
  "firstMatchAncestor tree leafIndex senderLeafIndex path =
     res_bind (filteredDirectPathAndCopathResolution senderLeafIndex tree) (\<lambda>fdp.
       res_map (\<lambda>(nodeIndex, res, n). (nodeIndex, res,
           if n < length (up_nodes path) then Some (up_nodes path ! n) else None))
         (commonAncestor_loop tree leafIndex fdp 0))"

section \<open>Path secrets\<close>

text \<open>Secrets by node index.\<close>

type_synonym pathSecrets = "(int \<times> bytes) list"

definition pathToPathSecrets :: "pathSecret list \<Rightarrow> pathSecrets" where
  "pathToPathSecrets secrets = foldl (\<lambda>acc cur. AList.update (ps_nodeIndex cur) (ps_secret cur) acc) [] secrets"

function pathToRoot_loop :: "ratchetTree \<Rightarrow> int \<Rightarrow> bytes \<Rightarrow> pathSecrets \<Rightarrow> kdfImpl \<Rightarrow> pathSecrets result" where
  "pathToRoot_loop tree currentIndex current acc kdf =
     (if currentIndex = root (leafWidth (int (length tree))) then Inr acc
      else case findFirstNonBlankAncestor tree currentIndex of
        Inl e \<Rightarrow> Inl e
      | Inr nextIndex \<Rightarrow> res_bind (deriveSecret current ''path'' kdf) (\<lambda>nextSecret.
          pathToRoot_loop tree nextIndex nextSecret (AList.update nextIndex nextSecret acc) kdf))"
  by pat_completeness auto
termination
  by (relation "measure (\<lambda>(tree, i, s, acc, kdf). stepsLeft i)") (auto intro: findFirst_stepsLeft)

declare pathToRoot_loop.simps [simp del]

definition pathToRoot :: "ratchetTree \<Rightarrow> int \<Rightarrow> bytes \<Rightarrow> kdfImpl \<Rightarrow> pathSecrets result" where
  "pathToRoot tree nodeIndex secret kdf = pathToRoot_loop tree nodeIndex secret [(nodeIndex, secret)] kdf"

definition getCommitSecret :: "ratchetTree \<Rightarrow> int \<Rightarrow> bytes \<Rightarrow> kdfImpl \<Rightarrow> bytes result" where
  "getCommitSecret tree nodeIndex secret kdf =
     res_bind (pathToRoot tree nodeIndex secret kdf) (\<lambda>path.
       case map_of path (root (leafWidth (int (length tree)))) of
         None \<Rightarrow> Inl InternalError | Some rootSecret \<Rightarrow> deriveSecret rootSecret ''path'' kdf)"

fun deriveAlong :: "kdfImpl \<Rightarrow> (int \<times> int list) list \<Rightarrow> pathSecrets \<Rightarrow> bytes \<Rightarrow> (pathSecrets \<times> bytes) result" where
  "deriveAlong kdf [] acc lastSecret = Inr (acc, lastSecret)"
| "deriveAlong kdf ((nodeIndex, _) # rest) acc lastSecret =
     res_bind (deriveSecret lastSecret ''path'' kdf) (\<lambda>secret.
       deriveAlong kdf rest (AList.update nodeIndex secret acc) secret)"

definition pathSecretsAlongFilteredPath ::
    "ratchetTree \<Rightarrow> int \<Rightarrow> int \<Rightarrow> bytes \<Rightarrow> kdfImpl \<Rightarrow> (pathSecrets \<times> bytes) result" where
  "pathSecretsAlongFilteredPath tree senderLeafIndex nodeIndex secret kdf =
     res_bind (filteredDirectPathAndCopathResolution senderLeafIndex tree) (\<lambda>fdp.
       case dropWhile (\<lambda>entry. fst entry \<noteq> nodeIndex) fdp of
         [] \<Rightarrow> Inl InternalError
       | _ # rest \<Rightarrow> deriveAlong kdf rest [(nodeIndex, secret)] secret)"

end
