(* ===== verification/UpdatePathLaws.thy ===== *)
theory UpdatePathLaws imports UpdatePath begin

text \<open>
  What committer and receivers agree on.  The nodes that a commit writes are the committer's leaf
  and nodes of its direct path; the hashes that enter the parent hashes are of copath subtrees,
  which it does not touch.  So each side, working from the root down on its own array, computes the
  same parent hashes, and the arrays are equal at the end.
\<close>

section \<open>The direct path of a leaf\<close>

lemma ancestorAt_leaf: "ancestorAt l 0 0 = 2 * l"
  by (simp add: ancestorAt_def)

lemma div_pow_diff: "a \<le> k \<Longrightarrow> (x :: int) div 2 ^ a div 2 ^ (k - a) = x div 2 ^ k"
  by (simp flip: zdiv_zmult2_eq power_add)

lemma div_mod_decomp_2: "(x :: int) = 2 * (x div 2) \<or> x = 2 * (x div 2) + 1"
  by presburger

lemma inTree_path: "0 \<le> l \<Longrightarrow> l < 2 ^ d \<Longrightarrow> j \<le> d \<Longrightarrow> inTree d j (l div 2 ^ j)"
  using inTree_ancestor [of d 0 l j] by (simp add: leaf_inTree)

lemma path_index: "full d t \<Longrightarrow> 0 \<le> l \<Longrightarrow> l < 2 ^ d \<Longrightarrow> j \<le> d \<Longrightarrow>
    0 \<le> ancestorAt l 0 j \<and> ancestorAt l 0 j < int (length t)"
  using inTree_index [of d t j "l div 2 ^ j"] inTree_path [of l d j] by (simp add: ancestorAt_def)

lemma path_inj: "0 \<le> l \<Longrightarrow> ancestorAt l 0 i = ancestorAt l 0 j \<Longrightarrow> i = j"
  using nodeAt_inj [of i "l div 2 ^ i" j "l div 2 ^ j"] by (simp add: ancestorAt_def pos_imp_zdiv_nonneg_iff)

lemma path_root:
  assumes "full d t" "0 \<le> l" "l < 2 ^ d"
  shows "root (leafWidth (int (length t))) = ancestorAt l 0 d"
  using assms root_pow2 [of d] full_leafWidth [OF assms(1)] by (simp add: ancestorAt_def full_def)

lemma path_parent:
  assumes "full d t" "0 \<le> l" "l < 2 ^ d" "k < d"
  shows "parent (ancestorAt l 0 k) (leafWidth (int (length t))) = Inr (ancestorAt l 0 (Suc k))"
proof -
  have "d \<le> 30" using assms(1) by (simp add: full_def)
  from parent_nodeAt [OF inTree_path [OF assms(2,3), of k] assms(4) this] show ?thesis
    using assms(4) full_leafWidth [OF assms(1)] by (simp only: ancestorAt_def diff_zero div_pow_Suc less_imp_le)
qed

lemma touched_path: "0 \<le> l \<Longrightarrow> touched d [l] i \<longleftrightarrow> (\<exists>j\<le>d. i = ancestorAt l 0 j)"
proof
  assume "0 \<le> l" "touched d [l] i"
  then show "\<exists>j\<le>d. i = ancestorAt l 0 j"
    using ancestorAt_leaf [of l] by (auto simp: touched_def less_Suc_eq_le simp del: upt_Suc)
next
  assume "\<exists>j\<le>d. i = ancestorAt l 0 j"
  then obtain j where "j \<le> d" "i = ancestorAt l 0 j" by blast
  then show "touched d [l] i"
    by (cases j) (auto simp: touched_def ancestorAt_leaf simp del: upt_Suc)
qed

text \<open>The two children of a node of the path: the path's own and the copath's.\<close>

lemma path_sibling:
  assumes "full d t" "0 \<le> l" "l < 2 ^ d" "k < j" "j \<le> d"
  shows "(if ancestorAt l 0 k < ancestorAt l 0 j then right (ancestorAt l 0 j) else left (ancestorAt l 0 j))
    = Inr (copathAt l 0 (j - 1))"
proof -
  obtain i where i: "j = Suc i" using assms(4) by (cases j) auto
  let ?m = "l div 2 ^ Suc i"
  have d: "d \<le> 30" "i \<le> 29" using assms i by (auto simp: full_def)
  have m: "0 \<le> ?m" "nodeAt (Suc i) ?m < 2147483648"
    using inTree_path [OF assms(2,3,5)] inTree_small [of d j "l div 2 ^ j"] d i by (auto simp: inTree_def)
  have half: "l div 2 ^ i = 2 * ?m \<or> l div 2 ^ i = 2 * ?m + 1"
    unfolding div_pow_Suc by (simp only: div_mod_decomp_2)
  have "ancestorAt l 0 k < ancestorAt l 0 j \<longleftrightarrow> l div 2 ^ i = 2 * ?m"
  proof -
    have "k \<le> i" using assms(4) i by simp
    define e where "e = l div 2 ^ k - 2 ^ (i - k) * (l div 2 ^ i)"
    have e: "0 \<le> e" "e < 2 ^ (i - k)"
    proof -
      have "l div 2 ^ i = l div 2 ^ k div 2 ^ (i - k)" using div_pow_diff [OF \<open>k \<le> i\<close>] by simp
      then have "e = l div 2 ^ k mod 2 ^ (i - k)" by (simp add: e_def minus_mult_div_eq_mod)
      then show "0 \<le> e" "e < 2 ^ (i - k)" by simp_all
    qed
    have "ancestorAt l 0 k = 2 ^ (k + 1) * e + 2 ^ (k + 1) * 2 ^ (i - k) * (l div 2 ^ i) + 2 ^ k - 1"
      by (simp add: ancestorAt_def nodeAt_def e_def algebra_simps)
    also have "(2 :: int) ^ (k + 1) * 2 ^ (i - k) = 2 ^ (i + 1)" using \<open>k \<le> i\<close> by (simp flip: power_add)
    finally have a: "ancestorAt l 0 k = 2 ^ (k + 1) * e + 2 ^ (i + 1) * (l div 2 ^ i) + 2 ^ k - 1" .
    have lo: "0 \<le> 2 ^ (k + 1) * e" using e(1) by simp
    have "2 ^ (k + 1) * (e + 1) \<le> 2 ^ (k + 1) * 2 ^ (i - k)" using e(2) by (intro mult_left_mono) auto
    also have "(2 :: int) ^ (k + 1) * 2 ^ (i - k) = 2 ^ (i + 1)" using \<open>k \<le> i\<close> by (simp flip: power_add)
    finally have hi: "2 ^ (k + 1) * e + 2 ^ (k + 1) \<le> 2 ^ (i + 1)" by (simp add: algebra_simps)
    have p: "(0 :: int) < 2 ^ k" "(0 :: int) < 2 ^ (i + 1)" "(2 :: int) ^ (k + 1) = 2 * 2 ^ k" by simp_all
    have b: "ancestorAt l 0 j = 2 ^ (i + 1) * (2 * ?m + 1) - 1"
      by (simp add: i ancestorAt_def nodeAt_def algebra_simps)
    show ?thesis
      using half
    proof
      assume h: "l div 2 ^ i = 2 * ?m"
      have "ancestorAt l 0 k < ancestorAt l 0 j" unfolding a b h distrib_left using hi p by linarith
      then show ?thesis using h by simp
    next
      assume h: "l div 2 ^ i = 2 * ?m + 1"
      have "\<not> ancestorAt l 0 k < ancestorAt l 0 j" unfolding a b h distrib_left using lo p by linarith
      then show ?thesis using h by simp
    qed
  qed
  moreover have "copathAt l 0 (j - 1) = nodeAt i (if l div 2 ^ i = 2 * ?m then 2 * ?m + 1 else 2 * ?m)"
    using half by (auto simp: copathAt_def flip_def i)
  ultimately show ?thesis
    using left_nodeAt [OF m] right_nodeAt [OF m d(2)] by (simp add: i ancestorAt_def)
qed

lemma copath_off_path:
  assumes "0 \<le> l" "l < 2 ^ d" "k < d" "under k (flip (l div 2 ^ k)) i"
  shows "i \<noteq> ancestorAt l 0 j"
proof
  assume i: "i = ancestorAt l 0 j"
  obtain a q where aq: "a \<le> k" "0 \<le> q" "i = nodeAt a q" "q div 2 ^ (k - a) = flip (l div 2 ^ k)"
    using assms(4) by (auto simp: under_def)
  have "nodeAt a q = nodeAt j (l div 2 ^ j)" using aq(3) i by (simp add: ancestorAt_def)
  then have "q = l div 2 ^ a" using nodeAt_inj [of a q j "l div 2 ^ j"] aq(2) assms(1) by (auto simp: pos_imp_zdiv_nonneg_iff)
  then have "q div 2 ^ (k - a) = l div 2 ^ k" using div_pow_diff [OF aq(1)] by simp
  then show False using aq(4) flip_neq [of "l div 2 ^ k"] by simp
qed

section \<open>Parent hashes along the path\<close>

text \<open>Two trees that may differ at the nodes of the path up to level \<open>k\<close> only.\<close>

definition sameAbove :: "nat \<Rightarrow> int \<Rightarrow> nat \<Rightarrow> ratchetTree \<Rightarrow> ratchetTree \<Rightarrow> bool" where
  "sameAbove d l k s t \<longleftrightarrow> full d s \<and> full d t \<and>
     (\<forall>i. (\<forall>j\<le>k. i \<noteq> ancestorAt l 0 j) \<longrightarrow> sparse_get s i = sparse_get t i)"

lemma sameAbove_path:
  "sameAbove d l k s t \<Longrightarrow> 0 \<le> l \<Longrightarrow> k < j \<Longrightarrow> sparse_get s (ancestorAt l 0 j) = sparse_get t (ancestorAt l 0 j)"
  unfolding sameAbove_def using path_inj by (metis not_less)

lemma traverse_sameAbove:
  assumes s: "sameAbove d l k s t" and l: "0 \<le> l" "l < 2 ^ d"
  shows "k \<le> i \<Longrightarrow> i \<le> d \<Longrightarrow>
    traverse_loop s (ancestorAt l 0 d) f (ancestorAt l 0 i) = traverse_loop t (ancestorAt l 0 d) f (ancestorAt l 0 i)"
proof (induction "d - i" arbitrary: i)
  case 0
  then have "i = d" by simp
  then show ?case by (subst (1 2) traverse_loop.simps) simp
next
  case (Suc n)
  then have i: "i < d" by simp
  have f: "full d s" "full d t" using s by (simp_all add: sameAbove_def)
  have "traverse_loop s (ancestorAt l 0 d) f (ancestorAt l 0 (Suc i)) =
      traverse_loop t (ancestorAt l 0 d) f (ancestorAt l 0 (Suc i))"
    using Suc.hyps(1) [of "Suc i"] Suc.hyps(2) Suc.prems i by simp
  then show ?case
    using path_parent [OF f(1) l i] path_parent [OF f(2) l i] sameAbove_path [OF s l(1), of "Suc i"] Suc.prems(1)
    by (subst (1 2) traverse_loop.simps) (simp split: option.splits ratchetNode.splits)
qed

lemma traverse_found:
  assumes t: "full d t" and l: "0 \<le> l" "l < 2 ^ d"
  shows "i \<le> d \<Longrightarrow> traverse_loop t (ancestorAt l 0 d) (\<lambda>p _. Inr (Some p)) (ancestorAt l 0 i) = Inr (Some (x, p)) \<Longrightarrow>
    \<exists>j. i < j \<and> j \<le> d \<and> x = ancestorAt l 0 j"
proof (induction "d - i" arbitrary: i)
  case 0
  then show ?case by (subst (asm) traverse_loop.simps) simp
next
  case (Suc n)
  then have i: "i < d" by simp
  have ne: "ancestorAt l 0 i \<noteq> ancestorAt l 0 d" using path_inj [OF l(1)] i by blast
  show ?case
  proof (cases "sparse_get t (ancestorAt l 0 (Suc i))")
    case None
    then have "traverse_loop t (ancestorAt l 0 d) (\<lambda>p _. Inr (Some p)) (ancestorAt l 0 (Suc i)) = Inr (Some (x, p))"
      using Suc.prems(2) path_parent [OF t l i] ne by (subst (asm) traverse_loop.simps) simp
    then have "\<exists>j. Suc i < j \<and> j \<le> d \<and> x = ancestorAt l 0 j"
      using Suc.hyps(1) [of "Suc i"] Suc.hyps(2) i by simp
    then show ?thesis using Suc_lessD by blast
  next
    case (Some n)
    then have "x = ancestorAt l 0 (Suc i)"
      using Suc.prems(2) path_parent [OF t l i] ne by (subst (asm) traverse_loop.simps) (auto split: ratchetNode.splits)
    then show ?thesis using i by auto
  qed
qed

lemma findFirst_path:
  assumes t: "full d t" and l: "0 \<le> l" "l < 2 ^ d" and k: "k < d"
    and p: "findFirstNonBlankAncestor t (ancestorAt l 0 k) = Inr p"
  shows "\<exists>j. k < j \<and> j \<le> d \<and> p = ancestorAt l 0 j"
proof -
  obtain z where z: "traverse_loop t (ancestorAt l 0 d) (\<lambda>p _. Inr (Some p)) (ancestorAt l 0 k) = Inr z"
      "p = (case z of Some (i, _) \<Rightarrow> i | None \<Rightarrow> ancestorAt l 0 d)"
    using p unfolding findFirstNonBlankAncestor_def traverseToRoot_def path_root [OF t l]
    by (auto simp: res_bind_eq_Inr)
  show ?thesis
  proof (cases z)
    case None
    then show ?thesis using z(2) k by auto
  next
    case (Some y)
    then obtain x q where y: "z = Some (x, q)" by (cases y) auto
    then show ?thesis using traverse_found [OF t l, of k x q] z k by auto
  qed
qed

lemma removeLeaves_get:
  assumes t: "full d t" and ne: "sparse_get t i = Some (NodeParent n)" "\<not> isLeaf i"
  shows "\<exists>t'. removeLeaves t ls = Inr t' \<and> (\<forall>j. sparse_get t' j = (case sparse_get t j of
     None \<Rightarrow> None
   | Some nd \<Rightarrow> if isLeaf j \<and> j div 2 \<in> set ls then None
       else (case nd of
           NodeParent p \<Rightarrow> Some (NodeParent (p\<lparr>pn_unmergedLeaves := filter (\<lambda>l. l \<notin> set ls) (pn_unmergedLeaves p)\<rparr>))
         | NodeLeaf _ \<Rightarrow> Some nd)))"
proof -
  let ?g = "\<lambda>(i, n). case n of None \<Rightarrow> None
     | Some nd \<Rightarrow> if isLeaf (int i) \<and> int i div 2 \<in> set ls then None
         else (case nd of
             NodeParent p \<Rightarrow> Some (NodeParent (p\<lparr>pn_unmergedLeaves := filter (\<lambda>l. l \<notin> set ls) (pn_unmergedLeaves p)\<rparr>))
           | NodeLeaf _ \<Rightarrow> n)"
  let ?w = "map ?g (enumerate 0 t)"
  have get: "sparse_get ?w j = (case sparse_get t j of
     None \<Rightarrow> None
   | Some nd \<Rightarrow> if isLeaf j \<and> j div 2 \<in> set ls then None
       else (case nd of
           NodeParent p \<Rightarrow> Some (NodeParent (p\<lparr>pn_unmergedLeaves := filter (\<lambda>l. l \<notin> set ls) (pn_unmergedLeaves p)\<rparr>))
         | NodeLeaf _ \<Rightarrow> Some nd))" for j
    by (auto simp: sparse_get_def nth_enumerate_eq split: option.splits)
  have "full d ?w" using t by (simp add: full_def)
  moreover have "sparse_get ?w i \<noteq> None" unfolding get using ne by simp
  ultimately obtain e t' where t': "condenseRatchetTreeAfterRemove ?w = Inr t'" "\<forall>j. sparse_get t' j = sparse_get ?w j"
    using condense_full [of d ?w] by blast
  have "removeLeaves t ls = condenseRatchetTreeAfterRemove ?w" unfolding removeLeaves_def by (rule refl)
  then show ?thesis using t' get by auto
qed

lemma parentHashOf_sameAbove:
  assumes s: "sameAbove d l k s t" and l: "0 \<le> l" "l < 2 ^ d" and k: "k \<le> d"
  shows "parentHashOf digest s (ancestorAt l 0 k) = parentHashOf digest t (ancestorAt l 0 k)"
proof (cases "k = d")
  case True
  have "full d s" "full d t" using s by (simp_all add: sameAbove_def)
  then show ?thesis using True path_root [OF _ l] by (simp add: parentHashOf_def)
next
  case False
  then have kd: "k < d" using k by simp
  have fs: "full d s" and ft: "full d t" using s by (simp_all add: sameAbove_def)
  note rs = path_root [OF fs l] and rt = path_root [OF ft l]
  have ff: "findFirstNonBlankAncestor s (ancestorAt l 0 k) = findFirstNonBlankAncestor t (ancestorAt l 0 k)"
    unfolding findFirstNonBlankAncestor_def traverseToRoot_def rs rt traverse_sameAbove [OF s l order.refl k] by (rule refl)
  show ?thesis
  proof (cases "findFirstNonBlankAncestor t (ancestorAt l 0 k)")
    case (Inl e)
    then show ?thesis using ff by (simp add: parentHashOf_def rs rt)
  next
    case (Inr p)
    obtain j where j: "k < j" "j \<le> d" "p = ancestorAt l 0 j" using findFirst_path [OF ft l kd Inr] by blast
    have same: "sparse_get s p = sparse_get t p" using sameAbove_path [OF s l(1) j(1)] j(3) by simp
    have sib: "(if ancestorAt l 0 k < p then right p else left p) = Inr (copathAt l 0 (j - 1))"
      unfolding j(3) by (rule path_sibling [OF ft l j(1,2)])
    have off: "sparse_get s i = sparse_get t i" if "under (j - 1) (flip (l div 2 ^ (j - 1))) i" for i
      using s copath_off_path [OF l _ that] j by (auto simp: sameAbove_def)
    have nl: "\<not> isLeaf p" using j by (simp add: ancestorAt_def)
    have inC: "inTree d (j - 1) (flip (l div 2 ^ (j - 1)))"
      using inTree_flip [OF inTree_path [OF l, of "j - 1"]] j by simp
    have hash: "res_bind (if pn_unmergedLeaves n = [] then Inr s else removeLeaves s (pn_unmergedLeaves n))
          (\<lambda>t. treeHashSpec digest t (copathAt l 0 (j - 1))) =
        res_bind (if pn_unmergedLeaves n = [] then Inr t else removeLeaves t (pn_unmergedLeaves n))
          (\<lambda>t. treeHashSpec digest t (copathAt l 0 (j - 1)))"
      if n: "sparse_get t p = Some (NodeParent n)" for n
    proof (cases "pn_unmergedLeaves n = []")
      case True
      then show ?thesis using treeHashSpec_local [OF full_depth [OF ft] inC, of s t] off by (simp add: copathAt_def)
    next
      case False
      obtain s' where s': "removeLeaves s (pn_unmergedLeaves n) = Inr s'" "\<forall>j. sparse_get s' j = (case sparse_get s j of
           None \<Rightarrow> None
         | Some nd \<Rightarrow> if isLeaf j \<and> j div 2 \<in> set (pn_unmergedLeaves n) then None
             else (case nd of NodeParent p \<Rightarrow> Some (NodeParent (p\<lparr>pn_unmergedLeaves :=
                 filter (\<lambda>l. l \<notin> set (pn_unmergedLeaves n)) (pn_unmergedLeaves p)\<rparr>))
               | NodeLeaf _ \<Rightarrow> Some nd))"
        using removeLeaves_get [OF fs _ nl] n same by metis
      obtain t' where t': "removeLeaves t (pn_unmergedLeaves n) = Inr t'" "\<forall>j. sparse_get t' j = (case sparse_get t j of
           None \<Rightarrow> None
         | Some nd \<Rightarrow> if isLeaf j \<and> j div 2 \<in> set (pn_unmergedLeaves n) then None
             else (case nd of NodeParent p \<Rightarrow> Some (NodeParent (p\<lparr>pn_unmergedLeaves :=
                 filter (\<lambda>l. l \<notin> set (pn_unmergedLeaves n)) (pn_unmergedLeaves p)\<rparr>))
               | NodeLeaf _ \<Rightarrow> Some nd))"
        using removeLeaves_get [OF ft n nl] by metis
      have "sparse_get s' i = sparse_get t' i" if "under (j - 1) (flip (l div 2 ^ (j - 1))) i" for i
        using off [OF that] s'(2) t'(2) by simp
      then have "treeHashSpec digest s' (copathAt l 0 (j - 1)) = treeHashSpec digest t' (copathAt l 0 (j - 1))"
        using treeHashSpec_local [OF full_depth [OF ft] inC, of s' t'] by (simp add: copathAt_def)
      then show ?thesis using False s'(1) t'(1) by simp
    qed
    have ne: "ancestorAt l 0 k \<noteq> ancestorAt l 0 d" using path_inj [OF l(1)] kd by blast
    show ?thesis unfolding parentHashOf_def rs rt ff Inr res_bind_Inr sib same using ne hash
      by (auto split: option.splits ratchetNode.splits)
  qed
qed

section \<open>The cache and the path\<close>

lemma subtreeHash_dom:
  assumes d: "d \<le> 30"
  shows "inTree d k m \<Longrightarrow> subtreeHash digest t (nodeAt k m) c = Inr (v, c') \<Longrightarrow> c' i = c i \<or> under k m i"
proof (induction k arbitrary: m c v c')
  case (0 m)
  have "c' = c \<or> (\<exists>w. c' = c(nodeAt 0 m \<mapsto> w))"
    using 0(2) by (subst (asm) subtreeHash.simps)
      (auto simp: isLeaf_def Let_def res_bind_eq_Inr split: option.splits ratchetNode.splits)
  then show ?case using under_self [of m 0] 0(1) by (auto simp: inTree_def)
next
  case (Suc k m)
  have m: "0 \<le> m" "nodeAt (Suc k) m < 2147483648" "k \<le> 29"
    using Suc.prems(1) inTree_small [OF Suc.prems(1) d] d by (auto simp: inTree_def)
  note ch = inTree_children [OF Suc.prems(1)]
  show ?case
  proof (cases "c (nodeAt (Suc k) m)")
    case (Some w)
    then show ?thesis using Suc.prems(2) by (subst (asm) subtreeHash.simps) auto
  next
    case None
    then obtain v1 c1 v2 c2 w where
      lc: "subtreeHash digest t (nodeAt k (2 * m)) c = Inr (v1, c1)"
      and rc: "subtreeHash digest t (nodeAt k (2 * m + 1)) c1 = Inr (v2, c2)"
      and c': "c' = c2(nodeAt (Suc k) m \<mapsto> w)"
      using Suc.prems(2) left_nodeAt [OF m(1,2)] right_nodeAt [OF m]
      by (subst (asm) subtreeHash.simps)
        (auto simp: Let_def res_bind_eq_Inr split: option.splits ratchetNode.splits)
    then show ?thesis
      using c' Suc.IH [OF ch(1) lc] Suc.IH [OF ch(2) rc] under_child [of k "2 * m" i] under_child [of k "2 * m + 1" i]
        under_self [OF m(1), of "Suc k"] by auto
  qed
qed

definition offPath :: "nat \<Rightarrow> int \<Rightarrow> 'h hashEntry option \<Rightarrow> bool" where
  "offPath d l entry \<longleftrightarrow> (\<forall>h c i v. entry = Some (h, c) \<longrightarrow> c i = Some v \<longrightarrow>
     (\<exists>k m. inTree d k m \<and> i = nodeAt k m) \<and> \<not> touched d [l] i)"

definition pathEntry :: "('h \<Rightarrow> bytes \<Rightarrow> bytes) \<Rightarrow> nat \<Rightarrow> int \<Rightarrow> ratchetTree \<Rightarrow> 'h hashEntry option \<Rightarrow> bool" where
  "pathEntry digest d l t entry \<longleftrightarrow> soundEntry digest t entry \<and> offPath d l entry"

lemma under_inTree:
  assumes "inTree d k m" "under k m i"
  shows "\<exists>a b. inTree d a b \<and> i = nodeAt a b"
proof -
  obtain a b where ab: "a \<le> k" "0 \<le> b" "i = nodeAt a b" "b div 2 ^ (k - a) = m"
    using assms(2) by (auto simp: under_def)
  have e: "b = m * 2 ^ (k - a) + b mod 2 ^ (k - a)" using div_mult_mod_eq [of b "2 ^ (k - a)"] ab(4) by simp
  have r: "b mod 2 ^ (k - a) < 2 ^ (k - a)" by simp
  have "(m + 1) * 2 ^ (k - a) \<le> 2 ^ (d - k) * 2 ^ (k - a)"
    using assms(1) by (intro mult_right_mono) (auto simp: inTree_def)
  also have "(2 :: int) ^ (d - k) * 2 ^ (k - a) = 2 ^ (d - a)"
    using assms(1) ab(1) by (simp add: inTree_def flip: power_add)
  finally have "m * 2 ^ (k - a) + 2 ^ (k - a) \<le> 2 ^ (d - a)" by (simp add: algebra_simps)
  then have "b < 2 ^ (d - a)" using e r by linarith
  then have "inTree d a b" using ab(1,2) assms(1) by (simp add: inTree_def)
  then show ?thesis using ab(3) by blast
qed

lemma pathEntry_write:
  assumes e: "pathEntry digest d l t entry" and d: "d \<le> 30" and l: "0 \<le> l"
    and same: "\<And>i. \<not> touched d [l] i \<Longrightarrow> sparse_get t' i = sparse_get t i"
  shows "pathEntry digest d l t' entry"
proof (cases entry)
  case (Some z)
  then obtain h c where z: "entry = Some (h, c)" by (cases z) auto
  have "treeHashSpec (digest h) t' i = Inr v" if ci: "c i = Some v" for i v
  proof -
    obtain k m where km: "inTree d k m" "i = nodeAt k m" "\<not> touched d [l] i"
      using e z ci by (auto simp: pathEntry_def offPath_def)
    have "sparse_get t' j = sparse_get t j" if "under k m j" for j
      using touched_above [OF km(1) that, of "[l]"] km(2,3) same [of j] l by auto
    then have "treeHashSpec (digest h) t' i = treeHashSpec (digest h) t i"
      using treeHashSpec_local [OF d km(1), of t' t] km(2) by blast
    then show ?thesis using e z ci by (auto simp: pathEntry_def soundEntry_def soundCache_def)
  qed
  then show ?thesis using e z by (auto simp: pathEntry_def soundEntry_def soundCache_def)
qed (simp add: pathEntry_def offPath_def)

lemma treeHash_offPath:
  assumes d: "d \<le> 30" and l: "0 \<le> l" "l < 2 ^ d" and k: "k < d" and e: "offPath d l entry"
    and h: "treeHash digest t (copathAt l 0 k) h entry = Inr (v, entry')"
  shows "offPath d l entry'"
proof -
  obtain c' where c': "entry' = Some (h, c')" "subtreeHash (digest h) t (copathAt l 0 k) (hashesOf entry h) = Inr (v, c')"
    using h by (auto simp: treeHash_def res_map_eq_Inr)
  have inC: "inTree d k (flip (l div 2 ^ k))" using inTree_flip [OF inTree_path [OF l, of k] k] k by simp
  have "(\<exists>a b. inTree d a b \<and> i = nodeAt a b) \<and> \<not> touched d [l] i" if "c' i = Some w" for i w
  proof -
    have "c' i = hashesOf entry h i \<or> under k (flip (l div 2 ^ k)) i"
      using subtreeHash_dom [OF d inC, of "digest h" t "hashesOf entry h" v c'] c'(2) by (simp add: copathAt_def)
    then show ?thesis
    proof
      assume "c' i = hashesOf entry h i"
      then have "\<exists>c. entry = Some (h, c) \<and> c i = Some w"
        using that by (auto simp: hashesOf_def split: option.splits if_splits)
      then show ?thesis using e unfolding offPath_def by blast
    next
      assume u: "under k (flip (l div 2 ^ k)) i"
      then show ?thesis using under_inTree [OF inC u] copath_off_path [OF l k u] touched_path [OF l(1)] by blast
    qed
  qed
  then show ?thesis by (auto simp: offPath_def c'(1))
qed

lemma calculateParentHash_path:
  assumes t: "full d t" and l: "0 \<le> l" "l < 2 ^ d" and k: "k \<le> d" and e: "pathEntry digest d l t entry"
    and c: "calculateParentHash digest t (ancestorAt l 0 k) h entry = Inr (r, entry')"
  shows "parentHashOf (digest h) t (ancestorAt l 0 k) = Inr r \<and> pathEntry digest d l t entry'"
proof -
  have "soundEntry digest t entry" using e by (simp add: pathEntry_def)
  from calculateParentHash_sound [OF this, of "ancestorAt l 0 k" h] c
  have s: "parentHashOf (digest h) t (ancestorAt l 0 k) = Inr r" "soundEntry digest t entry'" by simp_all
  have "offPath d l entry'"
  proof (cases "k = d \<or> entry' = entry")
    case True
    then show ?thesis using c e path_root [OF t l] by (auto simp: calculateParentHash_def pathEntry_def Let_def)
  next
    case False
    then have kd: "k < d" and ne: "ancestorAt l 0 k \<noteq> ancestorAt l 0 d" using k path_inj [OF l(1)] by auto
    obtain p where p: "findFirstNonBlankAncestor t (ancestorAt l 0 k) = Inr p"
      using c ne path_root [OF t l] by (auto simp: calculateParentHash_def Let_def res_bind_eq_Inr split: if_splits)
    obtain j where j: "k < j" "j \<le> d" "p = ancestorAt l 0 j" using findFirst_path [OF t l kd p] by blast
    have sib: "(if ancestorAt l 0 k < p then right p else left p) = Inr (copathAt l 0 (j - 1))"
      unfolding j(3) by (rule path_sibling [OF t l j(1,2)])
    have "\<exists>v. treeHash digest t (copathAt l 0 (j - 1)) h entry = Inr (v, entry')"
      using c False ne unfolding calculateParentHash_def path_root [OF t l] Let_def p res_bind_Inr sib
      by (auto simp: res_bind_eq_Inr res_map_eq_Inr split: if_splits option.splits ratchetNode.splits)
    then show ?thesis using treeHash_offPath [OF full_depth [OF t] l, of "j - 1" entry digest t h] e j
      by (auto simp: pathEntry_def)
  qed
  then show ?thesis using s by (simp add: pathEntry_def)
qed

lemma calculateParentHash_defined:
  assumes "pathEntry digest d l t entry" "parentHashOf (digest h) t i = Inr r"
  shows "\<exists>entry'. calculateParentHash digest t i h entry = Inr (r, entry')"
proof -
  have "soundEntry digest t entry" using assms(1) by (simp add: pathEntry_def)
  from calculateParentHash_sound [OF this, of i h] assms(2) show ?thesis
    by (cases "calculateParentHash digest t i h entry") (auto simp: tracks_def)
qed

section \<open>The two walks from the root\<close>

definition differAt :: "nat \<Rightarrow> int \<Rightarrow> nat set \<Rightarrow> ratchetTree \<Rightarrow> ratchetTree \<Rightarrow> bool" where
  "differAt d l js a b \<longleftrightarrow> full d a \<and> full d b \<and>
     (\<forall>i. i \<notin> ancestorAt l 0 ` js \<longrightarrow> sparse_get a i = sparse_get b i)"

lemma differAt_above: "differAt d l js a b \<Longrightarrow> js \<subseteq> {..k} \<Longrightarrow> sameAbove d l k a b"
  by (auto simp: differAt_def sameAbove_def)

lemma full_setNode [simp]: "full d (setNode t i n) \<longleftrightarrow> full d t"
  by (simp add: full_def)

lemma path_write_get:
  assumes "full d t" "0 \<le> l" "l < 2 ^ d" "k \<le> d"
  shows "sparse_get (setNode t (ancestorAt l 0 k) n) i = (if i = ancestorAt l 0 k then n else sparse_get t i)"
  using sparse_get_setNode path_index [OF assms] by blast

lemma differAt_write:
  assumes "differAt d l js a b" "0 \<le> l" "l < 2 ^ d" "k \<le> d"
  shows "differAt d l (js - {k}) (setNode a (ancestorAt l 0 k) n) (setNode b (ancestorAt l 0 k) n)"
  using assms path_write_get [of d a l k n] path_write_get [of d b l k n] by (auto simp: differAt_def)

lemma pathEntry_path_write:
  assumes "pathEntry digest d l t entry" "full d t" "0 \<le> l" "l < 2 ^ d" "k \<le> d"
  shows "pathEntry digest d l (setNode t (ancestorAt l 0 k) n) entry"
proof (rule pathEntry_write [OF assms(1) full_depth [OF assms(2)] assms(3)])
  fix i assume "\<not> touched d [l] i"
  then have "i \<noteq> ancestorAt l 0 k" using touched_path [OF assms(3)] assms(5) by blast
  then show "sparse_get (setNode t (ancestorAt l 0 k) n) i = sparse_get t i"
    using path_write_get [OF assms(2-5)] by simp
qed

text \<open>What the walk has done to an array: new nodes with the given keys, nothing else.\<close>

definition walked :: "int \<Rightarrow> (nat \<Rightarrow> bytes) \<Rightarrow> nat set \<Rightarrow> ratchetTree \<Rightarrow> ratchetTree \<Rightarrow> bool" where
  "walked l pk js t t' \<longleftrightarrow> (\<forall>i. i \<notin> ancestorAt l 0 ` js \<longrightarrow> sparse_get t' i = sparse_get t i) \<and>
     (\<forall>j\<in>js. \<exists>ph. sparse_get t' (ancestorAt l 0 j) =
        Some (NodeParent \<lparr>pn_hpkePublicKey = pk j, pn_parentHash = ph, pn_unmergedLeaves = []\<rparr>))"

lemma walked_step:
  assumes w: "walked l pk js (setNode t (ancestorAt l 0 k) (Some (NodeParent
      \<lparr>pn_hpkePublicKey = pk k, pn_parentHash = ph, pn_unmergedLeaves = []\<rparr>))) t'"
    and t: "full d t" "0 \<le> l" "l < 2 ^ d" "k \<le> d" "k \<notin> js"
  shows "walked l pk (insert k js) t t'"
proof -
  have "ancestorAt l 0 k \<notin> ancestorAt l 0 ` js" using path_inj [OF t(2)] t(5) by blast
  then show ?thesis using w path_write_get [OF t(1-4)] by (auto simp: walked_def)
qed

lemma walks_agree:
  assumes l: "0 \<le> l" "l < 2 ^ d"
  shows "sorted_wrt (>) ks \<Longrightarrow> set ks \<subseteq> {1..d} \<Longrightarrow> differAt d l (insert 0 (set ks)) a b \<Longrightarrow>
    pathEntry digest d l a ea \<Longrightarrow> pathEntry digest d l b eb \<Longrightarrow>
    \<forall>j\<in>set ks. \<exists>ph. sparse_get a (ancestorAt l 0 j) =
      Some (NodeParent \<lparr>pn_hpkePublicKey = pk j, pn_parentHash = ph, pn_unmergedLeaves = []\<rparr>) \<Longrightarrow>
    map upn_hpkePublicKey nodes = map pk ks \<Longrightarrow>
    res_foldM (insertParentHash digest h) (a, ea) (map (\<lambda>j. (ancestorAt l 0 j, R j)) ks) = Inr (a', ea') \<Longrightarrow>
    \<exists>b' eb'. writePath digest h (zip (map (ancestorAt l 0) ks) nodes) (b, eb) = Inr (b', eb') \<and>
      differAt d l {0} a' b' \<and> pathEntry digest d l a' ea' \<and> pathEntry digest d l b' eb' \<and>
      walked l pk (set ks) a a' \<and> walked l pk (set ks) b b'"
proof (induction ks arbitrary: a ea b eb nodes)
  case Nil
  then show ?case by (simp add: walked_def)
next
  case (Cons k ks)
  let ?f = "ancestorAt l 0"
  have k: "1 \<le> k" "k \<le> d" "\<forall>j\<in>set ks. j < k" using Cons.prems(1,2) by auto
  have fa: "full d a" and fb: "full d b" using Cons.prems(3) by (simp_all add: differAt_def)
  obtain ph0 where node: "sparse_get a (?f k) = Some (NodeParent \<lparr>pn_hpkePublicKey = pk k, pn_parentHash = ph0, pn_unmergedLeaves = []\<rparr>)"
    using Cons.prems(6) by auto
  obtain r ea1 where r: "calculateParentHash digest a (?f k) h ea = Inr (r, ea1)"
    using Cons.prems(8) by (cases "calculateParentHash digest a (?f k) h ea") (auto simp: insertParentHash_def)
  let ?n = "Some (NodeParent \<lparr>pn_hpkePublicKey = pk k, pn_parentHash = fst r, pn_unmergedLeaves = []\<rparr>)"
  have rest: "res_foldM (insertParentHash digest h) (setNode a (?f k) ?n, ea1) (map (\<lambda>j. (?f j, R j)) ks) = Inr (a', ea')"
    using Cons.prems(8) r node by (simp add: insertParentHash_def)
  note sa = calculateParentHash_path [OF fa l k(2) Cons.prems(4) r]
  have "sameAbove d l k a b" using differAt_above [OF Cons.prems(3)] k by fastforce
  then have "parentHashOf (digest h) b (?f k) = Inr r"
    using parentHashOf_sameAbove [OF _ l k(2)] sa by metis
  then obtain eb1 where rb: "calculateParentHash digest b (?f k) h eb = Inr (r, eb1)"
    using calculateParentHash_defined [OF Cons.prems(5)] by blast
  note sb = calculateParentHash_path [OF fb l k(2) Cons.prems(5) rb]
  obtain n ns where ns: "nodes = n # ns" "upn_hpkePublicKey n = pk k" "map upn_hpkePublicKey ns = map pk ks"
    using Cons.prems(7) by (cases nodes) auto
  have kk: "k \<notin> set ks" "k \<noteq> 0" using k by auto
  have diff: "differAt d l (insert 0 (set ks)) (setNode a (?f k) ?n) (setNode b (?f k) ?n)"
    using differAt_write [OF Cons.prems(3) l k(2), of ?n] kk by (simp add: insert_Diff_if)
  have keys: "\<forall>j\<in>set ks. \<exists>ph. sparse_get (setNode a (?f k) ?n) (?f j) =
      Some (NodeParent \<lparr>pn_hpkePublicKey = pk j, pn_parentHash = ph, pn_unmergedLeaves = []\<rparr>)"
    using Cons.prems(6) path_write_get [OF fa l k(2)] path_inj [OF l(1)] kk(1) by auto
  have tail: "sorted_wrt (>) ks" "set ks \<subseteq> {1..d}" using Cons.prems(1,2) by auto
  from Cons.IH [OF tail diff pathEntry_path_write [OF _ fa l k(2)] pathEntry_path_write [OF _ fb l k(2)] keys ns(3) rest]
    sa sb
  obtain b' eb' where b': "writePath digest h (zip (map ?f ks) ns) (setNode b (?f k) ?n, eb1) = Inr (b', eb')"
      "differAt d l {0} a' b'" "pathEntry digest d l a' ea'" "pathEntry digest d l b' eb'"
      "walked l pk (set ks) (setNode a (?f k) ?n) a'" "walked l pk (set ks) (setNode b (?f k) ?n) b'"
    by blast
  have "writePath digest h (zip (map ?f (k # ks)) nodes) (b, eb) = Inr (b', eb')"
    using rb b'(1) ns by simp
  then show ?case using b' walked_step [OF b'(5) fa l k(2) kk(1)] walked_step [OF b'(6) fb l k(2) kk(1)] by auto
qed

section \<open>The committer's new nodes\<close>

text \<open>The levels of the filtered direct path, and the resolution a secret of each is sent to.\<close>

definition sendResolution :: "ratchetTree \<Rightarrow> int \<Rightarrow> nat \<Rightarrow> int list" where
  "sendResolution t l k = resolutionOf t (copathAt l 0 (k - 1))"

definition filteredLevels :: "nat \<Rightarrow> ratchetTree \<Rightarrow> int \<Rightarrow> nat list" where
  "filteredLevels d t l = filter (\<lambda>k. sendResolution t l k \<noteq> []) [1..<Suc d]"

lemma filtered_levels:
  assumes "wfTree d t" "0 \<le> l" "l < 2 ^ d"
  shows "filteredDirectPathAndCopathResolution l t =
      Inr (map (\<lambda>k. (ancestorAt l 0 k, sendResolution t l k)) (filteredLevels d t l))"
    and "filteredDirectPath l t = Inr (map (ancestorAt l 0) (filteredLevels d t l))"
proof -
  have "[1..<Suc d] = map Suc [0..<d]" by (simp add: map_Suc_upt)
  then have "map (\<lambda>k. (ancestorAt l 0 k, sendResolution t l k)) (filteredLevels d t l) =
      filter (\<lambda>(_, r). r \<noteq> []) (map (\<lambda>j. (ancestorAt l 0 (Suc j), resolutionOf t (copathAt l 0 j))) [0..<d])"
    by (simp add: filteredLevels_def sendResolution_def filter_map comp_def case_prod_beta)
  then show a: "filteredDirectPathAndCopathResolution l t =
      Inr (map (\<lambda>k. (ancestorAt l 0 k, sendResolution t l k)) (filteredLevels d t l))"
    using filtered_spec [OF assms] by simp
  show "filteredDirectPath l t = Inr (map (ancestorAt l 0) (filteredLevels d t l))"
    unfolding filtered_agree a by (simp add: comp_def)
qed

lemma filteredLevels_sorted: "sorted_wrt (<) (filteredLevels d t l)" and filteredLevels_range: "set (filteredLevels d t l) \<subseteq> {1..d}"
  by (auto simp: filteredLevels_def intro: sorted_wrt_filter simp del: upt_Suc)

fun secretChain :: "kdfImpl \<Rightarrow> bytes \<Rightarrow> bytes list \<Rightarrow> bool" where
  "secretChain kdf s [] \<longleftrightarrow> True"
| "secretChain kdf s (x # xs) \<longleftrightarrow> deriveSecret s ''path'' kdf = Inr x \<and> secretChain kdf x xs"

text \<open>The key pair of a path secret.\<close>

definition nodeKeyPair :: "('pub, 'priv, 'sk) ciphersuiteImpl \<Rightarrow> bytes \<Rightarrow> ('priv \<times> 'pub) result" where
  "nodeKeyPair cs secret = res_map (hpke_deriveKeyPair (cs_hpke cs)) (deriveSecret secret ''node'' (cs_kdf cs))"

definition derivesTo :: "('pub, 'priv, 'sk) ciphersuiteImpl \<Rightarrow> bytes \<Rightarrow> bytes \<Rightarrow> bool" where
  "derivesTo cs secret key \<longleftrightarrow> (\<exists>priv pub. nodeKeyPair cs secret = Inr (priv, pub) \<and>
     hpke_exportPublicKey (cs_hpke cs) pub = key)"

lemma list_all2_mono_set: "list_all2 P xs ys \<Longrightarrow> (\<And>x y. y \<in> set ys \<Longrightarrow> P x y \<Longrightarrow> Q x y) \<Longrightarrow> list_all2 Q xs ys"
  by (auto simp: list_all2_conv_all_nth)

lemma walked_cong: "(\<And>j. j \<in> js \<Longrightarrow> pk j = pk' j) \<Longrightarrow> walked l pk js t t' \<longleftrightarrow> walked l pk' js t t'"
  by (simp add: walked_def)

lemma initialUpdate_fold:
  assumes l: "0 \<le> l" "l < 2 ^ d"
  shows "distinct ks \<Longrightarrow> set ks \<subseteq> {1..d} \<Longrightarrow> full d t \<Longrightarrow> acc \<noteq> [] \<Longrightarrow>
    res_foldM (\<lambda>(pathSecrets, tree) (nodeIndex, res).
         let lastPathSecret = hd pathSecrets in
         res_bind (deriveSecret (ps_secret lastPathSecret) ''path'' (cs_kdf cs)) (\<lambda>nextPathSecret.
         res_bind (deriveSecret nextPathSecret ''node'' (cs_kdf cs)) (\<lambda>nextNodeSecret.
         let publicKey = snd (hpke_deriveKeyPair (cs_hpke cs) nextNodeSecret);
             tree' = setNode tree nodeIndex (Some (NodeParent
               \<lparr>pn_hpkePublicKey = hpke_exportPublicKey (cs_hpke cs) publicKey, pn_parentHash = [],
                pn_unmergedLeaves = []\<rparr>))
         in Inr (\<lparr>ps_nodeIndex = nodeIndex, ps_secret = nextPathSecret, ps_sendTo = res\<rparr> # pathSecrets, tree'))))
      (acc, t) (map (\<lambda>k. (ancestorAt l 0 k, R k)) ks) = Inr (ps, t1) \<Longrightarrow>
    \<exists>new pk. ps = rev new @ acc \<and> map ps_nodeIndex new = map (ancestorAt l 0) ks \<and> map ps_sendTo new = map R ks \<and>
      secretChain (cs_kdf cs) (ps_secret (hd acc)) (map ps_secret new) \<and> full d t1 \<and> walked l pk (set ks) t t1 \<and>
      list_all2 (\<lambda>p k. derivesTo cs (ps_secret p) (pk k)) new ks"
proof (induction ks arbitrary: acc t)
  case Nil
  then show ?case by (simp add: walked_def)
next
  case (Cons k ks)
  obtain s n where s: "deriveSecret (ps_secret (hd acc)) ''path'' (cs_kdf cs) = Inr s" "deriveSecret s ''node'' (cs_kdf cs) = Inr n"
    using Cons.prems(5) by (auto simp: Let_def res_bind_eq_Inr)
  let ?key = "hpke_exportPublicKey (cs_hpke cs) (snd (hpke_deriveKeyPair (cs_hpke cs) n))"
  let ?p = "\<lparr>ps_nodeIndex = ancestorAt l 0 k, ps_secret = s, ps_sendTo = R k\<rparr>"
  let ?t = "setNode t (ancestorAt l 0 k) (Some (NodeParent \<lparr>pn_hpkePublicKey = ?key, pn_parentHash = [], pn_unmergedLeaves = []\<rparr>))"
  have k: "k \<notin> set ks" "k \<le> d" and f: "full d t" using Cons.prems by auto
  have "\<exists>new pk. ps = rev new @ (?p # acc) \<and> map ps_nodeIndex new = map (ancestorAt l 0) ks \<and> map ps_sendTo new = map R ks \<and>
      secretChain (cs_kdf cs) (ps_secret (hd (?p # acc))) (map ps_secret new) \<and> full d t1 \<and> walked l pk (set ks) ?t t1 \<and>
      list_all2 (\<lambda>p k. derivesTo cs (ps_secret p) (pk k)) new ks"
    by (rule Cons.IH) (use Cons.prems s in \<open>auto simp: Let_def\<close>)
  then obtain new pk where new: "ps = rev new @ (?p # acc)" "map ps_nodeIndex new = map (ancestorAt l 0) ks"
    "map ps_sendTo new = map R ks" "secretChain (cs_kdf cs) s (map ps_secret new)" "full d t1" "walked l pk (set ks) ?t t1"
    "list_all2 (\<lambda>p k. derivesTo cs (ps_secret p) (pk k)) new ks" by auto
  obtain pk' where pk': "pk' k = ?key" "\<And>j. j \<in> set ks \<Longrightarrow> pk' j = pk j"
    using k(1) by (metis fun_upd_apply)
  have "walked l pk' (set ks) ?t t1" using new(6) walked_cong [of "set ks" pk pk'] pk'(2) by simp
  then have "walked l pk' (insert k (set ks)) t t1"
    using pk'(1) by (intro walked_step [OF _ f l k(2,1)]) simp
  moreover have "derivesTo cs s (pk' k)"
    using s(2) pk'(1) by (auto simp: derivesTo_def nodeKeyPair_def prod_eq_iff)
  moreover have "list_all2 (\<lambda>p k. derivesTo cs (ps_secret p) (pk' k)) new ks"
    using new(7) by (rule list_all2_mono_set) (simp add: pk'(2))
  ultimately show ?case using new(1-5) s(1) by (intro exI [of _ "?p # new"] exI [of _ pk']) simp
qed

lemma collectPathNodes_keys:
  "collectPathNodes tree ps cts = Inr nodes \<Longrightarrow>
    list_all2 (\<lambda>p n. publicKeyAt tree (ps_nodeIndex p) = Inr (upn_hpkePublicKey n)) ps nodes"
  by (induction ps arbitrary: cts nodes) (auto simp: Let_def res_bind_eq_Inr res_map_eq_Inr)

text \<open>The batches make no difference to the ciphertexts.\<close>

lemma encryptBatches_mapM: "encryptBatches f jobs = res_mapM f jobs"
proof (induction f jobs rule: encryptBatches.induct)
  case (1 f jobs)
  show ?case
  proof (cases "jobs = []")
    case False
    let ?n = MAX_CONCURRENT_ENCRYPTIONS
    have "res_mapM f jobs = res_mapM f (take ?n jobs @ drop ?n jobs)" by simp
    also have "\<dots> = res_bind (res_mapM f (take ?n jobs)) (\<lambda>a. res_map ((@) a) (res_mapM f (drop ?n jobs)))"
      unfolding res_mapM_append by (simp add: res_map_def)
    finally show ?thesis using 1 False
      by (subst encryptBatches.simps) (cases "res_mapM f (take ?n jobs)"; simp)
  qed (subst encryptBatches.simps, simp)
qed

section \<open>Agreement\<close>

lemma createUpdatePath_Inr:
  assumes "createUpdatePath digest h t e0 l gc sk cs excl patch secret = Inr (cp, e)"
  obtains old leafSecret path entry ps tree1 tree2 entry2 lph entry3 leaf th ns where
    "sparse_get t (leafToNodeIndex l) = Some (NodeLeaf old)"
    "deriveSecret secret ''node'' (cs_kdf cs) = Inr leafSecret"
    "filteredDirectPathAndCopathResolution l t = Inr path"
    "carryTreeHashes e0 t t [l] = Inr entry"
    "applyInitialTreeUpdate (map (\<lambda>(i, r). (i, filterNewLeaves r excl)) path) secret l t cs = Inr (ps, tree1)"
    "insertParentHashes digest h (map (\<lambda>(i, r). (i, filterNewLeaves r excl)) path) (tree1, entry) = Inr (tree2, entry2)"
    "calculateParentHash digest tree2 (leafToNodeIndex l) h entry2 = Inr (lph, entry3)"
    "signLeafNodeCommit (committerLeaf old (hpke_exportPublicKey (cs_hpke cs) (snd (hpke_deriveKeyPair (cs_hpke cs) leafSecret)))
       patch (fst lph) (gc_groupId gc) l)
      (case lp_signature patch of None \<Rightarrow> sk | Some (_, sk) \<Rightarrow> sk) (cs_signature cs) = Inr leaf"
    "cp_tree cp = setNode tree2 (leafToNodeIndex l) (Some (NodeLeaf leaf))"
    "treeHashRoot digest (cp_tree cp) h entry3 = Inr (th, e)"
    "encryptSecretsForPath (rev (take (length ps - 1) ps)) t (cp_tree cp)
       (gc\<lparr>gc_treeHash := th, gc_epoch := gc_epoch gc + 1\<rparr>) cs = Inr ns"
    "cp_updatePath cp = \<lparr>up_leafNode = leaf, up_nodes = ns\<rparr>" "cp_treeHash cp = th"
    "cp_pathSecrets cp = (if 0 < length (rev (take (length ps - 1) ps)) then rev (take (length ps - 1) ps) else [hd ps])"
    "cp_privateKey cp = fst (hpke_deriveKeyPair (cs_hpke cs) leafSecret)"
proof -
  obtain old where old: "sparse_get t (leafToNodeIndex l) = Some (NodeLeaf old)"
  proof (cases "sparse_get t (leafToNodeIndex l)")
    case (Some n)
    then show thesis using that assms by (cases n) (simp_all add: createUpdatePath_def Let_def)
  qed (use assms in \<open>simp add: createUpdatePath_def Let_def\<close>)
  show thesis
    using assms unfolding createUpdatePath_def Let_def old option.case ratchetNode.case
    by (elim res_bindE) (clarsimp simp: case_prod_beta res_bind_eq_Inr, rule that [OF old]; assumption?; simp)
qed

lemma carried_pathEntry:
  assumes "validEntry digest t e0" "full d t" "0 \<le> l" "l < 2 ^ d"
  shows "\<exists>entry. carryTreeHashes e0 t t [l] = Inr entry \<and> pathEntry digest d l t entry"
proof (cases e0)
  case None
  then show ?thesis by (simp add: carryTreeHashes_def pathEntry_def offPath_def)
next
  case (Some z)
  then obtain h c where z: "e0 = Some (h, c)" by (cases z) auto
  let ?c = "\<lambda>i. if touched d [l] i then None else c i"
  have "carryTreeHashes e0 t t [l] = Inr (Some (h, ?c))"
    using carry_drops [OF assms(2), of "[l]" c] assms(3,4) by (simp add: carryTreeHashes_def z)
  moreover have "pathEntry digest d l t (Some (h, ?c))"
  proof -
    have "0 \<le> i \<and> i < int (length t) \<and> treeHashSpec (digest h) t i = Inr v" if "c i = Some v" for i v
      using assms(1) that by (simp add: validEntry_def validCache_def z)
    then show ?thesis using full_index [OF assms(2)]
      by (auto simp: pathEntry_def soundEntry_def soundCache_def offPath_def) metis
  qed
  ultimately show ?thesis by blast
qed

lemma signedLeaf_info: "signLeafNodeCommit tbs sk sig = Inr leaf \<Longrightarrow> ln_info leaf = tbs_info tbs \<and>
    ln_hpkePublicKey leaf = ln_hpkePublicKey tbs"
  by (auto simp: signLeafNodeCommit_def res_bind_eq_Inr res_map_eq_Inr signedLeaf_def leafNodeData.extend_def
      leafNodeData.truncate_def leafNode.fields_def)

lemma touched_image: "0 \<le> l \<Longrightarrow> js \<subseteq> {1..d} \<Longrightarrow> i \<in> ancestorAt l 0 ` js \<Longrightarrow> touched d [l] i"
  unfolding touched_path by fastforce

lemma leaf_not_image: "0 \<le> l \<Longrightarrow> js \<subseteq> {1..d} \<Longrightarrow> ancestorAt l 0 0 \<notin> ancestorAt l 0 ` js"
  using path_inj [of l 0] by fastforce

lemma initialUpdate_nodes:
  assumes "applyInitialTreeUpdate (map (\<lambda>k. (ancestorAt l 0 k, R k)) ks) secret l t cs = Inr (ps, tree1)"
    "distinct ks" "set ks \<subseteq> {1..d}" "full d t" "0 \<le> l" "l < 2 ^ d"
  obtains new pk where "ps = rev new @ [\<lparr>ps_nodeIndex = leafToNodeIndex l, ps_secret = secret, ps_sendTo = []\<rparr>]"
    "map ps_nodeIndex new = map (ancestorAt l 0) ks" "map ps_sendTo new = map R ks"
    "secretChain (cs_kdf cs) secret (map ps_secret new)" "full d tree1" "walked l pk (set ks) t tree1"
    "list_all2 (\<lambda>p k. derivesTo cs (ps_secret p) (pk k)) new ks"
proof -
  let ?acc = "[\<lparr>ps_nodeIndex = leafToNodeIndex l, ps_secret = secret, ps_sendTo = []\<rparr>]"
  have ne: "?acc \<noteq> []" by simp
  from initialUpdate_fold [OF assms(5,6,2,3,4) ne assms(1) [unfolded applyInitialTreeUpdate_def]]
  obtain new pk where "ps = rev new @ ?acc \<and> map ps_nodeIndex new = map (ancestorAt l 0) ks \<and> map ps_sendTo new = map R ks \<and>
      secretChain (cs_kdf cs) (ps_secret (hd ?acc)) (map ps_secret new) \<and> full d tree1 \<and> walked l pk (set ks) t tree1 \<and>
      list_all2 (\<lambda>p k. derivesTo cs (ps_secret p) (pk k)) new ks"
    by blast
  then show thesis using that [of new pk] by simp
qed

lemma path_keys:
  assumes ns: "list_all2 (\<lambda>p n. publicKeyAt t (ps_nodeIndex p) = Inr (upn_hpkePublicKey n)) new ns"
    and idx: "map ps_nodeIndex new = map f ks" and key: "\<And>k. k \<in> set ks \<Longrightarrow> publicKeyAt t (f k) = Inr (pk k)"
  shows "map upn_hpkePublicKey ns = map pk ks"
proof (rule nth_equalityI)
  have len: "length ns = length ks" "length new = length ks"
    using list_all2_lengthD [OF ns] arg_cong [OF idx, of length] by auto
  then show "length (map upn_hpkePublicKey ns) = length (map pk ks)" by simp
  fix i assume "i < length (map upn_hpkePublicKey ns)"
  then have i: "i < length ks" "i < length new" using len by auto
  have "ps_nodeIndex (new ! i) = f (ks ! i)" using arg_cong [OF idx, of "\<lambda>xs. xs ! i"] i by simp
  then show "map upn_hpkePublicKey ns ! i = map pk ks ! i"
    using list_all2_nthD [OF ns i(2)] key [of "ks ! i"] i len by simp
qed

text \<open>What a commit did to the committer's array, in two walks.\<close>

definition committed ::
    "('h \<Rightarrow> bytes \<Rightarrow> bytes) \<Rightarrow> 'h \<Rightarrow> nat \<Rightarrow> ratchetTree \<Rightarrow> int \<Rightarrow> int list \<Rightarrow> ('pub, 'priv, 'sk) ciphersuiteImpl \<Rightarrow> groupContext \<Rightarrow> bytes \<Rightarrow>
     ('pub, 'priv) createdPath \<Rightarrow> 'h hashEntry option \<Rightarrow> (nat \<Rightarrow> bytes) \<Rightarrow> ratchetTree \<times> 'h hashEntry option \<Rightarrow>
     ratchetTree \<times> 'h hashEntry option \<Rightarrow> (bytes \<times> int option) \<times> 'h hashEntry option \<Rightarrow> pathSecret list \<Rightarrow> bool" where
  "committed digest h d t l excl cs gc secret cp e pk st1 st2 st3 new \<longleftrightarrow>
     (let ks = filteredLevels d t l; f = ancestorAt l 0; leaf = up_leafNode (cp_updatePath cp);
          R = \<lambda>k. filterNewLeaves (sendResolution t l k) excl in
      walked l pk (set ks) t (fst st1) \<and> pathEntry digest d l (fst st1) (snd st1) \<and> full d (fst st1) \<and>
      res_foldM (insertParentHash digest h) st1 (map (\<lambda>k. (f k, R k)) (rev ks)) = Inr st2 \<and>
      calculateParentHash digest (fst st2) (f 0) h (snd st2) = Inr st3 \<and>
      ln_info leaf = InfoCommit (fst (fst st3)) \<and> cp_tree cp = setNode (fst st2) (f 0) (Some (NodeLeaf leaf)) \<and>
      treeHashRoot digest (cp_tree cp) h (snd st3) = Inr (cp_treeHash cp, e) \<and>
      encryptSecretsForPath new t (cp_tree cp) (gc\<lparr>gc_treeHash := cp_treeHash cp, gc_epoch := gc_epoch gc + 1\<rparr>) cs =
        Inr (up_nodes (cp_updatePath cp)) \<and>
      (\<exists>pub. nodeKeyPair cs secret = Inr (cp_privateKey cp, pub) \<and> hpke_exportPublicKey (cs_hpke cs) pub = ln_hpkePublicKey leaf) \<and>
      list_all2 (\<lambda>p n. publicKeyAt (cp_tree cp) (ps_nodeIndex p) = Inr (upn_hpkePublicKey n)) new (up_nodes (cp_updatePath cp)) \<and>
      map ps_nodeIndex new = map f ks \<and> map ps_sendTo new = map R ks \<and>
      secretChain (cs_kdf cs) secret (map ps_secret new) \<and> list_all2 (\<lambda>p k. derivesTo cs (ps_secret p) (pk k)) new ks \<and>
      cp_pathSecrets cp = (if new = [] then [\<lparr>ps_nodeIndex = leafToNodeIndex l, ps_secret = secret, ps_sendTo = []\<rparr>] else new))"

lemma committer_walk:
  assumes wf: "wfTree d t" and l: "0 \<le> l" "l < 2 ^ d" and e0: "validEntry digest t e0"
    and c: "createUpdatePath digest h t e0 l gc sk cs excl patch secret = Inr (cp, e)"
  obtains pk st1 st2 st3 new where "committed digest h d t l excl cs gc secret cp e pk st1 st2 st3 new"
proof -
  let ?f = "ancestorAt l 0" and ?ks = "filteredLevels d t l" and ?R = "\<lambda>k. filterNewLeaves (sendResolution t l k) excl"
  note ft = wfTree_full [OF wf]
  have leaf_f: "leafToNodeIndex l = ?f 0" by (simp add: leafToNodeIndex_def ancestorAt_leaf)
  from c obtain old leafSecret path entry ps tree1 tree2 entry2 lph entry3 leaf th ns where
    leafSecret: "deriveSecret secret ''node'' (cs_kdf cs) = Inr leafSecret"
    and path: "filteredDirectPathAndCopathResolution l t = Inr path"
    and entry: "carryTreeHashes e0 t t [l] = Inr entry"
    and init: "applyInitialTreeUpdate (map (\<lambda>(i, r). (i, filterNewLeaves r excl)) path) secret l t cs = Inr (ps, tree1)"
    and ins: "insertParentHashes digest h (map (\<lambda>(i, r). (i, filterNewLeaves r excl)) path) (tree1, entry) = Inr (tree2, entry2)"
    and lph: "calculateParentHash digest tree2 (leafToNodeIndex l) h entry2 = Inr (lph, entry3)"
    and sign: "signLeafNodeCommit (committerLeaf old (hpke_exportPublicKey (cs_hpke cs) (snd (hpke_deriveKeyPair (cs_hpke cs) leafSecret)))
       patch (fst lph) (gc_groupId gc) l)
      (case lp_signature patch of None \<Rightarrow> sk | Some (_, sk) \<Rightarrow> sk) (cs_signature cs) = Inr leaf"
    and tree: "cp_tree cp = setNode tree2 (leafToNodeIndex l) (Some (NodeLeaf leaf))"
    and th: "treeHashRoot digest (cp_tree cp) h entry3 = Inr (th, e)"
    and enc: "encryptSecretsForPath (rev (take (length ps - 1) ps)) t (cp_tree cp)
       (gc\<lparr>gc_treeHash := th, gc_epoch := gc_epoch gc + 1\<rparr>) cs = Inr ns"
    and up: "cp_updatePath cp = \<lparr>up_leafNode = leaf, up_nodes = ns\<rparr>" and cth: "cp_treeHash cp = th"
    and secrets: "cp_pathSecrets cp = (if 0 < length (rev (take (length ps - 1) ps)) then rev (take (length ps - 1) ps) else [hd ps])"
    and priv: "cp_privateKey cp = fst (hpke_deriveKeyPair (cs_hpke cs) leafSecret)"
    by (rule createUpdatePath_Inr) blast
  have fdp: "map (\<lambda>(i, r). (i, filterNewLeaves r excl)) path = map (\<lambda>k. (?f k, ?R k)) ?ks"
    using path filtered_levels(1) [OF wf l] by (auto simp: comp_def)
  have distinct: "distinct ?ks" and range: "set ?ks \<subseteq> {1..d}"
    using filteredLevels_sorted [of d t l] filteredLevels_range [of d t l] strict_sorted_iff by blast+
  obtain new pk where new: "ps = rev new @ [\<lparr>ps_nodeIndex = leafToNodeIndex l, ps_secret = secret, ps_sendTo = []\<rparr>]"
    "map ps_nodeIndex new = map ?f ?ks" "map ps_sendTo new = map ?R ?ks"
    "secretChain (cs_kdf cs) secret (map ps_secret new)" "full d tree1" "walked l pk (set ?ks) t tree1"
    "list_all2 (\<lambda>p k. derivesTo cs (ps_secret p) (pk k)) new ?ks"
    by (rule initialUpdate_nodes [OF init [unfolded fdp] distinct range ft l])
  have "pathEntry digest d l t entry" using carried_pathEntry [OF e0 ft l] entry by auto
  then have f1: "pathEntry digest d l tree1 entry"
    by (rule pathEntry_write [OF _ full_depth [OF ft] l(1)])
      (use new(6) touched_image [OF l(1) range] in \<open>unfold walked_def, blast\<close>)
  have dist: "rev (take (length ps - 1) ps) = new" using new(1) by simp
  obtain cts where "collectPathNodes (cp_tree cp) new cts = Inr ns"
    using enc unfolding dist by (auto simp: encryptSecretsForPath_def res_bind_eq_Inr)
  then have ns: "list_all2 (\<lambda>p n. publicKeyAt (cp_tree cp) (ps_nodeIndex p) = Inr (upn_hpkePublicKey n)) new ns"
    by (rule collectPathNodes_keys)
  have "committed digest h d t l excl cs gc secret cp e pk (tree1, entry) (tree2, entry2) (lph, entry3) new"
    unfolding committed_def Let_def
  proof (intro conjI)
    show "res_foldM (insertParentHash digest h) (tree1, entry) (map (\<lambda>k. (?f k, ?R k)) (rev ?ks)) = Inr (tree2, entry2)"
      using ins unfolding fdp insertParentHashes_def rev_map .
    show "ln_info (up_leafNode (cp_updatePath cp)) = InfoCommit (fst (fst (lph, entry3)))"
      using signedLeaf_info [OF sign] by (simp add: committerLeaf_def up)
    show "cp_pathSecrets cp = (if new = [] then [\<lparr>ps_nodeIndex = leafToNodeIndex l, ps_secret = secret, ps_sendTo = []\<rparr>] else new)"
      using secrets unfolding dist by (simp add: new(1))
    show "encryptSecretsForPath new t (cp_tree cp) (gc\<lparr>gc_treeHash := cp_treeHash cp, gc_epoch := gc_epoch gc + 1\<rparr>) cs =
        Inr (up_nodes (cp_updatePath cp))" using enc unfolding dist by (simp add: up cth)
    show "\<exists>pub. nodeKeyPair cs secret = Inr (cp_privateKey cp, pub) \<and>
        hpke_exportPublicKey (cs_hpke cs) pub = ln_hpkePublicKey (up_leafNode (cp_updatePath cp))"
      using leafSecret signedLeaf_info [OF sign]
      by (intro exI [of _ "snd (hpke_deriveKeyPair (cs_hpke cs) leafSecret)"]) (simp add: nodeKeyPair_def priv up committerLeaf_def)
  qed (use lph tree th up cth ns new f1 in \<open>simp_all add: leaf_f\<close>)
  then show thesis by (rule that)
qed

text \<open>The keys a receiver requires to be new.\<close>

definition freshPathKeys :: "ratchetTree \<Rightarrow> int \<Rightarrow> updatePath \<Rightarrow> bool" where
  "freshPathKeys t l path \<longleftrightarrow> \<not> hasDuplicateKey (up_nodes path) \<and>
     (\<forall>n\<in>set (up_nodes path). \<not> keyInTree t (upn_hpkePublicKey n) \<and> upn_hpkePublicKey n \<noteq> ln_hpkePublicKey (up_leafNode path)) \<and>
     (case sparse_get t (leafToNodeIndex l) of
        Some (NodeLeaf old) \<Rightarrow> ln_hpkePublicKey old \<noteq> ln_hpkePublicKey (up_leafNode path) | _ \<Rightarrow> True)"

lemma update_path_agreement:
  assumes wf: "wfTree d t" and l: "0 \<le> l" "l < 2 ^ d"
    and e0: "validEntry digest t e0" and e1: "validEntry digest t e1"
    and c: "createUpdatePath digest h t e0 l gc sk cs excl patch secret = Inr (cp, e)"
    and fresh: "freshPathKeys t l (cp_updatePath cp)"
  shows "\<exists>e'. applyUpdatePath digest h t e1 l (cp_updatePath cp) False = Inr (cp_tree cp, e')"
    and "treeHashSpec (digest h) (cp_tree cp) (root (2 ^ d)) = Inr (cp_treeHash cp)"
    and "full d (cp_tree cp)"
proof -
  let ?f = "ancestorAt l 0" and ?ks = "filteredLevels d t l" and ?ns = "up_nodes (cp_updatePath cp)"
  note ft = wfTree_full [OF wf]
  have leaf_f: "leafToNodeIndex l = ?f 0" by (simp add: leafToNodeIndex_def ancestorAt_leaf)
  have range: "set ?ks \<subseteq> {1..d}" by (rule filteredLevels_range)
  obtain old where old: "sparse_get t (leafToNodeIndex l) = Some (NodeLeaf old)" using c by (rule createUpdatePath_Inr)
  obtain pk st1 st2 st3 new where com: "committed digest h d t l excl cs gc secret cp e pk st1 st2 st3 new"
    by (rule committer_walk [OF wf l e0 c])
  obtain tree1 entry tree2 entry2 lph entry3 where st: "st1 = (tree1, entry)" "st2 = (tree2, entry2)" "st3 = (lph, entry3)"
    by (cases st1; cases st2; cases st3) auto
  define leaf where leaf0: "leaf = up_leafNode (cp_updatePath cp)"
  have w1: "walked l pk (set ?ks) t tree1" and f1: "pathEntry digest d l tree1 entry" "full d tree1"
    and ins: "res_foldM (insertParentHash digest h) (tree1, entry) (map (\<lambda>k. (?f k, filterNewLeaves (sendResolution t l k) excl))
       (rev ?ks)) = Inr (tree2, entry2)"
    and lph: "calculateParentHash digest tree2 (?f 0) h entry2 = Inr (lph, entry3)"
    and leaf: "up_leafNode (cp_updatePath cp) = leaf" "ln_info leaf = InfoCommit (fst lph)"
    and tree: "cp_tree cp = setNode tree2 (?f 0) (Some (NodeLeaf leaf))"
    and th: "treeHashRoot digest (cp_tree cp) h entry3 = Inr (cp_treeHash cp, e)"
    and ns: "list_all2 (\<lambda>p n. publicKeyAt (cp_tree cp) (ps_nodeIndex p) = Inr (upn_hpkePublicKey n)) new ?ns"
    and idx: "map ps_nodeIndex new = map ?f ?ks"
    using com [unfolded committed_def Let_def st fst_conv snd_conv] unfolding leaf0 by blast+
  obtain eb where eb: "carryTreeHashes e1 t t [l] = Inr eb" "pathEntry digest d l t eb"
    using carried_pathEntry [OF e1 ft l] by blast
  let ?copy = "setNode t (?f 0) (Some (NodeLeaf leaf))"
  have fc: "full d ?copy" using ft by simp
  have ec: "pathEntry digest d l ?copy eb" by (rule pathEntry_path_write [OF eb(2) ft l]) simp
  have diff: "differAt d l (insert 0 (set (rev ?ks))) tree1 ?copy"
    using w1 f1(2) fc path_write_get [OF ft l, of 0] by (auto simp: differAt_def walked_def)
  have desc: "sorted_wrt (>) (rev ?ks)" "set (rev ?ks) \<subseteq> {1..d}"
    using filteredLevels_sorted [of d t l] range by (simp_all add: sorted_wrt_rev)
  have keys1: "\<forall>j\<in>set (rev ?ks). \<exists>ph. sparse_get tree1 (?f j) =
      Some (NodeParent \<lparr>pn_hpkePublicKey = pk j, pn_parentHash = ph, pn_unmergedLeaves = []\<rparr>)"
    using w1 by (simp add: walked_def)
  note walk = walks_agree [OF l desc diff f1(1) ec keys1 _ ins]
  from walk [of "map (\<lambda>k. \<lparr>upn_hpkePublicKey = pk k, upn_encryptedPathSecret = []\<rparr>) (rev ?ks)"]
  have e2: "pathEntry digest d l tree2 entry2" and w2: "walked l pk (set ?ks) tree1 tree2" and f2: "full d tree2"
    by (auto simp: differAt_def comp_def)
  have key: "publicKeyAt (cp_tree cp) (?f k) = Inr (pk k)" if "k \<in> set ?ks" for k
    using leaf_not_image [OF l(1) range] imageI [OF that, of ?f] w2 that path_write_get [OF f2 l, of 0] unfolding tree
    by (force simp: publicKeyAt_def walked_def getHpkePublicKey_def)
  have nskeys: "map upn_hpkePublicKey ?ns = map pk ?ks" by (rule path_keys [OF ns idx key])
  then have len: "length ?ns = length ?ks" by (metis length_map)
  from walk [of "rev ?ns"] nskeys obtain b' eb' where b':
    "writePath digest h (zip (map ?f (rev ?ks)) (rev ?ns)) (?copy, eb) = Inr (b', eb')"
    "differAt d l {0} tree2 b'" "pathEntry digest d l b' eb'" "walked l pk (set ?ks) ?copy b'"
    by (auto simp flip: rev_map)
  have fb: "full d b'" and s0: "sameAbove d l 0 tree2 b'"
    using b'(2) differAt_above [OF b'(2), of 0] by (simp_all add: differAt_def)
  have pl: "parentHashOf (digest h) tree2 (?f 0) = Inr lph" and e3: "pathEntry digest d l tree2 entry3"
    using calculateParentHash_path [OF f2 l _ e2 lph] by auto
  then have "parentHashOf (digest h) b' (?f 0) = Inr lph" using parentHashOf_sameAbove [OF s0 l, of "digest h"] by simp
  then obtain e' where e': "calculateParentHash digest b' (?f 0) h eb' = Inr (lph, e')"
    using calculateParentHash_defined [OF b'(3)] by blast
  have "cp_tree cp = b'"
  proof (rule tree_eqI)
    show "length (cp_tree cp) = length b'" using f2 fb by (simp add: tree full_def)
    fix i
    have "sparse_get b' (?f 0) = Some (NodeLeaf leaf)"
      using b'(4) leaf_not_image [OF l(1) range] path_write_get [OF ft l, of 0] by (simp add: walked_def)
    then show "sparse_get (cp_tree cp) i = sparse_get b' i"
      using b'(2) path_write_get [OF f2 l, of 0] unfolding tree by (auto simp: differAt_def)
  qed
  then show "\<exists>e'. applyUpdatePath digest h t e1 l (cp_updatePath cp) False = Inr (cp_tree cp, e')"
    using old fresh eb(1) b'(1) e' len leaf filtered_levels(2) [OF wf l] unfolding applyUpdatePath_def freshPathKeys_def
    by (auto simp: constantTimeEqual_iff list_ex_iff leaf_f rev_map)
  have "soundEntry digest (cp_tree cp) entry3"
    using pathEntry_path_write [OF e3 f2 l, of 0] unfolding tree by (simp add: pathEntry_def)
  from treeHash_sound [OF this, of "rootFromNodeWidth (int (length (cp_tree cp)))" h]
  have "treeHashSpec (digest h) (cp_tree cp) (rootFromNodeWidth (int (length (cp_tree cp)))) = Inr (cp_treeHash cp)"
    using th by (simp add: treeHashRoot_def)
  then show "treeHashSpec (digest h) (cp_tree cp) (root (2 ^ d)) = Inr (cp_treeHash cp)"
    using full_length [OF f2] by (simp add: tree root_def nodeWidth_pow2)
  show "full d (cp_tree cp)" using f2 by (simp add: tree)
qed

end
