(* ===== verification/PrivateKeyPath.thy ===== *)
theory PrivateKeyPath imports UpdatePathLaws begin

text \<open>
  The private side of the tree, \<^verbatim>\<open>src/private-key-path.ts\<close>, and how a receiver of an update path
  gets its share: \<open>applyUpdatePathSecret\<close> of \<^verbatim>\<open>src/create-commit.ts\<close> and \<open>updatePrivateKeyPath\<close> of
  \<^verbatim>\<open>src/process-messages.ts\<close>.

  A record of secrets or keys by node index is an association list; \<open>recordEntries\<close> lists it the way
  \<open>Object.entries\<close> does, by ascending index.  Wiping buffers after use is not modelled.
\<close>

record privateKeyPath =
  pkp_leafIndex :: int
  pkp_privateKeys :: "(int \<times> bytes) list"

definition recordEntries :: "(int \<times> 'a) list \<Rightarrow> (int \<times> 'a) list" where
  "recordEntries r = sort_key fst r"

definition mergePrivateKeyPaths :: "privateKeyPath \<Rightarrow> privateKeyPath \<Rightarrow> privateKeyPath" where
  "mergePrivateKeyPaths a b = a\<lparr>pkp_privateKeys :=
     foldl (\<lambda>acc (key, newValue). AList.update key newValue acc) (pkp_privateKeys a) (recordEntries (pkp_privateKeys b))\<rparr>"

definition updateLeafKey :: "privateKeyPath \<Rightarrow> bytes \<Rightarrow> privateKeyPath" where
  "updateLeafKey path newKey = path\<lparr>pkp_privateKeys :=
     AList.update (leafToNodeIndex (pkp_leafIndex path)) newKey (pkp_privateKeys path)\<rparr>"

definition pruneBlankedNodes :: "privateKeyPath \<Rightarrow> ratchetTree \<Rightarrow> privateKeyPath" where
  "pruneBlankedNodes path tree = path\<lparr>pkp_privateKeys :=
     filter (\<lambda>(nodeIndex, _). sparse_get tree nodeIndex \<noteq> None) (recordEntries (pkp_privateKeys path))\<rparr>"

definition toPrivateKey ::
    "('pub, 'priv, 'sk) ciphersuiteImpl \<Rightarrow> ratchetTree option \<Rightarrow> int \<times> bytes \<Rightarrow> (int \<times> bytes) result" where
  "toPrivateKey cs verifyAgainstTree = (\<lambda>(nodeIndex, pathSecret).
     res_bind (deriveSecret pathSecret ''node'' (cs_kdf cs)) (\<lambda>nodeSecret.
     let (privateKey, publicKey) = hpke_deriveKeyPair (cs_hpke cs) nodeSecret;
         node = (case verifyAgainstTree of None \<Rightarrow> None | Some tree \<Rightarrow> sparse_get tree nodeIndex)
     in if (case node of None \<Rightarrow> False
            | Some n \<Rightarrow> \<not> constantTimeEqual (hpke_exportPublicKey (cs_hpke cs) publicKey) (getHpkePublicKey n))
        then Inl ValidationError
        else Inr (nodeIndex, hpke_exportPrivateKey (cs_hpke cs) privateKey)))"

definition toPrivateKeyPath ::
    "pathSecrets \<Rightarrow> int \<Rightarrow> ('pub, 'priv, 'sk) ciphersuiteImpl \<Rightarrow> ratchetTree option \<Rightarrow> privateKeyPath result" where
  "toPrivateKeyPath pathSecrets leafIndex cs verifyAgainstTree =
     res_map (\<lambda>keys. \<lparr>pkp_leafIndex = leafIndex, pkp_privateKeys = keys\<rparr>)
       (res_mapM (toPrivateKey cs verifyAgainstTree) (recordEntries pathSecrets))"

definition deriveWelcomePrivateKeyPath ::
    "ratchetTree \<Rightarrow> int \<Rightarrow> int \<Rightarrow> bytes \<Rightarrow> privateKeyPath \<Rightarrow> ('pub, 'priv, 'sk) ciphersuiteImpl \<Rightarrow> privateKeyPath result" where
  "deriveWelcomePrivateKeyPath tree committerLeafIndex ancestorNodeIndex pathSecret privateKeyPath cs =
     res_bind (pathSecretsAlongFilteredPath tree committerLeafIndex ancestorNodeIndex pathSecret (cs_kdf cs)) (\<lambda>(pathSecrets, _).
     res_map (\<lambda>fromPath. pruneBlankedNodes (mergePrivateKeyPaths fromPath privateKeyPath) tree)
       (toPrivateKeyPath pathSecrets (pkp_leafIndex privateKeyPath) cs (Some tree)))"

section \<open>Opening an update path\<close>

text \<open>The first node of the resolution whose private key is held; a ciphertext for each node.\<close>

fun openPathSecret ::
    "privateKeyPath \<Rightarrow> groupContext \<Rightarrow> ('pub, 'priv, 'sk) ciphersuiteImpl \<Rightarrow> (int \<times> hPKECiphertext) list \<Rightarrow> bytes result" where
  "openPathSecret privatePath gc cs [] = Inl ValidationError"
| "openPathSecret privatePath gc cs ((nodeIndex, ct) # rest) =
     (case map_of (pkp_privateKeys privatePath) nodeIndex of
        None \<Rightarrow> openPathSecret privatePath gc cs rest
      | Some k \<Rightarrow> res_bind (hpke_importPrivateKey (cs_hpke cs) k) (\<lambda>key.
          res_bind (encodeGroupContext gc) (\<lambda>context.
            decryptWithLabel key ''UpdatePathNode'' context (hc_kemOutput ct) (hc_ciphertext ct) (cs_hpke cs))))"

definition applyUpdatePathSecret ::
    "ratchetTree \<Rightarrow> privateKeyPath \<Rightarrow> int \<Rightarrow> groupContext \<Rightarrow> updatePath \<Rightarrow> int list \<Rightarrow> ('pub, 'priv, 'sk) ciphersuiteImpl \<Rightarrow>
     (int \<times> bytes) result" where
  "applyUpdatePathSecret tree privatePath senderLeafIndex gc path excludeNodes cs =
     res_bind (firstMatchAncestor tree (pkp_leafIndex privatePath) senderLeafIndex path)
       (\<lambda>(ancestorNodeIndex, res, updateNode).
       case updateNode of None \<Rightarrow> Inl ValidationError | Some node \<Rightarrow>
         let filteredResolution = filterNewLeaves res excludeNodes in
         if length (upn_encryptedPathSecret node) \<noteq> length filteredResolution then Inl ValidationError
         else res_map (Pair ancestorNodeIndex)
           (openPathSecret privatePath gc cs (zip filteredResolution (upn_encryptedPathSecret node))))"

definition updatePrivateKeyPath ::
    "ratchetTree \<Rightarrow> privateKeyPath \<Rightarrow> int \<Rightarrow> groupContext \<Rightarrow> updatePath \<Rightarrow> int list \<Rightarrow> ('pub, 'priv, 'sk) ciphersuiteImpl \<Rightarrow>
     (privateKeyPath \<times> bytes) result" where
  "updatePrivateKeyPath tree privatePath leafNodeIndex groupContext path excludeNodes cs =
     res_bind (applyUpdatePathSecret tree privatePath leafNodeIndex groupContext path excludeNodes cs) (\<lambda>(nodeIndex, pathSecret).
     res_bind (pathSecretsAlongFilteredPath tree leafNodeIndex nodeIndex pathSecret (cs_kdf cs)) (\<lambda>(pathSecrets, lastSecret).
     res_bind (deriveSecret lastSecret ''path'' (cs_kdf cs)) (\<lambda>commitSecret.
     res_map (\<lambda>pathKeys. (pathKeys, commitSecret))
       (toPrivateKeyPath pathSecrets (pkp_leafIndex privatePath) cs (Some tree)))))"

end
