(* ===== verification/PathAgreement.thy ===== *)
theory PathAgreement imports PrivateKeyPath begin

text \<open>
  What an update path gives the members.  \<open>memberKeys\<close> is the invariant of the ratchet tree: a member
  holds a private key for its leaf and for every non-blank node above it that does not list it as
  unmerged, and every key it holds for a non-blank node opens what is sealed to that node.  A commit
  keeps it for the committer, for every receiver and for the member it adds.
\<close>

section \<open>Where two paths meet\<close>

lemma paths_meet:
  assumes "0 \<le> l" "l < 2 ^ d" "0 \<le> r" "r < 2 ^ d" "r \<noteq> l"
  obtains k where "1 \<le> k" "k \<le> d" "r div 2 ^ (k - 1) = flip (l div 2 ^ (k - 1))" "\<And>i. r div 2 ^ i = l div 2 ^ i \<longleftrightarrow> k \<le> i"
proof -
  obtain j where j: "j < d" "r div 2 ^ j = flip (l div 2 ^ j)" using copath_unique [OF assms] by blast
  then have up: "r div 2 ^ Suc j = l div 2 ^ Suc j" by (simp only: div_pow_Suc flip_div_2)
  have "r div 2 ^ i = l div 2 ^ i \<longleftrightarrow> Suc j \<le> i" for i
  proof
    assume "Suc j \<le> i"
    then show "r div 2 ^ i = l div 2 ^ i"
      using up div_pow_diff [of "Suc j" i r] div_pow_diff [of "Suc j" i l] by (simp only:)
  next
    assume eq: "r div 2 ^ i = l div 2 ^ i"
    show "Suc j \<le> i"
    proof (rule ccontr)
      assume "\<not> Suc j \<le> i"
      then have "r div 2 ^ j = l div 2 ^ j"
        using eq div_pow_diff [of i j r] div_pow_diff [of i j l] by simp
      then show False using j(2) flip_neq [of "l div 2 ^ j"] by simp
    qed
  qed
  then show thesis using j by (intro that [of "Suc j"]) auto
qed

lemma isAncestor_path:
  assumes t: "full d t" and l: "0 \<le> l" "l < 2 ^ d" and r: "0 \<le> r" "r < 2 ^ d" and k: "1 \<le> k" "k \<le> d"
  shows "isAncestor (leafToNodeIndex r) (ancestorAt l 0 k) (int (length t)) = Inr (r div 2 ^ k = l div 2 ^ k)"
proof -
  have "ancestorAt l 0 k = nodeAt k (l div 2 ^ k)" by (simp add: ancestorAt_def)
  moreover have "inTree d k (l div 2 ^ k)" using inTree_path [OF l k(2)] .
  ultimately have "ancestorAt l 0 k \<in> set (map (ancestorAt r 0) [1..<Suc d]) \<longleftrightarrow> 0 < k \<and> r div 2 ^ k = l div 2 ^ k"
    using ancestor_iff [of d k "l div 2 ^ k" r] r by metis
  then show ?thesis using k by (simp add: isAncestor_def full_leaf_path [OF t r] del: upt_Suc set_map)
qed

section \<open>The new tree\<close>

text \<open>A resolution depends only on the nodes below.\<close>

lemma resolution_local:
  assumes d: "d \<le> 30"
  shows "inTree d k m \<Longrightarrow> (\<And>i. under k m i \<Longrightarrow> sparse_get s i = sparse_get t i) \<Longrightarrow>
    resolution s (nodeAt k m) = resolution t (nodeAt k m)"
proof (induction k arbitrary: m)
  case (0 m)
  then have "sparse_get s (nodeAt 0 m) = sparse_get t (nodeAt 0 m)"
    using under_self [of m 0] by (simp add: inTree_def)
  then show ?case by (subst (1 2) resolution.simps) (simp add: isLeaf_def)
next
  case (Suc k m)
  have m: "0 \<le> m" "nodeAt (Suc k) m < 2147483648" "k \<le> 29"
    using Suc.prems(1) inTree_small [OF Suc.prems(1) d] d by (auto simp: inTree_def)
  note ch = inTree_children [OF Suc.prems(1)]
  have here: "sparse_get s (nodeAt (Suc k) m) = sparse_get t (nodeAt (Suc k) m)"
    using Suc.prems(2) under_self [OF m(1)] by blast
  have "under (Suc k) m i" if "under k (2 * m) i \<or> under k (2 * m + 1) i" for i
    using that under_child [of k "2 * m" i] under_child [of k "2 * m + 1" i] by auto
  then have "resolution s (nodeAt k (2 * m)) = resolution t (nodeAt k (2 * m))"
    "resolution s (nodeAt k (2 * m + 1)) = resolution t (nodeAt k (2 * m + 1))"
    using Suc.IH ch Suc.prems(2) by blast+
  then show ?case using here left_nodeAt [OF m(1,2)] right_nodeAt [OF m]
    by (subst (1 2) resolution.simps) (simp split: option.splits ratchetNode.splits)
qed

definition committedTree :: "nat \<Rightarrow> ratchetTree \<Rightarrow> int \<Rightarrow> int list \<Rightarrow> ('pub, 'priv, 'sk) ciphersuiteImpl \<Rightarrow> groupContext \<Rightarrow> bytes \<Rightarrow>
    ('pub, 'priv) createdPath \<Rightarrow> (nat \<Rightarrow> bytes) \<Rightarrow> pathSecret list \<Rightarrow> bool" where
  "committedTree d t l excl cs gc secret cp pk new \<longleftrightarrow>
     (let ks = filteredLevels d t l; f = ancestorAt l 0 in
      full d (cp_tree cp) \<and>
      sparse_get (cp_tree cp) (f 0) = Some (NodeLeaf (up_leafNode (cp_updatePath cp))) \<and>
      (\<forall>i. i \<noteq> f 0 \<longrightarrow> i \<notin> f ` set ks \<longrightarrow> sparse_get (cp_tree cp) i = sparse_get t i) \<and>
      (\<forall>j\<in>set ks. \<exists>ph. sparse_get (cp_tree cp) (f j) =
         Some (NodeParent \<lparr>pn_hpkePublicKey = pk j, pn_parentHash = ph, pn_unmergedLeaves = []\<rparr>)) \<and>
      map ps_nodeIndex new = map f ks \<and> map ps_sendTo new = map (\<lambda>k. filterNewLeaves (sendResolution t l k) excl) ks \<and>
      encryptSecretsForPath new t (cp_tree cp) (gc\<lparr>gc_treeHash := cp_treeHash cp, gc_epoch := gc_epoch gc + 1\<rparr>) cs =
        Inr (up_nodes (cp_updatePath cp)) \<and>
      (\<exists>pub. nodeKeyPair cs secret = Inr (cp_privateKey cp, pub) \<and>
        hpke_exportPublicKey (cs_hpke cs) pub = ln_hpkePublicKey (up_leafNode (cp_updatePath cp))) \<and>
      secretChain (cs_kdf cs) secret (map ps_secret new) \<and> list_all2 (\<lambda>p k. derivesTo cs (ps_secret p) (pk k)) new ks \<and>
      cp_pathSecrets cp = (if new = [] then [\<lparr>ps_nodeIndex = f 0, ps_secret = secret, ps_sendTo = []\<rparr>] else new))"

lemma committed_tree:
  assumes wf: "wfTree d t" and l: "0 \<le> l" "l < 2 ^ d" and e0: "validEntry digest t e0"
    and c: "createUpdatePath digest h t e0 l gc sk cs excl patch secret = Inr (cp, e)"
  obtains pk new where "committedTree d t l excl cs gc secret cp pk new"
proof -
  let ?f = "ancestorAt l 0" and ?ks = "filteredLevels d t l"
  have leaf_f: "leafToNodeIndex l = ?f 0" by (simp add: leafToNodeIndex_def ancestorAt_leaf)
  have range: "set ?ks \<subseteq> {1..d}" by (rule filteredLevels_range)
  obtain pk st1 st2 st3 new where com: "committed digest h d t l excl cs gc secret cp e pk st1 st2 st3 new"
    by (rule committer_walk [OF wf l e0 c])
  obtain tree1 entry tree2 entry2 where st: "st1 = (tree1, entry)" "st2 = (tree2, entry2)"
    by (cases st1; cases st2) auto
  note com' = com [unfolded committed_def Let_def st fst_conv snd_conv]
  have w1: "walked l pk (set ?ks) t tree1" and f1: "pathEntry digest d l tree1 entry" "full d tree1"
    and ins: "res_foldM (insertParentHash digest h) (tree1, entry) (map (\<lambda>k. (?f k, filterNewLeaves (sendResolution t l k) excl))
       (rev ?ks)) = Inr (tree2, entry2)"
    and tree: "cp_tree cp = setNode tree2 (?f 0) (Some (NodeLeaf (up_leafNode (cp_updatePath cp))))"
    using com' by blast+
  have desc: "sorted_wrt (>) (rev ?ks)" "set (rev ?ks) \<subseteq> {1..d}"
    using filteredLevels_sorted [of d t l] range by (simp_all add: sorted_wrt_rev)
  have keys1: "\<forall>j\<in>set (rev ?ks). \<exists>ph. sparse_get tree1 (?f j) =
      Some (NodeParent \<lparr>pn_hpkePublicKey = pk j, pn_parentHash = ph, pn_unmergedLeaves = []\<rparr>)"
    using w1 by (simp add: walked_def)
  have "differAt d l (insert 0 (set (rev ?ks))) tree1 tree1" using f1(2) by (simp add: differAt_def)
  from walks_agree [OF l desc this f1(1) f1(1) keys1 _ ins, of "map (\<lambda>k. \<lparr>upn_hpkePublicKey = pk k, upn_encryptedPathSecret = []\<rparr>) (rev ?ks)"]
  have w2: "walked l pk (set ?ks) tree1 tree2" and f2: "full d tree2"
    by (auto simp: differAt_def comp_def)
  have get: "sparse_get (cp_tree cp) i = (if i = ?f 0 then Some (NodeLeaf (up_leafNode (cp_updatePath cp))) else sparse_get tree2 i)" for i
    unfolding tree using path_write_get [OF f2 l, of 0] by simp
  have "committedTree d t l excl cs gc secret cp pk new"
    unfolding committedTree_def Let_def
  proof (intro conjI)
    show "full d (cp_tree cp)" using f2 by (simp add: tree)
    show "\<forall>i. i \<noteq> ?f 0 \<longrightarrow> i \<notin> ?f ` set ?ks \<longrightarrow> sparse_get (cp_tree cp) i = sparse_get t i"
      using get w1 w2 by (simp add: walked_def)
    show "\<forall>j\<in>set ?ks. \<exists>ph. sparse_get (cp_tree cp) (?f j) =
         Some (NodeParent \<lparr>pn_hpkePublicKey = pk j, pn_parentHash = ph, pn_unmergedLeaves = []\<rparr>)"
      using get w2 leaf_not_image [OF l(1) range] by (force simp: walked_def)
    show "sparse_get (cp_tree cp) (?f 0) = Some (NodeLeaf (up_leafNode (cp_updatePath cp)))" using get by simp
  qed (use com' [unfolded leaf_f] in blast)+
  then show thesis by (rule that)
qed

text \<open>A new leaf and new nodes on its path keep the tree well-formed.\<close>

lemma wfTree_path:
  assumes wf: "wfTree d t" and l: "0 \<le> l" "l < 2 ^ d" and full: "full d t'" and range: "js \<subseteq> {1..d}"
    and leaf: "sparse_get t' (ancestorAt l 0 0) = Some (NodeLeaf lf)"
    and same: "\<And>i. i \<noteq> ancestorAt l 0 0 \<Longrightarrow> i \<notin> ancestorAt l 0 ` js \<Longrightarrow> sparse_get t' i = sparse_get t i"
    and nodes: "\<And>j. j \<in> js \<Longrightarrow> \<exists>ph. sparse_get t' (ancestorAt l 0 j) =
       Some (NodeParent \<lparr>pn_hpkePublicKey = pk j, pn_parentHash = ph, pn_unmergedLeaves = []\<rparr>)"
  shows "wfTree d t'"
proof -
  let ?f = "ancestorAt l 0"
  have keep: "sparse_get t' i \<noteq> None" if "sparse_get t i \<noteq> None" for i
    using that leaf same nodes by (cases "i = ?f 0 \<or> i \<in> ?f ` js") auto
  have "okAt t' k m n" if km: "inTree d k m" and n: "sparse_get t' (nodeAt k m) = Some n" for k m n
  proof (cases "nodeAt k m = ?f 0")
    case True
    then have "k = 0" using nodeAt_even [OF km, of l] by (simp add: ancestorAt_leaf)
    then show ?thesis using True n leaf by (simp add: okAt_def)
  next
    case nl: False
    show ?thesis
    proof (cases "nodeAt k m \<in> ?f ` js")
      case True
      then obtain j where j: "j \<in> js" "nodeAt k m = ?f j" by blast
      then have "nodeAt k m = nodeAt j (l div 2 ^ j)" by (simp add: ancestorAt_def)
      moreover have "0 \<le> m" "0 \<le> l div 2 ^ j" using km l by (simp_all add: inTree_def pos_imp_zdiv_nonneg_iff)
      ultimately have "k = j" using nodeAt_inj by blast
      then have "0 < k" using j(1) range by auto
      then show ?thesis using nodes [OF j(1)] n j(2) by (auto simp: okAt_def)
    next
      case False
      then have "sparse_get t (nodeAt k m) = Some n" using same nl n by simp
      then have "okAt t k m n" by (rule wfTree_at [OF wf km])
      then show ?thesis using keep by (auto simp: okAt_def split: ratchetNode.splits)
    qed
  qed
  then show ?thesis using full by (simp add: wfTree_def)
qed

lemma wfTree_committed:
  assumes wf: "wfTree d t" and l: "0 \<le> l" "l < 2 ^ d" and c: "committedTree d t l excl cs gc secret cp pk new"
  shows "wfTree d (cp_tree cp)"
proof (rule wfTree_path [OF wf l _ filteredLevels_range])
  show "full d (cp_tree cp)" using c unfolding committedTree_def Let_def by blast
qed (use c in \<open>unfold committedTree_def Let_def, blast+\<close>)

lemma committed_levels:
  assumes wf: "wfTree d t" and l: "0 \<le> l" "l < 2 ^ d" and c: "committedTree d t l excl cs gc secret cp pk new"
  shows "k \<in> {1..d} \<Longrightarrow> sendResolution (cp_tree cp) l k = sendResolution t l k"
    and "filteredLevels d (cp_tree cp) l = filteredLevels d t l"
proof -
  show send: "sendResolution (cp_tree cp) l k = sendResolution t l k" if k: "k \<in> {1..d}" for k
  proof -
    have kd: "k - 1 < d" using k by auto
    have off: "sparse_get (cp_tree cp) i = sparse_get t i" if "under (k - 1) (flip (l div 2 ^ (k - 1))) i" for i
    proof -
      have "i \<notin> ancestorAt l 0 ` UNIV" using copath_off_path [OF l kd that] by blast
      then show ?thesis using c unfolding committedTree_def Let_def by blast
    qed
    have "inTree d (k - 1) (flip (l div 2 ^ (k - 1)))"
      using inTree_flip [OF inTree_path [OF l, of "k - 1"]] kd by simp
    from resolution_local [OF full_depth [OF wfTree_full [OF wf]] this, of "cp_tree cp" t] off
    show ?thesis by (simp add: sendResolution_def resolutionOf_def copathAt_def)
  qed
  show "filteredLevels d (cp_tree cp) l = filteredLevels d t l"
    unfolding filteredLevels_def by (rule filter_cong) (use send in auto)
qed

section \<open>What is sealed to whom\<close>

definition sealedTo :: "('pub, 'priv, 'sk) ciphersuiteImpl \<Rightarrow> groupContext \<Rightarrow> bytes \<Rightarrow> bytes \<Rightarrow> hPKECiphertext result" where
  "sealedTo cs gc secret key =
     res_bind (encodeGroupContext gc) (\<lambda>context.
     res_bind (hpke_importPublicKey (cs_hpke cs) key) (\<lambda>publicKey.
     res_map (\<lambda>(ct, enc). \<lparr>hc_kemOutput = enc, hc_ciphertext = ct\<rparr>)
       (encryptWithLabel publicKey ''UpdatePathNode'' context secret (cs_hpke cs))))"

text \<open>Each node of the path carries the ciphertexts for its own recipients, in their order.\<close>

lemma collectPathNodes_take:
  "collectPathNodes tree ps cts = Inr nodes \<Longrightarrow>
   list_all2 P (concat (map (\<lambda>p. map (Pair (ps_secret p)) (ps_sendTo p)) ps)) cts \<Longrightarrow>
   list_all2 (\<lambda>p n. list_all2 (\<lambda>i. P (ps_secret p, i)) (ps_sendTo p) (upn_encryptedPathSecret n)) ps nodes"
proof (induction ps arbitrary: cts nodes)
  case (Cons p ps)
  let ?m = "length (ps_sendTo p)"
  obtain n ns where ns: "nodes = n # ns" "upn_encryptedPathSecret n = take ?m cts" "collectPathNodes tree ps (drop ?m cts) = Inr ns"
    using Cons.prems(1) by (auto simp: Let_def res_bind_eq_Inr res_map_eq_Inr)
  obtain us vs where uv: "cts = us @ vs" "list_all2 P (map (Pair (ps_secret p)) (ps_sendTo p)) us"
      "list_all2 P (concat (map (\<lambda>p. map (Pair (ps_secret p)) (ps_sendTo p)) ps)) vs"
    using Cons.prems(2) by (auto simp: list_all2_append1)
  then have "length us = ?m" using list_all2_lengthD by fastforce
  then have "take ?m cts = us" "drop ?m cts = vs" using uv(1) by simp_all
  then show ?case using Cons.IH [of vs ns] ns uv(2,3) by (simp add: list_all2_map1)
qed simp

lemma encryptSecrets_sealed:
  assumes "encryptSecretsForPath ps t u gc cs = Inr nodes"
  shows "list_all2 (\<lambda>p n. list_all2 (\<lambda>i ct. \<exists>nd. sparse_get t i = Some nd \<and>
    sealedTo cs gc (ps_secret p) (getHpkePublicKey nd) = Inr ct) (ps_sendTo p) (upn_encryptedPathSecret n)) ps nodes"
proof -
  let ?jobs = "concat (map (\<lambda>p. map (Pair (ps_secret p)) (ps_sendTo p)) ps)"
  obtain ctx jobs cts where ctx: "encodeGroupContext gc = Inr ctx"
    and jobs: "res_mapM (\<lambda>(secret, nodeIndex). res_map (Pair secret) (publicKeyAt t nodeIndex)) ?jobs = Inr jobs"
    and cts: "encryptBatches (\<lambda>(secret, recipientKey).
           res_bind (hpke_importPublicKey (cs_hpke cs) recipientKey) (\<lambda>publicKey.
           res_map (\<lambda>(ct, enc). \<lparr>hc_kemOutput = enc, hc_ciphertext = ct\<rparr>)
             (encryptWithLabel publicKey ''UpdatePathNode'' ctx secret (cs_hpke cs)))) jobs = Inr cts"
    and nodes: "collectPathNodes u ps cts = Inr nodes"
    using assms by (auto simp: encryptSecretsForPath_def res_bind_eq_Inr)
  let ?P = "\<lambda>(secret, i) ct. \<exists>nd. sparse_get t i = Some nd \<and> sealedTo cs gc secret (getHpkePublicKey nd) = Inr ct"
  have "list_all2 (\<lambda>(secret, i) (s, k). s = secret \<and> publicKeyAt t i = Inr k) ?jobs jobs"
    using jobs by (auto simp: res_mapM_iff res_map_eq_Inr elim!: list_all2_mono)
  moreover have "list_all2 (\<lambda>(s, k) ct. sealedTo cs gc s k = Inr ct) jobs cts"
    using cts ctx by (auto simp: encryptBatches_mapM res_mapM_iff sealedTo_def elim!: list_all2_mono)
  ultimately have "list_all2 ?P ?jobs cts"
    by (rule list_all2_trans [rotated]) (auto simp: publicKeyAt_def split: option.splits)
  from collectPathNodes_take [OF nodes this] show ?thesis by simp
qed

section \<open>Private keys and the nodes they belong to\<close>

definition opensFor :: "('pub, 'priv) hpkeImpl \<Rightarrow> 'priv \<Rightarrow> 'pub \<Rightarrow> bool" where
  "opensFor hpke sk pk \<longleftrightarrow> (\<forall>m info ct enc. hpke_seal hpke pk m info [] = (ct, enc) \<longrightarrow> hpke_open hpke sk enc ct info = Inr m)"

text \<open>What the documentation of HPKE promises for derived key pairs.\<close>

definition kemCorrect :: "('pub, 'priv) hpkeImpl \<Rightarrow> bool" where
  "kemCorrect hpke \<longleftrightarrow> (\<forall>ikm. let (sk, pk) = hpke_deriveKeyPair hpke ikm in
     hpke_importPrivateKey hpke (hpke_exportPrivateKey hpke sk) = Inr sk \<and>
     hpke_importPublicKey hpke (hpke_exportPublicKey hpke pk) = Inr pk \<and> opensFor hpke sk pk)"

definition keyOpens :: "('pub, 'priv) hpkeImpl \<Rightarrow> bytes \<Rightarrow> bytes \<Rightarrow> bool" where
  "keyOpens hpke k pub \<longleftrightarrow> (\<exists>sk pk. hpke_importPrivateKey hpke k = Inr sk \<and> hpke_importPublicKey hpke pub = Inr pk \<and> opensFor hpke sk pk)"

lemma derived_keyOpens:
  assumes "kemCorrect hpke" "hpke_deriveKeyPair hpke ikm = (sk, pk)"
  shows "keyOpens hpke (hpke_exportPrivateKey hpke sk) (hpke_exportPublicKey hpke pk)"
  using assms(1) [unfolded kemCorrect_def, rule_format, of ikm] assms(2) unfolding keyOpens_def by auto

definition heldKey :: "privateKeyPath \<Rightarrow> int \<Rightarrow> bytes option" where
  "heldKey path i = map_of (pkp_privateKeys path) i"

definition keysMatch :: "('pub, 'priv) hpkeImpl \<Rightarrow> ratchetTree \<Rightarrow> privateKeyPath \<Rightarrow> bool" where
  "keysMatch hpke t path \<longleftrightarrow> (\<forall>i k n. heldKey path i = Some k \<longrightarrow> sparse_get t i = Some n \<longrightarrow> keyOpens hpke k (getHpkePublicKey n))"

definition memberKeys :: "('pub, 'priv) hpkeImpl \<Rightarrow> ratchetTree \<Rightarrow> int \<Rightarrow> privateKeyPath \<Rightarrow> bool" where
  "memberKeys hpke t r path \<longleftrightarrow> pkp_leafIndex path = r \<and> keysMatch hpke t path \<and>
     (\<forall>i. heldKey path i \<noteq> None \<longrightarrow> (\<exists>j. i = ancestorAt r 0 j)) \<and>
     (\<forall>i. sparse_get t i \<noteq> None \<longrightarrow> reaches t i r \<longrightarrow> heldKey path i \<noteq> None)"

lemma openPathSecret_sealed:
  assumes "list_all2 (\<lambda>i ct. \<exists>nd. sparse_get t i = Some nd \<and> sealedTo cs gc secret (getHpkePublicKey nd) = Inr ct) js cts"
    and "keysMatch (cs_hpke cs) t path" "\<exists>i\<in>set js. heldKey path i \<noteq> None"
  shows "openPathSecret path gc cs (zip js cts) = Inr secret"
  using assms(1,3)
proof (induction rule: list_all2_induct)
  case (Cons i js ct cts)
  obtain nd where nd: "sparse_get t i = Some nd" "sealedTo cs gc secret (getHpkePublicKey nd) = Inr ct" using Cons.hyps(1) by blast
  show ?case
  proof (cases "heldKey path i")
    case None
    then show ?thesis using Cons by (simp add: heldKey_def)
  next
    case (Some k)
    then obtain sk pk where k: "hpke_importPrivateKey (cs_hpke cs) k = Inr sk"
        "hpke_importPublicKey (cs_hpke cs) (getHpkePublicKey nd) = Inr pk" "opensFor (cs_hpke cs) sk pk"
      using assms(2) nd(1) unfolding keysMatch_def keyOpens_def by blast
    then show ?thesis using Some nd(2)
      by (auto simp: heldKey_def sealedTo_def encryptWithLabel_def decryptWithLabel_def res_bind_eq_Inr res_map_eq_Inr
          opensFor_def case_prod_beta)
  qed
qed simp

section \<open>Records of keys\<close>

lemma map_of_recordEntries [simp]: "map_of (recordEntries xs) i = map_of xs i"
proof -
  have key: "map_of ys i = map_of (filter (\<lambda>y. fst y = i) ys) i" for ys :: "(int \<times> 'a) list"
    by (induction ys) auto
  have "filter (\<lambda>y. fst y = i) (recordEntries xs) = filter (\<lambda>y. fst y = i) xs"
    unfolding recordEntries_def by (rule sort_key_stable)
  then show ?thesis using key [of xs] key [of "recordEntries xs"] by simp
qed

lemma set_recordEntries [simp]: "set (recordEntries xs) = set xs"
  by (simp add: recordEntries_def)

lemma heldKey_prune: "heldKey (pruneBlankedNodes path t) i = (if sparse_get t i = None then None else heldKey path i)"
proof -
  have "map_of (filter (\<lambda>(i, _). sparse_get t i \<noteq> None) xs) i = (if sparse_get t i = None then None else map_of xs i)"
    for xs :: "(int \<times> bytes) list" by (induction xs) auto
  then show ?thesis by (simp add: heldKey_def pruneBlankedNodes_def)
qed

lemma heldKey_updateLeafKey:
  "heldKey (updateLeafKey path k) i = (if i = leafToNodeIndex (pkp_leafIndex path) then Some k else heldKey path i)"
  by (auto simp: heldKey_def updateLeafKey_def update_conv')

lemma map_of_foldl_update:
  "map_of (foldl (\<lambda>acc (k, v). AList.update k v acc) al xs) = map_of al ++ map_of (rev xs)"
proof (induction xs arbitrary: al)
  case (Cons x xs)
  obtain k v where x: "x = (k, v)" by (cases x)
  have "(map_of al)(k \<mapsto> v) ++ map_of (rev xs) = map_of al ++ (map_of (rev xs @ [(k, v)]))"
    by (simp add: map_add_def fun_eq_iff split: option.splits)
  then show ?case using Cons by (simp add: x update_conv' fun_upd_def)
qed simp

text \<open>After merging, a held key is one of the second path, or one of the first for a node the second does not hold.\<close>

lemma heldKey_merge:
  shows "heldKey (mergePrivateKeyPaths a b) i = Some k \<Longrightarrow>
      (i, k) \<in> set (pkp_privateKeys b) \<or> (heldKey b i = None \<and> heldKey a i = Some k)"
    and "heldKey (mergePrivateKeyPaths a b) i = None \<longleftrightarrow> heldKey a i = None \<and> heldKey b i = None"
proof -
  have m: "heldKey (mergePrivateKeyPaths a b) i = (map_of (pkp_privateKeys a) ++ map_of (rev (recordEntries (pkp_privateKeys b)))) i"
    by (simp add: heldKey_def mergePrivateKeyPaths_def map_of_foldl_update)
  have none: "map_of (rev (recordEntries (pkp_privateKeys b))) i = None \<longleftrightarrow> heldKey b i = None"
    by (simp add: heldKey_def map_of_eq_None_iff)
  show "heldKey (mergePrivateKeyPaths a b) i = Some k \<Longrightarrow>
      (i, k) \<in> set (pkp_privateKeys b) \<or> (heldKey b i = None \<and> heldKey a i = Some k)"
    unfolding m map_add_Some_iff using none by (auto simp: heldKey_def dest: map_of_SomeD)
  show "heldKey (mergePrivateKeyPaths a b) i = None \<longleftrightarrow> heldKey a i = None \<and> heldKey b i = None"
    unfolding m using none by (auto simp: heldKey_def)
qed

lemma pkp_leafIndex_simps [simp]:
  "pkp_leafIndex (pruneBlankedNodes path t) = pkp_leafIndex path"
  "pkp_leafIndex (mergePrivateKeyPaths a b) = pkp_leafIndex a"
  "pkp_leafIndex (updateLeafKey path k) = pkp_leafIndex path"
  by (simp_all add: pruneBlankedNodes_def mergePrivateKeyPaths_def updateLeafKey_def)

section \<open>Keys from path secrets\<close>

text \<open>Path secrets that derive to the advertised keys pass the check, and give keys that open.\<close>

lemma toPrivateKeyPath_derives:
  assumes kem: "kemCorrect (cs_hpke cs)"
    and d: "\<And>i s. (i, s) \<in> set secrets \<Longrightarrow> \<exists>n. sparse_get t i = Some n \<and> derivesTo cs s (getHpkePublicKey n)"
    and v: "verify = None \<or> verify = Some t"
  shows "\<exists>path. toPrivateKeyPath secrets r cs verify = Inr path \<and> pkp_leafIndex path = r \<and>
    fst ` set (pkp_privateKeys path) = fst ` set secrets \<and>
    (\<forall>i k. (i, k) \<in> set (pkp_privateKeys path) \<longrightarrow> (\<exists>n. sparse_get t i = Some n \<and> keyOpens (cs_hpke cs) k (getHpkePublicKey n)))"
proof -
  define good where "good = (\<lambda>(x :: int \<times> bytes) y. fst y = fst x \<and>
    (\<exists>n. sparse_get t (fst x) = Some n \<and> keyOpens (cs_hpke cs) (snd y) (getHpkePublicKey n)))"
  have one: "\<exists>y. toPrivateKey cs verify x = Inr y \<and> good x y" if m: "x \<in> set secrets" for x
  proof -
    obtain i s where x: "x = (i, s)" by (cases x)
    obtain n priv pub where n: "sparse_get t i = Some n" "nodeKeyPair cs s = Inr (priv, pub)"
        "hpke_exportPublicKey (cs_hpke cs) pub = getHpkePublicKey n"
      using d [OF m [unfolded x]] by (auto simp: derivesTo_def)
    obtain ns where ns: "deriveSecret s ''node'' (cs_kdf cs) = Inr ns" "hpke_deriveKeyPair (cs_hpke cs) ns = (priv, pub)"
      using n(2) by (auto simp: nodeKeyPair_def res_map_eq_Inr)
    have "toPrivateKey cs verify x = Inr (i, hpke_exportPrivateKey (cs_hpke cs) priv)"
      using v n ns by (auto simp: toPrivateKey_def x constantTimeEqual_iff)
    then show ?thesis using derived_keyOpens [OF kem ns(2)] n by (auto simp: x good_def)
  qed
  then have "\<forall>x\<in>set secrets. \<exists>y. toPrivateKey cs verify x = Inr y \<and> good x y" by blast
  from bchoice [OF this] obtain f where f: "\<And>x. x \<in> set secrets \<Longrightarrow> toPrivateKey cs verify x = Inr (f x) \<and> good x (f x)"
    by blast
  have "res_mapM (toPrivateKey cs verify) (recordEntries secrets) = Inr (map f (recordEntries secrets))"
    by (rule res_mapM_Inr) (use f in auto)
  then have "toPrivateKeyPath secrets r cs verify =
      Inr \<lparr>pkp_leafIndex = r, pkp_privateKeys = map f (recordEntries secrets)\<rparr>"
    by (simp add: toPrivateKeyPath_def)
  moreover have "fst ` f ` set secrets = fst ` set secrets"
    unfolding image_image by (rule image_cong [OF refl]) (use f in \<open>simp add: good_def\<close>)
  moreover have "\<exists>n. sparse_get t i = Some n \<and> keyOpens (cs_hpke cs) k (getHpkePublicKey n)"
    if m: "(i, k) \<in> f ` set secrets" for i k
  proof -
    obtain x where x: "x \<in> set secrets" "f x = (i, k)" using m by force
    then show ?thesis using f [OF x(1)] by (simp add: good_def)
  qed
  ultimately show ?thesis by auto
qed

section \<open>From the common ancestor up\<close>

lemma commonAncestor_loop_found:
  fixes k :: nat
  assumes "\<And>j. j \<in> set ks \<Longrightarrow> isAncestor (leafToNodeIndex r) (f j) (int (length t)) = Inr (k \<le> j)"
    and "sorted_wrt (<) ks" "k \<in> set ks"
  shows "\<exists>i<length ks. ks ! i = k \<and> commonAncestor_loop t r (map (\<lambda>j. (f j, R j)) ks) n = Inr (f k, R k, n + i)"
  using assms
proof (induction ks arbitrary: n)
  case (Cons j ks)
  show ?case
  proof (cases "j = k")
    case True
    then show ?thesis using Cons.prems(1) [of j] by (intro exI [of _ 0]) simp
  next
    case False
    then have j: "\<not> k \<le> j" "k \<in> set ks" using Cons.prems by auto
    then obtain i where "i < length ks" "ks ! i = k"
        "commonAncestor_loop t r (map (\<lambda>j. (f j, R j)) ks) (Suc n) = Inr (f k, R k, Suc n + i)"
      using Cons.IH [of "Suc n"] Cons.prems by auto
    then show ?thesis using j Cons.prems(1) [of j] by (intro exI [of _ "Suc i"]) simp
  qed
qed simp

lemma update_new: "k \<notin> fst ` set al \<Longrightarrow> AList.update k v al = al @ [(k, v)]"
  by (induction al) auto

lemma deriveAlong_chain:
  "secretChain kdf s xs \<Longrightarrow> length xs = length path \<Longrightarrow> distinct (map fst acc @ map fst path) \<Longrightarrow>
   deriveAlong kdf path acc s = Inr (acc @ zip (map fst path) xs, last (s # xs))"
proof (induction path arbitrary: s xs acc)
  case (Cons p path)
  obtain x ys where xs: "xs = x # ys" using Cons.prems(2) by (cases xs) auto
  obtain i q where p: "p = (i, q)" by (cases p)
  have "AList.update i x acc = acc @ [(i, x)]" using Cons.prems(3) by (intro update_new) (auto simp: p)
  then show ?case using Cons.IH [of x ys "acc @ [(i, x)]"] Cons.prems by (simp add: xs p)
qed simp

lemma dropWhile_index:
  assumes "distinct (map g xs)" "i < length xs"
  shows "dropWhile (\<lambda>x. g x \<noteq> g (xs ! i)) xs = drop i xs"
  using assms
proof (induction xs arbitrary: i)
  case (Cons x xs)
  have "g x \<noteq> g (xs ! n)" if "n < length xs" for n
    using Cons.prems(1) imageI [OF nth_mem [OF that], of g] by auto
  then show ?case using Cons by (cases i) auto
qed simp

lemma secretChain_drop: "secretChain kdf s xs \<Longrightarrow> i < length xs \<Longrightarrow> secretChain kdf (xs ! i) (drop (Suc i) xs)"
proof (induction xs arbitrary: s i)
  case (Cons x xs)
  then show ?case by (cases i) auto
qed simp

lemma committed_distinct:
  assumes l: "0 \<le> l" "l < 2 ^ d" and c: "committedTree d t l excl cs gc secret cp pk new"
  shows "distinct (map ps_nodeIndex new)"
proof -
  have nodes: "map ps_nodeIndex new = map (ancestorAt l 0) (filteredLevels d t l)"
    using c unfolding committedTree_def Let_def by blast
  have "distinct (filteredLevels d t l)" using filteredLevels_sorted [of d t l] strict_sorted_iff by blast
  moreover have "inj_on (ancestorAt l 0) (set (filteredLevels d t l))" by (auto simp: inj_on_def intro: path_inj [OF l(1)])
  ultimately show ?thesis unfolding nodes distinct_map by blast
qed

text \<open>From any node of the path up, everyone derives the committer's secrets.\<close>

lemma secrets_along:
  assumes wf: "wfTree d t" and l: "0 \<le> l" "l < 2 ^ d" and c: "committedTree d t l excl cs gc secret cp pk new"
    and i: "i < length new"
  shows "pathSecretsAlongFilteredPath (cp_tree cp) l (ps_nodeIndex (new ! i)) (ps_secret (new ! i)) (cs_kdf cs) =
    Inr (map (\<lambda>p. (ps_nodeIndex p, ps_secret p)) (drop i new), ps_secret (last new))"
proof -
  let ?f = "ancestorAt l 0" and ?ks = "filteredLevels d t l"
  let ?fdp = "map (\<lambda>k. (?f k, sendResolution (cp_tree cp) l k)) ?ks"
  have nodes: "map ps_nodeIndex new = map ?f ?ks" and chain: "secretChain (cs_kdf cs) secret (map ps_secret new)"
    using c unfolding committedTree_def Let_def by blast+
  have len: "length ?ks = length new" using arg_cong [OF nodes, of length] by simp
  have fdp: "filteredDirectPathAndCopathResolution l (cp_tree cp) = Inr ?fdp"
    using filtered_levels(1) [OF wfTree_committed [OF wf l c] l] committed_levels(2) [OF wf l c] by simp
  have fst: "map fst ?fdp = map ps_nodeIndex new" by (simp add: nodes)
  note dist = committed_distinct [OF l c]
  have at: "ps_nodeIndex (new ! i) = fst (?fdp ! i)" using arg_cong [OF fst, of "\<lambda>xs. xs ! i"] i len by simp
  have "dropWhile (\<lambda>entry. fst entry \<noteq> ps_nodeIndex (new ! i)) ?fdp = drop i ?fdp"
    unfolding at by (rule dropWhile_index) (use dist fst i len in simp_all)
  also have "\<dots> = (?fdp ! i) # drop (Suc i) ?fdp" by (rule Cons_nth_drop_Suc [symmetric]) (use i len in simp)
  finally have dw: "dropWhile (\<lambda>entry. fst entry \<noteq> ps_nodeIndex (new ! i)) ?fdp = (?fdp ! i) # drop (Suc i) ?fdp" .
  have rest: "map fst (drop (Suc i) ?fdp) = map ps_nodeIndex (drop (Suc i) new)"
    using arg_cong [OF fst, of "drop (Suc i)"] by (simp add: drop_map)
  have "distinct (map ps_nodeIndex (drop i new))" using dist by (simp add: drop_map [symmetric])
  then have dist': "distinct (ps_nodeIndex (new ! i) # map ps_nodeIndex (drop (Suc i) new))"
    using i by (simp flip: Cons_nth_drop_Suc)
  have "deriveAlong (cs_kdf cs) (drop (Suc i) ?fdp) [(ps_nodeIndex (new ! i), ps_secret (new ! i))] (ps_secret (new ! i)) =
    Inr ([(ps_nodeIndex (new ! i), ps_secret (new ! i))] @ zip (map fst (drop (Suc i) ?fdp)) (map ps_secret (drop (Suc i) new)),
      last (ps_secret (new ! i) # map ps_secret (drop (Suc i) new)))"
  proof (rule deriveAlong_chain)
    show "secretChain (cs_kdf cs) (ps_secret (new ! i)) (map ps_secret (drop (Suc i) new))"
      using secretChain_drop [OF chain, of i] i by (simp add: drop_map)
    show "distinct (map fst [(ps_nodeIndex (new ! i), ps_secret (new ! i))] @ map fst (drop (Suc i) ?fdp))"
      unfolding rest using dist' by simp
  qed (use len in simp)
  moreover have "[(ps_nodeIndex (new ! i), ps_secret (new ! i))] @ zip (map ps_nodeIndex (drop (Suc i) new)) (map ps_secret (drop (Suc i) new))
      = map (\<lambda>p. (ps_nodeIndex p, ps_secret p)) (drop i new)"
    using i by (simp add: zip_map_map zip_same_conv_map flip: Cons_nth_drop_Suc)
  moreover have "last (ps_secret (new ! i) # map ps_secret (drop (Suc i) new)) = ps_secret (last new)"
  proof -
    have "ps_secret (new ! i) # map ps_secret (drop (Suc i) new) = map ps_secret (drop i new)"
      using i by (simp flip: Cons_nth_drop_Suc)
    then show ?thesis using i by (simp add: last_map)
  qed
  ultimately show ?thesis unfolding pathSecretsAlongFilteredPath_def fdp res_bind_Inr dw rest by simp
qed

section \<open>Keeping the invariant\<close>

lemma keys_from:
  assumes c: "committedTree d t l excl cs gc secret cp pk new" and kem: "kemCorrect (cs_hpke cs)"
    and n: "n < length new" and v: "verify = None \<or> verify = Some (cp_tree cp)"
  shows "\<exists>keys. toPrivateKeyPath (map (\<lambda>p. (ps_nodeIndex p, ps_secret p)) (drop n new)) r cs verify = Inr keys \<and>
    pkp_leafIndex keys = r \<and>
    fst ` set (pkp_privateKeys keys) = ancestorAt l 0 ` {j \<in> set (filteredLevels d t l). filteredLevels d t l ! n \<le> j} \<and>
    (\<forall>i k. (i, k) \<in> set (pkp_privateKeys keys) \<longrightarrow>
      (\<exists>nd. sparse_get (cp_tree cp) i = Some nd \<and> keyOpens (cs_hpke cs) k (getHpkePublicKey nd)))"
proof -
  let ?f = "ancestorAt l 0" and ?ks = "filteredLevels d t l"
  have nodes: "map ps_nodeIndex new = map ?f ?ks" and derive: "list_all2 (\<lambda>p k. derivesTo cs (ps_secret p) (pk k)) new ?ks"
    and parents: "\<And>j. j \<in> set ?ks \<Longrightarrow> \<exists>ph. sparse_get (cp_tree cp) (?f j) =
       Some (NodeParent \<lparr>pn_hpkePublicKey = pk j, pn_parentHash = ph, pn_unmergedLeaves = []\<rparr>)"
    using c unfolding committedTree_def Let_def by blast+
  have len: "length ?ks = length new" using arg_cong [OF nodes, of length] by simp
  have "\<exists>nd. sparse_get (cp_tree cp) i = Some nd \<and> derivesTo cs s (getHpkePublicKey nd)"
    if m: "(i, s) \<in> set (map (\<lambda>p. (ps_nodeIndex p, ps_secret p)) (drop n new))" for i s
  proof -
    obtain p where p: "p \<in> set (drop n new)" "i = ps_nodeIndex p" "s = ps_secret p" using m by auto
    then obtain m where m: "m < length new" "p = new ! m" by (metis in_set_conv_nth in_set_dropD)
    have "i = ?f (?ks ! m)" using arg_cong [OF nodes, of "\<lambda>xs. xs ! m"] m p len by simp
    moreover have "derivesTo cs s (pk (?ks ! m))" using derive m p by (auto simp: list_all2_conv_all_nth)
    ultimately show ?thesis using parents [of "?ks ! m"] m len by (auto simp: getHpkePublicKey_def)
  qed
  from toPrivateKeyPath_derives [OF kem this v, where r = r] obtain keys where
    keys: "toPrivateKeyPath (map (\<lambda>p. (ps_nodeIndex p, ps_secret p)) (drop n new)) r cs verify = Inr keys"
      "pkp_leafIndex keys = r" "fst ` set (pkp_privateKeys keys) = fst ` set (map (\<lambda>p. (ps_nodeIndex p, ps_secret p)) (drop n new))"
      "\<forall>i k. (i, k) \<in> set (pkp_privateKeys keys) \<longrightarrow> (\<exists>nd. sparse_get (cp_tree cp) i = Some nd \<and> keyOpens (cs_hpke cs) k (getHpkePublicKey nd))"
    by blast
  have "fst ` set (map (\<lambda>p. (ps_nodeIndex p, ps_secret p)) (drop n new)) = set (map ps_nodeIndex (drop n new))"
    by (simp add: image_image)
  also have "\<dots> = ?f ` set (drop n ?ks)" using arg_cong [OF nodes, of "drop n"] by (simp add: drop_map)
  also have "set (drop n ?ks) = {j \<in> set ?ks. ?ks ! n \<le> j}"
  proof -
    note sorted = filteredLevels_sorted [of d t l]
    show ?thesis
    proof (intro equalityI subsetI)
      fix j assume "j \<in> set (drop n ?ks)"
      then obtain m where "m < length ?ks" "n \<le> m" "j = ?ks ! m"
        by (auto simp: in_set_conv_nth) (metis add.commute le_add1 less_diff_conv)
      then show "j \<in> {j \<in> set ?ks. ?ks ! n \<le> j}"
        using sorted_wrt_nth_less [OF sorted, of n m] by (cases "n = m") auto
    next
      fix j assume j: "j \<in> {j \<in> set ?ks. ?ks ! n \<le> j}"
      then obtain m where m: "m < length ?ks" "j = ?ks ! m" by (auto simp: in_set_conv_nth)
      have "\<not> m < n" using sorted_wrt_nth_less [OF sorted, of m n] n len j m by auto
      then have "drop n ?ks ! (m - n) = j" "m - n < length (drop n ?ks)" using m by auto
      then show "j \<in> set (drop n ?ks)" by (metis nth_mem)
    qed
  qed
  finally show ?thesis using keys by (intro exI [of _ keys]) simp
qed

text \<open>Whoever learns the secrets from the meeting point up keeps the invariant.\<close>

lemma memberKeys_step:
  assumes l: "0 \<le> l" "l < 2 ^ d" and r: "0 \<le> r" "r \<noteq> l"
    and c: "committedTree d t l excl cs gc secret cp pk new" and mk: "memberKeys hpke t r path"
    and meet: "\<And>i. r div 2 ^ i = l div 2 ^ i \<longleftrightarrow> k \<le> i"
    and p': "pkp_leafIndex p' = r"
    and new': "\<And>j. j \<in> set (filteredLevels d t l) \<Longrightarrow> k \<le> j \<Longrightarrow> heldKey p' (ancestorAt l 0 j) \<noteq> None"
    and held: "\<And>i key. heldKey p' i = Some key \<Longrightarrow>
      (i \<in> ancestorAt l 0 ` {j \<in> set (filteredLevels d t l). k \<le> j} \<and>
        (\<exists>nd. sparse_get (cp_tree cp) i = Some nd \<and> keyOpens hpke key (getHpkePublicKey nd))) \<or>
      (heldKey path i = Some key \<and> i \<notin> ancestorAt l 0 ` {j \<in> set (filteredLevels d t l). k \<le> j})"
    and kept: "\<And>i. heldKey path i \<noteq> None \<Longrightarrow> sparse_get (cp_tree cp) i \<noteq> None \<Longrightarrow> heldKey p' i \<noteq> None"
  shows "memberKeys hpke (cp_tree cp) r p'"
proof -
  let ?f = "ancestorAt l 0" and ?ks = "filteredLevels d t l"
  have same: "\<And>i. i \<noteq> ?f 0 \<Longrightarrow> i \<notin> ?f ` set ?ks \<Longrightarrow> sparse_get (cp_tree cp) i = sparse_get t i"
    using c unfolding committedTree_def Let_def by blast
  have shared: "i = j \<and> k \<le> j" if "ancestorAt r 0 i = ?f j" for i j
  proof -
    have "nodeAt i (r div 2 ^ i) = nodeAt j (l div 2 ^ j)" using that by (simp add: ancestorAt_def)
    then have "i = j" "r div 2 ^ i = l div 2 ^ j"
      using nodeAt_inj [of i "r div 2 ^ i" j "l div 2 ^ j"] r l by (auto simp: pos_imp_zdiv_nonneg_iff)
    then show ?thesis using meet by simp
  qed
  have k0: "k \<noteq> 0" using meet [of 0] r by auto
  have off: "sparse_get (cp_tree cp) (ancestorAt r 0 i) = sparse_get t (ancestorAt r 0 i)"
    if "ancestorAt r 0 i \<notin> ?f ` {j \<in> set ?ks. k \<le> j}" for i
  proof (rule same)
    show "ancestorAt r 0 i \<noteq> ?f 0" using shared [of i 0] k0 by auto
    show "ancestorAt r 0 i \<notin> ?f ` set ?ks" using shared [of i] that by blast
  qed
  have path_r: "heldKey path i \<noteq> None \<Longrightarrow> \<exists>j. i = ancestorAt r 0 j" for i using mk by (simp add: memberKeys_def)
  have "keysMatch hpke (cp_tree cp) p'"
    unfolding keysMatch_def
  proof (intro allI impI)
    fix i key n assume h: "heldKey p' i = Some key" and n: "sparse_get (cp_tree cp) i = Some n"
    show "keyOpens hpke key (getHpkePublicKey n)"
      using held [OF h]
    proof (elim disjE conjE)
      assume h0: "heldKey path i = Some key" and out: "i \<notin> ?f ` {j \<in> set ?ks. k \<le> j}"
      obtain j where j: "i = ancestorAt r 0 j" using path_r [of i] h0 by auto
      have "sparse_get t i = Some n" using off [of j] out n unfolding j by simp
      then show ?thesis using mk h0 unfolding memberKeys_def keysMatch_def by blast
    qed (use n in auto)
  qed
  moreover have "\<exists>j. i = ancestorAt r 0 j" if h: "heldKey p' i \<noteq> None" for i
  proof -
    obtain key where "heldKey p' i = Some key" using h by blast
    from held [OF this] show ?thesis
    proof (elim disjE conjE)
      assume "i \<in> ?f ` {j \<in> set ?ks. k \<le> j}"
      then obtain j where j: "k \<le> j" "i = ?f j" by blast
      then have "i = ancestorAt r 0 j" using meet [of j] by (simp add: ancestorAt_def)
      then show ?thesis by blast
    qed (use path_r [of i] in auto)
  qed
  moreover have "heldKey p' i \<noteq> None" if ne: "sparse_get (cp_tree cp) i \<noteq> None" and re: "reaches (cp_tree cp) i r" for i
  proof (cases "i \<in> ?f ` {j \<in> set ?ks. k \<le> j}")
    case True
    then show ?thesis using new' by blast
  next
    case False
    obtain j where j: "i = ancestorAt r 0 j"
      using re unfolding reaches_def ancestorAt_def by (metis diff_zero div_by_1 nodeAt_0 power_0)
    have "sparse_get (cp_tree cp) i = sparse_get t i" using off [of j] False unfolding j by simp
    then have "sparse_get t i \<noteq> None" "reaches t i r" using ne re by (simp_all add: reaches_def)
    then have "heldKey path i \<noteq> None" using mk by (simp add: memberKeys_def)
    then show ?thesis using kept ne by blast
  qed
  ultimately show ?thesis using p' by (simp add: memberKeys_def)
qed

lemma members_meet:
  assumes wf: "wfTree d t" and l: "0 \<le> l" "l < 2 ^ d" and r: "0 \<le> r" "r < 2 ^ d" "r \<noteq> l"
    and member: "sparse_get t (2 * r) \<noteq> None"
  obtains k where "k \<in> set (filteredLevels d t l)" "\<forall>i. r div 2 ^ i = l div 2 ^ i \<longleftrightarrow> k \<le> i"
    "\<exists>i\<in>set (sendResolution t l k). sparse_get t i \<noteq> None \<and> reaches t i r"
proof -
  obtain k where k: "1 \<le> k" "k \<le> d" "r div 2 ^ (k - 1) = flip (l div 2 ^ (k - 1))" "\<And>i. r div 2 ^ i = l div 2 ^ i \<longleftrightarrow> k \<le> i"
    by (rule paths_meet [OF l r]) blast
  have "inTree d (k - 1) (flip (l div 2 ^ (k - 1)))"
    using inTree_flip [OF inTree_path [OF l, of "k - 1"]] k by simp
  then obtain res where res: "resolution t (nodeAt (k - 1) (flip (l div 2 ^ (k - 1)))) = Inr res"
      "goodResolution t (k - 1) (flip (l div 2 ^ (k - 1))) res"
    using resolution_good [OF wf] by blast
  have send: "sendResolution t l k = res" using res(1) by (simp add: sendResolution_def resolutionOf_def copathAt_def)
  have i: "\<exists>i\<in>set (sendResolution t l k). sparse_get t i \<noteq> None \<and> reaches t i r"
    using res(2) k(3) member unfolding send goodResolution_def by blast
  then have "k \<in> set (filteredLevels d t l)" using k(1,2) by (auto simp: filteredLevels_def simp del: upt_Suc)
  then show thesis using i k(4) by (intro that) auto
qed

lemma reaches_kept: "reaches t i r \<Longrightarrow> i \<noteq> 2 * r \<Longrightarrow> odd i"
  using nodeAt_mod_2 by (auto simp: reaches_def odd_iff_mod_2_eq_one)

lemma path_nonempty:
  assumes "committedTree d t l excl cs gc secret cp pk new" "k \<in> set (filteredLevels d t l)"
  shows "new \<noteq> [] \<and> cp_pathSecrets cp = new \<and> length new = length (filteredLevels d t l)"
proof -
  have n: "map ps_nodeIndex new = map (ancestorAt l 0) (filteredLevels d t l)"
    and s: "cp_pathSecrets cp = (if new = [] then [\<lparr>ps_nodeIndex = ancestorAt l 0 0, ps_secret = secret, ps_sendTo = []\<rparr>] else new)"
    using assms(1) unfolding committedTree_def Let_def by blast+
  have "length new = length (filteredLevels d t l)" using arg_cong [OF n, of length] by simp
  then show ?thesis using assms(2) s by auto
qed

lemma merged_step:
  assumes l: "0 \<le> l" "l < 2 ^ d" and r: "0 \<le> r" "r \<noteq> l"
    and c: "committedTree d t l excl cs gc secret cp pk new" and mk: "memberKeys hpke t r path"
    and meet: "\<forall>i. r div 2 ^ i = l div 2 ^ i \<longleftrightarrow> k \<le> i"
    and keys: "pkp_leafIndex keys = r"
      "fst ` set (pkp_privateKeys keys) = ancestorAt l 0 ` {j \<in> set (filteredLevels d t l). k \<le> j}"
      "\<forall>i key. (i, key) \<in> set (pkp_privateKeys keys) \<longrightarrow>
        (\<exists>nd. sparse_get (cp_tree cp) i = Some nd \<and> keyOpens hpke key (getHpkePublicKey nd))"
    and m: "m = mergePrivateKeyPaths path keys \<or> m = mergePrivateKeyPaths keys path \<and> distinct (map fst (pkp_privateKeys path)) \<and>
      (\<forall>i\<in>ancestorAt l 0 ` {j \<in> set (filteredLevels d t l). k \<le> j}. heldKey path i = None)"
  shows "memberKeys hpke (cp_tree cp) r (pruneBlankedNodes m (cp_tree cp))"
proof -
  let ?f = "ancestorAt l 0" and ?t = "cp_tree cp" and ?S = "ancestorAt l 0 ` {j \<in> set (filteredLevels d t l). k \<le> j}"
  have dom: "heldKey keys i \<noteq> None \<longleftrightarrow> i \<in> ?S" for i
    using keys(2) by (simp add: heldKey_def map_of_eq_None_iff)
  have inS: "i \<in> ?S" if "(i, key) \<in> set (pkp_privateKeys keys)" for i key
    using imageI [OF that, of fst] unfolding keys(2) by simp
  have none: "heldKey m i = None \<longleftrightarrow> heldKey path i = None \<and> heldKey keys i = None" for i
    using m heldKey_merge(2) [of path keys i] heldKey_merge(2) [of keys path i] by (elim disjE) auto
  have some: "(i, key) \<in> set (pkp_privateKeys keys) \<or> (heldKey path i = Some key \<and> i \<notin> ?S)"
    if h: "heldKey m i = Some key" for i key
    using m
  proof
    assume "m = mergePrivateKeyPaths path keys"
    then show ?thesis using h heldKey_merge(1) dom by metis
  next
    assume "m = mergePrivateKeyPaths keys path \<and> distinct (map fst (pkp_privateKeys path)) \<and> (\<forall>i\<in>?S. heldKey path i = None)"
    then have b: "m = mergePrivateKeyPaths keys path" "distinct (map fst (pkp_privateKeys path))" "\<forall>i\<in>?S. heldKey path i = None"
      by simp_all
    show ?thesis
    proof (cases "heldKey path i")
      case None
      then have "heldKey keys i = Some key" using h heldKey_merge(1) [of keys path i key] b(1) by (auto simp: heldKey_def dest: weak_map_of_SomeI)
      then show ?thesis by (auto simp: heldKey_def dest: map_of_SomeD)
    next
      case (Some key')
      then have i: "i \<notin> ?S" using bspec [OF b(3), of i] by (simp only:) blast
      then have "heldKey keys i = None" using dom [of i] by blast
      then have "(i, key) \<in> set (pkp_privateKeys path)" using h heldKey_merge(1) [of keys path i key] b(1) by simp
      then show ?thesis using i b(2) by (simp add: heldKey_def)
    qed
  qed
  show ?thesis
  proof (rule memberKeys_step [OF l r c mk meet [rule_format]])
    show "heldKey (pruneBlankedNodes m ?t) (?f j) \<noteq> None" if "j \<in> set (filteredLevels d t l)" "k \<le> j" for j
    proof -
      have "?f j \<in> ?S" using that by blast
      then obtain key where "heldKey keys (?f j) = Some key" using dom by blast
      then have "(?f j, key) \<in> set (pkp_privateKeys keys)" "heldKey keys (?f j) \<noteq> None" by (auto simp: heldKey_def dest: map_of_SomeD)
      then show ?thesis using keys(3) none by (force simp: heldKey_prune)
    qed
    show "(i \<in> ?S \<and> (\<exists>nd. sparse_get ?t i = Some nd \<and> keyOpens hpke key (getHpkePublicKey nd))) \<or>
      (heldKey path i = Some key \<and> i \<notin> ?S)" if h: "heldKey (pruneBlankedNodes m ?t) i = Some key" for i key
    proof -
      have "heldKey m i = Some key" using h by (simp add: heldKey_prune split: if_splits)
      from some [OF this] show ?thesis using inS keys(3) by blast
    qed
    show "heldKey (pruneBlankedNodes m ?t) i \<noteq> None" if "heldKey path i \<noteq> None" "sparse_get ?t i \<noteq> None" for i
      using that none [of i] by (cases "heldKey m i") (simp_all add: heldKey_prune)
  qed (use m mk keys(1) in \<open>auto simp: memberKeys_def\<close>)
qed

text \<open>Where the search for the common ancestor ends.\<close>

lemma meeting_point:
  assumes wf: "wfTree d t" and l: "0 \<le> l" "l < 2 ^ d" and r: "0 \<le> r" "r < 2 ^ d" "r \<noteq> l"
    and member: "sparse_get t (2 * r) \<noteq> None" and c: "committedTree d t l excl cs gc secret cp pk new"
  obtains n k where "n < length new" "filteredLevels d t l ! n = k" "k \<in> set (filteredLevels d t l)"
    "\<forall>i. r div 2 ^ i = l div 2 ^ i \<longleftrightarrow> k \<le> i" "ps_nodeIndex (new ! n) = ancestorAt l 0 k"
    "\<exists>i\<in>set (sendResolution t l k). sparse_get t i \<noteq> None \<and> reaches t i r"
    "res_bind (filteredDirectPathAndCopathResolution l (cp_tree cp)) (\<lambda>fdp. commonAncestor_loop (cp_tree cp) r fdp 0) =
      Inr (ancestorAt l 0 k, sendResolution t l k, n)"
proof -
  let ?f = "ancestorAt l 0" and ?ks = "filteredLevels d t l" and ?t = "cp_tree cp"
  obtain k where k: "k \<in> set ?ks" "\<forall>i. r div 2 ^ i = l div 2 ^ i \<longleftrightarrow> k \<le> i"
    and recipient: "\<exists>i\<in>set (sendResolution t l k). sparse_get t i \<noteq> None \<and> reaches t i r"
    by (rule members_meet [OF wf l r member])
  have kd: "k \<in> {1..d}" using k(1) filteredLevels_range [of d t l] by blast
  note wft = wfTree_committed [OF wf l c] and levels = committed_levels [OF wf l c]
  have nodes: "map ps_nodeIndex new = map ?f ?ks" using c unfolding committedTree_def Let_def by blast
  have anc: "isAncestor (leafToNodeIndex r) (?f j) (int (length ?t)) = Inr (k \<le> j)" if "j \<in> set ?ks" for j
  proof -
    have "1 \<le> j" "j \<le> d" using that filteredLevels_range [of d t l] by auto
    from isAncestor_path [OF wfTree_full [OF wft] l r(1,2) this] k(2) show ?thesis by simp
  qed
  obtain n where n: "n < length ?ks" "?ks ! n = k"
      "commonAncestor_loop ?t r (map (\<lambda>j. (?f j, sendResolution ?t l j)) ?ks) 0 = Inr (?f k, sendResolution ?t l k, n)"
    using commonAncestor_loop_found [OF anc filteredLevels_sorted k(1), where n = 0] by (metis add_0)
  have nn: "n < length new" using n(1) arg_cong [OF nodes, of length] by simp
  then have "ps_nodeIndex (new ! n) = ?f k" using arg_cong [OF nodes, of "\<lambda>xs. xs ! n"] n by simp
  then show thesis using n nn k recipient filtered_levels(1) [OF wft l] levels(2) levels(1) [OF kd] by (intro that) simp_all
qed

lemma receiver_gets_keys:
  assumes wf: "wfTree d t" and l: "0 \<le> l" "l < 2 ^ d" and r: "0 \<le> r" "r < 2 ^ d" "r \<noteq> l"
    and member: "sparse_get t (2 * r) \<noteq> None" and mk: "memberKeys (cs_hpke cs) t r path"
    and excl: "\<forall>i\<in>set excl. even i" "2 * r \<notin> set excl"
    and kem: "kemCorrect (cs_hpke cs)" and e0: "validEntry digest t e0"
    and c: "createUpdatePath digest h t e0 l gc sk cs excl patch secret = Inr (cp, e)"
    and commit: "deriveSecret (ps_secret (last (cp_pathSecrets cp))) ''path'' (cs_kdf cs) = Inr commitSecret"
  shows "\<exists>keys. updatePrivateKeyPath (cp_tree cp) path l (gc\<lparr>gc_treeHash := cp_treeHash cp, gc_epoch := gc_epoch gc + 1\<rparr>)
      (cp_updatePath cp) excl cs = Inr (keys, commitSecret) \<and>
    memberKeys (cs_hpke cs) (cp_tree cp) r (pruneBlankedNodes (mergePrivateKeyPaths path keys) (cp_tree cp))"
proof -
  let ?ks = "filteredLevels d t l" and ?t = "cp_tree cp" and ?up = "cp_updatePath cp"
  let ?gc = "gc\<lparr>gc_treeHash := cp_treeHash cp, gc_epoch := gc_epoch gc + 1\<rparr>"
  obtain pk new where com: "committedTree d t l excl cs gc secret cp pk new" by (rule committed_tree [OF wf l e0 c])
  obtain n k where n: "n < length new" "?ks ! n = k" "k \<in> set ?ks" "\<forall>i. r div 2 ^ i = l div 2 ^ i \<longleftrightarrow> k \<le> i"
    and idx: "ps_nodeIndex (new ! n) = ancestorAt l 0 k"
    and recipient: "\<exists>i\<in>set (sendResolution t l k). sparse_get t i \<noteq> None \<and> reaches t i r"
    and found: "res_bind (filteredDirectPathAndCopathResolution l ?t) (\<lambda>fdp. commonAncestor_loop ?t r fdp 0) =
      Inr (ancestorAt l 0 k, sendResolution t l k, n)"
    by (rule meeting_point [OF wf l r member com])
  have new: "cp_pathSecrets cp = new" "length new = length ?ks" using path_nonempty [OF com n(3)] by auto
  have sendTo: "map ps_sendTo new = map (\<lambda>k. filterNewLeaves (sendResolution t l k) excl) ?ks"
    and enc: "encryptSecretsForPath new t ?t ?gc cs = Inr (up_nodes ?up)"
    using com unfolding committedTree_def Let_def by blast+
  note sealed = encryptSecrets_sealed [OF enc]
  have nn: "n < length (up_nodes ?up)" using n(1) list_all2_lengthD [OF sealed] by simp
  let ?node = "up_nodes ?up ! n" and ?s = "ps_secret (new ! n)"
  have to: "ps_sendTo (new ! n) = filterNewLeaves (sendResolution t l k) excl"
    using arg_cong [OF sendTo, of "\<lambda>xs. xs ! n"] n new(2) by simp
  have cts: "list_all2 (\<lambda>i ct. \<exists>nd. sparse_get t i = Some nd \<and> sealedTo cs ?gc ?s (getHpkePublicKey nd) = Inr ct)
      (filterNewLeaves (sendResolution t l k) excl) (upn_encryptedPathSecret ?node)"
    using list_all2_nthD [OF sealed n(1)] unfolding to .
  have match: "keysMatch (cs_hpke cs) t path" "pkp_leafIndex path = r" using mk by (simp_all add: memberKeys_def)
  have "\<exists>i\<in>set (filterNewLeaves (sendResolution t l k) excl). heldKey path i \<noteq> None"
  proof -
    obtain i where i: "i \<in> set (sendResolution t l k)" "sparse_get t i \<noteq> None" "reaches t i r" using recipient by blast
    have "i \<notin> set excl" using reaches_kept [OF i(3)] excl by blast
    moreover have "heldKey path i \<noteq> None" using mk i(2,3) by (simp add: memberKeys_def)
    ultimately show ?thesis using i(1) by (auto simp: filterNewLeaves_def)
  qed
  from openPathSecret_sealed [OF cts match(1) this]
  have secret: "applyUpdatePathSecret ?t path l ?gc ?up excl cs = Inr (ancestorAt l 0 k, ?s)"
    using found nn list_all2_lengthD [OF cts] match(2)
    by (auto simp: applyUpdatePathSecret_def firstMatchAncestor_def res_bind_eq_Inr)
  obtain keys where keys: "toPrivateKeyPath (map (\<lambda>p. (ps_nodeIndex p, ps_secret p)) (drop n new)) r cs (Some ?t) = Inr keys"
      "pkp_leafIndex keys = r" "fst ` set (pkp_privateKeys keys) = ancestorAt l 0 ` {j \<in> set ?ks. k \<le> j}"
      "\<forall>i k. (i, k) \<in> set (pkp_privateKeys keys) \<longrightarrow> (\<exists>nd. sparse_get ?t i = Some nd \<and> keyOpens (cs_hpke cs) k (getHpkePublicKey nd))"
    using keys_from [OF com kem n(1), of "Some ?t" r] n(2) by blast
  have "updatePrivateKeyPath ?t path l ?gc ?up excl cs = Inr (keys, commitSecret)"
    using secret secrets_along [OF wf l com n(1)] commit keys(1) match(2)
    by (simp add: updatePrivateKeyPath_def idx new(1))
  moreover have "memberKeys (cs_hpke cs) ?t r (pruneBlankedNodes (mergePrivateKeyPaths path keys) ?t)"
    by (rule merged_step [OF l r(1,3) com mk n(4) keys(2-4)]) simp
  ultimately show ?thesis by blast
qed

lemma joiner_gets_keys:
  assumes wf: "wfTree d t" and l: "0 \<le> l" "l < 2 ^ d" and r: "0 \<le> r" "r < 2 ^ d" "r \<noteq> l"
    and member: "sparse_get t (2 * r) \<noteq> None" and mk: "memberKeys (cs_hpke cs) t r path"
    and own: "pkp_privateKeys path = [(2 * r, leafKey)]"
    and kem: "kemCorrect (cs_hpke cs)" and e0: "validEntry digest t e0"
    and c: "createUpdatePath digest h t e0 l gc sk cs excl patch secret = Inr (cp, e)"
  shows "\<exists>a ps path'. firstCommonAncestor (cp_tree cp) r l = Inr a \<and>
    find (\<lambda>ps. ps_nodeIndex ps = a) (cp_pathSecrets cp) = Some ps \<and>
    deriveWelcomePrivateKeyPath (cp_tree cp) l a (ps_secret ps) path cs = Inr path' \<and>
    memberKeys (cs_hpke cs) (cp_tree cp) r path'"
proof -
  let ?ks = "filteredLevels d t l" and ?t = "cp_tree cp"
  obtain pk new where com: "committedTree d t l excl cs gc secret cp pk new" by (rule committed_tree [OF wf l e0 c])
  obtain n k where n: "n < length new" "?ks ! n = k" "k \<in> set ?ks" "\<forall>i. r div 2 ^ i = l div 2 ^ i \<longleftrightarrow> k \<le> i"
    and idx: "ps_nodeIndex (new ! n) = ancestorAt l 0 k"
    and found: "res_bind (filteredDirectPathAndCopathResolution l ?t) (\<lambda>fdp. commonAncestor_loop ?t r fdp 0) =
      Inr (ancestorAt l 0 k, sendResolution t l k, n)"
    by (rule meeting_point [OF wf l r member com])
  have new: "cp_pathSecrets cp = new" using path_nonempty [OF com n(3)] by auto
  have dist: "distinct (map ps_nodeIndex new)" by (rule committed_distinct [OF l com])
  have find: "find (\<lambda>ps. ps_nodeIndex ps = ancestorAt l 0 k) new = Some (new ! n)"
    unfolding find_Some_iff using n(1) idx nth_eq_iff_index_eq [OF dist, of _ n] by (intro exI [of _ n]) auto
  obtain keys where keys: "toPrivateKeyPath (map (\<lambda>p. (ps_nodeIndex p, ps_secret p)) (drop n new)) r cs (Some ?t) = Inr keys"
      "pkp_leafIndex keys = r" "fst ` set (pkp_privateKeys keys) = ancestorAt l 0 ` {j \<in> set ?ks. k \<le> j}"
      "\<forall>i k. (i, k) \<in> set (pkp_privateKeys keys) \<longrightarrow> (\<exists>nd. sparse_get ?t i = Some nd \<and> keyOpens (cs_hpke cs) k (getHpkePublicKey nd))"
    using keys_from [OF com kem n(1), of "Some ?t" r] n(2) by blast
  have "deriveWelcomePrivateKeyPath ?t l (ancestorAt l 0 k) (ps_secret (new ! n)) path cs =
      Inr (pruneBlankedNodes (mergePrivateKeyPaths keys path) ?t)"
    using secrets_along [OF wf l com n(1)] keys(1) mk by (simp add: deriveWelcomePrivateKeyPath_def idx memberKeys_def)
  moreover have "memberKeys (cs_hpke cs) ?t r (pruneBlankedNodes (mergePrivateKeyPaths keys path) ?t)"
  proof (rule merged_step [OF l r(1,3) com mk n(4) keys(2-4)])
    have "heldKey path (ancestorAt l 0 j) = None" if "k \<le> j" for j
    proof -
      have "0 < k" using n(3) filteredLevels_range [of d t l] by auto
      then have "odd (ancestorAt l 0 j)" using that nodeAt_mod_2 [of j "l div 2 ^ j"] by (simp add: ancestorAt_def odd_iff_mod_2_eq_one)
      then show ?thesis by (auto simp: heldKey_def own)
    qed
    then show "mergePrivateKeyPaths keys path = mergePrivateKeyPaths path keys \<or>
        mergePrivateKeyPaths keys path = mergePrivateKeyPaths keys path \<and> distinct (map fst (pkp_privateKeys path)) \<and>
        (\<forall>i\<in>ancestorAt l 0 ` {j \<in> set ?ks. k \<le> j}. heldKey path i = None)" by (simp add: own)
  qed
  moreover have "firstCommonAncestor ?t r l = Inr (ancestorAt l 0 k)"
    using found by (auto simp: firstCommonAncestor_def res_bind_eq_Inr)
  ultimately show ?thesis using find new by blast
qed

text \<open>The committer keeps its side of the invariant.\<close>

lemma pathToPathSecrets_distinct:
  assumes "distinct (map ps_nodeIndex secrets)"
  shows "pathToPathSecrets secrets = map (\<lambda>p. (ps_nodeIndex p, ps_secret p)) secrets"
proof -
  have "foldl (\<lambda>acc cur. AList.update (ps_nodeIndex cur) (ps_secret cur) acc) al ps =
      al @ map (\<lambda>p. (ps_nodeIndex p, ps_secret p)) ps"
    if "distinct (map fst al @ map ps_nodeIndex ps)" for al ps
    using that
  proof (induction ps arbitrary: al)
    case (Cons p ps)
    then have "AList.update (ps_nodeIndex p) (ps_secret p) al = al @ [(ps_nodeIndex p, ps_secret p)]"
      by (intro update_new) auto
    then show ?case using Cons by simp
  qed simp
  from this [of "[]" secrets] show ?thesis using assms by (simp add: pathToPathSecrets_def)
qed

lemma committer_step:
  assumes l: "0 \<le> l" "l < 2 ^ d" and c: "committedTree d t l excl cs gc secret cp pk new" and mk: "memberKeys hpke t l path"
    and own: "keyOpens hpke own (getHpkePublicKey (NodeLeaf (up_leafNode (cp_updatePath cp))))"
    and keys: "ancestorAt l 0 ` set (filteredLevels d t l) \<subseteq> fst ` set (pkp_privateKeys keys)"
      "\<And>i. i \<in> fst ` set (pkp_privateKeys keys) \<Longrightarrow> \<exists>j. i = ancestorAt l 0 j"
      "\<forall>i k. (i, k) \<in> set (pkp_privateKeys keys) \<longrightarrow> (\<exists>nd. sparse_get (cp_tree cp) i = Some nd \<and> keyOpens hpke k (getHpkePublicKey nd))"
  shows "memberKeys hpke (cp_tree cp) l (pruneBlankedNodes (mergePrivateKeyPaths (updateLeafKey path own) keys) (cp_tree cp))"
proof -
  let ?f = "ancestorAt l 0" and ?ks = "filteredLevels d t l" and ?t = "cp_tree cp"
  let ?m = "mergePrivateKeyPaths (updateLeafKey path own) keys"
  have leaf: "sparse_get ?t (?f 0) = Some (NodeLeaf (up_leafNode (cp_updatePath cp)))"
    and same: "\<And>i. i \<noteq> ?f 0 \<Longrightarrow> i \<notin> ?f ` set ?ks \<Longrightarrow> sparse_get ?t i = sparse_get t i"
    using c unfolding committedTree_def Let_def by blast+
  have li: "leafToNodeIndex (pkp_leafIndex path) = ?f 0" using mk by (simp add: memberKeys_def leafToNodeIndex_def ancestorAt_leaf)
  have out: "heldKey keys i = None \<longleftrightarrow> i \<notin> fst ` set (pkp_privateKeys keys)" for i by (simp add: heldKey_def map_of_eq_None_iff)
  have some: "(i, key) \<in> set (pkp_privateKeys keys) \<or> (i \<notin> fst ` set (pkp_privateKeys keys) \<and>
      (if i = ?f 0 then key = own else heldKey path i = Some key))" if h: "heldKey ?m i = Some key" for i key
    using heldKey_merge(1) [OF h] unfolding heldKey_updateLeafKey li out by (auto split: if_splits)
  have none: "heldKey ?m i = None \<longleftrightarrow> heldKey path i = None \<and> i \<noteq> ?f 0 \<and> i \<notin> fst ` set (pkp_privateKeys keys)" for i
    unfolding heldKey_merge(2) [of "updateLeafKey path own" keys i] heldKey_updateLeafKey li out by auto
  have "keysMatch hpke ?t (pruneBlankedNodes ?m ?t)"
    unfolding keysMatch_def
  proof (intro allI impI)
    fix i key n assume "heldKey (pruneBlankedNodes ?m ?t) i = Some key" and n: "sparse_get ?t i = Some n"
    then have "heldKey ?m i = Some key" by (simp add: heldKey_prune)
    from some [OF this] show "keyOpens hpke key (getHpkePublicKey n)"
    proof (elim disjE conjE)
      assume i: "i \<notin> fst ` set (pkp_privateKeys keys)" "if i = ?f 0 then key = own else heldKey path i = Some key"
      show ?thesis
      proof (cases "i = ?f 0")
        case False
        have "i \<notin> ?f ` set ?ks" using i(1) keys(1) by blast
        then have "sparse_get t i = Some n" using same [OF False] n by simp
        then show ?thesis using i(2) False mk unfolding memberKeys_def keysMatch_def by auto
      qed (use i(2) own leaf n in simp)
    next
      assume "(i, key) \<in> set (pkp_privateKeys keys)"
      then have "\<exists>nd. sparse_get ?t i = Some nd \<and> keyOpens hpke key (getHpkePublicKey nd)" using keys(3) by blast
      then show ?thesis using n by auto
    qed
  qed
  moreover have "\<exists>j. i = ?f j" if "heldKey (pruneBlankedNodes ?m ?t) i \<noteq> None" for i
  proof -
    have "heldKey ?m i \<noteq> None" using that by (simp add: heldKey_prune split: if_splits)
    then consider "heldKey path i \<noteq> None" | "i = ?f 0" | "i \<in> fst ` set (pkp_privateKeys keys)"
      unfolding none by (cases "heldKey path i = None"; cases "i = ?f 0"; cases "i \<in> fst ` set (pkp_privateKeys keys)"; simp)
    then show ?thesis using mk keys(2) unfolding memberKeys_def by cases blast+
  qed
  moreover have "heldKey (pruneBlankedNodes ?m ?t) i \<noteq> None" if i: "sparse_get ?t i \<noteq> None" "reaches ?t i l" for i
  proof -
    have "heldKey path i \<noteq> None" if o: "i \<noteq> ?f 0" "i \<notin> fst ` set (pkp_privateKeys keys)"
    proof -
      have "i \<notin> ?f ` set ?ks" using o(2) keys(1) by blast
      then have "sparse_get ?t i = sparse_get t i" using same o(1) by blast
      then have "sparse_get t i \<noteq> None" "reaches t i l" using i by (simp_all add: reaches_def)
      then show ?thesis using mk by (simp add: memberKeys_def)
    qed
    then have "heldKey ?m i \<noteq> None" unfolding none by blast
    then show ?thesis using i(1) by (simp add: heldKey_prune)
  qed
  ultimately show ?thesis using mk by (simp add: memberKeys_def)
qed

lemma committer_keeps_keys:
  assumes wf: "wfTree d t" and l: "0 \<le> l" "l < 2 ^ d" and mk: "memberKeys (cs_hpke cs) t l path"
    and kem: "kemCorrect (cs_hpke cs)" and e0: "validEntry digest t e0"
    and c: "createUpdatePath digest h t e0 l gc sk cs excl patch secret = Inr (cp, e)"
  shows "\<exists>keys. toPrivateKeyPath (pathToPathSecrets (cp_pathSecrets cp)) l cs None = Inr keys \<and>
    memberKeys (cs_hpke cs) (cp_tree cp) l (pruneBlankedNodes (mergePrivateKeyPaths
      (updateLeafKey path (hpke_exportPrivateKey (cs_hpke cs) (cp_privateKey cp))) keys) (cp_tree cp))"
proof -
  let ?f = "ancestorAt l 0" and ?ks = "filteredLevels d t l" and ?t = "cp_tree cp"
  let ?own = "hpke_exportPrivateKey (cs_hpke cs) (cp_privateKey cp)" and ?leaf = "up_leafNode (cp_updatePath cp)"
  obtain pk new where com: "committedTree d t l excl cs gc secret cp pk new" by (rule committed_tree [OF wf l e0 c])
  have leaf: "sparse_get ?t (?f 0) = Some (NodeLeaf ?leaf)"
    and nodes: "map ps_nodeIndex new = map ?f ?ks"
    and secrets: "cp_pathSecrets cp = (if new = [] then [\<lparr>ps_nodeIndex = ?f 0, ps_secret = secret, ps_sendTo = []\<rparr>] else new)"
    and priv: "\<exists>pub. nodeKeyPair cs secret = Inr (cp_privateKey cp, pub) \<and> hpke_exportPublicKey (cs_hpke cs) pub = ln_hpkePublicKey ?leaf"
    using com unfolding committedTree_def Let_def by blast+
  obtain pub where pub: "nodeKeyPair cs secret = Inr (cp_privateKey cp, pub)" "hpke_exportPublicKey (cs_hpke cs) pub = ln_hpkePublicKey ?leaf"
    using priv by blast
  then obtain ikm where "hpke_deriveKeyPair (cs_hpke cs) ikm = (cp_privateKey cp, pub)" by (auto simp: nodeKeyPair_def res_map_eq_Inr)
  from derived_keyOpens [OF kem this] have own: "keyOpens (cs_hpke cs) ?own (getHpkePublicKey (NodeLeaf ?leaf))"
    by (simp add: getHpkePublicKey_def pub(2))
  obtain keys where keys: "toPrivateKeyPath (pathToPathSecrets (cp_pathSecrets cp)) l cs None = Inr keys" "pkp_leafIndex keys = l"
      "fst ` set (pkp_privateKeys keys) = (if new = [] then {?f 0} else ?f ` set ?ks)"
      "\<forall>i k. (i, k) \<in> set (pkp_privateKeys keys) \<longrightarrow> (\<exists>nd. sparse_get ?t i = Some nd \<and> keyOpens (cs_hpke cs) k (getHpkePublicKey nd))"
  proof (cases "new = []")
    case True
    then have ps: "pathToPathSecrets (cp_pathSecrets cp) = [(?f 0, secret)]" by (simp add: secrets pathToPathSecrets_def)
    have "derivesTo cs secret (getHpkePublicKey (NodeLeaf ?leaf))" using pub by (auto simp: derivesTo_def getHpkePublicKey_def)
    then have "\<exists>n. sparse_get ?t i = Some n \<and> derivesTo cs s (getHpkePublicKey n)" if "(i, s) \<in> set [(?f 0, secret)]" for i s
      using leaf that by simp
    from toPrivateKeyPath_derives [OF kem this, where verify = None and r = l and secrets = "[(?f 0, secret)]"] obtain ks' where
      "toPrivateKeyPath [(?f 0, secret)] l cs None = Inr ks'" "pkp_leafIndex ks' = l" "fst ` set (pkp_privateKeys ks') = {?f 0}"
      "\<forall>i k. (i, k) \<in> set (pkp_privateKeys ks') \<longrightarrow> (\<exists>n. sparse_get ?t i = Some n \<and> keyOpens (cs_hpke cs) k (getHpkePublicKey n))"
      by auto
    then show thesis using True by (intro that [of ks']) (simp_all add: ps)
  next
    case False
    then have ps: "pathToPathSecrets (cp_pathSecrets cp) = map (\<lambda>p. (ps_nodeIndex p, ps_secret p)) (drop 0 new)"
      using pathToPathSecrets_distinct [OF committed_distinct [OF l com]] by (simp add: secrets)
    have "?ks ! 0 \<le> j" if j: "j \<in> set ?ks" for j
    proof -
      obtain m where m: "m < length ?ks" "j = ?ks ! m" using j by (metis in_set_conv_nth)
      then show ?thesis using sorted_wrt_nth_less [OF filteredLevels_sorted, of 0 m d t l] by (cases m) simp_all
    qed
    then have "{j \<in> set ?ks. ?ks ! 0 \<le> j} = set ?ks" by blast
    with keys_from [OF com kem, where n = 0 and verify = None and r = l] False obtain ks' where
      "toPrivateKeyPath (map (\<lambda>p. (ps_nodeIndex p, ps_secret p)) (drop 0 new)) l cs None = Inr ks'" "pkp_leafIndex ks' = l"
      "fst ` set (pkp_privateKeys ks') = ?f ` set ?ks"
      "\<forall>i k. (i, k) \<in> set (pkp_privateKeys ks') \<longrightarrow> (\<exists>n. sparse_get ?t i = Some n \<and> keyOpens (cs_hpke cs) k (getHpkePublicKey n))"
      by auto
    then show thesis using False by (intro that [of ks']) (simp_all add: ps)
  qed
  have "memberKeys (cs_hpke cs) ?t l (pruneBlankedNodes (mergePrivateKeyPaths (updateLeafKey path ?own) keys) ?t)"
  proof (rule committer_step [OF l com mk own _ _ keys(4)])
    have "new = [] \<Longrightarrow> ?ks = []" using nodes by simp
    then show "?f ` set ?ks \<subseteq> fst ` set (pkp_privateKeys keys)" using keys(3) by auto
    show "\<exists>j. i = ?f j" if "i \<in> fst ` set (pkp_privateKeys keys)" for i
      using that exI [of "\<lambda>j. i = ?f j" 0] unfolding keys(3) by (auto split: if_splits)
  qed
  then show ?thesis using keys(1) by blast
qed

end
