(* ===== verification/Examples.thy ===== *)
theory Examples imports MessageProtection PathAgreement begin

text \<open>
  Concrete parameters for the witnesses of the properties: a ciphersuite whose functions
  compute, a group context, a member and its ratchets.  Nothing here models code.
\<close>

definition exKdf :: kdfImpl where
  "exKdf = \<lparr>kdf_extract = (\<lambda>salt ikm. salt @ ikm),
     kdf_expand = (\<lambda>prk info n. take (nat n) (prk @ info @ replicate (nat n) 7)), kdf_size = 2\<rparr>"

definition exHash :: hashImpl where
  "exHash = \<lparr>h_digest = (\<lambda>d. take 4 d), h_mac = (\<lambda>k d. k @ d), h_verifyMac = (\<lambda>k t d. t = k @ d)\<rparr>"

definition exHpke :: "(unit, unit) hpkeImpl" where
  "exHpke = \<lparr>hpke_open = (\<lambda>_ _ ct _. Inr ct), hpke_seal = (\<lambda>_ pt _ _. ([], pt)),
     hpke_encryptAead = (\<lambda>k n a m. m), hpke_decryptAead = (\<lambda>k n a c. Inr c),
     hpke_importPrivateKey = (\<lambda>_. Inr ()), hpke_importPublicKey = (\<lambda>_. Inr ()),
     hpke_exportPublicKey = (\<lambda>_. []), hpke_exportPrivateKey = (\<lambda>_. []),
     hpke_exportSecret = (\<lambda>_ _ n _. ([], replicate (nat n) 3)), hpke_importSecret = (\<lambda>_ _ _ n _. Inr (replicate (nat n) 3)),
     hpke_deriveKeyPair = (\<lambda>_. ((), ())),
     hpke_keyLength = 4, hpke_nonceLength = 4\<rparr>"

definition exSignature :: "unit signatureImpl" where
  "exSignature = \<lparr>sig_sign = (\<lambda>_ m. m), sig_verify = (\<lambda>_ m s. m = s)\<rparr>"

definition exSuite :: "(unit, unit, unit) ciphersuiteImpl" where
  "exSuite = \<lparr>cs_hash = exHash, cs_hpke = exHpke, cs_signature = exSignature, cs_kdf = exKdf,
     cs_name = Known MLS_128_DHKEMX25519_AES128GCM_SHA256_Ed25519\<rparr>"

lemma exSuite_ok: "paramsOk (ratchetParams exSuite)" "aeadCorrect (cs_hpke exSuite)" "macCorrect (cs_hash exSuite)"
    "signatureCorrect (cs_signature exSuite) () pk"
  by (auto simp: paramsOk_def ratchetParams_def exSuite_def exKdf_def exHpke_def exHash_def exSignature_def
      aeadCorrect_def macCorrect_def signatureCorrect_def min_def)

definition exContext :: groupContext where
  "exContext = \<lparr>gc_version = PV_mls10, gc_cipherSuite = Known MLS_128_DHKEMX25519_AES128GCM_SHA256_Ed25519,
     gc_groupId = [1, 2], gc_epoch = 3, gc_treeHash = [4], gc_confirmedTranscriptHash = [5], gc_extensions = []\<rparr>"

definition exLeaf :: leafNode where
  "exLeaf = \<lparr>ln_hpkePublicKey = [1], ln_signaturePublicKey = [2], ln_credential = CredentialBasic [3],
     ln_capabilities = \<lparr>cap_versions = [Known PV_mls10], cap_ciphersuites = [], cap_extensions = [],
       cap_proposals = [], cap_credentials = []\<rparr>,
     ln_info = InfoUpdate, ln_extensions = [], ln_signature = [9]\<rparr>"

definition exRatchet :: generationSecret where
  "exRatchet = \<lparr>rt_secret = [1], rt_generation = 0, rt_unused = []\<rparr>"

definition exNode :: secretTreeNode where
  "exNode = \<lparr>sn_handshake = exRatchet, sn_application = exRatchet\<rparr>"

lemma exRatchet_good: "goodRatchet cs [1] exRatchet"
  by (simp add: goodRatchet_def exRatchet_def)

lemma exNode_ratchet [simp]: "ratchetForContentType exNode ct = exRatchet"
  by (cases ct) (simp_all add: ratchetForContentType_def exNode_def)

definition exSend :: "(privateMessage \<times> secretTree) result" where
  "exSend = protectApplicationData () [8] [42] [] exContext [Some exNode] 0 (PadUntilLength 16) exSuite [1, 2, 3, 4]"

lemma exSend_Inr: "\<exists>msg t. exSend = Inr (msg, t)"
proof -
  have "case exSend of Inr _ \<Rightarrow> True | Inl _ \<Rightarrow> False" by code_simp
  then show ?thesis by (auto split: sum.splits)
qed


definition exTree :: ratchetTree where
  "exTree = [Some (NodeLeaf exLeaf)]"

lemma exNode_get: "sparse_get [Some exNode] (leafToNodeIndex 0) = Some exNode"
  and exTree_get: "sparse_get exTree (leafToNodeIndex 0) = Some (NodeLeaf exLeaf)"
  by (simp_all add: sparse_get_def leafToNodeIndex_def exTree_def)

lemma exSecretTree_good: "goodSecretTree cs (\<lambda>_ _. [1]) [Some exNode]"
  by (auto simp: goodSecretTree_def sparse_get_def exNode_def exRatchet_good split: if_splits)

lemma exAccepted:
  "\<exists>msg content tb'. unprotectPrivateMessage [8] msg [Some exNode] exTree exContext defaultKeyRetentionConfig exSuite None
    = Inr (content, tb')"
proof -
  have "case exSend of Inl _ \<Rightarrow> False | Inr (msg, _) \<Rightarrow> (case unprotectPrivateMessage [8] msg [Some exNode] exTree
      exContext defaultKeyRetentionConfig exSuite None of Inl _ \<Rightarrow> False | Inr _ \<Rightarrow> True)"
    by code_simp
  then show ?thesis by (auto split: sum.splits prod.splits)
qed

text \<open>A public message of the member at leaf 0, and one of the group's external sender.\<close>

definition exPublic :: "publicMessage result" where
  "exPublic = protectProposalPublic () [7] exContext [] (ProposalRemove 0) 0 exSuite"

lemma exPublic_accepted:
  "\<exists>msg content. unprotectPublicMessage [7] exContext exTree msg exSuite None = Inr content \<and> okPublicMessage msg \<and>
    fc_sender (pub_content msg) = SenderMember 0"
proof -
  have "case exPublic of Inl _ \<Rightarrow> False | Inr msg \<Rightarrow> okPublicMessage msg \<and>
      (case unprotectPublicMessage [7] exContext exTree msg exSuite None of Inl _ \<Rightarrow> False
       | Inr content \<Rightarrow> (case fc_sender (pub_content msg) of SenderMember l \<Rightarrow> l = 0 | _ \<Rightarrow> False))"
    by code_simp
  then show ?thesis by (fastforce split: sum.splits sender.splits)
qed

definition exExternalContext :: groupContext where
  "exExternalContext = exContext\<lparr>gc_extensions := [\<lparr>extensionType = ExtDefault ET_external_senders,
     extensionData = (case encodeExternalSenders [\<lparr>es_signaturePublicKey = [2], es_credential = CredentialBasic [3]\<rparr>]
       of Inr b \<Rightarrow> b | Inl _ \<Rightarrow> [])\<rparr>]\<rparr>"

definition exExternal :: "publicMessage result" where
  "exExternal = protectExternalProposalPublic () exExternalContext [] (ProposalRemove 0) (SenderExternal 0) exSuite"

lemma exExternal_accepted:
  "\<exists>msg content. unprotectPublicMessage [7] exExternalContext exTree msg exSuite None = Inr content \<and>
    fc_sender (pub_content msg) = SenderExternal 0"
proof -
  have "case exExternal of Inl _ \<Rightarrow> False | Inr msg \<Rightarrow>
      (case unprotectPublicMessage [7] exExternalContext exTree msg exSuite None of Inl _ \<Rightarrow> False
       | Inr content \<Rightarrow> (case fc_sender (pub_content msg) of SenderExternal l \<Rightarrow> l = 0 | _ \<Rightarrow> False))"
    by code_simp
  then show ?thesis by (fastforce split: sum.splits sender.splits)
qed

text \<open>A tree of two members, as the code builds it.\<close>

definition exTree2 :: ratchetTree where
  "exTree2 = [Some (NodeLeaf exLeaf), None, Some (NodeLeaf exLeaf)]"

lemma exTree2_added: "addLeafNode exTree exLeaf = Inr (exTree2, 2)"
  by code_simp

lemma exTree2_reachable: "reachableTree exTree2"
proof -
  have "reachableTree exTree" unfolding exTree_def by (rule founded)
  from added [OF this exTree2_added] show ?thesis by (simp add: exTree2_def)
qed

lemma exTree2_wf: "wfTree 1 exTree2"
proof -
  obtain d where d: "wfTree d exTree2" using reachableTree_wf [OF exTree2_reachable] by blast
  then have "2 ^ Suc d - 1 = length exTree2" by (simp add: wfTree_def full_def)
  then have "(2 :: nat) ^ Suc d = 2 ^ Suc 1" by (simp add: exTree2_def)
  then have "Suc d = Suc 1" by (rule power_inject_exp [THEN iffD1, rotated]) simp
  then have "d = 1" by simp
  with d show ?thesis by simp
qed

text \<open>The same with a parent that the first leaf set in a commit, under a hash of one byte.\<close>

definition exParentTree :: ratchetTree where
  "exParentTree = [Some (NodeLeaf (exLeaf\<lparr>ln_info := InfoCommit [1]\<rparr>)),
     Some (NodeParent \<lparr>pn_hpkePublicKey = [8], pn_parentHash = [], pn_unmergedLeaves = []\<rparr>),
     Some (NodeLeaf exLeaf)]"

section \<open>A suite whose keys are bytes\<close>

text \<open>Private and public keys are the key material itself; a sealed message names its recipient.\<close>

definition exKeyKdf :: kdfImpl where
  "exKeyKdf = \<lparr>kdf_extract = (\<lambda>salt ikm. salt @ ikm),
     kdf_expand = (\<lambda>prk info n. take (nat n) (foldl (+) 0 (prk @ info) # foldl (+) 7 prk # replicate (nat n) 7)), kdf_size = 2\<rparr>"

definition exKeyHpke :: "(bytes, bytes) hpkeImpl" where
  "exKeyHpke = \<lparr>hpke_open = (\<lambda>sk enc ct _. if enc = sk then Inr ct else Inl CryptoError), hpke_seal = (\<lambda>pk pt _ _. (pt, pk)),
     hpke_encryptAead = (\<lambda>k n a m. m), hpke_decryptAead = (\<lambda>k n a c. Inr c),
     hpke_importPrivateKey = Inr, hpke_importPublicKey = Inr,
     hpke_exportPublicKey = (\<lambda>k. k), hpke_exportPrivateKey = (\<lambda>k. k),
     hpke_exportSecret = (\<lambda>_ _ n _. ([], replicate (nat n) 3)), hpke_importSecret = (\<lambda>_ _ _ n _. Inr (replicate (nat n) 3)),
     hpke_deriveKeyPair = (\<lambda>ikm. (ikm, ikm)),
     hpke_keyLength = 4, hpke_nonceLength = 4\<rparr>"

definition exKeySuite :: "(bytes, bytes, unit) ciphersuiteImpl" where
  "exKeySuite = \<lparr>cs_hash = exHash, cs_hpke = exKeyHpke, cs_signature = exSignature, cs_kdf = exKeyKdf,
     cs_name = Known MLS_128_DHKEMX25519_AES128GCM_SHA256_Ed25519\<rparr>"

definition exDigest :: "unit \<Rightarrow> bytes \<Rightarrow> bytes" where
  "exDigest h d = take 4 d"

text \<open>The member at leaf 0 of the two-member tree commits a new path.\<close>

definition exPath :: "((bytes, bytes) createdPath \<times> unit hashEntry option) result" where
  "exPath = createUpdatePath exDigest () exTree2 None 0 exContext () exKeySuite [] noPatch [5, 6]"

lemma exPath_Inr:
  "\<exists>cp e commitSecret. exPath = Inr (cp, e) \<and> freshPathKeys exTree2 0 (cp_updatePath cp) \<and>
     up_nodes (cp_updatePath cp) \<noteq> [] \<and>
     deriveSecret (ps_secret (last (cp_pathSecrets cp))) ''path'' exKeyKdf = Inr commitSecret"
proof -
  have "case exPath of Inl _ \<Rightarrow> False | Inr (cp, e) \<Rightarrow> freshPathKeys exTree2 0 (cp_updatePath cp) \<and>
     up_nodes (cp_updatePath cp) \<noteq> [] \<and>
     (case deriveSecret (ps_secret (last (cp_pathSecrets cp))) ''path'' exKeyKdf of Inr _ \<Rightarrow> True | Inl _ \<Rightarrow> False)"
    by code_simp
  then show ?thesis by (auto split: sum.splits)
qed

text \<open>The two members of the tree, holding their leaf keys.\<close>

lemma leaf_memberKeys:
  assumes "\<And>i. sparse_get t i \<noteq> None \<Longrightarrow> even i" "sparse_get t (2 * r) = Some n" "keyOpens hpke k (getHpkePublicKey n)"
  shows "memberKeys hpke t r \<lparr>pkp_leafIndex = r, pkp_privateKeys = [(2 * r, k)]\<rparr>"
proof -
  have "i = 2 * r" if "sparse_get t i \<noteq> None" "reaches t i r" for i
    using reaches_kept [OF that(2)] assms(1) [OF that(1)] by blast
  moreover have "\<exists>j. 2 * r = ancestorAt r 0 j" by (rule exI [of _ 0]) (simp add: ancestorAt_leaf)
  ultimately show ?thesis using assms(2,3)
    unfolding memberKeys_def keysMatch_def heldKey_def by (simp split: if_splits)
qed

definition exReceiver :: privateKeyPath where
  "exReceiver = \<lparr>pkp_leafIndex = 1, pkp_privateKeys = [(2, [1])]\<rparr>"

definition exCommitter :: privateKeyPath where
  "exCommitter = \<lparr>pkp_leafIndex = 0, pkp_privateKeys = [(0, [1])]\<rparr>"

lemma exKeyHpke_correct: "kemCorrect exKeyHpke" "keyOpens exKeyHpke k k"
  by (auto simp: kemCorrect_def opensFor_def keyOpens_def exKeyHpke_def)

lemma exTree2_get: "sparse_get exTree2 i = (if i = 0 \<or> i = 2 then Some (NodeLeaf exLeaf) else None)"
proof -
  consider "i < 0 \<or> 3 \<le> i" | "i = 0" | "i = 1" | "i = 2" by linarith
  then show ?thesis
  proof cases
    case 1
    then show ?thesis by (auto simp: sparse_get_def exTree2_def)
  qed (simp_all add: sparse_get_def exTree2_def)
qed

lemma exReceiver_keys: "memberKeys exKeyHpke exTree2 1 exReceiver"
  and exCommitter_keys: "memberKeys exKeyHpke exTree2 0 exCommitter"
proof -
  have k: "keyOpens exKeyHpke [1] (getHpkePublicKey (NodeLeaf exLeaf))"
    using exKeyHpke_correct(2) by (simp add: getHpkePublicKey_def exLeaf_def)
  have leaves: "even i" if "sparse_get exTree2 i \<noteq> None" for i using that by (auto simp: exTree2_get split: if_splits)
  have get: "sparse_get exTree2 (2 * 1) = Some (NodeLeaf exLeaf)" "sparse_get exTree2 (2 * 0) = Some (NodeLeaf exLeaf)"
    by (simp_all add: exTree2_get)
  show "memberKeys exKeyHpke exTree2 1 exReceiver" "memberKeys exKeyHpke exTree2 0 exCommitter"
    using leaf_memberKeys [OF leaves get(1) k] leaf_memberKeys [OF leaves get(2) k] by (simp_all add: exReceiver_def exCommitter_def)
qed

end
