(* ===== verification/TreeProperties.thy ===== *)
theory TreeProperties imports ParentHashReturns Examples begin

text \<open>
  Properties of the tree components: tree arithmetic, the ratchet tree and its wire format, tree
  hashes and parent hashes.  Each stands beside a theorem that applies it to a concrete tree.
\<close>

section \<open>The ratchet tree\<close>

text \<open>C20: Whatever leaves are added, updated and removed, in whatever order, starting from a tree of one
  leaf: the array stays a full tree with leaves at even and parents at odd indices, and the
  unmerged leaves a parent lists are distinct, non-blank and below it.\<close>

theorem reachable_trees_wellformed:
  assumes "reachableTree t"
  shows "\<exists>d. wfTree d t"
  by (rule reachableTree_wf [OF assms])

theorem reachable_trees_wellformed_witness:
  "\<exists>d. addLeafNode exTree exLeaf = Inr (exTree2, 2) \<and> wfTree d exTree2"
  using reachable_trees_wellformed [OF exTree2_reachable] exTree2_added by blast

text \<open>C21: Removing a leaf while another remains gives a well-formed tree, no wider than before, in which
  the leaf and its whole direct path are blank and every other node is as it was.\<close>

theorem removal_effect:
  assumes wf: "wfTree d t" and l: "0 \<le> l" "l < 2 ^ d"
    and other: "0 \<le> l'" "l' < 2 ^ d" "l' \<noteq> l" "sparse_get t (2 * l') \<noteq> None"
  shows "\<exists>t' e. removeLeafNode t l = Inr t' \<and> e \<le> d \<and> wfTree e t' \<and> sparse_get t' (2 * l) = None \<and>
    (\<forall>k m. inTree d k m \<longrightarrow> nodeAt k m \<noteq> 2 * l \<longrightarrow> sparse_get t' (nodeAt k m) =
      (if 0 < k \<and> l div 2 ^ k = m then None else sparse_get t (nodeAt k m)))"
proof -
  obtain w where w: "removeLeafNode t l = condenseRatchetTreeAfterRemove w" "writtenAt d t l None w"
    using removeLeafNode_spec [OF wfTree_full [OF wf] l] by blast
  have "inTree d 0 l'" using other by (simp add: leaf_inTree)
  then have "sparse_get w (2 * l') \<noteq> None" using w(2) other(3,4) by (force simp: writtenAt_def)
  moreover have "full d w" using w(2) wfTree_full [OF wf] by (simp add: writtenAt_def full_def)
  ultimately obtain e t' where t': "condenseRatchetTreeAfterRemove w = Inr t'" "e \<le> d" "\<forall>i. sparse_get t' i = sparse_get w i"
    using condense_full by blast
  obtain e' where "e' \<le> d" "wfTree e' t'" using removeLeafNode_wf [OF wf, of l t'] w(1) t'(1) by auto
  then show ?thesis using w t' by (auto simp: writtenAt_def)
qed

theorem removal_effect_witness:
  "\<exists>t'. removeLeafNode exTree2 1 = Inr t' \<and> sparse_get t' 2 = None"
  using removal_effect [OF exTree2_wf, of 1 0] by (auto simp: sparse_get_def exTree2_def)

text \<open>C22: The resolution of a node is free of duplicates, lists only non-blank nodes below it, and covers
  every member below it: someone's own leaf, or a parent whose key the member holds.  A secret
  encrypted to the resolution reaches exactly that subtree.\<close>

theorem resolution_covers_members:
  assumes "wfTree d t" "inTree d k m"
  shows "\<exists>r. resolution t (nodeAt k m) = Inr r \<and> goodResolution t k m r"
  by (rule resolution_good [OF assms])

theorem resolution_covers_members_witness:
  "\<exists>r. resolution exTree2 1 = Inr r \<and> goodResolution exTree2 1 0 r"
  using resolution_covers_members [OF exTree2_wf, of 1 0] by (simp add: inTree_def nodeAt_def)


text \<open>C23: The filtered direct path of a leaf is its direct path without the nodes whose copath child has an
  empty resolution, each with that resolution, and the two functions that compute it agree.\<close>

theorem filtered_direct_path:
  assumes "wfTree d t" "0 \<le> l" "l < 2 ^ d"
  shows "filteredDirectPathAndCopathResolution l t = Inr (filter (\<lambda>(_, r). r \<noteq> [])
      (map (\<lambda>j. (ancestorAt l 0 (Suc j), resolutionOf t (copathAt l 0 j))) [0..<d])) \<and>
    filteredDirectPath l t = res_map (map fst) (filteredDirectPathAndCopathResolution l t)"
  using filtered_spec [OF assms] filtered_agree by blast

theorem filtered_direct_path_witness: "filteredDirectPathAndCopathResolution 0 exTree2 = Inr [(1, [2])]"
proof -
  have "resolutionOf exTree2 (copathAt 0 0 0) = [2]"
    "ancestorAt 0 0 (Suc 0) = 1" by code_simp+
  then show ?thesis using filtered_direct_path [OF exTree2_wf, of 0] by simp
qed

text \<open>C24: The tree-hash cache cannot be observed: with any cache of valid hashes, of this or another hash
  function, the tree hash is the one of the uncached recursion, errors included, and the cache stays
  valid.\<close>

theorem tree_hash_cache_unobservable:
  assumes "full d t" "inTree d k m" "validEntry digest t entry"
  shows "case treeHash digest t (nodeAt k m) h entry of
      Inl e \<Rightarrow> treeHashSpec (digest h) t (nodeAt k m) = Inl e
    | Inr (v, entry') \<Rightarrow> treeHashSpec (digest h) t (nodeAt k m) = Inr v \<and> validEntry digest t entry'"
  by (rule treeHash_agrees [OF assms])

theorem tree_hash_cache_unobservable_witness:
  "case treeHash (\<lambda>h d. h @ d) exTree2 1 [5] None of
      Inl e \<Rightarrow> treeHashSpec (\<lambda>d. [5] @ d) exTree2 1 = Inl e
    | Inr (v, entry') \<Rightarrow> treeHashSpec (\<lambda>d. [5] @ d) exTree2 1 = Inr v \<and> validEntry (\<lambda>h d. h @ d) exTree2 entry'"
proof -
  have "validEntry (\<lambda>h d. h @ d) exTree2 None" "inTree 1 1 0" and root: "nodeAt 1 0 = 1"
    by (simp_all add: validEntry_def nodeAt_def inTree_def)
  from tree_hash_cache_unobservable [OF wfTree_full [OF exTree2_wf] this(2,1), of "[5]"]
  show ?thesis unfolding root .
qed

text \<open>C25: After a leaf is updated, the cache carried over to the new tree holds only hashes of the new
  tree: dropping the leaf and its direct path is enough.\<close>

theorem carried_tree_hashes_valid:
  assumes "wfTree d t" "validEntry digest t entry" "0 \<le> l" "l < 2 ^ d"
  shows "\<exists>t' entry'. updateLeafNode t lf l = Inr t' \<and> carryTreeHashes entry t t' [l] = Inr entry' \<and>
    validEntry digest t' entry'"
proof -
  obtain t' where t': "updateLeafNode t lf l = Inr t'" "writtenAt d t l (Some (NodeLeaf lf)) t'"
    using updateLeafNode_spec [OF wfTree_full [OF assms(1)] assms(3,4)] by blast
  then have "length t' = length t" by (simp add: writtenAt_def)
  from carryTreeHashes_valid [OF wfTree_full [OF assms(1)] this assms(2) _ writtenAt_same [OF t'(2) assms(3)], of "[l]"]
  show ?thesis using t'(1) assms(3,4) by auto
qed

theorem carried_tree_hashes_valid_witness:
  "\<exists>t' entry'. updateLeafNode exTree2 exLeaf 0 = Inr t' \<and>
    carryTreeHashes (Some ((), (\<lambda>_. None))) exTree2 t' [0] = Inr entry'"
  using carried_tree_hashes_valid [OF exTree2_wf, of "\<lambda>_ d. d" "Some ((), (\<lambda>_. None))" 0 exLeaf]
  by (auto simp: validEntry_def)

text \<open>C26: Parent hash verification returns on every tree of fewer than \<open>2 ^ 30\<close> nodes, however they are
  arranged, and neither its answer nor its error depends on the tree hashes and parent hashes that are
  already stored.\<close>

theorem parent_hash_verification_returns:
  assumes "length tree < 2 ^ 30" "soundEntry digest tree e1" "soundEntry digest tree e2"
  shows "\<exists>r1 r2. verifyParentHashes digest tree h e1 = Some r1 \<and> verifyParentHashes digest tree h e2 = Some r2 \<and>
    r1 \<noteq> Inl NeverReturns \<and> res_map fst r1 = res_map fst r2"
proof -
  let ?s = "if parentNodes tree = [] then Inr True
    else res_map (\<lambda>ps. list_all (\<lambda>p. count_list ps p = 1) (parentNodes tree)) (coveredSpec (digest h) tree [0..<length tree])"
  note a = verifyParentHashes_agrees [OF assms(2), of h] and b = verifyParentHashes_agrees [OF assms(3), of h]
  obtain r1 r2 where r: "verifyParentHashes digest tree h e1 = Some r1" "verifyParentHashes digest tree h e2 = Some r2"
    and t: "tracks (soundEntry digest tree) r1 ?s" "tracks (soundEntry digest tree) r2 ?s"
    using a b by blast
  have "returns ?s" using coveredSpec_returns [OF assms(1)] by simp
  with t(1) have "r1 \<noteq> Inl NeverReturns" using tracks_returns returns_def by blast
  moreover have "res_map fst r1 = res_map fst r2"
    using t by (cases r1; cases r2) (auto simp: tracks_def split: sum.splits prod.splits)
  ultimately show ?thesis using r by blast
qed

theorem parent_hash_verification_returns_witness:
  "\<exists>r. verifyParentHashes (\<lambda>_ d. d) exTree2 () None = Some r \<and> r \<noteq> Inl NeverReturns"
proof -
  have "length exTree2 < 2 ^ 30" by (simp add: exTree2_def)
  from parent_hash_verification_returns [OF this, of "\<lambda>_ d. d" None None "()"] show ?thesis by auto
qed

text \<open>C27: A tree that passes the check links every parent node to a node below it that carries its
  parent hash and satisfies the resolution criterion.\<close>

theorem verified_parents_linked:
  assumes "soundEntry digest tree entry" "verifyParentHashes digest tree h entry = Some (Inr (True, entry'))"
    "p \<in> set (parentNodes tree)"
  shows "\<exists>d. linkedTo (digest h) tree d p"
proof -
  obtain ps where ps: "coveredSpec (digest h) tree [0..<length tree] = Inr ps" "count_list ps p = 1"
    using verifyParentHashes_agrees [OF assms(1), of h] assms(2,3)
    by (auto simp: res_map_eq_Inr list_all_iff split: if_splits)
  then have "p \<in> set ps" by (metis count_list_0_iff zero_neq_one)
  from coveredSpec_linked [OF ps(1) this] show ?thesis .
qed

theorem verified_parents_linked_witness: "\<exists>d. linkedTo (take 1) exParentTree d 1"
proof -
  have "case verifyParentHashes (\<lambda>_ d. take 1 d) exParentTree () None of Some (Inr (b, _)) \<Rightarrow> b | _ \<Rightarrow> False"
    by code_simp
  then obtain e where "verifyParentHashes (\<lambda>_ d. take 1 d) exParentTree () None = Some (Inr (True, e))"
    by (auto split: option.splits sum.splits)
  moreover have "1 \<in> set (parentNodes exParentTree)" by code_simp
  ultimately show ?thesis using verified_parents_linked [OF soundEntry_None, of "\<lambda>_ d. take 1 d"] by fast
qed

section \<open>Tree arithmetic\<close>

text \<open>The loop of \<open>level\<close> over shift counts returns exactly on the numbers whose 32-bit form is not
  \<open>-1\<close>; the range assertion in front of it leaves none of those, so \<open>level\<close> always returns.\<close>

theorem level_loop_terminates:
  "(level_loop x 0 = None \<longleftrightarrow> to_int32 x = - 1) \<and> (assertValidNodeIndex x = Inr () \<longrightarrow> level_loop x 0 \<noteq> None)"
proof -
  have "to_int32 x \<noteq> - 1" if "assertValidNodeIndex x = Inr ()"
    using that by (auto simp: assertValidNodeIndex_def split: if_splits)
  then show ?thesis using level_loop_None_iff [of x] by blast
qed

theorem level_loop_terminates_witness: "level_loop 7 0 \<noteq> None"
  using level_loop_terminates [of 7] by (simp add: assertValidNodeIndex_def)

text \<open>In a full tree the two children of a parent node are each other's siblings, lead back to it, and
  split its range of leaves.\<close>

theorem children_split_parent:
  assumes "d \<le> 29" "0 \<le> x" "x < nodeWidth (2 ^ d)" "\<not> isLeaf x"
  shows "\<exists>a b lo mid hi. left x = Inr a \<and> right x = Inr b \<and> parent a (2 ^ d) = Inr x \<and> parent b (2 ^ d) = Inr x \<and>
    sibling a (2 ^ d) = Inr b \<and> sibling b (2 ^ d) = Inr a \<and> leafRange a = Inr (lo, mid) \<and>
    leafRange b = Inr (mid + 1, hi) \<and> leafRange x = Inr (lo, hi)"
proof -
  have d: "d \<le> 30" using assms(1) by simp
  obtain k' m where km': "inTree d k' m" "x = nodeAt k' m"
    using assms(2,3) by (auto simp: nodeWidth_pow2 elim: inTree_exists)
  then obtain k where km: "inTree d (Suc k) m" "x = nodeAt (Suc k) m"
    using assms(4) by (cases k') (auto simp: isLeaf_def)
  have k: "k < d" "k \<le> 29" "0 \<le> m" using km(1) assms(1) by (auto simp: inTree_def)
  note ch = inTree_children [OF km(1)]
  have "left x = Inr (nodeAt k (2 * m))" "right x = Inr (nodeAt k (2 * m + 1))"
    using left_nodeAt [OF k(3), of k] right_nodeAt [OF k(3), of k] k(2) inTree_small [OF km(1) d] km(2) by simp_all
  moreover have "parent (nodeAt k (2 * m)) (2 ^ d) = Inr x" "parent (nodeAt k (2 * m + 1)) (2 ^ d) = Inr x"
    "sibling (nodeAt k (2 * m)) (2 ^ d) = Inr (nodeAt k (2 * m + 1))"
    "sibling (nodeAt k (2 * m + 1)) (2 ^ d) = Inr (nodeAt k (2 * m))"
    using parent_nodeAt [OF ch(1) k(1) d] parent_nodeAt [OF ch(2) k(1) d]
      sibling_nodeAt [OF ch(1) k(1) d] sibling_nodeAt [OF ch(2) k(1) d] km(2) by simp_all
  moreover have "2 * m * 2 ^ k = m * 2 ^ Suc k" "(2 * m + 1) * 2 ^ k = m * 2 ^ Suc k + 2 ^ k - 1 + 1"
    "m * 2 ^ Suc k + 2 ^ k - 1 + 1 + 2 ^ k - 1 = m * 2 ^ Suc k + 2 ^ Suc k - 1"
    by (simp_all add: algebra_simps)
  then have "leafRange (nodeAt k (2 * m)) = Inr (m * 2 ^ Suc k, m * 2 ^ Suc k + 2 ^ k - 1)"
    "leafRange (nodeAt k (2 * m + 1)) = Inr (m * 2 ^ Suc k + 2 ^ k - 1 + 1, m * 2 ^ Suc k + 2 ^ Suc k - 1)"
    unfolding leafRange_nodeAt [OF ch(1) d] leafRange_nodeAt [OF ch(2) d] by (simp_all only:)
  moreover have "leafRange x = Inr (m * 2 ^ Suc k, m * 2 ^ Suc k + 2 ^ Suc k - 1)"
    using leafRange_nodeAt [OF km(1) d] km(2) by simp
  ultimately show ?thesis by blast
qed

theorem children_split_parent_witness: "\<exists>a b. left 3 = Inr a \<and> right 3 = Inr b \<and> sibling a 4 = Inr b"
  using children_split_parent [of 2 3] by (auto simp: nodeWidth_def isLeaf_def)

text \<open>The copath of a leaf has one node per level, and every other leaf of the tree lies below exactly
  one of them: what is encrypted to the copath reaches each other member once.\<close>

theorem copath_partitions_leaves:
  assumes "d \<le> 30" "0 \<le> l" "l < 2 ^ d" "0 \<le> l'" "l' < 2 ^ d" "l' \<noteq> l"
  shows "\<exists>c. copath (leafToNodeIndex l) (2 ^ d) = Inr c \<and> length c = d \<and>
    (\<exists>!j. j < d \<and> (\<exists>lo hi. leafRange (c ! j) = Inr (lo, hi) \<and> lo \<le> l' \<and> l' \<le> hi))"
proof -
  have leaf: "inTree d 0 l" using assms by (simp add: leaf_inTree)
  let ?c = "map (copathAt l 0) [0..<d]"
  have "copath (leafToNodeIndex l) (2 ^ d) = Inr ?c"
    using copath_nodeAt [OF leaf assms(1)] by (simp add: leafToNodeIndex_def mult.commute)
  moreover have "(\<exists>lo hi. leafRange (?c ! j) = Inr (lo, hi) \<and> lo \<le> l' \<and> l' \<le> hi) \<longleftrightarrow> l' div 2 ^ j = flip (l div 2 ^ j)"
    if "j < d" for j
  proof -
    have "inTree d j (flip (l div 2 ^ (j - 0)))"
      using inTree_flip [OF inTree_ancestor [OF leaf, of j]] that by simp
    then have r: "leafRange (?c ! j) = Inr (flip (l div 2 ^ j) * 2 ^ j, flip (l div 2 ^ j) * 2 ^ j + 2 ^ j - 1)"
      using leafRange_nodeAt [OF _ assms(1), of j "flip (l div 2 ^ j)"] that by (simp add: copathAt_def)
    have "l' div 2 ^ j = m \<longleftrightarrow> m * 2 ^ j \<le> l' \<and> l' \<le> m * 2 ^ j + 2 ^ j - 1" for m
    proof -
      have "l' div 2 ^ j * 2 ^ j + l' mod 2 ^ j = l'" "0 \<le> l' mod 2 ^ j" "l' mod 2 ^ j < 2 ^ j"
        by (rule div_mult_mod_eq, simp_all)
      then have "l' div 2 ^ j * 2 ^ j \<le> l' \<and> l' \<le> l' div 2 ^ j * 2 ^ j + 2 ^ j - 1" by linarith
      moreover have "l' div 2 ^ j = m" if "m * 2 ^ j \<le> l'" "l' \<le> m * 2 ^ j + 2 ^ j - 1"
        using int_div_pos_eq [of l' "2 ^ j" m "l' - m * 2 ^ j"] that by (simp add: mult.commute)
      ultimately show ?thesis by blast
    qed
    then show ?thesis using r by auto
  qed
  ultimately show ?thesis using copath_unique [OF assms(2-6)] by (intro exI [of _ ?c]) (simp cong: conj_cong)
qed

theorem copath_partitions_leaves_witness:
  "\<exists>c. copath (leafToNodeIndex 2) 4 = Inr c \<and> length c = 2"
  using copath_partitions_leaves [of 2 2 1] by auto

text \<open>C31: The right child of a parent node is again a valid index, except for the largest index there is,
  where the 32-bit shift overflows and the result is negative.\<close>

theorem right_child_bounds:
  assumes "right x = Inr c"
  shows "if x = 2147483647 then c = - 1073741825 else assertValidNodeIndex c = Inr ()"
proof (cases "x = 2147483647")
  case True
  then show ?thesis using assms right_at_31 by simp
next
  case False
  have x: "0 \<le> x" "x < 2 ^ Suc 30 - 1" "\<not> isLeaf x"
    using assms False by (auto simp: right_def level_eq_Inr res_bind_eq_Inr isLeaf_nodeAt split: if_splits)
  obtain k' m where km: "inTree 30 k' m" "x = nodeAt k' m" using inTree_exists [OF x(1,2)] .
  then obtain k where k: "inTree 30 (Suc k) m" "x = nodeAt (Suc k) m" using x(3) by (cases k') (auto simp: isLeaf_def)
  have "c = nodeAt k (2 * m + 1)"
    using right_nodeAt [of m k] k inTree_small [OF k(1)] assms by (auto simp: inTree_def)
  moreover note inTree_small [OF inTree_children(2) [OF k(1)]]
  moreover have "0 \<le> nodeAt k (2 * m + 1)" using k(1) by (simp add: inTree_def)
  ultimately show ?thesis using False by (simp add: assertValidNodeIndex_def)
qed

theorem right_child_bounds_witness: "right 2147483647 = Inr (- 1073741825)"
  using right_child_bounds [of 2147483647] by (simp add: right_at_31)

section \<open>The tree on the wire\<close>

text \<open>A ratchet tree decodes from a buffer exactly when it is compact and the buffer is its encoding:
  trailing blanks are stripped and restored, and no tree has two encodings.\<close>

theorem ratchet_tree_wire_format:
  "decodeRatchetTree bs 0 = Inr (Some (t, length bs)) \<longleftrightarrow> okRatchetTree t \<and> encodeRatchetTree t = Inr bs"
  using ratchetTree.canonical [of 0 bs t "length bs"] ratchetTree.decode_encode [of t bs] by auto

end
