(* ===== verification/Ciphersuites.thy ===== *)
theory Ciphersuites imports LeafNode begin

unbundle bit_operations_syntax

text \<open>
  The ciphersuite table of \<^verbatim>\<open>src/crypto/ciphersuite.ts\<close> and the refusal of public keys of small
  order, \<^verbatim>\<open>src/crypto/small-order.ts\<close>.  The algorithms themselves are third-party packages; here
  they are names.
\<close>

section \<open>Ciphersuites\<close>

datatype hashAlgorithm = SHA_512 | SHA_384 | SHA_256

datatype signatureAlgorithm = Ed25519 | Ed448 | P256 | P384 | P521 | ML_DSA_87

datatype kemAlgorithm =
    DHKEM_P256_HKDF_SHA256 | DHKEM_X25519_HKDF_SHA256 | DHKEM_X448_HKDF_SHA512
  | DHKEM_P521_HKDF_SHA512 | DHKEM_P384_HKDF_SHA384 | ML_KEM_512 | ML_KEM_768 | ML_KEM_1024 | X_Wing

datatype aeadAlgorithm = AES128GCM | CHACHA20POLY1305 | AES256GCM

datatype kdfAlgorithm = HKDF_SHA256 | HKDF_SHA512 | HKDF_SHA384

record ciphersuite =
  suite_hash :: hashAlgorithm
  suite_kem :: kemAlgorithm
  suite_aead :: aeadAlgorithm
  suite_kdf :: kdfAlgorithm
  suite_signature :: signatureAlgorithm
  suite_name :: ciphersuiteKey

definition ciphersuiteValues :: "(int \<times> ciphersuite) list" where
  "ciphersuiteValues =
    [(1, \<lparr>suite_hash = SHA_256, suite_kem = DHKEM_X25519_HKDF_SHA256, suite_aead = AES128GCM, suite_kdf = HKDF_SHA256,
       suite_signature = Ed25519, suite_name = MLS_128_DHKEMX25519_AES128GCM_SHA256_Ed25519\<rparr>),
     (2, \<lparr>suite_hash = SHA_256, suite_kem = DHKEM_P256_HKDF_SHA256, suite_aead = AES128GCM, suite_kdf = HKDF_SHA256,
       suite_signature = P256, suite_name = MLS_128_DHKEMP256_AES128GCM_SHA256_P256\<rparr>),
     (3, \<lparr>suite_hash = SHA_256, suite_kem = DHKEM_X25519_HKDF_SHA256, suite_aead = CHACHA20POLY1305, suite_kdf = HKDF_SHA256,
       suite_signature = Ed25519, suite_name = MLS_128_DHKEMX25519_CHACHA20POLY1305_SHA256_Ed25519\<rparr>),
     (4, \<lparr>suite_hash = SHA_512, suite_kem = DHKEM_X448_HKDF_SHA512, suite_aead = AES256GCM, suite_kdf = HKDF_SHA512,
       suite_signature = Ed448, suite_name = MLS_256_DHKEMX448_AES256GCM_SHA512_Ed448\<rparr>),
     (5, \<lparr>suite_hash = SHA_512, suite_kem = DHKEM_P521_HKDF_SHA512, suite_aead = AES256GCM, suite_kdf = HKDF_SHA512,
       suite_signature = P521, suite_name = MLS_256_DHKEMP521_AES256GCM_SHA512_P521\<rparr>),
     (6, \<lparr>suite_hash = SHA_512, suite_kem = DHKEM_X448_HKDF_SHA512, suite_aead = CHACHA20POLY1305, suite_kdf = HKDF_SHA512,
       suite_signature = Ed448, suite_name = MLS_256_DHKEMX448_CHACHA20POLY1305_SHA512_Ed448\<rparr>),
     (7, \<lparr>suite_hash = SHA_384, suite_kem = DHKEM_P384_HKDF_SHA384, suite_aead = AES256GCM, suite_kdf = HKDF_SHA384,
       suite_signature = P384, suite_name = MLS_256_DHKEMP384_AES256GCM_SHA384_P384\<rparr>),
     (0xf007, \<lparr>suite_hash = SHA_512, suite_kem = ML_KEM_512, suite_aead = AES128GCM, suite_kdf = HKDF_SHA512,
       suite_signature = Ed25519, suite_name = MLS_128_MLKEM512_AES128GCM_SHA256_Ed25519\<rparr>),
     (0xf008, \<lparr>suite_hash = SHA_512, suite_kem = ML_KEM_512, suite_aead = CHACHA20POLY1305, suite_kdf = HKDF_SHA512,
       suite_signature = Ed25519, suite_name = MLS_128_MLKEM512_CHACHA20POLY1305_SHA256_Ed25519\<rparr>),
     (0xf009, \<lparr>suite_hash = SHA_512, suite_kem = ML_KEM_768, suite_aead = AES256GCM, suite_kdf = HKDF_SHA512,
       suite_signature = Ed25519, suite_name = MLS_256_MLKEM768_AES256GCM_SHA384_Ed25519\<rparr>),
     (0xf00a, \<lparr>suite_hash = SHA_512, suite_kem = ML_KEM_768, suite_aead = CHACHA20POLY1305, suite_kdf = HKDF_SHA512,
       suite_signature = Ed25519, suite_name = MLS_256_MLKEM768_CHACHA20POLY1305_SHA384_Ed25519\<rparr>),
     (0xf00b, \<lparr>suite_hash = SHA_512, suite_kem = ML_KEM_1024, suite_aead = AES256GCM, suite_kdf = HKDF_SHA512,
       suite_signature = Ed25519, suite_name = MLS_256_MLKEM1024_AES256GCM_SHA512_Ed25519\<rparr>),
     (0xf00c, \<lparr>suite_hash = SHA_512, suite_kem = ML_KEM_1024, suite_aead = CHACHA20POLY1305, suite_kdf = HKDF_SHA512,
       suite_signature = Ed25519, suite_name = MLS_256_MLKEM1024_CHACHA20POLY1305_SHA512_Ed25519\<rparr>),
     (0xf00d, \<lparr>suite_hash = SHA_512, suite_kem = X_Wing, suite_aead = AES256GCM, suite_kdf = HKDF_SHA512,
       suite_signature = Ed25519, suite_name = MLS_256_XWING_AES256GCM_SHA512_Ed25519\<rparr>),
     (0xf00e, \<lparr>suite_hash = SHA_512, suite_kem = X_Wing, suite_aead = CHACHA20POLY1305, suite_kdf = HKDF_SHA512,
       suite_signature = Ed25519, suite_name = MLS_256_XWING_CHACHA20POLY1305_SHA512_Ed25519\<rparr>),
     (0xf00f, \<lparr>suite_hash = SHA_512, suite_kem = ML_KEM_1024, suite_aead = AES256GCM, suite_kdf = HKDF_SHA512,
       suite_signature = ML_DSA_87, suite_name = MLS_256_MLKEM1024_AES256GCM_SHA512_MLDSA87\<rparr>),
     (0xf010, \<lparr>suite_hash = SHA_512, suite_kem = ML_KEM_1024, suite_aead = CHACHA20POLY1305, suite_kdf = HKDF_SHA512,
       suite_signature = ML_DSA_87, suite_name = MLS_256_MLKEM1024_CHACHA20POLY1305_SHA512_MLDSA87\<rparr>),
     (0xf011, \<lparr>suite_hash = SHA_512, suite_kem = X_Wing, suite_aead = AES256GCM, suite_kdf = HKDF_SHA512,
       suite_signature = ML_DSA_87, suite_name = MLS_256_XWING_AES256GCM_SHA512_MLDSA87\<rparr>),
     (0xf012, \<lparr>suite_hash = SHA_512, suite_kem = X_Wing, suite_aead = CHACHA20POLY1305, suite_kdf = HKDF_SHA512,
       suite_signature = ML_DSA_87, suite_name = MLS_256_XWING_CHACHA20POLY1305_SHA512_MLDSA87\<rparr>)]"

definition getCiphersuiteFromId :: "int \<Rightarrow> ciphersuite option" where
  "getCiphersuiteFromId i = map_of ciphersuiteValues i"

text \<open>An identifier outside the table gives \<open>undefined\<close>.\<close>

definition getCiphersuiteNameFromId :: "int \<Rightarrow> ciphersuiteKey option" where
  "getCiphersuiteNameFromId i = map_of (reverseMap ciphersuites) i"

text \<open>A name outside the table gives \<open>undefined\<close>, and reading a field of that throws.\<close>

definition getCiphersuiteFromName :: "ciphersuiteName \<Rightarrow> ciphersuite result" where
  "getCiphersuiteFromName name = (case name of
     Known k \<Rightarrow> (case map_of ciphersuites k of None \<Rightarrow> Inl TypeError
       | Some i \<Rightarrow> (case getCiphersuiteFromId i of None \<Rightarrow> Inl TypeError | Some c \<Rightarrow> Inr c))
   | _ \<Rightarrow> Inl TypeError)"

section \<open>Keys of small order\<close>

definition P25519 :: int where
  "P25519 = 2 ^ 255 - 19"

definition Y8_25519 :: int where
  "Y8_25519 = 0x7a03ac9277fdc74ec6cc392cfa53202a0f67100d760b3cba4fd84d3d706a17c7"

definition SMALL_ORDER_Y_25519 :: "int list" where
  "SMALL_ORDER_Y_25519 = [0, 1, P25519 - 1, Y8_25519, P25519 - Y8_25519]"

definition P448 :: int where
  "P448 = 2 ^ 448 - 2 ^ 224 - 1"

definition SMALL_ORDER_Y_448 :: "int list" where
  "SMALL_ORDER_Y_448 = [0, 1, P448 - 1]"

text \<open>From the last byte to the first.\<close>

definition littleEndian :: "bytes \<Rightarrow> int" where
  "littleEndian bs = foldr (\<lambda>b n. push_bit 8 n OR uint b) bs 0"

definition isSmallOrderEd25519 :: "bytes \<Rightarrow> bool" where
  "isSmallOrderEd25519 key =
     (if length key \<noteq> 32 then False
      else let y = littleEndian key AND (push_bit 255 1 - 1) in y mod P25519 \<in> set SMALL_ORDER_Y_25519)"

definition isSmallOrderEd448 :: "bytes \<Rightarrow> bool" where
  "isSmallOrderEd448 key =
     (if length key \<noteq> 57 then False
      else let y = littleEndian (take 56 key) in y mod P448 \<in> set SMALL_ORDER_Y_448)"

definition isSmallOrderSignatureKey :: "signatureAlgorithm \<Rightarrow> bytes \<Rightarrow> bool" where
  "isSmallOrderSignatureKey alg key = (case alg of
     Ed25519 \<Rightarrow> isSmallOrderEd25519 key | Ed448 \<Rightarrow> isSmallOrderEd448 key | _ \<Rightarrow> False)"

definition U8_25519_A :: int where
  "U8_25519_A = 0x00b8495f16056286fdb1329ceb8d09da6ac49ff1fae35616aeb8413b7c7aebe0"

definition U8_25519_B :: int where
  "U8_25519_B = 0x57119fd0dd4e22d8868e1c58c45c44045bef839c55b1d0b1248c50a3bc959c5f"

definition LOW_ORDER_U_25519 :: "int list" where
  "LOW_ORDER_U_25519 = [0, 1, P25519 - 1, U8_25519_A, U8_25519_B]"

definition isLowOrderX25519 :: "bytes \<Rightarrow> bool" where
  "isLowOrderX25519 key =
     (if length key \<noteq> 32 then False
      else let u = littleEndian key AND (push_bit 255 1 - 1) in u mod P25519 \<in> set LOW_ORDER_U_25519)"

definition LOW_ORDER_U_448 :: "int list" where
  "LOW_ORDER_U_448 = [0, 1, P448 - 1]"

definition isLowOrderX448 :: "bytes \<Rightarrow> bool" where
  "isLowOrderX448 key =
     (if length key \<noteq> 56 then False else littleEndian key mod P448 \<in> set LOW_ORDER_U_448)"

definition isLowOrderKemPublicKey :: "kemAlgorithm \<Rightarrow> bytes \<Rightarrow> bool" where
  "isLowOrderKemPublicKey alg key = (case alg of
     DHKEM_X25519_HKDF_SHA256 \<Rightarrow> isLowOrderX25519 key | DHKEM_X448_HKDF_SHA512 \<Rightarrow> isLowOrderX448 key | _ \<Rightarrow> False)"

text \<open>
  Every suite has its row, under its own name.  The listed coordinates are those of the torsion
  points: \<open>y\<close> of an Edwards point of order eight satisfies \<open>d y\<^sup>4 + 2 y\<^sup>2 = 1\<close> with
  \<open>d = - 121665 / 121666\<close>, and \<open>u\<close> of a Montgomery point of order eight satisfies
  \<open>(u\<^sup>2 - 1)\<^sup>2 = 4 u (u\<^sup>2 + 486662 u + 1)\<close>, modulo the prime.
\<close>

lemma ciphersuite_rows: "\<exists>c. getCiphersuiteFromName (Known k) = Inr c \<and> suite_name c = k"
  by (cases k; simp add: getCiphersuiteFromName_def getCiphersuiteFromId_def ciphersuites_def ciphersuiteValues_def)

lemma ciphersuite_names: "getCiphersuiteFromId i = Some c \<Longrightarrow> getCiphersuiteNameFromId i = Some (suite_name c)"
  by (auto simp: getCiphersuiteFromId_def getCiphersuiteNameFromId_def ciphersuiteValues_def ciphersuites_def reverseMap_def
      split: if_splits)

end
