(* ===== verification/Providers.thy ===== *)
theory Providers imports Ciphersuites PathAgreement begin

text \<open>
  The wrappers of \<^verbatim>\<open>src/crypto/implementation\<close> around the platform's primitives and the packages: which
  inputs they refuse, what they hand over and which errors come back.  The platform and the packages are
  arguments: WebCrypto's operations and a curve's are records of functions, a package that is not
  installed is \<open>None\<close>.  Also the two forms in which a signature key pair is given,
  \<^verbatim>\<open>src/leaf-node-patch.ts\<close>.
\<close>

section \<open>Signatures\<close>

text \<open>A signing key is an opaque handle of WebCrypto or raw bytes.\<close>

datatype 'h signKey = CryptoKey 'h | RawKey bytes

record 'h signatureProvider =
  sgp_sign :: "'h signKey \<Rightarrow> bytes \<Rightarrow> bytes result"
  sgp_verify :: "bytes \<Rightarrow> bytes \<Rightarrow> bytes \<Rightarrow> bool result"
  sgp_importSignatureKey :: "bytes \<Rightarrow> 'h signKey result"

text \<open>A curve of a package: signing, verifying, the length of its private keys.\<close>

record curve =
  cv_sign :: "bytes \<Rightarrow> bytes \<Rightarrow> bytes result"
  cv_verify :: "bytes \<Rightarrow> bytes \<Rightarrow> bytes \<Rightarrow> bool result"

type_synonym curves = "signatureAlgorithm \<Rightarrow> curve option"

text \<open>A key shorter than the field is padded in front, a longer one refused.\<close>

definition withFieldLengthKey :: "bytes \<Rightarrow> nat \<Rightarrow> (bytes \<Rightarrow> bytes result) \<Rightarrow> bytes result" where
  "withFieldLengthKey key fieldLength sign =
     (if length key > fieldLength then Inl UsageError
      else if length key = fieldLength then sign key
      else sign (replicate (fieldLength - length key) 0 @ key))"

text \<open>What the packages do with a handle instead of bytes is theirs: they refuse it.\<close>

definition rawKey :: "'h signKey \<Rightarrow> bytes result" where
  "rawKey k = (case k of RawKey bs \<Rightarrow> Inr bs | CryptoKey _ \<Rightarrow> Inl TypeError)"

definition makeNobleSignatureImpl :: "curves \<Rightarrow> signatureAlgorithm \<Rightarrow> 'h signatureProvider result" where
  "makeNobleSignatureImpl curves alg =
     (let fieldLength = (case alg of P256 \<Rightarrow> Some 32 | P384 \<Rightarrow> Some 48 | P521 \<Rightarrow> Some 66 | _ \<Rightarrow> None) in
      case curves alg of
        None \<Rightarrow> Inl DependencyError
      | Some c \<Rightarrow> Inr \<lparr>
          sgp_sign = (\<lambda>signKey message. res_bind (rawKey signKey) (\<lambda>key. case fieldLength of
              Some n \<Rightarrow> withFieldLengthKey key n (\<lambda>k. cv_sign c message k)
            | None \<Rightarrow> cv_sign c message key)),
          sgp_verify = (\<lambda>publicKey message signature. case alg of
              Ed25519 \<Rightarrow> if isSmallOrderEd25519 publicKey then Inr False else cv_verify c signature message publicKey
            | Ed448 \<Rightarrow> if isSmallOrderEd448 publicKey then Inr False else cv_verify c signature message publicKey
            | _ \<Rightarrow> cv_verify c signature message publicKey),
          sgp_importSignatureKey = (\<lambda>seed. Inr (RawKey seed))\<rparr>)"

text \<open>WebCrypto's operations on Ed25519, with the handles of private and of public keys.\<close>

record ('h, 'v) subtleCrypto =
  sub_sign :: "'h \<Rightarrow> bytes \<Rightarrow> bytes"
  sub_verify :: "'v \<Rightarrow> bytes \<Rightarrow> bytes \<Rightarrow> bool"
  sub_importRaw :: "bytes \<Rightarrow> 'v result"
  sub_importPkcs8 :: "bytes \<Rightarrow> 'h result"
  sub_exportRaw :: "'v \<Rightarrow> bytes"

definition ED25519_PKCS8_PREFIX :: bytes where
  "ED25519_PKCS8_PREFIX =
     [0x30, 0x2e, 0x02, 0x01, 0x00, 0x30, 0x05, 0x06, 0x03, 0x2b, 0x65, 0x70, 0x04, 0x22, 0x04, 0x20]"

definition makeWebCryptoSignatureImpl :: "('h, 'v) subtleCrypto \<Rightarrow> 'h signatureProvider" where
  "makeWebCryptoSignatureImpl subtle = \<lparr>
     sgp_sign = (\<lambda>signKey message. case signKey of
         CryptoKey h \<Rightarrow> Inr (sub_sign subtle h message) | RawKey _ \<Rightarrow> Inl TypeError),
     sgp_verify = (\<lambda>publicKey message signature.
         if length publicKey \<noteq> 32 then Inl ValidationError
         else if isSmallOrderEd25519 publicKey then Inr False
         else res_map (\<lambda>key. sub_verify subtle key signature message) (sub_importRaw subtle publicKey)),
     sgp_importSignatureKey = (\<lambda>seed.
         if length seed \<noteq> 32 then Inl ValidationError
         else res_map CryptoKey (sub_importPkcs8 subtle (ED25519_PKCS8_PREFIX @ seed)))\<rparr>"

definition makeSignatureImpl ::
    "('h, 'v) subtleCrypto \<Rightarrow> curves \<Rightarrow> signatureAlgorithm \<Rightarrow> 'h signatureProvider result" where
  "makeSignatureImpl subtle curves alg =
     (if alg = Ed25519 then Inr (makeWebCryptoSignatureImpl subtle) else makeNobleSignatureImpl curves alg)"

section \<open>Key pairs given by the caller\<close>

datatype ('h, 'v) signatureKeyPair = KeyBytes bytes "'h signKey" | CryptoKeyPair 'v 'h

definition resolveSignatureKeyPair ::
    "('h, 'v) subtleCrypto \<Rightarrow> ('h, 'v) signatureKeyPair \<Rightarrow> ciphersuiteName \<Rightarrow> (bytes \<times> 'h signKey) result" where
  "resolveSignatureKeyPair subtle keys name = (case keys of
     KeyBytes publicKey signKey \<Rightarrow> Inr (publicKey, signKey)
   | CryptoKeyPair publicKey privateKey \<Rightarrow>
       res_bind (getCiphersuiteFromName name) (\<lambda>suite.
       if suite_signature suite \<noteq> Ed25519 then Inl UsageError
       else Inr (sub_exportRaw subtle publicKey, CryptoKey privateKey)))"

record ('h, 'v) leafNodePatch =
  lnp_credential :: "credential option"
  lnp_signatureKeyPair :: "('h, 'v) signatureKeyPair option"
  lnp_capabilities :: "capabilities option"
  lnp_extensions :: "extension list option"

definition resolveLeafNodePatch ::
    "('h, 'v) subtleCrypto \<Rightarrow> ('h, 'v) leafNodePatch \<Rightarrow> ciphersuiteName \<Rightarrow> 'h signKey resolvedLeafNodePatch result" where
  "resolveLeafNodePatch subtle patch name =
     (let rest = \<lparr>lp_credential = lnp_credential patch, lp_signature = None,
          lp_capabilities = lnp_capabilities patch, lp_extensions = lnp_extensions patch\<rparr> in
      case lnp_signatureKeyPair patch of
        None \<Rightarrow> Inr rest
      | Some keys \<Rightarrow> res_map (\<lambda>s. rest\<lparr>lp_signature := Some s\<rparr>) (resolveSignatureKeyPair subtle keys name))"

section \<open>Authenticated encryption\<close>

text \<open>AES-GCM of the platform: the additional data is left out where it is empty.\<close>

record gcmImpl =
  gcm_encrypt :: "bytes \<Rightarrow> bytes \<Rightarrow> bytes option \<Rightarrow> bytes \<Rightarrow> bytes result"
  gcm_decrypt :: "bytes \<Rightarrow> bytes \<Rightarrow> bytes option \<Rightarrow> bytes \<Rightarrow> bytes result"

record aeadImpl =
  ae_encrypt :: "bytes \<Rightarrow> bytes \<Rightarrow> bytes \<Rightarrow> bytes \<Rightarrow> bytes result"
  ae_decrypt :: "bytes \<Rightarrow> bytes \<Rightarrow> bytes \<Rightarrow> bytes \<Rightarrow> bytes result"

definition gcmAad :: "bytes \<Rightarrow> bytes option" where
  "gcmAad aad = (if length aad > 0 then Some aad else None)"

definition encryptAesGcm :: "gcmImpl \<Rightarrow> bytes \<Rightarrow> bytes \<Rightarrow> bytes \<Rightarrow> bytes \<Rightarrow> bytes result" where
  "encryptAesGcm gcm key nonce aad plaintext = gcm_encrypt gcm key nonce (gcmAad aad) plaintext"

definition decryptAesGcm :: "gcmImpl \<Rightarrow> bytes \<Rightarrow> bytes \<Rightarrow> bytes \<Rightarrow> bytes \<Rightarrow> bytes result" where
  "decryptAesGcm gcm key nonce aad ciphertext = gcm_decrypt gcm key nonce (gcmAad aad) ciphertext"

definition makeAead :: "gcmImpl \<Rightarrow> aeadImpl option \<Rightarrow> aeadAlgorithm \<Rightarrow> aeadImpl result" where
  "makeAead gcm chacha alg = (case alg of
     AES128GCM \<Rightarrow> Inr \<lparr>ae_encrypt = encryptAesGcm gcm, ae_decrypt = decryptAesGcm gcm\<rparr>
   | AES256GCM \<Rightarrow> Inr \<lparr>ae_encrypt = encryptAesGcm gcm, ae_decrypt = decryptAesGcm gcm\<rparr>
   | CHACHA20POLY1305 \<Rightarrow> (case chacha of None \<Rightarrow> Inl DependencyError | Some a \<Rightarrow> Inr a))"

section \<open>Key encapsulation and the default suite\<close>

text \<open>The Diffie-Hellman groups come with the HPKE package, the others from packages of their own.\<close>

definition makeDhKem ::
    "(kemAlgorithm \<Rightarrow> 'k) \<Rightarrow> (kemAlgorithm \<Rightarrow> 'k) option \<Rightarrow> 'k option \<Rightarrow> kemAlgorithm \<Rightarrow> 'k result" where
  "makeDhKem dhkem mlKem xWing alg =
     (if alg \<in> {ML_KEM_512, ML_KEM_768, ML_KEM_1024} then
        (case mlKem of None \<Rightarrow> Inl DependencyError | Some kems \<Rightarrow> Inr (kems alg))
      else if alg = X_Wing then (case xWing of None \<Rightarrow> Inl DependencyError | Some kem \<Rightarrow> Inr kem)
      else Inr (dhkem alg))"

definition DEFAULT_CIPHERSUITE :: "ciphersuite result" where
  "DEFAULT_CIPHERSUITE = getCiphersuiteFromName (Known MLS_128_DHKEMX25519_AES128GCM_SHA256_Ed25519)"

definition makeKdfImpl :: "(bytes \<Rightarrow> bytes \<Rightarrow> bytes) \<Rightarrow> (bytes \<Rightarrow> bytes \<Rightarrow> int \<Rightarrow> bytes) \<Rightarrow> nat \<Rightarrow> kdfImpl" where
  "makeKdfImpl extract expand hashSize = \<lparr>kdf_extract = extract, kdf_expand = expand, kdf_size = hashSize\<rparr>"

section \<open>Hybrid public key encryption\<close>

text \<open>What the HPKE package throws: the failure of the authenticated decryption, or anything else.\<close>

datatype hpkeFailure = OpenFailure | OtherFailure

record ('pub, 'priv) hpkeSuite =
  hs_open :: "'priv \<Rightarrow> bytes \<Rightarrow> bytes \<Rightarrow> bytes \<Rightarrow> bytes \<Rightarrow> hpkeFailure + bytes"
  hs_seal :: "'pub \<Rightarrow> bytes \<Rightarrow> bytes \<Rightarrow> bytes \<Rightarrow> bytes \<times> bytes"
  hs_senderExport :: "'pub \<Rightarrow> bytes \<Rightarrow> bytes \<Rightarrow> int \<Rightarrow> bytes \<times> bytes"
  hs_recipientExport :: "'priv \<Rightarrow> bytes \<Rightarrow> bytes \<Rightarrow> bytes \<Rightarrow> int \<Rightarrow> hpkeFailure + bytes"
  hs_deserializePrivateKey :: "bytes \<Rightarrow> hpkeFailure + 'priv"
  hs_deserializePublicKey :: "bytes \<Rightarrow> hpkeFailure + 'pub"
  hs_serializePublicKey :: "'pub \<Rightarrow> bytes"
  hs_serializePrivateKey :: "'priv \<Rightarrow> bytes"
  hs_deriveKeyPair :: "bytes \<Rightarrow> 'priv \<times> 'pub"
  hs_keySize :: int
  hs_nonceSize :: int

text \<open>A negative array length throws.\<close>

definition prepadPrivateKeyP521 :: "bytes \<Rightarrow> bytes result" where
  "prepadPrivateKeyP521 k =
     (if length k > 66 then Inl RangeError else Inr (concatUint8Arrays (replicate (66 - length k) 0) k))"

definition hpkeOpenError :: "hpkeFailure \<Rightarrow> mls_error" where
  "hpkeOpenError f = (case f of OpenFailure \<Rightarrow> CryptoVerificationError | OtherFailure \<Rightarrow> CryptoError)"

definition orCryptoError :: "'e + 'a \<Rightarrow> 'a result" where
  "orCryptoError r = (case r of Inl _ \<Rightarrow> Inl CryptoError | Inr x \<Rightarrow> Inr x)"

text \<open>
  Opening is called without additional data; the package gets an empty buffer.  Encrypting does not fail
  on keys and nonces of the suite's lengths, which are the only ones the callers pass: where it throws,
  so does the caller, and the total function here has no such branch.
\<close>

definition makeGenericHpke ::
    "kemAlgorithm \<Rightarrow> (bytes \<Rightarrow> bytes \<Rightarrow> bytes \<Rightarrow> bytes \<Rightarrow> bytes) \<Rightarrow> (bytes \<Rightarrow> bytes \<Rightarrow> bytes \<Rightarrow> bytes \<Rightarrow> bytes result) \<Rightarrow>
     ('pub, 'priv) hpkeSuite \<Rightarrow> ('pub, 'priv) hpkeImpl" where
  "makeGenericHpke kem aeadEncrypt aeadDecrypt cs = \<lparr>
     hpke_open = (\<lambda>privateKey kemOutput ciphertext info.
         case hs_open cs privateKey kemOutput info ciphertext [] of Inl e \<Rightarrow> Inl (hpkeOpenError e) | Inr x \<Rightarrow> Inr x),
     hpke_seal = (\<lambda>publicKey plaintext info aad. hs_seal cs publicKey info plaintext aad),
     hpke_encryptAead = (\<lambda>key nonce aad plaintext.
         aeadEncrypt key nonce (case aad of Some a \<Rightarrow> a | None \<Rightarrow> []) plaintext),
     hpke_decryptAead = (\<lambda>key nonce aad ciphertext.
         orCryptoError (aeadDecrypt key nonce (case aad of Some a \<Rightarrow> a | None \<Rightarrow> []) ciphertext)),
     hpke_importPrivateKey = (\<lambda>k.
         case (if kem = DHKEM_P521_HKDF_SHA512 then prepadPrivateKeyP521 k else Inr k) of
           Inl _ \<Rightarrow> Inl CryptoError | Inr key \<Rightarrow> orCryptoError (hs_deserializePrivateKey cs key)),
     hpke_importPublicKey = (\<lambda>k. orCryptoError (hs_deserializePublicKey cs k)),
     hpke_exportPublicKey = hs_serializePublicKey cs,
     hpke_exportPrivateKey = hs_serializePrivateKey cs,
     hpke_exportSecret = (\<lambda>publicKey exporterContext len info. hs_senderExport cs publicKey info exporterContext len),
     hpke_importSecret = (\<lambda>privateKey exporterContext kemOutput len info.
         orCryptoError (hs_recipientExport cs privateKey info kemOutput exporterContext len)),
     hpke_deriveKeyPair = hs_deriveKeyPair cs,
     hpke_keyLength = hs_keySize cs,
     hpke_nonceLength = hs_nonceSize cs\<rparr>"

section \<open>Hashes\<close>

text \<open>The package's hash: the tag is computed again and compared in constant time.\<close>

definition makeNobleHashImpl :: "(bytes \<Rightarrow> bytes) \<Rightarrow> (bytes \<Rightarrow> bytes \<Rightarrow> bytes) \<Rightarrow> hashImpl" where
  "makeNobleHashImpl digest hmac = \<lparr>h_digest = digest, h_mac = hmac,
     h_verifyMac = (\<lambda>key mac data. constantTimeEqual mac (hmac key data))\<rparr>"

section \<open>What the wrappers promise\<close>

text \<open>No provider lets a signature verify under a key of small order, whatever the platform says.\<close>

lemma small_order_noble:
  assumes "makeNobleSignatureImpl curves alg = Inr p" "isSmallOrderSignatureKey alg key"
  shows "sgp_verify p key message signature = Inr False"
  using assms by (cases alg) (auto simp: makeNobleSignatureImpl_def isSmallOrderSignatureKey_def split: option.splits)

lemma small_order_length: "isSmallOrderEd25519 key \<Longrightarrow> length key = 32"
  by (simp add: isSmallOrderEd25519_def split: if_splits)

lemma small_order_webcrypto:
  assumes "isSmallOrderEd25519 key"
  shows "sgp_verify (makeWebCryptoSignatureImpl subtle) key message signature = Inr False"
  using assms small_order_length [OF assms] by (simp add: makeWebCryptoSignatureImpl_def)

lemma small_order_refused:
  assumes "makeSignatureImpl subtle curves alg = Inr p" "isSmallOrderSignatureKey alg key"
  shows "sgp_verify p key message signature = Inr False"
proof (cases "alg = Ed25519")
  case True
  then show ?thesis using assms small_order_webcrypto by (auto simp: makeSignatureImpl_def isSmallOrderSignatureKey_def)
next
  case False
  then show ?thesis using assms small_order_noble by (auto simp: makeSignatureImpl_def)
qed

text \<open>Both providers answer alike for Ed25519 wherever the two verifiers under them do.\<close>

lemma ed25519_providers_agree:
  assumes noble: "makeNobleSignatureImpl curves Ed25519 = Inr p" and key: "length publicKey = 32"
    and c: "curves Ed25519 = Some c"
    and same: "cv_verify c signature message publicKey = res_map (\<lambda>k. sub_verify subtle k signature message) (sub_importRaw subtle publicKey)"
  shows "sgp_verify p publicKey message signature = sgp_verify (makeWebCryptoSignatureImpl subtle) publicKey message signature"
  using assms by (auto simp: makeNobleSignatureImpl_def makeWebCryptoSignatureImpl_def)

text \<open>A short private key signs like the padded one, and no other length reaches the curve.\<close>

lemma withFieldLengthKey_padded:
  "length key \<le> n \<Longrightarrow> withFieldLengthKey key n sign = sign (replicate (n - length key) 0 @ key)"
  by (auto simp: withFieldLengthKey_def)

lemma withFieldLengthKey_Inr:
  "withFieldLengthKey key n sign = Inr s \<Longrightarrow> \<exists>k. length k = n \<and> sign k = Inr s"
  by (auto simp: withFieldLengthKey_def split: if_splits intro!: exI [of _ "replicate (n - length key) 0 @ key"])

lemma importPrivateKey_P521_padded:
  "length k \<le> 66 \<Longrightarrow> hpke_importPrivateKey (makeGenericHpke DHKEM_P521_HKDF_SHA512 e d cs) k =
     hpke_importPrivateKey (makeGenericHpke DHKEM_P521_HKDF_SHA512 e d cs) (replicate (66 - length k) 0 @ k)"
  by (simp add: makeGenericHpke_def prepadPrivateKeyP521_def concatUint8Arrays_def)

text \<open>The errors of the package never leave the wrapper as they are.\<close>

lemma orCryptoError_Inl [simp]: "orCryptoError r = Inl e \<longleftrightarrow> (\<exists>x. r = Inl x) \<and> e = CryptoError"
  by (cases r) (auto simp: orCryptoError_def)

lemma orCryptoError_Inr [simp]: "orCryptoError r = Inr x \<longleftrightarrow> r = Inr x"
  by (cases r) (auto simp: orCryptoError_def)

lemma generic_hpke_errors:
  fixes h :: "('pub, 'priv) hpkeImpl"
  assumes "h = makeGenericHpke kem ae ad cs"
  shows "hpke_open h sk enc ct info = Inl e \<Longrightarrow> e \<in> {CryptoVerificationError, CryptoError}"
    "hpke_decryptAead h k n a c = Inl e \<Longrightarrow> e = CryptoError"
    "hpke_importPrivateKey h b = Inl e \<Longrightarrow> e = CryptoError" "hpke_importPublicKey h b = Inl e \<Longrightarrow> e = CryptoError"
    "hpke_importSecret h sk ctx enc len info = Inl e \<Longrightarrow> e = CryptoError"
  using assms by (auto simp: makeGenericHpke_def hpkeOpenError_def split: sum.splits hpkeFailure.splits if_splits)

text \<open>
  What the properties of messages and paths assume of a ciphersuite holds of the wrapped primitives
  wherever the primitives under the wrapper have it.
\<close>

lemma noble_mac_correct: "macCorrect (makeNobleHashImpl digest hmac)"
  by (simp add: macCorrect_def makeNobleHashImpl_def constantTimeEqual_iff)

lemma generic_aead_correct:
  "(\<And>k n a m. aeadDecrypt k n a (aeadEncrypt k n a m) = Inr m) \<Longrightarrow> aeadCorrect (makeGenericHpke kem aeadEncrypt aeadDecrypt cs)"
  by (simp add: aeadCorrect_def makeGenericHpke_def)

lemma generic_opensFor:
  "(\<And>m info ct enc. hs_seal cs pk info m [] = (ct, enc) \<Longrightarrow> hs_open cs sk enc info ct [] = Inr m) \<Longrightarrow>
   opensFor (makeGenericHpke kem aeadEncrypt aeadDecrypt cs) sk pk"
  by (simp add: opensFor_def makeGenericHpke_def)

lemma generic_kemCorrect:
  assumes sks: "\<And>ikm sk pk. hs_deriveKeyPair cs ikm = (sk, pk) \<Longrightarrow>
      hs_deserializePrivateKey cs (hs_serializePrivateKey cs sk) = Inr sk \<and>
      (kem = DHKEM_P521_HKDF_SHA512 \<longrightarrow> length (hs_serializePrivateKey cs sk) = 66)"
    and pks: "\<And>ikm sk pk. hs_deriveKeyPair cs ikm = (sk, pk) \<Longrightarrow> hs_deserializePublicKey cs (hs_serializePublicKey cs pk) = Inr pk"
    and opens: "\<And>ikm sk pk m info ct enc. hs_deriveKeyPair cs ikm = (sk, pk) \<Longrightarrow> hs_seal cs pk info m [] = (ct, enc) \<Longrightarrow>
      hs_open cs sk enc info ct [] = Inr m"
  shows "kemCorrect (makeGenericHpke kem aeadEncrypt aeadDecrypt cs)"
  unfolding kemCorrect_def
proof (intro allI)
  fix ikm
  obtain sk pk where d: "hs_deriveKeyPair cs ikm = (sk, pk)" by fastforce
  have "opensFor (makeGenericHpke kem aeadEncrypt aeadDecrypt cs) sk pk" using opens [OF d] by (rule generic_opensFor)
  then show "let (sk, pk) = hpke_deriveKeyPair (makeGenericHpke kem aeadEncrypt aeadDecrypt cs) ikm in
      hpke_importPrivateKey (makeGenericHpke kem aeadEncrypt aeadDecrypt cs)
        (hpke_exportPrivateKey (makeGenericHpke kem aeadEncrypt aeadDecrypt cs) sk) = Inr sk \<and>
      hpke_importPublicKey (makeGenericHpke kem aeadEncrypt aeadDecrypt cs)
        (hpke_exportPublicKey (makeGenericHpke kem aeadEncrypt aeadDecrypt cs) pk) = Inr pk \<and>
      opensFor (makeGenericHpke kem aeadEncrypt aeadDecrypt cs) sk pk"
    using d sks [OF d] pks [OF d]
    by (auto simp: makeGenericHpke_def prepadPrivateKeyP521_def concatUint8Arrays_def)
qed

end
