(* ===== verification/Edwards.thy ===== *)
theory Edwards imports Prelude begin

text \<open>
  Twisted Edwards curves \<open>a x\<^sup>2 + y\<^sup>2 = 1 + d x\<^sup>2 y\<^sup>2\<close> modulo a number \<open>p\<close>, with the addition law of RFC 8032,
  section 5.1.4, and the eight multiples of a point whose ordinate satisfies \<open>d y\<^sup>4 + 2 y\<^sup>2 = 1\<close>.  Inverses
  are those of the extended Euclidean algorithm; nothing here needs \<open>p\<close> to be prime.
\<close>

section \<open>The addition law\<close>

record edwardsCurve =
  ec_p :: int
  ec_a :: int
  ec_d :: int

function bezout :: "int \<Rightarrow> nat \<Rightarrow> int \<times> int" where
  "bezout a b = (if b = 0 then (1, 0)
     else let (s, t) = bezout (int b) (nat (a mod int b)) in (t, s - a div int b * t))"
  by pat_completeness auto
termination
  by (relation "measure snd") (auto simp: nat_less_iff)

declare bezout.simps [simp del]

definition modInv :: "int \<Rightarrow> int \<Rightarrow> int" where
  "modInv p n = fst (bezout (n mod p) (nat p)) mod p"

definition onCurve :: "edwardsCurve \<Rightarrow> int \<times> int \<Rightarrow> bool" where
  "onCurve c = (\<lambda>(x, y). (ec_a c * (x * x) + y * y) mod ec_p c = (1 + ec_d c * (x * x) * (y * y)) mod ec_p c)"

definition edAdd :: "edwardsCurve \<Rightarrow> int \<times> int \<Rightarrow> int \<times> int \<Rightarrow> int \<times> int" where
  "edAdd c = (\<lambda>(x1, y1) (x2, y2). let t = ec_d c * (x1 * x2) * (y1 * y2) in
     (((x1 * y2 + y1 * x2) * modInv (ec_p c) (1 + t)) mod ec_p c,
      ((y1 * y2 - ec_a c * (x1 * x2)) * modInv (ec_p c) (1 - t)) mod ec_p c))"

definition edMultiple :: "edwardsCurve \<Rightarrow> nat \<Rightarrow> int \<times> int \<Rightarrow> int \<times> int" where
  "edMultiple c k P = (edAdd c P ^^ k) (0, 1)"

lemma bezout_gcd: "0 \<le> a \<Longrightarrow> fst (bezout a b) * a + snd (bezout a b) * int b = gcd a (int b)"
proof (induction a b rule: bezout.induct)
  case (1 a b)
  show ?case
  proof (cases "b = 0")
    case True
    then show ?thesis using 1(2) by (subst (1 2) bezout.simps) simp
  next
    case False
    obtain s t where st: "bezout (int b) (nat (a mod int b)) = (s, t)" by fastforce
    have "s * int b + t * (a mod int b) = gcd (int b) (a mod int b)"
      using 1(1) [OF False] False st by simp
    also have "gcd (int b) (a mod int b) = gcd a (int b)" by (metis gcd.commute gcd_red_int)
    finally have "s * int b + t * (a - a div int b * int b) = gcd a (int b)" by (simp only: minus_div_mult_eq_mod)
    then show ?thesis using st False by (subst (1 2) bezout.simps) (simp add: right_diff_distrib left_diff_distrib mult_ac)
  qed
qed

lemma modInv_unique:
  assumes p: "1 < p" and unit: "(n * m) mod p = 1"
  shows "modInv p n = m mod p"
proof -
  let ?s = "fst (bezout (n mod p) (nat p))" and ?t = "snd (bezout (n mod p) (nat p))"
  have "gcd n p dvd 1"
  proof -
    have "1 = n * m - p * (n * m div p)" using unit by (simp add: minus_mult_div_eq_mod)
    then show ?thesis by (metis dvd_diff dvd_mult2 gcd_dvd1 gcd_dvd2)
  qed
  then have "gcd (n mod p) p = 1" by (metis gcd.commute gcd_red_int gcd_unique_int zdvd1_eq abs_gcd_int)
  then have "?s * (n mod p) + ?t * p = 1" using bezout_gcd [of "n mod p" "nat p"] p by simp
  then have "(?s * (n mod p)) mod p = 1" using p by (metis mod_mult_self1 mod_pos_pos_trivial zero_le_one)
  then have s: "(?s * n) mod p = 1" by (simp add: mod_mult_right_eq)
  have "?s mod p = (?s * (n * m)) mod p" by (metis unit mod_mult_right_eq mult.right_neutral)
  also have "\<dots> = (?s * n * m) mod p" by (simp add: mult.assoc)
  also have "\<dots> = m mod p" by (metis s mod_mult_left_eq mult_1)
  finally show ?thesis by (simp add: modInv_def)
qed

lemma edAdd_units:
  assumes "1 < ec_p c" "((1 + ec_d c * (x1 * x2) * (y1 * y2)) * u) mod ec_p c = 1"
    "((1 - ec_d c * (x1 * x2) * (y1 * y2)) * v) mod ec_p c = 1"
  shows "edAdd c (x1, y1) (x2, y2) = (((x1 * y2 + y1 * x2) * u) mod ec_p c, ((y1 * y2 - ec_a c * (x1 * x2)) * v) mod ec_p c)"
  using modInv_unique [OF assms(1,2)] modInv_unique [OF assms(1,3)] by (simp add: edAdd_def Let_def mod_mult_right_eq)

lemma edAdd_mod: "edAdd c (x1, y1) (x2 mod ec_p c, y2 mod ec_p c) = edAdd c (x1, y1) (x2, y2)"
proof -
  let ?p = "ec_p c"
  have inv: "modInv ?p m = modInv ?p n" if "m mod ?p = n mod ?p" for m n using that by (simp add: modInv_def)
  note cong = mod_mult_cong mod_add_cong mod_diff_cong
  have "(ec_d c * (x1 * (x2 mod ?p)) * (y1 * (y2 mod ?p))) mod ?p = (ec_d c * (x1 * x2) * (y1 * y2)) mod ?p"
    by (intro cong refl mod_mod_trivial)
  then show ?thesis unfolding edAdd_def Let_def prod.case
    by (intro arg_cong2 [of _ _ _ _ Pair] cong refl mod_mod_trivial arg_cong [of _ _ "\<lambda>n. n mod ?p"] inv)
qed


section \<open>Points of order eight\<close>

lemma mod_eqI: "p dvd a - b \<Longrightarrow> a mod p = b mod (p :: int)"
  by (simp add: mod_eq_dvd_iff)

lemma edAdd_trivial:
  assumes "1 < ec_p c" "x1 * x2 = 0 \<or> y1 * y2 = 0"
  shows "edAdd c (x1, y1) (x2, y2) = ((x1 * y2 + y1 * x2) mod ec_p c, (y1 * y2 - ec_a c * (x1 * x2)) mod ec_p c)"
proof -
  have "ec_d c * (x1 * x2) * (y1 * y2) = 0" using assms(2) by auto
  moreover have "1 mod ec_p c = 1" using assms(1) by simp
  ultimately show ?thesis using edAdd_units [OF assms(1), of x1 x2 y1 y2 1 1] by (simp only: add_0_right diff_zero mult_1_right mult_1)
qed

lemma edMultiple_Suc: "edMultiple c (Suc k) P = edAdd c P (edMultiple c k P)"
  by (simp add: edMultiple_def)

locale order_eight =
  fixes c :: edwardsCurve and x y e h :: int
  assumes p: "2 < ec_p c" and a: "ec_a c = - 1"
    and xy: "ec_p c dvd x * x + y * y"
    and quartic: "ec_p c dvd ec_d c * (y * y) * (y * y) + 2 * (y * y) - 1"
    and e: "ec_p c dvd e * (ec_d c + 1) - 1"
    and h: "ec_p c dvd 2 * h - 1"
begin

definition u :: int where "u = (ec_d c * (y * y) + 2) * h"
definition v :: int where "v = e * (ec_d c * (y * y + 1) + 2) * h"

lemma u: "ec_p c dvd (2 * (y * y)) * u - 1"
proof -
  obtain k m where "ec_d c * (y * y) * (y * y) + 2 * (y * y) - 1 = ec_p c * k" "2 * h - 1 = ec_p c * m"
    using quartic h by (auto elim!: dvdE)
  then have "\<exists>w. (2 * (y * y)) * u - 1 = ec_p c * w" unfolding u_def by algebra
  then show ?thesis by (auto intro: dvdI)
qed

lemma v: "ec_p c dvd (2 - 2 * (y * y)) * v - 1"
proof -
  obtain k m n where "ec_d c * (y * y) * (y * y) + 2 * (y * y) - 1 = ec_p c * k" "2 * h - 1 = ec_p c * m"
      "e * (ec_d c + 1) - 1 = ec_p c * n"
    using quartic h e by (auto elim!: dvdE)
  then have "\<exists>w. (2 - 2 * (y * y)) * v - 1 = ec_p c * w" unfolding v_def by algebra
  then show ?thesis by (auto intro: dvdI)
qed

lemma unitI: "ec_p c dvd n - 1 \<Longrightarrow> n mod ec_p c = 1"
  using p mod_eqI [of "ec_p c" n 1] by simp

text \<open>Adding to \<open>(x, y)\<close> a point with the same coordinates up to their signs.\<close>

lemma product:
  assumes "t = ec_d c * (x * x) * (y * y)"
  shows "((1 + t) * u) mod ec_p c = 1" "((1 - t) * v) mod ec_p c = 1"
proof -
  obtain k m n where k: "ec_d c * (y * y) * (y * y) + 2 * (y * y) - 1 = ec_p c * k" "x * x + y * y = ec_p c * m"
    using quartic xy by (auto elim!: dvdE)
  obtain w where w: "(2 * (y * y)) * u - 1 = ec_p c * w" using u by (auto elim!: dvdE)
  obtain z where z: "(2 - 2 * (y * y)) * v - 1 = ec_p c * z" using v by (auto elim!: dvdE)
  have plus: "1 + t = 2 * (y * y) - ec_p c * (k - ec_d c * m * (y * y))"
    and minus: "1 - t = (2 - 2 * (y * y)) + ec_p c * (k - ec_d c * m * (y * y))"
    using k assms by algebra+
  have "\<exists>j. (1 + t) * u - 1 = ec_p c * j" using w plus by algebra
  then show "((1 + t) * u) mod ec_p c = 1" by (intro unitI) (auto intro: dvdI)
  have "(1 - t) * v - 1 = ec_p c * (z + (k - ec_d c * m * (y * y)) * v)" using z minus by algebra
  then have "\<exists>j. (1 - t) * v - 1 = ec_p c * j" by blast
  then show "((1 - t) * v) mod ec_p c = 1" by (intro unitI) (auto intro: dvdI)
qed

lemma add_same:
  assumes "s * s = 1"
  shows "edAdd c (x, y) (s * x, s * y) = ((s * (2 * x * y * u)) mod ec_p c, 0)"
proof -
  have t: "ec_d c * (x * (s * x)) * (y * (s * y)) = ec_d c * (x * x) * (y * y)" using assms by algebra
  have "edAdd c (x, y) (s * x, s * y) = (((x * (s * y) + y * (s * x)) * u) mod ec_p c,
      ((y * (s * y) - ec_a c * (x * (s * x))) * v) mod ec_p c)"
    using p product [OF t] by (intro edAdd_units) simp_all
  moreover have "ec_p c dvd (y * (s * y) - ec_a c * (x * (s * x))) * v"
  proof -
    have "(y * (s * y) - ec_a c * (x * (s * x))) * v = (x * x + y * y) * (s * v)" by (simp add: a algebra_simps)
    then show ?thesis using xy by (simp only: dvd_mult2)
  qed
  moreover have "(x * (s * y) + y * (s * x)) * u = s * (2 * x * y * u)" by algebra
  ultimately show ?thesis by (simp only: dvd_imp_mod_0)
qed

lemma add_opposite:
  assumes "s * s = 1"
  shows "edAdd c (x, y) (s * x, - s * y) = (0, (- s) mod ec_p c)"
proof -
  have t: "- (ec_d c * (x * (s * x)) * (y * (- s * y))) = ec_d c * (x * x) * (y * y)" using assms by algebra
  have "edAdd c (x, y) (s * x, - s * y) = (((x * (- s * y) + y * (s * x)) * v) mod ec_p c,
      ((y * (- s * y) - ec_a c * (x * (s * x))) * u) mod ec_p c)"
    using p product [OF t] by (intro edAdd_units) simp_all
  moreover have "(x * (- s * y) + y * (s * x)) * v = 0" by algebra
  moreover have "((y * (- s * y) - ec_a c * (x * (s * x))) * u) mod ec_p c = (- s) mod ec_p c"
  proof (rule mod_eqI)
    obtain m where k: "x * x + y * y = ec_p c * m" using xy by (auto elim!: dvdE)
    obtain w where w: "(2 * (y * y)) * u - 1 = ec_p c * w" using u by (auto elim!: dvdE)
    have "\<exists>j. (y * (- s * y) - ec_a c * (x * (s * x))) * u - (- s) = ec_p c * j" using k w a by algebra
    then show "ec_p c dvd (y * (- s * y) - ec_a c * (x * (s * x))) * u - - s" by (auto intro: dvdI)
  qed
  ultimately show ?thesis by simp
qed

text \<open>Adding to \<open>(x, y)\<close> a point of order four.\<close>

lemma add_quarter: "edAdd c (x, y) (s * (2 * x * y * u), 0) = ((s * x) mod ec_p c, (- s * y) mod ec_p c)"
proof -
  have "edAdd c (x, y) (s * (2 * x * y * u), 0) =
      ((y * (s * (2 * x * y * u))) mod ec_p c, (x * (s * (2 * x * y * u))) mod ec_p c)"
    using edAdd_trivial [of c x "s * (2 * x * y * u)" y 0] p a by simp
  moreover have "(y * (s * (2 * x * y * u))) mod ec_p c = (s * x) mod ec_p c"
  proof (rule mod_eqI)
    obtain w where w: "(2 * (y * y)) * u - 1 = ec_p c * w" using u by (auto elim!: dvdE)
    have "\<exists>j. y * (s * (2 * x * y * u)) - s * x = ec_p c * j" using w by algebra
    then show "ec_p c dvd y * (s * (2 * x * y * u)) - s * x" by (auto intro: dvdI)
  qed
  moreover have "(x * (s * (2 * x * y * u))) mod ec_p c = (- s * y) mod ec_p c"
  proof (rule mod_eqI)
    obtain w where w: "(2 * (y * y)) * u - 1 = ec_p c * w" using u by (auto elim!: dvdE)
    obtain m where k: "x * x + y * y = ec_p c * m" using xy by (auto elim!: dvdE)
    have "\<exists>j. x * (s * (2 * x * y * u)) - (- s * y) = ec_p c * j" using w k by algebra
    then show "ec_p c dvd x * (s * (2 * x * y * u)) - - s * y" by (auto intro: dvdI)
  qed
  ultimately show ?thesis by simp
qed

lemma add_half: "edAdd c (x, y) (0, s) = ((s * x) mod ec_p c, (s * y) mod ec_p c)"
  using edAdd_trivial [of c x 0 y s] p by (simp add: mult.commute)

lemma on_curve: "onCurve c (x, y)"
proof -
  obtain k m where "ec_d c * (y * y) * (y * y) + 2 * (y * y) - 1 = ec_p c * k" "x * x + y * y = ec_p c * m"
    using quartic xy by (auto elim!: dvdE)
  then have "\<exists>j. (ec_a c * (x * x) + y * y) - (1 + ec_d c * (x * x) * (y * y)) = ec_p c * j" using a by algebra
  then show ?thesis unfolding onCurve_def prod.case by (intro mod_eqI) (auto intro: dvdI)
qed

lemma multiples:
  "edMultiple c 0 (x, y) = (0, 1)"
  "edMultiple c 1 (x, y) = (x mod ec_p c, y mod ec_p c)"
  "edMultiple c 2 (x, y) = ((2 * x * y * u) mod ec_p c, 0)"
  "edMultiple c 3 (x, y) = (x mod ec_p c, (- y) mod ec_p c)"
  "edMultiple c 4 (x, y) = (0, (- 1) mod ec_p c)"
  "edMultiple c 5 (x, y) = ((- x) mod ec_p c, (- y) mod ec_p c)"
  "edMultiple c 6 (x, y) = ((- (2 * x * y * u)) mod ec_p c, 0)"
  "edMultiple c 7 (x, y) = ((- x) mod ec_p c, y mod ec_p c)"
  "edMultiple c 8 (x, y) = (0, 1)"
proof -
  have one: "1 mod ec_p c = 1" using p by simp
  note mods = edAdd_mod [of c x y]
  note step = edMultiple_Suc [of c _ "(x, y)"]
  show 0: "edMultiple c 0 (x, y) = (0, 1)" by (simp add: edMultiple_def)
  show 1: "edMultiple c 1 (x, y) = (x mod ec_p c, y mod ec_p c)"
    using step [of 0] add_half [of 1] 0 by simp
  show 2: "edMultiple c 2 (x, y) = ((2 * x * y * u) mod ec_p c, 0)"
    using step [of 1] add_same [of 1] 1 mods [of x y] by (simp add: numeral_2_eq_2)
  show 3: "edMultiple c 3 (x, y) = (x mod ec_p c, (- y) mod ec_p c)"
    using step [of 2] add_quarter [of 1] 2 mods [of "2 * x * y * u" 0] by simp
  show 4: "edMultiple c 4 (x, y) = (0, (- 1) mod ec_p c)"
    using step [of 3] add_opposite [of 1] 3 mods [of x "- y"] by simp
  show 5: "edMultiple c 5 (x, y) = ((- x) mod ec_p c, (- y) mod ec_p c)"
    using step [of 4] add_half [of "- 1"] 4 mods [of 0 "- 1"] by simp
  show 6: "edMultiple c 6 (x, y) = ((- (2 * x * y * u)) mod ec_p c, 0)"
    using step [of 5] add_same [of "- 1"] 5 mods [of "- x" "- y"] by simp
  show 7: "edMultiple c 7 (x, y) = ((- x) mod ec_p c, y mod ec_p c)"
    using step [of 6] add_quarter [of "- 1"] 6 mods [of "- (2 * x * y * u)" 0] by simp
  show 8: "edMultiple c 8 (x, y) = (0, 1)"
    using step [of 7] add_opposite [of "- 1"] 7 mods [of "- x" y] one by simp
qed

end

end
