(* ===== verification/SmallOrder.thy ===== *)
theory SmallOrder imports Providers Edwards begin

text \<open>
  The public keys of small order, independently of the tables of \<^verbatim>\<open>src/crypto/small-order.ts\<close>: the curves
  of RFC 8032, a point of order eight on one and of order four on the other, their multiples by the
  addition law, and the keys that encode the ordinate of such a multiple.  The tables hold exactly these
  ordinates.
\<close>

section \<open>The curves\<close>

definition edwards25519 :: edwardsCurve where
  "edwards25519 = \<lparr>ec_p = 2 ^ 255 - 19, ec_a = - 1,
     ec_d = 37095705934669439343138083508754565189542113879843219016388785533085940283555\<rparr>"

definition torsion25519 :: "int \<times> int" where
  "torsion25519 = (0x602a465ff9c6b5d716cc66cdc721b544a3e6c38fec1a1dc7215eb9b93aba2ea3,
     0x7a03ac9277fdc74ec6cc392cfa53202a0f67100d760b3cba4fd84d3d706a17c7)"

definition edwards448 :: edwardsCurve where
  "edwards448 = \<lparr>ec_p = 2 ^ 448 - 2 ^ 224 - 1, ec_a = 1, ec_d = - 39081\<rparr>"

definition torsion448 :: "int \<times> int" where
  "torsion448 = (1, 0)"


text \<open>
  What has to be computed about the point: its coordinates are square roots of opposite numbers, and the
  ordinate is a root of \<open>d y\<^sup>4 + 2 y\<^sup>2 - 1\<close>.  Each line divides by the prime with its quotient.
\<close>

lemma xx_yy: "(43496726750457979451437558183816721346016168361625936758514574428539776020131 * 43496726750457979451437558183816721346016168361625936758514574428539776020131 + 55188659117513257062467267217118295137698188065244968500265048394206261417927 * 55188659117513257062467267217118295137698188065244968500265048394206261417927 :: int) =
    2 ^ 255 * 85286540137869821508140972306473376175731274064473549857034315593293013215010 - 19 * 85286540137869821508140972306473376175731274064473549857034315593293013215010"
  by simp

lemma yy: "(55188659117513257062467267217118295137698188065244968500265048394206261417927 * 55188659117513257062467267217118295137698188065244968500265048394206261417927 :: int) =
    2 ^ 255 * 52607878746305861035465676246352571748692980333214527257051149620924959796896 - 19 * 52607878746305861035465676246352571748692980333214527257051149620924959796896 + 53699909539325142115343624207863611371097067213659596252119297355370707899025"
  by simp

lemma yyyy: "(53699909539325142115343624207863611371097067213659596252119297355370707899025 * 53699909539325142115343624207863611371097067213659596252119297355370707899025 :: int) =
    2 ^ 255 * 49807897992436995761919722382091097958802795554820865088077809567084879770570 - 19 * 49807897992436995761919722382091097958802795554820865088077809567084879770570 + 20321795809889463057029184291994113419331177226475162521255097903925116849695"
  by simp

lemma dyyyy: "(37095705934669439343138083508754565189542113879843219016388785533085940283555 * 20321795809889463057029184291994113419331177226475162521255097903925116849695 + 2 * 53699909539325142115343624207863611371097067213659596252119297355370707899025 - 1 :: int) =
    2 ^ 255 * 13020774845560247666650584892101335719132394594133704521759909564713909259926 - 19 * 13020774845560247666650584892101335719132394594133704521759909564713909259926"
  by simp

lemma dd: "(121666 * (37095705934669439343138083508754565189542113879843219016388785533085940283555 + 1) - 1 :: int) = 2 ^ 255 * 77955 - 19 * 77955"
  by simp

lemma quotient: "n = 2 ^ 255 * k - 19 * k + r \<Longrightarrow> n = (2 ^ 255 - 19) * k + (r :: int)"
  by (simp add: left_diff_distrib)

lemma divides: "n = 2 ^ 255 * k - 19 * k \<Longrightarrow> (2 ^ 255 - 19 :: int) dvd n"
  using quotient [of n k 0] by simp

lemma quartic_root:
  fixes y :: int
  assumes "y * y = p * k + z" "z * z = p * l + w" "p dvd d * w + 2 * z - 1"
  shows "p dvd d * (y * y) * (y * y) + 2 * (y * y) - 1"
proof -
  obtain m where "d * w + 2 * z - 1 = p * m" using assms(3) by (auto elim!: dvdE)
  then have "\<exists>j. d * (y * y) * (y * y) + 2 * (y * y) - 1 = p * j" using assms(1,2) by algebra
  then show ?thesis by (auto intro: dvdI)
qed

interpretation ed25519: order_eight edwards25519 "fst torsion25519" "snd torsion25519" 121666 "2 ^ 254 - 9"
proof (unfold_locales, unfold edwards25519_def torsion25519_def edwardsCurve.simps fst_conv snd_conv, goal_cases)
  case 3
  show ?case by (rule divides [OF xx_yy])
next
  case 4
  show ?case by (rule quartic_root [OF quotient [OF yy] quotient [OF yyyy] divides [OF dyyyy]])
next
  case 5
  show ?case by (rule divides [OF dd])
qed simp_all

section \<open>Their points of small order\<close>

lemma p25519 [simp]: "ec_p edwards25519 = P25519"
  by (simp add: edwards25519_def P25519_def)

lemma ordinate [simp]: "snd torsion25519 = Y8_25519"
  by (simp add: torsion25519_def Y8_25519_def)

lemma Y8_range: "0 < Y8_25519" "Y8_25519 < P25519"
  by (simp_all add: Y8_25519_def P25519_def)

lemma residues: "Y8_25519 mod P25519 = Y8_25519" "(- Y8_25519) mod P25519 = P25519 - Y8_25519" "(- 1) mod P25519 = P25519 - 1"
proof -
  have neg: "(- m) mod p = p - m" if "0 < m" "m < p" for m p :: int
    using that by (simp add: zmod_zminus1_eq_if)
  have "1 < P25519" by (simp add: P25519_def)
  then show "(- 1) mod P25519 = P25519 - 1" using neg [of 1] by simp
  show "Y8_25519 mod P25519 = Y8_25519" "(- Y8_25519) mod P25519 = P25519 - Y8_25519" using Y8_range neg by simp_all
qed

lemma upto_7: "k < 8 \<longleftrightarrow> k = 0 \<or> k = 1 \<or> k = 2 \<or> k = 3 \<or> k = 4 \<or> k = 5 \<or> k = 6 \<or> k = (7 :: nat)"
  by presburger

lemma edwards448_multiples:
  "edMultiple edwards448 0 (1, 0) = (0, 1)" "edMultiple edwards448 1 (1, 0) = (1, 0)"
  "edMultiple edwards448 2 (1, 0) = (0, P448 - 1)" "edMultiple edwards448 3 (1, 0) = (P448 - 1, 0)"
  "edMultiple edwards448 4 (1, 0) = (0, 1)"
proof -
  have p: "ec_p edwards448 = P448" "ec_a edwards448 = 1" "1 < P448" by (simp_all add: edwards448_def P448_def)
  have mods: "(- 1) mod P448 = P448 - 1" "(1 - P448) mod P448 = 1" "1 mod P448 = 1" "(P448 - 1) mod P448 = P448 - 1"
    using p(3) by (simp_all add: zmod_zminus1_eq_if mod_diff_right_eq [symmetric] del: mod_diff_right_eq)
  have add: "edAdd edwards448 (1, 0) (a, b) = (b mod P448, (- a) mod P448)" for a b
    using edAdd_trivial [of edwards448 1 a 0 b] p by simp
  have step: "edMultiple edwards448 (Suc k) (1, 0) = edAdd edwards448 (1, 0) (edMultiple edwards448 k (1, 0))" for k
    by (rule edMultiple_Suc)
  show 0: "edMultiple edwards448 0 (1, 0) = (0, 1)" by (simp add: edMultiple_def)
  show 1: "edMultiple edwards448 1 (1, 0) = (1, 0)" using step [of 0] 0 mods by (simp add: add)
  show 2: "edMultiple edwards448 2 (1, 0) = (0, P448 - 1)" using step [of 1] 1 mods by (simp add: add numeral_2_eq_2)
  show 3: "edMultiple edwards448 3 (1, 0) = (P448 - 1, 0)" using step [of 2] 2 mods by (simp add: add)
  show "edMultiple edwards448 4 (1, 0) = (0, 1)" using step [of 3] 3 mods by (simp add: add)
qed

section \<open>Little-endian numbers\<close>

definition leValue :: "bytes \<Rightarrow> int" where
  "leValue bs = (\<Sum>i<length bs. uint (bs ! i) * 256 ^ i)"

lemma leValue_simps: "leValue [] = 0" "leValue (b # bs) = uint b + 256 * leValue bs"
  by (simp_all add: leValue_def sum.lessThan_Suc_shift sum_distrib_left mult_ac del: sum.lessThan_Suc)

lemma leValue_append: "leValue (bs @ cs) = leValue bs + 256 ^ length bs * leValue cs"
  by (induction bs) (simp_all add: leValue_simps algebra_simps)

lemma leValue_range: "0 \<le> leValue bs" "leValue bs < 256 ^ length bs"
proof -
  show "0 \<le> leValue bs" by (simp add: leValue_def sum_nonneg)
  show "leValue bs < 256 ^ length bs"
  proof (induction bs)
    case (Cons b bs)
    have "uint b < 256" using uint_lt2p [of b] by simp
    then show ?case using Cons by (simp add: leValue_simps)
  qed (simp add: leValue_simps)
qed

lemma littleEndian_value: "littleEndian bs = leValue bs"
proof (induction bs)
  case (Cons b bs)
  have "uint b OR push_bit 8 (leValue bs) = uint b + push_bit 8 (leValue bs)"
    using uint_lt2p [of b] by (intro int_or_add [of _ 8]) (simp_all add: push_bit_eq_mult)
  then show ?case using Cons by (simp add: littleEndian_def leValue_simps push_bit_eq_mult or.commute mult.commute)
qed (simp add: littleEndian_def leValue_simps)

definition leBytes :: "nat \<Rightarrow> int \<Rightarrow> bytes" where
  "leBytes k n = map (\<lambda>i. word_of_int (n div 256 ^ i)) [0..<k]"

lemma leValue_leBytes: "leValue (leBytes k n) = n mod 256 ^ k"
proof (induction k)
  case (Suc k)
  have "n mod (256 ^ k * 256) = 256 ^ k * (n div 256 ^ k mod 256) + n mod 256 ^ k" by (rule zmod_zmult2_eq) simp
  then show ?case using Suc
    by (simp add: leBytes_def leValue_append leValue_simps uint_word_of_int mult.commute)
qed (simp add: leBytes_def leValue_simps)

lemma mask_mod: "(n :: int) AND (push_bit k 1 - 1) = n mod 2 ^ k"
  by (simp add: push_bit_eq_mult flip: mask_eq_exp_minus_1 take_bit_eq_mask take_bit_eq_mod)


section \<open>Keys of small order\<close>

definition torsionPoints :: "signatureAlgorithm \<Rightarrow> (int \<times> int) list" where
  "torsionPoints alg = (case alg of
     Ed25519 \<Rightarrow> map (\<lambda>k. edMultiple edwards25519 k torsion25519) [0..<8]
   | Ed448 \<Rightarrow> map (\<lambda>k. edMultiple edwards448 k torsion448) [0..<4]
   | _ \<Rightarrow> [])"

definition keyOrdinate :: "signatureAlgorithm \<Rightarrow> bytes \<Rightarrow> int option" where
  "keyOrdinate alg key = (case alg of
     Ed25519 \<Rightarrow> if length key = 32 then Some (leValue key mod 2 ^ 255) else None
   | Ed448 \<Rightarrow> if length key = 57 then Some (leValue key mod 2 ^ 455) else None
   | _ \<Rightarrow> None)"

definition fieldPrime :: "signatureAlgorithm \<Rightarrow> int" where
  "fieldPrime alg = (if alg = Ed25519 then ec_p edwards25519 else ec_p edwards448)"

definition smallOrderKey :: "signatureAlgorithm \<Rightarrow> bytes \<Rightarrow> bool" where
  "smallOrderKey alg key \<longleftrightarrow> (case keyOrdinate alg key of
     None \<Rightarrow> False | Some n \<Rightarrow> n mod fieldPrime alg \<in> set (map snd (torsionPoints alg)))"

lemma upt_8: "[0..<8] = [0, 1, 2, 3, 4, 5, 6, 7 :: nat]" and upt_4: "[0..<4] = [0, 1, 2, 3 :: nat]"
  by (simp_all add: upt_rec)

lemmas multiples25519 = ed25519.multiples [unfolded prod.collapse, unfolded p25519 ordinate residues]

lemma ordinates25519: "set (map snd (torsionPoints Ed25519)) = set SMALL_ORDER_Y_25519"
  unfolding torsionPoints_def signatureAlgorithm.case upt_8 list.map multiples25519 snd_conv SMALL_ORDER_Y_25519_def
  by auto

lemma ordinates448: "set (map snd (torsionPoints Ed448)) = set SMALL_ORDER_Y_448"
  unfolding torsionPoints_def signatureAlgorithm.case upt_4 list.map torsion448_def edwards448_multiples snd_conv SMALL_ORDER_Y_448_def
  by auto

lemma small_order_25519: "isSmallOrderEd25519 key \<longleftrightarrow> smallOrderKey Ed25519 key"
proof -
  have "littleEndian key AND (push_bit 255 1 - 1) = leValue key mod 2 ^ 255"
    by (simp only: littleEndian_value mask_mod)
  then show ?thesis
    unfolding isSmallOrderEd25519_def smallOrderKey_def keyOrdinate_def fieldPrime_def Let_def signatureAlgorithm.case
      ordinates25519 p25519 by simp
qed

lemma small_order_448:
  assumes "\<forall>n. keyOrdinate Ed448 key = Some n \<longrightarrow> n < 2 ^ 448"
  shows "isSmallOrderEd448 key \<longleftrightarrow> smallOrderKey Ed448 key"
proof (cases "length key = 57")
  case False
  then show ?thesis by (simp add: isSmallOrderEd448_def smallOrderKey_def keyOrdinate_def)
next
  case True
  define low where "low = leValue (take 56 key)"
  define high where "high = leValue (drop 56 key)"
  have n: "leValue key = low + 2 ^ 448 * high"
    using leValue_append [of "take 56 key" "drop 56 key"] True by (simp add: low_def high_def)
  have low: "0 \<le> low" "low < 2 ^ 448" using leValue_range [of "take 56 key"] True by (simp_all add: low_def)
  have split: "(l + m * h) mod (m * k) = l + m * (h mod k)" if "0 \<le> l" "l < m" "0 \<le> k" for l m h k :: int
  proof -
    have "(l + m * h) mod (m * k) = m * ((l + m * h) div m mod k) + (l + m * h) mod m" using that(3) by (rule zmod_zmult2_eq)
    then show ?thesis using that by simp
  qed
  have "leValue key mod 2 ^ 455 = low + 2 ^ 448 * (high mod 2 ^ 7)"
    using split [OF low, of "2 ^ 7" high] unfolding n by simp
  moreover have "leValue key mod 2 ^ 455 < 2 ^ 448" using assms True by (simp add: keyOrdinate_def)
  moreover have "0 \<le> high mod 2 ^ 7" by simp
  ultimately have "leValue key mod 2 ^ 455 = low" using low by auto
  then show ?thesis using True
    unfolding isSmallOrderEd448_def smallOrderKey_def keyOrdinate_def fieldPrime_def Let_def signatureAlgorithm.case
      ordinates448 littleEndian_value low_def by (simp add: edwards448_def P448_def)
qed

lemma small_order_iff:
  assumes "\<forall>n. keyOrdinate alg key = Some n \<longrightarrow> n < 2 ^ 448"
  shows "isSmallOrderSignatureKey alg key \<longleftrightarrow> smallOrderKey alg key"
  using small_order_25519 small_order_448 assms
  by (cases alg) (simp_all add: isSmallOrderSignatureKey_def smallOrderKey_def keyOrdinate_def)

lemma keyOrdinate_leBytes: "0 \<le> n \<Longrightarrow> n < 2 ^ 255 \<Longrightarrow> keyOrdinate Ed25519 (leBytes 32 n) = Some n"
  unfolding keyOrdinate_def leValue_leBytes by (simp add: leBytes_def)

text \<open>The two points have order eight and four.\<close>

lemma torsion25519_order:
  "onCurve edwards25519 torsion25519" "edMultiple edwards25519 8 torsion25519 = (0, 1)"
  "0 < k \<Longrightarrow> k < 8 \<Longrightarrow> edMultiple edwards25519 k torsion25519 \<noteq> (0, 1)"
proof -
  show "onCurve edwards25519 torsion25519" by (rule ed25519.on_curve [unfolded prod.collapse])
  show "edMultiple edwards25519 8 torsion25519 = (0, 1)" by (rule multiples25519(9))
  have differ: "Y8_25519 \<noteq> 1" "P25519 - Y8_25519 \<noteq> 1" "P25519 - 1 \<noteq> 1" by (simp_all add: Y8_25519_def P25519_def)
  have other: "edMultiple edwards25519 1 torsion25519 \<noteq> (0, 1)" "edMultiple edwards25519 2 torsion25519 \<noteq> (0, 1)"
    "edMultiple edwards25519 3 torsion25519 \<noteq> (0, 1)" "edMultiple edwards25519 4 torsion25519 \<noteq> (0, 1)"
    "edMultiple edwards25519 5 torsion25519 \<noteq> (0, 1)" "edMultiple edwards25519 6 torsion25519 \<noteq> (0, 1)"
    "edMultiple edwards25519 7 torsion25519 \<noteq> (0, 1)"
    by (simp_all only: multiples25519 prod.inject differ zero_neq_one simp_thms not_False_eq_True)
  show "edMultiple edwards25519 k torsion25519 \<noteq> (0, 1)" if "0 < k" "k < 8"
  proof -
    from that consider "k = 1" | "k = 2" | "k = 3" | "k = 4" | "k = 5" | "k = 6" | "k = 7" using upto_7 [of k] by blast
    then show ?thesis using other by cases (simp_all only: not_False_eq_True)
  qed
qed

lemma torsion448_order:
  "onCurve edwards448 torsion448" "edMultiple edwards448 4 torsion448 = (0, 1)"
  "0 < k \<Longrightarrow> k < 4 \<Longrightarrow> edMultiple edwards448 k torsion448 \<noteq> (0, 1)"
proof -
  show "onCurve edwards448 torsion448" by (simp add: onCurve_def torsion448_def edwards448_def)
  show "edMultiple edwards448 4 torsion448 = (0, 1)" by (simp add: torsion448_def edwards448_multiples)
  have "k = 1 \<or> k = 2 \<or> k = 3" if "0 < k" "k < 4" using that by presburger
  then show "0 < k \<Longrightarrow> k < 4 \<Longrightarrow> edMultiple edwards448 k torsion448 \<noteq> (0, 1)"
    using edwards448_multiples by (auto simp: torsion448_def P448_def)
qed

end
