(* ===== verification/KeyProperties.thy ===== *)
theory KeyProperties imports SmallOrder Examples Providers begin

text \<open>
  Properties of the components that produce keys: the ratchets of the secret tree, the epoch's key
  schedule and the pre-shared keys.
\<close>

section \<open>Ratchets\<close>

text \<open>C28: In whatever order private messages arrive, repeated or forged ones among them, no two accepted
  ones share a sender, ratchet and generation: every key opens at most one message.\<close>

theorem every_key_opens_one_message:
  fixes cs :: "('pub, 'priv, 'sk) ciphersuiteImpl"
  assumes "goodSecretTree (ratchetParams cs) base tb"
  shows "distinct (map (keySlot secret cs \<circ> fst)
    (receiveAll (\<lambda>msg tb. unprotectPrivateMessage secret msg tb tree gc config cs None) tb msgs))"
  by (rule privateMessages.receiveAll_distinct [OF assms])

theorem every_key_opens_one_message_witness:
  "\<forall>msgs. distinct (map (keySlot [8] exSuite \<circ> fst) (receiveAll (\<lambda>msg tb. unprotectPrivateMessage [8] msg tb exTree exContext
    defaultKeyRetentionConfig exSuite None) [Some exNode] msgs))"
  using every_key_opens_one_message [OF exSecretTree_good] by blast

text \<open>C29: A key is found for a message exactly when its generation is a retained one, or not behind the
  ratchet and at most the configured number of steps ahead.\<close>

theorem generation_delivered_iff:
  assumes "paramsOk cs" "goodSecretTree cs base tree" "sparse_get tree (leafToNodeIndex (sd_leafIndex sd)) = Some node"
    "4 \<le> length (sd_reuseGuard sd)" "sd_generation sd < 4294967296"
  shows "(\<exists>r. ratchetToGeneration tree sd ct config cs = Inr r) \<longleftrightarrow>
    sd_generation sd \<in> fst ` set (rt_unused (ratchetForContentType node ct)) \<or>
    rt_generation (ratchetForContentType node ct) \<le> sd_generation sd \<and>
    sd_generation sd - rt_generation (ratchetForContentType node ct) \<le> kr_maximumForwardRatchetSteps config"
proof -
  let ?r = "ratchetForContentType node ct" and ?g = "sd_generation sd"
  have good: "goodRatchet cs (base (leafToNodeIndex (sd_leafIndex sd)) (ct = CT_application)) ?r"
    by (rule goodSecretTree_ratchet [OF assms(2,3)])
  have "(\<exists>r. ratchetToGeneration tree sd ct config cs = Inr r) \<longleftrightarrow>
      (\<exists>z. receiveKey config cs ?g (sd_reuseGuard sd) ?r = Inr z)"
    by (cases "receiveKey config cs ?g (sd_reuseGuard sd) ?r") (auto simp: ratchetToGeneration_receiveKey [OF assms(3)])
  also have "\<dots> \<longleftrightarrow> ?g \<in> fst ` set (rt_unused ?r) \<or> rt_generation ?r \<le> ?g \<and>
      ?g - rt_generation ?r \<le> kr_maximumForwardRatchetSteps config"
  proof
    assume z: "\<exists>z. receiveKey config cs ?g (sd_reuseGuard sd) ?r = Inr z"
    show "?g \<in> fst ` set (rt_unused ?r) \<or> rt_generation ?r \<le> ?g \<and> ?g - rt_generation ?r \<le> kr_maximumForwardRatchetSteps config"
    proof (cases "rt_generation ?r \<le> ?g")
      case True
      then show ?thesis using z receiveKey_too_far [OF True] by (metis not_less sum.distinct(1))
    next
      case False
      then have "map_of (rt_unused ?r) ?g \<noteq> None" using z by (auto simp: receiveKey_def split: option.splits)
      then show ?thesis by (simp add: map_of_eq_None_iff)
    qed
  next
    assume "?g \<in> fst ` set (rt_unused ?r) \<or> rt_generation ?r \<le> ?g \<and> ?g - rt_generation ?r \<le> kr_maximumForwardRatchetSteps config"
    then show "\<exists>z. receiveKey config cs ?g (sd_reuseGuard sd) ?r = Inr z"
      using receiveKey_retained_Inr [OF assms(1) good assms(4)] receiveKey_Inr [OF assms(1) good assms(4) _ _ assms(5)] by blast
  qed
  finally show ?thesis .
qed

theorem generation_delivered_iff_witness:
  "(\<exists>r. ratchetToGeneration [Some exNode] \<lparr>sd_leafIndex = 0, sd_generation = 5, sd_reuseGuard = [1, 2, 3, 4]\<rparr> CT_application
      defaultKeyRetentionConfig (ratchetParams exSuite) = Inr r) \<and>
   \<not> (\<exists>r. ratchetToGeneration [Some exNode] \<lparr>sd_leafIndex = 0, sd_generation = 1000, sd_reuseGuard = [1, 2, 3, 4]\<rparr>
      CT_application defaultKeyRetentionConfig (ratchetParams exSuite) = Inr r)"
  using generation_delivered_iff [OF exSuite_ok(1) exSecretTree_good, of
      "\<lparr>sd_leafIndex = 0, sd_generation = 5, sd_reuseGuard = [1, 2, 3, 4]\<rparr>" exNode CT_application defaultKeyRetentionConfig]
    generation_delivered_iff [OF exSuite_ok(1) exSecretTree_good, of
      "\<lparr>sd_leafIndex = 0, sd_generation = 1000, sd_reuseGuard = [1, 2, 3, 4]\<rparr>" exNode CT_application defaultKeyRetentionConfig]
    exNode_get
  by (simp add: exRatchet_def defaultKeyRetentionConfig_def)

text \<open>C30: Ratcheting forward to a generation keeps the skipped ones that the retention setting allows, and
  never more keys than it allows.\<close>

theorem skipped_generations_kept:
  assumes "goodSecretTree cs base tree" "sparse_get tree (leafToNodeIndex (sd_leafIndex sd)) = Some node"
    and "ratchetToGeneration tree sd ct config cs = Inr r"
    and "kr_retainKeysForGenerations config = int n" "length (rt_unused (ratchetForContentType node ct)) \<le> n"
  shows "\<exists>node'. sparse_get (cr_newTree r) (leafToNodeIndex (sd_leafIndex sd)) = Some node' \<and>
    length (rt_unused (ratchetForContentType node' ct)) \<le> n \<and>
    (\<forall>j. rt_generation (ratchetForContentType node ct) \<le> j \<and> j < sd_generation sd \<and> sd_generation sd - int n \<le> j \<longrightarrow>
      j \<in> fst ` set (rt_unused (ratchetForContentType node' ct)))"
proof -
  let ?r = "ratchetForContentType node ct" and ?i = "leafToNodeIndex (sd_leafIndex sd)"
  have good: "goodRatchet cs (base ?i (ct = CT_application)) ?r" by (rule goodSecretTree_ratchet [OF assms(1,2)])
  obtain key nonce r' where k: "receiveKey config cs (sd_generation sd) (sd_reuseGuard sd) ?r = Inr (key, nonce, r')"
    "r = packResult node ?i tree ct (sd_reuseGuard sd) (sd_generation sd) (key, nonce, r')"
    using assms(3) by (auto simp: ratchetToGeneration_receiveKey [OF assms(2)] res_map_eq_Inr)
  have "sparse_get (cr_newTree r) ?i = Some (setRatchet node ct r')"
    using updateArray_get [of ?i tree] sparse_get_range [OF assms(2)] by (simp add: k(2) packResult_def)
  then show ?thesis
    using receiveKey_retention [OF good k(1) assms(4,5)] receiveKey_keeps_skipped [OF good k(1)] assms(4)
    by (simp add: ratchet_setRatchet)
qed

theorem skipped_generations_kept_witness:
  "\<exists>r node'. ratchetToGeneration [Some exNode] \<lparr>sd_leafIndex = 0, sd_generation = 5, sd_reuseGuard = [1, 2, 3, 4]\<rparr>
      CT_application defaultKeyRetentionConfig (ratchetParams exSuite) = Inr r \<and>
    sparse_get (cr_newTree r) 0 = Some node' \<and> 3 \<in> fst ` set (rt_unused (sn_application node'))"
proof -
  let ?sd = "\<lparr>sd_leafIndex = 0, sd_generation = 5, sd_reuseGuard = [1, 2, 3, 4]\<rparr> :: senderData"
  have "case ratchetToGeneration [Some exNode] ?sd CT_application defaultKeyRetentionConfig (ratchetParams exSuite) of
      Inr _ \<Rightarrow> True | Inl _ \<Rightarrow> False" by code_simp
  then obtain r where r: "ratchetToGeneration [Some exNode] ?sd CT_application defaultKeyRetentionConfig
      (ratchetParams exSuite) = Inr r" by (auto split: sum.splits)
  have node: "sparse_get [Some exNode] (leafToNodeIndex (sd_leafIndex ?sd)) = Some exNode" using exNode_get by simp
  have keep: "kr_retainKeysForGenerations defaultKeyRetentionConfig = int 10" by (simp add: defaultKeyRetentionConfig_def)
  from skipped_generations_kept [OF exSecretTree_good node r keep] obtain node'
    where "sparse_get (cr_newTree r) 0 = Some node'"
      "\<forall>j. 0 \<le> j \<and> j < 5 \<and> 5 - int 10 \<le> j \<longrightarrow> j \<in> fst ` set (rt_unused (ratchetForContentType node' CT_application))"
    by (auto simp: exRatchet_def leafToNodeIndex_def)
  then show ?thesis using r by (auto simp: ratchetForContentType_def)
qed

section \<open>Key schedule\<close>

text \<open>The ten secrets of an epoch are expansions of the epoch secret under ten different inputs.\<close>

theorem epoch_secrets_separated:
  assumes "kdf_size kdf < 65536"
  shows "distinct (map (epochInfo kdf) epochLabels) \<and> (\<exists>d. deriveEpochKeys s kdf = Inr d \<and>
    epochOutputs d = map (\<lambda>i. kdf_expand kdf s i (int (kdf_size kdf))) (map (epochInfo kdf) epochLabels))"
proof -
  have "inj_on (epochInfo kdf) (set epochLabels)"
    by (rule inj_onI, rule epochInfo_inj [OF assms]) (auto simp: epochLabels_def)
  moreover have "distinct epochLabels" by (simp add: epochLabels_def)
  ultimately show ?thesis using deriveEpochKeys_outputs [OF assms, of s] by (simp add: distinct_map comp_def)
qed

theorem epoch_secrets_separated_witness:
  "\<exists>d. deriveEpochKeys [1, 2] exKdf = Inr d \<and> length (epochOutputs d) = 10"
proof -
  have "kdf_size exKdf < 65536" by (simp add: exKdf_def)
  from epoch_secrets_separated [OF this, of "[1, 2]"] obtain d where "deriveEpochKeys [1, 2] exKdf = Inr d"
    "length (epochOutputs d) = length epochLabels" by (metis length_map)
  then show ?thesis by (simp add: epochLabels_def)
qed

text \<open>The joiner's fold over the pre-shared keys it holds and the member's fold over the proposals give
  the same secret, and the ids in their order.\<close>

theorem psk_secret_agreed:
  assumes "list_all (\<lambda>p. length (psk_nonce p) = kdf_size kdf) ps" "list_all (\<lambda>p. findPsk p = Some (key p)) ps"
  shows "accumulatePskSecret ps findPsk kdf (replicate (kdf_size kdf) 0) =
    res_map (\<lambda>s. (s, ps)) (computePskSecret (map (\<lambda>p. (p, key p)) ps) kdf)"
  by (rule accumulate_compute [OF assms])

theorem psk_secret_agreed_witness:
  "accumulatePskSecret [\<lparr>psk_info = PskExternal [1], psk_nonce = [1, 2]\<rparr>] (\<lambda>_. Some [9]) exKdf [0, 0] =
    res_map (\<lambda>s. (s, [\<lparr>psk_info = PskExternal [1], psk_nonce = [1, 2]\<rparr>]))
      (computePskSecret [(\<lparr>psk_info = PskExternal [1], psk_nonce = [1, 2]\<rparr>, [9])] exKdf)"
  using psk_secret_agreed [of exKdf "[\<lparr>psk_info = PskExternal [1], psk_nonce = [1, 2]\<rparr>]" "\<lambda>_. Some [9]" "\<lambda>_. [9]"]
  by (simp add: exKdf_def numeral_2_eq_2)

section \<open>Keys of small order\<close>

text \<open>C40: The public keys that are refused are those that encode the ordinate, reduced or not and with either
  sign, of a multiple of a point of order eight on edwards25519 or of order four on edwards448
  (\<open>torsion25519_order\<close>, \<open>torsion448_order\<close>), and under such a key no signature verifies: whichever provider
  makes the verifier, with WebCrypto or with the package, it answers that the signature is wrong, without
  asking the primitive.  A key of Ed448 has no bit but the sign in its last byte.\<close>

theorem small_order_keys_verify_nothing:
  assumes "makeSignatureImpl subtle curves alg = Inr p" "makeNobleSignatureImpl curves alg = Inr q"
    and "\<forall>n. keyOrdinate alg key = Some n \<longrightarrow> n < 2 ^ 448"
  shows "(isSmallOrderSignatureKey alg key \<longleftrightarrow> smallOrderKey alg key) \<and>
    (smallOrderKey alg key \<longrightarrow> sgp_verify p key message signature = Inr False \<and> sgp_verify q key message signature = Inr False)"
  using small_order_iff [OF assms(3)] small_order_refused [OF assms(1)] small_order_noble [OF assms(2)] by blast

definition exCurves :: curves where
  "exCurves alg = Some \<lparr>cv_sign = (\<lambda>m k. Inr m), cv_verify = (\<lambda>s m k. Inr True)\<rparr>"

definition exSubtle :: "(unit, unit) subtleCrypto" where
  "exSubtle = \<lparr>sub_sign = (\<lambda>h m. m), sub_verify = (\<lambda>v s m. True), sub_importRaw = (\<lambda>k. Inr ()), sub_importPkcs8 = (\<lambda>k. Inr ()),
     sub_exportRaw = (\<lambda>v. [])\<rparr>"

text \<open>The ordinate of the point of order eight as a key, under verifiers that would accept everything.\<close>

theorem small_order_keys_verify_nothing_witness:
  "\<exists>p q :: unit signatureProvider. makeSignatureImpl exSubtle exCurves Ed25519 = Inr p \<and>
     makeNobleSignatureImpl exCurves Ed25519 = Inr q \<and> sgp_verify q (replicate 32 2) [] [] = Inr True \<and>
     sgp_verify p (leBytes 32 Y8_25519) [] [] = Inr False \<and> sgp_verify q (leBytes 32 Y8_25519) [] [] = Inr False"
proof -
  have "Y8_25519 < 2 ^ 255" by (simp add: Y8_25519_def)
  then have y: "keyOrdinate Ed25519 (leBytes 32 Y8_25519) = Some Y8_25519"
    using Y8_range(1) by (intro keyOrdinate_leBytes) simp_all
  then have small: "smallOrderKey Ed25519 (leBytes 32 Y8_25519)"
    by (simp add: smallOrderKey_def fieldPrime_def ordinates25519 residues(1) SMALL_ORDER_Y_25519_def del: set_map)
  have bound: "\<forall>n. keyOrdinate Ed25519 (leBytes 32 Y8_25519) = Some n \<longrightarrow> n < 2 ^ 448"
    unfolding y by (simp add: Y8_25519_def)
  have other: "\<not> isSmallOrderEd25519 (replicate 32 2)" by code_simp
  obtain p q :: "unit signatureProvider" where pq: "makeSignatureImpl exSubtle exCurves Ed25519 = Inr p" "makeNobleSignatureImpl exCurves Ed25519 = Inr q"
    by (simp add: makeSignatureImpl_def makeNobleSignatureImpl_def exCurves_def)
  moreover have "sgp_verify q (replicate 32 2) [] [] = Inr True"
    using pq(2) other by (auto simp: makeNobleSignatureImpl_def exCurves_def)
  ultimately show ?thesis using small_order_keys_verify_nothing [OF pq bound] small by blast
qed

end
