(* ===== verification/PathProperties.thy ===== *)
theory PathProperties imports Examples begin

text \<open>
  Properties of commits with an update path: the committer, the receivers and the added members end
  with one tree, with the commit secret, and with the private keys their places in the tree require.
\<close>

text \<open>C33: A receiver that applies the public part of an update path to the tree both sides hold builds
  exactly the committer's tree, with the hash the committer put into the group context, and that
  tree is well-formed.  Neither side's tree-hash cache matters.  The receiver refuses a path whose
  keys are not new, so these are assumed new.\<close>

theorem update_path_builds_one_tree:
  assumes "wfTree d t" "0 \<le> l" "l < 2 ^ d" "validEntry digest t e0" "validEntry digest t e1"
    and "createUpdatePath digest h t e0 l gc sk cs excl patch secret = Inr (cp, e)"
    and "freshPathKeys t l (cp_updatePath cp)"
  shows "(\<exists>e'. applyUpdatePath digest h t e1 l (cp_updatePath cp) False = Inr (cp_tree cp, e')) \<and>
    treeHashSpec (digest h) (cp_tree cp) (root (2 ^ d)) = Inr (cp_treeHash cp) \<and> wfTree d (cp_tree cp)"
proof -
  obtain pk new where "committedTree d t l excl cs gc secret cp pk new" by (rule committed_tree [OF assms(1-4,6)])
  then show ?thesis using update_path_agreement [OF assms] wfTree_committed [OF assms(1-3)] by blast
qed

theorem update_path_builds_one_tree_witness:
  "\<exists>cp e e'. exPath = Inr (cp, e) \<and> applyUpdatePath exDigest () exTree2 None 0 (cp_updatePath cp) False = Inr (cp_tree cp, e')"
proof -
  obtain cp e where p: "exPath = Inr (cp, e)" "freshPathKeys exTree2 0 (cp_updatePath cp)" using exPath_Inr by blast
  have "validEntry exDigest exTree2 None" by (simp add: validEntry_def)
  from update_path_builds_one_tree [OF exTree2_wf _ _ this this p [unfolded exPath_def]] p(1) show ?thesis by auto
qed

text \<open>C34: A member that holds the private keys its place in the tree requires opens a commit's path: it finds
  the common ancestor, decrypts its share, derives the same commit secret as the committer, every
  key it derives matches the one advertised, and afterwards it holds the private keys that the new
  tree requires.\<close>

theorem receiver_follows_update_path:
  assumes "wfTree d t" "0 \<le> l" "l < 2 ^ d" "0 \<le> r" "r < 2 ^ d" "r \<noteq> l" "sparse_get t (2 * r) \<noteq> None"
    and "memberKeys (cs_hpke cs) t r path" "\<forall>i\<in>set excl. even i" "2 * r \<notin> set excl"
    and "kemCorrect (cs_hpke cs)" "validEntry digest t e0"
    and "createUpdatePath digest h t e0 l gc sk cs excl patch secret = Inr (cp, e)"
    and "deriveSecret (ps_secret (last (cp_pathSecrets cp))) ''path'' (cs_kdf cs) = Inr commitSecret"
  shows "\<exists>keys. updatePrivateKeyPath (cp_tree cp) path l (gc\<lparr>gc_treeHash := cp_treeHash cp, gc_epoch := gc_epoch gc + 1\<rparr>)
      (cp_updatePath cp) excl cs = Inr (keys, commitSecret) \<and>
    memberKeys (cs_hpke cs) (cp_tree cp) r (pruneBlankedNodes (mergePrivateKeyPaths path keys) (cp_tree cp))"
  by (rule receiver_gets_keys [OF assms])

theorem receiver_follows_update_path_witness:
  "\<exists>cp e keys commitSecret. exPath = Inr (cp, e) \<and>
     updatePrivateKeyPath (cp_tree cp) exReceiver 0 (exContext\<lparr>gc_treeHash := cp_treeHash cp, gc_epoch := gc_epoch exContext + 1\<rparr>)
       (cp_updatePath cp) [] exKeySuite = Inr (keys, commitSecret)"
proof -
  obtain cp e s where p: "exPath = Inr (cp, e)" "deriveSecret (ps_secret (last (cp_pathSecrets cp))) ''path'' (cs_kdf exKeySuite) = Inr s"
    using exPath_Inr by (auto simp: exKeySuite_def)
  have hpke: "cs_hpke exKeySuite = exKeyHpke" by (simp add: exKeySuite_def)
  have v: "validEntry exDigest exTree2 None" by (simp add: validEntry_def)
  from receiver_follows_update_path [of 1 exTree2 0 1 exKeySuite exReceiver "[]" exDigest None "()" exContext "()" noPatch "[5, 6]" cp e s]
    p exTree2_wf exReceiver_keys exKeyHpke_correct v
  obtain keys where "updatePrivateKeyPath (cp_tree cp) exReceiver 0 (exContext\<lparr>gc_treeHash := cp_treeHash cp, gc_epoch := gc_epoch exContext + 1\<rparr>)
       (cp_updatePath cp) [] exKeySuite = Inr (keys, s)"
    unfolding hpke exPath_def by (auto simp: exTree2_get)
  then show ?thesis using p(1) by blast
qed

text \<open>C35: A member added by the commit, which holds only its own leaf key, finds in its welcome the path secret
  of its common ancestor with the committer, and derives from it the private keys its place in the
  new tree requires, all matching the advertised ones.\<close>

theorem joiner_follows_update_path:
  assumes "wfTree d t" "0 \<le> l" "l < 2 ^ d" "0 \<le> r" "r < 2 ^ d" "r \<noteq> l" "sparse_get t (2 * r) \<noteq> None"
    and "memberKeys (cs_hpke cs) t r path" "pkp_privateKeys path = [(2 * r, leafKey)]"
    and "kemCorrect (cs_hpke cs)" "validEntry digest t e0"
    and "createUpdatePath digest h t e0 l gc sk cs excl patch secret = Inr (cp, e)"
  shows "\<exists>a ps path'. firstCommonAncestor (cp_tree cp) r l = Inr a \<and>
    find (\<lambda>ps. ps_nodeIndex ps = a) (cp_pathSecrets cp) = Some ps \<and>
    deriveWelcomePrivateKeyPath (cp_tree cp) l a (ps_secret ps) path cs = Inr path' \<and>
    memberKeys (cs_hpke cs) (cp_tree cp) r path'"
  by (rule joiner_gets_keys [OF assms])

theorem joiner_follows_update_path_witness:
  "\<exists>cp e a ps path'. exPath = Inr (cp, e) \<and> firstCommonAncestor (cp_tree cp) 1 0 = Inr a \<and>
     find (\<lambda>ps. ps_nodeIndex ps = a) (cp_pathSecrets cp) = Some ps \<and>
     deriveWelcomePrivateKeyPath (cp_tree cp) 0 a (ps_secret ps) exReceiver exKeySuite = Inr path'"
proof -
  obtain cp e where p: "exPath = Inr (cp, e)" using exPath_Inr by blast
  have hpke: "cs_hpke exKeySuite = exKeyHpke" by (simp add: exKeySuite_def)
  have v: "validEntry exDigest exTree2 None" and own: "pkp_privateKeys exReceiver = [(2, [1])]"
    by (simp_all add: validEntry_def exReceiver_def)
  from joiner_follows_update_path [of 1 exTree2 0 1 exKeySuite exReceiver "[1]" exDigest None "()" exContext "()" "[]" noPatch "[5, 6]" cp e]
    p exTree2_wf exReceiver_keys exKeyHpke_correct v
  obtain a ps path' where "firstCommonAncestor (cp_tree cp) 1 0 = Inr a" "find (\<lambda>ps. ps_nodeIndex ps = a) (cp_pathSecrets cp) = Some ps"
    "deriveWelcomePrivateKeyPath (cp_tree cp) 0 a (ps_secret ps) exReceiver exKeySuite = Inr path'"
    unfolding hpke exPath_def by (auto simp: exTree2_get own)
  then show ?thesis using p by blast
qed

text \<open>C36: The committer, too, ends with the private keys the new tree requires: its new leaf key and the keys
  of its new path, merged into those it held.\<close>

theorem committer_keeps_private_path:
  assumes "wfTree d t" "0 \<le> l" "l < 2 ^ d" "memberKeys (cs_hpke cs) t l path"
    and "kemCorrect (cs_hpke cs)" "validEntry digest t e0"
    and "createUpdatePath digest h t e0 l gc sk cs excl patch secret = Inr (cp, e)"
  shows "\<exists>keys. toPrivateKeyPath (pathToPathSecrets (cp_pathSecrets cp)) l cs None = Inr keys \<and>
    memberKeys (cs_hpke cs) (cp_tree cp) l (pruneBlankedNodes (mergePrivateKeyPaths
      (updateLeafKey path (hpke_exportPrivateKey (cs_hpke cs) (cp_privateKey cp))) keys) (cp_tree cp))"
  by (rule committer_keeps_keys [OF assms])

theorem committer_keeps_private_path_witness:
  "\<exists>cp e keys. exPath = Inr (cp, e) \<and> toPrivateKeyPath (pathToPathSecrets (cp_pathSecrets cp)) 0 exKeySuite None = Inr keys \<and>
     memberKeys exKeyHpke (cp_tree cp) 0 (pruneBlankedNodes (mergePrivateKeyPaths (updateLeafKey exCommitter (cp_privateKey cp)) keys) (cp_tree cp))"
proof -
  obtain cp e where p: "exPath = Inr (cp, e)" using exPath_Inr by blast
  have hpke: "cs_hpke exKeySuite = exKeyHpke" "hpke_exportPrivateKey exKeyHpke k = k" for k
    by (simp_all add: exKeySuite_def exKeyHpke_def)
  moreover have "validEntry exDigest exTree2 None" by (simp add: validEntry_def)
  ultimately show ?thesis
    using exCommitter_keys committer_keeps_private_path [of 1 exTree2 0 exKeySuite exCommitter exDigest None "()" exContext "()" "[]" noPatch "[5, 6]" cp e]
      p exTree2_wf exKeyHpke_correct by (simp add: exPath_def)
qed

end
