(* ===== verification/ClientState.thy ===== *)
theory ClientState imports PrivateKeyPath MessageProtection Ciphersuites begin

text \<open>
  The state of a client in a group, \<^verbatim>\<open>src/client-state.ts\<close>: its configuration, pending proposals and
  pending update keys, the receiver data kept for past epochs, and the validation of leaf nodes
  and key packages.  The rules for proposals and commits are in the theories that follow.

  A \<open>Map\<close> or a record is an association list in insertion order, as JavaScript iterates it.  Records
  keyed by the base64 of a reference or of a key are keyed by the bytes, which base64 encodes one to
  one.  A function that returns an error or \<open>undefined\<close> returns an \<^typ>\<open>mls_error option\<close>, inside a
  result where it may also throw.  The current time is an argument.

  Tree hashes are computed without the cache at this level: what the cache returns is what the
  uncached recursion returns (C19), and a cache carried to another tree stays valid (C20).
\<close>

section \<open>Configuration\<close>

record lifetimeConfig =
  lc_maximumTotalLifetime :: int
  lc_validateLifetimeOnReceive :: bool

definition defaultLifetimeConfig :: lifetimeConfig where
  "defaultLifetimeConfig = \<lparr>lc_maximumTotalLifetime = 2628000, lc_validateLifetimeOnReceive = True\<rparr>"

record keyPackageEqualityConfig =
  eq_compareKeyPackages :: "keyPackage \<Rightarrow> keyPackage \<Rightarrow> bool"
  eq_compareKeyPackageToLeafNode :: "keyPackage \<Rightarrow> leafNode \<Rightarrow> bool"
  eq_compareLeafNodes :: "(leafNode \<Rightarrow> leafNode \<Rightarrow> bool) option"

definition sameMemberLeafNodes :: "keyPackageEqualityConfig \<Rightarrow> leafNode \<Rightarrow> leafNode \<Rightarrow> bool" where
  "sameMemberLeafNodes config a b = (case eq_compareLeafNodes config of
     Some compare \<Rightarrow> compare a b
   | None \<Rightarrow> constantTimeEqual (ln_signaturePublicKey a) (ln_signaturePublicKey b))"

definition defaultKeyPackageEqualityConfig :: keyPackageEqualityConfig where
  "defaultKeyPackageEqualityConfig =
     \<lparr>eq_compareKeyPackages = (\<lambda>a b. constantTimeEqual (ln_signaturePublicKey (kp_leafNode a)) (ln_signaturePublicKey (kp_leafNode b))),
      eq_compareKeyPackageToLeafNode = (\<lambda>a b. constantTimeEqual (ln_signaturePublicKey (kp_leafNode a)) (ln_signaturePublicKey b)),
      eq_compareLeafNodes = Some (\<lambda>a b. constantTimeEqual (ln_signaturePublicKey a) (ln_signaturePublicKey b))\<rparr>"

text \<open>The application's decision on a credential and its key, given the credential it replaces; it may throw.\<close>

type_synonym authenticationService = "credential \<Rightarrow> bytes \<Rightarrow> credential option \<Rightarrow> bool result"

definition failClosedAuthenticationService :: authenticationService where
  "failClosedAuthenticationService = (\<lambda>_ _ _. Inl UsageError)"

definition unsafeAcceptAllAuthenticationService :: authenticationService where
  "unsafeAcceptAllAuthenticationService = (\<lambda>_ _ _. Inr True)"

record clientConfig =
  cc_keyRetentionConfig :: keyRetentionConfig
  cc_lifetimeConfig :: lifetimeConfig
  cc_keyPackageEqualityConfig :: keyPackageEqualityConfig
  cc_paddingConfig :: paddingConfig
  cc_authService :: authenticationService
  cc_supportedCustomProposalTypes :: "int list"
  cc_maxPendingProposals :: int

definition defaultMaxPendingProposals :: int where
  "defaultMaxPendingProposals = 256"

definition defaultClientConfig :: clientConfig where
  "defaultClientConfig =
     \<lparr>cc_keyRetentionConfig = defaultKeyRetentionConfig, cc_lifetimeConfig = defaultLifetimeConfig,
      cc_keyPackageEqualityConfig = defaultKeyPackageEqualityConfig, cc_paddingConfig = defaultPaddingConfig,
      cc_authService = failClosedAuthenticationService, cc_supportedCustomProposalTypes = [],
      cc_maxPendingProposals = defaultMaxPendingProposals\<rparr>"

section \<open>Pending proposals\<close>

record proposalWithSender =
  pw_proposal :: proposal
  pw_senderLeafIndex :: "int option"
  pw_senderType :: senderTypeName

type_synonym unappliedProposals = "(bytes \<times> proposalWithSender) list"

definition emptyUnappliedProposals :: unappliedProposals where
  "emptyUnappliedProposals = []"

definition findUnappliedProposal :: "bytes \<Rightarrow> unappliedProposals \<Rightarrow> proposalWithSender option" where
  "findUnappliedProposal ref proposals = map_of proposals ref"

definition addUnappliedProposal ::
    "bytes \<Rightarrow> unappliedProposals \<Rightarrow> proposal \<Rightarrow> int option \<Rightarrow> senderTypeName \<Rightarrow> unappliedProposals" where
  "addUnappliedProposal ref proposals p senderLeafIndex senderType =
     AList.update ref \<lparr>pw_proposal = p, pw_senderLeafIndex = senderLeafIndex, pw_senderType = senderType\<rparr> proposals"

definition discardUnappliedProposal :: "bytes \<Rightarrow> unappliedProposals \<Rightarrow> unappliedProposals" where
  "discardUnappliedProposal ref proposals =
     (if ref \<in> fst ` set proposals then filter (\<lambda>(r, _). r \<noteq> ref) proposals else proposals)"

definition checkPendingCapacity :: "unappliedProposals \<Rightarrow> int \<Rightarrow> mls_error option" where
  "checkPendingCapacity proposals limit =
     (if limit \<le> 0 then Some ValidationError
      else if int (length proposals) \<ge> limit then Some ValidationError else None)"

section \<open>Pending update keys\<close>

record 'sk pendingUpdateKey =
  puk_hpkePrivateKey :: bytes
  puk_signaturePrivateKey :: "'sk option"

type_synonym 'sk pendingUpdateKeys = "(bytes \<times> 'sk pendingUpdateKey) list"

definition addPendingUpdateKey ::
    "bytes \<Rightarrow> 'sk pendingUpdateKeys option \<Rightarrow> 'sk pendingUpdateKey \<Rightarrow> 'sk pendingUpdateKeys" where
  "addPendingUpdateKey ref keys key = AList.update ref key (case keys of None \<Rightarrow> [] | Some ks \<Rightarrow> ks)"

fun findAppliedKey :: "'sk pendingUpdateKeys \<Rightarrow> proposalOrRef list \<Rightarrow> 'sk pendingUpdateKey option" where
  "findAppliedKey keys [] = None"
| "findAppliedKey keys (InlineProposal _ # rest) = findAppliedKey keys rest"
| "findAppliedKey keys (ReferencedProposal r # rest) =
     (case map_of keys r of None \<Rightarrow> findAppliedKey keys rest | Some k \<Rightarrow> Some k)"

definition appliedPendingUpdateKey ::
    "'sk pendingUpdateKeys option \<Rightarrow> proposalOrRef list \<Rightarrow> 'sk pendingUpdateKey option" where
  "appliedPendingUpdateKey keys proposals = (case keys of None \<Rightarrow> None | Some ks \<Rightarrow> findAppliedKey ks proposals)"

section \<open>The state\<close>

datatype groupActiveState = Active | SuspendedPendingReinit reinit | RemovedFromGroup

record epochReceiverData =
  er_resumptionPsk :: bytes
  er_secretTree :: secretTree
  er_ratchetTree :: ratchetTree
  er_senderDataSecret :: bytes
  er_groupContext :: groupContext

record 'sk clientState =
  st_groupContext :: groupContext
  st_keySchedule :: keySchedule
  st_secretTree :: secretTree
  st_ratchetTree :: ratchetTree
  st_privatePath :: privateKeyPath
  st_signaturePrivateKey :: 'sk
  st_unappliedProposals :: unappliedProposals
  st_pendingUpdateKeys :: "'sk pendingUpdateKeys option"
  st_confirmationTag :: bytes
  st_historicalReceiverData :: "(int \<times> epochReceiverData) list"
  st_groupActiveState :: groupActiveState
  st_clientConfig :: clientConfig

definition discardPendingProposal :: "'sk clientState \<Rightarrow> bytes \<Rightarrow> 'sk clientState" where
  "discardPendingProposal state ref =
     state\<lparr>st_unappliedProposals := discardUnappliedProposal ref (st_unappliedProposals state)\<rparr>"

definition listPendingProposals :: "'sk clientState \<Rightarrow> (bytes \<times> proposalWithSender) list" where
  "listPendingProposals state = st_unappliedProposals state"

definition withoutPendingUpdateKeys :: "'sk clientState \<Rightarrow> 'sk clientState" where
  "withoutPendingUpdateKeys state = state\<lparr>st_pendingUpdateKeys := None\<rparr>"

definition checkCanSendHandshakeMessages :: "'sk clientState \<Rightarrow> unit result" where
  "checkCanSendHandshakeMessages state = (case st_groupActiveState state of
     SuspendedPendingReinit _ \<Rightarrow> Inl UsageError | RemovedFromGroup \<Rightarrow> Inl UsageError | Active \<Rightarrow> Inr ())"

definition checkCanSendApplicationMessages :: "'sk clientState \<Rightarrow> unit result" where
  "checkCanSendApplicationMessages state =
     (if length (st_unappliedProposals state) \<noteq> 0 then Inl UsageError else checkCanSendHandshakeMessages state)"

section \<open>Past epochs\<close>

definition removeOldHistoricalReceiverData :: "(int \<times> epochReceiverData) list \<Rightarrow> int \<Rightarrow> (int \<times> epochReceiverData) list" where
  "removeOldHistoricalReceiverData historicalReceiverData limit =
     (if limit \<le> 0 then []
      else let sortedEpochs = sort (map fst historicalReceiverData) in
        map (\<lambda>epoch. (epoch, the (map_of historicalReceiverData epoch)))
          (drop (length sortedEpochs - nat limit) sortedEpochs))"

definition addHistoricalReceiverData :: "'sk clientState \<Rightarrow> (int \<times> epochReceiverData) list" where
  "addHistoricalReceiverData state =
     (let limit = kr_retainKeysForEpochs (cc_keyRetentionConfig (st_clientConfig state)) in
      if limit \<le> 0 then []
      else let withNew = AList.update (gc_epoch (st_groupContext state))
               \<lparr>er_resumptionPsk = ks_resumptionPsk (st_keySchedule state),
                er_secretTree = stripHandshakeRatchets (st_secretTree state),
                er_ratchetTree = st_ratchetTree state,
                er_senderDataSecret = ks_senderDataSecret (st_keySchedule state),
                er_groupContext = st_groupContext state\<rparr> (st_historicalReceiverData state)
           in if int (length withNew) \<ge> limit then removeOldHistoricalReceiverData withNew limit else withNew)"

end
