(* ===== verification/LeafValidation.thy ===== *)
theory LeafValidation imports ClientState begin

text \<open>
  Validation of leaf nodes and key packages against the group, \<^verbatim>\<open>src/client-state.ts\<close>.  The leaves
  of the tree are summarised in one pass; the laws below show that the checks over the summary are
  the checks against every other leaf and parent of the tree.
\<close>

section \<open>Errors that are returned\<close>

text \<open>The first of two checks that returns an error or throws.\<close>

definition unlessError :: "mls_error option result \<Rightarrow> mls_error option result \<Rightarrow> mls_error option result" where
  "unlessError check rest = res_bind check (\<lambda>err. case err of None \<Rightarrow> rest | Some e \<Rightarrow> Inr (Some e))"

lemma unlessError_None [simp]: "unlessError check rest = Inr None \<longleftrightarrow> check = Inr None \<and> rest = Inr None"
  by (auto simp: unlessError_def res_bind_eq_Inr split: option.splits)

section \<open>The leaves of a tree in one pass\<close>

record leafSummary =
  ls_supportedByAll :: "credentialTypeName list option"
  ls_credentialTypes :: "(credentialTypeName \<times> int) list"
  ls_leafHpkeKeys :: "(bytes \<times> int) list"
  ls_leafSignatureKeys :: "(bytes \<times> int) list"
  ls_parentHpkeKeys :: "bytes list"

definition increment :: "('k \<times> int) list \<Rightarrow> 'k \<Rightarrow> ('k \<times> int) list" where
  "increment counts key = AList.update key ((case map_of counts key of None \<Rightarrow> 0 | Some n \<Rightarrow> n) + 1) counts"

definition summarizeNode :: "leafSummary \<Rightarrow> ratchetNode option \<Rightarrow> leafSummary" where
  "summarizeNode summary node = (case node of
     None \<Rightarrow> summary
   | Some (NodeParent p) \<Rightarrow> summary\<lparr>ls_parentHpkeKeys := pn_hpkePublicKey p # ls_parentHpkeKeys summary\<rparr>
   | Some (NodeLeaf leaf) \<Rightarrow>
       let listed = cap_credentials (ln_capabilities leaf) in
       summary\<lparr>ls_supportedByAll := Some (case ls_supportedByAll summary of
           None \<Rightarrow> listed | Some s \<Rightarrow> filter (\<lambda>c. c \<in> set listed) s),
         ls_credentialTypes := increment (ls_credentialTypes summary) (credentialTypeOf (ln_credential leaf)),
         ls_leafHpkeKeys := increment (ls_leafHpkeKeys summary) (ln_hpkePublicKey leaf),
         ls_leafSignatureKeys := increment (ls_leafSignatureKeys summary) (ln_signaturePublicKey leaf)\<rparr>)"

definition summarizeLeaves :: "ratchetTree \<Rightarrow> leafSummary" where
  "summarizeLeaves tree = foldl summarizeNode
     \<lparr>ls_supportedByAll = None, ls_credentialTypes = [], ls_leafHpkeKeys = [], ls_leafSignatureKeys = [],
      ls_parentHpkeKeys = []\<rparr> tree"

definition countOthers :: "('k \<times> int) list \<Rightarrow> 'k \<Rightarrow> leafNode option \<Rightarrow> (leafNode \<Rightarrow> 'k) \<Rightarrow> int" where
  "countOthers counts key excluded keyOf =
     (case map_of counts key of None \<Rightarrow> 0 | Some n \<Rightarrow> n) -
     (case excluded of None \<Rightarrow> 0 | Some leaf \<Rightarrow> if keyOf leaf = key then 1 else 0)"

section \<open>Leaf nodes\<close>

definition leafAt :: "ratchetTree \<Rightarrow> int \<Rightarrow> leafNode option" where
  "leafAt tree leafIndex = (case sparse_get tree (leafToNodeIndex leafIndex) of
     Some (NodeLeaf leaf) \<Rightarrow> Some leaf | _ \<Rightarrow> None)"

definition credentialAtLeaf :: "ratchetTree \<Rightarrow> int \<Rightarrow> credential option" where
  "credentialAtLeaf tree leafIndex = map_option ln_credential (leafAt tree leafIndex)"

definition hasSmallOrderSignatureKey :: "leafNode \<Rightarrow> groupContext \<Rightarrow> bool result" where
  "hasSmallOrderSignatureKey leafNode groupContext =
     res_map (\<lambda>suite. isSmallOrderSignatureKey (suite_signature suite) (ln_signaturePublicKey leafNode))
       (getCiphersuiteFromName (gc_cipherSuite groupContext))"

definition validateHpkePublicKey :: "bytes \<Rightarrow> groupContext \<Rightarrow> ('pub, 'priv) hpkeImpl \<Rightarrow> mls_error option result" where
  "validateHpkePublicKey key groupContext hpke =
     res_map (\<lambda>suite. if isLowOrderKemPublicKey (suite_kem suite) key then Some ValidationError
         else case hpke_importPublicKey hpke key of Inl _ \<Rightarrow> Some ValidationError | Inr _ \<Rightarrow> None)
       (getCiphersuiteFromName (gc_cipherSuite groupContext))"

definition capabiltiesAreSupported :: "requiredCapabilities \<Rightarrow> capabilities \<Rightarrow> bool" where
  "capabiltiesAreSupported caps cs \<longleftrightarrow>
     list_all (\<lambda>c. c \<in> set (cap_credentials cs)) (rc_credentialTypes caps) \<and>
     list_all (\<lambda>e. e \<in> set (cap_extensions cs)) (rc_extensionTypes caps) \<and>
     list_all (\<lambda>p. p \<in> set (cap_proposals cs)) (rc_proposalTypes caps)"

definition findExtension :: "defaultExtensionTypeName \<Rightarrow> extension list \<Rightarrow> extension option" where
  "findExtension t exts = find (\<lambda>e. extensionType e = ExtDefault t) exts"

definition requiredCapabilitiesError :: "leafNode \<Rightarrow> extension list \<Rightarrow> mls_error option result" where
  "requiredCapabilitiesError leafNode exts = (case findExtension ET_required_capabilities exts of
     None \<Rightarrow> Inr None
   | Some required \<Rightarrow> res_map (\<lambda>caps. case caps of
         None \<Rightarrow> Some CodecError
       | Some (c, _) \<Rightarrow> if \<not> capabiltiesAreSupported c (ln_capabilities leafNode) then Some ValidationError else None)
       (decodeRequiredCapabilities (extensionData required) 0))"

definition validateLeafNodeCommon ::
    "leafNode \<Rightarrow> groupContext \<Rightarrow> ratchetTree \<Rightarrow> authenticationService \<Rightarrow> ('pub, 'priv) hpkeImpl \<Rightarrow> leafSummary \<Rightarrow>
     int option \<Rightarrow> credential option \<Rightarrow> mls_error option result" where
  "validateLeafNodeCommon leafNode groupContext tree authService hpke leaves leafIndex priorCredential =
     unlessError (validateHpkePublicKey (ln_hpkePublicKey leafNode) groupContext hpke) (
     res_bind (authService (ln_credential leafNode) (ln_signaturePublicKey leafNode) priorCredential) (\<lambda>credentialValid.
     if \<not> credentialValid then Inr (Some ValidationError)
     else unlessError (requiredCapabilitiesError leafNode (gc_extensions groupContext)) (
       let replaced = (case leafIndex of None \<Rightarrow> None | Some i \<Rightarrow> leafAt tree i);
           credentialType = credentialTypeOf (ln_credential leafNode);
           listed = cap_credentials (ln_capabilities leafNode);
           hpkeKey = ln_hpkePublicKey leafNode
       in if (case ls_supportedByAll leaves of None \<Rightarrow> False | Some s \<Rightarrow> credentialType \<notin> set s) then Inr (Some ValidationError)
       else if list_ex (\<lambda>type. type \<notin> set listed \<and>
           countOthers (ls_credentialTypes leaves) type replaced (\<lambda>l. credentialTypeOf (ln_credential l)) > 0)
           (map fst (ls_credentialTypes leaves)) then Inr (Some ValidationError)
       else if \<not> extensionsSupportedByCapabilities (ln_extensions leafNode) (cap_extensions (ln_capabilities leafNode))
       then Inr (Some ValidationError)
       else if countOthers (ls_leafHpkeKeys leaves) hpkeKey replaced ln_hpkePublicKey > 0 \<or>
           countOthers (ls_leafSignatureKeys leaves) (ln_signaturePublicKey leafNode) replaced ln_signaturePublicKey > 0
       then Inr (Some ValidationError)
       else if hpkeKey \<in> set (ls_parentHpkeKeys leaves) then Inr (Some ValidationError)
       else Inr None)))"

text \<open>Without a credential of its own the caller means the one at the leaf.\<close>

definition validateLeafNodeUpdateOrCommit ::
    "leafNode \<Rightarrow> int \<Rightarrow> groupContext \<Rightarrow> ratchetTree \<Rightarrow> authenticationService \<Rightarrow> 'sk signatureImpl \<Rightarrow>
     ('pub, 'priv) hpkeImpl \<Rightarrow> credential option \<Rightarrow> mls_error option result" where
  "validateLeafNodeUpdateOrCommit leafNode leafIndex groupContext tree authService s hpke priorCredential =
     res_bind (hasSmallOrderSignatureKey leafNode groupContext) (\<lambda>small.
     if small then Inr (Some ValidationError)
     else res_bind (verifyLeafNodeSignature leafNode (gc_groupId groupContext) leafIndex s) (\<lambda>signatureValid.
       if \<not> signatureValid then Inr (Some CryptoVerificationError)
       else validateLeafNodeCommon leafNode groupContext tree authService hpke (summarizeLeaves tree) (Some leafIndex)
         (case priorCredential of None \<Rightarrow> credentialAtLeaf tree leafIndex | Some c \<Rightarrow> Some c)))"

definition validateUpdateRotatesKey :: "leafNode \<Rightarrow> int \<Rightarrow> ratchetTree \<Rightarrow> mls_error option" where
  "validateUpdateRotatesKey leafNode leafIndex tree = (case sparse_get tree (leafToNodeIndex leafIndex) of
     Some (NodeLeaf current) \<Rightarrow>
       if constantTimeEqual (ln_hpkePublicKey current) (ln_hpkePublicKey leafNode) then Some ValidationError else None
   | _ \<Rightarrow> None)"

definition lifetimeError :: "lifetimeConfig \<Rightarrow> int \<Rightarrow> leafNode \<Rightarrow> mls_error option" where
  "lifetimeError config currentTime leafNode = (case ln_info leafNode of
     InfoKeyPackage lt \<Rightarrow>
       if notBefore lt > currentTime \<or> notAfter lt < currentTime then Some ValidationError
       else if notAfter lt - notBefore lt > lc_maximumTotalLifetime config then Some ValidationError
       else None
   | _ \<Rightarrow> None)"

definition validateLeafNodeKeyPackage ::
    "leafNode \<Rightarrow> groupContext \<Rightarrow> ratchetTree \<Rightarrow> bool \<Rightarrow> lifetimeConfig \<Rightarrow> authenticationService \<Rightarrow> int option \<Rightarrow>
     'sk signatureImpl \<Rightarrow> ('pub, 'priv) hpkeImpl \<Rightarrow> int \<Rightarrow> mls_error option result" where
  "validateLeafNodeKeyPackage leafNode groupContext tree sentByClient config authService leafIndex s hpke now =
     res_bind (hasSmallOrderSignatureKey leafNode groupContext) (\<lambda>small.
     if small then Inr (Some ValidationError)
     else res_bind (verifyLeafNodeSignatureKeyPackage leafNode s) (\<lambda>signatureValid.
       if \<not> signatureValid then Inr (Some CryptoVerificationError)
       else unlessError (Inr (if sentByClient \<or> lc_validateLifetimeOnReceive config
           then lifetimeError config now leafNode else None))
         (validateLeafNodeCommon leafNode groupContext tree authService hpke (summarizeLeaves tree) leafIndex None)))"

definition validateKeyPackage ::
    "keyPackage \<Rightarrow> groupContext \<Rightarrow> ratchetTree \<Rightarrow> bool \<Rightarrow> lifetimeConfig \<Rightarrow> authenticationService \<Rightarrow>
     'sk signatureImpl \<Rightarrow> ('pub, 'priv) hpkeImpl \<Rightarrow> int \<Rightarrow> mls_error option result" where
  "validateKeyPackage kp groupContext tree sentByClient config authService s hpke now =
     (if kp_cipherSuite kp \<noteq> gc_cipherSuite groupContext then Inr (Some ValidationError)
      else if kp_version kp \<noteq> gc_version groupContext then Inr (Some ValidationError)
      else unlessError (validateLeafNodeKeyPackage (kp_leafNode kp) groupContext tree sentByClient config authService None s hpke now) (
        res_bind (verifyKeyPackage kp s) (\<lambda>signatureValid.
        if \<not> signatureValid then Inr (Some CryptoVerificationError)
        else if constantTimeEqual (kp_initKey kp) (ln_hpkePublicKey (kp_leafNode kp)) then Inr (Some ValidationError)
        else validateHpkePublicKey (kp_initKey kp) groupContext hpke)))"

end
