(* ===== verification/ProposalRules.thy ===== *)
theory ProposalRules imports LeafValidation begin

text \<open>
  The rules for the proposals of a commit and for proposals on receipt, \<^verbatim>\<open>src/client-state.ts\<close>: grouping
  them by type, validating them against the tree and each other, and applying them.
\<close>

section \<open>Searches that may throw\<close>

fun res_exists :: "('a \<Rightarrow> bool result) \<Rightarrow> 'a list \<Rightarrow> bool result" where
  "res_exists f [] = Inr False"
| "res_exists f (x # xs) = res_bind (f x) (\<lambda>b. if b then Inr True else res_exists f xs)"

definition res_forall :: "('a \<Rightarrow> bool result) \<Rightarrow> 'a list \<Rightarrow> bool result" where
  "res_forall f xs = res_map Not (res_exists (\<lambda>x. res_map Not (f x)) xs)"

lemma res_exists_pure [simp]: "res_exists (\<lambda>x. Inr (f x)) xs = Inr (list_ex f xs)"
  by (induction xs) auto

lemma res_exists_Inr_False: "res_exists f xs = Inr False \<longleftrightarrow> (\<forall>x \<in> set xs. f x = Inr False)"
  by (induction xs) (auto simp: res_bind_eq_Inr)

section \<open>Grouped proposals\<close>

record proposals =
  pr_add :: "(int option \<times> keyPackage) list"
  pr_update :: "(int option \<times> leafNode) list"
  pr_remove :: "(int option \<times> int) list"
  pr_psk :: "(int option \<times> preSharedKeyID) list"
  pr_reinit :: "(int option \<times> reinit) list"
  pr_external_init :: "(int option \<times> bytes) list"
  pr_group_context_extensions :: "(int option \<times> extension list) list"

definition emptyProposals :: proposals where
  "emptyProposals = \<lparr>pr_add = [], pr_update = [], pr_remove = [], pr_psk = [], pr_reinit = [],
     pr_external_init = [], pr_group_context_extensions = []\<rparr>"

definition groupProposal :: "proposals \<Rightarrow> proposalWithSender \<Rightarrow> proposals" where
  "groupProposal acc cur = (let s = pw_senderLeafIndex cur in case pw_proposal cur of
     ProposalAdd kp \<Rightarrow> acc\<lparr>pr_add := pr_add acc @ [(s, kp)]\<rparr>
   | ProposalUpdate leaf \<Rightarrow> acc\<lparr>pr_update := pr_update acc @ [(s, leaf)]\<rparr>
   | ProposalRemove removed \<Rightarrow> acc\<lparr>pr_remove := pr_remove acc @ [(s, removed)]\<rparr>
   | ProposalPSK psk \<Rightarrow> acc\<lparr>pr_psk := pr_psk acc @ [(s, psk)]\<rparr>
   | ProposalReinit r \<Rightarrow> acc\<lparr>pr_reinit := pr_reinit acc @ [(s, r)]\<rparr>
   | ProposalExternalInit kemOutput \<Rightarrow> acc\<lparr>pr_external_init := pr_external_init acc @ [(s, kemOutput)]\<rparr>
   | ProposalGroupContextExtensions exts \<Rightarrow>
       acc\<lparr>pr_group_context_extensions := pr_group_context_extensions acc @ [(s, exts)]\<rparr>
   | ProposalCustom _ _ \<Rightarrow> acc)"

definition groupProposals :: "proposalWithSender list \<Rightarrow> proposals" where
  "groupProposals allProposals = foldl groupProposal emptyProposals allProposals"

definition flattenExtensions :: "(int option \<times> extension list) list \<Rightarrow> extension list" where
  "flattenExtensions groupContextExtensions = foldl (\<lambda>acc (_, exts). acc @ exts) [] groupContextExtensions"

definition groupContextAfterExtensions :: "groupContext \<Rightarrow> proposals \<Rightarrow> groupContext" where
  "groupContextAfterExtensions groupContext p =
     (if length (pr_group_context_extensions p) = 0 then groupContext
      else groupContext\<lparr>gc_extensions := flattenExtensions (pr_group_context_extensions p)\<rparr>)"

section \<open>Rules for the proposals of a commit\<close>

definition validateNoDuplicatePskIds :: "(int option \<times> preSharedKeyID) list \<Rightarrow> mls_error option result" where
  "validateNoDuplicatePskIds psk =
     res_map (\<lambda>dup. if dup then Some ValidationError else None)
       (res_exists (\<lambda>(indexA, _, a). res_exists (\<lambda>(indexB, _, b).
          res_bind (encodePskId a) (\<lambda>ea. res_bind (encodePskId b) (\<lambda>eb.
            Inr (constantTimeEqual ea eb \<and> indexA \<noteq> indexB)))) (enumerate 0 psk)) (enumerate 0 psk))"

definition validatePskProposals :: "preSharedKeyID list \<Rightarrow> groupContext \<Rightarrow> mls_error option" where
  "validatePskProposals pskIds groupContext =
     (if list_ex (\<lambda>i. case psk_info i of
          PskExternal _ \<Rightarrow> False
        | PskResumption usage _ _ \<Rightarrow> usage \<noteq> RU_application \<and> gc_epoch groupContext \<noteq> 0) pskIds
      then Some ValidationError else None)"

definition validatePskNonce :: "preSharedKeyID \<Rightarrow> ('pub, 'priv, 'sk) ciphersuiteImpl \<Rightarrow> mls_error option" where
  "validatePskNonce pskId cs =
     (if length (psk_nonce pskId) \<noteq> kdf_size (cs_kdf cs) then Some ValidationError else None)"

text \<open>The leaves of a tree with their leaf indices; a leaf node at an odd position throws.\<close>

definition leavesWithIndex :: "ratchetTree \<Rightarrow> (int \<times> leafNode) list result" where
  "leavesWithIndex tree = res_mapM (\<lambda>(nodeIndex, leaf). res_map (\<lambda>i. (i, leaf)) (nodeToLeafIndex (int nodeIndex)))
     (List.map_filter (\<lambda>(i, n). case n of Some (NodeLeaf leaf) \<Rightarrow> Some (i, leaf) | _ \<Rightarrow> None) (enumerate 0 tree))"

definition postMutationLeafCapabilities :: "ratchetTree \<Rightarrow> proposals \<Rightarrow> capabilities list result" where
  "postMutationLeafCapabilities tree p = res_map (\<lambda>leaves.
     map (\<lambda>(leafIndex, leaf). case find (\<lambda>(s, _). s = Some leafIndex) (pr_update p) of
         Some (_, u) \<Rightarrow> ln_capabilities u | None \<Rightarrow> ln_capabilities leaf)
       (filter (\<lambda>(leafIndex, _). \<not> list_ex (\<lambda>(_, removed). removed = leafIndex) (pr_remove p)) leaves))
     (leavesWithIndex tree)"

fun validateSenderCredentials :: "authenticationService \<Rightarrow> externalSender list \<Rightarrow> mls_error option result" where
  "validateSenderCredentials authService [] = Inr None"
| "validateSenderCredentials authService (s # rest) =
     res_bind (authService (es_credential s) (es_signaturePublicKey s) None) (\<lambda>validCredential.
       if \<not> validCredential then Inr (Some ValidationError) else validateSenderCredentials authService rest)"

definition validateExternalSenders :: "extension list \<Rightarrow> authenticationService \<Rightarrow> mls_error option result" where
  "validateExternalSenders exts authService = (case findExtension ET_external_senders exts of
     None \<Rightarrow> Inr None
   | Some e \<Rightarrow> res_bind (decodeExternalSenders (extensionData e) 0) (\<lambda>decoded. case decoded of
         None \<Rightarrow> Inr (Some CodecError)
       | Some (senders, _) \<Rightarrow> validateSenderCredentials authService senders))"

definition containsUpdateByCommitter :: "proposals \<Rightarrow> int option \<Rightarrow> bool" where
  "containsUpdateByCommitter p committerLeafIndex \<longleftrightarrow>
     list_ex (\<lambda>(s, _). s \<noteq> None \<and> s = committerLeafIndex) (pr_update p)"

definition containsRemoveOfCommitter :: "proposals \<Rightarrow> int option \<Rightarrow> bool" where
  "containsRemoveOfCommitter p committerLeafIndex \<longleftrightarrow>
     list_ex (\<lambda>(_, removed). Some removed = committerLeafIndex) (pr_remove p)"

definition multipleUpdateRemoveForSameLeaf :: "proposals \<Rightarrow> bool" where
  "multipleUpdateRemoveForSameLeaf p \<longleftrightarrow>
     list_ex (\<lambda>(indexA, a, _).
         list_ex (\<lambda>(indexB, b, _). a = b \<and> indexA \<noteq> indexB) (enumerate 0 (pr_update p)) \<or>
         list_ex (\<lambda>(_, removed). Some removed = a) (pr_remove p)) (enumerate 0 (pr_update p)) \<or>
     list_ex (\<lambda>(indexA, _, a).
         list_ex (\<lambda>(indexB, _, b). b = a \<and> indexA \<noteq> indexB) (enumerate 0 (pr_remove p)) \<or>
         list_ex (\<lambda>(s, _). Some a = s) (pr_update p)) (enumerate 0 (pr_remove p))"

definition multipleAddsContainSameKeypackage :: "keyPackageEqualityConfig \<Rightarrow> proposals \<Rightarrow> bool" where
  "multipleAddsContainSameKeypackage config p \<longleftrightarrow>
     list_ex (\<lambda>(indexA, _, a). list_ex (\<lambda>(indexB, _, b). eq_compareKeyPackages config a b \<and> indexA \<noteq> indexB)
       (enumerate 0 (pr_add p))) (enumerate 0 (pr_add p))"

definition addsContainExistingKeypackage :: "keyPackageEqualityConfig \<Rightarrow> ratchetTree \<Rightarrow> proposals \<Rightarrow> bool result" where
  "addsContainExistingKeypackage config tree p =
     res_exists (\<lambda>(_, kp). res_exists (\<lambda>(nodeIndex, node). case node of
         Some (NodeLeaf leaf) \<Rightarrow>
           if eq_compareKeyPackageToLeafNode config kp leaf
           then res_forall (\<lambda>(_, removed). res_map (\<lambda>i. removed \<noteq> i) (nodeToLeafIndex (int nodeIndex))) (pr_remove p)
           else Inr False
       | _ \<Rightarrow> Inr False) (enumerate 0 tree)) (pr_add p)"

text \<open>What the required capabilities of the new extensions ask of the members that stay and those added.\<close>

definition newRequiredCapabilitiesError ::
    "extension list \<Rightarrow> capabilities list \<Rightarrow> proposals \<Rightarrow> mls_error option result" where
  "newRequiredCapabilitiesError allExtensions remainingCapabilities p =
     (case findExtension ET_required_capabilities allExtensions of
        None \<Rightarrow> Inr None
      | Some e \<Rightarrow> res_map (\<lambda>caps. case caps of
            None \<Rightarrow> Some CodecError
          | Some (required, _) \<Rightarrow>
              if \<not> list_all (capabiltiesAreSupported required) remainingCapabilities then Some ValidationError
              else if \<not> list_all (\<lambda>(_, kp). capabiltiesAreSupported required (ln_capabilities (kp_leafNode kp))) (pr_add p)
              then Some ValidationError else None)
          (decodeRequiredCapabilities (extensionData e) 0))"

definition validateProposals ::
    "proposals \<Rightarrow> int option \<Rightarrow> groupContext \<Rightarrow> groupContext \<Rightarrow> keyPackageEqualityConfig \<Rightarrow> authenticationService \<Rightarrow>
     ratchetTree \<Rightarrow> mls_error option result" where
  "validateProposals p committerLeafIndex groupContext contextAfterExtensions config authService tree =
     (if containsUpdateByCommitter p committerLeafIndex then Inr (Some ValidationError)
      else if containsRemoveOfCommitter p committerLeafIndex then Inr (Some ValidationError)
      else if multipleUpdateRemoveForSameLeaf p then Inr (Some ValidationError)
      else if multipleAddsContainSameKeypackage config p then Inr (Some ValidationError)
      else res_bind (addsContainExistingKeypackage config tree p) (\<lambda>existing.
        if existing then Inr (Some ValidationError)
        else if \<not> list_all (\<lambda>(_, kp). extensionsSupportedByCapabilities (gc_extensions contextAfterExtensions)
            (cap_extensions (ln_capabilities (kp_leafNode kp)))) (pr_add p) then Inr (Some ValidationError)
        else unlessError (validateNoDuplicatePskIds (pr_psk p)) (
          unlessError (Inr (validatePskProposals (map snd (pr_psk p)) groupContext)) (
          if length (pr_group_context_extensions p) > 1 then Inr (Some ValidationError)
          else let allExtensions = flattenExtensions (pr_group_context_extensions p) in
            res_bind (postMutationLeafCapabilities tree p) (\<lambda>remainingCapabilities.
            if length allExtensions > 0 \<and> \<not> list_all (\<lambda>caps. extensionsSupportedByCapabilities allExtensions
                 (cap_extensions caps)) remainingCapabilities then Inr (Some ValidationError)
            else unlessError (newRequiredCapabilitiesError allExtensions remainingCapabilities p)
              (validateExternalSenders allExtensions authService))))))"

definition withoutRequiredCapabilities :: "groupContext \<Rightarrow> groupContext" where
  "withoutRequiredCapabilities groupContext = groupContext\<lparr>gc_extensions :=
     filter (\<lambda>e. extensionType e \<noteq> ExtDefault ET_required_capabilities) (gc_extensions groupContext)\<rparr>"

definition protocolVersionNumber :: "protocolVersionName \<Rightarrow> int" where
  "protocolVersionNumber v = the (map_of protocolVersions v)"

definition validateReinit :: "proposalWithSender list \<Rightarrow> reinit \<Rightarrow> groupContext \<Rightarrow> mls_error option" where
  "validateReinit allProposals r gc =
     (if length allProposals \<noteq> 1 then Some ValidationError
      else if protocolVersionNumber (ri_version r) < protocolVersionNumber (gc_version gc) then Some ValidationError
      else None)"

definition validateExternalInitSenderType :: "senderTypeName \<Rightarrow> nat \<Rightarrow> mls_error option" where
  "validateExternalInitSenderType senderType externalInitCount =
     (if externalInitCount > 0 \<and> senderType \<noteq> ST_new_member_commit then Some ValidationError
      else if senderType = ST_new_member_commit \<and> externalInitCount \<noteq> 1 then Some ValidationError
      else None)"

definition validateExternalInit :: "proposals \<Rightarrow> mls_error option" where
  "validateExternalInit grouped =
     (if length (pr_external_init grouped) > 1 then Some ValidationError
      else if length (pr_remove grouped) > 1 then Some ValidationError
      else if length (pr_add grouped) > 0 \<or> length (pr_group_context_extensions grouped) > 0 \<or>
        length (pr_reinit grouped) > 0 \<or> length (pr_update grouped) > 0 then Some ValidationError
      else None)"

definition validateRemove :: "int \<Rightarrow> ratchetTree \<Rightarrow> mls_error option" where
  "validateRemove removed tree =
     (if sparse_get tree (leafToNodeIndex removed) = None then Some ValidationError else None)"

section \<open>Applying proposals\<close>

definition applyUpdateProposal ::
    "ratchetTree \<Rightarrow> groupContext \<Rightarrow> authenticationService \<Rightarrow> ('pub, 'priv, 'sk) ciphersuiteImpl \<Rightarrow>
     ratchetTree \<Rightarrow> int option \<times> leafNode \<Rightarrow> ratchetTree result" where
  "applyUpdateProposal ratchetTree gc authService cs tree = (\<lambda>(senderLeafIndex, leafNode). case senderLeafIndex of
     None \<Rightarrow> Inl InternalError
   | Some i \<Rightarrow>
       res_bind (throwIfDefined (validateUpdateRotatesKey leafNode i ratchetTree)) (\<lambda>_.
       res_bind (validateLeafNodeUpdateOrCommit leafNode i gc tree authService (cs_signature cs) (cs_hpke cs) None) (\<lambda>err.
       res_bind (throwIfDefined err) (\<lambda>_. updateLeafNode tree leafNode i))))"

definition applyRemoveProposal :: "ratchetTree \<Rightarrow> ratchetTree \<Rightarrow> int option \<times> int \<Rightarrow> ratchetTree result" where
  "applyRemoveProposal ratchetTree tree = (\<lambda>(_, removed).
     res_bind (throwIfDefined (validateRemove removed ratchetTree)) (\<lambda>_. removeLeafNode tree removed))"

definition applyAddProposal ::
    "groupContext \<Rightarrow> bool \<Rightarrow> authenticationService \<Rightarrow> lifetimeConfig \<Rightarrow> ('pub, 'priv, 'sk) ciphersuiteImpl \<Rightarrow> int \<Rightarrow>
     ratchetTree \<times> (int \<times> keyPackage) list \<Rightarrow> int option \<times> keyPackage \<Rightarrow>
     (ratchetTree \<times> (int \<times> keyPackage) list) result" where
  "applyAddProposal gc sentByClient authService config cs now = (\<lambda>(tree, ws) (_, kp).
     res_bind (validateKeyPackage kp gc tree sentByClient config authService (cs_signature cs) (cs_hpke cs) now) (\<lambda>err.
     res_bind (throwIfDefined err) (\<lambda>_.
     res_bind (addLeafNode tree (kp_leafNode kp)) (\<lambda>(updatedTree, leafNodeIndex).
     res_bind (nodeToLeafIndex leafNodeIndex) (\<lambda>leafIndex. Inr (updatedTree, ws @ [(leafIndex, kp)]))))))"

definition applyTreeMutations ::
    "ratchetTree \<Rightarrow> proposals \<Rightarrow> groupContext \<Rightarrow> bool \<Rightarrow> authenticationService \<Rightarrow> lifetimeConfig \<Rightarrow>
     ('pub, 'priv, 'sk) ciphersuiteImpl \<Rightarrow> int \<Rightarrow> (ratchetTree \<times> (int \<times> keyPackage) list) result" where
  "applyTreeMutations ratchetTree grouped gc sentByClient authService config cs now =
     res_bind (res_foldM (applyUpdateProposal ratchetTree gc authService cs) ratchetTree (pr_update grouped)) (\<lambda>treeAfterUpdate.
     res_bind (res_foldM (applyRemoveProposal ratchetTree) treeAfterUpdate (pr_remove grouped)) (\<lambda>treeAfterRemove.
       res_foldM (applyAddProposal gc sentByClient authService config cs now) (treeAfterRemove, []) (pr_add grouped)))"

definition externalInitLabel :: bytes where
  "externalInitLabel = ascii ''MLS 1.0 external init secret''"

definition exportSecret :: "bytes \<Rightarrow> ('pub, 'priv, 'sk) ciphersuiteImpl \<Rightarrow> (bytes \<times> bytes) result" where
  "exportSecret publicKey cs = res_bind (hpke_importPublicKey (cs_hpke cs) publicKey) (\<lambda>key.
     Inr (hpke_exportSecret (cs_hpke cs) key externalInitLabel (int (kdf_size (cs_kdf cs))) []))"

definition importSecret :: "bytes \<Rightarrow> bytes \<Rightarrow> ('pub, 'priv, 'sk) ciphersuiteImpl \<Rightarrow> bytes result" where
  "importSecret privateKey kemOutput cs = res_bind (hpke_importPrivateKey (cs_hpke cs) privateKey) (\<lambda>key.
     hpke_importSecret (cs_hpke cs) key externalInitLabel kemOutput (int (kdf_size (cs_kdf cs))) [])"

datatype applyProposalsData =
    MemberCommit "(int \<times> keyPackage) list" groupContext
  | ExternalCommit bytes int "credential option"
  | ReinitCommit reinit

record applyProposalsResult =
  ap_tree :: ratchetTree
  ap_pskSecret :: bytes
  ap_pskIds :: "preSharedKeyID list"
  ap_needsUpdatePath :: bool
  ap_additionalResult :: applyProposalsData
  ap_selfRemoved :: bool
  ap_allProposals :: "proposalWithSender list"

definition resolveProposals ::
    "proposalOrRef list \<Rightarrow> int option \<Rightarrow> senderTypeName \<Rightarrow> unappliedProposals \<Rightarrow> proposalWithSender list result" where
  "resolveProposals ps committerLeafIndex senderType unapplied = res_mapM (\<lambda>cur. case cur of
     InlineProposal p \<Rightarrow> Inr \<lparr>pw_proposal = p, pw_senderLeafIndex = committerLeafIndex, pw_senderType = senderType\<rparr>
   | ReferencedProposal r \<Rightarrow> (case findUnappliedProposal r unapplied of
         None \<Rightarrow> Inl ValidationError | Some p \<Rightarrow> Inr p)) ps"

definition isCustomProposal :: "proposal \<Rightarrow> bool" where
  "isCustomProposal p = (case p of ProposalCustom _ _ \<Rightarrow> True | _ \<Rightarrow> False)"

definition unsupportedCustomProposal :: "int list \<Rightarrow> proposalWithSender \<Rightarrow> bool" where
  "unsupportedCustomProposal supported cur = (case pw_proposal cur of
     ProposalCustom t _ \<Rightarrow> t \<notin> set supported | _ \<Rightarrow> False)"

text \<open>The part for commits of members.\<close>

definition applyMemberProposals ::
    "'sk clientState \<Rightarrow> proposalWithSender list \<Rightarrow> proposals \<Rightarrow> int option \<Rightarrow> (preSharedKeyID \<Rightarrow> bytes option) \<Rightarrow> bool \<Rightarrow>
     ('pub, 'priv, 'sk) ciphersuiteImpl \<Rightarrow> int \<Rightarrow> applyProposalsResult result" where
  "applyMemberProposals state allProposals grouped committerLeafIndex findPsk sentByClient cs now =
     (let zeroes = replicate (kdf_size (cs_kdf cs)) 0; config = st_clientConfig state in
      case pr_reinit grouped of
        (_, r) # _ \<Rightarrow> res_bind (throwIfDefined (validateReinit allProposals r (st_groupContext state))) (\<lambda>_.
          Inr \<lparr>ap_tree = st_ratchetTree state, ap_pskSecret = zeroes, ap_pskIds = [], ap_needsUpdatePath = False,
               ap_additionalResult = ReinitCommit r, ap_selfRemoved = False, ap_allProposals = allProposals\<rparr>)
      | [] \<Rightarrow>
          let contextAfterExtensions = groupContextAfterExtensions (st_groupContext state) grouped in
          res_bind (validateProposals grouped committerLeafIndex (st_groupContext state) contextAfterExtensions
            (cc_keyPackageEqualityConfig config) (cc_authService config) (st_ratchetTree state)) (\<lambda>err.
          res_bind (throwIfDefined err) (\<lambda>_.
          res_bind (applyTreeMutations (st_ratchetTree state) grouped contextAfterExtensions sentByClient
            (cc_authService config) (cc_lifetimeConfig config) cs now) (\<lambda>(mutatedTree, addedLeafNodes).
          res_bind (accumulatePskSecret (map snd (pr_psk grouped)) findPsk (cs_kdf cs) zeroes) (\<lambda>(pskSecret, pskIds).
            Inr \<lparr>ap_tree = mutatedTree, ap_pskSecret = pskSecret, ap_pskIds = pskIds,
              ap_needsUpdatePath = (length allProposals = 0 \<or> length (pr_update grouped) > 0 \<or>
                length (pr_remove grouped) > 0 \<or> length (pr_group_context_extensions grouped) > 0 \<or>
                list_ex (\<lambda>p. isCustomProposal (pw_proposal p)) allProposals),
              ap_additionalResult = MemberCommit addedLeafNodes contextAfterExtensions,
              ap_selfRemoved =
                (sparse_get mutatedTree (leafToNodeIndex (pkp_leafIndex (st_privatePath state))) = None),
              ap_allProposals = allProposals\<rparr>)))))"

text \<open>The leaf that the remove of an external commit replaces must carry the joiner's signature key.\<close>

definition resyncCredential :: "ratchetTree \<Rightarrow> leafNode option \<Rightarrow> int \<Rightarrow> credential result" where
  "resyncCredential tree newMemberLeafNode removed =
     res_bind (throwIfDefined (validateRemove removed tree)) (\<lambda>_.
     case (newMemberLeafNode, sparse_get tree (leafToNodeIndex removed)) of
       (Some new, Some (NodeLeaf old)) \<Rightarrow>
         if constantTimeEqual (ln_signaturePublicKey old) (ln_signaturePublicKey new) then Inr (ln_credential old)
         else Inl ValidationError
     | _ \<Rightarrow> Inl ValidationError)"

definition applyExternalProposals ::
    "'sk clientState \<Rightarrow> proposalOrRef list \<Rightarrow> proposalWithSender list \<Rightarrow> proposals \<Rightarrow> (preSharedKeyID \<Rightarrow> bytes option) \<Rightarrow>
     ('pub, 'priv, 'sk) ciphersuiteImpl \<Rightarrow> leafNode option \<Rightarrow> applyProposalsResult result" where
  "applyExternalProposals state ps allProposals grouped findPsk cs newMemberLeafNode =
     (if list_ex (\<lambda>p. case p of ReferencedProposal _ \<Rightarrow> True | InlineProposal _ \<Rightarrow> False) ps then Inl ValidationError
      else res_bind (throwIfDefined (validateExternalInit grouped)) (\<lambda>_.
      res_bind (throwIfDefined (validatePskProposals (map snd (pr_psk grouped)) (st_groupContext state))) (\<lambda>_.
      res_bind (validateNoDuplicatePskIds (pr_psk grouped)) (\<lambda>dup.
      res_bind (throwIfDefined dup) (\<lambda>_.
      res_bind (case pr_remove grouped of
          [] \<Rightarrow> Inr None
        | (_, removed) # _ \<Rightarrow> res_map Some (resyncCredential (st_ratchetTree state) newMemberLeafNode removed))
        (\<lambda>priorCredential.
      res_bind (res_foldM (\<lambda>acc (_, removed). removeLeafNode acc removed) (st_ratchetTree state) (pr_remove grouped))
        (\<lambda>treeAfterRemove.
      res_bind (accumulatePskSecret (map snd (pr_psk grouped)) findPsk (cs_kdf cs)
          (replicate (kdf_size (cs_kdf cs)) 0)) (\<lambda>(pskSecret, pskIds).
      let kemOutput = snd (hd (pr_external_init grouped));
          externalKeyPair = hpke_deriveKeyPair (cs_hpke cs) (ks_externalSecret (st_keySchedule state)) in
      res_bind (importSecret (hpke_exportPrivateKey (cs_hpke cs) (fst externalKeyPair)) kemOutput cs)
        (\<lambda>externalInitSecret.
      res_bind (nodeToLeafIndex (findBlankLeafNodeIndexOrExtend treeAfterRemove)) (\<lambda>newMemberLeafIndex.
        Inr \<lparr>ap_tree = treeAfterRemove, ap_pskSecret = pskSecret, ap_pskIds = pskIds, ap_needsUpdatePath = True,
          ap_additionalResult = ExternalCommit externalInitSecret newMemberLeafIndex priorCredential,
          ap_selfRemoved = False, ap_allProposals = allProposals\<rparr>))))))))))"

definition applyProposals ::
    "'sk clientState \<Rightarrow> proposalOrRef list \<Rightarrow> int option \<Rightarrow> (preSharedKeyID \<Rightarrow> bytes option) \<Rightarrow> bool \<Rightarrow>
     ('pub, 'priv, 'sk) ciphersuiteImpl \<Rightarrow> leafNode option \<Rightarrow> senderTypeName option \<Rightarrow> int \<Rightarrow> applyProposalsResult result" where
  "applyProposals state ps committerLeafIndex findPsk sentByClient cs newMemberLeafNode senderTypeArg now =
     (let senderType = (case senderTypeArg of Some t \<Rightarrow> t
        | None \<Rightarrow> if committerLeafIndex \<noteq> None then ST_member else ST_new_member_commit) in
      res_bind (resolveProposals ps committerLeafIndex senderType (st_unappliedProposals state)) (\<lambda>allProposals.
      if list_ex (unsupportedCustomProposal (cc_supportedCustomProposalTypes (st_clientConfig state))) allProposals
      then Inl ValidationError
      else let grouped = groupProposals allProposals;
             isExternalInit = length (pr_external_init grouped) > 0 in
        res_bind (throwIfDefined (validateExternalInitSenderType senderType (length (pr_external_init grouped)))) (\<lambda>_.
        if \<not> isExternalInit then
          applyMemberProposals state allProposals grouped committerLeafIndex findPsk sentByClient cs now
        else applyExternalProposals state ps allProposals grouped findPsk cs newMemberLeafNode)))"

section \<open>Pre-shared keys and the next epoch's context\<close>

definition makePskIndex ::
    "'sk clientState option \<Rightarrow> (bytes \<times> bytes) list \<Rightarrow> preSharedKeyID \<Rightarrow> bytes option" where
  "makePskIndex state externalPsks i = (case psk_info i of
     PskExternal pskId \<Rightarrow> map_of externalPsks pskId
   | PskResumption _ groupId epoch \<Rightarrow> (case state of
         None \<Rightarrow> None
       | Some st \<Rightarrow>
           if constantTimeEqual groupId (gc_groupId (st_groupContext st)) then
             (if epoch = gc_epoch (st_groupContext st) then Some (ks_resumptionPsk (st_keySchedule st))
              else map_option er_resumptionPsk (map_of (st_historicalReceiverData st) epoch))
           else None))"

definition nextEpochContext ::
    "groupContext \<Rightarrow> wireformatName \<Rightarrow> framedContent \<Rightarrow> bytes \<Rightarrow> bytes \<Rightarrow> bytes \<Rightarrow> hashImpl \<Rightarrow> groupContext result" where
  "nextEpochContext groupContext wireformat content signature updatedTreeHash confirmationTag h =
     res_bind (if gc_epoch groupContext = 0 then Inr []
         else createInterimHash (h_digest h) (gc_confirmedTranscriptHash groupContext) confirmationTag) (\<lambda>interim.
     res_bind (createConfirmedHash (h_digest h) interim
         \<lparr>ct_wireformat = wireformat, ct_content = content, ct_signature = signature\<rparr>) (\<lambda>newConfirmedHash.
       Inr (groupContext\<lparr>gc_epoch := gc_epoch groupContext + 1, gc_treeHash := updatedTreeHash,
         gc_confirmedTranscriptHash := newConfirmedHash\<rparr>)))"

section \<open>Proposals on receipt\<close>

definition asValidationError :: "mls_error option \<Rightarrow> mls_error option" where
  "asValidationError err = (if err = Some CryptoVerificationError then Some ValidationError else err)"

definition withoutLeavesMatching :: "ratchetTree \<Rightarrow> (leafNode \<Rightarrow> bool) \<Rightarrow> ratchetTree result" where
  "withoutLeavesMatching tree matches = res_foldM (\<lambda>acc (nodeIndex, node). case node of
     Some (NodeLeaf leaf) \<Rightarrow>
       if matches leaf then res_bind (nodeToLeafIndex (int nodeIndex)) (removeLeafNode acc) else Inr acc
   | _ \<Rightarrow> Inr acc) tree (enumerate 0 tree)"

definition validateProposalOnReceipt ::
    "'sk clientState \<Rightarrow> proposal \<Rightarrow> int option \<Rightarrow> bool \<Rightarrow> ('pub, 'priv, 'sk) ciphersuiteImpl \<Rightarrow> int \<Rightarrow>
     mls_error option result" where
  "validateProposalOnReceipt state p senderLeafIndex sentByClient cs now =
     (let config = st_clientConfig state; gc = withoutRequiredCapabilities (st_groupContext state) in
      case p of
        ProposalRemove removed \<Rightarrow> Inr (validateRemove removed (st_ratchetTree state))
      | ProposalAdd kp \<Rightarrow>
          res_bind (withoutLeavesMatching (st_ratchetTree state)
            (eq_compareKeyPackageToLeafNode (cc_keyPackageEqualityConfig config) kp)) (\<lambda>tree.
          res_map asValidationError (validateKeyPackage kp gc tree sentByClient (cc_lifetimeConfig config)
            (cc_authService config) (cs_signature cs) (cs_hpke cs) now))
      | ProposalUpdate leafNode \<Rightarrow> (case senderLeafIndex of
            None \<Rightarrow> Inr (Some ValidationError)
          | Some i \<Rightarrow> unlessError (Inr (validateUpdateRotatesKey leafNode i (st_ratchetTree state)))
              (res_map asValidationError (validateLeafNodeUpdateOrCommit leafNode i gc (st_ratchetTree state)
                (cc_authService config) (cs_signature cs) (cs_hpke cs) None)))
      | ProposalPSK pskId \<Rightarrow> unlessError (Inr (validatePskNonce pskId cs))
          (Inr (validatePskProposals [pskId] (st_groupContext state)))
      | ProposalExternalInit _ \<Rightarrow> Inr (Some ValidationError)
      | ProposalReinit _ \<Rightarrow> Inr None
      | ProposalGroupContextExtensions _ \<Rightarrow> Inr None
      | ProposalCustom _ _ \<Rightarrow> Inr None)"

definition processProposal ::
    "'sk clientState \<Rightarrow> authenticatedContent \<Rightarrow> proposal \<Rightarrow> ('pub, 'priv, 'sk) ciphersuiteImpl \<Rightarrow> int \<Rightarrow>
     'sk clientState result" where
  "processProposal state content p cs now =
     (let sender = fc_sender (ac_content content); senderLeafIndex = getSenderLeafNodeIndex sender in
      res_bind (throwIfDefined (checkPendingCapacity (st_unappliedProposals state)
        (cc_maxPendingProposals (st_clientConfig state)))) (\<lambda>_.
      res_bind (validateProposalOnReceipt state p senderLeafIndex False cs now) (\<lambda>err.
      res_bind (throwIfDefined err) (\<lambda>_.
      res_bind (makeProposalRef content (cs_hash cs)) (\<lambda>ref.
        Inr (state\<lparr>st_unappliedProposals := addUnappliedProposal ref (st_unappliedProposals state) p senderLeafIndex
          (senderTypeOf sender)\<rparr>))))))"

end
