(* ===== verification/Commits.thy ===== *)
theory Commits imports ProposalRules begin

text \<open>
  Creating commits, \<^verbatim>\<open>src/create-commit.ts\<close>, and processing incoming messages,
  \<^verbatim>\<open>src/process-messages.ts\<close>.

  Random bytes and the current time are arguments; the leaf node patch is given resolved.  The lists
  of consumed buffers name buffers by identity, which the model does not have, and are left out.
  \<open>treeHashOf\<close> and \<open>applyPath\<close> start from an empty tree-hash cache.
\<close>

section \<open>The tree operations without a cache\<close>

definition treeHashOf :: "('pub, 'priv, 'sk) ciphersuiteImpl \<Rightarrow> ratchetTree \<Rightarrow> bytes result" where
  "treeHashOf cs tree = res_map fst (treeHashRoot h_digest tree (cs_hash cs) None)"

definition createPath ::
    "ratchetTree \<Rightarrow> int \<Rightarrow> groupContext \<Rightarrow> 'sk \<Rightarrow> ('pub, 'priv, 'sk) ciphersuiteImpl \<Rightarrow> int list \<Rightarrow>
     'sk resolvedLeafNodePatch \<Rightarrow> bytes \<Rightarrow> ('pub, 'priv) createdPath result" where
  "createPath tree senderLeafIndex gc signaturePrivateKey cs excludeNodes patch secret = res_map fst
     (createUpdatePath h_digest (cs_hash cs) tree None senderLeafIndex gc signaturePrivateKey cs excludeNodes patch secret)"

definition applyPath ::
    "ratchetTree \<Rightarrow> int \<Rightarrow> updatePath \<Rightarrow> ('pub, 'priv, 'sk) ciphersuiteImpl \<Rightarrow> bool \<Rightarrow> ratchetTree result" where
  "applyPath tree senderLeafIndex path cs isExternal = res_map fst
     (applyUpdatePath h_digest (cs_hash cs) tree None senderLeafIndex path isExternal)"

section \<open>Group information\<close>

definition createGroupInfo ::
    "groupContext \<Rightarrow> bytes \<Rightarrow> 'sk clientState \<Rightarrow> extension list \<Rightarrow> ('pub, 'priv, 'sk) ciphersuiteImpl \<Rightarrow> groupInfo result" where
  "createGroupInfo groupContext confirmationTag state exts cs =
     signGroupInfo \<lparr>gi_groupContext = groupContext, gi_extensions = exts, gi_confirmationTag = confirmationTag,
       gi_signer = pkp_leafIndex (st_privatePath state)\<rparr> (st_signaturePrivateKey state) (cs_signature cs)"

definition createGroupInfoWithRatchetTree ::
    "groupContext \<Rightarrow> bytes \<Rightarrow> 'sk clientState \<Rightarrow> ratchetTree \<Rightarrow> extension list \<Rightarrow>
     ('pub, 'priv, 'sk) ciphersuiteImpl \<Rightarrow> groupInfo result" where
  "createGroupInfoWithRatchetTree groupContext confirmationTag state tree exts cs =
     res_bind (encodeRatchetTree tree) (\<lambda>encodedTree.
       createGroupInfo groupContext confirmationTag state
         (exts @ [\<lparr>extensionType = ExtDefault ET_ratchet_tree, extensionData = encodedTree\<rparr>]) cs)"

definition encodeExternalPub :: "'sk clientState \<Rightarrow> ('pub, 'priv, 'sk) ciphersuiteImpl \<Rightarrow> bytes result" where
  "encodeExternalPub state cs =
     (let keyPair = hpke_deriveKeyPair (cs_hpke cs) (ks_externalSecret (st_keySchedule state)) in
      encodeVarLenData (hpke_exportPublicKey (cs_hpke cs) (snd keyPair)))"

definition decodeExternalPub :: "bytes \<Rightarrow> bytes result" where
  "decodeExternalPub data = (case decodeVarLenData data 0 of
     Inl e \<Rightarrow> if e = CodecError then Inl ValidationError else Inl e
   | Inr None \<Rightarrow> Inl ValidationError
   | Inr (Some (key, len)) \<Rightarrow> if len \<noteq> length data then Inl ValidationError else Inr key)"

definition createGroupInfoWithExternalPub ::
    "'sk clientState \<Rightarrow> extension list \<Rightarrow> ('pub, 'priv, 'sk) ciphersuiteImpl \<Rightarrow> groupInfo result" where
  "createGroupInfoWithExternalPub state exts cs = res_bind (encodeExternalPub state cs) (\<lambda>externalPub.
     createGroupInfo (st_groupContext state) (st_confirmationTag state) state
       (exts @ [\<lparr>extensionType = ExtDefault ET_external_pub, extensionData = externalPub\<rparr>]) cs)"

definition createGroupInfoWithExternalPubAndRatchetTree ::
    "'sk clientState \<Rightarrow> extension list \<Rightarrow> ('pub, 'priv, 'sk) ciphersuiteImpl \<Rightarrow> groupInfo result" where
  "createGroupInfoWithExternalPubAndRatchetTree state exts cs =
     res_bind (encodeRatchetTree (st_ratchetTree state)) (\<lambda>encodedTree.
     res_bind (encodeExternalPub state cs) (\<lambda>externalPub.
     createGroupInfo (st_groupContext state) (st_confirmationTag state) state
       (exts @ [\<lparr>extensionType = ExtDefault ET_external_pub, extensionData = externalPub\<rparr>,
         \<lparr>extensionType = ExtDefault ET_ratchet_tree, extensionData = encodedTree\<rparr>]) cs))"

section \<open>The proposals of a commit\<close>

definition bundleAllProposals :: "bytes list \<Rightarrow> proposal list \<Rightarrow> proposalOrRef list" where
  "bundleAllProposals pendingRefs extraProposals =
     map ReferencedProposal pendingRefs @ map InlineProposal extraProposals"

definition isRemoveProposal :: "proposal \<Rightarrow> bool" where
  "isRemoveProposal p = (case p of ProposalRemove _ \<Rightarrow> True | _ \<Rightarrow> False)"

record keptProposals =
  kp_tree :: ratchetTree
  kp_removed :: "int list"
  kp_seen :: "bytes list"
  kp_kept :: "(bytes \<times> proposal) list"

text \<open>One pending proposal: the kept ones are those no check stands against.\<close>

definition filterPendingProposal ::
    "'sk clientState \<Rightarrow> ('pub, 'priv, 'sk) ciphersuiteImpl \<Rightarrow> int \<Rightarrow> keptProposals \<Rightarrow> bytes \<times> proposalWithSender \<Rightarrow>
     keptProposals result" where
  "filterPendingProposal state cs now acc = (\<lambda>(ref, pending).
     let p = pw_proposal pending; senderLeafIndex = pw_senderLeafIndex pending;
         own = Some (pkp_leafIndex (st_privatePath state)) in
     res_bind (encodeProposal p) (\<lambda>encoded.
     if encoded \<in> set (kp_seen acc) then Inr acc
     else if (case p of ProposalUpdate _ \<Rightarrow> senderLeafIndex = own \<or>
         (case senderLeafIndex of None \<Rightarrow> False | Some s \<Rightarrow> s \<in> set (kp_removed acc)) | _ \<Rightarrow> False) then Inr acc
     else res_bind (validateProposalOnReceipt (state\<lparr>st_ratchetTree := kp_tree acc\<rparr>) p senderLeafIndex
         (senderLeafIndex = own) cs now) (\<lambda>err.
       if err \<noteq> None then Inr acc
       else res_bind (case p of
           ProposalRemove r \<Rightarrow> res_map (\<lambda>tree. (r # kp_removed acc, tree)) (removeLeafNode (kp_tree acc) r)
         | _ \<Rightarrow> Inr (kp_removed acc, kp_tree acc)) (\<lambda>(removed, tree).
           Inr \<lparr>kp_tree = tree, kp_removed = removed, kp_seen = encoded # kp_seen acc,
                kp_kept = kp_kept acc @ [(ref, p)]\<rparr>))))"

definition extensionsAfterCommit :: "extension list \<Rightarrow> proposal list \<Rightarrow> extension list" where
  "extensionsAfterCommit current ps =
     (let gce = List.map_filter (\<lambda>p. case p of ProposalGroupContextExtensions exts \<Rightarrow> Some exts | _ \<Rightarrow> None) ps
      in if length gce = 0 then current else concat gce)"

definition proposedLeaf :: "proposal \<Rightarrow> leafNode option" where
  "proposedLeaf p = (case p of ProposalAdd kp \<Rightarrow> Some (kp_leafNode kp) | ProposalUpdate leaf \<Rightarrow> Some leaf | _ \<Rightarrow> None)"

fun keepCapable :: "extension list \<Rightarrow> (bytes \<times> proposal) list \<Rightarrow> bytes list result" where
  "keepCapable exts [] = Inr []"
| "keepCapable exts ((ref, p) # rest) =
     res_bind (case proposedLeaf p of None \<Rightarrow> Inr None | Some leaf \<Rightarrow> requiredCapabilitiesError leaf exts) (\<lambda>err.
     res_map (\<lambda>refs. if err = None then ref # refs else refs) (keepCapable exts rest))"

definition filterPendingProposals ::
    "'sk clientState \<Rightarrow> proposal list \<Rightarrow> ('pub, 'priv, 'sk) ciphersuiteImpl \<Rightarrow> int \<Rightarrow> bytes list result" where
  "filterPendingProposals state extraProposals cs now =
     (let pending = st_unappliedProposals state;
          ordered = filter (\<lambda>(_, p). isRemoveProposal (pw_proposal p)) pending @
            filter (\<lambda>(_, p). \<not> isRemoveProposal (pw_proposal p)) pending in
      res_bind (res_foldM (filterPendingProposal state cs now)
          \<lparr>kp_tree = st_ratchetTree state, kp_removed = [], kp_seen = [], kp_kept = []\<rparr> ordered) (\<lambda>acc.
        keepCapable (extensionsAfterCommit (gc_extensions (st_groupContext state))
          (map snd (kp_kept acc) @ extraProposals)) (kp_kept acc)))"

section \<open>Welcomes\<close>

definition createEncryptedGroupSecrets ::
    "ratchetTree \<Rightarrow> int \<Rightarrow> 'sk clientState \<Rightarrow> pathSecret list \<Rightarrow> ('pub, 'priv, 'sk) ciphersuiteImpl \<Rightarrow> keyPackage \<Rightarrow>
     bytes \<Rightarrow> epochSecrets \<Rightarrow> applyProposalsResult \<Rightarrow> encryptedGroupSecrets result" where
  "createEncryptedGroupSecrets tree leafNodeIndex state pathSecrets cs kp encryptedGroupInfo epochSecrets res =
     res_bind (firstCommonAncestor tree leafNodeIndex (pkp_leafIndex (st_privatePath state))) (\<lambda>nodeIndex.
     let pathSecret = find (\<lambda>ps. ps_nodeIndex ps = nodeIndex) pathSecrets in
     res_bind (hpke_importPublicKey (cs_hpke cs) (kp_initKey kp)) (\<lambda>pk.
     res_bind (encryptGroupSecrets pk encryptedGroupInfo
         \<lparr>gs_joinerSecret = es_joinerSecret epochSecrets, gs_pathSecret = map_option ps_secret pathSecret,
          gs_psks = ap_pskIds res\<rparr> (cs_hpke cs)) (\<lambda>(ct, enc).
     res_map (\<lambda>ref. \<lparr>egs_newMember = ref,
          egs_encryptedGroupSecrets = \<lparr>hc_kemOutput = enc, hc_ciphertext = ct\<rparr>\<rparr>)
       (makeKeyPackageRef kp (cs_hash cs)))))"

definition createWelcome ::
    "bool \<Rightarrow> groupContext \<Rightarrow> bytes \<Rightarrow> 'sk clientState \<Rightarrow> ratchetTree \<Rightarrow> ('pub, 'priv, 'sk) ciphersuiteImpl \<Rightarrow> epochSecrets \<Rightarrow>
     applyProposalsResult \<Rightarrow> pathSecret list \<Rightarrow> extension list \<Rightarrow> welcomeMessage option result" where
  "createWelcome ratchetTreeExtension groupContext confirmationTag state tree cs epochSecrets res pathSecrets exts =
     res_bind (if ratchetTreeExtension
         then createGroupInfoWithRatchetTree groupContext confirmationTag state tree exts cs
         else createGroupInfo groupContext confirmationTag state exts cs) (\<lambda>groupInfo.
     res_bind (encryptGroupInfo groupInfo (es_welcomeSecret epochSecrets) (cs_kdf cs) (cs_hpke cs)) (\<lambda>encryptedGroupInfo.
     res_map (\<lambda>secrets. if length secrets > 0 then Some \<lparr>w_cipherSuite = gc_cipherSuite groupContext,
           w_secrets = secrets, w_encryptedGroupInfo = encryptedGroupInfo\<rparr> else None)
       (case ap_additionalResult res of
          MemberCommit addedLeafNodes _ \<Rightarrow> res_mapM (\<lambda>(leafNodeIndex, kp). createEncryptedGroupSecrets tree leafNodeIndex
            state pathSecrets cs kp encryptedGroupInfo epochSecrets res) addedLeafNodes
        | _ \<Rightarrow> Inr [])))"

section \<open>Creating a commit\<close>

record 'sk createCommitOptions =
  co_wireAsPublicMessage :: bool
  co_extraProposals :: "proposal list"
  co_ratchetTreeExtension :: bool
  co_groupInfoExtensions :: "extension list"
  co_authenticatedData :: bytes
  co_leafNodePatch :: "'sk resolvedLeafNodePatch option"

record 'sk createCommitResult =
  cr_newState :: "'sk clientState"
  cr_welcome :: "welcomeMessage option"
  cr_welcomeMessage :: "mLSMessage option"
  cr_commit :: mLSMessage

definition protectCommit ::
    "bool \<Rightarrow> 'sk clientState \<Rightarrow> bytes \<Rightarrow> framedContent \<Rightarrow> framedContentAuthData \<Rightarrow> ('pub, 'priv, 'sk) ciphersuiteImpl \<Rightarrow>
     bytes \<Rightarrow> (mLSMessage \<times> secretTree) result" where
  "protectCommit isPublicMessage state authenticatedData content authData cs guard =
     (if isPublicMessage then
        res_map (\<lambda>msg. (\<lparr>mm_version = PV_mls10, mm_content = MlsPublicMessage msg\<rparr>, st_secretTree state))
          (protectPublicMessage (ks_membershipKey (st_keySchedule state)) (st_groupContext state)
            \<lparr>ac_wireformat = WF_public_message, ac_content = content, ac_auth = authData\<rparr> cs)
      else res_map (\<lambda>(msg, tree). (\<lparr>mm_version = PV_mls10, mm_content = MlsPrivateMessage msg\<rparr>, tree))
          (protect (ks_senderDataSecret (st_keySchedule state)) authenticatedData (st_groupContext state)
            (st_secretTree state) \<lparr>pmc_info = fc_info content, pmc_auth = authData\<rparr>
            (pkp_leafIndex (st_privatePath state)) (cc_paddingConfig (st_clientConfig state)) cs guard))"

text \<open>The new tree, the path if there is one, its secrets, the new leaf key and the tree's hash.\<close>

definition commitPath ::
    "'sk clientState \<Rightarrow> applyProposalsResult \<Rightarrow> groupContext \<Rightarrow> ('pub, 'priv, 'sk) ciphersuiteImpl \<Rightarrow>
     'sk resolvedLeafNodePatch option \<Rightarrow> bytes \<Rightarrow>
     (ratchetTree \<times> updatePath option \<times> pathSecret list \<times> 'priv option \<times> bytes option) result" where
  "commitPath state res groupContext cs patch secret =
     (if ap_needsUpdatePath res \<or> patch \<noteq> None then
        res_map (\<lambda>cp. (cp_tree cp, Some (cp_updatePath cp), cp_pathSecrets cp, Some (cp_privateKey cp), Some (cp_treeHash cp)))
          (createPath (ap_tree res) (pkp_leafIndex (st_privatePath state)) groupContext (st_signaturePrivateKey state) cs
            (case ap_additionalResult res of
               MemberCommit added _ \<Rightarrow> map (\<lambda>l. leafToNodeIndex (fst l)) added | _ \<Rightarrow> [])
            (case patch of None \<Rightarrow> noPatch | Some p \<Rightarrow> p) secret)
      else Inr (ap_tree res, None, [], None, None))"

definition commitSecretOf :: "pathSecret list \<Rightarrow> kdfImpl \<Rightarrow> bytes result" where
  "commitSecretOf pathSecrets kdf =
     (if pathSecrets = [] then Inr (replicate (kdf_size kdf) 0) else deriveSecret (ps_secret (last pathSecrets)) ''path'' kdf)"

text \<open>The committer's private keys in the new epoch.\<close>

definition committerPrivatePath ::
    "'sk clientState \<Rightarrow> 'priv option \<Rightarrow> pathSecret list \<Rightarrow> ratchetTree \<Rightarrow> ('pub, 'priv, 'sk) ciphersuiteImpl \<Rightarrow>
     privateKeyPath result" where
  "committerPrivatePath state newPrivateKey pathSecrets tree cs =
     res_map (\<lambda>fromPath. pruneBlankedNodes (mergePrivateKeyPaths
         (case newPrivateKey of
            Some k \<Rightarrow> updateLeafKey (st_privatePath state) (hpke_exportPrivateKey (cs_hpke cs) k)
          | None \<Rightarrow> st_privatePath state) fromPath) tree)
       (toPrivateKeyPath (pathToPathSecrets pathSecrets) (pkp_leafIndex (st_privatePath state)) cs None)"

definition activeStateAfter :: "applyProposalsResult \<Rightarrow> groupActiveState" where
  "activeStateAfter res = (if ap_selfRemoved res then RemovedFromGroup
     else case ap_additionalResult res of ReinitCommit r \<Rightarrow> SuspendedPendingReinit r | _ \<Rightarrow> Active)"

definition contextAfterProposals :: "'sk clientState \<Rightarrow> applyProposalsResult \<Rightarrow> groupContext" where
  "contextAfterProposals state res = (case ap_additionalResult res of
     MemberCommit _ gc \<Rightarrow> gc | _ \<Rightarrow> st_groupContext state)"

definition createCommit ::
    "'sk clientState \<Rightarrow> (preSharedKeyID \<Rightarrow> bytes option) \<Rightarrow> ('pub, 'priv, 'sk) ciphersuiteImpl \<Rightarrow> 'sk createCommitOptions \<Rightarrow>
     bytes \<Rightarrow> bytes \<Rightarrow> int \<Rightarrow> 'sk createCommitResult result" where
  "createCommit state findPsk cs options secret guard now =
     (let wireformat = (if co_wireAsPublicMessage options then WF_public_message else WF_private_message);
          patch = co_leafNodePatch options; own = pkp_leafIndex (st_privatePath state) in
      res_bind (checkCanSendHandshakeMessages state) (\<lambda>_.
      res_bind (filterPendingProposals state (co_extraProposals options) cs now) (\<lambda>pendingRefs.
      let allProposals = bundleAllProposals pendingRefs (co_extraProposals options) in
      res_bind (applyProposals state allProposals (Some own) findPsk True cs None None now) (\<lambda>res.
      if (case ap_additionalResult res of ExternalCommit _ _ _ \<Rightarrow> True | _ \<Rightarrow> False) then Inl UsageError
      else let groupContextWithExtensions = contextAfterProposals state res in
      res_bind (commitPath state res groupContextWithExtensions cs patch secret)
        (\<lambda>(tree, updatePath, pathSecrets, newPrivateKey, pathTreeHash).
      res_bind (case (patch, updatePath) of
          (Some _, Some path) \<Rightarrow> res_bind (validateLeafNodeUpdateOrCommit (up_leafNode path) own groupContextWithExtensions
             (ap_tree res) (cc_authService (st_clientConfig state)) (cs_signature cs) (cs_hpke cs) None) throwIfDefined
        | _ \<Rightarrow> Inr ()) (\<lambda>_.
      let signaturePrivateKey = (case patch of
            Some p \<Rightarrow> (case lp_signature p of Some (_, sk) \<Rightarrow> sk | None \<Rightarrow> st_signaturePrivateKey state)
          | None \<Rightarrow> st_signaturePrivateKey state) in
      res_bind (commitSecretOf pathSecrets (cs_kdf cs)) (\<lambda>commitSecret.
      res_bind (createContentCommitSignature (st_groupContext state) wireformat
          \<lparr>cm_proposals = allProposals, cm_path = updatePath\<rparr> (SenderMember own) (co_authenticatedData options)
          (st_signaturePrivateKey state) (cs_signature cs)) (\<lambda>(framedContent, signature).
      res_bind (case pathTreeHash of Some h \<Rightarrow> Inr h | None \<Rightarrow> treeHashOf cs tree) (\<lambda>treeHash.
      res_bind (nextEpochContext groupContextWithExtensions wireformat framedContent signature treeHash
          (st_confirmationTag state) (cs_hash cs)) (\<lambda>updatedGroupContext.
      res_bind (initializeEpoch (ks_initSecret (st_keySchedule state)) commitSecret updatedGroupContext
          (ap_pskSecret res) (cs_kdf cs)) (\<lambda>epochSecrets.
      let confirmationTag = createConfirmationTag (ks_confirmationKey (dk_keySchedule epochSecrets))
            (gc_confirmedTranscriptHash updatedGroupContext) (cs_hash cs);
          authData = \<lparr>fa_signature = signature, fa_content = AuthCommit confirmationTag\<rparr> in
      res_bind (protectCommit (co_wireAsPublicMessage options) state (co_authenticatedData options) framedContent authData
          cs guard) (\<lambda>(commit, _).
      res_bind (createWelcome (co_ratchetTreeExtension options) updatedGroupContext confirmationTag
          (state\<lparr>st_signaturePrivateKey := signaturePrivateKey\<rparr>) tree cs epochSecrets res pathSecrets
          (co_groupInfoExtensions options)) (\<lambda>welcome.
      res_bind (committerPrivatePath state newPrivateKey pathSecrets tree cs) (\<lambda>privateKeys.
      res_bind (createSecretTree (leafWidth (int (length tree))) (dk_encryptionSecret epochSecrets) (cs_kdf cs)) (\<lambda>secretTree.
      Inr \<lparr>cr_newState = \<lparr>st_groupContext = updatedGroupContext, st_keySchedule = dk_keySchedule epochSecrets,
             st_secretTree = secretTree, st_ratchetTree = tree, st_privatePath = privateKeys,
             st_signaturePrivateKey = signaturePrivateKey, st_unappliedProposals = emptyUnappliedProposals,
             st_pendingUpdateKeys = None, st_confirmationTag = confirmationTag,
             st_historicalReceiverData = addHistoricalReceiverData state, st_groupActiveState = activeStateAfter res,
             st_clientConfig = st_clientConfig state\<rparr>,
           cr_welcome = welcome,
           cr_welcomeMessage = map_option (\<lambda>w. \<lparr>mm_version = PV_mls10, mm_content = MlsWelcome w\<rparr>) welcome,
           cr_commit = commit\<rparr>)))))))))))))))"

end
