(* ===== verification/Processing.thy ===== *)
theory Processing imports Commits begin

text \<open>
  Processing incoming messages, \<^verbatim>\<open>src/process-messages.ts\<close>: what a member does with a private or public
  message, and the commit that takes it into the next epoch.  The callback of the application decides
  on proposals and commits (\<^verbatim>\<open>src/incoming-message-action.ts\<close>).
\<close>

section \<open>The application's decision\<close>

datatype incomingMessageAction = Accept | Reject

record authenticatedSender =
  as_senderType :: senderTypeName
  as_leafIndex :: "int option"

datatype incomingMessage =
    IncomingCommit "proposalWithSender list" authenticatedSender
  | IncomingProposal proposalWithSender

definition acceptAll :: "incomingMessage \<Rightarrow> incomingMessageAction" where
  "acceptAll _ = Accept"

definition defaultIncomingMessageCallback :: "incomingMessage \<Rightarrow> incomingMessageAction" where
  "defaultIncomingMessageCallback incoming = (case incoming of
     IncomingProposal p \<Rightarrow> if pw_senderType p = ST_new_member_proposal then Reject else Accept
   | IncomingCommit _ _ \<Rightarrow> Accept)"

definition memberSender :: "sender \<Rightarrow> authenticatedSender" where
  "memberSender s = (case s of
     SenderMember i \<Rightarrow> \<lparr>as_senderType = ST_member, as_leafIndex = Some i\<rparr>
   | _ \<Rightarrow> \<lparr>as_senderType = senderTypeOf s, as_leafIndex = None\<rparr>)"

section \<open>The receiver's side of a commit\<close>

definition throwIfRemovedFromGroup :: "'sk clientState \<Rightarrow> unit result" where
  "throwIfRemovedFromGroup state =
     (if st_groupActiveState state = RemovedFromGroup then Inl ValidationError else Inr ())"

definition throwIfSuspendedPendingReinit :: "'sk clientState \<Rightarrow> int \<Rightarrow> contentTypeName \<Rightarrow> unit result" where
  "throwIfSuspendedPendingReinit state epoch contentType = (case st_groupActiveState state of
     SuspendedPendingReinit _ \<Rightarrow>
       if contentType \<noteq> CT_application \<or> epoch = gc_epoch (st_groupContext state) then Inl ValidationError else Inr ()
   | _ \<Rightarrow> Inr ())"

text \<open>The keys from the path, the commit secret, the new tree and its hash.\<close>

definition applyTreeUpdate ::
    "updatePath option \<Rightarrow> sender \<Rightarrow> ratchetTree \<Rightarrow> ('pub, 'priv, 'sk) ciphersuiteImpl \<Rightarrow> privateKeyPath \<Rightarrow> groupContext \<Rightarrow>
     int list \<Rightarrow> (privateKeyPath option \<times> bytes \<times> ratchetTree \<times> bytes) result" where
  "applyTreeUpdate path sender tree cs privatePath groupContext excludeNodes = (case path of
     None \<Rightarrow> res_map (\<lambda>treeHash. (None, replicate (kdf_size (cs_kdf cs)) 0, tree, treeHash)) (treeHashOf cs tree)
   | Some p \<Rightarrow>
       res_bind (case sender of
           SenderMember i \<Rightarrow> Inr (tree, i, False)
         | _ \<Rightarrow> res_bind (addLeafNode tree (up_leafNode p)) (\<lambda>(treeWithLeafNode, leafNodeIndex).
             res_map (\<lambda>i. (treeWithLeafNode, i, True)) (nodeToLeafIndex leafNodeIndex)))
         (\<lambda>(base, senderLeafIndex, isExternal).
       res_bind (applyPath base senderLeafIndex p cs isExternal) (\<lambda>updatedTree.
       res_bind (treeHashOf cs updatedTree) (\<lambda>treeHash.
       res_map (\<lambda>(pathKeys, commitSecret). (Some pathKeys, commitSecret, updatedTree, treeHash))
         (updatePrivateKeyPath updatedTree privatePath senderLeafIndex
           (groupContext\<lparr>gc_treeHash := treeHash, gc_epoch := gc_epoch groupContext + 1\<rparr>) p excludeNodes cs)))))"

record 'sk stateWithAction =
  sa_newState :: "'sk clientState"
  sa_actionTaken :: incomingMessageAction
  sa_committer :: "authenticatedSender option"

definition commitExcludeNodes :: "applyProposalsResult \<Rightarrow> int list" where
  "commitExcludeNodes res = (case ap_additionalResult res of
     MemberCommit added _ \<Rightarrow> map (\<lambda>l. leafToNodeIndex (fst l)) added
   | _ \<Rightarrow> [case findBlankLeafNodeIndex (ap_tree res) of Some i \<Rightarrow> i | None \<Rightarrow> int (length (ap_tree res)) + 1])"

text \<open>The leaf of a path, against the tree after the proposals.\<close>

definition validateCommitLeaf ::
    "'sk clientState \<Rightarrow> applyProposalsResult \<Rightarrow> groupContext \<Rightarrow> int option \<Rightarrow> updatePath option \<Rightarrow>
     ('pub, 'priv, 'sk) ciphersuiteImpl \<Rightarrow> unit result" where
  "validateCommitLeaf state res gc senderLeafIndex path cs = (case path of
     None \<Rightarrow> Inr ()
   | Some p \<Rightarrow>
       let committerLeafIndex = (case senderLeafIndex of Some i \<Rightarrow> Some i
             | None \<Rightarrow> (case ap_additionalResult res of ExternalCommit _ i _ \<Rightarrow> Some i | _ \<Rightarrow> None));
           priorCredential = (case ap_additionalResult res of ExternalCommit _ _ c \<Rightarrow> c | _ \<Rightarrow> None)
       in case committerLeafIndex of
         None \<Rightarrow> Inl ValidationError
       | Some i \<Rightarrow> res_bind (validateLeafNodeUpdateOrCommit (up_leafNode p) i gc (ap_tree res)
           (cc_authService (st_clientConfig state)) (cs_signature cs) (cs_hpke cs) priorCredential) throwIfDefined)"

definition processCommit ::
    "'sk clientState \<Rightarrow> authenticatedContent \<Rightarrow> commit \<Rightarrow> wireformatName \<Rightarrow> (preSharedKeyID \<Rightarrow> bytes option) \<Rightarrow>
     (incomingMessage \<Rightarrow> incomingMessageAction) \<Rightarrow> ('pub, 'priv, 'sk) ciphersuiteImpl \<Rightarrow> int \<Rightarrow> 'sk stateWithAction result" where
  "processCommit state content cm wireformat findPsk onMessage cs now =
     (if fc_epoch (ac_content content) \<noteq> gc_epoch (st_groupContext state) then Inl ValidationError
      else let sender = fc_sender (ac_content content);
               senderLeafIndex = getSenderLeafNodeIndex sender in
      res_bind (applyProposals state (cm_proposals cm) senderLeafIndex findPsk False cs
          (map_option up_leafNode (cm_path cm)) (Some (senderTypeOf sender)) now) (\<lambda>res.
      let committer = (case ap_additionalResult res of
            ExternalCommit _ i _ \<Rightarrow> \<lparr>as_senderType = ST_new_member_commit, as_leafIndex = Some i\<rparr>
          | _ \<Rightarrow> memberSender sender);
          action = onMessage (IncomingCommit (ap_allProposals res) committer) in
      if action = Reject then Inr \<lparr>sa_newState = state, sa_actionTaken = action, sa_committer = None\<rparr>
      else let groupContextWithExtensions = contextAfterProposals state res in
      res_bind (validateCommitLeaf state res groupContextWithExtensions senderLeafIndex (cm_path cm) cs) (\<lambda>_.
      if ap_needsUpdatePath res \<and> cm_path cm = None then Inl ValidationError
      else if ap_selfRemoved res then
        Inr \<lparr>sa_newState = (withoutPendingUpdateKeys state)\<lparr>st_unappliedProposals := emptyUnappliedProposals,
               st_groupActiveState := RemovedFromGroup\<rparr>,
             sa_actionTaken = action, sa_committer = Some committer\<rparr>
      else
      let appliedUpdate = appliedPendingUpdateKey (st_pendingUpdateKeys state) (cm_proposals cm);
          ownPath = (case appliedUpdate of None \<Rightarrow> st_privatePath state
            | Some k \<Rightarrow> updateLeafKey (st_privatePath state) (puk_hpkePrivateKey k)) in
      res_bind (applyTreeUpdate (cm_path cm) sender (ap_tree res) cs ownPath groupContextWithExtensions
          (commitExcludeNodes res)) (\<lambda>(pathKeys, commitSecret, tree, newTreeHash).
      case fa_content (ac_auth content) of AuthCommit tag \<Rightarrow>
        res_bind (nextEpochContext groupContextWithExtensions wireformat (ac_content content) (fa_signature (ac_auth content))
            newTreeHash (st_confirmationTag state) (cs_hash cs)) (\<lambda>updatedGroupContext.
        let initSecret = (case ap_additionalResult res of
              ExternalCommit externalInitSecret _ _ \<Rightarrow> externalInitSecret | _ \<Rightarrow> ks_initSecret (st_keySchedule state)) in
        res_bind (initializeEpoch initSecret commitSecret updatedGroupContext (ap_pskSecret res) (cs_kdf cs)) (\<lambda>epochSecrets.
        if \<not> verifyConfirmationTag (ks_confirmationKey (dk_keySchedule epochSecrets)) tag
             (gc_confirmedTranscriptHash updatedGroupContext) (cs_hash cs) then Inl CryptoVerificationError
        else let pkp = pruneBlankedNodes (case pathKeys of None \<Rightarrow> ownPath
               | Some keys \<Rightarrow> mergePrivateKeyPaths ownPath keys) tree in
        res_bind (createSecretTree (leafWidth (int (length tree))) (dk_encryptionSecret epochSecrets) (cs_kdf cs))
          (\<lambda>secretTree.
          Inr \<lparr>sa_newState = (withoutPendingUpdateKeys state)\<lparr>
               st_signaturePrivateKey := (case appliedUpdate of
                   Some k \<Rightarrow> (case puk_signaturePrivateKey k of Some sk \<Rightarrow> sk | None \<Rightarrow> st_signaturePrivateKey state)
                 | None \<Rightarrow> st_signaturePrivateKey state),
               st_secretTree := secretTree, st_ratchetTree := tree, st_privatePath := pkp,
               st_groupContext := updatedGroupContext, st_keySchedule := dk_keySchedule epochSecrets,
               st_confirmationTag := tag, st_historicalReceiverData := addHistoricalReceiverData state,
               st_unappliedProposals := emptyUnappliedProposals, st_groupActiveState := activeStateAfter res\<rparr>,
             sa_actionTaken = action, sa_committer = Some committer\<rparr>)))
      | _ \<Rightarrow> Inl ValidationError))))"

section \<open>Messages\<close>

datatype 'sk processMessageResult =
    NewState "'sk stateWithAction"
  | ApplicationMessage bytes "'sk clientState" authenticatedSender bytes

definition proposalResult ::
    "'sk clientState \<Rightarrow> authenticatedContent \<Rightarrow> proposal \<Rightarrow> (incomingMessage \<Rightarrow> incomingMessageAction) \<Rightarrow>
     ('pub, 'priv, 'sk) ciphersuiteImpl \<Rightarrow> int \<Rightarrow> 'sk stateWithAction result" where
  "proposalResult state content p onMessage cs now =
     (let sender = fc_sender (ac_content content);
          action = onMessage (IncomingProposal \<lparr>pw_proposal = p, pw_senderLeafIndex = getSenderLeafNodeIndex sender,
            pw_senderType = senderTypeOf sender\<rparr>) in
      if action = Reject then Inr \<lparr>sa_newState = state, sa_actionTaken = action, sa_committer = None\<rparr>
      else res_map (\<lambda>newState. \<lparr>sa_newState = newState, sa_actionTaken = action, sa_committer = None\<rparr>)
        (processProposal state content p cs now))"

definition processPrivateMessage ::
    "'sk clientState \<Rightarrow> privateMessage \<Rightarrow> (preSharedKeyID \<Rightarrow> bytes option) \<Rightarrow> ('pub, 'priv, 'sk) ciphersuiteImpl \<Rightarrow>
     (incomingMessage \<Rightarrow> incomingMessageAction) \<Rightarrow> int \<Rightarrow> 'sk processMessageResult result" where
  "processPrivateMessage state pm findPsk cs onMessage now =
     res_bind (throwIfRemovedFromGroup state) (\<lambda>_.
     if \<not> constantTimeEqual (pm_groupId pm) (gc_groupId (st_groupContext state)) then Inl ValidationError
     else res_bind (throwIfSuspendedPendingReinit state (pm_epoch pm) (pm_contentType pm)) (\<lambda>_.
     if pm_epoch pm > gc_epoch (st_groupContext state) then Inl ValidationError
     else if pm_epoch pm < gc_epoch (st_groupContext state) then
       (case map_of (st_historicalReceiverData state) (pm_epoch pm) of
          None \<Rightarrow> Inl ValidationError
        | Some receiverData \<Rightarrow>
            if pm_contentType pm \<noteq> CT_application then Inl ValidationError
            else res_bind (unprotectPrivateMessage (er_senderDataSecret receiverData) pm (er_secretTree receiverData)
                (er_ratchetTree receiverData) (er_groupContext receiverData)
                (cc_keyRetentionConfig (st_clientConfig state)) cs None) (\<lambda>(content, tree).
              case fc_info (ac_content content) of
                FC_application applicationData \<Rightarrow> Inr (ApplicationMessage applicationData
                  (state\<lparr>st_historicalReceiverData := AList.update (pm_epoch pm) (receiverData\<lparr>er_secretTree := tree\<rparr>)
                     (st_historicalReceiverData state)\<rparr>)
                  (memberSender (fc_sender (ac_content content))) (fc_authenticatedData (ac_content content)))
              | _ \<Rightarrow> Inl InternalError))
     else
       res_bind (unprotectPrivateMessage (ks_senderDataSecret (st_keySchedule state)) pm (st_secretTree state)
         (st_ratchetTree state) (st_groupContext state) (cc_keyRetentionConfig (st_clientConfig state)) cs None)
         (\<lambda>(content, tree).
         let updatedState = state\<lparr>st_secretTree := tree\<rparr> in
         case fc_info (ac_content content) of
           FC_application applicationData \<Rightarrow> Inr (ApplicationMessage applicationData updatedState
             (memberSender (fc_sender (ac_content content))) (fc_authenticatedData (ac_content content)))
         | FC_commit cm \<Rightarrow>
             res_map NewState (processCommit updatedState content cm WF_private_message findPsk onMessage cs now)
         | FC_proposal p \<Rightarrow> res_map NewState (proposalResult updatedState content p onMessage cs now))))"

definition processPublicMessage ::
    "'sk clientState \<Rightarrow> publicMessage \<Rightarrow> (preSharedKeyID \<Rightarrow> bytes option) \<Rightarrow> ('pub, 'priv, 'sk) ciphersuiteImpl \<Rightarrow>
     (incomingMessage \<Rightarrow> incomingMessageAction) \<Rightarrow> int \<Rightarrow> 'sk stateWithAction result" where
  "processPublicMessage state pm findPsk cs onMessage now =
     res_bind (throwIfRemovedFromGroup state) (\<lambda>_.
     if \<not> constantTimeEqual (fc_groupId (pub_content pm)) (gc_groupId (st_groupContext state)) then Inl ValidationError
     else res_bind (throwIfSuspendedPendingReinit state (fc_epoch (pub_content pm)) (contentTypeOf (fc_info (pub_content pm))))
       (\<lambda>_.
     if fc_epoch (pub_content pm) < gc_epoch (st_groupContext state) then Inl ValidationError
     else res_bind (unprotectPublicMessage (ks_membershipKey (st_keySchedule state)) (st_groupContext state)
         (st_ratchetTree state) pm cs None) (\<lambda>content.
       case fc_info (ac_content content) of
         FC_proposal p \<Rightarrow>
           if fc_epoch (ac_content content) \<noteq> gc_epoch (st_groupContext state) then Inl ValidationError
           else proposalResult state content p onMessage cs now
       | FC_commit cm \<Rightarrow> processCommit state content cm WF_public_message findPsk onMessage cs now
       | FC_application _ \<Rightarrow> Inl TypeError)))"

definition processMessage ::
    "mlsMessageContent \<Rightarrow> 'sk clientState \<Rightarrow> (preSharedKeyID \<Rightarrow> bytes option) \<Rightarrow>
     (incomingMessage \<Rightarrow> incomingMessageAction) \<Rightarrow> ('pub, 'priv, 'sk) ciphersuiteImpl \<Rightarrow> int \<Rightarrow>
     'sk processMessageResult result" where
  "processMessage message state findPsk onMessage cs now = (case message of
     MlsPublicMessage pm \<Rightarrow> res_map NewState (processPublicMessage state pm findPsk cs onMessage now)
   | MlsPrivateMessage pm \<Rightarrow> processPrivateMessage state pm findPsk cs onMessage now
   | _ \<Rightarrow> Inl TypeError)"

end
