(* ===== verification/TreeMutations.thy ===== *)
theory TreeMutations imports Processing RatchetTreeLaws begin

text \<open>
  What the proposals of a commit do to a tree.  The one-pass summary of the leaves answers the checks
  against every other node (\<open>leafFits\<close>), so no operation lets a key into the tree twice
  (\<open>uniqueKeys\<close>), and seen as a map from leaf indices to leaf nodes the tree changes as the
  proposals say (\<open>specUpdate\<close>, \<open>specRemove\<close>, \<open>specAdd\<close>).
\<close>

section \<open>The summary of the leaves\<close>

definition countOf :: "('k \<times> int) list \<Rightarrow> 'k \<Rightarrow> int" where
  "countOf counts k = (case map_of counts k of None \<Rightarrow> 0 | Some n \<Rightarrow> n)"

lemma countOf_increment: "countOf (increment counts k) j = countOf counts j + (if j = k then 1 else 0)"
  by (simp add: countOf_def increment_def update_conv)

lemma countOf_Nil [simp]: "countOf [] k = 0"
  by (simp add: countOf_def)

lemma increment_keys: "fst ` set (increment counts k) = insert k (fst ` set counts)"
  by (simp add: increment_def dom_update)

definition isLeafWith :: "(leafNode \<Rightarrow> bool) \<Rightarrow> ratchetNode option \<Rightarrow> bool" where
  "isLeafWith P n = (case n of Some (NodeLeaf l) \<Rightarrow> P l | _ \<Rightarrow> False)"

lemma isLeafWith_simps [simp]:
  "\<not> isLeafWith P None" "\<not> isLeafWith P (Some (NodeParent p))" "isLeafWith P (Some (NodeLeaf l)) \<longleftrightarrow> P l"
  by (simp_all add: isLeafWith_def)

lemma isLeafWith_iff: "isLeafWith P n \<longleftrightarrow> (\<exists>l. n = Some (NodeLeaf l) \<and> P l)"
  by (auto simp: isLeafWith_def split: option.splits ratchetNode.splits)

lemma summarizeNode_simps [simp]:
  "summarizeNode s None = s"
  "summarizeNode s (Some (NodeParent p)) = s\<lparr>ls_parentHpkeKeys := pn_hpkePublicKey p # ls_parentHpkeKeys s\<rparr>"
  by (simp_all add: summarizeNode_def)

text \<open>One induction for the three counts, given how one node changes them.\<close>

lemma summary_count:
  assumes leaf: "\<And>s l k. countOf (f (summarizeNode s (Some (NodeLeaf l)))) k = countOf (f s) k + (if keyOf l = k then 1 else 0)"
    and parent: "\<And>s p. f (summarizeNode s (Some (NodeParent p))) = f s"
  shows "countOf (f (foldl summarizeNode s t)) k = countOf (f s) k + int (length (filter (isLeafWith (\<lambda>l. keyOf l = k)) t))"
proof (induction t arbitrary: s)
  case (Cons n t)
  show ?case
  proof (cases n)
    case (Some nd)
    then show ?thesis using Cons.IH leaf parent by (cases nd) simp_all
  qed (use Cons.IH in simp)
qed simp

lemma summary_counts:
  "countOf (ls_leafHpkeKeys (summarizeLeaves t)) k = int (length (filter (isLeafWith (\<lambda>l. ln_hpkePublicKey l = k)) t))"
  "countOf (ls_leafSignatureKeys (summarizeLeaves t)) k = int (length (filter (isLeafWith (\<lambda>l. ln_signaturePublicKey l = k)) t))"
  "countOf (ls_credentialTypes (summarizeLeaves t)) c =
     int (length (filter (isLeafWith (\<lambda>l. credentialTypeOf (ln_credential l) = c)) t))"
  unfolding summarizeLeaves_def
    by (subst summary_count, simp_all add: summarizeNode_def Let_def countOf_increment)+

lemma summary_parents: "set (ls_parentHpkeKeys (summarizeLeaves t)) = {pn_hpkePublicKey p |p. Some (NodeParent p) \<in> set t}"
proof -
  have "set (ls_parentHpkeKeys (foldl summarizeNode s t)) =
      set (ls_parentHpkeKeys s) \<union> {pn_hpkePublicKey p |p. Some (NodeParent p) \<in> set t}" for s
  proof (induction t arbitrary: s)
    case (Cons n t)
    show ?case
    proof (cases n)
      case (Some nd)
      then show ?thesis using Cons.IH by (cases nd) (auto simp: summarizeNode_def Let_def)
    qed (use Cons.IH in auto)
  qed simp
  then show ?thesis by (simp add: summarizeLeaves_def)
qed

lemma summary_supported:
  "(case ls_supportedByAll (summarizeLeaves t) of None \<Rightarrow> True | Some s \<Rightarrow> c \<in> set s) \<longleftrightarrow>
     (\<forall>l. Some (NodeLeaf l) \<in> set t \<longrightarrow> c \<in> set (cap_credentials (ln_capabilities l)))"
proof -
  have "(case ls_supportedByAll (foldl summarizeNode s t) of None \<Rightarrow> True | Some s \<Rightarrow> c \<in> set s) \<longleftrightarrow>
      (case ls_supportedByAll s of None \<Rightarrow> True | Some s \<Rightarrow> c \<in> set s) \<and>
      (\<forall>l. Some (NodeLeaf l) \<in> set t \<longrightarrow> c \<in> set (cap_credentials (ln_capabilities l)))" for s
  proof (induction t arbitrary: s)
    case (Cons n t)
    show ?case
    proof (cases n)
      case (Some nd)
      then show ?thesis using Cons.IH
        by (cases nd) (auto simp: summarizeNode_def Let_def split: option.splits)
    qed (use Cons.IH in auto)
  qed simp
  then show ?thesis by (simp add: summarizeLeaves_def)
qed

lemma summary_credential_keys:
  "fst ` set (ls_credentialTypes (summarizeLeaves t)) = {credentialTypeOf (ln_credential l) |l. Some (NodeLeaf l) \<in> set t}"
proof -
  have "fst ` set (ls_credentialTypes (foldl summarizeNode s t)) =
      fst ` set (ls_credentialTypes s) \<union> {credentialTypeOf (ln_credential l) |l. Some (NodeLeaf l) \<in> set t}" for s
  proof (induction t arbitrary: s)
    case (Cons n t)
    show ?case
    proof (cases n)
      case (Some nd)
      then show ?thesis using Cons.IH by (cases nd) (auto simp: summarizeNode_def Let_def increment_keys)
    qed (use Cons.IH in auto)
  qed simp
  then show ?thesis by (simp add: summarizeLeaves_def)
qed

text \<open>What is counted besides an excluded position is what stands elsewhere.\<close>

lemma count_besides:
  assumes "i < length t"
  shows "int (length (filter P t)) - (if P (t ! i) then 1 else 0) > 0 \<longleftrightarrow> (\<exists>j < length t. j \<noteq> i \<and> P (t ! j))"
proof -
  let ?A = "{j. j < length t \<and> P (t ! j)}"
  have c: "length (filter P t) = card ?A" by (rule length_filter_conv_card)
  have fin: "finite ?A" by simp
  have "card (?A - {i}) = card ?A - (if P (t ! i) then 1 else 0)"
    using assms fin by (auto simp: card_Diff_singleton_if)
  moreover have "P (t ! i) \<Longrightarrow> card ?A \<ge> 1" using assms fin by (metis (mono_tags, lifting) One_nat_def Suc_leI card_gt_0_iff empty_iff mem_Collect_eq)
  ultimately have "int (card ?A) - (if P (t ! i) then 1 else 0) = int (card (?A - {i}))" by (auto simp: of_nat_diff)
  then have "int (length (filter P t)) - (if P (t ! i) then 1 else 0) > 0 \<longleftrightarrow> ?A - {i} \<noteq> {}"
    using c fin by (simp add: card_gt_0_iff)
  then show ?thesis by auto
qed

section \<open>The checks against the other nodes\<close>

text \<open>The nodes of a tree apart from the leaf at an index.\<close>

definition otherNode :: "ratchetTree \<Rightarrow> int option \<Rightarrow> ratchetNode \<Rightarrow> bool" where
  "otherNode t leafIndex n \<longleftrightarrow> 
     (\<exists>j. sparse_get t j = Some n \<and> (\<forall>i. leafIndex = Some i \<longrightarrow> j \<noteq> leafToNodeIndex i))"

definition leafFits :: "ratchetTree \<Rightarrow> int option \<Rightarrow> leafNode \<Rightarrow> bool" where
  "leafFits t leafIndex leaf \<longleftrightarrow>
     (\<forall>l. otherNode t None (NodeLeaf l) \<longrightarrow> credentialTypeOf (ln_credential leaf) \<in> set (cap_credentials (ln_capabilities l))) \<and>
     (\<forall>l. otherNode t leafIndex (NodeLeaf l) \<longrightarrow> credentialTypeOf (ln_credential l) \<in> set (cap_credentials (ln_capabilities leaf))) \<and>
     extensionsSupportedByCapabilities (ln_extensions leaf) (cap_extensions (ln_capabilities leaf)) \<and>
     (\<forall>l. otherNode t leafIndex (NodeLeaf l) \<longrightarrow> ln_hpkePublicKey l \<noteq> ln_hpkePublicKey leaf \<and>
        ln_signaturePublicKey l \<noteq> ln_signaturePublicKey leaf) \<and>
     (\<forall>p. otherNode t None (NodeParent p) \<longrightarrow> pn_hpkePublicKey p \<noteq> ln_hpkePublicKey leaf)"

lemma otherNode_None: "otherNode t None n \<longleftrightarrow> Some n \<in> set t"
proof -
  have "otherNode t None n \<longleftrightarrow> (\<exists>j. sparse_get t j = Some n)" by (auto simp: otherNode_def)
  also have "\<dots> \<longleftrightarrow> Some n \<in> set t"
  proof
    assume "\<exists>j. sparse_get t j = Some n"
    then obtain j where "sparse_get t j = Some n" by blast
    then show "Some n \<in> set t" using sparse_get_eq_SomeD [of t j n] by (metis nat_less_iff nth_mem)
  next
    assume "Some n \<in> set t"
    then obtain i where "i < length t" "t ! i = Some n" by (meson in_set_conv_nth)
    then show "\<exists>j. sparse_get t j = Some n" using sparse_get_nth [of i t] by metis
  qed
  finally show ?thesis .
qed

lemma otherNode_Some: "otherNode t (Some i) n \<longleftrightarrow> (\<exists>j < length t. int j \<noteq> 2 * i \<and> t ! j = Some n)"
proof
  assume "otherNode t (Some i) n"
  then obtain j where j: "sparse_get t j = Some n" "j \<noteq> 2 * i" by (auto simp: otherNode_def leafToNodeIndex_def)
  then show "\<exists>j < length t. int j \<noteq> 2 * i \<and> t ! j = Some n"
    using sparse_get_eq_SomeD [OF j(1)] by (intro exI [of _ "nat j"]) auto
next
  assume "\<exists>j < length t. int j \<noteq> 2 * i \<and> t ! j = Some n"
  then obtain j where "j < length t" "int j \<noteq> 2 * i" "t ! j = Some n" by blast
  then show "otherNode t (Some i) n"
    unfolding otherNode_def using sparse_get_nth [of j t] by (intro exI [of _ "int j"]) (auto simp: leafToNodeIndex_def)
qed

lemma countOthers_pos:
  assumes "\<And>k. countOf counts k = int (length (filter (isLeafWith (\<lambda>l. keyOf l = k)) t))"
  shows "countOthers counts k (case leafIndex of None \<Rightarrow> None | Some i \<Rightarrow> leafAt t i) keyOf > 0 \<longleftrightarrow>
    (\<exists>l. otherNode t leafIndex (NodeLeaf l) \<and> keyOf l = k)"
proof (cases leafIndex)
  case None
  have "countOthers counts k None keyOf > 0 \<longleftrightarrow> filter (isLeafWith (\<lambda>l. keyOf l = k)) t \<noteq> []"
    using assms [of k] by (simp add: countOthers_def countOf_def)
  then show ?thesis using None by (auto simp: otherNode_None filter_empty_conv isLeafWith_iff)
next
  case (Some i)
  let ?P = "isLeafWith (\<lambda>l. keyOf l = k)"
  have other: "(\<exists>l. otherNode t (Some i) (NodeLeaf l) \<and> keyOf l = k) \<longleftrightarrow> (\<exists>j < length t. int j \<noteq> 2 * i \<and> ?P (t ! j))"
    by (auto simp: otherNode_Some isLeafWith_iff)
  have count: "countOthers counts k (leafAt t i) keyOf =
      int (length (filter ?P t)) - (case leafAt t i of None \<Rightarrow> 0 | Some l \<Rightarrow> if keyOf l = k then 1 else 0)"
    using assms [of k] by (simp add: countOthers_def countOf_def)
  show ?thesis
  proof (cases "0 \<le> 2 * i \<and> 2 * i < int (length t)")
    case True
    then have at: "leafAt t i = (case t ! nat (2 * i) of Some (NodeLeaf l) \<Rightarrow> Some l | _ \<Rightarrow> None)"
      by (simp add: leafAt_def sparse_get_def leafToNodeIndex_def mult.commute)
    have less: "nat (2 * i) < length t" using True by linarith
    have "(case leafAt t i of None \<Rightarrow> 0 | Some l \<Rightarrow> if keyOf l = k then 1 else 0) = (if ?P (t ! nat (2 * i)) then 1 else (0 :: int))"
      unfolding at by (simp add: isLeafWith_def split: option.splits ratchetNode.splits)
    then have "countOthers counts k (leafAt t i) keyOf > 0 \<longleftrightarrow> (\<exists>j < length t. j \<noteq> nat (2 * i) \<and> ?P (t ! j))"
      unfolding count using count_besides [OF less, of ?P] by simp
    moreover have "j \<noteq> nat (2 * i) \<longleftrightarrow> int j \<noteq> 2 * i" for j using True by auto
    ultimately show ?thesis using Some other by simp
  next
    case False
    then have "leafAt t i = None" by (auto simp: leafAt_def sparse_get_def leafToNodeIndex_def mult.commute)
    then have "countOthers counts k (leafAt t i) keyOf > 0 \<longleftrightarrow> filter ?P t \<noteq> []" unfolding count by simp
    also have "\<dots> \<longleftrightarrow> (\<exists>j < length t. ?P (t ! j))" by (metis filter_empty_conv in_set_conv_nth)
    also have "\<dots> \<longleftrightarrow> (\<exists>j < length t. int j \<noteq> 2 * i \<and> ?P (t ! j))" using False by force
    finally show ?thesis using Some other by simp
  qed
qed

text \<open>The shapes a check takes.\<close>

lemma check_error: "(if b then Inr (Some e) else r) = Inr None \<longleftrightarrow> \<not> b \<and> r = Inr None"
  by simp

lemma check_bool: "res_bind m (\<lambda>b. if \<not> b then Inr (Some e) else r) = Inr None \<longleftrightarrow> m = Inr True \<and> r = Inr None"
  by (auto simp: res_bind_eq_Inr)

lemma validateLeafNodeCommon_iff:
  "validateLeafNodeCommon leaf gc t authService hpke (summarizeLeaves t) leafIndex prior = Inr None \<longleftrightarrow>
     validateHpkePublicKey (ln_hpkePublicKey leaf) gc hpke = Inr None \<and>
     authService (ln_credential leaf) (ln_signaturePublicKey leaf) prior = Inr True \<and>
     requiredCapabilitiesError leaf (gc_extensions gc) = Inr None \<and> leafFits t leafIndex leaf"
proof -
  let ?s = "summarizeLeaves t" and ?replaced = "case leafIndex of None \<Rightarrow> None | Some i \<Rightarrow> leafAt t i"
  let ?listed = "cap_credentials (ln_capabilities leaf)" and ?type = "credentialTypeOf (ln_credential leaf)"
  have supported: "(case ls_supportedByAll ?s of None \<Rightarrow> False | Some s \<Rightarrow> ?type \<notin> set s) \<longleftrightarrow>
      \<not> (\<forall>l. otherNode t None (NodeLeaf l) \<longrightarrow> ?type \<in> set (cap_credentials (ln_capabilities l)))"
    using summary_supported [where t = t and c = ?type] by (auto simp: otherNode_None split: option.splits)
  have credentials: "list_ex (\<lambda>type. type \<notin> set ?listed \<and>
        countOthers (ls_credentialTypes ?s) type ?replaced (\<lambda>l. credentialTypeOf (ln_credential l)) > 0)
        (map fst (ls_credentialTypes ?s)) \<longleftrightarrow>
      \<not> (\<forall>l. otherNode t leafIndex (NodeLeaf l) \<longrightarrow> credentialTypeOf (ln_credential l) \<in> set ?listed)"
  proof -
    have sub: "otherNode t leafIndex n \<Longrightarrow> Some n \<in> set t" for n
      using otherNode_None [of t n] by (auto simp: otherNode_def)
    show ?thesis
      unfolding list_ex_iff set_map summary_credential_keys countOthers_pos [OF summary_counts(3)]
      by (auto dest: sub)
  qed
  have keys: "countOthers (ls_leafHpkeKeys ?s) (ln_hpkePublicKey leaf) ?replaced ln_hpkePublicKey > 0 \<or>
        countOthers (ls_leafSignatureKeys ?s) (ln_signaturePublicKey leaf) ?replaced ln_signaturePublicKey > 0 \<longleftrightarrow>
      \<not> (\<forall>l. otherNode t leafIndex (NodeLeaf l) \<longrightarrow> ln_hpkePublicKey l \<noteq> ln_hpkePublicKey leaf \<and>
        ln_signaturePublicKey l \<noteq> ln_signaturePublicKey leaf)"
    unfolding countOthers_pos [OF summary_counts(1)] countOthers_pos [OF summary_counts(2)] by blast
  have parents: "ln_hpkePublicKey leaf \<in> set (ls_parentHpkeKeys ?s) \<longleftrightarrow>
      \<not> (\<forall>p. otherNode t None (NodeParent p) \<longrightarrow> pn_hpkePublicKey p \<noteq> ln_hpkePublicKey leaf)"
    unfolding summary_parents otherNode_None mem_Collect_eq by metis
  show ?thesis
    unfolding validateLeafNodeCommon_def Let_def supported credentials keys parents leafFits_def unlessError_None
      check_bool check_error not_not by (simp only: simp_thms)
qed

section \<open>One leaf changes\<close>

definition signatureKeyOf :: "ratchetNode \<Rightarrow> bytes option" where
  "signatureKeyOf n = (case n of NodeLeaf l \<Rightarrow> Some (ln_signaturePublicKey l) | NodeParent _ \<Rightarrow> None)"

definition nodeKeys :: "ratchetNode \<Rightarrow> bytes \<times> bytes option" where
  "nodeKeys n = (getHpkePublicKey n, signatureKeyOf n)"

definition unmergedOf :: "ratchetNode \<Rightarrow> int set" where
  "unmergedOf n = (case n of NodeLeaf _ \<Rightarrow> {} | NodeParent p \<Rightarrow> set (pn_unmergedLeaves p))"

definition keptNode :: "ratchetNode \<Rightarrow> ratchetNode \<Rightarrow> bool" where
  "keptNode nd nd' \<longleftrightarrow> nodeKeys nd' = nodeKeys nd \<and> unmergedOf nd \<subseteq> unmergedOf nd'"

lemma keptNode_refl [simp]: "keptNode nd nd"
  by (simp add: keptNode_def)

lemma keptNode_trans: "keptNode a b \<Longrightarrow> keptNode b c \<Longrightarrow> keptNode a c"
  by (auto simp: keptNode_def)

lemma keptNode_keys: "keptNode nd nd' \<Longrightarrow> nodeKeys nd' = nodeKeys nd"
  by (simp add: keptNode_def)

text \<open>
  The leaf at an index becomes \<open>n\<close>; every other node goes or keeps its keys and its unmerged leaves,
  and no other leaf changes.
\<close>

definition leafChange :: "ratchetTree \<Rightarrow> int \<Rightarrow> leafNode option \<Rightarrow> ratchetTree \<Rightarrow> bool" where
  "leafChange t i n t' \<longleftrightarrow> sparse_get t' (2 * i) = map_option NodeLeaf n \<and>
     (\<forall>l. l \<noteq> i \<longrightarrow> sparse_get t' (2 * l) = sparse_get t (2 * l)) \<and>
     (\<forall>j nd'. j \<noteq> 2 * i \<longrightarrow> sparse_get t' j = Some nd' \<longrightarrow>
        (\<exists>nd. sparse_get t j = Some nd \<and> keptNode nd nd'))"

lemma leafChange_keys:
  "leafChange t i n t' \<Longrightarrow> j \<noteq> 2 * i \<Longrightarrow> sparse_get t' j = Some nd' \<Longrightarrow>
    \<exists>nd. sparse_get t j = Some nd \<and> nodeKeys nd' = nodeKeys nd"
  unfolding leafChange_def using keptNode_keys by blast

text \<open>The parent nodes go or keep their keys and their unmerged leaves.\<close>

definition parentsKept :: "ratchetTree \<Rightarrow> ratchetTree \<Rightarrow> bool" where
  "parentsKept t t' \<longleftrightarrow> (\<forall>j nd'. odd j \<longrightarrow> sparse_get t' j = Some nd' \<longrightarrow> (\<exists>nd. sparse_get t j = Some nd \<and> keptNode nd nd'))"

lemma parentsKept_refl [simp]: "parentsKept t t"
  unfolding parentsKept_def using keptNode_refl by blast

lemma parentsKept_trans: "parentsKept s t \<Longrightarrow> parentsKept t u \<Longrightarrow> parentsKept s u"
  unfolding parentsKept_def using keptNode_trans by blast

lemma leafChange_parents: "leafChange t i n t' \<Longrightarrow> parentsKept t t'"
  unfolding leafChange_def parentsKept_def by (metis dvd_triv_left)

lemma leafAt_alt: "leafAt t l = (case sparse_get t (2 * l) of Some (NodeLeaf lf) \<Rightarrow> Some lf | _ \<Rightarrow> None)"
  by (simp add: leafAt_def leafToNodeIndex_def mult.commute)

lemma leafChange_leafAt: "leafChange t i n t' \<Longrightarrow> leafAt t' = (leafAt t)(i := n)"
  by (auto simp: leafChange_def leafAt_alt fun_eq_iff split: option.splits)

lemma sparse_get_outside: "\<not> (0 \<le> j \<and> j < int (length t)) \<Longrightarrow> sparse_get t j = None"
  by (auto simp: sparse_get_def)

lemma writtenAt_change:
  assumes f: "full d t" and w: "writtenAt d t l (map_option NodeLeaf n) t'"
  shows "leafChange t l n t'"
proof -
  have len: "length t' = length t" and leaf: "sparse_get t' (2 * l) = map_option NodeLeaf n"
    and get: "\<And>k m. inTree d k m \<Longrightarrow> nodeAt k m \<noteq> 2 * l \<Longrightarrow> sparse_get t' (nodeAt k m) =
      (if 0 < k \<and> l div 2 ^ k = m then None else sparse_get t (nodeAt k m))"
    using w by (auto simp: writtenAt_def)
  have other: "sparse_get t' j = None \<or> sparse_get t' j = sparse_get t j" if "j \<noteq> 2 * l" for j
  proof (cases "0 \<le> j \<and> j < int (length t)")
    case True
    then obtain k m where "inTree d k m" "j = nodeAt k m" by (meson full_index [OF f])
    then show ?thesis using get [of k m] that by simp
  qed (use len in \<open>auto simp: sparse_get_def\<close>)
  have leaves: "sparse_get t' (2 * u) = sparse_get t (2 * u)" if "u \<noteq> l" for u
  proof (cases "0 \<le> 2 * u \<and> 2 * u < int (length t)")
    case True
    then have "inTree d 0 u" using full_length [OF f] by (auto simp: leaf_inTree)
    then show ?thesis using get [of 0 u] that by simp
  qed (use len in \<open>auto simp: sparse_get_def\<close>)
  show ?thesis unfolding leafChange_def using leaf other leaves by fastforce
qed

lemma updateLeafNode_change:
  assumes wf: "wfTree d t" and "updateLeafNode t lf l = Inr t'"
  shows "wfTree d t' \<and> leafChange t l (Some lf) t'"
proof -
  note f = wfTree_full [OF wf]
  have l: "0 \<le> l" "l < 2 ^ d" using updateLeafNode_range [OF f] assms(2) by blast+
  have w: "writtenAt d t l (Some (NodeLeaf lf)) t'" using updateLeafNode_spec [OF f l, of lf] assms(2) by auto
  have "wfTree d t'" by (rule wfTree_write [OF wf w]) simp
  moreover have "leafChange t l (Some lf) t'" by (rule writtenAt_change [OF f]) (use w in simp)
  ultimately show ?thesis by blast
qed

lemma removeLeafNode_change:
  assumes wf: "wfTree d t" and rm: "removeLeafNode t l = Inr t'"
  shows "\<exists>e \<le> d. wfTree e t' \<and> leafChange t l None t'"
proof -
  note f = wfTree_full [OF wf]
  have l: "0 \<le> l" "l < 2 ^ d" using updateLeafNode_range [OF f] rm by blast+
  obtain c where c: "removeLeafNode t l = condenseRatchetTreeAfterRemove c" "writtenAt d t l None c"
    using removeLeafNode_spec [OF f l] by blast
  have wfc: "wfTree d c" by (rule wfTree_write [OF wf c(2)]) simp
  have "\<exists>i. sparse_get c i \<noteq> None" using condense_empty [of c] c(1) rm by (cases "\<exists>i. sparse_get c i \<noteq> None") auto
  from condense_full [OF wfTree_full [OF wfc] this]
  obtain e where e: "e \<le> d" "compactTree e t'" "\<And>i. sparse_get t' i = sparse_get c i" using c(1) rm by auto
  have "wfTree e t'" by (rule wfTree_same_nodes [OF wfc _ e(1,3)]) (use e(2) in \<open>simp add: compactTree_def\<close>)
  moreover have "leafChange t l None c" by (rule writtenAt_change [OF f]) (use c(2) in simp)
  ultimately show ?thesis using e by (auto simp: leafChange_def)
qed

lemma appendUnmerged_keys:
  "appendUnmerged l n = Some nd' \<Longrightarrow> \<exists>nd. n = Some nd \<and> keptNode nd nd'"
  by (auto simp: appendUnmerged_def keptNode_def unmergedOf_def nodeKeys_def getHpkePublicKey_def signatureKeyOf_def split: option.splits ratchetNode.splits)

text \<open>The first index without a member.\<close>

definition freeIndex :: "(int \<Rightarrow> leafNode option) \<Rightarrow> int" where
  "freeIndex m = int (LEAST n. m (int n) = None)"

lemma freeIndexI:
  assumes "0 \<le> l" "m l = None" "\<And>i. 0 \<le> i \<Longrightarrow> i < l \<Longrightarrow> m i \<noteq> None"
  shows "freeIndex m = l"
proof -
  have "(LEAST n. m (int n) = None) = nat l"
  proof (rule Least_equality)
    show "m (int (nat l)) = None" using assms(1,2) by simp
    fix n assume n: "m (int n) = None"
    show "nat l \<le> n"
    proof (rule ccontr)
      assume "\<not> nat l \<le> n"
      then have "int n < l" by linarith
      then show False using assms(3) [of "int n"] n by simp
    qed
  qed
  then show ?thesis using assms(1) by (simp add: freeIndex_def)
qed

lemma wfTree_leaf:
  assumes "wfTree d t" "sparse_get t (2 * l) = Some n"
  shows "\<exists>lf. n = NodeLeaf lf"
proof -
  have "0 \<le> l \<and> l < 2 ^ d"
    using sparse_get_eq_SomeD [OF assms(2)] full_length [OF wfTree_full [OF assms(1)]] by auto
  then have "okAt t 0 l n" using wfTree_at [OF assms(1), of 0 l] assms(2) by (simp add: leaf_inTree)
  then show ?thesis by (cases n) (simp_all add: okAt_def)
qed

lemma leafAt_None_iff: "wfTree d t \<Longrightarrow> leafAt t l = None \<longleftrightarrow> sparse_get t (2 * l) = None"
  using wfTree_leaf [of d t l] by (cases "sparse_get t (2 * l)") (auto simp: leafAt_alt)

lemma addLeafNode_change:
  assumes wf: "wfTree d t" and add: "addLeafNode t lf = Inr (t', i)" and small: "length t' < 2 ^ 30"
  shows "(\<exists>e. wfTree e t') \<and> length t \<le> length t' \<and> i = 2 * freeIndex (leafAt t) \<and>
    sparse_get t i = None \<and> leafChange t (freeIndex (leafAt t)) (Some lf) t'"
proof (cases "findBlankLeafNodeIndex t")
  case (Some b)
  note f = wfTree_full [OF wf]
  obtain l where l: "b = 2 * l" "0 \<le> l" "b < int (length t)" "sparse_get t (2 * l) = None"
      "\<And>i. 0 \<le> i \<Longrightarrow> i < l \<Longrightarrow> sparse_get t (2 * i) \<noteq> None"
    using findBlank_Some [OF Some] by metis
  have free: "freeIndex (leafAt t) = l"
    by (rule freeIndexI) (use l leafAt_None_iff [OF wf] in auto)
  have added: "addedAt d t l lf t'" "i = 2 * l"
    using addLeafNode_blank [OF wf, of l lf] Some l(1) add by auto
  have len: "length t' = length t" and leaf: "sparse_get t' (2 * l) = Some (NodeLeaf lf)"
    and get: "\<And>k m. inTree d k m \<Longrightarrow> nodeAt k m \<noteq> 2 * l \<Longrightarrow> sparse_get t' (nodeAt k m) =
       (if 0 < k \<and> l div 2 ^ k = m then appendUnmerged l (sparse_get t (nodeAt k m)) else sparse_get t (nodeAt k m))"
    using added(1) by (auto simp: addedAt_def)
  have leaves: "sparse_get t' (2 * u) = sparse_get t (2 * u)" if "u \<noteq> l" for u
  proof (cases "0 \<le> 2 * u \<and> 2 * u < int (length t)")
    case True
    then have "inTree d 0 u" using full_length [OF f] by (auto simp: leaf_inTree)
    then show ?thesis using get [of 0 u] that by simp
  qed (use len in \<open>auto simp: sparse_get_def\<close>)
  have "\<exists>nd. sparse_get t j = Some nd \<and> keptNode nd nd'"
    if "j \<noteq> 2 * l" "sparse_get t' j = Some nd'" for j nd'
  proof -
    have "0 \<le> j" "j < int (length t)" using sparse_get_eq_SomeD [OF that(2)] len by auto
    then obtain k m where km: "inTree d k m" "j = nodeAt k m" by (meson full_index [OF f])
    show ?thesis
    proof (cases "0 < k \<and> l div 2 ^ k = m")
      case True
      then have "appendUnmerged l (sparse_get t j) = Some nd'" using get [OF km(1)] that km(2) by simp
      then show ?thesis by (rule appendUnmerged_keys)
    next
      case False
      then show ?thesis using get [OF km(1)] that km(2) by auto
    qed
  qed
  then have "leafChange t l (Some lf) t'" using leaf leaves by (simp add: leafChange_def)
  then show ?thesis using free added(2) l(4) len addLeafNode_wf [OF wf add small] by simp
next
  case None
  note f = wfTree_full [OF wf]
  have ext: "extendTree t lf = Inr (t', i)" using None add by (simp add: addLeafNode_def)
  have "length t \<noteq> 0 \<and> length t' = length t + 2 + (length t - 1)"
    using ext by (auto simp: extendTree_def split: if_splits)
  then have "length t' = 2 * length t + 1" by arith
  moreover have "length t = 2 ^ Suc d - 1" "(1 :: nat) \<le> 2 ^ d" using f by (simp_all add: full_def)
  ultimately have len: "length t' = 2 ^ Suc (Suc d) - 1" unfolding power_Suc by linarith
  have "Suc d \<le> 29"
  proof (rule ccontr)
    assume "\<not> Suc d \<le> 29"
    then have "(2 :: nat) ^ 31 \<le> 2 ^ Suc (Suc d)" by (intro power_increasing) auto
    with small len show False by simp
  qed
  then have t': "i = 2 * 2 ^ d" "wfTree (Suc d) t'" "\<And>j. j < int (length t) \<Longrightarrow> sparse_get t' j = sparse_get t j"
      "\<And>j. j \<ge> int (length t) \<Longrightarrow> sparse_get t' j = (if j = 2 * 2 ^ d then Some (NodeLeaf lf) else None)"
    using extendTree_wf [OF wf, of lf] ext by auto
  have tlen: "int (length t) = 2 * 2 ^ d - 1" using full_length [OF f] by simp
  have none: "sparse_get t (2 * 2 ^ d) = None" using tlen by (intro sparse_get_outside) auto
  have free: "freeIndex (leafAt t) = 2 ^ d"
  proof (rule freeIndexI)
    show "leafAt t (2 ^ d) = None" using leafAt_None_iff [OF wf] none by simp
    fix u :: int assume "0 \<le> u" "u < 2 ^ d"
    then show "leafAt t u \<noteq> None" using findBlank_None [OF None] leafAt_None_iff [OF wf] tlen by simp
  qed simp
  have leaves: "sparse_get t' (2 * u) = sparse_get t (2 * u)" if "u \<noteq> 2 ^ d" for u
    using t'(3,4) [of "2 * u"] that sparse_get_outside [of "2 * u" t] by (cases "2 * u < int (length t)") auto
  have "\<exists>nd. sparse_get t j = Some nd \<and> keptNode nd nd'"
    if "j \<noteq> 2 * 2 ^ d" "sparse_get t' j = Some nd'" for j nd'
    using t'(3,4) [of j] that by (cases "j < int (length t)") (auto intro: exI [of _ nd'] sym)
  moreover have "sparse_get t' (2 * 2 ^ d) = Some (NodeLeaf lf)" using t'(4) [of "2 * 2 ^ d"] tlen by simp
  ultimately have "leafChange t (2 ^ d) (Some lf) t'" using leaves by (simp add: leafChange_def)
  then show ?thesis using free t'(1,2) none \<open>length t' = 2 * length t + 1\<close> by auto
qed

section \<open>No key twice\<close>

definition uniqueKeys :: "ratchetTree \<Rightarrow> bool" where
  "uniqueKeys t \<longleftrightarrow> (\<forall>i j n m. sparse_get t i = Some n \<longrightarrow> sparse_get t j = Some m \<longrightarrow> i \<noteq> j \<longrightarrow>
     getHpkePublicKey n \<noteq> getHpkePublicKey m \<and> (signatureKeyOf n = None \<or> signatureKeyOf n \<noteq> signatureKeyOf m))"

lemma uniqueKeysD:
  "uniqueKeys t \<Longrightarrow> sparse_get t i = Some n \<Longrightarrow> sparse_get t j = Some m \<Longrightarrow> i \<noteq> j \<Longrightarrow>
     getHpkePublicKey n \<noteq> getHpkePublicKey m \<and> (signatureKeyOf n = None \<or> signatureKeyOf n \<noteq> signatureKeyOf m)"
  unfolding uniqueKeys_def by blast

text \<open>Nodes that keep their keys, and one whose keys are nowhere else, keep the keys unique.\<close>

lemma uniqueKeys_change:
  assumes u: "uniqueKeys t" and rest: "\<And>j nd'. j \<noteq> i \<Longrightarrow> sparse_get t' j = Some nd' \<Longrightarrow>
      \<exists>nd. sparse_get t j = Some nd \<and> nodeKeys nd' = nodeKeys nd"
    and new: "\<And>nd j n. sparse_get t' i = Some nd \<Longrightarrow> j \<noteq> i \<Longrightarrow> sparse_get t j = Some n \<Longrightarrow>
      getHpkePublicKey n \<noteq> getHpkePublicKey nd \<and> (signatureKeyOf nd = None \<or> signatureKeyOf n \<noteq> signatureKeyOf nd)"
  shows "uniqueKeys t'"
  unfolding uniqueKeys_def
proof (intro allI impI)
  fix j k n m assume n: "sparse_get t' j = Some n" and m: "sparse_get t' k = Some m" and jk: "j \<noteq> k"
  show "getHpkePublicKey n \<noteq> getHpkePublicKey m \<and> (signatureKeyOf n = None \<or> signatureKeyOf n \<noteq> signatureKeyOf m)"
  proof (cases "j = i")
    case True
    obtain m0 where "sparse_get t k = Some m0" "nodeKeys m = nodeKeys m0" using rest [OF _ m] True jk by blast
    then show ?thesis using new [of n k m0] n True jk by (auto simp: nodeKeys_def)
  next
    case False
    then obtain n0 where n0: "sparse_get t j = Some n0" "nodeKeys n = nodeKeys n0" using rest [OF _ n] by blast
    show ?thesis
    proof (cases "k = i")
      case True
      then show ?thesis using new [of m j n0] m False n0 by (auto simp: nodeKeys_def)
    next
      case False
      then obtain m0 where "sparse_get t k = Some m0" "nodeKeys m = nodeKeys m0" using rest [OF _ m] by blast
      then show ?thesis using uniqueKeysD [OF u n0(1) _ jk] n0(2) by (auto simp: nodeKeys_def)
    qed
  qed
qed

lemma leafFits_new:
  assumes "leafFits t leafIndex leaf" "sparse_get t j = Some n" "\<forall>i. leafIndex = Some i \<longrightarrow> j \<noteq> 2 * i"
  shows "getHpkePublicKey n \<noteq> ln_hpkePublicKey leaf \<and> signatureKeyOf n \<noteq> Some (ln_signaturePublicKey leaf)"
proof (cases n)
  case (NodeParent p)
  then have "otherNode t None (NodeParent p)" using assms(2) by (auto simp: otherNode_def)
  then show ?thesis using assms(1) NodeParent by (auto simp: leafFits_def getHpkePublicKey_def signatureKeyOf_def)
next
  case (NodeLeaf l)
  then have "otherNode t leafIndex (NodeLeaf l)"
    using assms(2,3) by (auto simp: otherNode_def leafToNodeIndex_def mult.commute)
  then show ?thesis using assms(1) NodeLeaf by (auto simp: leafFits_def getHpkePublicKey_def signatureKeyOf_def)
qed

lemma uniqueKeys_leaf:
  assumes "uniqueKeys t" "leafChange t i (Some leaf) t'"
    and "leafFits t leafIndex leaf" "leafIndex = Some i \<or> leafIndex = None \<and> sparse_get t (2 * i) = None"
  shows "uniqueKeys t'"
proof (rule uniqueKeys_change [OF assms(1), where i = "2 * i"])
  fix nd j n assume nd: "sparse_get t' (2 * i) = Some nd" and j: "j \<noteq> 2 * i" and n: "sparse_get t j = Some n"
  have "nd = NodeLeaf leaf" using nd assms(2) by (simp add: leafChange_def)
  then show "getHpkePublicKey n \<noteq> getHpkePublicKey nd \<and> (signatureKeyOf nd = None \<or> signatureKeyOf n \<noteq> signatureKeyOf nd)"
    using leafFits_new [OF assms(3) n] j assms(4) by (auto simp: getHpkePublicKey_def signatureKeyOf_def)
qed (rule leafChange_keys [OF assms(2)])

lemma uniqueKeys_removed: "uniqueKeys t \<Longrightarrow> leafChange t i None t' \<Longrightarrow> uniqueKeys t'"
  by (rule uniqueKeys_change [where i = "2 * i" and t = t], assumption, rule leafChange_keys) (auto simp: leafChange_def)

section \<open>The proposals of a commit\<close>

text \<open>What the proposals mean for the members.\<close>

definition specUpdate :: "(int \<Rightarrow> leafNode option) \<Rightarrow> int option \<times> leafNode \<Rightarrow> int \<Rightarrow> leafNode option" where
  "specUpdate m = (\<lambda>(s, leaf). case s of Some i \<Rightarrow> m(i \<mapsto> leaf) | None \<Rightarrow> m)"

definition specRemove :: "(int \<Rightarrow> leafNode option) \<Rightarrow> int option \<times> int \<Rightarrow> int \<Rightarrow> leafNode option" where
  "specRemove m = (\<lambda>(_, removed). m(removed := None))"

definition specAdd :: "(int \<Rightarrow> leafNode option) \<Rightarrow> int option \<times> keyPackage \<Rightarrow> int \<Rightarrow> leafNode option" where
  "specAdd m = (\<lambda>(_, kp). m(freeIndex m \<mapsto> kp_leafNode kp))"

text \<open>The indices the added members get.\<close>

fun specPlaces :: "(int \<Rightarrow> leafNode option) \<Rightarrow> (int option \<times> keyPackage) list \<Rightarrow> (int \<times> keyPackage) list" where
  "specPlaces m [] = []"
| "specPlaces m ((s, kp) # rest) = (freeIndex m, kp) # specPlaces (specAdd m (s, kp)) rest"

lemma throwIfDefined_Inr [simp]: "throwIfDefined e = Inr u \<longleftrightarrow> e = None"
  by (cases e) (auto simp: throwIfDefined_def)

lemma validateLeafNodeUpdateOrCommit_fits:
  assumes "validateLeafNodeUpdateOrCommit leaf i gc t authService s hpke prior = Inr None"
  shows "leafFits t (Some i) leaf"
  using assms unfolding validateLeafNodeUpdateOrCommit_def
  by (auto simp: res_bind_eq_Inr validateLeafNodeCommon_iff split: if_splits option.splits)

lemma validateKeyPackage_fits:
  assumes "validateKeyPackage kp gc t sentByClient config authService s hpke now = Inr None"
  shows "leafFits t None (kp_leafNode kp)"
  using assms unfolding validateKeyPackage_def validateLeafNodeKeyPackage_def
  by (auto simp: res_bind_eq_Inr validateLeafNodeCommon_iff split: if_splits)

definition goodTree :: "ratchetTree \<Rightarrow> bool" where
  "goodTree t \<longleftrightarrow> (\<exists>d. wfTree d t) \<and> uniqueKeys t"

lemma specUpdate_change: "leafChange t i (Some leaf) t' \<Longrightarrow> specUpdate (leafAt t) (Some i, leaf) = leafAt t'"
  by (simp add: specUpdate_def leafChange_leafAt del: fun_upd_apply)

lemma specRemove_change: "leafChange t i None t' \<Longrightarrow> specRemove (leafAt t) (s, i) = leafAt t'"
  by (simp add: specRemove_def leafChange_leafAt del: fun_upd_apply)

lemma specAdd_change:
  "leafChange t (freeIndex (leafAt t)) (Some (kp_leafNode kp)) t' \<Longrightarrow> specAdd (leafAt t) (s, kp) = leafAt t'"
  by (simp add: specAdd_def leafChange_leafAt del: fun_upd_apply)

lemma applyUpdates:
  assumes "res_foldM (applyUpdateProposal t0 gc authService cs) t ups = Inr t'" "wfTree d t" "uniqueKeys t"
  shows "wfTree d t' \<and> uniqueKeys t' \<and> leafAt t' = foldl specUpdate (leafAt t) ups \<and> parentsKept t t'"
  using assms
proof (induction ups arbitrary: t)
  case (Cons u ups)
  obtain s leaf where u: "u = (s, leaf)" by fastforce
  from Cons.prems(1) obtain t1 where t1: "applyUpdateProposal t0 gc authService cs t u = Inr t1"
      "res_foldM (applyUpdateProposal t0 gc authService cs) t1 ups = Inr t'"
    by (auto simp: res_bind_eq_Inr)
  from t1(1) obtain i where i: "s = Some i"
      "validateLeafNodeUpdateOrCommit leaf i gc t authService (cs_signature cs) (cs_hpke cs) None = Inr None"
      "updateLeafNode t leaf i = Inr t1"
    by (auto simp: applyUpdateProposal_def u res_bind_eq_Inr split: option.splits)
  have ch: "wfTree d t1" "leafChange t i (Some leaf) t1" using updateLeafNode_change [OF Cons.prems(2) i(3)] by auto
  have "uniqueKeys t1"
    using uniqueKeys_leaf [OF Cons.prems(3) ch(2) validateLeafNodeUpdateOrCommit_fits [OF i(2)]] by simp
  from Cons.IH [OF t1(2) ch(1) this] show ?case
    using parentsKept_trans [OF leafChange_parents [OF ch(2)]] by (simp add: u i(1) specUpdate_change [OF ch(2)])
qed simp

lemma applyRemoves:
  assumes "res_foldM (applyRemoveProposal t0) t rms = Inr t'" "wfTree d t" "uniqueKeys t"
  shows "(\<exists>e \<le> d. wfTree e t') \<and> uniqueKeys t' \<and> leafAt t' = foldl specRemove (leafAt t) rms \<and> parentsKept t t'"
  using assms
proof (induction rms arbitrary: t d)
  case (Cons r rms)
  obtain s i where r: "r = (s, i)" by fastforce
  from Cons.prems(1) obtain t1 where t1: "applyRemoveProposal t0 t r = Inr t1"
      "res_foldM (applyRemoveProposal t0) t1 rms = Inr t'"
    by (auto simp: res_bind_eq_Inr)
  then have "removeLeafNode t i = Inr t1" by (auto simp: applyRemoveProposal_def r res_bind_eq_Inr)
  then obtain e where e: "e \<le> d" "wfTree e t1" "leafChange t i None t1"
    using removeLeafNode_change [OF Cons.prems(2)] by blast
  note ih = Cons.IH [OF t1(2) e(2) uniqueKeys_removed [OF Cons.prems(3) e(3)]]
  then obtain e' where "e' \<le> d" "wfTree e' t'" using e(1) le_trans by blast
  with ih show ?case using parentsKept_trans [OF leafChange_parents [OF e(3)]] by (auto simp: r specRemove_change [OF e(3)])
qed auto

lemma addLeafNode_length:
  assumes "addLeafNode t lf = Inr (t', i)" shows "length t \<le> length t'"
proof (cases "findBlankLeafNodeIndex t")
  case (Some b)
  then obtain l dp c where c: "res_foldM (addUnmerged l t) t dp = Inr c" "t' = setNode c b (Some (NodeLeaf lf))"
    using assms by (auto simp: addLeafNode_def res_bind_eq_Inr)
  have "length c = length t"
    by (rule res_foldM_invariant [OF c(1), where P = "\<lambda>c. length c = length t"])
       (auto simp: addUnmerged_def split: option.splits ratchetNode.splits)
  then show ?thesis using c(2) by simp
qed (use assms in \<open>auto simp: addLeafNode_def extendTree_def split: if_splits\<close>)

lemma applyAddProposal_Inr:
  assumes "applyAddProposal gc sentByClient authService config cs now (t, ws) (s, kp) = Inr (t1, ws1)"
  obtains i l where "leafFits t None (kp_leafNode kp)" "addLeafNode t (kp_leafNode kp) = Inr (t1, i)"
    "nodeToLeafIndex i = Inr l" "ws1 = ws @ [(l, kp)]"
proof -
  from assms obtain i l where "validateKeyPackage kp gc t sentByClient config authService (cs_signature cs) (cs_hpke cs) now = Inr None"
      and "addLeafNode t (kp_leafNode kp) = Inr (t1, i)" "nodeToLeafIndex i = Inr l" "ws1 = ws @ [(l, kp)]"
    by (auto simp: applyAddProposal_def res_bind_eq_Inr)
  then show ?thesis using validateKeyPackage_fits that by blast
qed

lemma applyAdds_length:
  assumes "res_foldM (applyAddProposal gc sentByClient authService config cs now) (t, ws) adds = Inr (t', ws')"
  shows "length t \<le> length t'"
  using assms
proof (induction adds arbitrary: t ws)
  case (Cons a adds)
  obtain s kp where a: "a = (s, kp)" by fastforce
  from Cons.prems obtain t1 ws1 where t1: "applyAddProposal gc sentByClient authService config cs now (t, ws) (s, kp) = Inr (t1, ws1)"
      "res_foldM (applyAddProposal gc sentByClient authService config cs now) (t1, ws1) adds = Inr (t', ws')"
    by (auto simp: res_bind_eq_Inr a)
  from t1(1) obtain i where "addLeafNode t (kp_leafNode kp) = Inr (t1, i)" by (rule applyAddProposal_Inr)
  then show ?case using Cons.IH [OF t1(2)] addLeafNode_length by fastforce
qed simp

lemma nodeToLeafIndex_double: "nodeToLeafIndex (2 * l) = Inr k \<Longrightarrow> k = l"
  by (auto simp: nodeToLeafIndex_def split: if_splits)

lemma applyAdds:
  assumes "res_foldM (applyAddProposal gc sentByClient authService config cs now) (t, ws) adds = Inr (t', ws')"
    and "wfTree d t" "uniqueKeys t" "length t' < 2 ^ 30"
  shows "(\<exists>e. wfTree e t') \<and> uniqueKeys t' \<and> leafAt t' = foldl specAdd (leafAt t) adds \<and>
    ws' = ws @ specPlaces (leafAt t) adds \<and> parentsKept t t'"
  using assms
proof (induction adds arbitrary: t ws d)
  case (Cons a adds)
  obtain s kp where a: "a = (s, kp)" by fastforce
  from Cons.prems(1) obtain t1 ws1 where t1: "applyAddProposal gc sentByClient authService config cs now (t, ws) (s, kp) = Inr (t1, ws1)"
      "res_foldM (applyAddProposal gc sentByClient authService config cs now) (t1, ws1) adds = Inr (t', ws')"
    by (auto simp: res_bind_eq_Inr a)
  from t1(1) obtain i l where add: "leafFits t None (kp_leafNode kp)" "addLeafNode t (kp_leafNode kp) = Inr (t1, i)"
      "nodeToLeafIndex i = Inr l" "ws1 = ws @ [(l, kp)]" by (rule applyAddProposal_Inr)
  have "length t1 < 2 ^ 30" using applyAdds_length [OF t1(2)] Cons.prems(4) by simp
  from addLeafNode_change [OF Cons.prems(2) add(2) this] obtain e where ch: "wfTree e t1"
      "i = 2 * freeIndex (leafAt t)" "sparse_get t (2 * freeIndex (leafAt t)) = None"
      "leafChange t (freeIndex (leafAt t)) (Some (kp_leafNode kp)) t1" by auto
  have "uniqueKeys t1" using uniqueKeys_leaf [OF Cons.prems(3) ch(4) add(1)] ch(3) by simp
  from Cons.IH [OF t1(2) ch(1) this Cons.prems(4)] show ?case
    using nodeToLeafIndex_double [of "freeIndex (leafAt t)" l] add(3,4) ch(2) parentsKept_trans [OF leafChange_parents [OF ch(4)]]
    by (simp add: a specAdd_change [OF ch(4)])
qed auto

text \<open>The proposals of a commit do to the members what they say, and keep the tree well formed.\<close>

lemma applyTreeMutations_refines:
  assumes "applyTreeMutations t grouped gc sentByClient authService config cs now = Inr (t', added)"
    and "goodTree t" "length t' < 2 ^ 30"
  shows "goodTree t' \<and>
    leafAt t' = foldl specAdd (foldl specRemove (foldl specUpdate (leafAt t) (pr_update grouped)) (pr_remove grouped)) (pr_add grouped) \<and>
    added = specPlaces (foldl specRemove (foldl specUpdate (leafAt t) (pr_update grouped)) (pr_remove grouped)) (pr_add grouped) \<and>
    parentsKept t t'"
proof -
  obtain d where d: "wfTree d t" "uniqueKeys t" using assms(2) by (auto simp: goodTree_def)
  from assms(1) obtain t1 t2 where t: "res_foldM (applyUpdateProposal t gc authService cs) t (pr_update grouped) = Inr t1"
      "res_foldM (applyRemoveProposal t) t1 (pr_remove grouped) = Inr t2"
      "res_foldM (applyAddProposal gc sentByClient authService config cs now) (t2, []) (pr_add grouped) = Inr (t', added)"
    by (auto simp: applyTreeMutations_def res_bind_eq_Inr)
  have u: "wfTree d t1" "uniqueKeys t1" "leafAt t1 = foldl specUpdate (leafAt t) (pr_update grouped)" "parentsKept t t1"
    using applyUpdates [OF t(1) d] by auto
  obtain e where r: "wfTree e t2" "uniqueKeys t2" "leafAt t2 = foldl specRemove (leafAt t1) (pr_remove grouped)" "parentsKept t1 t2"
    using applyRemoves [OF t(2) u(1,2)] by auto
  show ?thesis using applyAdds [OF t(3) r(1,2) assms(3)] r(3) u(3) parentsKept_trans [OF u(4) parentsKept_trans [OF r(4)]]
    by (auto simp: goodTree_def)
qed

section \<open>A member the proposals do not touch\<close>

lemma specUpdate_other: "\<forall>u\<in>set ups. fst u \<noteq> Some r \<Longrightarrow> foldl specUpdate m ups r = m r"
  by (induction ups arbitrary: m) (auto simp: specUpdate_def split: option.splits prod.splits)

lemma specRemove_other: "\<forall>u\<in>set rms. snd u \<noteq> r \<Longrightarrow> foldl specRemove m rms r = m r"
  by (induction rms arbitrary: m) (auto simp: specRemove_def split: prod.splits)

lemma freeIndex_free: "\<exists>n. m (int n) = None \<Longrightarrow> m (freeIndex m) = None"
  unfolding freeIndex_def by (rule LeastI_ex)

lemma finite_free: "finite (dom m) \<Longrightarrow> \<exists>n. m (int n) = None"
proof (rule ccontr)
  assume fin: "finite (dom m)" and "\<nexists>n. m (int n) = None"
  then have "range int \<subseteq> dom m" by auto
  then have "finite (range int)" using fin finite_subset by blast
  then show False by (simp add: finite_image_iff)
qed

lemma finite_leaves: "finite (dom (leafAt t))"
proof -
  have "dom (leafAt t) \<subseteq> {0..<int (length t)}"
  proof
    fix l assume "l \<in> dom (leafAt t)"
    then have "sparse_get t (2 * l) \<noteq> None" by (auto simp: leafAt_alt split: option.splits)
    then have "0 \<le> 2 * l \<and> 2 * l < int (length t)" using sparse_get_outside [of "2 * l" t] by metis
    then show "l \<in> {0..<int (length t)}" by simp
  qed
  then show ?thesis by (rule finite_subset) simp
qed

lemma specAdd_other: "finite (dom m) \<Longrightarrow> m r \<noteq> None \<Longrightarrow> foldl specAdd m adds r = m r"
proof (induction adds arbitrary: m)
  case (Cons a adds)
  obtain s kp where a: "a = (s, kp)" by fastforce
  have "freeIndex m \<noteq> r" using freeIndex_free [OF finite_free [OF Cons.prems(1)]] Cons.prems(2) by auto
  then have keep: "specAdd m a r = m r" by (simp add: a specAdd_def)
  have "finite (dom (specAdd m a))" using Cons.prems(1) by (simp add: a specAdd_def del: fun_upd_apply)
  then show ?case using Cons.IH [of "specAdd m a"] Cons.prems(2) keep by simp
qed simp

lemma finite_specUpdate: "finite (dom m) \<Longrightarrow> finite (dom (foldl specUpdate m ups))"
  by (induction ups arbitrary: m) (auto simp: specUpdate_def simp del: fun_upd_apply split: option.splits prod.splits)

lemma finite_specRemove: "finite (dom m) \<Longrightarrow> finite (dom (foldl specRemove m rms))"
  by (induction rms arbitrary: m) (auto simp: specRemove_def simp del: fun_upd_apply split: prod.splits)

lemma spec_untouched:
  assumes "finite (dom m)" "m r \<noteq> None" "\<forall>u\<in>set ups. fst u \<noteq> Some r" "\<forall>u\<in>set rms. snd u \<noteq> r"
  shows "foldl specAdd (foldl specRemove (foldl specUpdate m ups) rms) adds r = m r"
  using assms specAdd_other [OF finite_specRemove [OF finite_specUpdate [OF assms(1)]]]
  by (simp add: specUpdate_other specRemove_other)

end
