(* ===== verification/CommitTree.thy ===== *)
theory CommitTree imports TreeMutations PathAgreement begin

text \<open>
  The tree of a commit on the receiver's side: the proposals, the committer's leaf and the update path
  keep the tree well formed and its keys unique, so every commit a client processes does.
\<close>

section \<open>The update path\<close>

lemma exists_map: "distinct ks \<Longrightarrow> length ys = length ks \<Longrightarrow> \<exists>f. map f ks = ys"
proof (induction ks arbitrary: ys)
  case (Cons k ks)
  then obtain y zs where ys: "ys = y # zs" "length zs = length ks" by (cases ys) auto
  obtain f where "map f ks = zs" using Cons ys(2) by auto
  then have "map (f(k := y)) (k # ks) = ys" using Cons.prems(1) ys(1) by simp
  then show ?case by blast
qed simp

lemma writePath_walked:
  assumes l: "0 \<le> l" "l < 2 ^ d"
  shows "writePath digest h (zip (map (ancestorAt l 0) ks) nodes) (t, e) = Inr (t', e') \<Longrightarrow> full d t \<Longrightarrow>
    distinct ks \<Longrightarrow> set ks \<subseteq> {1..d} \<Longrightarrow> map upn_hpkePublicKey nodes = map pk ks \<Longrightarrow>
    full d t' \<and> walked l pk (set ks) t t'"
proof (induction ks arbitrary: nodes t e)
  case Nil
  then show ?case by (simp add: walked_def)
next
  case (Cons k ks)
  obtain n ns where n: "nodes = n # ns" "upn_hpkePublicKey n = pk k" "map upn_hpkePublicKey ns = map pk ks"
    using Cons.prems(5) by (cases nodes) auto
  obtain ph e1 where step: "writePath digest h (zip (map (ancestorAt l 0) ks) ns)
      (setNode t (ancestorAt l 0 k) (Some (NodeParent \<lparr>pn_hpkePublicKey = pk k, pn_parentHash = ph, pn_unmergedLeaves = []\<rparr>)), e1)
      = Inr (t', e')" (is "writePath _ _ _ (?t, _) = _")
    using Cons.prems(1) n(1,2) by (auto simp: res_bind_eq_Inr)
  have "full d t' \<and> walked l pk (set ks) ?t t'"
    using Cons.IH [OF step _ _ _ n(3)] Cons.prems(2-4) by simp
  then show ?case using walked_step [of l pk "set ks" t k ph t' d] l Cons.prems(2-4) by simp
qed

lemma hasDuplicateKey_distinct: "\<not> hasDuplicateKey nodes \<Longrightarrow> distinct (map upn_hpkePublicKey nodes)"
  unfolding hasDuplicateKey_def by (fastforce simp: list_ex_iff constantTimeEqual_iff distinct_conv_nth)

lemma keyInTree_iff: "keyInTree t key \<longleftrightarrow> (\<exists>n. Some n \<in> set t \<and> getHpkePublicKey n = key)"
  by (force simp: keyInTree_def list_ex_iff constantTimeEqual_iff split: option.splits)

text \<open>What a path that is accepted has done.\<close>

definition pathWritten :: "nat \<Rightarrow> ratchetTree \<Rightarrow> int \<Rightarrow> leafNode \<Rightarrow> nat set \<Rightarrow> (nat \<Rightarrow> bytes) \<Rightarrow> ratchetTree \<Rightarrow> bool" where
  "pathWritten d t l leaf js pk t' \<longleftrightarrow> js \<subseteq> {1..d} \<and> inj_on pk js \<and> full d t' \<and>
     sparse_get t' (ancestorAt l 0 0) = Some (NodeLeaf leaf) \<and>
     (\<forall>i. i \<noteq> ancestorAt l 0 0 \<longrightarrow> i \<notin> ancestorAt l 0 ` js \<longrightarrow> sparse_get t' i = sparse_get t i) \<and>
     (\<forall>j\<in>js. \<exists>ph. sparse_get t' (ancestorAt l 0 j) =
        Some (NodeParent \<lparr>pn_hpkePublicKey = pk j, pn_parentHash = ph, pn_unmergedLeaves = []\<rparr>)) \<and>
     (\<forall>j\<in>js. pk j \<noteq> ln_hpkePublicKey leaf \<and> (\<forall>i n. sparse_get t i = Some n \<longrightarrow> getHpkePublicKey n \<noteq> pk j))"

lemma applyUpdatePath_written:
  assumes wf: "wfTree d t" and l: "0 \<le> l" "l < 2 ^ d"
    and a: "applyUpdatePath digest h t e l path ext = Inr (t', e')"
  obtains js pk where "pathWritten d t l (up_leafNode path) js pk t'"
proof -
  let ?f = "ancestorAt l 0" and ?ks = "filteredLevels d t l" and ?ns = "up_nodes path"
  note ft = wfTree_full [OF wf]
  have leaf_f: "leafToNodeIndex l = ?f 0" by (simp add: leafToNodeIndex_def ancestorAt_leaf)
  obtain e1 e2 where new: "\<forall>n\<in>set ?ns. \<not> keyInTree t (upn_hpkePublicKey n)"
      and dup: "\<not> hasDuplicateKey ?ns"
      and own: "\<forall>n\<in>set ?ns. upn_hpkePublicKey n \<noteq> ln_hpkePublicKey (up_leafNode path)"
      and len: "length ?ns = length ?ks"
      and w: "writePath digest h (zip (rev (map ?f ?ks)) (rev ?ns))
        (setNode t (?f 0) (Some (NodeLeaf (up_leafNode path))), e1) = Inr (t', e2)"
    using a filtered_levels(2) [OF wf l] unfolding applyUpdatePath_def
    by (cases "ln_info (up_leafNode path)")
       (auto simp: res_bind_eq_Inr list_ex_iff constantTimeEqual_iff leaf_f Let_def rev_map split: if_splits)
  have sorted: "distinct ?ks" using filteredLevels_sorted [of d t l] by (simp add: strict_sorted_iff)
  have range: "set ?ks \<subseteq> {1..d}" by (rule filteredLevels_range)
  obtain pk where pk: "map pk ?ks = map upn_hpkePublicKey ?ns"
    using exists_map [OF sorted, of "map upn_hpkePublicKey ?ns"] len by auto
  let ?c = "setNode t (?f 0) (Some (NodeLeaf (up_leafNode path)))"
  have "map upn_hpkePublicKey (rev ?ns) = map pk (rev ?ks)" using pk by (simp flip: rev_map)
  with writePath_walked [OF l, of digest h "rev ?ks" "rev ?ns" ?c e1 t' e2 pk] w ft sorted range
  have walk: "full d t'" "walked l pk (set ?ks) ?c t'" by (simp_all add: rev_map)
  have key: "\<exists>n\<in>set ?ns. pk j = upn_hpkePublicKey n" if "j \<in> set ?ks" for j
  proof -
    have "pk j \<in> set (map pk ?ks)" using that by simp
    then show ?thesis unfolding pk by auto
  qed
  have "inj_on pk (set ?ks)" using hasDuplicateKey_distinct [OF dup] unfolding pk [symmetric] distinct_map by simp
  moreover have "pk j \<noteq> ln_hpkePublicKey (up_leafNode path)"
      "\<And>i n. sparse_get t i = Some n \<Longrightarrow> getHpkePublicKey n \<noteq> pk j" if j: "j \<in> set ?ks" for j
  proof -
    show "pk j \<noteq> ln_hpkePublicKey (up_leafNode path)" using key [OF j] own by auto
    fix i n assume "sparse_get t i = Some n"
    then have "Some n \<in> set t" using sparse_get_eq_SomeD [of t i n] nth_mem [of "nat i" t] by auto
    then show "getHpkePublicKey n \<noteq> pk j" using key [OF j] new by (auto simp: keyInTree_iff)
  qed
  ultimately have "pathWritten d t l (up_leafNode path) (set ?ks) pk t'"
    unfolding pathWritten_def using walk range leaf_not_image [OF l(1) range] path_write_get [OF ft l, of 0]
    by (simp add: walked_def)
  then show thesis by (rule that)
qed

lemma pathWritten_wf:
  "pathWritten d t l leaf js pk t' \<Longrightarrow> wfTree d t \<Longrightarrow> 0 \<le> l \<Longrightarrow> l < 2 ^ d \<Longrightarrow> wfTree d t'"
  unfolding pathWritten_def by (elim conjE, rule wfTree_path [where t' = t' and js = js and lf = leaf and pk = pk]) blast+

lemma pathWritten_keys:
  assumes w: "pathWritten d t l leaf js pk t'" and u: "uniqueKeys t" and l: "0 \<le> l"
    and other: "\<And>j n. j \<noteq> 2 * l \<Longrightarrow> sparse_get t j = Some n \<Longrightarrow>
      getHpkePublicKey n \<noteq> ln_hpkePublicKey leaf \<and> signatureKeyOf n \<noteq> Some (ln_signaturePublicKey leaf)"
  shows "uniqueKeys t'"
  unfolding uniqueKeys_def
proof (intro allI impI)
  let ?f = "ancestorAt l 0"
  have node: "i = 2 * l \<and> n = NodeLeaf leaf \<or>
      (\<exists>j\<in>js. i = ?f j \<and> getHpkePublicKey n = pk j \<and> signatureKeyOf n = None) \<or>
      i \<noteq> 2 * l \<and> sparse_get t i = Some n" if n: "sparse_get t' i = Some n" for i n
  proof (cases "i \<in> ?f ` js")
    case True
    then obtain j where "j \<in> js" "i = ?f j" by blast
    then show ?thesis using w n by (fastforce simp: pathWritten_def getHpkePublicKey_def signatureKeyOf_def)
  next
    case False
    then show ?thesis using w n by (cases "i = 2 * l") (simp_all add: pathWritten_def ancestorAt_leaf)
  qed
  have new: "pk j \<noteq> ln_hpkePublicKey leaf" "sparse_get t i = Some n \<Longrightarrow> getHpkePublicKey n \<noteq> pk j"
    "j' \<in> js \<Longrightarrow> pk j = pk j' \<Longrightarrow> j = j'" if "j \<in> js" for j j' i n
    using w that by (auto simp: pathWritten_def inj_on_def)
  have old: "\<forall>k\<in>js. pk k \<noteq> ln_hpkePublicKey leaf" using w by (simp add: pathWritten_def)
  have leaf: "getHpkePublicKey (NodeLeaf leaf) = ln_hpkePublicKey leaf" "signatureKeyOf (NodeLeaf leaf) = Some (ln_signaturePublicKey leaf)"
    by (simp_all add: getHpkePublicKey_def signatureKeyOf_def)
  fix i j n m assume n: "sparse_get t' i = Some n" and m: "sparse_get t' j = Some m" and ij: "i \<noteq> j"
  show "getHpkePublicKey n \<noteq> getHpkePublicKey m \<and> (signatureKeyOf n = None \<or> signatureKeyOf n \<noteq> signatureKeyOf m)"
    using node [OF n]
  proof (elim disjE conjE bexE)
    assume i: "i = 2 * l" "n = NodeLeaf leaf"
    show ?thesis using node [OF m] i ij leaf old other [of j m] by (elim disjE conjE bexE) auto
  next
    fix k assume k: "k \<in> js" "i = ?f k" "getHpkePublicKey n = pk k" "signatureKeyOf n = None"
    have "getHpkePublicKey m \<noteq> pk k" using node [OF m]
    proof (elim disjE conjE bexE)
      fix k' assume k': "k' \<in> js" "j = ?f k'" "getHpkePublicKey m = pk k'"
      have "k \<noteq> k'" using k(2) k'(2) ij by blast
      then show ?thesis using new(3) [OF k(1) k'(1)] k'(3) by metis
    next
      assume "m = NodeLeaf leaf"
      then show ?thesis using leaf(1) new(1) [OF k(1)] by simp
    next
      assume "sparse_get t j = Some m"
      then show ?thesis by (rule new(2) [OF k(1)])
    qed
    then show ?thesis using k by simp
  next
    assume i: "i \<noteq> 2 * l" "sparse_get t i = Some n"
    have "\<forall>k\<in>js. getHpkePublicKey n \<noteq> pk k" using new(2) [OF _ i(2)] by blast
    moreover have "sparse_get t j = Some m \<Longrightarrow> ?thesis" using uniqueKeysD [OF u i(2) _ ij] by blast
    moreover have "m = NodeLeaf leaf \<Longrightarrow> ?thesis" using other [OF i] leaf by auto
    ultimately show ?thesis using node [OF m] by metis
  qed
qed

section \<open>The whole commit\<close>

lemma goodTree_remove:
  assumes "goodTree t" "removeLeafNode t i = Inr t'" shows "goodTree t'"
proof -
  obtain d where d: "wfTree d t" "uniqueKeys t" using assms(1) by (auto simp: goodTree_def)
  then show ?thesis using removeLeafNode_change [OF d(1) assms(2)] uniqueKeys_removed by (auto simp: goodTree_def)
qed

lemma goodTree_path:
  assumes good: "goodTree t" and a: "applyUpdatePath digest h t e l path ext = Inr (t', e')"
    and here: "sparse_get t (2 * l) \<noteq> None"
    and other: "\<And>j n. j \<noteq> 2 * l \<Longrightarrow> sparse_get t j = Some n \<Longrightarrow>
      getHpkePublicKey n \<noteq> ln_hpkePublicKey (up_leafNode path) \<and> signatureKeyOf n \<noteq> Some (ln_signaturePublicKey (up_leafNode path))"
  shows "goodTree t' \<and> length t' = length t"
proof -
  obtain d where wf: "wfTree d t" and u: "uniqueKeys t" using good by (auto simp: goodTree_def)
  have "0 \<le> 2 * l \<and> 2 * l < int (length t)" using here sparse_get_outside [of "2 * l" t] by metis
  then have l: "0 \<le> l" "l < 2 ^ d" using full_length [OF wfTree_full [OF wf]] by auto
  obtain js pk where w: "pathWritten d t l (up_leafNode path) js pk t'" by (rule applyUpdatePath_written [OF wf l a])
  have "full d t'" using w by (simp add: pathWritten_def)
  then show ?thesis using pathWritten_wf [OF w wf l] pathWritten_keys [OF w u l(1) other] wfTree_full [OF wf]
    by (auto simp: goodTree_def full_def)
qed

lemma writePath_length: "writePath digest h nodes (t, e) = Inr (t', e') \<Longrightarrow> length t' = length t"
  by (induction nodes arbitrary: t e) (auto simp: res_bind_eq_Inr)

lemma applyUpdatePath_length:
  assumes "applyUpdatePath digest h t e l path ext = Inr (t', e')" shows "length t' = length t"
  using assms unfolding applyUpdatePath_def
  by (cases "ln_info (up_leafNode path)")
     (auto simp: res_bind_eq_Inr Let_def dest!: writePath_length split: if_splits)

lemma addLeafNode_index: "addLeafNode t lf = Inr (t', i) \<Longrightarrow> i = findBlankLeafNodeIndexOrExtend t"
  by (auto simp: addLeafNode_def extendTree_def findBlankLeafNodeIndexOrExtend_def res_bind_eq_Inr split: option.splits if_splits)

text \<open>The committer's leaf of an external commit goes where it was validated.\<close>

lemma goodTree_add:
  assumes good: "goodTree t" and add: "addLeafNode t lf = Inr (t', i)" "nodeToLeafIndex i = Inr l" and small: "length t' < 2 ^ 30"
    and fits: "leafFits t (Some l) lf"
  shows "goodTree t' \<and> sparse_get t' (2 * l) \<noteq> None \<and> (\<forall>j n. j \<noteq> 2 * l \<longrightarrow> sparse_get t' j = Some n \<longrightarrow>
      getHpkePublicKey n \<noteq> ln_hpkePublicKey lf \<and> signatureKeyOf n \<noteq> Some (ln_signaturePublicKey lf))"
proof -
  obtain d where wf: "wfTree d t" and u: "uniqueKeys t" using good by (auto simp: goodTree_def)
  note ch = addLeafNode_change [OF wf add(1) small]
  then have l: "l = freeIndex (leafAt t)" using nodeToLeafIndex_double add(2) by blast
  then have ch': "leafChange t l (Some lf) t'" "\<exists>e. wfTree e t'" using ch by auto
  have "uniqueKeys t'" using uniqueKeys_leaf [OF u ch'(1) fits] by simp
  moreover have "getHpkePublicKey n \<noteq> ln_hpkePublicKey lf \<and> signatureKeyOf n \<noteq> Some (ln_signaturePublicKey lf)"
    if j: "j \<noteq> 2 * l" "sparse_get t' j = Some n" for j n
  proof -
    obtain n0 where n0: "sparse_get t j = Some n0" "nodeKeys n = nodeKeys n0" using leafChange_keys [OF ch'(1) j] by blast
    then show ?thesis using leafFits_new [OF fits n0(1)] j(1) by (simp add: nodeKeys_def)
  qed
  moreover have "sparse_get t' (2 * l) \<noteq> None" using ch'(1) by (simp add: leafChange_def)
  ultimately show ?thesis using ch'(2) unfolding goodTree_def by blast
qed

lemma applyProposals_good:
  assumes a: "applyProposals state ps committer findPsk sentByClient cs newLeaf senderType now = Inr res"
    and good: "goodTree (st_ratchetTree state)" and small: "length (ap_tree res) < 2 ^ 30"
  shows "goodTree (ap_tree res) \<and> (\<forall>s i c. ap_additionalResult res = ExternalCommit s i c \<longrightarrow>
      nodeToLeafIndex (findBlankLeafNodeIndexOrExtend (ap_tree res)) = Inr i)"
proof -
  obtain allProposals where "applyMemberProposals state allProposals (groupProposals allProposals) committer findPsk sentByClient cs now = Inr res \<or>
      applyExternalProposals state ps allProposals (groupProposals allProposals) findPsk cs newLeaf = Inr res"
    using a unfolding applyProposals_def by (auto simp: Let_def res_bind_eq_Inr split: if_splits)
  then show ?thesis
  proof
    assume m: "applyMemberProposals state allProposals (groupProposals allProposals) committer findPsk sentByClient cs now = Inr res"
    show ?thesis
    proof (cases "pr_reinit (groupProposals allProposals)")
      case Nil
      then obtain added ctx where t: "applyTreeMutations (st_ratchetTree state) (groupProposals allProposals)
          (groupContextAfterExtensions (st_groupContext state) (groupProposals allProposals)) sentByClient
          (cc_authService (st_clientConfig state)) (cc_lifetimeConfig (st_clientConfig state)) cs now = Inr (ap_tree res, added)"
          "ap_additionalResult res = MemberCommit added ctx"
        using m unfolding applyMemberProposals_def by (auto simp: Let_def res_bind_eq_Inr)
      then show ?thesis using applyTreeMutations_refines [OF t(1) good small] by simp
    next
      case (Cons r rs)
      then show ?thesis using m good unfolding applyMemberProposals_def
        by (auto simp: Let_def res_bind_eq_Inr split: prod.splits)
    qed
  next
    assume e: "applyExternalProposals state ps allProposals (groupProposals allProposals) findPsk cs newLeaf = Inr res"
    then obtain secret i c where r: "res_foldM (\<lambda>acc (_, removed). removeLeafNode acc removed) (st_ratchetTree state)
         (pr_remove (groupProposals allProposals)) = Inr (ap_tree res)"
        "nodeToLeafIndex (findBlankLeafNodeIndexOrExtend (ap_tree res)) = Inr i"
        "ap_additionalResult res = ExternalCommit secret i c"
      unfolding applyExternalProposals_def by (auto simp: Let_def res_bind_eq_Inr split: if_splits)
    have "goodTree (ap_tree res)"
      by (rule res_foldM_invariant [where P = goodTree, OF r(1) good]) (auto intro: goodTree_remove)
    then show ?thesis using r by simp
  qed
qed

lemma validateCommitLeaf_fits:
  assumes "validateCommitLeaf state res gc senderLeafIndex (Some path) cs = Inr ()"
  shows "\<exists>i. leafFits (ap_tree res) (Some i) (up_leafNode path) \<and>
    (senderLeafIndex = Some i \<or> senderLeafIndex = None \<and> (\<exists>s c. ap_additionalResult res = ExternalCommit s i c))"
  using assms unfolding validateCommitLeaf_def
  by (auto simp: Let_def res_bind_eq_Inr dest!: validateLeafNodeUpdateOrCommit_fits split: option.splits applyProposalsData.splits)

lemma applyTreeUpdate_good:
  assumes u: "applyTreeUpdate path sender (ap_tree res) cs own gc excl = Inr (keys, secret, tree, hash)"
    and good: "goodTree (ap_tree res)" and small: "length tree < 2 ^ 30"
    and v: "validateCommitLeaf state res gc' (getSenderLeafNodeIndex sender) path cs = Inr ()"
    and place: "\<forall>s i c. ap_additionalResult res = ExternalCommit s i c \<longrightarrow>
      nodeToLeafIndex (findBlankLeafNodeIndexOrExtend (ap_tree res)) = Inr i"
  shows "goodTree tree"
proof (cases path)
  case None
  then show ?thesis using u good by (auto simp: applyTreeUpdate_def res_map_eq_Inr)
next
  case (Some p)
  obtain i where i: "leafFits (ap_tree res) (Some i) (up_leafNode p)"
      "getSenderLeafNodeIndex sender = Some i \<or>
       getSenderLeafNodeIndex sender = None \<and> (\<exists>s c. ap_additionalResult res = ExternalCommit s i c)"
    using validateCommitLeaf_fits v Some by blast
  show ?thesis
  proof (cases "\<exists>l. sender = SenderMember l")
    case True
    then have sender: "sender = SenderMember i" using i(2) by (auto simp: getSenderLeafNodeIndex_def)
    obtain e where a: "applyUpdatePath h_digest (cs_hash cs) (ap_tree res) None i p False = Inr (tree, e)"
      using u Some sender by (auto simp: applyTreeUpdate_def applyPath_def res_bind_eq_Inr res_map_eq_Inr)
    then have "sparse_get (ap_tree res) (2 * i) \<noteq> None"
      by (auto simp: applyUpdatePath_def res_bind_eq_Inr leafToNodeIndex_def mult.commute split: option.splits)
    from goodTree_path [OF good a this] show ?thesis using leafFits_new [OF i(1)] by auto
  next
    case False
    then have joiner: "getSenderLeafNodeIndex sender = None" by (cases sender) (auto simp: getSenderLeafNodeIndex_def)
    with False u Some obtain t1 k l e where add: "addLeafNode (ap_tree res) (up_leafNode p) = Inr (t1, k)" "nodeToLeafIndex k = Inr l"
        and a: "applyUpdatePath h_digest (cs_hash cs) t1 None l p True = Inr (tree, e)"
      by (cases sender) (auto simp: applyTreeUpdate_def applyPath_def res_bind_eq_Inr res_map_eq_Inr)
    obtain s c where "ap_additionalResult res = ExternalCommit s i c" using i(2) joiner by auto
    then have "l = i" using place addLeafNode_index [OF add(1)] add(2) by auto
    have len: "length tree = length t1" using applyUpdatePath_length [OF a] .
    then have "goodTree t1 \<and> sparse_get t1 (2 * l) \<noteq> None \<and> (\<forall>j n. j \<noteq> 2 * l \<longrightarrow> sparse_get t1 j = Some n \<longrightarrow>
      getHpkePublicKey n \<noteq> ln_hpkePublicKey (up_leafNode p) \<and> signatureKeyOf n \<noteq> Some (ln_signaturePublicKey (up_leafNode p)))"
      using goodTree_add [OF good add] small i(1) \<open>l = i\<close> by simp
    then show ?thesis using goodTree_path [OF _ a] by blast
  qed
qed

lemma applyTreeUpdate_length:
  "applyTreeUpdate path sender t cs own gc excl = Inr (keys, secret, tree, hash) \<Longrightarrow> length t \<le> length tree"
  unfolding applyTreeUpdate_def applyPath_def
  by (auto simp: res_bind_eq_Inr res_map_eq_Inr dest!: applyUpdatePath_length addLeafNode_length
      split: option.splits sender.splits)

text \<open>The three ways a commit is processed.\<close>

definition ownCommitPath :: "'sk clientState \<Rightarrow> commit \<Rightarrow> privateKeyPath" where
  "ownCommitPath state cm = (case appliedPendingUpdateKey (st_pendingUpdateKeys state) (cm_proposals cm) of
     None \<Rightarrow> st_privatePath state | Some k \<Rightarrow> updateLeafKey (st_privatePath state) (puk_hpkePrivateKey k))"

definition ownCommitKey :: "'sk clientState \<Rightarrow> commit \<Rightarrow> 'sk" where
  "ownCommitKey state cm = (case appliedPendingUpdateKey (st_pendingUpdateKeys state) (cm_proposals cm) of
     Some k \<Rightarrow> (case puk_signaturePrivateKey k of Some sk \<Rightarrow> sk | None \<Rightarrow> st_signaturePrivateKey state)
   | None \<Rightarrow> st_signaturePrivateKey state)"

definition initSecretOf :: "'sk clientState \<Rightarrow> applyProposalsResult \<Rightarrow> bytes" where
  "initSecretOf state res = (case ap_additionalResult res of
     ExternalCommit externalInitSecret _ _ \<Rightarrow> externalInitSecret | _ \<Rightarrow> ks_initSecret (st_keySchedule state))"

lemma processCommit_cases:
  assumes p: "processCommit state content cm wireformat findPsk onMessage cs now = Inr r"
  obtains (rejected) "sa_newState r = state"
  | (removed) res where
      "applyProposals state (cm_proposals cm) (getSenderLeafNodeIndex (fc_sender (ac_content content))) findPsk False cs
        (map_option up_leafNode (cm_path cm)) (Some (senderTypeOf (fc_sender (ac_content content)))) now = Inr res"
      "ap_selfRemoved res" "sa_newState r = (withoutPendingUpdateKeys state)\<lparr>st_unappliedProposals := emptyUnappliedProposals,
        st_groupActiveState := RemovedFromGroup\<rparr>"
  | (advanced) res pathKeys commitSecret tree hash tag gc epochSecrets secretTree where
      "applyProposals state (cm_proposals cm) (getSenderLeafNodeIndex (fc_sender (ac_content content))) findPsk False cs
        (map_option up_leafNode (cm_path cm)) (Some (senderTypeOf (fc_sender (ac_content content)))) now = Inr res"
      "\<not> ap_selfRemoved res"
      "validateCommitLeaf state res (contextAfterProposals state res)
         (getSenderLeafNodeIndex (fc_sender (ac_content content))) (cm_path cm) cs = Inr ()"
      "applyTreeUpdate (cm_path cm) (fc_sender (ac_content content)) (ap_tree res) cs (ownCommitPath state cm)
         (contextAfterProposals state res) (commitExcludeNodes res) = Inr (pathKeys, commitSecret, tree, hash)"
      "fa_content (ac_auth content) = AuthCommit tag"
      "nextEpochContext (contextAfterProposals state res) wireformat (ac_content content)
         (fa_signature (ac_auth content)) hash (st_confirmationTag state) (cs_hash cs) = Inr gc"
      "initializeEpoch (initSecretOf state res) commitSecret gc (ap_pskSecret res) (cs_kdf cs) = Inr epochSecrets"
      "createSecretTree (leafWidth (int (length tree))) (dk_encryptionSecret epochSecrets) (cs_kdf cs) = Inr secretTree"
      "sa_newState r = (withoutPendingUpdateKeys state)\<lparr>st_signaturePrivateKey := ownCommitKey state cm,
         st_secretTree := secretTree, st_ratchetTree := tree,
         st_privatePath := pruneBlankedNodes (case pathKeys of None \<Rightarrow> ownCommitPath state cm
           | Some keys \<Rightarrow> mergePrivateKeyPaths (ownCommitPath state cm) keys) tree,
         st_groupContext := gc, st_keySchedule := dk_keySchedule epochSecrets, st_confirmationTag := tag,
         st_historicalReceiverData := addHistoricalReceiverData state,
         st_unappliedProposals := emptyUnappliedProposals, st_groupActiveState := activeStateAfter res\<rparr>"
proof (cases "sa_newState r = state")
  case False
  obtain res where a: "applyProposals state (cm_proposals cm) (getSenderLeafNodeIndex (fc_sender (ac_content content))) findPsk False cs
        (map_option up_leafNode (cm_path cm)) (Some (senderTypeOf (fc_sender (ac_content content)))) now = Inr res"
    using p unfolding processCommit_def Let_def by (auto simp: res_bind_eq_Inr split: if_splits)
  note p' = p [unfolded processCommit_def Let_def a res_bind_Inr, folded initSecretOf_def ownCommitPath_def ownCommitKey_def]
  have v: "validateCommitLeaf state res (contextAfterProposals state res)
      (getSenderLeafNodeIndex (fc_sender (ac_content content))) (cm_path cm) cs = Inr ()"
    using p' False by (auto simp: res_bind_eq_Inr split: if_splits)
  show thesis
  proof (cases "ap_selfRemoved res")
    case True
    then show thesis using removed [OF a] p' False v by (auto split: if_splits)
  next
    case own: False
    obtain pathKeys commitSecret tree hash where u: "applyTreeUpdate (cm_path cm) (fc_sender (ac_content content)) (ap_tree res) cs
         (ownCommitPath state cm) (contextAfterProposals state res) (commitExcludeNodes res) = Inr (pathKeys, commitSecret, tree, hash)"
      using p' False v own by (auto simp: res_bind_eq_Inr split: if_splits)
    obtain tag where tag: "fa_content (ac_auth content) = AuthCommit tag"
      using p' False v own u by (cases "fa_content (ac_auth content)") (auto split: if_splits)
    show thesis
      using p' False v own u tag by (auto simp: res_bind_eq_Inr split: if_splits intro!: advanced [OF a own v u tag])
  qed
qed (rule rejected)

text \<open>Every commit a client processes keeps its tree good.\<close>

lemma processCommit_good:
  assumes p: "processCommit state content cm wireformat findPsk onMessage cs now = Inr r"
    and good: "goodTree (st_ratchetTree state)" and small: "length (st_ratchetTree (sa_newState r)) < 2 ^ 30"
  shows "goodTree (st_ratchetTree (sa_newState r))"
  using p
proof (cases rule: processCommit_cases)
  case (advanced res pathKeys commitSecret tree hash tag gc epochSecrets secretTree)
  have tree: "st_ratchetTree (sa_newState r) = tree" using advanced(9) by simp
  have "length (ap_tree res) < 2 ^ 30" using applyTreeUpdate_length [OF advanced(4)] small tree by simp
  note res = applyProposals_good [OF advanced(1) good this]
  show ?thesis using applyTreeUpdate_good [OF advanced(4) _ _ advanced(3)] res small tree by auto
qed (use good in \<open>auto simp: withoutPendingUpdateKeys_def\<close>)

end
