(* ===== verification/Joining.thy ===== *)
theory Joining imports Commits begin

text \<open>
  Creating and joining groups, \<^verbatim>\<open>src/client-state.ts\<close> and \<open>joinGroupExternal\<close> of
  \<^verbatim>\<open>src/create-commit.ts\<close>, with the validation of the ratchet tree a joiner receives.

  The tree argument is the tree passed out of band, used when the group information carries none.
  Wiping the init key after a join is not modelled.
\<close>

section \<open>Validating a received tree\<close>

text \<open>A loop that returns the first error.\<close>

fun firstError :: "('a \<Rightarrow> mls_error option result) \<Rightarrow> 'a list \<Rightarrow> mls_error option result" where
  "firstError check [] = Inr None"
| "firstError check (x # xs) = unlessError (check x) (firstError check xs)"

lemma firstError_None: "firstError check xs = Inr None \<longleftrightarrow> (\<forall>x \<in> set xs. check x = Inr None)"
  by (induction xs) auto

definition intermediateError :: "ratchetTree \<Rightarrow> int \<Rightarrow> int \<Rightarrow> mls_error option result" where
  "intermediateError tree unmergedLeaf parentIdx = Inr (case sparse_get tree parentIdx of
     None \<Rightarrow> None
   | Some (NodeLeaf _) \<Rightarrow> Some InternalError
   | Some (NodeParent p) \<Rightarrow> if unmergedLeaf \<in> set (pn_unmergedLeaves p) then None else Some ValidationError)"

definition unmergedLeafError :: "ratchetTree \<Rightarrow> int \<Rightarrow> int \<Rightarrow> mls_error option result" where
  "unmergedLeafError tree parentIndex unmergedLeaf =
     (let nodeIndex = leafToNodeIndex unmergedLeaf in
      res_bind (directPath nodeIndex (leafWidth (int (length tree)))) (\<lambda>dp.
        if (case sparse_get tree nodeIndex of Some (NodeLeaf _) \<Rightarrow> False | _ \<Rightarrow> True) \<or> parentIndex \<notin> set dp
        then Inr (Some ValidationError)
        else firstError (intermediateError tree unmergedLeaf) (takeWhile (\<lambda>i. i \<noteq> parentIndex) dp)))"

definition validateUnmergedLeaves :: "ratchetTree \<Rightarrow> mls_error option result" where
  "validateUnmergedLeaves tree = firstError (\<lambda>(parentIndex, n). case n of
     Some (NodeParent p) \<Rightarrow> firstError (unmergedLeafError tree (int parentIndex)) (pn_unmergedLeaves p)
   | _ \<Rightarrow> Inr None) (enumerate 0 tree)"

fun hasDuplicate_from :: "bytes list \<Rightarrow> bytes option list \<Rightarrow> bool" where
  "hasDuplicate_from seen [] \<longleftrightarrow> False"
| "hasDuplicate_from seen (None # rest) \<longleftrightarrow> hasDuplicate_from seen rest"
| "hasDuplicate_from seen (Some data # rest) \<longleftrightarrow> data \<in> set seen \<or> hasDuplicate_from (data # seen) rest"

definition hasDuplicateUint8Arrays :: "bytes option list \<Rightarrow> bool" where
  "hasDuplicateUint8Arrays byteArrays = hasDuplicate_from [] byteArrays"

definition treeIsStructurallySound :: "ratchetTree \<Rightarrow> bool" where
  "treeIsStructurallySound tree = list_all (\<lambda>(index, n). case n of
     None \<Rightarrow> True
   | Some (NodeLeaf _) \<Rightarrow> isLeaf (int index)
   | Some (NodeParent _) \<Rightarrow> \<not> isLeaf (int index)) (enumerate 0 tree)"

definition leafOfTreeError ::
    "ratchetTree \<Rightarrow> groupContext \<Rightarrow> lifetimeConfig \<Rightarrow> authenticationService \<Rightarrow> ('pub, 'priv, 'sk) ciphersuiteImpl \<Rightarrow> int \<Rightarrow>
     nat \<times> ratchetNode option \<Rightarrow> mls_error option result" where
  "leafOfTreeError tree groupContext config authService cs now = (\<lambda>(index, n). case n of
     Some (NodeLeaf leaf) \<Rightarrow> res_bind (nodeToLeafIndex (int index)) (\<lambda>leafIndex. case ln_info leaf of
         InfoKeyPackage _ \<Rightarrow> validateLeafNodeKeyPackage leaf groupContext tree False config authService (Some leafIndex)
           (cs_signature cs) (cs_hpke cs) now
       | _ \<Rightarrow> validateLeafNodeUpdateOrCommit leaf leafIndex groupContext tree authService (cs_signature cs) (cs_hpke cs)
           (credentialAtLeaf tree leafIndex))
   | _ \<Rightarrow> Inr None)"

definition validateRatchetTree ::
    "ratchetTree \<Rightarrow> groupContext \<Rightarrow> lifetimeConfig \<Rightarrow> authenticationService \<Rightarrow> bytes \<Rightarrow>
     ('pub, 'priv, 'sk) ciphersuiteImpl \<Rightarrow> int \<Rightarrow> mls_error option result" where
  "validateRatchetTree tree groupContext config authService expectedTreeHash cs now =
     (if \<not> treeIsStructurallySound tree then Inr (Some ValidationError)
      else res_bind (returned (verifyParentHashes h_digest tree (cs_hash cs) None)) (\<lambda>(parentHashesVerified, entry).
        if \<not> parentHashesVerified then Inr (Some CryptoVerificationError)
        else res_bind (treeHashRoot h_digest tree (cs_hash cs) entry) (\<lambda>(computedTreeHash, _).
        if \<not> constantTimeEqual expectedTreeHash computedTreeHash then Inr (Some ValidationError)
        else unlessError (validateUnmergedLeaves tree) (
        if hasDuplicateUint8Arrays (map (map_option getHpkePublicKey) tree) then Inr (Some ValidationError)
        else firstError (leafOfTreeError tree groupContext config authService cs now) (enumerate 0 tree)))))"

section \<open>Joining by a welcome\<close>

datatype expectedResumption = ExpectBranch | ExpectReinit

definition expectedUsage :: "expectedResumption \<Rightarrow> resumptionPSKUsageName" where
  "expectedUsage e = (case e of ExpectBranch \<Rightarrow> RU_branch | ExpectReinit \<Rightarrow> RU_reinit)"

record 'sk privateKeyPackage =
  pk_initPrivateKey :: bytes
  pk_hpkePrivateKey :: bytes
  pk_signaturePrivateKey :: 'sk

record 'sk joinGroupResult =
  jg_state :: "'sk clientState"
  jg_groupInfo :: groupInfo

definition ratchetTreeFromExtension :: "groupInfo \<Rightarrow> ratchetTree option result" where
  "ratchetTreeFromExtension info = (case findExtension ET_ratchet_tree (gi_extensions info) of
     None \<Rightarrow> Inr None
   | Some e \<Rightarrow> res_bind (decodeRatchetTree (extensionData e) 0) (\<lambda>tree. case tree of
         None \<Rightarrow> Inl CodecError | Some (t, _) \<Rightarrow> Inr (Some t)))"

definition deriveUpdatedPrivateKeyPath ::
    "ratchetTree \<Rightarrow> int \<Rightarrow> int \<Rightarrow> bytes option \<Rightarrow> privateKeyPath \<Rightarrow> ('pub, 'priv, 'sk) ciphersuiteImpl \<Rightarrow>
     privateKeyPath result" where
  "deriveUpdatedPrivateKeyPath tree committerLeafIndex ancestorNodeIndex pathSecret privateKeyPath cs =
     (case pathSecret of
        None \<Rightarrow> Inr privateKeyPath
      | Some s \<Rightarrow> deriveWelcomePrivateKeyPath tree committerLeafIndex ancestorNodeIndex s privateKeyPath cs)"

definition branchMembersMatch :: "ratchetTree \<Rightarrow> ratchetTree \<Rightarrow> keyPackageEqualityConfig \<Rightarrow> mls_error option" where
  "branchMembersMatch newTree oldTree equality =
     (let leaves = (\<lambda>tree. List.map_filter (\<lambda>n. case n of Some (NodeLeaf leaf) \<Rightarrow> Some leaf | _ \<Rightarrow> None) tree) in
      if list_all (\<lambda>leaf. list_ex (\<lambda>old. sameMemberLeafNodes equality leaf old) (leaves oldTree)) (leaves newTree)
      then None else Some ValidationError)"

definition requiresPriorState :: "preSharedKeyID \<Rightarrow> bool" where
  "requiresPriorState i = (case psk_info i of PskResumption usage _ _ \<Rightarrow> usage \<noteq> RU_application | _ \<Rightarrow> False)"

definition checkReinitResumption :: "groupActiveState \<Rightarrow> groupContext \<Rightarrow> unit result" where
  "checkReinitResumption active gc = (case active of
     SuspendedPendingReinit r \<Rightarrow>
       if \<not> constantTimeEqual (ri_groupId r) (gc_groupId gc) then Inl ValidationError
       else if ri_version r \<noteq> gc_version gc then Inl ValidationError
       else if ri_cipherSuite r \<noteq> gc_cipherSuite gc then Inl ValidationError
       else if \<not> extensionsEqual (ri_extensions r) (gc_extensions gc) then Inl ValidationError
       else Inr ()
   | _ \<Rightarrow> Inl ValidationError)"

text \<open>One resumption key of a welcome, which carries \<open>count\<close> of them.\<close>

definition checkResumption :: "'sk clientState option \<Rightarrow> groupContext \<Rightarrow> nat \<Rightarrow> preSharedKeyID \<Rightarrow> unit result" where
  "checkResumption resumingFromState gc count i = (case psk_info i of
     PskExternal _ \<Rightarrow> Inr ()
   | PskResumption usage groupId epoch \<Rightarrow> (case resumingFromState of
       None \<Rightarrow> Inl ValidationError
     | Some old \<Rightarrow>
         if epoch \<noteq> gc_epoch (st_groupContext old) then Inl ValidationError
         else if \<not> constantTimeEqual groupId (gc_groupId (st_groupContext old)) then Inl ValidationError
         else if gc_epoch gc \<noteq> 1 then Inl ValidationError
         else if usage = RU_reinit then checkReinitResumption (st_groupActiveState old) gc
         else if usage = RU_branch then
           (if gc_version gc \<noteq> gc_version (st_groupContext old) then Inl ValidationError
            else if gc_cipherSuite gc \<noteq> gc_cipherSuite (st_groupContext old) then Inl ValidationError
            else if count \<noteq> 1 then Inl ValidationError else Inr ())
         else Inr ()))"

definition checkExpectedResumption :: "expectedResumption option \<Rightarrow> preSharedKeyID list \<Rightarrow> unit result" where
  "checkExpectedResumption expected psks = (case expected of
     None \<Rightarrow> Inr ()
   | Some e \<Rightarrow> (case psks of
         [i] \<Rightarrow> (case psk_info i of
             PskResumption usage _ _ \<Rightarrow> if usage = expectedUsage e then Inr () else Inl ValidationError
           | _ \<Rightarrow> Inl ValidationError)
       | _ \<Rightarrow> Inl ValidationError))"

text \<open>The signer's leaf, its credential and its signature over the group information.\<close>

definition checkSigner ::
    "groupInfo \<Rightarrow> ratchetTree \<Rightarrow> authenticationService \<Rightarrow> ('pub, 'priv, 'sk) ciphersuiteImpl \<Rightarrow> unit result" where
  "checkSigner gi tree authService cs = (case sparse_get tree (leafToNodeIndex (gi_signer gi)) of
     Some (NodeLeaf leaf) \<Rightarrow>
       res_bind (authService (ln_credential leaf) (ln_signaturePublicKey leaf) None) (\<lambda>credentialVerified.
       if \<not> credentialVerified then Inl ValidationError
       else res_bind (verifyGroupInfoSignature gi (ln_signaturePublicKey leaf) (cs_signature cs)) (\<lambda>verified.
         if \<not> verified then Inl CryptoVerificationError else Inr ()))
   | _ \<Rightarrow> Inl ValidationError)"

definition missingPathSecret :: "ratchetTree \<Rightarrow> int \<Rightarrow> int \<Rightarrow> bytes option \<Rightarrow> bool" where
  "missingPathSecret tree ancestorNodeIndex newLeaf pathSecret \<longleftrightarrow> pathSecret = None \<and>
     (case sparse_get tree ancestorNodeIndex of
        Some (NodeParent p) \<Rightarrow> newLeaf \<notin> set (pn_unmergedLeaves p) | _ \<Rightarrow> False)"

definition joinGroupWithGroupInfo ::
    "welcomeMessage \<Rightarrow> keyPackage \<Rightarrow> 'sk privateKeyPackage \<Rightarrow> (preSharedKeyID \<Rightarrow> bytes option) \<Rightarrow>
     ('pub, 'priv, 'sk) ciphersuiteImpl \<Rightarrow> ratchetTree option \<Rightarrow> 'sk clientState option \<Rightarrow> clientConfig \<Rightarrow>
     expectedResumption option \<Rightarrow> int \<Rightarrow> 'sk joinGroupResult result" where
  "joinGroupWithGroupInfo welcome keyPackage privateKeys findPsk cs ratchetTree resumingFromState clientConfig expected now =
     (if expected \<noteq> None \<and> resumingFromState = None then Inl UsageError
      else
      res_bind (makeKeyPackageRef keyPackage (cs_hash cs)) (\<lambda>keyPackageRef.
      res_bind (hpke_importPrivateKey (cs_hpke cs) (pk_initPrivateKey privateKeys)) (\<lambda>privKey.
      res_bind (decryptGroupSecrets privKey keyPackageRef welcome (cs_hpke cs)) (\<lambda>decrypted.
      case decrypted of None \<Rightarrow> Inl CodecError | Some groupSecrets \<Rightarrow>
      res_bind (accumulatePskSecret (gs_psks groupSecrets) findPsk (cs_kdf cs) (replicate (kdf_size (cs_kdf cs)) 0))
        (\<lambda>(pskSecret, pskIds).
      res_bind (decryptGroupInfo welcome (gs_joinerSecret groupSecrets) pskSecret (cs_kdf cs) (cs_hpke cs)) (\<lambda>info.
      case info of None \<Rightarrow> Inl CodecError | Some gi \<Rightarrow>
      let resumptionPsks = filter requiresPriorState pskIds; gc = gi_groupContext gi;
          authService = cc_authService clientConfig in
      res_bind (checkExpectedResumption expected resumptionPsks) (\<lambda>_.
      res_bind (res_mapM (checkResumption resumingFromState gc (length resumptionPsks)) resumptionPsks) (\<lambda>_.
      if \<not> extensionsSupportedByCapabilities (gc_extensions gc) (cap_extensions (ln_capabilities (kp_leafNode keyPackage)))
      then Inl ValidationError
      else
      res_bind (validateExternalSenders (gc_extensions gc) authService) (\<lambda>err. res_bind (throwIfDefined err) (\<lambda>_.
      res_bind (ratchetTreeFromExtension gi) (\<lambda>fromExtension.
      case (case fromExtension of Some t \<Rightarrow> Some t | None \<Rightarrow> ratchetTree) of None \<Rightarrow> Inl UsageError | Some tree \<Rightarrow>
      res_bind (checkSigner gi tree authService cs) (\<lambda>_.
      if gc_cipherSuite gc \<noteq> kp_cipherSuite keyPackage then Inl ValidationError
      else if gc_version gc \<noteq> kp_version keyPackage then Inl ValidationError
      else
      res_bind (validateRatchetTree tree gc (cc_lifetimeConfig clientConfig) authService (gc_treeHash gc) cs now) (\<lambda>err.
      res_bind (throwIfDefined err) (\<lambda>_.
      res_bind (throwIfDefined (case resumingFromState of
          Some old \<Rightarrow> if list_ex (\<lambda>i. case psk_info i of PskResumption usage _ _ \<Rightarrow> usage = RU_branch | _ \<Rightarrow> False) resumptionPsks
            then branchMembersMatch tree (st_ratchetTree old) (cc_keyPackageEqualityConfig clientConfig) else None
        | None \<Rightarrow> None)) (\<lambda>_.
      res_bind (findLeafIndex tree (kp_leafNode keyPackage)) (\<lambda>found.
      case found of None \<Rightarrow> Inl ValidationError | Some newLeaf \<Rightarrow>
      let privateKeyPath = \<lparr>pkp_leafIndex = newLeaf,
            pkp_privateKeys = [(leafToNodeIndex newLeaf, pk_hpkePrivateKey privateKeys)]\<rparr> in
      res_bind (firstCommonAncestor tree newLeaf (gi_signer gi)) (\<lambda>ancestorNodeIndex.
      if missingPathSecret tree ancestorNodeIndex newLeaf (gs_pathSecret groupSecrets) then Inl ValidationError
      else
      res_bind (deriveUpdatedPrivateKeyPath tree (gi_signer gi) ancestorNodeIndex (gs_pathSecret groupSecrets)
        privateKeyPath cs) (\<lambda>updatedPkp.
      res_bind (deriveKeySchedule (gs_joinerSecret groupSecrets) pskSecret gc (cs_kdf cs)) (\<lambda>derived.
      res_bind (verifyGroupInfoConfirmationTag gi (gs_joinerSecret groupSecrets) pskSecret (cs_kdf cs) (cs_hash cs))
        (\<lambda>confirmationTagVerified.
      if \<not> confirmationTagVerified then Inl CryptoVerificationError
      else
      res_bind (createSecretTree (leafWidth (int (length tree))) (dk_encryptionSecret derived) (cs_kdf cs)) (\<lambda>secretTree.
        Inr \<lparr>jg_state = \<lparr>st_groupContext = gc, st_keySchedule = dk_keySchedule derived, st_secretTree = secretTree,
               st_ratchetTree = tree, st_privatePath = updatedPkp,
               st_signaturePrivateKey = pk_signaturePrivateKey privateKeys,
               st_unappliedProposals = emptyUnappliedProposals, st_pendingUpdateKeys = None,
               st_confirmationTag = gi_confirmationTag gi, st_historicalReceiverData = [],
               st_groupActiveState = Active, st_clientConfig = clientConfig\<rparr>,
             jg_groupInfo = gi\<rparr>)))))))))))))))))))))"

definition joinGroup ::
    "welcomeMessage \<Rightarrow> keyPackage \<Rightarrow> 'sk privateKeyPackage \<Rightarrow> (preSharedKeyID \<Rightarrow> bytes option) \<Rightarrow>
     ('pub, 'priv, 'sk) ciphersuiteImpl \<Rightarrow> ratchetTree option \<Rightarrow> 'sk clientState option \<Rightarrow> clientConfig \<Rightarrow>
     expectedResumption option \<Rightarrow> int \<Rightarrow> 'sk clientState result" where
  "joinGroup welcome keyPackage privateKeys findPsk cs ratchetTree resumingFromState clientConfig expected now =
     res_map jg_state (joinGroupWithGroupInfo welcome keyPackage privateKeys findPsk cs ratchetTree resumingFromState
       clientConfig expected now)"

section \<open>Creating a group\<close>

definition createGroup ::
    "bytes \<Rightarrow> keyPackage \<Rightarrow> 'sk privateKeyPackage \<Rightarrow> extension list \<Rightarrow> ('pub, 'priv, 'sk) ciphersuiteImpl \<Rightarrow> clientConfig \<Rightarrow>
     bytes \<Rightarrow> 'sk clientState result" where
  "createGroup groupId keyPackage privateKeyPackage exts cs clientConfig epochSecret =
     (let ratchetTree = [Some (NodeLeaf (kp_leafNode keyPackage))] in
      res_bind (treeHashOf cs ratchetTree) (\<lambda>treeHash.
      let groupContext = \<lparr>gc_version = PV_mls10, gc_cipherSuite = cs_name cs, gc_groupId = groupId, gc_epoch = 0,
            gc_treeHash = treeHash, gc_confirmedTranscriptHash = [], gc_extensions = exts\<rparr> in
      res_bind (validateExternalSenders exts (cc_authService clientConfig)) (\<lambda>err. res_bind (throwIfDefined err) (\<lambda>_.
      res_bind (deriveEpochKeys epochSecret (cs_kdf cs)) (\<lambda>derived.
      let confirmationTag = createConfirmationTag (ks_confirmationKey (dk_keySchedule derived)) [] (cs_hash cs) in
      res_bind (createSecretTree 1 (dk_encryptionSecret derived) (cs_kdf cs)) (\<lambda>secretTree.
        Inr \<lparr>st_groupContext = groupContext, st_keySchedule = dk_keySchedule derived, st_secretTree = secretTree,
          st_ratchetTree = ratchetTree,
          st_privatePath = \<lparr>pkp_leafIndex = 0, pkp_privateKeys = [(0, pk_hpkePrivateKey privateKeyPackage)]\<rparr>,
          st_signaturePrivateKey = pk_signaturePrivateKey privateKeyPackage,
          st_unappliedProposals = emptyUnappliedProposals, st_pendingUpdateKeys = None,
          st_confirmationTag = confirmationTag, st_historicalReceiverData = [], st_groupActiveState = Active,
          st_clientConfig = clientConfig\<rparr>))))))"

section \<open>Joining by an external commit\<close>

text \<open>The position of the joiner's prior leaf, for a resync.\<close>

definition formerLeafIndex :: "keyPackageEqualityConfig \<Rightarrow> ratchetTree \<Rightarrow> keyPackage \<Rightarrow> int result" where
  "formerLeafIndex config tree keyPackage = (case find (\<lambda>(_, n). case n of
       Some (NodeLeaf leaf) \<Rightarrow> eq_compareKeyPackageToLeafNode config keyPackage leaf | _ \<Rightarrow> False) (enumerate 0 tree) of
     None \<Rightarrow> Inl ValidationError | Some (index, _) \<Rightarrow> nodeToLeafIndex (int index))"

definition joinGroupExternal ::
    "groupInfo \<Rightarrow> keyPackage \<Rightarrow> 'sk privateKeyPackage \<Rightarrow> bool \<Rightarrow> ('pub, 'priv, 'sk) ciphersuiteImpl \<Rightarrow> ratchetTree option \<Rightarrow>
     clientConfig \<Rightarrow> bytes \<Rightarrow> bytes \<Rightarrow> int \<Rightarrow> (publicMessage \<times> 'sk clientState) result" where
  "joinGroupExternal groupInfo keyPackage privateKeys resync cs treeArg clientConfig authenticatedData secret now =
     (let gc = gi_groupContext groupInfo; authService = cc_authService clientConfig in
      case findExtension ET_external_pub (gi_extensions groupInfo) of None \<Rightarrow> Inl UsageError | Some externalPub \<Rightarrow>
      if \<not> extensionsSupportedByCapabilities (gc_extensions gc) (cap_extensions (ln_capabilities (kp_leafNode keyPackage)))
      then Inl UsageError
      else
      res_bind (validateExternalSenders (gc_extensions gc) authService) (\<lambda>err. res_bind (throwIfDefined err) (\<lambda>_.
      res_bind (decodeExternalPub (extensionData externalPub)) (\<lambda>externalPubKey.
      res_bind (validateHpkePublicKey externalPubKey gc (cs_hpke cs)) (\<lambda>err. res_bind (throwIfDefined err) (\<lambda>_.
      res_bind (exportSecret externalPubKey cs) (\<lambda>(enc, initSecret).
      res_bind (ratchetTreeFromExtension groupInfo) (\<lambda>fromExtension.
      case (case fromExtension of Some t \<Rightarrow> Some t | None \<Rightarrow> treeArg) of None \<Rightarrow> Inl UsageError | Some ratchetTree \<Rightarrow>
      res_bind (validateRatchetTree ratchetTree gc (cc_lifetimeConfig clientConfig) authService (gc_treeHash gc) cs now)
        (\<lambda>err. res_bind (throwIfDefined err) (\<lambda>_.
      res_bind (getSignaturePublicKeyFromLeafIndex ratchetTree (gi_signer groupInfo)) (\<lambda>signaturePublicKey.
      res_bind (getCredentialFromLeafIndex ratchetTree (gi_signer groupInfo)) (\<lambda>signerCredential.
      res_bind (authService signerCredential signaturePublicKey None) (\<lambda>credentialVerified.
      if \<not> credentialVerified then Inl ValidationError
      else
      res_bind (verifyGroupInfoSignature groupInfo signaturePublicKey (cs_signature cs)) (\<lambda>groupInfoSignatureVerified.
      if \<not> groupInfoSignatureVerified then Inl CryptoVerificationError
      else
      res_bind (if resync then res_map Some (formerLeafIndex (cc_keyPackageEqualityConfig clientConfig) ratchetTree keyPackage)
        else Inr None) (\<lambda>former.
      res_bind (case former of Some i \<Rightarrow> removeLeafNode ratchetTree i | None \<Rightarrow> Inr ratchetTree) (\<lambda>updatedTree.
      res_bind (addLeafNode updatedTree (kp_leafNode keyPackage)) (\<lambda>(treeWithNewLeafNode, newLeafNodeIndex).
      res_bind (nodeToLeafIndex newLeafNodeIndex) (\<lambda>newLeafIndex.
      res_bind (createPath treeWithNewLeafNode newLeafIndex gc (pk_signaturePrivateKey privateKeys) cs [] noPatch secret) (\<lambda>cp.
      res_bind (toPrivateKeyPath (pathToPathSecrets (cp_pathSecrets cp)) newLeafIndex cs None) (\<lambda>fromPath.
      let privateKeyPath = updateLeafKey fromPath (hpke_exportPrivateKey (cs_hpke cs) (cp_privateKey cp)) in
      res_bind (commitSecretOf (cp_pathSecrets cp) (cs_kdf cs)) (\<lambda>commitSecret.
      let ps = (case former of Some i \<Rightarrow> [ProposalRemove i] | None \<Rightarrow> []) @ [ProposalExternalInit enc] in
      res_bind (createContentCommitSignature gc WF_public_message
        \<lparr>cm_proposals = map InlineProposal ps, cm_path = Some (cp_updatePath cp)\<rparr> SenderNewMemberCommit authenticatedData
        (pk_signaturePrivateKey privateKeys) (cs_signature cs)) (\<lambda>(framedContent, signature).
      res_bind (nextEpochContext gc WF_public_message framedContent signature (cp_treeHash cp) (gi_confirmationTag groupInfo)
        (cs_hash cs)) (\<lambda>groupContext.
      res_bind (initializeEpoch initSecret commitSecret groupContext (replicate (kdf_size (cs_kdf cs)) 0) (cs_kdf cs))
        (\<lambda>epochSecrets.
      let confirmationTag = createConfirmationTag (ks_confirmationKey (dk_keySchedule epochSecrets))
            (gc_confirmedTranscriptHash groupContext) (cs_hash cs) in
      res_bind (createSecretTree (leafWidth (int (length (cp_tree cp)))) (dk_encryptionSecret epochSecrets) (cs_kdf cs))
        (\<lambda>secretTree.
      let state = \<lparr>st_groupContext = groupContext, st_keySchedule = dk_keySchedule epochSecrets, st_secretTree = secretTree,
            st_ratchetTree = cp_tree cp, st_privatePath = privateKeyPath,
            st_signaturePrivateKey = pk_signaturePrivateKey privateKeys, st_unappliedProposals = emptyUnappliedProposals,
            st_pendingUpdateKeys = None, st_confirmationTag = confirmationTag, st_historicalReceiverData = [],
            st_groupActiveState = Active, st_clientConfig = clientConfig\<rparr> in
      res_map (\<lambda>msg. (msg, state))
        (protectPublicMessage (ks_membershipKey (dk_keySchedule epochSecrets)) groupContext
          \<lparr>ac_wireformat = WF_public_message, ac_content = framedContent,
           ac_auth = \<lparr>fa_signature = signature, fa_content = AuthCommit confirmationTag\<rparr>\<rparr> cs))))))))))))))))))))))))))"

end
