(* ===== verification/MessageCreation.thy ===== *)
theory MessageCreation imports Processing Joining begin

text \<open>
  What a client sends: \<^verbatim>\<open>src/create-message.ts\<close>, \<^verbatim>\<open>src/external-proposal.ts\<close>,
  \<^verbatim>\<open>src/resumption.ts\<close> and \<open>generateKeyPackage\<close> of \<^verbatim>\<open>src/key-package.ts\<close>; the members of a group,
  \<^verbatim>\<open>src/group-members.ts\<close>.  Generated key pairs and nonces are arguments, and so is the provider
  that turns a ciphersuite into its implementation.
\<close>

section \<open>Proposals and application data\<close>

definition withUnapplied :: "'sk clientState \<Rightarrow> bytes \<Rightarrow> proposal \<Rightarrow> 'sk clientState" where
  "withUnapplied state ref p = state\<lparr>st_unappliedProposals := addUnappliedProposal ref (st_unappliedProposals state) p
     (Some (pkp_leafIndex (st_privatePath state))) ST_member\<rparr>"

definition sendProposal ::
    "'sk clientState \<Rightarrow> bool \<Rightarrow> proposal \<Rightarrow> ('pub, 'priv, 'sk) ciphersuiteImpl \<Rightarrow> bytes \<Rightarrow> bytes \<Rightarrow> int \<Rightarrow>
     ('sk clientState \<times> mLSMessage \<times> bytes) result" where
  "sendProposal state isPublicMessage p cs authenticatedData guard now =
     (let own = pkp_leafIndex (st_privatePath state) in
      res_bind (checkCanSendHandshakeMessages state) (\<lambda>_.
      res_bind (throwIfDefined (checkPendingCapacity (st_unappliedProposals state)
        (cc_maxPendingProposals (st_clientConfig state)))) (\<lambda>_.
      res_bind (validateProposalOnReceipt state p (Some own) True cs now) (\<lambda>err. res_bind (throwIfDefined err) (\<lambda>_.
      if isPublicMessage then
        res_bind (protectProposalPublic (st_signaturePrivateKey state) (ks_membershipKey (st_keySchedule state))
          (st_groupContext state) authenticatedData p own cs) (\<lambda>msg.
        res_map (\<lambda>ref. (withUnapplied state ref p, \<lparr>mm_version = PV_mls10, mm_content = MlsPublicMessage msg\<rparr>, ref))
          (makeProposalRef \<lparr>ac_wireformat = WF_public_message, ac_content = pub_content msg, ac_auth = pub_auth msg\<rparr>
            (cs_hash cs)))
      else
        res_map (\<lambda>(msg, newSecretTree, ref). ((withUnapplied state ref p)\<lparr>st_secretTree := newSecretTree\<rparr>,
            \<lparr>mm_version = PV_mls10, mm_content = MlsPrivateMessage msg\<rparr>, ref))
          (protectProposal (st_signaturePrivateKey state) (ks_senderDataSecret (st_keySchedule state)) p authenticatedData
            (st_groupContext state) (st_secretTree state) own (cc_paddingConfig (st_clientConfig state)) cs guard))))))"

definition createProposal ::
    "'sk clientState \<Rightarrow> bool \<Rightarrow> proposal \<Rightarrow> ('pub, 'priv, 'sk) ciphersuiteImpl \<Rightarrow> bytes \<Rightarrow> bytes \<Rightarrow> int \<Rightarrow>
     ('sk clientState \<times> mLSMessage) result" where
  "createProposal state isPublicMessage p cs authenticatedData guard now =
     res_map (\<lambda>(newState, msg, _). (newState, msg)) (sendProposal state isPublicMessage p cs authenticatedData guard now)"

definition createUpdateProposal ::
    "'sk clientState \<Rightarrow> bool \<Rightarrow> ('pub, 'priv, 'sk) ciphersuiteImpl \<Rightarrow> bytes \<Rightarrow> 'sk resolvedLeafNodePatch \<Rightarrow> 'priv \<times> 'pub \<Rightarrow>
     bytes \<Rightarrow> int \<Rightarrow> ('sk clientState \<times> mLSMessage) result" where
  "createUpdateProposal state isPublicMessage cs authenticatedData patch keyPair guard now =
     res_bind (checkCanSendHandshakeMessages state) (\<lambda>_.
     let leafIndex = pkp_leafIndex (st_privatePath state) in
     case sparse_get (st_ratchetTree state) (leafToNodeIndex leafIndex) of
       Some (NodeLeaf leaf) \<Rightarrow>
         res_bind (signLeafNodeUpdate
           \<lparr>ln_hpkePublicKey = hpke_exportPublicKey (cs_hpke cs) (snd keyPair),
            ln_signaturePublicKey = (case lp_signature patch of None \<Rightarrow> ln_signaturePublicKey leaf | Some (pk, _) \<Rightarrow> pk),
            ln_credential = (case lp_credential patch of None \<Rightarrow> ln_credential leaf | Some c \<Rightarrow> c),
            ln_capabilities = (case lp_capabilities patch of None \<Rightarrow> ln_capabilities leaf | Some c \<Rightarrow> c),
            tbs_info = InfoUpdate,
            tbs_extensions = (case lp_extensions patch of None \<Rightarrow> ln_extensions leaf | Some e \<Rightarrow> e),
            tbs_groupInfo = GroupIdLeafIndex (gc_groupId (st_groupContext state)) leafIndex\<rparr>
           (case lp_signature patch of None \<Rightarrow> st_signaturePrivateKey state | Some (_, sk) \<Rightarrow> sk) (cs_signature cs)) (\<lambda>leafNode.
         res_map (\<lambda>(newState, msg, ref). (newState\<lparr>st_pendingUpdateKeys := Some (addPendingUpdateKey ref
               (st_pendingUpdateKeys state)
               \<lparr>puk_hpkePrivateKey = hpke_exportPrivateKey (cs_hpke cs) (fst keyPair),
                puk_signaturePrivateKey = map_option snd (lp_signature patch)\<rparr>)\<rparr>, msg))
           (sendProposal state isPublicMessage (ProposalUpdate leafNode) cs authenticatedData guard now))
     | _ \<Rightarrow> Inl InternalError)"

definition createApplicationMessage ::
    "'sk clientState \<Rightarrow> bytes \<Rightarrow> ('pub, 'priv, 'sk) ciphersuiteImpl \<Rightarrow> bytes \<Rightarrow> bytes \<Rightarrow>
     ('sk clientState \<times> privateMessage) result" where
  "createApplicationMessage state message cs authenticatedData guard =
     res_bind (checkCanSendApplicationMessages state) (\<lambda>_.
     res_map (\<lambda>(msg, newSecretTree). (state\<lparr>st_secretTree := newSecretTree\<rparr>, msg))
       (protectApplicationData (st_signaturePrivateKey state) (ks_senderDataSecret (st_keySchedule state)) message
         authenticatedData (st_groupContext state) (st_secretTree state) (pkp_leafIndex (st_privatePath state))
         (cc_paddingConfig (st_clientConfig state)) cs guard))"

section \<open>Proposals from outside\<close>

definition proposeAddExternal ::
    "groupInfo \<Rightarrow> keyPackage \<Rightarrow> 'sk privateKeyPackage \<Rightarrow> ('pub, 'priv, 'sk) ciphersuiteImpl \<Rightarrow> bytes \<Rightarrow> mLSMessage result" where
  "proposeAddExternal groupInfo keyPackage privateKeys cs authenticatedData =
     (let gc = gi_groupContext groupInfo in
      if \<not> extensionsSupportedByCapabilities (gc_extensions gc) (cap_extensions (ln_capabilities (kp_leafNode keyPackage)))
      then Inl UsageError
      else res_map (\<lambda>msg. \<lparr>mm_version = gc_version gc, mm_content = MlsPublicMessage msg\<rparr>)
        (protectExternalProposalPublic (pk_signaturePrivateKey privateKeys) gc authenticatedData (ProposalAdd keyPackage)
          SenderNewMemberProposal cs))"

definition permittedForExternalSenders :: "proposal \<Rightarrow> bool" where
  "permittedForExternalSenders p = (case p of
     ProposalAdd _ \<Rightarrow> True | ProposalRemove _ \<Rightarrow> True | ProposalPSK _ \<Rightarrow> True | ProposalReinit _ \<Rightarrow> True
   | ProposalGroupContextExtensions _ \<Rightarrow> True | _ \<Rightarrow> False)"

definition proposeExternal ::
    "groupInfo \<Rightarrow> proposal \<Rightarrow> bytes \<Rightarrow> 'sk \<Rightarrow> ('pub, 'priv, 'sk) ciphersuiteImpl \<Rightarrow> bytes \<Rightarrow> mLSMessage result" where
  "proposeExternal groupInfo p signaturePublicKey signaturePrivateKey cs authenticatedData =
     (let gc = gi_groupContext groupInfo in
      if \<not> permittedForExternalSenders p then Inl UsageError
      else case findExtension ET_external_senders (gc_extensions gc) of None \<Rightarrow> Inl ValidationError | Some e \<Rightarrow>
      case decodeExternalSenders (extensionData e) 0 of
        Inr (Some (senders, _)) \<Rightarrow>
          (case find (\<lambda>(_, s). constantTimeEqual (es_signaturePublicKey s) signaturePublicKey) (enumerate 0 senders) of
             None \<Rightarrow> Inl ValidationError
           | Some (i, _) \<Rightarrow> res_map (\<lambda>msg. \<lparr>mm_version = gc_version gc, mm_content = MlsPublicMessage msg\<rparr>)
               (protectExternalProposalPublic signaturePrivateKey gc authenticatedData p (SenderExternal (int i)) cs))
      | _ \<Rightarrow> Inl ValidationError)"

section \<open>Key packages\<close>

text \<open>The three generated key pairs: signature, init and leaf.\<close>

definition generateKeyPackage ::
    "credential \<Rightarrow> capabilities \<Rightarrow> lifetime \<Rightarrow> extension list \<Rightarrow> ('pub, 'priv, 'sk) ciphersuiteImpl \<Rightarrow> extension list \<Rightarrow>
     bytes \<times> 'sk \<Rightarrow> 'priv \<times> 'pub \<Rightarrow> 'priv \<times> 'pub \<Rightarrow> (keyPackage \<times> 'sk privateKeyPackage) result" where
  "generateKeyPackage credential capabilities lifetime exts cs leafExtensions signatureKeys initKeys hpkeKeys =
     (let (signaturePublicKey, signKey) = signatureKeys;
          privatePackage = \<lparr>pk_initPrivateKey = hpke_exportPrivateKey (cs_hpke cs) (fst initKeys),
            pk_hpkePrivateKey = hpke_exportPrivateKey (cs_hpke cs) (fst hpkeKeys), pk_signaturePrivateKey = signKey\<rparr>;
          leafNodeTbs = \<lparr>ln_hpkePublicKey = hpke_exportPublicKey (cs_hpke cs) (snd hpkeKeys),
            ln_signaturePublicKey = signaturePublicKey, ln_credential = credential, ln_capabilities = capabilities,
            tbs_info = InfoKeyPackage lifetime, tbs_extensions = leafExtensions, tbs_groupInfo = GroupInfoKeyPackage\<rparr>
      in res_bind (signLeafNodeKeyPackage leafNodeTbs signKey (cs_signature cs)) (\<lambda>leafNode.
         res_map (\<lambda>publicPackage. (publicPackage, privatePackage))
           (signKeyPackage \<lparr>kp_version = PV_mls10, kp_cipherSuite = cs_name cs,
              kp_initKey = hpke_exportPublicKey (cs_hpke cs) (snd initKeys), kp_leafNode = leafNode,
              kp_extensions = exts\<rparr> signKey (cs_signature cs))))"

section \<open>Resumption\<close>

definition commitOptions :: "bool \<Rightarrow> bool \<Rightarrow> proposal list \<Rightarrow> 'sk createCommitOptions" where
  "commitOptions wireAsPublicMessage ratchetTreeExtension extraProposals =
     \<lparr>co_wireAsPublicMessage = wireAsPublicMessage, co_extraProposals = extraProposals,
      co_ratchetTreeExtension = ratchetTreeExtension, co_groupInfoExtensions = [], co_authenticatedData = [],
      co_leafNodePatch = None\<rparr>"

definition reinitGroup ::
    "'sk clientState \<Rightarrow> bytes \<Rightarrow> protocolVersionName \<Rightarrow> ciphersuiteName \<Rightarrow> extension list \<Rightarrow>
     ('pub, 'priv, 'sk) ciphersuiteImpl \<Rightarrow> bytes \<Rightarrow> bytes \<Rightarrow> int \<Rightarrow> 'sk createCommitResult result" where
  "reinitGroup state groupId version cipherSuite exts cs secret guard now =
     createCommit state (makePskIndex (Some state) []) cs
       (commitOptions False False [ProposalReinit \<lparr>ri_groupId = groupId, ri_version = version,
          ri_cipherSuite = cipherSuite, ri_extensions = exts\<rparr>]) secret guard now"

definition makeResumptionPsk :: "'sk clientState \<Rightarrow> resumptionPSKUsageName \<Rightarrow> bytes \<Rightarrow> preSharedKeyID \<times> bytes" where
  "makeResumptionPsk state usage pskNonce =
     (\<lparr>psk_info = PskResumption usage (gc_groupId (st_groupContext state)) (gc_epoch (st_groupContext state)),
       psk_nonce = pskNonce\<rparr>, ks_resumptionPsk (st_keySchedule state))"

definition reinitCreateNewGroup ::
    "'sk clientState \<Rightarrow> keyPackage \<Rightarrow> 'sk privateKeyPackage \<Rightarrow> keyPackage list \<Rightarrow> bytes \<Rightarrow> ciphersuiteName \<Rightarrow> extension list \<Rightarrow>
     (ciphersuite \<Rightarrow> ('pub, 'priv, 'sk) ciphersuiteImpl result) \<Rightarrow> bool \<Rightarrow> bool \<Rightarrow> bytes \<Rightarrow> bytes \<Rightarrow> bytes \<Rightarrow> bytes \<Rightarrow> int \<Rightarrow>
     'sk createCommitResult result" where
  "reinitCreateNewGroup state keyPackage privateKeyPackage memberKeyPackages groupId cipherSuite exts provider
      ratchetTreeExtension wireAsPublicMessage epochSecret pskNonce secret guard now =
     res_bind (getCiphersuiteFromName cipherSuite) (\<lambda>suite. res_bind (provider suite) (\<lambda>cs.
     res_bind (createGroup groupId keyPackage privateKeyPackage exts cs (st_clientConfig state) epochSecret) (\<lambda>newGroup.
     let psk = makeResumptionPsk state RU_reinit pskNonce in
     createCommit newGroup (makePskIndex (Some state) []) cs
       (commitOptions wireAsPublicMessage ratchetTreeExtension
         (map ProposalAdd memberKeyPackages @ [ProposalPSK (fst psk)])) secret guard now)))"

definition branchGroup ::
    "'sk clientState \<Rightarrow> keyPackage \<Rightarrow> 'sk privateKeyPackage \<Rightarrow> keyPackage list \<Rightarrow> bytes \<Rightarrow>
     ('pub, 'priv, 'sk) ciphersuiteImpl \<Rightarrow> bool \<Rightarrow> bool \<Rightarrow> bytes \<Rightarrow> bytes \<Rightarrow> bytes \<Rightarrow> bytes \<Rightarrow> int \<Rightarrow>
     'sk createCommitResult result" where
  "branchGroup state keyPackage privateKeyPackage memberKeyPackages newGroupId cs
      ratchetTreeExtension wireAsPublicMessage epochSecret pskNonce secret guard now =
     (let psk = makeResumptionPsk state RU_branch pskNonce in
      res_bind (createGroup newGroupId keyPackage privateKeyPackage (gc_extensions (st_groupContext state)) cs
        (st_clientConfig state) epochSecret) (\<lambda>newGroup.
      createCommit newGroup (makePskIndex (Some state) []) cs
        (commitOptions wireAsPublicMessage ratchetTreeExtension
          (map ProposalAdd memberKeyPackages @ [ProposalPSK (fst psk)])) secret guard now))"

definition joinGroupFromBranch ::
    "'sk clientState \<Rightarrow> welcomeMessage \<Rightarrow> keyPackage \<Rightarrow> 'sk privateKeyPackage \<Rightarrow> ratchetTree option \<Rightarrow>
     ('pub, 'priv, 'sk) ciphersuiteImpl \<Rightarrow> int \<Rightarrow> 'sk clientState result" where
  "joinGroupFromBranch oldState welcome keyPackage privateKeys ratchetTree cs now =
     joinGroup welcome keyPackage privateKeys (makePskIndex (Some oldState) []) cs ratchetTree (Some oldState)
       (st_clientConfig oldState) (Some ExpectBranch) now"

definition joinGroupFromReinit ::
    "'sk clientState \<Rightarrow> welcomeMessage \<Rightarrow> keyPackage \<Rightarrow> 'sk privateKeyPackage \<Rightarrow> ratchetTree option \<Rightarrow>
     (ciphersuite \<Rightarrow> ('pub, 'priv, 'sk) ciphersuiteImpl result) \<Rightarrow> int \<Rightarrow> 'sk clientState result" where
  "joinGroupFromReinit suspendedState welcome keyPackage privateKeys ratchetTree provider now =
     (case st_groupActiveState suspendedState of
        SuspendedPendingReinit r \<Rightarrow>
          res_bind (getCiphersuiteFromName (ri_cipherSuite r)) (\<lambda>suite. res_bind (provider suite) (\<lambda>cs.
          joinGroup welcome keyPackage privateKeys (makePskIndex (Some suspendedState) []) cs ratchetTree
            (Some suspendedState) (st_clientConfig suspendedState) (Some ExpectReinit) now))
      | _ \<Rightarrow> Inl UsageError)"

section \<open>The members of a group\<close>

definition getGroupMembers :: "'sk clientState \<Rightarrow> (int \<times> leafNode) list result" where
  "getGroupMembers state = (let tree = st_ratchetTree state in
     res_map (List.map_filter id) (res_mapM (\<lambda>i. case sparse_get tree (leafToNodeIndex (int i)) of
         None \<Rightarrow> Inr None
       | Some (NodeParent _) \<Rightarrow> Inl InternalError
       | Some (NodeLeaf leaf) \<Rightarrow> Inr (Some (int i, leaf))) [0..<nat (leafWidth (int (length tree)))]))"

definition getOwnLeafNode :: "'sk clientState \<Rightarrow> leafNode result" where
  "getOwnLeafNode state =
     (case sparse_get (st_ratchetTree state) (leafToNodeIndex (pkp_leafIndex (st_privatePath state))) of
        None \<Rightarrow> Inl UsageError
      | Some (NodeParent _) \<Rightarrow> Inl InternalError
      | Some (NodeLeaf leaf) \<Rightarrow> Inr leaf)"

end
