(* ===== verification/CommitAgreement.thy ===== *)
theory CommitAgreement imports CommitTree MessageCreation begin

text \<open>
  A member that follows the group accepts the commit another member creates, and both enter the new
  epoch with the same tree, context and keys: \<open>createCommit\<close> of \<^verbatim>\<open>src/create-commit.ts\<close> against
  \<open>processCommit\<close> of \<^verbatim>\<open>src/process-messages.ts\<close>.
\<close>

section \<open>A member the proposals do not touch keeps its keys\<close>

lemma nodeAt_odd: "0 < k \<Longrightarrow> odd (nodeAt k m)"
  by (cases k) (simp_all add: nodeAt_def)

lemma wfTree_leafAt: "wfTree d t \<Longrightarrow> sparse_get t (2 * l) = map_option NodeLeaf (leafAt t l)"
  using wfTree_leaf [of d t l] by (cases "sparse_get t (2 * l)") (auto simp: leafAt_alt)

lemma memberKeys_untouched:
  assumes wf: "wfTree d t" "wfTree e t'" and kept: "parentsKept t t'" and leaf: "leafAt t' r = leafAt t r"
    and mk: "memberKeys hpke t r path"
  shows "memberKeys hpke t' r path"
proof -
  have own: "sparse_get t' (2 * r) = sparse_get t (2 * r)" using wfTree_leafAt [OF wf(1)] wfTree_leafAt [OF wf(2)] leaf by simp
  have m: "pkp_leafIndex path = r" "keysMatch hpke t path"
      "\<And>i. heldKey path i \<noteq> None \<Longrightarrow> \<exists>j. i = ancestorAt r 0 j"
      "\<And>i. sparse_get t i \<noteq> None \<Longrightarrow> reaches t i r \<Longrightarrow> heldKey path i \<noteq> None"
    using mk by (auto simp: memberKeys_def)
  have key: "\<exists>n. sparse_get t i = Some n \<and> getHpkePublicKey n = getHpkePublicKey n'"
    if held: "heldKey path i = Some k" and here: "sparse_get t' i = Some n'" for i k n'
  proof -
    have "heldKey path i \<noteq> None" using held by simp
    from m(3) [OF this] obtain j where j: "i = ancestorAt r 0 j" by blast
    show ?thesis
    proof (cases "j = 0")
      case True
      then show ?thesis using j own here by (simp add: ancestorAt_leaf)
    next
      case False
      then have "odd i" using nodeAt_odd j by (simp add: ancestorAt_def)
      then obtain n where "sparse_get t i = Some n" "keptNode n n'" using kept here unfolding parentsKept_def by blast
      then show ?thesis by (auto simp: keptNode_def nodeKeys_def)
    qed
  qed
  have "keysMatch hpke t' path" unfolding keysMatch_def
  proof (intro allI impI)
    fix i k n' assume k: "heldKey path i = Some k" and n': "sparse_get t' i = Some n'"
    obtain n where "sparse_get t i = Some n" "getHpkePublicKey n = getHpkePublicKey n'" using key [OF k n'] by blast
    then show "keyOpens hpke k (getHpkePublicKey n')" using m(2) k unfolding keysMatch_def by metis
  qed
  moreover have "heldKey path i \<noteq> None" if i: "sparse_get t' i \<noteq> None" "reaches t' i r" for i
  proof (cases "i = 2 * r")
    case True
    then show ?thesis using m(4) i(1) own by (simp add: reaches_def)
  next
    case False
    then obtain j p' where j: "0 < j" "i = nodeAt j (r div 2 ^ j)" "sparse_get t' i = Some (NodeParent p')" "r \<notin> set (pn_unmergedLeaves p')"
      using i(2) by (auto simp: reaches_def)
    then obtain n where n: "sparse_get t i = Some n" "keptNode n (NodeParent p')"
      using kept nodeAt_odd [OF j(1)] unfolding parentsKept_def by blast
    then obtain p where "n = NodeParent p" "set (pn_unmergedLeaves p) \<subseteq> set (pn_unmergedLeaves p')"
      by (cases n) (auto simp: keptNode_def nodeKeys_def signatureKeyOf_def unmergedOf_def)
    then have "reaches t i r" using n(1) j by (auto simp: reaches_def)
    then show ?thesis using m(4) n(1) by simp
  qed
  ultimately show ?thesis using m(1,3) by (simp add: memberKeys_def)
qed

lemma memberKeys_prune: "memberKeys hpke t r path \<Longrightarrow> memberKeys hpke t r (pruneBlankedNodes path t)"
  by (auto simp: memberKeys_def keysMatch_def heldKey_prune split: if_splits)

lemma specPlaces_other: "finite (dom m) \<Longrightarrow> m r \<noteq> None \<Longrightarrow> r \<notin> fst ` set (specPlaces m adds)"
proof (induction adds arbitrary: m)
  case (Cons a adds)
  obtain s kp where a: "a = (s, kp)" by fastforce
  have "freeIndex m \<noteq> r" using freeIndex_free [OF finite_free [OF Cons.prems(1)]] Cons.prems(2) by auto
  moreover have "finite (dom (specAdd m a))" "specAdd m a r \<noteq> None"
    using Cons.prems calculation by (simp_all add: a specAdd_def del: fun_upd_apply) (simp add: fun_upd_apply)
  ultimately show ?case using Cons.IH [of "specAdd m a"] by (auto simp: a)
qed simp

section \<open>What the receiver makes of the proposals\<close>

text \<open>Two states of one epoch.\<close>

definition sameEpoch :: "'sk clientState \<Rightarrow> 'sk clientState \<Rightarrow> bool" where
  "sameEpoch a b \<longleftrightarrow> st_groupContext a = st_groupContext b \<and> st_keySchedule a = st_keySchedule b \<and>
     st_ratchetTree a = st_ratchetTree b \<and> st_unappliedProposals a = st_unappliedProposals b \<and>
     st_confirmationTag a = st_confirmationTag b \<and> st_clientConfig a = st_clientConfig b"

text \<open>The receiver's clock counts only where its configuration validates lifetimes on receipt.\<close>

definition clockAllows :: "lifetimeConfig \<Rightarrow> int \<Rightarrow> int \<Rightarrow> bool" where
  "clockAllows config now now' \<longleftrightarrow> \<not> lc_validateLifetimeOnReceive config \<or> now' = now"

lemma validateKeyPackage_received:
  assumes "clockAllows config now now'" "validateKeyPackage kp gc t True config authService s hpke now = Inr None"
  shows "validateKeyPackage kp gc t False config authService s hpke now' = Inr None"
  using assms unfolding validateKeyPackage_def validateLeafNodeKeyPackage_def clockAllows_def
  by (auto simp: res_bind_eq_Inr split: if_splits)

lemma res_foldM_mono:
  "(\<And>s x y. f s x = Inr y \<Longrightarrow> g s x = Inr y) \<Longrightarrow> res_foldM f s xs = Inr y \<Longrightarrow> res_foldM g s xs = Inr y"
  by (induction xs arbitrary: s) (auto simp: res_bind_eq_Inr)

lemma applyAddProposal_received:
  assumes "clockAllows config now now'" "applyAddProposal gc True authService config cs now s x = Inr y"
  shows "applyAddProposal gc False authService config cs now' s x = Inr y"
proof -
  obtain t ws i kp where sx: "s = (t, ws)" "x = (i, kp)" by fastforce
  then have "validateKeyPackage kp gc t True config authService (cs_signature cs) (cs_hpke cs) now = Inr None"
    using assms(2) by (auto simp: applyAddProposal_def res_bind_eq_Inr)
  from validateKeyPackage_received [OF assms(1) this] this show ?thesis
    using assms(2) by (simp add: sx applyAddProposal_def)
qed

lemma applyTreeMutations_received:
  assumes "clockAllows config now now'" "applyTreeMutations t grouped gc True authService config cs now = Inr r"
  shows "applyTreeMutations t grouped gc False authService config cs now' = Inr r"
proof -
  from assms(2) obtain t1 t2 where t: "res_foldM (applyUpdateProposal t gc authService cs) t (pr_update grouped) = Inr t1"
      "res_foldM (applyRemoveProposal t) t1 (pr_remove grouped) = Inr t2"
      "res_foldM (applyAddProposal gc True authService config cs now) (t2, []) (pr_add grouped) = Inr r"
    by (auto simp: applyTreeMutations_def res_bind_eq_Inr)
  show ?thesis using t(1,2) res_foldM_mono [OF applyAddProposal_received [OF assms(1)] t(3)]
    by (simp add: applyTreeMutations_def)
qed

text \<open>The receiver comes to the sender's result, except for its own view of being removed.\<close>

lemma applyProposals_received:
  assumes a: "applyProposals a ps (Some l) findPsk True cs None None now = Inr res"
    and same: "sameEpoch a b" "clockAllows (cc_lifetimeConfig (st_clientConfig a)) now now'"
    and member: "ap_additionalResult res = MemberCommit added ctx"
  shows "applyProposals b ps (Some l) findPsk False cs leaf (Some ST_member) now' =
      Inr (res\<lparr>ap_selfRemoved := (sparse_get (ap_tree res) (leafToNodeIndex (pkp_leafIndex (st_privatePath b))) = None)\<rparr>)"
proof -
  obtain all where all: "resolveProposals ps (Some l) ST_member (st_unappliedProposals a) = Inr all"
      "\<not> list_ex (unsupportedCustomProposal (cc_supportedCustomProposalTypes (st_clientConfig a))) all"
      "validateExternalInitSenderType ST_member (length (pr_external_init (groupProposals all))) = None"
    using a unfolding applyProposals_def by (auto simp: Let_def res_bind_eq_Inr split: if_splits)
  then have noExt: "pr_external_init (groupProposals all) = []"
    by (simp add: validateExternalInitSenderType_def split: if_splits)
  have m: "applyMemberProposals a all (groupProposals all) (Some l) findPsk True cs now = Inr res"
    using a all noExt unfolding applyProposals_def by (simp add: Let_def throwIfDefined_def)
  then have reinit: "pr_reinit (groupProposals all) = []"
    using member unfolding applyMemberProposals_def
    by (cases "pr_reinit (groupProposals all)") (auto simp: Let_def res_bind_eq_Inr)
  let ?ctx = "groupContextAfterExtensions (st_groupContext a) (groupProposals all)"
  obtain t added' where t: "applyTreeMutations (st_ratchetTree a) (groupProposals all) ?ctx True
      (cc_authService (st_clientConfig a)) (cc_lifetimeConfig (st_clientConfig a)) cs now = Inr (t, added')"
    using m reinit unfolding applyMemberProposals_def by (auto simp: Let_def res_bind_eq_Inr)
  note t' = applyTreeMutations_received [OF same(2) t]
  have "applyMemberProposals b all (groupProposals all) (Some l) findPsk False cs now' =
      Inr (res\<lparr>ap_selfRemoved := (sparse_get (ap_tree res) (leafToNodeIndex (pkp_leafIndex (st_privatePath b))) = None)\<rparr>)"
    using m reinit t t' same(1) unfolding applyMemberProposals_def sameEpoch_def by (auto simp: Let_def res_bind_eq_Inr)
  then show ?thesis using all noExt same(1) unfolding applyProposals_def sameEpoch_def by (simp add: Let_def throwIfDefined_def)
qed

section \<open>The committer's side\<close>

definition committerKey :: "'sk clientState \<Rightarrow> 'sk resolvedLeafNodePatch option \<Rightarrow> 'sk" where
  "committerKey state patch = (case patch of
     Some p \<Rightarrow> (case lp_signature p of Some (_, sk) \<Rightarrow> sk | None \<Rightarrow> st_signaturePrivateKey state)
   | None \<Rightarrow> st_signaturePrivateKey state)"

text \<open>The values a commit is made of, in the order the code computes them.\<close>

record 'priv commitParts =
  mk_refs :: "bytes list"
  mk_res :: applyProposalsResult
  mk_tree :: ratchetTree
  mk_path :: "updatePath option"
  mk_pathSecrets :: "pathSecret list"
  mk_newKey :: "'priv option"
  mk_pathHash :: "bytes option"
  mk_commitSecret :: bytes
  mk_content :: framedContent
  mk_signature :: bytes
  mk_treeHash :: bytes
  mk_context :: groupContext
  mk_secrets :: epochSecrets
  mk_privateKeys :: privateKeyPath
  mk_secretTree :: secretTree

definition commitWireformat :: "'sk createCommitOptions \<Rightarrow> wireformatName" where
  "commitWireformat options = (if co_wireAsPublicMessage options then WF_public_message else WF_private_message)"

definition commitOf :: "'sk createCommitOptions \<Rightarrow> 'priv commitParts \<Rightarrow> commit" where
  "commitOf options m = \<lparr>cm_proposals = bundleAllProposals (mk_refs m) (co_extraProposals options), cm_path = mk_path m\<rparr>"

definition commitTag :: "('pub, 'priv, 'sk) ciphersuiteImpl \<Rightarrow> 'priv commitParts \<Rightarrow> bytes" where
  "commitTag cs m = createConfirmationTag (ks_confirmationKey (dk_keySchedule (mk_secrets m)))
     (gc_confirmedTranscriptHash (mk_context m)) (cs_hash cs)"

definition commitAuth :: "('pub, 'priv, 'sk) ciphersuiteImpl \<Rightarrow> 'priv commitParts \<Rightarrow> framedContentAuthData" where
  "commitAuth cs m = \<lparr>fa_signature = mk_signature m, fa_content = AuthCommit (commitTag cs m)\<rparr>"

definition commitMade ::
    "'sk clientState \<Rightarrow> (preSharedKeyID \<Rightarrow> bytes option) \<Rightarrow> ('pub, 'priv, 'sk) ciphersuiteImpl \<Rightarrow> 'sk createCommitOptions \<Rightarrow>
     bytes \<Rightarrow> int \<Rightarrow> 'sk clientState \<Rightarrow> 'priv commitParts \<Rightarrow> bool" where
  "commitMade state findPsk cs options secret now newState m \<longleftrightarrow>
     applyProposals state (cm_proposals (commitOf options m)) (Some (pkp_leafIndex (st_privatePath state))) findPsk True cs
       None None now = Inr (mk_res m) \<and>
     (\<forall>s i c. ap_additionalResult (mk_res m) \<noteq> ExternalCommit s i c) \<and>
     commitPath state (mk_res m) (contextAfterProposals state (mk_res m)) cs (co_leafNodePatch options) secret =
       Inr (mk_tree m, mk_path m, mk_pathSecrets m, mk_newKey m, mk_pathHash m) \<and>
     commitSecretOf (mk_pathSecrets m) (cs_kdf cs) = Inr (mk_commitSecret m) \<and>
     createContentCommitSignature (st_groupContext state) (commitWireformat options) (commitOf options m)
       (SenderMember (pkp_leafIndex (st_privatePath state))) (co_authenticatedData options)
       (st_signaturePrivateKey state) (cs_signature cs) = Inr (mk_content m, mk_signature m) \<and>
     (case mk_pathHash m of Some h \<Rightarrow> Inr h | None \<Rightarrow> treeHashOf cs (mk_tree m)) = Inr (mk_treeHash m) \<and>
     nextEpochContext (contextAfterProposals state (mk_res m)) (commitWireformat options) (mk_content m) (mk_signature m)
       (mk_treeHash m) (st_confirmationTag state) (cs_hash cs) = Inr (mk_context m) \<and>
     initializeEpoch (ks_initSecret (st_keySchedule state)) (mk_commitSecret m) (mk_context m) (ap_pskSecret (mk_res m))
       (cs_kdf cs) = Inr (mk_secrets m) \<and>
     committerPrivatePath state (mk_newKey m) (mk_pathSecrets m) (mk_tree m) cs = Inr (mk_privateKeys m) \<and>
     createSecretTree (leafWidth (int (length (mk_tree m)))) (dk_encryptionSecret (mk_secrets m)) (cs_kdf cs) =
       Inr (mk_secretTree m) \<and>
     newState = \<lparr>st_groupContext = mk_context m, st_keySchedule = dk_keySchedule (mk_secrets m),
       st_secretTree = mk_secretTree m, st_ratchetTree = mk_tree m, st_privatePath = mk_privateKeys m,
       st_signaturePrivateKey = committerKey state (co_leafNodePatch options), st_unappliedProposals = emptyUnappliedProposals,
       st_pendingUpdateKeys = None, st_confirmationTag = commitTag cs m,
       st_historicalReceiverData = addHistoricalReceiverData state, st_groupActiveState = activeStateAfter (mk_res m),
       st_clientConfig = st_clientConfig state\<rparr>"

lemma createCommit_Inr:
  assumes c: "createCommit state findPsk cs options secret guard now = Inr cr"
  obtains m spent where "commitMade state findPsk cs options secret now (cr_newState cr) m"
    "checkCanSendHandshakeMessages state = Inr ()"
    "protectCommit (co_wireAsPublicMessage options) state (co_authenticatedData options) (mk_content m) (commitAuth cs m) cs guard =
      Inr (cr_commit cr, spent)"
proof -
  note c' = c [unfolded createCommit_def Let_def, folded committerKey_def commitWireformat_def]
  obtain refs res where a: "checkCanSendHandshakeMessages state = Inr ()"
      "filterPendingProposals state (co_extraProposals options) cs now = Inr refs"
      "applyProposals state (bundleAllProposals refs (co_extraProposals options))
       (Some (pkp_leafIndex (st_privatePath state))) findPsk True cs None None now = Inr res"
    using c' by (auto simp: res_bind_eq_Inr)
  note c1 = c' [unfolded a res_bind_Inr]
  have ne: "\<forall>s i c. ap_additionalResult res \<noteq> ExternalCommit s i c" using c1 by (auto split: if_splits)
  then have sel: "(case ap_additionalResult res of ExternalCommit _ _ _ \<Rightarrow> True | _ \<Rightarrow> False) = False"
    by (cases "ap_additionalResult res") auto
  note c2 = c1 [unfolded sel if_False]
  obtain tree path pathSecrets newKey pathHash where p: "commitPath state res (contextAfterProposals state res) cs
      (co_leafNodePatch options) secret = Inr (tree, path, pathSecrets, newKey, pathHash)"
    using c2 by (auto simp: res_bind_eq_Inr)
  note c3 = c2 [unfolded p res_bind_Inr prod.case]
  obtain commitSecret content signature treeHash gc epochSecrets spent privateKeys secretTree where f:
    "commitSecretOf pathSecrets (cs_kdf cs) = Inr commitSecret"
    "createContentCommitSignature (st_groupContext state) (commitWireformat options)
       \<lparr>cm_proposals = bundleAllProposals refs (co_extraProposals options), cm_path = path\<rparr>
       (SenderMember (pkp_leafIndex (st_privatePath state))) (co_authenticatedData options)
       (st_signaturePrivateKey state) (cs_signature cs) = Inr (content, signature)"
    "(case pathHash of Some h \<Rightarrow> Inr h | None \<Rightarrow> treeHashOf cs tree) = Inr treeHash"
    "nextEpochContext (contextAfterProposals state res) (commitWireformat options) content signature treeHash
       (st_confirmationTag state) (cs_hash cs) = Inr gc"
    "initializeEpoch (ks_initSecret (st_keySchedule state)) commitSecret gc (ap_pskSecret res) (cs_kdf cs) = Inr epochSecrets"
    "protectCommit (co_wireAsPublicMessage options) state (co_authenticatedData options) content
       \<lparr>fa_signature = signature, fa_content = AuthCommit (createConfirmationTag (ks_confirmationKey (dk_keySchedule epochSecrets))
          (gc_confirmedTranscriptHash gc) (cs_hash cs))\<rparr> cs guard = Inr (cr_commit cr, spent)"
    "committerPrivatePath state newKey pathSecrets tree cs = Inr privateKeys"
    "createSecretTree (leafWidth (int (length tree))) (dk_encryptionSecret epochSecrets) (cs_kdf cs) = Inr secretTree"
    "cr_newState cr = \<lparr>st_groupContext = gc, st_keySchedule = dk_keySchedule epochSecrets,
       st_secretTree = secretTree, st_ratchetTree = tree, st_privatePath = privateKeys,
       st_signaturePrivateKey = committerKey state (co_leafNodePatch options), st_unappliedProposals = emptyUnappliedProposals,
       st_pendingUpdateKeys = None,
       st_confirmationTag = createConfirmationTag (ks_confirmationKey (dk_keySchedule epochSecrets))
          (gc_confirmedTranscriptHash gc) (cs_hash cs),
       st_historicalReceiverData = addHistoricalReceiverData state, st_groupActiveState = activeStateAfter res,
       st_clientConfig = st_clientConfig state\<rparr>"
  proof -
    from c3 show thesis by (elim res_bindE) (clarsimp simp: res_bind_eq_Inr, rule that; assumption?; simp)
  qed
  show thesis
    by (rule that [of "\<lparr>mk_refs = refs, mk_res = res, mk_tree = tree, mk_path = path, mk_pathSecrets = pathSecrets,
        mk_newKey = newKey, mk_pathHash = pathHash, mk_commitSecret = commitSecret, mk_content = content, mk_signature = signature,
        mk_treeHash = treeHash, mk_context = gc, mk_secrets = epochSecrets, mk_privateKeys = privateKeys,
        mk_secretTree = secretTree\<rparr>" spent])
       (use a ne p f in \<open>simp_all add: commitMade_def commitOf_def commitTag_def commitAuth_def cong: option.case_cong\<close>)
qed

lemma insertParentHash_length:
  assumes "insertParentHash digest h st x = Inr st'" shows "length (fst st') = length (fst st)"
proof (cases "sparse_get (fst st) (fst x)")
  case (Some n)
  then show ?thesis using assms by (cases n) (auto simp: insertParentHash_def res_bind_eq_Inr case_prod_beta)
qed (use assms in \<open>auto simp: insertParentHash_def res_bind_eq_Inr case_prod_beta\<close>)

lemma createUpdatePath_length:
  assumes "createUpdatePath digest h t e0 l gc sk cs excl patch secret = Inr (cp, e)"
  shows "length (cp_tree cp) = length t"
proof -
  obtain path ps tree1 tree2 entry entry2 leaf where
      i: "applyInitialTreeUpdate path secret l t cs = Inr (ps, tree1)"
      and p: "insertParentHashes digest h path (tree1, entry) = Inr (tree2, entry2)"
      and cp: "cp_tree cp = setNode tree2 (leafToNodeIndex l) (Some (NodeLeaf leaf))"
    using assms by (rule createUpdatePath_Inr)
  have "length (snd (ps, tree1)) = length t"
    by (rule res_foldM_invariant [OF i [unfolded applyInitialTreeUpdate_def], where P = "\<lambda>s. length (snd s) = length t"])
       (auto simp: Let_def res_bind_eq_Inr)
  moreover have "length (fst (tree2, entry2)) = length tree1"
    by (rule res_foldM_invariant [OF p [unfolded insertParentHashes_def], where P = "\<lambda>s. length (fst s) = length tree1"])
       (simp_all add: insertParentHash_length)
  ultimately show ?thesis using cp by simp
qed

text \<open>A proposal that removes the member at a leaf, or updates it.\<close>

definition touches :: "int \<Rightarrow> proposalWithSender \<Rightarrow> bool" where
  "touches i p \<longleftrightarrow> (case pw_proposal p of
     ProposalRemove j \<Rightarrow> j = i | ProposalUpdate _ \<Rightarrow> pw_senderLeafIndex p = Some i | _ \<Rightarrow> False)"

definition untouchedIn :: "int \<Rightarrow> proposals \<Rightarrow> bool" where
  "untouchedIn i grouped \<longleftrightarrow> (\<forall>u\<in>set (pr_update grouped). fst u \<noteq> Some i) \<and> (\<forall>u\<in>set (pr_remove grouped). snd u \<noteq> i)"

lemma groupProposal_untouched:
  assumes "\<not> touches i p" "untouchedIn i acc" shows "untouchedIn i (groupProposal acc p)"
  using assms by (cases "pw_proposal p") (simp_all add: groupProposal_def touches_def untouchedIn_def)

lemma groupProposals_untouched:
  assumes "\<forall>p\<in>set all. \<not> touches i p" shows "untouchedIn i (groupProposals all)"
proof -
  have "\<forall>p\<in>set all. \<not> touches i p \<Longrightarrow> untouchedIn i acc \<Longrightarrow> untouchedIn i (foldl groupProposal acc all)" for acc
    by (induction all arbitrary: acc) (simp_all add: groupProposal_untouched)
  moreover have "untouchedIn i emptyProposals" by (simp add: untouchedIn_def emptyProposals_def)
  ultimately show ?thesis using assms unfolding groupProposals_def by blast
qed

text \<open>The proposals of a member's commit, and what they leave of the tree.\<close>

lemma applyProposals_member:
  assumes "applyProposals a ps (Some l) findPsk True cs None None now = Inr res" "ap_additionalResult res = MemberCommit added ctx"
  shows "applyTreeMutations (st_ratchetTree a) (groupProposals (ap_allProposals res)) ctx True
      (cc_authService (st_clientConfig a)) (cc_lifetimeConfig (st_clientConfig a)) cs now = Inr (ap_tree res, added) \<and>
    untouchedIn l (groupProposals (ap_allProposals res))"
proof -
  obtain all where "applyMemberProposals a all (groupProposals all) (Some l) findPsk True cs now = Inr res \<or>
      applyExternalProposals a ps all (groupProposals all) findPsk cs None = Inr res"
    using assms(1) unfolding applyProposals_def by (auto simp: Let_def res_bind_eq_Inr split: if_splits)
  moreover have "applyExternalProposals a ps all (groupProposals all) findPsk cs None \<noteq> Inr res"
    using assms(2) unfolding applyExternalProposals_def by (auto simp: Let_def res_bind_eq_Inr split: if_splits)
  ultimately have m: "applyMemberProposals a all (groupProposals all) (Some l) findPsk True cs now = Inr res" by blast
  then have all: "pr_reinit (groupProposals all) = []" "ap_allProposals res = all"
    using assms(2) unfolding applyMemberProposals_def
    by (cases "pr_reinit (groupProposals all)"; auto simp: Let_def res_bind_eq_Inr)+
  have "validateProposals (groupProposals all) (Some l) (st_groupContext a) ctx (cc_keyPackageEqualityConfig (st_clientConfig a))
      (cc_authService (st_clientConfig a)) (st_ratchetTree a) = Inr None"
    using m all(1) assms(2) unfolding applyMemberProposals_def by (auto simp: Let_def res_bind_eq_Inr)
  then have "\<not> containsUpdateByCommitter (groupProposals all) (Some l)" "\<not> containsRemoveOfCommitter (groupProposals all) (Some l)"
    unfolding validateProposals_def by (auto split: if_splits)
  moreover have "applyTreeMutations (st_ratchetTree a) (groupProposals all) ctx True
      (cc_authService (st_clientConfig a)) (cc_lifetimeConfig (st_clientConfig a)) cs now = Inr (ap_tree res, added)"
    using m all(1) assms(2) unfolding applyMemberProposals_def by (auto simp: Let_def res_bind_eq_Inr)
  ultimately show ?thesis
    by (auto simp: all(2) containsUpdateByCommitter_def containsRemoveOfCommitter_def untouchedIn_def list_ex_iff)
qed

text \<open>Such a member stays, holds the keys of its place, and is not among the added.\<close>

lemma member_stays:
  assumes t: "applyTreeMutations t grouped ctx sent authService config cs now = Inr (t', added)"
    and good: "goodTree t" "length t' < 2 ^ 30" and here: "leafAt t i \<noteq> None"
    and un: "untouchedIn i grouped"
  shows "leafAt t' i = leafAt t i \<and> i \<notin> fst ` set added \<and>
    (\<forall>hpke path. memberKeys hpke t i path \<longrightarrow> memberKeys hpke t' i path)"
proof -
  note ref = applyTreeMutations_refines [OF t good]
  have un: "\<forall>u\<in>set (pr_update grouped). fst u \<noteq> Some i" "\<forall>u\<in>set (pr_remove grouped). snd u \<noteq> i"
    using un by (simp_all add: untouchedIn_def)
  have leaf: "leafAt t' i = leafAt t i" using ref spec_untouched [OF finite_leaves here un] by simp
  let ?m = "foldl specRemove (foldl specUpdate (leafAt t) (pr_update grouped)) (pr_remove grouped)"
  have "?m i \<noteq> None" using here un by (simp add: specUpdate_other specRemove_other)
  moreover have "finite (dom ?m)" by (intro finite_specRemove finite_specUpdate finite_leaves)
  ultimately have "i \<notin> fst ` set added" using ref specPlaces_other by metis
  moreover obtain d e where "wfTree d t" "wfTree e t'" using good(1) ref by (auto simp: goodTree_def)
  ultimately show ?thesis using leaf ref memberKeys_untouched by blast
qed

section \<open>The receiver's side\<close>

lemma processCommit_advances:
  assumes "fc_epoch (ac_content content) = gc_epoch (st_groupContext state)" "fc_sender (ac_content content) = SenderMember l"
    and "applyProposals state (cm_proposals cm) (Some l) findPsk False cs (map_option up_leafNode (cm_path cm)) (Some ST_member) now
      = Inr res"
    and "ap_additionalResult res = MemberCommit added ctx" "\<not> ap_selfRemoved res" "\<not> (ap_needsUpdatePath res \<and> cm_path cm = None)"
    and "\<And>m. onMessage m = Accept"
    and "validateCommitLeaf state res ctx (Some l) (cm_path cm) cs = Inr ()"
    and "applyTreeUpdate (cm_path cm) (SenderMember l) (ap_tree res) cs (ownCommitPath state cm) ctx
      (map (\<lambda>l. leafToNodeIndex (fst l)) added) = Inr (pathKeys, commitSecret, tree, hash)"
    and "fa_content (ac_auth content) = AuthCommit tag"
    and "nextEpochContext ctx wireformat (ac_content content) (fa_signature (ac_auth content)) hash
      (st_confirmationTag state) (cs_hash cs) = Inr gc"
    and "initializeEpoch (ks_initSecret (st_keySchedule state)) commitSecret gc (ap_pskSecret res) (cs_kdf cs) = Inr epochSecrets"
    and "verifyConfirmationTag (ks_confirmationKey (dk_keySchedule epochSecrets)) tag (gc_confirmedTranscriptHash gc) (cs_hash cs)"
    and "createSecretTree (leafWidth (int (length tree))) (dk_encryptionSecret epochSecrets) (cs_kdf cs) = Inr secretTree"
  shows "\<exists>r. processCommit state content cm wireformat findPsk onMessage cs now = Inr r \<and>
    sa_newState r = (withoutPendingUpdateKeys state)\<lparr>st_signaturePrivateKey := ownCommitKey state cm,
         st_secretTree := secretTree, st_ratchetTree := tree,
         st_privatePath := pruneBlankedNodes (case pathKeys of None \<Rightarrow> ownCommitPath state cm
           | Some keys \<Rightarrow> mergePrivateKeyPaths (ownCommitPath state cm) keys) tree,
         st_groupContext := gc, st_keySchedule := dk_keySchedule epochSecrets, st_confirmationTag := tag,
         st_historicalReceiverData := addHistoricalReceiverData state,
         st_unappliedProposals := emptyUnappliedProposals, st_groupActiveState := Active\<rparr>"
  using assms unfolding processCommit_def Let_def ownCommitPath_def ownCommitKey_def
  by (simp add: getSenderLeafNodeIndex_def senderTypeOf_def contextAfterProposals_def commitExcludeNodes_def activeStateAfter_def)

text \<open>The receiver's part of the tree: the committer's tree, its hash, and the same commit secret.\<close>

lemma applyTreeUpdate_follows:
  fixes cs :: "('pub, 'priv, 'sk) ciphersuiteImpl"
  assumes wf: "wfTree d (ap_tree res)" and member: "ap_additionalResult res = MemberCommit added ctx"
    and p: "commitPath state res ctx cs patch secret = Inr (tree, path, pathSecrets, newKey, pathHash)"
    and s: "commitSecretOf pathSecrets (cs_kdf cs) = Inr commitSecret"
    and h: "(case pathHash of Some h \<Rightarrow> Inr h | None \<Rightarrow> treeHashOf cs tree) = Inr hash"
    and l: "pkp_leafIndex (st_privatePath state) = l"
    and r: "r \<noteq> l" "leafAt (ap_tree res) r \<noteq> None" "r \<notin> fst ` set added"
    and mk: "memberKeys (cs_hpke cs) (ap_tree res) r own"
    and fresh: "\<And>q. path = Some q \<Longrightarrow> freshPathKeys (ap_tree res) l q"
    and kem: "kemCorrect (cs_hpke cs)"
  shows "\<exists>pathKeys. applyTreeUpdate path (SenderMember l) (ap_tree res) cs own ctx
      (map (\<lambda>l. leafToNodeIndex (fst l)) added) = Inr (pathKeys, commitSecret, tree, hash) \<and>
    leafAt tree r = leafAt (ap_tree res) r \<and>
    memberKeys (cs_hpke cs) tree r (pruneBlankedNodes (case pathKeys of None \<Rightarrow> own | Some keys \<Rightarrow> mergePrivateKeyPaths own keys) tree)"
proof (cases "ap_needsUpdatePath res \<or> patch \<noteq> None")
  case False
  then have "tree = ap_tree res" "path = None" "pathSecrets = []" "pathHash = None" using p by (auto simp: commitPath_def)
  then show ?thesis using s h mk memberKeys_prune [OF mk] by (simp add: applyTreeUpdate_def commitSecretOf_def)
next
  case True
  let ?excl = "map (\<lambda>l. leafToNodeIndex (fst l)) added"
  obtain cp e where c: "createUpdatePath h_digest (cs_hash cs) (ap_tree res) None l ctx (st_signaturePrivateKey state) cs ?excl
        (case patch of None \<Rightarrow> noPatch | Some p \<Rightarrow> p) secret = Inr (cp, e)"
      and cp: "tree = cp_tree cp" "path = Some (cp_updatePath cp)" "pathSecrets = cp_pathSecrets cp" "pathHash = Some (cp_treeHash cp)"
    using p True member l by (auto simp: commitPath_def createPath_def res_map_eq_Inr)
  have e: "validEntry h_digest (ap_tree res) None" by (simp add: validEntry_def)
  obtain old where "sparse_get (ap_tree res) (leafToNodeIndex l) = Some (NodeLeaf old)" using c by (rule createUpdatePath_Inr)
  then have "0 \<le> 2 * l \<and> 2 * l < int (length (ap_tree res))"
    using sparse_get_eq_SomeD by (fastforce simp: leafToNodeIndex_def mult.commute)
  then have lr: "0 \<le> l" "l < 2 ^ d" using full_length [OF wfTree_full [OF wf]] by auto
  have here: "sparse_get (ap_tree res) (2 * r) \<noteq> None" using r(2) wfTree_leafAt [OF wf] by simp
  then have "0 \<le> 2 * r \<and> 2 * r < int (length (ap_tree res))" using sparse_get_outside by metis
  then have rr: "0 \<le> r" "r < 2 ^ d" using full_length [OF wfTree_full [OF wf]] by auto
  note agree = update_path_agreement [OF wf lr e e c fresh [OF cp(2)]]
  have hash: "hash = cp_treeHash cp" using h cp(4) by simp
  have "treeHashSpec (h_digest (cs_hash cs)) (cp_tree cp) (rootFromNodeWidth (int (length (cp_tree cp)))) = Inr (cp_treeHash cp)"
    using agree(2) full_length [OF agree(3)] by (simp add: root_def nodeWidth_pow2)
  then have th: "treeHashOf cs tree = Inr hash"
    using treeHash_sound [of h_digest tree None "rootFromNodeWidth (int (length tree))" "cs_hash cs"] cp(1) hash
    by (auto simp: treeHashOf_def treeHashRoot_def tracks_def soundEntry_def res_map_eq_Inr split: sum.splits)
  have ap: "applyPath (ap_tree res) l (cp_updatePath cp) cs False = Inr tree"
    using agree(1) cp(1) by (auto simp: applyPath_def)
  have "pathSecrets \<noteq> []" unfolding cp(3) using c by (rule createUpdatePath_Inr) auto
  then have s': "deriveSecret (ps_secret (last (cp_pathSecrets cp))) ''path'' (cs_kdf cs) = Inr commitSecret"
    using s cp(3) by (simp add: commitSecretOf_def)
  have excl: "\<forall>i\<in>set ?excl. even i" "2 * r \<notin> set ?excl" using r(3) by (auto simp: leafToNodeIndex_def rev_image_eqI)
  from receiver_gets_keys [OF wf lr rr r(1) here mk excl kem e c s'] obtain keys where
    k: "updatePrivateKeyPath (cp_tree cp) own l (ctx\<lparr>gc_treeHash := cp_treeHash cp, gc_epoch := gc_epoch ctx + 1\<rparr>)
      (cp_updatePath cp) ?excl cs = Inr (keys, commitSecret)"
      "memberKeys (cs_hpke cs) (cp_tree cp) r (pruneBlankedNodes (mergePrivateKeyPaths own keys) (cp_tree cp))" by blast
  obtain e' where "applyUpdatePath h_digest (cs_hash cs) (ap_tree res) None l (cp_updatePath cp) False = Inr (tree, e')"
    using agree(1) cp(1) by auto
  from applyUpdatePath_written [OF wf lr this] obtain js pk where w: "pathWritten d (ap_tree res) l (up_leafNode (cp_updatePath cp)) js pk tree"
    by blast
  have "2 * r \<notin> ancestorAt l 0 ` js"
  proof
    assume "2 * r \<in> ancestorAt l 0 ` js"
    then obtain j where j: "j \<in> js" "2 * r = ancestorAt l 0 j" by blast
    then have "0 < j" using w by (auto simp: pathWritten_def)
    then have "odd (2 * r)" unfolding j(2) ancestorAt_def by (simp add: nodeAt_odd)
    then show False by simp
  qed
  then have "sparse_get tree (2 * r) = sparse_get (ap_tree res) (2 * r)"
    using w r(1) unfolding pathWritten_def by (simp add: ancestorAt_leaf)
  then have "leafAt tree r = leafAt (ap_tree res) r" by (simp add: leafAt_alt)
  then show ?thesis using k ap th cp hash by (intro exI [of _ "Some keys"]) (simp add: applyTreeUpdate_def)
qed

text \<open>
  What the receiver asks of a commit, beyond what its sender has checked: its own leaf is left alone,
  and the committer's new leaf and the keys of the path pass.
\<close>

definition commitAdmissible ::
    "'sk clientState \<Rightarrow> commit \<Rightarrow> int \<Rightarrow> int \<Rightarrow> (preSharedKeyID \<Rightarrow> bytes option) \<Rightarrow> ('pub, 'priv, 'sk) ciphersuiteImpl \<Rightarrow> int \<Rightarrow> bool" where
  "commitAdmissible b cm l r findPsk cs now \<longleftrightarrow>
     appliedPendingUpdateKey (st_pendingUpdateKeys b) (cm_proposals cm) = None \<and>
     (case applyProposals b (cm_proposals cm) (Some l) findPsk False cs (map_option up_leafNode (cm_path cm)) (Some ST_member) now of
        Inl _ \<Rightarrow> True
      | Inr res \<Rightarrow> list_all (\<lambda>p. \<not> touches r p) (ap_allProposals res) \<and>
          validateCommitLeaf b res (contextAfterProposals b res) (Some l) (cm_path cm) cs = Inr () \<and>
          (case cm_path cm of None \<Rightarrow> True | Some q \<Rightarrow> freshPathKeys (ap_tree res) l q))"

text \<open>A member in step with the group.\<close>

definition inStep :: "('pub, 'priv) hpkeImpl \<Rightarrow> 'sk clientState \<Rightarrow> int \<Rightarrow> 'sk clientState \<Rightarrow> bool" where
  "inStep hpke a r b \<longleftrightarrow> sameEpoch a b \<and> goodTree (st_ratchetTree b) \<and> leafAt (st_ratchetTree b) r \<noteq> None \<and>
     memberKeys hpke (st_ratchetTree b) r (st_privatePath b) \<and> st_groupActiveState b = Active"

lemma commit_content:
  "createContentCommitSignature gc wire c (SenderMember l) ad sk s = Inr (content, signature) \<Longrightarrow>
    content = memberContent gc l ad (FC_commit c)"
  by (auto simp: createContentCommitSignature_def memberContent_def res_bind_eq_Inr)

text \<open>The commit, once opened, on the receiver's side.\<close>

lemma commit_processed:
  fixes cs :: "('pub, 'priv, 'sk) ciphersuiteImpl"
  assumes made: "commitMade a findPsk cs options secret now newState m"
    and b: "inStep (cs_hpke cs) a r b" "r \<noteq> pkp_leafIndex (st_privatePath a)"
    and clock: "clockAllows (cc_lifetimeConfig (st_clientConfig a)) now now'"
    and small: "length (mk_tree m) < 2 ^ 30" and member: "ap_additionalResult (mk_res m) = MemberCommit added ctx"
    and crypto: "kemCorrect (cs_hpke cs)" "macCorrect (cs_hash cs)"
    and adm: "commitAdmissible b (commitOf options m) (pkp_leafIndex (st_privatePath a)) r findPsk cs now'"
  shows "\<exists>r' pathKeys. processCommit b \<lparr>ac_wireformat = wire, ac_content = mk_content m, ac_auth = commitAuth cs m\<rparr>
      (commitOf options m) (commitWireformat options) findPsk acceptAll cs now' = Inr r' \<and>
    leafAt (mk_tree m) r \<noteq> None \<and>
    memberKeys (cs_hpke cs) (mk_tree m) r (pruneBlankedNodes (case pathKeys of None \<Rightarrow> st_privatePath b
      | Some keys \<Rightarrow> mergePrivateKeyPaths (st_privatePath b) keys) (mk_tree m)) \<and>
    sa_newState r' = (withoutPendingUpdateKeys b)\<lparr>st_signaturePrivateKey := st_signaturePrivateKey b,
      st_secretTree := mk_secretTree m, st_ratchetTree := mk_tree m,
      st_privatePath := pruneBlankedNodes (case pathKeys of None \<Rightarrow> st_privatePath b
        | Some keys \<Rightarrow> mergePrivateKeyPaths (st_privatePath b) keys) (mk_tree m),
      st_groupContext := mk_context m, st_keySchedule := dk_keySchedule (mk_secrets m),
      st_confirmationTag := commitTag cs m, st_historicalReceiverData := addHistoricalReceiverData b,
      st_unappliedProposals := emptyUnappliedProposals, st_groupActiveState := Active\<rparr>"
proof -
  let ?l = "pkp_leafIndex (st_privatePath a)" and ?res = "mk_res m" and ?cm = "commitOf options m"
  let ?resB = "?res\<lparr>ap_selfRemoved := (sparse_get (ap_tree ?res) (leafToNodeIndex (pkp_leafIndex (st_privatePath b))) = None)\<rparr>"
  note f = made [unfolded commitMade_def]
  have same: "sameEpoch a b" and good: "goodTree (st_ratchetTree a)" and here: "leafAt (st_ratchetTree a) r \<noteq> None"
    and mk: "memberKeys (cs_hpke cs) (st_ratchetTree a) r (st_privatePath b)"
    using b(1) by (auto simp: inStep_def sameEpoch_def)
  have ctx: "contextAfterProposals a ?res = ctx" by (simp add: contextAfterProposals_def member)
  have path: "commitPath a ?res ctx cs (co_leafNodePatch options) secret =
      Inr (mk_tree m, mk_path m, mk_pathSecrets m, mk_newKey m, mk_pathHash m)" using f ctx by simp
  have len: "length (ap_tree ?res) < 2 ^ 30"
    using path small by (auto simp: commitPath_def createPath_def res_map_eq_Inr dest!: createUpdatePath_length split: if_splits)
  have a: "applyProposals a (cm_proposals ?cm) (Some ?l) findPsk True cs None None now = Inr ?res" using f by blast
  obtain d where wf: "wfTree d (ap_tree ?res)" using applyProposals_good [OF a good len] by (auto simp: goodTree_def)
  have cm: "cm_path ?cm = mk_path m" by (simp add: commitOf_def)
  have rec: "applyProposals b (cm_proposals ?cm) (Some ?l) findPsk False cs (map_option up_leafNode (mk_path m)) (Some ST_member) now'
      = Inr ?resB" by (rule applyProposals_received [OF a same clock member])
  have un: "\<forall>p\<in>set (ap_allProposals ?res). \<not> touches r p" and v: "validateCommitLeaf b ?resB ctx (Some ?l) (mk_path m) cs = Inr ()"
    and fresh: "\<And>q. mk_path m = Some q \<Longrightarrow> freshPathKeys (ap_tree ?res) ?l q"
    and own: "ownCommitPath b ?cm = st_privatePath b" "ownCommitKey b ?cm = st_signaturePrivateKey b"
    using adm [unfolded commitAdmissible_def cm rec sum.case] member
    by (auto simp: list_all_iff contextAfterProposals_def ownCommitPath_def ownCommitKey_def)
  note stay = member_stays [OF conjunct1 [OF applyProposals_member [OF a member]] good len here groupProposals_untouched [OF un]]
  have secret: "commitSecretOf (mk_pathSecrets m) (cs_kdf cs) = Inr (mk_commitSecret m)"
    and hash: "(case mk_pathHash m of Some h \<Rightarrow> Inr h | None \<Rightarrow> treeHashOf cs (mk_tree m)) = Inr (mk_treeHash m)"
    using f by blast+
  have stays: "leafAt (ap_tree ?res) r \<noteq> None" "r \<notin> fst ` set added" "memberKeys (cs_hpke cs) (ap_tree ?res) r (st_privatePath b)"
    using stay mk here by auto
  from applyTreeUpdate_follows [OF wf member path secret hash refl b(2) stays fresh crypto(1)]
  obtain pathKeys where u: "applyTreeUpdate (mk_path m) (SenderMember ?l) (ap_tree ?res) cs (st_privatePath b) ctx
        (map (\<lambda>l. leafToNodeIndex (fst l)) added) = Inr (pathKeys, mk_commitSecret m, mk_tree m, mk_treeHash m)"
      "leafAt (mk_tree m) r = leafAt (ap_tree ?res) r"
      "memberKeys (cs_hpke cs) (mk_tree m) r (pruneBlankedNodes (case pathKeys of None \<Rightarrow> st_privatePath b
        | Some keys \<Rightarrow> mergePrivateKeyPaths (st_privatePath b) keys) (mk_tree m))"
    by blast
  have idx: "pkp_leafIndex (st_privatePath b) = r" using mk by (simp add: memberKeys_def)
  have in': "sparse_get (ap_tree ?res) (leafToNodeIndex r) \<noteq> None"
    using wfTree_leafAt [OF wf, of r] stays(1) by (simp add: leafToNodeIndex_def mult.commute)
  have content: "mk_content m = memberContent (st_groupContext a) ?l (co_authenticatedData options) (FC_commit ?cm)"
    using f by (blast intro: commit_content)
  have need: "\<not> (ap_needsUpdatePath ?res \<and> mk_path m = None)" using path by (auto simp: commitPath_def res_map_eq_Inr split: if_splits)
  have eqs: "st_groupContext b = st_groupContext a" "st_keySchedule b = st_keySchedule a" "st_confirmationTag b = st_confirmationTag a"
    using same by (simp_all add: sameEpoch_def)
  have tag: "verifyConfirmationTag (ks_confirmationKey (dk_keySchedule (mk_secrets m))) (commitTag cs m)
      (gc_confirmedTranscriptHash (mk_context m)) (cs_hash cs)"
    using crypto(2) by (simp add: macCorrect_def verifyConfirmationTag_def createConfirmationTag_def commitTag_def)
  have "\<exists>r'. processCommit b \<lparr>ac_wireformat = wire, ac_content = mk_content m, ac_auth = commitAuth cs m\<rparr> ?cm
      (commitWireformat options) findPsk acceptAll cs now' = Inr r' \<and> sa_newState r' =
      (withoutPendingUpdateKeys b)\<lparr>st_signaturePrivateKey := ownCommitKey b ?cm, st_secretTree := mk_secretTree m,
      st_ratchetTree := mk_tree m, st_privatePath := pruneBlankedNodes (case pathKeys of None \<Rightarrow> ownCommitPath b ?cm
        | Some keys \<Rightarrow> mergePrivateKeyPaths (ownCommitPath b ?cm) keys) (mk_tree m),
      st_groupContext := mk_context m, st_keySchedule := dk_keySchedule (mk_secrets m),
      st_confirmationTag := commitTag cs m, st_historicalReceiverData := addHistoricalReceiverData b,
      st_unappliedProposals := emptyUnappliedProposals, st_groupActiveState := Active\<rparr>"
    by (rule processCommit_advances [where res = ?resB and l = ?l and ctx = ctx and added = added and hash = "mk_treeHash m"
          and commitSecret = "mk_commitSecret m", OF _ _ rec [folded cm]])
       (use content eqs member idx in' need v u own f ctx tag in
         \<open>simp_all add: memberContent_def acceptAll_def cm commitAuth_def\<close>)
  from this [unfolded own] show ?thesis using u(2,3) stays(1) by auto
qed

text \<open>The whole exchange: a commit created by one member of a group in step is followed by another.\<close>

lemma commit_followed:
  fixes cs :: "('pub, 'priv, 'sk) ciphersuiteImpl"
  assumes c: "createCommit a findPsk cs options secret guard now = Inr cr"
    and b: "inStep (cs_hpke cs) a r b" "r \<noteq> pkp_leafIndex (st_privatePath a)"
    and clock: "clockAllows (cc_lifetimeConfig (st_clientConfig a)) now now'"
    and small: "length (st_ratchetTree (cr_newState cr)) < 2 ^ 30" and active: "st_groupActiveState (cr_newState cr) = Active"
    and crypto: "kemCorrect (cs_hpke cs)" "macCorrect (cs_hash cs)"
  obtains m spent where "commitMade a findPsk cs options secret now (cr_newState cr) m"
    "protectCommit (co_wireAsPublicMessage options) a (co_authenticatedData options) (mk_content m) (commitAuth cs m) cs guard =
      Inr (cr_commit cr, spent)"
    "\<And>wire. commitAdmissible b (commitOf options m) (pkp_leafIndex (st_privatePath a)) r findPsk cs now' \<Longrightarrow>
     \<exists>r'. processCommit b \<lparr>ac_wireformat = wire, ac_content = mk_content m, ac_auth = commitAuth cs m\<rparr> (commitOf options m)
         (commitWireformat options) findPsk acceptAll cs now' = Inr r' \<and> inStep (cs_hpke cs) (cr_newState cr) r (sa_newState r') \<and>
       st_secretTree (sa_newState r') = st_secretTree (cr_newState cr)"
proof -
  obtain m spent where m: "commitMade a findPsk cs options secret now (cr_newState cr) m"
      "protectCommit (co_wireAsPublicMessage options) a (co_authenticatedData options) (mk_content m) (commitAuth cs m) cs guard =
        Inr (cr_commit cr, spent)"
    using c by (rule createCommit_Inr)
  have new: "st_ratchetTree (cr_newState cr) = mk_tree m" "st_groupActiveState (cr_newState cr) = activeStateAfter (mk_res m)"
    and ne: "\<And>s i x. ap_additionalResult (mk_res m) \<noteq> ExternalCommit s i x"
    using m(1) by (simp_all add: commitMade_def)
  then obtain added ctx where member: "ap_additionalResult (mk_res m) = MemberCommit added ctx"
    using active by (cases "ap_additionalResult (mk_res m)") (auto simp: activeStateAfter_def split: if_splits)
  have small': "length (mk_tree m) < 2 ^ 30" using small new(1) by simp
  have eqs: "st_clientConfig b = st_clientConfig a" "goodTree (st_ratchetTree b)" using b(1) by (simp_all add: inStep_def sameEpoch_def)
  show thesis
  proof (rule that [OF m])
    fix wire assume adm: "commitAdmissible b (commitOf options m) (pkp_leafIndex (st_privatePath a)) r findPsk cs now'"
    from commit_processed [OF m(1) b clock small' member crypto adm, of wire] obtain r' pathKeys where r':
      "processCommit b \<lparr>ac_wireformat = wire, ac_content = mk_content m, ac_auth = commitAuth cs m\<rparr> (commitOf options m)
         (commitWireformat options) findPsk acceptAll cs now' = Inr r'" "leafAt (mk_tree m) r \<noteq> None"
      "memberKeys (cs_hpke cs) (mk_tree m) r (pruneBlankedNodes (case pathKeys of None \<Rightarrow> st_privatePath b
        | Some keys \<Rightarrow> mergePrivateKeyPaths (st_privatePath b) keys) (mk_tree m))"
      "sa_newState r' = (withoutPendingUpdateKeys b)\<lparr>st_signaturePrivateKey := st_signaturePrivateKey b,
        st_secretTree := mk_secretTree m, st_ratchetTree := mk_tree m,
        st_privatePath := pruneBlankedNodes (case pathKeys of None \<Rightarrow> st_privatePath b
          | Some keys \<Rightarrow> mergePrivateKeyPaths (st_privatePath b) keys) (mk_tree m),
        st_groupContext := mk_context m, st_keySchedule := dk_keySchedule (mk_secrets m),
        st_confirmationTag := commitTag cs m, st_historicalReceiverData := addHistoricalReceiverData b,
        st_unappliedProposals := emptyUnappliedProposals, st_groupActiveState := Active\<rparr>" by blast
    have "goodTree (st_ratchetTree (sa_newState r'))"
      by (rule processCommit_good [OF r'(1) eqs(2)]) (use r'(4) small' in simp)
    then show "\<exists>r'. processCommit b \<lparr>ac_wireformat = wire, ac_content = mk_content m, ac_auth = commitAuth cs m\<rparr> (commitOf options m)
         (commitWireformat options) findPsk acceptAll cs now' = Inr r' \<and> inStep (cs_hpke cs) (cr_newState cr) r (sa_newState r') \<and>
       st_secretTree (sa_newState r') = st_secretTree (cr_newState cr)"
      using r' m(1) eqs(1) by (auto simp: inStep_def sameEpoch_def withoutPendingUpdateKeys_def commitMade_def)
  qed
qed

lemma commit_signature:
  assumes "createContentCommitSignature gc wire c (SenderMember l) ad sk s = Inr (content, signature)" "signatureCorrect s sk pk"
  shows "verifyFramedContentSignature pk wire content \<lparr>fa_signature = signature, fa_content = x\<rparr> gc s = Inr True"
  using assms
  by (auto simp: createContentCommitSignature_def signFramedContentTBS_def verifyFramedContentSignature_def
      toTbsContent_def senderTypeOf_def signWithLabel_def verifyWithLabel_def signatureCorrect_def
      res_bind_eq_Inr res_map_eq_Inr)

lemma public_commit_opens:
  fixes cs :: "('pub, 'priv, 'sk) ciphersuiteImpl"
  assumes s: "createContentCommitSignature gc WF_public_message c (SenderMember l) ad sk (cs_signature cs) = Inr (content, signature)"
    and p: "protectPublicMessage mk gc \<lparr>ac_wireformat = WF_public_message, ac_content = content,
      ac_auth = \<lparr>fa_signature = signature, fa_content = x\<rparr>\<rparr> cs = Inr msg"
    and leaf: "sparse_get tree (leafToNodeIndex l) = Some (NodeLeaf lf)"
    and crypto: "macCorrect (cs_hash cs)" "signatureCorrect (cs_signature cs) sk (ln_signaturePublicKey lf)"
  shows "pub_content msg = content \<and> unprotectPublicMessage mk gc tree msg cs None = Inr \<lparr>ac_wireformat = WF_public_message,
    ac_content = content, ac_auth = \<lparr>fa_signature = signature, fa_content = x\<rparr>\<rparr>"
proof -
  have content: "fc_sender content = SenderMember l" "fc_info content = FC_commit c"
    using commit_content [OF s] by (simp_all add: memberContent_def)
  show ?thesis
    using p content leaf crypto(1) commit_signature [OF s crypto(2)]
    by (auto simp: protectPublicMessage_def unprotectPublicMessage_def senderTypeOf_def
        createMembershipTag_def verifyMembershipTag_def macCorrect_def findSignaturePublicKey_def
        getSignaturePublicKeyFromLeafIndex_def res_bind_eq_Inr res_map_eq_Inr)
qed

lemma public_commit_followed:
  fixes cs :: "('pub, 'priv, 'sk) ciphersuiteImpl"
  assumes c: "createCommit a findPsk cs options secret guard now = Inr cr"
    and b: "inStep (cs_hpke cs) a r b" "r \<noteq> pkp_leafIndex (st_privatePath a)"
    and clock: "clockAllows (cc_lifetimeConfig (st_clientConfig a)) now now'"
    and small: "length (st_ratchetTree (cr_newState cr)) < 2 ^ 30" and active: "st_groupActiveState (cr_newState cr) = Active"
    and crypto: "kemCorrect (cs_hpke cs)" "macCorrect (cs_hash cs)"
    and leaf: "leafAt (st_ratchetTree a) (pkp_leafIndex (st_privatePath a)) = Some lf"
      "signatureCorrect (cs_signature cs) (st_signaturePrivateKey a) (ln_signaturePublicKey lf)"
    and msg: "co_wireAsPublicMessage options" "mm_content (cr_commit cr) = MlsPublicMessage pm" "fc_info (pub_content pm) = FC_commit cm"
    and adm: "commitAdmissible b cm (pkp_leafIndex (st_privatePath a)) r findPsk cs now'"
  shows "\<exists>r'. processMessage (mm_content (cr_commit cr)) b findPsk acceptAll cs now' = Inr (NewState r') \<and>
    inStep (cs_hpke cs) (cr_newState cr) r (sa_newState r') \<and> st_secretTree (sa_newState r') = st_secretTree (cr_newState cr)"
proof -
  let ?l = "pkp_leafIndex (st_privatePath a)"
  obtain m spent where m: "commitMade a findPsk cs options secret now (cr_newState cr) m"
    "protectCommit (co_wireAsPublicMessage options) a (co_authenticatedData options) (mk_content m) (commitAuth cs m) cs guard =
      Inr (cr_commit cr, spent)"
    "\<And>wire. commitAdmissible b (commitOf options m) ?l r findPsk cs now' \<Longrightarrow>
     \<exists>r'. processCommit b \<lparr>ac_wireformat = wire, ac_content = mk_content m, ac_auth = commitAuth cs m\<rparr> (commitOf options m)
         (commitWireformat options) findPsk acceptAll cs now' = Inr r' \<and> inStep (cs_hpke cs) (cr_newState cr) r (sa_newState r') \<and>
       st_secretTree (sa_newState r') = st_secretTree (cr_newState cr)"
    using commit_followed [OF c b clock small active crypto] by metis
  have s: "createContentCommitSignature (st_groupContext a) WF_public_message (commitOf options m) (SenderMember ?l)
      (co_authenticatedData options) (st_signaturePrivateKey a) (cs_signature cs) = Inr (mk_content m, mk_signature m)"
    using m(1) msg(1) by (simp add: commitMade_def commitWireformat_def)
  have p: "protectPublicMessage (ks_membershipKey (st_keySchedule a)) (st_groupContext a) \<lparr>ac_wireformat = WF_public_message,
      ac_content = mk_content m, ac_auth = commitAuth cs m\<rparr> cs = Inr pm"
    using m(2) msg(1,2) by (auto simp: protectCommit_def res_map_eq_Inr)
  have eqs: "st_groupContext b = st_groupContext a" "st_keySchedule b = st_keySchedule a" "st_ratchetTree b = st_ratchetTree a"
      "st_groupActiveState b = Active"
    using b(1) by (simp_all add: inStep_def sameEpoch_def)
  have "sparse_get (st_ratchetTree a) (leafToNodeIndex ?l) = Some (NodeLeaf lf)"
    using leaf(1) by (auto simp: leafAt_def split: option.splits ratchetNode.splits)
  from public_commit_opens [OF s p [unfolded commitAuth_def] this crypto(2) leaf(2), folded commitAuth_def]
  have o: "pub_content pm = mk_content m" "unprotectPublicMessage (ks_membershipKey (st_keySchedule a)) (st_groupContext a)
      (st_ratchetTree a) pm cs None = Inr \<lparr>ac_wireformat = WF_public_message, ac_content = mk_content m, ac_auth = commitAuth cs m\<rparr>"
    by auto
  have content: "fc_info (mk_content m) = FC_commit (commitOf options m)" "fc_groupId (mk_content m) = gc_groupId (st_groupContext a)"
      "fc_epoch (mk_content m) = gc_epoch (st_groupContext a)"
    using commit_content [OF s] by (simp_all add: memberContent_def)
  then have cm: "cm = commitOf options m" using msg(3) o(1) by simp
  obtain r' where r': "processCommit b \<lparr>ac_wireformat = WF_public_message, ac_content = mk_content m, ac_auth = commitAuth cs m\<rparr>
      (commitOf options m) (commitWireformat options) findPsk acceptAll cs now' = Inr r'" "inStep (cs_hpke cs) (cr_newState cr) r (sa_newState r')"
      "st_secretTree (sa_newState r') = st_secretTree (cr_newState cr)"
    using m(3) adm cm by blast
  have "processPublicMessage b pm findPsk cs acceptAll now' = Inr r'"
    using r'(1) o content eqs msg(1)
    by (simp add: processPublicMessage_def throwIfRemovedFromGroup_def throwIfSuspendedPendingReinit_def constantTimeEqual_iff
        commitWireformat_def)
  then show ?thesis using r'(2,3) by (simp add: processMessage_def msg(2))
qed

end
