(* ===== verification/StateExamples.thy ===== *)
theory StateExamples imports CommitAgreement Examples begin

text \<open>
  A group of two members and a commit between them, for the witnesses of \<open>StateProperties\<close>.
  Nothing here models code.

  The tree-hash cache compares hash implementations, records of functions.  The kernel evaluates
  that comparison where both sides are the same term.
\<close>

definition sameImpl :: "'a hashImpl_scheme \<Rightarrow> 'a hashImpl_scheme \<Rightarrow> bool" where
  [code del]: "sameImpl a b \<longleftrightarrow> a = b"

lemma hashImpl_equal_code [code]: "HOL.equal (a :: 'a hashImpl_scheme) b \<longleftrightarrow> sameImpl a b"
  by (simp add: sameImpl_def equal)

lemma sameImpl_refl [code nbe]: "sameImpl a a \<longleftrightarrow> True"
  by (simp add: sameImpl_def)

definition exShortSignature :: "unit signatureImpl" where
  "exShortSignature = \<lparr>sig_sign = (\<lambda>_ m. take 4 m), sig_verify = (\<lambda>_ m s. s = take 4 m)\<rparr>"

definition exGroupSuite :: "(bytes, bytes, unit) ciphersuiteImpl" where
  "exGroupSuite = exKeySuite\<lparr>cs_signature := exShortSignature\<rparr>"

definition exMember :: "8 word \<Rightarrow> leafNode" where
  "exMember k = \<lparr>ln_hpkePublicKey = [k], ln_signaturePublicKey = [k + 10], ln_credential = CredentialBasic [k],
     ln_capabilities = \<lparr>cap_versions = [Known PV_mls10], cap_ciphersuites = [], cap_extensions = [],
       cap_proposals = [], cap_credentials = [credentialTypeOf (CredentialBasic [])]\<rparr>,
     ln_info = InfoUpdate, ln_extensions = [], ln_signature = [9]\<rparr>"

definition exGroupTree :: ratchetTree where
  "exGroupTree = [Some (NodeLeaf (exMember 1)), None, Some (NodeLeaf (exMember 2))]"

definition exKeys :: keySchedule where
  "exKeys = \<lparr>ks_initSecret = [7], ks_senderDataSecret = [8], ks_exporterSecret = [1], ks_externalSecret = [2],
     ks_confirmationKey = [3], ks_membershipKey = [4], ks_resumptionPsk = [5], ks_epochAuthenticator = [6],
     ks_applicationExportSecret = [9]\<rparr>"

definition exConfig :: clientConfig where
  "exConfig = defaultClientConfig\<lparr>cc_authService := unsafeAcceptAllAuthenticationService\<rparr>"

definition exClient :: "int \<Rightarrow> bytes \<Rightarrow> unit clientState" where
  "exClient l k = \<lparr>st_groupContext = exContext, st_keySchedule = exKeys, st_secretTree = [Some exNode, None, Some exNode],
     st_ratchetTree = exGroupTree, st_privatePath = \<lparr>pkp_leafIndex = l, pkp_privateKeys = [(2 * l, k)]\<rparr>,
     st_signaturePrivateKey = (), st_unappliedProposals = [], st_pendingUpdateKeys = None, st_confirmationTag = [1],
     st_historicalReceiverData = [], st_groupActiveState = Active, st_clientConfig = exConfig\<rparr>"

definition exOptions :: "bool \<Rightarrow> proposal list \<Rightarrow> unit createCommitOptions" where
  "exOptions isPublic ps = \<lparr>co_wireAsPublicMessage = isPublic, co_extraProposals = ps, co_ratchetTreeExtension = False,
     co_groupInfoExtensions = [], co_authenticatedData = [], co_leafNodePatch = None\<rparr>"

text \<open>The member at leaf 0 commits a new path in the open; the member at leaf 1 has nothing against it.\<close>

definition exCommit :: "unit createCommitResult result" where
  "exCommit = createCommit (exClient 0 [1]) (\<lambda>_. None) exGroupSuite (exOptions True []) [5, 6] [1, 2, 3, 4] 1000"

lemma exCommit_made:
  obtains cr pm cm a' sent lf where
    "createCommit (exClient 0 [1]) (\<lambda>_. None) exGroupSuite (exOptions True []) [5, 6] [1, 2, 3, 4] 1000 = Inr cr"
    "st_groupActiveState (cr_newState cr) = Active" "length (st_ratchetTree (cr_newState cr)) < 2 ^ 30"
    "mm_content (cr_commit cr) = MlsPublicMessage pm" "fc_info (pub_content pm) = FC_commit cm"
    "commitAdmissible (exClient 1 [2]) cm 0 1 (\<lambda>_. None) exGroupSuite 1000"
    "createApplicationMessage (cr_newState cr) [42] exGroupSuite [] [1, 2, 3, 4] = Inr (a', sent)"
    "leafAt (st_ratchetTree (cr_newState cr)) 0 = Some lf"
proof -
  have "case exCommit of Inl e \<Rightarrow> False | Inr cr \<Rightarrow> st_groupActiveState (cr_newState cr) = Active \<and>
     length (st_ratchetTree (cr_newState cr)) \<le> 3 \<and> (case mm_content (cr_commit cr) of
       MlsPublicMessage pm \<Rightarrow> (case fc_info (pub_content pm) of FC_commit cm \<Rightarrow>
          commitAdmissible (exClient 1 [2]) cm 0 1 (\<lambda>_. None) exGroupSuite 1000 | _ \<Rightarrow> False) | _ \<Rightarrow> False) \<and>
     (case createApplicationMessage (cr_newState cr) [42] exGroupSuite [] [1, 2, 3, 4] of Inl _ \<Rightarrow> False | Inr _ \<Rightarrow> True) \<and>
     (case leafAt (st_ratchetTree (cr_newState cr)) 0 of None \<Rightarrow> False | Some _ \<Rightarrow> True)"
    by code_simp
  then show ?thesis
    by (auto simp: exCommit_def split: sum.splits mlsMessageContent.splits framedContentInfo.splits option.splits intro!: that)
qed

lemma exGroupTree_get: "sparse_get exGroupTree i = (if i = 0 then Some (NodeLeaf (exMember 1))
    else if i = 2 then Some (NodeLeaf (exMember 2)) else None)"
proof -
  consider "i < 0 \<or> 3 \<le> i" | "i = 0" | "i = 1" | "i = 2" by linarith
  then show ?thesis
  proof cases
    case 1
    then show ?thesis by (auto simp: sparse_get_def exGroupTree_def)
  qed (simp_all add: sparse_get_def exGroupTree_def)
qed

lemma exGroupTree_good: "goodTree exGroupTree"
proof -
  have "addLeafNode [Some (NodeLeaf (exMember 1))] (exMember 2) = Inr (exGroupTree, 2)" by code_simp
  from added [OF founded this] have "reachableTree exGroupTree" by (simp add: exGroupTree_def)
  then obtain d where "wfTree d exGroupTree" using reachableTree_wf by blast
  moreover have "uniqueKeys exGroupTree"
    by (auto simp: uniqueKeys_def exGroupTree_get exMember_def getHpkePublicKey_def signatureKeyOf_def split: if_splits)
  ultimately show ?thesis by (auto simp: goodTree_def)
qed

lemma exGroupSuite_ok: "kemCorrect (cs_hpke exGroupSuite)" "macCorrect (cs_hash exGroupSuite)"
    "signatureCorrect (cs_signature exGroupSuite) u pk"
    "paramsOk (ratchetParams exGroupSuite)" "aeadCorrect (cs_hpke exGroupSuite)"
  using exKeyHpke_correct(1) exSuite_ok(3)
  by (simp_all add: exGroupSuite_def exKeySuite_def exSuite_def exShortSignature_def signatureCorrect_def
      paramsOk_def ratchetParams_def aeadCorrect_def exKeyHpke_def exKeyKdf_def)

lemma exClient_inStep: "inStep (cs_hpke exGroupSuite) (exClient 0 [1]) 1 (exClient 1 [2])"
proof -
  have leaves: "even i" if "sparse_get exGroupTree i \<noteq> None" for i using that by (auto simp: exGroupTree_get split: if_splits)
  have get: "sparse_get exGroupTree (2 * 1) = Some (NodeLeaf (exMember 2))" by (simp add: exGroupTree_get)
  have "keyOpens (cs_hpke exGroupSuite) [2] (getHpkePublicKey (NodeLeaf (exMember 2)))"
    using exKeyHpke_correct(2) by (simp add: exGroupSuite_def exKeySuite_def getHpkePublicKey_def exMember_def)
  from leaf_memberKeys [OF leaves get this]
  show ?thesis using exGroupTree_good get
    by (simp add: inStep_def sameEpoch_def exClient_def leafAt_alt)
qed

lemma exGroupTree_leaf: "leafAt (st_ratchetTree (exClient 0 [1])) (pkp_leafIndex (st_privatePath (exClient 0 [1]))) = Some (exMember 1)"
  by (simp add: exClient_def leafAt_alt exGroupTree_get)

text \<open>A newcomer, whose key package the member at leaf 0 adds while it removes the member at leaf 1.\<close>

definition exPackage :: "8 word \<Rightarrow> keyPackage" where
  "exPackage k = (case generateKeyPackage (CredentialBasic [k]) (ln_capabilities (exMember k))
      \<lparr>notBefore = 0, notAfter = 2000\<rparr> [] exGroupSuite [] ([k + 10], ()) ([k + 20], [k + 20]) ([k], [k]) of
     Inr (kp, _) \<Rightarrow> kp
   | Inl _ \<Rightarrow> \<lparr>kp_version = PV_mls10, kp_cipherSuite = cs_name exGroupSuite, kp_initKey = [], kp_leafNode = exMember k,
       kp_extensions = [], kp_signature = []\<rparr>)"

definition exReplaced :: "applyProposalsResult result" where
  "exReplaced = applyProposals (exClient 1 [2]) [InlineProposal (ProposalRemove 1), InlineProposal (ProposalAdd (exPackage 3))]
     (Some 0) (\<lambda>_. None) False exGroupSuite None (Some ST_member) 1000"

lemma exReplaced_made:
  obtains res added ctx where "applyProposals (exClient 1 [2]) [InlineProposal (ProposalRemove 1),
      InlineProposal (ProposalAdd (exPackage 3))] (Some 0) (\<lambda>_. None) False exGroupSuite None (Some ST_member) 1000 = Inr res"
    "ap_additionalResult res = MemberCommit added ctx" "length (ap_tree res) < 2 ^ 30" "1 \<in> fst ` set added"
    "\<exists>p\<in>set (ap_allProposals res). pw_proposal p = ProposalRemove 1"
proof -
  have "case exReplaced of Inl e \<Rightarrow> False | Inr res \<Rightarrow> length (ap_tree res) \<le> 3 \<and>
     list_ex (\<lambda>p. pw_proposal p = ProposalRemove 1) (ap_allProposals res) \<and>
     (case ap_additionalResult res of MemberCommit added ctx \<Rightarrow> list_ex (\<lambda>a. fst a = 1) added | _ \<Rightarrow> False)"
    by code_simp
  then obtain res added ctx where r: "exReplaced = Inr res" "ap_additionalResult res = MemberCommit added ctx"
      "length (ap_tree res) \<le> 3" "list_ex (\<lambda>a. fst a = 1) added"
      "list_ex (\<lambda>p. pw_proposal p = ProposalRemove 1) (ap_allProposals res)"
    by (auto split: sum.splits applyProposalsData.splits)
  show ?thesis
  proof (rule that [OF r(1) [unfolded exReplaced_def] r(2)])
    show "length (ap_tree res) < 2 ^ 30" using r(3) by simp
    show "1 \<in> fst ` set added" using r(4) by (force simp: list_ex_iff)
    show "\<exists>p\<in>set (ap_allProposals res). pw_proposal p = ProposalRemove 1" using r(5) by (simp add: list_ex_iff)
  qed
qed

definition exGrouped :: proposals where
  "exGrouped = emptyProposals\<lparr>pr_remove := [(Some 0, 1)], pr_add := [(Some 0, exPackage 3)]\<rparr>"

lemma exGrouped_applied:
  obtains t added where "applyTreeMutations exGroupTree exGrouped exContext False unsafeAcceptAllAuthenticationService
      defaultLifetimeConfig exGroupSuite 1000 = Inr (t, added)" "length t < 2 ^ 30"
proof -
  have "case applyTreeMutations exGroupTree exGrouped exContext False unsafeAcceptAllAuthenticationService
      defaultLifetimeConfig exGroupSuite 1000 of Inl e \<Rightarrow> False | Inr (t, added) \<Rightarrow> length t \<le> 3"
    by code_simp
  then show ?thesis by (auto split: sum.splits intro!: that)
qed

text \<open>A tree as a joiner receives it.\<close>

definition exJoined :: ratchetTree where
  "exJoined = [Some (NodeLeaf (kp_leafNode (exPackage 1))), None, Some (NodeLeaf (kp_leafNode (exPackage 2)))]"

lemma exJoined_accepted:
  obtains bs hash where "decodeRatchetTree bs 0 = Inr (Some (exJoined, length bs))"
    "validateRatchetTree exJoined exContext defaultLifetimeConfig unsafeAcceptAllAuthenticationService hash exGroupSuite 1000 = Inr None"
proof -
  have "case encodeRatchetTree exJoined of Inl e \<Rightarrow> False | Inr bs \<Rightarrow> True" by code_simp
  then obtain bs where bs: "encodeRatchetTree exJoined = Inr bs" by (auto split: sum.splits)
  have "full 1 exJoined" "length (stripBlankNodes exJoined) = 3" by (simp add: full_def exJoined_def) code_simp
  moreover have "list_all (\<lambda>x. \<forall>v\<in>set_option x. okNode v) exJoined" "unmergedLeavesInRange exJoined" by code_simp+
  ultimately have "okRatchetTree exJoined" by (auto simp: okRatchetTree_def compactTree_def intro!: exI [of _ "1 :: nat"])
  from ratchetTree.decode_encode [OF this bs] have d: "decodeRatchetTree bs 0 = Inr (Some (exJoined, length bs))" by simp
  have "case treeHashOf exGroupSuite exJoined of Inl e \<Rightarrow> False | Inr hash \<Rightarrow>
      validateRatchetTree exJoined exContext defaultLifetimeConfig unsafeAcceptAllAuthenticationService hash exGroupSuite 1000 = Inr None"
    by code_simp
  then show ?thesis by (auto split: sum.splits intro: that [OF d])
qed

end
