(* ===== verification/GroupState.thy ===== *)
theory GroupState imports CommitAgreement begin

text \<open>
  The life of a client in a group: every operation that a member calls is a step from one state to
  the next.  A step either stays in the epoch, or leads to the next one.  \<open>tidyState\<close> bounds what a
  state accumulates: pending proposals and receiver data of past epochs.
\<close>

section \<open>The steps\<close>

inductive clientStep :: "('pub, 'priv, 'sk) ciphersuiteImpl \<Rightarrow> 'sk clientState \<Rightarrow> 'sk clientState \<Rightarrow> bool"
  for cs :: "('pub, 'priv, 'sk) ciphersuiteImpl" where
  sent_application: "createApplicationMessage s message cs ad guard = Inr (s', msg) \<Longrightarrow> clientStep cs s s'"
| sent_proposal: "createProposal s isPublic p cs ad guard now = Inr (s', sent) \<Longrightarrow> clientStep cs s s'"
| sent_update: "createUpdateProposal s isPublic cs ad patch keyPair guard now = Inr (s', sent) \<Longrightarrow> clientStep cs s s'"
| discarded: "clientStep cs s (discardPendingProposal s ref)"
| committed: "createCommit s findPsk cs options secret guard now = Inr cr \<Longrightarrow> clientStep cs s (cr_newState cr)"
| processed: "processMessage message s findPsk onMessage cs now = Inr (NewState r) \<Longrightarrow> clientStep cs s (sa_newState r)"
| opened: "processMessage message s findPsk onMessage cs now = Inr (ApplicationMessage d s' sender ad) \<Longrightarrow> clientStep cs s s'"

section \<open>What a state accumulates\<close>

definition tidyState :: "'sk clientState \<Rightarrow> bool" where
  "tidyState s \<longleftrightarrow>
     distinct (map fst (st_unappliedProposals s)) \<and>
     int (length (st_unappliedProposals s)) \<le> max 0 (cc_maxPendingProposals (st_clientConfig s)) \<and>
     distinct (map fst (st_historicalReceiverData s)) \<and>
     int (length (st_historicalReceiverData s)) \<le> max 0 (kr_retainKeysForEpochs (cc_keyRetentionConfig (st_clientConfig s))) \<and>
     (\<forall>e\<in>set (st_historicalReceiverData s). fst e < gc_epoch (st_groupContext s))"

lemma update_fresh_length: "k \<notin> fst ` set al \<Longrightarrow> AList.update k v al = al @ [(k, v)]"
  by (induction al) auto

lemma length_update_le: "length (AList.update k v al) \<le> Suc (length al)"
  by (induction al) auto

lemma length_update_same: "k \<in> fst ` set al \<Longrightarrow> length (AList.update k v al) = length al"
  by (induction al) auto

lemma removeOldHistorical:
  assumes "distinct (map fst al)" "0 < limit"
  shows "distinct (map fst (removeOldHistoricalReceiverData al limit)) \<and>
    int (length (removeOldHistoricalReceiverData al limit)) \<le> limit \<and>
    fst ` set (removeOldHistoricalReceiverData al limit) \<subseteq> fst ` set al"
proof -
  have "set (drop n (sort (map fst al))) \<subseteq> fst ` set al" for n
    using set_drop_subset [of n "sort (map fst al)"] by simp
  then show ?thesis using assms
    by (simp add: removeOldHistoricalReceiverData_def Let_def comp_def image_image)
qed

lemma addHistorical_tidy:
  assumes "tidyState s"
  shows "distinct (map fst (addHistoricalReceiverData s)) \<and>
    int (length (addHistoricalReceiverData s)) \<le> max 0 (kr_retainKeysForEpochs (cc_keyRetentionConfig (st_clientConfig s))) \<and>
    (\<forall>e\<in>set (addHistoricalReceiverData s). fst e \<le> gc_epoch (st_groupContext s))"
proof -
  let ?e = "gc_epoch (st_groupContext s)" and ?h = "st_historicalReceiverData s"
  let ?limit = "kr_retainKeysForEpochs (cc_keyRetentionConfig (st_clientConfig s))"
  have old: "distinct (map fst ?h)" "\<forall>e\<in>set ?h. fst e < ?e" using assms by (simp_all add: tidyState_def)
  then have fresh: "?e \<notin> fst ` set ?h" by force
  have new: "distinct (map fst (?h @ [(?e, d)]))" "\<forall>e\<in>set (?h @ [(?e, d)]). fst e \<le> ?e" for d
    using old fresh by (auto simp: less_imp_le)
  have kept: "\<forall>e\<in>set (removeOldHistoricalReceiverData (?h @ [(?e, d)]) ?limit). fst e \<le> ?e" if "0 < ?limit" for d
    using removeOldHistorical [OF new(1) [of d] that] new(2) [of d] by fastforce
  show ?thesis
    using new kept removeOldHistorical [OF new(1)]
    by (cases "0 < ?limit") (simp_all add: addHistoricalReceiverData_def Let_def update_fresh_length [OF fresh] del: set_append)
qed

section \<open>Staying in the epoch and leaving it\<close>

text \<open>What belongs to the epoch: everything but the ratchets, the pending proposals and their keys,
  and the receiver data.\<close>

definition sameGroup :: "'sk clientState \<Rightarrow> 'sk clientState \<Rightarrow> bool" where
  "sameGroup s s' \<longleftrightarrow> st_groupContext s' = st_groupContext s \<and> st_keySchedule s' = st_keySchedule s \<and>
     st_ratchetTree s' = st_ratchetTree s \<and> st_privatePath s' = st_privatePath s \<and>
     st_signaturePrivateKey s' = st_signaturePrivateKey s \<and> st_confirmationTag s' = st_confirmationTag s \<and>
     st_clientConfig s' = st_clientConfig s"

definition nextEpoch :: "'sk clientState \<Rightarrow> 'sk clientState \<Rightarrow> bool" where
  "nextEpoch s s' \<longleftrightarrow> gc_epoch (st_groupContext s') = gc_epoch (st_groupContext s) + 1 \<and>
     gc_groupId (st_groupContext s') = gc_groupId (st_groupContext s) \<and>
     pkp_leafIndex (st_privatePath s') = pkp_leafIndex (st_privatePath s) \<and>
     st_clientConfig s' = st_clientConfig s \<and> st_unappliedProposals s' = [] \<and> st_pendingUpdateKeys s' = None \<and>
     (\<exists>ratchets. st_historicalReceiverData s' = addHistoricalReceiverData (s\<lparr>st_secretTree := ratchets\<rparr>))"

text \<open>A step within the epoch: it may end the membership, and it keeps the bounds.\<close>

definition staysInEpoch :: "'sk clientState \<Rightarrow> 'sk clientState \<Rightarrow> bool" where
  "staysInEpoch s s' \<longleftrightarrow> sameGroup s s' \<and> (tidyState s \<longrightarrow> tidyState s') \<and>
     (st_groupActiveState s' = st_groupActiveState s \<or>
      st_groupActiveState s = Active \<and> st_groupActiveState s' = RemovedFromGroup)"

lemma nextEpoch_tidy:
  assumes "nextEpoch s s'" "tidyState s" shows "tidyState s'"
proof -
  obtain ratchets where h: "st_historicalReceiverData s' = addHistoricalReceiverData (s\<lparr>st_secretTree := ratchets\<rparr>)"
    using assms(1) by (auto simp: nextEpoch_def)
  have "tidyState (s\<lparr>st_secretTree := ratchets\<rparr>)" using assms(2) by (simp add: tidyState_def)
  from addHistorical_tidy [OF this] h show ?thesis using assms(1) unfolding nextEpoch_def by (auto simp: tidyState_def)
qed

lemma nextEpoch_kept:
  assumes "st_historicalReceiverData s' = addHistoricalReceiverData s" "gc_epoch (st_groupContext s') = gc_epoch (st_groupContext s) + 1"
    "gc_groupId (st_groupContext s') = gc_groupId (st_groupContext s)" "st_unappliedProposals s' = []" "st_pendingUpdateKeys s' = None"
    "pkp_leafIndex (st_privatePath s') = pkp_leafIndex (st_privatePath s)" "st_clientConfig s' = st_clientConfig s"
  shows "nextEpoch s s'"
  using assms unfolding nextEpoch_def by (intro conjI exI [of _ "st_secretTree s"]) simp_all

text \<open>Only the extensions of the group context come from proposals.\<close>

lemma contextAfterProposals_same:
  assumes "applyProposals s ps committer findPsk sent cs leaf sender now = Inr res"
  shows "gc_epoch (contextAfterProposals s res) = gc_epoch (st_groupContext s) \<and>
    gc_groupId (contextAfterProposals s res) = gc_groupId (st_groupContext s)"
proof -
  obtain all where "applyMemberProposals s all (groupProposals all) committer findPsk sent cs now = Inr res \<or>
      applyExternalProposals s ps all (groupProposals all) findPsk cs leaf = Inr res"
    using assms unfolding applyProposals_def by (auto simp: Let_def res_bind_eq_Inr split: if_splits)
  then have "ap_additionalResult res = MemberCommit added ctx \<Longrightarrow>
      ctx = groupContextAfterExtensions (st_groupContext s) (groupProposals all)" for added ctx
    unfolding applyMemberProposals_def applyExternalProposals_def
    by (auto simp: Let_def res_bind_eq_Inr split: if_splits list.splits prod.splits)
  then show ?thesis
    by (auto simp: contextAfterProposals_def groupContextAfterExtensions_def split: applyProposalsData.splits)
qed

lemma nextEpochContext_next:
  "nextEpochContext gc wire content signature hash tag h = Inr gc' \<Longrightarrow>
    gc_epoch gc' = gc_epoch gc + 1 \<and> gc_groupId gc' = gc_groupId gc"
  by (auto simp: nextEpochContext_def res_bind_eq_Inr)

lemma private_leaf [simp]:
  "pkp_leafIndex (pruneBlankedNodes path t) = pkp_leafIndex path"
  "pkp_leafIndex (mergePrivateKeyPaths path keys) = pkp_leafIndex path"
  "pkp_leafIndex (updateLeafKey path k) = pkp_leafIndex path"
  by (simp_all add: pruneBlankedNodes_def mergePrivateKeyPaths_def updateLeafKey_def)

lemma addUnapplied_tidy:
  assumes "tidyState s" "checkPendingCapacity (st_unappliedProposals s) (cc_maxPendingProposals (st_clientConfig s)) = None"
  shows "tidyState (s\<lparr>st_unappliedProposals := addUnappliedProposal ref (st_unappliedProposals s) p i t\<rparr>)"
  using assms length_update_le [of ref "\<lparr>pw_proposal = p, pw_senderLeafIndex = i, pw_senderType = t\<rparr>" "st_unappliedProposals s"]
  by (auto simp: tidyState_def checkPendingCapacity_def addUnappliedProposal_def distinct_update split: if_splits)

lemma staysInEpoch_refl: "staysInEpoch s s"
  by (simp add: staysInEpoch_def sameGroup_def)

text \<open>Ratchets and pending update keys are not counted.\<close>

lemma staysInEpoch_update [simp]:
  "staysInEpoch s (s'\<lparr>st_secretTree := t\<rparr>) \<longleftrightarrow> staysInEpoch s s'"
  "staysInEpoch s (s'\<lparr>st_pendingUpdateKeys := k\<rparr>) \<longleftrightarrow> staysInEpoch s s'"
  "staysInEpoch (s\<lparr>st_secretTree := t\<rparr>) s' \<longleftrightarrow> staysInEpoch s s'"
  by (simp_all add: staysInEpoch_def sameGroup_def tidyState_def)

lemma staysInEpoch_unapplied:
  assumes "checkPendingCapacity (st_unappliedProposals s) (cc_maxPendingProposals (st_clientConfig s)) = None"
  shows "staysInEpoch s (s\<lparr>st_unappliedProposals := addUnappliedProposal ref (st_unappliedProposals s) p i t\<rparr>)"
  using addUnapplied_tidy [OF _ assms] by (simp add: staysInEpoch_def sameGroup_def)

lemma sendProposal_stays:
  "sendProposal s isPublic p cs ad guard now = Inr (s', msg, ref) \<Longrightarrow>
    staysInEpoch s s' \<and> st_groupActiveState s = Active"
  by (auto simp: sendProposal_def Let_def res_bind_eq_Inr res_map_eq_Inr withUnapplied_def checkCanSendHandshakeMessages_def
      staysInEpoch_unapplied split: if_splits groupActiveState.splits)

lemma discard_stays: "staysInEpoch s (discardPendingProposal s ref)"
proof -
  let ?al = "st_unappliedProposals s"
  have eq: "map fst (filter (\<lambda>(r, _). r \<noteq> ref) ?al) = filter (\<lambda>r. r \<noteq> ref) (map fst ?al)"
    by (simp add: filter_map comp_def case_prod_unfold)
  have "distinct (map fst ?al) \<Longrightarrow> distinct (map fst (discardUnappliedProposal ref ?al))"
    unfolding discardUnappliedProposal_def by (simp add: eq)
  moreover have "length (discardUnappliedProposal ref ?al) \<le> length ?al"
    by (simp add: discardUnappliedProposal_def)
  ultimately show ?thesis
    by (auto simp: staysInEpoch_def sameGroup_def tidyState_def discardPendingProposal_def)
qed

section \<open>Every step\<close>

lemma createCommit_step:
  assumes "createCommit s findPsk cs options secret guard now = Inr cr"
  shows "st_groupActiveState s = Active \<and> nextEpoch s (cr_newState cr)"
proof -
  obtain m where m: "commitMade s findPsk cs options secret now (cr_newState cr) m" "checkCanSendHandshakeMessages s = Inr ()"
    using createCommit_Inr [OF assms] by metis
  have res: "applyProposals s (cm_proposals (commitOf options m)) (Some (pkp_leafIndex (st_privatePath s))) findPsk True cs
      None None now = Inr (mk_res m)"
    and ctx: "nextEpochContext (contextAfterProposals s (mk_res m)) (commitWireformat options) (mk_content m) (mk_signature m)
       (mk_treeHash m) (st_confirmationTag s) (cs_hash cs) = Inr (mk_context m)"
    and pkp: "committerPrivatePath s (mk_newKey m) (mk_pathSecrets m) (mk_tree m) cs = Inr (mk_privateKeys m)"
    and new: "st_groupContext (cr_newState cr) = mk_context m" "st_privatePath (cr_newState cr) = mk_privateKeys m"
      "st_clientConfig (cr_newState cr) = st_clientConfig s" "st_unappliedProposals (cr_newState cr) = []"
      "st_pendingUpdateKeys (cr_newState cr) = None"
      "st_historicalReceiverData (cr_newState cr) = addHistoricalReceiverData s"
    using m(1) by (simp_all add: commitMade_def emptyUnappliedProposals_def)
  have "pkp_leafIndex (mk_privateKeys m) = pkp_leafIndex (st_privatePath s)"
    using pkp by (auto simp: committerPrivatePath_def res_map_eq_Inr split: option.splits)
  moreover have "st_groupActiveState s = Active"
    using m(2) by (simp add: checkCanSendHandshakeMessages_def split: groupActiveState.splits)
  ultimately show ?thesis
    using nextEpochContext_next [OF ctx] contextAfterProposals_same [OF res]
    by (simp add: new nextEpoch_kept)
qed

lemma processCommit_step:
  assumes p: "processCommit s content cm wireformat findPsk onMessage cs now = Inr r" and active: "st_groupActiveState s = Active"
  shows "staysInEpoch s (sa_newState r) \<or> nextEpoch s (sa_newState r)"
  using p
proof (cases rule: processCommit_cases)
  case (removed res)
  have "tidyState (s\<lparr>st_pendingUpdateKeys := None, st_unappliedProposals := [], st_groupActiveState := RemovedFromGroup\<rparr>)"
    if "tidyState s" using that by (simp add: tidyState_def)
  then show ?thesis using removed(3) active
    by (simp add: staysInEpoch_def sameGroup_def withoutPendingUpdateKeys_def emptyUnappliedProposals_def)
next
  case (advanced res pathKeys commitSecret tree hash tag gc epochSecrets secretTree)
  have "pkp_leafIndex (ownCommitPath s cm) = pkp_leafIndex (st_privatePath s)"
    by (simp add: ownCommitPath_def split: option.splits)
  then show ?thesis
    using nextEpochContext_next [OF advanced(6)] contextAfterProposals_same [OF advanced(1)] advanced(9)
    by (intro disjI2 nextEpoch_kept) (simp_all add: withoutPendingUpdateKeys_def emptyUnappliedProposals_def split: option.splits)
qed (simp add: staysInEpoch_refl)

lemma proposalResult_stays:
  "proposalResult s content p onMessage cs now = Inr r \<Longrightarrow> staysInEpoch s (sa_newState r)"
  by (auto simp: proposalResult_def processProposal_def Let_def res_bind_eq_Inr res_map_eq_Inr staysInEpoch_refl
      staysInEpoch_unapplied split: if_splits)

lemma receivePast_stays:
  assumes "map_of (st_historicalReceiverData s) e = Some d"
  shows "staysInEpoch s (s\<lparr>st_historicalReceiverData := AList.update e d' (st_historicalReceiverData s)\<rparr>)"
proof -
  have "e \<in> set (map fst (st_historicalReceiverData s))" using assms by (auto dest: map_of_SomeD intro: rev_image_eqI)
  then have keys: "map fst (AList.update e d' (st_historicalReceiverData s)) = map fst (st_historicalReceiverData s)"
    by (simp add: update_keys)
  have "fst ` set (AList.update e d' (st_historicalReceiverData s)) = fst ` set (st_historicalReceiverData s)"
    and length: "length (AList.update e d' (st_historicalReceiverData s)) = length (st_historicalReceiverData s)"
    using arg_cong [OF keys, of set] arg_cong [OF keys, of length] by simp_all
  moreover have "(\<forall>x\<in>set al. fst x < n) \<longleftrightarrow> (\<forall>k\<in>fst ` set al. k < n)" for al :: "(int \<times> epochReceiverData) list" and n
    by simp
  ultimately have "(\<forall>x\<in>set (AList.update e d' (st_historicalReceiverData s)). fst x < n) \<longleftrightarrow>
      (\<forall>x\<in>set (st_historicalReceiverData s). fst x < n)" for n
    by presburger
  then show ?thesis using length
    by (simp add: staysInEpoch_def sameGroup_def tidyState_def keys)
qed

lemma processPrivate_step:
  assumes "processPrivateMessage s pm findPsk cs onMessage now = Inr out"
  shows "case out of
      ApplicationMessage d s' sender ad \<Rightarrow> staysInEpoch s s'
    | NewState r \<Rightarrow> st_groupActiveState s = Active \<and> (staysInEpoch s (sa_newState r) \<or> nextEpoch s (sa_newState r))"
proof -
  have here: "throwIfRemovedFromGroup s = Inr ()"
    and susp: "throwIfSuspendedPendingReinit s (pm_epoch pm) (pm_contentType pm) = Inr ()"
    and le: "pm_epoch pm \<le> gc_epoch (st_groupContext s)"
    using assms by (auto simp: processPrivateMessage_def res_bind_eq_Inr split: if_splits)
  show ?thesis
  proof (cases "pm_epoch pm < gc_epoch (st_groupContext s)")
    case True
    then obtain rd content tree where m: "map_of (st_historicalReceiverData s) (pm_epoch pm) = Some rd"
        and u: "unprotectPrivateMessage (er_senderDataSecret rd) pm (er_secretTree rd) (er_ratchetTree rd) (er_groupContext rd)
          (cc_keyRetentionConfig (st_clientConfig s)) cs None = Inr (content, tree)" "pm_contentType pm = CT_application"
      using assms by (auto simp: processPrivateMessage_def res_bind_eq_Inr split: if_splits option.splits)
    show ?thesis using True assms receivePast_stays [OF m]
      by (cases "fc_info (ac_content content)") (auto simp: processPrivateMessage_def res_bind_eq_Inr m u split: if_splits)
  next
    case False
    then have now: "pm_epoch pm = gc_epoch (st_groupContext s)" using le by simp
    then have active: "st_groupActiveState s = Active"
      using here susp by (cases "st_groupActiveState s")
        (auto simp: throwIfRemovedFromGroup_def throwIfSuspendedPendingReinit_def split: if_splits)
    obtain content tree where u: "unprotectPrivateMessage (ks_senderDataSecret (st_keySchedule s)) pm (st_secretTree s)
         (st_ratchetTree s) (st_groupContext s) (cc_keyRetentionConfig (st_clientConfig s)) cs None = Inr (content, tree)"
      using assms False by (auto simp: processPrivateMessage_def res_bind_eq_Inr split: if_splits)
    let ?s = "s\<lparr>st_secretTree := tree\<rparr>"
    have next_eq: "nextEpoch ?s x = nextEpoch s x" for x by (simp add: nextEpoch_def)
    show ?thesis
    proof (cases "fc_info (ac_content content)")
      case (FC_application data)
      then show ?thesis using assms u False by (auto simp: processPrivateMessage_def res_bind_eq_Inr staysInEpoch_refl split: if_splits)
    next
      case (FC_proposal p)
      then obtain r where "proposalResult ?s content p onMessage cs now = Inr r" "out = NewState r"
        using assms u False by (auto simp: processPrivateMessage_def res_bind_eq_Inr res_map_eq_Inr split: if_splits)
      then show ?thesis using active proposalResult_stays by fastforce
    next
      case (FC_commit cm)
      then obtain r where "processCommit ?s content cm WF_private_message findPsk onMessage cs now = Inr r" "out = NewState r"
        using assms u False by (auto simp: processPrivateMessage_def res_bind_eq_Inr res_map_eq_Inr split: if_splits)
      then show ?thesis using active processCommit_step [of ?s content cm] next_eq by fastforce
    qed
  qed
qed

lemma processPublic_step:
  assumes "processPublicMessage s pm findPsk cs onMessage now = Inr r"
  shows "st_groupActiveState s = Active \<and> (staysInEpoch s (sa_newState r) \<or> nextEpoch s (sa_newState r))"
proof -
  obtain content where u: "unprotectPublicMessage (ks_membershipKey (st_keySchedule s)) (st_groupContext s)
         (st_ratchetTree s) pm cs None = Inr content" "throwIfRemovedFromGroup s = Inr ()"
      "throwIfSuspendedPendingReinit s (fc_epoch (pub_content pm)) (contentTypeOf (fc_info (pub_content pm))) = Inr ()"
    and info: "\<And>d. fc_info (ac_content content) \<noteq> FC_application d"
    using assms by (fastforce simp: processPublicMessage_def res_bind_eq_Inr split: if_splits)
  have "contentTypeOf (fc_info (pub_content pm)) \<noteq> CT_application"
    using u(1) by (auto simp: unprotectPublicMessage_def res_bind_eq_Inr contentTypeOf_def split: framedContentInfo.splits if_splits)
  then have active: "st_groupActiveState s = Active"
    using u(2,3) by (cases "st_groupActiveState s")
      (auto simp: throwIfRemovedFromGroup_def throwIfSuspendedPendingReinit_def split: if_splits)
  show ?thesis
  proof (cases "fc_info (ac_content content)")
    case (FC_proposal p)
    then have "proposalResult s content p onMessage cs now = Inr r"
      using assms u by (auto simp: processPublicMessage_def res_bind_eq_Inr split: if_splits)
    then show ?thesis using active proposalResult_stays by blast
  next
    case (FC_commit cm)
    then have "processCommit s content cm WF_public_message findPsk onMessage cs now = Inr r"
      using assms u by (auto simp: processPublicMessage_def res_bind_eq_Inr split: if_splits)
    then show ?thesis using active processCommit_step by blast
  qed (use info in simp)
qed

lemma processMessage_step:
  assumes "processMessage message s findPsk onMessage cs now = Inr out"
  shows "case out of
      ApplicationMessage d s' sender ad \<Rightarrow> staysInEpoch s s'
    | NewState r \<Rightarrow> st_groupActiveState s = Active \<and> (staysInEpoch s (sa_newState r) \<or> nextEpoch s (sa_newState r))"
proof (cases message)
  case (MlsPublicMessage pm)
  then show ?thesis using assms by (auto simp: processMessage_def res_map_eq_Inr dest: processPublic_step)
next
  case (MlsPrivateMessage pm)
  then show ?thesis using assms processPrivate_step by (simp add: processMessage_def)
qed (use assms in \<open>simp_all add: processMessage_def\<close>)

lemma clientStep_cases:
  assumes "clientStep cs s s'"
  shows "staysInEpoch s s' \<or> st_groupActiveState s = Active \<and> nextEpoch s s'"
  using assms
proof cases
  case (sent_application message ad guard msg)
  then show ?thesis by (auto simp: createApplicationMessage_def res_bind_eq_Inr res_map_eq_Inr staysInEpoch_refl)
next
  case (sent_proposal isPublic p ad guard now sent)
  then show ?thesis using sendProposal_stays by (fastforce simp: createProposal_def res_map_eq_Inr)
next
  case (sent_update isPublic ad patch keyPair guard now sent)
  then show ?thesis using sendProposal_stays
    by (fastforce simp: createUpdateProposal_def Let_def res_bind_eq_Inr res_map_eq_Inr split: option.splits ratchetNode.splits)
next
  case (discarded ref)
  then show ?thesis by (simp add: discard_stays)
next
  case (committed findPsk options secret guard now cr)
  then show ?thesis using createCommit_step by blast
next
  case (processed message findPsk onMessage now r)
  then show ?thesis using processMessage_step [OF processed(2)] by auto
next
  case (opened message findPsk onMessage now d sender ad)
  then show ?thesis using processMessage_step [OF opened] by auto
qed

text \<open>What holds across any number of steps.\<close>

definition follows :: "'sk clientState \<Rightarrow> 'sk clientState \<Rightarrow> bool" where
  "follows s s' \<longleftrightarrow> gc_groupId (st_groupContext s') = gc_groupId (st_groupContext s) \<and>
     pkp_leafIndex (st_privatePath s') = pkp_leafIndex (st_privatePath s) \<and> st_clientConfig s' = st_clientConfig s \<and>
     gc_epoch (st_groupContext s) \<le> gc_epoch (st_groupContext s') \<and>
     (gc_epoch (st_groupContext s') = gc_epoch (st_groupContext s) \<longrightarrow> sameGroup s s') \<and>
     (st_groupActiveState s \<noteq> Active \<longrightarrow>
        st_groupActiveState s' = st_groupActiveState s \<and> gc_epoch (st_groupContext s') = gc_epoch (st_groupContext s))"

lemma follows_refl: "follows s s"
  by (simp add: follows_def sameGroup_def)

lemma follows_trans:
  assumes "follows a b" "follows b c" shows "follows a c"
  using assms unfolding follows_def sameGroup_def by auto

lemma clientStep_follows: "clientStep cs s s' \<Longrightarrow> follows s s'"
  using clientStep_cases [of cs s s'] unfolding staysInEpoch_def nextEpoch_def follows_def sameGroup_def by auto

lemma clientStep_tidy: "clientStep cs s s' \<Longrightarrow> tidyState s \<Longrightarrow> tidyState s'"
  using clientStep_cases [of cs s s'] nextEpoch_tidy unfolding staysInEpoch_def by blast

lemma run_follows:
  assumes "(clientStep cs)\<^sup>*\<^sup>* s s'" shows "follows s s' \<and> (tidyState s \<longrightarrow> tidyState s')"
  using assms
proof induction
  case (step b c)
  then show ?case using follows_trans clientStep_follows clientStep_tidy by blast
qed (simp add: follows_refl)

end
