(* ===== verification/JoinValidation.thy ===== *)
theory JoinValidation imports TreeMutations Joining begin

text \<open>
  What a joiner knows of a ratchet tree it received and validated: it is well-formed with unique keys,
  as the trees a member reaches by commits are, except that \<^verbatim>\<open>src/client-state.ts\<close> does not ask
  whether a list of unmerged leaves repeats a leaf.
\<close>

lemma hasDuplicate_from_iff:
  "hasDuplicate_from seen xs \<longleftrightarrow> \<not> distinct (List.map_filter id xs) \<or> set (List.map_filter id xs) \<inter> set seen \<noteq> {}"
  by (induction seen xs rule: hasDuplicate_from.induct) (auto simp: List.map_filter_simps)

lemma noDuplicate_keys:
  fixes t :: ratchetTree
  assumes "\<not> hasDuplicateUint8Arrays (map (map_option f) t)" "sparse_get t i = Some n" "sparse_get t j = Some m" "i \<noteq> j"
  shows "f n \<noteq> f m"
proof -
  have d: "distinct (List.map_filter id (map (map_option f) t))"
    using assms(1) by (simp add: hasDuplicateUint8Arrays_def hasDuplicate_from_iff)
  have "a < length u \<Longrightarrow> b < length u \<Longrightarrow> a \<noteq> b \<Longrightarrow> u ! a = Some n \<Longrightarrow> u ! b = Some m \<Longrightarrow>
      distinct (List.map_filter id (map (map_option f) u)) \<Longrightarrow> f n \<noteq> f m" for a b and u :: ratchetTree
  proof (induction u arbitrary: a b)
    case (Cons x u)
    let ?keys = "set (List.map_filter id (map (map_option f) u))"
    have mem: "f y \<in> ?keys" if "u ! c = Some y" "c < length u" for c y
      using that by (force simp: List.map_filter_def in_set_conv_nth)
    have first: "x = Some y \<Longrightarrow> f y \<notin> ?keys" for y
      using Cons.prems(6) by (simp add: List.map_filter_simps id_def)
    show ?case
    proof (cases a; cases b)
      fix a' b' assume "a = Suc a'" "b = Suc b'"
      then show ?thesis using Cons.IH [of a' b'] Cons.prems by (cases x) (auto simp: List.map_filter_simps)
    next
      fix b' assume "a = 0" "b = Suc b'"
      then show ?thesis using first [of n] mem [of b' m] Cons.prems(2,4,5) by auto
    next
      fix a' assume "a = Suc a'" "b = 0"
      then show ?thesis using first [of m] mem [of a' n] Cons.prems(1,4,5) by auto
    qed (use Cons.prems(3) in simp)
  qed simp
  from this [of "nat i" t "nat j"] d show ?thesis
    using assms(2-4) sparse_get_eq_SomeD [OF assms(2)] sparse_get_eq_SomeD [OF assms(3)] by (metis eq_nat_nat_iff nat_less_iff)
qed

text \<open>The checks of an accepted tree.\<close>

lemma validateRatchetTree_accepts:
  assumes "validateRatchetTree t gc config authService expected cs now = Inr None"
  shows "treeIsStructurallySound t" "treeHashSpec (h_digest (cs_hash cs)) t (rootFromNodeWidth (int (length t))) = Inr expected"
    "validateUnmergedLeaves t = Inr None" "\<not> hasDuplicateUint8Arrays (map (map_option getHpkePublicKey) t)"
    "\<forall>x\<in>set (enumerate 0 t). leafOfTreeError t gc config authService cs now x = Inr None"
proof -
  obtain r where r: "verifyParentHashes h_digest t (cs_hash cs) None = Some r"
      "tracks (soundEntry h_digest t) r (if parentNodes t = [] then Inr True
     else res_map (\<lambda>ps. list_all (\<lambda>p. count_list ps p = 1) (parentNodes t)) (coveredSpec (h_digest (cs_hash cs)) t [0..<length t]))"
    using verifyParentHashes_agrees [of h_digest t None "cs_hash cs"] by auto
  note v = assms [unfolded validateRatchetTree_def r option.sel]
  obtain ok entry where e: "r = Inr (ok, entry)" using v by (auto simp: res_bind_eq_Inr split: if_splits)
  have "soundEntry h_digest t entry" using r(2) e by (auto simp: tracks_def split: sum.splits)
  then have track: "tracks (soundEntry h_digest t) (treeHash h_digest t (rootFromNodeWidth (int (length t))) (cs_hash cs) entry)
      (treeHashSpec (h_digest (cs_hash cs)) t (rootFromNodeWidth (int (length t))))"
    by (rule treeHash_sound)
  obtain hash entry' where h: "treeHashRoot h_digest t (cs_hash cs) entry = Inr (hash, entry')" "hash = expected"
    using v e by (auto simp: res_bind_eq_Inr constantTimeEqual_iff split: if_splits)
  show "treeHashSpec (h_digest (cs_hash cs)) t (rootFromNodeWidth (int (length t))) = Inr expected"
    using track h by (auto simp: treeHashRoot_def tracks_def split: sum.splits)
  show "treeIsStructurallySound t" "validateUnmergedLeaves t = Inr None"
    "\<not> hasDuplicateUint8Arrays (map (map_option getHpkePublicKey) t)"
    "\<forall>x\<in>set (enumerate 0 t). leafOfTreeError t gc config authService cs now x = Inr None"
    using v e h by (auto simp: res_bind_eq_Inr firstError_None split: if_splits)
qed

lemma enumerate_get: "sparse_get t (int j) = Some n \<Longrightarrow> (j, Some n) \<in> set (enumerate 0 t)"
  using sparse_get_eq_SomeD [of t "int j" n] by (force simp: in_set_enumerate_eq)

lemma accepted_leaf_fits:
  assumes "validateRatchetTree t gc config authService expected cs now = Inr None" "leafAt t l = Some lf"
  shows "leafFits t (Some l) lf"
proof -
  have get: "sparse_get t (2 * l) = Some (NodeLeaf lf)" using assms(2) by (auto simp: leafAt_alt split: option.splits ratchetNode.splits)
  have "0 \<le> l" using sparse_get_eq_SomeD [OF get] by simp
  then have "(nat (2 * l), Some (NodeLeaf lf)) \<in> set (enumerate 0 t)" using enumerate_get [of t "nat (2 * l)"] get by simp
  with validateRatchetTree_accepts(5) [OF assms(1)]
  have e: "leafOfTreeError t gc config authService cs now (nat (2 * l), Some (NodeLeaf lf)) = Inr None" by blast
  have idx: "nodeToLeafIndex (2 * l) = Inr l" "int (nat (2 * l)) = 2 * l"
    using \<open>0 \<le> l\<close> by (simp_all add: nodeToLeafIndex_def isLeaf_def)
  show ?thesis
  proof (cases "ln_info lf")
    case (InfoKeyPackage life)
    then have "validateLeafNodeKeyPackage lf gc t False config authService (Some l) (cs_signature cs) (cs_hpke cs) now = Inr None"
      using e by (simp only: leafOfTreeError_def idx prod.case option.case ratchetNode.case res_bind_Inr leafNodeInfo.case)
    then show ?thesis unfolding validateLeafNodeKeyPackage_def
      by (auto simp: res_bind_eq_Inr validateLeafNodeCommon_iff split: if_splits)
  qed (use e in \<open>auto simp: leafOfTreeError_def idx(1) idx(2) simp del: int_nat_eq intro: validateLeafNodeUpdateOrCommit_fits\<close>)
qed

lemma accepted_unique:
  assumes v: "validateRatchetTree t gc config authService expected cs now = Inr None" and parents: "\<And>i p. sparse_get t i = Some (NodeLeaf p) \<Longrightarrow> even i"
  shows "uniqueKeys t"
  unfolding uniqueKeys_def
proof (intro allI impI)
  fix i j n m assume n: "sparse_get t i = Some n" and m: "sparse_get t j = Some m" and ij: "i \<noteq> j"
  have keys: "getHpkePublicKey n \<noteq> getHpkePublicKey m"
    by (rule noDuplicate_keys [OF validateRatchetTree_accepts(4) [OF v] n m ij])
  have "signatureKeyOf n \<noteq> signatureKeyOf m" if "n = NodeLeaf a" "m = NodeLeaf b" for a b
  proof -
    have "even i" using parents [of i a] n that by simp
    then obtain l where l: "i = 2 * l" by (rule evenE)
    then have "leafAt t l = Some a" using n that by (simp add: leafAt_alt)
    then have "leafFits t (Some l) a" by (rule accepted_leaf_fits [OF v])
    moreover have "otherNode t (Some l) (NodeLeaf b)" using m that ij l by (auto simp: otherNode_def leafToNodeIndex_def)
    ultimately show ?thesis using that by (auto simp: leafFits_def signatureKeyOf_def)
  qed
  then show "getHpkePublicKey n \<noteq> getHpkePublicKey m \<and> (signatureKeyOf n = None \<or> signatureKeyOf n \<noteq> signatureKeyOf m)"
    using keys by (cases n; cases m) (auto simp: signatureKeyOf_def)
qed

lemma decoded_full:
  assumes "decodeRatchetTree bs off = Inr (Some (t, n))" "off \<le> length bs"
  obtains d where "full d t" "unmergedLeavesInRange t"
  using ratchetTree.canonical [OF assms(2,1)] by (auto simp: okRatchetTree_def compactTree_def)

lemma unmerged_below:
  assumes f: "full d t" and r: "0 \<le> l" "l < 2 ^ d" "0 \<le> m" and e: "unmergedLeafError t (nodeAt k m) l = Inr None"
  shows "l div 2 ^ k = m" "sparse_get t (2 * l) \<noteq> None"
proof -
  have dp: "directPath (leafToNodeIndex l) (leafWidth (int (length t))) = Inr (map (ancestorAt l 0) [1..<Suc d])"
    by (rule full_leaf_path [OF f r(1,2)])
  have leaf: "(case sparse_get t (leafToNodeIndex l) of Some (NodeLeaf _) \<Rightarrow> False | _ \<Rightarrow> True) = False"
    and mem: "nodeAt k m \<in> set (map (ancestorAt l 0) [1..<Suc d])"
    using e by (auto simp: unmergedLeafError_def Let_def dp simp del: upt_Suc split: if_splits)
  show "sparse_get t (2 * l) \<noteq> None" using leaf by (cases "sparse_get t (2 * l)") (simp_all add: leafToNodeIndex_def mult.commute)
  obtain j where "nodeAt k m = nodeAt j (l div 2 ^ j)" using mem by (auto simp: ancestorAt_def simp del: upt_Suc)
  then show "l div 2 ^ k = m" using nodeAt_inj [of k m j "l div 2 ^ j"] r by (simp add: pos_imp_zdiv_nonneg_iff)
qed

text \<open>An accepted tree lacks nothing of a well-formed one but distinct unmerged leaves.\<close>

lemma accepted_okAt:
  assumes v: "validateRatchetTree t gc config authService expected cs now = Inr None"
    and f: "full d t" "unmergedLeavesInRange t" and km: "inTree d k m" "sparse_get t (nodeAt k m) = Some n"
  shows "okAt t k m n \<longleftrightarrow> (case n of NodeLeaf _ \<Rightarrow> True | NodeParent p \<Rightarrow> distinct (pn_unmergedLeaves p))"
proof -
  have i: "0 \<le> nodeAt k m" using sparse_get_eq_SomeD [OF km(2)] by simp
  then have mem: "(nat (nodeAt k m), Some n) \<in> set (enumerate 0 t)" using enumerate_get [of t "nat (nodeAt k m)"] km(2) by simp
  have kind: "case n of NodeLeaf _ \<Rightarrow> k = 0 | NodeParent _ \<Rightarrow> k > 0"
    using bspec [OF validateRatchetTree_accepts(1) [OF v, unfolded treeIsStructurallySound_def list_all_iff] mem] i
    by (cases n) simp_all
  show ?thesis
  proof (cases n)
    case (NodeParent p)
    have "l div 2 ^ k = m \<and> sparse_get t (2 * l) \<noteq> None" if l: "l \<in> set (pn_unmergedLeaves p)" for l
    proof -
      have "Some n \<in> set t" using mem by (auto simp: in_set_enumerate_eq intro: nth_mem [THEN subst [where P = "\<lambda>x. x \<in> set t", rotated]])
      then have "0 \<le> l \<and> l < 2 ^ d"
        using f(2) l NodeParent full_leafWidth [OF f(1)] by (fastforce simp: unmergedLeavesInRange_def Let_def list_all_iff)
      moreover have "unmergedLeafError t (nodeAt k m) l = Inr None"
        using bspec [OF validateRatchetTree_accepts(3) [OF v, unfolded validateUnmergedLeaves_def firstError_None] mem] NodeParent l i
        by (simp add: firstError_None)
      ultimately show ?thesis using unmerged_below [OF f(1)] km(1) by (auto simp: inTree_def)
    qed
    then show ?thesis using kind NodeParent by (auto simp: okAt_def)
  qed (use kind in \<open>simp add: okAt_def\<close>)
qed

lemma full_same: "full d t \<Longrightarrow> full e t \<Longrightarrow> e = d"
proof -
  assume "full d t" "full e t"
  then have "(2 :: nat) ^ Suc d - 1 = 2 ^ Suc e - 1" by (simp add: full_def)
  then have "(2 :: nat) ^ Suc d = 2 ^ Suc e"
    by (simp only: eq_diff_iff one_le_power one_le_numeral)
  then have "Suc d = Suc e" by (rule power_inject_exp [THEN iffD1, rotated]) simp
  then show ?thesis by simp
qed

lemma accepted_tree:
  assumes v: "validateRatchetTree t gc config authService expected cs now = Inr None"
    and f: "full d t" "unmergedLeavesInRange t"
  shows "goodTree t \<longleftrightarrow> (\<forall>p. Some (NodeParent p) \<in> set t \<longrightarrow> distinct (pn_unmergedLeaves p))"
proof -
  have at: "\<exists>k m. inTree d k m \<and> i = nodeAt k m \<and> sparse_get t (nodeAt k m) = Some n" if "sparse_get t i = Some n" for i n
    using full_index [OF f(1)] sparse_get_eq_SomeD [OF that] that by metis
  have "even i" if leaf: "sparse_get t i = Some (NodeLeaf p)" for i p
  proof -
    obtain k m where km: "inTree d k m" "i = nodeAt k m" "sparse_get t (nodeAt k m) = Some (NodeLeaf p)" using at [OF leaf] by blast
    then have "k = 0" using accepted_okAt [OF v f km(1,3)] by (simp add: okAt_def)
    then show ?thesis using km(2) by simp
  qed
  then have "uniqueKeys t" by (rule accepted_unique [OF v])
  moreover have "(\<exists>d. wfTree d t) \<longleftrightarrow> wfTree d t"
    using full_same [OF f(1)] wfTree_full by blast
  moreover have "wfTree d t \<longleftrightarrow> (\<forall>p. Some (NodeParent p) \<in> set t \<longrightarrow> distinct (pn_unmergedLeaves p))"
  proof
    assume wf: "wfTree d t"
    show "\<forall>p. Some (NodeParent p) \<in> set t \<longrightarrow> distinct (pn_unmergedLeaves p)"
    proof (intro allI impI)
      fix p assume "Some (NodeParent p) \<in> set t"
      then obtain i where "sparse_get t i = Some (NodeParent p)" using sparse_get_nth by (metis in_set_conv_nth)
      then obtain k m where km: "inTree d k m" "sparse_get t (nodeAt k m) = Some (NodeParent p)" using at by blast
      then show "distinct (pn_unmergedLeaves p)" using wfTree_at [OF wf km] by (simp add: okAt_def)
    qed
  next
    assume dist: "\<forall>p. Some (NodeParent p) \<in> set t \<longrightarrow> distinct (pn_unmergedLeaves p)"
    have "okAt t k m n" if km: "inTree d k m" "sparse_get t (nodeAt k m) = Some n" for k m n
    proof -
      have "Some n \<in> set t" using sparse_get_eq_SomeD [OF km(2)] by (metis nat_less_iff nth_mem)
      then show ?thesis using accepted_okAt [OF v f km] dist by (auto split: ratchetNode.splits)
    qed
    then show "wfTree d t" using f(1) by (simp add: wfTree_def)
  qed
  ultimately show ?thesis by (simp add: goodTree_def)
qed

end
