(* ===== verification/EpochTraffic.thy ===== *)
theory EpochTraffic imports CommitAgreement begin

text \<open>
  What follows a commit: the first messages of the new epoch, and how a member learns that a commit
  removed it.
\<close>

section \<open>Application data in a new epoch\<close>

lemma createSecretTree_fresh:
  assumes "createSecretTree lw es kdf = Inr t" "sparse_get t i = Some n"
  shows "\<exists>s. sn_application n = \<lparr>rt_secret = s, rt_generation = 0, rt_unused = []\<rparr>"
proof -
  obtain j where j: "t ! j = Some n" "j < length t" using sparse_get_eq_SomeD [OF assms(2)] by (metis nat_less_iff)
  let ?node = "\<lambda>(index, secret). case secret of
           None \<Rightarrow> Inr None
         | Some s \<Rightarrow> if \<not> isLeaf (int index) then Inr None
             else res_bind (createRatchetRoot s ''application'' kdf) (\<lambda>application.
               res_bind (createRatchetRoot s ''handshake'' kdf) (\<lambda>handshake.
                 Inr (Some \<lparr>sn_handshake = handshake, sn_application = application\<rparr>)))"
  obtain tree where "res_mapM ?node (enumerate 0 tree) = Inr t"
    using assms(1) by (auto simp: createSecretTree_def res_bind_eq_Inr)
  from list_all2_nthD2 [OF res_mapM_eq_InrD [OF this] j(2)] j(1)
  have "?node (enumerate 0 tree ! j) = Inr (Some n)" by simp
  then show ?thesis
    by (cases "enumerate 0 tree ! j") (auto simp: createRatchetRoot_def res_bind_eq_Inr split: option.splits if_splits)
qed

text \<open>A message between two members of one epoch whose ratchets are fresh.\<close>

lemma application_in_epoch:
  fixes cs :: "('pub, 'priv, 'sk) ciphersuiteImpl"
  assumes sent: "createApplicationMessage a message cs ad guard = Inr (a', pm)"
    and b: "sameEpoch a b" "st_secretTree b = st_secretTree a" "st_groupActiveState b = Active"
    and fresh: "\<And>i n. sparse_get (st_secretTree a) i = Some n \<Longrightarrow>
      \<exists>s. sn_application n = \<lparr>rt_secret = s, rt_generation = 0, rt_unused = []\<rparr>"
    and cs: "paramsOk (ratchetParams cs)" "aeadCorrect (cs_hpke cs)" "length guard = 4"
      "0 \<le> kr_maximumForwardRatchetSteps (cc_keyRetentionConfig (st_clientConfig a))"
    and leaf: "leafAt (st_ratchetTree a) (pkp_leafIndex (st_privatePath a)) = Some lf"
      "signatureCorrect (cs_signature cs) (st_signaturePrivateKey a) (ln_signaturePublicKey lf)"
  shows "\<exists>b'. processMessage (MlsPrivateMessage pm) b findPsk onMessage cs now = Inr (ApplicationMessage message b'
    \<lparr>as_senderType = ST_member, as_leafIndex = Some (pkp_leafIndex (st_privatePath a))\<rparr> ad)"
proof -
  let ?l = "pkp_leafIndex (st_privatePath a)" and ?gc = "st_groupContext a"
  obtain ta' where p: "protectApplicationData (st_signaturePrivateKey a) (ks_senderDataSecret (st_keySchedule a)) message ad
      ?gc (st_secretTree a) ?l (cc_paddingConfig (st_clientConfig a)) cs guard = Inr (pm, ta')"
    using sent by (auto simp: createApplicationMessage_def res_bind_eq_Inr res_map_eq_Inr)
  then have pm: "pm_groupId pm = gc_groupId ?gc" "pm_epoch pm = gc_epoch ?gc"
      and "sparse_get (st_secretTree a) (leafToNodeIndex ?l) \<noteq> None"
    by (auto simp: protectApplicationData_def protect_def Let_def res_bind_eq_Inr split: if_splits)
  then obtain na where na: "sparse_get (st_secretTree a) (leafToNodeIndex ?l) = Some na" by blast
  obtain s where s: "sn_application na = \<lparr>rt_secret = s, rt_generation = 0, rt_unused = []\<rparr>" using fresh [OF na] by blast
  have good: "goodRatchet (ratchetParams cs) s (sn_application na)" by (simp add: s goodRatchet_def)
  have recv: "canReceive (cc_keyRetentionConfig (st_clientConfig a)) (sn_application na) (rt_generation (sn_application na))"
    using cs(4) by (simp add: canReceive_def s)
  have "sparse_get (st_ratchetTree a) (leafToNodeIndex ?l) = Some (NodeLeaf lf)"
    using leaf(1) by (auto simp: leafAt_def split: option.splits ratchetNode.splits)
  from application_delivery [OF cs(1,2) leaf(2) na good na good recv cs(3) this p]
  obtain content tb' where o: "unprotectPrivateMessage (ks_senderDataSecret (st_keySchedule a)) pm (st_secretTree a)
      (st_ratchetTree a) ?gc (cc_keyRetentionConfig (st_clientConfig a)) cs None = Inr (content, tb')"
    "fc_info (ac_content content) = FC_application message" "fc_sender (ac_content content) = SenderMember ?l"
    "fc_authenticatedData (ac_content content) = ad"
    by blast
  then show ?thesis using b pm
    by (simp add: processMessage_def processPrivateMessage_def throwIfRemovedFromGroup_def throwIfSuspendedPendingReinit_def
        sameEpoch_def constantTimeEqual_iff memberSender_def)
qed

lemma createCommit_secretTree:
  assumes "createCommit a findPsk cs options secret guard now = Inr cr"
  shows "\<exists>lw es. createSecretTree lw es (cs_kdf cs) = Inr (st_secretTree (cr_newState cr))"
proof -
  obtain m where "commitMade a findPsk cs options secret now (cr_newState cr) m" using createCommit_Inr [OF assms] by metis
  then show ?thesis by (auto simp: commitMade_def)
qed

section \<open>Learning of one's removal\<close>

lemma groupProposals_remove:
  "u \<in> set (pr_remove (groupProposals all)) \<longleftrightarrow>
    (\<exists>p\<in>set all. pw_proposal p = ProposalRemove (snd u) \<and> pw_senderLeafIndex p = fst u)"
proof -
  have "u \<in> set (pr_remove (foldl groupProposal acc all)) \<longleftrightarrow> u \<in> set (pr_remove acc) \<or>
      (\<exists>p\<in>set all. pw_proposal p = ProposalRemove (snd u) \<and> pw_senderLeafIndex p = fst u)" for acc
  proof (induction all arbitrary: acc)
    case (Cons p all)
    have "u \<in> set (pr_remove (groupProposal acc p)) \<longleftrightarrow> u \<in> set (pr_remove acc) \<or>
        pw_proposal p = ProposalRemove (snd u) \<and> pw_senderLeafIndex p = fst u"
      by (cases u; cases "pw_proposal p") (auto simp: groupProposal_def)
    then show ?case using Cons.IH by auto
  qed simp
  from this [of emptyProposals] show ?thesis by (simp add: groupProposals_def emptyProposals_def)
qed

lemma specUpdate_dom: "m i \<noteq> None \<Longrightarrow> foldl specUpdate m ups i \<noteq> None"
proof (induction ups arbitrary: m)
  case (Cons u ups)
  then have "specUpdate m u i \<noteq> None" by (cases u) (auto simp: specUpdate_def split: option.splits)
  then show ?case using Cons.IH by simp
qed simp

lemma specRemove_None: "foldl specRemove m rms i = None \<longleftrightarrow> m i = None \<or> i \<in> snd ` set rms"
  by (induction rms arbitrary: m) (auto simp: specRemove_def split: prod.splits)

lemma specAdd_None:
  assumes "finite (dom m)"
  shows "foldl specAdd m adds i = None \<longleftrightarrow> m i = None \<and> i \<notin> fst ` set (specPlaces m adds)"
  using assms
proof (induction adds arbitrary: m)
  case (Cons a adds)
  obtain s kp where a: "a = (s, kp)" by fastforce
  have "finite (dom (specAdd m a))" using Cons.prems by (simp add: a specAdd_def del: fun_upd_apply)
  moreover have "specAdd m a i = None \<longleftrightarrow> m i = None \<and> i \<noteq> freeIndex m" by (simp add: a specAdd_def)
  ultimately show ?case using Cons.IH [of "specAdd m a"] by (auto simp: a)
qed simp

lemma selfRemoved_iff:
  assumes p: "applyProposals s ps (Some l) findPsk sent cs leaf sender now = Inr res" "ap_additionalResult res = MemberCommit added ctx"
    and good: "goodTree (st_ratchetTree s)" "length (ap_tree res) < 2 ^ 30"
    and here: "leafAt (st_ratchetTree s) (pkp_leafIndex (st_privatePath s)) \<noteq> None"
  shows "ap_selfRemoved res \<longleftrightarrow>
    (\<exists>p\<in>set (ap_allProposals res). pw_proposal p = ProposalRemove (pkp_leafIndex (st_privatePath s))) \<and>
    pkp_leafIndex (st_privatePath s) \<notin> fst ` set added"
proof -
  let ?own = "pkp_leafIndex (st_privatePath s)"
  obtain all where "applyMemberProposals s all (groupProposals all) (Some l) findPsk sent cs now = Inr res \<or>
      applyExternalProposals s ps all (groupProposals all) findPsk cs leaf = Inr res"
    using p(1) unfolding applyProposals_def by (auto simp: Let_def res_bind_eq_Inr split: if_splits)
  moreover have "applyExternalProposals s ps all (groupProposals all) findPsk cs leaf \<noteq> Inr res"
    using p(2) unfolding applyExternalProposals_def by (auto simp: Let_def res_bind_eq_Inr split: if_splits)
  ultimately have m: "applyMemberProposals s all (groupProposals all) (Some l) findPsk sent cs now = Inr res" by blast
  then have all: "pr_reinit (groupProposals all) = []" "ap_allProposals res = all"
    using p(2) unfolding applyMemberProposals_def
    by (cases "pr_reinit (groupProposals all)"; auto simp: Let_def res_bind_eq_Inr)+
  let ?g = "groupProposals all"
  have t: "applyTreeMutations (st_ratchetTree s) ?g ctx sent (cc_authService (st_clientConfig s))
      (cc_lifetimeConfig (st_clientConfig s)) cs now = Inr (ap_tree res, added)"
    and self: "ap_selfRemoved res \<longleftrightarrow> sparse_get (ap_tree res) (leafToNodeIndex ?own) = None"
    using m all(1) p(2) unfolding applyMemberProposals_def by (auto simp: Let_def res_bind_eq_Inr)
  let ?m = "foldl specRemove (foldl specUpdate (leafAt (st_ratchetTree s)) (pr_update ?g)) (pr_remove ?g)"
  note ref = applyTreeMutations_refines [OF t good]
  then obtain d where d: "wfTree d (ap_tree res)" by (auto simp: goodTree_def)
  obtain lf where kept: "foldl specUpdate (leafAt (st_ratchetTree s)) (pr_update ?g) ?own = Some lf"
    using specUpdate_dom [of "leafAt (st_ratchetTree s)" ?own, OF here] by blast
  have "finite (dom ?m)" by (intro finite_specRemove finite_specUpdate finite_leaves)
  then have "leafAt (ap_tree res) ?own = None \<longleftrightarrow> ?own \<in> snd ` set (pr_remove ?g) \<and> ?own \<notin> fst ` set added"
    using ref specAdd_None [of ?m] kept
    by (simp add: specRemove_None)
  moreover have "?own \<in> snd ` set (pr_remove ?g) \<longleftrightarrow> (\<exists>p\<in>set all. pw_proposal p = ProposalRemove ?own)"
  proof -
    have "?own \<in> snd ` set (pr_remove ?g) \<longleftrightarrow> (\<exists>i. (i, ?own) \<in> set (pr_remove ?g))" by force
    then show ?thesis unfolding groupProposals_remove fst_conv snd_conv by blast
  qed
  moreover have "ap_selfRemoved res \<longleftrightarrow> leafAt (ap_tree res) ?own = None"
    using self wfTree_leafAt [OF d, of ?own] by (simp add: leafToNodeIndex_def mult.commute)
  ultimately show ?thesis by (simp add: all(2))
qed

end
