(* ===== verification/StateProperties.thy ===== *)
theory StateProperties imports StateExamples GroupState JoinValidation EpochTraffic begin

text \<open>
  Properties of the group state: proposals and commits, the life of a client, joining.
\<close>

section \<open>Proposals and commits\<close>

text \<open>C5: The tree mutations of a commit refine three updates of a map from leaf indices to leaf
  nodes: the updates, then the removes, then every added member at the lowest free index.  The
  added members get exactly those indices, and the tree stays well-formed with unique keys.\<close>

theorem tree_mutations_refine_leaf_map:
  assumes "applyTreeMutations t grouped gc sentByClient authService config cs now = Inr (t', added)"
    and "goodTree t" "length t' < 2 ^ 30"
  shows "goodTree t' \<and>
    leafAt t' = foldl specAdd (foldl specRemove (foldl specUpdate (leafAt t) (pr_update grouped)) (pr_remove grouped)) (pr_add grouped) \<and>
    added = specPlaces (foldl specRemove (foldl specUpdate (leafAt t) (pr_update grouped)) (pr_remove grouped)) (pr_add grouped)"
  using applyTreeMutations_refines [OF assms] by blast

theorem tree_mutations_refine_leaf_map_witness:
  "\<exists>t added. leafAt t = specAdd ((leafAt exGroupTree)(1 := None)) (Some 0, exPackage 3) \<and>
    applyTreeMutations exGroupTree exGrouped exContext False unsafeAcceptAllAuthenticationService
      defaultLifetimeConfig exGroupSuite 1000 = Inr (t, added)"
proof -
  obtain t added where t: "applyTreeMutations exGroupTree exGrouped exContext False unsafeAcceptAllAuthenticationService
      defaultLifetimeConfig exGroupSuite 1000 = Inr (t, added)" "length t < 2 ^ 30"
    by (rule exGrouped_applied)
  from tree_mutations_refine_leaf_map [OF t(1) exGroupTree_good t(2)] t(1) show ?thesis
    by (auto simp: exGrouped_def emptyProposals_def specRemove_def)
qed

text \<open>C9: Whatever commit a member processes, accepted or rejected, from a member or from outside, a
  well-formed tree with unique keys stays one.\<close>

theorem processed_commits_keep_good_trees:
  assumes "processCommit state content cm wireformat findPsk onMessage cs now = Inr r"
    and "goodTree (st_ratchetTree state)" "length (st_ratchetTree (sa_newState r)) < 2 ^ 30"
  shows "goodTree (st_ratchetTree (sa_newState r))"
  by (rule processCommit_good [OF assms])

theorem processed_commits_keep_good_trees_witness:
  "\<exists>(content :: authenticatedContent) cm (r :: unit stateWithAction). processCommit (exClient 1 [2]) content cm WF_public_message
      (\<lambda>_. None) (\<lambda>_. Reject) exGroupSuite 1000 = Inr r \<and> goodTree (st_ratchetTree (sa_newState r))"
proof -
  let ?content = "\<lparr>ac_wireformat = WF_public_message, ac_content = memberContent exContext 0 [] (FC_commit \<lparr>cm_proposals = [], cm_path = None\<rparr>),
     ac_auth = \<lparr>fa_signature = [], fa_content = AuthCommit []\<rparr>\<rparr>"
  let ?run = "processCommit (exClient 1 [2]) ?content \<lparr>cm_proposals = [], cm_path = None\<rparr> WF_public_message
      (\<lambda>_. None) (\<lambda>_. Reject) exGroupSuite 1000"
  have "case ?run of Inl e \<Rightarrow> False | Inr r \<Rightarrow> length (st_ratchetTree (sa_newState r)) \<le> 3" by code_simp
  then obtain r where r: "?run = Inr r" "length (st_ratchetTree (sa_newState r)) < 2 ^ 30" by (auto split: sum.splits)
  from processed_commits_keep_good_trees [OF r(1) _ r(2)] r(1) exGroupTree_good show ?thesis
    by (auto simp: exClient_def)
qed

text \<open>C1: A member in step with the committer processes its public commit and is in step with the
  committer's new state: the same context, keys, tree and confirmation tag, private keys that agree
  with the new tree, and the same secret tree.\<close>

theorem commit_brings_members_in_step:
  fixes cs :: "('pub, 'priv, 'sk) ciphersuiteImpl"
  assumes "createCommit a findPsk cs options secret guard now = Inr cr"
    and "inStep (cs_hpke cs) a r b" "r \<noteq> pkp_leafIndex (st_privatePath a)"
    and "clockAllows (cc_lifetimeConfig (st_clientConfig a)) now now'"
    and "length (st_ratchetTree (cr_newState cr)) < 2 ^ 30" "st_groupActiveState (cr_newState cr) = Active"
    and "kemCorrect (cs_hpke cs)" "macCorrect (cs_hash cs)"
    and "leafAt (st_ratchetTree a) (pkp_leafIndex (st_privatePath a)) = Some lf"
      "signatureCorrect (cs_signature cs) (st_signaturePrivateKey a) (ln_signaturePublicKey lf)"
    and "co_wireAsPublicMessage options" "mm_content (cr_commit cr) = MlsPublicMessage pm" "fc_info (pub_content pm) = FC_commit cm"
    and "commitAdmissible b cm (pkp_leafIndex (st_privatePath a)) r findPsk cs now'"
  shows "\<exists>r'. processMessage (mm_content (cr_commit cr)) b findPsk acceptAll cs now' = Inr (NewState r') \<and>
    inStep (cs_hpke cs) (cr_newState cr) r (sa_newState r') \<and> st_secretTree (sa_newState r') = st_secretTree (cr_newState cr)"
  by (rule public_commit_followed [OF assms])

theorem commit_brings_members_in_step_witness:
  "\<exists>cr r'. createCommit (exClient 0 [1]) (\<lambda>_. None) exGroupSuite (exOptions True []) [5, 6] [1, 2, 3, 4] 1000 = Inr cr \<and>
    processMessage (mm_content (cr_commit cr)) (exClient 1 [2]) (\<lambda>_. None) acceptAll exGroupSuite 1000 = Inr (NewState r') \<and>
    inStep (cs_hpke exGroupSuite) (cr_newState cr) 1 (sa_newState r')"
proof -
  obtain cr pm cm where c: "createCommit (exClient 0 [1]) (\<lambda>_. None) exGroupSuite (exOptions True []) [5, 6] [1, 2, 3, 4] 1000 = Inr cr"
    "st_groupActiveState (cr_newState cr) = Active" "length (st_ratchetTree (cr_newState cr)) < 2 ^ 30"
    "mm_content (cr_commit cr) = MlsPublicMessage pm" "fc_info (pub_content pm) = FC_commit cm"
    "commitAdmissible (exClient 1 [2]) cm 0 1 (\<lambda>_. None) exGroupSuite 1000"
    by (rule exCommit_made)
  have own: "pkp_leafIndex (st_privatePath (exClient 0 [1])) = 0" by (simp add: exClient_def)
  have "\<exists>r'. processMessage (mm_content (cr_commit cr)) (exClient 1 [2]) (\<lambda>_. None) acceptAll exGroupSuite 1000 = Inr (NewState r') \<and>
    inStep (cs_hpke exGroupSuite) (cr_newState cr) 1 (sa_newState r') \<and> st_secretTree (sa_newState r') = st_secretTree (cr_newState cr)"
    by (rule commit_brings_members_in_step [OF c(1) exClient_inStep _ _ c(3,2) exGroupSuite_ok(1,2) exGroupTree_leaf
          exGroupSuite_ok(3) _ c(4,5)]) (use c(6) in \<open>simp_all add: own clockAllows_def exOptions_def\<close>)
  then show ?thesis using c(1) by blast
qed

section \<open>The life of a client\<close>

text \<open>C6: Across any sequence of operations a client stays in its group, at its leaf, with its
  configuration; the epoch never goes back, and what belongs to an epoch changes only with it.  A
  client that was removed or suspended stays so, in the same epoch.  Pending proposals and the
  receiver data of past epochs stay within their limits, without duplicates, and past epochs lie
  before the current one.\<close>

theorem client_life:
  assumes "(clientStep cs)\<^sup>*\<^sup>* s s'"
  shows "follows s s' \<and> (tidyState s \<longrightarrow> tidyState s')"
  by (rule run_follows [OF assms])

theorem client_life_witness:
  "\<exists>cr. createCommit (exClient 0 [1]) (\<lambda>_. None) exGroupSuite (exOptions True []) [5, 6] [1, 2, 3, 4] 1000 = Inr cr \<and>
    follows (exClient 0 [1]) (cr_newState cr) \<and> tidyState (cr_newState cr)"
proof -
  obtain cr where c: "createCommit (exClient 0 [1]) (\<lambda>_. None) exGroupSuite (exOptions True []) [5, 6] [1, 2, 3, 4] 1000 = Inr cr"
    by (rule exCommit_made)
  have "tidyState (exClient 0 [1])" by (simp add: tidyState_def exClient_def)
  moreover have "(clientStep exGroupSuite)\<^sup>*\<^sup>* (exClient 0 [1]) (cr_newState cr)" using committed [OF c] by blast
  ultimately show ?thesis using client_life c by blast
qed

text \<open>C10: A tree that a joiner decodes and validates has the expected hash, and every leaf in it fits the
  others: its keys are unique and its credential type is supported by all.  It is as good as the
  trees that commits produce exactly if no list of unmerged leaves repeats a leaf, the one thing
  that is not checked.\<close>

theorem validated_tree_good:
  assumes "decodeRatchetTree bs 0 = Inr (Some (t, n))"
    and "validateRatchetTree t gc config authService expected cs now = Inr None"
  shows "treeHashSpec (h_digest (cs_hash cs)) t (rootFromNodeWidth (int (length t))) = Inr expected \<and>
    (\<forall>l lf. leafAt t l = Some lf \<longrightarrow> leafFits t (Some l) lf) \<and>
    (goodTree t \<longleftrightarrow> (\<forall>p. Some (NodeParent p) \<in> set t \<longrightarrow> distinct (pn_unmergedLeaves p)))"
proof -
  obtain d where d: "full d t" "unmergedLeavesInRange t" using decoded_full [OF assms(1)] by auto
  show ?thesis
    using validateRatchetTree_accepts(2) [OF assms(2)] accepted_leaf_fits [OF assms(2)] accepted_tree [OF assms(2) d] by blast
qed

theorem validated_tree_good_witness: "goodTree exJoined"
proof -
  obtain bs hash where "decodeRatchetTree bs 0 = Inr (Some (exJoined, length bs))"
    "validateRatchetTree exJoined exContext defaultLifetimeConfig unsafeAcceptAllAuthenticationService hash exGroupSuite 1000 = Inr None"
    by (rule exJoined_accepted)
  from validated_tree_good [OF this] show ?thesis by (simp add: exJoined_def)
qed

text \<open>C37: A commit from a member tells a member that it was removed exactly if it removes that member and adds
  nobody at its leaf.  When the same commit fills the leaf again, the removed member is not told.\<close>

theorem removal_noticed_iff:
  assumes "applyProposals s ps (Some l) findPsk sent cs leaf sender now = Inr res" "ap_additionalResult res = MemberCommit added ctx"
    and "goodTree (st_ratchetTree s)" "length (ap_tree res) < 2 ^ 30"
    and "leafAt (st_ratchetTree s) (pkp_leafIndex (st_privatePath s)) \<noteq> None"
  shows "ap_selfRemoved res \<longleftrightarrow>
    (\<exists>p\<in>set (ap_allProposals res). pw_proposal p = ProposalRemove (pkp_leafIndex (st_privatePath s))) \<and>
    pkp_leafIndex (st_privatePath s) \<notin> fst ` set added"
  using assms by (rule selfRemoved_iff)

theorem removal_noticed_iff_witness:
  "\<exists>res. applyProposals (exClient 1 [2]) [InlineProposal (ProposalRemove 1), InlineProposal (ProposalAdd (exPackage 3))]
      (Some 0) (\<lambda>_. None) False exGroupSuite None (Some ST_member) 1000 = Inr res \<and>
    (\<exists>p\<in>set (ap_allProposals res). pw_proposal p = ProposalRemove 1) \<and> \<not> ap_selfRemoved res"
proof -
  obtain res added ctx where r: "applyProposals (exClient 1 [2]) [InlineProposal (ProposalRemove 1),
      InlineProposal (ProposalAdd (exPackage 3))] (Some 0) (\<lambda>_. None) False exGroupSuite None (Some ST_member) 1000 = Inr res"
    "ap_additionalResult res = MemberCommit added ctx" "length (ap_tree res) < 2 ^ 30" "1 \<in> fst ` set added"
    "\<exists>p\<in>set (ap_allProposals res). pw_proposal p = ProposalRemove 1"
    by (rule exReplaced_made)
  have own: "pkp_leafIndex (st_privatePath (exClient 1 [2])) = 1" "st_ratchetTree (exClient 1 [2]) = exGroupTree"
    by (simp_all add: exClient_def)
  have here: "leafAt (st_ratchetTree (exClient 1 [2])) (pkp_leafIndex (st_privatePath (exClient 1 [2]))) \<noteq> None"
    by (simp add: own leafAt_alt exGroupTree_get)
  from removal_noticed_iff [OF r(1,2) _ r(3) here] r(1,4,5) show ?thesis by (auto simp: own exGroupTree_good)
qed

text \<open>C2: After a member followed a public commit, it opens the first application message that the
  committer sends in the new epoch: the commit and the message arrive, in this order, as sent.\<close>

theorem message_after_commit_delivered:
  fixes cs :: "('pub, 'priv, 'sk) ciphersuiteImpl"
  assumes commit: "createCommit a findPsk cs options secret guard now = Inr cr"
    and b: "inStep (cs_hpke cs) a r b" "r \<noteq> pkp_leafIndex (st_privatePath a)"
    and clock: "clockAllows (cc_lifetimeConfig (st_clientConfig a)) now now'"
    and new: "length (st_ratchetTree (cr_newState cr)) < 2 ^ 30" "st_groupActiveState (cr_newState cr) = Active"
    and crypto: "kemCorrect (cs_hpke cs)" "macCorrect (cs_hash cs)"
    and leaf: "leafAt (st_ratchetTree a) (pkp_leafIndex (st_privatePath a)) = Some lf"
      "signatureCorrect (cs_signature cs) (st_signaturePrivateKey a) (ln_signaturePublicKey lf)"
    and wire: "co_wireAsPublicMessage options" "mm_content (cr_commit cr) = MlsPublicMessage pm" "fc_info (pub_content pm) = FC_commit cm"
    and admissible: "commitAdmissible b cm (pkp_leafIndex (st_privatePath a)) r findPsk cs now'"
    and message: "createApplicationMessage (cr_newState cr) message cs ad guard' = Inr (a', sent)" "length guard' = 4"
      "0 \<le> kr_maximumForwardRatchetSteps (cc_keyRetentionConfig (st_clientConfig a))"
    and aead: "paramsOk (ratchetParams cs)" "aeadCorrect (cs_hpke cs)"
    and leaf': "leafAt (st_ratchetTree (cr_newState cr)) (pkp_leafIndex (st_privatePath a)) = Some lf'"
      "signatureCorrect (cs_signature cs) (st_signaturePrivateKey (cr_newState cr)) (ln_signaturePublicKey lf')"
  shows "\<exists>r' b'. processMessage (mm_content (cr_commit cr)) b findPsk acceptAll cs now' = Inr (NewState r') \<and>
    processMessage (MlsPrivateMessage sent) (sa_newState r') findPsk acceptAll cs now' =
      Inr (ApplicationMessage message b' \<lparr>as_senderType = ST_member, as_leafIndex = Some (pkp_leafIndex (st_privatePath a))\<rparr> ad)"
proof -
  obtain r' where r': "processMessage (mm_content (cr_commit cr)) b findPsk acceptAll cs now' = Inr (NewState r')"
    "inStep (cs_hpke cs) (cr_newState cr) r (sa_newState r')" "st_secretTree (sa_newState r') = st_secretTree (cr_newState cr)"
    using public_commit_followed [OF commit b clock new crypto leaf wire admissible] by blast
  have own: "pkp_leafIndex (st_privatePath (cr_newState cr)) = pkp_leafIndex (st_privatePath a)"
      "st_clientConfig (cr_newState cr) = st_clientConfig a"
    using createCommit_step [OF commit] by (simp_all add: nextEpoch_def)
  obtain lw es where "createSecretTree lw es (cs_kdf cs) = Inr (st_secretTree (cr_newState cr))"
    using createCommit_secretTree [OF commit] by blast
  from createSecretTree_fresh [OF this]
  have fresh: "\<exists>s. sn_application n = \<lparr>rt_secret = s, rt_generation = 0, rt_unused = []\<rparr>"
    if "sparse_get (st_secretTree (cr_newState cr)) i = Some n" for i n using that .
  have same: "sameEpoch (cr_newState cr) (sa_newState r')" "st_groupActiveState (sa_newState r') = Active"
    using r'(2) by (simp_all add: inStep_def)
  have "\<exists>b'. processMessage (MlsPrivateMessage sent) (sa_newState r') findPsk acceptAll cs now' = Inr (ApplicationMessage message b'
      \<lparr>as_senderType = ST_member, as_leafIndex = Some (pkp_leafIndex (st_privatePath (cr_newState cr)))\<rparr> ad)"
    by (rule application_in_epoch [OF message(1) same(1) r'(3) same(2) fresh aead message(2)])
      (use message(3) leaf' in \<open>simp_all add: own\<close>)
  then show ?thesis using r'(1) unfolding own by blast
qed

theorem message_after_commit_delivered_witness:
  "\<exists>cr a' sent r' b'. createCommit (exClient 0 [1]) (\<lambda>_. None) exGroupSuite (exOptions True []) [5, 6] [1, 2, 3, 4] 1000 = Inr cr \<and>
    createApplicationMessage (cr_newState cr) [42] exGroupSuite [] [1, 2, 3, 4] = Inr (a', sent) \<and>
    processMessage (mm_content (cr_commit cr)) (exClient 1 [2]) (\<lambda>_. None) acceptAll exGroupSuite 1000 = Inr (NewState r') \<and>
    processMessage (MlsPrivateMessage sent) (sa_newState r') (\<lambda>_. None) acceptAll exGroupSuite 1000 =
      Inr (ApplicationMessage [42] b' \<lparr>as_senderType = ST_member, as_leafIndex = Some 0\<rparr> [])"
proof -
  obtain cr pm cm a' sent lf where
    c: "createCommit (exClient 0 [1]) (\<lambda>_. None) exGroupSuite (exOptions True []) [5, 6] [1, 2, 3, 4] 1000 = Inr cr"
    "st_groupActiveState (cr_newState cr) = Active" "length (st_ratchetTree (cr_newState cr)) < 2 ^ 30"
    "mm_content (cr_commit cr) = MlsPublicMessage pm" "fc_info (pub_content pm) = FC_commit cm"
    "commitAdmissible (exClient 1 [2]) cm 0 1 (\<lambda>_. None) exGroupSuite 1000"
    and m: "createApplicationMessage (cr_newState cr) [42] exGroupSuite [] [1, 2, 3, 4] = Inr (a', sent)"
    "leafAt (st_ratchetTree (cr_newState cr)) 0 = Some lf"
    by (rule exCommit_made)
  have own: "pkp_leafIndex (st_privatePath (exClient 0 [1])) = 0" by (simp add: exClient_def)
  have "\<exists>r' b'. processMessage (mm_content (cr_commit cr)) (exClient 1 [2]) (\<lambda>_. None) acceptAll exGroupSuite 1000 = Inr (NewState r') \<and>
    processMessage (MlsPrivateMessage sent) (sa_newState r') (\<lambda>_. None) acceptAll exGroupSuite 1000 =
      Inr (ApplicationMessage [42] b' \<lparr>as_senderType = ST_member, as_leafIndex = Some (pkp_leafIndex (st_privatePath (exClient 0 [1])))\<rparr> [])"
    by (rule message_after_commit_delivered [OF c(1) exClient_inStep _ _ c(3,2) exGroupSuite_ok(1,2) exGroupTree_leaf
          exGroupSuite_ok(3) _ c(4,5) _ m(1) _ _ exGroupSuite_ok(4,5) _ exGroupSuite_ok(3)])
      (use c(6) m(2) in \<open>simp_all add: own clockAllows_def exOptions_def exClient_def exConfig_def defaultClientConfig_def
         defaultKeyRetentionConfig_def\<close>)
  then show ?thesis using c(1) m(1) unfolding own by blast
qed

end
