(* ===== verification/AttachmentFormat.thy ===== *)
theory AttachmentFormat imports MessageProtection Ciphersuites begin

text \<open>
  The format of encrypted attachments, \<^verbatim>\<open>src/attachment/\<close>: the layout of an object (\<^verbatim>\<open>layout.ts\<close>),
  the key derivation function (\<^verbatim>\<open>kdf.ts\<close>, \<^verbatim>\<open>crypto.ts\<close>), the content key of a group's epoch
  (\<^verbatim>\<open>keys.ts\<close>) and the signed reference to an object (\<^verbatim>\<open>reference.ts\<close>).

  Lengths and offsets are the \<open>number\<close>s of the source, here integers: a quotient of two of them is
  exact in the source because the segment size, the only divisor, is a power of two.  Buffers that
  the source zeroes after use are values here.
\<close>

section \<open>Byte arrays\<close>

text \<open>\<open>Uint8Array.slice\<close>: negative positions count from the end, and both are cut to the array.\<close>

definition slicePosition :: "int \<Rightarrow> int \<Rightarrow> nat" where
  "slicePosition len i = nat (if i < 0 then max (len + i) 0 else min i len)"

definition slice :: "bytes \<Rightarrow> int \<Rightarrow> int \<Rightarrow> bytes" where
  "slice bs from to = (let len = int (length bs); a = slicePosition len from; b = slicePosition len to in
     take (b - a) (drop a bs))"

text \<open>\<open>Uint8Array.set\<close> throws when the source does not fit.\<close>

definition setBytes :: "bytes \<Rightarrow> bytes \<Rightarrow> int \<Rightarrow> bytes result" where
  "setBytes dst src at = (if at < 0 \<or> at + int (length src) > int (length dst) then Inl RangeError
     else Inr (take (nat at) dst @ src @ drop (nat at + length src) dst))"

definition isSafeInteger :: "int \<Rightarrow> bool" where
  "isSafeInteger n \<longleftrightarrow> \<bar>n\<bar> \<le> 2 ^ 53 - 1"

text \<open>\<open>Math.ceil\<close> of a quotient by a positive number.\<close>

definition ceilDiv :: "int \<Rightarrow> int \<Rightarrow> int" where
  "ceilDiv a b = - (- a div b)"

section \<open>The layout of an object\<close>

definition META_TAG_LENGTH :: int where
  "META_TAG_LENGTH = 16"

record layoutParams =
  lp_plaintextLength :: int
  lp_segmentMax :: int
  lp_epochLength :: nat
  lp_nh :: int

record objectLayout =
  ol_nSeg :: int
  ol_nEp :: int
  ol_headerSize :: int
  ol_firstBlockOffset :: int
  ol_totalSize :: int
  ol_saltOffset :: int
  ol_commitmentOffset :: int
  ol_snapshotOffset :: int
  ol_epochHeadsOffset :: int
  ol_metaOffset :: int
  ol_metaLen :: int

definition MAX_SEGMENTS :: int where
  "MAX_SEGMENTS = 2 ^ 31"

definition layout :: "layoutParams \<Rightarrow> objectLayout result" where
  "layout p = (if \<not> isSafeInteger (lp_plaintextLength p) \<or> lp_plaintextLength p \<le> 0 then Inl AttachmentError
     else let nSeg = ceilDiv (lp_plaintextLength p) (lp_segmentMax p) in
       if nSeg > MAX_SEGMENTS then Inl AttachmentError
       else let perEpoch = 2 ^ lp_epochLength p; nEp = ceilDiv nSeg perEpoch;
                metaLen = lp_nh p + META_TAG_LENGTH;
                headerSize = 32 + 2 * lp_nh p + nEp * lp_nh p + nSeg * metaLen;
                firstBlockOffset = ceilDiv headerSize (lp_segmentMax p) * lp_segmentMax p;
                lastLen = lp_plaintextLength p - (nSeg - 1) * lp_segmentMax p;
                totalSize = firstBlockOffset + (nSeg - 1) * lp_segmentMax p + lastLen
         in Inr \<lparr>ol_nSeg = nSeg, ol_nEp = nEp, ol_headerSize = headerSize, ol_firstBlockOffset = firstBlockOffset,
              ol_totalSize = totalSize, ol_saltOffset = 0, ol_commitmentOffset = 32, ol_snapshotOffset = 32 + lp_nh p,
              ol_epochHeadsOffset = 32 + 2 * lp_nh p, ol_metaOffset = 32 + 2 * lp_nh p + nEp * lp_nh p,
              ol_metaLen = metaLen\<rparr>)"

definition segmentLength :: "objectLayout \<Rightarrow> layoutParams \<Rightarrow> int \<Rightarrow> int result" where
  "segmentLength l p i = (if i < 0 \<or> i \<ge> ol_nSeg l then Inl AttachmentError
     else if i < ol_nSeg l - 1 then Inr (lp_segmentMax p)
     else Inr (lp_plaintextLength p - i * lp_segmentMax p))"

record byteRange =
  br_offset :: int
  br_length :: int

definition blockRange :: "objectLayout \<Rightarrow> layoutParams \<Rightarrow> int \<Rightarrow> byteRange result" where
  "blockRange l p i = res_map (\<lambda>len. \<lparr>br_offset = ol_firstBlockOffset l + i * lp_segmentMax p, br_length = len\<rparr>)
     (segmentLength l p i)"

definition metaRange :: "objectLayout \<Rightarrow> int \<Rightarrow> byteRange" where
  "metaRange l i = \<lparr>br_offset = ol_metaOffset l + i * ol_metaLen l, br_length = ol_metaLen l\<rparr>"

definition epochOf :: "layoutParams \<Rightarrow> int \<Rightarrow> int" where
  "epochOf p i = i div 2 ^ lp_epochLength p"

definition isZeroRegion :: "bytes \<Rightarrow> int \<Rightarrow> int \<Rightarrow> bool" where
  "isZeroRegion bs from to =
     list_all (\<lambda>i. 0 \<le> i \<and> i < int (length bs) \<and> bs ! nat i = 0) [from..to - 1]"

text \<open>Ranges sorted by offset, with those that touch or overlap merged.\<close>

definition mergeRange :: "byteRange list \<Rightarrow> byteRange \<Rightarrow> byteRange list" where
  "mergeRange out r = (if out \<noteq> [] \<and> br_offset r \<le> br_offset (last out) + br_length (last out) then
       butlast out @ [(last out)\<lparr>br_length := max (br_offset (last out) + br_length (last out)) (br_offset r + br_length r)
         - br_offset (last out)\<rparr>]
     else out @ [r])"

definition coalesce :: "byteRange list \<Rightarrow> byteRange list" where
  "coalesce ranges = foldl mergeRange [] (sort_key br_offset ranges)"

definition rangesFor :: "layoutParams \<Rightarrow> int \<Rightarrow> int \<Rightarrow> (int \<times> int \<times> byteRange list) result" where
  "rangesFor p offset len =
     (if \<not> isSafeInteger offset \<or> \<not> isSafeInteger len \<or> len \<le> 0 \<or> offset < 0 \<or> offset + len > lp_plaintextLength p
      then Inl AttachmentError
      else res_bind (layout p) (\<lambda>l.
        let segFirst = offset div lp_segmentMax p; segLast = (offset + len - 1) div lp_segmentMax p;
            perEpoch = 2 ^ lp_epochLength p; epFirst = epochOf p segFirst; epLast = epochOf p segLast;
            prefix = \<lparr>br_offset = 0, br_length = ol_epochHeadsOffset l + ol_nEp l * lp_nh p\<rparr>;
            runs = map (\<lambda>e. let first = e * perEpoch; count = min perEpoch (ol_nSeg l - first) in
              \<lparr>br_offset = ol_metaOffset l + first * ol_metaLen l, br_length = count * ol_metaLen l\<rparr>) [epFirst..epLast];
            gap = (if ol_firstBlockOffset l > ol_headerSize l then
                [\<lparr>br_offset = ol_headerSize l, br_length = ol_firstBlockOffset l - ol_headerSize l\<rparr>] else [])
        in res_map (\<lambda>blocks. (segFirst, segLast, coalesce (prefix # runs @ gap @ blocks)))
          (res_mapM (blockRange l p) [segFirst..segLast])))"

section \<open>The key derivation function\<close>

definition LP_SALT :: bytes where
  "LP_SALT = ascii ''raAE-LP-v1''"

text \<open>\<open>DataView\<close> stores an integer modulo the width; only the 64-bit function checks its range.\<close>

definition uint16be :: "int \<Rightarrow> bytes" where
  "uint16be n = be_bytes 2 n"

definition uint32be :: "int \<Rightarrow> bytes" where
  "uint32be n = be_bytes 4 n"

definition uint64be :: "int \<Rightarrow> bytes result" where
  "uint64be n = (if n < 0 \<or> n > 2 ^ 64 - 1 then Inl AttachmentError else Inr (be_bytes 8 n))"

definition concatAll :: "bytes list \<Rightarrow> bytes" where
  "concatAll parts = concat parts"

definition paddedSalt :: "kdfImpl \<Rightarrow> bytes \<Rightarrow> bytes result" where
  "paddedSalt kdf salt = (if length salt > kdf_size kdf then Inl AttachmentError
     else Inr (salt @ replicate (kdf_size kdf - length salt) 0))"

definition lh :: "bytes \<Rightarrow> kdfImpl \<Rightarrow> bytes result" where
  "lh x kdf = res_map (\<lambda>salt. kdf_extract kdf salt x) (paddedSalt kdf LP_SALT)"

definition frame :: "bytes \<Rightarrow> kdfImpl \<Rightarrow> bytes result" where
  "frame x kdf = (if length x \<le> 0xFFFE then Inr (concatAll [uint16be (int (length x)), x])
     else res_map (\<lambda>h. concatAll [uint16be 0xFFFF, h]) (lh x kdf))"

text \<open>Strings are passed as their ASCII bytes.\<close>

definition encode :: "kdfImpl \<Rightarrow> bytes list \<Rightarrow> bytes result" where
  "encode kdf parts = res_map concatAll (res_mapM (\<lambda>p. frame p kdf) parts)"

definition sealKdf :: "kdfImpl \<Rightarrow> string \<Rightarrow> string \<Rightarrow> bytes list \<Rightarrow> bytes list \<Rightarrow> int \<Rightarrow> bytes result" where
  "sealKdf kdf protocolId label ikm info len =
     res_bind (encode kdf (ascii protocolId # ascii label # ikm)) (\<lambda>extractInput.
     res_bind (paddedSalt kdf (ascii protocolId)) (\<lambda>salt.
     let prk = kdf_extract kdf salt extractInput in
     res_bind (encode kdf (ascii protocolId # ascii label # info @ [uint16be len])) (\<lambda>expandInfo.
     Inr (kdf_expand kdf prk expandInfo len))))"

section \<open>The primitives\<close>

definition AEAD_IDS :: "aeadAlgorithm \<Rightarrow> int" where
  "AEAD_IDS a = (case a of AES128GCM \<Rightarrow> 0x0001 | AES256GCM \<Rightarrow> 0x0002 | CHACHA20POLY1305 \<Rightarrow> 0x001D)"

definition KDF_IDS :: "kdfAlgorithm \<Rightarrow> int" where
  "KDF_IDS k = (case k of HKDF_SHA256 \<Rightarrow> 0x0001 | HKDF_SHA384 \<Rightarrow> 0x0002 | HKDF_SHA512 \<Rightarrow> 0x0003)"

text \<open>The generator of random bytes is left out: a salt is an argument.\<close>

record sealCrypto =
  sc_encrypt :: "bytes \<Rightarrow> bytes \<Rightarrow> bytes \<Rightarrow> bytes \<Rightarrow> bytes"
  sc_decrypt :: "bytes \<Rightarrow> bytes \<Rightarrow> bytes \<Rightarrow> bytes \<Rightarrow> bytes result"
  sc_kdf :: kdfImpl
  sc_hash :: hashImpl
  sc_aeadId :: int
  sc_kdfId :: int
  sc_keyLength :: int
  sc_nonceLength :: int
  sc_tagLength :: int

definition sealCryptoFromCiphersuite :: "('pub, 'priv, 'sk) ciphersuiteImpl \<Rightarrow> sealCrypto result" where
  "sealCryptoFromCiphersuite cs = res_map (\<lambda>suite.
     \<lparr>sc_encrypt = (\<lambda>key nonce aad pt. hpke_encryptAead (cs_hpke cs) key nonce (Some aad) pt),
      sc_decrypt = (\<lambda>key nonce aad ct. hpke_decryptAead (cs_hpke cs) key nonce (Some aad) ct),
      sc_kdf = cs_kdf cs, sc_hash = cs_hash cs,
      sc_aeadId = AEAD_IDS (suite_aead suite), sc_kdfId = KDF_IDS (suite_kdf suite),
      sc_keyLength = hpke_keyLength (cs_hpke cs), sc_nonceLength = hpke_nonceLength (cs_hpke cs),
      sc_tagLength = 16\<rparr>)
     (getCiphersuiteFromName (cs_name cs))"

definition AEAD_KEY_LENGTHS :: "aeadAlgorithm \<Rightarrow> int" where
  "AEAD_KEY_LENGTHS a = (case a of AES128GCM \<Rightarrow> 16 | AES256GCM \<Rightarrow> 32 | CHACHA20POLY1305 \<Rightarrow> 32)"

definition AEAD_BY_ID :: "int \<Rightarrow> aeadAlgorithm option" where
  "AEAD_BY_ID i = (if i = 0x0001 then Some AES128GCM else if i = 0x0002 then Some AES256GCM
     else if i = 0x001D then Some CHACHA20POLY1305 else None)"

definition KDF_BY_ID :: "int \<Rightarrow> (kdfAlgorithm \<times> hashAlgorithm) option" where
  "KDF_BY_ID i = (if i = 0x0001 then Some (HKDF_SHA256, SHA_256) else if i = 0x0002 then Some (HKDF_SHA384, SHA_384)
     else if i = 0x0003 then Some (HKDF_SHA512, SHA_512) else None)"

text \<open>The bundle for a pair of algorithm numbers, over the platform's makers of primitives.\<close>

definition sealCryptoFromIds ::
    "(aeadAlgorithm \<Rightarrow> (bytes \<Rightarrow> bytes \<Rightarrow> bytes \<Rightarrow> bytes \<Rightarrow> bytes) \<times> (bytes \<Rightarrow> bytes \<Rightarrow> bytes \<Rightarrow> bytes \<Rightarrow> bytes result)) \<Rightarrow>
     (kdfAlgorithm \<Rightarrow> kdfImpl) \<Rightarrow> (hashAlgorithm \<Rightarrow> hashImpl) \<Rightarrow> int \<Rightarrow> int \<Rightarrow> sealCrypto result" where
  "sealCryptoFromIds makeAead makeKdfImpl makeHashImpl aeadId kdfId =
     (case (AEAD_BY_ID aeadId, KDF_BY_ID kdfId) of
        (Some aeadAlg, Some (kdfAlg, hashAlg)) \<Rightarrow> Inr
          \<lparr>sc_encrypt = fst (makeAead aeadAlg), sc_decrypt = snd (makeAead aeadAlg),
           sc_kdf = makeKdfImpl kdfAlg, sc_hash = makeHashImpl hashAlg, sc_aeadId = aeadId, sc_kdfId = kdfId,
           sc_keyLength = AEAD_KEY_LENGTHS aeadAlg, sc_nonceLength = 12, sc_tagLength = 16\<rparr>
      | _ \<Rightarrow> Inl AttachmentError)"

section \<open>Content keys\<close>

definition ATTACHMENT_COMPONENT_ID :: int where
  "ATTACHMENT_COMPONENT_ID = 0xF001"

definition CEK_LENGTH :: nat where
  "CEK_LENGTH = 32"

definition assertCekLength :: "bytes \<Rightarrow> unit result" where
  "assertCekLength cek = (if length cek \<noteq> CEK_LENGTH then Inl AttachmentError else Inr ())"

definition componentOperationLabel :: "int \<Rightarrow> string \<Rightarrow> bytes result" where
  "componentOperationLabel componentId label =
     (if componentId < 0 \<or> componentId > 0xFFFF then Inl AttachmentError
      else res_bind (encodeVarLenData (ascii ''MLS Component'')) (\<lambda>base.
        res_bind (encodeUint16 componentId) (\<lambda>i.
        res_bind (encodeVarLenData (ascii label)) (\<lambda>op. Inr (base @ i @ op)))))"

definition expandWithLabelBytes :: "bytes \<Rightarrow> bytes \<Rightarrow> bytes \<Rightarrow> int \<Rightarrow> kdfImpl \<Rightarrow> bytes result" where
  "expandWithLabelBytes secret labelBytes context len kdf =
     res_bind (encodeUint16 len) (\<lambda>n.
     res_bind (encodeVarLenData (ascii ''MLS 1.0 '' @ labelBytes)) (\<lambda>l.
     res_bind (encodeVarLenData context) (\<lambda>c. Inr (kdf_expand kdf secret (n @ l @ c) len))))"

definition exporterChild :: "kdfImpl \<Rightarrow> int \<Rightarrow> bytes \<Rightarrow> int \<Rightarrow> bytes result" where
  "exporterChild kdf componentId node shift =
     (let isRight = js_and (js_shr componentId shift) 1 \<noteq> 0 in
      expandWithLabel node ''tree'' (ascii (if isRight then ''right'' else ''left'')) (int (kdf_size kdf)) kdf)"

definition safeExportSecret :: "bytes \<Rightarrow> int \<Rightarrow> kdfImpl \<Rightarrow> bytes result" where
  "safeExportSecret applicationExportSecret componentId kdf =
     (if componentId < 0 \<or> componentId > 0xFFFF then Inl AttachmentError
      else res_foldM (exporterChild kdf componentId) applicationExportSecret (rev [0..15]))"

definition attachmentCek :: "keySchedule \<Rightarrow> bytes \<Rightarrow> kdfImpl \<Rightarrow> int option \<Rightarrow> bytes result" where
  "attachmentCek keySchedule objectId kdf componentIdOption =
     (if length objectId < 1 \<or> length objectId > 255 then Inl AttachmentError
      else let componentId = (case componentIdOption of Some i \<Rightarrow> i | None \<Rightarrow> ATTACHMENT_COMPONENT_ID);
               root = ks_applicationExportSecret keySchedule in
        if length root \<noteq> kdf_size kdf then Inl AttachmentError
        else res_bind (safeExportSecret root componentId kdf) (\<lambda>componentSecret.
          res_bind (componentOperationLabel componentId ''attachment'') (\<lambda>label.
            expandWithLabelBytes componentSecret label objectId (int CEK_LENGTH) kdf)))"

section \<open>References\<close>

definition ATTACHMENT_REF_VERSION :: int where
  "ATTACHMENT_REF_VERSION = 1"

record attachmentRef =
  ref_version :: int
  ref_objectId :: bytes
  ref_plaintextLength :: int
  ref_snapshot :: bytes
  ref_locator :: bytes

definition SNAPSHOT_LENGTHS :: "nat list" where
  "SNAPSHOT_LENGTHS = [32, 48, 64]"

definition validateAttachmentRef :: "attachmentRef \<Rightarrow> nat option \<Rightarrow> unit result" where
  "validateAttachmentRef r kdfSize =
     (if ref_version r \<noteq> ATTACHMENT_REF_VERSION then Inl AttachmentError
      else if length (ref_objectId r) < 1 \<or> length (ref_objectId r) > 255 then Inl AttachmentError
      else if ref_plaintextLength r \<le> 0 then Inl AttachmentError
      else if ref_plaintextLength r > 0xFFFFFFFFFFFFFFFF then Inl AttachmentError
      else case kdfSize of
        None \<Rightarrow> if length (ref_snapshot r) \<notin> set SNAPSHOT_LENGTHS then Inl AttachmentError else Inr ()
      | Some n \<Rightarrow> if length (ref_snapshot r) \<noteq> n then Inl AttachmentError else Inr ())"

definition encodeRefBody :: "attachmentRef encoder" where
  "encodeRefBody = contramapEncoders
     (encPair encodeUint8 (encPair encodeVarLenData (encPair encodeUint64 (encPair encodeVarLenData encodeVarLenData))))
     (\<lambda>ref. (ref_version ref, ref_objectId ref, ref_plaintextLength ref, ref_snapshot ref, ref_locator ref))"

definition encodeAttachmentRef :: "attachmentRef \<Rightarrow> bytes result" where
  "encodeAttachmentRef r = res_bind (validateAttachmentRef r None) (\<lambda>_. encodeRefBody r)"

definition decodeRefBody :: "attachmentRef decoder" where
  "decodeRefBody = mapDecoders
     (decPair decodeUint8 (decPair decodeVarLenData (decPair decodeUint64 (decPair decodeVarLenData decodeVarLenData))))
     (\<lambda>(version, objectId, plaintextLength, snapshot, locator).
       \<lparr>ref_version = version, ref_objectId = objectId, ref_plaintextLength = plaintextLength,
        ref_snapshot = snapshot, ref_locator = locator\<rparr>)"

definition decodeAttachmentRef :: "bytes \<Rightarrow> attachmentRef result" where
  "decodeAttachmentRef bs = (case decodeRefBody bs 0 of
     Inr (Some (decoded, n)) \<Rightarrow> if n \<noteq> length bs then Inl AttachmentError
       else res_map (\<lambda>_. decoded) (validateAttachmentRef decoded None)
   | _ \<Rightarrow> Inl AttachmentError)"

definition refToAuthData :: "attachmentRef \<Rightarrow> bytes result" where
  "refToAuthData r = res_bind (validateAttachmentRef r None) (\<lambda>_. encodeAttachmentRef r)"

definition refFromAuthData :: "bytes \<Rightarrow> attachmentRef result" where
  "refFromAuthData bs = decodeAttachmentRef bs"

end
