(* ===== verification/AttachmentSchedule.thy ===== *)
theory AttachmentSchedule imports AttachmentFormat begin

text \<open>
  The key schedule of one attachment object, \<^verbatim>\<open>src/attachment/schedule.ts\<close>, and the digests that
  authenticate it, \<^verbatim>\<open>src/attachment/snapshot.ts\<close>.  The operations that fill the cache of epoch keys
  return the state next to their result; a state whose operation threw is wiped by its owner, so an
  error carries none.
\<close>

section \<open>Parameters\<close>

definition PROTOCOL_RO :: string where "PROTOCOL_RO = ''SEAL-RO-v1''"
definition PROTOCOL_RW :: string where "PROTOCOL_RW = ''SEAL-RW-v1''"
definition AAD_LABEL :: string where "AAD_LABEL = ''SEAL-DATA''"
definition NONCE_RANDOM :: int where "NONCE_RANDOM = 0x00"
definition NONCE_DERIVED :: int where "NONCE_DERIVED = 0x01"
definition SNAP_NONE :: int where "SNAP_NONE = 0x0000"
definition SNAP_MULTISET :: int where "SNAP_MULTISET = 0x0001"
definition SNAP_EPOCH_TREE :: int where "SNAP_EPOCH_TREE = 0x0003"
definition SEGMENT_MAX :: int where "SEGMENT_MAX = 65536"
definition ATTACHMENT_EPOCH_LENGTH :: nat where "ATTACHMENT_EPOCH_LENGTH = 10"
definition SALT_LENGTH :: nat where "SALT_LENGTH = 32"

record sealParams =
  sp_protocolId :: string
  sp_aeadId :: int
  sp_kdfId :: int
  sp_segmentMax :: int
  sp_snapId :: int
  sp_nonceMode :: int
  sp_epochLength :: int
  sp_salt :: bytes

definition validateParams :: "sealParams \<Rightarrow> unit result" where
  "validateParams p =
     (if sp_aeadId p < 0 \<or> sp_aeadId p > 0xFFFF then Inl AttachmentError
      else if sp_kdfId p < 0 \<or> sp_kdfId p > 0xFFFF then Inl AttachmentError
      else if sp_snapId p < 0 \<or> sp_snapId p > 0xFFFF then Inl AttachmentError
      else if sp_segmentMax p < 0 \<or> sp_segmentMax p > 0xFFFFFFFF then Inl AttachmentError
      else if sp_nonceMode p < 0 \<or> sp_nonceMode p > 0xFF then Inl AttachmentError
      else if sp_epochLength p < 0 \<or> sp_epochLength p > 0xFF then Inl AttachmentError
      else if length (sp_salt p) \<noteq> SALT_LENGTH then Inl AttachmentError
      else Inr ())"

section \<open>The schedule\<close>

record sealState =
  ss_params :: sealParams
  ss_commitment :: bytes
  ss_payloadKey :: bytes
  ss_snapKey :: bytes
  ss_nonceBase :: "bytes option"
  ss_crypto :: sealCrypto
  ss_epochKeys :: "(int \<times> bytes) list"
  ss_wiped :: bool

definition rawFields :: "sealParams \<Rightarrow> bytes list" where
  "rawFields p = [uint16be (sp_aeadId p), uint32be (sp_segmentMax p), uint16be (sp_kdfId p), uint16be (sp_snapId p),
     [word_of_int (sp_nonceMode p)], [word_of_int (sp_epochLength p)], sp_salt p]"

definition deriveSchedule :: "bytes \<Rightarrow> sealParams \<Rightarrow> bytes \<Rightarrow> sealCrypto \<Rightarrow> sealState result" where
  "deriveSchedule cek params g crypto =
     res_bind (validateParams params) (\<lambda>_.
     let kdf = sc_kdf crypto; nh = int (kdf_size kdf);
         derive = (\<lambda>label info len. sealKdf kdf (sp_protocolId params) label [cek] info len) in
     res_bind (derive ''commit'' (rawFields params @ [g]) nh) (\<lambda>commitment.
     res_bind (derive ''payload_key'' (rawFields params) (sc_keyLength crypto)) (\<lambda>payloadKey.
     res_bind (derive ''acc_key'' (rawFields params) nh) (\<lambda>snapKey.
     res_bind (if sp_nonceMode params = NONCE_DERIVED
         then res_map Some (derive ''nonce_base'' (rawFields params) (sc_nonceLength crypto)) else Inr None) (\<lambda>nonceBase.
     Inr \<lparr>ss_params = params, ss_commitment = commitment, ss_payloadKey = payloadKey, ss_snapKey = snapKey,
       ss_nonceBase = nonceBase, ss_crypto = crypto, ss_epochKeys = [], ss_wiped = False\<rparr>)))))"

definition startSeal :: "bytes \<Rightarrow> sealParams \<Rightarrow> bytes \<Rightarrow> sealCrypto \<Rightarrow> sealState result" where
  "startSeal cek params g crypto = deriveSchedule cek params g crypto"

text \<open>The commitment gate; the state it rejects is wiped and dropped.\<close>

definition startOpen :: "bytes \<Rightarrow> sealParams \<Rightarrow> bytes \<Rightarrow> bytes \<Rightarrow> sealCrypto \<Rightarrow> sealState result" where
  "startOpen cek params g storedCommitment crypto =
     res_bind (deriveSchedule cek params g crypto) (\<lambda>state.
     if \<not> constantTimeEqual (ss_commitment state) storedCommitment then Inl AttachmentError else Inr state)"

definition segmentKey :: "sealState \<Rightarrow> int \<Rightarrow> (bytes \<times> sealState) result" where
  "segmentKey state index =
     (if index < 0 \<or> index \<ge> 2 ^ 63 then Inl AttachmentError
      else let epochIndex = drop_bit (nat (sp_epochLength (ss_params state))) index in
        case map_of (ss_epochKeys state) epochIndex of
          Some cached \<Rightarrow> Inr (cached, state)
        | None \<Rightarrow>
            res_bind (uint64be epochIndex) (\<lambda>i.
            res_bind (sealKdf (sc_kdf (ss_crypto state)) (sp_protocolId (ss_params state)) ''epoch_key''
                [ss_payloadKey state] [i] (sc_keyLength (ss_crypto state))) (\<lambda>key.
            if ss_wiped state then Inl AttachmentError
            else Inr (key, state\<lparr>ss_epochKeys := AList.update epochIndex key (ss_epochKeys state)\<rparr>))))"

text \<open>The last eight bytes of the nonce base, mixed with the index and the mark of the last segment.\<close>

definition derivedNonce :: "bytes \<Rightarrow> int \<Rightarrow> bool \<Rightarrow> bytes result" where
  "derivedNonce nonceBase index isFinal =
     (if length nonceBase < 8 then Inl AttachmentError
      else if index < 0 \<or> index \<ge> 2 ^ 63 then Inl AttachmentError
      else let mixed = push_bit 1 index OR (if isFinal then 1 else 0); start = length nonceBase - 8 in
        res_map (\<lambda>tail. take start nonceBase @ map2 (XOR) (drop start nonceBase) tail) (uint64be mixed))"

definition segmentAad :: "sealState \<Rightarrow> int \<Rightarrow> bool \<Rightarrow> bytes \<Rightarrow> bytes result" where
  "segmentAad state index isFinal extra =
     (if index < 0 \<or> index \<ge> 2 ^ 63 then Inl AttachmentError
      else let kdf = sc_kdf (ss_crypto state) in
        if sp_nonceMode (ss_params state) = NONCE_DERIVED then
          if length extra = 0 then Inr [] else encode kdf [ascii AAD_LABEL, extra]
        else let finalByte = [if isFinal then 1 else 0] in
          res_bind (uint64be index) (\<lambda>i.
          if length extra = 0 then encode kdf [ascii AAD_LABEL, i, finalByte]
          else encode kdf [ascii AAD_LABEL, i, finalByte, extra]))"

record sealedSegment =
  sg_ciphertext :: bytes
  sg_tag :: bytes
  sg_nonce :: bytes

text \<open>The nonce of a segment: derived, or the caller's.\<close>

definition segmentNonce :: "sealState \<Rightarrow> int \<Rightarrow> bool \<Rightarrow> bytes option \<Rightarrow> bytes result" where
  "segmentNonce state index isFinal given =
     res_bind (if sp_nonceMode (ss_params state) = NONCE_DERIVED
         then (case ss_nonceBase state of None \<Rightarrow> Inl AttachmentError | Some base \<Rightarrow> derivedNonce base index isFinal)
         else (case given of None \<Rightarrow> Inl AttachmentError | Some n \<Rightarrow> Inr n)) (\<lambda>nonce.
     if int (length nonce) \<noteq> sc_nonceLength (ss_crypto state) then Inl AttachmentError else Inr nonce)"

definition sealSegment ::
    "sealState \<Rightarrow> int \<Rightarrow> bool \<Rightarrow> bytes \<Rightarrow> bytes option \<Rightarrow> bytes option \<Rightarrow> (sealedSegment \<times> sealState) result" where
  "sealSegment state index isFinal plaintext given aadOption =
     (let extra = (case aadOption of Some a \<Rightarrow> a | None \<Rightarrow> []) in
      res_bind (segmentNonce state index isFinal given) (\<lambda>nonce.
      res_bind (segmentKey state index) (\<lambda>(key, state').
      res_bind (segmentAad state index isFinal extra) (\<lambda>aad.
      let sealed = sc_encrypt (ss_crypto state) key nonce aad plaintext;
          split = int (length sealed) - sc_tagLength (ss_crypto state) in
      Inr (\<lparr>sg_ciphertext = slice sealed 0 split, sg_tag = slice sealed split (int (length sealed)), sg_nonce = nonce\<rparr>,
        state')))))"

definition openSegment ::
    "sealState \<Rightarrow> int \<Rightarrow> bool \<Rightarrow> bytes \<Rightarrow> bytes \<Rightarrow> bytes option \<Rightarrow> bytes option \<Rightarrow> (bytes \<times> sealState) result" where
  "openSegment state index isFinal ciphertext tag given aadOption =
     (let extra = (case aadOption of Some a \<Rightarrow> a | None \<Rightarrow> []) in
      res_bind (segmentNonce state index isFinal given) (\<lambda>nonce.
      if int (length tag) \<noteq> sc_tagLength (ss_crypto state) then Inl AttachmentError
      else res_bind (segmentKey state index) (\<lambda>(key, state').
      res_bind (segmentAad state index isFinal extra) (\<lambda>aad.
      let joined = concatAll [ciphertext, tag] in
      case sc_decrypt (ss_crypto state) key nonce aad joined of
        Inl _ \<Rightarrow> Inl AttachmentError
      | Inr plaintext \<Rightarrow> Inr (plaintext, state')))))"

definition zeroed :: "bytes \<Rightarrow> bytes" where
  "zeroed bs = replicate (length bs) 0"

definition wipeSealState :: "sealState \<Rightarrow> sealState" where
  "wipeSealState state = state\<lparr>ss_wiped := True, ss_payloadKey := zeroed (ss_payloadKey state),
     ss_snapKey := zeroed (ss_snapKey state), ss_nonceBase := map_option zeroed (ss_nonceBase state), ss_epochKeys := []\<rparr>"

section \<open>Digests\<close>

definition xorInto :: "bytes \<Rightarrow> bytes \<Rightarrow> bytes result" where
  "xorInto acc x = (if length acc \<noteq> length x then Inl AttachmentError else Inr (map2 (XOR) acc x))"

definition multisetContrib :: "sealState \<Rightarrow> int \<Rightarrow> bytes \<Rightarrow> bytes result" where
  "multisetContrib state index tag = res_bind (uint64be index) (\<lambda>i.
     sealKdf (sc_kdf (ss_crypto state)) (sp_protocolId (ss_params state)) ''acc_contrib'' [ss_snapKey state] [i, tag]
       (int (kdf_size (sc_kdf (ss_crypto state)))))"

definition multisetSnapshot :: "sealState \<Rightarrow> int \<Rightarrow> bytes \<Rightarrow> bytes result" where
  "multisetSnapshot state nSeg acc = res_bind (uint64be nSeg) (\<lambda>n.
     sealKdf (sc_kdf (ss_crypto state)) (sp_protocolId (ss_params state)) ''snapshot_tag'' [ss_snapKey state] [n, acc]
       (int (kdf_size (sc_kdf (ss_crypto state)))))"

definition multisetMask :: "sealState \<Rightarrow> int \<Rightarrow> bytes \<Rightarrow> bytes result" where
  "multisetMask state nSeg snapshot = res_bind (uint64be nSeg) (\<lambda>n.
     sealKdf (sc_kdf (ss_crypto state)) (sp_protocolId (ss_params state)) ''snapshot_mask'' [ss_snapKey state] [n, snapshot]
       (int (kdf_size (sc_kdf (ss_crypto state)))))"

definition segmentLeaf :: "sealState \<Rightarrow> bytes \<Rightarrow> bytes \<Rightarrow> bytes result" where
  "segmentLeaf state ciphertext tag = res_map (\<lambda>digest. concatAll [digest, tag]) (lh ciphertext (sc_kdf (ss_crypto state)))"

definition epochHead :: "sealState \<Rightarrow> bytes \<Rightarrow> bytes result" where
  "epochHead state epochRun = res_bind (lh epochRun (sc_kdf (ss_crypto state))) (\<lambda>digest.
     sealKdf (sc_kdf (ss_crypto state)) (sp_protocolId (ss_params state)) ''snap_epoch'' [ss_snapKey state] [digest]
       (int (kdf_size (sc_kdf (ss_crypto state)))))"

definition epochTreeRoot :: "sealState \<Rightarrow> int \<Rightarrow> bytes \<Rightarrow> bytes result" where
  "epochTreeRoot state nSeg heads = res_bind (lh heads (sc_kdf (ss_crypto state))) (\<lambda>digest.
     res_bind (uint64be nSeg) (\<lambda>n.
     sealKdf (sc_kdf (ss_crypto state)) (sp_protocolId (ss_params state)) ''snap_epoch_root'' [ss_snapKey state]
       [ss_commitment state, n, digest] (int (kdf_size (sc_kdf (ss_crypto state))))))"

end
