(* ===== verification/AttachmentObject.thy ===== *)
theory AttachmentObject imports AttachmentSchedule begin

text \<open>
  Sealing and opening attachment objects whole, \<^verbatim>\<open>src/attachment/object.ts\<close>, the checks that the
  streaming readers share, \<^verbatim>\<open>src/attachment/reader.ts\<close>, and the writer, \<^verbatim>\<open>src/attachment/writer.ts\<close>.
  The salt is an argument; a readable stream is the list of its chunks.
\<close>

section \<open>Objects\<close>

definition objectParams :: "sealCrypto \<Rightarrow> bytes \<Rightarrow> sealParams" where
  "objectParams crypto salt = \<lparr>sp_protocolId = PROTOCOL_RO, sp_aeadId = sc_aeadId crypto, sp_kdfId = sc_kdfId crypto,
     sp_segmentMax = SEGMENT_MAX, sp_snapId = SNAP_EPOCH_TREE, sp_nonceMode = NONCE_DERIVED,
     sp_epochLength = int ATTACHMENT_EPOCH_LENGTH, sp_salt = salt\<rparr>"

definition objectLayoutParams :: "int \<Rightarrow> int \<Rightarrow> layoutParams" where
  "objectLayoutParams plaintextLength nh = \<lparr>lp_plaintextLength = plaintextLength, lp_segmentMax = SEGMENT_MAX,
     lp_epochLength = ATTACHMENT_EPOCH_LENGTH, lp_nh = nh\<rparr>"

record sealedObject =
  so_bytes :: bytes
  so_snapshot :: bytes
  so_salt :: bytes

text \<open>One segment: its ciphertext goes to its block, its leaf to the metadata.\<close>

definition writeSegment ::
    "objectLayout \<Rightarrow> layoutParams \<Rightarrow> bytes \<Rightarrow> bytes \<times> sealState \<Rightarrow> int \<Rightarrow> (bytes \<times> sealState) result" where
  "writeSegment l lp plaintext acc i =
     (let (bs, state) = acc; isFinal = (i = ol_nSeg l - 1); segStart = i * SEGMENT_MAX;
          segEnd = min (segStart + SEGMENT_MAX) (int (length plaintext)) in
      res_bind (sealSegment state i isFinal (slice plaintext segStart segEnd) None None) (\<lambda>(sealed, state').
      res_bind (blockRange l lp i) (\<lambda>br.
      res_bind (setBytes bs (sg_ciphertext sealed) (br_offset br)) (\<lambda>bs1.
      res_bind (segmentLeaf state' (sg_ciphertext sealed) (sg_tag sealed)) (\<lambda>leaf.
      res_map (\<lambda>bs2. (bs2, state')) (setBytes bs1 leaf (br_offset (metaRange l i))))))))"

definition epochSegments :: "objectLayout \<Rightarrow> int \<Rightarrow> int list" where
  "epochSegments l e = (let perEpoch = 2 ^ ATTACHMENT_EPOCH_LENGTH; first = e * perEpoch;
     count = min perEpoch (ol_nSeg l - first) in [first..first + count - 1])"

definition sealObject :: "bytes \<Rightarrow> bytes \<Rightarrow> bytes \<Rightarrow> sealCrypto \<Rightarrow> bytes \<Rightarrow> sealedObject result" where
  "sealObject cek objectId plaintext crypto salt =
     res_bind (assertCekLength cek) (\<lambda>_.
     if length plaintext = 0 then Inl AttachmentError
     else if length objectId = 0 \<or> length objectId > 255 then Inl AttachmentError
     else res_bind (startSeal cek (objectParams crypto salt) objectId crypto) (\<lambda>state.
     let nh = int (kdf_size (sc_kdf crypto)); lp = objectLayoutParams (int (length plaintext)) nh in
     res_bind (layout lp) (\<lambda>l.
     res_bind (res_foldM (writeSegment l lp plaintext) (replicate (nat (ol_totalSize l)) 0, state) [0..ol_nSeg l - 1])
       (\<lambda>(bs, state').
     res_bind (res_mapM (\<lambda>e. epochHead state' (concatAll (map (\<lambda>i. slice bs (br_offset (metaRange l i))
         (br_offset (metaRange l i) + br_length (metaRange l i))) (epochSegments l e)))) [0..ol_nEp l - 1]) (\<lambda>heads.
     let allHeads = concatAll heads in
     res_bind (epochTreeRoot state' (ol_nSeg l) allHeads) (\<lambda>root.
     res_bind (setBytes bs salt 0) (\<lambda>bs1.
     res_bind (setBytes bs1 (ss_commitment state') 32) (\<lambda>bs2.
     res_bind (setBytes bs2 root (32 + nh)) (\<lambda>bs3.
     res_map (\<lambda>bs4. \<lparr>so_bytes = bs4, so_snapshot = root, so_salt = salt\<rparr>)
       (setBytes bs3 allHeads (ol_epochHeadsOffset l)))))))))))"

text \<open>The leaves of one epoch, recomputed from the blocks and compared with the stored ones.\<close>

definition checkedLeaf :: "objectLayout \<Rightarrow> layoutParams \<Rightarrow> sealCrypto \<Rightarrow> bytes \<Rightarrow> sealState \<Rightarrow> int \<Rightarrow> bytes result" where
  "checkedLeaf l lp crypto bs state i =
     res_bind (blockRange l lp i) (\<lambda>br.
     let mr = metaRange l i; ciphertext = slice bs (br_offset br) (br_offset br + br_length br);
         tag = slice bs (br_offset mr + int (kdf_size (sc_kdf crypto))) (br_offset mr + br_length mr) in
     res_bind (segmentLeaf state ciphertext tag) (\<lambda>leaf.
     if \<not> constantTimeEqual leaf (slice bs (br_offset mr) (br_offset mr + br_length mr)) then Inl AttachmentError
     else Inr leaf))"

definition checkedHead :: "objectLayout \<Rightarrow> layoutParams \<Rightarrow> sealCrypto \<Rightarrow> bytes \<Rightarrow> sealState \<Rightarrow> int \<Rightarrow> bytes result" where
  "checkedHead l lp crypto bs state e =
     (let nh = int (kdf_size (sc_kdf crypto)) in
      res_bind (res_mapM (checkedLeaf l lp crypto bs state) (epochSegments l e)) (\<lambda>leaves.
      res_bind (epochHead state (concatAll leaves)) (\<lambda>head.
      if \<not> constantTimeEqual head (slice bs (ol_epochHeadsOffset l + e * nh) (ol_epochHeadsOffset l + (e + 1) * nh))
      then Inl AttachmentError else Inr head)))"

definition openObjectSegment ::
    "objectLayout \<Rightarrow> layoutParams \<Rightarrow> sealCrypto \<Rightarrow> bytes \<Rightarrow> bytes list \<times> sealState \<Rightarrow> int \<Rightarrow>
     (bytes list \<times> sealState) result" where
  "openObjectSegment l lp crypto bs acc i =
     (let (parts, state) = acc; isFinal = (i = ol_nSeg l - 1) in
      res_bind (blockRange l lp i) (\<lambda>br.
      let mr = metaRange l i; ciphertext = slice bs (br_offset br) (br_offset br + br_length br);
          tag = slice bs (br_offset mr + int (kdf_size (sc_kdf crypto))) (br_offset mr + br_length mr) in
      res_map (\<lambda>(plaintext, state'). (parts @ [plaintext], state'))
        (openSegment state i isFinal ciphertext tag None None)))"

definition openObject :: "bytes \<Rightarrow> bytes \<Rightarrow> bytes \<Rightarrow> bytes \<Rightarrow> int \<Rightarrow> sealCrypto \<Rightarrow> bytes result" where
  "openObject cek objectId bs snapshot plaintextLength crypto =
     res_bind (assertCekLength cek) (\<lambda>_.
     if length objectId < 1 \<or> length objectId > 255 then Inl AttachmentError
     else let nh = int (kdf_size (sc_kdf crypto)); lp = objectLayoutParams plaintextLength nh in
     res_bind (layout lp) (\<lambda>l.
     if int (length bs) \<noteq> ol_totalSize l then Inl AttachmentError
     else if \<not> isZeroRegion bs (ol_headerSize l) (ol_firstBlockOffset l) then Inl AttachmentError
     else res_bind (startOpen cek (objectParams crypto (slice bs 0 32)) objectId (slice bs 32 (32 + nh)) crypto) (\<lambda>state.
     res_bind (res_mapM (checkedHead l lp crypto bs state) [0..ol_nEp l - 1]) (\<lambda>heads.
     res_bind (epochTreeRoot state (ol_nSeg l) (concatAll heads)) (\<lambda>root.
     if \<not> constantTimeEqual root snapshot then Inl AttachmentError
     else if \<not> constantTimeEqual root (slice bs (32 + nh) (32 + 2 * nh)) then Inl AttachmentError
     else res_map (\<lambda>(parts, _). concatAll parts)
       (res_foldM (openObjectSegment l lp crypto bs) ([], state) [0..ol_nSeg l - 1]))))))"

section \<open>The checks of the readers\<close>

record headerPrefix =
  hp_salt :: bytes
  hp_storedCommitment :: bytes
  hp_storedSnapshot :: bytes
  hp_epochHeads :: bytes
  hp_layoutParams :: layoutParams
  hp_layout :: objectLayout

definition parsePrefix :: "bytes \<Rightarrow> int \<Rightarrow> int \<Rightarrow> headerPrefix result" where
  "parsePrefix bs plaintextLength nh =
     (if \<not> isSafeInteger plaintextLength \<or> plaintextLength \<le> 0 then Inl AttachmentError
      else let lp = objectLayoutParams plaintextLength nh in
      res_bind (layout lp) (\<lambda>l.
      let neededSize = ol_epochHeadsOffset l + ol_nEp l * nh in
      if int (length bs) < neededSize then Inl AttachmentError
      else Inr \<lparr>hp_salt = slice bs 0 32, hp_storedCommitment = slice bs 32 (32 + nh),
        hp_storedSnapshot = slice bs (32 + nh) (32 + 2 * nh),
        hp_epochHeads = slice bs (ol_epochHeadsOffset l) (ol_epochHeadsOffset l + ol_nEp l * nh),
        hp_layoutParams = lp, hp_layout = l\<rparr>))"

definition openCommitment :: "bytes \<Rightarrow> bytes \<Rightarrow> bytes \<Rightarrow> bytes \<Rightarrow> sealCrypto \<Rightarrow> sealState result" where
  "openCommitment cek objectId salt storedCommitment crypto =
     startOpen cek (objectParams crypto salt) objectId storedCommitment crypto"

definition checkRoot :: "sealState \<Rightarrow> headerPrefix \<Rightarrow> bytes \<Rightarrow> unit result" where
  "checkRoot state prefix refSnapshot =
     res_bind (epochTreeRoot state (ol_nSeg (hp_layout prefix)) (hp_epochHeads prefix)) (\<lambda>root.
     if \<not> constantTimeEqual root refSnapshot \<or> \<not> constantTimeEqual root (hp_storedSnapshot prefix)
     then Inl AttachmentError else Inr ())"

definition verifyRoot :: "bytes \<Rightarrow> bytes \<Rightarrow> headerPrefix \<Rightarrow> bytes \<Rightarrow> sealCrypto \<Rightarrow> sealState result" where
  "verifyRoot cek objectId prefix refSnapshot crypto =
     res_bind (openCommitment cek objectId (hp_salt prefix) (hp_storedCommitment prefix) crypto) (\<lambda>state.
     res_bind (checkRoot state prefix refSnapshot) (\<lambda>_. Inr state))"

record headerContext =
  hc_state :: sealState
  hc_prefix :: headerPrefix
  hc_metadata :: bytes

definition verifyEpochRun :: "headerContext \<Rightarrow> int \<Rightarrow> unit result" where
  "verifyEpochRun ctx e =
     (let state = hc_state ctx; l = hp_layout (hc_prefix ctx); lp = hp_layoutParams (hc_prefix ctx) in
      if e < 0 \<or> e \<ge> ol_nEp l then Inl AttachmentError
      else let perEpoch = 2 ^ lp_epochLength lp; first = e * perEpoch; count = min perEpoch (ol_nSeg l - first);
               metaLen = lp_nh lp + 16; runStart = first * metaLen; runEnd = runStart + count * metaLen;
               nh = int (kdf_size (sc_kdf (ss_crypto state))) in
        res_bind (epochHead state (slice (hc_metadata ctx) runStart runEnd)) (\<lambda>head.
        if \<not> constantTimeEqual head (slice (hp_epochHeads (hc_prefix ctx)) (e * nh) (e * nh + nh))
        then Inl AttachmentError else Inr ()))"

definition openBlock :: "headerContext \<Rightarrow> int \<Rightarrow> bytes \<Rightarrow> (bytes \<times> headerContext) result" where
  "openBlock ctx index block =
     (let state = hc_state ctx; l = hp_layout (hc_prefix ctx); lp = hp_layoutParams (hc_prefix ctx) in
      if index < 0 \<or> index \<ge> ol_nSeg l then Inl AttachmentError
      else res_bind (segmentLength l lp index) (\<lambda>ctLen.
        if int (length block) \<noteq> ctLen then Inl AttachmentError
        else let metaLen = lp_nh lp + 16; metaOffset = index * metaLen;
                 storedLeaf = slice (hc_metadata ctx) metaOffset (metaOffset + metaLen);
                 tag = slice storedLeaf (lp_nh lp) (int (length storedLeaf)) in
          res_bind (segmentLeaf state block tag) (\<lambda>recomputedLeaf.
          if \<not> constantTimeEqual recomputedLeaf storedLeaf then Inl AttachmentError
          else res_map (\<lambda>(plaintext, state'). (plaintext, ctx\<lparr>hc_state := state'\<rparr>))
            (openSegment state index (index = ol_nSeg l - 1) block tag None None))))"

definition verifyHeader ::
    "bytes \<Rightarrow> bytes \<Rightarrow> bytes \<Rightarrow> bytes \<Rightarrow> int \<Rightarrow> sealCrypto \<Rightarrow> headerContext result" where
  "verifyHeader cek objectId header snapshot plaintextLength crypto =
     (if \<not> isSafeInteger plaintextLength \<or> plaintextLength \<le> 0 then Inl AttachmentError
      else res_bind (parsePrefix header plaintextLength (int (kdf_size (sc_kdf crypto)))) (\<lambda>prefix.
      if int (length header) \<noteq> ol_headerSize (hp_layout prefix) then Inl AttachmentError
      else res_map (\<lambda>state. \<lparr>hc_state = state, hc_prefix = prefix,
          hc_metadata = slice header (ol_metaOffset (hp_layout prefix))
            (ol_metaOffset (hp_layout prefix) + ol_metaLen (hp_layout prefix) * ol_nSeg (hp_layout prefix))\<rparr>)
        (verifyRoot cek objectId prefix snapshot crypto)))"

section \<open>Writing\<close>

record encryptedAttachment =
  ea_readable :: "bytes list"
  ea_reference :: attachmentRef
  ea_bytes :: bytes

text \<open>The chunks that the readable stream of an object hands out, from an offset on.\<close>

function readableChunks :: "bytes \<Rightarrow> int \<Rightarrow> bytes list" where
  "readableChunks bs offset =
     (if offset < 0 \<or> offset \<ge> int (length bs) then []
      else slice bs offset (min (offset + SEGMENT_MAX) (int (length bs))) #
        readableChunks bs (offset + int (length (slice bs offset (min (offset + SEGMENT_MAX) (int (length bs)))))))"
  by pat_completeness auto
termination
proof (relation "measure (\<lambda>(bs, offset). nat (int (length bs) - offset))", goal_cases)
  case (2 bs offset)
  then show ?case by (auto simp: slice_def slicePosition_def Let_def SEGMENT_MAX_def nat_less_iff)
qed simp

declare readableChunks.simps [simp del]

definition encryptAttachment ::
    "bytes \<Rightarrow> bytes \<Rightarrow> bytes \<Rightarrow> sealCrypto \<Rightarrow> bytes \<Rightarrow> bytes option \<Rightarrow> encryptedAttachment result" where
  "encryptAttachment cek objectId plaintext crypto salt locator =
     res_map (\<lambda>sealed. \<lparr>ea_readable = readableChunks (so_bytes sealed) 0,
         ea_reference = \<lparr>ref_version = 1, ref_objectId = objectId, ref_plaintextLength = int (length plaintext),
           ref_snapshot = so_snapshot sealed, ref_locator = (case locator of Some b \<Rightarrow> b | None \<Rightarrow> [])\<rparr>,
         ea_bytes = so_bytes sealed\<rparr>)
       (sealObject cek objectId plaintext crypto salt)"

definition encryptAttachmentForGroup ::
    "keySchedule \<Rightarrow> bytes \<Rightarrow> bytes \<Rightarrow> ('pub, 'priv, 'sk) ciphersuiteImpl \<Rightarrow> bytes \<Rightarrow> bytes option \<Rightarrow>
     encryptedAttachment result" where
  "encryptAttachmentForGroup keySchedule objectId plaintext cs salt locator =
     res_bind (attachmentCek keySchedule objectId (cs_kdf cs) None) (\<lambda>cek.
     res_bind (sealCryptoFromCiphersuite cs) (\<lambda>crypto.
     encryptAttachment cek objectId plaintext crypto salt locator))"

end
