(* ===== verification/AttachmentStream.thy ===== *)
theory AttachmentStream imports AttachmentObject begin

text \<open>
  The streaming readers of attachments: the sequential reader of \<^verbatim>\<open>src/attachment/reader.ts\<close> and the
  range reader of \<^verbatim>\<open>src/attachment/range.ts\<close>.

  A source is the list of what its successive reads return: a chunk or a rejection, then the end.  The
  sequential reader is a state machine: \<open>readerAdvance\<close> runs its startup up to the next point at
  which a cancellation can land, \<open>readerPull\<close> answers one pull, \<open>readerCancel\<close> is a cancellation by the
  consumer.  The closure variables of the source are the fields of \<open>readerState\<close>; the seal state, which
  the source reaches through two variables, is one field.
\<close>

type_synonym source = "bytes result list"

section \<open>The sequential reader\<close>

datatype streamStatus = StreamOpen | StreamClosed | StreamErrored mls_error

text \<open>Where the startup stands: what it has still to do.\<close>

datatype startPhase =
    BufferPrefix
  | Deriving "sealState result" bytes
  | BufferHeads bytes
  | BufferRuns headerPrefix bytes int
  | SkipGap
  | Started

record readerState =
  rd_source :: source
  rd_buffer :: "bytes list"
  rd_bufferedBytes :: int
  rd_phase :: startPhase
  rd_state :: "sealState option"
  rd_header :: "(headerPrefix \<times> bytes) option"
  rd_blockIndex :: int
  rd_cek :: bytes
  rd_ownsCek :: bool
  rd_stateWiped :: bool
  rd_cekWiped :: bool
  rd_cancelled :: bool
  rd_output :: "bytes list"
  rd_status :: streamStatus

definition doWipe :: "readerState \<Rightarrow> readerState" where
  "doWipe rs =
     (let rs1 = (case rd_state rs of
           Some s \<Rightarrow> if \<not> rd_stateWiped rs then rs\<lparr>rd_stateWiped := True, rd_state := Some (wipeSealState s)\<rparr> else rs
         | None \<Rightarrow> rs)
      in if \<not> rd_cekWiped rs1
         then rs1\<lparr>rd_cekWiped := True, rd_cek := (if rd_ownsCek rs1 then zeroed (rd_cek rs1) else rd_cek rs1)\<rparr> else rs1)"

text \<open>Reading until \<open>n\<close> bytes are queued; a source that ends or rejects before makes it throw.\<close>

fun fillLoop :: "int \<Rightarrow> source \<Rightarrow> bytes list \<Rightarrow> int \<Rightarrow> (source \<times> bytes list \<times> int) result" where
  "fillLoop n [] buffer buffered = (if buffered \<ge> n then Inr ([], buffer, buffered) else Inl AttachmentError)"
| "fillLoop n (item # rest) buffer buffered =
     (if buffered \<ge> n then Inr (item # rest, buffer, buffered)
      else case item of Inl e \<Rightarrow> Inl e
        | Inr chunk \<Rightarrow> fillLoop n rest (buffer @ [chunk]) (buffered + int (length chunk)))"

definition fillBuffer :: "int \<Rightarrow> readerState \<Rightarrow> readerState result" where
  "fillBuffer n rs = res_map (\<lambda>(source, buffer, buffered).
       rs\<lparr>rd_source := source, rd_buffer := buffer, rd_bufferedBytes := buffered\<rparr>)
     (fillLoop n (rd_source rs) (rd_buffer rs) (rd_bufferedBytes rs))"

text \<open>Taking \<open>n\<close> bytes off the queue, chunk by chunk.\<close>

fun takeQueue :: "nat \<Rightarrow> bytes list \<Rightarrow> bytes \<times> bytes list" where
  "takeQueue n [] = ([], [])"
| "takeQueue n (first # rest) =
     (if n = 0 then ([], first # rest)
      else if n < length first then (take n first, drop n first # rest)
      else (let (taken, rest') = takeQueue (n - length first) rest in (first @ taken, rest')))"

definition takeBytes :: "int \<Rightarrow> readerState \<Rightarrow> (bytes \<times> readerState) result" where
  "takeBytes n rs = res_map (\<lambda>rs1. let (taken, rest) = takeQueue (nat n) (rd_buffer rs1) in
       (taken, rs1\<lparr>rd_buffer := rest, rd_bufferedBytes := rd_bufferedBytes rs1 - n\<rparr>))
     (fillBuffer n rs)"

text \<open>The catch of the startup and of a pull: every error becomes the one opaque error.\<close>

definition readerFail :: "readerState \<Rightarrow> readerState" where
  "readerFail rs = (doWipe rs)\<lparr>rd_source := [],
     rd_status := (if rd_status rs = StreamOpen then StreamErrored AttachmentError else rd_status rs), rd_phase := Started\<rparr>"

definition orFail :: "readerState \<Rightarrow> readerState result \<Rightarrow> readerState" where
  "orFail rs r = (case r of Inr rs' \<Rightarrow> rs' | Inl _ \<Rightarrow> readerFail rs)"

definition readerLayoutParams :: "attachmentRef \<Rightarrow> sealCrypto \<Rightarrow> layoutParams" where
  "readerLayoutParams ref crypto = objectLayoutParams (ref_plaintextLength ref) (int (kdf_size (sc_kdf crypto)))"

text \<open>The checks before the stream is created.\<close>

definition decryptAttachmentStream ::
    "bytes \<Rightarrow> attachmentRef \<Rightarrow> source \<Rightarrow> sealCrypto \<Rightarrow> bool \<Rightarrow> (objectLayout \<times> readerState) result" where
  "decryptAttachmentStream cek ref ciphertext crypto ownsCek =
     res_bind (validateAttachmentRef ref (Some (kdf_size (sc_kdf crypto)))) (\<lambda>_.
     res_bind (assertCekLength cek) (\<lambda>_.
     if ref_plaintextLength ref \<le> 0 \<or> ref_plaintextLength ref > 2 ^ 53 - 1 then Inl AttachmentError
     else res_map (\<lambda>l. (l, \<lparr>rd_source = ciphertext, rd_buffer = [], rd_bufferedBytes = 0, rd_phase = BufferPrefix,
         rd_state = None, rd_header = None, rd_blockIndex = 0, rd_cek = cek, rd_ownsCek = ownsCek, rd_stateWiped = False,
         rd_cekWiped = False, rd_cancelled = False, rd_output = [], rd_status = StreamOpen\<rparr>))
       (layout (readerLayoutParams ref crypto))))"

text \<open>
  The startup: the commitment gate on the fixed prefix, the root once the epoch heads are there, every
  epoch's run against its head, the zero gap before the first block.
\<close>

definition readerAdvance :: "objectLayout \<Rightarrow> attachmentRef \<Rightarrow> sealCrypto \<Rightarrow> readerState \<Rightarrow> readerState" where
  "readerAdvance l ref crypto rs =
     (let nh = int (kdf_size (sc_kdf crypto)); prefixSize = 32 + nh; headsEnd = ol_epochHeadsOffset l + ol_nEp l * nh in
      case rd_phase rs of
        BufferPrefix \<Rightarrow> orFail rs (res_map (\<lambda>(head, rs1).
            rs1\<lparr>rd_phase := Deriving (openCommitment (rd_cek rs1) (ref_objectId ref) (slice head 0 32) (slice head 32 prefixSize) crypto) head\<rparr>)
          (takeBytes prefixSize rs))
      | Deriving gate head \<Rightarrow> (case gate of
            Inl _ \<Rightarrow> readerFail rs
          | Inr s \<Rightarrow> let rs1 = rs\<lparr>rd_state := Some s\<rparr> in
              if rd_cancelled rs then (doWipe rs1)\<lparr>rd_phase := Started\<rparr> else rs1\<lparr>rd_phase := BufferHeads head\<rparr>)
      | BufferHeads head \<Rightarrow> (case rd_state rs of
            None \<Rightarrow> rs
          | Some s \<Rightarrow> orFail rs (res_bind (takeBytes (headsEnd - prefixSize) rs) (\<lambda>(rest, rs1).
              res_bind (parsePrefix (head @ rest) (ref_plaintextLength ref) nh) (\<lambda>prefix.
              res_map (\<lambda>_. rs1\<lparr>rd_phase := BufferRuns prefix [] 0\<rparr>) (checkRoot s prefix (ref_snapshot ref))))))
      | BufferRuns prefix metadata e \<Rightarrow> (case rd_state rs of
            None \<Rightarrow> rs
          | Some s \<Rightarrow>
              if e \<ge> ol_nEp l then rs\<lparr>rd_header := Some (prefix, metadata), rd_phase := SkipGap\<rparr>
              else let perEpoch = 2 ^ ATTACHMENT_EPOCH_LENGTH; count = min perEpoch (ol_nSeg l - e * perEpoch) in
                orFail rs (res_bind (takeBytes (count * ol_metaLen l) rs) (\<lambda>(run, rs1).
                  res_map (\<lambda>_. rs1\<lparr>rd_phase := BufferRuns prefix (metadata @ run) (e + 1)\<rparr>)
                    (verifyEpochRun \<lparr>hc_state = s, hc_prefix = prefix, hc_metadata = metadata @ run\<rparr> e))))
      | SkipGap \<Rightarrow> orFail rs (res_bind (takeBytes (ol_firstBlockOffset l - ol_headerSize l) rs) (\<lambda>(gap, rs1).
            if isZeroRegion gap 0 (int (length gap)) then Inr (rs1\<lparr>rd_phase := Started\<rparr>) else Inl AttachmentError))
      | Started \<Rightarrow> rs)"

text \<open>Whether anything but empty chunks is left.\<close>

fun trailingBytes :: "source \<Rightarrow> bool result" where
  "trailingBytes [] = Inr False"
| "trailingBytes (Inl e # rest) = Inl e"
| "trailingBytes (Inr chunk # rest) = (if length chunk > 0 then Inr True else trailingBytes rest)"

definition readerPull :: "objectLayout \<Rightarrow> attachmentRef \<Rightarrow> sealCrypto \<Rightarrow> readerState \<Rightarrow> readerState" where
  "readerPull l ref crypto rs =
     (case (rd_phase rs, rd_status rs, rd_header rs, rd_state rs) of
        (Started, StreamOpen, Some (prefix, metadata), Some s) \<Rightarrow>
          if rd_blockIndex rs \<ge> ol_nSeg l then
            orFail rs (res_bind (if rd_bufferedBytes rs > 0 then Inr True else trailingBytes (rd_source rs)) (\<lambda>extra.
              if extra then Inl AttachmentError
              else Inr ((doWipe rs)\<lparr>rd_source := [], rd_status := StreamClosed\<rparr>)))
          else orFail rs (res_bind (segmentLength l (readerLayoutParams ref crypto) (rd_blockIndex rs)) (\<lambda>blockLen.
            res_bind (takeBytes blockLen rs) (\<lambda>(block, rs1).
            res_map (\<lambda>(plaintext, ctx). rs1\<lparr>rd_state := Some (hc_state ctx), rd_output := rd_output rs1 @ [plaintext],
                rd_blockIndex := rd_blockIndex rs1 + 1\<rparr>)
              (openBlock \<lparr>hc_state = s, hc_prefix = prefix, hc_metadata = metadata\<rparr> (rd_blockIndex rs) block))))
      | _ \<Rightarrow> rs)"

definition readerCancel :: "readerState \<Rightarrow> readerState" where
  "readerCancel rs = (doWipe (rs\<lparr>rd_cancelled := True\<rparr>))\<lparr>rd_source := [],
     rd_status := (if rd_status rs = StreamOpen then StreamClosed else rd_status rs)\<rparr>"

definition decryptAttachmentStreamForGroup ::
    "keySchedule \<Rightarrow> attachmentRef \<Rightarrow> source \<Rightarrow> ('pub, 'priv, 'sk) ciphersuiteImpl \<Rightarrow> (objectLayout \<times> readerState) result" where
  "decryptAttachmentStreamForGroup keySchedule ref ciphertext cs =
     res_bind (attachmentCek keySchedule (ref_objectId ref) (cs_kdf cs) None) (\<lambda>cek.
     res_bind (sealCryptoFromCiphersuite cs) (\<lambda>crypto.
     decryptAttachmentStream cek ref ciphertext crypto True))"


section \<open>The range reader\<close>

text \<open>
  A range read holds the content key it was opened with and whether it owns it (the group wrapper's
  does); closing it, and the end of any of its streams, zeroes an owned key.  The streams given to
  \<open>decrypt\<close> are read to their end or to the first failure; that the ones left over are then cancelled is
  an effect on the streams only.
\<close>

record attachmentRangeRead =
  ar_ranges :: "byteRange list"
  ar_segFirst :: int
  ar_segLast :: int
  ar_offset :: int
  ar_length :: int
  ar_ref :: attachmentRef
  ar_cek :: bytes
  ar_ownsCek :: bool
  ar_cekWiped :: bool

definition wipeCek :: "attachmentRangeRead \<Rightarrow> attachmentRangeRead" where
  "wipeCek r = (if ar_cekWiped r then r
     else r\<lparr>ar_cekWiped := True, ar_cek := (if ar_ownsCek r then zeroed (ar_cek r) else ar_cek r)\<rparr>)"

definition openAttachmentRange ::
    "bytes \<Rightarrow> attachmentRef \<Rightarrow> int \<Rightarrow> int \<Rightarrow> sealCrypto \<Rightarrow> bool \<Rightarrow> attachmentRangeRead result" where
  "openAttachmentRange cek ref offset len crypto ownsCek =
     res_bind (validateAttachmentRef ref (Some (kdf_size (sc_kdf crypto)))) (\<lambda>_.
     res_bind (assertCekLength cek) (\<lambda>_.
     if \<not> isSafeInteger offset \<or> \<not> isSafeInteger len then Inl AttachmentError
     else if ref_plaintextLength ref \<le> 0 \<or> ref_plaintextLength ref > 2 ^ 53 - 1 then Inl AttachmentError
     else res_map (\<lambda>(segFirst, segLast, ranges).
         \<lparr>ar_ranges = ranges, ar_segFirst = segFirst, ar_segLast = segLast, ar_offset = offset, ar_length = len,
          ar_ref = ref, ar_cek = cek, ar_ownsCek = ownsCek, ar_cekWiped = False\<rparr>)
       (rangesFor (readerLayoutParams ref crypto) offset len)))"

text \<open>Draining a source, no further than one chunk past what its range asks for.\<close>

fun drainLoop :: "int \<Rightarrow> source \<Rightarrow> bytes list \<Rightarrow> int \<Rightarrow> bytes list result" where
  "drainLoop expected [] chunks received = Inr chunks"
| "drainLoop expected (Inl e # rest) chunks received = Inl e"
| "drainLoop expected (Inr chunk # rest) chunks received =
     (if received + int (length chunk) > expected then Inl AttachmentError
      else drainLoop expected rest (chunks @ [chunk]) (received + int (length chunk)))"

definition drainStream :: "source \<Rightarrow> int \<Rightarrow> bytes result" where
  "drainStream reader expected = res_map concatAll (drainLoop expected reader [] 0)"

text \<open>The drained bytes by the offset of their range, and the first entry that covers a stretch of the object.\<close>

type_synonym sparseView = "(int \<times> bytes) list"

definition viewRange :: "sparseView \<Rightarrow> byteRange \<times> bytes \<Rightarrow> sparseView result" where
  "viewRange view rb = (if int (length (snd rb)) \<noteq> br_length (fst rb) then Inl AttachmentError
     else Inr (AList.update (br_offset (fst rb)) (snd rb) view))"

definition viewCovering :: "sparseView \<Rightarrow> int \<Rightarrow> int \<Rightarrow> (int \<times> bytes) option" where
  "viewCovering view from to = find (\<lambda>(offset, bs). offset \<le> from \<and> offset + int (length bs) \<ge> to) view"

definition viewSlice :: "sparseView \<Rightarrow> int \<Rightarrow> int \<Rightarrow> bytes result" where
  "viewSlice view from len = (case viewCovering view from (from + len) of
     None \<Rightarrow> Inl AttachmentError
   | Some (offset, bs) \<Rightarrow> Inr (slice bs (from - offset) (from - offset + len)))"

definition checkGap :: "objectLayout \<Rightarrow> sparseView \<Rightarrow> unit result" where
  "checkGap l view = (if ol_firstBlockOffset l > ol_headerSize l then
     (case viewCovering view (ol_headerSize l) (ol_firstBlockOffset l) of
        None \<Rightarrow> Inl AttachmentError
      | Some (offset, bs) \<Rightarrow> if \<not> isZeroRegion bs (ol_headerSize l - offset) (ol_firstBlockOffset l - offset)
          then Inl AttachmentError else Inr ())
     else Inr ())"

definition fetchRun :: "objectLayout \<Rightarrow> layoutParams \<Rightarrow> int \<Rightarrow> sparseView \<Rightarrow> bytes \<Rightarrow> int \<Rightarrow> bytes result" where
  "fetchRun l lp nh view metadata e =
     (let perEpoch = 2 ^ lp_epochLength lp; first = e * perEpoch; count = min perEpoch (ol_nSeg l - first);
          metaOffset = ol_metaOffset l + first * (nh + 16) in
      res_bind (viewSlice view metaOffset (count * (nh + 16))) (\<lambda>epochRun.
      setBytes metadata epochRun (metaOffset - ol_metaOffset l)))"

definition fetchBlock ::
    "objectLayout \<Rightarrow> layoutParams \<Rightarrow> sparseView \<Rightarrow> bytes list \<times> headerContext \<Rightarrow> int \<Rightarrow>
     (bytes list \<times> headerContext) result" where
  "fetchBlock l lp view acc i = (let (chunks, ctx) = acc in
     res_bind (segmentLength l lp i) (\<lambda>blockLen.
     res_bind (viewSlice view (ol_firstBlockOffset l + i * SEGMENT_MAX) blockLen) (\<lambda>blockData.
     res_map (\<lambda>(plaintext, ctx'). (chunks @ [plaintext], ctx')) (openBlock ctx i blockData))))"

text \<open>What the start of the stream does: the window of the plaintext, or the first failure.\<close>

definition rangeStart :: "objectLayout \<Rightarrow> layoutParams \<Rightarrow> attachmentRangeRead \<Rightarrow> source list \<Rightarrow> sealCrypto \<Rightarrow> bytes result" where
  "rangeStart l lp r streams crypto =
     (let nh = int (kdf_size (sc_kdf crypto)); ranges = ar_ranges r; ref = ar_ref r in
      if length streams \<noteq> length ranges then Inl AttachmentError
      else res_bind (res_mapM (\<lambda>(s, range). drainStream s (br_length range)) (zip streams ranges)) (\<lambda>rangeBytes.
      res_bind (res_foldM viewRange [] (zip ranges rangeBytes)) (\<lambda>view.
      res_bind (checkGap l view) (\<lambda>_.
      res_bind (case rangeBytes of [] \<Rightarrow> Inl TypeError
          | first # _ \<Rightarrow> parsePrefix first (lp_plaintextLength lp) nh) (\<lambda>prefix.
      res_bind (verifyRoot (ar_cek r) (ref_objectId ref) prefix (ref_snapshot ref) crypto) (\<lambda>state.
      let epFirst = epochOf lp (ar_segFirst r); epLast = epochOf lp (ar_segLast r) in
      res_bind (res_foldM (fetchRun l lp nh view) (replicate (nat (ol_nSeg l * (nh + 16))) 0) [epFirst..epLast]) (\<lambda>metadata.
      let ctx = \<lparr>hc_state = state, hc_prefix = prefix, hc_metadata = metadata\<rparr> in
      res_bind (res_mapM (verifyEpochRun ctx) [epFirst..epLast]) (\<lambda>_.
      res_map (\<lambda>(chunks, _). let windowStart = ar_offset r - ar_segFirst r * SEGMENT_MAX in
          slice (concatAll chunks) windowStart (windowStart + ar_length r))
        (res_foldM (fetchBlock l lp view) ([], ctx) [ar_segFirst r..ar_segLast r])))))))))"

text \<open>One stream, to its end: what it hands out or its error, and the read afterwards.\<close>

definition decryptRangeStream ::
    "attachmentRangeRead \<Rightarrow> source list \<Rightarrow> sealCrypto \<Rightarrow> (bytes result \<times> attachmentRangeRead) result" where
  "decryptRangeStream r streams crypto =
     (let lp = readerLayoutParams (ar_ref r) crypto in
      res_map (\<lambda>l. (case rangeStart l lp r streams crypto of
            Inr decrypted \<Rightarrow> (Inr decrypted, wipeCek r)
          | Inl _ \<Rightarrow> (Inl AttachmentError, wipeCek r)))
        (layout lp))"

definition openAttachmentRangeForGroup ::
    "keySchedule \<Rightarrow> attachmentRef \<Rightarrow> int \<Rightarrow> int \<Rightarrow> ('pub, 'priv, 'sk) ciphersuiteImpl \<Rightarrow> attachmentRangeRead result" where
  "openAttachmentRangeForGroup keySchedule ref offset len cs =
     res_bind (attachmentCek keySchedule (ref_objectId ref) (cs_kdf cs) None) (\<lambda>cek.
     res_bind (sealCryptoFromCiphersuite cs) (\<lambda>crypto.
     openAttachmentRange cek ref offset len crypto True))"

end
