(* ===== verification/AttachmentLaws.thy ===== *)
theory AttachmentLaws imports AttachmentStream begin

text \<open>
  Laws of the attachment format: byte arrays and their slices, the layout of an object, the key
  schedule without its cache, the reference to an object.  \<open>objectHolds\<close> is the abstract specification
  of an object; sealing establishes it and every reader decides it.
\<close>

named_theorems byte_simps \<open>slices of byte arrays\<close>

section \<open>Byte arrays\<close>

lemma slice_in: "0 \<le> a \<Longrightarrow> a \<le> b \<Longrightarrow> b \<le> int (length bs) \<Longrightarrow> slice bs a b = take (nat b - nat a) (drop (nat a) bs)"
  by (simp add: slice_def slicePosition_def min_def Let_def)

lemma slice_length: "0 \<le> a \<Longrightarrow> a \<le> b \<Longrightarrow> b \<le> int (length bs) \<Longrightarrow> length (slice bs a b) = nat (b - a)"
  by (simp add: slice_in nat_diff_distrib min_def) linarith

lemma slice_full [simp]: "slice bs 0 (int (length bs)) = bs"
  by (simp add: slice_in)

lemma slice_empty [simp]: "slice bs a a = []"
  by (simp add: slice_def Let_def)

lemma slice_append:
  assumes "0 \<le> a" "a \<le> b" "b \<le> c" "c \<le> int (length bs)"
  shows "slice bs a b @ slice bs b c = slice bs a c"
proof -
  have c: "nat c - nat a = (nat b - nat a) + (nat c - nat b)" and b: "nat b = (nat b - nat a) + nat a"
    using assms by auto
  have "take (nat c - nat a) (drop (nat a) bs) =
      take (nat b - nat a) (drop (nat a) bs) @ take (nat c - nat b) (drop (nat b - nat a + nat a) bs)"
    unfolding c take_add drop_drop by simp
  also have "nat b - nat a + nat a = nat b" using b by simp
  finally show ?thesis using assms by (simp add: slice_in)
qed

lemma slice_slice:
  assumes "0 \<le> a" "a \<le> b" "b \<le> int (length bs)" "0 \<le> c" "c \<le> d" "d \<le> b - a"
  shows "slice (slice bs a b) c d = slice bs (a + c) (a + d)"
proof -
  have "length (slice bs a b) = nat (b - a)" using assms by (simp add: slice_length)
  then have "slice (slice bs a b) c d = take (nat d - nat c) (drop (nat c) (slice bs a b))"
    using assms by (simp add: slice_in)
  also have "\<dots> = take (nat d - nat c) (drop (nat c + nat a) bs)"
    using assms by (simp add: slice_in drop_take min_def)
  also have "\<dots> = slice bs (a + c) (a + d)"
    using assms by (simp add: slice_in nat_add_distrib add.commute)
  finally show ?thesis .
qed

text \<open>A write into an array: what was written is read back, and nothing else changes.\<close>

lemma setBytes_total:
  "0 \<le> at \<Longrightarrow> at + int (length src) \<le> int (length dst) \<Longrightarrow> \<exists>out. setBytes dst src at = Inr out"
  by (simp add: setBytes_def)

lemma setBytes_fits: "setBytes dst src at = Inr out \<Longrightarrow> 0 \<le> at \<and> at + int (length src) \<le> int (length dst)"
  by (auto simp: setBytes_def split: if_splits)

lemma setBytes_length: "setBytes dst src at = Inr out \<Longrightarrow> length out = length dst"
  by (auto simp: setBytes_def split: if_splits)

lemma setBytes_same:
  assumes "setBytes dst src at = Inr out" "b = at + int (length src)"
  shows "slice out at b = src"
  using assms by (auto simp: setBytes_def slice_in nat_add_distrib min_def split: if_splits)

lemma setBytes_other:
  assumes "setBytes dst src at = Inr out" "0 \<le> a" "a \<le> b" "b \<le> int (length dst)" "b \<le> at \<or> at + int (length src) \<le> a"
  shows "slice out a b = slice dst a b"
proof -
  have out: "out = take (nat at) dst @ src @ drop (nat at + length src) dst" and at: "0 \<le> at" "at + int (length src) \<le> int (length dst)"
    using assms(1) by (auto simp: setBytes_def split: if_splits)
  have len: "int (length out) = int (length dst)" using assms(1) by (simp add: setBytes_length)
  show ?thesis
  proof (cases "b \<le> at")
    case True
    then have "nat b \<le> nat at" by simp
    then have "take (nat b - nat a) (drop (nat a) out) = take (nat b - nat a) (drop (nat a) dst)"
      using at assms(2,3) by (simp add: out drop_take)
    then show ?thesis using assms(2-4) len by (simp add: slice_in)
  next
    case False
    then have ge: "at + int (length src) \<le> a" using assms(5) by simp
    then have "drop (nat a) out = drop (nat a) dst"
      using at by (simp add: out min_def)
    then show ?thesis using assms(2-4) len by (simp add: slice_in)
  qed
qed

lemma isZeroRegion_slice:
  assumes "0 \<le> a" "a \<le> b" "b \<le> int (length bs)"
  shows "isZeroRegion bs a b \<longleftrightarrow> (\<forall>x \<in> set (slice bs a b). x = 0)"
proof -
  have "(\<forall>x \<in> set (slice bs a b). x = 0) \<longleftrightarrow> (\<forall>k < nat (b - a). bs ! (nat a + k) = 0)"
    using assms by (auto simp: all_set_conv_all_nth slice_length) (auto simp: slice_in nat_diff_distrib)
  also have "\<dots> \<longleftrightarrow> (\<forall>i \<in> {a..b - 1}. bs ! nat i = 0)"
  proof (intro iffI ballI allI impI)
    fix i assume h: "\<forall>k < nat (b - a). bs ! (nat a + k) = 0" "i \<in> {a..b - 1}"
    then have "nat (i - a) < nat (b - a)" "nat a + nat (i - a) = nat i" using assms(1) by auto
    with h(1) show "bs ! nat i = 0" by metis
  next
    fix k assume h: "\<forall>i \<in> {a..b - 1}. bs ! nat i = 0" "k < nat (b - a)"
    then have "a + int k \<in> {a..b - 1}" "nat (a + int k) = nat a + k" using assms(1) by auto
    with h(1) show "bs ! (nat a + k) = 0" by metis
  qed
  also have "\<dots> \<longleftrightarrow> isZeroRegion bs a b"
    using assms by (auto simp: isZeroRegion_def list_all_iff)
  finally show ?thesis by simp
qed

lemma isZeroRegion_shift:
  assumes "0 \<le> a" "a \<le> b" "b \<le> int (length bs)" "0 \<le> c" "c \<le> d" "d \<le> b - a"
  shows "isZeroRegion (slice bs a b) c d \<longleftrightarrow> isZeroRegion bs (a + c) (a + d)"
  using assms by (simp add: isZeroRegion_slice slice_slice slice_length)

text \<open>Consecutive parts of the same size.\<close>

lemma concat_upto_parts:
  assumes "0 \<le> m" "0 \<le> off + p * m" "p \<le> q" "off + q * m \<le> int (length bs)"
  shows "concat (map (\<lambda>i. slice bs (off + i * m) (off + i * m + m)) [p..q - 1]) = slice bs (off + p * m) (off + q * m)"
  using assms(3,4)
proof (induction "nat (q - p)" arbitrary: q)
  case 0
  then have "q = p" by simp
  then show ?case by simp
next
  case (Suc n)
  then have pq: "p \<le> q - 1" by simp
  have le: "off + (q - 1) * m \<le> off + q * m" using assms(1) by (simp add: left_diff_distrib)
  have pm: "p * m \<le> (q - 1) * m" using pq assms(1) by (rule mult_right_mono)
  have e: "off + (q - 1) * m + m = off + q * m" by (simp add: left_diff_distrib)
  have ih: "concat (map (\<lambda>i. slice bs (off + i * m) (off + i * m + m)) [p..q - 1 - 1]) =
      slice bs (off + p * m) (off + (q - 1) * m)"
    using Suc.hyps(2) Suc.prems(2) pq le by (intro Suc.hyps(1)) auto
  have "[p..q - 1] = [p..q - 1 - 1] @ [q - 1]"
    using pq by (simp add: upto_rec2)
  then have "concat (map (\<lambda>i. slice bs (off + i * m) (off + i * m + m)) [p..q - 1]) =
      slice bs (off + p * m) (off + (q - 1) * m) @ slice bs (off + (q - 1) * m) (off + q * m)"
    using ih by (simp add: e [symmetric])
  then show ?case
    using pm le Suc.prems(2) assms(2) by (simp add: slice_append)
qed


section \<open>The layout\<close>

lemma ceilDiv_bounds:
  assumes "0 < b"
  shows "(ceilDiv a b - 1) * b < a" "a \<le> ceilDiv a b * b"
proof -
  define q r where "q = (- a) div b" and "r = (- a) mod b"
  have "- a = b * q + r" by (simp add: q_def r_def)
  moreover have "0 \<le> r" "r < b" using assms by (simp_all add: r_def)
  moreover have "ceilDiv a b = - q" by (simp add: ceilDiv_def q_def)
  ultimately show "(ceilDiv a b - 1) * b < a" "a \<le> ceilDiv a b * b"
    by (simp_all add: algebra_simps)
qed

text \<open>What a layout of a plaintext of \<open>n\<close> bytes is, for digests of \<open>nh\<close> bytes.\<close>

definition fitted :: "objectLayout \<Rightarrow> int \<Rightarrow> int \<Rightarrow> bool" where
  "fitted l n nh \<longleftrightarrow> 0 \<le> nh \<and> 1 \<le> ol_nSeg l \<and> (ol_nSeg l - 1) * 65536 < n \<and> n \<le> ol_nSeg l * 65536 \<and>
     ol_nSeg l \<le> 2147483648 \<and> 1 \<le> ol_nEp l \<and> (ol_nEp l - 1) * 1024 < ol_nSeg l \<and> ol_nSeg l \<le> ol_nEp l * 1024 \<and>
     ol_metaLen l = nh + 16 \<and> ol_epochHeadsOffset l = 32 + 2 * nh \<and>
     ol_metaOffset l = 32 + 2 * nh + ol_nEp l * nh \<and> ol_headerSize l = ol_metaOffset l + ol_nSeg l * ol_metaLen l \<and>
     ol_headerSize l \<le> ol_firstBlockOffset l \<and> ol_firstBlockOffset l < ol_headerSize l + 65536 \<and>
     ol_totalSize l = ol_firstBlockOffset l + n"

lemma layout_Inr_iff:
  "layout (objectLayoutParams n nh) = Inr l \<longleftrightarrow> 0 < n \<and> n \<le> 2 ^ 53 - 1 \<and> ceilDiv n 65536 \<le> 2 ^ 31 \<and>
     (let nSeg = ceilDiv n 65536; nEp = ceilDiv nSeg 1024; headerSize = 32 + 2 * nh + nEp * nh + nSeg * (nh + 16);
          first = ceilDiv headerSize 65536 * 65536 in
      l = \<lparr>ol_nSeg = nSeg, ol_nEp = nEp, ol_headerSize = headerSize, ol_firstBlockOffset = first,
        ol_totalSize = first + n, ol_saltOffset = 0, ol_commitmentOffset = 32, ol_snapshotOffset = 32 + nh,
        ol_epochHeadsOffset = 32 + 2 * nh, ol_metaOffset = 32 + 2 * nh + nEp * nh, ol_metaLen = nh + 16\<rparr>)"
  by (auto simp: layout_def objectLayoutParams_def isSafeInteger_def MAX_SEGMENTS_def SEGMENT_MAX_def
      ATTACHMENT_EPOCH_LENGTH_def META_TAG_LENGTH_def Let_def)

lemma layout_fitted:
  assumes "layout (objectLayoutParams n nh) = Inr l" "0 \<le> nh"
  shows "fitted l n nh" "0 < n" "n \<le> 2 ^ 53 - 1"
proof -
  define S where "S = ceilDiv n 65536"
  define E where "E = ceilDiv S 1024"
  define H where "H = 32 + 2 * nh + E * nh + S * (nh + 16)"
  define F where "F = ceilDiv H 65536"
  have n: "0 < n" "n \<le> 2 ^ 53 - 1" "S \<le> 2 ^ 31"
    and l: "ol_nSeg l = S" "ol_nEp l = E" "ol_headerSize l = H" "ol_firstBlockOffset l = F * 65536"
      "ol_totalSize l = F * 65536 + n" "ol_epochHeadsOffset l = 32 + 2 * nh" "ol_metaOffset l = 32 + 2 * nh + E * nh"
      "ol_metaLen l = nh + 16"
    using assms(1) by (simp_all add: layout_Inr_iff Let_def S_def E_def H_def F_def)
  have S: "(S - 1) * 65536 < n" "n \<le> S * 65536" using ceilDiv_bounds [of 65536 n] by (simp_all add: S_def)
  then have S1: "1 \<le> S" using n(1) by linarith
  have E: "(E - 1) * 1024 < S" "S \<le> E * 1024" using ceilDiv_bounds [of 1024 S] by (simp_all add: E_def)
  then have E1: "1 \<le> E" using S1 by linarith
  have F: "(F - 1) * 65536 < H" "H \<le> F * 65536" using ceilDiv_bounds [of 65536 H] by (simp_all add: F_def)
  show "fitted l n nh"
    unfolding fitted_def l using assms(2) n(3) S S1 E E1 F by (simp add: H_def)
  show "0 < n" "n \<le> 2 ^ 53 - 1" using n by simp_all
qed

lemma layout_exists: "0 < n \<Longrightarrow> n \<le> 2 ^ 47 \<Longrightarrow> \<exists>l. layout (objectLayoutParams n nh) = Inr l"
  using ceilDiv_bounds [of 65536 n] by (simp add: layout_Inr_iff Let_def)

lemma fitted_arith:
  assumes "fitted l n nh"
  shows "ol_metaOffset l + ol_nSeg l * ol_metaLen l = ol_headerSize l" "ol_headerSize l \<le> ol_firstBlockOffset l"
    "ol_totalSize l = ol_firstBlockOffset l + n" "(ol_nSeg l - 1) * 65536 < n" "n \<le> ol_nSeg l * 65536"
    "1 \<le> ol_nSeg l" "1 \<le> ol_nEp l" "0 \<le> nh" "ol_metaLen l = nh + 16" "ol_epochHeadsOffset l = 32 + 2 * nh"
    "ol_epochHeadsOffset l + ol_nEp l * nh = ol_metaOffset l" "ol_nSeg l \<le> 2147483648" "ol_nSeg l \<le> ol_nEp l * 1024"
    "(ol_nEp l - 1) * 1024 < ol_nSeg l" "32 + 2 * nh \<le> ol_metaOffset l" "ol_metaOffset l \<le> ol_headerSize l" "0 < n"
proof -
  have "0 \<le> ol_nEp l * nh" "0 \<le> ol_nSeg l * ol_metaLen l" "0 \<le> (ol_nSeg l - 1) * 65536"
    using assms by (auto simp: fitted_def)
  then show "ol_metaOffset l + ol_nSeg l * ol_metaLen l = ol_headerSize l" "ol_headerSize l \<le> ol_firstBlockOffset l"
    "ol_totalSize l = ol_firstBlockOffset l + n" "(ol_nSeg l - 1) * 65536 < n" "n \<le> ol_nSeg l * 65536"
    "1 \<le> ol_nSeg l" "1 \<le> ol_nEp l" "0 \<le> nh" "ol_metaLen l = nh + 16" "ol_epochHeadsOffset l = 32 + 2 * nh"
    "ol_epochHeadsOffset l + ol_nEp l * nh = ol_metaOffset l" "ol_nSeg l \<le> 2147483648" "ol_nSeg l \<le> ol_nEp l * 1024"
    "(ol_nEp l - 1) * 1024 < ol_nSeg l" "32 + 2 * nh \<le> ol_metaOffset l" "ol_metaOffset l \<le> ol_headerSize l" "0 < n"
    using assms by (auto simp: fitted_def)
qed

text \<open>The length of a block: a whole segment, but for the last one.\<close>

definition blockLength :: "objectLayout \<Rightarrow> int \<Rightarrow> int \<Rightarrow> int" where
  "blockLength l n i = (if i < ol_nSeg l - 1 then 65536 else n - i * 65536)"

lemma segmentLength_eq:
  "segmentLength l (objectLayoutParams n nh) i = (if 0 \<le> i \<and> i < ol_nSeg l then Inr (blockLength l n i) else Inl AttachmentError)"
  by (simp add: segmentLength_def objectLayoutParams_def SEGMENT_MAX_def blockLength_def)

lemma blockLength_bounds:
  assumes "fitted l n nh" "0 \<le> i" "i < ol_nSeg l"
  shows "0 < blockLength l n i" "blockLength l n i \<le> 65536" "i * 65536 + blockLength l n i \<le> n"
    "i * 65536 + blockLength l n i = min ((i + 1) * 65536) n"
proof -
  have "i = ol_nSeg l - 1 \<or> i < ol_nSeg l - 1" using assms(3) by auto
  then have "i = ol_nSeg l - 1 \<or> (i + 1) * 65536 \<le> (ol_nSeg l - 1) * 65536" by auto
  then show "0 < blockLength l n i" "blockLength l n i \<le> 65536" "i * 65536 + blockLength l n i \<le> n"
    "i * 65536 + blockLength l n i = min ((i + 1) * 65536) n"
    using fitted_arith(4,5) [OF assms(1)] by (auto simp: blockLength_def)
qed

lemma blockRange_eq:
  "blockRange l (objectLayoutParams n nh) i = (if 0 \<le> i \<and> i < ol_nSeg l
     then Inr \<lparr>br_offset = ol_firstBlockOffset l + i * 65536, br_length = blockLength l n i\<rparr> else Inl AttachmentError)"
  by (simp add: blockRange_def segmentLength_eq) (simp add: objectLayoutParams_def SEGMENT_MAX_def)

text \<open>Leaves, heads and blocks lie inside their regions.\<close>

lemma meta_inside:
  assumes "fitted l n nh" "0 \<le> i" "i < ol_nSeg l"
  shows "ol_metaOffset l \<le> ol_metaOffset l + i * ol_metaLen l"
    "ol_metaOffset l + i * ol_metaLen l + ol_metaLen l \<le> ol_headerSize l"
proof -
  have m: "0 \<le> ol_metaLen l" using assms(1) by (simp add: fitted_def)
  then have "(i + 1) * ol_metaLen l \<le> ol_nSeg l * ol_metaLen l" using assms(3) by (intro mult_right_mono) auto
  then show "ol_metaOffset l + i * ol_metaLen l + ol_metaLen l \<le> ol_headerSize l"
    using fitted_arith(1) [OF assms(1)] by (simp add: distrib_right)
  show "ol_metaOffset l \<le> ol_metaOffset l + i * ol_metaLen l" using m assms(2) by simp
qed

lemma meta_apart:
  assumes "fitted l n nh" "i \<noteq> j"
  shows "ol_metaOffset l + i * ol_metaLen l + ol_metaLen l \<le> ol_metaOffset l + j * ol_metaLen l \<or>
    ol_metaOffset l + j * ol_metaLen l + ol_metaLen l \<le> ol_metaOffset l + i * ol_metaLen l"
proof -
  have m: "0 \<le> ol_metaLen l" using assms(1) by (simp add: fitted_def)
  have "(i + 1) * ol_metaLen l \<le> j * ol_metaLen l \<or> (j + 1) * ol_metaLen l \<le> i * ol_metaLen l"
    using assms(2) m by (cases "i < j") (auto intro!: mult_right_mono)
  then show ?thesis by (auto simp: distrib_right)
qed

lemma head_inside:
  assumes "fitted l n nh" "0 \<le> e" "e < ol_nEp l"
  shows "ol_epochHeadsOffset l \<le> ol_epochHeadsOffset l + e * nh" "ol_epochHeadsOffset l + e * nh + nh \<le> ol_metaOffset l"
proof -
  have m: "0 \<le> nh" using assms(1) by (simp add: fitted_def)
  then have "(e + 1) * nh \<le> ol_nEp l * nh" using assms(3) by (intro mult_right_mono) auto
  then show "ol_epochHeadsOffset l + e * nh + nh \<le> ol_metaOffset l"
    using fitted_arith(11) [OF assms(1)] by (simp add: distrib_right)
  show "ol_epochHeadsOffset l \<le> ol_epochHeadsOffset l + e * nh" using m assms(2) by simp
qed


section \<open>The key schedule\<close>

text \<open>What is assumed of the primitives: \<open>HKDF\<close> returns what was asked for, decryption inverts encryption.\<close>

definition sealCryptoOk :: "sealCrypto \<Rightarrow> bool" where
  "sealCryptoOk crypto \<longleftrightarrow> 10 \<le> kdf_size (sc_kdf crypto) \<and>
     (\<forall>prk info n. 0 \<le> n \<longrightarrow> length (kdf_expand (sc_kdf crypto) prk info n) = nat n) \<and>
     (\<forall>salt ikm. length (kdf_extract (sc_kdf crypto) salt ikm) = kdf_size (sc_kdf crypto)) \<and>
     (\<forall>k n a m. sc_decrypt crypto k n a (sc_encrypt crypto k n a m) = Inr m \<and>
        length (sc_encrypt crypto k n a m) = length m + 16) \<and>
     sc_tagLength crypto = 16 \<and> 8 \<le> sc_nonceLength crypto \<and>
     0 \<le> sc_aeadId crypto \<and> sc_aeadId crypto \<le> 65535 \<and> 0 \<le> sc_kdfId crypto \<and> sc_kdfId crypto \<le> 65535"

lemma lh_total: "10 \<le> kdf_size kdf \<Longrightarrow> lh x kdf = Inr (kdf_extract kdf (LP_SALT @ replicate (kdf_size kdf - 10) 0) x)"
  by (simp add: lh_def paddedSalt_def LP_SALT_def ascii_def eval_nat_numeral)

lemma encode_total: "10 \<le> kdf_size kdf \<Longrightarrow> \<exists>bs. encode kdf parts = Inr bs"
proof -
  assume k: "10 \<le> kdf_size kdf"
  have "\<exists>ys. res_mapM (\<lambda>p. frame p kdf) parts = Inr ys"
  proof (induction parts)
    case (Cons p ps)
    moreover have "\<exists>y. frame p kdf = Inr y" using k by (simp add: frame_def lh_total)
    ultimately show ?case by auto
  qed simp
  then show ?thesis by (auto simp: encode_def)
qed

lemma sealKdf_total:
  assumes "10 \<le> kdf_size kdf" "length protocolId \<le> 10"
  obtains prk info' where "sealKdf kdf protocolId label ikm info n = Inr (kdf_expand kdf prk info' n)"
proof -
  obtain a b where "encode kdf (ascii protocolId # ascii label # ikm) = Inr a"
    "encode kdf (ascii protocolId # ascii label # info @ [uint16be n]) = Inr b"
    using encode_total [OF assms(1)] by metis
  moreover have "\<exists>s. paddedSalt kdf (ascii protocolId) = Inr s"
    using assms by (simp add: paddedSalt_def ascii_def)
  ultimately show ?thesis by (auto simp: sealKdf_def Let_def intro: that)
qed

lemma sealKdf_length:
  assumes "sealCryptoOk crypto" "length protocolId \<le> 10" "0 \<le> n"
  shows "\<exists>key. sealKdf (sc_kdf crypto) protocolId label ikm info n = Inr key \<and> length key = nat n"
proof -
  have "10 \<le> kdf_size (sc_kdf crypto)" using assms(1) by (simp add: sealCryptoOk_def)
  then obtain prk info' where "sealKdf (sc_kdf crypto) protocolId label ikm info n = Inr (kdf_expand (sc_kdf crypto) prk info' n)"
    using assms(2) by (rule sealKdf_total)
  then show ?thesis using assms(1,3) by (simp add: sealCryptoOk_def)
qed

lemma protocolLength: "length PROTOCOL_RO \<le> 10"
  by (simp add: PROTOCOL_RO_def)

text \<open>The key of an epoch, and the operations on a segment, without the cache of the state.\<close>

definition keyOfEpoch :: "sealState \<Rightarrow> int \<Rightarrow> bytes result" where
  "keyOfEpoch state e = res_bind (uint64be e) (\<lambda>i. sealKdf (sc_kdf (ss_crypto state)) (sp_protocolId (ss_params state))
     ''epoch_key'' [ss_payloadKey state] [i] (sc_keyLength (ss_crypto state)))"

definition keyOfSegment :: "sealState \<Rightarrow> int \<Rightarrow> bytes result" where
  "keyOfSegment state i = (if i < 0 \<or> i \<ge> 2 ^ 63 then Inl AttachmentError
     else keyOfEpoch state (drop_bit (nat (sp_epochLength (ss_params state))) i))"

definition sealedAt :: "sealState \<Rightarrow> int \<Rightarrow> bool \<Rightarrow> bytes \<Rightarrow> sealedSegment result" where
  "sealedAt state i isFinal plaintext =
     res_bind (segmentNonce state i isFinal None) (\<lambda>nonce.
     res_bind (keyOfSegment state i) (\<lambda>key.
     res_bind (segmentAad state i isFinal []) (\<lambda>aad.
     let sealed = sc_encrypt (ss_crypto state) key nonce aad plaintext;
         split = int (length sealed) - sc_tagLength (ss_crypto state) in
     Inr \<lparr>sg_ciphertext = slice sealed 0 split, sg_tag = slice sealed split (int (length sealed)), sg_nonce = nonce\<rparr>)))"

definition openedAt :: "sealState \<Rightarrow> int \<Rightarrow> bool \<Rightarrow> bytes \<Rightarrow> bytes \<Rightarrow> bytes result" where
  "openedAt state i isFinal ciphertext tag =
     res_bind (segmentNonce state i isFinal None) (\<lambda>nonce.
     if int (length tag) \<noteq> sc_tagLength (ss_crypto state) then Inl AttachmentError
     else res_bind (keyOfSegment state i) (\<lambda>key.
     res_bind (segmentAad state i isFinal []) (\<lambda>aad.
     case sc_decrypt (ss_crypto state) key nonce aad (ciphertext @ tag) of
       Inl _ \<Rightarrow> Inl AttachmentError | Inr plaintext \<Rightarrow> Inr plaintext)))"

text \<open>A state that differs from \<open>base\<close> only in the epoch keys it has cached, each the right one.\<close>

definition cacheHolds :: "sealState \<Rightarrow> sealState \<Rightarrow> bool" where
  "cacheHolds base s \<longleftrightarrow> s = base\<lparr>ss_epochKeys := ss_epochKeys s\<rparr> \<and> \<not> ss_wiped base \<and>
     (\<forall>e k. map_of (ss_epochKeys s) e = Some k \<longrightarrow> keyOfEpoch base e = Inr k)"

lemma cacheHolds_fields:
  assumes "cacheHolds base s"
  shows "ss_params s = ss_params base" "ss_crypto s = ss_crypto base" "ss_nonceBase s = ss_nonceBase base"
    "ss_payloadKey s = ss_payloadKey base" "ss_snapKey s = ss_snapKey base" "ss_commitment s = ss_commitment base"
    "ss_wiped s = ss_wiped base" "\<not> ss_wiped base"
proof -
  have "s = base\<lparr>ss_epochKeys := ss_epochKeys s\<rparr>" using assms by (simp add: cacheHolds_def)
  then have "ss_params s = ss_params base \<and> ss_crypto s = ss_crypto base \<and> ss_nonceBase s = ss_nonceBase base \<and>
    ss_payloadKey s = ss_payloadKey base \<and> ss_snapKey s = ss_snapKey base \<and> ss_commitment s = ss_commitment base \<and>
    ss_wiped s = ss_wiped base" by (cases s; cases base) simp
  then show "ss_params s = ss_params base" "ss_crypto s = ss_crypto base" "ss_nonceBase s = ss_nonceBase base"
    "ss_payloadKey s = ss_payloadKey base" "ss_snapKey s = ss_snapKey base" "ss_commitment s = ss_commitment base"
    "ss_wiped s = ss_wiped base" by simp_all
  show "\<not> ss_wiped base" using assms by (simp add: cacheHolds_def)
qed

lemma cacheHolds_start: "ss_epochKeys base = [] \<Longrightarrow> \<not> ss_wiped base \<Longrightarrow> cacheHolds base base"
  by (cases base) (simp add: cacheHolds_def)

lemma cacheHolds_update:
  assumes "cacheHolds base s" "keyOfEpoch base e = Inr k"
  shows "cacheHolds base (s\<lparr>ss_epochKeys := AList.update e k (ss_epochKeys s)\<rparr>)"
proof -
  have "s\<lparr>ss_epochKeys := AList.update e k (ss_epochKeys s)\<rparr> = base\<lparr>ss_epochKeys := AList.update e k (ss_epochKeys s)\<rparr>"
    using assms(1) unfolding cacheHolds_def by (cases s; cases base) simp
  then show ?thesis using assms by (auto simp: cacheHolds_def update_conv split: if_splits)
qed

lemma segmentKey_tracks:
  assumes "cacheHolds base s"
  shows "tracks (cacheHolds base) (segmentKey s i) (keyOfSegment base i)"
proof (cases "i < 0 \<or> i \<ge> 2 ^ 63")
  case True
  then show ?thesis by (auto simp: segmentKey_def keyOfSegment_def)
next
  case False
  define e where "e = drop_bit (nat (sp_epochLength (ss_params base))) i"
  note f = cacheHolds_fields [OF assms]
  have spec: "keyOfSegment base i = keyOfEpoch base e"
    using False by (simp add: keyOfSegment_def e_def)
  show ?thesis
  proof (cases "map_of (ss_epochKeys s) e")
    case (Some k)
    then show ?thesis using False assms f
      by (simp add: segmentKey_def Let_def e_def [symmetric] spec) (simp add: cacheHolds_def)
  next
    case None
    then have "segmentKey s i = res_map (\<lambda>k. (k, s\<lparr>ss_epochKeys := AList.update e k (ss_epochKeys s)\<rparr>)) (keyOfEpoch base e)"
      using False f by (simp add: segmentKey_def Let_def e_def [symmetric] keyOfEpoch_def res_map_def res_bind_assoc)
    then show ?thesis
      using cacheHolds_update [OF assms] by (cases "keyOfEpoch base e") (simp_all add: spec)
  qed
qed

lemma segmentNonce_base: "cacheHolds base s \<Longrightarrow> segmentNonce s i f g = segmentNonce base i f g"
  by (simp add: segmentNonce_def cacheHolds_fields)

lemma segmentAad_base: "cacheHolds base s \<Longrightarrow> segmentAad s i f x = segmentAad base i f x"
  by (simp add: segmentAad_def cacheHolds_fields)

lemma digests_base:
  assumes "cacheHolds base s"
  shows "segmentLeaf s = segmentLeaf base" "epochHead s = epochHead base" "epochTreeRoot s = epochTreeRoot base"
  using assms by (simp_all add: fun_eq_iff segmentLeaf_def epochHead_def epochTreeRoot_def cacheHolds_fields)

lemma sealSegment_tracks:
  assumes "cacheHolds base s"
  shows "tracks (cacheHolds base) (sealSegment s i isFinal plaintext None None) (sealedAt base i isFinal plaintext)"
  unfolding sealSegment_def sealedAt_def Let_def option.case segmentNonce_base [OF assms] segmentAad_base [OF assms]
proof (rule tracks_same, rule tracks_bind [OF segmentKey_tracks [OF assms]], goal_cases)
  case (1 nonce key st)
  then show ?case by (cases "segmentAad base i isFinal []") (simp_all add: cacheHolds_fields [OF assms])
qed

lemma openSegment_tracks:
  assumes "cacheHolds base s"
  shows "tracks (cacheHolds base) (openSegment s i isFinal ciphertext tag None None) (openedAt base i isFinal ciphertext tag)"
proof (cases "int (length tag) = sc_tagLength (ss_crypto base)")
  case False
  then show ?thesis
    by (cases "segmentNonce base i isFinal None")
      (simp_all add: openSegment_def openedAt_def segmentNonce_base [OF assms] cacheHolds_fields [OF assms])
next
  case True
  show ?thesis
    unfolding openSegment_def openedAt_def Let_def option.case segmentNonce_base [OF assms] segmentAad_base [OF assms]
      cacheHolds_fields(2) [OF assms] True concatAll_def
  proof (rule tracks_same, simp, rule tracks_bind [OF segmentKey_tracks [OF assms]], goal_cases)
    case (1 nonce key st)
    then show ?case by (cases "segmentAad base i isFinal []") (auto split: sum.split)
  qed
qed


text \<open>The schedule of an object, as sealing and opening derive it.\<close>

definition objectState :: "sealCrypto \<Rightarrow> bytes \<Rightarrow> sealState \<Rightarrow> bool" where
  "objectState crypto salt st \<longleftrightarrow> ss_crypto st = crypto \<and> ss_params st = objectParams crypto salt \<and>
     \<not> ss_wiped st \<and> ss_epochKeys st = []"

lemma deriveSchedule_objectState:
  assumes "deriveSchedule cek (objectParams crypto salt) g crypto = Inr st"
  shows "objectState crypto salt st" "length salt = 32"
  using assms by (auto simp: deriveSchedule_def objectState_def res_bind_eq_Inr Let_def validateParams_def
      objectParams_def SALT_LENGTH_def split: if_splits)

lemma deriveSchedule_lengths:
  assumes "deriveSchedule cek (objectParams crypto salt) g crypto = Inr st" "sealCryptoOk crypto"
  obtains nb where "length (ss_commitment st) = kdf_size (sc_kdf crypto)" "ss_nonceBase st = Some nb"
    "int (length nb) = sc_nonceLength crypto"
proof -
  have pid: "length (sp_protocolId (objectParams crypto salt)) \<le> 10" by (simp add: objectParams_def PROTOCOL_RO_def)
  have len: "sealKdf (sc_kdf crypto) (sp_protocolId (objectParams crypto salt)) label ikm info n = Inr key \<Longrightarrow> 0 \<le> n \<Longrightarrow>
      length key = nat n" for label ikm info n key
    using sealKdf_length [OF assms(2) pid, of n label ikm info] by auto
  have "sp_nonceMode (objectParams crypto salt) = NONCE_DERIVED" by (simp add: objectParams_def)
  with assms(1) obtain nb where
    "sealKdf (sc_kdf crypto) (sp_protocolId (objectParams crypto salt)) ''commit''
      [cek] (rawFields (objectParams crypto salt) @ [g]) (int (kdf_size (sc_kdf crypto))) = Inr (ss_commitment st)"
    "sealKdf (sc_kdf crypto) (sp_protocolId (objectParams crypto salt)) ''nonce_base''
      [cek] (rawFields (objectParams crypto salt)) (sc_nonceLength crypto) = Inr nb" "ss_nonceBase st = Some nb"
    by (auto simp: deriveSchedule_def res_bind_eq_Inr res_map_eq_Inr Let_def)
  moreover have "0 \<le> sc_nonceLength crypto" using assms(2) by (simp add: sealCryptoOk_def)
  ultimately show ?thesis using len that by (metis int_nat_eq nat_int of_nat_0_le_iff)
qed

lemma deriveSchedule_total:
  assumes "sealCryptoOk crypto" "length salt = 32"
  shows "\<exists>st. deriveSchedule cek (objectParams crypto salt) g crypto = Inr st"
proof -
  have k: "10 \<le> kdf_size (sc_kdf crypto)" using assms(1) by (simp add: sealCryptoOk_def)
  have pid: "length (sp_protocolId (objectParams crypto salt)) \<le> 10" by (simp add: objectParams_def PROTOCOL_RO_def)
  have total: "\<exists>key. sealKdf (sc_kdf crypto) (sp_protocolId (objectParams crypto salt)) label ikm info n = Inr key"
    for label ikm info n using sealKdf_total [OF k pid] by metis
  have "validateParams (objectParams crypto salt) = Inr ()"
    using assms by (simp add: validateParams_def objectParams_def sealCryptoOk_def SNAP_EPOCH_TREE_def SEGMENT_MAX_def
        NONCE_DERIVED_def ATTACHMENT_EPOCH_LENGTH_def SALT_LENGTH_def)
  moreover obtain a where "sealKdf (sc_kdf crypto) (sp_protocolId (objectParams crypto salt)) ''commit''
      [cek] (rawFields (objectParams crypto salt) @ [g]) (int (kdf_size (sc_kdf crypto))) = Inr a" using total by metis
  moreover obtain b where "sealKdf (sc_kdf crypto) (sp_protocolId (objectParams crypto salt)) ''payload_key''
      [cek] (rawFields (objectParams crypto salt)) (sc_keyLength crypto) = Inr b" using total by metis
  moreover obtain c where "sealKdf (sc_kdf crypto) (sp_protocolId (objectParams crypto salt)) ''acc_key''
      [cek] (rawFields (objectParams crypto salt)) (int (kdf_size (sc_kdf crypto))) = Inr c" using total by metis
  moreover obtain d where "sealKdf (sc_kdf crypto) (sp_protocolId (objectParams crypto salt)) ''nonce_base''
      [cek] (rawFields (objectParams crypto salt)) (sc_nonceLength crypto) = Inr d" using total by metis
  ultimately show ?thesis by (simp add: deriveSchedule_def Let_def)
qed

text \<open>The index and the mark of the last segment, packed into one integer.\<close>

lemma nonceCounter: "push_bit 1 i OR (if f then 1 else 0) = 2 * i + (if f then 1 else 0)" for i :: int
  using int_or_add [of "if f then 1 else 0" 1 "2 * i"] by (simp add: push_bit_eq_mult ac_simps)

lemma uint64be_Inr: "uint64be n = Inr bs \<longleftrightarrow> 0 \<le> n \<and> n < 2 ^ 64 \<and> bs = be_bytes 8 n"
  by (auto simp: uint64be_def simp del: be_bytes.simps)

lemma derivedNonce_Inr:
  "derivedNonce nb i f = Inr nonce \<longleftrightarrow> 8 \<le> length nb \<and> 0 \<le> i \<and> i < 2 ^ 63 \<and>
     nonce = take (length nb - 8) nb @ map2 (XOR) (drop (length nb - 8) nb) (be_bytes 8 (2 * i + (if f then 1 else 0)))"
proof (cases "8 \<le> length nb \<and> 0 \<le> i \<and> i < 2 ^ 63")
  case True
  then have "uint64be (2 * i + (if f then 1 else 0)) = Inr (be_bytes 8 (2 * i + (if f then 1 else 0)))"
    by (simp add: uint64be_Inr del: be_bytes.simps)
  with True show ?thesis unfolding derivedNonce_def Let_def nonceCounter by (auto simp del: be_bytes.simps)
qed (auto simp: derivedNonce_def simp del: be_bytes.simps)

lemma objectState_segment:
  assumes "objectState crypto salt st" "0 \<le> i" "i < 2 ^ 63" "ss_nonceBase st = Some nb" "8 \<le> length nb"
    "int (length nb) = sc_nonceLength crypto" "10 \<le> kdf_size (sc_kdf crypto)"
  obtains nonce key where "segmentNonce st i f None = Inr nonce" "keyOfSegment st i = Inr key" "segmentAad st i f [] = Inr []"
proof -
  have mode: "sp_nonceMode (ss_params st) = NONCE_DERIVED" and pid: "sp_protocolId (ss_params st) = PROTOCOL_RO"
    and crypto: "ss_crypto st = crypto" and el: "sp_epochLength (ss_params st) = 10"
    using assms(1) by (simp_all add: objectState_def objectParams_def ATTACHMENT_EPOCH_LENGTH_def)
  define nonce where "nonce = take (length nb - 8) nb @
    map2 (XOR) (drop (length nb - 8) nb) (be_bytes 8 (2 * i + (if f then 1 else 0)))"
  have n: "derivedNonce nb i f = Inr nonce"
    unfolding derivedNonce_Inr nonce_def using assms(2,3,5) by blast
  have "length nonce = length nb"
    using assms(5) by (simp add: nonce_def del: be_bytes.simps)
  then have "segmentNonce st i f None = Inr nonce"
    using assms(4,6) by (simp add: segmentNonce_def mode n crypto)
  moreover have "\<exists>key. keyOfSegment st i = Inr key"
  proof -
    have d: "0 \<le> drop_bit 10 i" "drop_bit 10 i < 2 ^ 64"
      using assms(2,3) by (simp_all add: drop_bit_eq_div)
    obtain prk info' where "sealKdf (sc_kdf crypto) PROTOCOL_RO ''epoch_key'' [ss_payloadKey st] [be_bytes 8 (drop_bit 10 i)]
        (sc_keyLength crypto) = Inr (kdf_expand (sc_kdf crypto) prk info' (sc_keyLength crypto))"
      by (rule sealKdf_total [OF assms(7) protocolLength])
    moreover have "uint64be (drop_bit 10 i) = Inr (be_bytes 8 (drop_bit 10 i))"
      using d by (simp add: uint64be_Inr del: be_bytes.simps)
    ultimately show ?thesis
      using assms(2,3) by (simp add: keyOfSegment_def keyOfEpoch_def pid crypto el del: be_bytes.simps)
  qed
  moreover have "segmentAad st i f [] = Inr []" using assms(2,3) by (simp add: segmentAad_def mode)
  ultimately show ?thesis using that by blast
qed

text \<open>A sealed segment opens to its plaintext.\<close>

lemma sealedAt_opens:
  assumes "objectState crypto salt st" "sealCryptoOk crypto" "0 \<le> i" "i < 2 ^ 63" "ss_nonceBase st = Some nb"
    "int (length nb) = sc_nonceLength crypto"
  obtains sg where "sealedAt st i f plaintext = Inr sg" "length (sg_ciphertext sg) = length plaintext"
    "length (sg_tag sg) = 16" "openedAt st i f (sg_ciphertext sg) (sg_tag sg) = Inr plaintext"
proof -
  have k: "10 \<le> kdf_size (sc_kdf crypto)" and nl: "8 \<le> length nb" and tl: "sc_tagLength crypto = 16"
    and aead: "\<And>k n a m. sc_decrypt crypto k n a (sc_encrypt crypto k n a m) = Inr m"
      "\<And>k n a m. length (sc_encrypt crypto k n a m) = length m + 16"
    using assms(2,6) by (auto simp: sealCryptoOk_def)
  have c: "ss_crypto st = crypto" using assms(1) by (simp add: objectState_def)
  obtain nonce key where ok: "segmentNonce st i f None = Inr nonce" "keyOfSegment st i = Inr key" "segmentAad st i f [] = Inr []"
    by (rule objectState_segment [OF assms(1,3,4,5) nl assms(6) k, of f])
  define sealed where "sealed = sc_encrypt crypto key nonce [] plaintext"
  have len: "length sealed = length plaintext + 16" by (simp add: sealed_def aead)
  let ?sg = "\<lparr>sg_ciphertext = slice sealed 0 (int (length plaintext)),
      sg_tag = slice sealed (int (length plaintext)) (int (length sealed)), sg_nonce = nonce\<rparr>"
  have split: "slice sealed 0 (int (length plaintext)) @ slice sealed (int (length plaintext)) (int (length sealed)) =
      slice sealed 0 (int (length sealed))"
    by (rule slice_append) (simp_all add: len)
  have "int (length sealed) - 16 = int (length plaintext)" using len by simp
  then have "sealedAt st i f plaintext = Inr ?sg"
    by (simp add: sealedAt_def ok c tl Let_def sealed_def [symmetric])
  moreover have "length (slice sealed 0 (int (length plaintext))) = length plaintext"
    "length (slice sealed (int (length plaintext)) (int (length sealed))) = 16"
    using len by (simp_all add: slice_length)
  moreover from this have "openedAt st i f (sg_ciphertext ?sg) (sg_tag ?sg) = Inr plaintext"
    using split by (simp add: openedAt_def ok c tl) (simp add: sealed_def aead)
  ultimately show ?thesis by (intro that [of ?sg]) simp_all
qed

end
