(* ===== verification/AttachmentSpec.thy ===== *)
theory AttachmentSpec imports AttachmentLaws begin

text \<open>
  The abstract specification of an attachment object, \<open>objectHolds\<close>: every part of the bytes is what the
  schedule says, and the segments decrypt to the plaintext.  Opening a whole object decides it, sealing
  establishes it.
\<close>

section \<open>The specification\<close>

text \<open>The parts of an object of digests of \<open>nh\<close> bytes.\<close>

definition leafBytes :: "objectLayout \<Rightarrow> bytes \<Rightarrow> int \<Rightarrow> bytes" where
  "leafBytes l bs i = slice bs (ol_metaOffset l + i * ol_metaLen l) (ol_metaOffset l + i * ol_metaLen l + ol_metaLen l)"

definition tagAt :: "objectLayout \<Rightarrow> int \<Rightarrow> bytes \<Rightarrow> int \<Rightarrow> bytes" where
  "tagAt l nh bs i = slice bs (ol_metaOffset l + i * ol_metaLen l + nh) (ol_metaOffset l + i * ol_metaLen l + ol_metaLen l)"

definition blockAt :: "objectLayout \<Rightarrow> int \<Rightarrow> bytes \<Rightarrow> int \<Rightarrow> bytes" where
  "blockAt l n bs i = slice bs (ol_firstBlockOffset l + i * 65536) (ol_firstBlockOffset l + i * 65536 + blockLength l n i)"

definition headAt :: "objectLayout \<Rightarrow> int \<Rightarrow> bytes \<Rightarrow> int \<Rightarrow> bytes" where
  "headAt l nh bs e = slice bs (ol_epochHeadsOffset l + e * nh) (ol_epochHeadsOffset l + e * nh + nh)"

text \<open>The segments of an epoch end where the next epoch's begin, or where the object's end.\<close>

definition epochEnd :: "objectLayout \<Rightarrow> int \<Rightarrow> int" where
  "epochEnd l e = min ((e + 1) * 1024) (ol_nSeg l)"

definition runAt :: "objectLayout \<Rightarrow> bytes \<Rightarrow> int \<Rightarrow> bytes" where
  "runAt l bs e = slice bs (ol_metaOffset l + e * 1024 * ol_metaLen l) (ol_metaOffset l + epochEnd l e * ol_metaLen l)"

definition segmentHolds :: "objectLayout \<Rightarrow> int \<Rightarrow> int \<Rightarrow> sealState \<Rightarrow> bytes \<Rightarrow> int \<Rightarrow> bool" where
  "segmentHolds l n nh base bs i \<longleftrightarrow> segmentLeaf base (blockAt l n bs i) (tagAt l nh bs i) = Inr (leafBytes l bs i)"

definition epochHolds :: "objectLayout \<Rightarrow> int \<Rightarrow> sealState \<Rightarrow> bytes \<Rightarrow> int \<Rightarrow> bool" where
  "epochHolds l nh base bs e \<longleftrightarrow> epochHead base (runAt l bs e) = Inr (headAt l nh bs e)"

definition rootHolds :: "objectLayout \<Rightarrow> int \<Rightarrow> sealState \<Rightarrow> bytes \<Rightarrow> bytes \<Rightarrow> bool" where
  "rootHolds l nh base bs snapshot \<longleftrightarrow>
     epochTreeRoot base (ol_nSeg l) (slice bs (ol_epochHeadsOffset l) (ol_metaOffset l)) = Inr snapshot \<and>
     slice bs (32 + nh) (32 + 2 * nh) = snapshot"

definition openedSegment :: "objectLayout \<Rightarrow> int \<Rightarrow> int \<Rightarrow> sealState \<Rightarrow> bytes \<Rightarrow> int \<Rightarrow> bytes result" where
  "openedSegment l n nh base bs i = openedAt base i (i = ol_nSeg l - 1) (blockAt l n bs i) (tagAt l nh bs i)"

text \<open>The schedule that an object's salt gives, where its commitment is the one stored.\<close>

definition scheduleHolds :: "bytes \<Rightarrow> bytes \<Rightarrow> sealCrypto \<Rightarrow> bytes \<Rightarrow> sealState \<Rightarrow> bool" where
  "scheduleHolds cek objectId crypto bs base \<longleftrightarrow>
     deriveSchedule cek (objectParams crypto (slice bs 0 32)) objectId crypto = Inr base \<and>
     ss_commitment base = slice bs 32 (32 + int (kdf_size (sc_kdf crypto)))"

definition headsHold :: "objectLayout \<Rightarrow> int \<Rightarrow> int \<Rightarrow> sealState \<Rightarrow> bytes \<Rightarrow> bool" where
  "headsHold l n nh base bs \<longleftrightarrow> (\<forall>i. 0 \<le> i \<and> i < ol_nSeg l \<longrightarrow> segmentHolds l n nh base bs i) \<and>
     (\<forall>e. 0 \<le> e \<and> e < ol_nEp l \<longrightarrow> epochHolds l nh base bs e)"

definition objectHolds ::
    "objectLayout \<Rightarrow> bytes \<Rightarrow> bytes \<Rightarrow> bytes \<Rightarrow> int \<Rightarrow> sealCrypto \<Rightarrow> bytes \<Rightarrow> sealState \<Rightarrow> bytes list \<Rightarrow> bool" where
  "objectHolds l cek objectId snapshot n crypto bs base parts \<longleftrightarrow>
     (let nh = int (kdf_size (sc_kdf crypto)) in
      int (length bs) = ol_totalSize l \<and> isZeroRegion bs (ol_headerSize l) (ol_firstBlockOffset l) \<and>
      scheduleHolds cek objectId crypto bs base \<and>
      headsHold l n nh base bs \<and> rootHolds l nh base bs snapshot \<and>
      res_mapM (openedSegment l n nh base bs) [0..ol_nSeg l - 1] = Inr parts)"

section \<open>Loops over a state with a cache\<close>

lemma tracks_foldM_parts:
  assumes step: "\<And>s x. I s \<Longrightarrow> x \<in> set xs \<Longrightarrow> tracks I (g s x) (h x)" and "I s"
  shows "tracks I (res_foldM (\<lambda>(parts, s) x. res_map (\<lambda>(p, s'). (parts @ [p], s')) (g s x)) (parts, s) xs)
    (res_map (\<lambda>ps. parts @ ps) (res_mapM h xs))"
  using assms
proof (induction xs arbitrary: parts s)
  case (Cons x xs)
  have "tracks I (g s x) (h x)" by (rule Cons.prems(1) [OF Cons.prems(2)]) simp
  then show ?case
  proof (cases "g s x")
    case (Inr z)
    obtain p s' where z: "z = (p, s')" by (cases z)
    then have h: "h x = Inr p" and s': "I s'"
      using \<open>tracks I (g s x) (h x)\<close> Inr by simp_all
    have "tracks I (res_foldM (\<lambda>(parts, s) x. res_map (\<lambda>(p, s'). (parts @ [p], s')) (g s x)) (parts @ [p], s') xs)
      (res_map (\<lambda>ps. (parts @ [p]) @ ps) (res_mapM h xs))"
      by (rule Cons.IH) (use Cons.prems(1) s' in auto)
    then show ?thesis by (simp add: Inr z h res_map_def res_bind_assoc)
  qed simp
qed simp

text \<open>A tracked loop succeeds exactly when the untracked one does.\<close>

lemma tracks_Inr_iff: "tracks I r s \<Longrightarrow> (\<exists>st. r = Inr (v, st)) \<longleftrightarrow> s = Inr v"
  by (cases r) (auto simp: tracks_def)

lemma res_mapM_all_iff:
  assumes "\<And>x y. x \<in> set xs \<Longrightarrow> f x = Inr y \<longleftrightarrow> P x \<and> y = g x"
  shows "res_mapM f xs = Inr ys \<longleftrightarrow> (\<forall>x \<in> set xs. P x) \<and> ys = map g xs"
  using assms by (induction xs arbitrary: ys) (auto simp: res_bind_eq_Inr)

section \<open>Opening an object whole\<close>

lemma checkedLeaf_iff:
  assumes "0 \<le> i" "i < ol_nSeg l" "ss_crypto st = crypto" "nh = int (kdf_size (sc_kdf crypto))"
  shows "checkedLeaf l (objectLayoutParams n nh) crypto bs st i = Inr leaf \<longleftrightarrow>
    segmentHolds l n nh st bs i \<and> leaf = leafBytes l bs i"
  using assms
  by (auto simp: checkedLeaf_def blockRange_eq Let_def metaRange_def res_bind_eq_Inr constantTimeEqual_iff segmentHolds_def
      blockAt_def tagAt_def leafBytes_def split: if_splits)

lemma epochSegments_eq: "epochSegments l e = [e * 1024..epochEnd l e - 1]"
  by (simp add: epochSegments_def epochEnd_def ATTACHMENT_EPOCH_LENGTH_def Let_def min_def distrib_right)

lemma set_epochSegments: "set (epochSegments l e) = {e * 1024..epochEnd l e - 1}"
  by (simp add: epochSegments_eq)

lemma epochEnd_bounds:
  assumes "fitted l n nh" "0 \<le> e" "e < ol_nEp l"
  shows "e * 1024 < epochEnd l e" "epochEnd l e \<le> ol_nSeg l" "epochEnd l e \<le> (e + 1) * 1024"
proof -
  have "e * 1024 \<le> (ol_nEp l - 1) * 1024" using assms(3) by simp
  then show "e * 1024 < epochEnd l e" "epochEnd l e \<le> ol_nSeg l" "epochEnd l e \<le> (e + 1) * 1024"
    using fitted_arith(14) [OF assms(1)] by (simp_all add: epochEnd_def)
qed

lemma runAt_leaves:
  assumes "fitted l n nh" "0 \<le> e" "e < ol_nEp l" "ol_headerSize l \<le> int (length bs)"
  shows "concatAll (map (leafBytes l bs) (epochSegments l e)) = runAt l bs e"
proof -
  note b = epochEnd_bounds [OF assms(1-3)]
  note a = fitted_arith [OF assms(1)]
  have m: "0 \<le> ol_metaLen l" "0 \<le> ol_metaOffset l" using a by auto
  then have "epochEnd l e * ol_metaLen l \<le> ol_nSeg l * ol_metaLen l" using b(2) by (intro mult_right_mono) auto
  then have "ol_metaOffset l + epochEnd l e * ol_metaLen l \<le> int (length bs)" using a(1) assms(4) by simp
  moreover have "0 \<le> e * 1024 * ol_metaLen l" using assms(2) m by simp
  ultimately show ?thesis
    using m b(1) unfolding concatAll_def epochSegments_eq runAt_def leafBytes_def
    by (intro concat_upto_parts) auto
qed

lemma checkedHead_iff:
  assumes "fitted l n nh" "0 \<le> e" "e < ol_nEp l" "ol_headerSize l \<le> int (length bs)" "ss_crypto st = crypto"
    "nh = int (kdf_size (sc_kdf crypto))"
  shows "checkedHead l (objectLayoutParams n nh) crypto bs st e = Inr head \<longleftrightarrow>
    (\<forall>i \<in> {e * 1024..epochEnd l e - 1}. segmentHolds l n nh st bs i) \<and> epochHolds l nh st bs e \<and> head = headAt l nh bs e"
proof -
  note b = epochEnd_bounds [OF assms(1-3)]
  have "res_mapM (checkedLeaf l (objectLayoutParams n nh) crypto bs st) (epochSegments l e) = Inr leaves \<longleftrightarrow>
      (\<forall>i \<in> set (epochSegments l e). segmentHolds l n nh st bs i) \<and> leaves = map (leafBytes l bs) (epochSegments l e)" for leaves
    using assms(2,5,6) b by (intro res_mapM_all_iff checkedLeaf_iff) (auto simp: epochSegments_eq)
  moreover have "slice bs (ol_epochHeadsOffset l + e * nh) (ol_epochHeadsOffset l + (e + 1) * nh) = headAt l nh bs e"
    by (simp add: headAt_def distrib_right add.assoc)
  ultimately show ?thesis
    unfolding checkedHead_def Let_def assms(6) [symmetric] res_bind_eq_Inr
    by (auto simp: runAt_leaves [OF assms(1-4)] constantTimeEqual_iff epochHolds_def set_epochSegments split: if_splits)
qed

text \<open>Every segment belongs to an epoch.\<close>

lemma segments_by_epoch:
  assumes "fitted l n nh"
  shows "(\<forall>e \<in> {0..ol_nEp l - 1}. \<forall>i \<in> {e * 1024..epochEnd l e - 1}. P i) \<longleftrightarrow> (\<forall>i. 0 \<le> i \<and> i < ol_nSeg l \<longrightarrow> P i)"
proof (intro iffI allI ballI impI)
  fix i assume h: "\<forall>e \<in> {0..ol_nEp l - 1}. \<forall>i \<in> {e * 1024..epochEnd l e - 1}. P i" and i: "0 \<le> i \<and> i < ol_nSeg l"
  define e where "e = i div 1024"
  have e: "e * 1024 \<le> i" "i < (e + 1) * 1024" "0 \<le> e" using i by (simp_all add: e_def) (auto simp: e_def)
  then have "e \<in> {0..ol_nEp l - 1}" using i fitted_arith(13) [OF assms] by auto
  moreover have "i \<in> {e * 1024..epochEnd l e - 1}" using e i by (simp add: epochEnd_def)
  ultimately show "P i" using h by blast
next
  fix e i assume h: "\<forall>i. 0 \<le> i \<and> i < ol_nSeg l \<longrightarrow> P i" and e: "e \<in> {0..ol_nEp l - 1}" and i: "i \<in> {e * 1024..epochEnd l e - 1}"
  have "epochEnd l e \<le> ol_nSeg l" by (simp add: epochEnd_def)
  with i e h show "P i" by auto
qed

lemma heads_concat:
  assumes "fitted l n nh" "ol_headerSize l \<le> int (length bs)"
  shows "concatAll (map (headAt l nh bs) [0..ol_nEp l - 1]) = slice bs (ol_epochHeadsOffset l) (ol_metaOffset l)"
proof -
  note a = fitted_arith [OF assms(1)]
  have "concat (map (\<lambda>i. slice bs (ol_epochHeadsOffset l + i * nh) (ol_epochHeadsOffset l + i * nh + nh)) [0..ol_nEp l - 1]) =
      slice bs (ol_epochHeadsOffset l + 0 * nh) (ol_epochHeadsOffset l + ol_nEp l * nh)"
    by (rule concat_upto_parts) (use a assms(2) in auto)
  then show ?thesis using a(11) by (simp add: concatAll_def headAt_def [abs_def])
qed


lemma res_foldM_cong:
  "(\<And>s x. x \<in> set xs \<Longrightarrow> f s x = g s x) \<Longrightarrow> res_foldM f s xs = res_foldM g s xs"
  by (induction xs arbitrary: s) (auto intro: res_bind_cong)

lemma openObjectSegment_eq:
  assumes "0 \<le> i" "i < ol_nSeg l" "nh = int (kdf_size (sc_kdf crypto))"
  shows "openObjectSegment l (objectLayoutParams n nh) crypto bs acc i = (\<lambda>(parts, s) x. res_map (\<lambda>(p, s'). (parts @ [p], s'))
    (openSegment s x (x = ol_nSeg l - 1) (blockAt l n bs x) (tagAt l nh bs x) None None)) acc i"
  using assms(1,2)
  by (cases acc) (simp add: openObjectSegment_def blockRange_eq Let_def metaRange_def blockAt_def tagAt_def assms(3))

lemma openSegments_iff:
  assumes "cacheHolds base st" "nh = int (kdf_size (sc_kdf crypto))"
  shows "(\<exists>st'. res_foldM (openObjectSegment l (objectLayoutParams n nh) crypto bs) ([], st) [0..ol_nSeg l - 1] = Inr (parts, st')) \<longleftrightarrow>
    res_mapM (openedSegment l n nh base bs) [0..ol_nSeg l - 1] = Inr parts"
proof -
  let ?g = "\<lambda>s x. openSegment s x (x = ol_nSeg l - 1) (blockAt l n bs x) (tagAt l nh bs x) None None"
  have "res_foldM (openObjectSegment l (objectLayoutParams n nh) crypto bs) ([], st) [0..ol_nSeg l - 1] =
      res_foldM (\<lambda>(parts, s) x. res_map (\<lambda>(p, s'). (parts @ [p], s')) (?g s x)) ([], st) [0..ol_nSeg l - 1]"
    by (rule res_foldM_cong, rule openObjectSegment_eq) (auto simp: assms(2))
  moreover have "tracks (cacheHolds base) (res_foldM (\<lambda>(parts, s) x. res_map (\<lambda>(p, s'). (parts @ [p], s')) (?g s x)) ([], st)
      [0..ol_nSeg l - 1]) (res_map (\<lambda>ps. [] @ ps) (res_mapM (openedSegment l n nh base bs) [0..ol_nSeg l - 1]))"
    using assms(1) by (intro tracks_foldM_parts) (simp_all add: openedSegment_def openSegment_tracks)
  ultimately show ?thesis by (simp add: tracks_Inr_iff res_map_eq_Inr)
qed

lemma deriveSchedule_cacheHolds:
  "deriveSchedule cek (objectParams crypto salt) g crypto = Inr st \<Longrightarrow> cacheHolds st st"
  using deriveSchedule_objectState [of cek crypto salt g st] by (auto simp: objectState_def intro: cacheHolds_start)

lemma startOpen_iff:
  "startOpen cek params g stored crypto = Inr st \<longleftrightarrow> deriveSchedule cek params g crypto = Inr st \<and> ss_commitment st = stored"
  by (auto simp: startOpen_def res_bind_eq_Inr constantTimeEqual_iff)

lemma checkedHeads_iff:
  assumes fit: "fitted l n nh" and hs: "ol_headerSize l \<le> int (length bs)" and base: "ss_crypto base = crypto"
    and nh: "nh = int (kdf_size (sc_kdf crypto))"
  shows "res_mapM (checkedHead l (objectLayoutParams n nh) crypto bs base) [0..ol_nEp l - 1] = Inr hds \<longleftrightarrow>
    headsHold l n nh base bs \<and> hds = map (headAt l nh bs) [0..ol_nEp l - 1]"
proof -
  have "res_mapM (checkedHead l (objectLayoutParams n nh) crypto bs base) [0..ol_nEp l - 1] = Inr hds \<longleftrightarrow>
    (\<forall>e \<in> set [0..ol_nEp l - 1]. (\<forall>i \<in> {e * 1024..epochEnd l e - 1}. segmentHolds l n nh base bs i) \<and> epochHolds l nh base bs e) \<and>
    hds = map (headAt l nh bs) [0..ol_nEp l - 1]"
    by (rule res_mapM_all_iff) (subst checkedHead_iff [OF fit _ _ hs base nh], auto)
  then show ?thesis
    using segments_by_epoch [OF fit, of "segmentHolds l n nh base bs"] by (auto simp: headsHold_def ball_conj_distrib)
qed

text \<open>Opening whole decides the specification.\<close>

lemma openObject_iff:
  assumes "nh = int (kdf_size (sc_kdf crypto))"
  shows "openObject cek objectId bs snapshot n crypto = Inr plaintext \<longleftrightarrow>
    length cek = 32 \<and> objectId \<noteq> [] \<and> length objectId \<le> 255 \<and>
    (\<exists>l base parts. layout (objectLayoutParams n nh) = Inr l \<and> objectHolds l cek objectId snapshot n crypto bs base parts \<and>
      plaintext = concat parts)"
proof (cases "length cek = 32 \<and> objectId \<noteq> [] \<and> length objectId \<le> 255 \<and>
    (\<exists>l. layout (objectLayoutParams n nh) = Inr l \<and> int (length bs) = ol_totalSize l \<and>
      isZeroRegion bs (ol_headerSize l) (ol_firstBlockOffset l) \<and> (\<exists>base. scheduleHolds cek objectId crypto bs base))")
  case False
  then show ?thesis
    unfolding openObject_def Let_def assms [symmetric]
    by (auto simp: assertCekLength_def CEK_LENGTH_def res_bind_eq_Inr startOpen_iff scheduleHolds_def objectHolds_def Let_def
        simp flip: assms split: if_splits)
next
  case True
  then obtain l base where ok: "length cek = 32" "objectId \<noteq> []" "length objectId \<le> 255"
    and l: "layout (objectLayoutParams n nh) = Inr l" and len: "int (length bs) = ol_totalSize l"
    and gap: "isZeroRegion bs (ol_headerSize l) (ol_firstBlockOffset l)" and sch: "scheduleHolds cek objectId crypto bs base"
    by auto
  have fit: "fitted l n nh" using layout_fitted(1) [OF l] assms by simp
  note a = fitted_arith [OF fit]
  have hs: "ol_headerSize l \<le> int (length bs)" using a len by linarith
  have st: "startOpen cek (objectParams crypto (slice bs 0 32)) objectId (slice bs 32 (32 + nh)) crypto = Inr base"
    and der: "deriveSchedule cek (objectParams crypto (slice bs 0 32)) objectId crypto = Inr base"
    using sch by (simp_all add: startOpen_iff scheduleHolds_def assms)
  have base: "ss_crypto base = crypto" using deriveSchedule_objectState(1) [OF der] by (simp add: objectState_def)
  note heads = checkedHeads_iff [OF fit hs base assms]
  have sch': "scheduleHolds cek objectId crypto bs base' \<longleftrightarrow> base' = base" for base'
    using sch der by (auto simp: scheduleHolds_def)
  let ?fold = "res_foldM (openObjectSegment l (objectLayoutParams n nh) crypto bs) ([], base) [0..ol_nSeg l - 1]"
  let ?rest = "res_bind (res_mapM (checkedHead l (objectLayoutParams n nh) crypto bs base)
      [0..ol_nEp l - 1]) (\<lambda>hds. res_bind (epochTreeRoot base (ol_nSeg l) (concatAll hds)) (\<lambda>root.
     if \<not> constantTimeEqual root snapshot then Inl AttachmentError
     else if \<not> constantTimeEqual root (slice bs (32 + nh) (32 + 2 * nh)) then Inl AttachmentError
     else res_map (\<lambda>(parts, _). concatAll parts) ?fold))"
  have opened: "openObject cek objectId bs snapshot n crypto = ?rest"
    unfolding openObject_def Let_def assms [symmetric] using ok l len gap st
    by (simp add: assertCekLength_def CEK_LENGTH_def)
  have rest: "?rest = Inr plaintext \<longleftrightarrow> headsHold l n nh base bs \<and> rootHolds l nh base bs snapshot \<and>
      (\<exists>parts. (\<exists>st'. ?fold = Inr (parts, st')) \<and> plaintext = concat parts)"
    unfolding res_bind_eq_Inr heads
    by (auto simp: heads_concat [OF fit hs, unfolded concatAll_def] constantTimeEqual_iff rootHolds_def res_map_eq_Inr
        concatAll_def split: if_splits)
  have spec: "objectHolds l' cek objectId snapshot n crypto bs base' parts \<Longrightarrow> layout (objectLayoutParams n nh) = Inr l' \<Longrightarrow>
      l' = l \<and> base' = base" for l' base' parts
    using l sch' by (simp add: objectHolds_def Let_def)
  show ?thesis
  proof
    assume "openObject cek objectId bs snapshot n crypto = Inr plaintext"
    then obtain parts where H: "headsHold l n nh base bs" "rootHolds l nh base bs snapshot"
      and p: "\<exists>st'. ?fold = Inr (parts, st')" "plaintext = concat parts"
      unfolding opened rest by blast
    have "objectHolds l cek objectId snapshot n crypto bs base parts"
      using H p(1) len gap sch unfolding openSegments_iff [OF deriveSchedule_cacheHolds [OF der] assms]
      by (simp add: objectHolds_def Let_def flip: assms)
    with ok l p(2) show "length cek = 32 \<and> objectId \<noteq> [] \<and> length objectId \<le> 255 \<and> (\<exists>l base parts.
        layout (objectLayoutParams n nh) = Inr l \<and> objectHolds l cek objectId snapshot n crypto bs base parts \<and>
        plaintext = concat parts)" by blast
  next
    assume "length cek = 32 \<and> objectId \<noteq> [] \<and> length objectId \<le> 255 \<and> (\<exists>l base parts.
        layout (objectLayoutParams n nh) = Inr l \<and> objectHolds l cek objectId snapshot n crypto bs base parts \<and>
        plaintext = concat parts)"
    then obtain parts where h: "objectHolds l cek objectId snapshot n crypto bs base parts" and p: "plaintext = concat parts"
      using spec by blast
    have "\<exists>st'. ?fold = Inr (parts, st')"
      unfolding openSegments_iff [OF deriveSchedule_cacheHolds [OF der] assms]
      using h by (simp add: objectHolds_def Let_def flip: assms)
    moreover have "headsHold l n nh base bs" "rootHolds l nh base bs snapshot"
      using h by (simp_all add: objectHolds_def Let_def flip: assms)
    ultimately show "openObject cek objectId bs snapshot n crypto = Inr plaintext"
      unfolding opened rest using p by blast
  qed
qed

end
