(* ===== verification/AttachmentSealing.thy ===== *)
theory AttachmentSealing imports AttachmentSpec begin

text \<open>Sealing an object establishes its specification, so that what is sealed opens.\<close>

lemma res_foldM_append: "res_foldM f s (xs @ ys) = res_bind (res_foldM f s xs) (\<lambda>s'. res_foldM f s' ys)"
  by (induction xs arbitrary: s) (simp_all add: res_bind_assoc)

text \<open>Parts of the same size in a row.\<close>

lemma concat_parts_length:
  assumes "\<And>i. i \<in> set xs \<Longrightarrow> length (f i) = m"
  shows "length (concat (map f xs)) = length xs * m"
  using assms by (induction xs) auto

lemma slice_concat_map:
  fixes f :: "int \<Rightarrow> bytes"
  assumes "\<And>i. 0 \<le> i \<Longrightarrow> i < k \<Longrightarrow> int (length (f i)) = m" "0 \<le> e" "e < k"
  shows "slice (concat (map f [0..k - 1])) (e * m) (e * m + m) = f e"
proof -
  have split: "[0..k - 1] = [0..e - 1] @ e # [e + 1..k - 1]"
    using assms(2,3) upto_split3 [of 0 e "k - 1"] by simp
  have m: "0 \<le> m" using assms(1) [OF assms(2,3)] by linarith
  have "\<And>i. i \<in> set [0..e - 1] \<Longrightarrow> length (f i) = nat m" using assms(1,3) by force
  from concat_parts_length [of "[0..e - 1]" f, OF this] assms(2)
  have before: "length (concat (map f [0..e - 1])) = nat e * nat m" by simp
  have fe: "length (f e) = nat m" using assms(1) [OF assms(2,3)] m by simp
  let ?c = "concat (map f [0..k - 1])"
  have c: "?c = concat (map f [0..e - 1]) @ f e @ concat (map f [e + 1..k - 1])"
    by (simp add: split)
  have em: "nat (e * m) = nat e * nat m" using assms(2) by (simp add: nat_mult_distrib)
  have "length ?c \<ge> nat e * nat m + nat m" by (simp add: c before fe)
  then have "int (nat e * nat m + nat m) \<le> int (length ?c)" by (simp only: of_nat_le_iff)
  moreover have "int (nat e * nat m + nat m) = e * m + m" using m assms(2) by simp
  ultimately have "e * m + m \<le> int (length ?c)" by (simp only:)
  then have "slice ?c (e * m) (e * m + m) = take (nat (e * m + m) - nat (e * m)) (drop (nat (e * m)) ?c)"
    using m assms(2) by (intro slice_in) auto
  also have "nat (e * m + m) = nat e * nat m + nat m" using m assms(2) by (simp add: nat_add_distrib em)
  finally show ?thesis by (simp add: c em before fe)
qed

section \<open>The header\<close>

lemma write_header:
  assumes "fitted l n nh" "int (length bs) = ol_totalSize l" "length salt = 32" "int (length com) = nh"
    "int (length rt) = nh" "int (length hds) = ol_nEp l * nh"
  obtains bs1 bs2 bs3 bs4 where "setBytes bs salt 0 = Inr bs1" "setBytes bs1 com 32 = Inr bs2"
    "setBytes bs2 rt (32 + nh) = Inr bs3" "setBytes bs3 hds (ol_epochHeadsOffset l) = Inr bs4"
    "length bs4 = length bs" "slice bs4 0 32 = salt" "slice bs4 32 (32 + nh) = com"
    "slice bs4 (32 + nh) (32 + 2 * nh) = rt" "slice bs4 (ol_epochHeadsOffset l) (ol_metaOffset l) = hds"
    "\<And>a b. ol_metaOffset l \<le> a \<Longrightarrow> a \<le> b \<Longrightarrow> b \<le> int (length bs) \<Longrightarrow> slice bs4 a b = slice bs a b"
proof -
  note a = fitted_arith [OF assms(1)]
  have total: "ol_metaOffset l \<le> int (length bs)" using a assms(2) by linarith
  have "32 + nh + nh + ol_nEp l * nh = ol_metaOffset l" using a(10,11) by simp
  note b = a(8,10,11,15) total this
  obtain bs1 where 1: "setBytes bs salt 0 = Inr bs1" using setBytes_total [of 0 salt bs] b assms(3) by auto
  note l1 = setBytes_length [OF 1]
  obtain bs2 where 2: "setBytes bs1 com 32 = Inr bs2" using setBytes_total [of 32 com bs1] b assms(4) l1 by auto
  note l2 = setBytes_length [OF 2]
  obtain bs3 where 3: "setBytes bs2 rt (32 + nh) = Inr bs3"
    using setBytes_total [of "32 + nh" rt bs2] b assms(5) l1 l2 by auto
  note l3 = setBytes_length [OF 3]
  obtain bs4 where 4: "setBytes bs3 hds (ol_epochHeadsOffset l) = Inr bs4"
    using setBytes_total [of "ol_epochHeadsOffset l" hds bs3] b assms(6) l1 l2 l3 by auto
  note l4 = setBytes_length [OF 4]
  note len = l1 l2 l3 l4
  note other = setBytes_other [OF 1] setBytes_other [OF 2] setBytes_other [OF 3] setBytes_other [OF 4]
  have "slice bs4 0 32 = salt"
    using b assms(3) by (simp add: other len setBytes_same [OF 1])
  moreover have "slice bs4 32 (32 + nh) = com"
    using b assms(4) by (simp add: other len setBytes_same [OF 2])
  moreover have "slice bs4 (32 + nh) (32 + 2 * nh) = rt"
    using b assms(5) by (simp add: other len setBytes_same [OF 3])
  moreover have "slice bs4 (ol_epochHeadsOffset l) (ol_metaOffset l) = hds"
    using b assms(6) by (intro setBytes_same [OF 4]) simp
  moreover have "slice bs4 x y = slice bs x y" if "ol_metaOffset l \<le> x" "x \<le> y" "y \<le> int (length bs)" for x y
    using that b assms(3-6) by (simp add: other len)
  ultimately show ?thesis using that [OF 1 2 3 4] len by simp
qed

section \<open>The segments\<close>

text \<open>Where one segment's block and leaf go, against those of another and against the gap.\<close>

lemma block_inside:
  assumes "fitted l n nh" "0 \<le> i" "i < ol_nSeg l"
  shows "ol_firstBlockOffset l \<le> ol_firstBlockOffset l + i * 65536"
    "ol_firstBlockOffset l + i * 65536 + blockLength l n i \<le> ol_totalSize l" "0 \<le> blockLength l n i"
  using blockLength_bounds [OF assms] fitted_arith(3) [OF assms(1)] assms(2) by auto

lemma block_apart:
  assumes "fitted l n nh" "0 \<le> i" "i < ol_nSeg l" "0 \<le> j" "j < ol_nSeg l" "i \<noteq> j"
  shows "i * 65536 + blockLength l n i \<le> j * 65536 \<or> j * 65536 + blockLength l n j \<le> i * 65536"
  using blockLength_bounds(2) [OF assms(1-3)] blockLength_bounds(2) [OF assms(1,4,5)] assms(6) by (cases "i < j") auto

definition partOf :: "bytes \<Rightarrow> int \<Rightarrow> bytes" where
  "partOf plaintext i = slice plaintext (i * 65536) (min ((i + 1) * 65536) (int (length plaintext)))"

text \<open>What the first \<open>k\<close> segments have written.\<close>

definition written :: "objectLayout \<Rightarrow> sealState \<Rightarrow> bytes \<Rightarrow> int \<Rightarrow> bytes \<Rightarrow> bool" where
  "written l base plaintext k bs \<longleftrightarrow> int (length bs) = ol_totalSize l \<and>
     isZeroRegion bs (ol_headerSize l) (ol_firstBlockOffset l) \<and>
     (\<forall>i. 0 \<le> i \<and> i < k \<longrightarrow> (\<exists>sg. sealedAt base i (i = ol_nSeg l - 1) (partOf plaintext i) = Inr sg \<and>
        blockAt l (int (length plaintext)) bs i = sg_ciphertext sg \<and> segmentLeaf base (sg_ciphertext sg) (sg_tag sg) = Inr (leafBytes l bs i)))"

lemma written_write:
  assumes fit: "fitted l (int (length plaintext)) nh" and w: "written l base plaintext k bs" and k: "0 \<le> k" "k < ol_nSeg l"
    and sg: "sealedAt base k (k = ol_nSeg l - 1) (partOf plaintext k) = Inr sg"
    and ct: "int (length (sg_ciphertext sg)) = blockLength l (int (length plaintext)) k"
    and leaf: "segmentLeaf base (sg_ciphertext sg) (sg_tag sg) = Inr leaf" "int (length leaf) = ol_metaLen l"
  obtains bs1 bs2 where "setBytes bs (sg_ciphertext sg) (ol_firstBlockOffset l + k * 65536) = Inr bs1"
    "setBytes bs1 leaf (ol_metaOffset l + k * ol_metaLen l) = Inr bs2" "written l base plaintext (k + 1) bs2"
proof -
  let ?n = "int (length plaintext)"
  note a = fitted_arith [OF fit]
  note bk = block_inside [OF fit k]
  note mk = meta_inside [OF fit k]
  have len: "int (length bs) = ol_totalSize l" using w by (simp add: written_def)
  obtain bs1 where 1: "setBytes bs (sg_ciphertext sg) (ol_firstBlockOffset l + k * 65536) = Inr bs1"
    using setBytes_total [of "ol_firstBlockOffset l + k * 65536" "sg_ciphertext sg" bs] bk a len ct by auto
  note l1 = setBytes_length [OF 1]
  obtain bs2 where 2: "setBytes bs1 leaf (ol_metaOffset l + k * ol_metaLen l) = Inr bs2"
    using setBytes_total [of "ol_metaOffset l + k * ol_metaLen l" leaf bs1] mk a len leaf(2) l1 by auto
  note l2 = setBytes_length [OF 2]
  have above: "slice bs2 x y = slice bs1 x y" if "ol_headerSize l \<le> x" "x \<le> y" "y \<le> ol_totalSize l" for x y
    using that mk a len leaf(2) l1 by (intro setBytes_other [OF 2]) auto
  have below: "slice bs1 x y = slice bs x y" if "0 \<le> x" "x \<le> y" "y \<le> ol_firstBlockOffset l" for x y
    using that bk a len by (intro setBytes_other [OF 1]) auto
  have gap: "isZeroRegion bs2 (ol_headerSize l) (ol_firstBlockOffset l)"
    using w a len l1 l2 by (simp add: written_def isZeroRegion_slice above below)
  have blocks: "blockAt l ?n bs2 i = (if i = k then sg_ciphertext sg else blockAt l ?n bs i)" if "0 \<le> i" "i < ol_nSeg l" for i
  proof -
    note bi = block_inside [OF fit that]
    have "blockAt l ?n bs2 i = blockAt l ?n bs1 i" unfolding blockAt_def using bi a by (intro above) auto
    moreover have "blockAt l ?n bs1 k = sg_ciphertext sg" unfolding blockAt_def using ct by (intro setBytes_same [OF 1]) simp
    moreover have "blockAt l ?n bs1 i = blockAt l ?n bs i" if "i \<noteq> k"
      unfolding blockAt_def using bi a len ct block_apart [OF fit \<open>0 \<le> i\<close> \<open>i < ol_nSeg l\<close> k that]
      by (intro setBytes_other [OF 1]) auto
    ultimately show ?thesis by auto
  qed
  have leaves: "leafBytes l bs2 i = (if i = k then leaf else leafBytes l bs i)" if "0 \<le> i" "i < ol_nSeg l" for i
  proof -
    note mi = meta_inside [OF fit that]
    have "leafBytes l bs2 k = leaf" unfolding leafBytes_def using leaf(2) by (intro setBytes_same [OF 2]) simp
    moreover have "leafBytes l bs2 i = leafBytes l bs1 i" if "i \<noteq> k"
      unfolding leafBytes_def using mi a len l1 leaf(2) meta_apart [OF fit that] by (intro setBytes_other [OF 2]) auto
    moreover have "leafBytes l bs1 i = leafBytes l bs i" unfolding leafBytes_def using mi a by (intro below) auto
    ultimately show ?thesis by auto
  qed
  have "written l base plaintext (k + 1) bs2"
    unfolding written_def
  proof (intro conjI allI impI)
    fix i assume i: "0 \<le> i \<and> i < k + 1"
    show "\<exists>sg. sealedAt base i (i = ol_nSeg l - 1) (partOf plaintext i) = Inr sg \<and> blockAt l ?n bs2 i = sg_ciphertext sg \<and>
      segmentLeaf base (sg_ciphertext sg) (sg_tag sg) = Inr (leafBytes l bs2 i)"
    proof (cases "i = k")
      case True
      with sg leaf(1) k show ?thesis by (simp add: blocks leaves)
    next
      case False
      with i have "0 \<le> i \<and> i < k" by auto
      with w False k i show ?thesis by (simp add: blocks leaves written_def)
    qed
  qed (use gap len l1 l2 in simp_all)
  from that [OF 1 2 this] show ?thesis .
qed


lemma partOf_length:
  assumes "fitted l (int (length plaintext)) nh" "0 \<le> i" "i < ol_nSeg l"
  shows "int (length (partOf plaintext i)) = blockLength l (int (length plaintext)) i"
proof -
  note b = blockLength_bounds [OF assms]
  have e: "min ((i + 1) * 65536) (int (length plaintext)) = i * 65536 + blockLength l (int (length plaintext)) i"
    using b(4) by simp
  have "length (slice plaintext (i * 65536) (i * 65536 + blockLength l (int (length plaintext)) i)) =
      nat (blockLength l (int (length plaintext)) i)"
    using b assms(2) by (subst slice_length) auto
  then show ?thesis using b unfolding partOf_def e by simp
qed

lemma parts_concat_range:
  assumes fit: "fitted l (int (length plaintext)) nh" and p: "0 \<le> p" and q: "p \<le> q" "q < ol_nSeg l"
  shows "concat (map (partOf plaintext) [p..q]) = slice plaintext (p * 65536) (min ((q + 1) * 65536) (int (length plaintext)))"
  using q
proof (induction "nat (q - p)" arbitrary: q)
  case 0
  then have "q = p" by simp
  then show ?case by (simp add: partOf_def)
next
  case (Suc k)
  let ?n = "int (length plaintext)"
  have pq: "p \<le> q - 1" using Suc.hyps(2) by simp
  have "q * 65536 \<le> (ol_nSeg l - 1) * 65536" using Suc.prems(2) by simp
  then have n: "q * 65536 < ?n" using fitted_arith(4) [OF fit] by linarith
  have "concat (map (partOf plaintext) [p..q - 1]) = slice plaintext (p * 65536) (min ((q - 1 + 1) * 65536) ?n)"
    using Suc.hyps(2) Suc.prems(2) pq by (intro Suc.hyps(1)) auto
  also have "min ((q - 1 + 1) * 65536) ?n = q * 65536" using n by simp
  finally have ih: "concat (map (partOf plaintext) [p..q - 1]) = slice plaintext (p * 65536) (q * 65536)" .
  have "[p..q] = [p..q - 1] @ [q]" using Suc.prems(1) by (rule upto_rec2)
  then have "concat (map (partOf plaintext) [p..q]) =
      slice plaintext (p * 65536) (q * 65536) @ slice plaintext (q * 65536) (min ((q + 1) * 65536) ?n)"
    using ih by (simp add: partOf_def)
  also have "\<dots> = slice plaintext (p * 65536) (min ((q + 1) * 65536) ?n)"
    using p pq n by (intro slice_append) auto
  finally show ?case .
qed

lemma parts_concat:
  assumes "fitted l (int (length plaintext)) nh"
  shows "concat (map (partOf plaintext) [0..ol_nSeg l - 1]) = plaintext"
  using parts_concat_range [OF assms, of 0 "ol_nSeg l - 1"] fitted_arith(5,6) [OF assms] by simp

lemma segmentLeaf_total:
  assumes "sealCryptoOk crypto" "ss_crypto base = crypto"
  obtains digest where "segmentLeaf base ct tag = Inr (digest @ tag)" "length digest = kdf_size (sc_kdf crypto)"
proof -
  have k: "10 \<le> kdf_size (sc_kdf crypto)" using assms(1) by (simp add: sealCryptoOk_def)
  show ?thesis
    using assms that by (auto simp: segmentLeaf_def lh_total [OF k] concatAll_def sealCryptoOk_def)
qed

lemma writeSegment_step:
  assumes ok: "sealCryptoOk crypto" and der: "deriveSchedule cek (objectParams crypto salt) g crypto = Inr base"
    and nh: "nh = int (kdf_size (sc_kdf crypto))" and fit: "fitted l (int (length plaintext)) nh"
    and c: "cacheHolds base st" and w: "written l base plaintext k bs" and k: "0 \<le> k" "k < ol_nSeg l"
  obtains bs' st' where "writeSegment l (objectLayoutParams (int (length plaintext)) nh) plaintext (bs, st) k = Inr (bs', st')"
    "cacheHolds base st'" "written l base plaintext (k + 1) bs'"
proof -
  have os: "objectState crypto salt base" and crypto: "ss_crypto base = crypto"
    using deriveSchedule_objectState [OF der] by (simp_all add: objectState_def)
  obtain nb where nb: "ss_nonceBase base = Some nb" "int (length nb) = sc_nonceLength crypto"
    by (rule deriveSchedule_lengths [OF der ok])
  have "k < 2 ^ 63" using k fitted_arith(12) [OF fit] by simp
  then obtain sg where sg: "sealedAt base k (k = ol_nSeg l - 1) (partOf plaintext k) = Inr sg"
    and lens: "length (sg_ciphertext sg) = length (partOf plaintext k)" "length (sg_tag sg) = 16"
    by (rule sealedAt_opens [OF os ok k(1) _ nb])
  have ct: "int (length (sg_ciphertext sg)) = blockLength l (int (length plaintext)) k"
    using lens(1) partOf_length [OF fit k] by simp
  obtain digest where leaf: "segmentLeaf base (sg_ciphertext sg) (sg_tag sg) = Inr (digest @ sg_tag sg)"
    "length digest = kdf_size (sc_kdf crypto)"
    by (rule segmentLeaf_total [OF ok crypto])
  have ll: "int (length (digest @ sg_tag sg)) = ol_metaLen l" using leaf(2) lens(2) fitted_arith(9) [OF fit] nh by simp
  obtain bs1 bs2 where set: "setBytes bs (sg_ciphertext sg) (ol_firstBlockOffset l + k * 65536) = Inr bs1"
    "setBytes bs1 (digest @ sg_tag sg) (ol_metaOffset l + k * ol_metaLen l) = Inr bs2" and w': "written l base plaintext (k + 1) bs2"
    by (rule written_write [OF fit w k sg ct leaf(1) ll])
  have "tracks (cacheHolds base) (sealSegment st k (k = ol_nSeg l - 1) (partOf plaintext k) None None) (Inr sg)"
    using sealSegment_tracks [OF c] sg by metis
  then obtain st' where seal: "sealSegment st k (k = ol_nSeg l - 1) (partOf plaintext k) None None = Inr (sg, st')"
    and c': "cacheHolds base st'"
    by (cases "sealSegment st k (k = ol_nSeg l - 1) (partOf plaintext k) None None") (auto simp: tracks_def)
  have part: "slice plaintext (k * SEGMENT_MAX) (min (k * SEGMENT_MAX + SEGMENT_MAX) (int (length plaintext))) = partOf plaintext k"
    by (simp add: partOf_def SEGMENT_MAX_def distrib_right)
  have "writeSegment l (objectLayoutParams (int (length plaintext)) nh) plaintext (bs, st) k = Inr (bs2, st')"
    using k seal set leaf(1)
    by (simp add: writeSegment_def Let_def part blockRange_eq metaRange_def digests_base [OF c'])
  from that [OF this c' w'] show ?thesis .
qed

lemma writeSegments:
  assumes ok: "sealCryptoOk crypto" and der: "deriveSchedule cek (objectParams crypto salt) g crypto = Inr base"
    and nh: "nh = int (kdf_size (sc_kdf crypto))" and fit: "fitted l (int (length plaintext)) nh" and k: "int k \<le> ol_nSeg l"
  shows "\<exists>bs st. res_foldM (writeSegment l (objectLayoutParams (int (length plaintext)) nh) plaintext)
      (replicate (nat (ol_totalSize l)) 0, base) [0..int k - 1] = Inr (bs, st) \<and> cacheHolds base st \<and>
    written l base plaintext (int k) bs"
  using k
proof (induction k)
  case 0
  note a = fitted_arith [OF fit]
  have pos: "0 \<le> ol_totalSize l" "0 \<le> ol_headerSize l" "ol_firstBlockOffset l \<le> ol_totalSize l" using a by linarith+
  then have "isZeroRegion (replicate (nat (ol_totalSize l)) 0) (ol_headerSize l) (ol_firstBlockOffset l)"
    using a(2) by (simp add: isZeroRegion_def list_all_iff)
  then show ?case
    using deriveSchedule_cacheHolds [OF der] pos by (auto simp: written_def)
next
  case (Suc k)
  then obtain bs st where ih: "res_foldM (writeSegment l (objectLayoutParams (int (length plaintext)) nh) plaintext)
      (replicate (nat (ol_totalSize l)) 0, base) [0..int k - 1] = Inr (bs, st)" "cacheHolds base st"
      "written l base plaintext (int k) bs" by auto
  obtain bs' st' where step: "writeSegment l (objectLayoutParams (int (length plaintext)) nh) plaintext (bs, st) (int k) = Inr (bs', st')"
    "cacheHolds base st'" "written l base plaintext (int k + 1) bs'"
    by (rule writeSegment_step [OF ok der nh fit ih(2,3)]) (use Suc.prems in auto)
  have "[0..int (Suc k) - 1] = [0..int k - 1] @ [int k]" using upto_rec2 [of 0 "int k"] by simp
  with ih(1) step show ?case by (simp add: res_foldM_append add.commute)
qed


section \<open>The sealed object\<close>

lemma digests_total:
  assumes ok: "sealCryptoOk crypto" and base: "ss_crypto base = crypto" "ss_params base = objectParams crypto salt"
    and nh: "nh = int (kdf_size (sc_kdf crypto))"
  obtains headOf rt where "\<And>run. epochHead base run = Inr (headOf run)" "\<And>run. int (length (headOf run)) = nh"
    "\<And>m heads. 0 \<le> m \<Longrightarrow> m < 2 ^ 64 \<Longrightarrow> epochTreeRoot base m heads = Inr (rt m heads)" "\<And>m heads. int (length (rt m heads)) = nh"
proof -
  have k: "10 \<le> kdf_size (sc_kdf crypto)" using ok by (simp add: sealCryptoOk_def)
  have kdf: "\<exists>key. sealKdf (sc_kdf crypto) PROTOCOL_RO label ikm info nh = Inr key \<and> int (length key) = nh" for label ikm info
    using sealKdf_length [OF ok protocolLength, of nh label ikm info] by (auto simp: nh)
  have "\<exists>h. epochHead base run = Inr h \<and> int (length h) = nh" for run
    using kdf by (simp add: epochHead_def base lh_total [OF k] objectParams_def flip: nh)
  then obtain headOf where headOf: "\<And>run. epochHead base run = Inr (headOf run) \<and> int (length (headOf run)) = nh" by metis
  have "\<exists>r. (0 \<le> m \<and> m < 2 ^ 64 \<longrightarrow> epochTreeRoot base m heads = Inr r) \<and> int (length r) = nh" for m heads
  proof (cases "0 \<le> m \<and> m < 2 ^ 64")
    case True
    then have "uint64be m = Inr (be_bytes 8 m)" unfolding uint64be_Inr by blast
    then have "\<exists>r. epochTreeRoot base m heads = Inr r \<and> int (length r) = nh"
      using kdf by (simp add: epochTreeRoot_def base lh_total [OF k] objectParams_def del: be_bytes.simps flip: nh)
    then show ?thesis by blast
  next
    case False
    then show ?thesis using kdf by blast
  qed
  then obtain rt where "\<And>m heads. (0 \<le> m \<and> m < 2 ^ 64 \<longrightarrow> epochTreeRoot base m heads = Inr (rt m heads)) \<and> int (length (rt m heads)) = nh"
    by metis
  with headOf that show ?thesis by blast
qed

lemma written_part:
  assumes w: "written l base plaintext (ol_nSeg l) bs" and fit: "fitted l (int (length plaintext)) nh"
    and same: "\<And>a b. ol_metaOffset l \<le> a \<Longrightarrow> a \<le> b \<Longrightarrow> b \<le> int (length bs) \<Longrightarrow> slice bs4 a b = slice bs a b"
    and i: "0 \<le> i" "i < ol_nSeg l"
  shows "leafBytes l bs4 i = leafBytes l bs i" "blockAt l (int (length plaintext)) bs4 i = blockAt l (int (length plaintext)) bs i"
proof -
  note a = fitted_arith [OF fit]
  have len: "int (length bs) = ol_totalSize l" using w by (simp add: written_def)
  show "leafBytes l bs4 i = leafBytes l bs i"
    unfolding leafBytes_def using meta_inside [OF fit i] a len by (intro same) auto
  show "blockAt l (int (length plaintext)) bs4 i = blockAt l (int (length plaintext)) bs i"
    unfolding blockAt_def using block_inside [OF fit i] a len by (intro same) auto
qed

text \<open>The tag of a segment is the end of its leaf.\<close>

lemma tagAt_leaf:
  assumes "fitted l n nh" "0 \<le> i" "i < ol_nSeg l" "int (length bs) = ol_totalSize l" "leafBytes l bs i = digest @ tag"
    "int (length digest) = nh"
  shows "tagAt l nh bs i = tag"
proof -
  note a = fitted_arith [OF assms(1)]
  note m = meta_inside [OF assms(1-3)]
  let ?o = "ol_metaOffset l + i * ol_metaLen l"
  have total: "?o + ol_metaLen l \<le> int (length bs)" using m a assms(4) by linarith
  have "length (leafBytes l bs i) = nat (ol_metaLen l)"
    unfolding leafBytes_def using m a total by (subst slice_length) auto
  then have len: "nh + int (length tag) = ol_metaLen l" using assms(5,6) a by simp
  have "tagAt l nh bs i = slice (leafBytes l bs i) nh (ol_metaLen l)"
    unfolding tagAt_def leafBytes_def using m a total by (subst slice_slice) auto
  also have "\<dots> = tag"
    unfolding assms(5) len [symmetric] assms(6) [symmetric] by (simp add: slice_in nat_add_distrib)
  finally show ?thesis .
qed

lemma written_opens:
  assumes ok: "sealCryptoOk crypto" and der: "deriveSchedule cek (objectParams crypto salt) g crypto = Inr base"
    and nh: "nh = int (kdf_size (sc_kdf crypto))" and fit: "fitted l (int (length plaintext)) nh"
    and w: "written l base plaintext (ol_nSeg l) bs"
    and i: "0 \<le> i" "i < ol_nSeg l"
  shows "segmentHolds l (int (length plaintext)) nh base bs i"
    "openedSegment l (int (length plaintext)) nh base bs i = Inr (partOf plaintext i)"
proof -
  have os: "objectState crypto salt base" and crypto: "ss_crypto base = crypto"
    using deriveSchedule_objectState [OF der] by (simp_all add: objectState_def)
  obtain nb where nb: "ss_nonceBase base = Some nb" "int (length nb) = sc_nonceLength crypto"
    by (rule deriveSchedule_lengths [OF der ok])
  have small: "i < 2 ^ 63" using i fitted_arith(12) [OF fit] by simp
  obtain sg where sg: "sealedAt base i (i = ol_nSeg l - 1) (partOf plaintext i) = Inr sg"
    and opens: "openedAt base i (i = ol_nSeg l - 1) (sg_ciphertext sg) (sg_tag sg) = Inr (partOf plaintext i)"
    by (rule sealedAt_opens [OF os ok i(1) small nb])
  have "\<exists>sg. sealedAt base i (i = ol_nSeg l - 1) (partOf plaintext i) = Inr sg \<and>
      blockAt l (int (length plaintext)) bs i = sg_ciphertext sg \<and>
      segmentLeaf base (sg_ciphertext sg) (sg_tag sg) = Inr (leafBytes l bs i)"
    using w i unfolding written_def by blast
  then have block: "blockAt l (int (length plaintext)) bs i = sg_ciphertext sg"
    and leaf: "segmentLeaf base (sg_ciphertext sg) (sg_tag sg) = Inr (leafBytes l bs i)"
    using sg by auto
  obtain digest where "segmentLeaf base (sg_ciphertext sg) (sg_tag sg) = Inr (digest @ sg_tag sg)"
    "length digest = kdf_size (sc_kdf crypto)" by (rule segmentLeaf_total [OF ok crypto])
  then have "tagAt l nh bs i = sg_tag sg"
    using leaf nh w by (intro tagAt_leaf [OF fit i]) (auto simp: written_def)
  with block leaf opens show "segmentHolds l (int (length plaintext)) nh base bs i"
    "openedSegment l (int (length plaintext)) nh base bs i = Inr (partOf plaintext i)"
    by (simp_all add: segmentHolds_def openedSegment_def)
qed


text \<open>The heads of the epochs, in a row.\<close>

lemma headAt_concat:
  assumes fit: "fitted l n nh" and len: "int (length bs) = ol_totalSize l"
    and hds: "slice bs (ol_epochHeadsOffset l) (ol_metaOffset l) = concatAll (map f [0..ol_nEp l - 1])"
    and f: "\<And>e. int (length (f e)) = nh" and e: "0 \<le> e" "e < ol_nEp l"
  shows "headAt l nh bs e = f e"
proof -
  note a = fitted_arith [OF fit]
  note h = head_inside [OF fit e]
  have "headAt l nh bs e = slice (slice bs (ol_epochHeadsOffset l) (ol_metaOffset l)) (e * nh) (e * nh + nh)"
    unfolding headAt_def using h a len by (subst slice_slice) (auto simp: algebra_simps)
  also have "\<dots> = f e"
    unfolding hds concatAll_def using f e by (intro slice_concat_map) auto
  finally show ?thesis .
qed

lemma written_sealed:
  assumes ok: "sealCryptoOk crypto" and der: "deriveSchedule cek (objectParams crypto salt) g crypto = Inr base"
    and nh: "nh = int (kdf_size (sc_kdf crypto))" and fit: "fitted l (int (length plaintext)) nh"
    and w: "written l base plaintext (ol_nSeg l) bs"
    and headOf: "\<And>run. epochHead base run = Inr (headOf run)" "\<And>run. int (length (headOf run)) = nh"
    and rt: "epochTreeRoot base (ol_nSeg l) hds = Inr rt"
    and hds: "hds = concatAll (map (\<lambda>e. headOf (runAt l bs e)) [0..ol_nEp l - 1])"
    and bs4: "length bs4 = length bs" "slice bs4 0 32 = salt" "slice bs4 32 (32 + nh) = ss_commitment base"
      "slice bs4 (32 + nh) (32 + 2 * nh) = rt" "slice bs4 (ol_epochHeadsOffset l) (ol_metaOffset l) = hds"
    and same: "\<And>a b. ol_metaOffset l \<le> a \<Longrightarrow> a \<le> b \<Longrightarrow> b \<le> int (length bs) \<Longrightarrow> slice bs4 a b = slice bs a b"
  shows "objectHolds l cek g rt (int (length plaintext)) crypto bs4 base (map (partOf plaintext) [0..ol_nSeg l - 1])"
proof -
  note a = fitted_arith [OF fit]
  have len: "int (length bs) = ol_totalSize l" using w by (simp add: written_def)
  have gap: "isZeroRegion bs4 (ol_headerSize l) (ol_firstBlockOffset l)"
    using w a len bs4(1) by (simp add: written_def isZeroRegion_slice same)
  have w4: "written l base plaintext (ol_nSeg l) bs4"
    using w gap bs4(1) written_part [OF w fit same] unfolding written_def by (metis (no_types, lifting))
  have "epochHolds l nh base bs4 e" if e: "0 \<le> e" "e < ol_nEp l" for e
  proof -
    note b = epochEnd_bounds [OF fit e]
    have m: "0 \<le> ol_metaLen l" using a by simp
    have "epochEnd l e * ol_metaLen l \<le> ol_nSeg l * ol_metaLen l" "e * 1024 * ol_metaLen l \<le> epochEnd l e * ol_metaLen l"
      using b m by (intro mult_right_mono; simp)+
    moreover have "0 \<le> e * 1024 * ol_metaLen l" using e m by simp
    ultimately have "ol_metaOffset l \<le> ol_metaOffset l + e * 1024 * ol_metaLen l"
      "ol_metaOffset l + e * 1024 * ol_metaLen l \<le> ol_metaOffset l + epochEnd l e * ol_metaLen l"
      "ol_metaOffset l + epochEnd l e * ol_metaLen l \<le> int (length bs)" using a(1,2,3,17) len by linarith+
    then have "runAt l bs4 e = runAt l bs e"
      unfolding runAt_def by (rule same)
    moreover have "headAt l nh bs4 e = headOf (runAt l bs e)"
      using bs4(1,5) len headOf(2) hds e by (intro headAt_concat [OF fit]) auto
    ultimately show ?thesis by (simp add: epochHolds_def headOf(1))
  qed
  moreover have "res_mapM (openedSegment l (int (length plaintext)) nh base bs4) [0..ol_nSeg l - 1] =
      Inr (map (partOf plaintext) [0..ol_nSeg l - 1])"
    by (rule res_mapM_Inr) (use written_opens(2) [OF ok der nh fit w4] in auto)
  moreover have "scheduleHolds cek g crypto bs4 base" using der bs4(2,3) nh by (simp add: scheduleHolds_def)
  moreover have "rootHolds l nh base bs4 rt" using rt bs4(4,5) by (simp add: rootHolds_def)
  ultimately show ?thesis
    using gap len bs4(1) written_opens(1) [OF ok der nh fit w4] by (simp add: objectHolds_def headsHold_def flip: nh)
qed

lemma metaRange_leaf:
  "slice bs (br_offset (metaRange l i)) (br_offset (metaRange l i) + br_length (metaRange l i)) = leafBytes l bs i"
  by (simp add: metaRange_def leafBytes_def)

text \<open>Sealing succeeds, and what it returns meets the specification.\<close>

lemma sealObject_holds:
  assumes ok: "sealCryptoOk crypto" and cek: "length cek = 32" and id: "objectId \<noteq> []" "length objectId \<le> 255"
    and pt: "plaintext \<noteq> []" "int (length plaintext) \<le> 2 ^ 47" and salt: "length salt = 32"
  obtains so l base where "sealObject cek objectId plaintext crypto salt = Inr so" "so_salt so = salt"
    "layout (objectLayoutParams (int (length plaintext)) (int (kdf_size (sc_kdf crypto)))) = Inr l"
    "objectHolds l cek objectId (so_snapshot so) (int (length plaintext)) crypto (so_bytes so) base
      (map (partOf plaintext) [0..ol_nSeg l - 1])"
proof -
  define nh where nh: "nh = int (kdf_size (sc_kdf crypto))"
  let ?n = "int (length plaintext)"
  obtain l where l: "layout (objectLayoutParams ?n nh) = Inr l" using layout_exists [of ?n nh] pt by auto
  have fit: "fitted l ?n nh" using layout_fitted(1) [OF l] nh by simp
  note a = fitted_arith [OF fit]
  obtain base where der: "deriveSchedule cek (objectParams crypto salt) objectId crypto = Inr base"
    using deriveSchedule_total [OF ok salt] by blast
  obtain nb where com: "length (ss_commitment base) = kdf_size (sc_kdf crypto)" by (rule deriveSchedule_lengths [OF der ok])
  have fields: "ss_crypto base = crypto" "ss_params base = objectParams crypto salt"
    using deriveSchedule_objectState(1) [OF der] by (simp_all add: objectState_def)
  obtain headOf rt where headOf: "\<And>run. epochHead base run = Inr (headOf run)" "\<And>run. int (length (headOf run)) = nh"
    and rt: "\<And>m heads. 0 \<le> m \<Longrightarrow> m < 2 ^ 64 \<Longrightarrow> epochTreeRoot base m heads = Inr (rt m heads)" "\<And>m heads. int (length (rt m heads)) = nh"
    using digests_total [OF ok fields nh] by blast
  have "int (nat (ol_nSeg l)) = ol_nSeg l" using a(6) by simp
  with writeSegments [OF ok der nh fit, of "nat (ol_nSeg l)"] obtain bs st where
    fold: "res_foldM (writeSegment l (objectLayoutParams ?n nh) plaintext) (replicate (nat (ol_totalSize l)) 0, base) [0..ol_nSeg l - 1] = Inr (bs, st)"
    and st: "cacheHolds base st" and w: "written l base plaintext (ol_nSeg l) bs" by auto
  have len: "int (length bs) = ol_totalSize l" using w by (simp add: written_def)
  then have hs: "ol_headerSize l \<le> int (length bs)" using a by linarith
  define hds where hds: "hds = concatAll (map (\<lambda>e. headOf (runAt l bs e)) [0..ol_nEp l - 1])"
  have "epochHead st (concatAll (map (leafBytes l bs) (epochSegments l e))) = Inr (headOf (runAt l bs e))" if "e \<in> set [0..ol_nEp l - 1]" for e
    using that headOf(1) runAt_leaves [OF fit _ _ hs, of e] by (simp add: digests_base [OF st])
  then have heads: "res_mapM (\<lambda>e. epochHead st (concatAll (map (leafBytes l bs) (epochSegments l e)))) [0..ol_nEp l - 1] =
      Inr (map (\<lambda>e. headOf (runAt l bs e)) [0..ol_nEp l - 1])" by (rule res_mapM_Inr)
  have root: "epochTreeRoot base (ol_nSeg l) hds = Inr (rt (ol_nSeg l) hds)" using rt(1) a(6,12) by simp
  have hl: "int (length hds) = ol_nEp l * nh"
  proof -
    have "length (concat (map (\<lambda>e. headOf (runAt l bs e)) [0..ol_nEp l - 1])) = length [0..ol_nEp l - 1] * nat nh"
      by (rule concat_parts_length) (metis headOf(2) nat_int)
    then show ?thesis using a(7,8) by (simp add: hds concatAll_def)
  qed
  have cl: "int (length (ss_commitment base)) = nh" using com nh by simp
  obtain bs1 bs2 bs3 bs4 where sets: "setBytes bs salt 0 = Inr bs1" "setBytes bs1 (ss_commitment base) 32 = Inr bs2"
    "setBytes bs2 (rt (ol_nSeg l) hds) (32 + nh) = Inr bs3" "setBytes bs3 hds (ol_epochHeadsOffset l) = Inr bs4"
    and bs4: "length bs4 = length bs" "slice bs4 0 32 = salt" "slice bs4 32 (32 + nh) = ss_commitment base"
    "slice bs4 (32 + nh) (32 + 2 * nh) = rt (ol_nSeg l) hds" "slice bs4 (ol_epochHeadsOffset l) (ol_metaOffset l) = hds"
    and same: "\<And>a b. ol_metaOffset l \<le> a \<Longrightarrow> a \<le> b \<Longrightarrow> b \<le> int (length bs) \<Longrightarrow> slice bs4 a b = slice bs a b"
    using write_header [OF fit len salt cl rt(2) hl] by blast
  have "sealObject cek objectId plaintext crypto salt = Inr \<lparr>so_bytes = bs4, so_snapshot = rt (ol_nSeg l) hds, so_salt = salt\<rparr>"
    unfolding sealObject_def Let_def nh [symmetric] metaRange_leaf
    using cek id pt(1) l der fold heads sets root
    by (simp add: assertCekLength_def CEK_LENGTH_def startSeal_def digests_base [OF st] cacheHolds_fields [OF st] flip: hds)
  moreover have "objectHolds l cek objectId (rt (ol_nSeg l) hds) ?n crypto bs4 base (map (partOf plaintext) [0..ol_nSeg l - 1])"
    by (rule written_sealed [OF ok der nh fit w headOf root hds bs4 same])
  ultimately show ?thesis using that l nh by simp
qed

end
