(* ===== verification/AttachmentReading.thy ===== *)
theory AttachmentReading imports AttachmentSealing begin

text \<open>
  The streaming reader against the opening of whole objects: fed an object in any chunks, it closes
  with the plaintext exactly when \<open>openObject\<close> accepts, and otherwise ends in the one opaque error.
\<close>

section \<open>The queue\<close>

text \<open>What a reader has still to read, where its source never rejects.\<close>

definition feeds :: "readerState \<Rightarrow> bytes \<Rightarrow> bool" where
  "feeds rs rest \<longleftrightarrow> (\<exists>chunks. rd_source rs = map Inr chunks \<and> rest = concat (rd_buffer rs) @ concat chunks) \<and>
     rd_bufferedBytes rs = int (length (concat (rd_buffer rs)))"

definition fedFrom :: "readerState \<Rightarrow> readerState \<Rightarrow> bool" where
  "fedFrom rs rs' \<longleftrightarrow> (\<exists>s b n. rs' = rs\<lparr>rd_source := s, rd_buffer := b, rd_bufferedBytes := n\<rparr>)"

lemma fillLoop_feeds:
  "buffered = int (length (concat buffer)) \<Longrightarrow>
   (if n \<le> int (length (concat buffer @ concat chunks))
    then \<exists>chunks' buffer'. fillLoop n (map Inr chunks) buffer buffered =
        Inr (map Inr chunks', buffer', int (length (concat buffer'))) \<and>
      concat buffer' @ concat chunks' = concat buffer @ concat chunks \<and> n \<le> int (length (concat buffer'))
    else fillLoop n (map Inr chunks) buffer buffered = Inl AttachmentError)"
proof (induction chunks arbitrary: buffer buffered)
  case Nil
  then show ?case by (auto intro!: exI [of _ "[]"])
next
  case (Cons c cs)
  show ?case
  proof (cases "buffered \<ge> n")
    case True
    have "fillLoop n (map Inr (c # cs)) buffer buffered = Inr (map Inr (c # cs), buffer, int (length (concat buffer)))"
      using True Cons.prems by simp
    moreover have "n \<le> int (length (concat buffer @ concat (c # cs)))" using True Cons.prems by simp
    ultimately show ?thesis using True Cons.prems by (metis (no_types, lifting))
  next
    case False
    then have e: "fillLoop n (map Inr (c # cs)) buffer buffered = fillLoop n (map Inr cs) (buffer @ [c]) (buffered + int (length c))"
      by simp
    have b: "buffered + int (length c) = int (length (concat (buffer @ [c])))" using Cons.prems by simp
    have c: "concat (buffer @ [c]) @ concat cs = concat buffer @ concat (c # cs)" by simp
    show ?thesis unfolding e using Cons.IH [OF b] unfolding c .
  qed
qed

lemma takeQueue_concat:
  "n \<le> length (concat b) \<Longrightarrow> takeQueue n b = (t, r) \<Longrightarrow> t = take n (concat b) \<and> concat r = drop n (concat b)"
  by (induction n b arbitrary: t r rule: takeQueue.induct) (auto simp: Let_def split: if_splits prod.splits)

lemma takeBytes_feeds:
  assumes "feeds rs rest" "0 \<le> n"
  shows "if n \<le> int (length rest) then \<exists>rs'. takeBytes n rs = Inr (take (nat n) rest, rs') \<and> feeds rs' (drop (nat n) rest) \<and> fedFrom rs rs'
    else takeBytes n rs = Inl AttachmentError"
proof -
  obtain chunks where c: "rd_source rs = map Inr chunks" "rest = concat (rd_buffer rs) @ concat chunks"
    and b: "rd_bufferedBytes rs = int (length (concat (rd_buffer rs)))"
    using assms(1) by (auto simp: feeds_def)
  note f = fillLoop_feeds [OF b, of n chunks]
  show ?thesis
  proof (cases "n \<le> int (length rest)")
    case False
    then have "\<not> n \<le> int (length (concat (rd_buffer rs) @ concat chunks))" using c(2) by simp
    then have "fillLoop n (map Inr chunks) (rd_buffer rs) (rd_bufferedBytes rs) = Inl AttachmentError"
      using f by (simp only: if_False)
    then show ?thesis using False c(1) by (simp add: takeBytes_def fillBuffer_def)
  next
    case True
    then have "n \<le> int (length (concat (rd_buffer rs) @ concat chunks))" using c(2) by simp
    then have "\<exists>chunks' buffer'. fillLoop n (map Inr chunks) (rd_buffer rs) (rd_bufferedBytes rs) =
        Inr (map Inr chunks', buffer', int (length (concat buffer'))) \<and>
      concat buffer' @ concat chunks' = concat (rd_buffer rs) @ concat chunks \<and> n \<le> int (length (concat buffer'))"
      using f by (simp only: if_True)
    then obtain chunks' buffer' where fl: "fillLoop n (map Inr chunks) (rd_buffer rs) (rd_bufferedBytes rs) =
        Inr (map Inr chunks', buffer', int (length (concat buffer')))"
      and same: "concat buffer' @ concat chunks' = rest" and enough: "n \<le> int (length (concat buffer'))"
      using c(2) by metis
    obtain t r where q: "takeQueue (nat n) buffer' = (t, r)" by (cases "takeQueue (nat n) buffer'")
    have "nat n \<le> length (concat buffer')" using enough by simp
    note tr = takeQueue_concat [OF this q]
    let ?rs = "rs\<lparr>rd_source := map Inr chunks', rd_buffer := r, rd_bufferedBytes := int (length (concat buffer')) - n\<rparr>"
    have "takeBytes n rs = Inr (t, ?rs)" by (simp add: takeBytes_def fillBuffer_def c(1) fl q)
    moreover have "t = take (nat n) rest" using tr enough same by auto
    moreover have "concat r @ concat chunks' = drop (nat n) rest" "length (concat r) = length (concat buffer') - nat n"
      using tr enough same by auto
    moreover from this have "feeds ?rs (drop (nat n) rest)" using enough assms(2) by (auto simp: feeds_def)
    moreover have "fedFrom rs ?rs" unfolding fedFrom_def by blast
    ultimately show ?thesis using True by auto
  qed
qed

lemma fedFrom_fields:
  assumes "fedFrom rs rs'"
  shows "rd_phase rs' = rd_phase rs" "rd_state rs' = rd_state rs" "rd_header rs' = rd_header rs" "rd_blockIndex rs' = rd_blockIndex rs"
    "rd_cek rs' = rd_cek rs" "rd_ownsCek rs' = rd_ownsCek rs" "rd_stateWiped rs' = rd_stateWiped rs" "rd_cekWiped rs' = rd_cekWiped rs"
    "rd_cancelled rs' = rd_cancelled rs" "rd_output rs' = rd_output rs" "rd_status rs' = rd_status rs"
  using assms by (auto simp: fedFrom_def)

lemma feeds_update [simp]:
  "feeds (rs\<lparr>rd_phase := p\<rparr>) rest = feeds rs rest" "feeds (rs\<lparr>rd_state := s\<rparr>) rest = feeds rs rest"
  "feeds (rs\<lparr>rd_header := h\<rparr>) rest = feeds rs rest" "feeds (rs\<lparr>rd_output := out\<rparr>) rest = feeds rs rest"
  "feeds (rs\<lparr>rd_blockIndex := k\<rparr>) rest = feeds rs rest"
  by (simp_all add: feeds_def)

text \<open>Reading what comes next of an object.\<close>

lemma takeBytes_slice:
  assumes "feeds rs (drop (nat a) bs)" "0 \<le> a" "a \<le> int (length bs)" "a \<le> b" "n = b - a"
  shows "if b \<le> int (length bs) then \<exists>rs'. takeBytes n rs = Inr (slice bs a b, rs') \<and> feeds rs' (drop (nat b) bs) \<and> fedFrom rs rs'
    else takeBytes n rs = Inl AttachmentError"
proof -
  have n: "0 \<le> n" "n \<le> int (length (drop (nat a) bs)) \<longleftrightarrow> b \<le> int (length bs)" "nat n = nat b - nat a"
    using assms by auto
  have "nat n + nat a = nat b" using assms by simp
  then show ?thesis
    using takeBytes_feeds [OF assms(1) n(1)] assms(2,4) unfolding n(2)
    by (cases "b \<le> int (length bs)") (simp_all add: slice_in n(3))
qed


section \<open>The checks of the readers\<close>

definition prefixOf :: "objectLayout \<Rightarrow> int \<Rightarrow> int \<Rightarrow> bytes \<Rightarrow> headerPrefix" where
  "prefixOf l n nh bs = \<lparr>hp_salt = slice bs 0 32, hp_storedCommitment = slice bs 32 (32 + nh),
     hp_storedSnapshot = slice bs (32 + nh) (32 + 2 * nh), hp_epochHeads = slice bs (ol_epochHeadsOffset l) (ol_metaOffset l),
     hp_layoutParams = objectLayoutParams n nh, hp_layout = l\<rparr>"

text \<open>A header prefix read from the front of an object is the object's.\<close>

lemma parsePrefix_front:
  assumes l: "layout (objectLayoutParams n nh) = Inr l" and nh: "0 \<le> nh"
    and bs: "ol_metaOffset l \<le> q" "q \<le> int (length bs)"
  shows "parsePrefix (slice bs 0 q) n nh = Inr (prefixOf l n nh bs)"
proof -
  have fit: "fitted l n nh" and n: "0 < n" "n \<le> 2 ^ 53 - 1" using layout_fitted [OF l nh] by auto
  note a = fitted_arith [OF fit]
  have q: "0 \<le> q" and len: "int (length (slice bs 0 q)) = q" using a bs by (auto simp: slice_length)
  have inner: "slice (slice bs 0 q) x y = slice bs x y" if "0 \<le> x" "x \<le> y" "y \<le> ol_metaOffset l" for x y
    using slice_slice [of 0 q bs x y] that q bs by simp
  have "isSafeInteger n" using n by (simp add: isSafeInteger_def)
  then show ?thesis
    using n(1) a bs(1) by (simp add: parsePrefix_def Let_def l len prefixOf_def inner)
qed

lemma checkRoot_iff: "checkRoot base (prefixOf l n nh bs) snapshot = Inr () \<longleftrightarrow> rootHolds l nh base bs snapshot"
  by (auto simp: checkRoot_def prefixOf_def rootHolds_def res_bind_eq_Inr constantTimeEqual_iff)

lemma verifyRoot_iff:
  assumes "nh = int (kdf_size (sc_kdf crypto))"
  shows "verifyRoot cek objectId (prefixOf l n nh bs) snapshot crypto = Inr base \<longleftrightarrow>
    scheduleHolds cek objectId crypto bs base \<and> rootHolds l nh base bs snapshot"
proof -
  have "verifyRoot cek objectId (prefixOf l n nh bs) snapshot crypto = Inr base \<longleftrightarrow>
      openCommitment cek objectId (slice bs 0 32) (slice bs 32 (32 + nh)) crypto = Inr base \<and>
      checkRoot base (prefixOf l n nh bs) snapshot = Inr ()"
    by (auto simp: verifyRoot_def res_bind_eq_Inr) (simp_all add: prefixOf_def)
  then show ?thesis
    unfolding checkRoot_iff openCommitment_def startOpen_iff scheduleHolds_def assms [symmetric] by blast
qed

text \<open>An epoch's run, wherever it is kept, against its head.\<close>

lemma verifyEpochRun_iff:
  assumes fit: "fitted l n nh" and e: "0 \<le> e" "e < ol_nEp l" and bs: "ol_metaOffset l \<le> int (length bs)"
    and base: "ss_crypto base = crypto" "nh = int (kdf_size (sc_kdf crypto))"
    and run: "slice md (e * 1024 * ol_metaLen l) (epochEnd l e * ol_metaLen l) = runAt l bs e"
  shows "verifyEpochRun \<lparr>hc_state = base, hc_prefix = prefixOf l n nh bs, hc_metadata = md\<rparr> e = Inr () \<longleftrightarrow>
    epochHolds l nh base bs e"
proof -
  note a = fitted_arith [OF fit]
  note h = head_inside [OF fit e]
  have count: "e * 1024 * ol_metaLen l + min 1024 (ol_nSeg l - e * 1024) * ol_metaLen l = epochEnd l e * ol_metaLen l"
  proof -
    have "min 1024 (ol_nSeg l - e * 1024) = epochEnd l e - e * 1024" by (simp add: epochEnd_def min_def distrib_right)
    then show ?thesis by (simp add: left_diff_distrib)
  qed
  have head: "slice (slice bs (ol_epochHeadsOffset l) (ol_metaOffset l)) (e * nh) (e * nh + nh) = headAt l nh bs e"
    using h a bs e unfolding headAt_def by (subst slice_slice) (auto simp: add.assoc)
  have m: "nh + 16 = ol_metaLen l" using a by simp
  show ?thesis
    using e unfolding verifyEpochRun_def Let_def
    by (auto simp: prefixOf_def objectLayoutParams_def ATTACHMENT_EPOCH_LENGTH_def m count run base(1) head res_bind_eq_Inr
        constantTimeEqual_iff epochHolds_def simp flip: base(2))
qed

text \<open>A segment, checked against its leaf and opened.\<close>

definition checkedSegment :: "objectLayout \<Rightarrow> int \<Rightarrow> int \<Rightarrow> sealState \<Rightarrow> bytes \<Rightarrow> int \<Rightarrow> bytes result" where
  "checkedSegment l n nh base bs i = res_bind (segmentLeaf base (blockAt l n bs i) (tagAt l nh bs i)) (\<lambda>leaf.
     if leaf \<noteq> leafBytes l bs i then Inl AttachmentError else openedSegment l n nh base bs i)"

lemma checkedSegment_iff:
  "checkedSegment l n nh base bs i = Inr p \<longleftrightarrow> segmentHolds l n nh base bs i \<and> openedSegment l n nh base bs i = Inr p"
  by (auto simp: checkedSegment_def segmentHolds_def res_bind_eq_Inr)

definition contextOf :: "objectLayout \<Rightarrow> int \<Rightarrow> int \<Rightarrow> sealState \<Rightarrow> bytes \<Rightarrow> bytes \<Rightarrow> headerContext \<Rightarrow> bool" where
  "contextOf l n nh base bs md ctx \<longleftrightarrow> cacheHolds base (hc_state ctx) \<and> hc_prefix ctx = prefixOf l n nh bs \<and> hc_metadata ctx = md"

lemma openBlock_tracks:
  assumes fit: "fitted l n nh" and i: "0 \<le> i" "i < ol_nSeg l" and bs: "ol_headerSize l \<le> int (length bs)"
    and block: "int (length (blockAt l n bs i)) = blockLength l n i"
    and leaf: "slice md (i * ol_metaLen l) (i * ol_metaLen l + ol_metaLen l) = leafBytes l bs i"
    and ctx: "contextOf l n nh base bs md ctx"
  shows "tracks (contextOf l n nh base bs md) (openBlock ctx i (blockAt l n bs i)) (checkedSegment l n nh base bs i)"
proof -
  note a = fitted_arith [OF fit]
  note m = meta_inside [OF fit i]
  have c: "cacheHolds base (hc_state ctx)" and p: "hc_prefix ctx = prefixOf l n nh bs" and md: "hc_metadata ctx = md"
    using ctx by (simp_all add: contextOf_def)
  have ml: "nh + 16 = ol_metaLen l" and lp: "lp_nh (objectLayoutParams n nh) = nh"
    using a by (simp_all add: objectLayoutParams_def)
  have "length (leafBytes l bs i) = nat (ol_metaLen l)"
    unfolding leafBytes_def using m a bs by (subst slice_length) auto
  then have len: "int (length (leafBytes l bs i)) = ol_metaLen l" using a by simp
  have tag: "slice (leafBytes l bs i) nh (ol_metaLen l) = tagAt l nh bs i"
    unfolding tagAt_def leafBytes_def using m a bs by (subst slice_slice) auto
  have "openBlock ctx i (blockAt l n bs i) = res_bind (segmentLeaf base (blockAt l n bs i) (tagAt l nh bs i)) (\<lambda>leaf.
      if leaf \<noteq> leafBytes l bs i then Inl AttachmentError else res_map (\<lambda>(plaintext, state'). (plaintext, ctx\<lparr>hc_state := state'\<rparr>))
        (openSegment (hc_state ctx) i (i = ol_nSeg l - 1) (blockAt l n bs i) (tagAt l nh bs i) None None))"
    using i block by (simp add: openBlock_def Let_def p md prefixOf_def segmentLength_eq lp ml leaf len tag constantTimeEqual_iff
        digests_base [OF c] cong: if_cong)
  moreover have "tracks (contextOf l n nh base bs md) (res_map (\<lambda>(plaintext, state'). (plaintext, ctx\<lparr>hc_state := state'\<rparr>))
        (openSegment (hc_state ctx) i (i = ol_nSeg l - 1) (blockAt l n bs i) (tagAt l nh bs i) None None)) (openedSegment l n nh base bs i)"
    using openSegment_tracks [OF c, of i "i = ol_nSeg l - 1" "blockAt l n bs i" "tagAt l nh bs i"]
    by (cases "openSegment (hc_state ctx) i (i = ol_nSeg l - 1) (blockAt l n bs i) (tagAt l nh bs i) None None")
      (auto simp: openedSegment_def contextOf_def p md)
  ultimately show ?thesis unfolding checkedSegment_def by (auto intro!: tracks_same)
qed


section \<open>The sequential reader\<close>

definition failed :: "readerState \<Rightarrow> bool" where
  "failed rs \<longleftrightarrow> rd_phase rs = Started \<and> rd_status rs = StreamErrored AttachmentError"

definition starting :: "bytes \<Rightarrow> int \<Rightarrow> readerState \<Rightarrow> bool" where
  "starting bs off rs \<longleftrightarrow> feeds rs (drop (nat off) bs) \<and> rd_status rs = StreamOpen \<and> \<not> rd_cancelled rs \<and>
     rd_output rs = [] \<and> rd_blockIndex rs = 0"

lemma doWipe_fields [simp]:
  "rd_status (doWipe rs) = rd_status rs" "rd_phase (doWipe rs) = rd_phase rs" "rd_output (doWipe rs) = rd_output rs"
  by (auto simp: doWipe_def Let_def split: option.split)

lemma orFail_simps [simp]: "orFail rs (Inl e) = readerFail rs" "orFail rs (Inr rs') = rs'"
  by (simp_all add: orFail_def)

lemma readerFail_failed: "rd_status rs = StreamOpen \<Longrightarrow> failed (readerFail rs)"
  by (simp add: failed_def readerFail_def)

lemma failed_stays: "failed rs \<Longrightarrow> readerAdvance l ref crypto rs = rs" "failed rs \<Longrightarrow> readerPull l ref crypto rs = rs"
  by (simp_all add: failed_def readerAdvance_def readerPull_def Let_def split: option.split prod.split)

text \<open>A machine that at each step either goes on or fails for good.\<close>

lemma run_or_fail:
  assumes step: "\<And>i rs. 0 \<le> i \<Longrightarrow> i < m \<Longrightarrow> alive i rs \<Longrightarrow> if P i then alive (i + 1) (f rs) else failed (f rs)"
    and stays: "\<And>rs. failed rs \<Longrightarrow> f rs = rs" and start: "alive 0 rs" and m: "0 \<le> (m :: int)"
  shows "if \<forall>i. 0 \<le> i \<and> i < m \<longrightarrow> P i then alive m ((f ^^ nat m) rs) else failed ((f ^^ nat m) rs)"
proof -
  have "if \<forall>i. 0 \<le> i \<and> i < int k \<longrightarrow> P i then alive (int k) ((f ^^ k) rs) else failed ((f ^^ k) rs)" if "int k \<le> m" for k
    using that
  proof (induction k)
    case (Suc k)
    let ?rs = "(f ^^ k) rs"
    have split: "(\<forall>i. 0 \<le> i \<and> i < int (Suc k) \<longrightarrow> P i) \<longleftrightarrow> (\<forall>i. 0 \<le> i \<and> i < int k \<longrightarrow> P i) \<and> P (int k)"
      by (auto simp: less_le)
    show ?case
    proof (cases "\<forall>i. 0 \<le> i \<and> i < int k \<longrightarrow> P i")
      case True
      then have "alive (int k) ?rs" using Suc by simp
      then have "if P (int k) then alive (int k + 1) (f ?rs) else failed (f ?rs)" using Suc.prems by (intro step) auto
      then show ?thesis unfolding split using True by (cases "P (int k)") (simp_all add: add.commute)
    next
      case False
      then have "failed ?rs" using Suc by (simp split: if_splits)
      then have "failed ((f ^^ Suc k) rs)" by (simp add: stays)
      then show ?thesis unfolding split using False by (simp only: if_False conj_commute simp_thms)
    qed
  qed (use start in auto)
  note k = this [of "nat m"]
  have e: "int (nat m) = m" using m by simp
  show ?thesis using k unfolding e by simp
qed

lemma advance_prefix:
  assumes "rd_phase rs = BufferPrefix" "starting bs 0 rs" "nh = int (kdf_size (sc_kdf crypto))"
  shows "if 32 + nh \<le> int (length bs)
    then starting bs (32 + nh) (readerAdvance l ref crypto rs) \<and>
      rd_phase (readerAdvance l ref crypto rs) = Deriving (openCommitment (rd_cek rs) (ref_objectId ref) (slice bs 0 32)
        (slice bs 32 (32 + nh)) crypto) (slice bs 0 (32 + nh))
    else failed (readerAdvance l ref crypto rs)"
proof -
  have f: "feeds rs (drop (nat 0) bs)" and s: "rd_status rs = StreamOpen" using assms(2) by (simp_all add: starting_def)
  have nh: "0 \<le> nh" using assms(3) by simp
  note t = takeBytes_slice [OF f, of "32 + nh" "32 + nh"]
  show ?thesis
  proof (cases "32 + nh \<le> int (length bs)")
    case False
    then have "takeBytes (32 + nh) rs = Inl AttachmentError" using t nh by simp
    then show ?thesis using False s assms(1) by (simp add: readerAdvance_def Let_def readerFail_failed flip: assms(3))
  next
    case True
    then obtain rs' where r: "takeBytes (32 + nh) rs = Inr (slice bs 0 (32 + nh), rs')" "feeds rs' (drop (nat (32 + nh)) bs)" "fedFrom rs rs'"
      using t nh by auto
    have "slice (slice bs 0 (32 + nh)) 0 32 = slice bs 0 32" "slice (slice bs 0 (32 + nh)) 32 (32 + nh) = slice bs 32 (32 + nh)"
      using True nh by (simp_all add: slice_slice)
    then show ?thesis using True r(1,2) assms(1,2) fedFrom_fields [OF r(3)]
      by (simp add: readerAdvance_def Let_def starting_def flip: assms(3))
  qed
qed

lemma advance_gate:
  assumes "rd_phase rs = Deriving gate head" "starting bs off rs"
  shows "case gate of Inl _ \<Rightarrow> failed (readerAdvance l ref crypto rs)
    | Inr base \<Rightarrow> starting bs off (readerAdvance l ref crypto rs) \<and> rd_state (readerAdvance l ref crypto rs) = Some base \<and>
        rd_phase (readerAdvance l ref crypto rs) = BufferHeads head"
  using assms by (cases gate) (auto simp: readerAdvance_def Let_def starting_def readerFail_failed)

lemma advance_heads:
  assumes "rd_phase rs = BufferHeads (slice bs 0 (32 + nh))" "starting bs (32 + nh) rs" "rd_state rs = Some base"
    and nh: "nh = int (kdf_size (sc_kdf crypto))" and l: "layout (objectLayoutParams (ref_plaintextLength ref) nh) = Inr l"
    and bs: "32 + nh \<le> int (length bs)"
  shows "if ol_metaOffset l \<le> int (length bs) \<and> rootHolds l nh base bs (ref_snapshot ref)
    then starting bs (ol_metaOffset l) (readerAdvance l ref crypto rs) \<and> rd_state (readerAdvance l ref crypto rs) = Some base \<and>
      rd_phase (readerAdvance l ref crypto rs) = BufferRuns (prefixOf l (ref_plaintextLength ref) nh bs) [] 0
    else failed (readerAdvance l ref crypto rs)"
proof -
  have f: "feeds rs (drop (nat (32 + nh)) bs)" and s: "rd_status rs = StreamOpen" using assms(2) by (simp_all add: starting_def)
  have fit: "fitted l (ref_plaintextLength ref) nh" using layout_fitted(1) [OF l] nh by simp
  note a = fitted_arith [OF fit]
  let ?take = "takeBytes (ol_metaOffset l - (32 + nh)) rs"
  have adv: "readerAdvance l ref crypto rs = orFail rs (res_bind ?take (\<lambda>(rest, rs1).
      res_bind (parsePrefix (slice bs 0 (32 + nh) @ rest) (ref_plaintextLength ref) nh) (\<lambda>prefix.
      res_map (\<lambda>_. rs1\<lparr>rd_phase := BufferRuns prefix [] 0\<rparr>) (checkRoot base prefix (ref_snapshot ref)))))"
    using assms(1,3) a(11) by (simp add: readerAdvance_def Let_def flip: nh)
  have t: "if ol_metaOffset l \<le> int (length bs) then \<exists>rs'. ?take = Inr (slice bs (32 + nh) (ol_metaOffset l), rs') \<and>
      feeds rs' (drop (nat (ol_metaOffset l)) bs) \<and> fedFrom rs rs' else ?take = Inl AttachmentError"
    using a bs by (intro takeBytes_slice [OF f]) auto
  show ?thesis
  proof (cases "ol_metaOffset l \<le> int (length bs)")
    case False
    then show ?thesis using t s by (simp add: adv readerFail_failed)
  next
    case True
    then obtain rs' where r: "?take = Inr (slice bs (32 + nh) (ol_metaOffset l), rs')"
      "feeds rs' (drop (nat (ol_metaOffset l)) bs)" "fedFrom rs rs'" using t by auto
    have whole: "slice bs 0 (32 + nh) @ slice bs (32 + nh) (ol_metaOffset l) = slice bs 0 (ol_metaOffset l)"
      using a True by (intro slice_append) auto
    have "parsePrefix (slice bs 0 (ol_metaOffset l)) (ref_plaintextLength ref) nh = Inr (prefixOf l (ref_plaintextLength ref) nh bs)"
      by (rule parsePrefix_front [OF l]) (use nh True in auto)
    then have adv': "readerAdvance l ref crypto rs = orFail rs (res_map
        (\<lambda>_. rs'\<lparr>rd_phase := BufferRuns (prefixOf l (ref_plaintextLength ref) nh bs) [] 0\<rparr>)
        (checkRoot base (prefixOf l (ref_plaintextLength ref) nh bs) (ref_snapshot ref)))"
      by (simp add: adv r(1) whole)
    have root: "checkRoot base (prefixOf l (ref_plaintextLength ref) nh bs) (ref_snapshot ref) = Inr () \<longleftrightarrow>
        rootHolds l nh base bs (ref_snapshot ref)" by (rule checkRoot_iff)
    show ?thesis
    proof (cases "checkRoot base (prefixOf l (ref_plaintextLength ref) nh bs) (ref_snapshot ref)")
      case (Inl e)
      then show ?thesis using root s by (simp add: adv' readerFail_failed)
    next
      case (Inr u)
      then show ?thesis using root True r(2) assms(2,3) fedFrom_fields [OF r(3)] by (simp add: adv' starting_def)
    qed
  qed
qed


text \<open>Where the runs of the first \<open>e\<close> epochs end.\<close>

definition metaUpTo :: "objectLayout \<Rightarrow> int \<Rightarrow> int" where
  "metaUpTo l e = ol_metaOffset l + min (e * 1024) (ol_nSeg l) * ol_metaLen l"

lemma metaUpTo_simps:
  assumes "fitted l n nh"
  shows "metaUpTo l 0 = ol_metaOffset l" "metaUpTo l (ol_nEp l) = ol_headerSize l"
    "metaUpTo l (e + 1) = ol_metaOffset l + epochEnd l e * ol_metaLen l"
    "e < ol_nEp l \<Longrightarrow> metaUpTo l e = ol_metaOffset l + e * 1024 * ol_metaLen l"
    "0 \<le> e \<Longrightarrow> e < ol_nEp l \<Longrightarrow> metaUpTo l e \<le> metaUpTo l (e + 1)" "0 \<le> e \<Longrightarrow> ol_metaOffset l \<le> metaUpTo l e"
proof -
  note a = fitted_arith [OF assms]
  have m: "0 \<le> ol_metaLen l" using a by simp
  have "e \<le> ol_nEp l - 1" if "e < ol_nEp l" using that by simp
  then have "e * 1024 \<le> (ol_nEp l - 1) * 1024" if "e < ol_nEp l" using that by simp
  then have lt: "e * 1024 < ol_nSeg l" if "e < ol_nEp l" using that a(14) by linarith
  show "metaUpTo l 0 = ol_metaOffset l" using a by (simp add: metaUpTo_def min_def)
  show "metaUpTo l (ol_nEp l) = ol_headerSize l" using a by (simp add: metaUpTo_def min_def)
  show after: "metaUpTo l (e + 1) = ol_metaOffset l + epochEnd l e * ol_metaLen l" by (simp add: metaUpTo_def epochEnd_def)
  show before: "e < ol_nEp l \<Longrightarrow> metaUpTo l e = ol_metaOffset l + e * 1024 * ol_metaLen l" using lt by (simp add: metaUpTo_def)
  show "metaUpTo l e \<le> metaUpTo l (e + 1)" if "0 \<le> e" "e < ol_nEp l"
    unfolding before [OF that(2)] after using epochEnd_bounds(1) [OF assms that] m by (simp add: mult_right_mono)
  show "ol_metaOffset l \<le> metaUpTo l e" if "0 \<le> e" using that m a(6) by (simp add: metaUpTo_def)
qed

definition inRuns :: "objectLayout \<Rightarrow> int \<Rightarrow> int \<Rightarrow> sealState \<Rightarrow> bytes \<Rightarrow> int \<Rightarrow> readerState \<Rightarrow> bool" where
  "inRuns l n nh base bs e rs \<longleftrightarrow> starting bs (metaUpTo l e) rs \<and> rd_state rs = Some base \<and> metaUpTo l e \<le> int (length bs) \<and>
     rd_phase rs = BufferRuns (prefixOf l n nh bs) (slice bs (ol_metaOffset l) (metaUpTo l e)) e"

lemma advance_run:
  assumes fit: "fitted l n nh" and e: "0 \<le> e" "e < ol_nEp l" and nh: "nh = int (kdf_size (sc_kdf crypto))"
    and base: "ss_crypto base = crypto" and rs: "inRuns l n nh base bs e rs"
  shows "if metaUpTo l (e + 1) \<le> int (length bs) \<and> epochHolds l nh base bs e
    then inRuns l n nh base bs (e + 1) (readerAdvance l ref crypto rs) else failed (readerAdvance l ref crypto rs)"
proof -
  note a = fitted_arith [OF fit]
  note m = metaUpTo_simps [OF fit]
  have f: "feeds rs (drop (nat (metaUpTo l e)) bs)" and s: "rd_status rs = StreamOpen" and st: "starting bs (metaUpTo l e) rs"
    and here: "metaUpTo l e \<le> int (length bs)" "ol_metaOffset l \<le> metaUpTo l e" and state: "rd_state rs = Some base"
    using rs m(6) [OF e(1)] by (simp_all add: inRuns_def starting_def)
  have len: "min 1024 (ol_nSeg l - e * 1024) * ol_metaLen l = metaUpTo l (e + 1) - metaUpTo l e"
  proof -
    have "min 1024 (ol_nSeg l - e * 1024) = epochEnd l e - e * 1024" by (simp add: epochEnd_def min_def distrib_right)
    then show ?thesis by (simp add: m(3,4) e left_diff_distrib)
  qed
  let ?take = "takeBytes (metaUpTo l (e + 1) - metaUpTo l e) rs"
  have adv: "readerAdvance l ref crypto rs = orFail rs (res_bind ?take (\<lambda>(run, rs1).
      res_map (\<lambda>_. rs1\<lparr>rd_phase := BufferRuns (prefixOf l n nh bs) (slice bs (ol_metaOffset l) (metaUpTo l e) @ run) (e + 1)\<rparr>)
        (verifyEpochRun \<lparr>hc_state = base, hc_prefix = prefixOf l n nh bs,
           hc_metadata = slice bs (ol_metaOffset l) (metaUpTo l e) @ run\<rparr> e)))"
    using rs e by (simp add: inRuns_def readerAdvance_def Let_def ATTACHMENT_EPOCH_LENGTH_def len)
  have t: "if metaUpTo l (e + 1) \<le> int (length bs) then \<exists>rs'. ?take = Inr (slice bs (metaUpTo l e) (metaUpTo l (e + 1)), rs') \<and>
      feeds rs' (drop (nat (metaUpTo l (e + 1))) bs) \<and> fedFrom rs rs' else ?take = Inl AttachmentError"
    using a here m(5) [OF e] by (intro takeBytes_slice [OF f]) auto
  show ?thesis
  proof (cases "metaUpTo l (e + 1) \<le> int (length bs)")
    case False
    then show ?thesis using t s by (simp add: adv readerFail_failed)
  next
    case True
    then obtain rs' where r: "?take = Inr (slice bs (metaUpTo l e) (metaUpTo l (e + 1)), rs')"
      "feeds rs' (drop (nat (metaUpTo l (e + 1))) bs)" "fedFrom rs rs'" using t by auto
    let ?md = "slice bs (ol_metaOffset l) (metaUpTo l (e + 1))"
    have whole: "slice bs (ol_metaOffset l) (metaUpTo l e) @ slice bs (metaUpTo l e) (metaUpTo l (e + 1)) = ?md"
      using a here m(5) [OF e] True by (intro slice_append) auto
    have run: "slice ?md (e * 1024 * ol_metaLen l) (epochEnd l e * ol_metaLen l) = runAt l bs e"
    proof -
      have b: "0 \<le> e * 1024 * ol_metaLen l" "e * 1024 * ol_metaLen l \<le> epochEnd l e * ol_metaLen l"
        using e a(8,9) epochEnd_bounds(1) [OF fit e] by (simp_all add: mult_right_mono)
      show ?thesis
        unfolding runAt_def using b True a(8,15) by (subst slice_slice) (simp_all add: m(3))
    qed
    have adv': "readerAdvance l ref crypto rs = orFail rs (res_map
        (\<lambda>_. rs'\<lparr>rd_phase := BufferRuns (prefixOf l n nh bs) ?md (e + 1)\<rparr>)
        (verifyEpochRun \<lparr>hc_state = base, hc_prefix = prefixOf l n nh bs, hc_metadata = ?md\<rparr> e))"
      by (simp add: adv r(1) whole)
    have mo: "ol_metaOffset l \<le> int (length bs)" using here by linarith
    note ok = verifyEpochRun_iff [OF fit e mo base nh run]
    show ?thesis
    proof (cases "verifyEpochRun \<lparr>hc_state = base, hc_prefix = prefixOf l n nh bs, hc_metadata = ?md\<rparr> e")
      case (Inl err)
      then show ?thesis using ok s by (simp add: adv' readerFail_failed)
    next
      case (Inr u)
      then have "epochHolds l nh base bs e" using ok by simp
      then show ?thesis using Inr True r(2) st state fedFrom_fields [OF r(3)] by (simp add: adv' inRuns_def starting_def)
    qed
  qed
qed

text \<open>After the runs: the gap, then the first block.\<close>

definition ready :: "objectLayout \<Rightarrow> int \<Rightarrow> int \<Rightarrow> sealState \<Rightarrow> bytes \<Rightarrow> readerState \<Rightarrow> bool" where
  "ready l n nh base bs rs \<longleftrightarrow> starting bs (ol_firstBlockOffset l) rs \<and> rd_state rs = Some base \<and> rd_phase rs = Started \<and>
     ol_firstBlockOffset l \<le> int (length bs) \<and>
     rd_header rs = Some (prefixOf l n nh bs, slice bs (ol_metaOffset l) (ol_headerSize l))"

lemma advance_gap:
  assumes fit: "fitted l n nh" and rs: "inRuns l n nh base bs (ol_nEp l) rs"
  shows "if ol_firstBlockOffset l \<le> int (length bs) \<and> isZeroRegion bs (ol_headerSize l) (ol_firstBlockOffset l)
    then ready l n nh base bs ((readerAdvance l ref crypto ^^ 2) rs) else failed ((readerAdvance l ref crypto ^^ 2) rs)"
proof -
  note a = fitted_arith [OF fit]
  have m: "metaUpTo l (ol_nEp l) = ol_headerSize l" by (rule metaUpTo_simps(2) [OF fit])
  define rs1 where "rs1 = rs\<lparr>rd_header := Some (prefixOf l n nh bs, slice bs (ol_metaOffset l) (ol_headerSize l)), rd_phase := SkipGap\<rparr>"
  have one: "readerAdvance l ref crypto rs = rs1"
    using rs by (simp add: inRuns_def readerAdvance_def Let_def m rs1_def)
  have f: "feeds rs1 (drop (nat (ol_headerSize l)) bs)" and s: "rd_status rs1 = StreamOpen"
    and st: "starting bs (ol_headerSize l) rs1" and state: "rd_state rs1 = Some base" and hs: "ol_headerSize l \<le> int (length bs)"
    using rs by (simp_all add: inRuns_def starting_def m rs1_def)
  let ?take = "takeBytes (ol_firstBlockOffset l - ol_headerSize l) rs1"
  have adv: "(readerAdvance l ref crypto ^^ 2) rs = orFail rs1 (res_bind ?take (\<lambda>(gap, rs2).
      if isZeroRegion gap 0 (int (length gap)) then Inr (rs2\<lparr>rd_phase := Started\<rparr>) else Inl AttachmentError))"
    by (simp add: numeral_2_eq_2 one) (simp add: readerAdvance_def Let_def rs1_def)
  have t: "if ol_firstBlockOffset l \<le> int (length bs) then \<exists>rs'. ?take = Inr (slice bs (ol_headerSize l) (ol_firstBlockOffset l), rs') \<and>
      feeds rs' (drop (nat (ol_firstBlockOffset l)) bs) \<and> fedFrom rs1 rs' else ?take = Inl AttachmentError"
    using a hs by (intro takeBytes_slice [OF f]) auto
  show ?thesis
  proof (cases "ol_firstBlockOffset l \<le> int (length bs)")
    case False
    then show ?thesis using t s by (simp add: adv readerFail_failed)
  next
    case True
    then obtain rs' where r: "?take = Inr (slice bs (ol_headerSize l) (ol_firstBlockOffset l), rs')"
      "feeds rs' (drop (nat (ol_firstBlockOffset l)) bs)" "fedFrom rs1 rs'" using t by auto
    let ?gap = "slice bs (ol_headerSize l) (ol_firstBlockOffset l)"
    have "isZeroRegion ?gap 0 (int (length ?gap)) \<longleftrightarrow> isZeroRegion bs (ol_headerSize l) (ol_firstBlockOffset l)"
      using a True by (simp add: isZeroRegion_slice)
    then show ?thesis using True r(1,2) st state s fedFrom_fields [OF r(3)]
      by (simp add: adv ready_def starting_def readerFail_failed) (simp add: rs1_def)
  qed
qed


section \<open>The blocks\<close>

definition blocksUpTo :: "objectLayout \<Rightarrow> int \<Rightarrow> int \<Rightarrow> int" where
  "blocksUpTo l n i = ol_firstBlockOffset l + min (i * 65536) n"

lemma blocksUpTo_simps:
  assumes "fitted l n nh"
  shows "blocksUpTo l n 0 = ol_firstBlockOffset l" "blocksUpTo l n (ol_nSeg l) = ol_totalSize l"
    "0 \<le> i \<Longrightarrow> i < ol_nSeg l \<Longrightarrow> blocksUpTo l n i = ol_firstBlockOffset l + i * 65536"
    "0 \<le> i \<Longrightarrow> i < ol_nSeg l \<Longrightarrow> blocksUpTo l n (i + 1) = ol_firstBlockOffset l + i * 65536 + blockLength l n i"
proof -
  note a = fitted_arith [OF assms]
  show "blocksUpTo l n 0 = ol_firstBlockOffset l" "blocksUpTo l n (ol_nSeg l) = ol_totalSize l"
    using a by (simp_all add: blocksUpTo_def)
  show "0 \<le> i \<Longrightarrow> i < ol_nSeg l \<Longrightarrow> blocksUpTo l n i = ol_firstBlockOffset l + i * 65536"
    using blockLength_bounds(1,3) [OF assms, of i] by (simp add: blocksUpTo_def)
  show "0 \<le> i \<Longrightarrow> i < ol_nSeg l \<Longrightarrow> blocksUpTo l n (i + 1) = ol_firstBlockOffset l + i * 65536 + blockLength l n i"
    using blockLength_bounds(4) [OF assms, of i] by (simp add: blocksUpTo_def)
qed

definition inBlocks :: "objectLayout \<Rightarrow> int \<Rightarrow> int \<Rightarrow> sealState \<Rightarrow> bytes \<Rightarrow> int \<Rightarrow> readerState \<Rightarrow> bool" where
  "inBlocks l n nh base bs i rs \<longleftrightarrow> feeds rs (drop (nat (blocksUpTo l n i)) bs) \<and> rd_status rs = StreamOpen \<and>
     rd_phase rs = Started \<and> rd_header rs = Some (prefixOf l n nh bs, slice bs (ol_metaOffset l) (ol_headerSize l)) \<and>
     (\<exists>st. rd_state rs = Some st \<and> cacheHolds base st) \<and> rd_blockIndex rs = i \<and> blocksUpTo l n i \<le> int (length bs) \<and>
     res_mapM (checkedSegment l n nh base bs) [0..i - 1] = Inr (rd_output rs)"

lemma ready_inBlocks:
  "fitted l n nh \<Longrightarrow> cacheHolds base base \<Longrightarrow> ready l n nh base bs rs \<Longrightarrow> inBlocks l n nh base bs 0 rs"
  by (simp add: inBlocks_def ready_def starting_def blocksUpTo_simps)

lemma pull_block:
  assumes fit: "fitted l n nh" and i: "0 \<le> i" "i < ol_nSeg l" and rs: "inBlocks l n nh base bs i rs"
    and n: "n = ref_plaintextLength ref" and nh: "nh = int (kdf_size (sc_kdf crypto))"
  shows "if blocksUpTo l n (i + 1) \<le> int (length bs) \<and> (\<exists>p. checkedSegment l n nh base bs i = Inr p)
    then inBlocks l n nh base bs (i + 1) (readerPull l ref crypto rs) else failed (readerPull l ref crypto rs)"
proof -
  note a = fitted_arith [OF fit]
  note b = blockLength_bounds [OF fit i]
  note u = blocksUpTo_simps(3,4) [OF fit i]
  let ?md = "slice bs (ol_metaOffset l) (ol_headerSize l)"
  have f: "feeds rs (drop (nat (blocksUpTo l n i)) bs)" and s: "rd_status rs = StreamOpen" and here: "blocksUpTo l n i \<le> int (length bs)"
    and out: "res_mapM (checkedSegment l n nh base bs) [0..i - 1] = Inr (rd_output rs)"
    using rs by (simp_all add: inBlocks_def)
  obtain st where st: "rd_state rs = Some st" "cacheHolds base st" using rs by (auto simp: inBlocks_def)
  let ?ctx = "\<lparr>hc_state = st, hc_prefix = prefixOf l n nh bs, hc_metadata = ?md\<rparr>"
  let ?take = "takeBytes (blockLength l n i) rs"
  have lp: "readerLayoutParams ref crypto = objectLayoutParams n nh" by (simp add: readerLayoutParams_def n nh)
  have adv: "readerPull l ref crypto rs = orFail rs (res_bind ?take (\<lambda>(block, rs1).
      res_map (\<lambda>(plaintext, ctx). rs1\<lparr>rd_state := Some (hc_state ctx), rd_output := rd_output rs1 @ [plaintext],
          rd_blockIndex := rd_blockIndex rs1 + 1\<rparr>) (openBlock ?ctx i block)))"
    using rs i st by (simp add: inBlocks_def readerPull_def lp segmentLength_eq)
  have t: "if blocksUpTo l n (i + 1) \<le> int (length bs) then \<exists>rs'. ?take = Inr (slice bs (blocksUpTo l n i) (blocksUpTo l n (i + 1)), rs') \<and>
      feeds rs' (drop (nat (blocksUpTo l n (i + 1))) bs) \<and> fedFrom rs rs' else ?take = Inl AttachmentError"
    using a b i here by (intro takeBytes_slice [OF f]) (auto simp: u)
  show ?thesis
  proof (cases "blocksUpTo l n (i + 1) \<le> int (length bs)")
    case False
    then show ?thesis using t s by (simp add: adv readerFail_failed)
  next
    case True
    then obtain rs' where r: "?take = Inr (blockAt l n bs i, rs')"
      "feeds rs' (drop (nat (blocksUpTo l n (i + 1))) bs)" "fedFrom rs rs'" using t by (auto simp: u blockAt_def)
    have hs: "ol_headerSize l \<le> int (length bs)" using here a i by (simp add: u)
    have "length (blockAt l n bs i) = nat (blockLength l n i)"
      unfolding blockAt_def using a b i True by (subst slice_length) (auto simp: u)
    then have block: "int (length (blockAt l n bs i)) = blockLength l n i" using b by simp
    have leaf: "slice ?md (i * ol_metaLen l) (i * ol_metaLen l + ol_metaLen l) = leafBytes l bs i"
      unfolding leafBytes_def using meta_inside [OF fit i] a hs i by (subst slice_slice) (auto simp: add.assoc)
    have "contextOf l n nh base bs ?md ?ctx" using st(2) by (simp add: contextOf_def)
    note tr = openBlock_tracks [OF fit i hs block leaf this]
    have list: "[0..i + 1 - 1] = [0..i - 1] @ [i]" using i(1) upto_rec2 [of 0 i] by simp
    show ?thesis
    proof (cases "openBlock ?ctx i (blockAt l n bs i)")
      case (Inl err)
      then have "checkedSegment l n nh base bs i = Inl err" using tr by (simp add: tracks_def)
      then show ?thesis using Inl s by (simp add: adv r(1) readerFail_failed)
    next
      case (Inr z)
      obtain p ctx' where z: "z = (p, ctx')" by (cases z)
      then have p: "checkedSegment l n nh base bs i = Inr p" and ctx': "contextOf l n nh base bs ?md ctx'"
        using tr Inr by (simp_all add: tracks_def)
      have "res_mapM (checkedSegment l n nh base bs) [0..i + 1 - 1] = Inr (rd_output rs @ [p])"
        unfolding list res_mapM_append out using p by simp
      then have "inBlocks l n nh base bs (i + 1) (readerPull l ref crypto rs)"
        using Inr z rs True r(2) ctx' fedFrom_fields [OF r(3)] by (simp add: adv r(1) inBlocks_def contextOf_def)
      then show ?thesis using True p by simp
    qed
  qed
qed

lemma trailingBytes_chunks: "trailingBytes (map Inr chunks) = Inr (concat chunks \<noteq> [])"
  by (induction chunks) auto

lemma pull_end:
  assumes fit: "fitted l n nh" and rs: "inBlocks l n nh base bs (ol_nSeg l) rs"
  shows "if int (length bs) = ol_totalSize l
    then rd_status (readerPull l ref crypto rs) = StreamClosed \<and> rd_output (readerPull l ref crypto rs) = rd_output rs
    else failed (readerPull l ref crypto rs)"
proof -
  note u = blocksUpTo_simps(2) [OF fit]
  obtain chunks where c: "rd_source rs = map Inr chunks" "drop (nat (ol_totalSize l)) bs = concat (rd_buffer rs) @ concat chunks"
    and b: "rd_bufferedBytes rs = int (length (concat (rd_buffer rs)))"
    using rs by (auto simp: inBlocks_def feeds_def u)
  have le: "ol_totalSize l \<le> int (length bs)" and s: "rd_status rs = StreamOpen" using rs by (simp_all add: inBlocks_def u)
  obtain st where st: "rd_state rs = Some st" using rs by (auto simp: inBlocks_def)
  have "0 \<le> ol_totalSize l" using fitted_arith [OF fit] by linarith
  then have rest: "concat (rd_buffer rs) @ concat chunks = [] \<longleftrightarrow> int (length bs) = ol_totalSize l"
    using le by (auto simp flip: c(2))
  have "readerPull l ref crypto rs = orFail rs (if concat (rd_buffer rs) @ concat chunks \<noteq> [] then Inl AttachmentError
      else Inr ((doWipe rs)\<lparr>rd_source := [], rd_status := StreamClosed\<rparr>))"
    using rs st by (auto simp: inBlocks_def readerPull_def c(1) b trailingBytes_chunks)
  then show ?thesis unfolding rest using s by (auto simp: readerFail_failed)
qed


section \<open>The whole stream\<close>

lemma failed_iterate:
  "failed rs \<Longrightarrow> (readerAdvance l ref crypto ^^ k) rs = rs" "failed rs \<Longrightarrow> (readerPull l ref crypto ^^ k) rs = rs"
  by (induction k) (simp_all add: failed_stays)

text \<open>A consumer that pulls until the stream ends, once the startup is done.\<close>

definition readToEnd :: "objectLayout \<Rightarrow> attachmentRef \<Rightarrow> sealCrypto \<Rightarrow> readerState \<Rightarrow> readerState" where
  "readToEnd l ref crypto rs =
     (readerPull l ref crypto ^^ (nat (ol_nSeg l) + 1)) ((readerAdvance l ref crypto ^^ (nat (ol_nEp l) + 5)) rs)"

definition headerHolds :: "objectLayout \<Rightarrow> bytes \<Rightarrow> attachmentRef \<Rightarrow> sealCrypto \<Rightarrow> bytes \<Rightarrow> sealState \<Rightarrow> bool" where
  "headerHolds l cek ref crypto bs base \<longleftrightarrow> ol_firstBlockOffset l \<le> int (length bs) \<and> scheduleHolds cek (ref_objectId ref) crypto bs base \<and>
     rootHolds l (int (kdf_size (sc_kdf crypto))) base bs (ref_snapshot ref) \<and>
     (\<forall>e. 0 \<le> e \<and> e < ol_nEp l \<longrightarrow> epochHolds l (int (kdf_size (sc_kdf crypto))) base bs e) \<and>
     isZeroRegion bs (ol_headerSize l) (ol_firstBlockOffset l)"

lemma startup_opens:
  assumes rs: "rd_phase rs = BufferPrefix" "starting bs 0 rs" and nh: "nh = int (kdf_size (sc_kdf crypto))"
    and l: "layout (objectLayoutParams (ref_plaintextLength ref) nh) = Inr l"
    and sch: "scheduleHolds (rd_cek rs) (ref_objectId ref) crypto bs base"
  shows "if ol_metaOffset l \<le> int (length bs) \<and> rootHolds l nh base bs (ref_snapshot ref)
    then inRuns l (ref_plaintextLength ref) nh base bs 0 ((readerAdvance l ref crypto ^^ 3) rs)
    else failed ((readerAdvance l ref crypto ^^ 3) rs)"
proof -
  let ?f = "readerAdvance l ref crypto"
  have fit: "fitted l (ref_plaintextLength ref) nh" using layout_fitted(1) [OF l] nh by simp
  note a = fitted_arith [OF fit]
  have three: "(?f ^^ 3) rs = ?f (?f (?f rs))" by (simp add: numeral_3_eq_3)
  note one = advance_prefix [OF rs nh, of l ref]
  show ?thesis
  proof (cases "32 + nh \<le> int (length bs)")
    case False
    then have "failed (?f rs)" "\<not> ol_metaOffset l \<le> int (length bs)" using one a(8,15) by auto
    then show ?thesis by (simp add: three failed_stays)
  next
    case True
    have gate: "openCommitment (rd_cek rs) (ref_objectId ref) (slice bs 0 32) (slice bs 32 (32 + nh)) crypto = Inr base"
      using sch by (simp add: openCommitment_def startOpen_iff scheduleHolds_def nh)
    have s1: "starting bs (32 + nh) (?f rs)" and p1: "rd_phase (?f rs) = Deriving (Inr base) (slice bs 0 (32 + nh))"
      using one True gate by simp_all
    have s2: "starting bs (32 + nh) (?f (?f rs))" and p2: "rd_state (?f (?f rs)) = Some base"
      "rd_phase (?f (?f rs)) = BufferHeads (slice bs 0 (32 + nh))"
      using advance_gate [OF p1 s1, of l ref crypto] by simp_all
    show ?thesis
      using advance_heads [OF p2(2) s2 p2(1) nh l True] metaUpTo_simps(1) [OF fit] by (auto simp: three inRuns_def)
  qed
qed

lemma startup_refuses:
  assumes rs: "rd_phase rs = BufferPrefix" "starting bs 0 rs" and no: "\<nexists>base. scheduleHolds (rd_cek rs) (ref_objectId ref) crypto bs base"
  shows "failed ((readerAdvance l ref crypto ^^ 3) rs)"
proof -
  let ?f = "readerAdvance l ref crypto" and ?nh = "int (kdf_size (sc_kdf crypto))"
  have three: "(?f ^^ 3) rs = ?f (?f (?f rs))" by (simp add: numeral_3_eq_3)
  note one = advance_prefix [OF rs refl, where l = l and ref = ref and crypto = crypto]
  show ?thesis
  proof (cases "32 + ?nh \<le> int (length bs)")
    case False
    then show ?thesis using one by (simp add: three failed_stays)
  next
    case True
    let ?gate = "openCommitment (rd_cek rs) (ref_objectId ref) (slice bs 0 32) (slice bs 32 (32 + ?nh)) crypto"
    have s1: "starting bs (32 + ?nh) (?f rs)" and p1: "rd_phase (?f rs) = Deriving ?gate (slice bs 0 (32 + ?nh))"
      using one True by simp_all
    have "\<exists>e. ?gate = Inl e"
    proof (cases ?gate)
      case (Inr base)
      then have "scheduleHolds (rd_cek rs) (ref_objectId ref) crypto bs base"
        by (simp add: openCommitment_def startOpen_iff scheduleHolds_def)
      with no show ?thesis by blast
    qed blast
    then have "failed (?f (?f rs))" using advance_gate [OF p1 s1, of l ref crypto] by (auto split: sum.splits)
    then show ?thesis by (simp add: three failed_stays)
  qed
qed

lemma advance_runs:
  assumes fit: "fitted l n nh" and nh: "nh = int (kdf_size (sc_kdf crypto))" and base: "ss_crypto base = crypto"
    and rs: "inRuns l n nh base bs 0 rs"
  shows "if (\<forall>e. 0 \<le> e \<and> e < ol_nEp l \<longrightarrow> metaUpTo l (e + 1) \<le> int (length bs) \<and> epochHolds l nh base bs e)
    then inRuns l n nh base bs (ol_nEp l) ((readerAdvance l ref crypto ^^ nat (ol_nEp l)) rs)
    else failed ((readerAdvance l ref crypto ^^ nat (ol_nEp l)) rs)"
  by (rule run_or_fail [where alive = "inRuns l n nh base bs"], rule advance_run [OF fit _ _ nh base], assumption+,
      erule failed_stays, rule rs, use fitted_arith(7) [OF fit] in simp)

text \<open>After the root: the runs and the gap.\<close>

lemma advance_rest:
  assumes fit: "fitted l n nh" and nh: "nh = int (kdf_size (sc_kdf crypto))" and base: "ss_crypto base = crypto"
    and rs: "inRuns l n nh base bs 0 rs"
  shows "if ol_firstBlockOffset l \<le> int (length bs) \<and> isZeroRegion bs (ol_headerSize l) (ol_firstBlockOffset l) \<and>
      (\<forall>e. 0 \<le> e \<and> e < ol_nEp l \<longrightarrow> epochHolds l nh base bs e)
    then ready l n nh base bs ((readerAdvance l ref crypto ^^ 2) ((readerAdvance l ref crypto ^^ nat (ol_nEp l)) rs))
    else failed ((readerAdvance l ref crypto ^^ 2) ((readerAdvance l ref crypto ^^ nat (ol_nEp l)) rs))"
proof -
  note a = fitted_arith [OF fit]
  note runs = advance_runs [OF fit nh base rs, of ref]
  have inside: "metaUpTo l (e + 1) \<le> ol_headerSize l" for e
  proof -
    have "epochEnd l e * ol_metaLen l \<le> ol_nSeg l * ol_metaLen l"
      using a(8,9) by (intro mult_right_mono) (auto simp: epochEnd_def)
    then show ?thesis using a(1) by (simp add: metaUpTo_simps(3) [OF fit])
  qed
  show ?thesis
  proof (cases "\<forall>e. 0 \<le> e \<and> e < ol_nEp l \<longrightarrow> metaUpTo l (e + 1) \<le> int (length bs) \<and> epochHolds l nh base bs e")
    case True
    then have "inRuns l n nh base bs (ol_nEp l) ((readerAdvance l ref crypto ^^ nat (ol_nEp l)) rs)" using runs by simp
    from advance_gap [OF fit this, of ref crypto] True show ?thesis by (auto split: if_splits)
  next
    case False
    then have f: "failed ((readerAdvance l ref crypto ^^ nat (ol_nEp l)) rs)" using runs by (simp only: if_False)
    have "\<not> (ol_firstBlockOffset l \<le> int (length bs) \<and> (\<forall>e. 0 \<le> e \<and> e < ol_nEp l \<longrightarrow> epochHolds l nh base bs e))"
      using False inside a(2) by (meson order_trans)
    with f show ?thesis by (auto simp: failed_iterate)
  qed
qed

lemma startup:
  assumes rs: "rd_phase rs = BufferPrefix" "starting bs 0 rs" and nh: "nh = int (kdf_size (sc_kdf crypto))"
    and l: "layout (objectLayoutParams (ref_plaintextLength ref) nh) = Inr l"
  shows "(\<exists>base. headerHolds l (rd_cek rs) ref crypto bs base \<and>
      ready l (ref_plaintextLength ref) nh base bs ((readerAdvance l ref crypto ^^ (nat (ol_nEp l) + 5)) rs)) \<or>
    ((\<nexists>base. headerHolds l (rd_cek rs) ref crypto bs base) \<and> failed ((readerAdvance l ref crypto ^^ (nat (ol_nEp l) + 5)) rs))"
proof -
  let ?f = "readerAdvance l ref crypto" and ?n = "ref_plaintextLength ref"
  have fit: "fitted l ?n nh" using layout_fitted(1) [OF l] nh by simp
  note a = fitted_arith [OF fit]
  have five: "nat (ol_nEp l) + 5 = 2 + (nat (ol_nEp l) + 3)" by simp
  have all: "(?f ^^ (nat (ol_nEp l) + 5)) rs = (?f ^^ 2) ((?f ^^ nat (ol_nEp l)) ((?f ^^ 3) rs))"
    unfolding five by (simp only: funpow_add comp_apply)
  show ?thesis
  proof (cases "\<exists>base. scheduleHolds (rd_cek rs) (ref_objectId ref) crypto bs base")
    case False
    then have "failed ((?f ^^ 3) rs)" by (rule startup_refuses [OF rs])
    then show ?thesis using False by (auto simp: all failed_iterate headerHolds_def)
  next
    case True
    then obtain base where sch: "scheduleHolds (rd_cek rs) (ref_objectId ref) crypto bs base" by blast
    have uniq: "headerHolds l (rd_cek rs) ref crypto bs base' \<Longrightarrow> base' = base" for base'
      using sch by (auto simp: headerHolds_def scheduleHolds_def)
    have crypto: "ss_crypto base = crypto"
      using sch deriveSchedule_objectState(1) by (auto simp: scheduleHolds_def objectState_def)
    note opens = startup_opens [OF rs nh l sch]
    show ?thesis
    proof (cases "ol_metaOffset l \<le> int (length bs) \<and> rootHolds l nh base bs (ref_snapshot ref)")
      case False
      then have "failed ((?f ^^ 3) rs)" "\<nexists>base. headerHolds l (rd_cek rs) ref crypto bs base"
        using opens uniq a(2,16) by (auto simp: headerHolds_def nh)
      then show ?thesis by (simp add: all failed_iterate)
    next
      case root: True
      then have "inRuns l ?n nh base bs 0 ((?f ^^ 3) rs)" using opens by simp
      note rest = advance_rest [OF fit nh crypto this, of ref]
      have holds: "headerHolds l (rd_cek rs) ref crypto bs base \<longleftrightarrow> ol_firstBlockOffset l \<le> int (length bs) \<and>
          isZeroRegion bs (ol_headerSize l) (ol_firstBlockOffset l) \<and>
          (\<forall>e. 0 \<le> e \<and> e < ol_nEp l \<longrightarrow> epochHolds l nh base bs e)"
        using root sch by (simp add: headerHolds_def conj_commute flip: nh)
      note rest' = rest [folded holds all]
      show ?thesis
      proof (cases "headerHolds l (rd_cek rs) ref crypto bs base")
        case True
        then have "ready l ?n nh base bs ((?f ^^ (nat (ol_nEp l) + 5)) rs)"
          using rest' by simp
        with True show ?thesis by blast
      next
        case False
        then have "failed ((?f ^^ (nat (ol_nEp l) + 5)) rs)" using rest' by simp
        with False uniq show ?thesis by blast
      qed
    qed
  qed
qed


lemma pull_blocks:
  assumes fit: "fitted l n nh" and n: "n = ref_plaintextLength ref" and nh: "nh = int (kdf_size (sc_kdf crypto))"
    and rs: "inBlocks l n nh base bs 0 rs"
  shows "if (\<forall>i. 0 \<le> i \<and> i < ol_nSeg l \<longrightarrow> blocksUpTo l n (i + 1) \<le> int (length bs) \<and> (\<exists>p. checkedSegment l n nh base bs i = Inr p))
    then inBlocks l n nh base bs (ol_nSeg l) ((readerPull l ref crypto ^^ nat (ol_nSeg l)) rs)
    else failed ((readerPull l ref crypto ^^ nat (ol_nSeg l)) rs)"
  by (rule run_or_fail [where alive = "inBlocks l n nh base bs"], rule pull_block [OF fit _ _ _ n nh], assumption+,
      erule failed_stays, rule rs, use fitted_arith(6) [OF fit] in simp)

lemma res_mapM_each: "res_mapM f xs = Inr ys \<Longrightarrow> x \<in> set xs \<Longrightarrow> \<exists>y. f x = Inr y"
  by (induction xs arbitrary: ys) (auto simp: res_bind_eq_Inr)

lemma segments_open_iff:
  "(\<exists>parts. res_mapM (checkedSegment l n nh base bs) [0..ol_nSeg l - 1] = Inr parts) \<longleftrightarrow>
    (\<forall>i. 0 \<le> i \<and> i < ol_nSeg l \<longrightarrow> (\<exists>p. checkedSegment l n nh base bs i = Inr p))"
proof
  assume "\<exists>parts. res_mapM (checkedSegment l n nh base bs) [0..ol_nSeg l - 1] = Inr parts"
  then show "\<forall>i. 0 \<le> i \<and> i < ol_nSeg l \<longrightarrow> (\<exists>p. checkedSegment l n nh base bs i = Inr p)"
    by (auto intro: res_mapM_each)
next
  assume "\<forall>i. 0 \<le> i \<and> i < ol_nSeg l \<longrightarrow> (\<exists>p. checkedSegment l n nh base bs i = Inr p)"
  then obtain p where "\<And>i. 0 \<le> i \<Longrightarrow> i < ol_nSeg l \<Longrightarrow> checkedSegment l n nh base bs i = Inr (p i)" by metis
  then have "res_mapM (checkedSegment l n nh base bs) [0..ol_nSeg l - 1] = Inr (map p [0..ol_nSeg l - 1])"
    by (intro res_mapM_Inr) auto
  then show "\<exists>parts. res_mapM (checkedSegment l n nh base bs) [0..ol_nSeg l - 1] = Inr parts" by blast
qed

text \<open>The specification, as the stream meets it.\<close>

lemma checkedSegments_split:
  "res_mapM (checkedSegment l n nh base bs) xs = Inr parts \<longleftrightarrow>
    (\<forall>i \<in> set xs. segmentHolds l n nh base bs i) \<and> res_mapM (openedSegment l n nh base bs) xs = Inr parts"
  by (induction xs arbitrary: parts) (auto simp: res_bind_eq_Inr checkedSegment_iff)

lemma objectHolds_stream:
  assumes "fitted l (ref_plaintextLength ref) nh" "nh = int (kdf_size (sc_kdf crypto))"
  shows "objectHolds l cek (ref_objectId ref) (ref_snapshot ref) (ref_plaintextLength ref) crypto bs base parts \<longleftrightarrow>
    headerHolds l cek ref crypto bs base \<and> int (length bs) = ol_totalSize l \<and>
    res_mapM (checkedSegment l (ref_plaintextLength ref) nh base bs) [0..ol_nSeg l - 1] = Inr parts"
proof -
  have "0 < ref_plaintextLength ref" "ol_totalSize l = ol_firstBlockOffset l + ref_plaintextLength ref"
    using fitted_arith [OF assms(1)] by simp_all
  then show ?thesis
    by (auto simp: objectHolds_def headerHolds_def headsHold_def checkedSegments_split Let_def simp flip: assms(2))
qed

text \<open>What is left of a stream whose header holds.\<close>

lemma pull_all:
  assumes fit: "fitted l (ref_plaintextLength ref) nh" and nh: "nh = int (kdf_size (sc_kdf crypto))"
    and rs: "ready l (ref_plaintextLength ref) nh base bs rs" and hdr: "headerHolds l cek ref crypto bs base"
  shows "case res_mapM (checkedSegment l (ref_plaintextLength ref) nh base bs) [0..ol_nSeg l - 1] of
      Inr parts \<Rightarrow> if int (length bs) = ol_totalSize l
        then rd_status ((readerPull l ref crypto ^^ (nat (ol_nSeg l) + 1)) rs) = StreamClosed \<and>
          rd_output ((readerPull l ref crypto ^^ (nat (ol_nSeg l) + 1)) rs) = parts
        else failed ((readerPull l ref crypto ^^ (nat (ol_nSeg l) + 1)) rs)
    | Inl _ \<Rightarrow> failed ((readerPull l ref crypto ^^ (nat (ol_nSeg l) + 1)) rs)"
proof -
  let ?n = "ref_plaintextLength ref" and ?f = "readerPull l ref crypto"
  let ?all = "\<forall>i. 0 \<le> i \<and> i < ol_nSeg l \<longrightarrow> blocksUpTo l ?n (i + 1) \<le> int (length bs) \<and> (\<exists>p. checkedSegment l ?n nh base bs i = Inr p)"
  note a = fitted_arith [OF fit]
  note u = blocksUpTo_simps [OF fit]
  have "cacheHolds base base" using hdr deriveSchedule_cacheHolds by (auto simp: headerHolds_def scheduleHolds_def)
  note first = pull_blocks [OF fit refl nh ready_inBlocks [OF fit this rs]]
  have last: "(?f ^^ (nat (ol_nSeg l) + 1)) rs = ?f ((?f ^^ nat (ol_nSeg l)) rs)" by simp
  show ?thesis
  proof (cases ?all)
    case True
    then have b: "inBlocks l ?n nh base bs (ol_nSeg l) ((?f ^^ nat (ol_nSeg l)) rs)" using first by (simp only: if_True)
    then have "res_mapM (checkedSegment l ?n nh base bs) [0..ol_nSeg l - 1] = Inr (rd_output ((?f ^^ nat (ol_nSeg l)) rs))"
      by (simp add: inBlocks_def)
    then show ?thesis using pull_end [OF fit b, of ref crypto] by (simp add: last)
  next
    case False
    then have f: "failed ((?f ^^ nat (ol_nSeg l)) rs)" using first by (simp only: if_False)
    then have f': "failed ((?f ^^ (nat (ol_nSeg l) + 1)) rs)" by (simp add: failed_stays)
    show ?thesis
    proof (cases "res_mapM (checkedSegment l ?n nh base bs) [0..ol_nSeg l - 1]")
      case (Inr parts)
      then have "\<forall>i. 0 \<le> i \<and> i < ol_nSeg l \<longrightarrow> (\<exists>p. checkedSegment l ?n nh base bs i = Inr p)"
        using segments_open_iff by blast
      with False obtain i where i: "0 \<le> i" "i < ol_nSeg l" "\<not> blocksUpTo l ?n (i + 1) \<le> int (length bs)" by blast
      have "blocksUpTo l ?n (i + 1) \<le> ol_totalSize l"
        using i blockLength_bounds(3) [OF fit i(1,2)] a(3) by (simp add: u(4))
      then have "int (length bs) \<noteq> ol_totalSize l" using i(3) by linarith
      with Inr f' show ?thesis by simp
    qed (use f' in simp)
  qed
qed

text \<open>The reader and the opening of whole objects agree on every chunking of every object.\<close>

lemma stream_agrees:
  assumes start: "decryptAttachmentStream cek ref (map Inr chunks) crypto ownsCek = Inr (l, rs)"
  shows "case openObject cek (ref_objectId ref) (concat chunks) (ref_snapshot ref) (ref_plaintextLength ref) crypto of
      Inr plaintext \<Rightarrow> rd_status (readToEnd l ref crypto rs) = StreamClosed \<and> concat (rd_output (readToEnd l ref crypto rs)) = plaintext
    | Inl _ \<Rightarrow> rd_status (readToEnd l ref crypto rs) = StreamErrored AttachmentError"
proof -
  define nh where nh: "nh = int (kdf_size (sc_kdf crypto))"
  let ?n = "ref_plaintextLength ref" and ?bs = "concat chunks" and ?final = "readToEnd l ref crypto rs"
  have l: "layout (objectLayoutParams ?n nh) = Inr l" and cek: "length cek = 32"
    and id: "ref_objectId ref \<noteq> []" "length (ref_objectId ref) \<le> 255"
    and rs: "rd_phase rs = BufferPrefix" "starting ?bs 0 rs" "rd_cek rs = cek"
    using start by (auto simp: decryptAttachmentStream_def res_bind_eq_Inr res_map_eq_Inr readerLayoutParams_def nh
        validateAttachmentRef_def assertCekLength_def CEK_LENGTH_def starting_def feeds_def split: if_splits)
  have fit: "fitted l ?n nh" using layout_fitted(1) [OF l] nh by simp
  have spec: "openObject cek (ref_objectId ref) ?bs (ref_snapshot ref) ?n crypto = Inr plaintext \<longleftrightarrow>
      (\<exists>base parts. headerHolds l cek ref crypto ?bs base \<and> int (length ?bs) = ol_totalSize l \<and>
        res_mapM (checkedSegment l ?n nh base ?bs) [0..ol_nSeg l - 1] = Inr parts \<and> plaintext = concat parts)" for plaintext
    unfolding openObject_iff [OF nh] using cek id l by (auto simp: objectHolds_stream [OF fit nh])
  have "(\<exists>parts. openObject cek (ref_objectId ref) ?bs (ref_snapshot ref) ?n crypto = Inr (concat parts) \<and>
        rd_status ?final = StreamClosed \<and> rd_output ?final = parts) \<or>
      ((\<nexists>plaintext. openObject cek (ref_objectId ref) ?bs (ref_snapshot ref) ?n crypto = Inr plaintext) \<and> failed ?final)"
    using startup [OF rs(1,2) nh l]
  proof (elim disjE conjE exE)
    fix base assume hdr: "headerHolds l (rd_cek rs) ref crypto ?bs base"
      and ready: "ready l ?n nh base ?bs ((readerAdvance l ref crypto ^^ (nat (ol_nEp l) + 5)) rs)"
    have uniq: "headerHolds l cek ref crypto ?bs base' \<Longrightarrow> base' = base" for base'
      using hdr by (auto simp: headerHolds_def scheduleHolds_def rs(3))
    note pulled = pull_all [OF fit nh ready hdr, folded readToEnd_def]
    have spec': "openObject cek (ref_objectId ref) ?bs (ref_snapshot ref) ?n crypto = Inr plaintext \<longleftrightarrow> int (length ?bs) = ol_totalSize l \<and>
        (\<exists>parts. res_mapM (checkedSegment l ?n nh base ?bs) [0..ol_nSeg l - 1] = Inr parts \<and> plaintext = concat parts)" for plaintext
      unfolding spec using hdr uniq rs(3) by blast
    show ?thesis
    proof (cases "res_mapM (checkedSegment l ?n nh base ?bs) [0..ol_nSeg l - 1]")
      case (Inl e)
      then show ?thesis using pulled spec' by simp
    next
      case (Inr parts)
      then show ?thesis using pulled spec' by (cases "int (length ?bs) = ol_totalSize l") simp_all
    qed
  next
    assume "\<nexists>base. headerHolds l (rd_cek rs) ref crypto ?bs base"
      and "failed ((readerAdvance l ref crypto ^^ (nat (ol_nEp l) + 5)) rs)"
    then show ?thesis unfolding spec readToEnd_def rs(3) by (auto simp: failed_iterate failed_stays)
  qed
  then show ?thesis
    by (cases "openObject cek (ref_objectId ref) ?bs (ref_snapshot ref) ?n crypto") (auto simp: failed_def)
qed

end
