(* ===== verification/AttachmentWindows.thy ===== *)
theory AttachmentWindows imports AttachmentReading begin

text \<open>
  Range reads: the ranges asked for cover what the read needs, and a read that is served the slices of
  an object returns the window of its plaintext.
\<close>

section \<open>Ranges\<close>

definition rangeEnd :: "byteRange \<Rightarrow> int" where
  "rangeEnd r = br_offset r + br_length r"

definition covers :: "byteRange \<Rightarrow> byteRange \<Rightarrow> bool" where
  "covers x r \<longleftrightarrow> br_offset x \<le> br_offset r \<and> rangeEnd r \<le> rangeEnd x"

text \<open>The output so far: offsets rise and every range is inside the object.\<close>

definition apart :: "byteRange list \<Rightarrow> bool" where
  "apart out \<longleftrightarrow> sorted_wrt (\<lambda>a b. br_offset a < br_offset b) out"

lemma mergeRange_step:
  assumes "apart out" "out \<noteq> [] \<Longrightarrow> br_offset (last out) \<le> br_offset r" "0 \<le> br_length r" "\<forall>x \<in> set out. 0 \<le> br_length x"
  shows "apart (mergeRange out r)" "br_offset (last (mergeRange out r)) \<le> br_offset r" "mergeRange out r \<noteq> []"
    "\<forall>x \<in> set (mergeRange out r). 0 \<le> br_length x"
    "\<exists>x \<in> set (mergeRange out r). covers x r" "\<And>s. \<exists>x \<in> set out. covers x s \<Longrightarrow> \<exists>x \<in> set (mergeRange out r). covers x s"
    "\<And>m. \<forall>x \<in> set out. rangeEnd x \<le> m \<Longrightarrow> rangeEnd r \<le> m \<Longrightarrow> \<forall>x \<in> set (mergeRange out r). rangeEnd x \<le> m"
    "\<And>m. \<forall>x \<in> set out. m \<le> br_offset x \<Longrightarrow> m \<le> br_offset r \<Longrightarrow> \<forall>x \<in> set (mergeRange out r). m \<le> br_offset x"
proof -
  consider (new) "mergeRange out r = out @ [r]" "out \<noteq> [] \<longrightarrow> rangeEnd (last out) < br_offset r"
    | (joined) p q where "out = p @ [q]" "mergeRange out r = p @ [q\<lparr>br_length := max (rangeEnd q) (rangeEnd r) - br_offset q\<rparr>]"
  proof (cases out rule: rev_cases)
    case Nil
    then show ?thesis by (intro that(1)) (simp_all add: mergeRange_def)
  next
    case (snoc p q)
    show ?thesis
    proof (cases "br_offset r \<le> rangeEnd q")
      case True
      then show ?thesis by (intro that(2) [OF snoc]) (simp add: mergeRange_def rangeEnd_def snoc)
    next
      case False
      then show ?thesis by (intro that(1)) (simp_all add: mergeRange_def rangeEnd_def snoc)
    qed
  qed
  then have "apart (mergeRange out r) \<and> br_offset (last (mergeRange out r)) \<le> br_offset r \<and> mergeRange out r \<noteq> [] \<and>
    (\<forall>x \<in> set (mergeRange out r). 0 \<le> br_length x) \<and>
    (\<exists>x \<in> set (mergeRange out r). covers x r) \<and> (\<forall>s. (\<exists>x \<in> set out. covers x s) \<longrightarrow> (\<exists>x \<in> set (mergeRange out r). covers x s)) \<and>
    (\<forall>m. (\<forall>x \<in> set out. rangeEnd x \<le> m) \<longrightarrow> rangeEnd r \<le> m \<longrightarrow> (\<forall>x \<in> set (mergeRange out r). rangeEnd x \<le> m)) \<and>
    (\<forall>m. (\<forall>x \<in> set out. m \<le> br_offset x) \<longrightarrow> m \<le> br_offset r \<longrightarrow> (\<forall>x \<in> set (mergeRange out r). m \<le> br_offset x))"
  proof cases
    case new
    have "\<forall>x \<in> set out. br_offset x < br_offset r"
    proof (cases out rule: rev_cases)
      case (snoc p q)
      then have "br_offset q < br_offset r" using new(2) assms(4) by (simp add: rangeEnd_def)
      then show ?thesis using assms(1) snoc by (auto simp: apart_def sorted_wrt_append)
    qed simp
    then show ?thesis using new assms(1,3,4) by (auto simp: apart_def sorted_wrt_append covers_def)
  next
    case joined
    have le: "br_offset q \<le> br_offset r" "0 \<le> br_length q" using assms(2,4) joined(1) by auto
    then show ?thesis
      using joined assms(1,3,4) by (auto simp: apart_def sorted_wrt_append covers_def rangeEnd_def)
  qed
  then show "apart (mergeRange out r)" "br_offset (last (mergeRange out r)) \<le> br_offset r" "mergeRange out r \<noteq> []"
    "\<forall>x \<in> set (mergeRange out r). 0 \<le> br_length x"
    "\<exists>x \<in> set (mergeRange out r). covers x r" "\<And>s. \<exists>x \<in> set out. covers x s \<Longrightarrow> \<exists>x \<in> set (mergeRange out r). covers x s"
    "\<And>m. \<forall>x \<in> set out. rangeEnd x \<le> m \<Longrightarrow> rangeEnd r \<le> m \<Longrightarrow> \<forall>x \<in> set (mergeRange out r). rangeEnd x \<le> m"
    "\<And>m. \<forall>x \<in> set out. m \<le> br_offset x \<Longrightarrow> m \<le> br_offset r \<Longrightarrow> \<forall>x \<in> set (mergeRange out r). m \<le> br_offset x"
    by blast+
qed

lemma mergeRanges:
  assumes "sorted (map br_offset rs)" "\<forall>r \<in> set rs. 0 \<le> br_length r \<and> m \<le> br_offset r \<and> rangeEnd r \<le> limit"
    and "apart out" "out \<noteq> [] \<Longrightarrow> rs \<noteq> [] \<Longrightarrow> br_offset (last out) \<le> br_offset (hd rs)"
    and "\<forall>x \<in> set out. 0 \<le> br_length x \<and> m \<le> br_offset x \<and> rangeEnd x \<le> limit"
  shows "apart (foldl mergeRange out rs) \<and> (\<forall>x \<in> set (foldl mergeRange out rs). 0 \<le> br_length x \<and> m \<le> br_offset x \<and> rangeEnd x \<le> limit) \<and>
    (\<forall>s. s \<in> set rs \<or> (\<exists>x \<in> set out. covers x s) \<longrightarrow> (\<exists>x \<in> set (foldl mergeRange out rs). covers x s))"
  using assms
proof (induction rs arbitrary: out)
  case Nil
  then show ?case by simp
next
  case (Cons r rs)
  have "out \<noteq> [] \<Longrightarrow> br_offset (last out) \<le> br_offset r" using Cons.prems(4) by simp
  note step = mergeRange_step [OF Cons.prems(3) this]
  have len: "0 \<le> br_length r" "\<forall>x \<in> set out. 0 \<le> br_length x" using Cons.prems by auto
  note step' = step [OF _ len]
  have "apart (foldl mergeRange (mergeRange out r) rs) \<and>
    (\<forall>x \<in> set (foldl mergeRange (mergeRange out r) rs). 0 \<le> br_length x \<and> m \<le> br_offset x \<and> rangeEnd x \<le> limit) \<and>
    (\<forall>s. s \<in> set rs \<or> (\<exists>x \<in> set (mergeRange out r). covers x s) \<longrightarrow> (\<exists>x \<in> set (foldl mergeRange (mergeRange out r) rs). covers x s))"
  proof (rule Cons.IH)
    show "br_offset (last (mergeRange out r)) \<le> br_offset (hd rs)" if "rs \<noteq> []"
      using step'(2) Cons.prems(1) that by (cases rs) auto
    show "\<forall>x \<in> set (mergeRange out r). 0 \<le> br_length x \<and> m \<le> br_offset x \<and> rangeEnd x \<le> limit"
      using step'(4,7,8) Cons.prems(2,5) by (metis list.set_intros(1))
  qed (use step'(1) Cons.prems(1,2) in auto)
  then show ?case using step'(5,6) by auto
qed

text \<open>The ranges asked for cover every range needed, lie apart and stay inside the object.\<close>

lemma coalesce_covers:
  assumes "\<forall>r \<in> set rs. 0 \<le> br_length r \<and> m \<le> br_offset r \<and> rangeEnd r \<le> limit"
  shows "apart (coalesce rs)" "\<forall>x \<in> set (coalesce rs). 0 \<le> br_length x \<and> m \<le> br_offset x \<and> rangeEnd x \<le> limit"
    "s \<in> set rs \<Longrightarrow> \<exists>x \<in> set (coalesce rs). covers x s"
  using mergeRanges [of "sort_key br_offset rs" m limit "[]"] assms by (auto simp: coalesce_def apart_def)


text \<open>What a plan asks for.\<close>

definition runRange :: "objectLayout \<Rightarrow> int \<Rightarrow> byteRange" where
  "runRange l e = \<lparr>br_offset = ol_metaOffset l + e * 1024 * ol_metaLen l, br_length = (epochEnd l e - e * 1024) * ol_metaLen l\<rparr>"

definition blockRangeOf :: "objectLayout \<Rightarrow> int \<Rightarrow> int \<Rightarrow> byteRange" where
  "blockRangeOf l n i = \<lparr>br_offset = ol_firstBlockOffset l + i * 65536, br_length = blockLength l n i\<rparr>"

definition planned :: "objectLayout \<Rightarrow> int \<Rightarrow> int \<Rightarrow> int \<Rightarrow> byteRange list \<Rightarrow> bool" where
  "planned l n sf sl ranges \<longleftrightarrow> apart ranges \<and> (\<forall>x \<in> set ranges. 0 \<le> br_length x \<and> 0 \<le> br_offset x \<and> rangeEnd x \<le> ol_totalSize l) \<and>
     (\<exists>x \<in> set ranges. covers x \<lparr>br_offset = 0, br_length = ol_metaOffset l\<rparr>) \<and>
     (\<forall>e \<in> {sf div 1024..sl div 1024}. \<exists>x \<in> set ranges. covers x (runRange l e)) \<and>
     (ol_headerSize l < ol_firstBlockOffset l \<longrightarrow>
       (\<exists>x \<in> set ranges. covers x \<lparr>br_offset = ol_headerSize l, br_length = ol_firstBlockOffset l - ol_headerSize l\<rparr>)) \<and>
     (\<forall>i \<in> {sf..sl}. \<exists>x \<in> set ranges. covers x (blockRangeOf l n i))"

lemma runRange_inside:
  assumes fit: "fitted l n nh" and e: "0 \<le> e" "e < ol_nEp l"
  shows "0 \<le> br_length (runRange l e)" "0 \<le> br_offset (runRange l e)" "rangeEnd (runRange l e) = ol_metaOffset l + epochEnd l e * ol_metaLen l"
    "rangeEnd (runRange l e) \<le> ol_headerSize l"
proof -
  note a = fitted_arith [OF fit]
  note b = epochEnd_bounds [OF fit e]
  have m: "0 \<le> ol_metaLen l" using a by simp
  have "0 \<le> (epochEnd l e - e * 1024) * ol_metaLen l" "0 \<le> e * 1024 * ol_metaLen l" using b e m by simp_all
  then show "0 \<le> br_length (runRange l e)" "0 \<le> br_offset (runRange l e)" using a by (simp_all add: runRange_def)
  show "rangeEnd (runRange l e) = ol_metaOffset l + epochEnd l e * ol_metaLen l"
    by (simp add: runRange_def rangeEnd_def left_diff_distrib)
  moreover have "epochEnd l e * ol_metaLen l \<le> ol_nSeg l * ol_metaLen l" using b(2) m by (rule mult_right_mono)
  ultimately show "rangeEnd (runRange l e) \<le> ol_headerSize l" using a(1) by simp
qed

lemma segment_epoch:
  assumes fit: "fitted l n nh" and i: "0 \<le> i" "i < ol_nSeg l"
  shows "0 \<le> i div 1024" "i div 1024 < ol_nEp l" "i div 1024 * 1024 \<le> i" "i < epochEnd l (i div 1024)"
proof -
  have e: "i div 1024 * 1024 \<le> i" "i < (i div 1024 + 1) * 1024" by auto
  then show "0 \<le> i div 1024" "i div 1024 < ol_nEp l" "i div 1024 * 1024 \<le> i" "i < epochEnd l (i div 1024)"
    using i fitted_arith(13) [OF fit] by (auto simp: epochEnd_def)
qed

lemma rangesFor_planned:
  assumes l: "layout (objectLayoutParams n nh) = Inr l" and nh: "0 \<le> nh"
    and r: "rangesFor (objectLayoutParams n nh) offset len = Inr (sf, sl, ranges)"
  shows "0 \<le> offset" "0 < len" "offset + len \<le> n" "sf = offset div 65536" "sl = (offset + len - 1) div 65536"
    "0 \<le> sf" "sf \<le> sl" "sl < ol_nSeg l" "planned l n sf sl ranges"
proof -
  have fit: "fitted l n nh" using layout_fitted(1) [OF l nh] .
  note a = fitted_arith [OF fit]
  let ?runs = "map (\<lambda>e. let first = e * 1024; count = min 1024 (ol_nSeg l - first) in
      \<lparr>br_offset = ol_metaOffset l + first * ol_metaLen l, br_length = count * ol_metaLen l\<rparr>) [sf div 1024..sl div 1024]"
  let ?gap = "if ol_firstBlockOffset l > ol_headerSize l then
      [\<lparr>br_offset = ol_headerSize l, br_length = ol_firstBlockOffset l - ol_headerSize l\<rparr>] else []"
  have p: "lp_segmentMax (objectLayoutParams n nh) = 65536" "lp_epochLength (objectLayoutParams n nh) = 10"
    "lp_plaintextLength (objectLayoutParams n nh) = n" "lp_nh (objectLayoutParams n nh) = nh"
    by (simp_all add: objectLayoutParams_def SEGMENT_MAX_def ATTACHMENT_EPOCH_LENGTH_def)
  obtain blocks where ok: "0 \<le> offset" "0 < len" "offset + len \<le> n" and s: "sf = offset div 65536" "sl = (offset + len - 1) div 65536"
    and blocks: "res_mapM (blockRange l (objectLayoutParams n nh)) [sf..sl] = Inr blocks"
    and ranges: "ranges = coalesce (\<lparr>br_offset = 0, br_length = ol_epochHeadsOffset l + ol_nEp l * nh\<rparr> # ?runs @ ?gap @ blocks)"
    using r by (auto simp: rangesFor_def p l Let_def res_map_eq_Inr epochOf_def split: if_splits)
  have "sf * 65536 \<le> offset" "offset + len - 1 < (sl + 1) * 65536" "sl * 65536 \<le> offset + len - 1" using s by auto
  then have b: "0 \<le> sf" "sf \<le> sl" "sl < ol_nSeg l" using ok s a(5) by (auto intro: zdiv_mono1)
  have bl: "blocks = map (blockRangeOf l n) [sf..sl]"
  proof -
    have "res_mapM (blockRange l (objectLayoutParams n nh)) [sf..sl] = Inr (map (blockRangeOf l n) [sf..sl])"
      using b by (intro res_mapM_Inr) (auto simp: blockRange_eq blockRangeOf_def)
    then show ?thesis using blocks by simp
  qed
  have runs: "?runs = map (runRange l) [sf div 1024..sl div 1024]"
    by (simp add: runRange_def Let_def epochEnd_def min_def distrib_right)
  have eps: "0 \<le> e \<and> e < ol_nEp l" if "e \<in> {sf div 1024..sl div 1024}" for e
    using that segment_epoch(1) [OF fit, of sf] segment_epoch(2) [OF fit, of sl] b by auto
  define needed where "needed = \<lparr>br_offset = 0, br_length = ol_metaOffset l\<rparr> # map (runRange l) [sf div 1024..sl div 1024] @ ?gap @
    map (blockRangeOf l n) [sf..sl]"
  have r': "ranges = coalesce needed" unfolding ranges runs bl needed_def a(11) by (rule refl)
  have inside: "\<forall>r \<in> set needed. 0 \<le> br_length r \<and> 0 \<le> br_offset r \<and> rangeEnd r \<le> ol_totalSize l"
  proof
    fix r assume "r \<in> set needed"
    then consider "r = \<lparr>br_offset = 0, br_length = ol_metaOffset l\<rparr>" | e where "e \<in> {sf div 1024..sl div 1024}" "r = runRange l e"
      | "ol_headerSize l < ol_firstBlockOffset l" "r = \<lparr>br_offset = ol_headerSize l, br_length = ol_firstBlockOffset l - ol_headerSize l\<rparr>"
      | i where "i \<in> {sf..sl}" "r = blockRangeOf l n i"
      by (auto simp: needed_def split: if_splits)
    then show "0 \<le> br_length r \<and> 0 \<le> br_offset r \<and> rangeEnd r \<le> ol_totalSize l"
    proof cases
      case 2
      with eps [OF 2(1)] runRange_inside [OF fit, of e] a show ?thesis by auto
    next
      case 4
      with b block_inside [OF fit, of i] a show ?thesis by (auto simp: blockRangeOf_def rangeEnd_def)
    qed (use a in \<open>auto simp: rangeEnd_def\<close>)
  qed
  note c = coalesce_covers [OF inside, folded r']
  have "planned l n sf sl ranges"
    unfolding planned_def
  proof (intro conjI ballI impI)
    fix e assume "e \<in> {sf div 1024..sl div 1024}"
    then show "\<exists>x \<in> set ranges. covers x (runRange l e)" by (intro c(3)) (simp add: needed_def)
  next
    fix i assume "i \<in> {sf..sl}"
    then show "\<exists>x \<in> set ranges. covers x (blockRangeOf l n i)" by (intro c(3)) (simp add: needed_def)
  qed (use c in \<open>simp_all add: needed_def\<close>)
  with ok s b show "0 \<le> offset" "0 < len" "offset + len \<le> n" "sf = offset div 65536" "sl = (offset + len - 1) div 65536"
    "0 \<le> sf" "sf \<le> sl" "sl < ol_nSeg l" "planned l n sf sl ranges" by simp_all
qed


section \<open>What was served\<close>

text \<open>Every stream hands out, in some chunks, the slice of the object that its range asks for.\<close>

definition served :: "bytes \<Rightarrow> byteRange list \<Rightarrow> source list \<Rightarrow> bool" where
  "served bs ranges streams \<longleftrightarrow>
     list_all2 (\<lambda>r s. \<exists>chunks. s = map Inr chunks \<and> concat chunks = slice bs (br_offset r) (rangeEnd r)) ranges streams"

lemma drainLoop_chunks:
  "received + int (length (concat chunks)) \<le> expected \<Longrightarrow>
   drainLoop expected (map Inr chunks) taken received = Inr (taken @ chunks)"
  by (induction chunks arbitrary: taken received) (auto simp: add.assoc)

lemma drain_served:
  assumes "served bs ranges streams" "\<forall>r \<in> set ranges. 0 \<le> br_offset r \<and> 0 \<le> br_length r \<and> rangeEnd r \<le> int (length bs)"
  shows "res_mapM (\<lambda>(s, range). drainStream s (br_length range)) (zip streams ranges) =
    Inr (map (\<lambda>r. slice bs (br_offset r) (rangeEnd r)) ranges)" "length streams = length ranges"
proof -
  show len: "length streams = length ranges" using assms(1) by (auto simp: served_def dest: list_all2_lengthD)
  show "res_mapM (\<lambda>(s, range). drainStream s (br_length range)) (zip streams ranges) =
    Inr (map (\<lambda>r. slice bs (br_offset r) (rangeEnd r)) ranges)"
    using assms(1,2) unfolding served_def
  proof (induction rule: list_all2_induct)
    case (Cons r ranges s streams)
    then obtain chunks where s: "s = map Inr chunks" "concat chunks = slice bs (br_offset r) (rangeEnd r)" by blast
    have "int (length (concat chunks)) \<le> br_length r"
      using Cons.prems by (simp add: s(2) slice_length rangeEnd_def)
    then have "drainStream s (br_length r) = Inr (slice bs (br_offset r) (rangeEnd r))"
      using s by (simp add: drainStream_def drainLoop_chunks concatAll_def)
    then show ?case using Cons by simp
  qed simp
qed

text \<open>A view of an object: stretches of it by their offset.\<close>

definition viewOf :: "bytes \<Rightarrow> byteRange list \<Rightarrow> sparseView" where
  "viewOf bs ranges = map (\<lambda>r. (br_offset r, slice bs (br_offset r) (rangeEnd r))) ranges"

lemma AList_update_new: "k \<notin> fst ` set al \<Longrightarrow> AList.update k v al = al @ [(k, v)]"
  by (induction al) auto

lemma view_built:
  assumes "apart ranges" "\<forall>r \<in> set ranges. 0 \<le> br_offset r \<and> 0 \<le> br_length r \<and> rangeEnd r \<le> int (length bs)"
    and "\<forall>k \<in> fst ` set view. \<forall>r \<in> set ranges. k < br_offset r"
  shows "res_foldM viewRange view (zip ranges (map (\<lambda>r. slice bs (br_offset r) (rangeEnd r)) ranges)) = Inr (view @ viewOf bs ranges)"
  using assms
proof (induction ranges arbitrary: view)
  case (Cons r ranges)
  have "int (length (slice bs (br_offset r) (rangeEnd r))) = br_length r"
    using Cons.prems(2) by (simp add: slice_length rangeEnd_def)
  moreover have "br_offset r \<notin> fst ` set view" using Cons.prems(3) by auto
  ultimately have step: "viewRange view (r, slice bs (br_offset r) (rangeEnd r)) = Inr (view @ [(br_offset r, slice bs (br_offset r) (rangeEnd r))])"
    by (simp add: viewRange_def AList_update_new)
  have "res_foldM viewRange (view @ [(br_offset r, slice bs (br_offset r) (rangeEnd r))])
      (zip ranges (map (\<lambda>r. slice bs (br_offset r) (rangeEnd r)) ranges)) =
    Inr ((view @ [(br_offset r, slice bs (br_offset r) (rangeEnd r))]) @ viewOf bs ranges)"
    using Cons.prems by (intro Cons.IH) (auto simp: apart_def)
  then show ?case using step by (simp add: viewOf_def)
qed (simp add: viewOf_def)

lemma view_covering:
  assumes "\<exists>x \<in> set ranges. covers x r" "\<forall>r \<in> set ranges. 0 \<le> br_offset r \<and> 0 \<le> br_length r \<and> rangeEnd r \<le> int (length bs)"
  obtains x where "x \<in> set ranges" "covers x r" "viewCovering (viewOf bs ranges) (br_offset r) (rangeEnd r) =
    Some (br_offset x, slice bs (br_offset x) (rangeEnd x))"
proof -
  have len: "br_offset x + int (length (slice bs (br_offset x) (rangeEnd x))) = rangeEnd x" if "x \<in> set ranges" for x
    using assms(2) that by (simp add: slice_length rangeEnd_def)
  have "\<exists>e \<in> set (viewOf bs ranges). (\<lambda>(offset, b). offset \<le> br_offset r \<and> offset + int (length b) \<ge> rangeEnd r) e"
    using assms(1) len by (fastforce simp: viewOf_def covers_def)
  then obtain e where e: "viewCovering (viewOf bs ranges) (br_offset r) (rangeEnd r) = Some e"
    by (cases "viewCovering (viewOf bs ranges) (br_offset r) (rangeEnd r)") (auto simp: viewCovering_def find_None_iff)
  then have "e \<in> set (viewOf bs ranges)" "(\<lambda>(offset, b). offset \<le> br_offset r \<and> offset + int (length b) \<ge> rangeEnd r) e"
    by (auto simp: viewCovering_def find_Some_iff in_set_conv_nth)
  then obtain x where x: "x \<in> set ranges" "e = (br_offset x, slice bs (br_offset x) (rangeEnd x))" and "covers x r"
    using len by (auto simp: viewOf_def covers_def)
  with e that show ?thesis by blast
qed

lemma viewSlice_covered:
  assumes "\<exists>x \<in> set ranges. covers x r" "\<forall>r \<in> set ranges. 0 \<le> br_offset r \<and> 0 \<le> br_length r \<and> rangeEnd r \<le> int (length bs)"
    and "0 \<le> br_length r"
  shows "viewSlice (viewOf bs ranges) (br_offset r) (br_length r) = Inr (slice bs (br_offset r) (rangeEnd r))"
proof -
  obtain x where x: "x \<in> set ranges" "covers x r" and v: "viewCovering (viewOf bs ranges) (br_offset r) (rangeEnd r) =
      Some (br_offset x, slice bs (br_offset x) (rangeEnd x))"
    by (rule view_covering [OF assms(1,2)])
  have "slice (slice bs (br_offset x) (rangeEnd x)) (br_offset r - br_offset x) (rangeEnd r - br_offset x) =
      slice bs (br_offset r) (rangeEnd r)"
    using x assms(2,3) by (subst slice_slice) (auto simp: covers_def rangeEnd_def)
  then show ?thesis using v by (simp add: viewSlice_def rangeEnd_def algebra_simps)
qed

lemma checkGap_covered:
  assumes "planned l n sf sl ranges" "\<forall>r \<in> set ranges. 0 \<le> br_offset r \<and> 0 \<le> br_length r \<and> rangeEnd r \<le> int (length bs)"
    and "isZeroRegion bs (ol_headerSize l) (ol_firstBlockOffset l)"
  shows "checkGap l (viewOf bs ranges) = Inr ()"
proof (cases "ol_headerSize l < ol_firstBlockOffset l")
  case True
  let ?gap = "\<lparr>br_offset = ol_headerSize l, br_length = ol_firstBlockOffset l - ol_headerSize l\<rparr>"
  have "\<exists>x \<in> set ranges. covers x ?gap" using assms(1) True by (simp add: planned_def)
  then obtain x where x: "x \<in> set ranges" "covers x ?gap" and v: "viewCovering (viewOf bs ranges) (ol_headerSize l) (ol_firstBlockOffset l) =
      Some (br_offset x, slice bs (br_offset x) (rangeEnd x))"
    using view_covering [OF _ assms(2), of ?gap] by (auto simp: rangeEnd_def)
  have "isZeroRegion (slice bs (br_offset x) (rangeEnd x)) (ol_headerSize l - br_offset x) (ol_firstBlockOffset l - br_offset x)"
    using x assms(2,3) True by (subst isZeroRegion_shift) (auto simp: covers_def rangeEnd_def)
  then show ?thesis using True v by (simp add: checkGap_def)
qed (simp add: checkGap_def)


section \<open>The read\<close>

lemma fetchRun_put:
  assumes fit: "fitted l n nh" and e: "0 \<le> e" "e < ol_nEp l" and plan: "\<exists>x \<in> set ranges. covers x (runRange l e)"
    and inside: "\<forall>r \<in> set ranges. 0 \<le> br_offset r \<and> 0 \<le> br_length r \<and> rangeEnd r \<le> int (length bs)"
    and bs: "ol_headerSize l \<le> int (length bs)" and md: "int (length md) = ol_nSeg l * ol_metaLen l"
  obtains md' where "fetchRun l (objectLayoutParams n nh) nh (viewOf bs ranges) md e = Inr md'" "length md' = length md"
    "slice md' (e * 1024 * ol_metaLen l) (epochEnd l e * ol_metaLen l) = runAt l bs e"
    "\<And>e'. 0 \<le> e' \<Longrightarrow> e' < ol_nEp l \<Longrightarrow> e' \<noteq> e \<Longrightarrow> slice md' (e' * 1024 * ol_metaLen l) (epochEnd l e' * ol_metaLen l) =
      slice md (e' * 1024 * ol_metaLen l) (epochEnd l e' * ol_metaLen l)"
proof -
  note a = fitted_arith [OF fit]
  have m: "0 \<le> ol_metaLen l" "nh + 16 = ol_metaLen l" using a by simp_all
  note r = runRange_inside [OF fit e]
  have order: "e' * 1024 * ol_metaLen l \<le> epochEnd l e' * ol_metaLen l" "epochEnd l e' * ol_metaLen l \<le> ol_nSeg l * ol_metaLen l"
    "0 \<le> e' * 1024 * ol_metaLen l" if "0 \<le> e'" "e' < ol_nEp l" for e'
    using epochEnd_bounds [OF fit that] that(1) m(1) by (auto intro!: mult_right_mono)
  have run: "slice bs (br_offset (runRange l e)) (rangeEnd (runRange l e)) = runAt l bs e"
    unfolding r(3) by (simp add: runAt_def runRange_def)
  have count: "min 1024 (ol_nSeg l - e * 1024) = epochEnd l e - e * 1024" by (simp add: epochEnd_def min_def distrib_right)
  have "viewSlice (viewOf bs ranges) (br_offset (runRange l e)) (br_length (runRange l e)) = Inr (runAt l bs e)"
    using viewSlice_covered [OF plan inside r(1)] by (simp add: run)
  then have fr: "fetchRun l (objectLayoutParams n nh) nh (viewOf bs ranges) md e = setBytes md (runAt l bs e) (e * 1024 * ol_metaLen l)"
    by (simp add: fetchRun_def objectLayoutParams_def ATTACHMENT_EPOCH_LENGTH_def Let_def m(2) count) (simp add: runRange_def)
  have "length (runAt l bs e) = nat (rangeEnd (runRange l e) - br_offset (runRange l e))"
    unfolding run [symmetric] using r bs by (subst slice_length) (auto simp: rangeEnd_def)
  then have len: "int (length (runAt l bs e)) = epochEnd l e * ol_metaLen l - e * 1024 * ol_metaLen l"
    using r(1,3) order(1) [OF e] by (simp add: runRange_def rangeEnd_def)
  obtain md' where put: "setBytes md (runAt l bs e) (e * 1024 * ol_metaLen l) = Inr md'"
    using setBytes_total [of "e * 1024 * ol_metaLen l" "runAt l bs e" md] order [OF e] len md by auto
  have "slice md' (e * 1024 * ol_metaLen l) (epochEnd l e * ol_metaLen l) = runAt l bs e"
    using len by (intro setBytes_same [OF put]) simp
  moreover have "slice md' (e' * 1024 * ol_metaLen l) (epochEnd l e' * ol_metaLen l) =
      slice md (e' * 1024 * ol_metaLen l) (epochEnd l e' * ol_metaLen l)" if e': "0 \<le> e'" "e' < ol_nEp l" "e' \<noteq> e" for e'
  proof (rule setBytes_other [OF put])
    have "epochEnd l e' * ol_metaLen l \<le> e * 1024 * ol_metaLen l \<or> epochEnd l e * ol_metaLen l \<le> e' * 1024 * ol_metaLen l"
    proof (cases "e' < e")
      case True
      then have "epochEnd l e' \<le> e * 1024" by (auto simp: epochEnd_def)
      then show ?thesis using m(1) by (simp add: mult_right_mono)
    next
      case False
      then have "epochEnd l e \<le> e' * 1024" using e'(3) by (auto simp: epochEnd_def)
      then show ?thesis using m(1) by (simp add: mult_right_mono)
    qed
    then show "epochEnd l e' * ol_metaLen l \<le> e * 1024 * ol_metaLen l \<or>
        e * 1024 * ol_metaLen l + int (length (runAt l bs e)) \<le> e' * 1024 * ol_metaLen l" using len by auto
  qed (use order [OF e'(1,2)] md in auto)
  ultimately show ?thesis using that [of md'] put setBytes_length [OF put] by (simp add: fr)
qed

lemma fetchRuns:
  assumes fit: "fitted l n nh" and es: "\<forall>e \<in> set es. 0 \<le> e \<and> e < ol_nEp l \<and> (\<exists>x \<in> set ranges. covers x (runRange l e))" "distinct es"
    and inside: "\<forall>r \<in> set ranges. 0 \<le> br_offset r \<and> 0 \<le> br_length r \<and> rangeEnd r \<le> int (length bs)"
    and bs: "ol_headerSize l \<le> int (length bs)" and md0: "int (length md0) = ol_nSeg l * ol_metaLen l"
  shows "\<exists>md. res_foldM (fetchRun l (objectLayoutParams n nh) nh (viewOf bs ranges)) md0 es = Inr md \<and> length md = length md0 \<and>
    (\<forall>e \<in> set es. slice md (e * 1024 * ol_metaLen l) (epochEnd l e * ol_metaLen l) = runAt l bs e)"
  using es
proof (induction es rule: rev_induct)
  case Nil
  then show ?case by simp
next
  case (snoc e es)
  then obtain md where md: "res_foldM (fetchRun l (objectLayoutParams n nh) nh (viewOf bs ranges)) md0 es = Inr md" "length md = length md0"
    "\<forall>e \<in> set es. slice md (e * 1024 * ol_metaLen l) (epochEnd l e * ol_metaLen l) = runAt l bs e" by auto
  have e: "0 \<le> e" "e < ol_nEp l" "\<exists>x \<in> set ranges. covers x (runRange l e)" using snoc.prems by auto
  have len: "int (length md) = ol_nSeg l * ol_metaLen l" using md(2) md0 by simp
  obtain md' where put: "fetchRun l (objectLayoutParams n nh) nh (viewOf bs ranges) md e = Inr md'" "length md' = length md"
    "slice md' (e * 1024 * ol_metaLen l) (epochEnd l e * ol_metaLen l) = runAt l bs e"
    and keep: "\<And>e'. 0 \<le> e' \<Longrightarrow> e' < ol_nEp l \<Longrightarrow> e' \<noteq> e \<Longrightarrow> slice md' (e' * 1024 * ol_metaLen l) (epochEnd l e' * ol_metaLen l) =
      slice md (e' * 1024 * ol_metaLen l) (epochEnd l e' * ol_metaLen l)"
    using fetchRun_put [OF fit e inside bs len] by blast
  have "slice md' (e' * 1024 * ol_metaLen l) (epochEnd l e' * ol_metaLen l) = runAt l bs e'" if e': "e' \<in> set es" for e'
  proof -
    have "0 \<le> e'" "e' < ol_nEp l" "e' \<noteq> e" using snoc.prems e' by auto
    then show ?thesis using keep md(3) e' by simp
  qed
  with md put show ?case by (auto simp: res_foldM_append)
qed

text \<open>A leaf inside the run of its epoch.\<close>

lemma leaf_in_run:
  assumes fit: "fitted l n nh" and i: "0 \<le> i" "i < ol_nSeg l" and hs: "ol_headerSize l \<le> int (length bs)" and e: "e = i div 1024"
  shows "e * 1024 * ol_metaLen l \<le> i * ol_metaLen l" "i * ol_metaLen l + ol_metaLen l \<le> epochEnd l e * ol_metaLen l"
    "epochEnd l e * ol_metaLen l \<le> ol_nSeg l * ol_metaLen l" "0 \<le> e * 1024 * ol_metaLen l"
    "slice (runAt l bs e) (i * ol_metaLen l - e * 1024 * ol_metaLen l) (i * ol_metaLen l + ol_metaLen l - e * 1024 * ol_metaLen l) =
      leafBytes l bs i"
proof -
  note a = fitted_arith [OF fit]
  have m: "0 \<le> ol_metaLen l" using a by simp
  note s = segment_epoch [OF fit i, folded e]
  have "(i + 1) * ol_metaLen l \<le> epochEnd l e * ol_metaLen l" using s m by (intro mult_right_mono) auto
  then show o2: "i * ol_metaLen l + ol_metaLen l \<le> epochEnd l e * ol_metaLen l" by (simp add: distrib_right)
  show order: "e * 1024 * ol_metaLen l \<le> i * ol_metaLen l" "epochEnd l e * ol_metaLen l \<le> ol_nSeg l * ol_metaLen l"
    "0 \<le> e * 1024 * ol_metaLen l"
    using s m epochEnd_bounds(2) [OF fit s(1,2)] by (auto intro!: mult_right_mono)
  show "slice (runAt l bs e) (i * ol_metaLen l - e * 1024 * ol_metaLen l) (i * ol_metaLen l + ol_metaLen l - e * 1024 * ol_metaLen l) =
      leafBytes l bs i"
    unfolding runAt_def leafBytes_def using order o2 m hs a(1,8,15) by (subst slice_slice) (linarith | simp add: add.assoc)+
qed

lemma fetchBlocks:
  assumes fit: "fitted l n nh" and plan: "planned l n sf sl ranges" and b: "0 \<le> sf" "sl < ol_nSeg l"
    and inside: "\<forall>r \<in> set ranges. 0 \<le> br_offset r \<and> 0 \<le> br_length r \<and> rangeEnd r \<le> int (length bs)"
    and bs: "int (length bs) = ol_totalSize l" and ctx: "contextOf l n nh base bs md ctx"
    and runs: "\<forall>e \<in> {sf div 1024..sl div 1024}. slice md (e * 1024 * ol_metaLen l) (epochEnd l e * ol_metaLen l) = runAt l bs e"
    and md: "int (length md) = ol_nSeg l * ol_metaLen l"
  shows "tracks (contextOf l n nh base bs md) (res_foldM (fetchBlock l (objectLayoutParams n nh) (viewOf bs ranges)) ([], ctx) [sf..sl])
    (res_mapM (checkedSegment l n nh base bs) [sf..sl])"
proof -
  note a = fitted_arith [OF fit]
  have m: "0 \<le> ol_metaLen l" using a by simp
  have hs: "ol_headerSize l \<le> int (length bs)" using a bs by linarith
  have "fetchBlock l (objectLayoutParams n nh) (viewOf bs ranges) acc i = (\<lambda>(chunks, ctx) i. res_map (\<lambda>(p, ctx'). (chunks @ [p], ctx'))
      (openBlock ctx i (blockAt l n bs i))) acc i" if "i \<in> set [sf..sl]" for acc i
  proof -
    have i: "0 \<le> i" "i < ol_nSeg l" "i \<in> {sf..sl}" using that b by auto
    then have "\<exists>x \<in> set ranges. covers x (blockRangeOf l n i)" using plan by (simp add: planned_def)
    then have "viewSlice (viewOf bs ranges) (ol_firstBlockOffset l + i * 65536) (blockLength l n i) = Inr (blockAt l n bs i)"
      using viewSlice_covered [OF _ inside, of "blockRangeOf l n i"] block_inside(3) [OF fit i(1,2)]
      by (simp add: blockRangeOf_def rangeEnd_def blockAt_def)
    then show ?thesis using i by (cases acc) (simp add: fetchBlock_def segmentLength_eq SEGMENT_MAX_def)
  qed
  then have "res_foldM (fetchBlock l (objectLayoutParams n nh) (viewOf bs ranges)) ([], ctx) [sf..sl] =
      res_foldM (\<lambda>(chunks, ctx) i. res_map (\<lambda>(p, ctx'). (chunks @ [p], ctx')) (openBlock ctx i (blockAt l n bs i))) ([], ctx) [sf..sl]"
    by (rule res_foldM_cong)
  moreover have "tracks (contextOf l n nh base bs md) (openBlock c i (blockAt l n bs i)) (checkedSegment l n nh base bs i)"
    if c: "contextOf l n nh base bs md c" and "i \<in> set [sf..sl]" for c i
  proof -
    have i: "0 \<le> i" "i < ol_nSeg l" using that(2) b by auto
    define e where "e = i div 1024"
    note order = leaf_in_run [OF fit i hs e_def]
    have e: "e \<in> {sf div 1024..sl div 1024}" using that(2) by (auto simp: e_def intro: zdiv_mono1)
    have "slice md (i * ol_metaLen l) (i * ol_metaLen l + ol_metaLen l) =
        slice (slice md (e * 1024 * ol_metaLen l) (epochEnd l e * ol_metaLen l)) (i * ol_metaLen l - e * 1024 * ol_metaLen l)
          (i * ol_metaLen l + ol_metaLen l - e * 1024 * ol_metaLen l)"
      using order(1-4) m md by (subst slice_slice) auto
    also have "\<dots> = leafBytes l bs i" using runs e order(5) by simp
    finally have leaf: "slice md (i * ol_metaLen l) (i * ol_metaLen l + ol_metaLen l) = leafBytes l bs i" .
    have "length (blockAt l n bs i) = nat (blockLength l n i)"
      unfolding blockAt_def using block_inside [OF fit i] bs a by (subst slice_length) auto
    then have "int (length (blockAt l n bs i)) = blockLength l n i" using block_inside(3) [OF fit i] by simp
    then show ?thesis by (rule openBlock_tracks [OF fit i hs _ leaf c])
  qed
  ultimately show ?thesis
    using tracks_foldM_parts [where I = "contextOf l n nh base bs md" and g = "\<lambda>c i. openBlock c i (blockAt l n bs i)" and parts = "[]"
        and h = "checkedSegment l n nh base bs" and xs = "[sf..sl]" and s = ctx] ctx
    by (simp add: res_map_def res_bind_Inr_right)
qed


lemma tracks_InrE:
  assumes "tracks I r (Inr v)"
  obtains st where "r = Inr (v, st)"
  using assms by (cases r) (auto simp: tracks_def)

lemma res_mapM_map: "res_mapM f xs = Inr (map g xs) \<Longrightarrow> x \<in> set xs \<Longrightarrow> f x = Inr (g x)"
  by (induction xs) (auto simp: res_bind_eq_Inr)

text \<open>The range at the front holds the header's prefix.\<close>

lemma planned_front:
  assumes "planned l n sf sl ranges"
  obtains r rest where "ranges = r # rest" "br_offset r = 0" "ol_metaOffset l \<le> rangeEnd r"
proof -
  obtain x where x: "x \<in> set ranges" "covers x \<lparr>br_offset = 0, br_length = ol_metaOffset l\<rparr>"
    using assms by (auto simp: planned_def)
  then obtain r rest where r: "ranges = r # rest" by (cases ranges) auto
  have pos: "\<forall>y \<in> set ranges. 0 \<le> br_offset y" and up: "\<forall>y \<in> set rest. br_offset r < br_offset y"
    using assms r by (auto simp: planned_def apart_def)
  have "br_offset x \<le> 0" "ol_metaOffset l \<le> rangeEnd x" using x(2) by (simp_all add: covers_def rangeEnd_def)
  then have "x = r" using x(1) pos up r by force
  then show ?thesis using that [OF r] \<open>br_offset x \<le> 0\<close> \<open>ol_metaOffset l \<le> rangeEnd x\<close> pos x(1) by force
qed

text \<open>The metadata of the epochs that were fetched, verified.\<close>

lemma window_runs:
  assumes nh: "nh = int (kdf_size (sc_kdf crypto))" and fit: "fitted l n nh" and plan: "planned l n sf sl ranges"
    and sg: "0 \<le> sf" "sf \<le> sl" "sl < ol_nSeg l"
    and inside: "\<forall>r \<in> set ranges. 0 \<le> br_offset r \<and> 0 \<le> br_length r \<and> rangeEnd r \<le> int (length bs)"
    and hs: "ol_headerSize l \<le> int (length bs)" "ol_metaOffset l \<le> int (length bs)" and crypto: "ss_crypto base = crypto"
    and heads: "headsHold l n nh base bs"
  shows "\<exists>md. res_foldM (fetchRun l (objectLayoutParams n nh) nh (viewOf bs ranges)) (replicate (nat (ol_nSeg l * (nh + 16))) 0)
      [sf div 1024..sl div 1024] = Inr md \<and> int (length md) = ol_nSeg l * ol_metaLen l \<and>
    (\<forall>e \<in> {sf div 1024..sl div 1024}. slice md (e * 1024 * ol_metaLen l) (epochEnd l e * ol_metaLen l) = runAt l bs e) \<and>
    res_mapM (verifyEpochRun \<lparr>hc_state = base, hc_prefix = prefixOf l n nh bs, hc_metadata = md\<rparr>) [sf div 1024..sl div 1024] =
      Inr (map (\<lambda>_. ()) [sf div 1024..sl div 1024])"
proof -
  note a = fitted_arith [OF fit]
  have ep: "0 \<le> e \<and> e < ol_nEp l" if "e \<in> {sf div 1024..sl div 1024}" for e
    using that segment_epoch(1) [OF fit, of sf] segment_epoch(2) [OF fit, of sl] sg by auto
  let ?md0 = "replicate (nat (ol_nSeg l * (nh + 16))) 0 :: bytes"
  have "0 \<le> ol_nSeg l * (nh + 16)" using a(6,8) by simp
  then have md0: "int (length ?md0) = ol_nSeg l * ol_metaLen l" using a(9) by simp
  have es: "\<forall>e \<in> set [sf div 1024..sl div 1024]. 0 \<le> e \<and> e < ol_nEp l \<and> (\<exists>x \<in> set ranges. covers x (runRange l e))"
  proof
    fix e assume "e \<in> set [sf div 1024..sl div 1024]"
    then have e: "e \<in> {sf div 1024..sl div 1024}" by simp
    then have "\<exists>x \<in> set ranges. covers x (runRange l e)" using plan unfolding planned_def by blast
    with ep [OF e] show "0 \<le> e \<and> e < ol_nEp l \<and> (\<exists>x \<in> set ranges. covers x (runRange l e))" by blast
  qed
  have "\<exists>md. res_foldM (fetchRun l (objectLayoutParams n nh) nh (viewOf bs ranges)) ?md0 [sf div 1024..sl div 1024] = Inr md \<and> length md = length ?md0 \<and>
      (\<forall>e \<in> set [sf div 1024..sl div 1024]. slice md (e * 1024 * ol_metaLen l) (epochEnd l e * ol_metaLen l) = runAt l bs e)"
    by (rule fetchRuns [OF fit es _ inside hs(1) md0]) simp
  then obtain md where md: "res_foldM (fetchRun l (objectLayoutParams n nh) nh (viewOf bs ranges)) ?md0 [sf div 1024..sl div 1024] = Inr md"
    "int (length md) = ol_nSeg l * ol_metaLen l"
    and runs: "\<forall>e \<in> {sf div 1024..sl div 1024}. slice md (e * 1024 * ol_metaLen l) (epochEnd l e * ol_metaLen l) = runAt l bs e"
    using md0 by auto
  let ?ctx = "\<lparr>hc_state = base, hc_prefix = prefixOf l n nh bs, hc_metadata = md\<rparr>"
  have "verifyEpochRun ?ctx e = Inr ()" if "e \<in> set [sf div 1024..sl div 1024]" for e
    using that ep [of e] runs heads verifyEpochRun_iff [OF fit _ _ hs(2) crypto nh, of e md] by (simp add: headsHold_def)
  then have verified: "res_mapM (verifyEpochRun ?ctx) [sf div 1024..sl div 1024] = Inr (map (\<lambda>_. ()) [sf div 1024..sl div 1024])"
    by (rule res_mapM_Inr)
  with md runs show ?thesis by blast
qed

lemma rangeStart_window:
  assumes nh: "nh = int (kdf_size (sc_kdf crypto))" and l: "layout (objectLayoutParams n nh) = Inr l" and n: "n = int (length plaintext)"
    and holds: "objectHolds l (ar_cek r) (ref_objectId (ar_ref r)) (ref_snapshot (ar_ref r)) n crypto bs base (map (partOf plaintext) [0..ol_nSeg l - 1])"
    and plan: "rangesFor (objectLayoutParams n nh) (ar_offset r) (ar_length r) = Inr (ar_segFirst r, ar_segLast r, ar_ranges r)"
    and served: "served bs (ar_ranges r) streams"
  shows "rangeStart l (objectLayoutParams n nh) r streams crypto = Inr (slice plaintext (ar_offset r) (ar_offset r + ar_length r))"
proof -
  let ?sf = "ar_segFirst r" and ?sl = "ar_segLast r" and ?ranges = "ar_ranges r" and ?view = "viewOf bs (ar_ranges r)"
  have "0 \<le> nh" using nh by simp
  note fit = layout_fitted(1) [OF l this] and p = rangesFor_planned [OF l this plan]
  note a = fitted_arith [OF fit]
  have h: "int (length bs) = ol_totalSize l" "isZeroRegion bs (ol_headerSize l) (ol_firstBlockOffset l)"
    "scheduleHolds (ar_cek r) (ref_objectId (ar_ref r)) crypto bs base" "headsHold l n nh base bs"
    "rootHolds l nh base bs (ref_snapshot (ar_ref r))"
    "res_mapM (openedSegment l n nh base bs) [0..ol_nSeg l - 1] = Inr (map (partOf plaintext) [0..ol_nSeg l - 1])"
    using holds by (simp_all add: objectHolds_def Let_def flip: nh)
  have hs: "ol_headerSize l \<le> int (length bs)" "ol_metaOffset l \<le> int (length bs)" using a h(1) by linarith+
  have inside: "\<forall>r \<in> set ?ranges. 0 \<le> br_offset r \<and> 0 \<le> br_length r \<and> rangeEnd r \<le> int (length bs)"
    using p(9) h(1) by (simp add: planned_def)
  note drained = drain_served [OF served inside]
  have ap: "apart ?ranges" using p(9) by (simp add: planned_def)
  have view: "res_foldM viewRange [] (zip ?ranges (map (\<lambda>r. slice bs (br_offset r) (rangeEnd r)) ?ranges)) = Inr ?view"
    using view_built [OF ap inside, of "[]"] by simp
  obtain r0 rest where front: "?ranges = r0 # rest" "br_offset r0 = 0" "ol_metaOffset l \<le> rangeEnd r0" by (rule planned_front [OF p(9)])
  have prefix: "parsePrefix (slice bs 0 (rangeEnd r0)) n nh = Inr (prefixOf l n nh bs)"
    using front inside nh by (intro parsePrefix_front [OF l]) auto
  have rootOk: "verifyRoot (ar_cek r) (ref_objectId (ar_ref r)) (prefixOf l n nh bs) (ref_snapshot (ar_ref r)) crypto = Inr base"
    using h(3,5) by (simp add: verifyRoot_iff [OF nh])
  have crypto: "ss_crypto base = crypto" and cache: "cacheHolds base base"
    using h(3) deriveSchedule_objectState(1) deriveSchedule_cacheHolds by (auto simp: scheduleHolds_def objectState_def)
  let ?md0 = "replicate (nat (ol_nSeg l * (nh + 16))) 0 :: bytes"
  obtain md where md: "res_foldM (fetchRun l (objectLayoutParams n nh) nh ?view) ?md0 [?sf div 1024..?sl div 1024] = Inr md"
    "int (length md) = ol_nSeg l * ol_metaLen l"
    and runs: "\<forall>e \<in> {?sf div 1024..?sl div 1024}. slice md (e * 1024 * ol_metaLen l) (epochEnd l e * ol_metaLen l) = runAt l bs e"
    and verified: "res_mapM (verifyEpochRun \<lparr>hc_state = base, hc_prefix = prefixOf l n nh bs, hc_metadata = md\<rparr>)
      [?sf div 1024..?sl div 1024] = Inr (map (\<lambda>_. ()) [?sf div 1024..?sl div 1024])"
    using window_runs [OF nh fit p(9,6,7,8) inside hs crypto h(4)] by blast
  let ?ctx = "\<lparr>hc_state = base, hc_prefix = prefixOf l n nh bs, hc_metadata = md\<rparr>"
  have ctx: "contextOf l n nh base bs md ?ctx" using cache by (simp add: contextOf_def)
  have "res_mapM (checkedSegment l n nh base bs) [?sf..?sl] = Inr (map (partOf plaintext) [?sf..?sl])"
  proof (rule res_mapM_Inr)
    fix i assume "i \<in> set [?sf..?sl]"
    then have i: "0 \<le> i" "i < ol_nSeg l" using p(6-8) by auto
    then have "openedSegment l n nh base bs i = Inr (partOf plaintext i)"
      using res_mapM_map [OF h(6), of i] by simp
    then show "checkedSegment l n nh base bs i = Inr (partOf plaintext i)"
      using h(4) i by (simp add: checkedSegment_iff headsHold_def)
  qed
  with fetchBlocks [OF fit p(9) p(6) p(8) inside h(1) ctx runs md(2)]
  have "tracks (contextOf l n nh base bs md) (res_foldM (fetchBlock l (objectLayoutParams n nh) ?view) ([], ?ctx) [?sf..?sl])
    (Inr (map (partOf plaintext) [?sf..?sl]))" by (simp only:)
  then obtain ctx' where
    blocks: "res_foldM (fetchBlock l (objectLayoutParams n nh) ?view) ([], ?ctx) [?sf..?sl] = Inr (map (partOf plaintext) [?sf..?sl], ctx')"
    by (rule tracks_InrE)
  have parts: "concatAll (map (partOf plaintext) [?sf..?sl]) = slice plaintext (?sf * 65536) (min ((?sl + 1) * 65536) n)"
    using parts_concat_range [OF fit [unfolded n] p(6-8)] by (simp add: concatAll_def n)
  have window: "?sf * 65536 \<le> ar_offset r" "ar_offset r + ar_length r \<le> (?sl + 1) * 65536"
    using p(4,5) by auto
  have trimmed: "slice (slice plaintext (?sf * 65536) (min ((?sl + 1) * 65536) n)) (ar_offset r - ?sf * 65536)
      (ar_offset r - ?sf * 65536 + ar_length r) = slice plaintext (ar_offset r) (ar_offset r + ar_length r)"
    using window p(2,3,6) n by (subst slice_slice) auto
  have lp: "lp_plaintextLength (objectLayoutParams n nh) = n" "epochOf (objectLayoutParams n nh) i = i div 1024" for i
    by (simp_all add: objectLayoutParams_def epochOf_def ATTACHMENT_EPOCH_LENGTH_def)
  show ?thesis
    unfolding rangeStart_def Let_def nh [symmetric] lp
    using drained view checkGap_covered [OF p(9) inside h(2)] prefix rootOk md(1) verified blocks parts trimmed
    by (simp add: front(1,2) SEGMENT_MAX_def)
qed

lemma range_window:
  assumes holds: "objectHolds l cek (ref_objectId ref) (ref_snapshot ref) (int (length plaintext)) crypto bs base
      (map (partOf plaintext) [0..ol_nSeg l - 1])"
    and l: "layout (objectLayoutParams (int (length plaintext)) (int (kdf_size (sc_kdf crypto)))) = Inr l"
    and n: "ref_plaintextLength ref = int (length plaintext)"
    and opened: "openAttachmentRange cek ref offset len crypto ownsCek = Inr r" and served: "served bs (ar_ranges r) streams"
  shows "decryptRangeStream r streams crypto = Inr (Inr (slice plaintext offset (offset + len)), wipeCek r)"
proof -
  have r: "ar_cek r = cek" "ar_ref r = ref" "ar_offset r = offset" "ar_length r = len"
    and plan: "rangesFor (objectLayoutParams (int (length plaintext)) (int (kdf_size (sc_kdf crypto)))) offset len =
      Inr (ar_segFirst r, ar_segLast r, ar_ranges r)"
    using opened by (auto simp: openAttachmentRange_def res_bind_eq_Inr res_map_eq_Inr readerLayoutParams_def n split: if_splits)
  have "rangeStart l (objectLayoutParams (int (length plaintext)) (int (kdf_size (sc_kdf crypto)))) r streams crypto =
      Inr (slice plaintext (ar_offset r) (ar_offset r + ar_length r))"
    by (rule rangeStart_window [OF refl l refl _ _ served]) (use holds plan r in simp_all)
  then show ?thesis using l by (simp add: decryptRangeStream_def readerLayoutParams_def r n)
qed

end
