(* ===== verification/AttachmentDigests.thy ===== *)
theory AttachmentDigests imports AttachmentWindows begin

text \<open>
  What a reference pins down: two objects accepted for one reference are the same bytes, unless the
  digests collide.  Also the reference's wire format, the nonces of the segments and the wiping of the
  streaming reader's keys.
\<close>

section \<open>One object for a reference\<close>

text \<open>
  Two objects of one size clash where parts of them that differ have the same digest: the salts and
  heads under the root, the runs of an epoch under its head, or the blocks of a segment.
\<close>

definition digestsClash :: "objectLayout \<Rightarrow> int \<Rightarrow> sealCrypto \<Rightarrow> sealState \<Rightarrow> sealState \<Rightarrow> bytes \<Rightarrow> bytes \<Rightarrow> bool" where
  "digestsClash l n crypto base base' bs bs' \<longleftrightarrow>
     (let heads = slice bs (ol_epochHeadsOffset l) (ol_metaOffset l); heads' = slice bs' (ol_epochHeadsOffset l) (ol_metaOffset l) in
      (slice bs 0 32, heads) \<noteq> (slice bs' 0 32, heads') \<and>
        epochTreeRoot base (ol_nSeg l) heads = epochTreeRoot base' (ol_nSeg l) heads') \<or>
     (\<exists>e \<in> set [0..ol_nEp l - 1]. runAt l bs e \<noteq> runAt l bs' e \<and>
        epochHead base (runAt l bs e) = epochHead base (runAt l bs' e)) \<or>
     (\<exists>i \<in> set [0..ol_nSeg l - 1]. blockAt l n bs i \<noteq> blockAt l n bs' i \<and>
        lh (blockAt l n bs i) (sc_kdf crypto) = lh (blockAt l n bs' i) (sc_kdf crypto))"

definition objectsClash :: "bytes \<Rightarrow> bytes \<Rightarrow> int \<Rightarrow> sealCrypto \<Rightarrow> bytes \<Rightarrow> bytes \<Rightarrow> bool" where
  "objectsClash cek objectId n crypto bs bs' \<longleftrightarrow>
     (case (layout (objectLayoutParams n (int (kdf_size (sc_kdf crypto)))),
         deriveSchedule cek (objectParams crypto (slice bs 0 32)) objectId crypto,
         deriveSchedule cek (objectParams crypto (slice bs' 0 32)) objectId crypto) of
       (Inr l, Inr base, Inr base') \<Rightarrow> digestsClash l n crypto base base' bs bs' | _ \<Rightarrow> False)"

text \<open>An object is its regions in order.\<close>

lemma object_regions:
  assumes fit: "fitted l n nh" and bs: "int (length bs) = ol_totalSize l"
  shows "bs = slice bs 0 32 @ slice bs 32 (32 + nh) @ slice bs (32 + nh) (32 + 2 * nh) @ slice bs (ol_epochHeadsOffset l) (ol_metaOffset l) @
    slice bs (ol_metaOffset l) (ol_headerSize l) @ slice bs (ol_headerSize l) (ol_firstBlockOffset l) @
    slice bs (ol_firstBlockOffset l) (ol_totalSize l)"
proof -
  note a = fitted_arith [OF fit]
  have "slice bs (ol_headerSize l) (ol_firstBlockOffset l) @ slice bs (ol_firstBlockOffset l) (ol_totalSize l) = slice bs (ol_headerSize l) (ol_totalSize l)"
    using a bs by (intro slice_append) auto
  moreover have "slice bs (ol_metaOffset l) (ol_headerSize l) @ slice bs (ol_headerSize l) (ol_totalSize l) = slice bs (ol_metaOffset l) (ol_totalSize l)"
    using a bs by (intro slice_append) auto
  moreover have "slice bs (ol_epochHeadsOffset l) (ol_metaOffset l) @ slice bs (ol_metaOffset l) (ol_totalSize l) = slice bs (32 + 2 * nh) (ol_totalSize l)"
    unfolding a(10) using a bs by (intro slice_append) auto
  moreover have "slice bs (32 + nh) (32 + 2 * nh) @ slice bs (32 + 2 * nh) (ol_totalSize l) = slice bs (32 + nh) (ol_totalSize l)"
    using a bs by (intro slice_append) auto
  moreover have "slice bs 32 (32 + nh) @ slice bs (32 + nh) (ol_totalSize l) = slice bs 32 (ol_totalSize l)"
    using a bs by (intro slice_append) auto
  moreover have "slice bs 0 32 @ slice bs 32 (ol_totalSize l) = slice bs 0 (ol_totalSize l)"
    using a bs by (intro slice_append) auto
  moreover have "slice bs 0 (ol_totalSize l) = bs" unfolding bs [symmetric] by (rule slice_full)
  ultimately show ?thesis by (simp only: append.assoc)
qed

lemma metadata_leaves:
  assumes fit: "fitted l n nh" and bs: "int (length bs) = ol_totalSize l"
  shows "slice bs (ol_metaOffset l) (ol_headerSize l) = concat (map (leafBytes l bs) [0..ol_nSeg l - 1])"
proof -
  note a = fitted_arith [OF fit]
  have "concat (map (\<lambda>i. slice bs (ol_metaOffset l + i * ol_metaLen l) (ol_metaOffset l + i * ol_metaLen l + ol_metaLen l)) [0..ol_nSeg l - 1]) =
      slice bs (ol_metaOffset l + 0 * ol_metaLen l) (ol_metaOffset l + ol_nSeg l * ol_metaLen l)"
    by (rule concat_upto_parts) (use a bs in auto)
  then show ?thesis by (simp add: leafBytes_def [abs_def] a(1))
qed

lemma blocks_concat:
  assumes fit: "fitted l n nh" and bs: "int (length bs) = ol_totalSize l"
  shows "slice bs (ol_firstBlockOffset l) (ol_totalSize l) = concat (map (blockAt l n bs) [0..ol_nSeg l - 1])"
proof -
  note a = fitted_arith [OF fit]
  let ?body = "slice bs (ol_firstBlockOffset l) (ol_totalSize l)"
  have "length ?body = nat n" using a bs by (subst slice_length) auto
  then have len: "int (length ?body) = n" using a by simp
  have "partOf ?body i = blockAt l n bs i" if i: "0 \<le> i" "i < ol_nSeg l" for i
  proof -
    have "partOf ?body i = slice ?body (i * 65536) (i * 65536 + blockLength l n i)"
      by (simp add: partOf_def len blockLength_bounds(4) [OF fit i])
    also have "\<dots> = blockAt l n bs i"
      unfolding blockAt_def using i a bs block_inside [OF fit i] by (subst slice_slice) (auto simp: add.assoc)
    finally show ?thesis .
  qed
  then have parts: "map (partOf ?body) [0..ol_nSeg l - 1] = map (blockAt l n bs) [0..ol_nSeg l - 1]"
    by (intro map_cong) auto
  have "fitted l (int (length ?body)) nh" unfolding len by (rule fit)
  from parts_concat [OF this] show ?thesis unfolding parts ..
qed

lemma segmentLeaf_Inr: "segmentLeaf st x t = Inr leaf \<longleftrightarrow> (\<exists>d. lh x (sc_kdf (ss_crypto st)) = Inr d \<and> leaf = d @ t)"
  by (auto simp: segmentLeaf_def res_map_eq_Inr concatAll_def)

lemma objects_agree:
  assumes nh: "nh = int (kdf_size (sc_kdf crypto))" and l: "layout (objectLayoutParams n nh) = Inr l"
    and h: "objectHolds l cek objectId snapshot n crypto bs base parts" and h': "objectHolds l cek objectId snapshot n crypto bs' base' parts'"
    and none: "\<not> digestsClash l n crypto base base' bs bs'"
  shows "bs = bs'"
proof -
  have "0 \<le> nh" using nh by simp
  note fit = layout_fitted(1) [OF l this]
  note a = fitted_arith [OF fit]
  note H = h [unfolded objectHolds_def Let_def, folded nh] and H' = h' [unfolded objectHolds_def Let_def, folded nh]
  have len: "int (length bs) = ol_totalSize l" "int (length bs') = ol_totalSize l" using H H' by simp_all
  have hs: "ol_headerSize l \<le> int (length bs)" "ol_headerSize l \<le> int (length bs')" using a len by linarith+
  have "(slice bs 0 32, slice bs (ol_epochHeadsOffset l) (ol_metaOffset l)) = (slice bs' 0 32, slice bs' (ol_epochHeadsOffset l) (ol_metaOffset l))"
    using H H' none by (auto simp: digestsClash_def Let_def rootHolds_def)
  then have salt: "slice bs 0 32 = slice bs' 0 32"
    and heads: "slice bs (ol_epochHeadsOffset l) (ol_metaOffset l) = slice bs' (ol_epochHeadsOffset l) (ol_metaOffset l)" by simp_all
  have base: "base' = base" using H H' salt by (simp add: scheduleHolds_def)
  have crypto: "ss_crypto base = crypto" using H deriveSchedule_objectState(1) by (auto simp: scheduleHolds_def objectState_def)
  have runs: "runAt l bs e = runAt l bs' e" if e: "0 \<le> e" "e < ol_nEp l" for e
  proof -
    have "headAt l nh x e = slice (slice x (ol_epochHeadsOffset l) (ol_metaOffset l)) (e * nh) (e * nh + nh)"
      if "ol_headerSize l \<le> int (length x)" for x
      unfolding headAt_def using head_inside [OF fit e] a that e by (subst slice_slice) (auto simp: add.assoc)
    then have "headAt l nh bs e = headAt l nh bs' e" using heads hs by simp
    then have "epochHead base (runAt l bs e) = Inr (headAt l nh bs e)" "epochHead base (runAt l bs' e) = Inr (headAt l nh bs e)"
      using H H' e base by (simp_all add: headsHold_def epochHolds_def)
    then show ?thesis using e none by (auto simp: digestsClash_def)
  qed
  have leaves: "leafBytes l bs i = leafBytes l bs' i" if i: "0 \<le> i" "i < ol_nSeg l" for i
    using leaf_in_run(5) [OF fit i hs(1) refl] leaf_in_run(5) [OF fit i hs(2) refl] runs segment_epoch(1,2) [OF fit i] by metis
  have blocks: "blockAt l n bs i = blockAt l n bs' i" if i: "0 \<le> i" "i < ol_nSeg l" for i
  proof -
    have "tagAt l nh x i = slice (leafBytes l x i) nh (ol_metaLen l)" if "ol_headerSize l \<le> int (length x)" for x
      unfolding tagAt_def leafBytes_def using meta_inside [OF fit i] a that by (subst slice_slice) auto
    then have tags: "tagAt l nh bs i = tagAt l nh bs' i" using leaves [OF i] hs by simp
    have "segmentHolds l n nh base bs i" "segmentHolds l n nh base bs' i" using H H' i base by (simp_all add: headsHold_def)
    then obtain d where "lh (blockAt l n bs i) (sc_kdf crypto) = Inr d" "lh (blockAt l n bs' i) (sc_kdf crypto) = Inr d"
      using leaves [OF i] tags by (auto simp: segmentHolds_def segmentLeaf_Inr crypto)
    then show ?thesis using i none by (auto simp: digestsClash_def)
  qed
  have gap: "slice bs (ol_headerSize l) (ol_firstBlockOffset l) = slice bs' (ol_headerSize l) (ol_firstBlockOffset l)"
  proof -
    have "slice x (ol_headerSize l) (ol_firstBlockOffset l) = replicate (nat (ol_firstBlockOffset l - ol_headerSize l)) 0"
      if "int (length x) = ol_totalSize l" "isZeroRegion x (ol_headerSize l) (ol_firstBlockOffset l)" for x
      using that a by (intro replicate_eqI) (auto simp: slice_length isZeroRegion_slice)
    then show ?thesis using H H' by simp
  qed
  have "slice bs (ol_metaOffset l) (ol_headerSize l) = slice bs' (ol_metaOffset l) (ol_headerSize l)"
    unfolding metadata_leaves [OF fit len(1)] metadata_leaves [OF fit len(2)] using leaves
    by (intro arg_cong [where f = concat] map_cong) auto
  moreover have "slice bs (ol_firstBlockOffset l) (ol_totalSize l) = slice bs' (ol_firstBlockOffset l) (ol_totalSize l)"
    unfolding blocks_concat [OF fit len(1)] blocks_concat [OF fit len(2)] using blocks
    by (intro arg_cong [where f = concat] map_cong) auto
  moreover have "slice bs 32 (32 + nh) = slice bs' 32 (32 + nh)" using H H' base by (simp add: scheduleHolds_def flip: nh)
  moreover have "slice bs (32 + nh) (32 + 2 * nh) = slice bs' (32 + nh) (32 + 2 * nh)" using H H' by (simp add: rootHolds_def)
  ultimately show ?thesis
    using object_regions [OF fit len(1)] object_regions [OF fit len(2)] salt heads gap by simp
qed

lemma accepted_objects_agree:
  assumes "openObject cek objectId bs snapshot n crypto = Inr pt" "openObject cek objectId bs' snapshot n crypto = Inr pt'"
  shows "bs = bs' \<or> objectsClash cek objectId n crypto bs bs'"
proof -
  obtain l base parts base' parts' where l: "layout (objectLayoutParams n (int (kdf_size (sc_kdf crypto)))) = Inr l"
    and h: "objectHolds l cek objectId snapshot n crypto bs base parts" and h': "objectHolds l cek objectId snapshot n crypto bs' base' parts'"
    using assms unfolding openObject_iff [OF refl] by auto
  then have "objectsClash cek objectId n crypto bs bs' \<longleftrightarrow> digestsClash l n crypto base base' bs bs'"
    by (simp add: objectsClash_def objectHolds_def scheduleHolds_def Let_def)
  then show ?thesis using objects_agree [OF refl l h h'] by blast
qed

section \<open>The wire format of references\<close>

interpretation attachmentRef: item_codec "\<lambda>r. wf_uint64 (ref_plaintextLength r)" encodeRefBody decodeRefBody
  unfolding encodeRefBody_def decodeRefBody_def by (rule item_record, (rule codec_intros)+) auto

text \<open>A valid reference is decoded from its encoding and from nothing else.\<close>

lemma decodeAttachmentRef_iff: "decodeAttachmentRef bs = Inr r \<longleftrightarrow> encodeAttachmentRef r = Inr bs"
proof
  assume "decodeAttachmentRef bs = Inr r"
  then have "decodeRefBody bs 0 = Inr (Some (r, length bs))" and "validateAttachmentRef r None = Inr ()"
    by (auto simp: decodeAttachmentRef_def res_map_eq_Inr split: sum.splits option.splits if_splits)
  then show "encodeAttachmentRef r = Inr bs"
    using attachmentRef.decoded_canonical [of 0 bs r "length bs"] by (simp add: encodeAttachmentRef_def)
next
  assume "encodeAttachmentRef r = Inr bs"
  then have e: "encodeRefBody r = Inr bs" and v: "validateAttachmentRef r None = Inr ()"
    by (auto simp: encodeAttachmentRef_def res_bind_eq_Inr)
  have "wf_uint64 (ref_plaintextLength r)"
    using v by (auto simp: validateAttachmentRef_def wf_uint64_def split: if_splits)
  then have "decodeRefBody bs 0 = Inr (Some (r, length bs))" by (rule attachmentRef.decode_encode [OF _ e])
  then show "decodeAttachmentRef bs = Inr r" by (simp add: decodeAttachmentRef_def v)
qed

section \<open>The nonces of a segment\<close>

lemma map2_xor_inj:
  fixes bs :: bytes
  assumes "map2 (XOR) bs xs = map2 (XOR) bs ys" "length xs = length bs" "length ys = length bs"
  shows "xs = ys"
  using assms
proof (induction bs arbitrary: xs ys)
  case (Cons b bs)
  have cancel: "b XOR x = b XOR y \<longleftrightarrow> x = y" for x y :: byte
  proof
    assume "b XOR x = b XOR y"
    then have "b XOR (b XOR x) = b XOR (b XOR y)" by simp
    then show "x = y" by (simp only: xor.assoc [symmetric] bit.xor_self xor.left_neutral)
  qed simp
  obtain x xs' y ys' where xy: "xs = x # xs'" "ys = y # ys'"
    using Cons.prems(2,3) by (cases xs; cases ys) simp_all
  have "b XOR x = b XOR y \<and> map2 (XOR) bs xs' = map2 (XOR) bs ys'" using Cons.prems(1) unfolding xy by simp
  then have "x = y" "xs' = ys'" using Cons.IH [of xs' ys'] Cons.prems(2,3) unfolding cancel xy by simp_all
  then show ?case by (simp add: xy)
qed simp

lemma derivedNonce_inj:
  assumes "derivedNonce nb i f = Inr x" "derivedNonce nb j g = Inr x"
  shows "i = j \<and> f = g"
proof -
  note d = assms [unfolded derivedNonce_Inr]
  let ?m = "2 * i + (if f then 1 else 0)" and ?k = "2 * j + (if g then 1 else 0)"
  have "map2 (XOR) (drop (length nb - 8) nb) (be_bytes 8 ?m) = map2 (XOR) (drop (length nb - 8) nb) (be_bytes 8 ?k)"
    using d by simp
  then have "be_bytes 8 ?m = be_bytes 8 ?k" by (rule map2_xor_inj) (use d in simp_all)
  then have "?m mod 256 ^ 8 = ?k mod 256 ^ 8" using be_int_be_bytes by metis
  then have "?m = ?k" using d by (auto split: if_splits)
  then show ?thesis by (auto split: if_splits) presburger+
qed

text \<open>Two segments of one schedule.\<close>

lemma sealed_nonces_differ:
  assumes mode: "sp_nonceMode (ss_params st) = NONCE_DERIVED" and same: "ss_params st' = ss_params st" "ss_nonceBase st' = ss_nonceBase st"
    and sealed: "sealSegment st i f plaintext given aad = Inr (a, t)" "sealSegment st' j g plaintext' given' aad' = Inr (b, t')"
    and other: "(i, f) \<noteq> (j, g)"
  shows "sg_nonce a \<noteq> sg_nonce b"
proof
  assume eq: "sg_nonce a = sg_nonce b"
  have "segmentNonce st i f given = Inr (sg_nonce a)" "segmentNonce st' j g given' = Inr (sg_nonce b)"
    using sealed by (auto simp: sealSegment_def Let_def res_bind_eq_Inr)
  then obtain nb where "derivedNonce nb i f = Inr (sg_nonce a)" "derivedNonce nb j g = Inr (sg_nonce a)"
    using mode same eq by (auto simp: segmentNonce_def res_bind_eq_Inr split: option.splits if_splits)
  then show False using derivedNonce_inj other by blast
qed

end
