(* ===== verification/AttachmentWiping.thy ===== *)
theory AttachmentWiping imports AttachmentDigests begin

text \<open>
  The lifetime of the keys of the sequential reader: a stream that has ended, failed or been cancelled
  holds zeroed keys only, whatever the order of pulls, startup steps and cancellations.
\<close>

section \<open>Runs of the reader\<close>

inductive readerStep :: "objectLayout \<Rightarrow> attachmentRef \<Rightarrow> sealCrypto \<Rightarrow> readerState \<Rightarrow> readerState \<Rightarrow> bool"
  for l ref crypto where
  advance: "readerStep l ref crypto rs (readerAdvance l ref crypto rs)"
| pull: "readerStep l ref crypto rs (readerPull l ref crypto rs)"
| cancel: "readerStep l ref crypto rs (readerCancel rs)"

inductive readerReaches :: "objectLayout \<Rightarrow> attachmentRef \<Rightarrow> sealCrypto \<Rightarrow> readerState \<Rightarrow> readerState \<Rightarrow> bool"
  for l ref crypto where
  start: "readerReaches l ref crypto rs rs"
| step: "readerReaches l ref crypto rs rs' \<Longrightarrow> readerStep l ref crypto rs' rs'' \<Longrightarrow> readerReaches l ref crypto rs rs''"

lemmas readerReaches_trans = readerReaches.step [OF _ readerStep.advance] readerReaches.step [OF _ readerStep.pull]
  readerReaches.step [OF _ readerStep.cancel]

section \<open>Zeroed keys\<close>

definition allZero :: "bytes \<Rightarrow> bool" where
  "allZero bs \<longleftrightarrow> (\<forall>b \<in> set bs. b = 0)"

definition keysZeroed :: "sealState \<Rightarrow> bool" where
  "keysZeroed s \<longleftrightarrow> ss_wiped s \<and> allZero (ss_payloadKey s) \<and> allZero (ss_snapKey s) \<and>
     (\<forall>nb. ss_nonceBase s = Some nb \<longrightarrow> allZero nb) \<and> ss_epochKeys s = []"

lemma allZero_zeroed [simp]: "allZero (zeroed bs)"
  by (simp add: allZero_def zeroed_def)

lemma keysZeroed_wipe [simp]: "keysZeroed (wipeSealState s)"
  by (auto simp: keysZeroed_def wipeSealState_def)

text \<open>What the latches promise, and the state in which no key is left.\<close>

definition latchesHold :: "readerState \<Rightarrow> bool" where
  "latchesHold rs \<longleftrightarrow> (rd_stateWiped rs \<longrightarrow> (\<exists>s. rd_state rs = Some s \<and> keysZeroed s)) \<and>
     (rd_cekWiped rs \<and> rd_ownsCek rs \<longrightarrow> allZero (rd_cek rs))"

definition readerWiped :: "readerState \<Rightarrow> bool" where
  "readerWiped rs \<longleftrightarrow> latchesHold rs \<and> rd_cekWiped rs \<and> (rd_state rs \<noteq> None \<longrightarrow> rd_stateWiped rs)"

definition readerFresh :: "readerState \<Rightarrow> bool" where
  "readerFresh rs \<longleftrightarrow> rd_status rs = StreamOpen \<and> \<not> rd_stateWiped rs \<and> \<not> rd_cekWiped rs \<and> \<not> rd_cancelled rs"

definition unkeyed :: "startPhase \<Rightarrow> bool" where
  "unkeyed p \<longleftrightarrow> (case p of BufferPrefix \<Rightarrow> True | Deriving _ _ \<Rightarrow> True | _ \<Rightarrow> False)"

definition readerSafe :: "readerState \<Rightarrow> bool" where
  "readerSafe rs \<longleftrightarrow> (unkeyed (rd_phase rs) \<longrightarrow> rd_state rs = None) \<and>
     (readerFresh rs \<or> (rd_status rs \<noteq> StreamOpen \<and> readerWiped rs \<and> (rd_cancelled rs \<or> rd_phase rs = Started)))"

lemma doWipe_wiped: "latchesHold rs \<Longrightarrow> readerWiped (doWipe rs)"
  by (auto simp: doWipe_def Let_def readerWiped_def latchesHold_def split: option.split)

lemma doWipe_more [simp]: "rd_state (doWipe rs) = None \<longleftrightarrow> rd_state rs = None" "rd_cancelled (doWipe rs) = rd_cancelled rs"
  by (auto simp: doWipe_def Let_def split: option.split)

lemma wiped_irrelevant [simp]:
  "readerWiped (rs\<lparr>rd_source := x\<rparr>) = readerWiped rs" "readerWiped (rs\<lparr>rd_status := y\<rparr>) = readerWiped rs"
  "readerWiped (rs\<lparr>rd_phase := z\<rparr>) = readerWiped rs" "readerWiped (rs\<lparr>rd_buffer := b\<rparr>) = readerWiped rs"
  "readerWiped (rs\<lparr>rd_bufferedBytes := n\<rparr>) = readerWiped rs" "readerWiped (rs\<lparr>rd_header := h\<rparr>) = readerWiped rs"
  by (simp_all add: readerWiped_def latchesHold_def)

lemma safe_latches: "readerSafe rs \<Longrightarrow> latchesHold rs"
  by (auto simp: readerSafe_def readerFresh_def readerWiped_def latchesHold_def)

lemma readerFail_safe: "readerSafe rs \<Longrightarrow> readerSafe (readerFail rs)"
  using doWipe_wiped [OF safe_latches, of rs]
  by (auto simp: readerFail_def readerSafe_def readerFresh_def unkeyed_def)

lemma readerCancel_safe: 
  assumes "readerSafe rs"
  shows "readerSafe (readerCancel rs)"
proof -
  have "latchesHold (rs\<lparr>rd_cancelled := True\<rparr>)" using safe_latches [OF assms] by (simp add: latchesHold_def)
  from doWipe_wiped [OF this] assms show ?thesis by (auto simp: readerCancel_def readerSafe_def readerFresh_def)
qed

lemma takeBytes_fedFrom:
  assumes "takeBytes n rs = Inr (bs, rs')"
  shows "fedFrom rs rs'"
proof -
  obtain rs1 where r: "fillBuffer n rs = Inr rs1" and s: "rs' = rs1\<lparr>rd_buffer := snd (takeQueue (nat n) (rd_buffer rs1)),
      rd_bufferedBytes := rd_bufferedBytes rs1 - n\<rparr>"
    using assms by (auto simp: takeBytes_def res_map_eq_Inr Let_def split_beta)
  then obtain src buf m where "rs1 = rs\<lparr>rd_source := src, rd_buffer := buf, rd_bufferedBytes := m\<rparr>"
    by (auto simp: fillBuffer_def res_map_eq_Inr)
  with s have "rs' = rs\<lparr>rd_source := src, rd_buffer := snd (takeQueue (nat n) (rd_buffer rs1)), rd_bufferedBytes := m - n\<rparr>"
    by simp
  then show ?thesis unfolding fedFrom_def by blast
qed

lemma fed_safe: "fedFrom rs rs' \<Longrightarrow> readerSafe rs \<Longrightarrow> readerSafe rs'"
  by (auto simp: fedFrom_def readerSafe_def readerFresh_def)

lemma orFail_safe: "readerSafe rs \<Longrightarrow> (\<And>rs'. r = Inr rs' \<Longrightarrow> readerSafe rs') \<Longrightarrow> readerSafe (orFail rs r)"
  by (cases r) (simp_all add: readerFail_safe)

text \<open>The startup never leaves a phase that has keys for one that has none.\<close>

lemma phase_safe:
  "readerSafe rs \<Longrightarrow> rd_phase rs \<noteq> Started \<Longrightarrow> (unkeyed p \<longrightarrow> unkeyed (rd_phase rs)) \<Longrightarrow> readerSafe (rs\<lparr>rd_phase := p\<rparr>)"
  by (auto simp: readerSafe_def readerFresh_def)

lemma taken_phase_safe:
  assumes "takeBytes n rs = Inr (bs, rs')" "readerSafe rs" "rd_phase rs \<noteq> Started" "unkeyed p \<longrightarrow> unkeyed (rd_phase rs)"
  shows "readerSafe (rs'\<lparr>rd_phase := p\<rparr>)"
  using takeBytes_fedFrom [OF assms(1)] assms(2-) fed_safe fedFrom_fields(1) phase_safe by metis

lemma readerAdvance_safe:
  assumes safe: "readerSafe rs"
  shows "readerSafe (readerAdvance l ref crypto rs)"
proof (cases "rd_phase rs")
  case BufferPrefix
  then show ?thesis using safe
    by (auto simp: readerAdvance_def Let_def res_map_eq_Inr unkeyed_def intro!: orFail_safe taken_phase_safe)
next
  case (Deriving gate head)
  then have none: "rd_state rs = None" using safe by (simp add: readerSafe_def unkeyed_def)
  show ?thesis
  proof (cases gate)
    case (Inl e)
    then show ?thesis using Deriving readerFail_safe [OF safe] by (simp add: readerAdvance_def Let_def)
  next
    case (Inr s)
    have latches: "latchesHold (rs\<lparr>rd_state := Some s\<rparr>)"
      using safe_latches [OF safe] none by (simp add: latchesHold_def)
    show ?thesis
    proof (cases "rd_cancelled rs")
      case True
      then show ?thesis using Deriving Inr doWipe_wiped [OF latches] safe
        by (auto simp: readerAdvance_def Let_def readerSafe_def readerFresh_def unkeyed_def)
    next
      case False
      then show ?thesis using Deriving Inr safe
        by (auto simp: readerAdvance_def Let_def readerSafe_def readerFresh_def unkeyed_def)
    qed
  qed
next
  case (BufferHeads head)
  then show ?thesis using safe
    by (auto simp: readerAdvance_def Let_def res_map_eq_Inr res_bind_eq_Inr unkeyed_def split: option.split
        intro!: orFail_safe taken_phase_safe)
next
  case (BufferRuns prefix metadata e)
  have "readerSafe (rs\<lparr>rd_header := h, rd_phase := SkipGap\<rparr>)" for h
    using safe BufferRuns by (auto simp: readerSafe_def readerFresh_def unkeyed_def)
  then show ?thesis using safe BufferRuns
    by (auto simp: readerAdvance_def Let_def res_map_eq_Inr res_bind_eq_Inr unkeyed_def split: option.split
        intro!: orFail_safe taken_phase_safe)
next
  case SkipGap
  then show ?thesis using safe
    by (auto simp: readerAdvance_def Let_def res_bind_eq_Inr unkeyed_def split: if_splits
        intro!: orFail_safe taken_phase_safe)
next
  case Started
  then show ?thesis using safe by (simp add: readerAdvance_def Let_def)
qed

lemma readerPull_safe:
  assumes safe: "readerSafe rs"
  shows "readerSafe (readerPull l ref crypto rs)"
proof (cases "rd_phase rs = Started \<and> rd_status rs = StreamOpen \<and> rd_header rs \<noteq> None \<and> rd_state rs \<noteq> None")
  case False
  then have "readerPull l ref crypto rs = rs"
    by (auto simp: readerPull_def split: startPhase.split streamStatus.split option.split)
  then show ?thesis using safe by simp
next
  case True
  then obtain prefix metadata s where h: "rd_phase rs = Started" "rd_status rs = StreamOpen"
    "rd_header rs = Some (prefix, metadata)" "rd_state rs = Some s" by auto
  have closed: "readerSafe ((doWipe rs)\<lparr>rd_source := [], rd_status := StreamClosed\<rparr>)"
    using doWipe_wiped [OF safe_latches [OF safe]] h by (auto simp: readerSafe_def unkeyed_def)
  have "readerSafe (rs1\<lparr>rd_state := st, rd_output := out, rd_blockIndex := i\<rparr>)"
    if "takeBytes n rs = Inr (block, rs1)" for n block rs1 st out i
    using safe h fedFrom_fields [OF takeBytes_fedFrom [OF that]] by (simp add: readerSafe_def readerFresh_def unkeyed_def)
  then show ?thesis using safe closed h
    by (auto simp: readerPull_def res_map_eq_Inr res_bind_eq_Inr intro!: orFail_safe readerFail_safe split: if_splits)
qed

lemma readerReaches_safe:
  assumes "readerReaches l ref crypto rs rs'" "readerSafe rs"
  shows "readerSafe rs'"
  using assms
proof (induction rule: readerReaches.induct)
  case (step rs rs' rs'')
  from step.hyps(2) show ?case
    using readerAdvance_safe readerPull_safe readerCancel_safe step by (cases rule: readerStep.cases) auto
qed

lemma stream_starts_safe: "decryptAttachmentStream cek ref source crypto ownsCek = Inr (l, rs) \<Longrightarrow> readerSafe rs"
  by (auto simp: decryptAttachmentStream_def res_bind_eq_Inr res_map_eq_Inr readerSafe_def readerFresh_def split: if_splits)

lemma ended_stream_keeps_no_key:
  assumes "decryptAttachmentStream cek ref source crypto ownsCek = Inr (l, rs)" "readerReaches l ref crypto rs rs'"
    and "rd_status rs' \<noteq> StreamOpen"
  shows "(rd_ownsCek rs' \<longrightarrow> allZero (rd_cek rs')) \<and> (\<forall>s. rd_state rs' = Some s \<longrightarrow> keysZeroed s)"
  using readerReaches_safe [OF assms(2) stream_starts_safe [OF assms(1)]] assms(3)
  by (auto simp: readerSafe_def readerFresh_def readerWiped_def latchesHold_def)

end
