(* ===== verification/AttachmentDelivery.thy ===== *)
theory AttachmentDelivery imports AttachmentWiping begin

text \<open>
  The way of an attachment from the member that seals it to the readers of the others: the content key
  both derive from the epoch, the chunks of the sealed object, and what each reader gets out of them.
\<close>

section \<open>Content keys exist\<close>

definition expandOk :: "kdfImpl \<Rightarrow> bool" where
  "expandOk kdf \<longleftrightarrow> kdf_size kdf \<le> 65535 \<and> (\<forall>prk info n. 0 \<le> n \<longrightarrow> length (kdf_expand kdf prk info n) = nat n)"

lemma encodeVarLenData_Inr: "length d < 1073741824 \<Longrightarrow> \<exists>h. encodeVarLenData d = Inr (h @ d) \<and> length h \<le> 4"
  by (auto simp: encodeVarLenData_def encodeLength_def Let_def)

lemma encodeUint16_Inr: "0 \<le> n \<Longrightarrow> n \<le> 65535 \<Longrightarrow> encodeUint16 n = Inr (be_bytes 2 n)"
  by (simp add: encodeUint16_def assertUintRange_def del: be_bytes.simps)

lemma exporterChild_Inr:
  assumes "expandOk kdf"
  obtains node' where "exporterChild kdf c node i = Inr node'"
proof -
  define side where "side = (if js_and (js_shr c i) 1 \<noteq> 0 then ''right'' else ''left'')"
  have "length (ascii (''MLS 1.0 '' @ ''tree'')) < 1073741824" "length (ascii side) < 1073741824"
    by (simp_all add: ascii_def side_def)
  then obtain l x where "encodeVarLenData (ascii (''MLS 1.0 '' @ ''tree'')) = Inr l" "encodeVarLenData (ascii side) = Inr x"
    using encodeVarLenData_Inr by metis
  then have "\<exists>node'. expandWithLabel node ''tree'' (ascii side) (int (kdf_size kdf)) kdf = Inr node'"
    using assms by (auto simp: expandWithLabel_def kdfLabel_def expandOk_def encodeUint16_Inr)
  then show ?thesis using that by (auto simp: exporterChild_def Let_def side_def)
qed

lemma exporter_foldM: "expandOk kdf \<Longrightarrow> \<exists>node'. res_foldM (exporterChild kdf c) node is = Inr node'"
proof (induction "is" arbitrary: node)
  case (Cons i "is")
  then show ?case using exporterChild_Inr [of kdf c node i] by (metis res_foldM.simps(2) res_bind_Inr)
qed simp

lemma operationLabel_Inr: "\<exists>label. componentOperationLabel ATTACHMENT_COMPONENT_ID ''attachment'' = Inr label \<and> length label \<le> 40"
proof -
  have small: "\<exists>h. encodeVarLenData d = Inr (h @ d) \<and> length h \<le> 4" if "length d \<le> 255" for d
    using encodeVarLenData_Inr [of d] that by simp
  have len: "length (ascii ''MLS Component'') = 13" "length (ascii ''attachment'') = 10" by (simp_all add: ascii_def)
  obtain a b where "encodeVarLenData (ascii ''MLS Component'') = Inr (a @ ascii ''MLS Component'')" "length a \<le> 4"
    "encodeVarLenData (ascii ''attachment'') = Inr (b @ ascii ''attachment'')" "length b \<le> 4"
    using small [of "ascii ''MLS Component''"] small [of "ascii ''attachment''"] len by auto
  then show ?thesis
    using len by (simp add: componentOperationLabel_def ATTACHMENT_COMPONENT_ID_def encodeUint16_Inr del: be_bytes.simps)
qed

lemma attachmentCek_exists:
  assumes kdf: "expandOk kdf" and root: "length (ks_applicationExportSecret ks) = kdf_size kdf"
    and id: "objectId \<noteq> []" "length objectId \<le> 255"
  obtains cek where "attachmentCek ks objectId kdf None = Inr cek" "length cek = 32"
proof -
  obtain secret where s: "safeExportSecret (ks_applicationExportSecret ks) ATTACHMENT_COMPONENT_ID kdf = Inr secret"
    using exporter_foldM [OF kdf, of ATTACHMENT_COMPONENT_ID "ks_applicationExportSecret ks" "rev [0..15]"]
    by (auto simp: safeExportSecret_def ATTACHMENT_COMPONENT_ID_def)
  obtain label where l: "componentOperationLabel ATTACHMENT_COMPONENT_ID ''attachment'' = Inr label" "length label \<le> 40"
    using operationLabel_Inr by blast
  have "length (ascii ''MLS 1.0 '' @ label) < 1073741824" "length objectId < 1073741824" using l(2) id(2) by (simp_all add: ascii_def)
  then obtain x y where "encodeVarLenData (ascii ''MLS 1.0 '' @ label) = Inr x" "encodeVarLenData objectId = Inr y"
    using encodeVarLenData_Inr by metis
  then obtain cek where "expandWithLabelBytes secret label objectId 32 kdf = Inr cek" "length cek = 32"
    using kdf by (auto simp: expandWithLabelBytes_def encodeUint16_Inr expandOk_def simp del: be_bytes.simps)
  then have "attachmentCek ks objectId kdf None = Inr cek" using root id s l(1) by (simp add: attachmentCek_def Let_def CEK_LENGTH_def)
  then show ?thesis using that \<open>length cek = 32\<close> by blast
qed

section \<open>What is sealed is read\<close>

lemma holds_snapshot:
  assumes "objectHolds l cek objectId snapshot n crypto bs base parts"
    and "layout (objectLayoutParams n (int (kdf_size (sc_kdf crypto)))) = Inr l"
  shows "length snapshot = kdf_size (sc_kdf crypto)"
proof -
  have "int (length bs) = ol_totalSize l" "slice bs (32 + int (kdf_size (sc_kdf crypto))) (32 + 2 * int (kdf_size (sc_kdf crypto))) = snapshot"
    using assms(1) by (auto simp: objectHolds_def rootHolds_def Let_def)
  moreover from fitted_arith [OF layout_fitted(1) [OF assms(2)]]
  have "32 + 2 * int (kdf_size (sc_kdf crypto)) \<le> ol_totalSize l" by simp
  ultimately show ?thesis using slice_length [of "32 + int (kdf_size (sc_kdf crypto))" "32 + 2 * int (kdf_size (sc_kdf crypto))" bs]
    by simp
qed

text \<open>The readable stream hands out the object.\<close>

lemma readableChunks_concat: "0 \<le> offset \<Longrightarrow> concat (readableChunks bs offset) = drop (nat offset) bs"
proof (induction bs offset rule: readableChunks.induct)
  case (1 bs offset)
  show ?case
  proof (cases "offset < int (length bs)")
    case False
    then show ?thesis by (simp add: readableChunks.simps [of bs offset])
  next
    case True
    let ?part = "slice bs offset (min (offset + SEGMENT_MAX) (int (length bs)))"
    have part: "?part = take (length ?part) (drop (nat offset) bs)"
      using True 1(2) by (simp add: slice_in SEGMENT_MAX_def)
    have "concat (readableChunks bs offset) = ?part @ drop (nat (offset + int (length ?part))) bs"
      using True 1 by (subst readableChunks.simps) simp
    also have "nat (offset + int (length ?part)) = length ?part + nat offset" using 1(2) by simp
    also have "drop (length ?part + nat offset) bs = drop (length ?part) (drop (nat offset) bs)" by simp
    finally show ?thesis using part by (metis append_take_drop_id)
  qed
qed

lemma readable_concat: "concat (readableChunks bs 0) = bs"
  using readableChunks_concat [of 0 bs] by simp

text \<open>The facts about a sealed attachment that its readers rest on.\<close>

lemma encryptAttachment_holds:
  assumes ok: "sealCryptoOk crypto" and cek: "length cek = 32" and id: "objectId \<noteq> []" "length objectId \<le> 255"
    and pt: "plaintext \<noteq> []" "int (length plaintext) \<le> 2 ^ 47" and salt: "length salt = 32"
  obtains ea l base where "encryptAttachment cek objectId plaintext crypto salt locator = Inr ea"
    "ref_version (ea_reference ea) = 1" "ref_objectId (ea_reference ea) = objectId"
    "ref_plaintextLength (ea_reference ea) = int (length plaintext)"
    "layout (objectLayoutParams (int (length plaintext)) (int (kdf_size (sc_kdf crypto)))) = Inr l"
    "objectHolds l cek objectId (ref_snapshot (ea_reference ea)) (int (length plaintext)) crypto (ea_bytes ea) base
      (map (partOf plaintext) [0..ol_nSeg l - 1])"
    "length (ref_snapshot (ea_reference ea)) = kdf_size (sc_kdf crypto)" "concat (ea_readable ea) = ea_bytes ea"
proof -
  obtain so l base where so: "sealObject cek objectId plaintext crypto salt = Inr so"
    and l: "layout (objectLayoutParams (int (length plaintext)) (int (kdf_size (sc_kdf crypto)))) = Inr l"
    and h: "objectHolds l cek objectId (so_snapshot so) (int (length plaintext)) crypto (so_bytes so) base
      (map (partOf plaintext) [0..ol_nSeg l - 1])"
    using sealObject_holds [OF assms] by metis
  define ea where "ea = \<lparr>ea_readable = readableChunks (so_bytes so) 0,
    ea_reference = \<lparr>ref_version = 1, ref_objectId = objectId, ref_plaintextLength = int (length plaintext),
      ref_snapshot = so_snapshot so, ref_locator = (case locator of Some b \<Rightarrow> b | None \<Rightarrow> [])\<rparr>,
    ea_bytes = so_bytes so\<rparr>"
  have e: "encryptAttachment cek objectId plaintext crypto salt locator = Inr ea"
    using so by (simp add: encryptAttachment_def ea_def)
  show ?thesis
    by (rule that [OF e _ _ _ l]) (use h holds_snapshot [OF h l] readable_concat [of "so_bytes so"] in \<open>simp_all add: ea_def\<close>)
qed

lemma delivered_stream:
  assumes crypto: "sealCryptoFromCiphersuite cs = Inr crypto" and ok: "sealCryptoOk crypto" and size: "kdf_size (cs_kdf cs) \<le> 65535"
    and root: "length (ks_applicationExportSecret ks) = kdf_size (cs_kdf cs)"
    and id: "objectId \<noteq> []" "length objectId \<le> 255" and pt: "plaintext \<noteq> []" "int (length plaintext) \<le> 2 ^ 47"
    and salt: "length salt = 32"
  shows "\<exists>ea. encryptAttachmentForGroup ks objectId plaintext cs salt locator = Inr ea \<and> concat (ea_readable ea) = ea_bytes ea \<and>
     (\<forall>chunks. concat chunks = ea_bytes ea \<longrightarrow>
       (\<exists>l rs. decryptAttachmentStreamForGroup ks (ea_reference ea) (map Inr chunks) cs = Inr (l, rs) \<and>
          rd_status (readToEnd l (ea_reference ea) crypto rs) = StreamClosed \<and>
          concat (rd_output (readToEnd l (ea_reference ea) crypto rs)) = plaintext))"
proof -
  have kdf: "sc_kdf crypto = cs_kdf cs" using crypto by (auto simp: sealCryptoFromCiphersuite_def res_map_eq_Inr)
  then have "expandOk (cs_kdf cs)" using ok size by (simp add: sealCryptoOk_def expandOk_def)
  from attachmentCek_exists [OF this root id] obtain cek
    where cek: "attachmentCek ks objectId (cs_kdf cs) None = Inr cek" "length cek = 32" by blast
  obtain ea l base where ea: "encryptAttachment cek objectId plaintext crypto salt locator = Inr ea"
    and ref: "ref_version (ea_reference ea) = 1" "ref_objectId (ea_reference ea) = objectId"
      "ref_plaintextLength (ea_reference ea) = int (length plaintext)"
    and l: "layout (objectLayoutParams (int (length plaintext)) (int (kdf_size (sc_kdf crypto)))) = Inr l"
    and h: "objectHolds l cek objectId (ref_snapshot (ea_reference ea)) (int (length plaintext)) crypto (ea_bytes ea) base
      (map (partOf plaintext) [0..ol_nSeg l - 1])"
    and snap: "length (ref_snapshot (ea_reference ea)) = kdf_size (sc_kdf crypto)" and chunks: "concat (ea_readable ea) = ea_bytes ea"
    using encryptAttachment_holds [OF ok cek(2) id pt salt] by metis
  have sealed: "encryptAttachmentForGroup ks objectId plaintext cs salt locator = Inr ea"
    using ea cek(1) crypto by (simp add: encryptAttachmentForGroup_def)
  have opened: "openObject cek objectId (ea_bytes ea) (ref_snapshot (ea_reference ea)) (int (length plaintext)) crypto = Inr plaintext"
    unfolding openObject_iff [OF refl] using cek(2) id l h parts_concat [OF layout_fitted(1) [OF l], symmetric]
    by (intro conjI exI [of _ l] exI [of _ base] exI [of _ "map (partOf plaintext) [0..ol_nSeg l - 1]"]) auto
  have id1: "1 \<le> length objectId" using id(1) by (cases objectId) simp_all
  have started: "\<exists>rs. decryptAttachmentStreamForGroup ks (ea_reference ea) (map Inr cs') cs = Inr (l, rs) \<and>
      decryptAttachmentStream cek (ea_reference ea) (map Inr cs') crypto True = Inr (l, rs)" for cs'
    using cek crypto id pt id1 l ref snap
    by (simp add: decryptAttachmentStreamForGroup_def decryptAttachmentStream_def validateAttachmentRef_def
        ATTACHMENT_REF_VERSION_def assertCekLength_def CEK_LENGTH_def readerLayoutParams_def)
  show ?thesis
  proof (intro exI [of _ ea] conjI allI impI sealed chunks)
    fix cs' assume c: "concat cs' = ea_bytes ea"
    obtain rs where rs: "decryptAttachmentStreamForGroup ks (ea_reference ea) (map Inr cs') cs = Inr (l, rs)"
      "decryptAttachmentStream cek (ea_reference ea) (map Inr cs') crypto True = Inr (l, rs)" using started by blast
    from stream_agrees [OF rs(2)] show "\<exists>l rs. decryptAttachmentStreamForGroup ks (ea_reference ea) (map Inr cs') cs = Inr (l, rs) \<and>
          rd_status (readToEnd l (ea_reference ea) crypto rs) = StreamClosed \<and>
          concat (rd_output (readToEnd l (ea_reference ea) crypto rs)) = plaintext"
      using rs(1) opened by (auto simp: c ref)
  qed
qed

text \<open>A range is planned exactly where it lies inside the plaintext.\<close>

lemma rangesFor_exists:
  assumes l: "layout (objectLayoutParams n nh) = Inr l" and nh: "0 \<le> nh"
    and range: "0 \<le> offset" "0 < len" "offset + len \<le> n"
  shows "\<exists>sf sl ranges. rangesFor (objectLayoutParams n nh) offset len = Inr (sf, sl, ranges)"
proof -
  note fit = layout_fitted [OF l nh]
  have p: "lp_segmentMax (objectLayoutParams n nh) = 65536" "lp_plaintextLength (objectLayoutParams n nh) = n"
    by (simp_all add: objectLayoutParams_def SEGMENT_MAX_def)
  have "(offset + len - 1) div 65536 < ol_nSeg l" using fitted_arith(5) [OF fit(1)] range by (simp add: div_less_iff_less_mult)
  then have "res_mapM (blockRange l (objectLayoutParams n nh)) [offset div 65536..(offset + len - 1) div 65536] =
      Inr (map (blockRangeOf l n) [offset div 65536..(offset + len - 1) div 65536])"
    using range by (intro res_mapM_Inr) (auto simp: blockRange_eq blockRangeOf_def intro: order_trans)
  moreover have "isSafeInteger offset" "isSafeInteger len" using range fit(3) by (auto simp: isSafeInteger_def)
  ultimately show ?thesis using range l by (simp add: rangesFor_def p Let_def)
qed

lemma sealed_window:
  assumes ok: "sealCryptoOk crypto" and cek: "length cek = 32" and id: "objectId \<noteq> []" "length objectId \<le> 255"
    and pt: "plaintext \<noteq> []" "int (length plaintext) \<le> 2 ^ 47" and salt: "length salt = 32"
    and sealed: "encryptAttachment cek objectId plaintext crypto salt locator = Inr ea"
    and range: "0 \<le> offset" "0 < len" "offset + len \<le> int (length plaintext)"
  shows "\<exists>r. openAttachmentRange cek (ea_reference ea) offset len crypto ownsCek = Inr r \<and>
    (\<forall>streams. served (ea_bytes ea) (ar_ranges r) streams \<longrightarrow>
      decryptRangeStream r streams crypto = Inr (Inr (slice plaintext offset (offset + len)), wipeCek r))"
proof -
  obtain ea' l base where ea: "encryptAttachment cek objectId plaintext crypto salt locator = Inr ea'"
    and ref: "ref_version (ea_reference ea') = 1" "ref_objectId (ea_reference ea') = objectId"
      "ref_plaintextLength (ea_reference ea') = int (length plaintext)"
    and l: "layout (objectLayoutParams (int (length plaintext)) (int (kdf_size (sc_kdf crypto)))) = Inr l"
    and h: "objectHolds l cek objectId (ref_snapshot (ea_reference ea')) (int (length plaintext)) crypto (ea_bytes ea') base
      (map (partOf plaintext) [0..ol_nSeg l - 1])"
    and snap: "length (ref_snapshot (ea_reference ea')) = kdf_size (sc_kdf crypto)"
    using encryptAttachment_holds [OF ok cek id pt salt] by metis
  have same: "ea' = ea" using ea sealed by simp
  have id1: "1 \<le> length objectId" using id(1) by (cases objectId) simp_all
  obtain sf sl ranges where
    "rangesFor (objectLayoutParams (int (length plaintext)) (int (kdf_size (sc_kdf crypto)))) offset len = Inr (sf, sl, ranges)"
    using rangesFor_exists [OF l _ range] by auto
  then obtain r where r: "openAttachmentRange cek (ea_reference ea) offset len crypto ownsCek = Inr r"
    using ref snap id1 cek id pt range unfolding same
    by (auto simp: openAttachmentRange_def validateAttachmentRef_def ATTACHMENT_REF_VERSION_def assertCekLength_def
        CEK_LENGTH_def isSafeInteger_def readerLayoutParams_def)
  moreover have "decryptRangeStream r streams crypto = Inr (Inr (slice plaintext offset (offset + len)), wipeCek r)"
    if "served (ea_bytes ea) (ar_ranges r) streams" for streams
    using range_window [OF _ l _ r that] h ref unfolding same by simp
  ultimately show ?thesis by blast
qed

end
