(* ===== verification/AttachmentProperties.thy ===== *)
theory AttachmentProperties imports AttachmentDelivery Examples begin

text \<open>
  The properties of attachments, and a concrete ciphersuite on which they are seen to hold.
\<close>

section \<open>A concrete ciphersuite\<close>

definition exSealKdf :: kdfImpl where
  "exSealKdf = \<lparr>kdf_extract = (\<lambda>salt ikm. take 32 (ikm @ replicate 32 0)),
     kdf_expand = (\<lambda>prk info n. replicate (nat n) 3), kdf_size = 32\<rparr>"

definition exSealSuite :: "(unit, unit, unit) ciphersuiteImpl" where
  "exSealSuite = exSuite\<lparr>cs_kdf := exSealKdf, cs_hpke := exHpke\<lparr>hpke_encryptAead := (\<lambda>k n a m. m @ replicate 16 0),
     hpke_decryptAead := (\<lambda>k n a c. Inr (take (length c - 16) c)), hpke_keyLength := 16, hpke_nonceLength := 12\<rparr>\<rparr>"

definition exSealCrypto :: sealCrypto where
  "exSealCrypto = \<lparr>sc_encrypt = (\<lambda>k n a m. m @ replicate 16 0), sc_decrypt = (\<lambda>k n a c. Inr (take (length c - 16) c)),
     sc_kdf = exSealKdf, sc_hash = exHash, sc_aeadId = 1, sc_kdfId = 1, sc_keyLength = 16, sc_nonceLength = 12, sc_tagLength = 16\<rparr>"

definition exCek :: bytes where "exCek = replicate 32 7"
definition exSalt :: bytes where "exSalt = replicate 32 9"

lemma exSealKdf_extract: "length (kdf_extract exSealKdf salt ikm) = 32"
  by (auto simp: exSealKdf_def)

lemma exSeal_ok: "sealCryptoOk exSealCrypto" "kdf_size (cs_kdf exSealSuite) = 32" "kdf_size (sc_kdf exSealCrypto) = 32"
  "length exCek = 32" "length exSalt = 32"
  using exSealKdf_extract
  by (simp_all add: sealCryptoOk_def exSealCrypto_def exSealSuite_def exSuite_def exCek_def exSalt_def) (simp_all add: exSealKdf_def)

lemma exSeal_suite: "sealCryptoFromCiphersuite exSealSuite = Inr exSealCrypto"
  by (simp add: sealCryptoFromCiphersuite_def exSealSuite_def exSealCrypto_def exSuite_def exHpke_def getCiphersuiteFromName_def
      ciphersuites_def getCiphersuiteFromId_def ciphersuiteValues_def AEAD_IDS_def KDF_IDS_def)

definition exSchedule :: keySchedule where
  "exSchedule = \<lparr>ks_initSecret = [], ks_senderDataSecret = [], ks_exporterSecret = [], ks_externalSecret = [],
     ks_confirmationKey = [], ks_membershipKey = [], ks_resumptionPsk = [], ks_epochAuthenticator = [],
     ks_applicationExportSecret = replicate 32 5\<rparr>"

definition exPlaintext :: bytes where "exPlaintext = [1, 2, 3, 4, 5]"
definition exObjectId :: bytes where "exObjectId = [4, 2]"

lemma exInputs: "exObjectId \<noteq> []" "length exObjectId \<le> 255" "exPlaintext \<noteq> []" "int (length exPlaintext) \<le> 2 ^ 47"
  by (simp_all add: exObjectId_def exPlaintext_def)

section \<open>From the sealing member to the others\<close>

text \<open>C7: An attachment that a member seals for its group is opened by every member of the epoch: both derive
  the same content key, the object is what the readable stream hands out, and however the object is cut
  into chunks, the streaming reader ends with exactly the plaintext.\<close>

theorem attachment_delivered:
  assumes "sealCryptoFromCiphersuite cs = Inr crypto" "sealCryptoOk crypto" "kdf_size (cs_kdf cs) \<le> 65535"
    and "length (ks_applicationExportSecret ks) = kdf_size (cs_kdf cs)"
    and "objectId \<noteq> []" "length objectId \<le> 255" "plaintext \<noteq> []" "int (length plaintext) \<le> 2 ^ 47" "length salt = 32"
  shows "\<exists>ea. encryptAttachmentForGroup ks objectId plaintext cs salt locator = Inr ea \<and> concat (ea_readable ea) = ea_bytes ea \<and>
     (\<forall>chunks. concat chunks = ea_bytes ea \<longrightarrow>
       (\<exists>l rs. decryptAttachmentStreamForGroup ks (ea_reference ea) (map Inr chunks) cs = Inr (l, rs) \<and>
          rd_status (readToEnd l (ea_reference ea) crypto rs) = StreamClosed \<and>
          concat (rd_output (readToEnd l (ea_reference ea) crypto rs)) = plaintext))"
  by (rule delivered_stream [OF assms])

theorem attachment_delivered_witness:
  "\<exists>ea. encryptAttachmentForGroup exSchedule exObjectId exPlaintext exSealSuite exSalt None = Inr ea \<and>
     (\<exists>l rs. decryptAttachmentStreamForGroup exSchedule (ea_reference ea) (map Inr (ea_readable ea)) exSealSuite = Inr (l, rs) \<and>
        concat (rd_output (readToEnd l (ea_reference ea) exSealCrypto rs)) = [1, 2, 3, 4, 5])"
proof -
  have "length (ks_applicationExportSecret exSchedule) = kdf_size (cs_kdf exSealSuite)" by (simp add: exSchedule_def exSeal_ok)
  from attachment_delivered [OF exSeal_suite exSeal_ok(1) _ this exInputs exSeal_ok(5), of None]
  show ?thesis by (auto simp: exSeal_ok exPlaintext_def)
qed

text \<open>C8: The streaming reader and the reader of whole objects agree.  Whatever bytes arrive, in whatever
  chunks: where the object opens whole, the stream closes with the same plaintext, and where it does not
  open, the stream ends in the one attachment error.\<close>

theorem attachment_readers_agree:
  assumes "decryptAttachmentStream cek ref (map Inr chunks) crypto ownsCek = Inr (l, rs)"
  shows "case openObject cek (ref_objectId ref) (concat chunks) (ref_snapshot ref) (ref_plaintextLength ref) crypto of
      Inr plaintext \<Rightarrow> rd_status (readToEnd l ref crypto rs) = StreamClosed \<and> concat (rd_output (readToEnd l ref crypto rs)) = plaintext
    | Inl _ \<Rightarrow> rd_status (readToEnd l ref crypto rs) = StreamErrored AttachmentError"
  by (rule stream_agrees [OF assms])

definition exRef :: attachmentRef where
  "exRef = \<lparr>ref_version = 1, ref_objectId = exObjectId, ref_plaintextLength = 5, ref_snapshot = replicate 32 0, ref_locator = []\<rparr>"

lemma exStream: "\<exists>l rs. decryptAttachmentStream exCek exRef source exSealCrypto True = Inr (l, rs) \<and> rd_ownsCek rs \<and>
    rd_status rs = StreamOpen \<and> rd_phase rs = BufferPrefix \<and> rd_cek rs = exCek"
  using layout_exists [of 5 32]
  by (auto simp: decryptAttachmentStream_def validateAttachmentRef_def exRef_def exInputs exSeal_ok ATTACHMENT_REF_VERSION_def
      assertCekLength_def CEK_LENGTH_def readerLayoutParams_def exObjectId_def)

text \<open>An empty object is refused by both.\<close>

theorem attachment_readers_agree_witness:
  "\<exists>l rs. decryptAttachmentStream exCek exRef (map Inr []) exSealCrypto True = Inr (l, rs) \<and>
     rd_status (readToEnd l exRef exSealCrypto rs) = StreamErrored AttachmentError"
proof -
  obtain l rs where s: "decryptAttachmentStream exCek exRef (map Inr []) exSealCrypto True = Inr (l, rs)" using exStream by blast
  have "openObject exCek (ref_objectId exRef) (concat []) (ref_snapshot exRef) (ref_plaintextLength exRef) exSealCrypto \<noteq> Inr pt" for pt
    using fitted_arith [OF layout_fitted(1)] unfolding openObject_iff [OF refl] objectHolds_def Let_def by fastforce
  then show ?thesis using attachment_readers_agree [OF s] s by (auto split: sum.splits)
qed

text \<open>C11: Every range inside the plaintext of a sealed attachment can be opened, and where the storage serves
  the ranges asked for, in whatever chunks, the reader hands out exactly that window of the plaintext and
  leaves the content key wiped.\<close>

theorem attachment_window:
  assumes "sealCryptoOk crypto" "length cek = 32" "objectId \<noteq> []" "length objectId \<le> 255"
    and "plaintext \<noteq> []" "int (length plaintext) \<le> 2 ^ 47" "length salt = 32"
    and "encryptAttachment cek objectId plaintext crypto salt locator = Inr ea"
    and "0 \<le> offset" "0 < len" "offset + len \<le> int (length plaintext)"
  shows "\<exists>r. openAttachmentRange cek (ea_reference ea) offset len crypto ownsCek = Inr r \<and>
    (\<forall>streams. served (ea_bytes ea) (ar_ranges r) streams \<longrightarrow>
      decryptRangeStream r streams crypto = Inr (Inr (slice plaintext offset (offset + len)), wipeCek r))"
  by (rule sealed_window [OF assms])

lemma exServed: "served bs ranges (map (\<lambda>r. [Inr (slice bs (br_offset r) (rangeEnd r))]) ranges)"
  unfolding served_def list_all2_map2
  by (rule list_all2_all_nthI) (auto intro: exI [of _ "[slice bs _ _]"])

theorem attachment_window_witness:
  "\<exists>ea r streams. encryptAttachment exCek exObjectId exPlaintext exSealCrypto exSalt None = Inr ea \<and>
     openAttachmentRange exCek (ea_reference ea) 1 3 exSealCrypto True = Inr r \<and>
     decryptRangeStream r streams exSealCrypto = Inr (Inr [2, 3, 4], wipeCek r)"
proof -
  obtain ea where ea: "encryptAttachment exCek exObjectId exPlaintext exSealCrypto exSalt None = Inr ea"
    using encryptAttachment_holds [OF exSeal_ok(1,4) exInputs exSeal_ok(5)] by metis
  have "slice exPlaintext 1 (1 + 3) = [2, 3, 4]" by (simp add: slice_in exPlaintext_def)
  then show ?thesis
    using attachment_window [OF exSeal_ok(1,4) exInputs exSeal_ok(5) ea, of 1 3 True] exServed ea
    by (fastforce simp: exPlaintext_def)
qed

text \<open>C12: A reference names one object.  Two byte strings that open for the same content key, object, snapshot
  and length are the same, unless parts of them that differ have the same digest: a segment's block, an
  epoch's run of leaves, or the salts and epoch heads under the root.\<close>

theorem attachment_reference_names_object:
  assumes "openObject cek objectId bs snapshot n crypto = Inr plaintext"
    and "openObject cek objectId bs' snapshot n crypto = Inr plaintext'"
  shows "bs = bs' \<or> objectsClash cek objectId n crypto bs bs'"
  by (rule accepted_objects_agree [OF assms])

lemma exSealed:
  obtains so where "sealObject exCek exObjectId exPlaintext exSealCrypto exSalt = Inr so"
    "openObject exCek exObjectId (so_bytes so) (so_snapshot so) 5 exSealCrypto = Inr exPlaintext"
proof -
  obtain so l base where so: "sealObject exCek exObjectId exPlaintext exSealCrypto exSalt = Inr so"
    and l: "layout (objectLayoutParams (int (length exPlaintext)) (int (kdf_size (sc_kdf exSealCrypto)))) = Inr l"
    and h: "objectHolds l exCek exObjectId (so_snapshot so) (int (length exPlaintext)) exSealCrypto (so_bytes so) base
      (map (partOf exPlaintext) [0..ol_nSeg l - 1])"
    using sealObject_holds [OF exSeal_ok(1,4) exInputs exSeal_ok(5)] by metis
  have five: "int (length exPlaintext) = 5" by (simp add: exPlaintext_def)
  have "concat (map (partOf exPlaintext) [0..ol_nSeg l - 1]) = exPlaintext" using parts_concat [OF layout_fitted(1) [OF l]] by simp
  then have "openObject exCek exObjectId (so_bytes so) (so_snapshot so) 5 exSealCrypto = Inr exPlaintext"
    unfolding openObject_iff [OF refl] using exSeal_ok(4) exInputs(1,2) l h unfolding five by metis
  with so that show ?thesis by blast
qed

theorem attachment_reference_names_object_witness:
  "\<exists>so. sealObject exCek exObjectId exPlaintext exSealCrypto exSalt = Inr so \<and>
     (so_bytes so = so_bytes so \<or> objectsClash exCek exObjectId 5 exSealCrypto (so_bytes so) (so_bytes so))"
proof -
  obtain so where so: "sealObject exCek exObjectId exPlaintext exSealCrypto exSalt = Inr so"
    "openObject exCek exObjectId (so_bytes so) (so_snapshot so) 5 exSealCrypto = Inr exPlaintext" by (rule exSealed)
  from attachment_reference_names_object [OF so(2) so(2)] so(1) show ?thesis by blast
qed



text \<open>C38: Under one schedule no two segments are sealed with the same nonce: the index and the mark of the last
  segment can be read back from it.\<close>

theorem attachment_nonces_distinct:
  assumes "sp_nonceMode (ss_params st) = NONCE_DERIVED" "ss_params st' = ss_params st" "ss_nonceBase st' = ss_nonceBase st"
    and "sealSegment st i isFinal plaintext given aad = Inr (a, t)" "sealSegment st' j isFinal' plaintext' given' aad' = Inr (b, t')"
    and "(i, isFinal) \<noteq> (j, isFinal')"
  shows "sg_nonce a \<noteq> sg_nonce b"
  by (rule sealed_nonces_differ [OF assms])

definition exSealState :: sealState where
  "exSealState = \<lparr>ss_params = objectParams exSealCrypto exSalt, ss_commitment = [], ss_payloadKey = [1], ss_snapKey = [2],
     ss_nonceBase = Some (replicate 12 6), ss_crypto = exSealCrypto, ss_epochKeys = [(0, [8])], ss_wiped = False\<rparr>"

lemma exSealSegment:
  assumes "i = 0 \<or> i = 1"
  shows "\<exists>a t. sealSegment exSealState i f [1] None None = Inr (a, t)"
proof -
  have n: "\<exists>x. derivedNonce (replicate 12 6) i f = Inr x \<and> length x = 12"
    unfolding derivedNonce_Inr using assms by (auto simp del: be_bytes.simps)
  have k: "drop_bit 10 i = 0" using assms by (auto simp: drop_bit_eq_div)
  show ?thesis using n k assms
    by (auto simp: sealSegment_def Let_def segmentNonce_def segmentKey_def segmentAad_def exSealState_def objectParams_def
        NONCE_DERIVED_def ATTACHMENT_EPOCH_LENGTH_def exSealCrypto_def)
qed

theorem attachment_nonces_distinct_witness:
  "\<exists>a t b t'. sealSegment exSealState 0 False [1] None None = Inr (a, t) \<and>
     sealSegment exSealState 1 True [1] None None = Inr (b, t') \<and> sg_nonce a \<noteq> sg_nonce b"
proof -
  obtain a t where a: "sealSegment exSealState 0 False [1] None None = Inr (a, t)" using exSealSegment [of 0 False] by auto
  obtain b t' where b: "sealSegment exSealState 1 True [1] None None = Inr (b, t')" using exSealSegment [of 1 True] by auto
  have "sp_nonceMode (ss_params exSealState) = NONCE_DERIVED" by (simp add: exSealState_def objectParams_def)
  from attachment_nonces_distinct [OF this refl refl a b] a b show ?thesis by simp
qed

text \<open>C39: A reference is decoded from its encoding and from nothing else, and only references that are valid
  are encoded or decoded.\<close>

theorem attachment_reference_wire_format: "decodeAttachmentRef bs = Inr r \<longleftrightarrow> encodeAttachmentRef r = Inr bs"
  by (rule decodeAttachmentRef_iff)

end
