(* ===== verification/Base64.thy ===== *)
theory Base64 imports Crypto begin

text \<open>
  Base64 as \<^verbatim>\<open>src/util/byte-array.ts\<close> uses it: the code compares keys and identifiers by these strings, so
  that different byte arrays must have different ones.  \<open>btoa\<close> and \<open>atob\<close> are the platform's standard
  functions on strings of one byte per character; where the runtime has a \<open>Buffer\<close>, the code takes that
  instead, an argument here.
\<close>

section \<open>The alphabet\<close>

definition base64Alphabet :: string where
  "base64Alphabet = ''ABCDEFGHIJKLMNOPQRSTUVWXYZabcdefghijklmnopqrstuvwxyz0123456789+/''"

definition base64Char :: "nat \<Rightarrow> char" where
  "base64Char n = base64Alphabet ! n"

definition base64Value :: "char \<Rightarrow> nat option" where
  "base64Value c = map_of (zip base64Alphabet [0..<64]) c"

lemma base64Value_all: "\<forall>n \<in> set [0..<64]. base64Value (base64Char n) = Some n \<and> base64Char n \<noteq> CHR ''='' \<and>
    base64Char n \<noteq> CHR ''-'' \<and> base64Char n \<noteq> CHR ''_''"
  by code_simp

lemma base64Value_char [simp]: "n < 64 \<Longrightarrow> base64Value (base64Char n) = Some n"
  using base64Value_all by auto

section \<open>The standard functions\<close>

fun btoa :: "nat list \<Rightarrow> string" where
  "btoa [] = []"
| "btoa [a] = [base64Char (a div 4), base64Char (a mod 4 * 16), CHR ''='', CHR ''='']"
| "btoa [a, b] = [base64Char (a div 4), base64Char (a mod 4 * 16 + b div 16), base64Char (b mod 16 * 4), CHR ''='']"
| "btoa (a # b # c # rest) = base64Char (a div 4) # base64Char (a mod 4 * 16 + b div 16) #
     base64Char (b mod 16 * 4 + c div 64) # base64Char (c mod 64) # btoa rest"

text \<open>Decoding gives up at the first character outside the alphabet.\<close>

fun sextets :: "string \<Rightarrow> nat list option" where
  "sextets [] = Some []"
| "sextets (c # cs) = (case base64Value c of None \<Rightarrow> None | Some n \<Rightarrow> map_option (Cons n) (sextets cs))"

fun fromSextets :: "nat list \<Rightarrow> nat list option" where
  "fromSextets [] = Some []"
| "fromSextets [p] = None"
| "fromSextets [p, q] = Some [p * 4 + q div 16]"
| "fromSextets [p, q, r] = Some [p * 4 + q div 16, q mod 16 * 16 + r div 4]"
| "fromSextets (p # q # r # s # rest) = map_option (\<lambda>bs. (p * 4 + q div 16) # (q mod 16 * 16 + r div 4) # (r mod 4 * 64 + s) # bs)
     (fromSextets rest)"

definition stripPadding :: "string \<Rightarrow> string" where
  "stripPadding s = (if length s mod 4 = 0 then
       (if length s \<ge> 2 \<and> drop (length s - 2) s = ''=='' then take (length s - 2) s
        else if length s \<ge> 1 \<and> drop (length s - 1) s = ''='' then take (length s - 1) s else s)
     else s)"

definition atob :: "string \<Rightarrow> nat list option" where
  "atob s = Option.bind (sextets (stripPadding s)) fromSextets"

section \<open>The helpers of the source\<close>

text \<open>The runtime's own encoder and decoder, where it has them.\<close>

type_synonym runtime = "((bytes \<Rightarrow> string) \<times> (string \<Rightarrow> bytes)) option"

definition bytesToBase64 :: "runtime \<Rightarrow> bytes \<Rightarrow> string" where
  "bytesToBase64 runtime bs = (case runtime of
     Some (toString, _) \<Rightarrow> toString bs | None \<Rightarrow> btoa (map unat bs))"

text \<open>The platform's exception is a \<open>DOMException\<close>; no error class of the source.\<close>

definition base64ToBytes :: "runtime \<Rightarrow> string \<Rightarrow> bytes option" where
  "base64ToBytes runtime s = (case runtime of
     Some (_, from) \<Rightarrow> Some (from s) | None \<Rightarrow> map_option (map word_of_nat) (atob s))"

definition bytesToBase64url :: "runtime \<Rightarrow> bytes \<Rightarrow> string" where
  "bytesToBase64url runtime bs = rev (dropWhile (\<lambda>c. c = CHR ''='')
     (rev (map (\<lambda>c. if c = CHR ''+'' then CHR ''-'' else if c = CHR ''/'' then CHR ''_'' else c) (bytesToBase64 runtime bs))))"

definition base64urlToBytes :: "runtime \<Rightarrow> string \<Rightarrow> bytes option" where
  "base64urlToBytes runtime input = base64ToBytes runtime
     (map (\<lambda>c. if c = CHR ''-'' then CHR ''+'' else if c = CHR ''_'' then CHR ''/'' else c) input @
      replicate ((4 - length input mod 4) mod 4) (CHR ''=''))"

section \<open>Round trips\<close>

text \<open>Encoding without its padding.\<close>

fun unpadded :: "nat list \<Rightarrow> string" where
  "unpadded [] = []"
| "unpadded [a] = [base64Char (a div 4), base64Char (a mod 4 * 16)]"
| "unpadded [a, b] = [base64Char (a div 4), base64Char (a mod 4 * 16 + b div 16), base64Char (b mod 16 * 4)]"
| "unpadded (a # b # c # rest) = base64Char (a div 4) # base64Char (a mod 4 * 16 + b div 16) #
     base64Char (b mod 16 * 4 + c div 64) # base64Char (c mod 64) # unpadded rest"

lemma unpadded_decodes:
  "\<forall>n \<in> set ns. n < 256 \<Longrightarrow> Option.bind (sextets (unpadded ns)) fromSextets = Some ns"
proof (induction ns rule: unpadded.induct)
  case (2 a)
  then show ?case by simp
next
  case (3 a b)
  then have "a < 256" "b < 256" by auto
  then have "a mod 4 * 16 + b div 16 < 64" by (simp add: div_less_iff_less_mult)
  then show ?case using \<open>a < 256\<close> \<open>b < 256\<close> by simp
next
  case (4 a b c rest)
  then have l: "a < 256" "b < 256" "c < 256" and rest: "Option.bind (sextets (unpadded rest)) fromSextets = Some rest" by auto
  have "b div 16 < 16" "c div 64 < 4" using l by (simp_all add: div_less_iff_less_mult)
  then have "a mod 4 * 16 + b div 16 < 64" "b mod 16 * 4 + c div 64 < 64" "a div 4 < 64" "c mod 64 < 64"
    using l by simp_all
  then show ?case using l rest by (auto simp: bind_eq_Some_conv)
qed simp

lemma btoa_unpadded: "btoa ns = unpadded ns @ replicate ((4 - length (unpadded ns) mod 4) mod 4) (CHR ''='')"
  by (induction ns rule: unpadded.induct) (auto simp: numeral_2_eq_2)

lemma unpadded_chars: "\<forall>n \<in> set ns. n < 256 \<Longrightarrow> c \<in> set (unpadded ns) \<Longrightarrow> \<exists>n < 64. c = base64Char n"
proof (induction ns rule: unpadded.induct)
  case (2 a)
  then have l: "a div 4 < 64" "a mod 4 * 16 < 64" by (auto simp: div_less_iff_less_mult)
  have "c = base64Char (a div 4) \<or> c = base64Char (a mod 4 * 16)" using 2(2) by auto
  then show ?case using l by blast
next
  case (3 a b)
  then have "b div 16 < 16" by (simp add: div_less_iff_less_mult)
  then have l: "a div 4 < 64" "a mod 4 * 16 + b div 16 < 64" "b mod 16 * 4 < 64" using 3(1) by (auto simp: div_less_iff_less_mult)
  have "c = base64Char (a div 4) \<or> c = base64Char (a mod 4 * 16 + b div 16) \<or> c = base64Char (b mod 16 * 4)" using 3(2) by auto
  then show ?case using l by blast
next
  case (4 a b c' rest)
  then have "b div 16 < 16" "c' div 64 < 4" by (simp_all add: div_less_iff_less_mult)
  then have l: "a div 4 < 64" "a mod 4 * 16 + b div 16 < 64" "b mod 16 * 4 + c' div 64 < 64" "c' mod 64 < 64"
    using 4(2) by (auto simp: div_less_iff_less_mult)
  have "c = base64Char (a div 4) \<or> c = base64Char (a mod 4 * 16 + b div 16) \<or> c = base64Char (b mod 16 * 4 + c' div 64) \<or>
      c = base64Char (c' mod 64) \<or> c \<in> set (unpadded rest)" using 4(3) by auto
  moreover have "\<forall>n \<in> set rest. n < 256" using 4(2) by simp
  ultimately show ?case using l 4(1) by blast
qed auto

lemma unpadded_plain:
  assumes "\<forall>n \<in> set ns. n < 256" "c \<in> set (unpadded ns)"
  shows "c \<noteq> CHR ''=''" "c \<noteq> CHR ''-''" "c \<noteq> CHR ''_''"
proof -
  obtain n where "n < 64" "c = base64Char n" using unpadded_chars [OF assms] by blast
  then show "c \<noteq> CHR ''=''" "c \<noteq> CHR ''-''" "c \<noteq> CHR ''_''" using base64Value_all by auto
qed

lemma unpadded_length: "length (unpadded ns) mod 4 \<noteq> 1"
  by (induction ns rule: unpadded.induct) auto

lemma last_two: "2 \<le> length s \<Longrightarrow> drop (length s - 2) s = [x, y] \<Longrightarrow> x \<in> set s \<and> y \<in> set s"
  by (metis in_set_dropD list.set_intros)

lemma next_to_last:
  assumes "drop k u @ [x] = [y, z]"
  shows "y \<in> set u"
proof -
  have "drop k u = [y]" using assms by (cases "drop k u") auto
  then have "y \<in> set (drop k u)" by simp
  then show ?thesis by (rule in_set_dropD)
qed

lemma stripPadding_padded:
  assumes plain: "CHR ''='' \<notin> set u" and len: "length u mod 4 \<noteq> 1"
  shows "stripPadding (u @ replicate ((4 - length u mod 4) mod 4) (CHR ''='')) = u"
proof -
  consider "length u mod 4 = 0" | "length u mod 4 = 2" | "length u mod 4 = 3" using len by linarith
  then show ?thesis
  proof cases
    case 1
    have "\<not> (2 \<le> length u \<and> drop (length u - 2) u = ''=='')" using last_two [of u] plain by blast
    moreover have "drop (length u - 1) u \<noteq> ''=''" using plain by (metis in_set_dropD list.set_intros(1))
    ultimately show ?thesis using 1 unfolding stripPadding_def by (simp only: append_Nil2 diff_zero mod_self replicate_0 if_False simp_thms if_True)
  next
    case 2
    then have "(length u + 2) mod 4 = 0" by presburger
    then show ?thesis using 2 by (simp add: stripPadding_def numeral_2_eq_2)
  next
    case 3
    then have "(length u + 1) mod 4 = 0" by presburger
    moreover have "\<not> (2 \<le> length (u @ ''='') \<and> drop (length (u @ ''='') - 2) (u @ ''='') = ''=='')"
      using next_to_last [of "length u - 1" u] plain by auto
    ultimately show ?thesis using 3 by (simp add: stripPadding_def del: drop_append)
  qed
qed

lemma atob_btoa: "\<forall>n \<in> set ns. n < 256 \<Longrightarrow> atob (btoa ns) = Some ns"
  unfolding atob_def btoa_unpadded using unpadded_plain(1) [of ns] unpadded_length [of ns] unpadded_decodes [of ns]
  by (subst stripPadding_padded) auto

text \<open>Where the runtime has its own functions, they are the standard ones on what the code encodes.\<close>

definition runtimeOk :: "runtime \<Rightarrow> bool" where
  "runtimeOk runtime \<longleftrightarrow> (case runtime of None \<Rightarrow> True
     | Some (toString, from) \<Rightarrow> (\<forall>bs. toString bs = btoa (map unat bs) \<and> from (toString bs) = bs))"

lemma bytesToBase64_btoa: "runtimeOk runtime \<Longrightarrow> bytesToBase64 runtime bs = btoa (map unat bs)"
  by (auto simp: runtimeOk_def bytesToBase64_def split: option.splits prod.splits)

lemma unat_less_256: "unat b < 256" for b :: byte
proof -
  have "uint b < 256" by (rule uint_byte_bounds(2))
  then have "int (unat b) < 256" by (simp only: uint_nat [symmetric])
  then show ?thesis by linarith
qed

lemma unat_bytes: "\<forall>n \<in> set (map unat bs). n < 256" for bs :: bytes
  by (auto simp: unat_less_256)

lemma word_bytes: "map word_of_nat (map unat bs) = bs" for bs :: bytes
  by (induction bs) simp_all

lemma base64_roundtrip:
  assumes "runtimeOk runtime"
  shows "base64ToBytes runtime (bytesToBase64 runtime bs) = Some bs"
proof (cases runtime)
  case None
  then show ?thesis using atob_btoa [OF unat_bytes [of bs]] word_bytes [of bs]
    by (simp add: base64ToBytes_def bytesToBase64_def del: map_map)
next
  case (Some r)
  then show ?thesis using assms by (cases r) (simp add: base64ToBytes_def bytesToBase64_def runtimeOk_def, metis)
qed

text \<open>Different byte arrays have different strings: the tables keyed by these strings compare the bytes.\<close>

lemma bytesToBase64_inj:
  assumes "runtimeOk runtime" "bytesToBase64 runtime a = bytesToBase64 runtime b"
  shows "a = b"
proof -
  have "Some a = base64ToBytes runtime (bytesToBase64 runtime b)" using base64_roundtrip [OF assms(1), of a] assms(2) by argo
  then show ?thesis unfolding base64_roundtrip [OF assms(1)] by blast
qed

lemma dropWhile_padding:
  "CHR ''='' \<notin> set u \<Longrightarrow> rev (dropWhile (\<lambda>c. c = CHR ''='') (rev (u @ replicate n (CHR ''='')))) = u"
proof -
  assume u: "CHR ''='' \<notin> set u"
  have "dropWhile (\<lambda>c. c = CHR ''='') (replicate n (CHR ''='') @ rev u) = dropWhile (\<lambda>c. c = CHR ''='') (rev u)"
    by (induction n) auto
  also have "\<dots> = rev u" using u by (cases "rev u") (auto simp: rev_eq_Cons_iff)
  finally show ?thesis by simp
qed

lemma base64url_roundtrip:
  assumes "runtimeOk runtime"
  shows "base64urlToBytes runtime (bytesToBase64url runtime bs) = Some bs"
proof -
  let ?to = "\<lambda>c. if c = CHR ''+'' then CHR ''-'' else if c = CHR ''/'' then CHR ''_'' else c"
  let ?from = "\<lambda>c. if c = CHR ''-'' then CHR ''+'' else if c = CHR ''_'' then CHR ''/'' else c"
  let ?u = "unpadded (map unat bs)"
  have plain: "CHR ''='' \<notin> set ?u" "CHR ''-'' \<notin> set ?u" "CHR ''_'' \<notin> set ?u"
    using unpadded_plain [OF unat_bytes [of bs]] by blast+
  have unpad: "CHR ''='' \<notin> set (map ?to ?u)" using plain(1) by (auto split: if_splits)
  have padded: "map ?to (btoa (map unat bs)) = map ?to ?u @ replicate ((4 - length ?u mod 4) mod 4) (CHR ''='')"
    unfolding btoa_unpadded by simp
  have url: "bytesToBase64url runtime bs = map ?to ?u"
    unfolding bytesToBase64url_def bytesToBase64_btoa [OF assms] padded by (rule dropWhile_padding [OF unpad])
  have undo: "map ?from (map ?to u) = u" if "CHR ''-'' \<notin> set u" "CHR ''_'' \<notin> set u" for u
    using that by (induction u) auto
  have "base64urlToBytes runtime (map ?to ?u) = base64ToBytes runtime (btoa (map unat bs))"
    unfolding base64urlToBytes_def btoa_unpadded undo [OF plain(2,3)] length_map ..
  also have "\<dots> = Some bs" unfolding bytesToBase64_btoa [OF assms, symmetric] by (rule base64_roundtrip [OF assms])
  finally show ?thesis unfolding url .
qed

end
