(* ===== verification/Grease.thy ===== *)
theory Grease imports Complex_Main Ciphersuites begin

text \<open>
  Random values that every implementation must skip, \<^verbatim>\<open>src/grease.ts\<close>, and the capabilities a client
  advertises when it is given none, \<^verbatim>\<open>src/default-capabilities.ts\<close>.  A random number generator is the
  function from the number of a call to the bytes that call returns; every definition passes the number
  of the next call on.  Numbers that are no integers are rationals: a draw over \<open>2 ^ 32\<close> is one exactly.
\<close>

section \<open>Random choices\<close>

type_synonym rng = "nat \<Rightarrow> bytes"

definition greaseValues :: "int list" where
  "greaseValues = [0x0a0a, 0x1a1a, 0x2a2a, 0x3a3a, 0x4a4a, 0x5a5a, 0x6a6a, 0x7a7a, 0x8a8a, 0x9a9a, 0xaaaa, 0xbaba,
     0xcaca, 0xdada, 0xeaea]"

record greaseConfig =
  probabilityPerGreaseValue :: rat

text \<open>The double nearest to a tenth.\<close>

definition defaultGreaseConfig :: greaseConfig where
  "defaultGreaseConfig = \<lparr>probabilityPerGreaseValue = 3602879701896397 / 36028797018963968\<rparr>"

text \<open>An index past the end reads \<open>undefined\<close>, which the bit operators take for zero.\<close>

definition byteOrZero :: "bytes \<Rightarrow> nat \<Rightarrow> int" where
  "byteOrZero bs i = (if i < length bs then uint (bs ! i) else 0)"

definition nextUnitInterval :: "rng \<Rightarrow> nat \<Rightarrow> rat" where
  "nextUnitInterval rng k =
     (let bs = rng k;
          uint32 = js_or (js_or (js_or (js_shl (byteOrZero bs 0) 24) (js_shl (byteOrZero bs 1) 16))
            (js_shl (byteOrZero bs 2) 8)) (byteOrZero bs 3) mod 2 ^ 32
      in of_int uint32 / 0x100000000)"

fun greaseFilter :: "rat \<Rightarrow> rng \<Rightarrow> nat \<Rightarrow> int list \<Rightarrow> int list" where
  "greaseFilter p rng k [] = []"
| "greaseFilter p rng k (v # vs) =
     (if p > nextUnitInterval rng k then v # greaseFilter p rng (Suc k) vs else greaseFilter p rng (Suc k) vs)"

definition grease :: "greaseConfig \<Rightarrow> rng \<Rightarrow> nat \<Rightarrow> int list \<times> nat" where
  "grease config rng k =
     (greaseFilter (probabilityPerGreaseValue config) rng k greaseValues, k + length greaseValues)"

definition greaseCiphersuites :: "greaseConfig \<Rightarrow> rng \<Rightarrow> nat \<Rightarrow> ciphersuiteName list \<times> nat" where
  "greaseCiphersuites config rng k = map_prod (map Numeric) id (grease config rng k)"

definition greaseCredentials :: "greaseConfig \<Rightarrow> rng \<Rightarrow> nat \<Rightarrow> credentialTypeName list \<times> nat" where
  "greaseCredentials config rng k = map_prod (map Numeric) id (grease config rng k)"

definition greaseExtensions :: "greaseConfig \<Rightarrow> rng \<Rightarrow> nat \<Rightarrow> extension list \<times> nat" where
  "greaseExtensions config rng k =
     map_prod (map (\<lambda>n. \<lparr>extensionType = ExtNumber n, extensionData = []\<rparr>)) id (grease config rng k)"

definition greaseCapabilities :: "greaseConfig \<Rightarrow> capabilities \<Rightarrow> rng \<Rightarrow> nat \<Rightarrow> capabilities \<times> nat" where
  "greaseCapabilities config capabilities rng k =
     (let (suites, k1) = greaseCiphersuites config rng k;
          (credentials, k2) = greaseCredentials config rng k1;
          (exts, k3) = grease config rng k2;
          (proposals, k4) = grease config rng k3
      in (\<lparr>cap_versions = cap_versions capabilities, cap_ciphersuites = cap_ciphersuites capabilities @ suites,
           cap_extensions = cap_extensions capabilities @ exts, cap_proposals = cap_proposals capabilities @ proposals,
           cap_credentials = cap_credentials capabilities @ credentials\<rparr>, k4))"

definition defaultCapabilities :: "rng \<Rightarrow> nat \<Rightarrow> capabilities \<times> nat" where
  "defaultCapabilities rng k = greaseCapabilities defaultGreaseConfig
     \<lparr>cap_versions = [Known PV_mls10], cap_ciphersuites = map (\<lambda>s. Known (fst s)) ciphersuites,
      cap_extensions = [], cap_proposals = [], cap_credentials = [Known CT_basic, Known CT_x509]\<rparr> rng k"

section \<open>What greasing leaves alone\<close>

text \<open>A draw lies in the half-open unit interval, so a probability of one takes every value.\<close>

lemma nextUnitInterval_bounds: "0 \<le> nextUnitInterval rng k" "nextUnitInterval rng k < 1"
proof -
  have "0 \<le> m mod 2 ^ 32 \<and> m mod 2 ^ 32 < (4294967296 :: int)" for m :: int by simp
  then have "0 \<le> (of_int (m mod 2 ^ 32) :: rat) \<and> (of_int (m mod 2 ^ 32) :: rat) < of_int 4294967296" for m :: int
    by (metis of_int_0_le_iff of_int_less_iff)
  then show "0 \<le> nextUnitInterval rng k" "nextUnitInterval rng k < 1"
    by (simp_all add: nextUnitInterval_def Let_def)
qed

lemma greaseFilter_subset: "set (greaseFilter p rng k vs) \<subseteq> set vs"
  by (induction vs arbitrary: k) auto

lemma greaseFilter_all: "1 \<le> p \<Longrightarrow> greaseFilter p rng k vs = vs"
proof (induction vs arbitrary: k)
  case (Cons v vs)
  then show ?case using nextUnitInterval_bounds(2) [of rng k] by simp
qed simp

lemma greaseFilter_none: "p \<le> 0 \<Longrightarrow> greaseFilter p rng k vs = []"
proof (induction vs arbitrary: k)
  case (Cons v vs)
  then show ?case using nextUnitInterval_bounds(1) [of rng k] by simp
qed simp

text \<open>No grease value is the number of a ciphersuite or of a credential type.\<close>

lemma greaseValues_fresh:
  "n \<in> set greaseValues \<Longrightarrow> n \<notin> set (map snd ciphersuites) \<and> n \<notin> set (map snd credentialTypes) \<and> 0 \<le> n \<and> n \<le> 65535"
  by (auto simp: greaseValues_def ciphersuites_def credentialTypes_def)

lemma grease_fresh:
  "n \<in> set (fst (grease config rng k)) \<Longrightarrow> n \<notin> set (map snd ciphersuites) \<and> n \<notin> set (map snd credentialTypes)"
proof -
  assume "n \<in> set (fst (grease config rng k))"
  then have "n \<in> set greaseValues" unfolding grease_def fst_conv by (rule subsetD [OF greaseFilter_subset])
  then show ?thesis using greaseValues_fresh by blast
qed

text \<open>Greased capabilities survive the wire wherever the given ones do.\<close>

lemma greaseCapabilities_eq:
  "greaseCapabilities config c rng k =
     (\<lparr>cap_versions = cap_versions c, cap_ciphersuites = cap_ciphersuites c @ map Numeric (fst (grease config rng k)),
       cap_extensions = cap_extensions c @ fst (grease config rng (k + 30)),
       cap_proposals = cap_proposals c @ fst (grease config rng (k + 45)),
       cap_credentials = cap_credentials c @ map Numeric (fst (grease config rng (k + 15)))\<rparr>, k + 60)"
proof -
  have next_call: "snd (grease config rng j) = j + 15" for j by (simp add: grease_def greaseValues_def)
  show ?thesis
    by (simp add: greaseCapabilities_def greaseCiphersuites_def greaseCredentials_def split_beta next_call add.assoc)
qed

lemma grease_ok:
  "list_all (ok_open ciphersuites) (map Numeric (fst (grease config rng k)))"
  "list_all (ok_open credentialTypes) (map Numeric (fst (grease config rng k)))"
  using grease_fresh [of _ config rng k] by (simp_all add: list_all_iff ok_open_def del: set_map) (simp_all only: set_map ball_simps open_name.case, blast+)

lemma greaseCapabilities_ok: "okCapabilities c \<Longrightarrow> okCapabilities (fst (greaseCapabilities config c rng k))"
  unfolding okCapabilities_def greaseCapabilities_eq by (simp only: fst_conv capabilities.simps list_all_append grease_ok)

lemma defaultCapabilities_ok: "okCapabilities (fst (defaultCapabilities rng k))"
  unfolding defaultCapabilities_def
  by (rule greaseCapabilities_ok)
    (simp add: okCapabilities_def ok_open_def protocolVersions_def credentialTypes_def list_all_iff)

lemma defaultCapabilities_decode:
  "encodeCapabilities (fst (defaultCapabilities rng k)) = Inr bs \<Longrightarrow>
   decodeCapabilities bs 0 = Inr (Some (fst (defaultCapabilities rng k), length bs))"
  by (rule capabilities.decode_encode [OF defaultCapabilities_ok])

end
