(* ===== verification/Spec2Isabelle.thy ===== *)
theory Spec2Isabelle imports TreeProperties KeyProperties PathProperties StateProperties MessageCreation AttachmentProperties Base64 Grease begin

text \<open>
  A model of the protocol core of this repository, an implementation of the Messaging Layer Security
  protocol (RFC 9420) in TypeScript, and the theorems that make it correct.

  The parts of the program and the theories that model them (files are under \<^verbatim>\<open>src/\<close>):

  \<^item> \<^verbatim>\<open>codec/*.ts\<close>, \<^verbatim>\<open>util/*.ts\<close>: \<open>Codec\<close>.  An encoder maps a value to bytes or an error, a
    decoder maps a buffer and an offset to nothing, to a value and the bytes it took, or to an error.
    \<open>CodecLaws\<close> states the contract of a pair as the locale \<open>codec\<close> (what is encoded decodes,
    wherever it stands in a buffer, and what decodes is canonical) and proves it for the
    combinators; every codec of the program is an interpretation.
  \<^item> \<^verbatim>\<open>leaf-node.ts\<close>, \<^verbatim>\<open>credential.ts\<close>, \<^verbatim>\<open>extension.ts\<close>, \<^verbatim>\<open>capabilities.ts\<close> and the enumerations:
    \<open>LeafNode\<close>; \<^verbatim>\<open>proposal.ts\<close>, \<^verbatim>\<open>key-package.ts\<close>, \<^verbatim>\<open>commit.ts\<close>, \<^verbatim>\<open>presharedkey.ts\<close>:
    \<open>Proposals\<close>; \<^verbatim>\<open>framed-content.ts\<close>, \<^verbatim>\<open>private-message.ts\<close>, \<^verbatim>\<open>public-message.ts\<close>,
    \<^verbatim>\<open>welcome.ts\<close>, \<^verbatim>\<open>group-info.ts\<close>, \<^verbatim>\<open>message.ts\<close>: \<open>Messages\<close>.
  \<^item> \<^verbatim>\<open>crypto/*.ts\<close>, \<^verbatim>\<open>key-schedule.ts\<close>, \<^verbatim>\<open>transcript-hash.ts\<close>, \<^verbatim>\<open>psk-index.ts\<close>: \<open>Crypto\<close>.  The
    primitives are records of functions, arguments of every definition that uses them; the labelled
    operations over them, the signatures, tags, key schedule and welcome encryption are the code's.
  \<^item> \<^verbatim>\<open>treemath.ts\<close>: \<open>Treemath\<close>, over JavaScript's 32-bit operators of \<open>Prelude\<close>.
  \<^item> \<^verbatim>\<open>ratchet-tree.ts\<close>: \<open>RatchetTree\<close> and its laws \<open>RatchetTreeLaws\<close>; \<^verbatim>\<open>tree-hash.ts\<close>:
    \<open>TreeHash\<close>; \<^verbatim>\<open>parent-hash.ts\<close>: \<open>ParentHash\<close>.  The weak maps that remember hashes per tree
    object are a cache entry that the operations take and return.
  \<^item> \<^verbatim>\<open>secret-tree.ts\<close>: \<open>SecretTree\<close> and its laws \<open>SecretTreeLaws\<close>, with the contract of one-time
    keys as the locale \<open>one_time_keys\<close>, interpreted on one ratchet and on the opening of messages.
  \<^item> \<^verbatim>\<open>message-protection.ts\<close>, \<^verbatim>\<open>message-protection-public.ts\<close>: \<open>MessageProtection\<close>.
  \<^item> \<^verbatim>\<open>update-path.ts\<close>, \<^verbatim>\<open>path-secrets.ts\<close>: \<open>UpdatePath\<close> and its laws \<open>UpdatePathLaws\<close>;
    \<^verbatim>\<open>private-key-path.ts\<close> and the receiver's side of a path: \<open>PrivateKeyPath\<close>.  \<open>PathAgreement\<close>
    follows one path through all of them: \<open>committed\<close> says what a created path is,
    \<open>memberKeys\<close> which private keys the place of a member in the tree requires.
  \<^item> \<^verbatim>\<open>crypto/ciphersuite.ts\<close>, \<^verbatim>\<open>crypto/small-order.ts\<close>: \<open>Ciphersuites\<close>.  \<^verbatim>\<open>crypto/implementation/\<close> and
    \<^verbatim>\<open>leaf-node-patch.ts\<close>: \<open>Providers\<close>, the wrappers around the platform's primitives and the packages, which
    meet what the properties assume of a ciphersuite wherever the primitives do.
  \<^item> \<^verbatim>\<open>grease.ts\<close>, \<^verbatim>\<open>default-capabilities.ts\<close>: \<open>Grease\<close>; the base64 helpers of \<^verbatim>\<open>util/byte-array.ts\<close>, whose
    strings key the tables of \<^verbatim>\<open>client-state.ts\<close>: \<open>Base64\<close>, with the round trips that make them injective.
  \<^item> \<^verbatim>\<open>client-state.ts\<close> and the configuration files: \<open>ClientState\<close> (the state of a member, a record
    with the fields of the source), \<open>LeafValidation\<close>, \<open>ProposalRules\<close> (which proposals a commit may
    combine and what they do to the tree) and \<open>Joining\<close> (validating a received tree, joining and
    creating groups).
  \<^item> \<^verbatim>\<open>create-commit.ts\<close>: \<open>Commits\<close>; \<^verbatim>\<open>process-messages.ts\<close>: \<open>Processing\<close>; \<^verbatim>\<open>create-message.ts\<close>,
    \<^verbatim>\<open>external-proposal.ts\<close>, \<^verbatim>\<open>resumption.ts\<close>: \<open>MessageCreation\<close>.
  \<^item> \<^verbatim>\<open>attachment/*.ts\<close>: \<open>AttachmentFormat\<close> (the layout of an object, the key derivation, the content
    key of an epoch, the reference), \<open>AttachmentSchedule\<close> (the key schedule of an object and its
    digests), \<open>AttachmentObject\<close> (sealing and opening whole objects, the checks of the readers, the
    writer), \<open>AttachmentStream\<close> (the streaming reader as a state machine, range reads).  A stream is
    the list of what its reads return.

  Over the operations of a member, \<open>TreeMutations\<close> proves that the proposals of a commit refine
  updates of a map from leaf indices to leaf nodes, \<open>CommitTree\<close> that processing a commit keeps the
  tree well-formed with unique keys, \<open>CommitAgreement\<close> that a member who processes a commit reaches
  the committer's epoch, and \<open>EpochTraffic\<close> what follows a commit.  \<open>GroupState\<close> is the state machine
  of one member: a step relation with one rule per operation, and what every run of it preserves.
  \<open>JoinValidation\<close> is what a joiner knows of a tree it accepted.

  For attachments \<open>AttachmentLaws\<close> has the arithmetic of the layout and of the schedule, with the cached
  epoch keys shown unobservable.  \<open>AttachmentSpec\<close> states what an object is, \<open>objectHolds\<close>: every leaf,
  head and digest of the bytes is what the schedule says, and the segments decrypt to the plaintext.
  Opening a whole object decides it, sealing establishes it (\<open>AttachmentSealing\<close>), the streaming reader
  accepts the same objects (\<open>AttachmentReading\<close>, where \<open>readToEnd\<close> makes \<open>ol_nEp l + 5\<close> startup steps and
  \<open>ol_nSeg l + 1\<close> pulls: one step for each of the five phases around the epochs' runs and one pull for
  the end, after which nothing moves), and a range read finds what it needs in the ranges it asks for
  (\<open>AttachmentWindows\<close>).  \<open>AttachmentDigests\<close> shows what a reference and a nonce pin down,
  \<open>AttachmentWiping\<close> runs the streaming reader under every order of steps, and \<open>AttachmentDelivery\<close>
  joins the two ends.

  The properties of messages and of the wire are in this theory, the others in \<open>TreeProperties\<close>,
  \<open>KeyProperties\<close>, \<open>PathProperties\<close>, \<open>StateProperties\<close> and \<open>AttachmentProperties\<close>; \<open>Examples\<close> and \<open>StateExamples\<close> hold the
  concrete parameters of the witnesses.

  Errors are the constructors of \<open>mls_error\<close>, the left of a sum; asynchronous functions are
  ordinary ones, since none of the modelled code runs two of them on shared state at once.  Random
  bytes, generated keys and the clock are arguments.  Numbers are unbounded integers, with the
  32-bit truncation written out wherever the code uses bit operators; properties of whole trees
  assume fewer than \<open>2 ^ 30\<close> nodes, below which none of those operators wraps.  No fuel is used:
  loops that always stop are functions with a measure, and those that might not (\<open>level_loop\<close>,
  \<open>nextFullBinaryTreeSize_loop\<close>, \<open>coverChain\<close>) are partial functions with theorems that say when
  they return.

  Not modelled: the primitives themselves, which come from the platform and from packages; wiping buffers after use, with the lists of \<^verbatim>\<open>consumed.ts\<close>, since
  values have no identity here (the key material that the attachment readers hold is the exception,
  its wiping is part of their state); the demonstrations and the tests.
\<close>

section \<open>Messages between members\<close>

text \<open>C3: Application data that a member protects is opened by every other member of the epoch
  whose ratchet for the sender has not used up that generation and is no more than the forward
  limit behind: the receiver reads the same bytes, with the sender's leaf index, whatever the
  padding.  Only the ciphersuite is assumed: decryption inverts encryption, the sender's key
  verifies its signatures, and expansions have the length asked for.\<close>

theorem application_message_delivered:
  fixes cs :: "('pub, 'priv, 'sk) ciphersuiteImpl"
  assumes "paramsOk (ratchetParams cs)" "aeadCorrect (cs_hpke cs)"
      "signatureCorrect (cs_signature cs) sk (ln_signaturePublicKey lf)"
    and "sparse_get ta (leafToNodeIndex l) = Some na" "goodRatchet (ratchetParams cs) s (sn_application na)"
    and "sparse_get tb (leafToNodeIndex l) = Some nb" "goodRatchet (ratchetParams cs) s (sn_application nb)"
    and "canReceive config (sn_application nb) (rt_generation (sn_application na))" "length guard = 4"
    and "sparse_get tree (leafToNodeIndex l) = Some (NodeLeaf lf)"
    and "protectApplicationData sk secret appData ad gc ta l padding cs guard = Inr (msg, ta')"
  shows "\<exists>content tb'. unprotectPrivateMessage secret msg tb tree gc config cs None = Inr (content, tb') \<and>
    fc_info (ac_content content) = FC_application appData \<and> fc_sender (ac_content content) = SenderMember l \<and>
    fc_authenticatedData (ac_content content) = ad"
  by (rule application_delivery [OF assms])

theorem application_message_delivered_witness:
  "\<exists>msg ta' content tb'. protectApplicationData () [8] [42] [] exContext [Some exNode] 0 (PadUntilLength 16) exSuite
      [1, 2, 3, 4] = Inr (msg, ta') \<and>
    unprotectPrivateMessage [8] msg [Some exNode] [Some (NodeLeaf exLeaf)] exContext defaultKeyRetentionConfig exSuite None
      = Inr (content, tb') \<and> fc_info (ac_content content) = FC_application [42]"
proof -
  obtain msg ta' where sent: "protectApplicationData () [8] [42] [] exContext [Some exNode] 0 (PadUntilLength 16) exSuite
      [1, 2, 3, 4] = Inr (msg, ta')"
    using exSend_Inr unfolding exSend_def by blast
  have node: "sparse_get [Some exNode] (leafToNodeIndex 0) = Some exNode"
    and leaf: "sparse_get [Some (NodeLeaf exLeaf)] (leafToNodeIndex 0) = Some (NodeLeaf exLeaf)"
    by (simp_all add: sparse_get_def leafToNodeIndex_def)
  have good: "goodRatchet (ratchetParams exSuite) [1] (sn_application exNode)"
    using exRatchet_good by (simp add: exNode_def)
  have recv: "canReceive defaultKeyRetentionConfig (sn_application exNode) (rt_generation (sn_application exNode))"
    by (simp add: canReceive_def exNode_def exRatchet_def defaultKeyRetentionConfig_def)
  from application_message_delivered [OF exSuite_ok(1,2,4) node good node good recv _ leaf sent]
  show ?thesis using sent by auto
qed

text \<open>C4: Accepting a private message leaves a secret tree whose ratchets are still good for
  their bases, and the same message is then refused: no private message is accepted twice.\<close>

theorem private_message_replay_refused:
  assumes "goodSecretTree (ratchetParams cs) base tb"
    and "unprotectPrivateMessage secret msg tb tree gc config cs None = Inr (content, tb')"
  shows "goodSecretTree (ratchetParams cs) base tb' \<and>
    unprotectPrivateMessage secret msg tb' tree gc config cs None = Inl ValidationError"
  using unprotect_good [OF assms] by blast

theorem private_message_replay_refused_witness:
  "\<exists>msg tb'. unprotectPrivateMessage [8] msg tb' exTree exContext defaultKeyRetentionConfig exSuite None = Inl ValidationError"
proof -
  obtain msg content tb' where "unprotectPrivateMessage [8] msg [Some exNode] exTree exContext defaultKeyRetentionConfig
      exSuite None = Inr (content, tb')" using exAccepted by blast
  from private_message_replay_refused [OF exSecretTree_good this] show ?thesis by blast
qed

text \<open>C14: A public message from a member that is accepted carried a membership tag that verifies
  under the epoch's membership key, over content that names a non-blank leaf whose key verifies
  the signature; it is never application data.\<close>

theorem public_message_from_member_authenticated:
  assumes "unprotectPublicMessage mk gc tree msg cs None = Inr content" "okPublicMessage msg"
    "fc_sender (pub_content msg) = SenderMember l"
  shows "\<exists>tag lf. pub_info msg = PMI_member tag \<and>
      verifyMembershipTag mk \<lparr>tbm_contentTbs = toTbsContent (pub_content msg) WF_public_message gc,
         tbm_auth = pub_auth msg\<rparr> tag (cs_hash cs) = Inr True \<and>
      sparse_get tree (leafToNodeIndex l) = Some (NodeLeaf lf) \<and>
      verifyFramedContentSignature (ln_signaturePublicKey lf) WF_public_message (pub_content msg) (pub_auth msg) gc
        (cs_signature cs) = Inr True \<and> (\<forall>d. fc_info (pub_content msg) \<noteq> FC_application d)"
  using unprotectPublic_accepts [OF assms(1) _ assms(3)] assms(2) by (simp add: okPublicMessage_def)

theorem public_message_from_member_authenticated_witness:
  "\<exists>(msg :: publicMessage) tag. pub_info msg = PMI_member tag \<and> fc_sender (pub_content msg) = SenderMember 0"
proof -
  obtain msg content where "unprotectPublicMessage [7] exContext exTree msg exSuite None = Inr content"
      "okPublicMessage msg" and l: "fc_sender (pub_content msg) = SenderMember 0"
    using exPublic_accepted by blast
  from public_message_from_member_authenticated [OF this] l show ?thesis by blast
qed

text \<open>C15: An external sender gets a public message through only with one of the five proposal types
  the RFC permits, signed with the key that the group's \<open>external_senders\<close> extension lists
  under its index.\<close>

theorem external_sender_restricted:
  assumes "unprotectPublicMessage mk gc tree msg cs None = Inr content" "fc_sender (pub_content msg) = SenderExternal i"
  shows "\<exists>p t s. fc_info (pub_content msg) = FC_proposal p \<and> proposalTypeName p = Some t \<and>
    t \<in> externalSenderAllowedProposalTypes \<and> senderFromExtension (gc_extensions gc) i = Inr (Some s) \<and>
    verifyFramedContentSignature (es_signaturePublicKey s) WF_public_message (pub_content msg) (pub_auth msg) gc
      (cs_signature cs) = Inr True"
  by (rule unprotectPublic_external [OF assms])

theorem external_sender_restricted_witness:
  "\<exists>(msg :: publicMessage) p. fc_sender (pub_content msg) = SenderExternal 0 \<and> fc_info (pub_content msg) = FC_proposal p"
proof -
  obtain msg content where "unprotectPublicMessage [7] exExternalContext exTree msg exSuite None = Inr content"
      and l: "fc_sender (pub_content msg) = SenderExternal 0"
    using exExternal_accepted by blast
  from external_sender_restricted [OF this] l show ?thesis by blast
qed


text \<open>C16: A proposal that a member protects privately reaches every other member as the same proposal,
  and both sides compute the same proposal reference for it, so that a commit can name it.\<close>

theorem private_proposal_reference_agreed:
  fixes cs :: "('pub, 'priv, 'sk) ciphersuiteImpl"
  assumes "paramsOk (ratchetParams cs)" "aeadCorrect (cs_hpke cs)"
      "signatureCorrect (cs_signature cs) sk (ln_signaturePublicKey lf)"
    and "sparse_get ta (leafToNodeIndex l) = Some na" "goodRatchet (ratchetParams cs) s (sn_handshake na)"
    and "sparse_get tb (leafToNodeIndex l) = Some nb" "goodRatchet (ratchetParams cs) s (sn_handshake nb)"
    and "canReceive config (sn_handshake nb) (rt_generation (sn_handshake na))" "length guard = 4"
    and "sparse_get tree (leafToNodeIndex l) = Some (NodeLeaf lf)" "okProposal p"
    and "protectProposal sk secret p ad gc ta l padding cs guard = Inr (msg, ta', ref)"
  shows "\<exists>content tb'. unprotectPrivateMessage secret msg tb tree gc config cs None = Inr (content, tb') \<and>
    fc_info (ac_content content) = FC_proposal p \<and> fc_sender (ac_content content) = SenderMember l \<and>
    makeProposalRef content (cs_hash cs) = Inr ref"
  by (rule proposal_delivery [OF assms])

theorem private_proposal_reference_agreed_witness:
  "\<exists>msg ref content tb'. unprotectPrivateMessage [8] msg [Some exNode] exTree exContext defaultKeyRetentionConfig exSuite None
      = Inr (content, tb') \<and> fc_info (ac_content content) = FC_proposal (ProposalRemove 3) \<and>
    makeProposalRef content (cs_hash exSuite) = Inr ref"
proof -
  have "case protectProposal () [8] (ProposalRemove 3) [] exContext [Some exNode] 0 (AlwaysPad 2) exSuite [1, 2, 3, 4]
      of Inr _ \<Rightarrow> True | Inl _ \<Rightarrow> False" by code_simp
  then obtain msg ta' ref where sent: "protectProposal () [8] (ProposalRemove 3) [] exContext [Some exNode] 0 (AlwaysPad 2)
      exSuite [1, 2, 3, 4] = Inr (msg, ta', ref)"
    by (auto split: sum.splits prod.splits)
  have good: "goodRatchet (ratchetParams exSuite) [1] (sn_handshake exNode)"
    using exRatchet_good by (simp add: exNode_def)
  have recv: "canReceive defaultKeyRetentionConfig (sn_handshake exNode) (rt_generation (sn_handshake exNode))"
    by (simp add: canReceive_def exNode_def exRatchet_def defaultKeyRetentionConfig_def)
  from private_proposal_reference_agreed [OF exSuite_ok(1,2,4) exNode_get good exNode_get good recv _ exTree_get _ sent]
  show ?thesis by (auto simp: okProposal_def)
qed

section \<open>The wire\<close>

text \<open>C17: Every message in the wire format the decoders produce decodes from its encoding to itself,
  within the size limit of the decoder.\<close>

theorem mls_message_roundtrip:
  assumes "okMlsMessage m" "encodeMlsMessage m = Inr bs" "length bs \<le> MAX_MLS_MESSAGE_SIZE"
  shows "decodeMlsMessage bs 0 = Inr (Some (m, length bs))"
  using mlsMessage.decode_encode [OF assms(1,2)] assms(3) by (simp add: decodeMlsMessage_eq_Some)

theorem mls_message_roundtrip_witness:
  "\<exists>bs. decodeMlsMessage bs 0 = Inr (Some (\<lparr>mm_version = PV_mls10, mm_content = MlsPrivateMessage
     \<lparr>pm_groupId = [1], pm_epoch = 2, pm_contentType = CT_commit, pm_authenticatedData = [],
      pm_encryptedSenderData = [3], pm_ciphertext = [4]\<rparr>\<rparr>, length bs))"
proof -
  let ?m = "\<lparr>mm_version = PV_mls10, mm_content = MlsPrivateMessage \<lparr>pm_groupId = [1], pm_epoch = 2,
      pm_contentType = CT_commit, pm_authenticatedData = [], pm_encryptedSenderData = [3], pm_ciphertext = [4]\<rparr>\<rparr>"
  have "case encodeMlsMessage ?m of Inr bs \<Rightarrow> length bs \<le> 100 | Inl _ \<Rightarrow> False" by code_simp
  then obtain bs where bs: "encodeMlsMessage ?m = Inr bs" "length bs \<le> MAX_MLS_MESSAGE_SIZE"
    by (auto simp: MAX_MLS_MESSAGE_SIZE_def split: sum.splits)
  have "okMlsMessage ?m" by code_simp
  from mls_message_roundtrip [OF this bs] show ?thesis by blast
qed

text \<open>C18: The decoder accepts only canonical bytes: whatever it accepts is exactly the encoding of what
  it returns, so no two byte strings are one message.\<close>

theorem mls_message_canonical:
  assumes "decodeMlsMessage b 0 = Inr (Some (m, n))"
  shows "okMlsMessage m \<and> n = length b \<and> encodeMlsMessage m = Inr b"
  using mlsMessage.canonical [of 0 b m n] assms by (simp add: decodeMlsMessage_eq_Some)

theorem mls_message_canonical_witness:
  "\<exists>m. encodeMlsMessage m = Inr [0, 1, 0, 2, 1, 1, 0, 0, 0, 0, 0, 0, 0, 2, 3, 0, 1, 3, 1, 4]"
proof -
  let ?b = "[0, 1, 0, 2, 1, 1, 0, 0, 0, 0, 0, 0, 0, 2, 3, 0, 1, 3, 1, 4] :: bytes"
  have "case decodeMlsMessageLoose ?b 0 of Inr (Some (m, n)) \<Rightarrow> n = 20 | _ \<Rightarrow> False" by code_simp
  then obtain m where "decodeMlsMessageLoose ?b 0 = Inr (Some (m, 20))" by (auto split: sum.splits option.splits)
  then have "decodeMlsMessage ?b 0 = Inr (Some (m, 20))"
    unfolding decodeMlsMessage_eq_Some by (simp add: MAX_MLS_MESSAGE_SIZE_def)
  from mls_message_canonical [OF this] show ?thesis by blast
qed


text \<open>C19: The bytes a signature covers determine what was signed: two well-formed contents that differ in
  version, wire format, group, epoch, sender, data or, for members and joiners, group context,
  are signed as different bytes.\<close>

theorem signed_content_binding:
  assumes "okFramedContentTBS f" "encodeFramedContentTBS f = Inr a"
    and "okFramedContentTBS g" "encodeFramedContentTBS g = Inr b" and "f \<noteq> g"
  shows "a \<noteq> b"
  using framedContentTBS_inj [OF assms(1) _ assms(3)] assms(2,4,5) by blast

theorem signed_content_binding_witness:
  "encodeFramedContentTBS (toTbsContent (memberContent exContext 0 [] (FC_application [1])) WF_private_message exContext) \<noteq>
   encodeFramedContentTBS (toTbsContent (memberContent exContext 0 [1] (FC_application [])) WF_private_message exContext)"
proof -
  let ?f = "toTbsContent (memberContent exContext 0 [] (FC_application [1])) WF_private_message exContext"
  let ?g = "toTbsContent (memberContent exContext 0 [1] (FC_application [])) WF_private_message exContext"
  have "case encodeFramedContentTBS ?f of Inr _ \<Rightarrow> True | Inl _ \<Rightarrow> False" by code_simp
  then obtain a where a: "encodeFramedContentTBS ?f = Inr a" by (auto split: sum.splits)
  have "case encodeFramedContentTBS ?g of Inr _ \<Rightarrow> True | Inl _ \<Rightarrow> False" by code_simp
  then obtain b where b: "encodeFramedContentTBS ?g = Inr b" by (auto split: sum.splits)
  have "okFramedContentTBS ?f" "okFramedContentTBS ?g" by code_simp+
  from signed_content_binding [OF this(1) a this(2) b] a b show ?thesis
    by (simp add: toTbsContent_def memberContent_def)
qed

text \<open>What opens as the content of a private message is exactly an unpadded encoding followed by zeros:
  nothing hides in the padding, and any amount of it is accepted.\<close>

theorem private_content_padding:
  "decodePrivateMessageContent ct bs 0 = Inr (Some (m, n)) \<longleftrightarrow>
    okPrivateMessageContent m \<and> contentTypeOf (pmc_info m) = ct \<and> n = length bs \<and>
    (\<exists>e k. encodePrivateMessageContent (AlwaysPad 0) m = Inr e \<and> bs = e @ replicate k 0)"
proof -
  have plain: "encodePrivateMessageContent (AlwaysPad 0) m = encodePrivateContentBody m"
    by (simp add: encodePrivateMessageContent_padding encoderWithPadding_def byteLengthToPad_def Let_def res_bind_Inr_right)
  note canonical = padding_canonical [OF privateContentBody_codec, of ct bs m n]
  have "decodePrivateMessageContent ct (e @ replicate k 0) 0 = Inr (Some (m, length (e @ replicate k 0)))"
    if "okPrivateMessageContent m" "contentTypeOf (pmc_info m) = ct" "encodePrivateContentBody m = Inr e" for e k
  proof -
    have "encoderWithPadding encodePrivateContentBody (AlwaysPad (int k)) m = Inr (e @ replicate k 0)"
      using that(3) by (simp add: encoderWithPadding_def byteLengthToPad_def)
    from padding_roundtrip [OF privateContentBody_codec, of m ct, OF _ this] that(1,2)
    show ?thesis by (simp add: decodePrivateMessageContent_padding)
  qed
  then show ?thesis using canonical unfolding plain decodePrivateMessageContent_padding by blast
qed

text \<open>With \<open>PadUntilLength\<close>, every content whose encoding fits has a padded encoding of the same
  length: the ciphertext's length does not tell short messages apart.\<close>

theorem padded_length_uniform:
  assumes "encodePrivateMessageContent (AlwaysPad 0) m = Inr e" "int (length e) \<le> n"
  shows "\<exists>bs. encodePrivateMessageContent (PadUntilLength n) m = Inr bs \<and> int (length bs) = n \<and> take (length e) bs = e"
  using assms by (auto simp: encodePrivateMessageContent_padding encoderWithPadding_def byteLengthToPad_def Let_def
      res_bind_eq_Inr)

theorem padded_length_uniform_witness:
  "\<exists>bs. encodePrivateMessageContent (PadUntilLength 64) \<lparr>pmc_info = FC_application [1, 2],
      pmc_auth = \<lparr>fa_signature = [3], fa_content = AuthApplication\<rparr>\<rparr> = Inr bs \<and> int (length bs) = 64"
proof -
  let ?m = "\<lparr>pmc_info = FC_application [1, 2], pmc_auth = \<lparr>fa_signature = [3], fa_content = AuthApplication\<rparr>\<rparr>"
  have "case encodePrivateMessageContent (AlwaysPad 0) ?m of Inr e \<Rightarrow> int (length e) \<le> 64 | Inl _ \<Rightarrow> False" by code_simp
  then obtain e where "encodePrivateMessageContent (AlwaysPad 0) ?m = Inr e" "int (length e) \<le> 64"
    by (auto split: sum.splits)
  from padded_length_uniform [OF this] show ?thesis by blast
qed

text \<open>C32: A custom credential encodes, and no decoder accepts what it encodes to: the leaf node that
  carries it cannot be read back by any member.\<close>

theorem custom_credential_not_decodable:
  assumes "createCustomCredential i d = Inr c" "encodeCredential c = Inr bs"
  shows "decodeCredential (bs @ rest) 0 = Inr None"
proof -
  have c: "c = CredentialCustom (Numeric i) d" and i: "i \<noteq> 1" "i \<noteq> 2"
    using assms(1) by (auto simp: createCustomCredential_def createCustomCredentialType_def RESERVED_CREDENTIAL_TYPES_def
        split: if_splits)
  obtain t b where t: "encodeCredentialType (Numeric i) = Inr t" "bs = t @ b"
    using assms(2) by (auto simp: c encodeCredential_def encodeCredentialCustom_def contramapEncoders_def encPair_def res_bind_eq_Inr)
  have "ok_open credentialTypes (Numeric i)"
    using i by (simp add: ok_open_def credentialTypes_def)
  from credentialType.decode_encode_prefix [OF this t(1), of "b @ rest"] show ?thesis
    by (simp add: t(2) decodeCredential_def flatMapDecoder_def flatMapDecoderAndMap_def failDecoder_def)
qed

theorem custom_credential_not_decodable_witness:
  "\<exists>c bs. createCustomCredential 5 [1, 2] = Inr c \<and> encodeCredential c = Inr bs \<and> decodeCredential bs 0 = Inr None"
proof -
  have "case createCustomCredential 5 [1, 2] of Inl _ \<Rightarrow> False | Inr c \<Rightarrow>
      (case encodeCredential c of Inl _ \<Rightarrow> False | Inr _ \<Rightarrow> True)" by code_simp
  then obtain c bs where "createCustomCredential 5 [1, 2] = Inr c" "encodeCredential c = Inr bs"
    by (auto split: sum.splits)
  with custom_credential_not_decodable [OF this, of "[]"] show ?thesis by auto
qed

end
